(* ===== verification/Prelude.thy ===== *)
theory Prelude
  imports Main "HOL-Library.Multiset"
begin

text \<open>
  What every component of the development shares: the result of an operation that may throw
  (a sum, the error on the left), the loops over lists that stop at the first error, the numbers
  and strings of the language as far as the code looks at them, and the generic life cycle of an
  entity (a step function that may refuse an event, and the runs it has).
\<close>

named_theorems res_simps \<open>decomposing results of operations that may throw\<close>

section \<open>Operations that may throw\<close>

text \<open>Sequencing: a thrown error leaves the rest of the body unexecuted.\<close>

definition res_bind :: "'e + 'a \<Rightarrow> ('a \<Rightarrow> 'e + 'b) \<Rightarrow> 'e + 'b" where
  "res_bind m f = (case m of Inl e \<Rightarrow> Inl e | Inr x \<Rightarrow> f x)"

lemma res_bind_Inl [simp]: "res_bind (Inl e) f = Inl e"
  by (simp add: res_bind_def)

lemma res_bind_Inr [simp]: "res_bind (Inr x) f = f x"
  by (simp add: res_bind_def)

lemma res_bind_eq_Inr [res_simps]:
  "res_bind m f = Inr y \<longleftrightarrow> (\<exists>x. m = Inr x \<and> f x = Inr y)"
  by (cases m) auto

lemma res_bind_eq_Inl [res_simps]:
  "res_bind m f = Inl e \<longleftrightarrow> m = Inl e \<or> (\<exists>x. m = Inr x \<and> f x = Inl e)"
  by (cases m) auto

lemma if_Inl_eq_Inr [res_simps]:
  "(if b then Inl e else r) = Inr y \<longleftrightarrow> \<not> b \<and> r = Inr y"
  by auto

text \<open>Whether an operation returned, and what it returned.\<close>

fun returns :: "'e + 'a \<Rightarrow> bool" where
  "returns (Inl e) = False"
| "returns (Inr x) = True"

lemma returns_iff: "returns r \<longleftrightarrow> (\<exists>x. r = Inr x)"
  by (cases r) auto

text \<open>Whether an operation returned something that satisfies a predicate.\<close>

definition returned :: "('a \<Rightarrow> bool) \<Rightarrow> 'e + 'a \<Rightarrow> bool" where
  "returned p r = (case r of Inl e \<Rightarrow> False | Inr x \<Rightarrow> p x)"

lemma returnedD: "returned p r \<Longrightarrow> \<exists>x. r = Inr x \<and> p x"
  by (cases r) (auto simp: returned_def)

lemma returned_at: "returned p r \<Longrightarrow> r = Inr x \<Longrightarrow> p x"
  by (simp add: returned_def)

text \<open>A loop that maps a list and one that folds it, both stopping at the first error.\<close>

primrec res_map :: "('a \<Rightarrow> 'e + 'b) \<Rightarrow> 'a list \<Rightarrow> 'e + 'b list" where
  "res_map f [] = Inr []"
| "res_map f (x # xs) = res_bind (f x) (\<lambda>y. res_bind (res_map f xs) (\<lambda>ys. Inr (y # ys)))"

primrec res_fold :: "('s \<Rightarrow> 'a \<Rightarrow> 'e + 's) \<Rightarrow> 's \<Rightarrow> 'a list \<Rightarrow> 'e + 's" where
  "res_fold f s [] = Inr s"
| "res_fold f s (x # xs) = res_bind (f s x) (\<lambda>t. res_fold f t xs)"

lemma res_map_Inr_iff:
  "res_map f xs = Inr ys \<longleftrightarrow> list_all2 (\<lambda>x y. f x = Inr y) xs ys"
proof (induction xs arbitrary: ys)
  case Nil
  then show ?case by auto
next
  case (Cons x xs)
  then show ?case by (cases ys) (auto simp: res_simps)
qed

lemma res_map_length: "res_map f xs = Inr ys \<Longrightarrow> length ys = length xs"
  by (simp add: res_map_Inr_iff list_all2_lengthD)

lemma res_fold_append:
  "res_fold f s (xs @ ys) = res_bind (res_fold f s xs) (\<lambda>t. res_fold f t ys)"
proof (induction xs arbitrary: s)
  case Nil
  then show ?case by simp
next
  case (Cons x xs)
  then show ?case by (cases "f s x") auto
qed

lemma res_fold_inv:
  assumes "res_fold f s xs = Inr t" and "I s"
    and "\<And>u x v. x \<in> set xs \<Longrightarrow> I u \<Longrightarrow> f u x = Inr v \<Longrightarrow> I v"
  shows "I t"
  using assms
proof (induction xs arbitrary: s)
  case Nil
  then show ?case by simp
next
  case (Cons x xs)
  then show ?case by (auto simp: res_simps)
qed

section \<open>Numbers\<close>

text \<open>
  A number that reaches a \<open>Number.isInteger\<close> check: a whole one, or anything else (a fraction,
  NaN, an infinity). Past the check the code only has whole numbers. The doubles it computes with
  them are exact below 2^53, far above every bound the code sets.
\<close>

datatype js_number = Whole int | NotWhole

fun whole_satisfying :: "(int \<Rightarrow> bool) \<Rightarrow> js_number \<Rightarrow> bool" where
  "whole_satisfying p (Whole n) = p n"
| "whole_satisfying p NotWhole = False"

section \<open>Strings\<close>

text \<open>
  A character is a UTF-16 code unit of the Latin-1 range. \<open>String.prototype.trim\<close> takes off
  tabs, line terminators, spaces and no-break spaces; case conversion moves the letters of the
  range, and the German sharp s is two capitals in upper case. (The capitals of the micro sign and
  of y with diaeresis are outside the range: they stay as they are here, and no text the code
  converts to upper case is accepted with either.)
\<close>

definition is_js_space :: "char \<Rightarrow> bool" where
  "is_js_space c = (of_char c \<in> {9, 10, 11, 12, 13, 32, 160 :: nat})"

definition js_trim :: "string \<Rightarrow> string" where
  "js_trim s = rev (dropWhile is_js_space (rev (dropWhile is_js_space s)))"

definition js_lower_char :: "char \<Rightarrow> char" where
  "js_lower_char c =
     (let n = of_char c :: nat
      in if (65 \<le> n \<and> n \<le> 90) \<or> (192 \<le> n \<and> n \<le> 222 \<and> n \<noteq> 215)
         then char_of (n + 32) else c)"

definition js_lower :: "string \<Rightarrow> string" where
  "js_lower s = map js_lower_char s"

definition js_upper_char :: "char \<Rightarrow> string" where
  "js_upper_char c =
     (let n = of_char c :: nat
      in if n = 223 then ''SS''
         else if (97 \<le> n \<and> n \<le> 122) \<or> (224 \<le> n \<and> n \<le> 254 \<and> n \<noteq> 247)
         then [char_of (n - 32)] else [c])"

definition js_upper :: "string \<Rightarrow> string" where
  "js_upper s = concat (map js_upper_char s)"

text \<open>\<open>Array.prototype.join\<close>.\<close>

fun js_join :: "string \<Rightarrow> string list \<Rightarrow> string" where
  "js_join sep [] = []"
| "js_join sep [s] = s"
| "js_join sep (s # t # ss) = s @ sep @ js_join sep (t # ss)"

lemma js_trim_ends:
  "js_trim s \<noteq> [] \<Longrightarrow> \<not> is_js_space (hd (js_trim s)) \<and> \<not> is_js_space (last (js_trim s))"
proof -
  let ?d = "dropWhile is_js_space s"
  let ?e = "dropWhile is_js_space (rev ?d)"
  assume ne: "js_trim s \<noteq> []"
  then have e: "?e \<noteq> []" by (simp add: js_trim_def)
  then have d: "?d \<noteq> []" by (metis dropWhile.simps(1) rev.simps(1))
  have last: "\<not> is_js_space (last (js_trim s))"
    using hd_dropWhile [OF e] e by (simp add: js_trim_def last_rev)
  have "rev ?d = takeWhile is_js_space (rev ?d) @ ?e" by simp
  then have "?d = rev ?e @ rev (takeWhile is_js_space (rev ?d))"
    by (metis rev_append rev_rev_ident)
  then have "hd ?d = hd (rev ?e)" using e by (metis hd_append2 rev_is_Nil_conv)
  moreover have "\<not> is_js_space (hd ?d)" by (rule hd_dropWhile [OF d])
  ultimately show ?thesis using last by (simp add: js_trim_def)
qed

lemma dropWhile_hd_id: "xs = [] \<or> \<not> p (hd xs) \<Longrightarrow> dropWhile p xs = xs"
  by (cases xs) auto

lemma js_trim_id:
  "s = [] \<or> \<not> is_js_space (hd s) \<and> \<not> is_js_space (last s) \<Longrightarrow> js_trim s = s"
  by (auto simp: js_trim_def dropWhile_hd_id hd_rev)

lemma js_trim_idem [simp]: "js_trim (js_trim s) = js_trim s"
  by (rule js_trim_id) (use js_trim_ends in blast)

section \<open>The life cycle of an entity\<close>

text \<open>
  An entity takes events one at a time. An event it refuses throws, and the transaction that
  carried it rolls back: the entity stays as it was.
\<close>

definition attempt :: "('s \<Rightarrow> 'ev \<Rightarrow> 'e + 's) \<Rightarrow> 's \<Rightarrow> 'ev \<Rightarrow> 's" where
  "attempt step s ev = (case step s ev of Inl e \<Rightarrow> s | Inr t \<Rightarrow> t)"

primrec run :: "('s \<Rightarrow> 'ev \<Rightarrow> 'e + 's) \<Rightarrow> 's \<Rightarrow> 'ev list \<Rightarrow> 's" where
  "run step s [] = s"
| "run step s (ev # evs) = run step (attempt step s ev) evs"

text \<open>An operation contract: the events an entity accepts keep its invariant.\<close>

locale lifecycle =
  fixes step :: "'s \<Rightarrow> 'ev \<Rightarrow> 'e + 's"
    and inv :: "'s \<Rightarrow> bool"
  assumes step_inv: "inv s \<Longrightarrow> step s ev = Inr t \<Longrightarrow> inv t"
begin

lemma attempt_inv: "inv s \<Longrightarrow> inv (attempt step s ev)"
  by (auto simp: attempt_def split: sum.split intro: step_inv)

lemma run_inv: "inv s \<Longrightarrow> inv (run step s evs)"
  by (induction evs arbitrary: s) (auto intro: attempt_inv)

end

text \<open>The same when the events carry data that another component answers for.\<close>

locale guarded_lifecycle =
  fixes step :: "'s \<Rightarrow> 'ev \<Rightarrow> 'e + 's"
    and inv :: "'s \<Rightarrow> bool"
    and sound :: "'ev \<Rightarrow> bool"
  assumes sound_step_inv: "inv s \<Longrightarrow> sound ev \<Longrightarrow> step s ev = Inr t \<Longrightarrow> inv t"
begin

lemma sound_attempt_inv: "inv s \<Longrightarrow> sound ev \<Longrightarrow> inv (attempt step s ev)"
  by (auto simp: attempt_def split: sum.split intro: sound_step_inv)

lemma sound_run_inv: "inv s \<Longrightarrow> list_all sound evs \<Longrightarrow> inv (run step s evs)"
  by (induction evs arbitrary: s) (auto intro: sound_attempt_inv)

end

sublocale lifecycle \<subseteq> guarded_lifecycle step inv "\<lambda>ev. True"
  by unfold_locales (rule step_inv)

text \<open>
  An entity with a status: between two statuses only the declared transitions happen. The statuses
  a run reaches are those the transitions reach, and a status without any is final.
\<close>

locale status_machine = lifecycle step inv
  for step :: "'s \<Rightarrow> 'ev \<Rightarrow> 'e + 's" and inv :: "'s \<Rightarrow> bool" +
  fixes status :: "'s \<Rightarrow> 'st"
    and moves :: "('st \<times> 'st) set"
  assumes step_moves:
    "inv s \<Longrightarrow> step s ev = Inr t \<Longrightarrow> status t = status s \<or> (status s, status t) \<in> moves"
begin

lemma attempt_moves:
  "inv s \<Longrightarrow> (status s, status (attempt step s ev)) \<in> moves\<^sup>*"
  by (auto simp: attempt_def split: sum.split dest: step_moves)

lemma run_moves: "inv s \<Longrightarrow> (status s, status (run step s evs)) \<in> moves\<^sup>*"
proof (induction evs arbitrary: s)
  case Nil
  then show ?case by simp
next
  case (Cons ev evs)
  then have "(status (attempt step s ev), status (run step (attempt step s ev) evs)) \<in> moves\<^sup>*"
    by (blast intro: attempt_inv)
  with attempt_moves [OF Cons.prems, of ev] show ?case by (auto intro: rtrancl_trans)
qed

lemma run_final:
  assumes "inv s" and "\<And>st. (status s, st) \<notin> moves"
  shows "status (run step s evs) = status s"
  using run_moves [OF assms(1), of evs] assms(2) by (auto elim: converse_rtranclE)

end

section \<open>Lists\<close>

text \<open>The members of \<open>new Set(xs)\<close> in the order they are visited: each at its first occurrence.\<close>

definition new_set :: "'a list \<Rightarrow> 'a list" where
  "new_set xs = rev (remdups (rev xs))"

lemma set_new_set [simp]: "set (new_set xs) = set xs"
  by (simp add: new_set_def)

lemma distinct_new_set [simp]: "distinct (new_set xs)"
  by (simp add: new_set_def)

lemma new_set_Nil [simp]: "new_set xs = [] \<longleftrightarrow> xs = []"
  by (simp add: new_set_def)

lemma new_set_distinct: "distinct xs \<Longrightarrow> new_set xs = xs"
  by (simp add: new_set_def distinct_remdups_id)

lemma sum_list_update_int:
  fixes xs :: "int list"
  shows "i < length xs \<Longrightarrow> sum_list (xs[i := y]) = sum_list xs - xs ! i + y"
proof (induction xs arbitrary: i)
  case Nil
  then show ?case by simp
next
  case (Cons x xs)
  then show ?case by (cases i) auto
qed

lemma find_SomeD: "find p xs = Some x \<Longrightarrow> x \<in> set xs \<and> p x"
  by (auto simp: find_Some_iff)

lemma find_key: "distinct (map f xs) \<Longrightarrow> x \<in> set xs \<Longrightarrow> find (\<lambda>y. f y = f x) xs = Some x"
  by (induction xs) auto

lemma filter_key: "distinct (map f xs) \<Longrightarrow> x \<in> set xs \<Longrightarrow> filter (\<lambda>y. f y = f x) xs = [x]"
proof (induction xs)
  case Nil
  then show ?case by simp
next
  case (Cons y xs)
  show ?case
  proof (cases "x = y")
    case True
    with Cons.prems have "filter (\<lambda>z. f z = f x) xs = []" by (auto simp: filter_empty_conv image_iff)
    with True show ?thesis by simp
  next
    case False
    with Cons show ?thesis by (auto simp: image_iff)
  qed
qed

lemma distinct_filter_conj:
  "distinct (map f (filter q xs)) \<Longrightarrow> distinct (map f (filter (\<lambda>x. q x \<and> p x) xs))"
  by (induction xs) (auto split: if_splits)

lemma distinct_map_filter_le:
  assumes "distinct (map f (filter p xs))" and "\<And>x. f (g x) = f x" and "\<And>x. x \<in> set xs \<Longrightarrow> p (g x) \<Longrightarrow> p x"
  shows "distinct (map f (filter p (map g xs)))"
  using assms by (induction xs) (auto split: if_splits)

lemma same_key: "distinct (map f xs) \<Longrightarrow> x \<in> set xs \<Longrightarrow> y \<in> set xs \<Longrightarrow> f x = f y \<Longrightarrow> x = y"
  by (rule inj_onD [of f "set xs"]) (simp_all add: distinct_map)

lemma sum_list_sort_key: "sum_list (map f (sort_key g xs)) = (sum_list (map f xs) :: int)"
proof -
  have "sum_mset (mset (map f (sort_key g xs))) = sum_mset (mset (map f xs))" by simp
  then show ?thesis by (simp only: sum_mset_sum_list)
qed

lemma sort_eq_mset: "sort xs = sort ys \<Longrightarrow> mset xs = mset ys"
  by (metis mset_sort)

lemma sum_list_nonneg_int: "(\<And>x. x \<in> set xs \<Longrightarrow> 0 \<le> x) \<Longrightarrow> 0 \<le> sum_list (xs :: int list)"
  by (induction xs) auto

lemma member_le_sum_list_int:
  "x \<in> set xs \<Longrightarrow> (\<And>y. y \<in> set xs \<Longrightarrow> 0 \<le> y) \<Longrightarrow> x \<le> sum_list (xs :: int list)"
proof (induction xs)
  case Nil
  then show ?case by simp
next
  case (Cons a xs)
  then show ?case using sum_list_nonneg_int [of xs] by (fastforce)
qed

lemma div_less_int: "0 < (b :: int) \<Longrightarrow> a < c * b \<Longrightarrow> a div b < c"
proof -
  assume b: "0 < b" and "a < c * b"
  have "b * (a div b) \<le> a" using pos_mod_sign [OF b, of a] mult_div_mod_eq [of b a] by linarith
  with \<open>a < c * b\<close> have "b * (a div b) < b * c" by (simp add: mult.commute)
  with b show "a div b < c" by simp
qed

text \<open>Changing some rows, each of which then no longer has a property it had, leaves so many fewer with it.\<close>

lemma length_filter_changed:
  assumes "distinct ws" and "distinct rs" and sub: "set rs \<subseteq> set ws" and P: "list_all P rs" and ch: "\<And>r. P r \<Longrightarrow> \<not> P (change r)"
  shows "length (filter P (map (\<lambda>r. if r \<in> set rs then change r else r) ws)) = length (filter P ws) - length rs"
proof -
  have "filter P (map (\<lambda>r. if r \<in> set rs then change r else r) us) = filter (\<lambda>r. P r \<and> r \<notin> set rs) us" for us
    using P ch by (induction us) (auto simp: list_all_iff)
  then have "length (filter P (map (\<lambda>r. if r \<in> set rs then change r else r) ws)) = length (filter (\<lambda>r. P r \<and> r \<notin> set rs) ws)"
    by simp
  also have "\<dots> = card ({r \<in> set ws. P r} - set rs)"
    by (subst distinct_length_filter [OF assms(1)]) (rule arg_cong [where f = card], blast)
  also have "\<dots> = card {r \<in> set ws. P r} - card (set rs)"
    using sub P by (intro card_Diff_subset) (auto simp: list_all_iff)
  also have "card {r \<in> set ws. P r} = length (filter P ws)"
    by (subst distinct_length_filter [OF assms(1)]) (rule arg_cong [where f = card], blast)
  also have "card (set rs) = length rs" using assms(2) by (rule distinct_card)
  finally show ?thesis .
qed

text \<open>
  Sorting by one key after another orders by both, and with no two alike who is among the first \<open>n\<close> has fewer than
  \<open>n\<close> before it.
\<close>

definition before_by :: "('a \<Rightarrow> 'b::linorder) \<Rightarrow> ('a \<Rightarrow> 'c::linorder) \<Rightarrow> 'a \<Rightarrow> 'a \<Rightarrow> bool" where
  "before_by f g x y = (f x < f y \<or> f x = f y \<and> g x < g y)"

lemma insort_before_by:
  assumes "sorted_wrt (before_by f g) ys" and "\<And>y. y \<in> set ys \<Longrightarrow> g x < g y"
  shows "sorted_wrt (before_by f g) (insort_key f x ys)"
  using assms
proof (induction ys)
  case (Cons y ys)
  have head: "g x < g y" and rest: "sorted_wrt (before_by f g) (insort_key f x ys)" using Cons by simp_all
  show ?case
  proof (cases "f x \<le> f y")
    case True
    then have "before_by f g x y" using head by (auto simp: before_by_def)
    moreover have "before_by f g x z" if "z \<in> set ys" for z
      using that True Cons.prems by (fastforce simp: before_by_def)
    ultimately show ?thesis using True Cons.prems(1) by simp
  next
    case False
    then have "before_by f g y x" by (simp add: before_by_def not_le)
    then show ?thesis using False Cons.prems(1) rest by (simp add: set_insort_key)
  qed
qed simp

lemma sorted_before_by:
  assumes "sorted_wrt (\<lambda>x y. g x < g y) xs"
  shows "sorted_wrt (before_by f g) (sort_key f xs)"
  using assms
proof (induction xs)
  case (Cons a xs)
  have "sorted_wrt (before_by f g) (insort_key f a (sort_key f xs))"
    by (rule insort_before_by) (use Cons in simp_all)
  then show ?case by simp
qed simp

lemma sort_distinct_key: "distinct (map g xs) \<Longrightarrow> sorted_wrt (\<lambda>x y. g x < g y) (sort_key g xs)"
proof -
  assume "distinct (map g xs)"
  then have "distinct (map g (sort_key g xs))" by (simp add: distinct_map)
  moreover have "sorted (map g (sort_key g xs))" by (rule sorted_sort_key)
  ultimately have "sorted_wrt (<) (map g (sort_key g xs))" by (simp only: strict_sorted_iff)
  then show ?thesis by (simp only: sorted_wrt_map)
qed

lemma among_first:
  assumes s: "sorted_wrt (before_by f g) ys" and d: "d \<in> set ys"
  shows "d \<in> set (take n ys) \<longleftrightarrow> length (filter (\<lambda>e. before_by f g e d) ys) < n"
    and "n \<le> length (filter (\<lambda>e. before_by f g e d) ys) \<Longrightarrow> list_all (\<lambda>e. before_by f g e d) (take n ys)"
proof -
  obtain us vs where ys: "ys = us @ d # vs" using d by (meson split_list)
  have u: "before_by f g e d" if "e \<in> set us" for e using s that by (simp add: ys sorted_wrt_append)
  have "before_by f g d e" if "e \<in> set vs" for e using s that by (simp add: ys sorted_wrt_append)
  then have v: "\<not> before_by f g e d" if "e \<in> set (d # vs)" for e using that by (fastforce simp: before_by_def)
  have "filter (\<lambda>e. before_by f g e d) us = us" using u by (simp add: filter_id_conv)
  moreover have "filter (\<lambda>e. before_by f g e d) (d # vs) = []" using v by (simp only: filter_empty_conv) blast
  ultimately have f: "filter (\<lambda>e. before_by f g e d) ys = us" by (simp only: ys filter_append append_Nil2)
  have "d \<notin> set us" using u v by auto
  then show "d \<in> set (take n ys) \<longleftrightarrow> length (filter (\<lambda>e. before_by f g e d) ys) < n"
    unfolding f by (auto simp: ys take_Cons' dest: in_set_takeD)
  show "n \<le> length (filter (\<lambda>e. before_by f g e d) ys) \<Longrightarrow> list_all (\<lambda>e. before_by f g e d) (take n ys)"
    unfolding f using u by (auto simp: ys list_all_iff dest: in_set_takeD)
qed

end
