(* ===== verification/Errors.thy ===== *)
theory Errors
  imports Prelude
begin

text \<open>
  What the code throws (\<open>shared-kernel/domain-error.ts\<close> and the error files of the modules):
  one constructor per subclass of \<open>DomainError\<close>, with the values its \<open>details\<close> carry, and the
  stable problem code and category of each. A plain \<open>Error\<close>, which is a programming error and no
  business rule, is \<open>PlainError\<close>. Static messages are kept; identifiers are numbers: the
  canonical lowercase text of a UUID orders as the 128-bit number it spells does.
\<close>

type_synonym id = nat

text \<open>Instants: milliseconds since the epoch, as \<open>Date.prototype.getTime\<close> gives them.\<close>

type_synonym time = int

datatype category = Invalid | Forbidden | Missing | Conflict | TooLarge | Unsupported

subsection \<open>Ordering\<close>

datatype coupon_refusal =
    RefusedUnavailable | RefusedExhausted | RefusedMinimumNotMet | RefusedNoEligibleLines
  | RefusedAlreadyUsed | RefusedBuyerRequired

datatype location_problem = UnknownState | MunicipalityNotInState | InactiveMunicipality

datatype ordering_error =
    SourceCartUnavailableError
  | ActiveOrdersExistError
  | EmptyCartError
  | EmailNotVerifiedError
  | VariantNotSellableError (not_sellable: "id list")
  | CouponNotApplicableError coupon_refusal
  | TotalMismatchError (current_total: int)
  | RestockNotAllowedError (restock_status: string)
  | UnknownOrderLineError (restock_index: nat)
  | InvalidShippingAddressError location_problem

fun ordering_error_code :: "ordering_error \<Rightarrow> string" where
  "ordering_error_code SourceCartUnavailableError = ''source-cart-unavailable''"
| "ordering_error_code ActiveOrdersExistError = ''active-orders-exist''"
| "ordering_error_code EmptyCartError = ''empty-cart''"
| "ordering_error_code EmailNotVerifiedError = ''email-not-verified''"
| "ordering_error_code (VariantNotSellableError vs) = ''variant-not-sellable''"
| "ordering_error_code (CouponNotApplicableError r) = ''coupon-not-applicable''"
| "ordering_error_code (TotalMismatchError t) = ''total-mismatch''"
| "ordering_error_code (RestockNotAllowedError s) = ''restock-not-allowed''"
| "ordering_error_code (UnknownOrderLineError i) = ''validation-error''"
| "ordering_error_code (InvalidShippingAddressError p) = ''validation-error''"

fun ordering_error_category :: "ordering_error \<Rightarrow> category" where
  "ordering_error_category EmailNotVerifiedError = Forbidden"
| "ordering_error_category (UnknownOrderLineError i) = Invalid"
| "ordering_error_category (InvalidShippingAddressError p) = Invalid"
| "ordering_error_category _ = Conflict"

subsection \<open>Inventory\<close>

record restock_limit =
  limit_line :: id
  limit_sold :: int
  limit_restocked :: int
  limit_requested :: int

datatype stock_error =
    AdjustmentDirectionError
  | AdjustmentNoteRequiredError
  | InsufficientStockError (short_variants: "id list")
  | RestockLimitError "restock_limit list"
  | LastActiveWarehouseError
  | InvalidWarehouseLocationError location_problem

fun stock_error_code :: "stock_error \<Rightarrow> string" where
  "stock_error_code AdjustmentDirectionError = ''validation-error''"
| "stock_error_code AdjustmentNoteRequiredError = ''validation-error''"
| "stock_error_code (InsufficientStockError vs) = ''insufficient-stock''"
| "stock_error_code (RestockLimitError ls) = ''restock-not-allowed''"
| "stock_error_code LastActiveWarehouseError = ''invalid-state-transition''"
| "stock_error_code (InvalidWarehouseLocationError p) = ''validation-error''"

fun stock_error_category :: "stock_error \<Rightarrow> category" where
  "stock_error_category (InsufficientStockError vs) = Conflict"
| "stock_error_category (RestockLimitError ls) = Conflict"
| "stock_error_category LastActiveWarehouseError = Conflict"
| "stock_error_category _ = Invalid"

subsection \<open>Payments\<close>

datatype payment_error = ManualPaymentsDisabledError | ProviderNotEnabledError (provider_name: string)

fun payment_error_code :: "payment_error \<Rightarrow> string" where
  "payment_error_code ManualPaymentsDisabledError = ''manual-payments-disabled''"
| "payment_error_code (ProviderNotEnabledError p) = ''validation-error''"

fun payment_error_category :: "payment_error \<Rightarrow> category" where
  "payment_error_category ManualPaymentsDisabledError = Forbidden"
| "payment_error_category (ProviderNotEnabledError p) = Invalid"

subsection \<open>Promotions\<close>

datatype end_problem = AfterStart | InFuture

datatype promotion_error =
    PromotionEndError end_problem
  | UsageLimitError (uses_so_far: int)
  | UnusableTargetsError "(nat \<times> bool) list"

subsection \<open>Shipping\<close>

datatype tracking_problem = TrackingRequired | TrackingNotAllowed

datatype shipping_error = DispatchTrackingError tracking_problem | DeliveryRangeError

subsection \<open>Shopping\<close>

datatype cart_error =
    CartNotActiveError (cart_status_name: string)
  | CartVariantNotSellableError "id list"
  | LineQuantityError (line_max: int)
  | CartLineLimitError (line_limit: int)

fun cart_error_code :: "cart_error \<Rightarrow> string" where
  "cart_error_code (CartNotActiveError s) = ''cart-not-active''"
| "cart_error_code (CartVariantNotSellableError vs) = ''variant-not-sellable''"
| "cart_error_code (LineQuantityError n) = ''validation-error''"
| "cart_error_code (CartLineLimitError n) = ''cart-line-limit-reached''"

fun cart_error_category :: "cart_error \<Rightarrow> category" where
  "cart_error_category (LineQuantityError n) = Invalid"
| "cart_error_category _ = Conflict"

subsection \<open>Pricing\<close>

datatype price_period_conflict = Overlap | AlreadyStarted

datatype pricing_error = PricePeriodConflictError price_period_conflict | CompareAtAmountError

subsection \<open>Identity and access\<close>

datatype password_problem = PasswordLength | PasswordCharacters | CommonPassword | SamePassword

datatype identity_error =
    LastSuperadminError
  | SuperadminOnlyPermissionError (reserved_permissions: "string list")
  | SuperadminPermissionsFixedError
  | PermissionNotHeldError
  | UnknownRolesError
  | InvalidAddressLocationError location_problem
  | SameEmailError
  | PasswordPolicyViolationError password_problem (password_field: string)
  | AddressLimitReachedError (address_limit: int)

fun identity_error_code :: "identity_error \<Rightarrow> string" where
  "identity_error_code LastSuperadminError = ''last-superadmin''"
| "identity_error_code PermissionNotHeldError = ''forbidden''"
| "identity_error_code (PasswordPolicyViolationError p f) = ''password-policy-violation''"
| "identity_error_code (AddressLimitReachedError n) = ''address-limit-reached''"
| "identity_error_code _ = ''validation-error''"

fun identity_error_category :: "identity_error \<Rightarrow> category" where
  "identity_error_category LastSuperadminError = Conflict"
| "identity_error_category PermissionNotHeldError = Forbidden"
| "identity_error_category (AddressLimitReachedError n) = Conflict"
| "identity_error_category _ = Invalid"

subsection \<open>Work orders\<close>

datatype work_order_error = SaleNotLinkableError (sale_status_name: string) | OpenWorkOrdersError

fun work_order_error_code :: "work_order_error \<Rightarrow> string" where
  "work_order_error_code (SaleNotLinkableError s) = ''sale-not-linkable''"
| "work_order_error_code OpenWorkOrdersError = ''active-orders-exist''"

section \<open>Everything an operation throws\<close>

datatype thrown =
    InvalidValueError string
  | VersionConflictError (current_version: int)
  | InvalidStateTransitionError (current_status: string) (refused_action: string)
  | DuplicateValueError (duplicate_field: string)
  | NotFoundError (missing_resource: string) (missing_id: id)
  | ResourceInUseError string
  | InvalidOrExpiredTokenError
  | OrderingError ordering_error
  | StockError stock_error
  | PaymentError payment_error
  | PromotionError promotion_error
  | ShippingError shipping_error
  | CartError cart_error
  | PricingError pricing_error
  | IdentityError identity_error
  | WorkOrderError work_order_error
  | PlainError string

type_synonym 'a result = "thrown + 'a"

text \<open>The problem code of an error; a plain one has none and is answered as an internal error.\<close>

fun error_code :: "thrown \<Rightarrow> string option" where
  "error_code (InvalidValueError m) = Some ''validation-error''"
| "error_code (VersionConflictError v) = Some ''version-conflict''"
| "error_code (InvalidStateTransitionError s a) = Some ''invalid-state-transition''"
| "error_code (DuplicateValueError f) = Some ''duplicate-value''"
| "error_code (NotFoundError r i) = Some ''not-found''"
| "error_code (ResourceInUseError m) = Some ''resource-in-use''"
| "error_code InvalidOrExpiredTokenError = Some ''invalid-or-expired-token''"
| "error_code (OrderingError e) = Some (ordering_error_code e)"
| "error_code (StockError e) = Some (stock_error_code e)"
| "error_code (PaymentError e) = Some (payment_error_code e)"
| "error_code (PromotionError e) = Some ''validation-error''"
| "error_code (ShippingError e) = Some ''validation-error''"
| "error_code (CartError e) = Some (cart_error_code e)"
| "error_code (PricingError (PricePeriodConflictError r)) = Some ''price-period-conflict''"
| "error_code (PricingError CompareAtAmountError) = Some ''validation-error''"
| "error_code (IdentityError e) = Some (identity_error_code e)"
| "error_code (WorkOrderError e) = Some (work_order_error_code e)"
| "error_code (PlainError m) = None"

text \<open>Rejects a change sent for another version than the stored one (\<open>assertVersion\<close>).\<close>

definition assert_version :: "int \<Rightarrow> int \<Rightarrow> unit result" where
  "assert_version current requested =
     (if current \<noteq> requested then Inl (VersionConflictError current) else Inr ())"

lemma assert_version_Inr [simp]: "assert_version c r = Inr u \<longleftrightarrow> c = r"
  by (simp add: assert_version_def)

end
