(* ===== verification/Cart.thy ===== *)
theory Cart
  imports Errors "HOL-Library.AList" "HOL-Library.Product_Lexorder"
begin

text \<open>
  The cart of a guest or a customer (\<open>shopping/domain/cart.ts\<close>). The map of its lines is an association
  list in insertion order; the set of the variants its repository must write has each of them once.
\<close>

datatype cart_status = CART_ACTIVE | CHECKED_OUT | MERGED

fun cart_status_name :: "cart_status \<Rightarrow> string" where
  "cart_status_name CART_ACTIVE = ''ACTIVE''"
| "cart_status_name CHECKED_OUT = ''CHECKED_OUT''"
| "cart_status_name MERGED = ''MERGED''"

definition MAX_LINE_QUANTITY :: int where
  "MAX_LINE_QUANTITY = 30"

definition MAX_CART_LINES :: int where
  "MAX_CART_LINES = 100"

record cart_item =
  cit_variant :: id
  cit_quantity :: int

record cart_line =
  cl_variant :: id
  cl_quantity :: int
  cl_added_at :: time

record cart =
  ct_id :: id
  ct_owner :: "id option"
  ct_status :: cart_status
  ct_merged_into :: "id option"
  ct_activity_at :: time
  ct_version :: int
  ct_lines :: "(id \<times> cart_line) list"
  ct_touched :: "id list"
  ct_changed :: bool

definition assert_quantity :: "js_number \<Rightarrow> int result" where
  "assert_quantity quantity =
     (case quantity of
        NotWhole \<Rightarrow> Inl (InvalidValueError ''A line holds a whole number of units above zero'')
      | Whole q \<Rightarrow>
          if q < 1 then Inl (InvalidValueError ''A line holds a whole number of units above zero'')
          else if q > MAX_LINE_QUANTITY then Inl (CartError (LineQuantityError MAX_LINE_QUANTITY))
          else Inr q)"

definition open_cart :: "id \<Rightarrow> id option \<Rightarrow> time \<Rightarrow> cart" where
  "open_cart i owner now =
     \<lparr>ct_id = i, ct_owner = owner, ct_status = CART_ACTIVE, ct_merged_into = None,
      ct_activity_at = now, ct_version = 1, ct_lines = [], ct_touched = [], ct_changed = True\<rparr>"

text \<open>The lines, oldest first.\<close>

definition cart_lines :: "cart \<Rightarrow> cart_line list" where
  "cart_lines c = sort_key (\<lambda>l. (cl_added_at l, cl_variant l)) (map snd (ct_lines c))"

definition quantity_of :: "cart \<Rightarrow> id \<Rightarrow> int" where
  "quantity_of c v = (case map_of (ct_lines c) v of Some l \<Rightarrow> cl_quantity l | None \<Rightarrow> 0)"

definition assert_cart_active :: "cart \<Rightarrow> unit result" where
  "assert_cart_active c =
     (if ct_status c \<noteq> CART_ACTIVE
      then Inl (CartError (CartNotActiveError (cart_status_name (ct_status c)))) else Inr ())"

definition touch_cart :: "time \<Rightarrow> cart \<Rightarrow> cart" where
  "touch_cart now c = c\<lparr>ct_activity_at := now, ct_changed := True\<rparr>"

definition add_touched :: "id \<Rightarrow> id list \<Rightarrow> id list" where
  "add_touched v vs = (if v \<in> set vs then vs else vs @ [v])"

definition put_line :: "id \<Rightarrow> int \<Rightarrow> time \<Rightarrow> cart \<Rightarrow> cart" where
  "put_line v quantity now c =
     (let added = (case map_of (ct_lines c) v of Some l \<Rightarrow> cl_added_at l | None \<Rightarrow> now)
      in touch_cart now
           (c\<lparr>ct_lines := AList.update v \<lparr>cl_variant = v, cl_quantity = quantity, cl_added_at = added\<rparr> (ct_lines c),
              ct_touched := add_touched v (ct_touched c)\<rparr>))"

definition add_to_cart :: "id \<Rightarrow> js_number \<Rightarrow> time \<Rightarrow> cart \<Rightarrow> cart result" where
  "add_to_cart v quantity now c =
     res_bind (assert_cart_active c) (\<lambda>_.
       if map_of (ct_lines c) v = None \<and> int (length (ct_lines c)) \<ge> MAX_CART_LINES
       then Inl (CartError (CartLineLimitError MAX_CART_LINES))
       else
         res_bind (assert_quantity quantity) (\<lambda>q.
         res_bind (assert_quantity (Whole (quantity_of c v + q))) (\<lambda>sum.
           Inr (put_line v sum now c))))"

definition change_line :: "id \<Rightarrow> js_number \<Rightarrow> time \<Rightarrow> cart \<Rightarrow> (bool \<times> cart) result" where
  "change_line v quantity now c =
     res_bind (assert_cart_active c) (\<lambda>_.
     res_bind (assert_quantity quantity) (\<lambda>q.
       case map_of (ct_lines c) v of
         None \<Rightarrow> Inr (False, c)
       | Some l \<Rightarrow> Inr (True, if cl_quantity l \<noteq> q then put_line v q now c else c)))"

definition remove_line :: "id \<Rightarrow> time \<Rightarrow> cart \<Rightarrow> cart result" where
  "remove_line v now c =
     res_bind (assert_cart_active c) (\<lambda>_.
       if map_of (ct_lines c) v = None then Inr c
       else Inr (touch_cart now
              (c\<lparr>ct_lines := AList.delete v (ct_lines c), ct_touched := add_touched v (ct_touched c)\<rparr>)))"

definition add_capped_one :: "time \<Rightarrow> cart_item \<Rightarrow> cart \<Rightarrow> cart" where
  "add_capped_one now i c =
     (let current = quantity_of c (cit_variant i);
          quantity = min (current + cit_quantity i) MAX_LINE_QUANTITY
      in if quantity \<noteq> current then put_line (cit_variant i) quantity now c else c)"

definition add_capped :: "cart_item list \<Rightarrow> time \<Rightarrow> cart \<Rightarrow> cart" where
  "add_capped items now c = fold (add_capped_one now) items c"

definition items_of_lines :: "cart_line list \<Rightarrow> cart_item list" where
  "items_of_lines ls = map (\<lambda>l. \<lparr>cit_variant = cl_variant l, cit_quantity = cl_quantity l\<rparr>) ls"

text \<open>The operations on two carts give both, this one first.\<close>

definition absorb_cart :: "cart \<Rightarrow> time \<Rightarrow> cart \<Rightarrow> (cart \<times> cart) result" where
  "absorb_cart guest now c =
     res_bind (assert_cart_active c) (\<lambda>_.
     res_bind (assert_cart_active guest) (\<lambda>_.
       Inr (touch_cart now (add_capped (items_of_lines (cart_lines guest)) now c),
            touch_cart now (guest\<lparr>ct_status := MERGED, ct_merged_into := Some (ct_id c)\<rparr>))))"

definition reactivate_cart :: "time \<Rightarrow> cart \<Rightarrow> bool \<times> cart" where
  "reactivate_cart now c =
     (if ct_status c \<noteq> CHECKED_OUT then (False, c)
      else (True, touch_cart now (c\<lparr>ct_status := CART_ACTIVE\<rparr>)))"

definition absorb_order :: "cart \<Rightarrow> cart_item list \<Rightarrow> time \<Rightarrow> cart \<Rightarrow> (bool \<times> cart \<times> cart) result" where
  "absorb_order source items now c =
     res_bind (assert_cart_active c) (\<lambda>_.
       if ct_status source \<noteq> CHECKED_OUT then Inr (False, c, source)
       else Inr (True, touch_cart now (add_capped items now c),
                 touch_cart now (source\<lparr>ct_status := MERGED, ct_merged_into := Some (ct_id c)\<rparr>)))"

definition adopt_cart :: "id \<Rightarrow> time \<Rightarrow> cart \<Rightarrow> cart result" where
  "adopt_cart customer now c =
     res_bind (assert_cart_active c) (\<lambda>_. Inr (touch_cart now (c\<lparr>ct_owner := Some customer\<rparr>)))"

definition check_out_cart :: "time \<Rightarrow> cart \<Rightarrow> cart result" where
  "check_out_cart now c =
     res_bind (assert_cart_active c) (\<lambda>_. Inr (touch_cart now (c\<lparr>ct_status := CHECKED_OUT\<rparr>)))"

definition copy_order_lines :: "cart_item list \<Rightarrow> time \<Rightarrow> cart \<Rightarrow> cart result" where
  "copy_order_lines items now c =
     res_bind (assert_cart_active c) (\<lambda>_. Inr (touch_cart now (add_capped items now c)))"

definition kept_of :: "cart_item list \<Rightarrow> (id \<times> int) list" where
  "kept_of items =
     fold (\<lambda>i. AList.update (cit_variant i) (min (cit_quantity i) MAX_LINE_QUANTITY)) items []"

definition drop_unkept :: "(id \<times> int) list \<Rightarrow> id \<Rightarrow> cart \<Rightarrow> cart" where
  "drop_unkept kept v c =
     (if map_of kept v \<noteq> None then c
      else c\<lparr>ct_lines := AList.delete v (ct_lines c), ct_touched := add_touched v (ct_touched c)\<rparr>)"

definition put_kept :: "time \<Rightarrow> id \<times> int \<Rightarrow> cart \<Rightarrow> cart" where
  "put_kept now kq c =
     (if map_option cl_quantity (map_of (ct_lines c) (fst kq)) \<noteq> Some (snd kq)
      then put_line (fst kq) (snd kq) now c else c)"

definition reopen_with :: "cart_item list \<Rightarrow> time \<Rightarrow> cart \<Rightarrow> cart result" where
  "reopen_with items now c =
     (if ct_status c \<noteq> CHECKED_OUT
      then Inl (CartError (CartNotActiveError (cart_status_name (ct_status c))))
      else
        let kept = kept_of items;
            c1 = fold (drop_unkept kept) (map fst (ct_lines c)) c;
            c2 = fold (put_kept now) kept c1
        in Inr (touch_cart now (c2\<lparr>ct_status := CART_ACTIVE\<rparr>)))"

section \<open>What a cart keeps\<close>

definition wf_lines :: "(id \<times> cart_line) list \<Rightarrow> bool" where
  "wf_lines ls \<longleftrightarrow>
     distinct (map fst ls) \<and>
     (\<forall>(v, l)\<in>set ls. cl_variant l = v \<and> 1 \<le> cl_quantity l \<and> cl_quantity l \<le> MAX_LINE_QUANTITY)"

definition wf_cart :: "cart \<Rightarrow> bool" where
  "wf_cart c \<longleftrightarrow> wf_lines (ct_lines c) \<and> (ct_status c = MERGED \<longleftrightarrow> ct_merged_into c \<noteq> None)"

text \<open>The units of the items of an order are at least one each.\<close>

definition whole_items :: "cart_item list \<Rightarrow> bool" where
  "whole_items items \<longleftrightarrow> (\<forall>i\<in>set items. 1 \<le> cit_quantity i)"

lemma assert_quantity_Inr [res_simps]:
  "assert_quantity n = Inr q \<longleftrightarrow> n = Whole q \<and> 1 \<le> q \<and> q \<le> MAX_LINE_QUANTITY"
  by (auto simp: assert_quantity_def split: js_number.split)

lemma assert_cart_active_Inr [res_simps]: "assert_cart_active c = Inr u \<longleftrightarrow> ct_status c = CART_ACTIVE"
  by (simp add: assert_cart_active_def)

lemma touch_cart_simps [simp]:
  "ct_lines (touch_cart now c) = ct_lines c" "ct_status (touch_cart now c) = ct_status c"
  "ct_merged_into (touch_cart now c) = ct_merged_into c" "ct_id (touch_cart now c) = ct_id c"
  "ct_owner (touch_cart now c) = ct_owner c" "ct_touched (touch_cart now c) = ct_touched c"
  "ct_activity_at (touch_cart now c) = now" "ct_version (touch_cart now c) = ct_version c"
  by (simp_all add: touch_cart_def)

lemma put_line_simps [simp]:
  "ct_status (put_line v q now c) = ct_status c" "ct_merged_into (put_line v q now c) = ct_merged_into c"
  "ct_id (put_line v q now c) = ct_id c" "ct_owner (put_line v q now c) = ct_owner c"
  "ct_version (put_line v q now c) = ct_version c"
  "ct_touched (put_line v q now c) = add_touched v (ct_touched c)"
  by (simp_all add: put_line_def Let_def)

lemma set_add_touched [simp]: "set (add_touched v vs) = insert v (set vs)"
  by (auto simp: add_touched_def)

lemma map_of_put_line:
  "map_of (ct_lines (put_line v q now c)) =
     (map_of (ct_lines c))(v \<mapsto> \<lparr>cl_variant = v, cl_quantity = q,
        cl_added_at = (case map_of (ct_lines c) v of Some l \<Rightarrow> cl_added_at l | None \<Rightarrow> now)\<rparr>)"
  by (simp add: put_line_def Let_def update_conv')

lemma quantity_of_put_line [simp]:
  "quantity_of (put_line v q now c) w = (if w = v then q else quantity_of c w)"
  by (simp add: quantity_of_def map_of_put_line)

lemma quantity_of_touch [simp]: "quantity_of (touch_cart now c) v = quantity_of c v"
  by (simp add: quantity_of_def)

lemma wf_linesD:
  "wf_lines ls \<Longrightarrow> map_of ls v = Some l \<Longrightarrow>
     cl_variant l = v \<and> 1 \<le> cl_quantity l \<and> cl_quantity l \<le> MAX_LINE_QUANTITY"
  by (auto simp: wf_lines_def dest: map_of_SomeD)

lemma wf_linesI:
  assumes "distinct (map fst ls)"
    and "\<And>v l. map_of ls v = Some l \<Longrightarrow> cl_variant l = v \<and> 1 \<le> cl_quantity l \<and> cl_quantity l \<le> MAX_LINE_QUANTITY"
  shows "wf_lines ls"
  unfolding wf_lines_def using assms map_of_is_SomeI [OF assms(1)] by blast

lemma wf_lines_distinct: "wf_lines ls \<Longrightarrow> distinct (map fst ls)"
  by (simp add: wf_lines_def)

lemma put_line_wf:
  assumes "wf_lines (ct_lines c)" and "1 \<le> q" and "q \<le> MAX_LINE_QUANTITY"
  shows "wf_lines (ct_lines (put_line v q now c))"
proof (rule wf_linesI)
  show "distinct (map fst (ct_lines (put_line v q now c)))"
    using wf_lines_distinct [OF assms(1)] by (simp add: put_line_def Let_def distinct_update)
  show "cl_variant l = w \<and> 1 \<le> cl_quantity l \<and> cl_quantity l \<le> MAX_LINE_QUANTITY"
    if "map_of (ct_lines (put_line v q now c)) w = Some l" for w l
    using that assms(2,3) wf_linesD [OF assms(1), of w l] by (auto simp: map_of_put_line split: if_splits)
qed

lemma quantity_of_bounds:
  assumes "wf_lines (ct_lines c)"
  shows "0 \<le> quantity_of c v \<and> quantity_of c v \<le> MAX_LINE_QUANTITY"
  using wf_linesD [OF assms, of v] by (cases "map_of (ct_lines c) v") (auto simp: quantity_of_def MAX_LINE_QUANTITY_def)

lemma add_capped_one_simps [simp]:
  "ct_status (add_capped_one now i c) = ct_status c" "ct_merged_into (add_capped_one now i c) = ct_merged_into c"
  "ct_id (add_capped_one now i c) = ct_id c" "ct_owner (add_capped_one now i c) = ct_owner c"
  by (simp_all add: add_capped_one_def Let_def)

lemma add_capped_simps [simp]:
  "ct_status (add_capped items now c) = ct_status c" "ct_merged_into (add_capped items now c) = ct_merged_into c"
  "ct_id (add_capped items now c) = ct_id c" "ct_owner (add_capped items now c) = ct_owner c"
  unfolding add_capped_def by (induction items arbitrary: c) auto

lemma add_capped_one_wf:
  "wf_lines (ct_lines c) \<Longrightarrow> 1 \<le> cit_quantity i \<Longrightarrow> wf_lines (ct_lines (add_capped_one now i c))"
  using quantity_of_bounds [of c "cit_variant i"]
  by (auto simp: add_capped_one_def Let_def MAX_LINE_QUANTITY_def intro!: put_line_wf)

lemma add_capped_wf:
  "wf_lines (ct_lines c) \<Longrightarrow> whole_items items \<Longrightarrow> wf_lines (ct_lines (add_capped items now c))"
  unfolding add_capped_def
  by (induction items arbitrary: c) (auto simp: whole_items_def intro: add_capped_one_wf)

text \<open>The units asked of a variant.\<close>

definition units_asked :: "cart_item list \<Rightarrow> id \<Rightarrow> int" where
  "units_asked items v = (\<Sum>i\<leftarrow>items. if cit_variant i = v then cit_quantity i else 0)"

lemma units_asked_nonneg: "whole_items items \<Longrightarrow> 0 \<le> units_asked items v"
  unfolding units_asked_def whole_items_def by (rule sum_list_nonneg_int) force

lemma add_capped_quantity:
  assumes "wf_lines (ct_lines c)" and "whole_items items"
  shows "quantity_of (add_capped items now c) v = min MAX_LINE_QUANTITY (quantity_of c v + units_asked items v)"
  using assms
proof (induction items arbitrary: c)
  case Nil
  then show ?case using quantity_of_bounds [of c v] by (simp add: add_capped_def units_asked_def)
next
  case (Cons i items)
  have whole: "1 \<le> cit_quantity i" "whole_items items" using Cons.prems(2) by (auto simp: whole_items_def)
  have step: "quantity_of (add_capped_one now i c) v
      = min MAX_LINE_QUANTITY (quantity_of c v + (if cit_variant i = v then cit_quantity i else 0))"
    using quantity_of_bounds [OF Cons.prems(1), of v] by (auto simp: add_capped_one_def Let_def)
  have "quantity_of (add_capped (i # items) now c) v
      = min MAX_LINE_QUANTITY (quantity_of (add_capped_one now i c) v + units_asked items v)"
    using Cons.IH [OF add_capped_one_wf [OF Cons.prems(1) whole(1)] whole(2)] by (simp add: add_capped_def)
  then show ?case using step units_asked_nonneg [OF whole(2), of v] by (simp add: units_asked_def)
qed


section \<open>Reopening\<close>

lemma kept_of_simp: "kept_of (items @ [i]) =
    AList.update (cit_variant i) (min (cit_quantity i) MAX_LINE_QUANTITY) (kept_of items)"
  by (simp add: kept_of_def)

lemma kept_of_whole:
  assumes "whole_items items"
  shows "distinct (map fst (kept_of items)) \<and> (\<forall>e\<in>set (kept_of items). 1 \<le> snd e \<and> snd e \<le> MAX_LINE_QUANTITY)"
  using assms
proof (induction items rule: rev_induct)
  case Nil
  then show ?case by (simp add: kept_of_def)
next
  case (snoc i items)
  have sub: "set (AList.update k v al) \<subseteq> insert (k, v) (set al)" for k v and al :: "(id \<times> int) list"
    by (induction al) auto
  from snoc have "1 \<le> cit_quantity i" "whole_items items" by (auto simp: whole_items_def)
  with snoc.IH show ?case
    using sub [of "cit_variant i" "min (cit_quantity i) MAX_LINE_QUANTITY" "kept_of items"]
    by (fastforce simp: kept_of_simp distinct_update MAX_LINE_QUANTITY_def)
qed

lemma drop_unkept_simps [simp]:
  "ct_status (drop_unkept kept v c) = ct_status c" "ct_merged_into (drop_unkept kept v c) = ct_merged_into c"
  "ct_id (drop_unkept kept v c) = ct_id c" "ct_owner (drop_unkept kept v c) = ct_owner c"
  by (simp_all add: drop_unkept_def)

lemma put_kept_simps [simp]:
  "ct_status (put_kept now kq c) = ct_status c" "ct_merged_into (put_kept now kq c) = ct_merged_into c"
  "ct_id (put_kept now kq c) = ct_id c" "ct_owner (put_kept now kq c) = ct_owner c"
  by (simp_all add: put_kept_def)

lemma fold_drop_simps [simp]:
  "ct_status (fold (drop_unkept kept) vs c) = ct_status c"
  "ct_merged_into (fold (drop_unkept kept) vs c) = ct_merged_into c"
  "ct_id (fold (drop_unkept kept) vs c) = ct_id c" "ct_owner (fold (drop_unkept kept) vs c) = ct_owner c"
  by (induction vs arbitrary: c) auto

lemma fold_put_simps [simp]:
  "ct_status (fold (put_kept now) ks c) = ct_status c" "ct_merged_into (fold (put_kept now) ks c) = ct_merged_into c"
  "ct_id (fold (put_kept now) ks c) = ct_id c" "ct_owner (fold (put_kept now) ks c) = ct_owner c"
  by (induction ks arbitrary: c) auto

lemma map_of_drop_unkept:
  "map_of (ct_lines (drop_unkept kept v c)) =
     (if map_of kept v = None then (map_of (ct_lines c))(v := None) else map_of (ct_lines c))"
  by (simp add: drop_unkept_def delete_conv')

lemma map_of_fold_drop:
  "map_of (ct_lines (fold (drop_unkept kept) vs c)) w =
     (if w \<in> set vs \<and> map_of kept w = None then None else map_of (ct_lines c) w)"
  by (induction vs arbitrary: c) (auto simp: map_of_drop_unkept)

lemma set_delete_subset: "set (AList.delete k al) \<subseteq> set al"
  by (induction al) auto

lemma drop_unkept_wf: "wf_lines (ct_lines c) \<Longrightarrow> wf_lines (ct_lines (drop_unkept kept v c))"
  using set_delete_subset [of v "ct_lines c"]
  by (auto simp: drop_unkept_def wf_lines_def distinct_delete)

lemma fold_drop_wf: "wf_lines (ct_lines c) \<Longrightarrow> wf_lines (ct_lines (fold (drop_unkept kept) vs c))"
  by (induction vs arbitrary: c) (auto intro: drop_unkept_wf)

lemma fold_put_wf:
  "wf_lines (ct_lines c) \<Longrightarrow> \<forall>e\<in>set ks. 1 \<le> snd e \<and> snd e \<le> MAX_LINE_QUANTITY \<Longrightarrow>
     wf_lines (ct_lines (fold (put_kept now) ks c))"
proof (induction ks arbitrary: c)
  case Nil
  then show ?case by simp
next
  case (Cons k ks)
  then have "wf_lines (ct_lines (put_kept now k c))" by (simp add: put_kept_def put_line_wf)
  with Cons show ?case by simp
qed

section \<open>What its operations keep\<close>

datatype cart_event =
    AddUnits id js_number time
  | ChangeLine id js_number time
  | RemoveLine id time
  | AbsorbGuest cart time
  | AbsorbOrder cart "cart_item list" time
  | Reactivate time
  | Adopt id time
  | CheckOut time
  | CopyOrderLines "cart_item list" time
  | ReopenWith "cart_item list" time

fun cart_step :: "cart \<Rightarrow> cart_event \<Rightarrow> cart result" where
  "cart_step c (AddUnits v q now) = add_to_cart v q now c"
| "cart_step c (ChangeLine v q now) = res_bind (change_line v q now c) (\<lambda>(found, t). Inr t)"
| "cart_step c (RemoveLine v now) = remove_line v now c"
| "cart_step c (AbsorbGuest guest now) = res_bind (absorb_cart guest now c) (\<lambda>(t, g). Inr t)"
| "cart_step c (AbsorbOrder source items now) =
     res_bind (absorb_order source items now c) (\<lambda>(done, t, g). Inr t)"
| "cart_step c (Reactivate now) = Inr (snd (reactivate_cart now c))"
| "cart_step c (Adopt customer now) = adopt_cart customer now c"
| "cart_step c (CheckOut now) = check_out_cart now c"
| "cart_step c (CopyOrderLines items now) = copy_order_lines items now c"
| "cart_step c (ReopenWith items now) = reopen_with items now c"

text \<open>The items an event brings are lines of orders and of other carts: whole units of each.\<close>

fun brings_whole :: "cart_event \<Rightarrow> bool" where
  "brings_whole (AbsorbGuest guest now) = wf_cart guest"
| "brings_whole (AbsorbOrder source items now) = whole_items items"
| "brings_whole (CopyOrderLines items now) = whole_items items"
| "brings_whole (ReopenWith items now) = whole_items items"
| "brings_whole _ = True"

lemma cart_lines_set: "set (cart_lines c) = snd ` set (ct_lines c)"
  by (simp add: cart_lines_def)

lemma guest_items_whole: "wf_cart guest \<Longrightarrow> whole_items (items_of_lines (cart_lines guest))"
  by (force simp: whole_items_def items_of_lines_def cart_lines_set wf_cart_def wf_lines_def)

lemma cart_step_wf:
  assumes wf: "wf_cart c" and step: "cart_step c ev = Inr t" and whole: "brings_whole ev"
  shows "wf_cart t"
proof -
  have lines: "wf_lines (ct_lines c)" and mark: "ct_status c = MERGED \<longleftrightarrow> ct_merged_into c \<noteq> None"
    using wf by (simp_all add: wf_cart_def)
  show ?thesis
  proof (cases ev)
    case (RemoveLine v now)
    with step lines mark set_delete_subset [of v "ct_lines c"] show ?thesis
      by (auto simp: remove_line_def res_simps wf_cart_def wf_lines_def distinct_delete split: if_splits)
  next
    case (ReopenWith items now)
    with whole kept_of_whole have "\<forall>e\<in>set (kept_of items). 1 \<le> snd e \<and> snd e \<le> MAX_LINE_QUANTITY" by simp
    with fold_put_wf [OF fold_drop_wf [OF lines]] ReopenWith step mark show ?thesis
      by (auto simp: reopen_with_def Let_def wf_cart_def split: if_splits)
  next
    case (AbsorbGuest guest now)
    with whole have "whole_items (items_of_lines (cart_lines guest))" by (simp add: guest_items_whole)
    with AbsorbGuest step lines mark show ?thesis
      by (auto simp: absorb_cart_def res_simps wf_cart_def add_capped_wf)
  next
    case (AbsorbOrder source items now)
    with step whole lines mark show ?thesis
      by (auto simp: absorb_order_def res_simps wf_cart_def add_capped_wf split: if_splits)
  next
    case (AddUnits v q now)
    with step lines mark show ?thesis
      by (auto simp: add_to_cart_def res_simps wf_cart_def intro!: put_line_wf split: if_splits)
  next
    case (ChangeLine v q now)
    with step lines mark show ?thesis
      by (auto simp: change_line_def res_simps wf_cart_def intro!: put_line_wf split: if_splits option.splits)
  qed (use step whole lines mark in \<open>auto simp: reactivate_cart_def adopt_cart_def check_out_cart_def
        copy_order_lines_def res_simps wf_cart_def add_capped_wf split: if_splits\<close>)
qed

section \<open>Saving only what changed\<close>

text \<open>
  \<open>PrismaCartRepository.save\<close>: of the touched variants, those without a line are deleted and the others
  written; a row that exists keeps when it was added.
\<close>

definition upsert_row :: "cart_line \<Rightarrow> (id \<times> cart_line) list \<Rightarrow> (id \<times> cart_line) list" where
  "upsert_row l rows =
     AList.update (cl_variant l)
       (case map_of rows (cl_variant l) of Some r \<Rightarrow> r\<lparr>cl_quantity := cl_quantity l\<rparr> | None \<Rightarrow> l) rows"

definition saved_rows :: "(id \<times> cart_line) list \<Rightarrow> cart \<Rightarrow> (id \<times> cart_line) list" where
  "saved_rows rows c =
     (let removed = filter (\<lambda>v. map_of (ct_lines c) v = None) (ct_touched c);
          kept = List.map_filter (map_of (ct_lines c)) (ct_touched c)
      in fold upsert_row kept (filter (\<lambda>(v, l). v \<notin> set removed) rows))"

text \<open>
  The touched variants track every change: an untouched variant has the line it was read with, and a
  line that was there is as old as it was.
\<close>

definition tracks :: "(id \<times> cart_line) list \<Rightarrow> cart \<Rightarrow> bool" where
  "tracks rows c \<longleftrightarrow>
     (\<forall>v. v \<notin> set (ct_touched c) \<longrightarrow> map_of (ct_lines c) v = map_of rows v) \<and>
     (\<forall>v l r. map_of (ct_lines c) v = Some l \<longrightarrow> map_of rows v = Some r \<longrightarrow> cl_added_at l = cl_added_at r)"

lemma map_of_filter_keys: "map_of (filter (\<lambda>(v, l). p v) rows) w = (if p w then map_of rows w else None)"
  by (induction rows) auto

lemma upsert_rows:
  assumes "\<forall>l\<in>set ls. \<exists>v. map_of lines v = Some l" and "\<And>v l. map_of lines v = Some l \<Longrightarrow> cl_variant l = v"
  shows "map_of (fold upsert_row ls rows) w =
     (case map_of lines w of
        Some l \<Rightarrow> if l \<in> set ls then
                   Some (case map_of rows w of Some r \<Rightarrow> r\<lparr>cl_quantity := cl_quantity l\<rparr> | None \<Rightarrow> l)
                 else map_of rows w
      | None \<Rightarrow> map_of rows w)"
  using assms(1)
proof (induction ls arbitrary: rows)
  case Nil
  then show ?case by (simp split: option.split)
next
  case (Cons k ls)
  then obtain v where v: "map_of lines v = Some k" "cl_variant k = v" using assms(2) by auto
  have up: "map_of (upsert_row k rows) = (map_of rows)(v \<mapsto>
      (case map_of rows v of Some r \<Rightarrow> r\<lparr>cl_quantity := cl_quantity k\<rparr> | None \<Rightarrow> k))"
    by (simp add: upsert_row_def v(2) update_conv')
  have same: "l = k" if "map_of lines v = Some l" for l using that v(1) by simp
  have other: "l \<noteq> k" if "map_of lines w = Some l" "w \<noteq> v" for l using that assms(2) v by blast
  show ?case
    using Cons.IH [of "upsert_row k rows"] Cons.prems v(1) other
    by (cases "w = v") (auto simp: up split: option.splits)
qed

lemma saved_rows_exact:
  assumes tracks: "tracks rows c" and wf: "wf_lines (ct_lines c)" and rows: "wf_lines rows"
  shows "map_of (saved_rows rows c) = map_of (ct_lines c)"
proof
  fix w
  let ?lines = "ct_lines c"
  define kept where "kept = List.map_filter (map_of ?lines) (ct_touched c)"
  define removed where "removed = filter (\<lambda>v. map_of ?lines v = None) (ct_touched c)"
  define rest where "rest = filter (\<lambda>(v, l). v \<notin> set removed) rows"
  have kept: "l \<in> set kept \<longleftrightarrow> (\<exists>v\<in>set (ct_touched c). map_of ?lines v = Some l)" for l
    by (force simp: kept_def List.map_filter_def)
  have keys: "cl_variant l = v" if "map_of ?lines v = Some l" for v l using wf_linesD [OF wf that] by simp
  have eq: "map_of (saved_rows rows c) w = (case map_of ?lines w of
        Some l \<Rightarrow> if l \<in> set kept then
                   Some (case map_of rest w of Some r \<Rightarrow> r\<lparr>cl_quantity := cl_quantity l\<rparr> | None \<Rightarrow> l)
                 else map_of rest w
      | None \<Rightarrow> map_of rest w)"
    unfolding saved_rows_def Let_def kept_def [symmetric] removed_def [symmetric] rest_def [symmetric]
    by (rule upsert_rows) (use kept keys in auto)
  have rest: "map_of rest w = (if w \<in> set removed then None else map_of rows w)"
    unfolding rest_def using map_of_filter_keys [of "\<lambda>v. v \<notin> set removed" rows w] by simp
  show "map_of (saved_rows rows c) w = map_of ?lines w"
  proof (cases "w \<in> set (ct_touched c)")
    case False
    then have same: "map_of ?lines w = map_of rows w" using tracks by (simp add: tracks_def)
    have "l \<notin> set kept" if "map_of ?lines w = Some l" for l
      using that kept keys False by metis
    with eq rest same False show ?thesis by (auto simp: removed_def split: option.split)
  next
    case True
    show ?thesis
    proof (cases "map_of ?lines w")
      case None
      with True eq rest show ?thesis by (simp add: removed_def)
    next
      case (Some l)
      with True have "l \<in> set kept" "w \<notin> set removed" by (auto simp: kept removed_def)
      moreover have "r\<lparr>cl_quantity := cl_quantity l\<rparr> = l" if "map_of rows w = Some r" for r
      proof -
        have "cl_added_at r = cl_added_at l" using tracks Some that by (simp add: tracks_def)
        moreover have "cl_variant r = cl_variant l" using keys [OF Some] wf_linesD [OF rows that] by simp
        ultimately show ?thesis by (cases r, cases l) simp
      qed
      ultimately show ?thesis using eq rest Some by (auto split: option.split)
    qed
  qed
qed

text \<open>
  A change keeps the touched variants in step with the lines as long as it puts only lines of variants
  \<open>K\<close> whose row, when there is one, still has its line.
\<close>

definition keeps_on :: "id set \<Rightarrow> (id \<times> cart_line) list \<Rightarrow> cart \<Rightarrow> bool" where
  "keeps_on K rows c \<longleftrightarrow> tracks rows c \<and> (\<forall>v\<in>K. map_of rows v \<noteq> None \<longrightarrow> map_of (ct_lines c) v \<noteq> None)"

lemma keeps_on_tracks: "keeps_on K rows c \<Longrightarrow> tracks rows c"
  by (simp add: keeps_on_def)

lemma read_keeps: "ct_touched c = [] \<Longrightarrow> keeps_on K (ct_lines c) c"
  by (simp add: keeps_on_def tracks_def)

lemma touch_tracks [simp]: "tracks rows (touch_cart now c) = tracks rows c"
  by (simp add: tracks_def)

lemma tracks_updates [simp]:
  "tracks rows (c\<lparr>ct_status := s\<rparr>) = tracks rows c" "tracks rows (c\<lparr>ct_owner := w\<rparr>) = tracks rows c"
  by (simp_all add: tracks_def)

lemma put_keeps: "keeps_on K rows c \<Longrightarrow> v \<in> K \<Longrightarrow> keeps_on K rows (put_line v q now c)"
  by (auto simp: keeps_on_def tracks_def map_of_put_line split: option.splits)

lemma add_capped_keeps: "keeps_on UNIV rows c \<Longrightarrow> keeps_on UNIV rows (add_capped items now c)"
  unfolding add_capped_def
  by (induction items arbitrary: c) (auto simp: add_capped_one_def Let_def put_keeps)

lemma remove_tracks:
  "tracks rows c \<Longrightarrow>
     tracks rows (c\<lparr>ct_lines := AList.delete v (ct_lines c), ct_touched := add_touched v (ct_touched c)\<rparr>)"
  by (auto simp: tracks_def delete_conv' split: if_splits)

lemma drop_keeps:
  "keeps_on {v. map_of kept v \<noteq> None} rows c \<Longrightarrow>
     keeps_on {v. map_of kept v \<noteq> None} rows (fold (drop_unkept kept) vs c)"
proof (induction vs arbitrary: c)
  case Nil
  then show ?case by simp
next
  case (Cons v vs)
  have "keeps_on {v. map_of kept v \<noteq> None} rows (drop_unkept kept v c)"
    using Cons.prems by (auto simp: keeps_on_def tracks_def drop_unkept_def delete_conv' split: if_splits)
  with Cons.IH show ?case by simp
qed

lemma put_kept_keeps:
  "keeps_on K rows c \<Longrightarrow> fst ` set ks \<subseteq> K \<Longrightarrow> keeps_on K rows (fold (put_kept now) ks c)"
  by (induction ks arbitrary: c) (auto simp: put_kept_def put_keeps)

lemma cart_step_tracks:
  assumes read: "ct_touched c = []" and step: "cart_step c ev = Inr t"
  shows "tracks (ct_lines c) t"
proof -
  note keeps = read_keeps [OF read]
  note capped = keeps_on_tracks [OF add_capped_keeps [OF keeps]]
  note tracked = keeps_on_tracks [OF keeps]
  show ?thesis
  proof (cases ev)
    case (AddUnits v q now)
    with step show ?thesis
      by (auto simp: add_to_cart_def res_simps intro!: keeps_on_tracks put_keeps keeps split: if_splits)
  next
    case (ChangeLine v q now)
    with step obtain n l where "t = c \<or> t = put_line v n now c"
      by (auto simp: change_line_def res_simps split: option.splits if_splits)
    with tracked keeps_on_tracks [OF put_keeps [OF keeps UNIV_I]] show ?thesis by blast
  next
    case (RemoveLine v now)
    with step tracked remove_tracks [OF tracked, of v] show ?thesis
      by (auto simp: remove_line_def res_simps split: if_splits)
  next
    case (ReopenWith items now)
    define kept where "kept = kept_of items"
    have "keeps_on {v. map_of kept v \<noteq> None} (ct_lines c)
        (fold (put_kept now) kept (fold (drop_unkept kept) (map fst (ct_lines c)) c))"
      by (rule put_kept_keeps [OF drop_keeps [OF keeps]]) (auto simp: map_of_eq_None_iff)
    with ReopenWith step show ?thesis
      by (auto simp: reopen_with_def Let_def kept_def dest!: keeps_on_tracks split: if_splits)
  next
    case (AbsorbGuest guest now)
    with step capped show ?thesis by (auto simp: absorb_cart_def res_simps)
  next
    case (AbsorbOrder source items now)
    with step capped tracked show ?thesis
      by (auto simp: absorb_order_def res_simps split: if_splits)
  next
    case (Reactivate now)
    with step tracked show ?thesis by (auto simp: reactivate_cart_def split: if_splits)
  next
    case (Adopt v now)
    with step tracked show ?thesis by (auto simp: adopt_cart_def res_simps)
  next
    case (CheckOut now)
    with step tracked show ?thesis by (auto simp: check_out_cart_def res_simps)
  next
    case (CopyOrderLines items now)
    with step capped show ?thesis by (auto simp: copy_order_lines_def res_simps)
  qed
qed

text \<open>What an operation does to everything but the lines: which cart it is, whose, and where it was merged.\<close>

fun owner_after :: "cart_event \<Rightarrow> id option \<Rightarrow> id option" where
  "owner_after (Adopt customer now) w = Some customer"
| "owner_after _ w = w"

lemma cart_step_frame:
  "cart_step c ev = Inr t \<Longrightarrow> ct_id t = ct_id c \<and> ct_merged_into t = ct_merged_into c
     \<and> ct_owner t = owner_after ev (ct_owner c)"
  by (cases ev) (auto simp: add_to_cart_def change_line_def remove_line_def absorb_cart_def absorb_order_def
      reactivate_cart_def adopt_cart_def check_out_cart_def copy_order_lines_def reopen_with_def Let_def
      res_simps split: if_splits option.splits)

fun status_after :: "cart_event \<Rightarrow> cart_status \<Rightarrow> cart_status" where
  "status_after (Reactivate now) st = (if st = CHECKED_OUT then CART_ACTIVE else st)"
| "status_after (CheckOut now) st = CHECKED_OUT"
| "status_after (ReopenWith items now) st = CART_ACTIVE"
| "status_after _ st = st"

lemma cart_step_status: "cart_step c ev = Inr t \<Longrightarrow> ct_status t = status_after ev (ct_status c)"
  by (cases ev) (auto simp: add_to_cart_def change_line_def remove_line_def absorb_cart_def absorb_order_def
      reactivate_cart_def adopt_cart_def check_out_cart_def copy_order_lines_def reopen_with_def Let_def
      res_simps split: if_splits option.splits)

text \<open>Only an active cart changes, but for the ones that become active again.\<close>

lemma adopted_was_active: "cart_step c (Adopt customer now) = Inr t \<Longrightarrow> ct_status c = CART_ACTIVE"
  by (auto simp: adopt_cart_def res_simps)

interpretation cart_life: guarded_lifecycle cart_step wf_cart brings_whole
  by unfold_locales (rule cart_step_wf)

end
