(* ===== verification/Cleanup.thy ===== *)
theory Cleanup
  imports Errors
begin

text \<open>
  The cleanup in batches every module shares (\<open>shared-kernel/cleanup.ts\<close>). One statement deletes at most
  a batch, and the loop ends when a batch comes back short or after the last one of the run.
\<close>

definition CLEANUP_BATCH_SIZE :: nat where
  "CLEANUP_BATCH_SIZE = 1000"

definition CLEANUP_MAX_BATCHES :: nat where
  "CLEANUP_MAX_BATCHES = 100"

text \<open>The batches left, and what the ones before deleted.\<close>

primrec delete_in_batches :: "('s \<Rightarrow> nat \<Rightarrow> nat \<times> 's) \<Rightarrow> nat \<Rightarrow> nat \<Rightarrow> nat \<Rightarrow> 's \<Rightarrow> nat \<times> 's" where
  "delete_in_batches deleteBatch batch_size 0 deleted s = (deleted, s)"
| "delete_in_batches deleteBatch batch_size (Suc batches) deleted s =
     (let (count, t) = deleteBatch s batch_size
      in if count < batch_size then (deleted + count, t)
         else delete_in_batches deleteBatch batch_size batches (deleted + count) t)"

definition days_before :: "time \<Rightarrow> int \<Rightarrow> time" where
  "days_before now days = now - days * 86400000"

text \<open>
  What a batch promises: it deletes as many of the rows to delete as the limit lets it, and answers how many;
  what holds of the tables and survives one batch survives the run.
\<close>

locale batch_deletion =
  fixes deleteBatch :: "'s \<Rightarrow> nat \<Rightarrow> nat \<times> 's"
    and left :: "'s \<Rightarrow> nat"
    and inv :: "'s \<Rightarrow> bool"
    and kept :: "'s \<Rightarrow> 's \<Rightarrow> bool"
  assumes batch: "inv s \<Longrightarrow> deleteBatch s limit = (n, t) \<Longrightarrow> n = min limit (left s) \<and> left t = left s - n"
    and batch_inv: "inv s \<Longrightarrow> deleteBatch s limit = (n, t) \<Longrightarrow> inv t \<and> kept s t"
    and kept_refl: "kept s s"
    and kept_trans: "kept s t \<Longrightarrow> kept t u \<Longrightarrow> kept s u"
begin

lemma run_deletes:
  assumes "delete_in_batches deleteBatch batch_size batches deleted s = (n, t)" and "inv s"
  shows "n = deleted + min (batches * batch_size) (left s) \<and> left t = left s - (n - deleted)
    \<and> inv t \<and> kept s t"
  using assms
proof (induction batches arbitrary: deleted s)
  case 0
  then show ?case by (simp add: kept_refl)
next
  case (Suc batches)
  obtain count u where one: "deleteBatch s batch_size = (count, u)" by (cases "deleteBatch s batch_size")
  note first = batch [OF Suc.prems(2) one] batch_inv [OF Suc.prems(2) one]
  show ?case
  proof (cases "count < batch_size")
    case True
    with one Suc.prems(1) first show ?thesis by auto
  next
    case False
    with one Suc.prems(1) have "delete_in_batches deleteBatch batch_size batches (deleted + count) u = (n, t)"
      by simp
    from Suc.IH [OF this] first have
      rest: "n = deleted + count + min (batches * batch_size) (left u)" "left t = left u - (n - (deleted + count))"
        "inv t" "kept u t" by blast+
    from first False have "count = batch_size" "left u = left s - batch_size" "batch_size \<le> left s"
      by (auto simp: min_def split: if_splits)
    with rest first show ?thesis by (auto simp: min_def intro: kept_trans)
  qed
qed

lemma run_empties:
  assumes "delete_in_batches deleteBatch batch_size batches 0 s = (n, t)" and "inv s"
    and "left s \<le> batches * batch_size"
  shows "left t = 0"
  using run_deletes [OF assms(1,2)] assms(3) by simp

end

end
