(* ===== verification/Money.thy ===== *)
theory Money
  imports Errors
begin

text \<open>
  Amounts of money (\<open>shared-kernel/money.ts\<close>): whole cents between zero and the largest value a
  money column holds, and the VAT contained in an amount, rounded to the cent with halves up. The
  constructor of the class is private, so \<open>valid_money\<close> is what every amount the code has satisfies.
\<close>

datatype currency = MXN

record money =
  amount :: int
  currency :: currency

definition MAX_MONEY_AMOUNT :: int where
  "MAX_MONEY_AMOUNT = 2147483647"

definition MAX_TAX_RATE_BASIS_POINTS :: int where
  "MAX_TAX_RATE_BASIS_POINTS = 10000"

definition money_of :: "js_number \<Rightarrow> currency \<Rightarrow> money result" where
  "money_of n c =
     (case n of
        NotWhole \<Rightarrow> Inl (InvalidValueError ''Money amount must be a whole number of cents'')
      | Whole a \<Rightarrow>
          if a < 0 \<or> a > MAX_MONEY_AMOUNT
          then Inl (InvalidValueError ''Money amount must be a whole number of cents'')
          else Inr \<lparr>amount = a, currency = c\<rparr>)"

definition money_zero :: "currency \<Rightarrow> money" where
  "money_zero c = \<lparr>amount = 0, currency = c\<rparr>"

text \<open>Mixing currencies is a programming error, thrown before anything else.\<close>

definition assert_same_currency :: "money \<Rightarrow> money \<Rightarrow> unit result" where
  "assert_same_currency a b =
     (if currency b \<noteq> currency a then Inl (PlainError ''Cannot combine money'') else Inr ())"

definition money_add :: "money \<Rightarrow> money \<Rightarrow> money result" where
  "money_add a b =
     res_bind (assert_same_currency a b)
       (\<lambda>_. money_of (Whole (amount a + amount b)) (currency a))"

definition money_subtract :: "money \<Rightarrow> money \<Rightarrow> money result" where
  "money_subtract a b =
     res_bind (assert_same_currency a b)
       (\<lambda>_. money_of (Whole (amount a - amount b)) (currency a))"

definition money_multiply :: "money \<Rightarrow> js_number \<Rightarrow> money result" where
  "money_multiply a quantity =
     (case quantity of
        NotWhole \<Rightarrow> Inl (InvalidValueError ''Quantity must be a whole number, zero or more'')
      | Whole q \<Rightarrow>
          if q < 0 then Inl (InvalidValueError ''Quantity must be a whole number, zero or more'')
          else money_of (Whole (amount a * q)) (currency a))"

text \<open>
  The division is exact on big integers, whose quotient and remainder of non-negative numbers are
  \<open>div\<close> and \<open>mod\<close>. The result is built without the range check, as the code does.
\<close>

definition rounded_half_up :: "int \<Rightarrow> int \<Rightarrow> int" where
  "rounded_half_up numerator denominator =
     (let quotient = numerator div denominator; remainder = numerator mod denominator
      in if 2 * remainder \<ge> denominator then quotient + 1 else quotient)"

definition contained_tax :: "money \<Rightarrow> js_number \<Rightarrow> money result" where
  "contained_tax a rate =
     (case rate of
        NotWhole \<Rightarrow> Inl (InvalidValueError ''Tax rate must be a whole number of basis points'')
      | Whole r \<Rightarrow>
          if r < 0 \<or> r > MAX_TAX_RATE_BASIS_POINTS
          then Inl (InvalidValueError ''Tax rate must be a whole number of basis points'')
          else Inr \<lparr>amount = rounded_half_up (amount a * r) (MAX_TAX_RATE_BASIS_POINTS + r),
                    currency = currency a\<rparr>)"

definition money_is_zero :: "money \<Rightarrow> bool" where
  "money_is_zero a = (amount a = 0)"

definition money_equals :: "money \<Rightarrow> money \<Rightarrow> bool" where
  "money_equals a b = (currency a = currency b \<and> amount a = amount b)"

definition compare_to :: "money \<Rightarrow> money \<Rightarrow> int result" where
  "compare_to a b = res_bind (assert_same_currency a b) (\<lambda>_. Inr (amount a - amount b))"

definition greater_than :: "money \<Rightarrow> money \<Rightarrow> bool result" where
  "greater_than a b = res_bind (compare_to a b) (\<lambda>d. Inr (d > 0))"

definition greater_than_or_equal :: "money \<Rightarrow> money \<Rightarrow> bool result" where
  "greater_than_or_equal a b = res_bind (compare_to a b) (\<lambda>d. Inr (d \<ge> 0))"

definition less_than :: "money \<Rightarrow> money \<Rightarrow> bool result" where
  "less_than a b = res_bind (compare_to a b) (\<lambda>d. Inr (d < 0))"

definition less_than_or_equal :: "money \<Rightarrow> money \<Rightarrow> bool result" where
  "less_than_or_equal a b = res_bind (compare_to a b) (\<lambda>d. Inr (d \<le> 0))"

section \<open>What the operations keep\<close>

definition valid_money :: "money \<Rightarrow> bool" where
  "valid_money a \<longleftrightarrow> 0 \<le> amount a \<and> amount a \<le> MAX_MONEY_AMOUNT"

lemma currency_eq [simp]: "(c :: currency) = d"
  by (cases c; cases d) simp

lemma valid_money_zero [simp]: "valid_money (money_zero c)"
  by (simp add: valid_money_def money_zero_def MAX_MONEY_AMOUNT_def)

lemma amount_money_zero [simp]: "amount (money_zero c) = 0"
  by (simp add: money_zero_def)

lemma money_of_Inr [res_simps]:
  "money_of n c = Inr m \<longleftrightarrow> (\<exists>a. n = Whole a \<and> valid_money m \<and> amount m = a)"
  by (cases m) (auto simp: money_of_def valid_money_def split: js_number.split)

lemma money_add_Inr [res_simps]:
  "money_add a b = Inr m \<longleftrightarrow> valid_money m \<and> amount m = amount a + amount b"
  by (auto simp: money_add_def assert_same_currency_def res_simps)

lemma money_subtract_Inr [res_simps]:
  "money_subtract a b = Inr m \<longleftrightarrow> valid_money m \<and> amount m = amount a - amount b"
  by (auto simp: money_subtract_def assert_same_currency_def res_simps)

lemma money_multiply_Inr [res_simps]:
  "money_multiply a n = Inr m \<longleftrightarrow>
     (\<exists>q. n = Whole q \<and> 0 \<le> q \<and> valid_money m \<and> amount m = amount a * q)"
  by (auto simp: money_multiply_def res_simps split: js_number.split)

lemma compare_to_Inr [simp]: "compare_to a b = Inr (amount a - amount b)"
  by (simp add: compare_to_def assert_same_currency_def)

lemma comparisons [simp]:
  "greater_than a b = Inr (amount a > amount b)"
  "greater_than_or_equal a b = Inr (amount a \<ge> amount b)"
  "less_than a b = Inr (amount a < amount b)"
  "less_than_or_equal a b = Inr (amount a \<le> amount b)"
  by (auto simp: greater_than_def greater_than_or_equal_def less_than_def less_than_or_equal_def)

lemma money_eqI: "amount a = amount b \<Longrightarrow> a = (b :: money)"
  by (cases a; cases b) simp

section \<open>The contained tax\<close>

text \<open>Rounding half up is one floor division, and within half a unit of the exact quotient.\<close>

lemma rounded_half_up_nearest:
  assumes "0 < d"
  shows "2 * n - d < 2 * d * rounded_half_up n d" and "2 * d * rounded_half_up n d \<le> 2 * n + d"
proof -
  define q m where "q = n div d" and "m = n mod d"
  have n: "n = d * q + m" by (simp add: q_def m_def)
  have m: "0 \<le> m" "m < d" using assms by (simp_all add: m_def)
  have r: "rounded_half_up n d = (if 2 * m \<ge> d then q + 1 else q)"
    by (simp add: rounded_half_up_def q_def m_def Let_def)
  show "2 * n - d < 2 * d * rounded_half_up n d" and "2 * d * rounded_half_up n d \<le> 2 * n + d"
    unfolding r using n m by (auto simp: algebra_simps)
qed

lemma rounded_half_up_eq:
  assumes "0 < d"
  shows "rounded_half_up n d = (2 * n + d) div (2 * d)"
proof -
  have "2 * d * rounded_half_up n d \<le> 2 * n + d" "2 * n + d < 2 * d * (rounded_half_up n d + 1)"
    using rounded_half_up_nearest [OF assms, of n] by (auto simp: algebra_simps)
  then have "(2 * n + d) div (2 * d) = rounded_half_up n d"
    using assms by (intro int_div_pos_eq [where r = "2 * n + d - 2 * d * rounded_half_up n d"])
      (auto simp: algebra_simps)
  then show ?thesis by simp
qed

lemma rounded_half_up_mono: "0 < d \<Longrightarrow> m \<le> n \<Longrightarrow> rounded_half_up m d \<le> rounded_half_up n d"
  by (simp add: rounded_half_up_eq zdiv_mono1)

lemma rounded_half_up_nonneg: "0 < d \<Longrightarrow> 0 \<le> n \<Longrightarrow> 0 \<le> rounded_half_up n d"
  by (simp add: rounded_half_up_eq pos_imp_zdiv_nonneg_iff)

lemma contained_tax_Inr [res_simps]:
  "contained_tax a n = Inr t \<longleftrightarrow>
     (\<exists>r. n = Whole r \<and> 0 \<le> r \<and> r \<le> MAX_TAX_RATE_BASIS_POINTS
        \<and> amount t = rounded_half_up (amount a * r) (MAX_TAX_RATE_BASIS_POINTS + r))"
  by (cases t) (auto simp: contained_tax_def split: js_number.split)

lemma contained_tax_bounds:
  assumes "contained_tax a n = Inr t" and "0 \<le> amount a"
  shows "0 \<le> amount t \<and> 2 * amount t \<le> amount a + 1"
proof -
  from assms(1) obtain r where r: "0 \<le> r" "r \<le> 10000"
    and t: "amount t = rounded_half_up (amount a * r) (10000 + r)"
    by (auto simp: res_simps MAX_TAX_RATE_BASIS_POINTS_def)
  have "2 * (10000 + r) * amount t \<le> 2 * (amount a * r) + (10000 + r)"
    using rounded_half_up_nearest(2) [of "10000 + r" "amount a * r"] r t by simp
  moreover have "2 * (amount a * r) \<le> amount a * (10000 + r)"
  proof -
    have "amount a * (2 * r) \<le> amount a * (10000 + r)"
      by (rule mult_left_mono) (use r assms(2) in simp_all)
    then show ?thesis by (simp add: algebra_simps)
  qed
  ultimately have "(10000 + r) * (2 * amount t) \<le> (10000 + r) * (amount a + 1)"
    by (simp add: algebra_simps)
  then have "2 * amount t \<le> amount a + 1" using r by (simp add: mult_le_cancel_left)
  then show ?thesis using r t assms(2) by (simp add: rounded_half_up_nonneg)
qed

lemma contained_tax_valid:
  "contained_tax a n = Inr t \<Longrightarrow> valid_money a \<Longrightarrow> valid_money t \<and> amount t \<le> amount a"
  using contained_tax_bounds [of a n t] by (auto simp: valid_money_def)

lemma contained_tax_mono:
  assumes "contained_tax a n = Inr t" and "contained_tax b n = Inr u" and "amount a \<le> amount b"
  shows "amount t \<le> amount u"
proof -
  from assms(1) obtain r where r: "n = Whole r" "0 \<le> r"
    "amount t = rounded_half_up (amount a * r) (MAX_TAX_RATE_BASIS_POINTS + r)"
    by (auto simp: contained_tax_Inr)
  moreover have "amount u = rounded_half_up (amount b * r) (MAX_TAX_RATE_BASIS_POINTS + r)"
    using assms(2) r(1) by (auto simp: contained_tax_Inr)
  ultimately show ?thesis
    using assms(3) by (simp add: MAX_TAX_RATE_BASIS_POINTS_def rounded_half_up_mono mult_right_mono)
qed

end
