(* ===== verification/Shopping.thy ===== *)
theory Shopping
  imports Cart Cleanup Money
begin

text \<open>
  Shopping (\<open>shopping/application/\<close>): the table of carts with their lines, the statements of its
  repositories, and the use cases on it. Each use case is one transaction that locks the carts it changes
  (a customer's through the advisory lock of the customer), so the use cases of one cart or one customer
  happen one after the other; a thrown error rolls its transaction back. The partial unique index of one
  active cart per customer is left out of the statements: that the use cases never need it is a theorem.
\<close>

section \<open>The table of carts\<close>

type_synonym carts = "cart list"

text \<open>A cart as it is read has nothing touched.\<close>

definition find_cart :: "id \<Rightarrow> carts \<Rightarrow> cart option" where
  "find_cart i cs = find (\<lambda>c. ct_id c = i) cs"

definition find_active_of :: "id \<Rightarrow> carts \<Rightarrow> cart option" where
  "find_active_of customer cs =
     find (\<lambda>c. ct_owner c = Some customer \<and> ct_status c = CART_ACTIVE) cs"

definition as_read :: "cart \<Rightarrow> cart" where
  "as_read c = c\<lparr>ct_touched := [], ct_changed := False\<rparr>"

definition insert_cart :: "cart \<Rightarrow> carts \<Rightarrow> carts result" where
  "insert_cart c cs =
     (if find_cart (ct_id c) cs \<noteq> None then Inl (PlainError ''carts_pkey'')
      else Inr (cs @ [as_read (c\<lparr>ct_merged_into := None, ct_version := 1, ct_lines := []\<rparr>)]))"

definition saved_row :: "cart \<Rightarrow> cart \<Rightarrow> cart" where
  "saved_row c r =
     as_read (r\<lparr>ct_owner := ct_owner c, ct_status := ct_status c, ct_merged_into := ct_merged_into c,
       ct_activity_at := ct_activity_at c, ct_version := ct_version r + 1,
       ct_lines := saved_rows (ct_lines r) c\<rparr>)"

definition save_cart :: "cart \<Rightarrow> carts \<Rightarrow> carts" where
  "save_cart c cs = map (\<lambda>r. if ct_id r = ct_id c then saved_row c r else r) cs"

text \<open>Deleting carts deletes the carts merged into them too, by cascade.\<close>

primrec cascade :: "nat \<Rightarrow> carts \<Rightarrow> id set \<Rightarrow> id set" where
  "cascade 0 cs gone = gone"
| "cascade (Suc n) cs gone =
     cascade n cs (gone \<union> set (List.map_filter
       (\<lambda>c. case ct_merged_into c of Some t \<Rightarrow> if t \<in> gone then Some (ct_id c) else None | None \<Rightarrow> None) cs))"

definition delete_carts :: "id set \<Rightarrow> carts \<Rightarrow> carts" where
  "delete_carts gone cs = filter (\<lambda>c. ct_id c \<notin> cascade (length cs) cs gone) cs"

definition delete_of :: "id \<Rightarrow> carts \<Rightarrow> carts" where
  "delete_of customer cs =
     delete_carts (set (map ct_id (filter (\<lambda>c. ct_owner c = Some customer) cs))) cs"

definition is_inactive_guest :: "time \<Rightarrow> cart \<Rightarrow> bool" where
  "is_inactive_guest before c \<longleftrightarrow> ct_owner c = None \<and> ct_activity_at c < before"

definition delete_inactive :: "time \<Rightarrow> carts \<Rightarrow> nat \<Rightarrow> nat \<times> carts" where
  "delete_inactive before cs limit =
     (let batch = take limit (sort_key ct_activity_at (filter (is_inactive_guest before) cs))
      in (length batch, delete_carts (set (map ct_id batch)) cs))"

section \<open>Changing carts\<close>

datatype cart_target = GuestTarget id | CustomerTarget id

text \<open>
  What Shopping asks Catalog and Pricing (\<open>cart-ports.ts\<close>): whether a variant exists and is on sale,
  and its price in force.
\<close>

record shop_ports =
  sp_on_sale :: "id \<Rightarrow> bool option"
  sp_price :: "id \<Rightarrow> time \<Rightarrow> money option"

definition assert_sellable :: "shop_ports \<Rightarrow> id \<Rightarrow> time \<Rightarrow> unit result" where
  "assert_sellable P v at =
     (let sellable = (sp_on_sale P v = Some True \<and> sp_price P v at \<noteq> None)
      in if \<not> sellable then Inl (CartError (CartVariantNotSellableError [v])) else Inr ())"

definition create_guest_cart :: "id \<Rightarrow> time \<Rightarrow> carts \<Rightarrow> (id \<times> carts) result" where
  "create_guest_cart fresh now cs =
     res_bind (insert_cart (open_cart fresh None now) cs) (\<lambda>t. Inr (fresh, t))"

definition lock_guest :: "id \<Rightarrow> carts \<Rightarrow> cart result" where
  "lock_guest i cs =
     (case find_cart i cs of
        None \<Rightarrow> Inl (NotFoundError ''Cart'' i)
      | Some c \<Rightarrow> if ct_owner c \<noteq> None then Inl (NotFoundError ''Cart'' i) else Inr c)"

fun lock_target :: "cart_target \<Rightarrow> carts \<Rightarrow> cart option result" where
  "lock_target (CustomerTarget customer) cs = Inr (find_active_of customer cs)"
| "lock_target (GuestTarget i) cs = res_bind (lock_guest i cs) (\<lambda>c. Inr (Some c))"

text \<open>The cart, whether it is new, and the table.\<close>

definition customer_cart :: "id \<Rightarrow> id \<Rightarrow> time \<Rightarrow> carts \<Rightarrow> (cart \<times> bool \<times> carts) result" where
  "customer_cart fresh customer now cs =
     (case find_active_of customer cs of
        Some active \<Rightarrow> Inr (active, False, cs)
      | None \<Rightarrow>
          let c = open_cart fresh (Some customer) now
          in res_bind (insert_cart c cs) (\<lambda>t. Inr (c, True, t)))"

definition target_cart :: "id \<Rightarrow> cart_target \<Rightarrow> time \<Rightarrow> carts \<Rightarrow> (cart \<times> bool \<times> carts) result" where
  "target_cart fresh target now cs =
     (case target of
        CustomerTarget customer \<Rightarrow> customer_cart fresh customer now cs
      | GuestTarget i \<Rightarrow> res_bind (lock_guest i cs) (\<lambda>c. Inr (c, False, cs)))"

definition add_line ::
  "shop_ports \<Rightarrow> id \<Rightarrow> cart_target \<Rightarrow> id \<Rightarrow> js_number \<Rightarrow> time \<Rightarrow> carts \<Rightarrow> ((id \<times> bool) \<times> carts) result" where
  "add_line P fresh target v quantity now cs =
     res_bind (assert_sellable P v now) (\<lambda>_.
     res_bind (target_cart fresh target now cs) (\<lambda>(c, created, t).
     res_bind (add_to_cart v quantity now c) (\<lambda>changed.
       Inr ((ct_id c, created), save_cart changed t))))"

definition change_line_in ::
  "shop_ports \<Rightarrow> cart_target \<Rightarrow> id \<Rightarrow> js_number \<Rightarrow> time \<Rightarrow> carts \<Rightarrow> carts result" where
  "change_line_in P target v quantity now cs =
     res_bind (lock_target target cs) (\<lambda>locked.
       case locked of
         None \<Rightarrow> Inl (NotFoundError ''Cart line'' v)
       | Some c \<Rightarrow>
           res_bind (if ct_status c = CART_ACTIVE \<and> map_of (ct_lines c) v \<noteq> None
                     then assert_sellable P v now else Inr ()) (\<lambda>_.
           res_bind (change_line v quantity now c) (\<lambda>(found, changed).
             if \<not> found then Inl (NotFoundError ''Cart line'' v)
             else if ct_changed changed then Inr (save_cart changed cs) else Inr cs)))"

definition remove_line_in :: "cart_target \<Rightarrow> id \<Rightarrow> time \<Rightarrow> carts \<Rightarrow> carts result" where
  "remove_line_in target v now cs =
     res_bind (lock_target target cs) (\<lambda>locked.
       case locked of
         None \<Rightarrow> Inr cs
       | Some c \<Rightarrow>
           res_bind (remove_line v now c) (\<lambda>changed.
             if ct_changed changed then Inr (save_cart changed cs) else Inr cs))"

definition merged_before :: "id \<Rightarrow> cart \<Rightarrow> carts \<Rightarrow> bool" where
  "merged_before customer guest cs =
     (case ct_merged_into guest of
        None \<Rightarrow> False
      | Some target \<Rightarrow>
          (case find_cart target cs of None \<Rightarrow> False | Some c \<Rightarrow> ct_owner c = Some customer))"

definition merge_guest :: "id \<Rightarrow> id \<Rightarrow> time \<Rightarrow> carts \<Rightarrow> carts result" where
  "merge_guest customer guest_id now cs =
     (case find_cart guest_id cs of
        None \<Rightarrow> Inl (NotFoundError ''Cart'' guest_id)
      | Some guest \<Rightarrow>
          if ct_owner guest \<noteq> None then
            if ct_owner guest \<noteq> Some customer then Inl (NotFoundError ''Cart'' guest_id)
            else if ct_status guest \<noteq> CART_ACTIVE
            then Inl (CartError (CartNotActiveError (cart_status_name (ct_status guest))))
            else Inr cs
          else if ct_status guest = MERGED then
            if merged_before customer guest cs then Inr cs
            else Inl (CartError (CartNotActiveError (cart_status_name (ct_status guest))))
          else
            case find_active_of customer cs of
              None \<Rightarrow> res_bind (adopt_cart customer now guest) (\<lambda>adopted. Inr (save_cart adopted cs))
            | Some own \<Rightarrow>
                res_bind (absorb_cart guest now own) (\<lambda>(own', guest').
                  Inr (save_cart guest' (save_cart own' cs))))"

section \<open>What Ordering and Privacy ask\<close>

definition guest_cart_of :: "cart option \<Rightarrow> id \<Rightarrow> cart result" where
  "guest_cart_of found i =
     (case found of
        None \<Rightarrow> Inl (NotFoundError ''Cart'' i)
      | Some c \<Rightarrow>
          if ct_owner c \<noteq> None then Inl (NotFoundError ''Cart'' i)
          else if ct_status c \<noteq> CART_ACTIVE
          then Inl (CartError (CartNotActiveError (cart_status_name (ct_status c))))
          else Inr c)"

record checkout_cart =
  cc_id :: id
  cc_lines :: "cart_item list"

definition content_of :: "cart \<Rightarrow> checkout_cart" where
  "content_of c = \<lparr>cc_id = ct_id c, cc_lines = items_of_lines (cart_lines c)\<rparr>"

text \<open>\<open>cartToQuote\<close> and \<open>lockCartToOrder\<close> read the same; the second keeps the lock.\<close>

definition cart_to_quote :: "cart_target \<Rightarrow> carts \<Rightarrow> checkout_cart option result" where
  "cart_to_quote target cs =
     (case target of
        CustomerTarget customer \<Rightarrow> Inr (map_option content_of (find_active_of customer cs))
      | GuestTarget i \<Rightarrow> res_bind (guest_cart_of (find_cart i cs) i) (\<lambda>c. Inr (Some (content_of c))))"

definition check_out_in :: "id \<Rightarrow> time \<Rightarrow> carts \<Rightarrow> carts result" where
  "check_out_in i now cs =
     (case find_cart i cs of
        None \<Rightarrow> Inl (NotFoundError ''Cart'' i)
      | Some c \<Rightarrow> res_bind (check_out_cart now c) (\<lambda>changed. Inr (save_cart changed cs)))"

record cart_copy =
  cp_cart :: id
  cp_skipped :: "id list"

definition is_sold :: "shop_ports \<Rightarrow> time \<Rightarrow> id \<Rightarrow> bool" where
  "is_sold P at v \<longleftrightarrow> sp_on_sale P v = Some True \<and> sp_price P v at \<noteq> None"

definition sold_items :: "shop_ports \<Rightarrow> cart_item list \<Rightarrow> time \<Rightarrow> cart_item list \<times> id list" where
  "sold_items P items at =
     (filter (\<lambda>i. is_sold P at (cit_variant i)) items,
      filter (\<lambda>v. \<not> is_sold P at v) (map cit_variant items))"

definition copy_into ::
  "shop_ports \<Rightarrow> cart \<Rightarrow> cart_item list \<Rightarrow> time \<Rightarrow> carts \<Rightarrow> (cart_copy \<times> carts) result" where
  "copy_into P c items now cs =
     (let (sold, skipped) = sold_items P items now
      in res_bind (copy_order_lines sold now c) (\<lambda>changed.
           Inr (\<lparr>cp_cart = ct_id c, cp_skipped = skipped\<rparr>, save_cart changed cs)))"

definition to_customer_cart ::
  "shop_ports \<Rightarrow> id \<Rightarrow> id \<Rightarrow> cart_item list \<Rightarrow> time \<Rightarrow> carts \<Rightarrow> (cart_copy \<times> carts) result" where
  "to_customer_cart P fresh customer items now cs =
     res_bind (customer_cart fresh customer now cs) (\<lambda>(c, created, t). copy_into P c items now t)"

definition to_guest_cart ::
  "shop_ports \<Rightarrow> id \<Rightarrow> id option \<Rightarrow> cart_item list \<Rightarrow> time \<Rightarrow> carts \<Rightarrow> (cart_copy \<times> carts) result" where
  "to_guest_cart P fresh given items now cs =
     (case given of
        None \<Rightarrow>
          let c = open_cart fresh None now
          in res_bind (insert_cart c cs) (\<lambda>t. copy_into P c items now t)
      | Some i \<Rightarrow> res_bind (lock_guest i cs) (\<lambda>c. copy_into P c items now cs))"

definition to_source_cart ::
  "shop_ports \<Rightarrow> id \<Rightarrow> cart_item list \<Rightarrow> time \<Rightarrow> carts \<Rightarrow> (cart_copy option \<times> carts) result" where
  "to_source_cart P source_id items now cs =
     (case find_cart source_id cs of
        None \<Rightarrow> Inr (None, cs)
      | Some c \<Rightarrow>
          if ct_owner c \<noteq> None \<or> ct_status c = MERGED then Inr (None, cs)
          else if ct_status c = CART_ACTIVE then
            res_bind (copy_into P c items now cs) (\<lambda>(copy, t). Inr (Some copy, t))
          else
            let (sold, skipped) = sold_items P items now
            in res_bind (reopen_with sold now c) (\<lambda>changed.
                 Inr (Some \<lparr>cp_cart = ct_id c, cp_skipped = skipped\<rparr>, save_cart changed cs)))"

datatype restoration_outcome = Reactivated | MergedBack | AlreadyRestored | Unexpected

definition restore_expired_order ::
  "id option \<Rightarrow> id \<Rightarrow> cart_item list \<Rightarrow> time \<Rightarrow> time \<Rightarrow> carts \<Rightarrow> (restoration_outcome \<times> carts) result" where
  "restore_expired_order customer source_id lines expired_at now cs =
     (let active = (case customer of None \<Rightarrow> None | Some u \<Rightarrow> find_active_of u cs)
      in case find_cart source_id cs of
           None \<Rightarrow> Inr (Unexpected, cs)
         | Some source \<Rightarrow>
             if ct_owner source \<noteq> customer then Inr (Unexpected, cs)
             else if ct_status source \<noteq> CHECKED_OUT \<or> ct_activity_at source > expired_at
             then Inr (AlreadyRestored, cs)
             else
               case active of
                 None \<Rightarrow> Inr (Reactivated, save_cart (snd (reactivate_cart now source)) cs)
               | Some own \<Rightarrow>
                   res_bind (absorb_order source lines now own) (\<lambda>(moved, own', source').
                     Inr (MergedBack, save_cart source' (save_cart own' cs))))"

text \<open>The handler of \<open>OrderExpired\<close>; an order without a cart puts its lines back in none.\<close>

definition on_order_expired ::
  "id option \<Rightarrow> id option \<Rightarrow> cart_item list \<Rightarrow> time \<Rightarrow> time \<Rightarrow> carts \<Rightarrow> carts result" where
  "on_order_expired customer source_cart lines occurred_at now cs =
     (case source_cart of
        None \<Rightarrow> Inr cs
      | Some source_id \<Rightarrow>
          res_bind (restore_expired_order customer source_id lines occurred_at now cs) (\<lambda>(outcome, t). Inr t))"

text \<open>The daily cleanup of guest carts.\<close>

definition clean_guest_carts :: "int \<Rightarrow> time \<Rightarrow> carts \<Rightarrow> nat \<times> carts" where
  "clean_guest_carts days now cs =
     delete_in_batches (delete_inactive (days_before now days)) CLEANUP_BATCH_SIZE CLEANUP_MAX_BATCHES 0 cs"

section \<open>Everything that happens to the carts\<close>

datatype shop_event =
    NewGuestCart id time
  | AddLineTo id cart_target id js_number time
  | ChangeLineOf cart_target id js_number time
  | RemoveLineOf cart_target id time
  | MergeGuest id id time
  | CheckOutOf id time
  | CopyToCustomer id id "cart_item list" time
  | CopyToGuest id "id option" "cart_item list" time
  | CopyToSource id "cart_item list" time
  | OrderExpiredEvent "id option" "id option" "cart_item list" time time
  | DeleteCartsOf id
  | CleanGuestCarts int time

fun shop_step :: "shop_ports \<Rightarrow> carts \<Rightarrow> shop_event \<Rightarrow> carts result" where
  "shop_step P cs (NewGuestCart fresh now) = res_bind (create_guest_cart fresh now cs) (\<lambda>(i, t). Inr t)"
| "shop_step P cs (AddLineTo fresh target v q now) =
     res_bind (add_line P fresh target v q now cs) (\<lambda>(answer, t). Inr t)"
| "shop_step P cs (ChangeLineOf target v q now) = change_line_in P target v q now cs"
| "shop_step P cs (RemoveLineOf target v now) = remove_line_in target v now cs"
| "shop_step P cs (MergeGuest customer guest now) = merge_guest customer guest now cs"
| "shop_step P cs (CheckOutOf i now) = check_out_in i now cs"
| "shop_step P cs (CopyToCustomer fresh customer items now) =
     res_bind (to_customer_cart P fresh customer items now cs) (\<lambda>(copy, t). Inr t)"
| "shop_step P cs (CopyToGuest fresh given items now) =
     res_bind (to_guest_cart P fresh given items now cs) (\<lambda>(copy, t). Inr t)"
| "shop_step P cs (CopyToSource source items now) =
     res_bind (to_source_cart P source items now cs) (\<lambda>(copy, t). Inr t)"
| "shop_step P cs (OrderExpiredEvent customer source lines occurred now) =
     on_order_expired customer source lines occurred now cs"
| "shop_step P cs (DeleteCartsOf customer) = Inr (delete_of customer cs)"
| "shop_step P cs (CleanGuestCarts days now) = Inr (snd (clean_guest_carts days now cs))"

text \<open>The lines of orders an event brings have whole units, at least one each.\<close>

fun brings_whole_lines :: "shop_event \<Rightarrow> bool" where
  "brings_whole_lines (CopyToCustomer fresh customer items now) = whole_items items"
| "brings_whole_lines (CopyToGuest fresh given items now) = whole_items items"
| "brings_whole_lines (CopyToSource source items now) = whole_items items"
| "brings_whole_lines (OrderExpiredEvent customer source lines occurred now) = whole_items lines"
| "brings_whole_lines _ = True"

end
