(* ===== verification/ShopInvariant.thy ===== *)
theory ShopInvariant
  imports Shopping
begin

text \<open>
  What the table of carts keeps through every use case: at most one active cart per customer, lines within
  their bounds, and merges that end in a cart of the same customer.
\<close>

section \<open>What the table keeps\<close>

text \<open>
  A customer has at most one active cart. A cart was merged into a customer's cart, of the same customer if it
  had one, so no chain of merges leads into another customer's cart or into a guest's.
\<close>

definition row_ok :: "cart \<Rightarrow> bool" where
  "row_ok c \<longleftrightarrow> wf_cart c \<and> ct_touched c = [] \<and> \<not> ct_changed c"

definition one_active :: "carts \<Rightarrow> bool" where
  "one_active cs \<longleftrightarrow>
     (\<forall>c\<in>set cs. \<forall>d\<in>set cs. ct_status c = CART_ACTIVE \<and> ct_status d = CART_ACTIVE
        \<and> ct_owner c \<noteq> None \<and> ct_owner d = ct_owner c \<longrightarrow> ct_id d = ct_id c)"

definition merge_target_ok :: "carts \<Rightarrow> cart \<Rightarrow> bool" where
  "merge_target_ok cs c \<longleftrightarrow>
     (\<forall>t. ct_merged_into c = Some t \<longrightarrow>
        (\<exists>d\<in>set cs. ct_id d = t \<and> ct_owner d \<noteq> None \<and> (ct_owner c = None \<or> ct_owner c = ct_owner d)))"

definition wf_shop :: "carts \<Rightarrow> bool" where
  "wf_shop cs \<longleftrightarrow>
     distinct (map ct_id cs) \<and> (\<forall>c\<in>set cs. row_ok c \<and> merge_target_ok cs c) \<and> one_active cs"

lemma one_activeD:
  "wf_shop cs \<Longrightarrow> c \<in> set cs \<Longrightarrow> d \<in> set cs \<Longrightarrow> ct_status c = CART_ACTIVE \<Longrightarrow> ct_status d = CART_ACTIVE
     \<Longrightarrow> ct_owner c = Some u \<Longrightarrow> ct_owner d = Some u \<Longrightarrow> ct_id d = ct_id c"
  unfolding wf_shop_def one_active_def by fastforce

lemma one_active_subset: "one_active cs \<Longrightarrow> set ds \<subseteq> set cs \<Longrightarrow> one_active ds"
  unfolding one_active_def by blast

lemma wf_shop_empty [simp]: "wf_shop []"
  by (simp add: wf_shop_def one_active_def)

lemma find_cart_SomeD: "find_cart i cs = Some c \<Longrightarrow> c \<in> set cs \<and> ct_id c = i"
  unfolding find_cart_def by (drule find_SomeD) simp

lemma find_active_SomeD:
  "find_active_of u cs = Some c \<Longrightarrow> c \<in> set cs \<and> ct_owner c = Some u \<and> ct_status c = CART_ACTIVE"
  unfolding find_active_of_def by (drule find_SomeD) simp

lemma find_active_NoneD:
  "find_active_of u cs = None \<Longrightarrow> c \<in> set cs \<Longrightarrow> ct_owner c = Some u \<Longrightarrow> ct_status c \<noteq> CART_ACTIVE"
  unfolding find_active_of_def by (auto simp: find_None_iff)

lemma find_cart_in: "distinct (map ct_id cs) \<Longrightarrow> c \<in> set cs \<Longrightarrow> find_cart (ct_id c) cs = Some c"
  unfolding find_cart_def by (rule find_key)

lemma same_cart:
  "distinct (map ct_id cs) \<Longrightarrow> c \<in> set cs \<Longrightarrow> d \<in> set cs \<Longrightarrow> ct_id c = ct_id d \<Longrightarrow> c = d"
  by (rule same_key)

lemma wf_find_active: "wf_shop cs \<Longrightarrow> find_active_of u cs = Some c \<Longrightarrow> find_cart (ct_id c) cs = Some c"
  by (auto dest!: find_active_SomeD intro!: find_cart_in simp: wf_shop_def)

lemma wf_row: "wf_shop cs \<Longrightarrow> find_cart i cs = Some c \<Longrightarrow> row_ok c \<and> merge_target_ok cs c"
  by (auto simp: wf_shop_def dest: find_cart_SomeD)

lemma as_read_row: "row_ok c \<Longrightarrow> as_read c = c"
  by (simp add: as_read_def row_ok_def)

lemma saved_row_simps [simp]:
  "ct_id (saved_row c r) = ct_id r" "ct_owner (saved_row c r) = ct_owner c"
  "ct_status (saved_row c r) = ct_status c" "ct_merged_into (saved_row c r) = ct_merged_into c"
  "ct_activity_at (saved_row c r) = ct_activity_at c" "ct_lines (saved_row c r) = saved_rows (ct_lines r) c"
  by (simp_all add: saved_row_def as_read_def)

lemma save_cart_ids [simp]: "map ct_id (save_cart c cs) = map ct_id cs"
  by (simp add: save_cart_def o_def if_distrib cong: if_cong)

lemma find_cart_save:
  "find_cart i (save_cart c cs) =
     (if i = ct_id c then map_option (saved_row c) (find_cart i cs) else find_cart i cs)"
  by (induction cs) (auto simp: find_cart_def save_cart_def)

text \<open>A row that is not the one saved is the same after the save.\<close>

lemma in_save:
  assumes "d \<in> set (save_cart c cs)" and "distinct (map ct_id cs)" and "find_cart (ct_id c) cs = Some r"
  shows "d = saved_row c r \<or> d \<in> set cs \<and> ct_id d \<noteq> ct_id c"
proof -
  from assms(1) obtain e where e: "e \<in> set cs" "d = (if ct_id e = ct_id c then saved_row c e else e)"
    by (auto simp: save_cart_def)
  show ?thesis
  proof (cases "ct_id e = ct_id c")
    case True
    with find_cart_in [OF assms(2) e(1)] assms(3) e(2) show ?thesis by simp
  next
    case False
    with e show ?thesis by simp
  qed
qed

lemma upsert_distinct: "distinct (map fst rows) \<Longrightarrow> distinct (map fst (fold upsert_row ls rows))"
  by (induction ls arbitrary: rows) (auto simp: upsert_row_def distinct_update)

lemma distinct_filter_keys: "distinct (map fst rows) \<Longrightarrow> distinct (map fst (filter p rows))"
  by (induction rows) auto

lemma saved_rows_wf:
  assumes "tracks rows c" and "wf_lines (ct_lines c)" and "wf_lines rows"
  shows "wf_lines (saved_rows rows c)"
proof (rule wf_linesI)
  show "distinct (map fst (saved_rows rows c))"
    using wf_lines_distinct [OF assms(3)]
    by (simp add: saved_rows_def Let_def upsert_distinct distinct_filter_keys)
  show "cl_variant l = v \<and> 1 \<le> cl_quantity l \<and> cl_quantity l \<le> MAX_LINE_QUANTITY"
    if "map_of (saved_rows rows c) v = Some l" for v l
    using that wf_linesD [OF assms(2)] by (simp add: saved_rows_exact [OF assms])
qed

lemma saved_row_ok:
  assumes "row_ok r" and "wf_cart c" and "tracks (ct_lines r) c"
  shows "row_ok (saved_row c r)"
  using assms saved_rows_wf [of "ct_lines r" c]
  by (simp add: row_ok_def wf_cart_def saved_row_def as_read_def)

lemma save_wf:
  assumes wf: "wf_shop cs" and found: "find_cart (ct_id c) cs = Some r"
    and cart: "wf_cart c" "tracks (ct_lines r) c"
    and act: "\<And>u. ct_status c = CART_ACTIVE \<Longrightarrow> ct_owner c = Some u \<Longrightarrow>
                ct_status r = CART_ACTIVE \<and> ct_owner r = Some u \<or> find_active_of u cs = None"
    and own: "ct_owner r \<noteq> None \<Longrightarrow> ct_owner c = ct_owner r"
    and merged: "merge_target_ok cs c"
  shows "wf_shop (save_cart c cs)"
proof -
  have ids: "distinct (map ct_id cs)" using wf by (simp add: wf_shop_def)
  have r: "r \<in> set cs" "ct_id r = ct_id c" using find_cart_SomeD [OF found] by auto
  note split = in_save [OF _ ids found]
  have there: "saved_row c r \<in> set (save_cart c cs)" using r by (force simp: save_cart_def)
  have other: "d \<in> set (save_cart c cs)" if "d \<in> set cs" "ct_id d \<noteq> ct_id c" for d
    using that by (force simp: save_cart_def)
  have target: "merge_target_ok (save_cart c cs) d" if "merge_target_ok cs d" for d
    unfolding merge_target_ok_def
  proof (intro allI impI)
    fix t
    assume "ct_merged_into d = Some t"
    with that obtain e where e: "e \<in> set cs" "ct_id e = t" "ct_owner e \<noteq> None"
        "ct_owner d = None \<or> ct_owner d = ct_owner e" by (auto simp: merge_target_ok_def)
    show "\<exists>e\<in>set (save_cart c cs). ct_id e = t \<and> ct_owner e \<noteq> None
        \<and> (ct_owner d = None \<or> ct_owner d = ct_owner e)"
    proof (cases "ct_id e = ct_id c")
      case True
      then have "e = r" using find_cart_in [OF ids e(1)] found by simp
      with e own there r(2) show ?thesis by (intro bexI [of _ "saved_row c r"]) auto
    next
      case False
      with e other show ?thesis by blast
    qed
  qed
  have rows: "row_ok d \<and> merge_target_ok (save_cart c cs) d" if "d \<in> set (save_cart c cs)" for d
    using split [OF that]
  proof
    assume d: "d = saved_row c r"
    have "merge_target_ok cs d" using merged by (simp add: d merge_target_ok_def)
    with d target saved_row_ok [OF _ cart] wf_row [OF wf found] show ?thesis by blast
  next
    assume "d \<in> set cs \<and> ct_id d \<noteq> ct_id c"
    with wf target show ?thesis by (simp add: wf_shop_def)
  qed
  have cross: "ct_status c \<noteq> CART_ACTIVE \<or> ct_owner c \<noteq> ct_owner d"
    if "d \<in> set cs" "ct_id d \<noteq> ct_id c" "ct_status d = CART_ACTIVE" "ct_owner d \<noteq> None" for d
  proof (rule ccontr)
    note d = that
    assume "\<not> ?thesis"
    then obtain u where u: "ct_status c = CART_ACTIVE" "ct_owner c = Some u" "ct_owner d = Some u"
      using d(4) by auto
    from act [OF u(1,2)] show False
    proof
      assume "ct_status r = CART_ACTIVE \<and> ct_owner r = Some u"
      with one_activeD [OF wf d(1) r(1) d(3) _ u(3)] d(2) r(2) show False by simp
    next
      assume "find_active_of u cs = None"
      from find_active_NoneD [OF this d(1) u(3)] d(3) show False by simp
    qed
  qed
  have "one_active (save_cart c cs)"
    unfolding one_active_def
  proof (intro ballI impI, elim conjE)
    fix d e
    assume d: "d \<in> set (save_cart c cs)" "ct_status d = CART_ACTIVE" "ct_owner d \<noteq> None"
      and e: "e \<in> set (save_cart c cs)" "ct_status e = CART_ACTIVE" "ct_owner e = ct_owner d"
    from d(3) obtain u where u: "ct_owner d = Some u" by blast
    show "ct_id e = ct_id d"
    proof (cases "d = saved_row c r"; cases "e = saved_row c r")
      assume "d \<noteq> saved_row c r" and "e \<noteq> saved_row c r"
      with split [OF d(1)] split [OF e(1)] have "d \<in> set cs" "e \<in> set cs" by auto
      with one_activeD [OF wf _ _ d(2) e(2) u] e(3) u show ?thesis by simp
    next
      assume "d = saved_row c r" and "e \<noteq> saved_row c r"
      with cross [of e] split [OF e(1)] d e show ?thesis by auto
    next
      assume "d \<noteq> saved_row c r" and "e = saved_row c r"
      with cross [of d] split [OF d(1)] d e show ?thesis by auto
    qed simp
  qed
  with ids rows show ?thesis by (simp add: wf_shop_def)
qed

subsection \<open>New carts\<close>

lemma find_cart_append: "find_cart i (cs @ [c]) = (case find_cart i cs of Some d \<Rightarrow> Some d
     | None \<Rightarrow> if ct_id c = i then Some c else None)"
  by (induction cs) (auto simp: find_cart_def)

lemma find_cart_None: "find_cart i cs = None \<longleftrightarrow> i \<notin> ct_id ` set cs"
  unfolding find_cart_def by (auto simp: find_None_iff)

lemma insert_cart_Inr:
  "insert_cart (open_cart i owner now) cs = Inr t \<longleftrightarrow>
     find_cart i cs = None \<and> t = cs @ [as_read (open_cart i owner now)]"
  by (auto simp: insert_cart_def open_cart_def as_read_def)

lemma open_row [simp]:
  "ct_id (as_read (open_cart i owner now)) = i" "ct_owner (as_read (open_cart i owner now)) = owner"
  "ct_merged_into (as_read (open_cart i owner now)) = None"
  "ct_status (as_read (open_cart i owner now)) = CART_ACTIVE"
  by (simp_all add: open_cart_def as_read_def)

lemma open_row_ok: "row_ok (as_read (open_cart i owner now))"
  by (simp add: row_ok_def open_cart_def as_read_def wf_cart_def wf_lines_def)

lemma insert_wf:
  assumes wf: "wf_shop cs" and new: "insert_cart (open_cart i owner now) cs = Inr t"
    and free: "\<And>u. owner = Some u \<Longrightarrow> find_active_of u cs = None"
  shows "wf_shop t"
proof -
  define c where "c = as_read (open_cart i owner now)"
  have c: "ct_id c = i" "ct_owner c = owner" "ct_merged_into c = None" "ct_status c = CART_ACTIVE" "row_ok c"
    by (simp_all add: c_def open_row_ok)
  have t: "t = cs @ [c]" and fresh: "find_cart i cs = None" using new by (simp_all add: insert_cart_Inr c_def)
  have target: "merge_target_ok t d" if "merge_target_ok cs d" for d
    using that by (auto simp: merge_target_ok_def t)
  have apart: False if "d \<in> set cs" "ct_status d = CART_ACTIVE" "ct_owner d = Some u" "owner = Some u" for d u
    using find_active_NoneD [OF free [OF that(4)] that(1,3)] that(2) by simp
  have "one_active t"
    unfolding one_active_def
  proof (intro ballI impI, elim conjE)
    fix d e
    assume d: "d \<in> set t" "ct_status d = CART_ACTIVE" "ct_owner d \<noteq> None"
      and e: "e \<in> set t" "ct_status e = CART_ACTIVE" "ct_owner e = ct_owner d"
    from d(3) obtain u where u: "ct_owner d = Some u" by blast
    show "ct_id e = ct_id d"
      using d(1) e(1) apart [of d u] apart [of e u] one_activeD [OF wf, of d e u] u d(2) e(2,3) c
      by (auto simp: t)
  qed
  moreover have "distinct (map ct_id t)" using wf fresh c(1) by (auto simp: t wf_shop_def find_cart_None)
  moreover have "row_ok d \<and> merge_target_ok t d" if "d \<in> set t" for d
    using that wf target c by (auto simp: t wf_shop_def merge_target_ok_def)
  ultimately show ?thesis by (simp add: wf_shop_def)
qed

subsection \<open>Deleted carts\<close>

definition merged_into_any :: "carts \<Rightarrow> id set \<Rightarrow> id set" where
  "merged_into_any cs gone = {ct_id c | c. c \<in> set cs \<and> (\<exists>t\<in>gone. ct_merged_into c = Some t)}"

lemma cascade_Suc: "cascade (Suc n) cs gone = cascade n cs (gone \<union> merged_into_any cs gone)"
proof -
  have "set (List.map_filter (\<lambda>c. case ct_merged_into c of
            Some t \<Rightarrow> if t \<in> gone then Some (ct_id c) else None | None \<Rightarrow> None) cs) = merged_into_any cs gone"
    by (force simp: merged_into_any_def List.map_filter_def split: option.splits if_splits)
  then show ?thesis by simp
qed

lemma cascade_fixed: "merged_into_any cs gone \<subseteq> gone \<Longrightarrow> cascade n cs gone = gone"
  by (induction n) (simp_all add: cascade_Suc Un_absorb2 del: cascade.simps(2))

lemma cascade_includes: "gone \<subseteq> cascade n cs gone"
proof (induction n arbitrary: gone)
  case 0
  then show ?case by simp
next
  case (Suc n)
  from Suc [of "gone \<union> merged_into_any cs gone"] show ?case by (simp add: cascade_Suc del: cascade.simps(2))
qed

lemma cascade_within:
  "gone \<subseteq> Y \<Longrightarrow> merged_into_any cs Y \<subseteq> Y \<Longrightarrow> cascade n cs gone \<subseteq> Y"
proof (induction n arbitrary: gone)
  case 0
  then show ?case by simp
next
  case (Suc n)
  have "merged_into_any cs gone \<subseteq> merged_into_any cs Y" using Suc.prems(1) by (auto simp: merged_into_any_def)
  with Suc show ?case by (simp add: cascade_Suc del: cascade.simps(2))
qed

lemma cascade_closed:
  "card (ct_id ` set cs - gone) \<le> n \<Longrightarrow> merged_into_any cs (cascade n cs gone) \<subseteq> cascade n cs gone"
proof (induction n arbitrary: gone)
  case 0
  then have "ct_id ` set cs \<subseteq> gone" by (simp add: card_eq_0_iff)
  then show ?case by (auto simp: merged_into_any_def)
next
  case (Suc n)
  show ?case
  proof (cases "merged_into_any cs gone \<subseteq> gone")
    case True
    then show ?thesis by (simp only: cascade_fixed)
  next
    case False
    then obtain i where i: "i \<in> merged_into_any cs gone" "i \<notin> gone" by blast
    then have "i \<in> ct_id ` set cs" by (auto simp: merged_into_any_def)
    with i have "ct_id ` set cs - (gone \<union> merged_into_any cs gone) \<subset> ct_id ` set cs - gone" by blast
    then have "card (ct_id ` set cs - (gone \<union> merged_into_any cs gone)) < card (ct_id ` set cs - gone)"
      by (rule psubset_card_mono [rotated]) simp
    with Suc show ?thesis by (simp add: cascade_Suc del: cascade.simps(2))
  qed
qed

text \<open>As many rounds as there are carts complete the cascade.\<close>

lemma cascade_complete: "merged_into_any cs (cascade (length cs) cs gone) \<subseteq> cascade (length cs) cs gone"
proof (rule cascade_closed)
  have "card (ct_id ` set cs - gone) \<le> card (ct_id ` set cs)" by (rule card_mono) auto
  also have "\<dots> \<le> card (set cs)" by (rule card_image_le) simp
  also have "\<dots> \<le> length cs" by (rule card_length)
  finally show "card (ct_id ` set cs - gone) \<le> length cs" .
qed

lemma delete_wf:
  assumes "wf_shop cs"
  shows "wf_shop (delete_carts gone cs)"
proof -
  define all_gone where "all_gone = cascade (length cs) cs gone"
  have closed: "merged_into_any cs all_gone \<subseteq> all_gone" unfolding all_gone_def by (rule cascade_complete)
  have t: "delete_carts gone cs = filter (\<lambda>c. ct_id c \<notin> all_gone) cs" by (simp add: delete_carts_def all_gone_def)
  have targets: "merge_target_ok (delete_carts gone cs) c" if "c \<in> set cs" "ct_id c \<notin> all_gone" for c
  proof -
    have stays: "i \<notin> all_gone" if "ct_merged_into c = Some i" for i
      using closed that \<open>c \<in> set cs\<close> \<open>ct_id c \<notin> all_gone\<close> by (auto simp: merged_into_any_def)
    have "merge_target_ok cs c" using assms that by (simp add: wf_shop_def)
    with stays show ?thesis unfolding merge_target_ok_def t by (fastforce intro: rev_bexI)
  qed
  show ?thesis
    unfolding wf_shop_def
  proof (intro conjI ballI)
    show "distinct (map ct_id (delete_carts gone cs))"
      using assms by (simp add: t wf_shop_def distinct_map_filter)
    show "one_active (delete_carts gone cs)"
      by (rule one_active_subset [of cs]) (use assms in \<open>auto simp: wf_shop_def t\<close>)
  next
    fix c
    assume "c \<in> set (delete_carts gone cs)"
    then have c: "c \<in> set cs" "ct_id c \<notin> all_gone" by (simp_all add: t)
    show "row_ok c" using assms c(1) by (simp add: wf_shop_def)
    show "merge_target_ok (delete_carts gone cs) c" by (rule targets [OF c])
  qed
qed

text \<open>No cart was merged into a guest's: deleting guest carts cascades to none.\<close>

lemma guests_no_cascade:
  assumes "wf_shop cs" and "\<And>c. c \<in> set batch \<Longrightarrow> c \<in> set cs \<and> ct_owner c = None"
  shows "delete_carts (set (map ct_id batch)) cs = filter (\<lambda>c. ct_id c \<notin> ct_id ` set batch) cs"
proof -
  have ids: "distinct (map ct_id cs)" using assms(1) by (simp add: wf_shop_def)
  have "False" if c: "c \<in> set cs" "ct_merged_into c = Some (ct_id b)" "b \<in> set batch" for c b
  proof -
    from assms(1) c have "merge_target_ok cs c" by (simp add: wf_shop_def)
    with c(2) obtain d where d: "d \<in> set cs" "ct_id d = ct_id b" "ct_owner d \<noteq> None"
      by (auto simp: merge_target_ok_def)
    from assms(2) [OF c(3)] have b: "b \<in> set cs" "ct_owner b = None" by auto
    have "d = b" by (rule same_cart [OF ids d(1) b(1) d(2)])
    with d b show False by simp
  qed
  then have "merged_into_any cs (set (map ct_id batch)) \<subseteq> set (map ct_id batch)"
    by (auto simp: merged_into_any_def)
  from cascade_fixed [OF this] show ?thesis by (simp add: delete_carts_def)
qed

section \<open>Changing a cart that was read\<close>

text \<open>A cart as a use case has it: as its row is, with nothing touched.\<close>

definition opened :: "cart \<Rightarrow> carts \<Rightarrow> bool" where
  "opened c cs \<longleftrightarrow> wf_shop cs \<and> find_cart (ct_id c) cs = Some (as_read c) \<and> ct_touched c = []"

lemma found_opened: "wf_shop cs \<Longrightarrow> find_cart i cs = Some c \<Longrightarrow> opened c cs"
  using wf_row [of cs i c] find_cart_SomeD [of i cs c] by (auto simp: opened_def as_read_row row_ok_def)

lemma active_opened: "wf_shop cs \<Longrightarrow> find_active_of u cs = Some c \<Longrightarrow> opened c cs"
  by (blast intro: found_opened wf_find_active)

lemma as_read_simps [simp]:
  "ct_id (as_read c) = ct_id c" "ct_owner (as_read c) = ct_owner c" "ct_status (as_read c) = ct_status c"
  "ct_merged_into (as_read c) = ct_merged_into c" "ct_lines (as_read c) = ct_lines c"
  by (simp_all add: as_read_def)

lemma opened_row: "opened c cs \<Longrightarrow> row_ok (as_read c) \<and> merge_target_ok cs (as_read c)"
  by (auto simp: opened_def dest: wf_row)

lemma opened_same:
  assumes "opened c cs" and "opened d cs" and "ct_id c = ct_id d"
  shows "ct_owner c = ct_owner d \<and> ct_status c = ct_status d"
proof -
  have "as_read c = as_read d" using assms by (simp add: opened_def)
  then show ?thesis by (metis as_read_simps(2,3))
qed

lemma change_wf:
  assumes c: "opened c cs" and step: "cart_step c ev = Inr t" and whole: "brings_whole ev"
    and act: "\<And>u. ct_status t = CART_ACTIVE \<Longrightarrow> ct_owner t = Some u \<Longrightarrow>
                ct_status c = CART_ACTIVE \<and> ct_owner c = Some u \<or> find_active_of u cs = None"
    and own: "\<And>u now. ev = Adopt u now \<Longrightarrow> ct_owner c = None"
  shows "wf_shop (save_cart t cs)"
proof (rule save_wf [where r = "as_read c"])
  note row = opened_row [OF c]
  note frame = cart_step_frame [OF step]
  have wf: "wf_cart c" using row by (simp add: row_ok_def wf_cart_def)
  show "wf_shop cs" using c by (simp add: opened_def)
  show "find_cart (ct_id t) cs = Some (as_read c)" using c frame by (simp add: opened_def)
  show "wf_cart t" by (rule cart_step_wf [OF wf step whole])
  show "tracks (ct_lines (as_read c)) t" using cart_step_tracks [OF _ step] c by (simp add: opened_def)
  show "ct_status (as_read c) = CART_ACTIVE \<and> ct_owner (as_read c) = Some u \<or> find_active_of u cs = None"
    if "ct_status t = CART_ACTIVE" "ct_owner t = Some u" for u using act [OF that] by simp
  show "ct_owner t = ct_owner (as_read c)" if "ct_owner (as_read c) \<noteq> None"
    using frame own that by (cases ev) auto
  show "merge_target_ok cs t"
  proof (cases "\<exists>u now. ev = Adopt u now")
    case True
    then have "ct_status c = CART_ACTIVE" using step adopted_was_active by blast
    with wf have "ct_merged_into c = None" by (auto simp: wf_cart_def)
    with frame show ?thesis by (simp add: merge_target_ok_def)
  next
    case False
    then have "ct_owner t = ct_owner c" using frame by (cases ev) auto
    with frame row show ?thesis by (simp add: merge_target_ok_def)
  qed
qed

text \<open>A change that keeps the owner and the status.\<close>

lemma plain_change_wf:
  assumes "opened c cs" and "cart_step c ev = Inr t" and "brings_whole ev"
    and "owner_after ev (ct_owner c) = ct_owner c" and "status_after ev (ct_status c) = ct_status c"
    and "\<And>u now. ev \<noteq> Adopt u now"
  shows "wf_shop (save_cart t cs)"
  by (rule change_wf [OF assms(1-3)])
    (use cart_step_frame [OF assms(2)] cart_step_status [OF assms(2)] assms(4-6) in auto)

lemma merged_wf:
  assumes g: "opened g cs" and d: "d \<in> set cs" "ct_id d = target" "ct_owner d = Some u"
    and owner: "ct_owner g = None \<or> ct_owner g = Some u"
  shows "wf_shop (save_cart (touch_cart now (g\<lparr>ct_status := MERGED, ct_merged_into := Some target\<rparr>)) cs)"
proof (rule save_wf [where r = "as_read g"])
  show "wf_shop cs" using g by (simp add: opened_def)
  show "wf_cart (touch_cart now (g\<lparr>ct_status := MERGED, ct_merged_into := Some target\<rparr>))"
    using opened_row [OF g] by (simp add: wf_cart_def row_ok_def)
  show "tracks (ct_lines (as_read g)) (touch_cart now (g\<lparr>ct_status := MERGED, ct_merged_into := Some target\<rparr>))"
    using g by (simp add: tracks_def opened_def)
  show "merge_target_ok cs (touch_cart now (g\<lparr>ct_status := MERGED, ct_merged_into := Some target\<rparr>))"
    using d owner by (auto simp: merge_target_ok_def)
qed (use g in \<open>auto simp: opened_def\<close>)

lemma save_keeps_opened:
  assumes "opened g cs" and "wf_shop (save_cart c cs)" and "ct_id c \<noteq> ct_id g"
  shows "opened g (save_cart c cs)"
  using assms by (simp add: opened_def find_cart_save)

lemma saved_in: "find_cart (ct_id c) cs = Some r \<Longrightarrow> saved_row c r \<in> set (save_cart c cs)"
  by (auto simp: save_cart_def dest!: find_cart_SomeD intro: rev_image_eqI)

text \<open>One cart takes the lines of another, which is merged into it.\<close>

lemma absorb_wf:
  assumes own: "opened own cs" and g: "opened g cs" and apart: "ct_id own \<noteq> ct_id g"
    and saved: "wf_shop (save_cart own' cs)" and same: "ct_id own' = ct_id own" "ct_owner own' = Some u"
    and owner: "ct_owner g = None \<or> ct_owner g = Some u"
  shows "wf_shop (save_cart (touch_cart now (g\<lparr>ct_status := MERGED, ct_merged_into := Some (ct_id own)\<rparr>))
           (save_cart own' cs))"
proof (rule merged_wf [OF save_keeps_opened [OF g saved] _ _ _ owner])
  show "ct_id own' \<noteq> ct_id g" using apart same by simp
  have "find_cart (ct_id own') cs = Some (as_read own)" using own same by (simp add: opened_def)
  from saved_in [OF this] show "saved_row own' (as_read own) \<in> set (save_cart own' cs)" .
qed (use same in simp_all)

section \<open>Every use case keeps it\<close>

lemma new_opened:
  assumes "wf_shop cs" and "insert_cart (open_cart i owner now) cs = Inr t"
    and "\<And>u. owner = Some u \<Longrightarrow> find_active_of u cs = None"
  shows "opened (open_cart i owner now) t"
  using insert_wf [OF assms] assms(2)
  by (auto simp: opened_def insert_cart_Inr find_cart_append) (simp_all add: open_cart_def)

lemma lock_guest_Inr: "lock_guest i cs = Inr c \<longleftrightarrow> find_cart i cs = Some c \<and> ct_owner c = None"
  by (auto simp: lock_guest_def split: option.splits)

lemma customer_cart_opened:
  "wf_shop cs \<Longrightarrow> customer_cart fresh u now cs = Inr (c, created, t) \<Longrightarrow> opened c t"
  by (auto simp: customer_cart_def Let_def res_simps active_opened split: option.splits intro: new_opened)

lemma target_cart_opened:
  "wf_shop cs \<Longrightarrow> target_cart fresh target now cs = Inr (c, created, t) \<Longrightarrow> opened c t"
  by (cases target) (auto simp: target_cart_def res_simps lock_guest_Inr intro: customer_cart_opened found_opened)

lemma lock_target_opened: "wf_shop cs \<Longrightarrow> lock_target target cs = Inr (Some c) \<Longrightarrow> opened c cs"
  by (cases target) (auto simp: res_simps lock_guest_Inr intro: active_opened found_opened)

lemma create_guest_wf: "wf_shop cs \<Longrightarrow> create_guest_cart fresh now cs = Inr (i, t) \<Longrightarrow> wf_shop t"
  by (auto simp: create_guest_cart_def res_simps intro: insert_wf)

lemma add_line_wf: "wf_shop cs \<Longrightarrow> add_line P fresh target v q now cs = Inr (answer, t) \<Longrightarrow> wf_shop t"
  by (auto simp: add_line_def res_simps intro!: plain_change_wf [where ev = "AddUnits v q now"]
      dest: target_cart_opened)

lemma change_line_wf: "wf_shop cs \<Longrightarrow> change_line_in P target v q now cs = Inr t \<Longrightarrow> wf_shop t"
  by (auto simp: change_line_in_def res_simps intro!: plain_change_wf [where ev = "ChangeLine v q now"]
      dest: lock_target_opened split: option.splits if_splits)

lemma remove_line_wf: "wf_shop cs \<Longrightarrow> remove_line_in target v now cs = Inr t \<Longrightarrow> wf_shop t"
  by (auto simp: remove_line_in_def res_simps intro!: plain_change_wf [where ev = "RemoveLine v now"]
      dest: lock_target_opened split: option.splits if_splits)

lemma copy_into_wf:
  assumes "opened c cs" and "whole_items items" and "copy_into P c items now cs = Inr (copy, t)"
  shows "wf_shop t"
proof -
  obtain sold skipped where sold: "sold_items P items now = (sold, skipped)" by (cases "sold_items P items now")
  with assms(2) have "whole_items sold" by (auto simp: sold_items_def whole_items_def)
  with assms sold show ?thesis
    by (auto simp: copy_into_def res_simps intro!: plain_change_wf [where ev = "CopyOrderLines sold now"])
qed

lemma to_customer_wf:
  "wf_shop cs \<Longrightarrow> whole_items items \<Longrightarrow> to_customer_cart P fresh u items now cs = Inr (copy, t) \<Longrightarrow> wf_shop t"
  by (auto simp: to_customer_cart_def res_simps intro: copy_into_wf dest: customer_cart_opened)

lemma to_guest_wf:
  "wf_shop cs \<Longrightarrow> whole_items items \<Longrightarrow> to_guest_cart P fresh given items now cs = Inr (copy, t) \<Longrightarrow> wf_shop t"
  by (auto simp: to_guest_cart_def Let_def res_simps lock_guest_Inr split: option.splits
      intro: copy_into_wf new_opened found_opened)

lemma to_source_wf:
  assumes "wf_shop cs" and "whole_items items" and "to_source_cart P source items now cs = Inr (copy, t)"
  shows "wf_shop t"
proof -
  obtain sold skipped where sold: "sold_items P items now = (sold, skipped)" by (cases "sold_items P items now")
  with assms(2) have whole: "whole_items sold" by (auto simp: sold_items_def whole_items_def)
  show ?thesis
  proof (cases "find_cart source cs")
    case None
    with assms show ?thesis by (simp add: to_source_cart_def)
  next
    case (Some c)
    note c = found_opened [OF assms(1) Some]
    show ?thesis
    proof (cases "ct_owner c \<noteq> None \<or> ct_status c = MERGED")
      case True
      with assms Some show ?thesis by (simp add: to_source_cart_def)
    next
      case False
      have "wf_shop (save_cart changed cs)" if "reopen_with sold now c = Inr changed" for changed
        by (rule change_wf [OF c, of "ReopenWith sold now"])
          (use that whole False cart_step_frame [of c "ReopenWith sold now" changed] in auto)
      with assms Some False sold show ?thesis
        by (auto simp: to_source_cart_def res_simps intro: copy_into_wf [OF c] split: if_splits)
    qed
  qed
qed

lemma check_out_wf:
  assumes "wf_shop cs" and "check_out_in i now cs = Inr t"
  shows "wf_shop t"
proof -
  from assms(2) obtain c changed where c: "find_cart i cs = Some c" "check_out_cart now c = Inr changed"
      "t = save_cart changed cs"
    by (auto simp: check_out_in_def res_simps split: option.splits)
  then have step: "cart_step c (CheckOut now) = Inr changed" by simp
  show ?thesis
    unfolding c(3)
    by (rule change_wf [OF found_opened [OF assms(1) c(1)] step]) (use cart_step_status [OF step] in auto)
qed

lemma merge_wf:
  assumes wf: "wf_shop cs" and step: "merge_guest customer guest_id now cs = Inr t"
  shows "wf_shop t"
proof -
  from step obtain guest where guest: "find_cart guest_id cs = Some guest"
    by (auto simp: merge_guest_def split: option.splits)
  note g = found_opened [OF wf guest]
  show ?thesis
  proof (cases "ct_owner guest \<noteq> None \<or> ct_status guest = MERGED")
    case True
    with step guest have "t = cs" by (auto simp: merge_guest_def split: if_splits)
    with wf show ?thesis by simp
  next
    case free: False
    show ?thesis
    proof (cases "find_active_of customer cs")
      case None
      with step guest free obtain adopted where
        ev: "cart_step guest (Adopt customer now) = Inr adopted" and t: "t = save_cart adopted cs"
        by (auto simp: merge_guest_def res_simps)
      show ?thesis
        unfolding t by (rule change_wf [OF g ev]) (use free None cart_step_frame [OF ev] in auto)
    next
      case (Some own)
      with step guest free obtain own' guest' where
        absorb: "absorb_cart guest now own = Inr (own', guest')" and t: "t = save_cart guest' (save_cart own' cs)"
        by (auto simp: merge_guest_def res_simps)
      note own = active_opened [OF wf Some]
      have owner: "ct_owner own = Some customer" using find_active_SomeD [OF Some] by simp
      have ids: "ct_id own \<noteq> ct_id guest" using opened_same [OF own g] owner free by auto
      from absorb have ev: "cart_step own (AbsorbGuest guest now) = Inr own'" by simp
      have whole: "brings_whole (AbsorbGuest guest now)"
        using opened_row [OF g] by (simp add: row_ok_def wf_cart_def)
      have saved: "wf_shop (save_cart own' cs)" by (rule plain_change_wf [OF own ev whole]) simp_all
      from absorb have g': "guest' = touch_cart now (guest\<lparr>ct_status := MERGED, ct_merged_into := Some (ct_id own)\<rparr>)"
        by (auto simp: absorb_cart_def res_simps)
      show ?thesis
        unfolding t g' by (rule absorb_wf [OF own g ids saved]) (use cart_step_frame [OF ev] owner free in auto)
    qed
  qed
qed

lemma restore_wf:
  assumes wf: "wf_shop cs" and whole: "whole_items lines"
    and step: "restore_expired_order customer source_id lines expired_at now cs = Inr (outcome, t)"
  shows "wf_shop t"
proof -
  define active where "active = (case customer of None \<Rightarrow> None | Some u \<Rightarrow> find_active_of u cs)"
  from step consider "t = cs"
    | source where "find_cart source_id cs = Some source" "ct_owner source = customer" "active = None"
        "t = save_cart (snd (reactivate_cart now source)) cs"
    | source own moved own' source' where "find_cart source_id cs = Some source" "ct_owner source = customer"
        "ct_status source = CHECKED_OUT" "active = Some own"
        "absorb_order source lines now own = Inr (moved, own', source')"
        "t = save_cart source' (save_cart own' cs)"
    unfolding restore_expired_order_def Let_def active_def [symmetric]
    by (auto simp: res_simps split: if_splits option.splits)
  then show ?thesis
  proof cases
    case 1
    with wf show ?thesis by simp
  next
    case 2
    have ev: "cart_step source (Reactivate now) = Inr (snd (reactivate_cart now source))" by simp
    show ?thesis
      unfolding 2(4)
    proof (rule change_wf [OF found_opened [OF wf 2(1)] ev])
      show "ct_status source = CART_ACTIVE \<and> ct_owner source = Some u \<or> find_active_of u cs = None"
        if "ct_owner (snd (reactivate_cart now source)) = Some u" for u
        using that 2(2,3) cart_step_frame [OF ev] by (auto simp: active_def)
    qed simp_all
  next
    case 3
    then obtain u where u: "customer = Some u" "find_active_of u cs = Some own"
      by (auto simp: active_def split: option.splits)
    note own = active_opened [OF wf u(2)] and g = found_opened [OF wf 3(1)]
    have owner: "ct_owner own = Some u" "ct_status own = CART_ACTIVE" using find_active_SomeD [OF u(2)] by auto
    have ids: "ct_id own \<noteq> ct_id source"
      using opened_same [OF own g] owner 3(3) by auto
    from 3(5) have ev: "cart_step own (AbsorbOrder source lines now) = Inr own'" by simp
    have saved: "wf_shop (save_cart own' cs)" by (rule plain_change_wf [OF own ev]) (use whole in simp_all)
    from 3(3,5) have g': "source' = touch_cart now (source\<lparr>ct_status := MERGED, ct_merged_into := Some (ct_id own)\<rparr>)"
      by (auto simp: absorb_order_def res_simps split: if_splits)
    show ?thesis
      unfolding 3(6) g'
      by (rule absorb_wf [OF own g ids saved]) (use cart_step_frame [OF ev] owner 3(2) u(1) in auto)
  qed
qed

subsection \<open>The daily cleanup\<close>

definition inactive_guests :: "time \<Rightarrow> carts \<Rightarrow> cart list" where
  "inactive_guests before cs = filter (is_inactive_guest before) cs"

text \<open>Every cart but inactive guests' is kept as it is, and nothing is added.\<close>

definition keeps_others :: "time \<Rightarrow> carts \<Rightarrow> carts \<Rightarrow> bool" where
  "keeps_others before cs t \<longleftrightarrow>
     filter (\<lambda>c. \<not> is_inactive_guest before c) t = filter (\<lambda>c. \<not> is_inactive_guest before c) cs
     \<and> set t \<subseteq> set cs"

definition batch_of :: "time \<Rightarrow> carts \<Rightarrow> nat \<Rightarrow> cart list" where
  "batch_of before cs limit = take limit (sort_key ct_activity_at (inactive_guests before cs))"

lemma batch_in: "c \<in> set (batch_of before cs limit) \<Longrightarrow> c \<in> set cs \<and> is_inactive_guest before c"
  unfolding batch_of_def inactive_guests_def by (drule in_set_takeD) simp

lemma delete_inactive_shape:
  assumes "wf_shop cs"
  shows "delete_inactive before cs limit =
     (length (batch_of before cs limit), filter (\<lambda>c. c \<notin> set (batch_of before cs limit)) cs)"
proof -
  define batch where "batch = batch_of before cs limit"
  have in_batch: "c \<in> set cs \<and> ct_owner c = None" if "c \<in> set batch" for c
    using batch_in [of c before cs limit] that by (simp add: batch_def is_inactive_guest_def)
  have ids: "distinct (map ct_id cs)" using assms by (simp add: wf_shop_def)
  have "filter (\<lambda>c. ct_id c \<notin> ct_id ` set batch) cs = filter (\<lambda>c. c \<notin> set batch) cs"
    using in_batch by (intro filter_cong) (auto dest: same_cart [OF ids])
  with guests_no_cascade [OF assms in_batch] show ?thesis
    by (simp add: delete_inactive_def batch_of_def inactive_guests_def Let_def batch_def)
qed

lemma delete_inactive_batch:
  assumes wf: "wf_shop cs" and del: "delete_inactive before cs limit = (n, t)"
  shows "n = min limit (length (inactive_guests before cs))"
    and "length (inactive_guests before t) = length (inactive_guests before cs) - n"
    and "wf_shop t" and "keeps_others before cs t"
proof -
  define batch where "batch = batch_of before cs limit"
  have t: "t = filter (\<lambda>c. c \<notin> set batch) cs" and n: "n = length batch"
    using del delete_inactive_shape [OF wf] by (simp_all add: batch_def)
  have "distinct (inactive_guests before cs)"
    using wf by (simp add: wf_shop_def distinct_map inactive_guests_def)
  then have dist: "distinct batch" by (simp add: batch_def batch_of_def)
  show len: "n = min limit (length (inactive_guests before cs))" by (simp add: n batch_def batch_of_def min.commute)
  have sub: "set batch \<subseteq> set (inactive_guests before cs)"
    using batch_in by (auto simp: batch_def inactive_guests_def)
  have "inactive_guests before t = filter (\<lambda>c. c \<notin> set batch) (inactive_guests before cs)"
    by (simp add: t inactive_guests_def conj_commute)
  moreover have "length (filter (\<lambda>c. c \<in> set batch) (inactive_guests before cs)) = n"
  proof -
    have "mset (filter (\<lambda>c. c \<in> set batch) (inactive_guests before cs)) = mset batch"
      using \<open>distinct (inactive_guests before cs)\<close> dist sub by (intro set_eq_iff_mset_eq_distinct [THEN iffD1]) auto
    then show ?thesis using n by (metis size_mset)
  qed
  ultimately show "length (inactive_guests before t) = length (inactive_guests before cs) - n"
    using sum_length_filter_compl [of "\<lambda>c. c \<in> set batch" "inactive_guests before cs"] by simp
  show "wf_shop t"
    using delete_wf [OF wf] del by (auto simp: delete_inactive_def Let_def)
  show "keeps_others before cs t"
    using batch_in by (auto simp: keeps_others_def t batch_def intro!: filter_cong)
qed

interpretation guest_cleanup: batch_deletion "delete_inactive before" "\<lambda>cs. length (inactive_guests before cs)"
    wf_shop "keeps_others before" for before
proof unfold_locales
  show "n = min limit (length (inactive_guests before cs))
      \<and> length (inactive_guests before t) = length (inactive_guests before cs) - n"
    if "wf_shop cs" "delete_inactive before cs limit = (n, t)" for cs limit n t
    using delete_inactive_batch(1,2) [OF that] by blast
  show "wf_shop t \<and> keeps_others before cs t"
    if "wf_shop cs" "delete_inactive before cs limit = (n, t)" for cs limit n t
    using delete_inactive_batch(3,4) [OF that] by blast
qed (auto simp: keeps_others_def)

lemma clean_guests:
  assumes "wf_shop cs" and "clean_guest_carts days now cs = (n, t)"
  shows "wf_shop t" and "keeps_others (days_before now days) cs t"
    and "n = min (CLEANUP_MAX_BATCHES * CLEANUP_BATCH_SIZE) (length (inactive_guests (days_before now days) cs))"
    and "length (inactive_guests (days_before now days) t) = length (inactive_guests (days_before now days) cs) - n"
  using guest_cleanup.run_deletes [OF assms(2) [unfolded clean_guest_carts_def] assms(1)] by simp_all

lemma clean_wf: "wf_shop cs \<Longrightarrow> wf_shop (snd (clean_guest_carts days now cs))"
  using clean_guests(1) prod.collapse by metis

lemma shop_step_wf:
  assumes "wf_shop cs" and "brings_whole_lines ev" and "shop_step P cs ev = Inr t"
  shows "wf_shop t"
proof (cases ev)
  case (OrderExpiredEvent customer source lines occurred now)
  with assms show ?thesis
    by (cases source) (auto simp: on_order_expired_def res_simps intro: restore_wf)
next
  case (NewGuestCart fresh now)
  with assms show ?thesis by (auto simp: res_simps intro: create_guest_wf)
next
  case (AddLineTo fresh target v q now)
  with assms show ?thesis by (auto simp: res_simps intro: add_line_wf)
next
  case (ChangeLineOf target v q now)
  with assms show ?thesis by (simp add: change_line_wf)
next
  case (RemoveLineOf target v now)
  with assms show ?thesis by (simp add: remove_line_wf)
next
  case (MergeGuest customer guest now)
  with assms show ?thesis by (simp add: merge_wf)
next
  case (CheckOutOf i now)
  with assms show ?thesis by (simp add: check_out_wf)
next
  case (CopyToCustomer fresh customer items now)
  with assms show ?thesis by (auto simp: res_simps intro: to_customer_wf)
next
  case (CopyToGuest fresh given items now)
  with assms show ?thesis by (auto simp: res_simps intro: to_guest_wf)
next
  case (CopyToSource source items now)
  with assms show ?thesis by (auto simp: res_simps intro: to_source_wf)
next
  case (DeleteCartsOf customer)
  with assms show ?thesis by (auto simp: delete_of_def intro: delete_wf)
next
  case (CleanGuestCarts days now)
  with assms show ?thesis by (auto intro: clean_wf)
qed

interpretation shop_life: guarded_lifecycle "shop_step P" wf_shop brings_whole_lines for P
  by unfold_locales (rule shop_step_wf)

end
