(* ===== verification/ShopGuarantees.thy ===== *)
theory ShopGuarantees
  imports ShopInvariant
begin

text \<open>
  What the use cases of Shopping promise, from the invariant of the table of carts: merging adds up and happens
  once, an expired order comes back once, the ID of a guest cart reaches no customer's cart, and deletions
  take no more than they say.
\<close>

lemma row_stored: "wf_shop cs \<Longrightarrow> c \<in> set cs \<Longrightarrow> find_cart (ct_id c) cs = Some c"
  by (simp add: wf_shop_def find_cart_in)

lemma active_found:
  assumes wf: "wf_shop cs" and c: "c \<in> set cs" "ct_owner c = Some u" "ct_status c = CART_ACTIVE"
  shows "find_active_of u cs = Some c"
proof (cases "find_active_of u cs")
  case None
  with find_active_NoneD [OF None c(1,2)] c(3) show ?thesis by simp
next
  case (Some d)
  from find_active_SomeD [OF Some] have d: "d \<in> set cs" "ct_owner d = Some u" "ct_status d = CART_ACTIVE" by auto
  from one_activeD [OF wf c(1) d(1) c(3) d(3) c(2) d(2)] have "ct_id d = ct_id c" .
  with wf c(1) d(1) have "d = c" by (intro same_cart [of cs]) (simp_all add: wf_shop_def)
  with Some show ?thesis by simp
qed

text \<open>The row after a save has the lines of the cart that was saved.\<close>

lemma saved_quantity:
  assumes "opened c cs" and "cart_step c ev = Inr t" and "brings_whole ev"
  shows "map_of (ct_lines (saved_row t (as_read c))) = map_of (ct_lines t)"
proof -
  have row: "row_ok (as_read c)" and untouched: "ct_touched c = []"
    using assms(1) opened_row by (auto simp: opened_def)
  then have wf: "wf_cart c" by (simp add: row_ok_def wf_cart_def)
  then have "wf_lines (ct_lines t)" using cart_step_wf [OF wf assms(2,3)] by (simp add: wf_cart_def)
  with saved_rows_exact [OF cart_step_tracks [OF untouched assms(2)] this] wf show ?thesis
    by (simp add: wf_cart_def)
qed

lemma saved_row_quantity:
  "map_of (ct_lines (saved_row t r)) = map_of (ct_lines t) \<Longrightarrow> quantity_of (saved_row t r) v = quantity_of t v"
  by (simp add: quantity_of_def)

text \<open>The units a cart brings of a variant are those of its line.\<close>

lemma units_of_cart:
  assumes "wf_lines (ct_lines c)"
  shows "units_asked (items_of_lines (cart_lines c)) v = quantity_of c v"
proof -
  have keys: "(\<Sum>(k, l)\<leftarrow>ls. if cl_variant l = v then cl_quantity l else 0)
      = (case map_of ls v of Some l \<Rightarrow> cl_quantity l | None \<Rightarrow> 0)"
    if "wf_lines ls" for ls
    using that
  proof (induction ls)
    case Nil
    then show ?case by simp
  next
    case (Cons e ls)
    obtain k l where e: "e = (k, l)" by (cases e)
    have wf: "wf_lines ls" "k \<notin> fst ` set ls" "cl_variant l = k" using Cons.prems by (auto simp: wf_lines_def e)
    have "map_of ls k = None" using wf(2) by (simp add: map_of_eq_None_iff)
    with Cons.IH [OF wf(1)] wf(3) show ?case by (auto simp: e)
  qed
  have "units_asked (items_of_lines (cart_lines c)) v
      = (\<Sum>l\<leftarrow>cart_lines c. if cl_variant l = v then cl_quantity l else 0)"
    by (simp add: units_asked_def items_of_lines_def o_def cong: if_cong)
  also have "\<dots> = (\<Sum>l\<leftarrow>map snd (ct_lines c). if cl_variant l = v then cl_quantity l else 0)"
    by (simp add: cart_lines_def multiset.map_comp flip: sum_mset_sum_list)
  also have "\<dots> = quantity_of c v"
    using keys [OF assms] by (simp add: quantity_of_def o_def case_prod_unfold)
  finally show ?thesis .
qed

section \<open>Merging\<close>

lemma after_save:
  assumes "wf_shop (save_cart c cs)" and "find_cart (ct_id c) cs = Some r"
  shows "find_cart (ct_id c) (save_cart c cs) = Some (saved_row c r)"
  using assms(2) by (simp add: find_cart_save)

lemma merge_adopts:
  assumes wf: "wf_shop cs" and guest: "find_cart g cs = Some guest" "ct_owner guest = None"
      "ct_status guest = CART_ACTIVE" and none: "find_active_of u cs = None"
  shows "\<exists>t own. merge_guest u g now cs = Inr t \<and> find_active_of u t = Some own
    \<and> (\<forall>v. quantity_of own v = quantity_of guest v) \<and> merge_guest u g later t = Inr t"
proof -
  define adopted where "adopted = touch_cart now (guest\<lparr>ct_owner := Some u\<rparr>)"
  define t where "t = save_cart adopted cs"
  have ev: "cart_step guest (Adopt u now) = Inr adopted"
    using guest(3) by (simp add: adopt_cart_def assert_cart_active_def adopted_def)
  have step: "merge_guest u g now cs = Inr t" using guest none ev by (simp add: merge_guest_def t_def)
  have wf_t: "wf_shop t" by (rule merge_wf [OF wf step])
  have g: "ct_id guest = g" using find_cart_SomeD [OF guest(1)] by simp
  have found: "find_cart g t = Some (saved_row adopted guest)"
    using guest(1) by (simp add: t_def find_cart_save adopted_def g)
  then have own: "saved_row adopted guest \<in> set t" using find_cart_SomeD by blast
  have active: "find_active_of u t = Some (saved_row adopted guest)"
    by (rule active_found [OF wf_t own]) (simp_all add: adopted_def guest(3))
  have same: "map_of (ct_lines (saved_row adopted (as_read guest))) = map_of (ct_lines adopted)"
    by (rule saved_quantity [OF found_opened [OF wf guest(1)] ev]) simp
  have "quantity_of (saved_row adopted guest) v = quantity_of guest v" for v
    using same by (simp add: quantity_of_def adopted_def)
  moreover have "merge_guest u g later t = Inr t"
    using found guest(3) by (simp add: merge_guest_def adopted_def)
  ultimately show ?thesis using step active by blast
qed

lemma merge_absorbs:
  assumes wf: "wf_shop cs" and guest: "find_cart g cs = Some guest" "ct_owner guest = None"
      "ct_status guest = CART_ACTIVE" and some: "find_active_of u cs = Some own"
  shows "\<exists>t own'. merge_guest u g now cs = Inr t \<and> find_active_of u t = Some own'
    \<and> (\<forall>v. quantity_of own' v = min MAX_LINE_QUANTITY (quantity_of own v + quantity_of guest v))
    \<and> merge_guest u g later t = Inr t"
proof -
  have o: "own \<in> set cs" "ct_owner own = Some u" "ct_status own = CART_ACTIVE"
    using find_active_SomeD [OF some] by auto
  have g: "ct_id guest = g" using find_cart_SomeD [OF guest(1)] by simp
  note opened = active_opened [OF wf some] found_opened [OF wf guest(1)]
  have ids: "ct_id own \<noteq> g" using opened_same [OF opened] o(2) guest(2) g by auto
  have lines: "wf_lines (ct_lines own)" "wf_lines (ct_lines guest)"
    using opened_row [OF opened(1)] opened_row [OF opened(2)] by (simp_all add: row_ok_def wf_cart_def)
  have whole: "whole_items (items_of_lines (cart_lines guest))" "brings_whole (AbsorbGuest guest now)"
    using opened_row [OF opened(2)] by (auto simp: row_ok_def wf_cart_def intro!: guest_items_whole)
  define own' where "own' = touch_cart now (add_capped (items_of_lines (cart_lines guest)) now own)"
  define guest' where "guest' = touch_cart now (guest\<lparr>ct_status := MERGED, ct_merged_into := Some (ct_id own)\<rparr>)"
  define t where "t = save_cart guest' (save_cart own' cs)"
  have absorb: "absorb_cart guest now own = Inr (own', guest')"
    using o(3) guest(3) by (simp add: absorb_cart_def assert_cart_active_def own'_def guest'_def)
  then have ev: "cart_step own (AbsorbGuest guest now) = Inr own'" by simp
  have step: "merge_guest u g now cs = Inr t" using guest some absorb by (simp add: merge_guest_def t_def)
  have wf_t: "wf_shop t" by (rule merge_wf [OF wf step])
  have own_t: "find_cart (ct_id own) t = Some (saved_row own' own)"
    using ids row_stored [OF wf o(1)] by (simp add: t_def find_cart_save own'_def guest'_def g)
  have guest_t: "find_cart g t = Some (saved_row guest' guest)"
    using ids guest(1) by (simp add: t_def find_cart_save own'_def guest'_def g)
  from own_t have "saved_row own' own \<in> set t" using find_cart_SomeD by blast
  then have active: "find_active_of u t = Some (saved_row own' own)"
    by (rule active_found [OF wf_t]) (simp_all add: own'_def o)
  have own_row: "as_read own = own" using opened(1) row_stored [OF wf o(1)] by (simp add: opened_def)
  from saved_quantity [OF opened(1) ev whole(2)] own_row
  have "quantity_of (saved_row own' own) v = quantity_of own' v" for v
    by (simp add: quantity_of_def)
  then have "quantity_of (saved_row own' own) v
      = min MAX_LINE_QUANTITY (quantity_of own v + quantity_of guest v)" for v
    using add_capped_quantity [OF lines(1) whole(1), of now v] units_of_cart [OF lines(2), of v]
    by (simp add: own'_def)
  moreover have "merge_guest u g later t = Inr t"
    using guest_t own_t guest(2) by (simp add: merge_guest_def guest'_def merged_before_def own'_def o)
  ultimately show ?thesis using step active by blast
qed

text \<open>
  C31. Merging the active guest cart adds its lines to the customer's active cart, up to 30 units of each
  variant, or makes it the customer's active cart when there is none; merging again changes nothing.
\<close>

theorem merge_adds_up:
  assumes "wf_shop cs" and "find_cart g cs = Some guest" and "ct_owner guest = None"
    and "ct_status guest = CART_ACTIVE"
  shows "\<exists>t own. merge_guest u g now cs = Inr t \<and> find_active_of u t = Some own \<and>
     (\<forall>v. quantity_of own v = min MAX_LINE_QUANTITY
        ((case find_active_of u cs of Some before \<Rightarrow> quantity_of before v | None \<Rightarrow> 0) + quantity_of guest v)) \<and>
     merge_guest u g later t = Inr t"
proof (cases "find_active_of u cs")
  case None
  have "wf_lines (ct_lines guest)" using wf_row [OF assms(1,2)] by (simp add: row_ok_def wf_cart_def)
  then have "min MAX_LINE_QUANTITY (quantity_of guest v) = quantity_of guest v" for v
    using quantity_of_bounds [of guest v] by simp
  with merge_adopts [OF assms None, of now later] None show ?thesis by simp
next
  case (Some own)
  with merge_absorbs [OF assms Some, of now later] show ?thesis by simp
qed

section \<open>Restoring the lines of an expired order\<close>

text \<open>
  An expired order comes back once: its cart is active again with its lines, or the customer's active
  cart has its own units and the order's, up to 30 of each variant; the same event again changes nothing.
\<close>

lemma expired_order_restored_once:
  assumes wf: "wf_shop cs" and source: "find_cart source_id cs = Some source" "ct_owner source = customer"
      "ct_status source = CHECKED_OUT" "ct_activity_at source \<le> expired_at" and whole: "whole_items lines"
    and active: "active = (case customer of None \<Rightarrow> None | Some u \<Rightarrow> find_active_of u cs)"
  shows "\<exists>outcome t c. restore_expired_order customer source_id lines expired_at now cs = Inr (outcome, t) \<and>
     c \<in> set t \<and> ct_owner c = customer \<and> ct_status c = CART_ACTIVE \<and>
     (\<forall>v. quantity_of c v = (case active of None \<Rightarrow> quantity_of source v
        | Some own \<Rightarrow> min MAX_LINE_QUANTITY (quantity_of own v + units_asked lines v))) \<and>
     restore_expired_order customer source_id lines expired_at later t = Inr (AlreadyRestored, t)"
proof (cases active)
  case None
  define t where "t = save_cart (snd (reactivate_cart now source)) cs"
  define c where "c = saved_row (snd (reactivate_cart now source)) source"
  have step: "restore_expired_order customer source_id lines expired_at now cs = Inr (Reactivated, t)"
    using source None active by (simp add: restore_expired_order_def t_def)
  have ids: "ct_id source = source_id" using find_cart_SomeD [OF source(1)] by simp
  have found: "find_cart source_id t = Some c"
    using source by (simp add: t_def c_def find_cart_save reactivate_cart_def ids)
  have ev: "cart_step source (Reactivate now) = Inr (snd (reactivate_cart now source))" by simp
  have same: "map_of (ct_lines c) = map_of (ct_lines source)"
    using saved_quantity [OF found_opened [OF wf source(1)] ev] source(3)
    by (simp add: c_def reactivate_cart_def)
  have fields: "ct_owner c = customer" "ct_status c = CART_ACTIVE" "c \<in> set t"
    using source find_cart_SomeD [OF found] by (auto simp: c_def reactivate_cart_def)
  with same found step None show ?thesis
    by (intro exI [of _ Reactivated] exI [of _ t] exI [of _ c])
      (simp add: quantity_of_def restore_expired_order_def)
next
  case (Some own)
  then obtain u where u: "customer = Some u" "find_active_of u cs = Some own"
    using active by (auto split: option.splits)
  have o: "own \<in> set cs" "ct_owner own = Some u" "ct_status own = CART_ACTIVE"
    using find_active_SomeD [OF u(2)] by auto
  have ids: "ct_id source = source_id" using find_cart_SomeD [OF source(1)] by simp
  note opened = active_opened [OF wf u(2)] found_opened [OF wf source(1)]
  have apart: "ct_id own \<noteq> source_id" using opened_same [OF opened] o(3) source(3) ids by auto
  define own' where "own' = touch_cart now (add_capped lines now own)"
  define source' where "source' = touch_cart now (source\<lparr>ct_status := MERGED, ct_merged_into := Some (ct_id own)\<rparr>)"
  define t where "t = save_cart source' (save_cart own' cs)"
  have absorb: "absorb_order source lines now own = Inr (True, own', source')"
    using o(3) source(3) by (simp add: absorb_order_def assert_cart_active_def own'_def source'_def)
  then have ev: "cart_step own (AbsorbOrder source lines now) = Inr own'" by simp
  have step: "restore_expired_order customer source_id lines expired_at now cs = Inr (MergedBack, t)"
    using source u absorb by (simp add: restore_expired_order_def t_def)
  have own_row: "find_cart (ct_id own) t = Some (saved_row own' own)"
    using apart row_stored [OF wf o(1)] by (simp add: t_def find_cart_save own'_def source'_def ids)
  have source_row: "find_cart source_id t = Some (saved_row source' source)"
    using apart source(1) by (simp add: t_def find_cart_save own'_def source'_def ids)
  have "as_read own = own" using opened(1) row_stored [OF wf o(1)] by (simp add: opened_def)
  with saved_quantity [OF opened(1) ev] whole
  have "quantity_of (saved_row own' own) v = quantity_of own' v" for v by (simp add: quantity_of_def)
  moreover have "wf_lines (ct_lines own)" using opened_row [OF opened(1)] by (simp add: row_ok_def wf_cart_def)
  ultimately have units: "quantity_of (saved_row own' own) v
      = min MAX_LINE_QUANTITY (quantity_of own v + units_asked lines v)" for v
    using add_capped_quantity [OF _ whole, of own now v] by (simp add: own'_def)
  have again: "restore_expired_order customer source_id lines expired_at later t = Inr (AlreadyRestored, t)"
    using source_row source(2) by (simp add: restore_expired_order_def source'_def)
  have fields: "saved_row own' own \<in> set t" "ct_owner own' = customer" "ct_status own' = CART_ACTIVE"
    using find_cart_SomeD [OF own_row] o u by (auto simp: own'_def)
  from step fields units again Some show ?thesis
    by (intro exI [of _ MergedBack] exI [of _ t] exI [of _ "saved_row own' own"]) simp
qed

section \<open>Who reaches which cart\<close>

text \<open>The carts that belong to customers.\<close>

definition owned_carts :: "carts \<Rightarrow> cart list" where
  "owned_carts cs = filter (\<lambda>c. ct_owner c \<noteq> None) cs"

text \<open>What the holder of the ID of a cart can ask without an account, and what the staff does with guest orders.\<close>

fun without_account :: "shop_event \<Rightarrow> bool" where
  "without_account (NewGuestCart fresh now) = True"
| "without_account (AddLineTo fresh (GuestTarget i) v q now) = True"
| "without_account (ChangeLineOf (GuestTarget i) v q now) = True"
| "without_account (RemoveLineOf (GuestTarget i) v now) = True"
| "without_account (CopyToGuest fresh given items now) = True"
| "without_account (CopyToSource source items now) = True"
| "without_account (OrderExpiredEvent None source lines occurred now) = True"
| "without_account _ = False"

lemma save_guest_keeps:
  assumes "distinct (map ct_id cs)" and "find_cart (ct_id c) cs = Some r" and "ct_owner r = None"
    and "ct_owner c = None"
  shows "owned_carts (save_cart c cs) = owned_carts cs"
proof -
  have "filter (\<lambda>d. ct_owner d \<noteq> None) (map (\<lambda>d. if ct_id d = ct_id c then saved_row c d else d) ds)
      = filter (\<lambda>d. ct_owner d \<noteq> None) ds" if "\<forall>d\<in>set ds. ct_id d = ct_id c \<longrightarrow> ct_owner d = None" for ds
    using that assms(4) by (induction ds) auto
  moreover have "\<forall>d\<in>set cs. ct_id d = ct_id c \<longrightarrow> ct_owner d = None"
    using find_cart_in [OF assms(1)] assms(2,3) by fastforce
  ultimately show ?thesis by (simp add: owned_carts_def save_cart_def)
qed

lemma guest_change_keeps:
  assumes "opened c cs" and "ct_owner c = None" and "cart_step c ev = Inr t" and "\<And>u now. ev \<noteq> Adopt u now"
  shows "owned_carts (save_cart t cs) = owned_carts cs"
proof (rule save_guest_keeps [where r = "as_read c"])
  have "owner_after ev (ct_owner c) = ct_owner c" using assms(4) by (cases ev) auto
  with cart_step_frame [OF assms(3)] assms show
    "find_cart (ct_id t) cs = Some (as_read c)" "ct_owner t = None" by (simp_all add: opened_def)
qed (use assms in \<open>simp_all add: opened_def wf_shop_def\<close>)

lemma copy_keeps_owned:
  assumes "opened c cs" and "ct_owner c = None" and "copy_into P c items now cs = Inr (copy, t)"
  shows "owned_carts t = owned_carts cs"
proof -
  obtain sold skipped where sold: "sold_items P items now = (sold, skipped)" by (cases "sold_items P items now")
  with assms show ?thesis
    by (auto simp: copy_into_def res_simps intro!: guest_change_keeps [where ev = "CopyOrderLines sold now"])
qed

lemma open_cart_owner [simp]: "ct_owner (open_cart i w now) = w"
  by (simp add: open_cart_def)

lemma insert_guest_keeps: "insert_cart (open_cart i None now) cs = Inr t \<Longrightarrow> owned_carts t = owned_carts cs"
  by (auto simp: insert_cart_Inr owned_carts_def)

lemma source_keeps_owned:
  assumes wf: "wf_shop cs" and step: "to_source_cart P source items now cs = Inr (copy, t)"
  shows "owned_carts t = owned_carts cs"
proof (cases "find_cart source cs")
  case None
  with step show ?thesis by (simp add: to_source_cart_def)
next
  case (Some c)
  note c = found_opened [OF wf Some]
  obtain sold skipped where sold: "sold_items P items now = (sold, skipped)" by (cases "sold_items P items now")
  show ?thesis
  proof (cases "ct_owner c \<noteq> None \<or> ct_status c = MERGED")
    case True
    with step Some show ?thesis by (simp add: to_source_cart_def)
  next
    case False
    with step Some sold show ?thesis
      by (auto simp: to_source_cart_def res_simps copy_keeps_owned [OF c] split: if_splits
          intro!: guest_change_keeps [OF c, of "ReopenWith sold now"])
  qed
qed

lemma expired_keeps_owned:
  assumes wf: "wf_shop cs" and step: "restore_expired_order None source_id lines expired_at now cs = Inr (outcome, t)"
  shows "owned_carts t = owned_carts cs"
proof (cases "find_cart source_id cs")
  case None
  with step show ?thesis by (simp add: restore_expired_order_def)
next
  case (Some c)
  have "owned_carts (save_cart (snd (reactivate_cart now c)) cs) = owned_carts cs" if "ct_owner c = None"
    by (rule guest_change_keeps [OF found_opened [OF wf Some] that, of "Reactivate now"]) simp_all
  with step Some show ?thesis by (auto simp: restore_expired_order_def split: if_splits)
qed

text \<open>
  Knowing the ID of a cart gives no access to a customer's: what can be done without an account leaves
  every cart of a customer exactly as it is.
\<close>

lemma cart_ids_reach_no_customer:
  assumes wf: "wf_shop cs" and ev: "without_account ev" and step: "shop_step P cs ev = Inr t"
  shows "owned_carts t = owned_carts cs"
  using ev
proof (cases ev rule: without_account.cases)
  case (1 fresh now)
  with step show ?thesis by (auto simp: create_guest_cart_def res_simps insert_guest_keeps)
next
  case (2 fresh i v q now)
  with step show ?thesis
    by (auto simp: add_line_def target_cart_def res_simps lock_guest_Inr
        intro!: guest_change_keeps [where ev = "AddUnits v q now"] found_opened [OF wf])
next
  case (3 i v q now)
  with step show ?thesis
    by (auto simp: change_line_in_def res_simps lock_guest_Inr split: option.splits if_splits
        intro!: guest_change_keeps [where ev = "ChangeLine v q now"] found_opened [OF wf])
next
  case (4 i v now)
  with step show ?thesis
    by (auto simp: remove_line_in_def res_simps lock_guest_Inr split: option.splits if_splits
        intro!: guest_change_keeps [where ev = "RemoveLine v now"] found_opened [OF wf])
next
  case (5 fresh given items now)
  then obtain copy where copy: "to_guest_cart P fresh given items now cs = Inr (copy, t)"
    using step by (auto simp: res_simps)
  show ?thesis
  proof (cases given)
    case None
    with copy obtain u where u: "insert_cart (open_cart fresh None now) cs = Inr u"
        "copy_into P (open_cart fresh None now) items now u = Inr (copy, t)"
      by (auto simp: to_guest_cart_def Let_def res_simps)
    from copy_keeps_owned [OF new_opened [OF wf u(1)] _ u(2)] insert_guest_keeps [OF u(1)]
    show ?thesis by (simp add: open_cart_def)
  next
    case (Some i)
    with copy show ?thesis
      by (auto simp: to_guest_cart_def res_simps lock_guest_Inr
          intro!: copy_keeps_owned found_opened [OF wf])
  qed
next
  case (6 source items now)
  with step source_keeps_owned [OF wf] show ?thesis by (auto simp: res_simps)
next
  case (7 source lines occurred now)
  with step expired_keeps_owned [OF wf] show ?thesis
    by (cases source) (auto simp: on_order_expired_def res_simps)
qed simp_all

section \<open>Deletions\<close>

text \<open>
  The daily cleanup deletes only guest carts without activity, at most 100,000 of them, with no cascade
  into another cart; when there are no more, none is left.
\<close>

lemma cleanup_takes_only_inactive_guests:
  assumes "wf_shop cs" and "clean_guest_carts days now cs = (n, t)"
  shows "filter (\<lambda>c. \<not> is_inactive_guest (days_before now days) c) t
      = filter (\<lambda>c. \<not> is_inactive_guest (days_before now days) c) cs \<and>
     set t \<subseteq> set cs \<and> n = min 100000 (length (inactive_guests (days_before now days) cs)) \<and>
     length (inactive_guests (days_before now days) t) = length (inactive_guests (days_before now days) cs) - n"
  using clean_guests [OF assms] by (simp add: keeps_others_def CLEANUP_BATCH_SIZE_def CLEANUP_MAX_BATCHES_def)

text \<open>
  Deleting the carts of a customer leaves none of them and takes no other cart but the guest carts that
  were merged into them: no chain of merges reaches another customer's.
\<close>

lemma deletes_one_customer:
  assumes wf: "wf_shop cs"
  shows "list_all (\<lambda>c. ct_owner c \<noteq> Some u) (delete_of u cs) \<and>
     list_all (\<lambda>c. c \<in> set (delete_of u cs) \<or> ct_owner c = Some u \<or>
        (ct_owner c = None \<and> ct_status c = MERGED \<and> merged_before u c cs)) cs"
proof
  have ids: "distinct (map ct_id cs)" using wf by (simp add: wf_shop_def)
  define X where "X = set (map ct_id (filter (\<lambda>c. ct_owner c = Some u) cs))"
  define Y where "Y = {ct_id c | c. c \<in> set cs \<and> (ct_owner c = Some u \<or> ct_owner c = None \<and> merged_before u c cs)}"
  have d: "delete_of u cs = filter (\<lambda>c. ct_id c \<notin> cascade (length cs) cs X) cs"
    by (simp add: delete_of_def delete_carts_def X_def)
  have "X \<subseteq> cascade (length cs) cs X" by (rule cascade_includes)
  then show "list_all (\<lambda>c. ct_owner c \<noteq> Some u) (delete_of u cs)"
    by (auto simp: d list_all_iff X_def)
  have "merged_into_any cs Y \<subseteq> Y"
  proof
    fix i
    assume "i \<in> merged_into_any cs Y"
    then obtain c t where c: "c \<in> set cs" "ct_id c = i" "ct_merged_into c = Some t" "t \<in> Y"
      by (auto simp: merged_into_any_def)
    from wf c(1) have "merge_target_ok cs c" by (simp add: wf_shop_def)
    with c(3) obtain e where e: "e \<in> set cs" "ct_id e = t" "ct_owner e \<noteq> None"
        "ct_owner c = None \<or> ct_owner c = ct_owner e" by (auto simp: merge_target_ok_def)
    from c(4) obtain f where f: "f \<in> set cs" "ct_id f = t" "ct_owner f = Some u \<or> ct_owner f = None"
      by (auto simp: Y_def)
    have "f = e" using same_cart [OF ids f(1) e(1)] f(2) e(2) by simp
    with e f have owner: "ct_owner e = Some u" by auto
    then have "ct_owner c = None \<Longrightarrow> merged_before u c cs"
      using c(3) find_cart_in [OF ids e(1)] e(2) by (simp add: merged_before_def)
    with c e owner show "i \<in> Y" by (auto simp: Y_def)
  qed
  then have sub: "cascade (length cs) cs X \<subseteq> Y"
    by (rule cascade_within [rotated]) (auto simp: X_def Y_def)
  have "ct_owner c = Some u \<or> ct_owner c = None \<and> ct_status c = MERGED \<and> merged_before u c cs"
    if c: "c \<in> set cs" "c \<notin> set (delete_of u cs)" for c
  proof -
    from c sub have "ct_id c \<in> Y" by (auto simp: d)
    then obtain e where e: "e \<in> set cs" "ct_id e = ct_id c"
        "ct_owner e = Some u \<or> ct_owner e = None \<and> merged_before u e cs" by (auto simp: Y_def)
    have "e = c" by (rule same_cart [OF ids e(1) c(1) e(2)])
    moreover have "ct_status c = MERGED" if "merged_before u c cs"
    proof -
      have "wf_cart c" using wf c(1) by (simp add: wf_shop_def row_ok_def)
      with that show ?thesis by (auto simp: merged_before_def wf_cart_def split: option.splits)
    qed
    ultimately show ?thesis using e(3) by blast
  qed
  then show "list_all (\<lambda>c. c \<in> set (delete_of u cs) \<or> ct_owner c = Some u \<or>
        (ct_owner c = None \<and> ct_status c = MERGED \<and> merged_before u c cs)) cs"
    unfolding list_all_iff by blast
qed

section \<open>One active cart per customer\<close>

text \<open>
  C27. From an empty table, whatever the use cases do in any order, a customer never has two active carts, and
  every line of every cart holds between 1 and 30 units of its variant.
\<close>

theorem one_active_cart_per_customer:
  assumes "list_all brings_whole_lines evs" and "cs = run (shop_step P) [] evs"
  shows "(c \<in> set cs \<and> d \<in> set cs \<and> ct_owner c = Some u \<and> ct_owner d = Some u \<and>
      ct_status c = CART_ACTIVE \<and> ct_status d = CART_ACTIVE \<longrightarrow> c = d) \<and>
     list_all (\<lambda>c. list_all (\<lambda>(v, l). cl_variant l = v \<and> 1 \<le> cl_quantity l \<and> cl_quantity l \<le> 30) (ct_lines c)) cs"
proof -
  have wf: "wf_shop cs"
    unfolding assms(2) by (rule shop_life.sound_run_inv [OF _ assms(1)]) simp
  then have "row_ok c" if "c \<in> set cs" for c using that by (simp add: wf_shop_def)
  then have "list_all (\<lambda>c. list_all (\<lambda>(v, l). cl_variant l = v \<and> 1 \<le> cl_quantity l \<and> cl_quantity l \<le> 30) (ct_lines c)) cs"
    by (auto simp: list_all_iff row_ok_def wf_cart_def wf_lines_def MAX_LINE_QUANTITY_def)
  moreover have "c = d" if "c \<in> set cs" "d \<in> set cs" "ct_owner c = Some u" "ct_owner d = Some u"
      "ct_status c = CART_ACTIVE" "ct_status d = CART_ACTIVE"
    using active_found [OF wf that(1,3,5)] active_found [OF wf that(2,4,6)] by simp
  ultimately show ?thesis by blast
qed

text \<open>
  Writing only the touched lines stores the whole cart: after any operation on a cart as it was read, its
  row has exactly the lines of the cart, their order of age included.
\<close>

lemma saving_touched_lines_stores_all:
  assumes "row_ok c" and "cart_step c ev = Inr t" and "brings_whole ev"
  shows "map_of (ct_lines (saved_row t c)) v = map_of (ct_lines t) v"
  using assms saved_rows_exact [OF cart_step_tracks [OF _ assms(2)]] cart_step_wf [OF _ assms(2,3)]
  by (simp add: row_ok_def wf_cart_def)

section \<open>Witnesses\<close>

definition example_ports :: shop_ports where
  "example_ports = \<lparr>sp_on_sale = \<lambda>v. Some True, sp_price = \<lambda>v at. Some \<lparr>amount = 15000, currency = MXN\<rparr>\<rparr>"

text \<open>A guest cart with 20 units of a variant and a customer's with 15, and a cart of an order.\<close>

definition example_events :: "shop_event list" where
  "example_events =
     [NewGuestCart 1 10, AddLineTo 9 (GuestTarget 1) 7 (Whole 20) 11,
      AddLineTo 3 (CustomerTarget 5) 8 (Whole 4) 12, CheckOutOf 3 13,
      AddLineTo 2 (CustomerTarget 5) 7 (Whole 15) 14]"

definition example_shop :: carts where
  "example_shop = run (shop_step example_ports) [] example_events"

lemma example_shop_wf: "wf_shop example_shop"
  unfolding example_shop_def by (rule shop_life.sound_run_inv) (simp_all add: example_events_def)

lemma example_carts:
  "map ct_id example_shop = [1, 3, 2] \<and> map ct_owner example_shop = [None, Some 5, Some 5]
   \<and> map ct_status example_shop = [CART_ACTIVE, CHECKED_OUT, CART_ACTIVE] \<and> map ct_activity_at example_shop = [11, 13, 14]
   \<and> map (\<lambda>c. quantity_of c 7) example_shop = [20, 0, 15] \<and> map (\<lambda>c. quantity_of c 8) example_shop = [0, 4, 0]"
  by code_simp

lemma example_guest:
  obtains guest where "find_cart 1 example_shop = Some guest" "ct_owner guest = None"
    "ct_status guest = CART_ACTIVE" "quantity_of guest 7 = 20"
proof -
  have "(case find_cart 1 example_shop of None \<Rightarrow> False
      | Some c \<Rightarrow> ct_owner c = None \<and> ct_status c = CART_ACTIVE \<and> quantity_of c 7 = 20)" by code_simp
  with that show thesis by (auto split: option.splits)
qed

lemma example_own:
  obtains own where "find_active_of 5 example_shop = Some own" "quantity_of own 7 = 15" "quantity_of own 8 = 0"
proof -
  have "(case find_active_of 5 example_shop of None \<Rightarrow> False
      | Some c \<Rightarrow> quantity_of c 7 = 15 \<and> quantity_of c 8 = 0)" by code_simp
  with that show thesis by (auto split: option.splits)
qed

theorem merge_adds_up_witness:
  "\<exists>t own. merge_guest 5 1 15 example_shop = Inr t \<and> find_active_of 5 t = Some own \<and> quantity_of own 7 = 30"
proof -
  obtain guest where g: "find_cart 1 example_shop = Some guest" "ct_owner guest = None"
    "ct_status guest = CART_ACTIVE" "quantity_of guest 7 = 20" by (rule example_guest)
  obtain own where own: "find_active_of 5 example_shop = Some own" "quantity_of own 7 = 15" by (rule example_own)
  from merge_adds_up [OF example_shop_wf g(1-3), of 5 15 16] own g(4) show ?thesis
    by (auto simp: MAX_LINE_QUANTITY_def)
qed

theorem one_active_cart_per_customer_witness:
  "list_all (\<lambda>c. list_all (\<lambda>(v, l). 1 \<le> cl_quantity l \<and> cl_quantity l \<le> 30) (ct_lines c)) example_shop
     \<and> map (\<lambda>c. length (ct_lines c)) example_shop = [1, 1, 1]"
proof
  have "list_all brings_whole_lines example_events" by (simp add: example_events_def)
  from one_active_cart_per_customer [OF this example_shop_def]
  show "list_all (\<lambda>c. list_all (\<lambda>(v, l). 1 \<le> cl_quantity l \<and> cl_quantity l \<le> 30) (ct_lines c)) example_shop"
    by (fastforce simp: list_all_iff)
  show "map (\<lambda>c. length (ct_lines c)) example_shop = [1, 1, 1]" by code_simp
qed

end
