(* ===== verification/Order.thy ===== *)
theory Order
  imports Money
begin

text \<open>
  An order (\<open>ordering/domain/order.ts\<close>): the priced lines and totals it keeps as a snapshot, how it
  is placed, and every operation of the aggregate. The object is a record with the snapshot and the
  two private fields of the class, the status changes since it was read and whether anything
  changed. Fresh identifiers of lines come from a supply, the position of the line.
\<close>

datatype order_channel = ONLINE | STORE

datatype order_fulfillment = SHIPPING | IN_STORE

datatype order_status =
    PENDING_PAYMENT | PAID | AWAITING_MANUAL_FULFILLMENT | SHIPPED | DELIVERED | CANCELLED
  | EXPIRED | REFUNDED

fun order_status_name :: "order_status \<Rightarrow> string" where
  "order_status_name PENDING_PAYMENT = ''PENDING_PAYMENT''"
| "order_status_name PAID = ''PAID''"
| "order_status_name AWAITING_MANUAL_FULFILLMENT = ''AWAITING_MANUAL_FULFILLMENT''"
| "order_status_name SHIPPED = ''SHIPPED''"
| "order_status_name DELIVERED = ''DELIVERED''"
| "order_status_name CANCELLED = ''CANCELLED''"
| "order_status_name EXPIRED = ''EXPIRED''"
| "order_status_name REFUNDED = ''REFUNDED''"

section \<open>Lines and totals\<close>

record line_item =
  li_variant :: id
  li_sku :: string
  li_product_name :: string
  li_options :: "(string \<times> string) list"
  li_unit_price :: money
  li_quantity :: int

record priced_line = line_item +
  pl_tax_rate_bp :: int
  pl_tax_amount :: money
  pl_line_total :: money
  pl_discount :: money

definition price_line :: "line_item \<Rightarrow> int \<Rightarrow> priced_line result" where
  "price_line item rate =
     res_bind (money_multiply (li_unit_price item) (Whole (li_quantity item))) (\<lambda>total.
     res_bind (contained_tax total (Whole rate)) (\<lambda>tax.
       Inr (line_item.extend item
              \<lparr>pl_tax_rate_bp = rate, pl_tax_amount = tax, pl_line_total = total,
               pl_discount = money_zero (currency total)\<rparr>)))"

definition discount_line :: "priced_line \<Rightarrow> money \<Rightarrow> priced_line result" where
  "discount_line line discount =
     res_bind (money_subtract (pl_line_total line) discount) (\<lambda>rest.
     res_bind (contained_tax rest (Whole (pl_tax_rate_bp line))) (\<lambda>tax.
       Inr (line\<lparr>pl_discount := discount, pl_tax_amount := tax\<rparr>)))"

record order_shipping =
  ship_cost :: money
  ship_tax_amount :: money
  ship_tax_rate_bp :: int
  ship_min_days :: int
  ship_max_days :: int

record order_totals =
  tot_subtotal :: money
  tot_tax :: money
  tot_shipping_cost :: money
  tot_shipping_tax :: money
  tot_discount :: money
  tot_grand :: money

definition sum_lines :: "(priced_line \<Rightarrow> money) \<Rightarrow> priced_line list \<Rightarrow> money result" where
  "sum_lines part lines = res_fold (\<lambda>sum line. money_add sum (part line)) (money_zero MXN) lines"

definition order_totals :: "priced_line list \<Rightarrow> money \<Rightarrow> money \<Rightarrow> order_totals result" where
  "order_totals lines cost tax =
     res_bind (sum_lines pl_line_total lines) (\<lambda>subtotal.
     res_bind (sum_lines pl_tax_amount lines) (\<lambda>lines_tax.
     res_bind (sum_lines pl_discount lines) (\<lambda>discount.
     res_bind (money_add lines_tax tax) (\<lambda>tax_total.
     res_bind (money_add subtotal cost) (\<lambda>gross.
     res_bind (money_subtract gross discount) (\<lambda>grand.
       Inr \<lparr>tot_subtotal = subtotal, tot_tax = tax_total, tot_shipping_cost = cost,
            tot_shipping_tax = tax, tot_discount = discount, tot_grand = grand\<rparr>))))))"

record applied_promotion =
  ap_id :: id
  ap_name :: string
  ap_code :: "string option"

section \<open>Addresses and buyers\<close>

text \<open>
  An address is whole, or what anonymization leaves of it: the place, without who receives it nor
  where exactly.
\<close>

record address_place =
  a_postal_code :: string
  a_state_code :: string
  a_state_name :: string
  a_municipality_code :: string
  a_municipality_name :: string
  a_country :: string

record shipping_address = address_place +
  a_recipient :: string
  a_phone :: string
  a_street :: string
  a_exterior :: string
  a_interior :: "string option"
  a_neighborhood :: string
  a_city :: "string option"
  a_references :: "string option"

datatype order_address = FullAddress shipping_address | AnonymizedAddress address_place

fun without_identifying_fields :: "order_address \<Rightarrow> address_place" where
  "without_identifying_fields (FullAddress a) = address_place.truncate a"
| "without_identifying_fields (AnonymizedAddress a) = a"

record order_line = priced_line +
  ol_id :: id
  ol_number :: nat

datatype buyer =
    CustomerBuyer (buyer_customer: id) (customer_email: string)
  | GuestBuyer (guest_email: string) (notice_version: string)
  | NoBuyerData

fun buyer_customer_id :: "buyer \<Rightarrow> id option" where
  "buyer_customer_id (CustomerBuyer c e) = Some c"
| "buyer_customer_id (GuestBuyer e v) = None"
| "buyer_customer_id NoBuyerData = None"

fun buyer_email :: "buyer \<Rightarrow> string option" where
  "buyer_email (CustomerBuyer c e) = Some e"
| "buyer_email (GuestBuyer e v) = Some e"
| "buyer_email NoBuyerData = None"

fun buyer_notice :: "buyer \<Rightarrow> string option" where
  "buyer_notice (GuestBuyer e v) = Some (js_trim v)"
| "buyer_notice _ = None"

definition normalized_contact_email :: "string \<Rightarrow> string" where
  "normalized_contact_email email = js_lower (js_trim email)"

datatype restock_reason = ORDER_CANCELLED | SHIPMENT_RETURNED

record restock_line =
  rl_order_line :: id
  rl_variant :: id
  rl_sold :: int
  rl_quantity :: int

record status_change =
  sc_from :: "order_status option"
  sc_to :: order_status
  sc_actor :: "id option"
  sc_reason :: "string option"
  sc_at :: time

section \<open>The state of an order\<close>

text \<open>What is fixed when the order is placed, and then what its operations change.\<close>

record placed_order =
  o_id :: id
  o_public_code :: string
  o_customer :: "id option"
  o_notice_version :: "string option"
  o_lines :: "order_line list"
  o_totals :: order_totals
  o_promotion :: "applied_promotion option"
  o_shipping_tax_rate_bp :: int
  o_fulfillment :: order_fulfillment
  o_min_days :: "int option"
  o_max_days :: "int option"
  o_payment_due_at :: time
  o_channel :: order_channel
  o_source_cart :: "id option"
  o_placed_by :: "id option"
  o_warehouse :: "id option"
  o_placed_at :: time
  o_version :: int

record order = placed_order +
  o_contact_email :: "string option"
  o_status :: order_status
  o_address :: "order_address option"
  o_reservation :: "id option"
  o_paid_at :: "time option"
  o_shipped_at :: "time option"
  o_delivered_at :: "time option"
  o_cancelled_at :: "time option"
  o_expired_at :: "time option"
  o_refunded_at :: "time option"
  o_anonymized_at :: "time option"
  o_concluded_at :: "time option"
  o_blocked_at :: "time option"
  o_changes :: "status_change list"
  o_changed :: bool


section \<open>Placing an order\<close>

record new_order =
  no_id :: id
  no_public_code :: string
  no_buyer :: buyer
  no_lines :: "priced_line list"
  no_promotion :: "applied_promotion option"
  no_reservation :: id
  no_reservation_expires_at :: time
  no_now :: time

datatype order_delivery = ShippedTo order_shipping shipping_address | HandedOverInStore

record order_origin =
  og_channel :: order_channel
  og_source_cart :: "id option"
  og_placed_by :: "id option"
  og_warehouse :: "id option"

fun delivery_shipping :: "order_delivery \<Rightarrow> order_shipping option" where
  "delivery_shipping (ShippedTo sh a) = Some sh"
| "delivery_shipping HandedOverInStore = None"

fun delivery_to :: "order_delivery \<Rightarrow> order_address option" where
  "delivery_to (ShippedTo sh a) = Some (FullAddress a)"
| "delivery_to HandedOverInStore = None"

fun delivery_fulfillment :: "order_delivery \<Rightarrow> order_fulfillment" where
  "delivery_fulfillment (ShippedTo sh a) = SHIPPING"
| "delivery_fulfillment HandedOverInStore = IN_STORE"

text \<open>Lines get their identifiers from the supply \<open>fresh\<close> and their numbers from 1.\<close>

definition numbered_lines :: "(nat \<Rightarrow> id) \<Rightarrow> priced_line list \<Rightarrow> order_line list" where
  "numbered_lines fresh lines =
     map (\<lambda>(index, line). priced_line.extend line \<lparr>ol_id = fresh index, ol_number = index + 1\<rparr>)
       (enumerate 0 lines)"

definition create_order ::
  "(nat \<Rightarrow> id) \<Rightarrow> new_order \<Rightarrow> order_delivery \<Rightarrow> order_origin \<Rightarrow> order result" where
  "create_order fresh i delivery origin =
     (if no_lines i = [] then Inl (OrderingError EmptyCartError) else
      let email = map_option normalized_contact_email (buyer_email (no_buyer i));
          notice = buyer_notice (no_buyer i);
          shipping = delivery_shipping delivery
      in if email = Some [] \<or> (email = None \<and> delivery_fulfillment delivery = SHIPPING)
         then Inl (InvalidValueError ''An order needs a contact email'')
         else if notice = Some []
         then Inl (InvalidValueError ''A guest order needs the version of the privacy notice'')
         else
           res_bind (order_totals (no_lines i)
                       (case shipping of Some sh \<Rightarrow> ship_cost sh | None \<Rightarrow> money_zero MXN)
                       (case shipping of Some sh \<Rightarrow> ship_tax_amount sh | None \<Rightarrow> money_zero MXN))
             (\<lambda>totals.
           if (no_promotion i = None) \<noteq> money_is_zero (tot_discount totals)
           then Inl (InvalidValueError ''A discount comes with its promotion'')
           else Inr \<lparr>o_id = no_id i, o_public_code = no_public_code i,
                     o_customer = buyer_customer_id (no_buyer i), o_notice_version = notice,
                     o_lines = numbered_lines fresh (no_lines i), o_totals = totals,
                     o_promotion = no_promotion i,
                     o_shipping_tax_rate_bp = (case shipping of Some sh \<Rightarrow> ship_tax_rate_bp sh | None \<Rightarrow> 0),
                     o_fulfillment = delivery_fulfillment delivery,
                     o_min_days = map_option ship_min_days shipping,
                     o_max_days = map_option ship_max_days shipping,
                     o_payment_due_at = no_reservation_expires_at i,
                     o_channel = og_channel origin, o_source_cart = og_source_cart origin,
                     o_placed_by = og_placed_by origin, o_warehouse = og_warehouse origin,
                     o_placed_at = no_now i, o_version = 1,
                     o_contact_email = email, o_status = PENDING_PAYMENT,
                     o_address = delivery_to delivery, o_reservation = Some (no_reservation i),
                     o_paid_at = None, o_shipped_at = None, o_delivered_at = None,
                     o_cancelled_at = None, o_expired_at = None, o_refunded_at = None,
                     o_anonymized_at = None, o_concluded_at = None, o_blocked_at = None,
                     o_changes = [], o_changed = False\<rparr>))"

definition place ::
  "(nat \<Rightarrow> id) \<Rightarrow> new_order \<Rightarrow> order_shipping \<Rightarrow> shipping_address \<Rightarrow> id \<Rightarrow> order result" where
  "place fresh i shipping address cart =
     create_order fresh i (ShippedTo shipping address)
       \<lparr>og_channel = ONLINE, og_source_cart = Some cart, og_placed_by = None, og_warehouse = None\<rparr>"

definition place_in_store ::
  "(nat \<Rightarrow> id) \<Rightarrow> new_order \<Rightarrow> order_delivery \<Rightarrow> id \<Rightarrow> id \<Rightarrow> order result" where
  "place_in_store fresh i delivery placed_by warehouse =
     create_order fresh i delivery
       \<lparr>og_channel = STORE, og_source_cart = None, og_placed_by = Some placed_by,
        og_warehouse = Some warehouse\<rparr>"

section \<open>Operations\<close>

definition is_anonymized :: "order \<Rightarrow> bool" where
  "is_anonymized o1 = (o_anonymized_at o1 \<noteq> None)"

definition is_blocked :: "order \<Rightarrow> bool" where
  "is_blocked o1 = (o_blocked_at o1 \<noteq> None)"

definition concluded_by :: "order \<Rightarrow> time \<Rightarrow> bool" where
  "concluded_by o1 cutoff = (case o_concluded_at o1 of Some at \<Rightarrow> at \<le> cutoff | None \<Rightarrow> False)"

definition order_coupon :: "order \<Rightarrow> id option" where
  "order_coupon o1 =
     (case o_promotion o1 of
        Some p \<Rightarrow> if ap_code p \<noteq> None then Some (ap_id p) else None
      | None \<Rightarrow> None)"

definition delivery_address :: "order \<Rightarrow> shipping_address result" where
  "delivery_address o1 =
     (case o_address o1 of
        None \<Rightarrow> Inl (PlainError ''An order handed over in the store has no address'')
      | Some (AnonymizedAddress a) \<Rightarrow> Inl (PlainError ''An anonymized order has no address to ship to'')
      | Some (FullAddress a) \<Rightarrow> Inr a)"

definition assert_status :: "order \<Rightarrow> order_status list \<Rightarrow> string \<Rightarrow> unit result" where
  "assert_status o1 allowed action =
     (if o_status o1 \<in> set allowed then Inr ()
      else Inl (InvalidStateTransitionError (order_status_name (o_status o1)) action))"

definition assert_not_anonymized :: "order \<Rightarrow> string \<Rightarrow> unit result" where
  "assert_not_anonymized o1 action =
     (if is_anonymized o1
      then Inl (InvalidStateTransitionError (order_status_name (o_status o1)) action) else Inr ())"

definition move_order ::
  "order_status \<Rightarrow> id option \<Rightarrow> string option \<Rightarrow> time \<Rightarrow> order \<Rightarrow> order" where
  "move_order to actor reason at o1 =
     o1\<lparr>o_changes := o_changes o1 @
           [\<lparr>sc_from = Some (o_status o1), sc_to = to, sc_actor = actor, sc_reason = reason, sc_at = at\<rparr>],
        o_status := to, o_changed := True\<rparr>"

definition cancel_order :: "id \<Rightarrow> string \<Rightarrow> time \<Rightarrow> order \<Rightarrow> order result" where
  "cancel_order actor reason now o1 =
     res_bind (assert_status o1 [PENDING_PAYMENT, PAID, AWAITING_MANUAL_FULFILLMENT] ''cancel'') (\<lambda>_.
       let o2 = move_order CANCELLED (Some actor) (Some reason) now o1
       in Inr (o2\<lparr>o_cancelled_at := Some now,
                  o_concluded_at := (if o_paid_at o2 = None then Some now else None)\<rparr>))"

definition mark_paid :: "time \<Rightarrow> time \<Rightarrow> id option \<Rightarrow> order \<Rightarrow> order result" where
  "mark_paid captured_at now reservation o1 =
     res_bind (assert_status o1 [PENDING_PAYMENT, EXPIRED] ''mark paid'') (\<lambda>_.
     res_bind (assert_not_anonymized o1 ''pay an anonymized order'') (\<lambda>_.
       let o2 = move_order PAID None None now o1
       in Inr (o2\<lparr>o_paid_at := Some captured_at,
                  o_reservation := (case reservation of Some r \<Rightarrow> Some r | None \<Rightarrow> o_reservation o2),
                  o_concluded_at := None, o_blocked_at := None\<rparr>)))"

definition await_manual_fulfillment :: "time \<Rightarrow> time \<Rightarrow> order \<Rightarrow> order result" where
  "await_manual_fulfillment captured_at now o1 =
     res_bind (assert_status o1 [PENDING_PAYMENT, EXPIRED] ''await manual fulfillment'') (\<lambda>_.
       Inr ((move_order AWAITING_MANUAL_FULFILLMENT None None now o1)
              \<lparr>o_paid_at := Some captured_at, o_concluded_at := None, o_blocked_at := None\<rparr>))"

definition assert_fulfillable :: "order \<Rightarrow> unit result" where
  "assert_fulfillable o1 =
     res_bind (assert_status o1 [AWAITING_MANUAL_FULFILLMENT] ''retry fulfillment'') (\<lambda>_.
       assert_not_anonymized o1 ''fulfill an anonymized order'')"

definition fulfill_manually :: "id \<Rightarrow> id \<Rightarrow> time \<Rightarrow> order \<Rightarrow> order result" where
  "fulfill_manually actor reservation now o1 =
     res_bind (assert_fulfillable o1) (\<lambda>_.
       Inr ((move_order PAID (Some actor) None now o1)\<lparr>o_reservation := Some reservation\<rparr>))"

text \<open>The operations that tell whether they changed anything return it with the order.\<close>

definition record_payment_after_cancellation :: "time \<Rightarrow> order \<Rightarrow> (bool \<times> order) result" where
  "record_payment_after_cancellation captured_at o1 =
     res_bind (assert_status o1 [CANCELLED] ''record a payment'') (\<lambda>_.
       if o_paid_at o1 \<noteq> None then Inr (False, o1)
       else Inr (True, o1\<lparr>o_paid_at := Some captured_at, o_concluded_at := None,
                           o_blocked_at := None, o_changed := True\<rparr>))"

definition expire_if_due :: "time \<Rightarrow> order \<Rightarrow> bool \<times> order" where
  "expire_if_due now o1 =
     (if o_status o1 \<noteq> PENDING_PAYMENT \<or> o_payment_due_at o1 > now then (False, o1)
      else (True, (move_order EXPIRED None None now o1)
                    \<lparr>o_expired_at := Some now, o_concluded_at := Some now\<rparr>))"

definition mark_shipped :: "time \<Rightarrow> time \<Rightarrow> order \<Rightarrow> order result" where
  "mark_shipped dispatched_at now o1 =
     res_bind (assert_status o1 [PAID] ''mark shipped'') (\<lambda>_.
       Inr ((move_order SHIPPED None None now o1)\<lparr>o_shipped_at := Some dispatched_at\<rparr>))"

definition mark_delivered :: "time \<Rightarrow> time \<Rightarrow> order \<Rightarrow> order result" where
  "mark_delivered delivered_at now o1 =
     res_bind (assert_status o1 [SHIPPED] ''mark delivered'') (\<lambda>_.
       Inr ((move_order DELIVERED None None now o1)
              \<lparr>o_delivered_at := Some delivered_at, o_concluded_at := Some delivered_at\<rparr>))"

definition mark_refunded :: "time \<Rightarrow> time \<Rightarrow> order \<Rightarrow> order result" where
  "mark_refunded completed_at now o1 =
     (if o_status o1 \<noteq> CANCELLED \<or> o_paid_at o1 = None
      then Inl (InvalidStateTransitionError (order_status_name (o_status o1)) ''mark refunded'')
      else Inr ((move_order REFUNDED None None now o1)
                  \<lparr>o_refunded_at := Some completed_at, o_concluded_at := Some completed_at\<rparr>))"

definition hand_over :: "id \<Rightarrow> time \<Rightarrow> order \<Rightarrow> order result" where
  "hand_over actor now o1 =
     (if o_fulfillment o1 \<noteq> IN_STORE
      then Inl (InvalidStateTransitionError (order_status_name (o_status o1)) ''hand over'')
      else
        res_bind (assert_status o1 [PAID] ''hand over'') (\<lambda>_.
          Inr ((move_order DELIVERED (Some actor) None now o1)
                 \<lparr>o_delivered_at := Some now, o_concluded_at := Some now\<rparr>)))"

definition record_return :: "time \<Rightarrow> order \<Rightarrow> bool \<times> order" where
  "record_return returned_at o1 =
     (if o_status o1 \<noteq> SHIPPED \<or> o_concluded_at o1 \<noteq> None then (False, o1)
      else (True, o1\<lparr>o_concluded_at := Some returned_at, o_changed := True\<rparr>))"

definition block_if_due :: "time \<Rightarrow> time \<Rightarrow> order \<Rightarrow> bool \<times> order" where
  "block_if_due cutoff at o1 =
     (if \<not> concluded_by o1 cutoff \<or> is_blocked o1 \<or> is_anonymized o1 then (False, o1)
      else (True, o1\<lparr>o_blocked_at := Some at, o_changed := True\<rparr>))"

text \<open>The status of a shipment reaches the order as text, or not at all.\<close>

definition assert_restockable :: "restock_reason \<Rightarrow> string option \<Rightarrow> order \<Rightarrow> unit result" where
  "assert_restockable reason shipment_status o1 =
     (if reason = ORDER_CANCELLED then assert_status o1 [CANCELLED, REFUNDED] ''restock''
      else if shipment_status \<noteq> Some ''RETURNED''
      then Inl (InvalidStateTransitionError
                  (case shipment_status of Some s \<Rightarrow> s | None \<Rightarrow> order_status_name (o_status o1))
                  ''restock the return'')
      else Inr ())"

definition to_restock :: "order_line \<Rightarrow> int \<Rightarrow> restock_line" where
  "to_restock line quantity =
     \<lparr>rl_order_line = ol_id line, rl_variant = li_variant line, rl_sold = li_quantity line,
      rl_quantity = quantity\<rparr>"

fun requested_restock ::
  "order_line list \<Rightarrow> nat \<Rightarrow> (id \<times> int) list \<Rightarrow> restock_line list result" where
  "requested_restock lines index [] = Inr []"
| "requested_restock lines index ((line_id, quantity) # rest) =
     (case find (\<lambda>l. ol_id l = line_id) lines of
        None \<Rightarrow> Inl (OrderingError (UnknownOrderLineError index))
      | Some l \<Rightarrow>
          res_bind (requested_restock lines (index + 1) rest) (\<lambda>ls.
            Inr (to_restock l quantity # ls)))"

definition lines_to_restock :: "(id \<times> int) list option \<Rightarrow> order \<Rightarrow> restock_line list result" where
  "lines_to_restock requested o1 =
     (case requested of
        None \<Rightarrow> Inr (map (\<lambda>l. to_restock l (li_quantity l)) (o_lines o1))
      | Some rs \<Rightarrow> requested_restock (o_lines o1) 0 rs)"

definition is_concluded :: "string option \<Rightarrow> order \<Rightarrow> bool" where
  "is_concluded shipment_status o1 =
     (case o_status o1 of
        DELIVERED \<Rightarrow> True
      | EXPIRED \<Rightarrow> True
      | REFUNDED \<Rightarrow> True
      | CANCELLED \<Rightarrow> o_paid_at o1 = None
      | SHIPPED \<Rightarrow> shipment_status = Some ''RETURNED''
      | _ \<Rightarrow> False)"

definition anonymize_order :: "string option \<Rightarrow> time \<Rightarrow> order \<Rightarrow> order result" where
  "anonymize_order shipment_status at o1 =
     (if \<not> is_concluded shipment_status o1 then Inl (OrderingError ActiveOrdersExistError)
      else Inr (o1\<lparr>o_contact_email := None,
                   o_address := map_option (\<lambda>a. AnonymizedAddress (without_identifying_fields a))
                                  (o_address o1),
                   o_anonymized_at := (case o_anonymized_at o1 of Some t \<Rightarrow> Some t | None \<Rightarrow> Some at),
                   o_changed := True\<rparr>))"


section \<open>The life of an order\<close>

datatype order_event =
    Cancel id string time
  | MarkPaid time time "id option"
  | AwaitManualFulfillment time time
  | FulfillManually id id time
  | RecordPaymentAfterCancellation time
  | ExpireIfDue time
  | MarkShipped time time
  | MarkDelivered time time
  | MarkRefunded time time
  | HandOver id time
  | RecordReturn time
  | BlockIfDue time time
  | Anonymize "string option" time

fun order_step :: "order \<Rightarrow> order_event \<Rightarrow> order result" where
  "order_step s (Cancel actor reason now) = cancel_order actor reason now s"
| "order_step s (MarkPaid captured now r) = mark_paid captured now r s"
| "order_step s (AwaitManualFulfillment captured now) = await_manual_fulfillment captured now s"
| "order_step s (FulfillManually actor r now) = fulfill_manually actor r now s"
| "order_step s (RecordPaymentAfterCancellation captured) =
     res_bind (record_payment_after_cancellation captured s) (\<lambda>(changed, t). Inr t)"
| "order_step s (ExpireIfDue now) = Inr (snd (expire_if_due now s))"
| "order_step s (MarkShipped dispatched now) = mark_shipped dispatched now s"
| "order_step s (MarkDelivered delivered now) = mark_delivered delivered now s"
| "order_step s (MarkRefunded completed now) = mark_refunded completed now s"
| "order_step s (HandOver actor now) = hand_over actor now s"
| "order_step s (RecordReturn at) = Inr (snd (record_return at s))"
| "order_step s (BlockIfDue cutoff at) = Inr (snd (block_if_due cutoff at s))"
| "order_step s (Anonymize shipment at) = anonymize_order shipment at s"

text \<open>
  The dates each status comes with: a date is there exactly when what it tells happened, and an
  order has concluded once nothing more is expected of it.
\<close>

fun order_dates_fit :: "order \<Rightarrow> bool" where
  "order_dates_fit s =
     (case o_status s of
        PENDING_PAYMENT \<Rightarrow>
          o_paid_at s = None \<and> o_cancelled_at s = None \<and> o_expired_at s = None \<and>
          o_refunded_at s = None \<and> o_shipped_at s = None \<and> o_delivered_at s = None \<and>
          o_concluded_at s = None \<and> o_anonymized_at s = None
      | PAID \<Rightarrow>
          o_paid_at s \<noteq> None \<and> o_cancelled_at s = None \<and> o_refunded_at s = None \<and>
          o_shipped_at s = None \<and> o_delivered_at s = None \<and> o_concluded_at s = None \<and>
          o_anonymized_at s = None
      | AWAITING_MANUAL_FULFILLMENT \<Rightarrow>
          o_paid_at s \<noteq> None \<and> o_cancelled_at s = None \<and> o_refunded_at s = None \<and>
          o_shipped_at s = None \<and> o_delivered_at s = None \<and> o_concluded_at s = None
      | SHIPPED \<Rightarrow>
          o_paid_at s \<noteq> None \<and> o_cancelled_at s = None \<and> o_refunded_at s = None \<and>
          o_shipped_at s \<noteq> None \<and> o_delivered_at s = None
      | DELIVERED \<Rightarrow>
          o_paid_at s \<noteq> None \<and> o_cancelled_at s = None \<and> o_refunded_at s = None \<and>
          o_delivered_at s \<noteq> None \<and> o_concluded_at s = o_delivered_at s \<and>
          (o_shipped_at s = None \<longrightarrow> o_fulfillment s = IN_STORE)
      | CANCELLED \<Rightarrow>
          o_cancelled_at s \<noteq> None \<and> o_refunded_at s = None \<and> o_shipped_at s = None \<and>
          o_delivered_at s = None \<and> (o_concluded_at s = None \<longleftrightarrow> o_paid_at s \<noteq> None)
      | EXPIRED \<Rightarrow>
          o_paid_at s = None \<and> o_cancelled_at s = None \<and> o_expired_at s \<noteq> None \<and>
          o_refunded_at s = None \<and> o_shipped_at s = None \<and> o_delivered_at s = None \<and>
          o_concluded_at s \<noteq> None
      | REFUNDED \<Rightarrow>
          o_paid_at s \<noteq> None \<and> o_cancelled_at s \<noteq> None \<and> o_refunded_at s \<noteq> None \<and>
          o_shipped_at s = None \<and> o_delivered_at s = None \<and> o_concluded_at s = o_refunded_at s)"

declare order_dates_fit.simps [simp del]

text \<open>
  What always holds of an order: its dates fit its status, the data of its buyer is only blocked
  once it concluded, and an anonymized order keeps neither the contact email nor where exactly it
  was sent.
\<close>

definition address_anonymized :: "order_address option \<Rightarrow> bool" where
  "address_anonymized a = (case a of Some (FullAddress f) \<Rightarrow> False | _ \<Rightarrow> True)"

definition wf_order :: "order \<Rightarrow> bool" where
  "wf_order s \<longleftrightarrow>
     order_dates_fit s \<and>
     (is_blocked s \<longrightarrow> o_concluded_at s \<noteq> None) \<and>
     (is_anonymized s \<longrightarrow> o_contact_email s = None \<and> address_anonymized (o_address s))"

text \<open>The transitions of an order.\<close>

fun order_move :: "order_status \<Rightarrow> order_status \<Rightarrow> bool" where
  "order_move PENDING_PAYMENT t = (t \<in> {PAID, AWAITING_MANUAL_FULFILLMENT, CANCELLED, EXPIRED})"
| "order_move EXPIRED t = (t \<in> {PAID, AWAITING_MANUAL_FULFILLMENT})"
| "order_move AWAITING_MANUAL_FULFILLMENT t = (t \<in> {PAID, CANCELLED})"
| "order_move PAID t = (t \<in> {SHIPPED, DELIVERED, CANCELLED})"
| "order_move SHIPPED t = (t = DELIVERED)"
| "order_move CANCELLED t = (t = REFUNDED)"
| "order_move DELIVERED t = False"
| "order_move REFUNDED t = False"

definition order_moves :: "(order_status \<times> order_status) set" where
  "order_moves = {(s, t). order_move s t}"

lemma assert_status_Inr [res_simps]:
  "assert_status s allowed action = Inr u \<longleftrightarrow> o_status s \<in> set allowed"
  by (simp add: assert_status_def)

lemma assert_not_anonymized_Inr [res_simps]:
  "assert_not_anonymized s action = Inr u \<longleftrightarrow> o_anonymized_at s = None"
  by (auto simp: assert_not_anonymized_def is_anonymized_def)

lemmas order_operations =
  cancel_order_def mark_paid_def await_manual_fulfillment_def assert_fulfillable_def
  fulfill_manually_def record_payment_after_cancellation_def expire_if_due_def mark_shipped_def
  mark_delivered_def mark_refunded_def hand_over_def record_return_def block_if_due_def
  anonymize_order_def

lemmas order_wf = wf_order_def order_dates_fit.simps is_blocked_def is_anonymized_def

text \<open>What a new order has, whatever its lines and its buyer.\<close>

lemma create_order_parts:
  assumes "create_order fresh i delivery origin = Inr s"
  shows "order_totals (no_lines i)
           (case delivery_shipping delivery of Some sh \<Rightarrow> ship_cost sh | None \<Rightarrow> money_zero MXN)
           (case delivery_shipping delivery of Some sh \<Rightarrow> ship_tax_amount sh | None \<Rightarrow> money_zero MXN)
           = Inr (o_totals s)"
    and "no_promotion i = None \<longleftrightarrow> amount (tot_discount (o_totals s)) = 0"
    and "o_promotion s = no_promotion i" "o_address s = delivery_to delivery"
    and "o_status s = PENDING_PAYMENT" "o_changes s = []" "o_lines s = numbered_lines fresh (no_lines i)"
    and "o_contact_email s = map_option normalized_contact_email (buyer_email (no_buyer i))"
    and "o_fulfillment s = delivery_fulfillment delivery" "no_lines i \<noteq> []"
    and "o_contact_email s \<noteq> Some []"
    and "o_contact_email s = None \<Longrightarrow> o_fulfillment s = IN_STORE"
    and "wf_order s"
proof -
  obtain totals where parts:
    "no_lines i \<noteq> []" "map_option normalized_contact_email (buyer_email (no_buyer i)) \<noteq> Some []"
    "\<not> (map_option normalized_contact_email (buyer_email (no_buyer i)) = None \<and>
        delivery_fulfillment delivery = SHIPPING)"
    "order_totals (no_lines i)
       (case delivery_shipping delivery of Some sh \<Rightarrow> ship_cost sh | None \<Rightarrow> money_zero MXN)
       (case delivery_shipping delivery of Some sh \<Rightarrow> ship_tax_amount sh | None \<Rightarrow> money_zero MXN)
       = Inr totals"
    "(no_promotion i = None) = money_is_zero (tot_discount totals)"
    and new: "o_totals s = totals" "o_promotion s = no_promotion i" "o_address s = delivery_to delivery"
      "o_status s = PENDING_PAYMENT" "o_changes s = []" "o_lines s = numbered_lines fresh (no_lines i)"
      "o_contact_email s = map_option normalized_contact_email (buyer_email (no_buyer i))"
      "o_fulfillment s = delivery_fulfillment delivery"
    and dates: "o_paid_at s = None" "o_shipped_at s = None" "o_delivered_at s = None"
      "o_cancelled_at s = None" "o_expired_at s = None" "o_refunded_at s = None"
      "o_anonymized_at s = None" "o_concluded_at s = None" "o_blocked_at s = None"
    using assms unfolding create_order_def Let_def res_bind_eq_Inr if_Inl_eq_Inr sum.inject(2)
    by (elim conjE exE) (rule that; (assumption | (erule subst [of _ s], simp) | simp))
  show "wf_order s" using new(4) dates by (simp add: order_wf)
  show "o_contact_email s = None \<Longrightarrow> o_fulfillment s = IN_STORE"
    using parts(3) new(7,8) by (cases "delivery_fulfillment delivery") auto
  show "no_promotion i = None \<longleftrightarrow> amount (tot_discount (o_totals s)) = 0"
    using parts(5) new(1) by (auto simp: money_is_zero_def)
  show "order_totals (no_lines i)
      (case delivery_shipping delivery of Some sh \<Rightarrow> ship_cost sh | None \<Rightarrow> money_zero MXN)
      (case delivery_shipping delivery of Some sh \<Rightarrow> ship_tax_amount sh | None \<Rightarrow> money_zero MXN)
      = Inr (o_totals s)"
    using parts(4) new(1) by simp
  show "o_contact_email s \<noteq> Some []" using parts(2) new(7) by simp
  show "o_promotion s = no_promotion i" "o_address s = delivery_to delivery"
    "o_status s = PENDING_PAYMENT" "o_changes s = []" "o_lines s = numbered_lines fresh (no_lines i)"
    "o_contact_email s = map_option normalized_contact_email (buyer_email (no_buyer i))"
    "o_fulfillment s = delivery_fulfillment delivery" "no_lines i \<noteq> []"
    by (fact new parts(1))+
qed

lemma anonymized_place [simp]:
  "address_anonymized (map_option (\<lambda>a. AnonymizedAddress (f a)) x)"
  by (auto simp: address_anonymized_def split: option.split)

lemma order_step_wf:
  assumes "wf_order s" and "order_step s ev = Inr t"
  shows "wf_order t"
  using assms
  by (cases ev; cases "o_status s")
     (auto simp: order_operations move_order_def Let_def res_simps order_wf concluded_by_def
        is_concluded_def split: if_splits option.splits)

lemma order_step_moves:
  assumes "order_step s ev = Inr t"
  shows "o_status t = o_status s \<or> (o_status s, o_status t) \<in> order_moves"
  using assms
  by (cases ev) (auto simp: order_operations order_moves_def move_order_def Let_def res_simps
      split: if_splits)

interpretation order_life: status_machine order_step wf_order o_status order_moves
proof unfold_locales
  show "wf_order t" if "wf_order s" and "order_step s ev = Inr t" for s ev t
    using that by (rule order_step_wf)
  show "o_status t = o_status s \<or> (o_status s, o_status t) \<in> order_moves"
    if "wf_order s" and "order_step s ev = Inr t" for s ev t
    using that(2) by (rule order_step_moves)
qed


section \<open>Its totals and its snapshot\<close>

lemma sum_lines_from:
  "res_fold (\<lambda>sum l. money_add sum (part l)) m0 ls = Inr m \<Longrightarrow> valid_money m0 \<Longrightarrow>
     amount m = amount m0 + (\<Sum>l\<leftarrow>ls. amount (part l)) \<and> valid_money m"
proof (induction ls arbitrary: m0)
  case Nil
  then show ?case by simp
next
  case (Cons l ls)
  then obtain m1 where "valid_money m1" "amount m1 = amount m0 + amount (part l)"
    and "res_fold (\<lambda>sum l. money_add sum (part l)) m1 ls = Inr m"
    by (auto simp: res_simps)
  with Cons.IH [of m1] show ?case by simp
qed

lemma sum_lines_Inr:
  "sum_lines part ls = Inr m \<Longrightarrow> amount m = (\<Sum>l\<leftarrow>ls. amount (part l)) \<and> valid_money m"
  unfolding sum_lines_def using sum_lines_from [of part "money_zero MXN" ls m] by simp

lemma order_totals_Inr:
  assumes "order_totals ls cost tax = Inr t"
  shows "amount (tot_subtotal t) = (\<Sum>l\<leftarrow>ls. amount (pl_line_total l))"
    and "amount (tot_tax t) = (\<Sum>l\<leftarrow>ls. amount (pl_tax_amount l)) + amount tax"
    and "amount (tot_discount t) = (\<Sum>l\<leftarrow>ls. amount (pl_discount l))"
    and "amount (tot_grand t) = amount (tot_subtotal t) + amount cost - amount (tot_discount t)"
    and "tot_shipping_cost t = cost" and "valid_money (tot_grand t)" and "tot_shipping_tax t = tax"
  using assms by (auto simp: order_totals_def res_simps dest!: sum_lines_Inr)

lemma numbered_lines_totals:
  "(\<Sum>l\<leftarrow>numbered_lines fresh ls. f (priced_line.truncate l)) = (\<Sum>l\<leftarrow>ls. f (priced_line.truncate l))"
proof -
  have "map (\<lambda>l. f (priced_line.truncate l)) (numbered_lines fresh ls)
      = map (\<lambda>p. f (priced_line.truncate (snd p))) (enumerate 0 ls)"
    by (auto simp: numbered_lines_def priced_line.defs)
  also have "\<dots> = map (\<lambda>l. f (priced_line.truncate l)) (map snd (enumerate 0 ls))"
    by (simp only: map_map comp_def)
  finally show ?thesis by (simp only: map_snd_enumerate)
qed

text \<open>Nothing an order does changes what it sold.\<close>

lemma order_step_snapshot:
  "order_step s ev = Inr t \<Longrightarrow> placed_order.truncate t = placed_order.truncate s"
  by (cases ev) (auto simp: order_operations move_order_def Let_def res_simps placed_order.defs
      split: if_splits)

interpretation order_snapshot: lifecycle order_step "\<lambda>s. placed_order.truncate s = c" for c
  by unfold_locales (simp add: order_step_snapshot)

lemma truncate_totals:
  "placed_order.truncate t = placed_order.truncate s \<Longrightarrow>
     o_totals t = o_totals s \<and> o_lines t = o_lines s \<and> o_fulfillment t = o_fulfillment s"
  by (simp add: placed_order.defs)

lemma numbered_lines_given: "map priced_line.truncate (numbered_lines fresh ls) = ls"
proof -
  have "priced_line.truncate (priced_line.extend l m) = l" for l m
    by (simp add: priced_line.defs)
  then have "map priced_line.truncate (numbered_lines fresh ls) = map snd (enumerate 0 ls)"
    unfolding numbered_lines_def map_map by (intro map_cong refl) (simp add: split_beta)
  then show ?thesis by simp
qed

text \<open>What the delivery of an order costs, its tax and the rate of it: those that were quoted, or nothing in the store.\<close>

definition quoted_shipping :: "order_delivery \<Rightarrow> money \<times> money \<times> int" where
  "quoted_shipping delivery =
     (case delivery of
        ShippedTo quote address \<Rightarrow> (ship_cost quote, ship_tax_amount quote, ship_tax_rate_bp quote)
      | HandedOverInStore \<Rightarrow> (money_zero MXN, money_zero MXN, 0))"

lemma create_order_shipping_rate:
  assumes "create_order fresh i delivery origin = Inr s"
  shows "o_shipping_tax_rate_bp s = (case delivery_shipping delivery of Some sh \<Rightarrow> ship_tax_rate_bp sh | None \<Rightarrow> 0)"
proof -
  obtain totals where
    "o_shipping_tax_rate_bp s = (case delivery_shipping delivery of Some sh \<Rightarrow> ship_tax_rate_bp sh | None \<Rightarrow> 0)"
    using assms unfolding create_order_def Let_def res_bind_eq_Inr if_Inl_eq_Inr sum.inject(2)
    by (elim conjE exE) (rule that; (assumption | (erule subst [of _ s], simp) | simp))
  then show ?thesis .
qed

text \<open>
  C29. An order sells the lines it was given, and ships at the cost and the tax that were quoted. Its totals add up from
  them, and stay so through everything that happens to it: what the buyer pays is the subtotal plus the shipping less the
  discount, the tax in it is that of the lines and that of the shipping, and there is a discount exactly when there is a
  promotion.
\<close>

theorem order_totals_add_up:
  assumes "create_order fresh i delivery origin = Inr s" and "t = run order_step s evs"
  shows "map priced_line.truncate (o_lines t) = no_lines i \<and>
     (tot_shipping_cost (o_totals t), tot_shipping_tax (o_totals t), o_shipping_tax_rate_bp t)
       = quoted_shipping delivery \<and>
     amount (tot_subtotal (o_totals t)) = (\<Sum>l\<leftarrow>o_lines t. amount (pl_line_total l)) \<and>
     amount (tot_discount (o_totals t)) = (\<Sum>l\<leftarrow>o_lines t. amount (pl_discount l)) \<and>
     amount (tot_tax (o_totals t))
       = (\<Sum>l\<leftarrow>o_lines t. amount (pl_tax_amount l)) + amount (tot_shipping_tax (o_totals t)) \<and>
     amount (tot_grand (o_totals t)) + amount (tot_discount (o_totals t))
       = amount (tot_subtotal (o_totals t)) + amount (tot_shipping_cost (o_totals t)) \<and>
     0 \<le> amount (tot_grand (o_totals t)) \<and> amount (tot_grand (o_totals t)) \<le> MAX_MONEY_AMOUNT \<and>
     (o_promotion t = None \<longleftrightarrow> amount (tot_discount (o_totals t)) = 0)"
proof -
  have "placed_order.truncate t = placed_order.truncate s"
    unfolding assms(2) by (rule order_snapshot.run_inv) simp
  then have t: "o_totals t = o_totals s" "o_lines t = o_lines s" "o_promotion t = o_promotion s"
    "o_shipping_tax_rate_bp t = o_shipping_tax_rate_bp s"
    by (simp_all add: placed_order.defs)
  note created = create_order_parts [OF assms(1)]
  note sums = order_totals_Inr [OF created(1)]
  have lines: "(\<Sum>l\<leftarrow>o_lines s. amount (pl_line_total l)) = (\<Sum>l\<leftarrow>no_lines i. amount (pl_line_total l))"
    "(\<Sum>l\<leftarrow>o_lines s. amount (pl_discount l)) = (\<Sum>l\<leftarrow>no_lines i. amount (pl_discount l))"
    "(\<Sum>l\<leftarrow>o_lines s. amount (pl_tax_amount l)) = (\<Sum>l\<leftarrow>no_lines i. amount (pl_tax_amount l))"
    using numbered_lines_totals [of "\<lambda>l. amount (pl_line_total l)" fresh "no_lines i"]
      numbered_lines_totals [of "\<lambda>l. amount (pl_discount l)" fresh "no_lines i"]
      numbered_lines_totals [of "\<lambda>l. amount (pl_tax_amount l)" fresh "no_lines i"]
    by (simp_all add: created(7) priced_line.defs)
  have quoted: "(tot_shipping_cost (o_totals t), tot_shipping_tax (o_totals t), o_shipping_tax_rate_bp t)
       = quoted_shipping delivery"
    unfolding t sums(5,7) create_order_shipping_rate [OF assms(1)]
    by (cases delivery) (simp_all add: quoted_shipping_def)
  have given: "map priced_line.truncate (o_lines t) = no_lines i"
    unfolding t created(7) by (rule numbered_lines_given)
  have "amount (tot_tax (o_totals t))
       = (\<Sum>l\<leftarrow>o_lines t. amount (pl_tax_amount l)) + amount (tot_shipping_tax (o_totals t))"
    unfolding t lines sums(2,7) ..
  with quoted given show ?thesis
    using sums(1,3,4,5,6) created(2,3) lines by (auto simp: t valid_money_def)
qed


section \<open>A concrete order\<close>

definition example_item :: line_item where
  "example_item = \<lparr>li_variant = 7, li_sku = ''TAZA'', li_product_name = ''Taza'', li_options = [],
     li_unit_price = \<lparr>amount = 11600, currency = MXN\<rparr>, li_quantity = 2\<rparr>"

definition example_address :: shipping_address where
  "example_address = \<lparr>a_postal_code = ''44100'', a_state_code = ''14'', a_state_name = ''Jalisco'',
     a_municipality_code = ''039'', a_municipality_name = ''Guadalajara'', a_country = ''MX'',
     a_recipient = ''Ana'', a_phone = ''3312345678'', a_street = ''Juarez'', a_exterior = ''1'',
     a_interior = None, a_neighborhood = ''Centro'', a_city = None, a_references = None\<rparr>"

definition example_shipping :: order_shipping where
  "example_shipping = \<lparr>ship_cost = \<lparr>amount = 9900, currency = MXN\<rparr>,
     ship_tax_amount = \<lparr>amount = 1366, currency = MXN\<rparr>, ship_tax_rate_bp = 1600,
     ship_min_days = 2, ship_max_days = 5\<rparr>"

definition example_order :: "order result" where
  "example_order =
     res_bind (price_line example_item 1600) (\<lambda>line.
     res_bind (discount_line line \<lparr>amount = 1200, currency = MXN\<rparr>) (\<lambda>line.
       place (\<lambda>n. 100 + n)
         \<lparr>no_id = 1, no_public_code = ''K7M4Q9XA'', no_buyer = GuestBuyer '' Ana@Example.com '' ''2026-01'',
          no_lines = [line], no_promotion = Some \<lparr>ap_id = 5, ap_name = ''Bienvenida'', ap_code = Some ''HOLA''\<rparr>,
          no_reservation = 50, no_reservation_expires_at = 1000, no_now = 0\<rparr>
         example_shipping example_address 9))"

lemma example_order_placed:
  "returned (\<lambda>s. o_status s = PENDING_PAYMENT \<and> o_contact_email s = Some ''ana@example.com'' \<and>
     amount (tot_subtotal (o_totals s)) = 23200 \<and> amount (tot_tax (o_totals s)) = 4400 \<and>
     amount (tot_grand (o_totals s)) = 31900 \<and> order_coupon s = Some 5 \<and>
     map ol_number (o_lines s) = [1] \<and> o_payment_due_at s = 1000) example_order"
  by code_simp

lemma example_order_created:
  "\<exists>fresh i delivery origin s. example_order = Inr s \<and> create_order fresh i delivery origin = Inr s \<and>
     o_status s = PENDING_PAYMENT \<and> o_changes s = [] \<and> o_payment_due_at s = 1000 \<and>
     amount (tot_grand (o_totals s)) = 31900"
proof -
  obtain s where s: "example_order = Inr s" "o_payment_due_at s = 1000"
    "amount (tot_grand (o_totals s)) = 31900"
    using returnedD [OF example_order_placed] by blast
  then obtain fresh i delivery origin where c: "create_order fresh i delivery origin = Inr s"
    unfolding example_order_def place_def res_bind_eq_Inr by blast
  with s create_order_parts [OF c] show ?thesis by blast
qed

theorem order_totals_add_up_witness:
  "\<exists>s. example_order = Inr s \<and>
     amount (tot_grand (o_totals (run order_step s [MarkPaid 10 11 None]))) + 1200 = 23200 + 9900 \<and>
     amount (tot_tax (o_totals (run order_step s [MarkPaid 10 11 None]))) = 3034 + 1366"
proof -
  obtain fresh i delivery origin s where s: "example_order = Inr s"
    "create_order fresh i delivery origin = Inr s"
    using example_order_created by blast
  let ?t = "run order_step s [MarkPaid 10 11 None]"
  note sums = order_totals_add_up [OF s(2) refl, of "[MarkPaid 10 11 None]"]
  have "returned (\<lambda>s. let t = run order_step s [MarkPaid 10 11 None] in
      amount (tot_discount (o_totals t)) = 1200 \<and> amount (tot_subtotal (o_totals t)) = 23200 \<and>
      amount (tot_shipping_cost (o_totals t)) = 9900 \<and> amount (tot_shipping_tax (o_totals t)) = 1366 \<and>
      (\<Sum>l\<leftarrow>o_lines t. amount (pl_tax_amount l)) = 3034) example_order"
    by code_simp
  from returned_at [OF this s(1)] have "amount (tot_discount (o_totals ?t)) = 1200"
    "amount (tot_subtotal (o_totals ?t)) = 23200" "amount (tot_shipping_cost (o_totals ?t)) = 9900"
    "amount (tot_shipping_tax (o_totals ?t)) = 1366" "(\<Sum>l\<leftarrow>o_lines ?t. amount (pl_tax_amount l)) = 3034"
    unfolding Let_def by blast+
  with sums have "amount (tot_grand (o_totals ?t)) + 1200 = 23200 + 9900" "amount (tot_tax (o_totals ?t)) = 3034 + 1366"
    by linarith+
  with s(1) show ?thesis by blast
qed

section \<open>The documented transitions\<close>

text \<open>The transitions of an order in the table of \<open>docs/REQUIREMENTS.md\<close>, section 3.1.\<close>

fun documented_move :: "order_status \<Rightarrow> order_status \<Rightarrow> bool" where
  "documented_move PENDING_PAYMENT t = (t \<in> {PAID, EXPIRED, CANCELLED})"
| "documented_move EXPIRED t = (t \<in> {PAID, AWAITING_MANUAL_FULFILLMENT})"
| "documented_move PAID t = (t \<in> {SHIPPED, CANCELLED, DELIVERED})"
| "documented_move AWAITING_MANUAL_FULFILLMENT t = (t \<in> {PAID, CANCELLED})"
| "documented_move CANCELLED t = (t = REFUNDED)"
| "documented_move SHIPPED t = (t = DELIVERED)"
| "documented_move DELIVERED t = False"
| "documented_move REFUNDED t = False"

text \<open>
  The operations make the documented transitions and one more: a payment captured when there is
  no stock moves an order that still waits for its payment to the manual fulfillment, which the
  table only has from an expired order.
\<close>

lemma one_undocumented_move:
  "(order_move s t \<and> \<not> documented_move s t)
     = (s = PENDING_PAYMENT \<and> t = AWAITING_MANUAL_FULFILLMENT)"
  by (cases s; cases t) auto

text \<open>The extra transition does happen: nothing refuses it.\<close>

lemma awaits_from_pending:
  "o_status s = PENDING_PAYMENT \<Longrightarrow>
     \<exists>t. await_manual_fulfillment captured now s = Inr t \<and> o_status t = AWAITING_MANUAL_FULFILLMENT"
  by (simp add: await_manual_fulfillment_def assert_status_def move_order_def)

section \<open>Statuses and history\<close>

text \<open>
  The status history of an order: each entry leaves from where the one before arrived, and is one of
  the transitions.
\<close>

fun follows :: "order_status \<Rightarrow> status_change list \<Rightarrow> order_status \<Rightarrow> bool" where
  "follows s [] t = (s = t)"
| "follows s (c # cs) t = (sc_from c = Some s \<and> order_move s (sc_to c) \<and> follows (sc_to c) cs t)"

lemma follows_append:
  "follows s (cs @ ds) t \<longleftrightarrow> (\<exists>u. follows s cs u \<and> follows u ds t)"
  by (induction cs arbitrary: s) auto

lemma order_step_history:
  "order_step s ev = Inr t \<Longrightarrow> follows s0 (o_changes s) (o_status s) \<Longrightarrow>
     follows s0 (o_changes t) (o_status t)"
  by (cases ev) (auto simp: order_operations move_order_def Let_def res_simps follows_append
      split: if_splits)

interpretation order_history: lifecycle order_step "\<lambda>s. follows s0 (o_changes s) (o_status s)" for s0
  by unfold_locales (rule order_step_history)

text \<open>A change of status that the table has, and the one that it does not have.\<close>

definition documented_change :: "status_change \<Rightarrow> bool" where
  "documented_change c = (case sc_from c of None \<Rightarrow> False | Some s \<Rightarrow> documented_move s (sc_to c))"

definition undocumented_change :: "status_change \<Rightarrow> bool" where
  "undocumented_change c = (sc_from c = Some PENDING_PAYMENT \<and> sc_to c = AWAITING_MANUAL_FULFILLMENT)"

lemma never_pending_again: "order_move s t \<Longrightarrow> t \<noteq> PENDING_PAYMENT"
  by (cases s) auto

lemma follows_documented:
  "follows s cs t \<Longrightarrow> s \<noteq> PENDING_PAYMENT \<Longrightarrow> list_all documented_change cs"
proof (induction cs arbitrary: s)
  case (Cons c cs)
  then have c: "sc_from c = Some s" "order_move s (sc_to c)" "follows (sc_to c) cs t" by simp_all
  then have "documented_move s (sc_to c)" using Cons.prems(2) one_undocumented_move by blast
  with c Cons.IH [OF c(3) never_pending_again [OF c(2)]] show ?case by (simp add: documented_change_def)
qed simp

lemma follows_from_placement:
  assumes "follows PENDING_PAYMENT cs t"
  shows "list_all documented_change (tl cs) \<and> list_all (\<lambda>c. documented_change c \<or> undocumented_change c) cs"
proof (cases cs)
  case (Cons c rest)
  with assms have c: "sc_from c = Some PENDING_PAYMENT" "order_move PENDING_PAYMENT (sc_to c)"
    "follows (sc_to c) rest t" by simp_all
  have "documented_change c \<or> undocumented_change c"
    using c(1,2) one_undocumented_move [of PENDING_PAYMENT "sc_to c"]
    by (auto simp: documented_change_def undocumented_change_def)
  moreover have "list_all documented_change rest" by (rule follows_documented [OF c(3) never_pending_again [OF c(2)]])
  ultimately show ?thesis using Cons by (auto simp: list_all_iff)
qed simp

text \<open>
  C4. Whatever is asked of an order, in any order, what it keeps stays consistent: the dates and the conclusion that its
  status says, no blocked data before it concluded, and no buyer data once anonymized. Its history is an unbroken chain
  from its placement to the status it has, and each of its changes is one of the table of \<open>docs/REQUIREMENTS.md\<close>,
  section 3.1, but for one that the code makes and the table does not have: from \<open>PENDING_PAYMENT\<close> straight to
  \<open>AWAITING_MANUAL_FULFILLMENT\<close>, and only as the first of the history.
\<close>

theorem order_stays_consistent:
  assumes "create_order fresh i delivery origin = Inr s" and "t = run order_step s evs"
  shows "wf_order t \<and> follows PENDING_PAYMENT (o_changes t) (o_status t) \<and> list_all documented_change (tl (o_changes t))
    \<and> list_all (\<lambda>c. documented_change c \<or> undocumented_change c) (o_changes t)"
proof -
  note created = create_order_parts [OF assms(1)]
  have "wf_order t" unfolding assms(2) by (rule order_life.run_inv) (rule created(13))
  moreover have "follows PENDING_PAYMENT (o_changes t) (o_status t)"
    unfolding assms(2) by (rule order_history.run_inv) (simp add: created(5,6))
  ultimately show ?thesis using follows_from_placement by blast
qed

text \<open>An order that expired first, and one that is asked to wait for its stock while it still waits for its payment.\<close>

theorem order_stays_consistent_witness:
  "\<exists>s t. example_order = Inr s
    \<and> wf_order (run order_step s [ExpireIfDue 1000, AwaitManualFulfillment 1100 1200, Cancel 3 ''No'' 1300])
    \<and> t = run order_step s [AwaitManualFulfillment 500 600, Cancel 3 ''No'' 1300] \<and> wf_order t
    \<and> map undocumented_change (o_changes t) = [True, False] \<and> list_all documented_change (tl (o_changes t))"
proof -
  obtain fresh i delivery origin s where s: "example_order = Inr s" "create_order fresh i delivery origin = Inr s"
    using example_order_created by blast
  note c = order_stays_consistent [OF s(2) refl]
  have "returned (\<lambda>s. map undocumented_change (o_changes (run order_step s [AwaitManualFulfillment 500 600,
      Cancel 3 ''No'' 1300])) = [True, False]) example_order"
    by code_simp
  note r = returned_at [OF this s(1)]
  show ?thesis
    by (rule exI [of _ s], rule exI, intro conjI, rule s(1), rule conjunct1 [OF c], rule refl)
      (use c [of "[AwaitManualFulfillment 500 600, Cancel 3 ''No'' 1300]"] r in \<open>simp_all only: simp_thms\<close>)
qed

text \<open>
  A delivered order and a refunded one are final: no operation moves them to another status.
\<close>

lemma order_final_statuses:
  assumes "wf_order s" and "o_status s \<in> {DELIVERED, REFUNDED}"
  shows "o_status (run order_step s evs) = o_status s"
  by (rule order_life.run_final [OF assms(1)]) (use assms(2) in \<open>auto simp: order_moves_def\<close>)

definition delivered_example :: "order result" where
  "delivered_example =
     res_bind example_order (\<lambda>s.
       Inr (run order_step s [MarkPaid 10 11 None, MarkShipped 20 21, MarkDelivered 30 31]))"

text \<open>
  Every order can still conclude: the staff can always close it, whatever its status, with the
  refund of its payment when it was paid and not shipped.
\<close>

lemma order_can_conclude_events:
  assumes "wf_order s"
  shows "\<exists>evs. length evs \<le> 2 \<and> o_concluded_at (run order_step s evs) \<noteq> None"
proof (cases "o_concluded_at s")
  case (Some at)
  then have "o_concluded_at (run order_step s []) \<noteq> None" by simp
  then show ?thesis by (metis le0 list.size(3))
next
  case None
  let ?close = "case o_status s of SHIPPED \<Rightarrow> [MarkDelivered 0 0] | CANCELLED \<Rightarrow> [MarkRefunded 0 0]
    | _ \<Rightarrow> [Cancel 0 [] 0, MarkRefunded 0 0]"
  have "o_concluded_at (run order_step s ?close) \<noteq> None"
    using assms None
    by (cases "o_status s") (auto simp: order_wf attempt_def order_operations assert_status_def
        move_order_def Let_def split: sum.splits)
  moreover have "length ?close \<le> 2" by (simp split: order_status.split)
  ultimately show ?thesis by blast
qed

text \<open>
  No order gets stuck: from wherever its operations took it, at most two more make it conclude,
  so the retention of the data of its buyer can start.
\<close>

lemma order_can_always_conclude:
  assumes "create_order fresh i delivery origin = Inr s"
  shows "\<exists>closing. length closing \<le> 2 \<and> o_concluded_at (run order_step s (evs @ closing)) \<noteq> None"
proof -
  have run_append: "run order_step u (xs @ ys) = run order_step (run order_step u xs) ys" for u xs ys
    by (induction xs arbitrary: u) auto
  have "wf_order (run order_step s evs)"
    by (rule order_life.run_inv) (rule create_order_parts(13) [OF assms])
  from order_can_conclude_events [OF this] show ?thesis by (simp add: run_append)
qed

section \<open>Conclusion and anonymization\<close>

text \<open>
  The date an order keeps of its conclusion and the check before its data is removed agree:
  apart from a shipped one, whose return is known from its shipment, an order has concluded by its
  own date exactly when it counts as concluded.
\<close>

lemma concluded_date_agrees:
  assumes "wf_order s" and "o_status s \<noteq> SHIPPED"
  shows "is_concluded shipment s \<longleftrightarrow> o_concluded_at s \<noteq> None"
  using assms by (cases "o_status s") (auto simp: order_wf is_concluded_def)

text \<open>What stays true of an anonymized order: its buyer is gone and it never ships after that.\<close>

definition stays_anonymous :: "order \<Rightarrow> order \<Rightarrow> bool" where
  "stays_anonymous s t \<longleftrightarrow>
     wf_order t \<and> is_anonymized t \<and> o_shipped_at t = o_shipped_at s \<and>
     o_anonymized_at t = o_anonymized_at s"

lemma order_step_stays_anonymous:
  assumes "stays_anonymous s t" and "order_step t ev = Inr u"
  shows "stays_anonymous s u"
proof -
  have t: "wf_order t" "o_anonymized_at t \<noteq> None" and u: "wf_order u"
    using assms order_step_wf by (auto simp: stays_anonymous_def is_anonymized_def)
  then have "o_status t \<noteq> PAID" by (auto simp: order_wf)
  with assms(2) t have "o_anonymized_at u = o_anonymized_at t \<and> o_shipped_at u = o_shipped_at t"
    by (cases ev) (auto simp: order_operations move_order_def Let_def res_simps split: if_splits)
  with assms(1) u t show ?thesis by (simp add: stays_anonymous_def is_anonymized_def)
qed

interpretation anonymous_order: lifecycle order_step "stays_anonymous s" for s
  by unfold_locales (rule order_step_stays_anonymous)

text \<open>
  Anonymization is for good: an anonymized order never gets back the contact email nor the
  address, has no address to ship to, and is never paid for fulfillment nor shipped afterwards,
  also when a late payment arrives.
\<close>

lemma anonymized_order_stays_so:
  assumes "wf_order s" and "anonymize_order shipment at s = Inr a" and "t = run order_step a evs"
  shows "o_contact_email t = None \<and> o_anonymized_at t = o_anonymized_at a \<and>
     \<not> returns (delivery_address t) \<and> o_shipped_at t = o_shipped_at s \<and> o_status t \<noteq> PAID"
proof -
  have a: "wf_order a" using order_step_wf [OF assms(1), of "Anonymize shipment at" a] assms(2) by simp
  have "is_anonymized a" "o_shipped_at a = o_shipped_at s"
    using assms(2) by (auto simp: anonymize_order_def is_anonymized_def res_simps split: option.split)
  with a have "stays_anonymous a a" by (simp add: stays_anonymous_def)
  then have t: "stays_anonymous a t" unfolding assms(3) by (rule anonymous_order.run_inv)
  then have "o_status t \<noteq> PAID"
    by (auto simp: stays_anonymous_def order_wf)
  with t \<open>o_shipped_at a = _\<close> show ?thesis
    by (auto simp: stays_anonymous_def wf_order_def address_anonymized_def delivery_address_def
        split: option.splits order_address.splits)
qed

section \<open>Line prices\<close>

text \<open>
  A line costs its unit price times its quantity; once discounted it keeps that total, the
  discount is never more than it, and the tax it carries is the one contained in what is left.
\<close>

lemma discounted_line_adds_up:
  assumes "price_line item rate = Inr p" and "discount_line p d = Inr l" and "0 \<le> amount d"
  shows "amount (pl_line_total l) = amount (li_unit_price item) * li_quantity item \<and>
     amount d \<le> amount (pl_line_total l) \<and> pl_discount l = d \<and>
     0 \<le> amount (pl_tax_amount l) \<and>
     amount (pl_tax_amount l) \<le> amount (pl_line_total l) - amount d \<and>
     amount (pl_tax_amount l) \<le> amount (pl_tax_amount p)"
proof -
  obtain total tax where p: "money_multiply (li_unit_price item) (Whole (li_quantity item)) = Inr total"
    "contained_tax total (Whole rate) = Inr tax"
    "pl_line_total p = total" "pl_tax_rate_bp p = rate" "pl_tax_amount p = tax"
    using assms(1) unfolding price_line_def res_bind_eq_Inr sum.inject
    by (auto simp: line_item.defs priced_line.defs)
  obtain rest tax' where l: "money_subtract total d = Inr rest" "contained_tax rest (Whole rate) = Inr tax'"
    "l = p\<lparr>pl_discount := d, pl_tax_amount := tax'\<rparr>"
    using assms(2) p(3,4) unfolding discount_line_def res_bind_eq_Inr sum.inject by auto
  show ?thesis
    using p l assms(3) contained_tax_bounds [OF l(2)] contained_tax_mono [OF l(2) p(2)]
    by (auto simp: money_multiply_Inr money_subtract_Inr valid_money_def)
qed

end
