(* ===== verification/Orders.thy ===== *)
theory Orders
  imports Order
begin

text \<open>
  The table of orders with their status history (\<open>ordering/infrastructure/prisma-order.repository.ts\<close>) and the
  statements on it. An order as it is read has no status changes and nothing changed; a locked order is read
  once and saved once, in the transaction that locked it.
\<close>

record orders_db =
  od_orders :: "order list"
  od_history :: "(id \<times> status_change) list"

definition order_as_read :: "order \<Rightarrow> order" where
  "order_as_read s = s\<lparr>o_changes := [], o_changed := False\<rparr>"

text \<open>A taken public code writes nothing, and says so; a taken identifier breaks the primary key.\<close>

definition insert_order :: "order \<Rightarrow> orders_db \<Rightarrow> (bool \<times> orders_db) result" where
  "insert_order s d =
     (if list_ex (\<lambda>x. o_public_code x = o_public_code s) (od_orders d) then Inr (False, d)
      else if list_ex (\<lambda>x. o_id x = o_id s) (od_orders d) then Inl (PlainError ''orders_pkey'')
      else Inr (True, d\<lparr>od_orders := od_orders d @ [order_as_read s],
        od_history := od_history d @
          [(o_id s, \<lparr>sc_from = None, sc_to = o_status s,
             sc_actor = (case o_placed_by s of Some staff \<Rightarrow> Some staff | None \<Rightarrow> o_customer s),
             sc_reason = None, sc_at = o_placed_at s\<rparr>)]\<rparr>))"

definition lock_order :: "id \<Rightarrow> orders_db \<Rightarrow> order option" where
  "lock_order i d = find (\<lambda>s. o_id s = i) (od_orders d)"

definition lock_by_public_code :: "string \<Rightarrow> orders_db \<Rightarrow> order option" where
  "lock_by_public_code code d = find (\<lambda>s. o_public_code s = code) (od_orders d)"

datatype orders_of = OrdersOfCustomer id | OrdersOfGuest string

definition lock_of :: "orders_of \<Rightarrow> orders_db \<Rightarrow> order list" where
  "lock_of buyer d =
     sort_key o_id (filter (\<lambda>s. case buyer of
         OrdersOfCustomer c \<Rightarrow> o_customer s = Some c \<and> o_anonymized_at s = None
       | OrdersOfGuest email \<Rightarrow> o_customer s = None \<and> o_contact_email s = Some email) (od_orders d))"

definition used_coupon :: "id \<Rightarrow> string \<Rightarrow> orders_db \<Rightarrow> bool" where
  "used_coupon promotion email d =
     (length (filter (\<lambda>s. (case o_promotion s of Some p \<Rightarrow> ap_id p = promotion | None \<Rightarrow> False)
        \<and> o_contact_email s = Some email \<and> o_status s \<notin> {EXPIRED, CANCELLED, REFUNDED}) (od_orders d)) > 0)"

definition due_for_expiry :: "time \<Rightarrow> nat \<Rightarrow> orders_db \<Rightarrow> id list" where
  "due_for_expiry at limit d =
     map o_id (take limit (sort_key o_payment_due_at (sort_key o_id
       (filter (\<lambda>s. o_status s = PENDING_PAYMENT \<and> o_payment_due_at s \<le> at) (od_orders d)))))"

text \<open>The date an order concluded is there for every row the two selections keep.\<close>

definition concluded_on :: "order \<Rightarrow> time" where
  "concluded_on s = (case o_concluded_at s of Some t \<Rightarrow> t | None \<Rightarrow> 0)"

definition due_for_blocking :: "time \<Rightarrow> nat \<Rightarrow> orders_db \<Rightarrow> id list" where
  "due_for_blocking cutoff limit d =
     map o_id (take limit (sort_key concluded_on (sort_key o_id
       (filter (\<lambda>s. concluded_by s cutoff \<and> o_blocked_at s = None \<and> o_anonymized_at s = None) (od_orders d)))))"

definition due_for_anonymization :: "time \<Rightarrow> nat \<Rightarrow> orders_db \<Rightarrow> id list" where
  "due_for_anonymization cutoff limit d =
     map o_id (take limit (sort_key concluded_on (sort_key o_id
       (filter (\<lambda>s. concluded_by s cutoff \<and> o_anonymized_at s = None) (od_orders d)))))"

text \<open>The columns a change writes.\<close>

definition saved_order :: "order \<Rightarrow> order \<Rightarrow> order" where
  "saved_order s row =
     order_as_read (row\<lparr>o_status := o_status s, o_contact_email := o_contact_email s, o_address := o_address s,
       o_anonymized_at := o_anonymized_at s, o_concluded_at := o_concluded_at s, o_blocked_at := o_blocked_at s,
       o_reservation := o_reservation s, o_paid_at := o_paid_at s, o_shipped_at := o_shipped_at s,
       o_delivered_at := o_delivered_at s, o_cancelled_at := o_cancelled_at s, o_expired_at := o_expired_at s,
       o_refunded_at := o_refunded_at s, o_version := o_version row + 1\<rparr>)"

definition save_order :: "order \<Rightarrow> orders_db \<Rightarrow> orders_db result" where
  "save_order s d =
     (if \<not> o_changed s then Inr d
      else case lock_order (o_id s) d of
        None \<Rightarrow> Inl (PlainError ''No record was found for a query'')
      | Some row \<Rightarrow>
          if o_version row \<noteq> o_version s then Inl (VersionConflictError (o_version row))
          else Inr (d\<lparr>od_orders := map (\<lambda>x. if o_id x = o_id s then saved_order s x else x) (od_orders d),
            od_history := od_history d @ map (\<lambda>c. (o_id s, c)) (o_changes s)\<rparr>))"

section \<open>What the table keeps\<close>

definition clean_order :: "order \<Rightarrow> bool" where
  "clean_order s \<longleftrightarrow> o_changes s = [] \<and> \<not> o_changed s"

definition history_of :: "id \<Rightarrow> orders_db \<Rightarrow> status_change list" where
  "history_of i d = map snd (filter (\<lambda>h. fst h = i) (od_history d))"

text \<open>An order is placed once, and from there each entry of its history leaves from where the one before arrived.\<close>

fun history_holds :: "status_change list \<Rightarrow> order_status \<Rightarrow> bool" where
  "history_holds [] s = False"
| "history_holds (c # cs) s = (sc_from c = None \<and> sc_to c = PENDING_PAYMENT \<and> follows PENDING_PAYMENT cs s)"

definition wf_orders :: "orders_db \<Rightarrow> bool" where
  "wf_orders d \<longleftrightarrow>
     distinct (map o_id (od_orders d)) \<and>
     (\<forall>s\<in>set (od_orders d). wf_order s \<and> clean_order s \<and> history_holds (history_of (o_id s) d) (o_status s)) \<and>
     fst ` set (od_history d) \<subseteq> o_id ` set (od_orders d)"

lemma lock_order_SomeD: "lock_order i d = Some s \<Longrightarrow> s \<in> set (od_orders d) \<and> o_id s = i"
  unfolding lock_order_def by (drule find_SomeD) simp

lemma lock_by_code_SomeD: "lock_by_public_code code d = Some s \<Longrightarrow> s \<in> set (od_orders d) \<and> o_public_code s = code"
  unfolding lock_by_public_code_def by (drule find_SomeD) simp

lemma order_as_read_simps [simp]:
  "placed_order.truncate (order_as_read s) = placed_order.truncate s"
  "o_status (order_as_read s) = o_status s" "o_paid_at (order_as_read s) = o_paid_at s"
  "clean_order (order_as_read s)" "o_id (order_as_read s) = o_id s" "order_coupon (order_as_read s) = order_coupon s"
  by (simp_all add: order_as_read_def clean_order_def placed_order.defs order_coupon_def)

lemma wf_order_as_read [simp]: "wf_order (order_as_read s) = wf_order s"
  by (cases "o_status s") (simp_all add: order_wf order_as_read_def)

lemma wf_order_version [simp]: "wf_order (s\<lparr>o_version := n\<rparr>) = wf_order s"
  by (cases "o_status s") (simp_all add: order_wf)

lemma history_holds_append:
  "history_holds hs s \<Longrightarrow> follows s cs t \<Longrightarrow> history_holds (hs @ cs) t"
  by (cases hs) (auto simp: follows_append)

text \<open>An order changed by its operations is stored exactly as it is.\<close>

lemma saved_order_exact:
  assumes "placed_order.truncate t = placed_order.truncate s"
  shows "saved_order t s = order_as_read (t\<lparr>o_version := o_version s + 1\<rparr>)"
  using assms by (cases s; cases t) (simp add: saved_order_def order_as_read_def placed_order.defs)

definition replace_order :: "order \<Rightarrow> status_change list \<Rightarrow> orders_db \<Rightarrow> orders_db" where
  "replace_order t changes d =
     d\<lparr>od_orders := map (\<lambda>x. if o_id x = o_id t then t else x) (od_orders d),
       od_history := od_history d @ map (\<lambda>c. (o_id t, c)) changes\<rparr>"

text \<open>What an order becomes in the table when it is saved.\<close>

definition stored :: "order \<Rightarrow> order" where
  "stored t = order_as_read (t\<lparr>o_version := o_version t + 1\<rparr>)"

lemma truncate_fields:
  "placed_order.truncate t = placed_order.truncate s \<Longrightarrow>
     o_id t = o_id s \<and> o_version t = o_version s \<and> o_totals t = o_totals s \<and> o_lines t = o_lines s
   \<and> o_promotion t = o_promotion s \<and> o_fulfillment t = o_fulfillment s \<and> o_public_code t = o_public_code s"
  by (simp add: placed_order.defs)

lemma stored_simps [simp]:
  "o_id (stored t) = o_id t" "o_status (stored t) = o_status t" "o_paid_at (stored t) = o_paid_at t"
  "wf_order (stored t) = wf_order t" "clean_order (stored t)" "order_coupon (stored t) = order_coupon t"
  "o_totals (stored t) = o_totals t" "o_fulfillment (stored t) = o_fulfillment t"
  "o_reservation (stored t) = o_reservation t" "o_public_code (stored t) = o_public_code t"
  by (simp_all add: stored_def) (simp_all add: order_as_read_def order_coupon_def)

lemma save_order_replace:
  assumes wf: "wf_orders d" and s: "s \<in> set (od_orders d)" and same: "placed_order.truncate t = placed_order.truncate s"
    and save: "save_order t d = Inr d'"
  shows "d' = (if o_changed t then replace_order (stored t) (o_changes t) d else d)"
proof (cases "o_changed t")
  case True
  have ids: "distinct (map o_id (od_orders d))" using wf by (simp add: wf_orders_def)
  note fields = truncate_fields [OF same]
  have only: "x = s" if "x \<in> set (od_orders d)" "o_id x = o_id t" for x
    using same_key [OF ids that(1) s] that(2) fields by simp
  have d': "d' = d\<lparr>od_orders := map (\<lambda>x. if o_id x = o_id t then saved_order t x else x) (od_orders d),
            od_history := od_history d @ map (\<lambda>c. (o_id t, c)) (o_changes t)\<rparr>"
    using save True by (auto simp: save_order_def split: option.splits if_splits)
  have "map (\<lambda>x. if o_id x = o_id t then saved_order t x else x) (od_orders d)
      = map (\<lambda>x. if o_id x = o_id t then stored t else x) (od_orders d)"
    using only saved_order_exact [OF same] fields by (auto simp: stored_def intro!: map_cong)
  with True show ?thesis by (simp add: d' replace_order_def)
next
  case False
  with save show ?thesis by (simp add: save_order_def)
qed

lemma save_order_returns:
  assumes wf: "wf_orders d" and s: "s \<in> set (od_orders d)" and same: "placed_order.truncate t = placed_order.truncate s"
  shows "returns (save_order t d)"
proof -
  have "distinct (map o_id (od_orders d))" using wf by (simp add: wf_orders_def)
  from find_key [OF this s] truncate_fields [OF same] have "lock_order (o_id t) d = Some s"
    by (simp add: lock_order_def)
  then show ?thesis using truncate_fields [OF same] by (simp add: save_order_def)
qed

lemma replace_order_wf:
  assumes wf: "wf_orders d" and s: "s \<in> set (od_orders d)"
    and t: "o_id t = o_id s" "wf_order t" "clean_order t" "follows (o_status s) changes (o_status t)"
  shows "wf_orders (replace_order t changes d)"
proof -
  let ?d = "replace_order t changes d" and ?os = "map (\<lambda>x. if o_id x = o_id t then t else x) (od_orders d)"
  have ids: "distinct (map o_id (od_orders d))" using wf by (simp add: wf_orders_def)
  have rows: "od_orders ?d = ?os" by (simp add: replace_order_def)
  have keys: "map o_id ?os = map o_id (od_orders d)" by (auto intro!: map_cong)
  have history: "history_of i ?d = history_of i d @ (if i = o_id t then changes else [])" for i
    by (simp add: history_of_def replace_order_def filter_map comp_def)
  have "wf_order x \<and> clean_order x \<and> history_holds (history_of (o_id x) ?d) (o_status x)" if "x \<in> set ?os" for x
  proof (cases "x = t")
    case True
    have "history_holds (history_of (o_id s) d) (o_status s)" using wf s by (simp add: wf_orders_def)
    from history_holds_append [OF this t(4)] True t(1-3) show ?thesis by (simp add: history)
  next
    case False
    with that have x: "x \<in> set (od_orders d)" "o_id x \<noteq> o_id t" by auto
    with wf show ?thesis by (simp add: wf_orders_def history)
  qed
  moreover have "fst ` set (od_history ?d) \<subseteq> o_id ` set ?os"
  proof -
    have "fst ` set (od_history ?d) \<subseteq> fst ` set (od_history d) \<union> {o_id s}"
      using t(1) by (auto simp: replace_order_def)
    also have "\<dots> \<subseteq> o_id ` set (od_orders d)" using wf s by (auto simp: wf_orders_def)
    also have "\<dots> = o_id ` set ?os" using arg_cong [OF keys, of set] by (simp only: set_map)
    finally show ?thesis .
  qed
  ultimately show ?thesis using ids unfolding wf_orders_def rows keys by blast
qed

lemma insert_order_wf:
  assumes wf: "wf_orders d" and step: "insert_order s d = Inr (True, d')"
    and s: "wf_order s" "o_status s = PENDING_PAYMENT"
  shows "wf_orders d' \<and> od_orders d' = od_orders d @ [order_as_read s] \<and> o_id s \<notin> o_id ` set (od_orders d)"
proof -
  have new: "o_id s \<notin> o_id ` set (od_orders d)" and rows: "od_orders d' = od_orders d @ [order_as_read s]"
    and history: "od_history d' = od_history d @ [(o_id s, \<lparr>sc_from = None, sc_to = o_status s,
             sc_actor = (case o_placed_by s of Some staff \<Rightarrow> Some staff | None \<Rightarrow> o_customer s),
             sc_reason = None, sc_at = o_placed_at s\<rparr>)]"
    using step by (auto simp: insert_order_def list_ex_iff split: if_splits)
  have "fst ` set (od_history d) \<subseteq> o_id ` set (od_orders d)" using wf by (simp add: wf_orders_def)
  with new have none: "history_of (o_id s) d = []" by (auto simp: history_of_def filter_empty_conv)
  have mine: "history_holds (history_of (o_id s) d') PENDING_PAYMENT"
    using none s(2) by (simp add: history_of_def history)
  have other: "history_of i d' = history_of i d" if "i \<noteq> o_id s" for i
    using that by (simp add: history_of_def history)
  have "wf_order x \<and> clean_order x \<and> history_holds (history_of (o_id x) d') (o_status x)" if "x \<in> set (od_orders d')" for x
  proof (cases "x \<in> set (od_orders d)")
    case True
    with new have "o_id x \<noteq> o_id s" by (metis imageI)
    with True wf other show ?thesis by (simp add: wf_orders_def)
  next
    case False
    with that have "x = order_as_read s" by (simp add: rows)
    with s mine show ?thesis by simp
  qed
  moreover have "distinct (map o_id (od_orders d'))" using wf new by (simp add: wf_orders_def rows)
  moreover have "fst ` set (od_history d') \<subseteq> o_id ` set (od_orders d')"
    using wf by (auto simp: wf_orders_def history rows)
  ultimately show ?thesis using new rows unfolding wf_orders_def by blast
qed

end
