(* ===== verification/Allocation.thy ===== *)
theory Allocation
  imports Errors "HOL-Library.AList"
begin

text \<open>
  The units an order or a cart asks for (\<open>inventory/domain/reservation.ts\<close>) and how they are spread over
  the active warehouses (\<open>inventory/domain/allocation.ts\<close>). A \<open>Map\<close> of the language is an association
  list in insertion order: setting a key it has replaces the value in place, and a new key goes last,
  which is what \<open>AList.update\<close> does.
\<close>

record stock_request =
  rq_variant :: id
  rq_quantity :: int

section \<open>Merged requests\<close>

text \<open>One turn of the loop, on the units asked so far by variant.\<close>

definition merge_request :: "(id \<times> int) list \<Rightarrow> id \<times> js_number \<Rightarrow> (id \<times> int) list result" where
  "merge_request merged request =
     (case request of (variant, quantity) \<Rightarrow>
       (case quantity of
          NotWhole \<Rightarrow>
            Inl (InvalidValueError ''A request of stock asks for a whole number of units above zero'')
        | Whole q \<Rightarrow>
            if q < 1
            then Inl (InvalidValueError ''A request of stock asks for a whole number of units above zero'')
            else Inr (AList.update variant
                        ((case map_of merged variant of Some n \<Rightarrow> n | None \<Rightarrow> 0) + q) merged)))"

definition merged_requests :: "(id \<times> js_number) list \<Rightarrow> stock_request list result" where
  "merged_requests requests =
     res_bind (res_fold merge_request [] requests) (\<lambda>merged.
       Inr (map (\<lambda>(variant, quantity). \<lparr>rq_variant = variant, rq_quantity = quantity\<rparr>) merged))"

text \<open>The units asked of a variant, before and after merging.\<close>

fun asked :: "(id \<times> js_number) list \<Rightarrow> id \<Rightarrow> int" where
  "asked [] v = 0"
| "asked ((variant, Whole q) # rest) v = (if variant = v then q else 0) + asked rest v"
| "asked ((variant, NotWhole) # rest) v = asked rest v"

definition requested :: "stock_request list \<Rightarrow> id \<Rightarrow> int" where
  "requested rs v = (\<Sum>r\<leftarrow>rs. if rq_variant r = v then rq_quantity r else 0)"

definition merged_value :: "(id \<times> int) list \<Rightarrow> id \<Rightarrow> int" where
  "merged_value merged v = (case map_of merged v of Some n \<Rightarrow> n | None \<Rightarrow> 0)"

lemma merge_request_Inr:
  "merge_request merged (v, n) = Inr m \<longleftrightarrow>
     (\<exists>q. n = Whole q \<and> 1 \<le> q \<and> m = AList.update v (merged_value merged v + q) merged)"
  by (auto simp: merge_request_def merged_value_def split: js_number.split)

lemma merged_value_update [simp]:
  "merged_value (AList.update v n al) w = (if w = v then n else merged_value al w)"
  by (simp add: merged_value_def update_conv)

lemma set_update: "set (AList.update k v al) \<subseteq> insert (k, v) (set al)"
  by (induction al) auto

lemma merge_loop:
  "res_fold merge_request m0 requests = Inr m \<Longrightarrow> distinct (map fst m0) \<Longrightarrow>
     (\<forall>e\<in>set m0. 1 \<le> snd e) \<Longrightarrow>
     distinct (map fst m) \<and> (\<forall>e\<in>set m. 1 \<le> snd e) \<and>
     (\<forall>v. merged_value m v = merged_value m0 v + asked requests v)"
proof (induction requests arbitrary: m0)
  case Nil
  then show ?case by simp
next
  case (Cons r requests)
  obtain v n where r: "r = (v, n)" by (cases r)
  from Cons.prems obtain q where q: "n = Whole q" "1 \<le> q"
    and rest: "res_fold merge_request (AList.update v (merged_value m0 v + q) m0) requests = Inr m"
    by (auto simp: res_simps r merge_request_Inr)
  have "0 \<le> merged_value m0 v"
    using Cons.prems(3) by (auto simp: merged_value_def split: option.split dest!: map_of_SomeD)
  then have "\<forall>e\<in>set (AList.update v (merged_value m0 v + q) m0). 1 \<le> snd e"
    using Cons.prems(3) q(2) set_update [of v "merged_value m0 v + q" m0] by fastforce
  moreover have "distinct (map fst (AList.update v (merged_value m0 v + q) m0))"
    by (rule distinct_update) (rule Cons.prems(2))
  ultimately show ?case using Cons.IH [OF rest] by (auto simp: r q)
qed

lemma requested_of_merged:
  "distinct (map fst m) \<Longrightarrow>
     requested (map (\<lambda>(v, q). \<lparr>rq_variant = v, rq_quantity = q\<rparr>) m) w = merged_value m w"
proof (induction m)
  case Nil
  then show ?case by (simp add: requested_def merged_value_def)
next
  case (Cons e m)
  obtain v q where e: "e = (v, q)" by (cases e)
  have "merged_value m w = 0" if "w = v"
    using Cons.prems that
    by (auto simp: merged_value_def e split: option.split dest!: map_of_SomeD) force
  with Cons show ?case by (auto simp: requested_def merged_value_def e)
qed

lemma merged_requests_parts:
  assumes "merged_requests requests = Inr rs"
  shows "distinct (map rq_variant rs)" and "\<forall>r\<in>set rs. 1 \<le> rq_quantity r"
    and "requested rs v = asked requests v"
proof -
  obtain m where m: "res_fold merge_request [] requests = Inr m"
    and rs: "rs = map (\<lambda>(v, q). \<lparr>rq_variant = v, rq_quantity = q\<rparr>) m"
    using assms by (auto simp: merged_requests_def res_simps)
  note loop = merge_loop [OF m, simplified]
  have "map rq_variant rs = map fst m" by (auto simp: rs)
  with loop show "distinct (map rq_variant rs)" by simp
  show "\<forall>r\<in>set rs. 1 \<le> rq_quantity r" using loop by (auto simp: rs)
  show "requested rs v = asked requests v"
    using loop requested_of_merged [of m v] by (simp add: rs merged_value_def)
qed

text \<open>
  Merging the lines of an order keeps what is asked of each variant, names each variant once and
  asks at least one unit of it.
\<close>

lemma merged_requests_keep_units:
  assumes "merged_requests requests = Inr rs"
  shows "distinct (map rq_variant rs) \<and> list_all (\<lambda>r. 1 \<le> rq_quantity r) rs \<and>
     requested rs v = asked requests v"
  using merged_requests_parts [OF assms] by (simp add: list_all_iff)

section \<open>Allocation\<close>

record warehouse_stock =
  ws_warehouse :: id
  ws_available :: "(id \<times> int) list"

record allocation =
  al_warehouse :: id
  al_lines :: "stock_request list"

definition available_of :: "warehouse_stock \<Rightarrow> id \<Rightarrow> int" where
  "available_of w v = (case map_of (ws_available w) v of Some n \<Rightarrow> n | None \<Rightarrow> 0)"

definition short_in :: "warehouse_stock \<Rightarrow> stock_request list \<Rightarrow> id list" where
  "short_in w requests =
     map rq_variant (filter (\<lambda>r. available_of w (rq_variant r) < rq_quantity r) requests)"

definition ONE_WAREHOUSE_PER_ORDER ::
  "warehouse_stock list \<Rightarrow> stock_request list \<Rightarrow> allocation list list" where
  "ONE_WAREHOUSE_PER_ORDER warehouses requests =
     map (\<lambda>w. [\<lparr>al_warehouse = ws_warehouse w, al_lines = requests\<rparr>])
       (filter (\<lambda>w. length (short_in w requests) = 0) warehouses)"

definition fixed_warehouse ::
  "id \<Rightarrow> warehouse_stock list \<Rightarrow> stock_request list \<Rightarrow> allocation list list" where
  "fixed_warehouse warehouse_id warehouses requests =
     map (\<lambda>w. [\<lparr>al_warehouse = warehouse_id, al_lines = requests\<rparr>])
       (filter (\<lambda>w. ws_warehouse w = warehouse_id \<and> length (short_in w requests) = 0) warehouses)"

definition short_in_warehouse ::
  "warehouse_stock list \<Rightarrow> id \<Rightarrow> stock_request list \<Rightarrow> id list" where
  "short_in_warehouse warehouses warehouse_id requests =
     (case find (\<lambda>w. ws_warehouse w = warehouse_id) warehouses of
        None \<Rightarrow> map rq_variant requests
      | Some w \<Rightarrow> short_in w requests)"

definition fulfillable_alone ::
  "warehouse_stock list \<Rightarrow> stock_request list \<Rightarrow> (id \<times> bool) list" where
  "fulfillable_alone warehouses requests =
     fold (\<lambda>r. AList.update (rq_variant r)
                 (\<exists>w\<in>set warehouses. available_of w (rq_variant r) \<ge> rq_quantity r))
       requests []"

definition closer :: "stock_request list \<Rightarrow> warehouse_stock \<Rightarrow> id list \<Rightarrow> id list" where
  "closer requests w closest =
     (let short = short_in w requests in if length short < length closest then short else closest)"

definition short_in_closest :: "warehouse_stock list \<Rightarrow> stock_request list \<Rightarrow> id list" where
  "short_in_closest warehouses requests =
     fold (closer requests) warehouses (map rq_variant requests)"

lemma short_in_Nil: "short_in w requests = [] \<longleftrightarrow>
    (\<forall>r\<in>set requests. rq_quantity r \<le> available_of w (rq_variant r))"
  by (auto simp: short_in_def filter_empty_conv not_less)

section \<open>The contract of an allocation policy\<close>

text \<open>
  What the reservation relies on: every plan takes all that was asked, and takes it from warehouses it
  was given, each of which has available what its group takes.
\<close>

locale allocation_policy =
  fixes plans :: "warehouse_stock list \<Rightarrow> stock_request list \<Rightarrow> allocation list list"
  assumes plan_complete:
    "plan \<in> set (plans ws rs) \<Longrightarrow> (\<Sum>g\<leftarrow>plan. requested (al_lines g) v) = requested rs v"
    and plan_available:
    "plan \<in> set (plans ws rs) \<Longrightarrow> g \<in> set plan \<Longrightarrow>
       \<exists>w\<in>set ws. ws_warehouse w = al_warehouse g \<and> short_in w (al_lines g) = []"
begin

lemma plan_warehouses:
  "plan \<in> set (plans ws rs) \<Longrightarrow> al_warehouse ` set plan \<subseteq> ws_warehouse ` set ws"
  using plan_available by (metis image_eqI image_subsetI)

end

text \<open>A policy that takes every unit of an order from one warehouse.\<close>

locale single_warehouse_policy = allocation_policy +
  assumes plan_single: "plan \<in> set (plans ws rs) \<Longrightarrow> \<exists>w. plan = [\<lparr>al_warehouse = w, al_lines = rs\<rparr>]"
begin

lemma plan_from_one:
  assumes "plan \<in> set (plans ws rs)"
  obtains w where "w \<in> set ws" "plan = [\<lparr>al_warehouse = ws_warehouse w, al_lines = rs\<rparr>]"
    and "short_in w rs = []"
proof -
  obtain i where i: "plan = [\<lparr>al_warehouse = i, al_lines = rs\<rparr>]" using plan_single [OF assms] by blast
  with plan_available [OF assms, of "\<lparr>al_warehouse = i, al_lines = rs\<rparr>"]
  obtain w where "w \<in> set ws" "ws_warehouse w = i" "short_in w rs = []" by auto
  with i that show ?thesis by blast
qed

end

interpretation first_by_priority: single_warehouse_policy ONE_WAREHOUSE_PER_ORDER
  by unfold_locales (auto simp: ONE_WAREHOUSE_PER_ORDER_def)

interpretation chosen: single_warehouse_policy "fixed_warehouse i" for i
  by unfold_locales (auto simp: fixed_warehouse_def)

section \<open>What is short\<close>

lemma closest_fold:
  "length (fold (closer rs) ws c) \<le> length c \<and>
   (\<forall>w\<in>set ws. length (fold (closer rs) ws c) \<le> length (short_in w rs)) \<and>
   (fold (closer rs) ws c = c \<or> (\<exists>w\<in>set ws. fold (closer rs) ws c = short_in w rs))"
proof (induction ws arbitrary: c)
  case Nil
  then show ?case by simp
next
  case (Cons w ws)
  from Cons [of "closer rs w c"] show ?case
    by (auto simp: closer_def Let_def split: if_splits)
qed

text \<open>
  What a reservation answers as short agrees with whether it has a plan: with something asked,
  there is a plan exactly when the closest warehouse leaves nothing out, and no warehouse leaves out
  fewer lines than the closest.
\<close>

lemma short_exactly_without_plan:
  assumes "rs \<noteq> []"
  shows "(short_in_closest ws rs = [] \<longleftrightarrow> ONE_WAREHOUSE_PER_ORDER ws rs \<noteq> []) \<and>
     (short_in_warehouse ws i rs = [] \<longrightarrow> fixed_warehouse i ws rs \<noteq> []) \<and>
     list_all (\<lambda>w. length (short_in_closest ws rs) \<le> length (short_in w rs)) ws"
proof (intro conjI)
  note fold = closest_fold [of rs ws "map rq_variant rs"]
  show "short_in_closest ws rs = [] \<longleftrightarrow> ONE_WAREHOUSE_PER_ORDER ws rs \<noteq> []"
  proof
    assume "short_in_closest ws rs = []"
    with fold assms obtain w where "w \<in> set ws" "short_in w rs = []"
      unfolding short_in_closest_def by (metis Nil_is_map_conv)
    then show "ONE_WAREHOUSE_PER_ORDER ws rs \<noteq> []"
      by (auto simp: ONE_WAREHOUSE_PER_ORDER_def filter_empty_conv)
  next
    assume "ONE_WAREHOUSE_PER_ORDER ws rs \<noteq> []"
    then obtain w where "w \<in> set ws" "short_in w rs = []"
      by (auto simp: ONE_WAREHOUSE_PER_ORDER_def filter_empty_conv)
    with fold show "short_in_closest ws rs = []" unfolding short_in_closest_def by fastforce
  qed
  show "short_in_warehouse ws i rs = [] \<longrightarrow> fixed_warehouse i ws rs \<noteq> []"
    using assms by (auto simp: short_in_warehouse_def fixed_warehouse_def filter_empty_conv find_Some_iff
        split: option.splits)
  show "list_all (\<lambda>w. length (short_in_closest ws rs) \<le> length (short_in w rs)) ws"
    using fold by (auto simp: list_all_iff short_in_closest_def)
qed

end
