(* ===== verification/Stock.thy ===== *)
theory Stock
  imports Allocation
begin

text \<open>
  The rules of the stock: notes, receipts and adjustments (\<open>inventory/domain/stock.ts\<close>), warehouses
  (\<open>inventory/domain/warehouse.ts\<close>), and where the units of an order come back to
  (\<open>inventory/domain/restock-destinations.ts\<close>).
\<close>

definition MAX_STOCK_QUANTITY :: int where
  "MAX_STOCK_QUANTITY = 100000"

datatype movement_type = RECEIPT | ADJUSTMENT | SALE | RESTOCK

datatype movement_reason =
    PHYSICAL_COUNT | DAMAGED | LOSS_OR_THEFT | INTERNAL_USE | DATA_ENTRY_ERROR | OTHER
  | WAREHOUSE_TRANSFER | ORDER_CANCELLED | SHIPMENT_RETURNED

text \<open>The reasons of an adjustment are the first seven; the last two are those of a restock.\<close>

definition ADJUSTMENT_REASONS :: "movement_reason list" where
  "ADJUSTMENT_REASONS =
     [PHYSICAL_COUNT, DAMAGED, LOSS_OR_THEFT, INTERNAL_USE, DATA_ENTRY_ERROR, OTHER, WAREHOUSE_TRANSFER]"

definition DECREASE_ONLY :: "movement_reason set" where
  "DECREASE_ONLY = {DAMAGED, LOSS_OR_THEFT, INTERNAL_USE}"

text \<open>A note that is missing, null or blank is no note.\<close>

definition note_of :: "string option \<Rightarrow> string option" where
  "note_of note =
     (let trimmed = (case note of Some n \<Rightarrow> js_trim n | None \<Rightarrow> [])
      in if trimmed = [] then None else Some trimmed)"

definition receipt_quantity :: "js_number \<Rightarrow> int result" where
  "receipt_quantity quantity =
     (case quantity of
        NotWhole \<Rightarrow> Inl (InvalidValueError ''A receipt brings 1 to 100000 units'')
      | Whole q \<Rightarrow>
          if q < 1 \<or> q > MAX_STOCK_QUANTITY
          then Inl (InvalidValueError ''A receipt brings 1 to 100000 units'') else Inr q)"

definition check_adjustment :: "js_number \<Rightarrow> movement_reason \<Rightarrow> string option \<Rightarrow> unit result" where
  "check_adjustment quantity reason note =
     (case quantity of
        NotWhole \<Rightarrow> Inl (InvalidValueError ''An adjustment moves 1 to 100000 units, up or down'')
      | Whole q \<Rightarrow>
          if q = 0 \<or> \<bar>q\<bar> > MAX_STOCK_QUANTITY
          then Inl (InvalidValueError ''An adjustment moves 1 to 100000 units, up or down'')
          else if reason \<in> DECREASE_ONLY \<and> q > 0 then Inl (StockError AdjustmentDirectionError)
          else if reason = OTHER \<and> note = None then Inl (StockError AdjustmentNoteRequiredError)
          else Inr ())"

lemma receipt_quantity_Inr [res_simps]:
  "receipt_quantity n = Inr q \<longleftrightarrow> n = Whole q \<and> 1 \<le> q \<and> q \<le> MAX_STOCK_QUANTITY"
  by (auto simp: receipt_quantity_def split: js_number.split)

lemma check_adjustment_Inr [res_simps]:
  "check_adjustment n reason note = Inr u \<longleftrightarrow>
     (\<exists>q. n = Whole q \<and> q \<noteq> 0 \<and> \<bar>q\<bar> \<le> MAX_STOCK_QUANTITY \<and>
        (reason \<in> DECREASE_ONLY \<longrightarrow> q < 0) \<and> (reason = OTHER \<longrightarrow> note \<noteq> None))"
  by (cases n) (auto simp: check_adjustment_def)

lemma note_of_not_blank: "note_of note = Some n \<Longrightarrow> n \<noteq> [] \<and> js_trim n = n"
  by (auto simp: note_of_def Let_def split: if_splits option.splits)

section \<open>Warehouses\<close>

datatype warehouse_status = ActiveWarehouse | InactiveWarehouse

record warehouse =
  wh_id :: id
  wh_code :: string
  wh_name :: string
  wh_address :: "string option"
  wh_status :: warehouse_status
  wh_priority :: int

definition MAX_WAREHOUSE_NAME_LENGTH :: nat where
  "MAX_WAREHOUSE_NAME_LENGTH = 100"

definition code_char :: "char \<Rightarrow> bool" where
  "code_char c = (let n = of_char c :: nat in (65 \<le> n \<and> n \<le> 90) \<or> (48 \<le> n \<and> n \<le> 57))"

text \<open>\<open>/^[A-Z0-9][A-Z0-9-]{1,19}$/\<close>\<close>

definition warehouse_code :: "string \<Rightarrow> bool" where
  "warehouse_code s =
     (case s of
        [] \<Rightarrow> False
      | c # cs \<Rightarrow> code_char c \<and> 1 \<le> length cs \<and> length cs \<le> 19
          \<and> list_all (\<lambda>x. code_char x \<or> x = CHR ''-'') cs)"

definition warehouse_valid_name :: "string \<Rightarrow> string result" where
  "warehouse_valid_name name =
     (let trimmed = js_trim name
      in if trimmed = [] \<or> length trimmed > MAX_WAREHOUSE_NAME_LENGTH
         then Inl (InvalidValueError ''A warehouse name has 1 to 100 characters'') else Inr trimmed)"

definition valid_priority :: "js_number \<Rightarrow> int result" where
  "valid_priority priority =
     (case priority of
        NotWhole \<Rightarrow> Inl (InvalidValueError ''A warehouse priority is a whole number from 1 to 1000'')
      | Whole p \<Rightarrow>
          if p < 1 \<or> p > 1000
          then Inl (InvalidValueError ''A warehouse priority is a whole number from 1 to 1000'')
          else Inr p)"

definition create_warehouse ::
  "id \<Rightarrow> string \<Rightarrow> string \<Rightarrow> string option \<Rightarrow> js_number \<Rightarrow> warehouse result" where
  "create_warehouse i code name address priority =
     (if \<not> warehouse_code code
      then Inl (InvalidValueError ''A warehouse code has 2 to 20 capital letters, digits and hyphens'')
      else
        res_bind (warehouse_valid_name name) (\<lambda>valid_name.
        res_bind (valid_priority priority) (\<lambda>valid_prio.
          Inr \<lparr>wh_id = i, wh_code = code, wh_name = valid_name, wh_address = address,
               wh_status = ActiveWarehouse, wh_priority = valid_prio\<rparr>)))"

definition wh_is_active :: "warehouse \<Rightarrow> bool" where
  "wh_is_active w = (wh_status w = ActiveWarehouse)"

text \<open>A change that is not given leaves the field; an address given as null takes it away.\<close>

definition describe_warehouse ::
  "string option \<Rightarrow> string option option \<Rightarrow> warehouse \<Rightarrow> warehouse result" where
  "describe_warehouse name address w =
     res_bind (case name of None \<Rightarrow> Inr (wh_name w) | Some n \<Rightarrow> warehouse_valid_name n) (\<lambda>new_name.
       Inr (w\<lparr>wh_name := new_name,
              wh_address := (case address of None \<Rightarrow> wh_address w | Some a \<Rightarrow> a)\<rparr>))"

definition prioritize_warehouse :: "js_number \<Rightarrow> warehouse \<Rightarrow> warehouse result" where
  "prioritize_warehouse priority w =
     res_bind (valid_priority priority) (\<lambda>p. Inr (w\<lparr>wh_priority := p\<rparr>))"

definition deactivate_warehouse :: "int \<Rightarrow> int \<Rightarrow> warehouse \<Rightarrow> warehouse result" where
  "deactivate_warehouse active_warehouses reserved_units w =
     (if \<not> wh_is_active w then Inl (InvalidStateTransitionError ''INACTIVE'' ''deactivate'')
      else if active_warehouses \<le> 1 then Inl (StockError LastActiveWarehouseError)
      else if reserved_units > 0 then Inl (ResourceInUseError ''Warehouse holds units for orders'')
      else Inr (w\<lparr>wh_status := InactiveWarehouse\<rparr>))"

definition wf_warehouse :: "warehouse \<Rightarrow> bool" where
  "wf_warehouse w \<longleftrightarrow>
     warehouse_code (wh_code w) \<and> wh_name w \<noteq> [] \<and> js_trim (wh_name w) = wh_name w \<and>
     length (wh_name w) \<le> MAX_WAREHOUSE_NAME_LENGTH \<and> 1 \<le> wh_priority w \<and> wh_priority w \<le> 1000"

lemma warehouse_valid_name_Inr [res_simps]:
  "warehouse_valid_name n = Inr m \<longleftrightarrow>
     m = js_trim n \<and> m \<noteq> [] \<and> length m \<le> MAX_WAREHOUSE_NAME_LENGTH"
  by (auto simp: warehouse_valid_name_def Let_def)

lemma valid_priority_Inr [res_simps]:
  "valid_priority n = Inr p \<longleftrightarrow> n = Whole p \<and> 1 \<le> p \<and> p \<le> 1000"
  by (cases n) (auto simp: valid_priority_def)

datatype warehouse_event =
    Describe "string option" "string option option"
  | Prioritize js_number
  | Deactivate int int

fun warehouse_step :: "warehouse \<Rightarrow> warehouse_event \<Rightarrow> warehouse result" where
  "warehouse_step w (Describe name address) = describe_warehouse name address w"
| "warehouse_step w (Prioritize priority) = prioritize_warehouse priority w"
| "warehouse_step w (Deactivate active reserved_units) = deactivate_warehouse active reserved_units w"

lemma create_warehouse_wf: "create_warehouse i code name address p = Inr w \<Longrightarrow> wf_warehouse w"
  by (auto simp: create_warehouse_def res_simps wf_warehouse_def)

interpretation warehouse_life: status_machine warehouse_step wf_warehouse wh_status
    "{(ActiveWarehouse, InactiveWarehouse)}"
proof unfold_locales
  show "wf_warehouse t" if "wf_warehouse w" and "warehouse_step w ev = Inr t" for w ev t
    using that by (cases ev) (auto simp: describe_warehouse_def prioritize_warehouse_def
        deactivate_warehouse_def res_simps wf_warehouse_def split: option.splits if_splits)
  show "wh_status t = wh_status w \<or> (wh_status w, wh_status t) \<in> {(ActiveWarehouse, InactiveWarehouse)}"
    if "wf_warehouse w" and "warehouse_step w ev = Inr t" for w ev t
    using that(2) by (cases ev) (auto simp: describe_warehouse_def prioritize_warehouse_def
        deactivate_warehouse_def wh_is_active_def res_simps split: if_splits)
qed

lemma deactivation_is_final:
  "wf_warehouse w \<Longrightarrow> wh_status w = InactiveWarehouse \<Longrightarrow>
     wh_status (run warehouse_step w evs) = InactiveWarehouse"
  using warehouse_life.run_final [of w] by simp

section \<open>Where the units of an order come back to\<close>

record restock_ask =
  ra_line :: id
  ra_variant :: id
  ra_quantity :: int

record restock_origin =
  ro_warehouse :: id
  ro_variant :: id
  ro_units :: int

record restock_destination = restock_ask +
  rd_warehouse :: id

text \<open>
  The inner loop: one line over the origins, with the units still pending. It gives the destinations,
  what is left of each origin and what is still pending at the end.
\<close>

fun line_destinations ::
  "id \<Rightarrow> id \<Rightarrow> int \<Rightarrow> restock_origin list \<Rightarrow>
     restock_destination list \<times> restock_origin list \<times> int" where
  "line_destinations line variant pending [] = ([], [], pending)"
| "line_destinations line variant pending (r # rest) =
     (if pending = 0 then ([], r # rest, pending)
      else if ro_variant r \<noteq> variant \<or> ro_units r \<le> 0 then
        (case line_destinations line variant pending rest of (ds, left, p) \<Rightarrow> (ds, r # left, p))
      else
        let units = min pending (ro_units r)
        in case line_destinations line variant (pending - units) rest of (ds, left, p) \<Rightarrow>
             (\<lparr>ra_line = line, ra_variant = variant, ra_quantity = units, rd_warehouse = ro_warehouse r\<rparr> # ds,
              r\<lparr>ro_units := ro_units r - units\<rparr> # left, p))"

fun restock_destinations ::
  "restock_ask list \<Rightarrow> restock_origin list \<Rightarrow> restock_destination list result" where
  "restock_destinations [] left = Inr []"
| "restock_destinations (l # ls) left =
     (case line_destinations (ra_line l) (ra_variant l) (ra_quantity l) left of (ds, left', pending) \<Rightarrow>
        if pending > 0 then Inl (PlainError ''Line has no warehouse to come back to'')
        else res_bind (restock_destinations ls left') (\<lambda>more. Inr (ds @ more)))"

text \<open>The room a list of origins has for a variant, in a warehouse or in all of them.\<close>

definition room :: "restock_origin list \<Rightarrow> (id \<Rightarrow> bool) \<Rightarrow> id \<Rightarrow> int" where
  "room left p v = (\<Sum>r\<leftarrow>left. if p (ro_warehouse r) \<and> ro_variant r = v then max 0 (ro_units r) else 0)"

definition taken :: "restock_destination list \<Rightarrow> (id \<Rightarrow> bool) \<Rightarrow> id \<Rightarrow> int" where
  "taken ds p v = (\<Sum>d\<leftarrow>ds. if p (rd_warehouse d) \<and> ra_variant d = v then ra_quantity d else 0)"

lemma room_Cons [simp]:
  "room (r # left) p v = (if p (ro_warehouse r) \<and> ro_variant r = v then max 0 (ro_units r) else 0) + room left p v"
  "room [] p v = 0"
  by (simp_all add: room_def)

lemma taken_simps [simp]:
  "taken [] p v = 0"
  "taken (d # ds) p v = (if p (rd_warehouse d) \<and> ra_variant d = v then ra_quantity d else 0) + taken ds p v"
  "taken (ds @ es) p v = taken ds p v + taken es p v"
  by (simp_all add: taken_def)

lemma room_nonneg [simp]: "0 \<le> room left p v"
  by (induction left) auto

lemma line_destinations_parts:
  assumes "line_destinations line variant pending left = (ds, left', p)" and "0 \<le> pending"
  shows "0 \<le> p"
    and "\<forall>d\<in>set ds. ra_line d = line \<and> ra_variant d = variant \<and> 0 < ra_quantity d \<and>
           rd_warehouse d \<in> ro_warehouse ` {r \<in> set left. ro_variant r = variant}"
    and "sum_list (map ra_quantity ds) = pending - p"
    and "taken ds q v + room left' q v = room left q v"
    and "p = max 0 (pending - room left (\<lambda>w. True) variant)"
proof -
  have "0 \<le> p \<and>
    (\<forall>d\<in>set ds. ra_line d = line \<and> ra_variant d = variant \<and> 0 < ra_quantity d \<and>
           rd_warehouse d \<in> ro_warehouse ` {r \<in> set left. ro_variant r = variant}) \<and>
    sum_list (map ra_quantity ds) = pending - p \<and>
    taken ds q v + room left' q v = room left q v \<and>
    p = max 0 (pending - room left (\<lambda>w. True) variant)"
    using assms
  proof (induction line variant pending left arbitrary: ds left' p rule: line_destinations.induct)
    case (1 line variant pending)
    then show ?case by auto
  next
    case (2 line variant pending r rest)
    show ?case
    proof (cases "pending = 0")
      case True
      with 2(3) have e: "ds = []" "left' = r # rest" "p = 0" by simp_all
      have "max 0 (0 - room (r # rest) (\<lambda>w. True) variant) = 0"
        using room_nonneg [of "r # rest" "\<lambda>w. True" variant] by linarith
      then show ?thesis unfolding e True by simp
    next
      case pending: False
      show ?thesis
      proof (cases "ro_variant r \<noteq> variant \<or> ro_units r \<le> 0")
        case True
        obtain ds1 left1 p1 where rec: "line_destinations line variant pending rest = (ds1, left1, p1)"
          by (metis prod_cases3)
        with 2(3) pending True have "ds = ds1" "left' = r # left1" "p = p1" by auto
        with 2(1) [OF pending True rec 2(4)] True show ?thesis by auto
      next
        case False
        define units where "units = min pending (ro_units r)"
        obtain ds1 left1 p1
          where rec: "line_destinations line variant (pending - units) rest = (ds1, left1, p1)"
          by (metis prod_cases3)
        have u: "0 < units" "units \<le> pending" "units \<le> ro_units r"
          using False pending 2(4) by (auto simp: units_def)
        from 2(3) pending False rec have e:
          "ds = \<lparr>ra_line = line, ra_variant = variant, ra_quantity = units, rd_warehouse = ro_warehouse r\<rparr> # ds1"
          "left' = r\<lparr>ro_units := ro_units r - units\<rparr> # left1" "p = p1"
          by (auto simp: units_def Let_def)
        have "0 \<le> pending - units" using u by simp
        note ih = 2(2) [OF pending False units_def rec this]
        have "max 0 (pending - units - room rest (\<lambda>w. True) variant)
            = max 0 (pending - (ro_units r + room rest (\<lambda>w. True) variant))"
          using u room_nonneg [of rest "\<lambda>w. True" variant] unfolding units_def by linarith
        with ih u False e show ?thesis by auto
      qed
    qed
  qed
  then show "0 \<le> p"
    and "\<forall>d\<in>set ds. ra_line d = line \<and> ra_variant d = variant \<and> 0 < ra_quantity d \<and>
           rd_warehouse d \<in> ro_warehouse ` {r \<in> set left. ro_variant r = variant}"
    and "sum_list (map ra_quantity ds) = pending - p"
    and "taken ds q v + room left' q v = room left q v"
    and "p = max 0 (pending - room left (\<lambda>w. True) variant)"
    by auto
qed

lemma restock_destinations_parts:
  assumes "restock_destinations ls left = Inr ds" and "\<forall>l\<in>set ls. 0 \<le> ra_quantity l"
  shows "taken ds q v \<le> room left q v"
    and "(\<Sum>d\<leftarrow>ds. if ra_line d = i then ra_quantity d else 0)
           = (\<Sum>l\<leftarrow>ls. if ra_line l = i then ra_quantity l else 0)"
    and "\<forall>d\<in>set ds. 0 < ra_quantity d \<and>
           (\<exists>l\<in>set ls. ra_line d = ra_line l \<and> ra_variant d = ra_variant l)"
proof -
  have "taken ds q v \<le> room left q v \<and>
    (\<Sum>d\<leftarrow>ds. if ra_line d = i then ra_quantity d else 0)
       = (\<Sum>l\<leftarrow>ls. if ra_line l = i then ra_quantity l else 0) \<and>
    (\<forall>d\<in>set ds. 0 < ra_quantity d \<and>
           (\<exists>l\<in>set ls. ra_line d = ra_line l \<and> ra_variant d = ra_variant l))"
    using assms
  proof (induction ls arbitrary: left ds)
    case Nil
    then show ?case by simp
  next
    case (Cons l ls)
    obtain ds1 left1 p where one:
      "line_destinations (ra_line l) (ra_variant l) (ra_quantity l) left = (ds1, left1, p)"
      by (metis prod_cases3)
    from Cons.prems(1) obtain more where p: "\<not> p > 0"
      and more: "restock_destinations ls left1 = Inr more" and ds: "ds = ds1 @ more"
      by (auto simp: one res_simps)
    have q0: "0 \<le> ra_quantity l" using Cons.prems(2) by simp
    note line = line_destinations_parts [OF one q0]
    have "map (\<lambda>d. if ra_line d = i then ra_quantity d else 0) ds1
        = map (\<lambda>d. if ra_line l = i then ra_quantity d else 0) ds1"
      using line(2) by simp
    then have "(\<Sum>d\<leftarrow>ds1. if ra_line d = i then ra_quantity d else 0)
        = (if ra_line l = i then sum_list (map ra_quantity ds1) else 0)"
      by (simp only:) (cases "ra_line l = i"; simp)
    moreover have "sum_list (map ra_quantity ds1) = ra_quantity l" using line(1,3) p by simp
    moreover have "taken ds1 q v + room left1 q v = room left q v" by (rule line(4))
    moreover note Cons.IH [OF more] Cons.prems(2) line(2)
    ultimately show ?case by (auto simp: ds)
  qed
  then show "taken ds q v \<le> room left q v"
    and "(\<Sum>d\<leftarrow>ds. if ra_line d = i then ra_quantity d else 0)
           = (\<Sum>l\<leftarrow>ls. if ra_line l = i then ra_quantity l else 0)"
    and "\<forall>d\<in>set ds. 0 < ra_quantity d \<and>
           (\<exists>l\<in>set ls. ra_line d = ra_line l \<and> ra_variant d = ra_variant l)"
    by blast+
qed

text \<open>
  The units of an order come back whole and only where they left: each line gets destinations
  that add up to what was asked of it, and no warehouse gets back more of a variant than can still
  come back there.
\<close>

lemma restock_destinations_conserve:
  assumes "restock_destinations ls left = Inr ds" and "list_all (\<lambda>l. 0 \<le> ra_quantity l) ls"
  shows "(\<Sum>d\<leftarrow>ds. if ra_line d = i then ra_quantity d else 0)
           = (\<Sum>l\<leftarrow>ls. if ra_line l = i then ra_quantity l else 0) \<and>
     taken ds (\<lambda>w. w = warehouse) v \<le> room left (\<lambda>w. w = warehouse) v \<and>
     list_all (\<lambda>d. 0 < ra_quantity d) ds"
  using restock_destinations_parts [OF assms(1)] assms(2) by (auto simp: list_all_iff)

end
