(* ===== verification/StockLedger.thy ===== *)
theory StockLedger
  imports Stock "HOL-Library.Product_Lexorder" "HOL-Library.List_Lexorder" "HOL-Library.Char_ord"
begin

text \<open>
  The tables of the inventory and the statements the repositories run on them
  (\<open>inventory/infrastructure/prisma-reservation.repository.ts\<close>, \<open>prisma-stock-ledger.repository.ts\<close>,
  the reads of \<open>prisma-inventory.queries.ts\<close> and \<open>prisma-warehouse.repository.ts\<close>), with the constraints
  of the migration: a statement that breaks one throws, and its transaction rolls back. A statement is
  atomic, and identifiers are numbers that grow, as UUIDv7 does.
\<close>

section \<open>The tables\<close>

record stock_item =
  si_id :: id
  si_variant :: id
  si_warehouse :: id
  si_on_hand :: int
  si_reserved :: int
  si_updated_at :: time

record stock_movement =
  mv_id :: id
  mv_item :: id
  mv_type :: movement_type
  mv_quantity :: int
  mv_on_hand_after :: int
  mv_reason :: "movement_reason option"
  mv_note :: "string option"
  mv_order :: "id option"
  mv_order_line :: "id option"
  mv_actor :: "id option"
  mv_at :: time

datatype reservation_status =
  ReservationActive | ReservationCommitted | ReservationReleased | ReservationExpired

record reservation =
  rs_id :: id
  rs_order :: id
  rs_status :: reservation_status
  rs_expires_at :: time
  rs_version :: int

record reservation_line =
  rn_reservation :: id
  rn_item :: id
  rn_quantity :: int

record reservation_receipt =
  rc_reservation :: id
  rc_order :: id
  rc_expires_at :: time

record inventory =
  iv_warehouses :: "warehouse list"
  iv_items :: "stock_item list"
  iv_reservations :: "reservation list"
  iv_lines :: "reservation_line list"
  iv_movements :: "stock_movement list"
  iv_next :: id

definition MAX_INT4 :: int where
  "MAX_INT4 = 2147483647"

text \<open>The constraints of \<open>stock_items\<close>, with the range of an integer column, and of \<open>stock_movements\<close>.\<close>

definition item_ok :: "stock_item \<Rightarrow> bool" where
  "item_ok it = (0 \<le> si_reserved it \<and> si_reserved it \<le> si_on_hand it \<and> si_on_hand it \<le> MAX_INT4)"

definition movement_ok :: "stock_movement \<Rightarrow> bool" where
  "movement_ok m =
     (mv_quantity m \<noteq> 0 \<and> mv_on_hand_after m \<ge> 0 \<and>
      ((mv_type m \<in> {ADJUSTMENT, RESTOCK}) = (mv_reason m \<noteq> None)) \<and>
      (mv_type m = ADJUSTMENT \<longrightarrow> (case mv_reason m of Some r \<Rightarrow> r \<in> set ADJUSTMENT_REASONS | None \<Rightarrow> True)) \<and>
      (mv_type m = RESTOCK \<longrightarrow>
         (case mv_reason m of Some r \<Rightarrow> r \<in> {ORDER_CANCELLED, SHIPMENT_RETURNED} | None \<Rightarrow> True)) \<and>
      (case mv_reason m of Some r \<Rightarrow> r \<in> DECREASE_ONLY \<longrightarrow> mv_quantity m < 0 | None \<Rightarrow> True) \<and>
      (mv_reason m = Some OTHER \<longrightarrow> mv_note m \<noteq> None) \<and>
      (mv_type m = RECEIPT \<longrightarrow> mv_quantity m > 0) \<and>
      (mv_type m = SALE \<longrightarrow> mv_quantity m < 0) \<and>
      (mv_type m = RESTOCK \<longrightarrow> mv_quantity m > 0 \<and> mv_order m \<noteq> None \<and> mv_order_line m \<noteq> None))"

text \<open>\<open>UPDATE stock_items SET ... WHERE ...\<close>, which breaks a constraint or updates every row it selects.\<close>

definition update_items ::
  "(stock_item \<Rightarrow> bool) \<Rightarrow> (stock_item \<Rightarrow> stock_item) \<Rightarrow> inventory \<Rightarrow> inventory result" where
  "update_items p f s =
     (if \<exists>it\<in>set (iv_items s). p it \<and> \<not> item_ok (f it)
      then Inl (PlainError ''stock_items_reserved_check'')
      else Inr (s\<lparr>iv_items := map (\<lambda>it. if p it then f it else it) (iv_items s)\<rparr>))"

definition insert_movements :: "stock_movement list \<Rightarrow> inventory \<Rightarrow> inventory result" where
  "insert_movements ms s =
     (if \<exists>m\<in>set ms. \<not> movement_ok m then Inl (PlainError ''stock_movements_check'')
      else Inr (s\<lparr>iv_movements := iv_movements s @ ms\<rparr>))"

text \<open>The primary key of a reservation line is its reservation and its stock item.\<close>

definition insert_lines :: "reservation_line list \<Rightarrow> inventory \<Rightarrow> inventory result" where
  "insert_lines ls s =
     (if (\<exists>l\<in>set ls. rn_quantity l \<le> 0) \<or>
         \<not> distinct (map (\<lambda>l. (rn_reservation l, rn_item l)) (iv_lines s @ ls))
      then Inl (PlainError ''reservation_lines_check'')
      else Inr (s\<lparr>iv_lines := iv_lines s @ ls\<rparr>))"

definition find_warehouse :: "id \<Rightarrow> inventory \<Rightarrow> warehouse option" where
  "find_warehouse w s = find (\<lambda>x. wh_id x = w) (iv_warehouses s)"

section \<open>Reservations\<close>

definition open_reservation ::
  "id \<Rightarrow> time \<Rightarrow> inventory \<Rightarrow> bool \<times> reservation_receipt \<times> inventory" where
  "open_reservation order expires_at s =
     (case find (\<lambda>r. rs_order r = order \<and> rs_status r = ReservationActive) (iv_reservations s) of
        Some r \<Rightarrow> (False, \<lparr>rc_reservation = rs_id r, rc_order = rs_order r, rc_expires_at = rs_expires_at r\<rparr>, s)
      | None \<Rightarrow>
          (True, \<lparr>rc_reservation = iv_next s, rc_order = order, rc_expires_at = expires_at\<rparr>,
           s\<lparr>iv_reservations := iv_reservations s @
                [\<lparr>rs_id = iv_next s, rs_order = order, rs_status = ReservationActive,
                  rs_expires_at = expires_at, rs_version = 1\<rparr>],
             iv_next := iv_next s + 1\<rparr>))"

text \<open>
  One turn of the loop of \<open>reserve\<close>: the conditional update of one stock item, which counts the rows
  it changed. The loop keeps the lines reserved so far and the variants still short.
\<close>

definition reserve_item ::
  "id \<Rightarrow> time \<Rightarrow> (id \<rightharpoonup> int) \<Rightarrow> reservation_line list \<times> id list \<times> inventory \<Rightarrow> stock_item \<Rightarrow>
     (reservation_line list \<times> id list \<times> inventory) result" where
  "reserve_item reservation at wanted st item =
     (case st of (reserved, short, s) \<Rightarrow>
        let quantity = (case wanted (si_variant item) of Some q \<Rightarrow> q | None \<Rightarrow> 0);
            has = (\<lambda>it. si_id it = si_id item \<and> si_on_hand it - si_reserved it \<ge> quantity)
        in res_bind (update_items has
                       (\<lambda>it. it\<lparr>si_reserved := si_reserved it + quantity, si_updated_at := at\<rparr>) s) (\<lambda>s'.
             if length (filter has (iv_items s)) = 1
             then Inr (reserved @ [\<lparr>rn_reservation = reservation, rn_item = si_id item, rn_quantity = quantity\<rparr>],
                       removeAll (si_variant item) short, s')
             else Inr (reserved, short, s')))"

text \<open>A \<open>Map\<close> made of the requests keeps the last quantity of a variant.\<close>

definition wanted_of :: "stock_request list \<Rightarrow> id \<rightharpoonup> int" where
  "wanted_of requests = map_of (rev (map (\<lambda>r. (rq_variant r, rq_quantity r)) requests))"

definition reserve_in ::
  "id \<Rightarrow> id \<Rightarrow> stock_request list \<Rightarrow> time \<Rightarrow> inventory \<Rightarrow> (id list \<times> inventory) result" where
  "reserve_in reservation warehouse_id requests at s =
     (case find_warehouse warehouse_id s of
        Some w \<Rightarrow>
          if \<not> wh_is_active w then Inr (map rq_variant requests, s)
          else
            let wanted = wanted_of requests;
                items = sort_key si_id
                  (filter (\<lambda>it. si_warehouse it = warehouse_id \<and> si_variant it \<in> rq_variant ` set requests)
                     (iv_items s))
            in res_bind (res_fold (reserve_item reservation at wanted)
                           ([], remdups (map rq_variant requests), s) items)
                 (\<lambda>(reserved, short, s').
                    res_bind (if short = [] then insert_lines reserved s' else Inr s') (\<lambda>s''.
                      Inr (filter (\<lambda>v. v \<in> set short) (map rq_variant requests), s'')))
      | None \<Rightarrow> Inr (map rq_variant requests, s))"

text \<open>
  Moves the active reservation of an order to another status and gives its lines, in ascending order
  of stock item; none when it has no active reservation.
\<close>

definition leave_reservation ::
  "id \<Rightarrow> reservation_status \<Rightarrow> inventory \<Rightarrow> reservation_line list option \<times> inventory" where
  "leave_reservation order status s =
     (case find (\<lambda>r. rs_order r = order \<and> rs_status r = ReservationActive) (iv_reservations s) of
        None \<Rightarrow> (None, s)
      | Some left \<Rightarrow>
          (Some (sort_key rn_item (filter (\<lambda>l. rn_reservation l = rs_id left) (iv_lines s))),
           s\<lparr>iv_reservations :=
               map (\<lambda>r. if rs_order r = order \<and> rs_status r = ReservationActive
                        then r\<lparr>rs_status := status, rs_version := rs_version r + 1\<rparr> else r)
                 (iv_reservations s)\<rparr>))"

datatype commit_outcome = CommittedNow | AlreadyCommitted | NotActive

definition commit_line ::
  "id \<Rightarrow> time \<Rightarrow> stock_movement list \<times> inventory \<Rightarrow> reservation_line \<Rightarrow>
     (stock_movement list \<times> inventory) result" where
  "commit_line order at st l =
     (case st of (movements, s) \<Rightarrow>
        res_bind (update_items (\<lambda>it. si_id it = rn_item l)
                    (\<lambda>it. it\<lparr>si_on_hand := si_on_hand it - rn_quantity l,
                             si_reserved := si_reserved it - rn_quantity l, si_updated_at := at\<rparr>) s) (\<lambda>s'.
          case find (\<lambda>it. si_id it = rn_item l) (iv_items s') of
            None \<Rightarrow> Inl (PlainError ''item is undefined'')
          | Some item \<Rightarrow>
              Inr (movements @
                     [\<lparr>mv_id = iv_next s', mv_item = rn_item l, mv_type = SALE, mv_quantity = - rn_quantity l,
                       mv_on_hand_after = si_on_hand item, mv_reason = None, mv_note = None,
                       mv_order = Some order, mv_order_line = None, mv_actor = None, mv_at = at\<rparr>],
                   s'\<lparr>iv_next := iv_next s' + 1\<rparr>)))"

definition is_committed :: "id \<Rightarrow> inventory \<Rightarrow> bool" where
  "is_committed order s =
     (length (filter (\<lambda>r. rs_order r = order \<and> rs_status r = ReservationCommitted) (iv_reservations s)) > 0)"

definition commit_reservation :: "id \<Rightarrow> time \<Rightarrow> inventory \<Rightarrow> (commit_outcome \<times> inventory) result" where
  "commit_reservation order at s =
     (case leave_reservation order ReservationCommitted s of
        (None, s1) \<Rightarrow> Inr (if is_committed order s1 then AlreadyCommitted else NotActive, s1)
      | (Some ls, s1) \<Rightarrow>
          res_bind (res_fold (commit_line order at) ([], s1) ls) (\<lambda>(movements, s2).
          res_bind (insert_movements movements s2) (\<lambda>s3. Inr (CommittedNow, s3))))"

definition free_line :: "time \<Rightarrow> inventory \<Rightarrow> reservation_line \<Rightarrow> inventory result" where
  "free_line at s l =
     update_items (\<lambda>it. si_id it = rn_item l)
       (\<lambda>it. it\<lparr>si_reserved := si_reserved it - rn_quantity l, si_updated_at := at\<rparr>) s"

definition free_reservation ::
  "id \<Rightarrow> reservation_status \<Rightarrow> time \<Rightarrow> inventory \<Rightarrow> (bool \<times> inventory) result" where
  "free_reservation order status at s =
     (case leave_reservation order status s of
        (None, s1) \<Rightarrow> Inr (False, s1)
      | (Some ls, s1) \<Rightarrow> res_bind (res_fold (free_line at) s1 ls) (\<lambda>s2. Inr (True, s2)))"

section \<open>The ledger\<close>

record stock_entry =
  se_warehouse :: id
  se_variant :: id
  se_quantity :: int
  se_note :: "string option"
  se_actor :: id
  se_at :: time

record restock_entry = stock_entry +
  se_reason :: movement_reason
  se_order :: id
  se_order_line :: id

text \<open>
  Adds the signed quantity to what is on hand, after creating the stock item when there is none;
  guarded, only when it stays at or above what is reserved.
\<close>

definition ensure_item :: "id \<Rightarrow> id \<Rightarrow> time \<Rightarrow> inventory \<Rightarrow> inventory" where
  "ensure_item variant warehouse_id at s =
     (if \<exists>it\<in>set (iv_items s). si_variant it = variant \<and> si_warehouse it = warehouse_id then s
      else s\<lparr>iv_items := iv_items s @
               [\<lparr>si_id = iv_next s, si_variant = variant, si_warehouse = warehouse_id, si_on_hand = 0,
                 si_reserved = 0, si_updated_at = at\<rparr>],
             iv_next := iv_next s + 1\<rparr>)"

definition change_stock ::
  "('e stock_entry_scheme) \<Rightarrow> bool \<Rightarrow> inventory \<Rightarrow> (stock_item option \<times> inventory) result" where
  "change_stock entry guarded s =
     (let s1 = ensure_item (se_variant entry) (se_warehouse entry) (se_at entry) s;
          here = (\<lambda>it. si_variant it = se_variant entry \<and> si_warehouse it = se_warehouse entry \<and>
                    (guarded \<longrightarrow> si_on_hand it + se_quantity entry \<ge> si_reserved it))
      in res_bind (update_items here
                     (\<lambda>it. it\<lparr>si_on_hand := si_on_hand it + se_quantity entry, si_updated_at := se_at entry\<rparr>) s1)
           (\<lambda>s2. case find here (iv_items s1) of
              None \<Rightarrow> Inr (None, s2)
            | Some it \<Rightarrow>
                Inr (Some (it\<lparr>si_on_hand := si_on_hand it + se_quantity entry, si_updated_at := se_at entry\<rparr>), s2)))"

definition record_movement ::
  "stock_item \<Rightarrow> ('e stock_entry_scheme) \<Rightarrow> movement_type \<Rightarrow> movement_reason option \<Rightarrow> (id \<times> id) option \<Rightarrow>
     inventory \<Rightarrow> (stock_movement \<times> inventory) result" where
  "record_movement stock entry type reason order s =
     (let m = \<lparr>mv_id = iv_next s, mv_item = si_id stock, mv_type = type, mv_quantity = se_quantity entry,
               mv_on_hand_after = si_on_hand stock, mv_reason = reason, mv_note = se_note entry,
               mv_order = map_option fst order, mv_order_line = map_option snd order,
               mv_actor = Some (se_actor entry), mv_at = se_at entry\<rparr>
      in res_bind (insert_movements [m] s) (\<lambda>s1. Inr (m, s1\<lparr>iv_next := iv_next s1 + 1\<rparr>)))"

definition ledger_receive :: "stock_entry \<Rightarrow> inventory \<Rightarrow> (stock_movement \<times> inventory) result" where
  "ledger_receive entry s =
     res_bind (change_stock entry False s) (\<lambda>(stock, s1).
       case stock of
         None \<Rightarrow> Inl (PlainError ''A receipt always applies'')
       | Some it \<Rightarrow> record_movement it entry RECEIPT None None s1)"

definition ledger_adjust ::
  "stock_entry \<Rightarrow> movement_reason \<Rightarrow> inventory \<Rightarrow> (stock_movement option \<times> inventory) result" where
  "ledger_adjust entry reason s =
     res_bind (change_stock entry True s) (\<lambda>(stock, s1).
       case stock of
         None \<Rightarrow> Inr (None, s1)
       | Some it \<Rightarrow>
           res_bind (record_movement it entry ADJUSTMENT (Some reason) None s1)
             (\<lambda>(m, s2). Inr (Some m, s2)))"

text \<open>
  Entries go in the order \<open>localeCompare\<close> gives the identifiers of their stock items. A missing stock
  item is the text \<open>~\<close>, a symbol, which collates before every digit and letter.
\<close>

definition item_order :: "inventory \<Rightarrow> restock_entry \<Rightarrow> nat" where
  "item_order s entry =
     (case find (\<lambda>it. si_variant it = se_variant entry \<and> si_warehouse it = se_warehouse entry) (iv_items s) of
        Some it \<Rightarrow> si_id it + 1
      | None \<Rightarrow> 0)"

definition restock_one ::
  "stock_movement list \<times> inventory \<Rightarrow> restock_entry \<Rightarrow> (stock_movement list \<times> inventory) result" where
  "restock_one st entry =
     (case st of (movements, s) \<Rightarrow>
        res_bind (change_stock entry False s) (\<lambda>(stock, s1).
          case stock of
            None \<Rightarrow> Inl (PlainError ''A restock always applies'')
          | Some it \<Rightarrow>
              res_bind (record_movement it entry RESTOCK (Some (se_reason entry))
                          (Some (se_order entry, se_order_line entry)) s1)
                (\<lambda>(m, s2). Inr (movements @ [m], s2))))"

definition ledger_restock ::
  "restock_entry list \<Rightarrow> inventory \<Rightarrow> (stock_movement list \<times> inventory) result" where
  "ledger_restock entries s =
     (if entries = [] then Inr ([], s)
      else res_fold restock_one ([], s) (sort_key (item_order s) entries))"

section \<open>Reads\<close>

definition by_priority :: "warehouse list \<Rightarrow> warehouse list" where
  "by_priority ws = sort_key (\<lambda>w. (wh_priority w, wh_code w)) ws"

definition active_stock :: "id list \<Rightarrow> inventory \<Rightarrow> warehouse_stock list" where
  "active_stock variants s =
     map (\<lambda>w. \<lparr>ws_warehouse = wh_id w,
               ws_available = map (\<lambda>it. (si_variant it, si_on_hand it - si_reserved it))
                 (filter (\<lambda>it. si_warehouse it = wh_id w \<and> si_variant it \<in> set variants) (iv_items s))\<rparr>)
       (by_priority (filter wh_is_active (iv_warehouses s)))"

definition reserved_units :: "id \<Rightarrow> inventory \<Rightarrow> int" where
  "reserved_units w s = (\<Sum>it\<leftarrow>iv_items s. if si_warehouse it = w then si_reserved it else 0)"

text \<open>
  Where the stock of an order left from: a row for each stock item it has a sale of, with the units
  that can still come back there.
\<close>

definition moved_for :: "id \<Rightarrow> movement_type \<Rightarrow> id \<Rightarrow> inventory \<Rightarrow> int" where
  "moved_for order type item s =
     (\<Sum>m\<leftarrow>iv_movements s.
        if mv_order m = Some order \<and> mv_type m = type \<and> mv_item m = item then mv_quantity m else 0)"

definition origins_of :: "id \<Rightarrow> inventory \<Rightarrow> restock_origin list" where
  "origins_of order s =
     concat (map (\<lambda>w.
        map (\<lambda>it. \<lparr>ro_warehouse = si_warehouse it, ro_variant = si_variant it,
                   ro_units = - moved_for order SALE (si_id it) s - moved_for order RESTOCK (si_id it) s\<rparr>)
          (filter (\<lambda>it. si_warehouse it = wh_id w \<and>
                     (\<exists>m\<in>set (iv_movements s). mv_order m = Some order \<and> mv_type m = SALE
                        \<and> mv_item m = si_id it)) (iv_items s)))
        (by_priority (iv_warehouses s)))"

definition restocked_of :: "id \<Rightarrow> inventory \<Rightarrow> int" where
  "restocked_of line s =
     (\<Sum>m\<leftarrow>iv_movements s. if mv_type m = RESTOCK \<and> mv_order_line m = Some line then mv_quantity m else 0)"

text \<open>The warehouses the confirmed stock of an order left from, a group per warehouse.\<close>

definition allocation_of :: "id \<Rightarrow> inventory \<Rightarrow> allocation list" where
  "allocation_of order s =
     filter (\<lambda>g. al_lines g \<noteq> [])
       (map (\<lambda>w. \<lparr>al_warehouse = wh_id w, al_lines =
          map (\<lambda>(it, l). \<lparr>rq_variant = si_variant it, rq_quantity = rn_quantity l\<rparr>)
            (sort_key (\<lambda>(it, l). si_variant it)
              (concat (map (\<lambda>r. concat (map (\<lambda>l.
                  map (\<lambda>it. (it, l)) (filter (\<lambda>it. si_id it = rn_item l \<and> si_warehouse it = wh_id w) (iv_items s)))
                  (filter (\<lambda>l. rn_reservation l = rs_id r) (iv_lines s))))
                (filter (\<lambda>r. rs_order r = order \<and> rs_status r = ReservationCommitted) (iv_reservations s)))))\<rparr>)
          (by_priority (iv_warehouses s)))"

end
