(* ===== verification/StockInvariant.thy ===== *)
theory StockInvariant
  imports StockLedger
begin

text \<open>
  What the tables of the inventory keep: each stock item has on hand what its movements add up to and
  reserved what the active reservations hold of it, between zero and what is on hand. The lemmas go
  statement by statement and loop by loop of \<open>StockLedger\<close>; a loop is followed by what it has left to do.
\<close>

definition active_ids :: "inventory \<Rightarrow> id set" where
  "active_ids s = rs_id ` {r \<in> set (iv_reservations s). rs_status r = ReservationActive}"

definition held_by :: "reservation_line list \<Rightarrow> id \<Rightarrow> int" where
  "held_by ls i = (\<Sum>l\<leftarrow>ls. if rn_item l = i then rn_quantity l else 0)"

definition held :: "inventory \<Rightarrow> id \<Rightarrow> int" where
  "held s i = held_by (filter (\<lambda>l. rn_reservation l \<in> active_ids s) (iv_lines s)) i"

definition moved :: "stock_movement list \<Rightarrow> id \<Rightarrow> int" where
  "moved ms i = (\<Sum>m\<leftarrow>ms. if mv_item m = i then mv_quantity m else 0)"

text \<open>Each movement says what was left on hand after it, from nothing.\<close>

fun running :: "int \<Rightarrow> stock_movement list \<Rightarrow> bool" where
  "running n [] = True"
| "running n (m # ms) = (mv_on_hand_after m = n + mv_quantity m \<and> running (n + mv_quantity m) ms)"

definition ledger_runs :: "stock_movement list \<Rightarrow> id \<Rightarrow> bool" where
  "ledger_runs ms i = running 0 (filter (\<lambda>m. mv_item m = i) ms)"

definition item_keys :: "inventory \<Rightarrow> (id \<times> id \<times> id) list" where
  "item_keys s = map (\<lambda>it. (si_id it, si_variant it, si_warehouse it)) (iv_items s)"

definition items_at :: "(id \<Rightarrow> int) \<Rightarrow> (id \<Rightarrow> int) \<Rightarrow> stock_item list \<Rightarrow> bool" where
  "items_at h n its \<longleftrightarrow>
     (\<forall>it\<in>set its. item_ok it \<and> si_reserved it = h (si_id it) \<and> si_on_hand it = n (si_id it))"

definition wf_keys :: "(id \<times> id \<times> id) list \<Rightarrow> bool" where
  "wf_keys ks \<longleftrightarrow> distinct (map fst ks) \<and> distinct (map snd ks)"

text \<open>The part of the invariant that identifiers and references carry.\<close>

definition wf_tables :: "inventory \<Rightarrow> bool" where
  "wf_tables s \<longleftrightarrow>
     wf_keys (item_keys s) \<and>
     distinct (map rs_id (iv_reservations s)) \<and>
     distinct (map rs_order (filter (\<lambda>r. rs_status r = ReservationActive) (iv_reservations s))) \<and>
     distinct (map (\<lambda>l. (rn_reservation l, rn_item l)) (iv_lines s)) \<and>
     (\<forall>l\<in>set (iv_lines s). 0 < rn_quantity l \<and> rn_reservation l \<in> rs_id ` set (iv_reservations s)
        \<and> rn_item l \<in> si_id ` set (iv_items s)) \<and>
     (\<forall>m\<in>set (iv_movements s). movement_ok m \<and> mv_item m \<in> si_id ` set (iv_items s)) \<and>
     (\<forall>it\<in>set (iv_items s). si_id it < iv_next s) \<and>
     (\<forall>r\<in>set (iv_reservations s). rs_id r < iv_next s)"

definition wf_inventory :: "inventory \<Rightarrow> bool" where
  "wf_inventory s \<longleftrightarrow>
     wf_tables s \<and> items_at (held s) (moved (iv_movements s)) (iv_items s) \<and>
     (\<forall>i. ledger_runs (iv_movements s) i)"

section \<open>Sums\<close>

lemma held_by_simps [simp]:
  "held_by [] i = 0"
  "held_by (l # ls) i = (if rn_item l = i then rn_quantity l else 0) + held_by ls i"
  "held_by (ls @ ks) i = held_by ls i + held_by ks i"
  by (simp_all add: held_by_def)

lemma held_by_sort [simp]: "held_by (sort_key f ls) i = held_by ls i"
  unfolding held_by_def by (rule sum_list_sort_key)

lemma held_by_nonneg: "\<forall>l\<in>set ls. 0 < rn_quantity l \<Longrightarrow> 0 \<le> held_by ls i"
  by (induction ls) auto

lemma held_by_filter_split:
  "held_by (filter p ls) i = held_by (filter (\<lambda>l. p l \<and> q l) ls) i + held_by (filter (\<lambda>l. p l \<and> \<not> q l) ls) i"
  by (induction ls) auto

lemma moved_simps [simp]:
  "moved [] i = 0"
  "moved (m # ms) i = (if mv_item m = i then mv_quantity m else 0) + moved ms i"
  "moved (ms @ ns) i = moved ms i + moved ns i"
  by (simp_all add: moved_def)

lemma running_append:
  "running n (ms @ ks) \<longleftrightarrow> running n ms \<and> running (n + (\<Sum>m\<leftarrow>ms. mv_quantity m)) ks"
proof (induction ms arbitrary: n)
  case Nil
  then show ?case by simp
next
  case (Cons m ms)
  then show ?case by (simp add: add.assoc)
qed

lemma moved_filter: "(\<Sum>m\<leftarrow>filter (\<lambda>m. mv_item m = i) ms. mv_quantity m) = moved ms i"
  by (induction ms) auto

lemma ledger_runs_append:
  "ledger_runs (ms @ [m]) i \<longleftrightarrow>
     ledger_runs ms i \<and> (mv_item m = i \<longrightarrow> mv_on_hand_after m = moved ms i + mv_quantity m)"
  by (simp add: ledger_runs_def running_append moved_filter)

section \<open>One update of the stock items\<close>

lemma update_items_parts:
  assumes "update_items p f s = Inr t"
    and "\<And>it :: stock_item. si_id (f it) = si_id it \<and> si_variant (f it) = si_variant it \<and> si_warehouse (f it) = si_warehouse it"
  shows "t = s\<lparr>iv_items := iv_items t\<rparr>" and "item_keys t = item_keys s"
    and "iv_items t = map (\<lambda>it. if p it then f it else it) (iv_items s)"
    and "\<And>it. it \<in> set (iv_items s) \<Longrightarrow> p it \<Longrightarrow> item_ok (f it)"
  using assms by (auto simp: update_items_def item_keys_def split: if_splits)

lemma item_keys_ids: "map fst (item_keys s) = map si_id (iv_items s)"
  by (simp add: item_keys_def comp_def)

lemma item_keys_ids_set: "item_keys t = item_keys s \<Longrightarrow> si_id ` set (iv_items t) = si_id ` set (iv_items s)"
  by (metis item_keys_ids set_map)

lemma item_by_id:
  "wf_keys (item_keys s) \<Longrightarrow> it \<in> set (iv_items s) \<Longrightarrow> it' \<in> set (iv_items s) \<Longrightarrow>
     si_id it = si_id it' \<Longrightarrow> it = it'"
  unfolding wf_keys_def item_keys_ids using eq_key_imp_eq_value distinct_map inj_onD by metis

lemma item_by_place:
  assumes "wf_keys (item_keys s)" and "it \<in> set (iv_items s)" and "it' \<in> set (iv_items s)"
    and "si_variant it = si_variant it'" and "si_warehouse it = si_warehouse it'"
  shows "it = it'"
proof -
  have "distinct (map (\<lambda>it. (si_variant it, si_warehouse it)) (iv_items s))"
    using assms(1) by (simp add: wf_keys_def item_keys_def comp_def)
  with assms(2-5) show ?thesis by (auto simp: distinct_map dest: inj_onD)
qed

text \<open>A row selected by its identifier: how many rows change, and what the others keep.\<close>

lemma filter_by_id:
  assumes "wf_keys (item_keys s)" and "it \<in> set (iv_items s)" and "p it"
    and "\<And>x. p x \<Longrightarrow> si_id x = si_id it"
  shows "length (filter p (iv_items s)) = 1"
proof -
  have "distinct (iv_items s)" using assms(1) by (simp add: wf_keys_def item_keys_ids distinct_map)
  moreover have "set (filter p (iv_items s)) = {it}"
    using assms item_by_id [OF assms(1)] by auto
  ultimately show ?thesis
    by (metis distinct_card distinct_filter card.empty card_insert_disjoint empty_iff finite.emptyI One_nat_def)
qed

lemma update_items_at:
  assumes "update_items p f s = Inr t" and "items_at h n (iv_items s)"
    and "\<And>it :: stock_item. si_id (f it) = si_id it \<and> si_variant (f it) = si_variant it \<and> si_warehouse (f it) = si_warehouse it"
    and "\<And>it. it \<in> set (iv_items s) \<Longrightarrow> p it \<Longrightarrow>
           si_reserved (f it) = h' (si_id it) \<and> si_on_hand (f it) = n' (si_id it)"
    and "\<And>it. it \<in> set (iv_items s) \<Longrightarrow> \<not> p it \<Longrightarrow> h' (si_id it) = h (si_id it) \<and> n' (si_id it) = n (si_id it)"
  shows "items_at h' n' (iv_items t)"
proof -
  note parts = update_items_parts [OF assms(1,3)]
  show ?thesis
    using assms(2-5) parts(4) unfolding items_at_def parts(3) by auto
qed

section \<open>The loop of a reservation\<close>

definition reserve_so_far ::
  "inventory \<Rightarrow> (id \<Rightarrow> int) \<Rightarrow> (id \<Rightarrow> int) \<Rightarrow> reservation_line list \<times> id list \<times> inventory \<Rightarrow> bool" where
  "reserve_so_far s0 h n st \<longleftrightarrow>
     (case st of (reserved, short, s) \<Rightarrow>
        s = s0\<lparr>iv_items := iv_items s\<rparr> \<and> item_keys s = item_keys s0 \<and>
        items_at (\<lambda>i. h i + held_by reserved i) n (iv_items s))"

lemma frame_items:
  fixes s0 s t :: inventory
  assumes "s = s0\<lparr>iv_items := x\<rparr>" and "t = s\<lparr>iv_items := z\<rparr>"
  shows "t = s0\<lparr>iv_items := z\<rparr>"
  unfolding assms by simp

lemma reserve_item_so_far:
  assumes "reserve_item r at wanted st item = Inr st'" and "reserve_so_far s0 h n st"
    and "wf_keys (item_keys s0)"
  shows "reserve_so_far s0 h n st'"
proof -
  obtain reserved short s where st: "st = (reserved, short, s)" by (metis prod_cases3)
  define q where "q = (case wanted (si_variant item) of Some q \<Rightarrow> q | None \<Rightarrow> 0)"
  define has :: "stock_item \<Rightarrow> bool" where "has = (\<lambda>it. si_id it = si_id item \<and> si_on_hand it - si_reserved it \<ge> q)"
  let ?f = "\<lambda>it :: stock_item. it\<lparr>si_reserved := si_reserved it + q, si_updated_at := at\<rparr>"
  have s: "s = s0\<lparr>iv_items := iv_items s\<rparr>" "item_keys s = item_keys s0"
    "items_at (\<lambda>i. h i + held_by reserved i) n (iv_items s)"
    using assms(2) by (simp_all add: reserve_so_far_def st)
  from assms(1) obtain s' where up: "update_items has ?f s = Inr s'"
    and st': "st' = (if length (filter has (iv_items s)) = 1
        then (reserved @ [\<lparr>rn_reservation = r, rn_item = si_id item, rn_quantity = q\<rparr>],
              removeAll (si_variant item) short, s')
        else (reserved, short, s'))"
    unfolding reserve_item_def st Let_def prod.case q_def [symmetric] has_def [symmetric]
    by (auto simp: res_simps split: if_splits)
  note parts = update_items_parts [OF up]
  have frame: "s' = s0\<lparr>iv_items := iv_items s'\<rparr>" "item_keys s' = item_keys s0"
    using parts(1,2) s(1,2) frame_items [OF s(1) parts(1)] by simp_all
  show ?thesis
  proof (cases "\<exists>it\<in>set (iv_items s). has it")
    case True
    then obtain it where it: "it \<in> set (iv_items s)" "has it" by blast
    have one: "length (filter has (iv_items s)) = 1"
      by (rule filter_by_id [of s it]) (use it assms(3) s(2) in \<open>auto simp: has_def\<close>)
    have "items_at (\<lambda>i. h i + held_by (reserved @ [\<lparr>rn_reservation = r, rn_item = si_id item, rn_quantity = q\<rparr>]) i)
        n (iv_items s')"
    proof (rule update_items_at [OF up s(3)])
      fix x assume x: "x \<in> set (iv_items s)" "\<not> has x"
      have "si_id x \<noteq> si_id item"
        using item_by_id [of s x it] x it assms(3) s(2) by (auto simp: has_def)
      then show "h (si_id x) + held_by (reserved @ [\<lparr>rn_reservation = r, rn_item = si_id item, rn_quantity = q\<rparr>]) (si_id x)
          = h (si_id x) + held_by reserved (si_id x) \<and> n (si_id x) = n (si_id x)" by simp
    qed (use s(3) in \<open>auto simp: items_at_def has_def\<close>)
    with one frame show ?thesis by (simp add: reserve_so_far_def st')
  next
    case False
    then have none: "filter has (iv_items s) = []" by (simp add: filter_empty_conv)
    have "iv_items s' = iv_items s" using parts(3) False by (simp add: map_idI)
    with s(3) none frame show ?thesis by (simp add: reserve_so_far_def st')
  qed
qed


lemma reserve_loop:
  assumes "res_fold (reserve_item r at wanted) st items = Inr st'" and "reserve_so_far s0 h n st"
    and "wf_keys (item_keys s0)"
  shows "reserve_so_far s0 h n st'"
  using res_fold_inv [OF assms(1), of "reserve_so_far s0 h n"] assms(2,3) reserve_item_so_far by blast

text \<open>What the loop reserved: one line for each stock item it took, and every variant it did not is short.\<close>

definition reserve_covers ::
  "id \<Rightarrow> (id \<rightharpoonup> int) \<Rightarrow> stock_item list \<Rightarrow> id list \<Rightarrow> reservation_line list \<times> id list \<times> inventory \<Rightarrow> bool" where
  "reserve_covers r wanted seen variants st \<longleftrightarrow>
     (case st of (reserved, short, s) \<Rightarrow>
        (\<forall>l\<in>set reserved. \<exists>it\<in>set seen. l = \<lparr>rn_reservation = r, rn_item = si_id it,
            rn_quantity = (case wanted (si_variant it) of Some q \<Rightarrow> q | None \<Rightarrow> 0)\<rparr>) \<and>
        (\<forall>v\<in>set variants. v \<notin> set short \<longrightarrow> (\<exists>it\<in>set seen. si_variant it = v \<and>
            \<lparr>rn_reservation = r, rn_item = si_id it,
             rn_quantity = (case wanted v of Some q \<Rightarrow> q | None \<Rightarrow> 0)\<rparr> \<in> set reserved)) \<and>
        (distinct (map si_id seen) \<longrightarrow> distinct (map rn_item reserved)))"

lemma reserve_loop_covers:
  assumes "res_fold (reserve_item r at wanted) st items = Inr st'"
    and "reserve_covers r wanted seen variants st"
  shows "reserve_covers r wanted (seen @ items) variants st'"
  using assms
proof (induction items arbitrary: st seen)
  case Nil
  then show ?case by simp
next
  case (Cons item items)
  obtain reserved short s where st: "st = (reserved, short, s)" by (metis prod_cases3)
  let ?l = "\<lparr>rn_reservation = r, rn_item = si_id item,
    rn_quantity = (case wanted (si_variant item) of Some q \<Rightarrow> q | None \<Rightarrow> 0)\<rparr>"
  from Cons.prems(1) obtain st1 where one: "reserve_item r at wanted st item = Inr st1"
    and rest: "res_fold (reserve_item r at wanted) st1 items = Inr st'"
    by (auto simp: res_simps)
  from one obtain s1 where "st1 = (reserved @ [?l], removeAll (si_variant item) short, s1) \<or>
      st1 = (reserved, short, s1)"
    unfolding reserve_item_def st Let_def prod.case by (auto simp: res_simps split: if_splits)
  moreover have "si_id item \<notin> rn_item ` set reserved" if "distinct (map si_id (seen @ [item]))"
    using that Cons.prems(2) by (auto simp: reserve_covers_def st)
  ultimately have "reserve_covers r wanted (seen @ [item]) variants st1"
    using Cons.prems(2) unfolding reserve_covers_def st by (auto 4 4)
  from Cons.IH [OF rest this] show ?case by simp
qed

section \<open>The loops that end a reservation\<close>

lemma update_one_item:
  assumes "wf_keys (item_keys s)" and "items_at (\<lambda>i. h i + held_by (l # rem) i) n (iv_items s)"
    and "\<And>i. 0 \<le> h i" and "\<forall>k\<in>set (l # rem). 0 < rn_quantity k"
    and "0 \<le> d" and "d \<le> rn_quantity l"
    and f: "f = (\<lambda>it. it\<lparr>si_on_hand := si_on_hand it - d, si_reserved := si_reserved it - rn_quantity l,
                        si_updated_at := at\<rparr>)"
  shows "\<exists>t. update_items (\<lambda>it. si_id it = rn_item l) f s = Inr t \<and>
     t = s\<lparr>iv_items := iv_items t\<rparr> \<and> item_keys t = item_keys s \<and>
     items_at (\<lambda>i. h i + held_by rem i) (\<lambda>i. n i - (if i = rn_item l then d else 0)) (iv_items t)"
proof -
  have rem: "0 \<le> h i + held_by rem i" for i
    using held_by_nonneg [of rem i] assms(3) [of i] assms(4) by simp
  have ok: "item_ok (f it)" if "it \<in> set (iv_items s)" "si_id it = rn_item l" for it
    using assms(2,5,6) that rem [of "si_id it"] by (auto simp: items_at_def item_ok_def f)
  then obtain t where up: "update_items (\<lambda>it. si_id it = rn_item l) f s = Inr t"
    unfolding update_items_def by auto
  have keys: "si_id (f it) = si_id it \<and> si_variant (f it) = si_variant it \<and> si_warehouse (f it) = si_warehouse it"
    for it by (simp add: f)
  note parts = update_items_parts [OF up keys]
  have "items_at (\<lambda>i. h i + held_by rem i) (\<lambda>i. n i - (if i = rn_item l then d else 0)) (iv_items t)"
    by (rule update_items_at [OF up assms(2) keys]) (use assms(2) in \<open>auto simp: items_at_def f\<close>)
  with up parts(1,2) show ?thesis by blast
qed

definition commit_so_far ::
  "inventory \<Rightarrow> (id \<Rightarrow> int) \<Rightarrow> reservation_line list \<Rightarrow> reservation_line list \<Rightarrow>
     stock_movement list \<times> inventory \<Rightarrow> bool" where
  "commit_so_far s0 h tot rem st \<longleftrightarrow>
     (case st of (ms, s) \<Rightarrow>
        s = s0\<lparr>iv_items := iv_items s, iv_next := iv_next s\<rparr> \<and> item_keys s = item_keys s0 \<and>
        iv_next s0 \<le> iv_next s \<and>
        items_at (\<lambda>i. h i + held_by rem i) (moved (iv_movements s0 @ ms)) (iv_items s) \<and>
        (\<forall>i. ledger_runs (iv_movements s0 @ ms) i) \<and>
        (\<forall>i. moved ms i + held_by tot i = held_by rem i) \<and>
        (\<forall>m\<in>set ms. movement_ok m \<and> mv_item m \<in> si_id ` set (iv_items s0)))"

lemma frame_items_next:
  fixes s0 s t :: inventory
  assumes "s = s0\<lparr>iv_items := x, iv_next := y\<rparr>" and "t = s\<lparr>iv_items := z\<rparr>"
  shows "t\<lparr>iv_next := k\<rparr> = s0\<lparr>iv_items := z, iv_next := k\<rparr>" and "iv_next t = iv_next s"
  unfolding assms by simp_all

lemma commit_line_so_far:
  assumes J: "commit_so_far s0 h tot (l # rem) st" and "wf_keys (item_keys s0)"
    and "\<And>i. 0 \<le> h i" and "\<forall>k\<in>set (l # rem). 0 < rn_quantity k \<and> rn_item k \<in> si_id ` set (iv_items s0)"
  shows "\<exists>st'. commit_line order at st l = Inr st' \<and> commit_so_far s0 h tot rem st'"
proof -
  obtain ms s where st: "st = (ms, s)" by (cases st)
  let ?i = "rn_item l" and ?q = "rn_quantity l"
  let ?f = "\<lambda>it :: stock_item. it\<lparr>si_on_hand := si_on_hand it - ?q, si_reserved := si_reserved it - ?q,
    si_updated_at := at\<rparr>"
  let ?n = "\<lambda>i. moved (iv_movements s0 @ ms) i - (if i = ?i then ?q else 0)"
  from J have s: "s = s0\<lparr>iv_items := iv_items s, iv_next := iv_next s\<rparr>" "item_keys s = item_keys s0"
    "iv_next s0 \<le> iv_next s" "\<forall>i. ledger_runs (iv_movements s0 @ ms) i"
    and at: "items_at (\<lambda>i. h i + held_by (l # rem) i) (moved (iv_movements s0 @ ms)) (iv_items s)"
    and sums: "\<forall>i. moved ms i + held_by tot i = held_by (l # rem) i"
    and ok: "\<forall>m\<in>set ms. movement_ok m \<and> mv_item m \<in> si_id ` set (iv_items s0)"
    by (simp_all add: commit_so_far_def st)
  obtain t where up: "update_items (\<lambda>it. si_id it = ?i) ?f s = Inr t"
    and t: "t = s\<lparr>iv_items := iv_items t\<rparr>" "item_keys t = item_keys s"
    and at': "items_at (\<lambda>i. h i + held_by rem i) ?n (iv_items t)"
    using update_one_item [of s h l rem "moved (iv_movements s0 @ ms)" ?q ?f at] at s(2) assms(2-4) by auto
  have "?i \<in> si_id ` set (iv_items t)"
    using assms(4) item_keys_ids_set t(2) s(2) by (metis list.set_intros(1))
  then obtain item where item: "find (\<lambda>it. si_id it = ?i) (iv_items t) = Some item"
    by (cases "find (\<lambda>it. si_id it = ?i) (iv_items t)") (auto simp: find_None_iff)
  then have "item \<in> set (iv_items t)" "si_id item = ?i" by (auto simp: find_Some_iff)
  with at' have on_hand: "si_on_hand item = moved (iv_movements s0 @ ms) ?i - ?q" "0 \<le> si_on_hand item"
    by (auto simp: items_at_def item_ok_def)
  let ?m = "\<lparr>mv_id = iv_next t, mv_item = ?i, mv_type = SALE, mv_quantity = - ?q,
    mv_on_hand_after = si_on_hand item, mv_reason = None, mv_note = None, mv_order = Some order,
    mv_order_line = None, mv_actor = None, mv_at = at\<rparr>"
  have line: "commit_line order at st l = Inr (ms @ [?m], t\<lparr>iv_next := iv_next t + 1\<rparr>)"
    by (simp add: commit_line_def st up item)
  have m: "movement_ok ?m" using on_hand(2) assms(4) by (auto simp: movement_ok_def)
  have fun_n: "?n = moved (iv_movements s0 @ ms @ [?m])" by (rule ext) auto
  have runs: "\<forall>i. ledger_runs (iv_movements s0 @ ms @ [?m]) i"
    using s(4) on_hand(1) ledger_runs_append [of "iv_movements s0 @ ms" ?m] by simp
  have sums': "\<forall>i. moved (ms @ [?m]) i + held_by tot i = held_by rem i"
  proof
    fix i show "moved (ms @ [?m]) i + held_by tot i = held_by rem i"
      using sums [rule_format, of i] by auto
  qed
  have frame: "t\<lparr>iv_next := iv_next t + 1\<rparr>
      = s0\<lparr>iv_items := iv_items t, iv_next := iv_next t + 1\<rparr>"
    by (rule frame_items_next [OF s(1) t(1)])
  have next_le: "iv_next s0 \<le> iv_next t + 1"
    using s(3) frame_items_next(2) [OF s(1) t(1)] by simp
  have keys: "item_keys (t\<lparr>iv_next := iv_next t + 1\<rparr>) = item_keys s0"
    using t(2) s(2) by (simp add: item_keys_def)
  show ?thesis
    unfolding line commit_so_far_def prod.case
    using frame next_le keys at' [unfolded fun_n] runs sums' ok m assms(4) by auto
qed


lemma commit_loop:
  assumes "commit_so_far s0 h tot ls st" and "wf_keys (item_keys s0)" and "\<And>i. 0 \<le> h i"
    and "\<forall>k\<in>set ls. 0 < rn_quantity k \<and> rn_item k \<in> si_id ` set (iv_items s0)"
  shows "\<exists>st'. res_fold (commit_line order at) st ls = Inr st' \<and> commit_so_far s0 h tot [] st'"
  using assms
proof (induction ls arbitrary: st)
  case Nil
  then show ?case by simp
next
  case (Cons l ls)
  from commit_line_so_far [OF Cons.prems(1,2,3,4)] obtain st1
    where "commit_line order at st l = Inr st1" "commit_so_far s0 h tot ls st1" by blast
  with Cons.IH [of st1] Cons.prems(2-4) show ?case by simp
qed

definition free_so_far ::
  "inventory \<Rightarrow> (id \<Rightarrow> int) \<Rightarrow> reservation_line list \<Rightarrow> inventory \<Rightarrow> bool" where
  "free_so_far s0 h rem s \<longleftrightarrow>
     s = s0\<lparr>iv_items := iv_items s\<rparr> \<and> item_keys s = item_keys s0 \<and>
     items_at (\<lambda>i. h i + held_by rem i) (moved (iv_movements s0)) (iv_items s)"

lemma free_loop:
  assumes "free_so_far s0 h ls s" and "wf_keys (item_keys s0)" and "\<And>i. 0 \<le> h i"
    and "\<forall>k\<in>set ls. 0 < rn_quantity k"
  shows "\<exists>t. res_fold (free_line at) s ls = Inr t \<and> free_so_far s0 h [] t"
  using assms
proof (induction ls arbitrary: s)
  case Nil
  then show ?case by simp
next
  case (Cons l ls)
  have s: "s = s0\<lparr>iv_items := iv_items s\<rparr>" "item_keys s = item_keys s0"
    "items_at (\<lambda>i. h i + held_by (l # ls) i) (moved (iv_movements s0)) (iv_items s)"
    using Cons.prems(1) by (simp_all add: free_so_far_def)
  have "0 \<le> rn_quantity l" using Cons.prems(4) by simp
  from update_one_item [OF _ s(3) Cons.prems(3,4) order_refl this refl, of at] Cons.prems(2) s(2)
  obtain t where "free_line at s l = Inr t" and t: "t = s\<lparr>iv_items := iv_items t\<rparr>" "item_keys t = item_keys s"
    and "items_at (\<lambda>i. h i + held_by ls i) (moved (iv_movements s0)) (iv_items t)"
    by (auto simp: free_line_def)
  moreover from this have "free_so_far s0 h ls t"
    using s(2) frame_items [OF s(1) t(1)] by (simp add: free_so_far_def)
  ultimately show ?case using Cons.IH [of t] Cons.prems(2-4) by simp
qed

section \<open>Ending a reservation\<close>

lemma wf_tables_frame:
  assumes "wf_tables s" and "item_keys t = item_keys s" and "iv_next s \<le> iv_next t"
    and "iv_reservations t = iv_reservations s" and "iv_lines t = iv_lines s"
    and "\<forall>m\<in>set (iv_movements t). m \<in> set (iv_movements s) \<or>
           movement_ok m \<and> mv_item m \<in> si_id ` set (iv_items s)"
  shows "wf_tables t"
proof -
  note ids = item_keys_ids_set [OF assms(2)]
  have wf: "\<forall>it\<in>set (iv_items s). si_id it < iv_next s" "\<forall>r\<in>set (iv_reservations s). rs_id r < iv_next s"
    "\<forall>m\<in>set (iv_movements s). movement_ok m \<and> mv_item m \<in> si_id ` set (iv_items s)"
    using assms(1) by (simp_all add: wf_tables_def)
  have "\<forall>i\<in>si_id ` set (iv_items t). i < iv_next t"
    using wf(1) assms(3) unfolding ids by force
  then have "\<forall>it\<in>set (iv_items t). si_id it < iv_next t" by blast
  moreover have "\<forall>r\<in>set (iv_reservations t). rs_id r < iv_next t"
    using wf(2) assms(3,4) by force
  moreover have "\<forall>m\<in>set (iv_movements t). movement_ok m \<and> mv_item m \<in> si_id ` set (iv_items s)"
    using wf(3) assms(6) by blast
  ultimately show ?thesis
    using assms(1) unfolding wf_tables_def assms(2,4,5) ids by simp
qed

lemma distinct_active_order:
  assumes "distinct (map rs_order (filter (\<lambda>r. rs_status r = ReservationActive) rs))"
    and "r \<in> set rs" "rs_status r = ReservationActive" and "q \<in> set rs" "rs_status q = ReservationActive"
    and "rs_order r = rs_order q"
  shows "r = q"
  using assms by (auto simp: distinct_map dest: inj_onD)

lemma leave_parts:
  assumes "wf_tables s" and "leave_reservation order status s = (Some ls, t)"
    and "status \<noteq> ReservationActive"
  shows "held s i = held t i + held_by ls i" and "wf_tables t"
    and "iv_items t = iv_items s" "iv_movements t = iv_movements s" "iv_next t = iv_next s"
    and "\<forall>l\<in>set ls. 0 < rn_quantity l \<and> rn_item l \<in> si_id ` set (iv_items s)" and "0 \<le> held t i"
proof -
  let ?ac = "\<lambda>r. rs_order r = order \<and> rs_status r = ReservationActive"
  define e :: "reservation \<Rightarrow> reservation"
    where "e = (\<lambda>r. if ?ac r then r\<lparr>rs_status := status, rs_version := rs_version r + 1\<rparr> else r)"
  obtain left where left: "find ?ac (iv_reservations s) = Some left"
    and ls: "ls = sort_key rn_item (filter (\<lambda>l. rn_reservation l = rs_id left) (iv_lines s))"
    and t: "t = s\<lparr>iv_reservations := map e (iv_reservations s)\<rparr>"
    using assms(2) unfolding e_def by (auto simp: leave_reservation_def split: option.splits)
  then have in_s: "left \<in> set (iv_reservations s)" "?ac left" by (auto simp: find_Some_iff)
  have ids: "map rs_id (iv_reservations t) = map rs_id (iv_reservations s)" by (simp add: t e_def)
  have only: "r = left" if "r \<in> set (iv_reservations s)" "?ac r" for r
    using distinct_active_order [of "iv_reservations s" r left] that in_s assms(1) by (auto simp: wf_tables_def)
  have ended: "e r = (if r = left then left\<lparr>rs_status := status, rs_version := rs_version left + 1\<rparr> else r)"
    if r: "r \<in> set (iv_reservations s)" for r
  proof (cases "r = left")
    case True
    show ?thesis unfolding True e_def using in_s(2) by simp
  next
    case False
    with only [OF r] have "\<not> ?ac r" by blast
    with False show ?thesis unfolding e_def by (simp only: if_False)
  qed
  have same_id: "r = q" if "r \<in> set (iv_reservations s)" "q \<in> set (iv_reservations s)" "rs_id r = rs_id q" for r q
    using assms(1) that by (auto simp: wf_tables_def distinct_map dest: inj_onD)
  have active: "active_ids t = active_ids s - {rs_id left}"
  proof (rule set_eqI)
    fix x
    have "x \<in> active_ids t \<longleftrightarrow> (\<exists>r\<in>set (iv_reservations s). rs_status (e r) = ReservationActive \<and> rs_id (e r) = x)"
      unfolding active_ids_def t by auto
    also have "\<dots> \<longleftrightarrow> (\<exists>r\<in>set (iv_reservations s). rs_status r = ReservationActive \<and> r \<noteq> left \<and> rs_id r = x)"
      using ended assms(3) by (intro bex_cong refl) auto
    also have "\<dots> \<longleftrightarrow> x \<in> active_ids s - {rs_id left}"
      using same_id in_s(1) unfolding active_ids_def by blast
    finally show "x \<in> active_ids t \<longleftrightarrow> x \<in> active_ids s - {rs_id left}" .
  qed
  have "rs_id left \<in> active_ids s" using in_s by (auto simp: active_ids_def)
  then show "held s i = held t i + held_by ls i"
    using held_by_filter_split [of "\<lambda>l. rn_reservation l \<in> active_ids s" "iv_lines s" i
        "\<lambda>l. rn_reservation l \<noteq> rs_id left"]
    unfolding held_def active ls held_by_sort
    by (auto simp: t conj_commute intro!: arg_cong [of _ _ "\<lambda>ls. held_by ls i"] filter_cong)
  have "filter (\<lambda>r. rs_status r = ReservationActive) (map e rs)
      = filter (\<lambda>r. rs_status r = ReservationActive \<and> rs_order r \<noteq> order) rs" for rs
    using assms(3) by (induction rs) (auto simp: e_def)
  then have act: "filter (\<lambda>r. rs_status r = ReservationActive) (iv_reservations t)
      = filter (\<lambda>r. rs_status r = ReservationActive \<and> rs_order r \<noteq> order) (iv_reservations s)"
    by (simp add: t)
  have "distinct (map rs_order (filter (\<lambda>r. rs_status r = ReservationActive) (iv_reservations t)))"
    using assms(1) unfolding act wf_tables_def by (auto simp: distinct_map inj_on_def)
  moreover have "rs_id ` set (iv_reservations t) = rs_id ` set (iv_reservations s)"
    using ids by (metis set_map)
  moreover have "distinct (map rs_id (iv_reservations t))"
    using assms(1) unfolding ids wf_tables_def by simp
  moreover have "\<forall>r\<in>set (iv_reservations t). rs_id r < iv_next s"
  proof
    fix r assume "r \<in> set (iv_reservations t)"
    then have "rs_id r \<in> rs_id ` set (iv_reservations s)"
      unfolding \<open>rs_id ` set (iv_reservations t) = _\<close> [symmetric] by (rule imageI)
    then show "rs_id r < iv_next s" using assms(1) unfolding wf_tables_def by auto
  qed
  moreover have "item_keys t = item_keys s" "iv_items t = iv_items s" "iv_lines t = iv_lines s"
    "iv_movements t = iv_movements s" "iv_next t = iv_next s"
    by (simp_all add: t item_keys_def)
  ultimately show "wf_tables t"
    using assms(1) unfolding wf_tables_def by simp
  show "iv_items t = iv_items s" "iv_movements t = iv_movements s" "iv_next t = iv_next s"
    by (simp_all add: t)
  show "\<forall>l\<in>set ls. 0 < rn_quantity l \<and> rn_item l \<in> si_id ` set (iv_items s)"
    using assms(1) by (auto simp: ls wf_tables_def)
  show "0 \<le> held t i"
    unfolding held_def by (rule held_by_nonneg) (use assms(1) in \<open>auto simp: t wf_tables_def\<close>)
qed


lemma held_frame:
  "iv_reservations t = iv_reservations s \<Longrightarrow> iv_lines t = iv_lines s \<Longrightarrow> held t = held s"
  by (rule ext) (simp add: held_def active_ids_def)

lemma commit_reservation_wf:
  assumes wf: "wf_inventory s"
  obtains out t where "commit_reservation order at s = Inr (out, t)" and "wf_inventory t"
    and "\<And>ls u. leave_reservation order ReservationCommitted s = (Some ls, u) \<Longrightarrow>
      out = CommittedNow \<and>
      (\<forall>i. held t i = held s i - held_by ls i \<and>
           moved (iv_movements t) i = moved (iv_movements s) i - held_by ls i)"
proof (cases "leave_reservation order ReservationCommitted s")
  case (Pair found s1)
  show thesis
  proof (cases found)
    case None
    then have "s1 = s" using Pair by (auto simp: leave_reservation_def split: option.splits)
    with None Pair wf that show thesis by (auto simp: commit_reservation_def)
  next
    case (Some ls)
    have tables: "wf_tables s" using wf by (simp add: wf_inventory_def)
    note parts = leave_parts [OF tables Pair [unfolded Some], simplified]
    have keys: "wf_keys (item_keys s1)" using parts(2) by (simp add: wf_tables_def)
    have "held s = (\<lambda>i. held s1 i + held_by ls i)" by (rule ext) (rule parts(1))
    then have start: "commit_so_far s1 (held s1) ls ls ([], s1)"
      using wf parts(3-5) by (auto simp: commit_so_far_def wf_inventory_def)
    have lines: "\<forall>k\<in>set ls. 0 < rn_quantity k \<and> rn_item k \<in> si_id ` set (iv_items s1)"
      using parts(6) by (simp add: parts(3))
    from commit_loop [OF start keys parts(7) lines, of order at] obtain ms s2
      where loop: "res_fold (commit_line order at) ([], s1) ls = Inr (ms, s2)"
        and J: "commit_so_far s1 (held s1) ls [] (ms, s2)"
      by auto
    let ?t = "s2\<lparr>iv_movements := iv_movements s2 @ ms\<rparr>"
    from J have s2: "s2 = s1\<lparr>iv_items := iv_items s2, iv_next := iv_next s2\<rparr>" "item_keys s2 = item_keys s1"
      "iv_next s1 \<le> iv_next s2" "items_at (held s1) (moved (iv_movements s1 @ ms)) (iv_items s2)"
      "\<forall>i. ledger_runs (iv_movements s1 @ ms) i"
      "\<forall>m\<in>set ms. movement_ok m \<and> mv_item m \<in> si_id ` set (iv_items s1)"
      and sums: "\<forall>i. moved ms i + held_by ls i = 0"
      by (simp_all add: commit_so_far_def)
    then have same: "iv_reservations s2 = iv_reservations s1" "iv_lines s2 = iv_lines s1"
      "iv_movements s2 = iv_movements s1"
      by (metis inventory.select_convs(3-5) inventory.surjective inventory.update_convs(2,6))+
    have "insert_movements ms s2 = Inr ?t" using s2(6) by (auto simp: insert_movements_def)
    with loop Pair Some have result: "commit_reservation order at s = Inr (CommittedNow, ?t)"
      by (simp add: commit_reservation_def)
    have "wf_tables ?t"
      by (rule wf_tables_frame [OF parts(2)]) (use s2 same in \<open>auto simp: item_keys_def\<close>)
    moreover have held: "held ?t = held s1" by (rule held_frame) (simp_all add: same)
    ultimately have "wf_inventory ?t"
      using s2(4,5) same unfolding wf_inventory_def by simp
    moreover have "moved (iv_movements ?t) i = moved (iv_movements s) i - held_by ls i" for i
      using sums [rule_format, of i] by (simp add: same parts(4))
    ultimately show thesis
      using that [OF result] held parts(1) Pair Some by simp
  qed
qed


lemma free_reservation_wf:
  assumes wf: "wf_inventory s" and status: "status \<noteq> ReservationActive"
  obtains freed t where "free_reservation order status at s = Inr (freed, t)" and "wf_inventory t"
    and "iv_movements t = iv_movements s"
    and "\<And>ls u. leave_reservation order status s = (Some ls, u) \<Longrightarrow>
      freed \<and> (\<forall>i. held t i = held s i - held_by ls i)"
proof (cases "leave_reservation order status s")
  case (Pair found s1)
  show thesis
  proof (cases found)
    case None
    then have "s1 = s" using Pair by (auto simp: leave_reservation_def split: option.splits)
    with None Pair wf that show thesis by (auto simp: free_reservation_def)
  next
    case (Some ls)
    have tables: "wf_tables s" using wf by (simp add: wf_inventory_def)
    note parts = leave_parts [OF tables Pair [unfolded Some] status]
    have keys: "wf_keys (item_keys s1)" using parts(2) by (simp add: wf_tables_def)
    have "held s = (\<lambda>i. held s1 i + held_by ls i)" by (rule ext) (rule parts(1))
    then have start: "free_so_far s1 (held s1) ls s1"
      using wf parts(3-5) by (simp add: free_so_far_def wf_inventory_def)
    from free_loop [OF start keys parts(7), of at] parts(6) obtain t
      where loop: "res_fold (free_line at) s1 ls = Inr t" and J: "free_so_far s1 (held s1) [] t"
      by auto
    from J have t: "t = s1\<lparr>iv_items := iv_items t\<rparr>" "item_keys t = item_keys s1"
      "items_at (held s1) (moved (iv_movements s1)) (iv_items t)"
      by (simp_all add: free_so_far_def)
    have same: "iv_reservations t = iv_reservations s1" "iv_lines t = iv_lines s1"
      "iv_movements t = iv_movements s1" "iv_next t = iv_next s1"
      by (subst t(1), simp)+
    have "wf_tables t" by (rule wf_tables_frame [OF parts(2)]) (use t same in auto)
    moreover have held: "held t = held s1" by (rule held_frame) (simp_all add: same)
    ultimately have "wf_inventory t"
      using t(3) wf same(3) parts(4) by (simp add: wf_inventory_def)
    moreover have "free_reservation order status at s = Inr (True, t)"
      using loop Pair Some by (simp add: free_reservation_def)
    ultimately show thesis
      using that held parts(1,4) Pair Some same(3) by simp
  qed
qed

section \<open>The ledger\<close>

lemma moved_unknown: "\<forall>m\<in>set ms. mv_item m \<noteq> i \<Longrightarrow> moved ms i = 0"
  by (induction ms) auto

lemma held_by_unknown: "\<forall>l\<in>set ls. rn_item l \<noteq> i \<Longrightarrow> held_by ls i = 0"
  by (induction ls) auto

lemma ensure_item_wf:
  assumes "wf_inventory s"
  shows "wf_inventory (ensure_item v w at s)" and "iv_movements (ensure_item v w at s) = iv_movements s"
    and "held (ensure_item v w at s) = held s"
proof -
  let ?t = "ensure_item v w at s"
  show "iv_movements ?t = iv_movements s" by (simp add: ensure_item_def)
  show held: "held ?t = held s" by (rule held_frame) (simp_all add: ensure_item_def)
  show "wf_inventory ?t"
  proof (cases "\<exists>it\<in>set (iv_items s). si_variant it = v \<and> si_warehouse it = w")
    case True
    then show ?thesis using assms by (simp add: ensure_item_def)
  next
    case False
    let ?it = "\<lparr>si_id = iv_next s, si_variant = v, si_warehouse = w, si_on_hand = 0, si_reserved = 0,
      si_updated_at = at\<rparr>"
    have t: "?t = s\<lparr>iv_items := iv_items s @ [?it], iv_next := iv_next s + 1\<rparr>"
      using False by (simp add: ensure_item_def)
    have tables: "wf_tables s" using assms by (simp add: wf_inventory_def)
    have fresh: "\<forall>it\<in>set (iv_items s). si_id it \<noteq> iv_next s" using tables by (auto simp: wf_tables_def)
    have "wf_keys (item_keys ?t)"
      using tables False fresh by (auto simp: wf_tables_def wf_keys_def item_keys_def t)
    then have "wf_tables ?t"
      using tables unfolding wf_tables_def by (auto simp: t intro: less_SucI)
    moreover have "moved (iv_movements s) (iv_next s) = 0"
      using tables fresh by (intro moved_unknown) (auto simp: wf_tables_def)
    moreover have "held s (iv_next s) = 0"
      unfolding held_def using tables fresh by (intro held_by_unknown) (auto simp: wf_tables_def)
    ultimately show ?thesis
      using assms held by (auto simp: wf_inventory_def items_at_def t item_ok_def MAX_INT4_def)
  qed
qed

text \<open>A change with the movement that records it, which both the receipts and the adjustments are.\<close>

lemma change_and_record_wf:
  assumes wf: "wf_inventory s" and change: "change_stock entry guarded s = Inr (Some it, s1)"
    and rec: "record_movement it entry type reason order s1 = Inr (m, t)"
  shows "wf_inventory t"
    and "iv_movements t = iv_movements s @ [m]" and "mv_quantity m = se_quantity entry"
    and "mv_type m = type" "mv_order m = map_option fst order" "mv_order_line m = map_option snd order"
    and "held t = held s" and "iv_reservations t = iv_reservations s"
proof -
  define u where "u = ensure_item (se_variant entry) (se_warehouse entry) (se_at entry) s"
  let ?q = "se_quantity entry"
  define here :: "stock_item \<Rightarrow> bool" where "here = (\<lambda>it. si_variant it = se_variant entry \<and>
    si_warehouse it = se_warehouse entry \<and> (guarded \<longrightarrow> si_on_hand it + ?q \<ge> si_reserved it))"
  let ?f = "\<lambda>it :: stock_item. it\<lparr>si_on_hand := si_on_hand it + ?q, si_updated_at := se_at entry\<rparr>"
  note u = ensure_item_wf [OF wf, of "se_variant entry" "se_warehouse entry" "se_at entry", folded u_def]
  have u_keys: "wf_keys (item_keys u)" and u_at: "items_at (held u) (moved (iv_movements u)) (iv_items u)"
    and u_tables: "wf_tables u"
    using u(1) by (simp_all add: wf_inventory_def wf_tables_def)
  from change obtain it0 where up: "update_items here ?f u = Inr s1"
    and it0: "find here (iv_items u) = Some it0" and it: "it = ?f it0"
    unfolding change_stock_def Let_def u_def [symmetric] here_def
    by (auto simp: res_simps split: option.splits)
  have it0_in: "it0 \<in> set (iv_items u)" "here it0" using it0 by (auto simp: find_Some_iff)
  have only: "x = it0" if "x \<in> set (iv_items u)" "here x" for x
    using item_by_place [OF u_keys that(1) it0_in(1)] that(2) it0_in(2) by (simp add: here_def)
  have m: "m = \<lparr>mv_id = iv_next s1, mv_item = si_id it, mv_type = type, mv_quantity = ?q,
      mv_on_hand_after = si_on_hand it, mv_reason = reason, mv_note = se_note entry,
      mv_order = map_option fst order, mv_order_line = map_option snd order,
      mv_actor = Some (se_actor entry), mv_at = se_at entry\<rparr>"
    and t: "t = s1\<lparr>iv_movements := iv_movements s1 @ [m], iv_next := iv_next s1 + 1\<rparr>"
    and m_ok: "movement_ok m"
    using rec by (auto simp: record_movement_def Let_def insert_movements_def res_simps)
  have keep: "si_id (?f x) = si_id x \<and> si_variant (?f x) = si_variant x \<and> si_warehouse (?f x) = si_warehouse x"
    for x by simp
  note parts = update_items_parts [OF up keep]
  have same: "iv_reservations s1 = iv_reservations u" "iv_lines s1 = iv_lines u"
    "iv_movements s1 = iv_movements u" "iv_next s1 = iv_next u"
    by (subst parts(1), simp)+
  have on_hand: "si_on_hand it0 = moved (iv_movements u) (si_id it0)"
    using u_at it0_in(1) by (simp add: items_at_def)
  have at: "items_at (held u) (moved (iv_movements u @ [m])) (iv_items s1)"
  proof (rule update_items_at [OF up u_at keep])
    fix x assume x: "x \<in> set (iv_items u)"
    show "si_reserved (?f x) = held u (si_id x) \<and> si_on_hand (?f x) = moved (iv_movements u @ [m]) (si_id x)"
      if "here x" using only [OF x that] u_at x on_hand by (simp add: items_at_def m it)
    show "held u (si_id x) = held u (si_id x) \<and> moved (iv_movements u @ [m]) (si_id x) = moved (iv_movements u) (si_id x)"
      if "\<not> here x"
    proof -
      have "si_id x \<noteq> si_id it0" using item_by_id [OF u_keys x it0_in(1)] that it0_in(2) by blast
      then show ?thesis by (simp add: m it)
    qed
  qed
  have runs: "\<forall>i. ledger_runs (iv_movements u @ [m]) i"
    using u(1) on_hand by (simp add: ledger_runs_append m it wf_inventory_def)
  have held_t: "held t = held u" by (rule held_frame) (simp_all add: t same)
  have "wf_tables t"
    by (rule wf_tables_frame [OF u_tables])
      (use parts(2) it0_in same m_ok in \<open>auto simp: t item_keys_def m it\<close>)
  then show "wf_inventory t"
    using at runs by (simp add: wf_inventory_def held_t) (simp add: t same)
  show "iv_movements t = iv_movements s @ [m]" using u(2) by (simp add: t same)
  show "held t = held s" using held_t u(3) by simp
  show "iv_reservations t = iv_reservations s" by (simp add: t same u_def ensure_item_def)
  show "mv_quantity m = ?q" "mv_type m = type" "mv_order m = map_option fst order"
    "mv_order_line m = map_option snd order"
    by (simp_all add: m)
qed

end
