(* ===== verification/Inventory.thy ===== *)
theory Inventory
  imports StockInvariant
begin

text \<open>
  The operations of the inventory: what the checkout and the payments ask of it
  (\<open>inventory/application/inventory.facade.ts\<close>), the receipts and adjustments of the staff
  (\<open>stock-entries.use-case.ts\<close>) and the deactivation of a warehouse
  (\<open>deactivate-warehouse.use-case.ts\<close>). Each runs in a transaction: an error leaves the tables as they
  were. A reservation reads the stock before it takes it, and another transaction may commit in
  between, so what it read is a parameter: the safety of a reservation does not depend on it.
\<close>

section \<open>Reserving\<close>

text \<open>Every group of a plan as one nested step, undone when one is short.\<close>

definition reserve_group ::
  "id \<Rightarrow> time \<Rightarrow> inventory \<Rightarrow> allocation \<Rightarrow> inventory result" where
  "reserve_group reservation at s g =
     res_bind (reserve_in reservation (al_warehouse g) (al_lines g) at s) (\<lambda>(short, t).
       if short \<noteq> [] then Inl (StockError (InsufficientStockError short)) else Inr t)"

definition reserve_all ::
  "id \<Rightarrow> time \<Rightarrow> allocation list \<Rightarrow> inventory \<Rightarrow> (bool \<times> inventory) result" where
  "reserve_all reservation at plan s =
     (case res_fold (reserve_group reservation at) s plan of
        Inr t \<Rightarrow> Inr (True, t)
      | Inl (StockError (InsufficientStockError short)) \<Rightarrow> Inr (False, s)
      | Inl e \<Rightarrow> Inl e)"

fun try_plans ::
  "id \<Rightarrow> time \<Rightarrow> allocation list list \<Rightarrow> inventory \<Rightarrow> (bool \<times> inventory) result" where
  "try_plans reservation at [] s = Inr (False, s)"
| "try_plans reservation at (plan # plans) s =
     res_bind (reserve_all reservation at plan s) (\<lambda>(all, t).
       if all then Inr (True, t) else try_plans reservation at plans t)"

definition policy_for ::
  "id option \<Rightarrow> warehouse_stock list \<Rightarrow> stock_request list \<Rightarrow> allocation list list" where
  "policy_for warehouse_id =
     (case warehouse_id of None \<Rightarrow> ONE_WAREHOUSE_PER_ORDER | Some w \<Rightarrow> fixed_warehouse w)"

definition short_of :: "warehouse_stock list \<Rightarrow> stock_request list \<Rightarrow> id option \<Rightarrow> id list" where
  "short_of warehouses requests warehouse_id =
     (case warehouse_id of
        None \<Rightarrow> short_in_closest warehouses requests
      | Some w \<Rightarrow> short_in_warehouse warehouses w requests)"

text \<open>
  \<open>seen\<close> is the stock read before reserving and \<open>seen_after\<close> the one read to say what is short.
\<close>

definition reserve_seeing ::
  "warehouse_stock list \<Rightarrow> warehouse_stock list \<Rightarrow> id \<Rightarrow> stock_request list \<Rightarrow> id option \<Rightarrow> int \<Rightarrow> time \<Rightarrow>
     inventory \<Rightarrow> (reservation_receipt \<times> inventory) result" where
  "reserve_seeing seen seen_after order merged warehouse_id ttl now s =
     (case open_reservation order (now + ttl * 1000) s of (opened, receipt, s1) \<Rightarrow>
        if \<not> opened then Inr (receipt, s1)
        else
          res_bind (try_plans (rc_reservation receipt) now (policy_for warehouse_id seen merged) s1) (\<lambda>(all, s2).
            if all then Inr (receipt, s2)
            else Inl (StockError (InsufficientStockError (short_of seen_after merged warehouse_id)))))"

definition reserve_order ::
  "id \<Rightarrow> (id \<times> js_number) list \<Rightarrow> id option \<Rightarrow> int \<Rightarrow> time \<Rightarrow> inventory \<Rightarrow>
     (reservation_receipt \<times> inventory) result" where
  "reserve_order order requests warehouse_id ttl now s =
     res_bind (merged_requests requests) (\<lambda>merged.
       if merged = [] then Inl (InvalidValueError ''A reservation needs at least one line'')
       else
         let seen = active_stock (map rq_variant merged) s
         in reserve_seeing seen seen order merged warehouse_id ttl now s)"

definition can_fulfill :: "(id \<times> js_number) list \<Rightarrow> inventory \<Rightarrow> (id \<times> bool) list result" where
  "can_fulfill requests s =
     res_bind (merged_requests requests) (\<lambda>merged.
       if merged = [] then Inr []
       else Inr (fulfillable_alone (active_stock (map rq_variant merged) s) merged))"

definition can_fulfill_together ::
  "(id \<times> js_number) list \<Rightarrow> id option \<Rightarrow> inventory \<Rightarrow> (id \<times> bool) list result" where
  "can_fulfill_together requests warehouse_id s =
     res_bind (merged_requests requests) (\<lambda>merged.
       if merged = [] then Inr []
       else
         let short = short_of (active_stock (map rq_variant merged) s) merged warehouse_id
         in Inr (map (\<lambda>r. (rq_variant r, rq_variant r \<notin> set short)) merged))"

definition is_active_warehouse :: "id \<Rightarrow> inventory \<Rightarrow> bool" where
  "is_active_warehouse w s = (case find_warehouse w s of Some x \<Rightarrow> wh_is_active x | None \<Rightarrow> False)"

section \<open>Restocking\<close>

record restock_line_in =
  rl_in_line :: id
  rl_in_variant :: id
  rl_in_sold :: int
  rl_in_quantity :: js_number

record restock_input =
  rs_in_order :: id
  rs_in_reason :: movement_reason
  rs_in_note :: "string option"
  rs_in_actor :: id
  rs_in_lines :: "restock_line_in list"
  rs_in_warehouse :: "id option"

definition units_of :: "restock_line_in \<Rightarrow> int" where
  "units_of l = (case rl_in_quantity l of Whole q \<Rightarrow> q | NotWhole \<Rightarrow> 0)"

definition asks_of :: "restock_line_in list \<Rightarrow> restock_ask list" where
  "asks_of ls =
     map (\<lambda>l. \<lparr>ra_line = rl_in_line l, ra_variant = rl_in_variant l, ra_quantity = units_of l\<rparr>) ls"

text \<open>How each line stands against what it sold, and those that would bring back more.\<close>

definition restock_limits :: "bool \<Rightarrow> restock_line_in list \<Rightarrow> inventory \<Rightarrow> restock_limit list" where
  "restock_limits committed ls s =
     filter (\<lambda>x. limit_restocked x + limit_requested x > limit_sold x)
       (map (\<lambda>l. \<lparr>limit_line = rl_in_line l, limit_sold = (if committed then rl_in_sold l else 0),
                  limit_restocked = restocked_of (rl_in_line l) s, limit_requested = units_of l\<rparr>) ls)"

definition to_warehouse ::
  "id \<Rightarrow> restock_ask list \<Rightarrow> inventory \<Rightarrow> restock_destination list result" where
  "to_warehouse w ls s =
     (if \<not> is_active_warehouse w s then Inl (NotFoundError ''Warehouse'' w)
      else Inr (map (\<lambda>l. restock_ask.extend l \<lparr>rd_warehouse = w\<rparr>) ls))"

definition restock_order ::
  "restock_input \<Rightarrow> time \<Rightarrow> inventory \<Rightarrow> (stock_movement list \<times> inventory) result" where
  "restock_order i now s =
     (let ids = map rl_in_line (rs_in_lines i) in
      if ids = [] then Inl (InvalidValueError ''A restock needs at least one line'')
      else if \<not> distinct ids then Inl (InvalidValueError ''A restock names each line once'')
      else if \<exists>l\<in>set (rs_in_lines i). \<not> whole_satisfying (\<lambda>q. q \<ge> 1) (rl_in_quantity l)
      then Inl (InvalidValueError ''A restock brings back a whole number of units above zero'')
      else
        let beyond = restock_limits (is_committed (rs_in_order i) s) (rs_in_lines i) s
        in if beyond \<noteq> [] then Inl (StockError (RestockLimitError beyond))
           else
             res_bind (case rs_in_warehouse i of
                         None \<Rightarrow> restock_destinations (asks_of (rs_in_lines i)) (origins_of (rs_in_order i) s)
                       | Some w \<Rightarrow> to_warehouse w (asks_of (rs_in_lines i)) s) (\<lambda>destinations.
               ledger_restock
                 (map (\<lambda>d. \<lparr>se_warehouse = rd_warehouse d, se_variant = ra_variant d,
                            se_quantity = ra_quantity d, se_note = note_of (rs_in_note i),
                            se_actor = rs_in_actor i, se_at = now, se_reason = rs_in_reason i,
                            se_order = rs_in_order i, se_order_line = ra_line d\<rparr>) destinations) s))"

section \<open>Receipts and adjustments\<close>

text \<open>Whether the variant exists is the catalog's answer.\<close>

definition receive_stock ::
  "(id \<Rightarrow> bool) \<Rightarrow> id \<Rightarrow> id \<Rightarrow> js_number \<Rightarrow> string option \<Rightarrow> id \<Rightarrow> time \<Rightarrow> inventory \<Rightarrow>
     (stock_movement \<times> inventory) result" where
  "receive_stock variant_exists variant warehouse_id quantity note staff now s =
     res_bind (receipt_quantity quantity) (\<lambda>q.
       if \<not> variant_exists variant then Inl (NotFoundError ''Variant'' variant)
       else if \<not> is_active_warehouse warehouse_id s then Inl (NotFoundError ''Warehouse'' warehouse_id)
       else ledger_receive
              \<lparr>se_warehouse = warehouse_id, se_variant = variant, se_quantity = q,
               se_note = note_of note, se_actor = staff, se_at = now\<rparr> s)"

definition adjust_stock ::
  "(id \<Rightarrow> bool) \<Rightarrow> id \<Rightarrow> id \<Rightarrow> js_number \<Rightarrow> movement_reason \<Rightarrow> string option \<Rightarrow> id \<Rightarrow> time \<Rightarrow> inventory \<Rightarrow>
     (stock_movement \<times> inventory) result" where
  "adjust_stock variant_exists variant warehouse_id quantity reason note staff now s =
     res_bind (check_adjustment quantity reason (note_of note)) (\<lambda>_.
       if \<not> variant_exists variant then Inl (NotFoundError ''Variant'' variant)
       else if find_warehouse warehouse_id s = None then Inl (NotFoundError ''Warehouse'' warehouse_id)
       else
         res_bind (ledger_adjust
                     \<lparr>se_warehouse = warehouse_id, se_variant = variant,
                      se_quantity = (case quantity of Whole q \<Rightarrow> q | NotWhole \<Rightarrow> 0),
                      se_note = note_of note, se_actor = staff, se_at = now\<rparr> reason s) (\<lambda>(m, t).
           case m of
             None \<Rightarrow> Inl (StockError (InsufficientStockError [variant]))
           | Some movement \<Rightarrow> Inr (movement, t)))"

definition save_warehouse :: "warehouse \<Rightarrow> inventory \<Rightarrow> inventory" where
  "save_warehouse w s =
     s\<lparr>iv_warehouses := map (\<lambda>x. if wh_id x = wh_id w then w else x) (iv_warehouses s)\<rparr>"

definition deactivate_warehouse_in :: "id \<Rightarrow> inventory \<Rightarrow> inventory result" where
  "deactivate_warehouse_in w s =
     (let active = filter wh_is_active (iv_warehouses s)
      in case (case find (\<lambda>x. wh_id x = w) active of Some x \<Rightarrow> Some x | None \<Rightarrow> find_warehouse w s) of
           None \<Rightarrow> Inl (NotFoundError ''Warehouse'' w)
         | Some x \<Rightarrow>
             res_bind (deactivate_warehouse (int (length active))
                         (if wh_is_active x then reserved_units w s else 0) x)
               (\<lambda>x'. Inr (save_warehouse x' s)))"

section \<open>What happens to the inventory\<close>

datatype inventory_event =
    Reserve "warehouse_stock list" "warehouse_stock list" id "(id \<times> js_number) list" "id option" int time
  | CommitOrder id time
  | ReleaseOrder id time
  | ExpireOrder id time
  | Receive id id js_number "string option" id time
  | Adjust id id js_number movement_reason "string option" id time
  | Restock restock_input time
  | DeactivateWarehouse id

fun inventory_step :: "(id \<Rightarrow> bool) \<Rightarrow> inventory \<Rightarrow> inventory_event \<Rightarrow> inventory result" where
  "inventory_step ex s (Reserve seen seen_after order requests w ttl now) =
     res_bind (merged_requests requests) (\<lambda>merged.
       if merged = [] then Inl (InvalidValueError ''A reservation needs at least one line'')
       else res_bind (reserve_seeing seen seen_after order merged w ttl now s) (\<lambda>(receipt, t). Inr t))"
| "inventory_step ex s (CommitOrder order now) =
     res_bind (commit_reservation order now s) (\<lambda>(outcome, t). Inr t)"
| "inventory_step ex s (ReleaseOrder order now) =
     res_bind (free_reservation order ReservationReleased now s) (\<lambda>(freed, t). Inr t)"
| "inventory_step ex s (ExpireOrder order now) =
     res_bind (free_reservation order ReservationExpired now s) (\<lambda>(freed, t). Inr t)"
| "inventory_step ex s (Receive v w q note staff now) =
     res_bind (receive_stock ex v w q note staff now s) (\<lambda>(m, t). Inr t)"
| "inventory_step ex s (Adjust v w q reason note staff now) =
     res_bind (adjust_stock ex v w q reason note staff now s) (\<lambda>(m, t). Inr t)"
| "inventory_step ex s (Restock i now) = res_bind (restock_order i now s) (\<lambda>(ms, t). Inr t)"
| "inventory_step ex s (DeactivateWarehouse w) = deactivate_warehouse_in w s"

section \<open>A reservation keeps the tables well formed\<close>

text \<open>The tables with an active reservation that may still take lines.\<close>

definition takes_lines :: "id \<Rightarrow> inventory \<Rightarrow> bool" where
  "takes_lines r s \<longleftrightarrow> wf_inventory s \<and> r \<in> active_ids s"

lemma reserve_loop_short:
  "res_fold (reserve_item r at wanted) st items = Inr st' \<Longrightarrow>
     set (fst (snd st')) \<subseteq> set (fst (snd st))"
proof (induction items arbitrary: st)
  case Nil
  then show ?case by simp
next
  case (Cons item items)
  then obtain st1 where one: "reserve_item r at wanted st item = Inr st1"
    and "set (fst (snd st')) \<subseteq> set (fst (snd st1))" by (auto simp: res_simps)
  moreover have "set (fst (snd st1)) \<subseteq> set (fst (snd st))"
    using one by (cases st) (auto simp: reserve_item_def Let_def res_simps split: if_splits)
  ultimately show ?case by blast
qed

text \<open>What a warehouse reserved when nothing was short.\<close>

definition covers_requests ::
  "id \<Rightarrow> id \<Rightarrow> stock_request list \<Rightarrow> inventory \<Rightarrow> reservation_line list \<Rightarrow> bool" where
  "covers_requests r w requests s new \<longleftrightarrow>
     distinct (map rn_item new) \<and>
     (\<forall>l\<in>set new. rn_reservation l = r \<and>
        (\<exists>it\<in>set (iv_items s). \<exists>q\<in>set requests. si_id it = rn_item l \<and> si_warehouse it = w \<and>
           si_variant it = rq_variant q \<and> rn_quantity l = rq_quantity q)) \<and>
     (\<forall>q\<in>set requests. \<exists>it\<in>set (iv_items s). si_variant it = rq_variant q \<and> si_warehouse it = w \<and>
        \<lparr>rn_reservation = r, rn_item = si_id it, rn_quantity = rq_quantity q\<rparr> \<in> set new)"

lemma wanted_of_request:
  "distinct (map rq_variant requests) \<Longrightarrow> q \<in> set requests \<Longrightarrow>
     wanted_of requests (rq_variant q) = Some (rq_quantity q)"
  unfolding wanted_of_def
  by (rule map_of_is_SomeI) (auto simp: rev_map [symmetric] comp_def)

lemma reserve_in_wf:
  assumes res: "reserve_in r w requests at s = Inr ([], t)" and takes: "takes_lines r s"
    and distinct: "distinct (map rq_variant requests)"
  obtains new where "takes_lines r t" and "iv_lines t = iv_lines s @ new"
    and "covers_requests r w requests s new" and "iv_movements t = iv_movements s"
    and "iv_reservations t = iv_reservations s" and "item_keys t = item_keys s"
    and "iv_warehouses t = iv_warehouses s"
proof (cases "requests = []")
  case True
  have "t = s" using res unfolding True reserve_in_def
    by (auto simp: insert_lines_def res_simps split: option.splits if_splits)
  with True takes that [of "[]"] show thesis by (simp add: covers_requests_def)
next
  case False
  let ?items = "sort_key si_id (filter (\<lambda>it. si_warehouse it = w \<and> si_variant it \<in> rq_variant ` set requests)
    (iv_items s))"
  have wf: "wf_inventory s" and tables: "wf_tables s" and active: "r \<in> active_ids s"
    using takes by (auto simp: takes_lines_def wf_inventory_def)
  have keys: "wf_keys (item_keys s)" using tables by (simp add: wf_tables_def)
  from res False obtain reserved short s' s2 where
    loop: "res_fold (reserve_item r at (wanted_of requests)) ([], remdups (map rq_variant requests), s) ?items
        = Inr (reserved, short, s')"
    and ins: "(if short = [] then insert_lines reserved s' else Inr s') = Inr t"
    and none: "filter (\<lambda>v. v \<in> set short) (map rq_variant requests) = []"
    unfolding reserve_in_def Let_def
    by (auto simp: res_simps split: option.splits if_splits)
  have "set short \<subseteq> rq_variant ` set requests"
    using reserve_loop_short [OF loop] by simp
  with none have short: "short = []" by (cases short) (auto simp: filter_empty_conv)
  have "reserve_so_far s (held s) (moved (iv_movements s)) ([], remdups (map rq_variant requests), s)"
    using wf by (simp add: reserve_so_far_def wf_inventory_def)
  from reserve_loop [OF loop this keys] have J: "s' = s\<lparr>iv_items := iv_items s'\<rparr>" "item_keys s' = item_keys s"
    "items_at (\<lambda>i. held s i + held_by reserved i) (moved (iv_movements s)) (iv_items s')"
    by (simp_all add: reserve_so_far_def)
  have "reserve_covers r (wanted_of requests) [] (map rq_variant requests)
      ([], remdups (map rq_variant requests), s)"
    by (simp add: reserve_covers_def)
  from reserve_loop_covers [OF loop this] have
    C: "\<forall>l\<in>set reserved. \<exists>it\<in>set ?items. l = \<lparr>rn_reservation = r, rn_item = si_id it,
          rn_quantity = (case wanted_of requests (si_variant it) of Some q \<Rightarrow> q | None \<Rightarrow> 0)\<rparr>"
      "\<forall>v\<in>rq_variant ` set requests. \<exists>it\<in>set ?items. si_variant it = v \<and>
          \<lparr>rn_reservation = r, rn_item = si_id it,
           rn_quantity = (case wanted_of requests v of Some q \<Rightarrow> q | None \<Rightarrow> 0)\<rparr> \<in> set reserved"
    and dist: "distinct (map si_id ?items) \<longrightarrow> distinct (map rn_item reserved)"
    using short by (simp_all add: reserve_covers_def)
  have "distinct (map si_id (iv_items s))" using keys by (simp add: wf_keys_def item_keys_ids)
  then have "distinct (map si_id ?items)" by (simp add: distinct_map distinct_filter inj_on_def)
  with dist have dist: "distinct (map rn_item reserved)" by blast
  have quantity: "(case wanted_of requests (si_variant it) of Some q \<Rightarrow> q | None \<Rightarrow> 0) = rq_quantity q"
    if "q \<in> set requests" "si_variant it = rq_variant q" for it q
    using wanted_of_request [OF distinct that(1)] that(2) by simp
  have covers: "covers_requests r w requests s reserved"
    unfolding covers_requests_def
  proof (intro conjI ballI)
    fix l assume "l \<in> set reserved"
    with C(1) obtain it where "it \<in> set ?items" and l: "l = \<lparr>rn_reservation = r, rn_item = si_id it,
          rn_quantity = (case wanted_of requests (si_variant it) of Some q \<Rightarrow> q | None \<Rightarrow> 0)\<rparr>" by blast
    moreover from this(1) obtain q where "q \<in> set requests" "si_variant it = rq_variant q"
      "it \<in> set (iv_items s)" "si_warehouse it = w" by auto
    ultimately show "rn_reservation l = r" and "\<exists>it\<in>set (iv_items s). \<exists>q\<in>set requests.
        si_id it = rn_item l \<and> si_warehouse it = w \<and> si_variant it = rq_variant q \<and> rn_quantity l = rq_quantity q"
      using quantity [of q it] by auto
  next
    fix q assume q: "q \<in> set requests"
    with C(2) obtain it where "it \<in> set ?items" "si_variant it = rq_variant q"
      "\<lparr>rn_reservation = r, rn_item = si_id it,
        rn_quantity = (case wanted_of requests (rq_variant q) of Some q \<Rightarrow> q | None \<Rightarrow> 0)\<rparr> \<in> set reserved"
      by blast
    with quantity [OF q, of it] show "\<exists>it\<in>set (iv_items s). si_variant it = rq_variant q \<and> si_warehouse it = w \<and>
        \<lparr>rn_reservation = r, rn_item = si_id it, rn_quantity = rq_quantity q\<rparr> \<in> set reserved"
      by auto
  qed (rule dist)
  have t: "t = s'\<lparr>iv_lines := iv_lines s' @ reserved\<rparr>" and lines_ok: "\<forall>l\<in>set reserved. 0 < rn_quantity l"
    and lines_distinct: "distinct (map (\<lambda>l. (rn_reservation l, rn_item l)) (iv_lines s' @ reserved))"
    using ins short by (auto simp: insert_lines_def not_le split: if_splits)
  have same: "iv_reservations s' = iv_reservations s" "iv_lines s' = iv_lines s"
    "iv_movements s' = iv_movements s" "iv_next s' = iv_next s" "iv_warehouses s' = iv_warehouses s"
    by (subst J(1), simp)+
  have act: "active_ids t = active_ids s" by (simp add: active_ids_def t same)
  have "filter (\<lambda>l. rn_reservation l \<in> active_ids s) reserved = reserved"
    using covers active by (auto simp: covers_requests_def)
  then have held: "held t = (\<lambda>i. held s i + held_by reserved i)"
    by (intro ext) (simp add: held_def act, simp add: t same)
  have keys_t: "item_keys t = item_keys s" using J(2) by (simp add: item_keys_def t)
  note ids = item_keys_ids_set [OF keys_t]
  have tables': "wf_tables s'" by (rule wf_tables_frame [OF tables J(2)]) (simp_all add: same)
  have "wf_tables t"
  proof -
    have "\<forall>l\<in>set reserved. rn_item l \<in> si_id ` set (iv_items s) \<and> rn_reservation l = r"
      using covers by (metis covers_requests_def imageI)
    moreover have "r \<in> rs_id ` set (iv_reservations s)" using active by (auto simp: active_ids_def)
    ultimately have "\<forall>l\<in>set (iv_lines t). 0 < rn_quantity l \<and> rn_reservation l \<in> rs_id ` set (iv_reservations s)
        \<and> rn_item l \<in> si_id ` set (iv_items s)"
      using tables lines_ok by (auto simp: t same wf_tables_def)
    moreover have "iv_reservations t = iv_reservations s" "iv_movements t = iv_movements s"
      "iv_next t = iv_next s" "iv_items t = iv_items s'" "distinct (map (\<lambda>l. (rn_reservation l, rn_item l)) (iv_lines t))"
      using lines_distinct by (simp_all add: t same)
    ultimately show ?thesis
      using tables' keys_t J(2) ids same unfolding wf_tables_def by simp
  qed
  moreover have "items_at (held t) (moved (iv_movements t)) (iv_items t)"
    using J(3) by (simp add: held) (simp add: t same)
  ultimately have "wf_inventory t" using wf by (simp add: wf_inventory_def t same)
  then show thesis
    using that [OF _ _ covers] active act keys_t by (simp add: takes_lines_def t same)
qed


lemma open_reservation_wf:
  assumes wf: "wf_inventory s" and opened: "open_reservation order expires s = (True, receipt, t)"
  shows "takes_lines (rc_reservation receipt) t" and "iv_lines t = iv_lines s" "iv_movements t = iv_movements s"
    and "iv_items t = iv_items s" "iv_warehouses t = iv_warehouses s" "held t = held s"
    and "rc_order receipt = order" "rc_expires_at receipt = expires"
    and "iv_reservations t = iv_reservations s @
      [\<lparr>rs_id = rc_reservation receipt, rs_order = order, rs_status = ReservationActive,
        rs_expires_at = expires, rs_version = 1\<rparr>]"
proof -
  let ?r = "\<lparr>rs_id = iv_next s, rs_order = order, rs_status = ReservationActive,
    rs_expires_at = expires, rs_version = 1\<rparr>"
  have none: "find (\<lambda>r. rs_order r = order \<and> rs_status r = ReservationActive) (iv_reservations s) = None"
    and receipt: "receipt = \<lparr>rc_reservation = iv_next s, rc_order = order, rc_expires_at = expires\<rparr>"
    and t: "t = s\<lparr>iv_reservations := iv_reservations s @ [?r], iv_next := iv_next s + 1\<rparr>"
    using opened by (auto simp: open_reservation_def split: option.splits)
  have tables: "wf_tables s" using wf by (simp add: wf_inventory_def)
  have fresh: "\<forall>r\<in>set (iv_reservations s). rs_id r \<noteq> iv_next s" using tables by (auto simp: wf_tables_def)
  have act: "active_ids t = insert (iv_next s) (active_ids s)"
  proof -
    have "{r \<in> set (iv_reservations t). rs_status r = ReservationActive}
        = insert ?r {r \<in> set (iv_reservations s). rs_status r = ReservationActive}" by (auto simp: t)
    then show ?thesis by (simp add: active_ids_def)
  qed
  have "filter (\<lambda>l. rn_reservation l \<in> active_ids t) (iv_lines s)
      = filter (\<lambda>l. rn_reservation l \<in> active_ids s) (iv_lines s)"
    using tables fresh by (intro filter_cong refl) (auto simp: act wf_tables_def)
  then show held: "held t = held s" by (intro ext) (simp add: held_def, simp add: t)
  have "wf_tables t"
    using tables none fresh unfolding wf_tables_def
    by (auto simp: t item_keys_def find_None_iff intro: less_SucI)
  then have "wf_inventory t" using wf held by (simp add: wf_inventory_def t)
  then show "takes_lines (rc_reservation receipt) t" by (simp add: takes_lines_def act receipt)
qed (use opened in \<open>auto simp: open_reservation_def split: option.splits\<close>)

lemma open_reservation_existing:
  assumes "open_reservation order expires s = (False, receipt, t)"
  shows "t = s" and "\<exists>r\<in>set (iv_reservations s). rs_id r = rc_reservation receipt \<and>
      rs_order r = order \<and> rs_status r = ReservationActive \<and> rs_expires_at r = rc_expires_at receipt"
proof -
  let ?p = "\<lambda>r. rs_order r = order \<and> rs_status r = ReservationActive"
  obtain r where r: "find ?p (iv_reservations s) = Some r"
    using assms by (cases "find ?p (iv_reservations s)") (simp_all add: open_reservation_def)
  with assms show "t = s" by (simp add: open_reservation_def)
  from r assms have "receipt = \<lparr>rc_reservation = rs_id r, rc_order = rs_order r, rc_expires_at = rs_expires_at r\<rparr>"
    by (simp add: open_reservation_def)
  with find_SomeD [OF r] show "\<exists>r\<in>set (iv_reservations s). rs_id r = rc_reservation receipt \<and>
      rs_order r = order \<and> rs_status r = ReservationActive \<and> rs_expires_at r = rc_expires_at receipt"
    by auto
qed

lemma try_plans_single:
  assumes "try_plans r at plans s = Inr (all, t)"
    and "\<forall>plan\<in>set plans. \<exists>w. plan = [\<lparr>al_warehouse = w, al_lines = rs\<rparr>]"
  shows "if all then \<exists>w. [\<lparr>al_warehouse = w, al_lines = rs\<rparr>] \<in> set plans \<and> reserve_in r w rs at s = Inr ([], t)
     else t = s"
  using assms
proof (induction plans)
  case Nil
  then show ?case by simp
next
  case (Cons plan plans)
  then obtain w where plan: "plan = [\<lparr>al_warehouse = w, al_lines = rs\<rparr>]" by auto
  from Cons.prems(1) obtain all1 t1 where one: "reserve_all r at plan s = Inr (all1, t1)"
    and rest: "(if all1 then Inr (True, t1) else try_plans r at plans t1) = Inr (all, t)"
    by (auto simp: res_simps)
  show ?case
  proof (cases "reserve_in r w rs at s")
    case (Inl e)
    with one plan have "all1 = False \<and> t1 = s"
      by (auto simp: reserve_all_def reserve_group_def split: thrown.splits stock_error.splits)
    with rest Cons show ?thesis by (auto split: if_splits)
  next
    case (Inr out)
    obtain short u where out: "out = (short, u)" by (cases out)
    show ?thesis
    proof (cases "short = []")
      case True
      with Inr out one plan have "all1 = True \<and> t1 = u" by (simp add: reserve_all_def reserve_group_def)
      with rest Inr out True plan show ?thesis by auto
    next
      case False
      with Inr out one plan have "all1 = False \<and> t1 = s" by (simp add: reserve_all_def reserve_group_def)
      with rest Cons show ?thesis by (auto split: if_splits)
    qed
  qed
qed

lemma policy_single:
  "\<forall>plan\<in>set (policy_for w ws rs). \<exists>i. plan = [\<lparr>al_warehouse = i, al_lines = rs\<rparr>]"
  using first_by_priority.plan_single chosen.plan_single
  by (cases w) (auto simp: policy_for_def)

lemma reserve_seeing_parts:
  assumes wf: "wf_inventory s" and distinct: "distinct (map rq_variant rs)"
    and res: "reserve_seeing seen seen_after order rs w ttl now s = Inr (receipt, t)"
  obtains (existing) "t = s" and "\<exists>r\<in>set (iv_reservations s). rs_id r = rc_reservation receipt \<and>
      rs_order r = order \<and> rs_status r = ReservationActive \<and> rs_expires_at r = rc_expires_at receipt"
  | (opened) i new where "takes_lines (rc_reservation receipt) t" and "iv_lines t = iv_lines s @ new"
    and "covers_requests (rc_reservation receipt) i rs s new" and "iv_movements t = iv_movements s"
    and "rc_order receipt = order" and "rc_expires_at receipt = now + ttl * 1000"
    and "\<exists>u. [\<lparr>al_warehouse = i, al_lines = rs\<rparr>] \<in> set (policy_for w seen rs) \<and>
           reserve_in (rc_reservation receipt) i rs now u = Inr ([], t) \<and> iv_warehouses u = iv_warehouses s"
proof -
  obtain is_new rec s1 where op: "open_reservation order (now + ttl * 1000) s = (is_new, rec, s1)"
    by (metis prod_cases3)
  show thesis
  proof (cases is_new)
    case False
    with op res have same: "receipt = rec" "t = s1" by (auto simp: reserve_seeing_def)
    with open_reservation_existing [of order "now + ttl * 1000" s rec s1] op False existing show thesis by simp
  next
    case True
    have op': "open_reservation order (now + ttl * 1000) s = (True, rec, s1)" using op True by simp
    note opens = open_reservation_wf [OF wf op']
    from op True res have receipt: "receipt = rec"
      and plans: "try_plans (rc_reservation rec) now (policy_for w seen rs) s1 = Inr (True, t)"
      by (auto simp: reserve_seeing_def res_simps split: if_splits)
    from try_plans_single [OF plans policy_single] obtain i where
      i: "[\<lparr>al_warehouse = i, al_lines = rs\<rparr>] \<in> set (policy_for w seen rs)"
        "reserve_in (rc_reservation rec) i rs now s1 = Inr ([], t)" by auto
    from reserve_in_wf [OF i(2) opens(1) distinct] obtain new where
      "takes_lines (rc_reservation rec) t" "iv_lines t = iv_lines s1 @ new"
      "covers_requests (rc_reservation rec) i rs s1 new" "iv_movements t = iv_movements s1"
      by metis
    with i opens receipt show thesis
      by (intro opened [of new i]) (auto simp: covers_requests_def)
  qed
qed

section \<open>Every operation keeps them\<close>

lemma restock_one_wf:
  assumes "restock_one st entry = Inr st'" and "wf_inventory (snd st)"
  shows "wf_inventory (snd st')"
    and "\<exists>m. iv_movements (snd st') = iv_movements (snd st) @ [m] \<and> mv_type m = RESTOCK \<and>
           mv_order_line m = Some (se_order_line entry) \<and> mv_quantity m = se_quantity entry"
proof -
  obtain ms s where st: "st = (ms, s)" by (cases st)
  from assms(1) obtain it s1 m t where "change_stock entry False s = Inr (Some it, s1)"
    "record_movement it entry RESTOCK (Some (se_reason entry)) (Some (se_order entry, se_order_line entry)) s1
       = Inr (m, t)" "st' = (ms @ [m], t)"
    unfolding restock_one_def st by (auto simp: res_simps split: option.splits)
  with change_and_record_wf [OF assms(2) [unfolded st snd_conv] this(1,2)]
  show "wf_inventory (snd st')"
    and "\<exists>m. iv_movements (snd st') = iv_movements (snd st) @ [m] \<and> mv_type m = RESTOCK \<and>
           mv_order_line m = Some (se_order_line entry) \<and> mv_quantity m = se_quantity entry"
    by (auto simp: st)
qed

lemma ledger_restock_wf:
  assumes "ledger_restock entries s = Inr (ms, t)" and "wf_inventory s"
  shows "wf_inventory t"
proof (cases "entries = []")
  case True
  with assms show ?thesis by (simp add: ledger_restock_def)
next
  case False
  with assms(1) have "res_fold restock_one ([], s) (sort_key (item_order s) entries) = Inr (ms, t)"
    by (simp add: ledger_restock_def)
  from res_fold_inv [OF this, of "\<lambda>st. wf_inventory (snd st)"] assms(2) show ?thesis
    by (auto intro: restock_one_wf(1))
qed

lemma save_warehouse_wf: "wf_inventory s \<Longrightarrow> wf_inventory (save_warehouse w s)"
  by (simp add: wf_inventory_def wf_tables_def item_keys_def save_warehouse_def held_def [abs_def] active_ids_def)

lemma inventory_step_wf:
  assumes wf: "wf_inventory s" and step: "inventory_step ex s ev = Inr t"
  shows "wf_inventory t"
proof (cases ev)
  case (Reserve seen seen_after order requests w ttl now)
  with step obtain merged receipt where m: "merged_requests requests = Inr merged"
    and r: "reserve_seeing seen seen_after order merged w ttl now s = Inr (receipt, t)"
    by (auto simp: res_simps split: if_splits)
  show ?thesis
    by (rule reserve_seeing_parts [OF wf merged_requests_parts(1) [OF m] r])
      (use wf in \<open>auto simp: takes_lines_def\<close>)
next
  case (CommitOrder order now)
  show ?thesis
    by (rule commit_reservation_wf [OF wf, of order now]) (use step CommitOrder in \<open>auto simp: res_simps\<close>)
next
  case (ReleaseOrder order now)
  show ?thesis
    by (rule free_reservation_wf [OF wf, of ReservationReleased order now])
      (use step ReleaseOrder in \<open>auto simp: res_simps\<close>)
next
  case (ExpireOrder order now)
  show ?thesis
    by (rule free_reservation_wf [OF wf, of ReservationExpired order now])
      (use step ExpireOrder in \<open>auto simp: res_simps\<close>)
next
  case (Receive v w q remark staff now)
  with step obtain entry it s1 m where "change_stock (entry :: stock_entry) False s = Inr (Some it, s1)"
    "record_movement it entry RECEIPT None None s1 = Inr (m, t)"
    by (auto simp: receive_stock_def ledger_receive_def res_simps split: if_splits option.splits)
  then show ?thesis by (rule change_and_record_wf(1) [OF wf])
next
  case (Adjust v w q reason remark staff now)
  with step obtain entry it s1 m where "change_stock (entry :: stock_entry) True s = Inr (Some it, s1)"
    "record_movement it entry ADJUSTMENT (Some reason) None s1 = Inr (m, t)"
    by (auto simp: adjust_stock_def ledger_adjust_def res_simps split: if_splits option.splits)
  then show ?thesis by (rule change_and_record_wf(1) [OF wf])
next
  case (Restock i now)
  with step obtain entries ms where "ledger_restock entries s = Inr (ms, t)"
    by (auto simp: restock_order_def Let_def res_simps split: if_splits)
  then show ?thesis using wf by (rule ledger_restock_wf)
next
  case (DeactivateWarehouse w)
  with step obtain x where "t = save_warehouse x s"
    by (auto simp: deactivate_warehouse_in_def Let_def res_simps split: option.splits)
  then show ?thesis using wf by (simp add: save_warehouse_wf)
qed

interpretation inventory_life: lifecycle "inventory_step ex" wf_inventory for ex
  by unfold_locales (rule inventory_step_wf)


section \<open>What the operations promise\<close>

definition new_inventory :: "warehouse list \<Rightarrow> inventory" where
  "new_inventory ws =
     \<lparr>iv_warehouses = ws, iv_items = [], iv_reservations = [], iv_lines = [], iv_movements = [], iv_next = 1\<rparr>"

lemma new_inventory_wf: "wf_inventory (new_inventory ws)"
  by (simp add: new_inventory_def wf_inventory_def wf_tables_def wf_keys_def item_keys_def items_at_def
      ledger_runs_def)

text \<open>
  C1. Stock is never sold twice, whatever happens to the inventory and however its operations
  interleave: every stock item has reserved exactly what the active reservations hold of it, between
  zero and what is on hand, and an order has at most one active reservation. What a reservation read
  of the stock before taking it may be anything, as when others commit in between.
\<close>

theorem stock_never_oversold:
  assumes "t = run (inventory_step ex) (new_inventory ws) evs"
  shows "list_all (\<lambda>it. 0 \<le> si_reserved it \<and> si_reserved it \<le> si_on_hand it \<and>
            si_reserved it = held t (si_id it)) (iv_items t) \<and>
     distinct (map rs_order (filter (\<lambda>r. rs_status r = ReservationActive) (iv_reservations t)))"
proof -
  have "wf_inventory t" unfolding assms by (rule inventory_life.run_inv) (rule new_inventory_wf)
  then show ?thesis
    by (auto simp: wf_inventory_def wf_tables_def items_at_def item_ok_def list_all_iff)
qed

text \<open>
  C30. The ledger accounts for the stock: what each stock item has on hand is what its movements add
  up to, and every movement says what was left after it.
\<close>

theorem ledger_accounts_for_stock:
  assumes "t = run (inventory_step ex) (new_inventory ws) evs"
  shows "list_all (\<lambda>it. si_on_hand it = moved (iv_movements t) (si_id it) \<and>
            ledger_runs (iv_movements t) (si_id it)) (iv_items t)"
proof -
  have "wf_inventory t" unfolding assms by (rule inventory_life.run_inv) (rule new_inventory_wf)
  then show ?thesis by (auto simp: wf_inventory_def items_at_def list_all_iff)
qed

definition example_warehouses :: "warehouse list" where
  "example_warehouses =
     [\<lparr>wh_id = 1, wh_code = ''CDMX'', wh_name = ''Centro'', wh_address = None, wh_status = ActiveWarehouse,
       wh_priority = 1\<rparr>,
      \<lparr>wh_id = 2, wh_code = ''GDL'', wh_name = ''Guadalajara'', wh_address = None, wh_status = ActiveWarehouse,
       wh_priority = 2\<rparr>]"

definition example_inventory :: inventory where
  "example_inventory = run (inventory_step (\<lambda>v. True)) (new_inventory example_warehouses)
     [Receive 7 1 (Whole 5) None 3 10, Receive 7 2 (Whole 8) None 3 11,
      Adjust 7 1 (Whole (-1)) DAMAGED None 3 12]"

definition reserved_inventory :: inventory where
  "reserved_inventory = attempt (inventory_step (\<lambda>v. True)) example_inventory
     (Reserve (active_stock [7] example_inventory) [] 50 [(7, Whole 6)] None 1200 20)"

theorem stock_never_oversold_witness:
  "list_all (\<lambda>it. si_reserved it \<le> si_on_hand it \<and> si_reserved it = held reserved_inventory (si_id it))
     (iv_items reserved_inventory) \<and> map si_reserved (iv_items reserved_inventory) = [0, 6]"
proof
  let ?evs = "[Receive 7 1 (Whole 5) None 3 10, Receive 7 2 (Whole 8) None 3 11,
    Adjust 7 1 (Whole (-1)) DAMAGED None 3 12,
    Reserve (active_stock [7] example_inventory) [] 50 [(7, Whole 6)] None 1200 20]"
  have "reserved_inventory = run (inventory_step (\<lambda>v. True)) (new_inventory example_warehouses) ?evs"
    by (simp add: reserved_inventory_def example_inventory_def)
  from stock_never_oversold [OF this]
  show "list_all (\<lambda>it. si_reserved it \<le> si_on_hand it \<and> si_reserved it = held reserved_inventory (si_id it))
     (iv_items reserved_inventory)"
    by (auto simp: list_all_iff)
  show "map si_reserved (iv_items reserved_inventory) = [0, 6]" by code_simp
qed

theorem ledger_accounts_for_stock_witness:
  "list_all (\<lambda>it. si_on_hand it = moved (iv_movements example_inventory) (si_id it)) (iv_items example_inventory)
     \<and> map si_on_hand (iv_items example_inventory) = [4, 8]"
proof
  show "list_all (\<lambda>it. si_on_hand it = moved (iv_movements example_inventory) (si_id it)) (iv_items example_inventory)"
    using ledger_accounts_for_stock [OF example_inventory_def] by (simp add: list_all_iff)
  show "map si_on_hand (iv_items example_inventory) = [4, 8]" by code_simp
qed

lemma example_inventory_wf: "wf_inventory example_inventory" "wf_inventory reserved_inventory"
  unfolding reserved_inventory_def example_inventory_def
  by (intro inventory_life.attempt_inv inventory_life.run_inv new_inventory_wf)+

text \<open>
  A reservation is all or nothing: when it answers, the order either had it already, and nothing
  changed, or every unit asked of every variant is held by its new lines, all of them on stock items
  of one warehouse, whatever was read of the stock before.
\<close>

lemma reservation_all_or_nothing:
  assumes "wf_inventory s" and "merged_requests requests = Inr rs"
    and "reserve_seeing seen seen_after order rs w ttl now s = Inr (receipt, t)"
  shows "(t = s \<and> rc_reservation receipt \<in> active_ids s) \<or>
     (\<exists>warehouse new. iv_lines t = iv_lines s @ new \<and>
        covers_requests (rc_reservation receipt) warehouse rs s new \<and>
        rc_reservation receipt \<in> active_ids t \<and> rc_expires_at receipt = now + ttl * 1000)"
proof (rule reserve_seeing_parts [OF assms(1) merged_requests_parts(1) [OF assms(2)] assms(3)])
  assume "t = s" "\<exists>r\<in>set (iv_reservations s). rs_id r = rc_reservation receipt \<and>
      rs_order r = order \<and> rs_status r = ReservationActive \<and> rs_expires_at r = rc_expires_at receipt"
  then have "rc_reservation receipt \<in> active_ids s" by (force simp: active_ids_def)
  with \<open>t = s\<close> show ?thesis by blast
qed (auto simp: takes_lines_def)

text \<open>
  C38. Confirming the stock of a paid order never fails on well-formed tables: with an active
  reservation every unit it held leaves the stock and the reserved units alike, once, and without one
  it says whether it was confirmed before.
\<close>

theorem commit_always_answers:
  assumes "wf_inventory s"
  shows "\<exists>out t. commit_reservation order now s = Inr (out, t) \<and> wf_inventory t \<and>
     (case leave_reservation order ReservationCommitted s of
        (None, u) \<Rightarrow> t = s \<and> out = (if is_committed order s then AlreadyCommitted else NotActive)
      | (Some ls, u) \<Rightarrow>
          out = CommittedNow \<and>
          (\<forall>i. held t i = held s i - held_by ls i \<and>
               moved (iv_movements t) i = moved (iv_movements s) i - held_by ls i))"
proof (rule commit_reservation_wf [OF assms, of order now])
  fix out t
  assume res: "commit_reservation order now s = Inr (out, t)" and "wf_inventory t"
    and some: "\<And>ls u. leave_reservation order ReservationCommitted s = (Some ls, u) \<Longrightarrow>
      out = CommittedNow \<and>
      (\<forall>i. held t i = held s i - held_by ls i \<and>
           moved (iv_movements t) i = moved (iv_movements s) i - held_by ls i)"
  moreover have "t = s \<and> out = (if is_committed order s then AlreadyCommitted else NotActive)"
    if "leave_reservation order ReservationCommitted s = (None, u)" for u
  proof -
    have "u = s" using that by (auto simp: leave_reservation_def split: option.splits)
    with res that show ?thesis by (auto simp: commit_reservation_def split: if_splits)
  qed
  ultimately show ?thesis by (intro exI [of _ out] exI [of _ t]) (auto split: option.split)
qed

theorem commit_always_answers_witness:
  "\<exists>t. commit_reservation 50 30 reserved_inventory = Inr (CommittedNow, t) \<and> wf_inventory t"
proof -
  have "returned (\<lambda>(out, t). out = CommittedNow) (commit_reservation 50 30 reserved_inventory)" by code_simp
  with commit_always_answers [OF example_inventory_wf(2), of 50 30] show ?thesis
    by (auto dest!: returnedD)
qed


section \<open>Restocks never pass what was sold\<close>

definition entry_units :: "restock_entry list \<Rightarrow> id \<Rightarrow> int" where
  "entry_units es line = (\<Sum>e\<leftarrow>es. if se_order_line e = line then se_quantity e else 0)"

lemma restock_loop:
  assumes "res_fold restock_one st es = Inr st'" and "wf_inventory (snd st)"
  shows "restocked_of line (snd st') = restocked_of line (snd st) + entry_units es line"
  using assms
proof (induction es arbitrary: st)
  case Nil
  then show ?case by (simp add: entry_units_def)
next
  case (Cons e es)
  from Cons.prems(1) obtain st1 where one: "restock_one st e = Inr st1"
    and rest: "res_fold restock_one st1 es = Inr st'" by (auto simp: res_simps)
  obtain m where m: "iv_movements (snd st1) = iv_movements (snd st) @ [m]" "mv_type m = RESTOCK"
    "mv_order_line m = Some (se_order_line e)" "mv_quantity m = se_quantity e"
    using restock_one_wf(2) [OF one Cons.prems(2)] by blast
  have "restocked_of line (snd st1)
      = restocked_of line (snd st) + (if se_order_line e = line then se_quantity e else 0)"
    by (simp add: restocked_of_def m)
  with Cons.IH [OF rest restock_one_wf(1) [OF one Cons.prems(2)]] show ?case
    by (simp add: entry_units_def)
qed

lemma ledger_restock_units:
  assumes "ledger_restock es s = Inr (ms, t)" and "wf_inventory s"
  shows "restocked_of line t = restocked_of line s + entry_units es line"
proof (cases "es = []")
  case True
  with assms(1) show ?thesis by (simp add: ledger_restock_def entry_units_def)
next
  case False
  with assms(1) have "res_fold restock_one ([], s) (sort_key (item_order s) es) = Inr (ms, t)"
    by (simp add: ledger_restock_def)
  from restock_loop [OF this, of line] assms(2) show ?thesis
    by (simp add: entry_units_def sum_list_sort_key)
qed

lemma restocked_nonneg: "wf_inventory s \<Longrightarrow> 0 \<le> restocked_of line s"
  unfolding restocked_of_def
  by (rule sum_list_nonneg_int) (auto simp: wf_inventory_def wf_tables_def movement_ok_def)

lemma asks_units:
  "distinct (map rl_in_line ls) \<Longrightarrow> l \<in> set ls \<Longrightarrow>
     (\<Sum>a\<leftarrow>asks_of ls. if ra_line a = rl_in_line l then ra_quantity a else 0) = units_of l"
proof (induction ls)
  case Nil
  then show ?case by simp
next
  case (Cons k ls)
  have none: "(\<Sum>a\<leftarrow>asks_of ls. if ra_line a = i then ra_quantity a else 0) = 0"
    if "i \<notin> rl_in_line ` set ls" for i
    using that by (induction ls) (auto simp: asks_of_def)
  show ?case
  proof (cases "l = k")
    case True
    with Cons.prems none [of "rl_in_line k"] show ?thesis by (simp add: asks_of_def)
  next
    case False
    with Cons.prems have "l \<in> set ls" "rl_in_line k \<noteq> rl_in_line l" by auto
    with Cons show ?thesis by (simp add: asks_of_def)
  qed
qed

text \<open>
  The restocks of a line, added up, never pass what it sold: when a restock is accepted, each of
  its lines gets back exactly what was asked, every unit of it, and stays within what it sold, which
  is nothing unless the stock of the order was confirmed.
\<close>

lemma restock_within_sold:
  assumes "wf_inventory s" and "restock_order i now s = Inr (ms, t)" and "l \<in> set (rs_in_lines i)"
  shows "restocked_of (rl_in_line l) t = restocked_of (rl_in_line l) s + units_of l \<and>
     restocked_of (rl_in_line l) t \<le> rl_in_sold l \<and> is_committed (rs_in_order i) s"
proof -
  let ?ls = "rs_in_lines i" and ?line = "rl_in_line l"
  let ?entry = "\<lambda>d :: restock_destination. \<lparr>se_warehouse = rd_warehouse d, se_variant = ra_variant d,
    se_quantity = ra_quantity d, se_note = note_of (rs_in_note i), se_actor = rs_in_actor i, se_at = now,
    se_reason = rs_in_reason i, se_order = rs_in_order i, se_order_line = ra_line d\<rparr>"
  from assms(2) obtain ds where distinct: "distinct (map rl_in_line ?ls)"
    and whole: "\<forall>l\<in>set ?ls. whole_satisfying (\<lambda>q. q \<ge> 1) (rl_in_quantity l)"
    and limits: "restock_limits (is_committed (rs_in_order i) s) ?ls s = []"
    and ds: "(case rs_in_warehouse i of
                None \<Rightarrow> restock_destinations (asks_of ?ls) (origins_of (rs_in_order i) s)
              | Some w \<Rightarrow> to_warehouse w (asks_of ?ls) s) = Inr ds"
    and ledger: "ledger_restock (map ?entry ds) s = Inr (ms, t)"
    unfolding restock_order_def Let_def by (auto simp: res_simps split: if_splits)
  have positive: "1 \<le> units_of k" if "k \<in> set ?ls" for k
    using whole that by (cases "rl_in_quantity k") (auto simp: units_of_def)
  have "(\<Sum>d\<leftarrow>ds. if ra_line d = ?line then ra_quantity d else 0)
      = (\<Sum>a\<leftarrow>asks_of ?ls. if ra_line a = ?line then ra_quantity a else 0)"
  proof (cases "rs_in_warehouse i")
    case None
    have "\<forall>a\<in>set (asks_of ?ls). 0 \<le> ra_quantity a" using positive by (force simp: asks_of_def)
    with None ds restock_destinations_parts(2) show ?thesis by simp
  next
    case (Some w)
    with ds have "ds = map (\<lambda>a. restock_ask.extend a \<lparr>rd_warehouse = w\<rparr>) (asks_of ?ls)"
      by (auto simp: to_warehouse_def split: if_splits)
    then show ?thesis by (simp add: comp_def restock_ask.defs cong: if_cong)
  qed
  also have "\<dots> = units_of l" by (rule asks_units [OF distinct assms(3)])
  finally have "entry_units (map ?entry ds) ?line = units_of l"
    by (simp add: entry_units_def comp_def cong: if_cong)
  with ledger_restock_units [OF ledger assms(1), of ?line]
  have sum: "restocked_of ?line t = restocked_of ?line s + units_of l" by simp
  have within: "restocked_of ?line s + units_of l \<le> (if is_committed (rs_in_order i) s then rl_in_sold l else 0)"
    using limits assms(3) by (auto simp: restock_limits_def filter_empty_conv not_less)
  show ?thesis
  proof (cases "is_committed (rs_in_order i) s")
    case True
    with sum within show ?thesis by simp
  next
    case False
    have "0 \<le> restocked_of ?line s" by (rule restocked_nonneg [OF assms(1)])
    with False within positive [OF assms(3)] show ?thesis by simp
  qed
qed


definition sold_inventory :: inventory where
  "sold_inventory = attempt (inventory_step (\<lambda>v. True)) reserved_inventory (CommitOrder 50 30)"

definition example_restock :: restock_input where
  "example_restock = \<lparr>rs_in_order = 50, rs_in_reason = ORDER_CANCELLED, rs_in_note = None, rs_in_actor = 3,
     rs_in_lines = [\<lparr>rl_in_line = 900, rl_in_variant = 7, rl_in_sold = 6, rl_in_quantity = Whole 2\<rparr>],
     rs_in_warehouse = None\<rparr>"

section \<open>A reservation finds the stock there is\<close>

text \<open>One turn of the loop on an item that has the units.\<close>

lemma reserve_item_takes:
  assumes keys: "wf_keys (item_keys s)" and "it \<in> set (iv_items s)" and "item_ok it"
    and "wanted (si_variant it) = Some q" and "0 \<le> q" and "q \<le> si_on_hand it - si_reserved it"
  shows "\<exists>s'. reserve_item r at wanted (reserved, short, s) it
       = Inr (reserved @ [\<lparr>rn_reservation = r, rn_item = si_id it, rn_quantity = q\<rparr>],
              removeAll (si_variant it) short, s') \<and>
     item_keys s' = item_keys s \<and> iv_lines s' = iv_lines s \<and>
     {x \<in> set (iv_items s). si_id x \<noteq> si_id it} \<subseteq> set (iv_items s')"
proof -
  define has :: "stock_item \<Rightarrow> bool"
    where "has = (\<lambda>x. si_id x = si_id it \<and> si_on_hand x - si_reserved x \<ge> q)"
  let ?f = "\<lambda>x :: stock_item. x\<lparr>si_reserved := si_reserved x + q, si_updated_at := at\<rparr>"
  have only: "x = it" if "x \<in> set (iv_items s)" "has x" for x
    using item_by_id [OF keys that(1) assms(2)] that(2) by (simp add: has_def)
  have "item_ok (?f it)" using assms(3,5,6) by (auto simp: item_ok_def)
  with only have "\<not> (\<exists>x\<in>set (iv_items s). has x \<and> \<not> item_ok (?f x))" by blast
  then obtain s' where up: "update_items has ?f s = Inr s'" by (simp add: update_items_def)
  have keep: "si_id (?f x) = si_id x \<and> si_variant (?f x) = si_variant x \<and> si_warehouse (?f x) = si_warehouse x"
    for x by simp
  note parts = update_items_parts [OF up keep]
  have "length (filter has (iv_items s)) = 1"
    by (rule filter_by_id [OF keys assms(2)]) (use assms(6) in \<open>auto simp: has_def\<close>)
  with up assms(4) have "reserve_item r at wanted (reserved, short, s) it
       = Inr (reserved @ [\<lparr>rn_reservation = r, rn_item = si_id it, rn_quantity = q\<rparr>],
              removeAll (si_variant it) short, s')"
    by (simp add: reserve_item_def Let_def has_def)
  moreover have "iv_lines s' = iv_lines s" by (subst parts(1)) simp
  moreover have "{x \<in> set (iv_items s). si_id x \<noteq> si_id it} \<subseteq> set (iv_items s')"
    unfolding parts(3) by (auto simp: has_def image_iff)
  ultimately show ?thesis using parts(2) by blast
qed

lemma reserve_loop_takes:
  assumes "wf_keys (item_keys s)" and "set items \<subseteq> set (iv_items s)" and "distinct (map si_id items)"
    and "\<forall>it\<in>set items. item_ok it \<and> (\<exists>q. wanted (si_variant it) = Some q \<and> 1 \<le> q \<and>
           q \<le> si_on_hand it - si_reserved it)"
    and "\<forall>l\<in>set reserved. 1 \<le> rn_quantity l \<and> rn_reservation l = r"
  shows "\<exists>reserved' s'. res_fold (reserve_item r at wanted) (reserved, short, s) items
       = Inr (reserved', filter (\<lambda>v. v \<notin> si_variant ` set items) short, s') \<and>
     iv_lines s' = iv_lines s \<and> map rn_item reserved' = map rn_item reserved @ map si_id items \<and>
     (\<forall>l\<in>set reserved'. 1 \<le> rn_quantity l \<and> rn_reservation l = r)"
  using assms
proof (induction items arbitrary: reserved short s)
  case Nil
  then show ?case by simp
next
  case (Cons it items)
  from Cons.prems(4) obtain q where q: "wanted (si_variant it) = Some q" "1 \<le> q"
    "q \<le> si_on_hand it - si_reserved it" "item_ok it" by auto
  let ?l = "\<lparr>rn_reservation = r, rn_item = si_id it, rn_quantity = q\<rparr>"
  have "it \<in> set (iv_items s)" "0 \<le> q" using Cons.prems(2) q(2) by auto
  with reserve_item_takes [of s it wanted q r at reserved short] Cons.prems(1) q
  obtain s1 where one: "reserve_item r at wanted (reserved, short, s) it
      = Inr (reserved @ [?l], removeAll (si_variant it) short, s1)"
    and s1: "item_keys s1 = item_keys s" "iv_lines s1 = iv_lines s"
      "{x \<in> set (iv_items s). si_id x \<noteq> si_id it} \<subseteq> set (iv_items s1)"
    by blast
  have "set items \<subseteq> set (iv_items s1)"
  proof
    fix x assume x: "x \<in> set items"
    then have "si_id x \<noteq> si_id it" using Cons.prems(3) by (metis distinct.simps(2) imageI list.simps(9) set_map)
    with x Cons.prems(2) s1(3) show "x \<in> set (iv_items s1)" by auto
  qed
  with Cons.IH [of s1 "reserved @ [?l]" "removeAll (si_variant it) short"] Cons.prems s1(1) q(2)
  obtain reserved' s' where
    "res_fold (reserve_item r at wanted) (reserved @ [?l], removeAll (si_variant it) short, s1) items
       = Inr (reserved', filter (\<lambda>v. v \<notin> si_variant ` set items) (removeAll (si_variant it) short), s')"
    and "iv_lines s' = iv_lines s1" "map rn_item reserved' = map rn_item (reserved @ [?l]) @ map si_id items"
    "\<forall>l\<in>set reserved'. 1 \<le> rn_quantity l \<and> rn_reservation l = r" by auto
  moreover have "filter (\<lambda>v. v \<notin> si_variant ` set items) (removeAll (si_variant it) short)
      = filter (\<lambda>v. v \<notin> si_variant ` set (it # items)) short"
    by (auto simp: removeAll_filter_not_eq intro: filter_cong)
  ultimately show ?case using one s1(2) by auto
qed


definition holds_all :: "id \<Rightarrow> stock_request list \<Rightarrow> inventory \<Rightarrow> bool" where
  "holds_all w requests s \<longleftrightarrow>
     (\<forall>q\<in>set requests. \<exists>it\<in>set (iv_items s). si_warehouse it = w \<and> si_variant it = rq_variant q \<and>
        rq_quantity q \<le> si_on_hand it - si_reserved it)"

lemma reserve_in_takes:
  assumes wf: "wf_inventory s" and w: "find_warehouse w s = Some x" "wh_is_active x"
    and distinct: "distinct (map rq_variant rs)" and whole: "\<forall>q\<in>set rs. 1 \<le> rq_quantity q"
    and holds: "holds_all w rs s" and fresh: "r \<notin> rn_reservation ` set (iv_lines s)"
  shows "\<exists>t. reserve_in r w rs at s = Inr ([], t)"
proof -
  let ?items = "sort_key si_id (filter (\<lambda>it. si_warehouse it = w \<and> si_variant it \<in> rq_variant ` set rs)
    (iv_items s))"
  have keys: "wf_keys (item_keys s)" and tables: "wf_tables s"
    using wf by (simp_all add: wf_inventory_def wf_tables_def)
  have "distinct (map si_id (iv_items s))" using keys by (simp add: wf_keys_def item_keys_ids)
  then have dist: "distinct (map si_id ?items)" by (simp add: distinct_map distinct_filter inj_on_def)
  have each: "item_ok it \<and> (\<exists>q. wanted_of rs (si_variant it) = Some q \<and> 1 \<le> q \<and> q \<le> si_on_hand it - si_reserved it)"
    if "it \<in> set ?items" for it
  proof -
    from that obtain q where q: "q \<in> set rs" "si_variant it = rq_variant q" "it \<in> set (iv_items s)"
      "si_warehouse it = w" by auto
    with holds obtain it' where "it' \<in> set (iv_items s)" "si_warehouse it' = w" "si_variant it' = rq_variant q"
      "rq_quantity q \<le> si_on_hand it' - si_reserved it'" by (auto simp: holds_all_def)
    with item_by_place [OF keys q(3) this(1)] q have "rq_quantity q \<le> si_on_hand it - si_reserved it" by simp
    moreover have "item_ok it" using wf q(3) by (auto simp: wf_inventory_def items_at_def)
    ultimately show ?thesis using wanted_of_request [OF distinct q(1)] q(1,2) whole by auto
  qed
  from reserve_loop_takes [OF keys _ dist, of "wanted_of rs" "[]" r at "remdups (map rq_variant rs)"] each
  obtain reserved s' where
    loop: "res_fold (reserve_item r at (wanted_of rs)) ([], remdups (map rq_variant rs), s) ?items
       = Inr (reserved, filter (\<lambda>v. v \<notin> si_variant ` set ?items) (remdups (map rq_variant rs)), s')"
    and s': "iv_lines s' = iv_lines s" "map rn_item reserved = map si_id ?items"
      "\<forall>l\<in>set reserved. 1 \<le> rn_quantity l \<and> rn_reservation l = r"
    by auto
  have "rq_variant q \<in> si_variant ` set ?items" if "q \<in> set rs" for q
    using holds that by (force simp: holds_all_def)
  then have short: "filter (\<lambda>v. v \<notin> si_variant ` set ?items) (remdups (map rq_variant rs)) = []"
    by (auto simp: filter_empty_conv)
  have "distinct (map (\<lambda>l. (rn_reservation l, rn_item l)) (iv_lines s' @ reserved))"
  proof -
    have "distinct (map rn_item reserved)" using dist by (simp only: s'(2))
    then have "distinct (map (\<lambda>l. (rn_reservation l, rn_item l)) reserved)"
      by (auto simp: distinct_map inj_on_def)
    moreover have "distinct (map (\<lambda>l. (rn_reservation l, rn_item l)) (iv_lines s))"
      using tables by (simp add: wf_tables_def)
    ultimately show ?thesis using fresh s'(1,3) by auto
  qed
  moreover have "\<not> (\<exists>l\<in>set reserved. rn_quantity l \<le> 0)" using s'(3) by force
  ultimately have "insert_lines reserved s' = Inr (s'\<lparr>iv_lines := iv_lines s' @ reserved\<rparr>)"
    by (simp add: insert_lines_def)
  then show ?thesis using w loop unfolding short by (simp add: reserve_in_def Let_def)
qed

lemma short_in_holds:
  assumes keys: "wf_keys (item_keys s)" and whole: "\<forall>q\<in>set rs. 1 \<le> rq_quantity q"
    and entry: "e = \<lparr>ws_warehouse = w, ws_available = map (\<lambda>it. (si_variant it, si_on_hand it - si_reserved it))
      (filter (\<lambda>it. si_warehouse it = w \<and> si_variant it \<in> rq_variant ` set rs) (iv_items s))\<rparr>"
  shows "short_in e rs = [] \<longleftrightarrow> holds_all w rs s"
proof -
  let ?here = "filter (\<lambda>it. si_warehouse it = w \<and> si_variant it \<in> rq_variant ` set rs) (iv_items s)"
  let ?al = "map (\<lambda>it. (si_variant it, si_on_hand it - si_reserved it)) ?here"
  have "distinct (map si_id (iv_items s))" using keys by (simp add: wf_keys_def item_keys_ids)
  then have "distinct (iv_items s)" by (simp add: distinct_map)
  then have al: "distinct (map fst ?al)"
    using item_by_place [OF keys] by (auto simp: distinct_map inj_on_def)
  have "rq_quantity q \<le> available_of e (rq_variant q) \<longleftrightarrow>
      (\<exists>it\<in>set (iv_items s). si_warehouse it = w \<and> si_variant it = rq_variant q \<and>
        rq_quantity q \<le> si_on_hand it - si_reserved it)" if q: "q \<in> set rs" for q
  proof
    assume le: "rq_quantity q \<le> available_of e (rq_variant q)"
    with whole q have "map_of ?al (rq_variant q) \<noteq> None"
      by (force simp: available_of_def entry split: option.splits)
    then obtain n where n: "map_of ?al (rq_variant q) = Some n" by blast
    with le have "rq_quantity q \<le> n" by (simp add: available_of_def entry)
    moreover from map_of_SomeD [OF n] obtain it where "it \<in> set (iv_items s)" "si_warehouse it = w"
      "si_variant it = rq_variant q" "n = si_on_hand it - si_reserved it" by auto
    ultimately show "\<exists>it\<in>set (iv_items s). si_warehouse it = w \<and> si_variant it = rq_variant q \<and>
        rq_quantity q \<le> si_on_hand it - si_reserved it" by blast
  next
    assume "\<exists>it\<in>set (iv_items s). si_warehouse it = w \<and> si_variant it = rq_variant q \<and>
        rq_quantity q \<le> si_on_hand it - si_reserved it"
    then obtain it where it: "it \<in> set (iv_items s)" "si_warehouse it = w" "si_variant it = rq_variant q"
      "rq_quantity q \<le> si_on_hand it - si_reserved it" by blast
    have "(rq_variant q, si_on_hand it - si_reserved it) \<in> set ?al" using it q by force
    from map_of_is_SomeI [OF al this] it(4) show "rq_quantity q \<le> available_of e (rq_variant q)"
      by (simp add: available_of_def entry)
  qed
  then show ?thesis by (auto simp: short_in_Nil holds_all_def)
qed

lemma active_stock_plans:
  assumes keys: "wf_keys (item_keys s)" and whole: "\<forall>q\<in>set rs. 1 \<le> rq_quantity q"
  shows "set (ONE_WAREHOUSE_PER_ORDER (active_stock (map rq_variant rs) s) rs)
     = {[\<lparr>al_warehouse = wh_id x, al_lines = rs\<rparr>] | x. x \<in> set (iv_warehouses s) \<and> wh_is_active x \<and>
          holds_all (wh_id x) rs s}"
proof -
  define e where "e w = \<lparr>ws_warehouse = w, ws_available = map (\<lambda>it. (si_variant it, si_on_hand it - si_reserved it))
      (filter (\<lambda>it. si_warehouse it = w \<and> si_variant it \<in> rq_variant ` set rs) (iv_items s))\<rparr>" for w
  have e: "ws_warehouse (e w) = w" "short_in (e w) rs = [] \<longleftrightarrow> holds_all w rs s" for w
    using short_in_holds [OF keys whole e_def] by (simp_all add: e_def)
  have stock: "set (active_stock (map rq_variant rs) s)
      = (\<lambda>x. e (wh_id x)) ` {x \<in> set (iv_warehouses s). wh_is_active x}"
    by (auto simp: active_stock_def by_priority_def e_def)
  have "{w \<in> set (active_stock (map rq_variant rs) s). short_in w rs = []}
      = (\<lambda>x. e (wh_id x)) ` {x \<in> set (iv_warehouses s). wh_is_active x \<and> holds_all (wh_id x) rs s}"
    unfolding stock using e(2) by auto
  then have "set (ONE_WAREHOUSE_PER_ORDER (active_stock (map rq_variant rs) s) rs)
      = (\<lambda>x. [\<lparr>al_warehouse = wh_id x, al_lines = rs\<rparr>]) `
          {x \<in> set (iv_warehouses s). wh_is_active x \<and> holds_all (wh_id x) rs s}"
    unfolding ONE_WAREHOUSE_PER_ORDER_def set_map set_filter length_0_conv by (simp add: image_image e(1))
  also have "\<dots> = {[\<lparr>al_warehouse = wh_id x, al_lines = rs\<rparr>] | x. x \<in> set (iv_warehouses s) \<and>
      wh_is_active x \<and> holds_all (wh_id x) rs s}"
    by (simp only: setcompr_eq_image)
  finally show ?thesis .
qed

text \<open>
  C26. A reservation finds the stock there is: with nothing else going on, an order with no active
  reservation is reserved exactly when some active warehouse holds every unit it asks for.
\<close>

theorem reservation_succeeds_iff_stock:
  assumes "wf_inventory s" and "distinct (map wh_id (iv_warehouses s))"
    and "list_all (\<lambda>r. \<not> (rs_order r = order \<and> rs_status r = ReservationActive)) (iv_reservations s)"
    and "merged_requests requests = Inr rs" and "rs \<noteq> []"
  shows "returns (reserve_order order requests None ttl now s) \<longleftrightarrow>
     (\<exists>x\<in>set (iv_warehouses s). wh_is_active x \<and> holds_all (wh_id x) rs s)"
proof -
  note merged = merged_requests_parts [OF assms(4)]
  have keys: "wf_keys (item_keys s)" using assms(1) by (simp add: wf_inventory_def wf_tables_def)
  note plans = active_stock_plans [OF keys merged(2)]
  let ?seen = "active_stock (map rq_variant rs) s"
  have res: "reserve_order order requests None ttl now s = reserve_seeing ?seen ?seen order rs None ttl now s"
    using assms(4,5) by (simp add: reserve_order_def Let_def)
  have "find (\<lambda>r. rs_order r = order \<and> rs_status r = ReservationActive) (iv_reservations s) = None"
    using assms(3) by (auto simp: find_None_iff list_all_iff)
  then obtain receipt s1 where op: "open_reservation order (now + ttl * 1000) s = (True, receipt, s1)"
    by (simp add: open_reservation_def)
  note opens = open_reservation_wf [OF assms(1) op]
  show ?thesis
  proof
    assume "returns (reserve_order order requests None ttl now s)"
    then obtain out where "reserve_seeing ?seen ?seen order rs None ttl now s = Inr out"
      by (auto simp: res returns_iff)
    then obtain t where "try_plans (rc_reservation receipt) now (ONE_WAREHOUSE_PER_ORDER ?seen rs) s1 = Inr (True, t)"
      unfolding reserve_seeing_def op by (auto simp: policy_for_def res_simps split: if_splits)
    from try_plans_single [OF this, of rs] policy_single [of None ?seen rs]
    obtain w where "[\<lparr>al_warehouse = w, al_lines = rs\<rparr>] \<in> set (ONE_WAREHOUSE_PER_ORDER ?seen rs)"
      by (auto simp: policy_for_def)
    then show "\<exists>x\<in>set (iv_warehouses s). wh_is_active x \<and> holds_all (wh_id x) rs s"
      unfolding plans by auto
  next
    assume "\<exists>x\<in>set (iv_warehouses s). wh_is_active x \<and> holds_all (wh_id x) rs s"
    then have "ONE_WAREHOUSE_PER_ORDER ?seen rs \<noteq> []"
      using plans by (metis (mono_tags, lifting) empty_iff list.set(1) mem_Collect_eq)
    then obtain plan more where pl: "ONE_WAREHOUSE_PER_ORDER ?seen rs = plan # more" by (cases "ONE_WAREHOUSE_PER_ORDER ?seen rs") auto
    then have "plan \<in> set (ONE_WAREHOUSE_PER_ORDER ?seen rs)" by simp
    then obtain x where x: "x \<in> set (iv_warehouses s)" "wh_is_active x" "holds_all (wh_id x) rs s"
      and plan: "plan = [\<lparr>al_warehouse = wh_id x, al_lines = rs\<rparr>]"
      unfolding plans by blast
    have "find_warehouse (wh_id x) s1 = Some x"
      unfolding find_warehouse_def opens(5) by (rule find_key [OF assms(2) x(1)])
    moreover have "holds_all (wh_id x) rs s1" using x(3) by (simp add: holds_all_def opens(4))
    moreover have "rc_reservation receipt \<notin> rn_reservation ` set (iv_lines s1)"
    proof -
      have "rc_reservation receipt = iv_next s" using op by (auto simp: open_reservation_def split: option.splits)
      then show ?thesis using assms(1) by (force simp: opens(2) wf_inventory_def wf_tables_def)
    qed
    ultimately obtain t where "reserve_in (rc_reservation receipt) (wh_id x) rs now s1 = Inr ([], t)"
      using reserve_in_takes [of s1 "wh_id x" x rs "rc_reservation receipt" now] opens(1) x(2) merged(1,2)
      unfolding takes_lines_def by metis
    then have "try_plans (rc_reservation receipt) now (plan # more) s1 = Inr (True, t)"
      by (simp add: plan reserve_all_def reserve_group_def)
    then show "returns (reserve_order order requests None ttl now s)"
      unfolding res reserve_seeing_def op by (simp add: policy_for_def pl)
  qed
qed

theorem reservation_succeeds_iff_stock_witness:
  "returns (reserve_order 60 [(7, Whole 2), (7, Whole 4)] None 1200 20 example_inventory) \<and>
   \<not> returns (reserve_order 60 [(7, Whole 9)] None 1200 20 example_inventory)"
proof
  have ids: "distinct (map wh_id (iv_warehouses example_inventory))"
    and none: "list_all (\<lambda>r. \<not> (rs_order r = 60 \<and> rs_status r = ReservationActive))
      (iv_reservations example_inventory)"
    by code_simp+
  have m: "merged_requests [(7, Whole 2), (7, Whole 4)] = Inr [\<lparr>rq_variant = 7, rq_quantity = 6\<rparr>]"
    and some: "\<exists>x\<in>set (iv_warehouses example_inventory). wh_is_active x \<and>
      holds_all (wh_id x) [\<lparr>rq_variant = 7, rq_quantity = 6\<rparr>] example_inventory"
    by code_simp+
  show "returns (reserve_order 60 [(7, Whole 2), (7, Whole 4)] None 1200 20 example_inventory)"
    using reservation_succeeds_iff_stock [OF example_inventory_wf(1) ids none m] some by blast
  have m9: "merged_requests [(7, Whole 9)] = Inr [\<lparr>rq_variant = 7, rq_quantity = 9\<rparr>]"
    and no: "\<not> (\<exists>x\<in>set (iv_warehouses example_inventory). wh_is_active x \<and>
      holds_all (wh_id x) [\<lparr>rq_variant = 7, rq_quantity = 9\<rparr>] example_inventory)"
    by code_simp+
  show "\<not> returns (reserve_order 60 [(7, Whole 9)] None 1200 20 example_inventory)"
    using reservation_succeeds_iff_stock [OF example_inventory_wf(1) ids none m9] no by blast
qed

end
