(* ===== verification/Payment.thy ===== *)
theory Payment
  imports Money
begin

text \<open>
  The payment of an order (\<open>payments/domain/payment.ts\<close>): its attempts, which only grow, and its refund.
  \<open>pm_added\<close>, \<open>pm_touched\<close> and \<open>pm_changed\<close> are what the repository must write; a
  payment as it is read has none of them.
\<close>

datatype payment_provider = MANUAL | PAYPAL

datatype payment_method = CASH | CARD_TERMINAL | TRANSFER

datatype payment_status =
    PaymentPending | RequiresAction | Authorized | Captured | PaymentFailed | PaymentCancelled
  | PartiallyRefunded | PaymentRefunded

fun provider_text :: "payment_provider \<Rightarrow> string" where
  "provider_text MANUAL = ''MANUAL''"
| "provider_text PAYPAL = ''PAYPAL''"

fun payment_status_name :: "payment_status \<Rightarrow> string" where
  "payment_status_name PaymentPending = ''PENDING''"
| "payment_status_name RequiresAction = ''REQUIRES_ACTION''"
| "payment_status_name Authorized = ''AUTHORIZED''"
| "payment_status_name Captured = ''CAPTURED''"
| "payment_status_name PaymentFailed = ''FAILED''"
| "payment_status_name PaymentCancelled = ''CANCELLED''"
| "payment_status_name PartiallyRefunded = ''PARTIALLY_REFUNDED''"
| "payment_status_name PaymentRefunded = ''REFUNDED''"

record payment_attempt =
  at_status :: payment_status
  at_reference :: "string option"
  at_method :: "payment_method option"
  at_failure :: "string option"
  at_registered_by :: "id option"
  at_note :: "string option"
  at_created :: time

datatype refund_status = RefundPending | RefundCompleted | RefundFailed

record refund =
  rf_id :: id
  rf_amount :: money
  rf_status :: refund_status
  rf_reference :: "string option"
  rf_registered_by :: "id option"
  rf_note :: "string option"
  rf_created :: time
  rf_completed :: "time option"

record payment =
  pm_id :: id
  pm_order :: id
  pm_code :: string
  pm_provider :: payment_provider
  pm_status :: payment_status
  pm_amount :: money
  pm_captured :: money
  pm_refunded :: money
  pm_provider_id :: "string option"
  pm_captured_at :: "time option"
  pm_attempts :: "payment_attempt list"
  pm_refunds :: "refund list"
  pm_version :: int
  pm_added :: "payment_attempt list"
  pm_touched :: "id list"
  pm_changed :: bool

definition add_attempt :: "payment_attempt \<Rightarrow> payment \<Rightarrow> payment" where
  "add_attempt a p = p\<lparr>pm_attempts := pm_attempts p @ [a], pm_added := pm_added p @ [a], pm_changed := True\<rparr>"

record payment_start_input =
  ps_id :: id
  ps_order :: id
  ps_code :: string
  ps_provider :: payment_provider
  ps_amount :: money

definition start_payment :: "payment_start_input \<Rightarrow> time \<Rightarrow> payment result" where
  "start_payment i now =
     (if money_is_zero (ps_amount i) then Inl (InvalidValueError ''A payment needs an amount above zero'')
      else
        let zero = money_zero (currency (ps_amount i))
        in Inr (add_attempt
             \<lparr>at_status = PaymentPending, at_reference = None, at_method = None, at_failure = None,
              at_registered_by = None, at_note = None, at_created = now\<rparr>
             \<lparr>pm_id = ps_id i, pm_order = ps_order i, pm_code = ps_code i, pm_provider = ps_provider i,
              pm_status = PaymentPending, pm_amount = ps_amount i, pm_captured = zero, pm_refunded = zero,
              pm_provider_id = None, pm_captured_at = None, pm_attempts = [], pm_refunds = [], pm_version = 1,
              pm_added = [], pm_touched = [], pm_changed = False\<rparr>))"

record capture_input =
  ci_reference :: string
  ci_method :: "payment_method option"
  ci_note :: "string option"
  ci_registered_by :: id

definition capture_manually :: "capture_input \<Rightarrow> time \<Rightarrow> payment \<Rightarrow> payment result" where
  "capture_manually i now p =
     (if pm_provider p \<noteq> MANUAL \<or> pm_status p \<noteq> PaymentPending
      then Inl (InvalidStateTransitionError (payment_status_name (pm_status p))
             (''capture a '' @ provider_text (pm_provider p) @ '' payment by hand''))
      else Inr (add_attempt
             \<lparr>at_status = Captured, at_reference = Some (ci_reference i), at_method = ci_method i, at_failure = None,
              at_registered_by = Some (ci_registered_by i), at_note = ci_note i, at_created = now\<rparr>
             (p\<lparr>pm_status := Captured, pm_captured := pm_amount p, pm_captured_at := Some now\<rparr>)))"

definition cancel_if_pending :: "payment \<Rightarrow> bool \<times> payment" where
  "cancel_if_pending p =
     (if pm_status p \<noteq> PaymentPending then (False, p)
      else (True, p\<lparr>pm_status := PaymentCancelled, pm_changed := True\<rparr>))"

definition active_refund :: "payment \<Rightarrow> refund option" where
  "active_refund p = find (\<lambda>r. rf_status r = RefundPending \<or> rf_status r = RefundCompleted) (pm_refunds p)"

definition put_refund :: "refund \<Rightarrow> payment \<Rightarrow> payment" where
  "put_refund r p =
     p\<lparr>pm_refunds := filter (\<lambda>x. rf_id x \<noteq> rf_id r) (pm_refunds p) @ [r],
       pm_touched := (if rf_id r \<in> set (pm_touched p) then pm_touched p else pm_touched p @ [rf_id r]),
       pm_changed := True\<rparr>"

definition start_refund :: "id \<Rightarrow> time \<Rightarrow> payment \<Rightarrow> (bool \<times> payment) result" where
  "start_refund i now p =
     (if active_refund p \<noteq> None then Inr (False, p)
      else if pm_status p \<noteq> Captured
      then Inl (InvalidStateTransitionError (payment_status_name (pm_status p)) ''start a refund'')
      else Inr (True, put_refund
             \<lparr>rf_id = i, rf_amount = pm_captured p, rf_status = RefundPending, rf_reference = None,
              rf_registered_by = None, rf_note = None, rf_created = now, rf_completed = None\<rparr> p))"

definition complete_manual_refund ::
  "string \<Rightarrow> string option \<Rightarrow> id \<Rightarrow> time \<Rightarrow> payment \<Rightarrow> (refund \<times> payment) result" where
  "complete_manual_refund reference remark registered_by now p =
     (let refused = Inl (InvalidStateTransitionError (payment_status_name (pm_status p))
             (''register the refund of a '' @ provider_text (pm_provider p) @ '' payment by hand''))
      in case active_refund p of
           None \<Rightarrow> refused
         | Some pending \<Rightarrow>
             if pm_provider p \<noteq> MANUAL \<or> rf_status pending \<noteq> RefundPending then refused
             else
               let completed = pending\<lparr>rf_status := RefundCompleted, rf_reference := Some reference,
                     rf_registered_by := Some registered_by, rf_note := remark, rf_completed := Some now\<rparr>
               in Inr (completed,
                    (put_refund completed p)\<lparr>pm_status := PaymentRefunded, pm_refunded := rf_amount pending\<rparr>))"

section \<open>What a payment keeps\<close>

text \<open>
  The money of a payment follows from its status: nothing was collected while it is pending, all of it was
  once it is captured, and all of it went back once it is refunded. Its refund is for the whole amount.
\<close>

fun money_agrees :: "payment_status \<Rightarrow> payment \<Rightarrow> bool" where
  "money_agrees PaymentPending p = (amount (pm_captured p) = 0 \<and> amount (pm_refunded p) = 0 \<and>
     pm_captured_at p = None \<and> pm_refunds p = [])"
| "money_agrees PaymentCancelled p = (amount (pm_captured p) = 0 \<and> amount (pm_refunded p) = 0 \<and>
     pm_captured_at p = None \<and> pm_refunds p = [])"
| "money_agrees Captured p = (pm_captured p = pm_amount p \<and> amount (pm_refunded p) = 0 \<and>
     pm_captured_at p \<noteq> None \<and>
     (pm_refunds p = [] \<or> (\<exists>r. pm_refunds p = [r] \<and> rf_status r = RefundPending \<and> rf_amount r = pm_amount p)))"
| "money_agrees PaymentRefunded p = (pm_captured p = pm_amount p \<and> pm_refunded p = pm_amount p \<and>
     pm_captured_at p \<noteq> None \<and>
     (\<exists>r. pm_refunds p = [r] \<and> rf_status r = RefundCompleted \<and> rf_amount r = pm_amount p))"
| "money_agrees _ p = False"

definition wf_payment :: "payment \<Rightarrow> bool" where
  "wf_payment p \<longleftrightarrow> 0 < amount (pm_amount p) \<and> money_agrees (pm_status p) p"

lemma add_attempt_simps [simp]:
  "pm_id (add_attempt a p) = pm_id p" "pm_order (add_attempt a p) = pm_order p"
  "pm_code (add_attempt a p) = pm_code p" "pm_provider (add_attempt a p) = pm_provider p"
  "pm_status (add_attempt a p) = pm_status p" "pm_amount (add_attempt a p) = pm_amount p"
  "pm_captured (add_attempt a p) = pm_captured p" "pm_refunded (add_attempt a p) = pm_refunded p"
  "pm_provider_id (add_attempt a p) = pm_provider_id p" "pm_captured_at (add_attempt a p) = pm_captured_at p"
  "pm_refunds (add_attempt a p) = pm_refunds p" "pm_version (add_attempt a p) = pm_version p"
  "pm_touched (add_attempt a p) = pm_touched p"
  by (simp_all add: add_attempt_def)

lemma put_refund_simps [simp]:
  "pm_id (put_refund r p) = pm_id p" "pm_order (put_refund r p) = pm_order p"
  "pm_provider (put_refund r p) = pm_provider p" "pm_status (put_refund r p) = pm_status p"
  "pm_amount (put_refund r p) = pm_amount p" "pm_captured (put_refund r p) = pm_captured p"
  "pm_refunded (put_refund r p) = pm_refunded p" "pm_captured_at (put_refund r p) = pm_captured_at p"
  "pm_version (put_refund r p) = pm_version p" "pm_attempts (put_refund r p) = pm_attempts p"
  "pm_added (put_refund r p) = pm_added p" "pm_provider_id (put_refund r p) = pm_provider_id p"
  by (simp_all add: put_refund_def)

lemma start_payment_Inr:
  "start_payment i now = Inr p \<Longrightarrow> valid_money (ps_amount i) \<Longrightarrow>
     wf_payment p \<and> pm_id p = ps_id i \<and> pm_order p = ps_order i \<and> pm_status p = PaymentPending
     \<and> pm_provider p = ps_provider i \<and> pm_amount p = ps_amount i \<and> pm_touched p = []"
  by (auto simp: start_payment_def Let_def wf_payment_def money_is_zero_def valid_money_def split: if_splits)

lemma capture_manually_Inr [res_simps]:
  "capture_manually i now p = Inr q \<longleftrightarrow>
     pm_provider p = MANUAL \<and> pm_status p = PaymentPending \<and>
     q = add_attempt \<lparr>at_status = Captured, at_reference = Some (ci_reference i), at_method = ci_method i,
           at_failure = None, at_registered_by = Some (ci_registered_by i), at_note = ci_note i, at_created = now\<rparr>
         (p\<lparr>pm_status := Captured, pm_captured := pm_amount p, pm_captured_at := Some now\<rparr>)"
  by (auto simp: capture_manually_def)

lemma capture_wf: "wf_payment p \<Longrightarrow> capture_manually i now p = Inr q \<Longrightarrow> wf_payment q"
  by (auto simp: res_simps wf_payment_def)

lemma cancel_wf: "wf_payment p \<Longrightarrow> wf_payment (snd (cancel_if_pending p))"
  by (auto simp: cancel_if_pending_def wf_payment_def)

lemma start_refund_wf:
  "wf_payment p \<Longrightarrow> start_refund i now p = Inr (started, q) \<Longrightarrow> wf_payment q"
  by (auto simp: start_refund_def wf_payment_def active_refund_def put_refund_def split: if_splits)

lemma complete_refund_status:
  "wf_payment p \<Longrightarrow> complete_manual_refund reference remark by now p = Inr (r, q) \<Longrightarrow>
     pm_status p = Captured \<and> (\<exists>x. pm_refunds p = [x] \<and> rf_status x = RefundPending) \<and> pm_status q = PaymentRefunded"
  by (cases "pm_status p")
    (auto simp: complete_manual_refund_def Let_def wf_payment_def active_refund_def split: if_splits option.splits)

lemma complete_refund_wf:
  assumes "wf_payment p" and "complete_manual_refund reference remark by now p = Inr (r, q)"
  shows "wf_payment q \<and> rf_amount r = pm_amount p"
  using assms complete_refund_status [OF assms]
  by (auto simp: complete_manual_refund_def Let_def wf_payment_def active_refund_def put_refund_def split: if_splits)

section \<open>The life of a payment\<close>

datatype payment_event =
    CaptureByHand capture_input time
  | CancelPending
  | StartRefund id time
  | CompleteRefund string "string option" id time

fun payment_step :: "payment \<Rightarrow> payment_event \<Rightarrow> payment result" where
  "payment_step p (CaptureByHand i now) = capture_manually i now p"
| "payment_step p CancelPending = Inr (snd (cancel_if_pending p))"
| "payment_step p (StartRefund i now) = res_bind (start_refund i now p) (\<lambda>(started, q). Inr q)"
| "payment_step p (CompleteRefund reference remark by now) =
     res_bind (complete_manual_refund reference remark by now p) (\<lambda>(r, q). Inr q)"

definition payment_moves :: "(payment_status \<times> payment_status) set" where
  "payment_moves = {(PaymentPending, Captured), (PaymentPending, PaymentCancelled), (Captured, PaymentRefunded)}"

lemma payment_step_wf: "wf_payment p \<Longrightarrow> payment_step p ev = Inr q \<Longrightarrow> wf_payment q"
  by (cases ev) (auto simp: res_simps intro: cancel_wf start_refund_wf dest: complete_refund_wf,
    auto simp: wf_payment_def)

lemma payment_step_moves:
  "wf_payment p \<Longrightarrow> payment_step p ev = Inr q \<Longrightarrow>
     pm_status q = pm_status p \<or> (pm_status p, pm_status q) \<in> payment_moves"
  by (cases ev) (auto simp: res_simps payment_moves_def cancel_if_pending_def start_refund_def
      split: if_splits dest: complete_refund_status)

interpretation payment_life: status_machine payment_step wf_payment pm_status payment_moves
  by unfold_locales (auto intro: payment_step_wf dest: payment_step_moves)

end
