(* ===== verification/Payments.thy ===== *)
theory Payments
  imports Payment
begin

text \<open>
  Payments (\<open>payments/application/payments.facade.ts\<close>): the tables of payments with their attempts and
  refunds, the settings row, the events it publishes, and the operations Ordering and the staff call. Each is
  one transaction; Ordering calls with its order locked, so the operations on one payment follow each other.
  The attempts and refunds of a row are in the order they were written. The unique index of one payment per
  order is left out of the insert: that it is never needed is part of the invariant.
\<close>

datatype payments_event =
    PaymentCapturedEvent id id money time
  | RefundCompletedEvent id id id money time

record payments_db =
  pd_payments :: "payment list"
  pd_manual_enabled :: bool
  pd_settings_version :: int
  pd_events :: "payments_event list"

section \<open>The statements of the repository\<close>

definition find_payment_of :: "id \<Rightarrow> payments_db \<Rightarrow> payment option" where
  "find_payment_of order d = find (\<lambda>p. pm_order p = order) (pd_payments d)"

definition lock_payment :: "id \<Rightarrow> payments_db \<Rightarrow> payment option" where
  "lock_payment i d = find (\<lambda>p. pm_id p = i) (pd_payments d)"

definition payment_as_read :: "payment \<Rightarrow> payment" where
  "payment_as_read p = p\<lparr>pm_added := [], pm_touched := [], pm_changed := False\<rparr>"

definition insert_payment :: "payment \<Rightarrow> payments_db \<Rightarrow> payments_db result" where
  "insert_payment p d =
     (if lock_payment (pm_id p) d \<noteq> None then Inl (PlainError ''payments_pkey'')
      else Inr (d\<lparr>pd_payments := pd_payments d @
        [payment_as_read (p\<lparr>pm_version := 1, pm_attempts := pm_added p, pm_refunds := []\<rparr>)]\<rparr>))"

text \<open>A refund is created when it is new; of one that exists, its amount and date of creation stay.\<close>

definition write_refund :: "refund \<Rightarrow> refund list \<Rightarrow> refund list" where
  "write_refund r rows =
     (if \<exists>x\<in>set rows. rf_id x = rf_id r
      then map (\<lambda>x. if rf_id x = rf_id r
                     then x\<lparr>rf_status := rf_status r, rf_reference := rf_reference r,
                            rf_registered_by := rf_registered_by r, rf_note := rf_note r,
                            rf_completed := rf_completed r\<rparr> else x) rows
      else rows @ [r])"

definition touched_refunds :: "payment \<Rightarrow> refund list" where
  "touched_refunds p = filter (\<lambda>r. rf_id r \<in> set (pm_touched p)) (pm_refunds p)"

definition saved_payment :: "payment \<Rightarrow> payment \<Rightarrow> payment" where
  "saved_payment p row =
     payment_as_read (row\<lparr>pm_status := pm_status p, pm_captured := pm_captured p, pm_refunded := pm_refunded p,
       pm_provider_id := pm_provider_id p, pm_captured_at := pm_captured_at p, pm_version := pm_version row + 1,
       pm_attempts := pm_attempts row @ pm_added p,
       pm_refunds := fold write_refund (touched_refunds p) (pm_refunds row)\<rparr>)"

definition save_payment :: "payment \<Rightarrow> payments_db \<Rightarrow> payments_db result" where
  "save_payment p d =
     (case lock_payment (pm_id p) d of
        None \<Rightarrow> Inl (PlainError ''No record was found for a query'')
      | Some row \<Rightarrow>
          if pm_version row \<noteq> pm_version p then Inl (VersionConflictError (pm_version row))
          else Inr (d\<lparr>pd_payments :=
            map (\<lambda>x. if pm_id x = pm_id p then saved_payment p x else x) (pd_payments d)\<rparr>))"

definition publish :: "payments_event \<Rightarrow> payments_db \<Rightarrow> payments_db" where
  "publish e d = d\<lparr>pd_events := pd_events d @ [e]\<rparr>"

section \<open>What Ordering asks\<close>

definition assert_manual_payments_enabled :: "payments_db \<Rightarrow> unit result" where
  "assert_manual_payments_enabled d =
     (if \<not> pd_manual_enabled d then Inl (PaymentError ManualPaymentsDisabledError) else Inr ())"

definition assert_provider_enabled :: "payment_provider \<Rightarrow> payments_db \<Rightarrow> unit result" where
  "assert_provider_enabled provider d =
     (if provider \<noteq> MANUAL \<or> \<not> pd_manual_enabled d
      then Inl (PaymentError (ProviderNotEnabledError (provider_text provider))) else Inr ())"

record payment_request =
  pr_order :: id
  pr_code :: string
  pr_amount :: money

definition new_payment_of :: "id \<Rightarrow> payment_request \<Rightarrow> payment_provider \<Rightarrow> time \<Rightarrow> payment result" where
  "new_payment_of fresh r provider now =
     start_payment \<lparr>ps_id = fresh, ps_order = pr_order r, ps_code = pr_code r, ps_provider = provider,
       ps_amount = pr_amount r\<rparr> now"

text \<open>The payment, and whether this call started it.\<close>

definition start_order_payment ::
  "id \<Rightarrow> payment_request \<Rightarrow> payment_provider \<Rightarrow> time \<Rightarrow> payments_db \<Rightarrow> ((payment \<times> bool) \<times> payments_db) result" where
  "start_order_payment fresh r provider now d =
     res_bind (assert_provider_enabled provider d) (\<lambda>_.
       case find_payment_of (pr_order r) d of
         Some existing \<Rightarrow>
           if pm_provider existing \<noteq> provider \<or> pm_status existing \<noteq> PaymentPending
           then Inl (InvalidStateTransitionError (payment_status_name (pm_status existing))
                  (''start a '' @ provider_text provider @ '' payment''))
           else Inr ((existing, False), d)
       | None \<Rightarrow>
           res_bind (new_payment_of fresh r provider now) (\<lambda>p.
           res_bind (insert_payment p d) (\<lambda>d'. Inr ((p, True), d'))))"

definition capture_order_payment ::
  "id \<Rightarrow> payment_request \<Rightarrow> capture_input \<Rightarrow> time \<Rightarrow> payments_db \<Rightarrow> payments_db result" where
  "capture_order_payment fresh r i now d =
     res_bind (assert_manual_payments_enabled d) (\<lambda>_.
       let existing = find_payment_of (pr_order r) d
       in res_bind (case existing of Some p \<Rightarrow> Inr p | None \<Rightarrow> new_payment_of fresh r MANUAL now) (\<lambda>p.
          res_bind (capture_manually i now p) (\<lambda>captured.
          res_bind (if existing = None then insert_payment captured d else save_payment captured d) (\<lambda>d'.
            Inr (publish (PaymentCapturedEvent (pm_id captured) (pm_order captured) (pm_amount captured) now) d')))))"

definition start_refund_of :: "id \<Rightarrow> id \<Rightarrow> time \<Rightarrow> payments_db \<Rightarrow> payments_db result" where
  "start_refund_of fresh order now d =
     (case find_payment_of order d of
        None \<Rightarrow> Inl (PlainError ''The order has no payment to refund'')
      | Some p \<Rightarrow>
          res_bind (start_refund fresh now p) (\<lambda>(started, q).
            if started then save_payment q d else Inr d))"

definition cancel_pending_of :: "id \<Rightarrow> time \<Rightarrow> payments_db \<Rightarrow> payments_db result" where
  "cancel_pending_of order now d =
     (case find_payment_of order d of
        None \<Rightarrow> Inr d
      | Some p \<Rightarrow>
          let (cancelled, q) = cancel_if_pending p in if cancelled then save_payment q d else Inr d)"

definition register_manual_refund ::
  "id \<Rightarrow> string \<Rightarrow> string option \<Rightarrow> int \<Rightarrow> id \<Rightarrow> time \<Rightarrow> payments_db \<Rightarrow> payments_db result" where
  "register_manual_refund i reference remark version staff now d =
     res_bind (assert_manual_payments_enabled d) (\<lambda>_.
       case lock_payment i d of
         None \<Rightarrow> Inl (NotFoundError ''Payment'' i)
       | Some p \<Rightarrow>
           res_bind (assert_version (pm_version p) version) (\<lambda>_.
           res_bind (complete_manual_refund reference remark staff now p) (\<lambda>(refund, q).
           res_bind (save_payment q d) (\<lambda>d'.
             Inr (publish (RefundCompletedEvent (rf_id refund) (pm_id q) (pm_order q) (rf_amount refund) now) d')))))"

text \<open>The settings change only when they are different; the version sent must be the stored one.\<close>

definition configure_payments :: "bool \<Rightarrow> int \<Rightarrow> payments_db \<Rightarrow> payments_db result" where
  "configure_payments enabled version d =
     res_bind (assert_version (pd_settings_version d) version) (\<lambda>_.
       if enabled = pd_manual_enabled d then Inr d
       else Inr (d\<lparr>pd_manual_enabled := enabled, pd_settings_version := pd_settings_version d + 1\<rparr>))"

datatype payments_op =
    StartPayment id payment_request payment_provider time
  | CapturePayment id payment_request capture_input time
  | StartOrderRefund id id time
  | CancelOrderPayment id time
  | RegisterRefund id string "string option" int id time
  | ConfigurePayments bool int

fun payments_step :: "payments_db \<Rightarrow> payments_op \<Rightarrow> payments_db result" where
  "payments_step d (StartPayment fresh r provider now) =
     res_bind (start_order_payment fresh r provider now d) (\<lambda>(answer, d'). Inr d')"
| "payments_step d (CapturePayment fresh r i now) = capture_order_payment fresh r i now d"
| "payments_step d (StartOrderRefund fresh order now) = start_refund_of fresh order now d"
| "payments_step d (CancelOrderPayment order now) = cancel_pending_of order now d"
| "payments_step d (RegisterRefund i reference remark version staff now) =
     register_manual_refund i reference remark version staff now d"
| "payments_step d (ConfigurePayments enabled version) = configure_payments enabled version d"

text \<open>The amount Ordering sends is the total of an order: an amount of money.\<close>

fun asks_money :: "payments_op \<Rightarrow> bool" where
  "asks_money (StartPayment fresh r provider now) = valid_money (pr_amount r)"
| "asks_money (CapturePayment fresh r i now) = valid_money (pr_amount r)"
| "asks_money _ = True"

section \<open>What the tables keep\<close>

fun is_capture_of :: "id \<Rightarrow> payments_event \<Rightarrow> bool" where
  "is_capture_of i (PaymentCapturedEvent p order a at) = (p = i)"
| "is_capture_of i _ = False"

fun is_refund_of :: "id \<Rightarrow> payments_event \<Rightarrow> bool" where
  "is_refund_of i (RefundCompletedEvent r p order a at) = (p = i)"
| "is_refund_of i _ = False"

fun event_agrees :: "payment list \<Rightarrow> payments_event \<Rightarrow> bool" where
  "event_agrees ps (PaymentCapturedEvent i order a at) =
     (\<exists>p\<in>set ps. pm_id p = i \<and> pm_order p = order \<and> pm_amount p = a)"
| "event_agrees ps (RefundCompletedEvent r i order a at) =
     (\<exists>p\<in>set ps. pm_id p = i \<and> pm_order p = order \<and> pm_amount p = a)"

text \<open>Once captured, and once refunded: as many events of a payment as its status says.\<close>

definition events_count :: "payments_event list \<Rightarrow> payment \<Rightarrow> bool" where
  "events_count es p \<longleftrightarrow>
     length (filter (is_capture_of (pm_id p)) es) = (if pm_status p \<in> {Captured, PaymentRefunded} then 1 else 0) \<and>
     length (filter (is_refund_of (pm_id p)) es) = (if pm_status p = PaymentRefunded then 1 else 0)"

definition clean_payment :: "payment \<Rightarrow> bool" where
  "clean_payment p \<longleftrightarrow> pm_added p = [] \<and> pm_touched p = [] \<and> \<not> pm_changed p"

definition wf_payments :: "payments_db \<Rightarrow> bool" where
  "wf_payments d \<longleftrightarrow>
     distinct (map pm_id (pd_payments d)) \<and> distinct (map pm_order (pd_payments d)) \<and>
     (\<forall>p\<in>set (pd_payments d). wf_payment p \<and> clean_payment p \<and> events_count (pd_events d) p) \<and>
     (\<forall>e\<in>set (pd_events d). event_agrees (pd_payments d) e)"

lemma find_payment_SomeD: "find_payment_of order d = Some p \<Longrightarrow> p \<in> set (pd_payments d) \<and> pm_order p = order"
  unfolding find_payment_of_def by (drule find_SomeD) simp

lemma lock_payment_SomeD: "lock_payment i d = Some p \<Longrightarrow> p \<in> set (pd_payments d) \<and> pm_id p = i"
  unfolding lock_payment_def by (drule find_SomeD) simp

lemma lock_payment_in:
  "distinct (map pm_id (pd_payments d)) \<Longrightarrow> p \<in> set (pd_payments d) \<Longrightarrow> lock_payment (pm_id p) d = Some p"
  unfolding lock_payment_def by (rule find_key)

lemma as_read_payment_simps [simp]:
  "pm_id (payment_as_read p) = pm_id p" "pm_order (payment_as_read p) = pm_order p"
  "pm_amount (payment_as_read p) = pm_amount p" "pm_status (payment_as_read p) = pm_status p"
  "clean_payment (payment_as_read p)"
  by (simp_all add: payment_as_read_def clean_payment_def)

lemma wf_version [simp]: "wf_payment (p\<lparr>pm_version := n\<rparr>) = wf_payment p"
  unfolding wf_payment_def by (cases "pm_status p") simp_all

lemma wf_as_read [simp]: "wf_payment (payment_as_read p) = wf_payment p"
  unfolding wf_payment_def payment_as_read_def by (cases "pm_status p") simp_all

text \<open>A payment of the table, changed by one of its operations, is stored exactly as it is.\<close>

lemma saved_payment_exact:
  assumes wf: "wf_payment p" and clean: "clean_payment p" and step: "payment_step p ev = Inr q"
  shows "saved_payment q p = payment_as_read (q\<lparr>pm_version := pm_version p + 1\<rparr>)"
proof (cases ev)
  case (CaptureByHand i now)
  with step clean show ?thesis
    by (auto simp: res_simps saved_payment_def payment_as_read_def clean_payment_def touched_refunds_def
        add_attempt_def)
next
  case CancelPending
  with step clean show ?thesis
    by (cases p) (auto simp: cancel_if_pending_def saved_payment_def payment_as_read_def clean_payment_def
        touched_refunds_def split: if_splits)
next
  case (StartRefund i now)
  with step clean wf show ?thesis
    by (cases p) (auto simp: res_simps start_refund_def saved_payment_def payment_as_read_def clean_payment_def
        touched_refunds_def put_refund_def wf_payment_def active_refund_def write_refund_def split: if_splits)
next
  case (CompleteRefund reference remark staff now)
  with step obtain r where r: "complete_manual_refund reference remark staff now p = Inr (r, q)"
    by (auto simp: res_simps)
  from complete_refund_status [OF wf r] obtain x where x: "pm_refunds p = [x]" "rf_status x = RefundPending" by blast
  with r clean show ?thesis
    by (cases p) (auto simp: complete_manual_refund_def Let_def active_refund_def saved_payment_def
        payment_as_read_def clean_payment_def touched_refunds_def put_refund_def write_refund_def split: if_splits)
qed

lemma payment_step_frame:
  "payment_step p ev = Inr q \<Longrightarrow> pm_id q = pm_id p \<and> pm_order q = pm_order p \<and> pm_amount q = pm_amount p
     \<and> pm_version q = pm_version p"
  by (cases ev) (auto simp: res_simps cancel_if_pending_def start_refund_def complete_manual_refund_def Let_def
      split: if_splits option.splits)

definition replace_payment :: "payment \<Rightarrow> payments_event list \<Rightarrow> payments_db \<Rightarrow> payments_db" where
  "replace_payment q new d =
     d\<lparr>pd_payments := map (\<lambda>x. if pm_id x = pm_id q then q else x) (pd_payments d), pd_events := pd_events d @ new\<rparr>"

lemma save_changed:
  assumes wf: "wf_payments d" and p: "p \<in> set (pd_payments d)" and step: "payment_step p ev = Inr q"
  shows "save_payment q d = Inr (replace_payment (payment_as_read (q\<lparr>pm_version := pm_version p + 1\<rparr>)) [] d)"
proof -
  have ids: "distinct (map pm_id (pd_payments d))" and clean: "wf_payment p" "clean_payment p"
    using wf p by (simp_all add: wf_payments_def)
  note frame = payment_step_frame [OF step]
  have row: "lock_payment (pm_id q) d = Some p" using lock_payment_in [OF ids p] frame by simp
  have only: "x = p" if "x \<in> set (pd_payments d)" "pm_id x = pm_id p" for x
    by (rule same_key [OF ids that(1) p that(2)])
  have "map (\<lambda>x. if pm_id x = pm_id q then saved_payment q x else x) (pd_payments d)
      = map (\<lambda>x. if pm_id x = pm_id q then payment_as_read (q\<lparr>pm_version := pm_version p + 1\<rparr>) else x) (pd_payments d)"
    using only frame saved_payment_exact [OF clean step] by (auto intro!: map_cong)
  then show ?thesis using row frame by (simp add: save_payment_def replace_payment_def)
qed

lemma replace_wf:
  assumes wf: "wf_payments d" and p: "p \<in> set (pd_payments d)"
    and q: "pm_id q = pm_id p" "pm_order q = pm_order p" "pm_amount q = pm_amount p" "wf_payment q" "clean_payment q"
    and new: "\<And>e i. e \<in> set new \<Longrightarrow> event_agrees [q] e \<and> (is_capture_of i e \<or> is_refund_of i e \<longrightarrow> i = pm_id p)"
    and count: "events_count (pd_events d @ new) q"
  shows "wf_payments (replace_payment q new d)"
proof -
  let ?ps = "map (\<lambda>x. if pm_id x = pm_id q then q else x) (pd_payments d)"
  have ids: "distinct (map pm_id (pd_payments d))" "distinct (map pm_order (pd_payments d))"
    using wf by (simp_all add: wf_payments_def)
  have only: "x = p" if "x \<in> set (pd_payments d)" "pm_id x = pm_id p" for x
    by (rule same_key [OF ids(1) that(1) p that(2)])
  have same: "map pm_id ?ps = map pm_id (pd_payments d)" "map pm_order ?ps = map pm_order (pd_payments d)"
    using only q by (auto intro!: map_cong)
  have other: "events_count (pd_events d @ new) x" if "x \<in> set (pd_payments d)" "pm_id x \<noteq> pm_id p" for x
  proof -
    have "filter (is_capture_of (pm_id x)) new = []" "filter (is_refund_of (pm_id x)) new = []"
      using new that(2) by (auto simp: filter_empty_conv)
    with wf that(1) show ?thesis by (simp add: wf_payments_def events_count_def)
  qed
  have there: "q \<in> set ?ps" using p q(1) by force
  have kept: "x \<in> set ?ps" if "x \<in> set (pd_payments d)" "pm_id x \<noteq> pm_id p" for x using that q(1) by force
  have agrees: "event_agrees ?ps e" if "event_agrees (pd_payments d) e" for e
  proof -
    have "\<exists>y\<in>set ?ps. pm_id y = pm_id x \<and> pm_order y = pm_order x \<and> pm_amount y = pm_amount x"
      if "x \<in> set (pd_payments d)" for x
      using there kept [OF that] only [OF that] q by (cases "pm_id x = pm_id p") auto
    with that show ?thesis by (cases e) (simp_all, metis+)
  qed
  have fresh: "event_agrees ?ps e" if "e \<in> set new" for e
    using new [OF that] there by (cases e) (auto simp del: set_map)
  have "\<forall>x\<in>set ?ps. wf_payment x \<and> clean_payment x \<and> events_count (pd_events d @ new) x"
    using wf other q count by (auto simp: wf_payments_def)
  moreover have "\<forall>e\<in>set (pd_events d @ new). event_agrees ?ps e"
    using wf agrees fresh by (auto simp: wf_payments_def)
  moreover have fields: "pd_payments (replace_payment q new d) = ?ps"
      "pd_events (replace_payment q new d) = pd_events d @ new" by (simp_all add: replace_payment_def)
  ultimately show ?thesis using ids unfolding wf_payments_def fields same by blast
qed

lemma insert_wf_payments:
  assumes wf: "wf_payments d" and q: "wf_payment q" "clean_payment q"
    and fresh: "lock_payment (pm_id q) d = None" "find_payment_of (pm_order q) d = None"
    and new: "\<And>e i. e \<in> set new \<Longrightarrow> event_agrees [q] e \<and> (is_capture_of i e \<or> is_refund_of i e \<longrightarrow> i = pm_id q)"
    and count: "events_count new q"
  shows "wf_payments (d\<lparr>pd_payments := pd_payments d @ [q], pd_events := pd_events d @ new\<rparr>)"
proof -
  have ids: "pm_id q \<notin> pm_id ` set (pd_payments d)" "pm_order q \<notin> pm_order ` set (pd_payments d)"
    using fresh by (auto simp: lock_payment_def find_payment_of_def find_None_iff)
  have none: "filter (is_capture_of (pm_id q)) (pd_events d) = []" "filter (is_refund_of (pm_id q)) (pd_events d) = []"
  proof -
    have "\<not> is_capture_of (pm_id q) e \<and> \<not> is_refund_of (pm_id q) e" if "e \<in> set (pd_events d)" for e
    proof -
      have "event_agrees (pd_payments d) e" using wf that by (simp add: wf_payments_def)
      then show ?thesis using ids(1) by (cases e) (force simp: image_iff)+
    qed
    then show "filter (is_capture_of (pm_id q)) (pd_events d) = []" "filter (is_refund_of (pm_id q)) (pd_events d) = []"
      by (auto simp: filter_empty_conv)
  qed
  have other: "events_count (pd_events d @ new) x" if "x \<in> set (pd_payments d)" for x
  proof -
    have "pm_id x \<noteq> pm_id q" using ids(1) that by (metis imageI)
    then have "filter (is_capture_of (pm_id x)) new = []" "filter (is_refund_of (pm_id x)) new = []"
      using new by (auto simp: filter_empty_conv)
    with wf that show ?thesis by (simp add: wf_payments_def events_count_def)
  qed
  have agrees: "event_agrees (pd_payments d @ [q]) e" if "event_agrees (pd_payments d) e \<or> event_agrees [q] e" for e
    using that by (cases e) auto
  from count none have "events_count (pd_events d @ new) q" by (simp add: events_count_def)
  with wf q ids other agrees new show ?thesis by (auto simp: wf_payments_def)
qed

lemma publish_replace: "publish e (replace_payment q [] d) = replace_payment q [e] d"
  by (simp add: publish_def replace_payment_def)

section \<open>Every operation keeps them\<close>

lemma changed_row:
  assumes "wf_payments d" and "p \<in> set (pd_payments d)" and "payment_step p ev = Inr q"
  shows "wf_payment q" and "wf_payment p" and "events_count (pd_events d) p"
  using assms payment_life.step_inv by (auto simp: wf_payments_def)

text \<open>A change that publishes as many events as the status asks for.\<close>

lemma change_publishing:
  assumes wf: "wf_payments d" and p: "p \<in> set (pd_payments d)" and step: "payment_step p ev = Inr q"
    and new: "\<And>e i. e \<in> set new \<Longrightarrow> event_agrees [q] e \<and> (is_capture_of i e \<or> is_refund_of i e \<longrightarrow> i = pm_id p)"
    and count: "events_count (pd_events d @ new) q"
  shows "wf_payments (replace_payment (payment_as_read (q\<lparr>pm_version := pm_version p + 1\<rparr>)) new d)"
proof (rule replace_wf [OF wf p])
  note frame = payment_step_frame [OF step] and q = changed_row(1) [OF wf p step]
  show "wf_payment (payment_as_read (q\<lparr>pm_version := pm_version p + 1\<rparr>))"
    using q by simp
  show "event_agrees [payment_as_read (q\<lparr>pm_version := pm_version p + 1\<rparr>)] e
      \<and> (is_capture_of i e \<or> is_refund_of i e \<longrightarrow> i = pm_id p)" if "e \<in> set new" for e i
    using new [OF that, of i] by (cases e) auto
  show "events_count (pd_events d @ new) (payment_as_read (q\<lparr>pm_version := pm_version p + 1\<rparr>))"
    using count by (simp add: events_count_def)
qed (use payment_step_frame [OF step] in simp_all)

lemma start_payment_wf:
  assumes wf: "wf_payments d" and money: "valid_money (pr_amount r)"
    and step: "start_order_payment fresh r provider now d = Inr (answer, d')"
  shows "wf_payments d'"
proof (cases "find_payment_of (pr_order r) d")
  case (Some p)
  with step wf show ?thesis by (auto simp: start_order_payment_def res_simps split: if_splits)
next
  case None
  with step obtain p where p: "new_payment_of fresh r provider now = Inr p" "insert_payment p d = Inr d'"
    by (auto simp: start_order_payment_def res_simps)
  from p(1) have start: "wf_payment p \<and> pm_id p = fresh \<and> pm_order p = pr_order r \<and> pm_status p = PaymentPending"
    unfolding new_payment_of_def by (drule_tac start_payment_Inr) (simp_all add: money)
  define q where "q = payment_as_read (p\<lparr>pm_version := 1, pm_attempts := pm_added p, pm_refunds := []\<rparr>)"
  have "wf_payment q" using start by (auto simp: q_def wf_payment_def payment_as_read_def)
  moreover have "d' = d\<lparr>pd_payments := pd_payments d @ [q], pd_events := pd_events d @ []\<rparr>"
    and "lock_payment (pm_id q) d = None"
    using p(2) by (auto simp: insert_payment_def q_def split: if_splits)
  ultimately show ?thesis
    using insert_wf_payments [OF wf, of q "[]"] None start by (simp add: q_def events_count_def)
qed

lemma capture_payment_wf:
  assumes wf: "wf_payments d" and money: "valid_money (pr_amount r)"
    and step: "capture_order_payment fresh r i now d = Inr d'"
  shows "wf_payments d'"
proof (cases "find_payment_of (pr_order r) d")
  case (Some p)
  from find_payment_SomeD [OF this] have p: "p \<in> set (pd_payments d)" by simp
  from Some step obtain q u where q: "capture_manually i now p = Inr q" "save_payment q d = Inr u"
      and d': "d' = publish (PaymentCapturedEvent (pm_id q) (pm_order q) (pm_amount q) now) u"
    by (auto simp: capture_order_payment_def Let_def res_simps)
  then have ev: "payment_step p (CaptureByHand i now) = Inr q" by simp
  note frame = payment_step_frame [OF ev] and row = changed_row [OF wf p ev]
  have status: "pm_status p = PaymentPending" "pm_status q = Captured" using q(1) by (auto simp: res_simps)
  have "wf_payments (replace_payment (payment_as_read (q\<lparr>pm_version := pm_version p + 1\<rparr>))
      [PaymentCapturedEvent (pm_id q) (pm_order q) (pm_amount q) now] d)"
    by (rule change_publishing [OF wf p ev]) (use row(3) status frame in \<open>auto simp: events_count_def\<close>)
  moreover have "u = replace_payment (payment_as_read (q\<lparr>pm_version := pm_version p + 1\<rparr>)) [] d"
    using q(2) save_changed [OF wf p ev] by simp
  ultimately show ?thesis by (simp add: d' publish_replace)
next
  case None
  with step obtain p q u where p: "new_payment_of fresh r MANUAL now = Inr p"
      and q: "capture_manually i now p = Inr q" "insert_payment q d = Inr u"
      and d': "d' = publish (PaymentCapturedEvent (pm_id q) (pm_order q) (pm_amount q) now) u"
    by (auto simp: capture_order_payment_def Let_def res_simps)
  from p have start: "wf_payment p \<and> pm_id p = fresh \<and> pm_order p = pr_order r \<and> pm_status p = PaymentPending"
    unfolding new_payment_of_def by (drule_tac start_payment_Inr) (simp_all add: money)
  have wf_q: "wf_payment q" and status: "pm_status q = Captured" and order: "pm_order q = pr_order r"
      and refunds: "pm_refunds q = []"
    using capture_wf [OF _ q(1)] q(1) start by (auto simp: res_simps wf_payment_def)
  define x where "x = payment_as_read (q\<lparr>pm_version := 1, pm_attempts := pm_added q, pm_refunds := []\<rparr>)"
  have "wf_payment x" using wf_q status refunds by (simp add: x_def wf_payment_def payment_as_read_def)
  moreover have "d' = d\<lparr>pd_payments := pd_payments d @ [x],
      pd_events := pd_events d @ [PaymentCapturedEvent (pm_id x) (pm_order x) (pm_amount x) now]\<rparr>"
    and "lock_payment (pm_id x) d = None"
    using q(2) d' by (auto simp: insert_payment_def x_def publish_def split: if_splits)
  ultimately show ?thesis
    using insert_wf_payments [OF wf, of x "[PaymentCapturedEvent (pm_id x) (pm_order x) (pm_amount x) now]"]
      None status order by (simp add: x_def events_count_def)
qed

text \<open>A change of the table that publishes nothing and moves between statuses that have the same events.\<close>

lemma silent_change:
  assumes wf: "wf_payments d" and p: "p \<in> set (pd_payments d)" and step: "payment_step p ev = Inr q"
    and save: "save_payment q d = Inr d'" and status: "pm_status q = pm_status p \<or> pm_status q = PaymentCancelled"
  shows "wf_payments d'"
proof -
  note frame = payment_step_frame [OF step] and row = changed_row [OF wf p step]
  have "pm_status q \<in> {Captured, PaymentRefunded} \<longleftrightarrow> pm_status p \<in> {Captured, PaymentRefunded}"
      "pm_status q = PaymentRefunded \<longleftrightarrow> pm_status p = PaymentRefunded"
    using status payment_step_moves [OF row(2) step] by (auto simp: payment_moves_def)
  with row(3) frame have "events_count (pd_events d) q" by (simp add: events_count_def)
  with change_publishing [OF wf p step, of "[]"] save save_changed [OF wf p step] show ?thesis by simp
qed

lemma start_refund_of_wf:
  assumes wf: "wf_payments d" and step: "start_refund_of fresh order now d = Inr d'"
  shows "wf_payments d'"
proof -
  from step obtain p where p: "find_payment_of order d = Some p"
    by (auto simp: start_refund_of_def split: option.splits)
  from find_payment_SomeD [OF this] have row: "p \<in> set (pd_payments d)" by simp
  from step p obtain started q where q: "start_refund fresh now p = Inr (started, q)"
      "(if started then save_payment q d else Inr d) = Inr d'"
    by (auto simp: start_refund_of_def res_simps)
  show ?thesis
  proof (cases started)
    case True
    have "payment_step p (StartRefund fresh now) = Inr q" using q(1) by simp
    from silent_change [OF wf row this] True q show ?thesis
      by (auto simp: start_refund_def split: if_splits)
  qed (use q wf in simp)
qed

lemma cancel_pending_wf:
  assumes wf: "wf_payments d" and step: "cancel_pending_of order now d = Inr d'"
  shows "wf_payments d'"
proof (cases "find_payment_of order d")
  case None
  with step wf show ?thesis by (simp add: cancel_pending_of_def)
next
  case (Some p)
  from find_payment_SomeD [OF this] have row: "p \<in> set (pd_payments d)" by simp
  have "payment_step p CancelPending = Inr (snd (cancel_if_pending p))" by simp
  from silent_change [OF wf row this] Some step wf show ?thesis
    by (auto simp: cancel_pending_of_def cancel_if_pending_def split: if_splits)
qed

lemma register_refund_wf:
  assumes wf: "wf_payments d" and step: "register_manual_refund i reference remark version staff now d = Inr d'"
  shows "wf_payments d'"
proof -
  from step obtain p r q u where p: "lock_payment i d = Some p"
      and q: "complete_manual_refund reference remark staff now p = Inr (r, q)" "save_payment q d = Inr u"
      and d': "d' = publish (RefundCompletedEvent (rf_id r) (pm_id q) (pm_order q) (rf_amount r) now) u"
    by (auto simp: register_manual_refund_def res_simps split: option.splits)
  from lock_payment_SomeD [OF p] have row: "p \<in> set (pd_payments d)" by simp
  from q(1) have ev: "payment_step p (CompleteRefund reference remark staff now) = Inr q" by simp
  note frame = payment_step_frame [OF ev] and old = changed_row [OF wf row ev]
  note status = complete_refund_status [OF old(2) q(1)] complete_refund_wf [OF old(2) q(1)]
  have "wf_payments (replace_payment (payment_as_read (q\<lparr>pm_version := pm_version p + 1\<rparr>))
      [RefundCompletedEvent (rf_id r) (pm_id q) (pm_order q) (rf_amount r) now] d)"
    by (rule change_publishing [OF wf row ev]) (use old(3) status frame in \<open>auto simp: events_count_def\<close>)
  moreover have "u = replace_payment (payment_as_read (q\<lparr>pm_version := pm_version p + 1\<rparr>)) [] d"
    using q(2) save_changed [OF wf row ev] by simp
  ultimately show ?thesis by (simp add: d' publish_replace)
qed

lemma configure_wf: "wf_payments d \<Longrightarrow> configure_payments enabled version d = Inr d' \<Longrightarrow> wf_payments d'"
  by (auto simp: configure_payments_def res_simps wf_payments_def split: if_splits)

lemma payments_step_wf:
  assumes "wf_payments d" and "asks_money op" and "payments_step d op = Inr d'"
  shows "wf_payments d'"
proof (cases op)
  case (StartPayment fresh r provider now)
  with assms show ?thesis by (auto simp: res_simps intro: start_payment_wf)
next
  case (CapturePayment fresh r i now)
  with assms show ?thesis by (auto intro: capture_payment_wf)
next
  case (StartOrderRefund fresh order now)
  with assms show ?thesis by (auto intro: start_refund_of_wf)
next
  case (CancelOrderPayment order now)
  with assms show ?thesis by (auto intro: cancel_pending_wf)
next
  case (RegisterRefund i reference remark version staff now)
  with assms show ?thesis by (auto intro: register_refund_wf)
next
  case (ConfigurePayments enabled version)
  with assms show ?thesis by (auto intro: configure_wf)
qed

interpretation payments_life: guarded_lifecycle payments_step wf_payments asks_money
  by unfold_locales (rule payments_step_wf)

section \<open>Guarantees\<close>

definition new_payments :: "bool \<Rightarrow> payments_db" where
  "new_payments enabled = \<lparr>pd_payments = [], pd_manual_enabled = enabled, pd_settings_version = 1, pd_events = []\<rparr>"

lemma new_payments_wf [simp]: "wf_payments (new_payments enabled)"
  by (simp add: new_payments_def wf_payments_def)

lemma payments_run_wf: "list_all asks_money ops \<Longrightarrow> wf_payments (run payments_step (new_payments enabled) ops)"
  by (rule payments_life.sound_run_inv) simp_all

text \<open>
  C6. Whatever is asked of Payments, in any order, an order has at most one payment, what was refunded never
  passes what was captured nor that the amount of the payment, and a payment is captured and refunded whole.
\<close>

theorem payments_balance:
  assumes "list_all asks_money ops" and "d = run payments_step (new_payments enabled) ops"
  shows "distinct (map pm_order (pd_payments d)) \<and>
     list_all (\<lambda>p. amount (pm_refunded p) \<le> amount (pm_captured p) \<and> amount (pm_captured p) \<le> amount (pm_amount p) \<and>
       (amount (pm_captured p) = 0 \<or> pm_captured p = pm_amount p) \<and>
       (amount (pm_refunded p) = 0 \<or> pm_refunded p = pm_amount p) \<and>
       length (filter (\<lambda>r. rf_status r \<noteq> RefundFailed) (pm_refunds p)) \<le> 1) (pd_payments d)"
proof -
  have wf: "wf_payments d" unfolding assms(2) by (rule payments_run_wf [OF assms(1)])
  have "amount (pm_refunded p) \<le> amount (pm_captured p) \<and> amount (pm_captured p) \<le> amount (pm_amount p) \<and>
       (amount (pm_captured p) = 0 \<or> pm_captured p = pm_amount p) \<and>
       (amount (pm_refunded p) = 0 \<or> pm_refunded p = pm_amount p) \<and>
       length (filter (\<lambda>r. rf_status r \<noteq> RefundFailed) (pm_refunds p)) \<le> 1" if "p \<in> set (pd_payments d)" for p
  proof -
    have "wf_payment p" using wf that by (simp add: wf_payments_def)
    then show ?thesis by (cases "pm_status p") (auto simp: wf_payment_def)
  qed
  with wf show ?thesis by (simp add: wf_payments_def list_all_iff)
qed

text \<open>
  Ordering is told exactly once of each captured payment and of each completed refund, with the order and
  the amount of the payment: as many events as the status of the payment says, and none of another.
\<close>

lemma payments_tell_once:
  assumes "list_all asks_money ops" and "d = run payments_step (new_payments enabled) ops"
    and "p \<in> set (pd_payments d)"
  shows "length (filter (is_capture_of (pm_id p)) (pd_events d)) = (if pm_status p \<in> {Captured, PaymentRefunded} then 1 else 0) \<and>
     length (filter (is_refund_of (pm_id p)) (pd_events d)) = (if pm_status p = PaymentRefunded then 1 else 0) \<and>
     list_all (event_agrees (pd_payments d)) (pd_events d)"
proof -
  have wf: "wf_payments d" unfolding assms(2) by (rule payments_run_wf [OF assms(1)])
  with assms(3) show ?thesis by (simp add: wf_payments_def events_count_def list_all_iff)
qed

text \<open>
  The status of a payment only moves forward: a refunded or cancelled payment stays so, and a captured one
  is never pending nor cancelled again.
\<close>

lemma payment_status_is_monotonic:
  assumes "wf_payment p" and "q = run payment_step p evs"
  shows "(pm_status p = PaymentRefunded \<longrightarrow> pm_status q = PaymentRefunded) \<and>
     (pm_status p = PaymentCancelled \<longrightarrow> pm_status q = PaymentCancelled) \<and>
     (pm_status p = Captured \<longrightarrow> pm_status q \<in> {Captured, PaymentRefunded})"
proof -
  have moves: "(pm_status p, pm_status q) \<in> payment_moves\<^sup>*"
    unfolding assms(2) by (rule payment_life.run_moves [OF assms(1)])
  have final: "pm_status p = pm_status q" if "\<And>st. (pm_status p, st) \<notin> payment_moves"
    using moves that by (auto elim: converse_rtranclE)
  have "pm_status q \<in> {Captured, PaymentRefunded}" if "pm_status p = Captured"
  proof -
    have "st \<in> {Captured, PaymentRefunded}" if "(Captured, st) \<in> payment_moves\<^sup>*" for st
      using that by (induction rule: rtrancl_induct) (auto simp: payment_moves_def)
    with moves that show ?thesis by simp
  qed
  with final show ?thesis by (auto simp: payment_moves_def)
qed

section \<open>Witnesses\<close>

definition example_request :: payment_request where
  "example_request = \<lparr>pr_order = 50, pr_code = ''K7M4Q9XA'', pr_amount = \<lparr>amount = 19900, currency = MXN\<rparr>\<rparr>"

definition example_capture :: capture_input where
  "example_capture = \<lparr>ci_reference = ''Ticket 00452'', ci_method = Some CASH, ci_note = None, ci_registered_by = 3\<rparr>"

text \<open>A payment started twice, captured, captured again in vain, refunded and refunded again in vain.\<close>

definition example_ops :: "payments_op list" where
  "example_ops =
     [StartPayment 1 example_request MANUAL 10, StartPayment 2 example_request MANUAL 11,
      CapturePayment 3 example_request example_capture 12, CapturePayment 4 example_request example_capture 13,
      StartOrderRefund 7 50 14, StartOrderRefund 8 50 15, RegisterRefund 1 ''Devolucion'' None 3 3 16,
      RegisterRefund 1 ''Devolucion'' None 4 3 17]"

definition example_payments :: payments_db where
  "example_payments = run payments_step (new_payments True) example_ops"

lemma example_ops_money: "list_all asks_money example_ops"
  by code_simp

theorem payments_balance_witness:
  "list_all (\<lambda>p. amount (pm_refunded p) \<le> amount (pm_captured p)) (pd_payments example_payments)
     \<and> map (amount \<circ> pm_refunded) (pd_payments example_payments) = [19900]"
proof
  from payments_balance [OF example_ops_money example_payments_def]
  show "list_all (\<lambda>p. amount (pm_refunded p) \<le> amount (pm_captured p)) (pd_payments example_payments)"
    by (simp add: list_all_iff)
  show "map (amount \<circ> pm_refunded) (pd_payments example_payments) = [19900]" by code_simp
qed

end
