(* ===== verification/Shipment.thy ===== *)
theory Shipment
  imports Order
begin

text \<open>
  The shipment of an order (\<open>shipping/domain/shipment.ts\<close>) and the shipping method
  (\<open>shipping/domain/shipping-method.ts\<close>, \<open>shipping-rate-calculator.ts\<close>). A destination has the
  fields of the shipping address of its order, whole or anonymized, as in Ordering.
\<close>

datatype shipment_status =
    ShipmentPending | Dispatched | ShipmentDelivered | DeliveryFailed | ShipmentReturned | ShipmentCancelled

fun shipment_status_name :: "shipment_status \<Rightarrow> string" where
  "shipment_status_name ShipmentPending = ''PENDING''"
| "shipment_status_name Dispatched = ''DISPATCHED''"
| "shipment_status_name ShipmentDelivered = ''DELIVERED''"
| "shipment_status_name DeliveryFailed = ''DELIVERY_FAILED''"
| "shipment_status_name ShipmentReturned = ''RETURNED''"
| "shipment_status_name ShipmentCancelled = ''CANCELLED''"

type_synonym destination = order_address

definition anonymized_destination :: "destination \<Rightarrow> destination" where
  "anonymized_destination a = AnonymizedAddress (without_identifying_fields a)"

record shipment_item =
  hi_line :: id
  hi_sku :: string
  hi_product :: string
  hi_quantity :: js_number

record shipment =
  h_id :: id
  h_order :: id
  h_code :: string
  h_warehouse :: id
  h_status :: shipment_status
  h_destination :: destination
  h_items :: "shipment_item list"
  h_carrier :: "string option"
  h_tracking :: "string option"
  h_own_delivery :: bool
  h_dispatched_at :: "time option"
  h_delivered_at :: "time option"
  h_failed_at :: "time option"
  h_returned_at :: "time option"
  h_cancelled_at :: "time option"
  h_failure_note :: "string option"
  h_return_note :: "string option"
  h_anonymized_at :: "time option"
  h_blocked_at :: "time option"
  h_version :: int

record new_shipment =
  hn_order :: id
  hn_code :: string
  hn_warehouse :: id
  hn_destination :: shipping_address
  hn_items :: "shipment_item list"

definition create_shipment :: "id \<Rightarrow> new_shipment \<Rightarrow> shipment result" where
  "create_shipment fresh i =
     (if hn_items i = [] then Inl (InvalidValueError ''A shipment carries at least one item'')
      else if \<not> list_all (\<lambda>x. whole_satisfying (\<lambda>q. q \<ge> 1) (hi_quantity x)) (hn_items i)
      then Inl (InvalidValueError ''A shipment carries a whole number of units above zero of each item'')
      else Inr \<lparr>h_id = fresh, h_order = hn_order i, h_code = hn_code i, h_warehouse = hn_warehouse i,
        h_status = ShipmentPending, h_destination = FullAddress (hn_destination i), h_items = hn_items i,
        h_carrier = None, h_tracking = None, h_own_delivery = False, h_dispatched_at = None,
        h_delivered_at = None, h_failed_at = None, h_returned_at = None, h_cancelled_at = None,
        h_failure_note = None, h_return_note = None, h_anonymized_at = None, h_blocked_at = None,
        h_version = 1\<rparr>)"

definition assert_shipment_status :: "shipment \<Rightarrow> shipment_status \<Rightarrow> string \<Rightarrow> unit result" where
  "assert_shipment_status s allowed action =
     (if h_status s \<noteq> allowed
      then Inl (InvalidStateTransitionError (shipment_status_name (h_status s)) action) else Inr ())"

text \<open>The two changes of the tracking tell whether they changed anything.\<close>

definition record_tracking :: "string \<Rightarrow> string \<Rightarrow> shipment \<Rightarrow> (bool \<times> shipment) result" where
  "record_tracking carrier tracking s =
     (let editable = (h_status s = ShipmentPending \<or> (h_status s = Dispatched \<and> \<not> h_own_delivery s))
      in if \<not> editable
         then Inl (InvalidStateTransitionError (shipment_status_name (h_status s)) ''record the tracking'')
         else if h_carrier s = Some carrier \<and> h_tracking s = Some tracking then Inr (False, s)
         else Inr (True, s\<lparr>h_carrier := Some carrier, h_tracking := Some tracking\<rparr>))"

definition remove_tracking :: "shipment \<Rightarrow> (bool \<times> shipment) result" where
  "remove_tracking s =
     res_bind (assert_shipment_status s ShipmentPending ''remove the tracking'') (\<lambda>_.
       if h_carrier s = None \<and> h_tracking s = None then Inr (False, s)
       else Inr (True, s\<lparr>h_carrier := None, h_tracking := None\<rparr>))"

definition dispatch :: "bool \<Rightarrow> time \<Rightarrow> shipment \<Rightarrow> shipment result" where
  "dispatch own_delivery now s =
     res_bind (assert_shipment_status s ShipmentPending ''dispatch'') (\<lambda>_.
       if \<not> own_delivery \<and> (h_carrier s = None \<or> h_tracking s = None)
       then Inl (ShippingError (DispatchTrackingError TrackingRequired))
       else if own_delivery \<and> (h_carrier s \<noteq> None \<or> h_tracking s \<noteq> None)
       then Inl (ShippingError (DispatchTrackingError TrackingNotAllowed))
       else Inr (s\<lparr>h_status := Dispatched, h_own_delivery := own_delivery, h_dispatched_at := Some now\<rparr>))"

definition deliver :: "time \<Rightarrow> shipment \<Rightarrow> shipment result" where
  "deliver now s =
     res_bind (assert_shipment_status s Dispatched ''deliver'') (\<lambda>_.
       Inr (s\<lparr>h_status := ShipmentDelivered, h_delivered_at := Some now\<rparr>))"

definition fail_delivery :: "string option \<Rightarrow> time \<Rightarrow> shipment \<Rightarrow> shipment result" where
  "fail_delivery remark now s =
     res_bind (assert_shipment_status s Dispatched ''record the delivery failure'') (\<lambda>_.
       Inr (s\<lparr>h_status := DeliveryFailed, h_failed_at := Some now, h_failure_note := remark\<rparr>))"

definition mark_returned :: "string option \<Rightarrow> time \<Rightarrow> shipment \<Rightarrow> shipment result" where
  "mark_returned remark now s =
     res_bind (assert_shipment_status s DeliveryFailed ''mark returned'') (\<lambda>_.
       Inr (s\<lparr>h_status := ShipmentReturned, h_returned_at := Some now, h_return_note := remark\<rparr>))"

definition cancel_shipment :: "time \<Rightarrow> shipment \<Rightarrow> shipment result" where
  "cancel_shipment now s =
     res_bind (assert_shipment_status s ShipmentPending ''cancel'') (\<lambda>_.
       Inr (s\<lparr>h_status := ShipmentCancelled, h_cancelled_at := Some now\<rparr>))"

definition anonymize_shipment :: "time \<Rightarrow> shipment \<Rightarrow> shipment" where
  "anonymize_shipment at s =
     s\<lparr>h_destination := anonymized_destination (h_destination s),
        h_anonymized_at := (case h_anonymized_at s of Some t \<Rightarrow> Some t | None \<Rightarrow> Some at)\<rparr>"

definition block_shipment :: "time \<Rightarrow> shipment \<Rightarrow> shipment" where
  "block_shipment at s = (if h_blocked_at s \<noteq> None then s else s\<lparr>h_blocked_at := Some at\<rparr>)"

section \<open>What a shipment keeps\<close>

text \<open>The dates follow from the status.\<close>

fun dates_agree :: "shipment_status \<Rightarrow> shipment \<Rightarrow> bool" where
  "dates_agree ShipmentPending s = (h_dispatched_at s = None \<and> h_delivered_at s = None \<and> h_failed_at s = None
     \<and> h_returned_at s = None \<and> h_cancelled_at s = None)"
| "dates_agree Dispatched s = (h_dispatched_at s \<noteq> None \<and> h_delivered_at s = None \<and> h_failed_at s = None
     \<and> h_returned_at s = None \<and> h_cancelled_at s = None)"
| "dates_agree ShipmentDelivered s = (h_dispatched_at s \<noteq> None \<and> h_delivered_at s \<noteq> None \<and> h_failed_at s = None
     \<and> h_returned_at s = None \<and> h_cancelled_at s = None)"
| "dates_agree DeliveryFailed s = (h_dispatched_at s \<noteq> None \<and> h_delivered_at s = None \<and> h_failed_at s \<noteq> None
     \<and> h_returned_at s = None \<and> h_cancelled_at s = None)"
| "dates_agree ShipmentReturned s = (h_dispatched_at s \<noteq> None \<and> h_delivered_at s = None \<and> h_failed_at s \<noteq> None
     \<and> h_returned_at s \<noteq> None \<and> h_cancelled_at s = None)"
| "dates_agree ShipmentCancelled s = (h_dispatched_at s = None \<and> h_delivered_at s = None \<and> h_failed_at s = None
     \<and> h_returned_at s = None \<and> h_cancelled_at s \<noteq> None)"

text \<open>Once it left, a shipment has its carrier and tracking number exactly when it is not the store's own delivery.\<close>

definition tracking_fits :: "shipment \<Rightarrow> bool" where
  "tracking_fits s \<longleftrightarrow>
     (h_carrier s = None \<longleftrightarrow> h_tracking s = None) \<and>
     (h_dispatched_at s \<noteq> None \<longrightarrow> (h_own_delivery s \<longleftrightarrow> h_carrier s = None))"

definition wf_shipment :: "shipment \<Rightarrow> bool" where
  "wf_shipment s \<longleftrightarrow>
     dates_agree (h_status s) s \<and> tracking_fits s \<and>
     (h_anonymized_at s \<noteq> None \<longrightarrow> (\<exists>a. h_destination s = AnonymizedAddress a))"

datatype shipment_event =
    RecordTracking string string
  | RemoveTracking
  | Dispatch bool time
  | Deliver time
  | FailDelivery "string option" time
  | MarkReturned "string option" time
  | CancelShipment time
  | AnonymizeShipment time
  | BlockShipment time

fun shipment_step :: "shipment \<Rightarrow> shipment_event \<Rightarrow> shipment result" where
  "shipment_step s (RecordTracking carrier tracking) = res_bind (record_tracking carrier tracking s) (\<lambda>(b, t). Inr t)"
| "shipment_step s RemoveTracking = res_bind (remove_tracking s) (\<lambda>(b, t). Inr t)"
| "shipment_step s (Dispatch own now) = dispatch own now s"
| "shipment_step s (Deliver now) = deliver now s"
| "shipment_step s (FailDelivery remark now) = fail_delivery remark now s"
| "shipment_step s (MarkReturned remark now) = mark_returned remark now s"
| "shipment_step s (CancelShipment now) = cancel_shipment now s"
| "shipment_step s (AnonymizeShipment at) = Inr (anonymize_shipment at s)"
| "shipment_step s (BlockShipment at) = Inr (block_shipment at s)"

definition shipment_moves :: "(shipment_status \<times> shipment_status) set" where
  "shipment_moves =
     {(ShipmentPending, Dispatched), (ShipmentPending, ShipmentCancelled), (Dispatched, ShipmentDelivered),
      (Dispatched, DeliveryFailed), (DeliveryFailed, ShipmentReturned)}"

lemmas shipment_ops = record_tracking_def remove_tracking_def dispatch_def deliver_def fail_delivery_def
  mark_returned_def cancel_shipment_def anonymize_shipment_def block_shipment_def assert_shipment_status_def Let_def

lemma shipment_step_wf:
  assumes wf: "wf_shipment s" and step: "shipment_step s ev = Inr t"
  shows "wf_shipment t"
proof -
  have dates: "dates_agree (h_status s) s" and fits: "tracking_fits s"
    and anon: "h_anonymized_at s \<noteq> None \<longrightarrow> (\<exists>a. h_destination s = AnonymizedAddress a)"
    using wf by (simp_all add: wf_shipment_def)
  have "dates_agree (h_status t) t"
    using step dates
    by (cases ev; cases "h_status s")
      (auto simp: shipment_ops res_simps split: if_splits)
  moreover have "tracking_fits t"
    using step dates fits
    by (cases ev; cases "h_status s") (auto simp: shipment_ops res_simps tracking_fits_def split: if_splits)
  moreover have "h_anonymized_at t \<noteq> None \<longrightarrow> (\<exists>a. h_destination t = AnonymizedAddress a)"
    using step anon
    by (cases ev) (auto simp: shipment_ops res_simps anonymized_destination_def split: if_splits)
  ultimately show ?thesis by (simp add: wf_shipment_def)
qed

lemma shipment_step_moves:
  "shipment_step s ev = Inr t \<Longrightarrow> h_status t = h_status s \<or> (h_status s, h_status t) \<in> shipment_moves"
  by (cases ev) (auto simp: shipment_ops res_simps shipment_moves_def split: if_splits)

lemma create_shipment_wf:
  "create_shipment fresh i = Inr s \<Longrightarrow> wf_shipment s \<and> h_id s = fresh \<and> h_order s = hn_order i \<and> h_status s = ShipmentPending"
  by (auto simp: create_shipment_def wf_shipment_def tracking_fits_def split: if_splits)

interpretation shipment_life: status_machine shipment_step wf_shipment h_status shipment_moves
  by unfold_locales (auto intro: shipment_step_wf dest: shipment_step_moves)

section \<open>The shipping method\<close>

definition MAX_NAME_LENGTH :: nat where
  "MAX_NAME_LENGTH = 100"

definition MAX_DELIVERY_BUSINESS_DAYS :: int where
  "MAX_DELIVERY_BUSINESS_DAYS = 30"

record shipping_settings =
  sh_name :: string
  sh_flat_fee :: money
  sh_threshold :: "money option"
  sh_min_days :: js_number
  sh_max_days :: js_number

definition valid_days :: "js_number \<Rightarrow> bool" where
  "valid_days n = whole_satisfying (\<lambda>d. 1 \<le> d \<and> d \<le> MAX_DELIVERY_BUSINESS_DAYS) n"

fun days_below :: "js_number \<Rightarrow> js_number \<Rightarrow> bool" where
  "days_below (Whole a) (Whole b) = (a < b)"
| "days_below _ _ = False"

definition valid_settings :: "shipping_settings \<Rightarrow> shipping_settings result" where
  "valid_settings s =
     (let name = js_trim (sh_name s)
      in if length name = 0 \<or> length name > MAX_NAME_LENGTH
         then Inl (InvalidValueError ''A shipping method name has 1 to 100 characters'')
         else if (case sh_threshold s of Some t \<Rightarrow> money_is_zero t | None \<Rightarrow> False)
         then Inl (InvalidValueError ''The free shipping threshold is more than zero, or null'')
         else if \<not> valid_days (sh_min_days s) \<or> \<not> valid_days (sh_max_days s)
         then Inl (InvalidValueError ''A delivery time is a whole number of business days from 1 to 30'')
         else if days_below (sh_max_days s) (sh_min_days s) then Inl (ShippingError DeliveryRangeError)
         else Inr (s\<lparr>sh_name := name\<rparr>))"

record order_amounts =
  oa_subtotal :: money
  oa_discount :: money

record shipping_charge =
  sg_cost :: money
  sg_tax :: money
  sg_rate :: int

definition is_free :: "shipping_settings \<Rightarrow> order_amounts \<Rightarrow> bool result" where
  "is_free m o1 =
     (case sh_threshold m of
        None \<Rightarrow> Inr False
      | Some threshold \<Rightarrow>
          res_bind (money_subtract (oa_subtotal o1) (oa_discount o1)) (\<lambda>left. greater_than_or_equal left threshold))"

definition charge :: "int \<Rightarrow> shipping_settings \<Rightarrow> order_amounts \<Rightarrow> shipping_charge result" where
  "charge rate m o1 =
     res_bind (is_free m o1) (\<lambda>free.
       let cost = (if free then money_zero (currency (sh_flat_fee m)) else sh_flat_fee m)
       in res_bind (contained_tax cost (Whole rate)) (\<lambda>tax.
            Inr \<lparr>sg_cost = cost, sg_tax = tax, sg_rate = rate\<rparr>))"

end
