(* ===== verification/Shipping.thy ===== *)
theory Shipping
  imports Shipment
begin

text \<open>
  Shipping (\<open>shipping/application/\<close>): the table of shipments, the only shipping method, the events it
  publishes, and the operations of Ordering and of the staff. Each is one transaction on the locked shipment.
\<close>

datatype shipping_event =
    ShipmentDispatchedEvent id id "string option" "string option" bool time
  | ShipmentDeliveredEvent id id "time option" time
  | ShipmentReturnedEvent id id time

record shipping_db =
  sd_shipments :: "shipment list"
  sd_method :: "(shipping_settings \<times> int) option"
  sd_events :: "shipping_event list"

section \<open>The statements of the repository\<close>

definition find_shipment :: "id \<Rightarrow> shipping_db \<Rightarrow> shipment option" where
  "find_shipment i d = find (\<lambda>s. h_id s = i) (sd_shipments d)"

definition shipment_of_order :: "id \<Rightarrow> shipping_db \<Rightarrow> shipment option" where
  "shipment_of_order order d = find (\<lambda>s. h_order s = order) (sd_shipments d)"

text \<open>A second shipment of an order writes nothing, and says so.\<close>

definition insert_shipment :: "shipment \<Rightarrow> shipping_db \<Rightarrow> bool \<times> shipping_db" where
  "insert_shipment s d =
     (if shipment_of_order (h_order s) d \<noteq> None \<or> find_shipment (h_id s) d \<noteq> None then (False, d)
      else (True, d\<lparr>sd_shipments := sd_shipments d @ [s]\<rparr>))"

definition saved_shipment :: "shipment \<Rightarrow> shipment \<Rightarrow> shipment" where
  "saved_shipment s row =
     row\<lparr>h_status := h_status s, h_carrier := h_carrier s, h_tracking := h_tracking s,
       h_own_delivery := h_own_delivery s, h_dispatched_at := h_dispatched_at s, h_delivered_at := h_delivered_at s,
       h_failed_at := h_failed_at s, h_returned_at := h_returned_at s, h_cancelled_at := h_cancelled_at s,
       h_failure_note := h_failure_note s, h_return_note := h_return_note s, h_destination := h_destination s,
       h_anonymized_at := h_anonymized_at s, h_blocked_at := h_blocked_at s, h_version := h_version row + 1\<rparr>"

definition save_shipment :: "shipment \<Rightarrow> shipping_db \<Rightarrow> shipping_db result" where
  "save_shipment s d =
     (case find_shipment (h_id s) d of
        None \<Rightarrow> Inl (PlainError ''No record was found for a query'')
      | Some row \<Rightarrow>
          if h_version row \<noteq> h_version s then Inl (VersionConflictError (h_version row))
          else Inr (d\<lparr>sd_shipments :=
            map (\<lambda>x. if h_id x = h_id s then saved_shipment s x else x) (sd_shipments d)\<rparr>))"

section \<open>What Ordering asks\<close>

definition create_shipment_of :: "id \<Rightarrow> new_shipment \<Rightarrow> shipping_db \<Rightarrow> shipping_db result" where
  "create_shipment_of fresh i d =
     res_bind (create_shipment fresh i) (\<lambda>s. Inr (snd (insert_shipment s d)))"

definition cancel_shipment_of :: "id \<Rightarrow> time \<Rightarrow> shipping_db \<Rightarrow> shipping_db result" where
  "cancel_shipment_of order now d =
     (case shipment_of_order order d of
        None \<Rightarrow> Inr d
      | Some s \<Rightarrow> res_bind (cancel_shipment now s) (\<lambda>t. save_shipment t d))"

definition update_shipment_of :: "(shipment \<Rightarrow> shipment) \<Rightarrow> shipping_db \<Rightarrow> id \<Rightarrow> shipping_db result" where
  "update_shipment_of change d order =
     (case shipment_of_order order d of None \<Rightarrow> Inr d | Some s \<Rightarrow> save_shipment (change s) d)"

definition anonymize_shipments_of :: "id list \<Rightarrow> time \<Rightarrow> shipping_db \<Rightarrow> shipping_db result" where
  "anonymize_shipments_of orders at d = res_fold (update_shipment_of (anonymize_shipment at)) d orders"

definition block_shipments_of :: "id list \<Rightarrow> time \<Rightarrow> shipping_db \<Rightarrow> shipping_db result" where
  "block_shipments_of orders at d = res_fold (update_shipment_of (block_shipment at)) d orders"

record shipping_quote =
  sq_charge :: shipping_charge
  sq_threshold :: "money option"
  sq_min_days :: js_number
  sq_max_days :: js_number

definition quote_shipping :: "int \<Rightarrow> order_amounts \<Rightarrow> shipping_db \<Rightarrow> shipping_quote result" where
  "quote_shipping rate o1 d =
     (case sd_method d of
        None \<Rightarrow> Inl (PlainError ''There is no active shipping method'')
      | Some (m, version) \<Rightarrow>
          res_bind (charge rate m o1) (\<lambda>c.
            Inr \<lparr>sq_charge = c, sq_threshold = sh_threshold m, sq_min_days = sh_min_days m, sq_max_days = sh_max_days m\<rparr>))"

section \<open>What the staff does\<close>

definition change_shipment ::
  "id \<Rightarrow> int \<Rightarrow> (shipment \<Rightarrow> (shipment \<times> shipping_event option) result) \<Rightarrow> shipping_db \<Rightarrow> shipping_db result" where
  "change_shipment i version move d =
     (case find_shipment i d of
        None \<Rightarrow> Inl (NotFoundError ''Shipment'' i)
      | Some s \<Rightarrow>
          res_bind (assert_version (h_version s) version) (\<lambda>_.
          res_bind (move s) (\<lambda>(t, event).
          res_bind (save_shipment t d) (\<lambda>d'.
            Inr (case event of None \<Rightarrow> d' | Some e \<Rightarrow> d'\<lparr>sd_events := sd_events d' @ [e]\<rparr>)))))"

definition dispatch_in :: "id \<Rightarrow> int \<Rightarrow> bool \<Rightarrow> time \<Rightarrow> shipping_db \<Rightarrow> shipping_db result" where
  "dispatch_in i version own_delivery now =
     change_shipment i version (\<lambda>s.
       res_bind (dispatch own_delivery now s) (\<lambda>t.
         Inr (t, Some (ShipmentDispatchedEvent (h_id t) (h_order t) (h_carrier t) (h_tracking t) (h_own_delivery t) now))))"

definition deliver_in :: "id \<Rightarrow> int \<Rightarrow> time \<Rightarrow> shipping_db \<Rightarrow> shipping_db result" where
  "deliver_in i version now =
     change_shipment i version (\<lambda>s.
       res_bind (deliver now s) (\<lambda>t.
         Inr (t, Some (ShipmentDeliveredEvent (h_id t) (h_order t) (h_dispatched_at t) now))))"

definition fail_delivery_in :: "id \<Rightarrow> int \<Rightarrow> string option \<Rightarrow> time \<Rightarrow> shipping_db \<Rightarrow> shipping_db result" where
  "fail_delivery_in i version remark now =
     change_shipment i version (\<lambda>s. res_bind (fail_delivery remark now s) (\<lambda>t. Inr (t, None)))"

definition mark_returned_in :: "id \<Rightarrow> int \<Rightarrow> string option \<Rightarrow> time \<Rightarrow> shipping_db \<Rightarrow> shipping_db result" where
  "mark_returned_in i version remark now =
     change_shipment i version (\<lambda>s.
       res_bind (mark_returned remark now s) (\<lambda>t.
         Inr (t, Some (ShipmentReturnedEvent (h_id t) (h_order t) now))))"

text \<open>The carrier and the tracking number to record, or none to remove them.\<close>

definition record_tracking_in ::
  "id \<Rightarrow> int \<Rightarrow> (string \<times> string) option \<Rightarrow> shipping_db \<Rightarrow> shipping_db result" where
  "record_tracking_in i version tracking d =
     (case find_shipment i d of
        None \<Rightarrow> Inl (NotFoundError ''Shipment'' i)
      | Some s \<Rightarrow>
          res_bind (assert_version (h_version s) version) (\<lambda>_.
          res_bind (case tracking of None \<Rightarrow> remove_tracking s | Some (c, n) \<Rightarrow> record_tracking c n s) (\<lambda>(changed, t).
            if \<not> changed then Inr d else save_shipment t d)))"

record method_input =
  mi_name :: string
  mi_flat_fee :: js_number
  mi_threshold :: "js_number option"
  mi_min_days :: js_number
  mi_max_days :: js_number

definition settings_of :: "method_input \<Rightarrow> shipping_settings result" where
  "settings_of i =
     res_bind (money_of (mi_flat_fee i) MXN) (\<lambda>fee.
     res_bind (case mi_threshold i of None \<Rightarrow> Inr None | Some n \<Rightarrow> res_bind (money_of n MXN) (\<lambda>t. Inr (Some t))) (\<lambda>threshold.
       Inr \<lparr>sh_name = mi_name i, sh_flat_fee = fee, sh_threshold = threshold,
            sh_min_days = mi_min_days i, sh_max_days = mi_max_days i\<rparr>))"

definition configure_method :: "method_input \<Rightarrow> int \<Rightarrow> shipping_db \<Rightarrow> shipping_db result" where
  "configure_method i version d =
     (case sd_method d of
        None \<Rightarrow> Inl (NotFoundError ''ShippingMethod'' 0)
      | Some (m, current) \<Rightarrow>
          res_bind (assert_version current version) (\<lambda>_.
          res_bind (settings_of i) (\<lambda>asked.
          res_bind (valid_settings asked) (\<lambda>next.
            if next = m then Inr d else Inr (d\<lparr>sd_method := Some (next, current + 1)\<rparr>)))))"

datatype shipping_op =
    CreateShipmentOf id new_shipment
  | CancelShipmentOf id time
  | AnonymizeShipmentsOf "id list" time
  | BlockShipmentsOf "id list" time
  | DispatchShipment id int bool time
  | DeliverShipment id int time
  | FailShipment id int "string option" time
  | ReturnShipment id int "string option" time
  | TrackShipment id int "(string \<times> string) option"
  | ConfigureMethod method_input int

fun shipping_step :: "shipping_db \<Rightarrow> shipping_op \<Rightarrow> shipping_db result" where
  "shipping_step d (CreateShipmentOf fresh i) = create_shipment_of fresh i d"
| "shipping_step d (CancelShipmentOf order now) = cancel_shipment_of order now d"
| "shipping_step d (AnonymizeShipmentsOf orders at) = anonymize_shipments_of orders at d"
| "shipping_step d (BlockShipmentsOf orders at) = block_shipments_of orders at d"
| "shipping_step d (DispatchShipment i version own now) = dispatch_in i version own now d"
| "shipping_step d (DeliverShipment i version now) = deliver_in i version now d"
| "shipping_step d (FailShipment i version remark now) = fail_delivery_in i version remark now d"
| "shipping_step d (ReturnShipment i version remark now) = mark_returned_in i version remark now d"
| "shipping_step d (TrackShipment i version tracking) = record_tracking_in i version tracking d"
| "shipping_step d (ConfigureMethod i version) = configure_method i version d"

section \<open>What the table keeps\<close>

text \<open>The event of a delivery carries when the shipment left.\<close>

fun event_dated :: "shipping_event \<Rightarrow> bool" where
  "event_dated (ShipmentDeliveredEvent i order dispatched at) = (dispatched \<noteq> None)"
| "event_dated _ = True"

definition wf_shipping :: "shipping_db \<Rightarrow> bool" where
  "wf_shipping d \<longleftrightarrow>
     distinct (map h_id (sd_shipments d)) \<and> distinct (map h_order (sd_shipments d)) \<and>
     (\<forall>s\<in>set (sd_shipments d). wf_shipment s) \<and> (\<forall>e\<in>set (sd_events d). event_dated e)"

lemma find_shipment_SomeD: "find_shipment i d = Some s \<Longrightarrow> s \<in> set (sd_shipments d) \<and> h_id s = i"
  unfolding find_shipment_def by (drule find_SomeD) simp

lemma shipment_of_order_SomeD: "shipment_of_order order d = Some s \<Longrightarrow> s \<in> set (sd_shipments d) \<and> h_order s = order"
  unfolding shipment_of_order_def by (drule find_SomeD) simp

lemma shipment_step_frame:
  "shipment_step s ev = Inr t \<Longrightarrow> h_id t = h_id s \<and> h_order t = h_order s \<and> h_code t = h_code s
     \<and> h_warehouse t = h_warehouse s \<and> h_items t = h_items s \<and> h_version t = h_version s"
  by (cases ev) (auto simp: shipment_ops res_simps split: if_splits)

text \<open>Saving a changed shipment stores all of it.\<close>

lemma saved_shipment_exact:
  "shipment_step s ev = Inr t \<Longrightarrow> saved_shipment t s = t\<lparr>h_version := h_version s + 1\<rparr>"
  by (frule shipment_step_frame) (cases s; cases t; simp add: saved_shipment_def)

lemma wf_shipment_version [simp]: "wf_shipment (s\<lparr>h_version := n\<rparr>) = wf_shipment s"
  unfolding wf_shipment_def tracking_fits_def by (cases "h_status s") simp_all

lemma save_shipment_rows:
  assumes wf: "wf_shipping d" and s: "s \<in> set (sd_shipments d)" and step: "shipment_step s ev = Inr t"
    and save: "save_shipment t d = Inr d'"
  shows "sd_shipments d' = map (\<lambda>x. if x = s then t\<lparr>h_version := h_version s + 1\<rparr> else x) (sd_shipments d)"
    and "sd_events d' = sd_events d"
proof -
  have ids: "distinct (map h_id (sd_shipments d))" using wf by (simp add: wf_shipping_def)
  note frame = shipment_step_frame [OF step]
  have d': "d' = d\<lparr>sd_shipments := map (\<lambda>x. if h_id x = h_id t then saved_shipment t x else x) (sd_shipments d)\<rparr>"
    using save by (auto simp: save_shipment_def split: option.splits if_splits)
  have only: "x = s" if "x \<in> set (sd_shipments d)" "h_id x = h_id t" for x
    using same_key [OF ids that(1) s] that(2) frame by simp
  show "sd_shipments d' = map (\<lambda>x. if x = s then t\<lparr>h_version := h_version s + 1\<rparr> else x) (sd_shipments d)"
    unfolding d' using only frame saved_shipment_exact [OF step] by (auto intro!: map_cong)
  show "sd_events d' = sd_events d" by (simp add: d')
qed

lemma save_shipment_wf:
  assumes wf: "wf_shipping d" and s: "s \<in> set (sd_shipments d)" and step: "shipment_step s ev = Inr t"
    and save: "save_shipment t d = Inr d'"
  shows "wf_shipping d' \<and> sd_events d' = sd_events d"
proof -
  note rows = save_shipment_rows [OF wf s step save]
  have keys: "map h_id (sd_shipments d') = map h_id (sd_shipments d)" "map h_order (sd_shipments d') = map h_order (sd_shipments d)"
    unfolding rows using shipment_step_frame [OF step] by (auto intro!: map_cong)
  have "wf_shipment t" by (rule shipment_life.step_inv [OF _ step]) (use wf s in \<open>simp add: wf_shipping_def\<close>)
  then have "\<forall>x\<in>set (sd_shipments d'). wf_shipment x" unfolding rows using wf by (auto simp: wf_shipping_def)
  with wf keys rows(2) show ?thesis by (simp add: wf_shipping_def)
qed

lemma create_of_wf:
  assumes wf: "wf_shipping d" and step: "create_shipment_of fresh i d = Inr d'"
  shows "wf_shipping d'"
proof -
  from step obtain s where s: "create_shipment fresh i = Inr s" and d': "d' = snd (insert_shipment s d)"
    by (auto simp: create_shipment_of_def res_simps)
  have row: "wf_shipment s" using create_shipment_wf [OF s] by simp
  show ?thesis
  proof (cases "shipment_of_order (h_order s) d \<noteq> None \<or> find_shipment (h_id s) d \<noteq> None")
    case True
    then have "d' = d" unfolding d' insert_shipment_def by (simp only: if_True snd_conv)
    with wf show ?thesis by simp
  next
    case False
    then have "h_id s \<notin> h_id ` set (sd_shipments d)" "h_order s \<notin> h_order ` set (sd_shipments d)"
      by (auto simp: shipment_of_order_def find_shipment_def find_None_iff)
    with False wf row d' show ?thesis by (simp add: insert_shipment_def wf_shipping_def)
  qed
qed

lemma cancel_of_wf: "wf_shipping d \<Longrightarrow> cancel_shipment_of order now d = Inr d' \<Longrightarrow> wf_shipping d'"
  by (auto simp: cancel_shipment_of_def res_simps split: option.splits
      dest!: shipment_of_order_SomeD dest: save_shipment_wf [where ev = "CancelShipment now"])

lemma update_of_wf:
  assumes "wf_shipping d" and "update_shipment_of change d order = Inr d'"
    and "\<And>s. shipment_step s ev = Inr (change s)"
  shows "wf_shipping d'"
  using assms(1,2) save_shipment_wf [OF assms(1) _ assms(3)]
  by (auto simp: update_shipment_of_def split: option.splits dest!: shipment_of_order_SomeD)

lemma anonymize_of_wf: "wf_shipping d \<Longrightarrow> anonymize_shipments_of orders at d = Inr d' \<Longrightarrow> wf_shipping d'"
  unfolding anonymize_shipments_of_def
  by (erule res_fold_inv) (auto intro: update_of_wf [where ev = "AnonymizeShipment at"])

lemma block_of_wf: "wf_shipping d \<Longrightarrow> block_shipments_of orders at d = Inr d' \<Longrightarrow> wf_shipping d'"
  unfolding block_shipments_of_def
  by (erule res_fold_inv) (auto intro: update_of_wf [where ev = "BlockShipment at"])

lemma change_shipment_wf:
  assumes wf: "wf_shipping d" and step: "change_shipment i version move d = Inr d'"
    and move: "\<And>s t e. move s = Inr (t, e) \<Longrightarrow> shipment_step s ev = Inr t"
    and dated: "\<And>s t e. wf_shipment s \<Longrightarrow> move s = Inr (t, Some e) \<Longrightarrow> event_dated e"
  shows "wf_shipping d'"
proof -
  from step obtain s t e u where s: "find_shipment i d = Some s" "move s = Inr (t, e)" "save_shipment t d = Inr u"
      and d': "d' = (case e of None \<Rightarrow> u | Some x \<Rightarrow> u\<lparr>sd_events := sd_events u @ [x]\<rparr>)"
    by (auto simp: change_shipment_def res_simps split: option.splits)
  from find_shipment_SomeD [OF s(1)] have row: "s \<in> set (sd_shipments d)" by simp
  from save_shipment_wf [OF wf row move [OF s(2)] s(3)] have u: "wf_shipping u" by simp
  have "wf_shipment s" using wf row by (simp add: wf_shipping_def)
  with dated s(2) have "event_dated x" if "e = Some x" for x using that by blast
  with u d' show ?thesis by (cases e) (auto simp: wf_shipping_def)
qed

lemma dispatch_in_wf: "wf_shipping d \<Longrightarrow> dispatch_in i version own now d = Inr d' \<Longrightarrow> wf_shipping d'"
  unfolding dispatch_in_def by (erule change_shipment_wf [where ev = "Dispatch own now"]) (auto simp: res_simps)

lemma deliver_in_wf:
  assumes "wf_shipping d" and "deliver_in i version now d = Inr d'"
  shows "wf_shipping d'"
proof (rule change_shipment_wf [OF assms(1) assms(2) [unfolded deliver_in_def], of "Deliver now"])
  show "event_dated e" if "wf_shipment s"
    "res_bind (deliver now s) (\<lambda>t. Inr (t, Some (ShipmentDeliveredEvent (h_id t) (h_order t) (h_dispatched_at t) now)))
       = Inr (t, Some e)" for s t e
    using that by (auto simp: res_simps deliver_def assert_shipment_status_def wf_shipment_def)
qed (auto simp: res_simps)

lemma fail_in_wf: "wf_shipping d \<Longrightarrow> fail_delivery_in i version remark now d = Inr d' \<Longrightarrow> wf_shipping d'"
  unfolding fail_delivery_in_def by (erule change_shipment_wf [where ev = "FailDelivery remark now"]) (auto simp: res_simps)

lemma returned_in_wf: "wf_shipping d \<Longrightarrow> mark_returned_in i version remark now d = Inr d' \<Longrightarrow> wf_shipping d'"
  unfolding mark_returned_in_def by (erule change_shipment_wf [where ev = "MarkReturned remark now"]) (auto simp: res_simps)

lemma tracking_in_wf:
  assumes wf: "wf_shipping d" and step: "record_tracking_in i version tracking d = Inr d'"
  shows "wf_shipping d'"
proof -
  from step obtain s changed t where s: "find_shipment i d = Some s"
      "(case tracking of None \<Rightarrow> remove_tracking s | Some (c, n) \<Rightarrow> record_tracking c n s) = Inr (changed, t)"
      "(if \<not> changed then Inr d else save_shipment t d) = Inr d'"
    by (auto simp: record_tracking_in_def res_simps split: option.splits)
  define ev where "ev = (case tracking of None \<Rightarrow> RemoveTracking | Some (c, n) \<Rightarrow> RecordTracking c n)"
  have "shipment_step s ev = Inr t" using s(2) by (auto simp: ev_def split: option.splits)
  with s find_shipment_SomeD [OF s(1)] wf save_shipment_wf [OF wf] show ?thesis by (auto split: if_splits)
qed

lemma configure_method_wf: "wf_shipping d \<Longrightarrow> configure_method i version d = Inr d' \<Longrightarrow> wf_shipping d'"
  by (auto simp: configure_method_def res_simps wf_shipping_def split: option.splits if_splits)

lemma shipping_step_wf:
  assumes wf: "wf_shipping d" and step: "shipping_step d op = Inr d'"
  shows "wf_shipping d'"
proof (cases op)
  case (CreateShipmentOf fresh i)
  with step show ?thesis by (auto intro: create_of_wf [OF wf])
next
  case (CancelShipmentOf order now)
  with step show ?thesis by (auto intro: cancel_of_wf [OF wf])
next
  case (AnonymizeShipmentsOf orders at)
  with step show ?thesis by (auto intro: anonymize_of_wf [OF wf])
next
  case (BlockShipmentsOf orders at)
  with step show ?thesis by (auto intro: block_of_wf [OF wf])
next
  case (DispatchShipment i version own now)
  with step show ?thesis by (auto intro: dispatch_in_wf [OF wf])
next
  case (DeliverShipment i version now)
  with step show ?thesis by (auto intro: deliver_in_wf [OF wf])
next
  case (FailShipment i version remark now)
  with step show ?thesis by (auto intro: fail_in_wf [OF wf])
next
  case (ReturnShipment i version remark now)
  with step show ?thesis by (auto intro: returned_in_wf [OF wf])
next
  case (TrackShipment i version tracking)
  with step show ?thesis by (auto intro: tracking_in_wf [OF wf])
next
  case (ConfigureMethod i version)
  with step show ?thesis by (auto intro: configure_method_wf [OF wf])
qed

interpretation shipping_life: lifecycle shipping_step wf_shipping
  by unfold_locales (rule shipping_step_wf)

definition new_shipping :: "(shipping_settings \<times> int) option \<Rightarrow> shipping_db" where
  "new_shipping m = \<lparr>sd_shipments = [], sd_method = m, sd_events = []\<rparr>"

lemma new_shipping_wf: "wf_shipping (new_shipping m)"
  by (simp add: new_shipping_def wf_shipping_def)

text \<open>
  C33. Whatever Ordering and the staff ask of Shipping, in any order, an order has at most one shipment; a shipment
  that left has its carrier and tracking number exactly when the store does not deliver it itself; its dates are
  those its status asks for; an anonymized one holds no identifying field; and the event of a delivery says when
  the shipment left.
\<close>

theorem shipments_keep_tracking:
  assumes "d = run shipping_step (new_shipping m) ops"
  shows "distinct (map h_order (sd_shipments d)) \<and>
     list_all (\<lambda>s. (h_carrier s = None \<longleftrightarrow> h_tracking s = None) \<and>
       (h_dispatched_at s \<noteq> None \<longrightarrow> h_own_delivery s = (h_carrier s = None)) \<and>
       dates_agree (h_status s) s \<and>
       (h_anonymized_at s \<noteq> None \<longrightarrow> (\<exists>a. h_destination s = AnonymizedAddress a))) (sd_shipments d) \<and>
     list_all event_dated (sd_events d)"
proof -
  have "wf_shipping d" unfolding assms by (rule shipping_life.run_inv [OF new_shipping_wf])
  then show ?thesis by (auto simp: wf_shipping_def wf_shipment_def tracking_fits_def list_all_iff)
qed

text \<open>
  What an order pays for shipping: nothing once its subtotal less its discount reaches the threshold, the flat
  fee otherwise, and never an error, for amounts the discount does not exceed; the tax it contains is at most half
  of it, rounded up.
\<close>

lemma charge_follows_threshold:
  assumes "valid_money (oa_subtotal o1)" and "valid_money (oa_discount o1)" and "valid_money (sh_flat_fee m)"
    and "amount (oa_discount o1) \<le> amount (oa_subtotal o1)" and "0 \<le> rate" and "rate \<le> MAX_TAX_RATE_BASIS_POINTS"
  shows "returned (\<lambda>c.
     amount (sg_cost c) = (case sh_threshold m of
        Some t \<Rightarrow> if amount (oa_subtotal o1) - amount (oa_discount o1) \<ge> amount t then 0 else amount (sh_flat_fee m)
      | None \<Rightarrow> amount (sh_flat_fee m)) \<and>
     0 \<le> amount (sg_tax c) \<and> 2 * amount (sg_tax c) \<le> amount (sg_cost c) + 1 \<and> sg_rate c = rate) (charge rate m o1)"
proof -
  obtain left where left: "money_subtract (oa_subtotal o1) (oa_discount o1) = Inr left"
      "amount left = amount (oa_subtotal o1) - amount (oa_discount o1)"
    using assms by (intro that [of "\<lparr>amount = amount (oa_subtotal o1) - amount (oa_discount o1), currency = MXN\<rparr>"])
      (auto simp: res_simps valid_money_def)
  define free where "free = (case sh_threshold m of None \<Rightarrow> False | Some t \<Rightarrow> amount left \<ge> amount t)"
  have is_free: "is_free m o1 = Inr free" by (simp add: is_free_def left free_def split: option.split)
  define cost where "cost = (if free then money_zero (currency (sh_flat_fee m)) else sh_flat_fee m)"
  have cost_ok: "0 \<le> amount cost" using assms(3) by (simp add: cost_def valid_money_def)
  obtain tax where tax: "contained_tax cost (Whole rate) = Inr tax"
    using assms(5,6) by (auto simp: contained_tax_def)
  have "charge rate m o1 = Inr \<lparr>sg_cost = cost, sg_tax = tax, sg_rate = rate\<rparr>"
    by (simp add: charge_def is_free tax flip: cost_def)
  with contained_tax_bounds [OF tax cost_ok] left(2) show ?thesis
    by (auto simp: cost_def free_def returned_def split: option.split)
qed

section \<open>Witnesses\<close>

definition example_shipment :: new_shipment where
  "example_shipment = \<lparr>hn_order = 50, hn_code = ''K7M4Q9XA'', hn_warehouse = 2, hn_destination = example_address,
     hn_items = [\<lparr>hi_line = 60, hi_sku = ''CUE-220'', hi_product = ''Cuerda'', hi_quantity = Whole 2\<rparr>]\<rparr>"

text \<open>Created twice, sent without tracking in vain, sent with it, delivered and anonymized.\<close>

definition example_shipping_ops :: "shipping_op list" where
  "example_shipping_ops =
     [CreateShipmentOf 1 example_shipment, CreateShipmentOf 2 example_shipment, DispatchShipment 1 1 False 10,
      TrackShipment 1 1 (Some (''Estafeta'', ''3055'')), DispatchShipment 1 2 False 11, DeliverShipment 1 3 12,
      AnonymizeShipmentsOf [50] 13]"

definition example_shipping_db :: shipping_db where
  "example_shipping_db = run shipping_step (new_shipping None) example_shipping_ops"

theorem shipments_keep_tracking_witness:
  "distinct (map h_order (sd_shipments example_shipping_db)) \<and> map h_id (sd_shipments example_shipping_db) = [1]
     \<and> map h_status (sd_shipments example_shipping_db) = [ShipmentDelivered]"
proof (intro conjI)
  from shipments_keep_tracking [OF example_shipping_db_def]
  show "distinct (map h_order (sd_shipments example_shipping_db))" by simp
qed code_simp+

definition example_method :: shipping_settings where
  "example_method = \<lparr>sh_name = ''Estandar'', sh_flat_fee = \<lparr>amount = 14900, currency = MXN\<rparr>,
     sh_threshold = Some \<lparr>amount = 150000, currency = MXN\<rparr>, sh_min_days = Whole 2, sh_max_days = Whole 5\<rparr>"

end
