(* ===== verification/Promotion.thy ===== *)
theory Promotion
  imports Money "HOL-Library.Product_Lexorder"
begin

text \<open>
  A promotion (\<open>promotions/domain/promotion.ts\<close>): its terms and the checks every change passes,
  its status, which is never stored but follows from its dates, and the operations \<open>create\<close>,
  \<open>edit\<close> and \<open>end\<close>. The percentages and usage limits are typed as whole numbers, so the
  \<open>Number.isInteger\<close> part of their checks holds by typing.
\<close>

datatype promotion_channel = PROMO_ONLINE | PROMO_STORE

definition PROMOTION_CHANNELS :: "promotion_channel list" where
  "PROMOTION_CHANNELS = [PROMO_ONLINE, PROMO_STORE]"

datatype target_type = PRODUCT | CATEGORY | BRAND

datatype promotion_status = SCHEDULED | ACTIVE | ENDED

fun promotion_status_name :: "promotion_status \<Rightarrow> string" where
  "promotion_status_name SCHEDULED = ''SCHEDULED''"
| "promotion_status_name ACTIVE = ''ACTIVE''"
| "promotion_status_name ENDED = ''ENDED''"

definition PROMOTION_NAME_MAX :: nat where "PROMOTION_NAME_MAX = 120"
definition PROMOTION_TARGETS_MAX :: nat where "PROMOTION_TARGETS_MAX = 100"
definition PROMOTION_PERCENTAGE_MAX :: int where "PROMOTION_PERCENTAGE_MAX = 100"

text \<open>The regular expression of a stored coupon code, and the code as a customer types it.\<close>

definition is_upper_alnum :: "char \<Rightarrow> bool" where
  "is_upper_alnum c =
     (let n = of_char c :: nat in (48 \<le> n \<and> n \<le> 57) \<or> (65 \<le> n \<and> n \<le> 90))"

definition is_coupon_code :: "string \<Rightarrow> bool" where
  "is_coupon_code s =
     (4 \<le> length s \<and> length s \<le> 30 \<and> list_all (\<lambda>c. is_upper_alnum c \<or> c = CHR ''-'') s)"

definition normalized_coupon_code :: "string \<Rightarrow> string" where
  "normalized_coupon_code code = js_upper (js_trim code)"

record promotion_target =
  target_kind :: target_type
  target_id :: id

datatype discount = PERCENTAGE int | AMOUNT money

record promotion_terms =
  terms_name :: string
  terms_discount :: discount
  terms_targets :: "promotion_target list"
  terms_channels :: "promotion_channel list"
  terms_minimum :: "money option"
  terms_starts_at :: time
  terms_ends_at :: "time option"
  terms_code :: "string option"
  terms_usage_limit :: "int option"
  terms_once_per_customer :: bool

text \<open>Changes to the terms: \<open>None\<close> is a missing field, which keeps its value.\<close>

record promotion_changes =
  ch_name :: "string option"
  ch_discount :: "discount option"
  ch_targets :: "promotion_target list option"
  ch_channels :: "promotion_channel list option"
  ch_minimum :: "money option option"
  ch_starts_at :: "time option"
  ch_ends_at :: "time option option"
  ch_code :: "string option option"
  ch_usage_limit :: "int option option"
  ch_once_per_customer :: "bool option"

record promotion = promotion_terms +
  promo_id :: id
  promo_created_by :: id
  promo_ended_at :: "time option"
  promo_ended_by :: "id option"
  promo_uses :: int
  promo_version :: int

definition promotion_status ::
    "time \<Rightarrow> time option \<Rightarrow> time option \<Rightarrow> time \<Rightarrow> promotion_status" where
  "promotion_status starts_at ends_at ended_at at =
     (if ended_at \<noteq> None \<or> (case ends_at of None \<Rightarrow> False | Some e \<Rightarrow> e \<le> at) then ENDED
      else if at < starts_at then SCHEDULED else ACTIVE)"

definition status_at :: "promotion \<Rightarrow> time \<Rightarrow> promotion_status" where
  "status_at p at = promotion_status (terms_starts_at p) (terms_ends_at p) (promo_ended_at p) at"

definition is_coupon :: "promotion \<Rightarrow> bool" where
  "is_coupon p = (terms_code p \<noteq> None)"

section \<open>The checks of the terms\<close>

text \<open>
  The targets are compared as the sorted keys \<open>TYPE:id\<close>, where the type names order
  alphabetically.
\<close>

instantiation target_type :: linorder
begin

fun target_rank :: "target_type \<Rightarrow> nat" where
  "target_rank BRAND = 0"
| "target_rank CATEGORY = 1"
| "target_rank PRODUCT = 2"

definition less_eq_target_type :: "target_type \<Rightarrow> target_type \<Rightarrow> bool" where
  "less_eq_target_type a b = (target_rank a \<le> target_rank b)"

definition less_target_type :: "target_type \<Rightarrow> target_type \<Rightarrow> bool" where
  "less_target_type a b = (target_rank a < target_rank b)"

instance
proof
  fix a b c :: target_type
  show "a < b \<longleftrightarrow> a \<le> b \<and> \<not> b \<le> a"
    by (auto simp: less_eq_target_type_def less_target_type_def)
  show "a \<le> a" by (simp add: less_eq_target_type_def)
  show "a \<le> b \<Longrightarrow> b \<le> c \<Longrightarrow> a \<le> c" by (simp add: less_eq_target_type_def)
  show "a \<le> b \<Longrightarrow> b \<le> a \<Longrightarrow> a = b"
    by (cases a; cases b) (simp_all add: less_eq_target_type_def)
  show "a \<le> b \<or> b \<le> a" by (auto simp: less_eq_target_type_def)
qed

end

definition keys_of_targets :: "promotion_target list \<Rightarrow> (target_type \<times> id) list" where
  "keys_of_targets ts = sort (map (\<lambda>t. (target_kind t, target_id t)) ts)"

fun valid_discount :: "discount \<Rightarrow> discount result" where
  "valid_discount (AMOUNT a) =
     (if amount a < 1 then Inl (InvalidValueError ''A discount is more than 0'')
      else Inr (AMOUNT a))"
| "valid_discount (PERCENTAGE p) =
     (if p < 1 \<or> p > PROMOTION_PERCENTAGE_MAX
      then Inl (InvalidValueError ''A percentage is a whole number from 1 to 100'')
      else Inr (PERCENTAGE p))"

definition valid_terms :: "promotion_terms \<Rightarrow> promotion_terms result" where
  "valid_terms t =
     (let name = js_trim (terms_name t);
          keys = keys_of_targets (terms_targets t);
          channels = filter (\<lambda>c. c \<in> set (terms_channels t)) PROMOTION_CHANNELS;
          code = map_option normalized_coupon_code (terms_code t)
      in if length name = 0 \<or> length name > PROMOTION_NAME_MAX
         then Inl (InvalidValueError ''A name has 1 to 120 characters'')
         else if length keys > PROMOTION_TARGETS_MAX
         then Inl (InvalidValueError ''A promotion has at most 100 targets'')
         else if card (set keys) \<noteq> length keys
         then Inl (InvalidValueError ''A promotion has each target once'')
         else if length channels = 0
         then Inl (InvalidValueError ''A promotion applies in some channel'')
         else if (case terms_minimum t of None \<Rightarrow> False | Some m \<Rightarrow> amount m < 1)
         then Inl (InvalidValueError ''A minimum purchase is more than 0'')
         else if (case terms_ends_at t of None \<Rightarrow> False | Some e \<Rightarrow> e \<le> terms_starts_at t)
         then Inl (PromotionError (PromotionEndError AfterStart))
         else if (case code of None \<Rightarrow> False | Some c \<Rightarrow> \<not> is_coupon_code c)
         then Inl (InvalidValueError ''A code has 4 to 30 letters, digits or dashes'')
         else if (case terms_usage_limit t of None \<Rightarrow> False | Some n \<Rightarrow> n < 1)
         then Inl (InvalidValueError ''A usage limit is a whole number from 1'')
         else if code = None \<and> (terms_usage_limit t \<noteq> None \<or> terms_once_per_customer t)
         then Inl (InvalidValueError ''Only a coupon has limits of use'')
         else res_bind (valid_discount (terms_discount t)) (\<lambda>d.
           Inr (t\<lparr>terms_name := name, terms_discount := d, terms_channels := channels,
                 terms_code := code\<rparr>)))"

section \<open>The operations\<close>

text \<open>
  The terms of a new promotion have a start only when it is given. The record of the new
  promotion has the valid terms and its own fields.
\<close>

definition with_terms :: "promotion_terms \<Rightarrow> promotion \<Rightarrow> promotion" where
  "with_terms t p = p\<lparr>terms_name := terms_name t, terms_discount := terms_discount t,
     terms_targets := terms_targets t, terms_channels := terms_channels t,
     terms_minimum := terms_minimum t, terms_starts_at := terms_starts_at t,
     terms_ends_at := terms_ends_at t, terms_code := terms_code t,
     terms_usage_limit := terms_usage_limit t,
     terms_once_per_customer := terms_once_per_customer t\<rparr>"

definition create_promotion ::
    "id \<Rightarrow> promotion_terms \<Rightarrow> time option \<Rightarrow> id \<Rightarrow> time \<Rightarrow> promotion result" where
  "create_promotion pid terms starts_at created_by at =
     (let start = (case starts_at of None \<Rightarrow> at | Some s \<Rightarrow> if s < at then at else s)
      in res_bind (valid_terms (terms\<lparr>terms_starts_at := start\<rparr>)) (\<lambda>t.
           Inr (promotion_terms.extend t
                  \<lparr>promo_id = pid, promo_created_by = created_by, promo_ended_at = None,
                   promo_ended_by = None, promo_uses = 0, promo_version = 1\<rparr>)))"

text \<open>The terms that change only before a promotion starts, in the order the code looks at them.\<close>

datatype locked_term =
    LockedDiscount | LockedTargets | LockedChannels | LockedMinimum | LockedStart | LockedCode
  | LockedOnce

definition LOCKED_ONCE_STARTED :: "locked_term list" where
  "LOCKED_ONCE_STARTED =
     [LockedDiscount, LockedTargets, LockedChannels, LockedMinimum, LockedStart, LockedCode,
      LockedOnce]"

fun locked_name :: "locked_term \<Rightarrow> string" where
  "locked_name LockedDiscount = ''discount''"
| "locked_name LockedTargets = ''targets''"
| "locked_name LockedChannels = ''channels''"
| "locked_name LockedMinimum = ''minimumSubtotal''"
| "locked_name LockedStart = ''startsAt''"
| "locked_name LockedCode = ''code''"
| "locked_name LockedOnce = ''oncePerCustomer''"

fun key_of_discount :: "discount \<Rightarrow> bool \<times> int" where
  "key_of_discount (PERCENTAGE p) = (True, p)"
| "key_of_discount (AMOUNT a) = (False, amount a)"

fun same_term ::
    "locked_term \<Rightarrow> 'a promotion_terms_scheme \<Rightarrow> 'b promotion_terms_scheme \<Rightarrow> bool" where
  "same_term LockedDiscount a b = (key_of_discount (terms_discount a) = key_of_discount (terms_discount b))"
| "same_term LockedTargets a b =
     (keys_of_targets (terms_targets a) = keys_of_targets (terms_targets b))"
| "same_term LockedChannels a b = (terms_channels a = terms_channels b)"
| "same_term LockedMinimum a b =
     (map_option amount (terms_minimum a) = map_option amount (terms_minimum b))"
| "same_term LockedStart a b = (terms_starts_at a = terms_starts_at b)"
| "same_term LockedCode a b = (terms_code a = terms_code b)"
| "same_term LockedOnce a b = (terms_once_per_customer a = terms_once_per_customer b)"

text \<open>
  \<open>edit\<close>: the fields given replace the ones it has; a scheduled promotion given a past start
  starts now; once started, only the name, the end and the usage limit change; the same targets in
  another order keep the order they had. The second component is \<open>targetsWereChanged\<close>.
\<close>

definition edited_start :: "promotion \<Rightarrow> promotion_changes \<Rightarrow> time \<Rightarrow> time" where
  "edited_start p ch at =
     (case ch_starts_at ch of
        None \<Rightarrow> terms_starts_at p
      | Some s \<Rightarrow> if status_at p at = SCHEDULED \<and> s < at then at else s)"

definition merged_terms :: "promotion \<Rightarrow> promotion_changes \<Rightarrow> time \<Rightarrow> promotion_terms" where
  "merged_terms p ch at =
     \<lparr>terms_name = case_option (terms_name p) id (ch_name ch),
      terms_discount = case_option (terms_discount p) id (ch_discount ch),
      terms_targets = case_option (terms_targets p) id (ch_targets ch),
      terms_channels = case_option (terms_channels p) id (ch_channels ch),
      terms_minimum = case_option (terms_minimum p) id (ch_minimum ch),
      terms_starts_at = edited_start p ch at,
      terms_ends_at = case_option (terms_ends_at p) id (ch_ends_at ch),
      terms_code = case_option (terms_code p) id (ch_code ch),
      terms_usage_limit = case_option (terms_usage_limit p) id (ch_usage_limit ch),
      terms_once_per_customer = case_option (terms_once_per_customer p) id (ch_once_per_customer ch)\<rparr>"

definition apply_edit ::
    "promotion \<Rightarrow> promotion_status \<Rightarrow> promotion_terms \<Rightarrow> time \<Rightarrow> (promotion \<times> bool) result" where
  "apply_edit p status next at =
     (if (case terms_usage_limit next of None \<Rightarrow> False | Some n \<Rightarrow> n < promo_uses p)
      then Inl (PromotionError (UsageLimitError (promo_uses p)))
      else
        (let locked = (if status = ACTIVE
                       then find (\<lambda>term. \<not> same_term term p next) LOCKED_ONCE_STARTED
                       else None);
             same_targets = same_term LockedTargets p next
         in case locked of
              Some l \<Rightarrow>
                Inl (InvalidStateTransitionError (promotion_status_name status)
                       (''change its '' @ locked_name l))
            | None \<Rightarrow>
                if status = ACTIVE
                   \<and> (case terms_ends_at next of None \<Rightarrow> False | Some e \<Rightarrow> e \<le> at)
                then Inl (PromotionError (PromotionEndError InFuture))
                else Inr (with_terms
                            (next\<lparr>terms_targets :=
                               (if same_targets then terms_targets p else terms_targets next)\<rparr>) p,
                          \<not> same_targets)))"

definition edit_promotion ::
    "promotion \<Rightarrow> promotion_changes \<Rightarrow> time \<Rightarrow> (promotion \<times> bool) result" where
  "edit_promotion p ch at =
     (let status = status_at p at
      in if status = ENDED
         then Inl (InvalidStateTransitionError (promotion_status_name status) ''edit'')
         else res_bind (valid_terms (merged_terms p ch at))
                (\<lambda>next. apply_edit p status next at))"

definition end_promotion :: "promotion \<Rightarrow> id \<Rightarrow> time \<Rightarrow> promotion result" where
  "end_promotion p staff at =
     (let status = status_at p at
      in if status = ENDED
         then Inl (InvalidStateTransitionError (promotion_status_name status) ''end'')
         else Inr (p\<lparr>promo_ended_at := Some at, promo_ended_by := Some staff\<rparr>))"

section \<open>Well-formed promotions\<close>

text \<open>What the checks establish, and what every operation keeps.\<close>

definition valid_discount_terms :: "discount \<Rightarrow> bool" where
  "valid_discount_terms d = (case d of AMOUNT a \<Rightarrow> 1 \<le> amount a | PERCENTAGE p \<Rightarrow> 1 \<le> p \<and> p \<le> 100)"

definition wf_terms :: "'a promotion_terms_scheme \<Rightarrow> bool" where
  "wf_terms t \<longleftrightarrow>
     terms_name t \<noteq> [] \<and> length (terms_name t) \<le> 120 \<and> js_trim (terms_name t) = terms_name t
   \<and> length (terms_targets t) \<le> 100 \<and> distinct (map (\<lambda>x. (target_kind x, target_id x)) (terms_targets t))
   \<and> terms_channels t \<in> {[PROMO_ONLINE], [PROMO_STORE], [PROMO_ONLINE, PROMO_STORE]}
   \<and> (\<forall>m. terms_minimum t = Some m \<longrightarrow> 1 \<le> amount m)
   \<and> (\<forall>e. terms_ends_at t = Some e \<longrightarrow> terms_starts_at t < e)
   \<and> (\<forall>c. terms_code t = Some c \<longrightarrow> is_coupon_code c)
   \<and> (\<forall>n. terms_usage_limit t = Some n \<longrightarrow> 1 \<le> n)
   \<and> (terms_code t = None \<longrightarrow> terms_usage_limit t = None \<and> \<not> terms_once_per_customer t)
   \<and> valid_discount_terms (terms_discount t)"

definition wf_promotion :: "promotion \<Rightarrow> bool" where
  "wf_promotion p \<longleftrightarrow> wf_terms p \<and> 0 \<le> promo_uses p"

lemma filter_channels:
  "length (filter P PROMOTION_CHANNELS) \<noteq> 0 \<Longrightarrow>
   filter P PROMOTION_CHANNELS \<in> {[PROMO_ONLINE], [PROMO_STORE], [PROMO_ONLINE, PROMO_STORE]}"
  by (cases "P PROMO_ONLINE"; cases "P PROMO_STORE") (simp_all add: PROMOTION_CHANNELS_def)

lemma keys_distinct: "card (set (keys_of_targets ts)) = length (keys_of_targets ts) \<longleftrightarrow>
    distinct (map (\<lambda>x. (target_kind x, target_id x)) ts)"
  using card_distinct distinct_card by (fastforce simp: keys_of_targets_def)

lemma valid_discount_wf: "valid_discount d = Inr d' \<longleftrightarrow> d' = d \<and> valid_discount_terms d"
  by (cases d) (auto simp: valid_discount_terms_def PROMOTION_PERCENTAGE_MAX_def)

lemma valid_terms_Inr:
  "valid_terms t = Inr t' \<longleftrightarrow>
     t' = t\<lparr>terms_name := js_trim (terms_name t),
            terms_channels := filter (\<lambda>c. c \<in> set (terms_channels t)) PROMOTION_CHANNELS,
            terms_code := map_option normalized_coupon_code (terms_code t)\<rparr>
     \<and> wf_terms t'"
proof -
  let ?t = "t\<lparr>terms_name := js_trim (terms_name t),
     terms_channels := filter (\<lambda>c. c \<in> set (terms_channels t)) PROMOTION_CHANNELS,
     terms_code := map_option normalized_coupon_code (terms_code t)\<rparr>"
  have "valid_terms t = Inr t' \<longleftrightarrow> t' = ?t \<and> wf_terms ?t"
    unfolding valid_terms_def Let_def wf_terms_def keys_distinct
    using filter_channels [of "\<lambda>c. c \<in> set (terms_channels t)"]
    by (auto simp: res_simps valid_discount_wf PROMOTION_NAME_MAX_def PROMOTION_TARGETS_MAX_def
        keys_of_targets_def not_le not_less linorder_class.not_le split: option.splits)
  then show ?thesis by blast
qed

lemma wf_with_terms [simp]: "wf_terms (with_terms t p) = wf_terms t"
  by (simp add: with_terms_def wf_terms_def)

lemma with_terms_fields [simp]:
  "promo_id (with_terms t p) = promo_id p" "promo_uses (with_terms t p) = promo_uses p"
  "promo_ended_at (with_terms t p) = promo_ended_at p"
  "promo_ended_by (with_terms t p) = promo_ended_by p"
  "promo_version (with_terms t p) = promo_version p"
  "promo_created_by (with_terms t p) = promo_created_by p"
  "terms_usage_limit (with_terms t p) = terms_usage_limit t"
  "terms_starts_at (with_terms t p) = terms_starts_at t"
  "terms_ends_at (with_terms t p) = terms_ends_at t"
  by (simp_all add: with_terms_def)

lemma wf_extend [simp]: "wf_terms (promotion_terms.extend t m) = wf_terms t"
  by (simp add: wf_terms_def promotion_terms.defs)

lemma valid_terms_wf: "valid_terms t = Inr u \<Longrightarrow> wf_terms u"
  using valid_terms_Inr by blast

lemma valid_terms_start: "valid_terms t = Inr u \<Longrightarrow> terms_starts_at u = terms_starts_at t"
  and valid_terms_end: "valid_terms t = Inr u \<Longrightarrow> terms_ends_at u = terms_ends_at t"
  and valid_terms_limit: "valid_terms t = Inr u \<Longrightarrow> terms_usage_limit u = terms_usage_limit t"
  by (simp_all add: valid_terms_Inr)

lemma create_promotion_wf:
  assumes "create_promotion pid t s by at = Inr p"
  shows "wf_promotion p \<and> at \<le> terms_starts_at p"
proof -
  let ?s = "case s of None \<Rightarrow> at | Some x \<Rightarrow> if x < at then at else x"
  from assms obtain u where u: "valid_terms (t\<lparr>terms_starts_at := ?s\<rparr>) = Inr u"
    and p: "p = promotion_terms.extend u \<lparr>promo_id = pid, promo_created_by = by,
      promo_ended_at = None, promo_ended_by = None, promo_uses = 0, promo_version = 1\<rparr>"
    by (auto simp: create_promotion_def Let_def res_bind_eq_Inr)
  have "terms_starts_at u = ?s" using valid_terms_start [OF u] by simp
  moreover have "at \<le> ?s" by (simp split: option.split)
  ultimately show ?thesis
    using valid_terms_wf [OF u] by (simp add: p wf_promotion_def) (simp add: promotion_terms.defs)
qed

lemma apply_edit_Inr:
  "apply_edit p status t at = Inr (q, changed) \<longleftrightarrow>
     (\<forall>n. terms_usage_limit t = Some n \<longrightarrow> promo_uses p \<le> n)
   \<and> (status = ACTIVE \<longrightarrow> list_all (\<lambda>term. same_term term p t) LOCKED_ONCE_STARTED
        \<and> (\<forall>e. terms_ends_at t = Some e \<longrightarrow> at < e))
   \<and> q = with_terms (t\<lparr>terms_targets :=
           (if same_term LockedTargets p t then terms_targets p else terms_targets t)\<rparr>) p
   \<and> changed = (\<not> same_term LockedTargets p t)"
proof -
  have find: "find (\<lambda>term. \<not> same_term term p t) LOCKED_ONCE_STARTED = None \<longleftrightarrow>
      list_all (\<lambda>term. same_term term p t) LOCKED_ONCE_STARTED"
    by (auto simp: find_None_iff list_all_iff)
  have limit: "(case terms_usage_limit t of None \<Rightarrow> False | Some n \<Rightarrow> n < promo_uses p) \<longleftrightarrow>
      \<not> (\<forall>n. terms_usage_limit t = Some n \<longrightarrow> promo_uses p \<le> n)"
    by (cases "terms_usage_limit t") auto
  have ends: "(case terms_ends_at t of None \<Rightarrow> False | Some e \<Rightarrow> e \<le> at) \<longleftrightarrow>
      \<not> (\<forall>e. terms_ends_at t = Some e \<longrightarrow> at < e)"
    by (cases "terms_ends_at t") auto
  have shape: "(if \<not> lim then Inl x
        else case (if act then f else None) of Some l \<Rightarrow> Inl (y l)
             | None \<Rightarrow> if act \<and> \<not> fut then Inl z else Inr r) = Inr s \<longleftrightarrow>
      lim \<and> (act \<longrightarrow> f = None \<and> fut) \<and> s = r"
    for lim act fut :: bool and f :: "locked_term option" and x z :: thrown and y
      and r s :: "promotion \<times> bool"
    by (cases lim; cases act; cases fut; cases f) auto
  show ?thesis
    unfolding apply_edit_def Let_def limit ends shape find prod.inject by blast
qed

lemma edit_promotion_Inr:
  assumes "edit_promotion p ch at = Inr (q, changed)"
  obtains t where "valid_terms (merged_terms p ch at) = Inr t" and "status_at p at \<noteq> ENDED"
    and "apply_edit p (status_at p at) t at = Inr (q, changed)"
proof -
  from assms have "status_at p at \<noteq> ENDED"
    and "res_bind (valid_terms (merged_terms p ch at)) (\<lambda>next. apply_edit p (status_at p at) next at)
           = Inr (q, changed)"
    by (simp_all add: edit_promotion_def Let_def split: if_splits)
  then show ?thesis unfolding res_bind_eq_Inr by (elim exE conjE) (rule that)
qed

lemma same_targets_wf:
  assumes "same_term LockedTargets p t" and "wf_terms t"
  shows "wf_terms (t\<lparr>terms_targets := terms_targets p\<rparr>)"
proof -
  let ?k = "\<lambda>x. (target_kind x, target_id x)"
  have "mset (map ?k (terms_targets p)) = mset (map ?k (terms_targets t))"
    using assms(1) unfolding same_term.simps keys_of_targets_def by (rule sort_eq_mset)
  then have "length (terms_targets p) = length (terms_targets t)"
    and "distinct (map ?k (terms_targets p)) = distinct (map ?k (terms_targets t))"
    by (metis length_map size_mset, rule mset_eq_imp_distinct_iff)
  with assms(2) show ?thesis by (simp add: wf_terms_def)
qed

lemma edit_promotion_wf:
  assumes "edit_promotion p ch at = Inr (q, changed)" and "wf_promotion p"
  shows "wf_promotion q"
proof -
  from assms(1) obtain t where t: "valid_terms (merged_terms p ch at) = Inr t"
    and "apply_edit p (status_at p at) t at = Inr (q, changed)"
    by (rule edit_promotion_Inr)
  then have q: "q = with_terms (t\<lparr>terms_targets :=
           (if same_term LockedTargets p t then terms_targets p else terms_targets t)\<rparr>) p"
    unfolding apply_edit_Inr by blast
  have "wf_terms t" by (rule valid_terms_wf [OF t])
  then have "wf_terms (t\<lparr>terms_targets :=
      (if same_term LockedTargets p t then terms_targets p else terms_targets t)\<rparr>)"
    using same_targets_wf [of p t] by simp
  with assms(2) show ?thesis by (simp add: wf_promotion_def q)
qed

lemma end_promotion_Inr:
  "end_promotion p staff at = Inr q \<longleftrightarrow>
     status_at p at \<noteq> ENDED \<and> q = p\<lparr>promo_ended_at := Some at, promo_ended_by := Some staff\<rparr>"
  by (auto simp: end_promotion_def Let_def)

lemma end_promotion_wf: "end_promotion p staff at = Inr q \<Longrightarrow> wf_promotion p \<Longrightarrow> wf_promotion q"
  by (auto simp: end_promotion_Inr wf_promotion_def wf_terms_def)

section \<open>The life of a promotion\<close>

datatype promotion_event = EditPromotion promotion_changes time | EndPromotion id time

fun promotion_step :: "promotion \<Rightarrow> promotion_event \<Rightarrow> promotion result" where
  "promotion_step p (EditPromotion ch at) = res_bind (edit_promotion p ch at) (\<lambda>r. Inr (fst r))"
| "promotion_step p (EndPromotion staff at) = end_promotion p staff at"

interpretation promotion_life: lifecycle promotion_step wf_promotion
proof
  fix p ev q
  assume "wf_promotion p" and "promotion_step p ev = Inr q"
  then show "wf_promotion q"
    by (cases ev) (auto simp: res_simps intro: edit_promotion_wf end_promotion_wf)
qed

text \<open>Nothing happens to a promotion once it ended, at that time or later.\<close>

lemma ended_stays: "status_at p at = ENDED \<Longrightarrow> at \<le> at' \<Longrightarrow> status_at p at' = ENDED"
  by (auto simp: status_at_def promotion_status_def split: if_splits option.splits)

fun event_time :: "promotion_event \<Rightarrow> time" where
  "event_time (EditPromotion ch at) = at"
| "event_time (EndPromotion staff at) = at"

lemma ended_refuses: "status_at p (event_time ev) = ENDED \<Longrightarrow> attempt promotion_step p ev = p"
  by (cases ev) (simp_all add: attempt_def edit_promotion_def end_promotion_def Let_def)

lemma ended_run:
  "status_at p at = ENDED \<Longrightarrow> list_all (\<lambda>ev. at \<le> event_time ev) evs \<Longrightarrow>
   run promotion_step p evs = p"
  by (induction evs) (auto simp: ended_refuses dest: ended_stays)

lemma money_eq_iff: "a = (b :: money) \<longleftrightarrow> amount a = amount b"
  using money_eqI by auto

lemma same_discount: "key_of_discount d = key_of_discount e \<longleftrightarrow> d = e"
  by (cases d; cases e) (auto intro: money_eqI)

lemma same_minimum: fixes m n :: "money option" shows "map_option amount m = map_option amount n \<longleftrightarrow> m = n"
  by (cases m; cases n) (simp_all add: money_eq_iff)

text \<open>A promotion that started keeps what it takes off and where: an accepted edit changes
  nothing but its name, its end and the usage limit, and the end it gets is in the future.\<close>

lemma started_promotion_is_locked:
  assumes "status_at p at = ACTIVE" and "edit_promotion p ch at = Inr (q, changed)"
  shows "q = p\<lparr>terms_name := terms_name q, terms_ends_at := terms_ends_at q,
               terms_usage_limit := terms_usage_limit q\<rparr>
         \<and> \<not> changed \<and> status_at q at = ACTIVE"
proof -
  from assms(2) obtain t where t: "valid_terms (merged_terms p ch at) = Inr t"
    and "apply_edit p (status_at p at) t at = Inr (q, changed)"
    by (rule edit_promotion_Inr)
  with assms(1) have same: "list_all (\<lambda>term. same_term term p t) LOCKED_ONCE_STARTED"
    and ends: "\<forall>e. terms_ends_at t = Some e \<longrightarrow> at < e"
    and q: "q = with_terms (t\<lparr>terms_targets := terms_targets p\<rparr>) p" and c: "\<not> changed"
    unfolding apply_edit_Inr by (auto simp: LOCKED_ONCE_STARTED_def)
  have eq: "terms_discount t = terms_discount p" "terms_minimum t = terms_minimum p"
      "terms_channels t = terms_channels p" "terms_starts_at t = terms_starts_at p"
      "terms_code t = terms_code p" "terms_once_per_customer t = terms_once_per_customer p"
    using same by (auto simp: LOCKED_ONCE_STARTED_def same_discount same_minimum)
  have "status_at q at = ACTIVE"
    using assms(1) ends by (auto simp: status_at_def promotion_status_def q eq
        split: if_splits option.splits)
  with c show ?thesis by (simp add: q with_terms_def eq)
qed

section \<open>A promotion to look at\<close>

definition example_terms :: promotion_terms where
  "example_terms =
     \<lparr>terms_name = ''Sale'', terms_discount = AMOUNT \<lparr>amount = 10000, currency = MXN\<rparr>,
      terms_targets = [], terms_channels = [PROMO_ONLINE], terms_minimum = None,
      terms_starts_at = 10, terms_ends_at = Some 100, terms_code = None,
      terms_usage_limit = None, terms_once_per_customer = False\<rparr>"

definition example_promotion :: promotion where
  "example_promotion = promotion_terms.extend example_terms
     \<lparr>promo_id = 7, promo_created_by = 1, promo_ended_at = None, promo_ended_by = None,
      promo_uses = 0, promo_version = 1\<rparr>"

definition no_changes :: promotion_changes where
  "no_changes = \<lparr>ch_name = None, ch_discount = None, ch_targets = None, ch_channels = None,
     ch_minimum = None, ch_starts_at = None, ch_ends_at = None, ch_code = None,
     ch_usage_limit = None, ch_once_per_customer = None\<rparr>"

lemma example_trim: "js_trim ''Sale'' = ''Sale''" "js_trim ''Big sale'' = ''Big sale''"
  by code_simp+

lemma example_terms_wf: "wf_terms example_terms"
  by (simp add: example_terms_def wf_terms_def valid_discount_terms_def example_trim)

lemma example_promotion_wf: "wf_terms example_promotion"
  using example_terms_wf by (simp add: example_promotion_def)

end
