(* ===== verification/Discounts.thy ===== *)
theory Discounts
  imports Promotion
begin

text \<open>
  What a promotion takes off the lines of an order (\<open>promotions/domain/promotion-discounts.ts\<close>):
  the lines it applies to, the split of a percentage or an amount among them, the least the
  products pay, and the promotion an order gets. Quotients of cents by percentages stay far below
  2^53, so the floor of the double quotient is the integer division.
\<close>

record discountable_line =
  line_total :: money
  line_product :: id
  line_brand :: "id option"
  line_categories :: "id list"

definition MINIMUM_PAYMENT :: int where
  "MINIMUM_PAYMENT = 100"

definition applies_to :: "'a promotion_terms_scheme \<Rightarrow> discountable_line \<Rightarrow> bool" where
  "applies_to t line =
     (if length (terms_targets t) = 0 then True
      else list_ex (\<lambda>x. case target_kind x of
                         PRODUCT \<Rightarrow> line_product line = target_id x
                       | BRAND \<Rightarrow> line_brand line = Some (target_id x)
                       | CATEGORY \<Rightarrow> target_id x \<in> set (line_categories line)) (terms_targets t))"

text \<open>
  The loop that hands out the cents the rounding left, one by one: \<open>next\<close> walks the positions of
  \<open>byTotal\<close> and starts again at its end.
\<close>

function hand_out :: "nat list \<Rightarrow> nat \<Rightarrow> int \<Rightarrow> int list \<Rightarrow> int list" where
  "hand_out by_total next left shares =
     (if left > 0
      then hand_out by_total ((next + 1) mod length by_total) (left - 1)
             (shares[by_total ! next := shares ! (by_total ! next) + 1])
      else shares)"
  by pat_completeness auto
termination
  by (relation "measure (\<lambda>(by_total, next, left, shares). nat left)") auto

declare hand_out.simps [simp del]

text \<open>
  The positions of the eligible lines, highest total first and the first of them on a tie: the
  comparison of the code is by total and then by index, which a stable sort by the total of the
  positions in ascending order gives.
\<close>

definition by_total :: "bool list \<Rightarrow> int list \<Rightarrow> nat list" where
  "by_total eligible totals =
     sort_key (\<lambda>i. - (totals ! i)) (filter (\<lambda>i. eligible ! i) [0..<length totals])"

definition split_amount :: "int \<Rightarrow> bool list \<Rightarrow> int list \<Rightarrow> int list" where
  "split_amount cents eligible totals =
     (let total = sum_list (map2 (\<lambda>e t. if e then t else 0) eligible totals)
      in if total = 0 then map (\<lambda>_. 0) totals
         else
           (let amt = min cents total;
                shares = map2 (\<lambda>e t. if e then (amt * t) div total else 0) eligible totals;
                left = amt - sum_list shares
            in hand_out (by_total eligible totals) 0 left shares))"

definition discounts_of ::
    "'a promotion_terms_scheme \<Rightarrow> discountable_line list \<Rightarrow> money list result" where
  "discounts_of t lines =
     (case terms_discount t of
        PERCENTAGE p \<Rightarrow>
          res_map (\<lambda>line. if applies_to t line
                          then money_of (Whole ((amount (line_total line) * p + 50) div 100)) MXN
                          else Inr (money_zero MXN)) lines
      | AMOUNT a \<Rightarrow>
          res_map (\<lambda>share. money_of (Whole share) MXN)
            (split_amount (amount a) (map (applies_to t) lines)
               (map (\<lambda>line. amount (line_total line)) lines)))"

text \<open>What the least payment takes back, from the highest discount on.\<close>

primrec take_back :: "nat list \<Rightarrow> int \<Rightarrow> int list \<Rightarrow> int list" where
  "take_back [] excess reduced = reduced"
| "take_back (i # is) excess reduced =
     (if excess \<le> 0 then reduced
      else (let back = min excess (reduced ! i)
            in take_back is (excess - back) (reduced[i := reduced ! i - back])))"

definition by_discount :: "int list \<Rightarrow> nat list" where
  "by_discount discounts = sort_key (\<lambda>i. - (discounts ! i)) [0..<length discounts]"

definition reduced_discounts :: "int list \<Rightarrow> int list \<Rightarrow> int list" where
  "reduced_discounts discounts totals =
     (let subtotal = sum_list totals;
          taken = sum_list discounts;
          excess = min taken (MINIMUM_PAYMENT - (subtotal - taken))
      in take_back (by_discount discounts) excess discounts)"

definition with_minimum_payment :: "money list \<Rightarrow> discountable_line list \<Rightarrow> money list result" where
  "with_minimum_payment discounts lines =
     res_map (\<lambda>a. money_of (Whole a) MXN)
       (reduced_discounts (map amount discounts) (map (\<lambda>line. amount (line_total line)) lines))"

section \<open>The promotion of an order\<close>

record promotion_discount =
  pd_promotion :: promotion
  pd_discounts :: "money list"

definition taken_off :: "money list \<Rightarrow> int" where
  "taken_off ds = sum_list (map amount ds)"

definition discountable_subtotal :: "discountable_line list \<Rightarrow> money result" where
  "discountable_subtotal lines =
     res_fold (\<lambda>sum line. money_add sum (line_total line)) (money_zero MXN) lines"

text \<open>Whether \<open>terms.minimumSubtotal !== null && subtotal.lessThan(terms.minimumSubtotal)\<close>.\<close>

definition below_minimum :: "'a promotion_terms_scheme \<Rightarrow> money \<Rightarrow> bool result" where
  "below_minimum t subtotal =
     (case terms_minimum t of None \<Rightarrow> Inr False | Some m \<Rightarrow> less_than subtotal m)"

definition beats :: "promotion \<Rightarrow> int \<Rightarrow> promotion_discount \<times> int \<Rightarrow> bool" where
  "beats p taken best =
     (if taken \<noteq> snd best then taken > snd best
      else
        (let other = pd_promotion (fst best);
             started = terms_starts_at p - terms_starts_at other
         in if started \<noteq> 0 then started < 0 else promo_id p < promo_id other))"

text \<open>One turn of the loop over the promotions.\<close>

definition consider_promotion ::
    "discountable_line list \<Rightarrow> promotion_channel \<Rightarrow> time \<Rightarrow> money \<Rightarrow>
     (promotion_discount \<times> int) option \<Rightarrow> promotion \<Rightarrow> (promotion_discount \<times> int) option result" where
  "consider_promotion lines channel at subtotal best p =
     (if is_coupon p \<or> status_at p at \<noteq> ACTIVE \<or> channel \<notin> set (terms_channels p) then Inr best
      else res_bind (below_minimum p subtotal) (\<lambda>below.
        if below then Inr best
        else res_bind (discounts_of p lines) (\<lambda>full.
             res_bind (with_minimum_payment full lines) (\<lambda>ds.
               (let taken = taken_off ds
                in if taken = 0 \<or> (case best of None \<Rightarrow> False | Some b \<Rightarrow> \<not> beats p taken b)
                   then Inr best
                   else Inr (Some (\<lparr>pd_promotion = p, pd_discounts = ds\<rparr>, taken)))))))"

definition best_discount ::
    "promotion list \<Rightarrow> discountable_line list \<Rightarrow> promotion_channel \<Rightarrow> time \<Rightarrow>
     promotion_discount option result" where
  "best_discount promotions lines channel at =
     res_bind (discountable_subtotal lines) (\<lambda>subtotal.
     res_bind (res_fold (consider_promotion lines channel at subtotal) None promotions) (\<lambda>best.
       Inr (map_option fst best)))"

datatype coupon_outcome =
    CouponDiscounts "money list"
  | CouponRefused coupon_refusal

definition coupon_discount ::
    "promotion \<Rightarrow> discountable_line list \<Rightarrow> promotion_channel \<Rightarrow> time \<Rightarrow> coupon_outcome result" where
  "coupon_discount coupon lines channel at =
     (if status_at coupon at \<noteq> ACTIVE \<or> channel \<notin> set (terms_channels coupon)
      then Inr (CouponRefused RefusedUnavailable)
      else if (case terms_usage_limit coupon of None \<Rightarrow> False | Some n \<Rightarrow> promo_uses coupon \<ge> n)
      then Inr (CouponRefused RefusedExhausted)
      else res_bind (discountable_subtotal lines) (\<lambda>subtotal.
           res_bind (below_minimum coupon subtotal) (\<lambda>below.
             if below then Inr (CouponRefused RefusedMinimumNotMet)
             else res_bind (discounts_of coupon lines) (\<lambda>full.
                  res_bind (with_minimum_payment full lines) (\<lambda>ds.
                    if list_all money_is_zero ds then Inr (CouponRefused RefusedNoEligibleLines)
                    else Inr (CouponDiscounts ds))))))"

section \<open>The cents that the rounding leaves\<close>

definition bump_at :: "nat \<Rightarrow> int list \<Rightarrow> int list" where
  "bump_at i shares = shares[i := shares ! i + 1]"

lemma length_fold_bump [simp]: "length (fold bump_at is shares) = length shares"
  by (induction "is" arbitrary: shares) (simp_all add: bump_at_def)

lemma nth_fold_bump:
  "distinct is \<Longrightarrow> i < length shares \<Longrightarrow> set is \<subseteq> {..<length shares} \<Longrightarrow>
   fold bump_at is shares ! i = shares ! i + (if i \<in> set is then 1 else 0)"
  by (induction "is" arbitrary: shares) (auto simp: bump_at_def nth_list_update)

lemma sum_fold_bump:
  "set is \<subseteq> {..<length shares} \<Longrightarrow> sum_list (fold bump_at is shares) = sum_list shares + int (length is)"
  by (induction "is" arbitrary: shares) (auto simp: bump_at_def sum_list_update_int)

text \<open>While no more cents are left than positions, the walk never starts again.\<close>

lemma hand_out_eq:
  "next + n \<le> length ps \<Longrightarrow>
   hand_out ps next (int n) shares = fold bump_at (take n (drop next ps)) shares"
proof (induction n arbitrary: "next" shares)
  case 0
  then show ?case by (simp add: hand_out.simps)
next
  case (Suc n)
  then have len: "next < length ps" by simp
  have step: "hand_out ps next (int (Suc n)) shares =
      hand_out ps ((next + 1) mod length ps) (int n) (bump_at (ps ! next) shares)"
    by (subst hand_out.simps) (simp add: bump_at_def)
  have drop: "take (Suc n) (drop next ps) = ps ! next # take n (drop (Suc next) ps)"
    using len by (simp add: Cons_nth_drop_Suc [symmetric])
  show ?case
  proof (cases "next + 1 < length ps")
    case True
    then show ?thesis unfolding step drop using Suc.IH [of "next + 1"] Suc.prems by simp
  next
    case False
    with Suc.prems have "n = 0" by simp
    then show ?thesis unfolding step drop by (simp add: hand_out.simps)
  qed
qed

lemma sorted_negatives_first:
  fixes f :: "'a \<Rightarrow> int"
  shows "sorted (map f xs) \<Longrightarrow>
    xs = filter (\<lambda>x. f x < 0) xs @ filter (\<lambda>x. \<not> f x < 0) xs"
proof (induction xs)
  case Nil
  then show ?case by simp
next
  case (Cons x xs)
  show ?case
  proof (cases "f x < 0")
    case True
    then show ?thesis using Cons by simp
  next
    case False
    with Cons.prems have "\<forall>y \<in> set xs. \<not> f y < 0" by fastforce
    then show ?thesis using False by (simp add: filter_empty_conv)
  qed
qed

lemma by_total_distinct [simp]: "distinct (by_total e t)"
  by (simp add: by_total_def)

lemma set_by_total [simp]: "set (by_total e t) = {i. i < length t \<and> e ! i}"
  by (auto simp: by_total_def)

lemma take_by_total_positive:
  assumes "n \<le> length (filter (\<lambda>i. e ! i \<and> t ! i > 0) [0..<length t])"
    and "i \<in> set (take n (by_total e t))"
  shows "t ! i > (0 :: int)"
proof -
  let ?f = "\<lambda>i. - (t ! i)" and ?xs = "by_total e t"
  have "sorted (map ?f ?xs)" by (simp add: by_total_def)
  then have split: "?xs = filter (\<lambda>i. ?f i < 0) ?xs @ filter (\<lambda>i. \<not> ?f i < 0) ?xs"
    by (rule sorted_negatives_first)
  have "mset ?xs = mset (filter (\<lambda>i. e ! i) [0..<length t])" by (simp add: by_total_def)
  then have "mset (filter (\<lambda>i. ?f i < 0) ?xs) =
      mset (filter (\<lambda>i. ?f i < 0) (filter (\<lambda>i. e ! i) [0..<length t]))"
    by (simp only: mset_filter)
  moreover have "filter (\<lambda>i. ?f i < 0) (filter (\<lambda>i. e ! i) [0..<length t]) =
      filter (\<lambda>i. e ! i \<and> t ! i > 0) [0..<length t]"
    by (simp add: conj_commute)
  ultimately have "length (filter (\<lambda>i. ?f i < 0) ?xs) =
      length (filter (\<lambda>i. e ! i \<and> t ! i > 0) [0..<length t])"
    by (metis mset_eq_length)
  with assms(1) have "take n ?xs = take n (filter (\<lambda>i. ?f i < 0) ?xs)"
    by (subst split) simp
  with assms(2) show ?thesis by (auto dest: in_set_takeD)
qed

section \<open>Splitting an amount\<close>

abbreviation eligible_total :: "bool list \<Rightarrow> int list \<Rightarrow> int" where
  "eligible_total e t \<equiv> sum_list (map2 (\<lambda>e t. if e then t else 0) e t)"

lemma sum_map2_le:
  fixes f g :: "bool \<Rightarrow> int \<Rightarrow> int"
  shows "(\<And>b x. (b, x) \<in> set (zip e t) \<Longrightarrow> f b x \<le> g b x) \<Longrightarrow>
    sum_list (map2 f e t) \<le> sum_list (map2 g e t)"
  by (rule sum_list_mono) auto

lemma sum_map2_mult:
  fixes f :: "bool \<Rightarrow> int \<Rightarrow> int"
  shows "c * sum_list (map2 f e t) = sum_list (map2 (\<lambda>b x. c * f b x) e t)"
  by (induction e t rule: list_induct2') (simp_all add: algebra_simps)

lemma sum_map2_add:
  fixes f g :: "bool \<Rightarrow> int \<Rightarrow> int"
  shows "sum_list (map2 (\<lambda>b x. f b x + g b x) e t) = sum_list (map2 f e t) + sum_list (map2 g e t)"
  by (induction e t rule: list_induct2') simp_all

text \<open>What is left after the shares is less than the lines that got less than their exact part.\<close>

lemma left_over_bounds:
  assumes "\<forall>x \<in> set t. (0 :: int) \<le> x" and tot: "eligible_total e t = T" "0 < T"
    and len: "length e = length t" and "0 \<le> amt"
  defines "left \<equiv> amt - sum_list (map2 (\<lambda>e t. if e then (amt * t) div T else 0) e t)"
    and "pos \<equiv> length (filter (\<lambda>i. e ! i \<and> t ! i > 0) [0..<length t])"
  shows "0 \<le> left" and "left \<le> int pos"
proof -
  let ?share = "\<lambda>e t. if e then (amt * t) div T else 0"
  let ?rest = "\<lambda>e t. if e then (amt * t) mod T else 0"
  have "T * sum_list (map2 ?share e t) + sum_list (map2 ?rest e t)
      = amt * sum_list (map2 (\<lambda>e t. if e then t else 0) e t)"
    unfolding sum_map2_mult sum_map2_add [symmetric]
    by (rule arg_cong [where f = sum_list], rule map_cong) auto
  then have rest: "sum_list (map2 ?rest e t) = T * left"
    using tot(1) by (simp add: left_def algebra_simps)
  have "0 \<le> sum_list (map2 ?rest e t)" using tot(2) by (intro sum_list_nonneg_int) auto
  then show "0 \<le> left" using rest tot(2) by (simp add: zero_le_mult_iff)
  have "sum_list (map2 ?rest e t) \<le> sum_list (map2 (\<lambda>e t. if e \<and> t > 0 then T else 0) e t)"
  proof (rule sum_map2_le)
    fix b x
    assume "(b, x) \<in> set (zip e t)"
    then have "0 \<le> x" using assms(1) by (auto dest: set_zip_rightD)
    then show "?rest b x \<le> (if b \<and> x > 0 then T else 0)"
      using tot(2) by (cases "x = 0") (auto intro: less_imp_le)
  qed
  also have "\<dots> = T * int pos"
  proof -
    have "sum_list (map2 (\<lambda>e t. if e \<and> t > 0 then T else 0) e t) =
        (\<Sum>i\<leftarrow>[0..<length t]. if e ! i \<and> t ! i > 0 then T else 0)"
      using len by (intro arg_cong [where f = sum_list] nth_equalityI) auto
    also have "\<dots> = (\<Sum>i\<leftarrow>filter (\<lambda>i. e ! i \<and> t ! i > 0) [0..<length t]. T)"
      by (rule sum_list_map_filter' [symmetric])
    also have "\<dots> = T * int pos" by (simp add: pos_def sum_list_triv)
    finally show ?thesis .
  qed
  finally show "left \<le> int pos" using rest tot(2) by simp
qed

lemma floor_share_less:
  fixes amt x T :: int
  assumes "0 < x" and "amt < T" and "0 < T"
  shows "(amt * x) div T < x"
proof -
  have "amt * x < x * T" using assms by (simp add: mult.commute)
  then show ?thesis using assms(3) by (intro div_less_int)
qed

lemma eligible_total_le:
  "\<forall>x \<in> set t. (0 :: int) \<le> x \<Longrightarrow> length e = length t \<Longrightarrow> i < length t \<Longrightarrow> e ! i \<Longrightarrow>
   t ! i \<le> eligible_total e t"
proof -
  assume a: "\<forall>x \<in> set t. (0 :: int) \<le> x" "length e = length t" "i < length t" "e ! i"
  let ?m = "map2 (\<lambda>e t. if e then t else 0) e t"
  have "t ! i = ?m ! i" using a by simp
  also have "\<dots> \<le> sum_list ?m"
    by (rule member_le_sum_list_int [OF nth_mem]) (use a in \<open>auto dest: set_zip_rightD\<close>)
  finally show "t ! i \<le> eligible_total e t" .
qed

text \<open>
  The split gives out exactly the amount, or what the eligible lines add up to when it is more;
  each line gets its floor share or one cent more, and never more than its total.
\<close>

lemma split_amount_parts:
  assumes nn: "\<forall>x \<in> set t. (0 :: int) \<le> x" and len: "length e = length t" and "0 \<le> cents"
  defines "T \<equiv> eligible_total e t" and "r \<equiv> split_amount cents e t"
  shows "length r = length t" and "sum_list r = min cents T"
    and "i < length t \<Longrightarrow> 0 \<le> r ! i \<and> r ! i \<le> (if e ! i then t ! i else 0)"
    and "i < length t \<Longrightarrow> e ! i \<Longrightarrow> 0 < T \<Longrightarrow>
         r ! i \<in> {(min cents T * t ! i) div T, (min cents T * t ! i) div T + 1}"
proof -
  have T0: "0 \<le> T" unfolding T_def
    by (rule sum_list_nonneg_int) (use nn in \<open>auto dest: set_zip_rightD\<close>)
  have all: "length r = length t \<and> sum_list r = min cents T \<and>
    (\<forall>i < length t. 0 \<le> r ! i \<and> r ! i \<le> (if e ! i then t ! i else 0)) \<and>
    (\<forall>i < length t. e ! i \<longrightarrow> 0 < T \<longrightarrow>
         r ! i \<in> {(min cents T * t ! i) div T, (min cents T * t ! i) div T + 1})"
  proof (cases "T = 0")
    case True
    then have "r = map (\<lambda>_. 0) t" by (simp add: r_def split_amount_def T_def Let_def)
    then show ?thesis using True nn assms(3) by (auto simp: map_replicate_const sum_list_replicate)
  next
    case False
    with T0 have T: "0 < T" by simp
    define amt where "amt = min cents T"
    define shares where "shares = map2 (\<lambda>e t. if e then (amt * t) div T else 0) e t"
    define left where "left = amt - sum_list shares"
    define pos where "pos = length (filter (\<lambda>i. e ! i \<and> t ! i > 0) [0..<length t])"
    have amt: "0 \<le> amt" "amt \<le> T" using assms(3) T by (auto simp: amt_def)
    have left: "0 \<le> left" "left \<le> int pos"
      using left_over_bounds [OF nn _ T len amt(1)] T_def
      by (simp_all add: left_def shares_def pos_def)
    define given where "given = take (nat left) (by_total e t)"
    have pos_le: "pos \<le> length (by_total e t)"
      using length_filter_le [of "\<lambda>i. t ! i > 0" "filter (\<lambda>i. e ! i) [0..<length t]"]
      by (simp add: pos_def by_total_def conj_commute)
    have r: "r = fold bump_at given shares"
    proof -
      have "r = hand_out (by_total e t) 0 left shares"
        using False unfolding left_def shares_def amt_def r_def T_def split_amount_def Let_def
        by simp
      also have "left = int (nat left)" using left(1) by simp
      also have "hand_out (by_total e t) 0 (int (nat left)) shares = fold bump_at given shares"
        using hand_out_eq [of 0 "nat left" "by_total e t" shares] pos_le left
        by (simp add: given_def)
      finally show ?thesis .
    qed
    have gset: "set given \<subseteq> {..<length t}" "distinct given" "length given = nat left"
      using pos_le left by (auto simp: given_def dest: in_set_takeD)
    have slen: "length shares = length t" using len by (simp add: shares_def)
    have r_nth: "r ! i = (if e ! i then (amt * t ! i) div T else 0) + (if i \<in> set given then 1 else 0)"
      if "i < length t" for i
      using that gset len by (simp add: r nth_fold_bump slen) (simp add: shares_def)
    have given: "e ! i \<and> 0 < t ! i \<and> amt < T" if "i \<in> set given" for i
    proof -
      from that have "e ! i" by (auto simp: given_def dest: in_set_takeD)
      moreover have "0 < t ! i"
        using that left by (intro take_by_total_positive [of "nat left" e t i])
          (auto simp: given_def pos_def)
      moreover have "amt \<noteq> T"
      proof
        assume "amt = T"
        then have "shares = map2 (\<lambda>e t. if e then t else 0) e t" using T by (auto simp: shares_def)
        then have "left = 0" using \<open>amt = T\<close> by (simp add: left_def T_def)
        with that show False by (simp add: given_def)
      qed
      ultimately show ?thesis using amt by simp
    qed
    have bounds: "0 \<le> r ! i \<and> r ! i \<le> (if e ! i then t ! i else 0)" if i: "i < length t" for i
    proof -
      have ti: "0 \<le> t ! i" using nn i by simp
      have lo: "0 \<le> (amt * t ! i) div T" using amt ti T by (simp add: pos_imp_zdiv_nonneg_iff)
      have "amt * t ! i \<le> t ! i * T" using amt ti by (simp add: mult.commute [of "t ! i"] mult_right_mono)
      then have "(amt * t ! i) div T \<le> t ! i" using zdiv_mono1 [OF _ T] T by fastforce
      then show ?thesis using r_nth [OF i] lo given [of i] floor_share_less [of "t ! i" amt T] T
        by auto
    qed
    have "sum_list r = amt"
      using gset left by (simp add: r sum_fold_bump slen) (simp add: left_def)
    then show ?thesis using bounds r_nth by (auto simp: r slen amt_def)
  qed
  then show "length r = length t" "sum_list r = min cents T" by blast+
  show "i < length t \<Longrightarrow> 0 \<le> r ! i \<and> r ! i \<le> (if e ! i then t ! i else 0)"
    and "i < length t \<Longrightarrow> e ! i \<Longrightarrow> 0 < T \<Longrightarrow>
         r ! i \<in> {(min cents T * t ! i) div T, (min cents T * t ! i) div T + 1}"
    using all by blast+
qed

section \<open>Taking back up to the least payment\<close>

lemma length_take_back [simp]: "length (take_back is x ds) = length ds"
  by (induction "is" arbitrary: x ds) (auto simp: Let_def)

lemma take_back_frame: "i \<notin> set is \<Longrightarrow> take_back is x ds ! i = ds ! i"
  by (induction "is" arbitrary: x ds) (auto simp: Let_def)

lemma take_back_bounds:
  "\<forall>d \<in> set ds. (0 :: int) \<le> d \<Longrightarrow> set is \<subseteq> {..<length ds} \<Longrightarrow> i < length ds \<Longrightarrow>
   0 \<le> take_back is x ds ! i \<and> take_back is x ds ! i \<le> ds ! i"
proof (induction "is" arbitrary: x ds)
  case Nil
  then show ?case by simp
next
  case (Cons j js)
  show ?case
  proof (cases "x \<le> 0")
    case True
    then show ?thesis using Cons.prems by simp
  next
    case False
    let ?b = "min x (ds ! j)"
    have j: "j < length ds" and dj: "0 \<le> ds ! j" using Cons.prems by auto
    have "\<forall>d \<in> set (ds[j := ds ! j - ?b]). 0 \<le> d"
      using Cons.prems(1) dj set_update_subset_insert [of ds j "ds ! j - ?b"] by auto
    from Cons.IH [OF this, of "x - ?b"] Cons.prems(2,3)
    have "0 \<le> take_back js (x - ?b) (ds[j := ds ! j - ?b]) ! i
      \<and> take_back js (x - ?b) (ds[j := ds ! j - ?b]) ! i \<le> ds[j := ds ! j - ?b] ! i"
      by auto
    then show ?thesis using False j dj by (auto simp: Let_def nth_list_update split: if_splits)
  qed
qed

lemma sum_take_back:
  "\<forall>d \<in> set ds. (0 :: int) \<le> d \<Longrightarrow> set is \<subseteq> {..<length ds} \<Longrightarrow> distinct is \<Longrightarrow>
   sum_list (take_back is x ds) = sum_list ds - max 0 (min x (\<Sum>i\<leftarrow>is. ds ! i))"
proof (induction "is" arbitrary: x ds)
  case Nil
  then show ?case by simp
next
  case (Cons j js)
  have j: "j < length ds" and dj: "0 \<le> ds ! j" using Cons.prems by auto
  have rest: "0 \<le> (\<Sum>i\<leftarrow>js. ds ! i)"
    by (rule sum_list_nonneg_int) (use Cons.prems in \<open>auto simp: subset_iff\<close>)
  show ?case
  proof (cases "x \<le> 0")
    case True
    then show ?thesis by simp
  next
    case False
    let ?b = "min x (ds ! j)" and ?ds = "ds[j := ds ! j - min x (ds ! j)]"
    have "\<forall>d \<in> set ?ds. 0 \<le> d"
      using Cons.prems(1) dj set_update_subset_insert [of ds j "ds ! j - ?b"] by auto
    from Cons.IH [OF this] Cons.prems(2,3)
    have "sum_list (take_back js (x - ?b) ?ds) =
        sum_list ?ds - max 0 (min (x - ?b) (\<Sum>i\<leftarrow>js. ?ds ! i))" by simp
    also have "(\<Sum>i\<leftarrow>js. ?ds ! i) = (\<Sum>i\<leftarrow>js. ds ! i)"
      by (rule arg_cong [where f = sum_list], rule map_cong)
        (use Cons.prems(3) in \<open>auto intro!: nth_list_update_neq\<close>)
    finally show ?thesis using False j dj rest by (simp add: Let_def sum_list_update_int)
  qed
qed

lemma by_discount_simps [simp]:
  "distinct (by_discount ds)" "set (by_discount ds) = {..<length ds}"
  "(\<Sum>i\<leftarrow>by_discount ds. ds ! i) = sum_list ds"
proof -
  show "distinct (by_discount ds)" "set (by_discount ds) = {..<length ds}"
    by (auto simp: by_discount_def)
  have "sum_list (map (\<lambda>i. ds ! i) (by_discount ds)) = sum_mset (mset (map (\<lambda>i. ds ! i) (by_discount ds)))"
    by (simp only: sum_mset_sum_list)
  also have "\<dots> = sum_mset (mset (map (\<lambda>i. ds ! i) [0..<length ds]))"
    by (simp add: by_discount_def)
  also have "\<dots> = sum_list ds" by (simp only: sum_mset_sum_list map_nth)
  finally show "(\<Sum>i\<leftarrow>by_discount ds. ds ! i) = sum_list ds" .
qed

text \<open>
  The products pay what they would without the rule, or, when that is less than a peso, one peso
  (or all they cost, when they cost less).
\<close>

lemma reduced_discounts_parts:
  assumes "list_all2 (\<lambda>d t. (0 :: int) \<le> d \<and> d \<le> t) ds ts"
  shows "list_all2 (\<lambda>r d. 0 \<le> r \<and> r \<le> d) (reduced_discounts ds ts) ds"
    and "sum_list ts - sum_list (reduced_discounts ds ts) =
           max (sum_list ts - sum_list ds) (min MINIMUM_PAYMENT (sum_list ts))"
proof -
  have nn: "\<forall>d \<in> set ds. 0 \<le> d" using assms by (auto simp: list_all2_conv_all_nth in_set_conv_nth)
  then have "0 \<le> sum_list ds" by (auto intro: sum_list_nonneg_int)
  moreover have "sum_list ds \<le> sum_list ts"
    using assms by (induction rule: list_all2_induct) auto
  ultimately show "sum_list ts - sum_list (reduced_discounts ds ts) =
      max (sum_list ts - sum_list ds) (min MINIMUM_PAYMENT (sum_list ts))"
    using nn by (simp add: reduced_discounts_def Let_def sum_take_back MINIMUM_PAYMENT_def)
  show "list_all2 (\<lambda>r d. 0 \<le> r \<and> r \<le> d) (reduced_discounts ds ts) ds"
    using nn by (auto simp: list_all2_conv_all_nth reduced_discounts_def Let_def
        intro!: take_back_bounds [THEN conjunct1] take_back_bounds [THEN conjunct2])
qed

section \<open>The discounts of a promotion\<close>

definition valid_lines :: "discountable_line list \<Rightarrow> bool" where
  "valid_lines lines \<longleftrightarrow> (\<forall>line \<in> set lines. valid_money (line_total line))"

abbreviation totals :: "discountable_line list \<Rightarrow> int list" where
  "totals lines \<equiv> map (\<lambda>line. amount (line_total line)) lines"

text \<open>A list of discounts that leaves every line at zero or more.\<close>

definition fitting :: "money list \<Rightarrow> discountable_line list \<Rightarrow> bool" where
  "fitting ds lines \<longleftrightarrow>
     list_all2 (\<lambda>d line. 0 \<le> amount d \<and> amount d \<le> amount (line_total line)) ds lines"

lemma res_map_money_total:
  assumes "\<forall>x \<in> set xs. 0 \<le> x \<and> x \<le> MAX_MONEY_AMOUNT"
  shows "res_map (\<lambda>a. money_of (Whole a) MXN) xs = Inr (map (\<lambda>a. \<lparr>amount = a, currency = MXN\<rparr>) xs)"
  using assms by (induction xs) (auto simp: money_of_def)

lemma percentage_share:
  fixes a p :: int
  assumes "0 \<le> a" "0 \<le> p" "p \<le> 100"
  shows "0 \<le> (a * p + 50) div 100" and "(a * p + 50) div 100 \<le> a"
proof -
  show "0 \<le> (a * p + 50) div 100" using assms by (simp add: pos_imp_zdiv_nonneg_iff)
  have "a * p \<le> a * 100" using assms by (intro mult_left_mono)
  then show "(a * p + 50) div 100 \<le> a" by linarith
qed

text \<open>The discounts as amounts: what both kinds give, without the range checks, which pass.\<close>

definition discount_cents :: "'a promotion_terms_scheme \<Rightarrow> discountable_line list \<Rightarrow> int list" where
  "discount_cents t lines =
     (case terms_discount t of
        PERCENTAGE p \<Rightarrow> map (\<lambda>line. if applies_to t line
                                    then (amount (line_total line) * p + 50) div 100 else 0) lines
      | AMOUNT a \<Rightarrow> split_amount (amount a) (map (applies_to t) lines) (totals lines))"

lemma discount_cents_bounds:
  assumes "valid_lines lines" and "valid_discount_terms (terms_discount t)" and "i < length lines"
  shows "0 \<le> discount_cents t lines ! i \<and> discount_cents t lines ! i \<le>
           (if applies_to t (lines ! i) then amount (line_total (lines ! i)) else 0)"
proof (cases "terms_discount t")
  case (PERCENTAGE p)
  moreover have "0 \<le> amount (line_total (lines ! i))"
    using assms(1,3) by (auto simp: valid_lines_def valid_money_def)
  ultimately show ?thesis using assms(2,3) percentage_share
    by (auto simp: discount_cents_def valid_discount_terms_def)
next
  case (AMOUNT a)
  have "\<forall>x \<in> set (totals lines). 0 \<le> x" using assms(1) by (auto simp: valid_lines_def valid_money_def)
  then show ?thesis
    using split_amount_parts(3) [of "totals lines" "map (applies_to t) lines" "amount a" i] assms AMOUNT
    by (auto simp: discount_cents_def valid_discount_terms_def)
qed

lemma length_discount_cents:
  assumes "valid_lines lines" and "valid_discount_terms (terms_discount t)"
  shows "length (discount_cents t lines) = length lines"
proof (cases "terms_discount t")
  case (PERCENTAGE p)
  then show ?thesis by (simp add: discount_cents_def)
next
  case (AMOUNT a)
  have "\<forall>x \<in> set (totals lines). 0 \<le> x" using assms(1) by (auto simp: valid_lines_def valid_money_def)
  then show ?thesis
    using split_amount_parts(1) [of "totals lines" "map (applies_to t) lines" "amount a"] assms AMOUNT
    by (simp add: discount_cents_def valid_discount_terms_def)
qed

lemma discounts_of_eq:
  assumes "valid_lines lines" and "valid_discount_terms (terms_discount t)"
  shows "discounts_of t lines =
           Inr (map (\<lambda>a. \<lparr>amount = a, currency = MXN\<rparr>) (discount_cents t lines))"
proof -
  have "\<forall>x \<in> set (discount_cents t lines). 0 \<le> x \<and> x \<le> MAX_MONEY_AMOUNT"
  proof
    fix x
    assume "x \<in> set (discount_cents t lines)"
    then obtain i where i: "i < length lines" "x = discount_cents t lines ! i"
      using length_discount_cents [OF assms] by (auto simp: in_set_conv_nth)
    then have "valid_money (line_total (lines ! i))" using assms(1) by (simp add: valid_lines_def)
    then show "0 \<le> x \<and> x \<le> MAX_MONEY_AMOUNT"
      using discount_cents_bounds [OF assms i(1)] i(2)
      by (auto simp: valid_money_def MAX_MONEY_AMOUNT_def split: if_splits)
  qed
  from res_map_money_total [OF this] show ?thesis
  proof (cases "terms_discount t")
    case (PERCENTAGE p)
    have map: "res_map f (map g xs) = res_map (\<lambda>x. f (g x)) xs"
      for f :: "int \<Rightarrow> money result" and g :: "discountable_line \<Rightarrow> int" and xs
      by (induction xs) simp_all
    have if_eq: "(\<lambda>line. if applies_to t line
          then money_of (Whole ((amount (line_total line) * p + 50) div 100)) MXN
          else Inr (money_zero MXN)) =
        (\<lambda>line. money_of (Whole (if applies_to t line
          then (amount (line_total line) * p + 50) div 100 else 0)) MXN)"
      by (auto simp: fun_eq_iff money_of_def money_zero_def MAX_MONEY_AMOUNT_def)
    show ?thesis
      using \<open>res_map _ (discount_cents t lines) = _\<close> PERCENTAGE
      by (simp add: discounts_of_def discount_cents_def if_eq map)
  next
    case (AMOUNT a)
    then show ?thesis
      using \<open>res_map _ (discount_cents t lines) = _\<close> by (simp add: discounts_of_def discount_cents_def)
  qed
qed

lemma discounts_fit:
  assumes "valid_lines lines" and "wf_terms t"
  shows "\<exists>ds. discounts_of t lines = Inr ds \<and> fitting ds lines
           \<and> (\<forall>i < length lines. \<not> applies_to t (lines ! i) \<longrightarrow> amount (ds ! i) = 0)
           \<and> (\<forall>a. terms_discount t = AMOUNT a \<longrightarrow>
                taken_off ds = min (amount a)
                  (sum_list (map (\<lambda>line. if applies_to t line then amount (line_total line) else 0) lines)))"
proof -
  have valid: "valid_discount_terms (terms_discount t)" using assms(2) by (simp add: wf_terms_def)
  let ?ds = "map (\<lambda>a. \<lparr>amount = a, currency = MXN\<rparr>) (discount_cents t lines)"
  note parts = discount_cents_bounds [OF assms(1) valid] length_discount_cents [OF assms(1) valid]
  have "fitting ?ds lines"
  proof -
    have "discount_cents t lines ! i \<le> amount (line_total (lines ! i))" if "i < length lines" for i
      using parts(1) [OF that] that assms(1)
      by (cases "applies_to t (lines ! i)") (auto simp: valid_lines_def valid_money_def)
    then show ?thesis using parts by (simp add: fitting_def list_all2_conv_all_nth)
  qed
  moreover have "\<forall>i < length lines. \<not> applies_to t (lines ! i) \<longrightarrow> amount (?ds ! i) = 0"
    using parts by fastforce
  moreover have "\<forall>a. terms_discount t = AMOUNT a \<longrightarrow> taken_off ?ds = min (amount a)
      (sum_list (map (\<lambda>line. if applies_to t line then amount (line_total line) else 0) lines))"
  proof (intro allI impI)
    fix a
    assume a: "terms_discount t = AMOUNT a"
    have nn: "\<forall>x \<in> set (totals lines). 0 \<le> x"
      using assms(1) by (auto simp: valid_lines_def valid_money_def)
    have map2: "map2 (\<lambda>e t. if e then t else 0) (map (applies_to t) lines) (totals lines) =
        map (\<lambda>line. if applies_to t line then amount (line_total line) else 0) lines"
      by (induction lines) auto
    have "0 \<le> amount a" using valid a by (simp add: valid_discount_terms_def)
    from split_amount_parts(2) [OF nn _ this, of "map (applies_to t) lines"]
    show "taken_off ?ds = min (amount a)
      (sum_list (map (\<lambda>line. if applies_to t line then amount (line_total line) else 0) lines))"
      by (simp add: taken_off_def discount_cents_def a map2 comp_def)
  qed
  ultimately show ?thesis using discounts_of_eq [OF assms(1) valid] by blast
qed

lemma minimum_payment_parts:
  assumes "valid_lines lines" and "fitting ds lines"
  shows "\<exists>rs. with_minimum_payment ds lines = Inr rs \<and> fitting rs lines
           \<and> list_all2 (\<lambda>r d. amount r \<le> amount d) rs ds
           \<and> sum_list (totals lines) - taken_off rs =
               max (sum_list (totals lines) - taken_off ds) (min 100 (sum_list (totals lines)))"
proof -
  let ?ds = "map amount ds"
  let ?rs = "reduced_discounts ?ds (totals lines)"
  let ?ms = "map (\<lambda>a. \<lparr>amount = a, currency = MXN\<rparr>) ?rs"
  have "list_all2 (\<lambda>d t. 0 \<le> d \<and> d \<le> t) ?ds (totals lines)"
    using assms(2) by (simp add: fitting_def list_all2_conv_all_nth)
  note parts = reduced_discounts_parts [OF this]
  have len: "length ?rs = length lines" "length ds = length lines"
    using list_all2_lengthD [OF parts(1)] assms(2) by (auto simp: fitting_def dest: list_all2_lengthD)
  have fit: "fitting ?ms lines" and below: "list_all2 (\<lambda>r d. amount r \<le> amount d) ?ms ds"
    using parts(1) assms(2) len by (auto simp: fitting_def list_all2_conv_all_nth)
      (meson order_trans)
  have "\<forall>x \<in> set ?rs. 0 \<le> x \<and> x \<le> MAX_MONEY_AMOUNT"
  proof
    fix x
    assume "x \<in> set ?rs"
    then obtain i where i: "i < length lines" "x = ?rs ! i"
      using len by (auto simp: in_set_conv_nth)
    then have "valid_money (line_total (lines ! i))" using assms(1) by (simp add: valid_lines_def)
    then show "0 \<le> x \<and> x \<le> MAX_MONEY_AMOUNT"
      using fit i len by (auto simp: fitting_def list_all2_conv_all_nth valid_money_def)
  qed
  then have "with_minimum_payment ds lines = Inr ?ms"
    by (simp add: with_minimum_payment_def res_map_money_total)
  moreover have "sum_list (totals lines) - taken_off ?ms =
      max (sum_list (totals lines) - taken_off ds) (min 100 (sum_list (totals lines)))"
    using parts(2) by (simp add: taken_off_def comp_def MINIMUM_PAYMENT_def)
  ultimately show ?thesis using fit below by blast
qed

section \<open>The promotion an order gets\<close>

definition candidate ::
    "promotion_channel \<Rightarrow> time \<Rightarrow> money \<Rightarrow> promotion \<Rightarrow> bool" where
  "candidate channel at subtotal p \<longleftrightarrow>
     \<not> is_coupon p \<and> status_at p at = ACTIVE \<and> channel \<in> set (terms_channels p)
   \<and> (\<forall>m. terms_minimum p = Some m \<longrightarrow> amount m \<le> amount subtotal)"

definition final_discounts :: "promotion \<Rightarrow> discountable_line list \<Rightarrow> money list result" where
  "final_discounts p lines =
     res_bind (discounts_of p lines) (\<lambda>full. with_minimum_payment full lines)"

definition taken_by :: "discountable_line list \<Rightarrow> promotion \<Rightarrow> int" where
  "taken_by lines p = (case final_discounts p lines of Inr ds \<Rightarrow> taken_off ds | Inl _ \<Rightarrow> 0)"

definition outranks :: "discountable_line list \<Rightarrow> promotion \<Rightarrow> promotion \<Rightarrow> bool" where
  "outranks lines p q \<longleftrightarrow>
     taken_by lines q < taken_by lines p
   \<or> taken_by lines q = taken_by lines p
     \<and> (terms_starts_at p < terms_starts_at q
         \<or> terms_starts_at p = terms_starts_at q \<and> promo_id p \<le> promo_id q)"

lemma outranks_refl [simp]: "outranks lines p p"
  and outranks_trans: "outranks lines p q \<Longrightarrow> outranks lines q r \<Longrightarrow> outranks lines p r"
  and outranks_total: "\<not> outranks lines p q \<Longrightarrow> outranks lines q p"
  by (auto simp: outranks_def)

lemma fitting_taken_nonneg: "fitting ds lines \<Longrightarrow> 0 \<le> taken_off ds"
  by (auto simp: fitting_def taken_off_def list_all2_conv_all_nth in_set_conv_nth
      intro!: sum_list_nonneg_int)

lemma final_discounts_fit:
  assumes "valid_lines lines" and "wf_terms p"
  obtains ds where "final_discounts p lines = Inr ds" and "fitting ds lines"
    and "taken_by lines p = taken_off ds" and "0 \<le> taken_off ds"
proof -
  from discounts_fit [OF assms] obtain full
    where "discounts_of p lines = Inr full" "fitting full lines" by blast
  moreover from minimum_payment_parts [OF assms(1) this(2)] obtain ds
    where "with_minimum_payment full lines = Inr ds" "fitting ds lines" by blast
  ultimately show ?thesis using that [of ds] fitting_taken_nonneg [of ds lines]
    by (simp add: final_discounts_def taken_by_def)
qed

lemma below_minimum_eq:
  "below_minimum t s = Inr (\<exists>m. terms_minimum t = Some m \<and> amount s < amount m)"
  by (auto simp: below_minimum_def split: option.split)

definition best_of ::
    "discountable_line list \<Rightarrow> promotion_channel \<Rightarrow> time \<Rightarrow> money \<Rightarrow> promotion set \<Rightarrow>
     (promotion_discount \<times> int) option \<Rightarrow> bool" where
  "best_of lines channel at subtotal seen best \<longleftrightarrow>
     (case best of
        None \<Rightarrow> \<forall>q \<in> seen. candidate channel at subtotal q \<longrightarrow> taken_by lines q = 0
      | Some (d, k) \<Rightarrow>
          pd_promotion d \<in> seen \<and> candidate channel at subtotal (pd_promotion d)
        \<and> final_discounts (pd_promotion d) lines = Inr (pd_discounts d)
        \<and> k = taken_by lines (pd_promotion d) \<and> 0 < k
        \<and> (\<forall>q \<in> seen. candidate channel at subtotal q \<longrightarrow> outranks lines (pd_promotion d) q))"

lemma consider_promotion_eq:
  assumes "valid_lines lines" and "wf_terms p" and "final_discounts p lines = Inr ds"
    and "taken_by lines p = taken_off ds"
  shows "consider_promotion lines channel at subtotal best p =
     Inr (if candidate channel at subtotal p \<and> taken_by lines p \<noteq> 0
             \<and> (\<forall>b. best = Some b \<longrightarrow> beats p (taken_by lines p) b)
          then Some (\<lparr>pd_promotion = p, pd_discounts = ds\<rparr>, taken_by lines p) else best)"
proof -
  from assms(3) obtain full where "discounts_of p lines = Inr full"
      "with_minimum_payment full lines = Inr ds"
    by (auto simp: final_discounts_def res_bind_eq_Inr)
  then show ?thesis
    using assms(4) by (cases best)
      (auto simp: consider_promotion_def candidate_def below_minimum_eq Let_def not_less not_le)
qed

lemma beats_outranks:
  "snd b = taken_by lines (pd_promotion (fst b)) \<Longrightarrow>
   beats p (taken_by lines p) b \<longleftrightarrow> \<not> outranks lines (pd_promotion (fst b)) p"
  by (auto simp: beats_def outranks_def Let_def)

lemma consider_promotion_best:
  assumes "valid_lines lines" and "wf_terms p" and "best_of lines channel at subtotal seen best"
  shows "\<exists>best'. consider_promotion lines channel at subtotal best p = Inr best'
           \<and> best_of lines channel at subtotal (insert p seen) best'"
proof -
  from final_discounts_fit [OF assms(1,2)] obtain ds where ds: "final_discounts p lines = Inr ds"
    "taken_by lines p = taken_off ds" "0 \<le> taken_off ds" by metis
  note eq = consider_promotion_eq [OF assms(1,2) ds(1,2)]
  show ?thesis
  proof (cases best)
    case None
    with assms(3) ds have zero: "\<forall>q \<in> seen. candidate channel at subtotal q \<longrightarrow> taken_by lines q = 0"
      by (simp add: best_of_def)
    then have "0 < taken_by lines p \<Longrightarrow> \<forall>q \<in> seen. candidate channel at subtotal q \<longrightarrow> outranks lines p q"
      by (auto simp: outranks_def)
    then show ?thesis using ds zero by (auto simp: eq best_of_def None less_le)
  next
    case (Some b)
    obtain d k where b: "b = (d, k)" by (cases b)
    from assms(3) have old: "pd_promotion d \<in> seen" "candidate channel at subtotal (pd_promotion d)"
        "final_discounts (pd_promotion d) lines = Inr (pd_discounts d)"
        "k = taken_by lines (pd_promotion d)" "0 < k"
        "\<forall>q \<in> seen. candidate channel at subtotal q \<longrightarrow> outranks lines (pd_promotion d) q"
      by (simp_all add: best_of_def Some b)
    show ?thesis
    proof (cases "candidate channel at subtotal p \<and> taken_by lines p \<noteq> 0
        \<and> \<not> outranks lines (pd_promotion d) p")
      case True
      then have p: "outranks lines p (pd_promotion d)" using outranks_total by blast
      then have "\<forall>q \<in> seen. candidate channel at subtotal q \<longrightarrow> outranks lines p q"
        using old(6) outranks_trans by blast
      moreover have "beats p (taken_by lines p) (d, k)"
        using True beats_outranks [of "(d, k)" lines p] old(4) by simp
      ultimately show ?thesis using True ds by (simp add: eq best_of_def Some b less_le)
    next
      case False
      then have "candidate channel at subtotal p \<Longrightarrow> outranks lines (pd_promotion d) p"
        using old(4,5) by (auto simp: outranks_def)
      moreover have "candidate channel at subtotal p \<and> taken_by lines p \<noteq> 0 \<Longrightarrow>
          \<not> beats p (taken_by lines p) (d, k)"
        using False beats_outranks [of "(d, k)" lines p] old(4) by simp
      ultimately show ?thesis using old by (auto simp: eq best_of_def Some b)
    qed
  qed
qed

lemma consider_all_best:
  assumes "valid_lines lines" and "\<forall>p \<in> set ps. wf_terms p"
  shows "\<exists>best. res_fold (consider_promotion lines channel at subtotal) None ps = Inr best
           \<and> best_of lines channel at subtotal (set ps) best"
  using assms(2)
proof (induction ps rule: rev_induct)
  case Nil
  then show ?case by (simp add: best_of_def)
next
  case (snoc p ps)
  then obtain best where "res_fold (consider_promotion lines channel at subtotal) None ps = Inr best"
    "best_of lines channel at subtotal (set ps) best" by auto
  with consider_promotion_best [OF assms(1), of p channel at subtotal "set ps" best] snoc.prems
  show ?case by (auto simp: res_fold_append)
qed

text \<open>C28. The automatic promotion an order gets is the best one: when the subtotal is an amount of
  money, the loop always answers; it answers none only when no candidate takes anything off, and
  else a candidate that takes off something, with its own discounts, and that no other candidate
  beats: by what it takes off, then by starting first, then by the first ID.\<close>

theorem best_discount_is_best:
  assumes "valid_lines lines" and "\<forall>p \<in> set ps. wf_terms p"
    and "discountable_subtotal lines = Inr subtotal"
  shows "\<exists>best. best_discount ps lines channel at = Inr best \<and>
     (case best of
        None \<Rightarrow> \<forall>q \<in> set ps. candidate channel at subtotal q \<longrightarrow> taken_by lines q = 0
      | Some d \<Rightarrow>
          pd_promotion d \<in> set ps \<and> candidate channel at subtotal (pd_promotion d)
        \<and> final_discounts (pd_promotion d) lines = Inr (pd_discounts d)
        \<and> 0 < taken_off (pd_discounts d)
        \<and> (\<forall>q \<in> set ps. candidate channel at subtotal q \<longrightarrow> outranks lines (pd_promotion d) q))"
proof -
  from consider_all_best [OF assms(1,2), of channel at subtotal] obtain best where
    "res_fold (consider_promotion lines channel at subtotal) None ps = Inr best"
    "best_of lines channel at subtotal (set ps) best" by blast
  then show ?thesis using assms(3)
    by (cases best) (auto simp: best_discount_def best_of_def taken_by_def)
qed

text \<open>C25. A promotion with valid terms always says what it takes off lines with valid totals: one
  discount per line, between zero and the line total, nothing off a line it does not apply to. An
  amount is given out to the cent: the discounts add up to it, or to the total of the lines it
  applies to when that is less.\<close>

theorem discounts_fit_the_lines:
  assumes "valid_lines lines" and "wf_terms t"
  shows "\<exists>ds. discounts_of t lines = Inr ds \<and> fitting ds lines
           \<and> (\<forall>i < length lines. \<not> applies_to t (lines ! i) \<longrightarrow> amount (ds ! i) = 0)
           \<and> (\<forall>a. terms_discount t = AMOUNT a \<longrightarrow>
                taken_off ds = min (amount a)
                  (sum_list (map (\<lambda>line. if applies_to t line then amount (line_total line) else 0) lines)))"
  by (rule discounts_fit [OF assms])

text \<open>Whatever the promotion, the products of the order still pay one peso, or all they cost when
  that is less; the least payment only lowers discounts, and lowers them no more than it needs.\<close>

lemma minimum_payment_holds:
  assumes "valid_lines lines" and "fitting ds lines"
  shows "\<exists>rs. with_minimum_payment ds lines = Inr rs \<and> fitting rs lines
           \<and> list_all2 (\<lambda>r d. amount r \<le> amount d) rs ds
           \<and> sum_list (totals lines) - taken_off rs =
               max (sum_list (totals lines) - taken_off ds) (min 100 (sum_list (totals lines)))"
  by (rule minimum_payment_parts [OF assms])

section \<open>An order to look at\<close>

definition example_line :: "int \<Rightarrow> discountable_line" where
  "example_line cents =
     \<lparr>line_total = \<lparr>amount = cents, currency = MXN\<rparr>, line_product = 5, line_brand = None,
      line_categories = [3, 4]\<rparr>"

definition example_lines :: "discountable_line list" where
  "example_lines = map example_line [10001, 5000, 2000]"

lemma example_lines_valid: "valid_lines example_lines"
  by (simp add: valid_lines_def example_lines_def example_line_def valid_money_def MAX_MONEY_AMOUNT_def)

theorem discounts_fit_the_lines_witness:
  "\<exists>ds. discounts_of example_terms example_lines = Inr ds \<and> fitting ds example_lines
     \<and> taken_off ds = 10000"
proof -
  from discounts_fit_the_lines [OF example_lines_valid example_terms_wf] obtain ds
    where "discounts_of example_terms example_lines = Inr ds" "fitting ds example_lines"
      "\<forall>a. terms_discount example_terms = AMOUNT a \<longrightarrow> taken_off ds = min (amount a)
        (sum_list (map (\<lambda>line. if applies_to example_terms line then amount (line_total line) else 0)
          example_lines))" by blast
  then show ?thesis
    by (auto simp: example_terms_def applies_to_def example_lines_def example_line_def)
qed

definition example_discounts :: "money list" where
  "example_discounts = map (\<lambda>a. \<lparr>amount = a, currency = MXN\<rparr>) [10001, 5000, 1950]"

theorem best_discount_is_best_witness:
  "\<exists>d. best_discount [example_promotion] example_lines PROMO_ONLINE 20 = Inr (Some d)
     \<and> pd_promotion d = example_promotion \<and> 0 < taken_off (pd_discounts d)"
proof -
  have wf: "\<forall>p \<in> set [example_promotion]. wf_terms p" by (simp add: example_promotion_wf)
  have sub: "discountable_subtotal example_lines = Inr \<lparr>amount = 17001, currency = MXN\<rparr>"
    by code_simp
  have "returned (\<lambda>best. best \<noteq> None)
      (best_discount [example_promotion] example_lines PROMO_ONLINE 20)"
    by code_simp
  with best_discount_is_best [OF example_lines_valid wf sub, of PROMO_ONLINE 20] show ?thesis
    by (auto simp: returned_def split: option.splits)
qed

end
