(* ===== verification/Promotions.thy ===== *)
theory Promotions
  imports Discounts
begin

text \<open>
  Promotions (\<open>promotions/application/\<close>, \<open>promotions/infrastructure/\<close>): the table of promotions, what the
  staff does with it, and what Ordering asks: the discount of an order and the uses of a coupon. Each
  operation is one transaction, and the uses change in statements of their own. An edit reads the promotion without a
  lock and its version keeps other edits away, but not the uses, which move without it: so an edit may have read any
  uses the coupon had before. The rows keep the targets in the order they are read. What the catalog answers is a parameter: whether a target exists and is in use, and
  the product, brand and categories of a variant.
\<close>

record promotions_db =
  pp_promotions :: "promotion list"

section \<open>The statements of the repository\<close>

text \<open>The targets are read products first, then categories, then brands, each by its identifier.\<close>

fun read_rank :: "target_type \<Rightarrow> nat" where
  "read_rank PRODUCT = 0"
| "read_rank CATEGORY = 1"
| "read_rank BRAND = 2"

definition promotion_as_read :: "promotion \<Rightarrow> promotion" where
  "promotion_as_read p =
     p\<lparr>terms_targets := sort_key (read_rank \<circ> target_kind) (sort_key target_id (terms_targets p))\<rparr>"

definition find_promotion_row :: "id \<Rightarrow> promotions_db \<Rightarrow> promotion option" where
  "find_promotion_row i d = find (\<lambda>p. promo_id p = i) (pp_promotions d)"

definition find_by_code :: "string \<Rightarrow> promotions_db \<Rightarrow> promotion option" where
  "find_by_code code d = find (\<lambda>p. terms_code p = Some code) (pp_promotions d)"

definition active_at :: "time \<Rightarrow> promotion_channel \<Rightarrow> promotions_db \<Rightarrow> promotion list" where
  "active_at at channel d =
     sort_key promo_id
       (filter (\<lambda>p. terms_code p = None \<and> promo_ended_at p = None \<and> terms_starts_at p \<le> at
          \<and> (case terms_ends_at p of None \<Rightarrow> True | Some e \<Rightarrow> e > at) \<and> channel \<in> set (terms_channels p))
          (pp_promotions d))"

definition code_taken :: "promotion \<Rightarrow> promotions_db \<Rightarrow> bool" where
  "code_taken p d =
     (terms_code p \<noteq> None \<and>
      list_ex (\<lambda>x. terms_code x = terms_code p \<and> promo_id x \<noteq> promo_id p) (pp_promotions d))"

definition insert_promotion :: "promotion \<Rightarrow> promotions_db \<Rightarrow> promotions_db result" where
  "insert_promotion p d =
     (if find_promotion_row (promo_id p) d \<noteq> None then Inl (PlainError ''promotions_pkey'')
      else if code_taken p d then Inl (DuplicateValueError ''code'')
      else Inr (d\<lparr>pp_promotions := pp_promotions d @ [promotion_as_read p]\<rparr>))"

definition saved_promotion :: "promotion \<Rightarrow> bool \<Rightarrow> promotion \<Rightarrow> promotion" where
  "saved_promotion p targets_changed row =
     (let terms = (promotion_terms.truncate p)
            \<lparr>terms_targets := (if targets_changed then terms_targets p else terms_targets row)\<rparr>
      in promotion_as_read ((with_terms terms row)
           \<lparr>promo_ended_at := promo_ended_at p, promo_ended_by := promo_ended_by p,
            promo_version := promo_version row + 1\<rparr>))"

definition save_promotion :: "promotion \<Rightarrow> bool \<Rightarrow> promotions_db \<Rightarrow> promotions_db result" where
  "save_promotion p targets_changed d =
     (case find_promotion_row (promo_id p) d of
        None \<Rightarrow> Inl (PlainError ''No record was found for a query'')
      | Some row \<Rightarrow>
          if promo_version row \<noteq> promo_version p then Inl (VersionConflictError (promo_version row))
          else if code_taken p d then Inl (DuplicateValueError ''code'')
          else Inr (d\<lparr>pp_promotions :=
            map (\<lambda>x. if promo_id x = promo_id p then saved_promotion p targets_changed x else x) (pp_promotions d)\<rparr>))"

definition has_uses_left :: "promotion \<Rightarrow> bool" where
  "has_uses_left p = (case terms_usage_limit p of None \<Rightarrow> True | Some n \<Rightarrow> promo_uses p < n)"

definition add_use :: "id \<Rightarrow> bool \<Rightarrow> promotions_db \<Rightarrow> bool \<times> promotions_db" where
  "add_use i beyond_limit d =
     (let counts = (\<lambda>p. promo_id p = i \<and> (beyond_limit \<or> has_uses_left p))
      in (list_ex counts (pp_promotions d),
          d\<lparr>pp_promotions :=
            map (\<lambda>p. if counts p then p\<lparr>promo_uses := promo_uses p + 1\<rparr> else p) (pp_promotions d)\<rparr>))"

definition remove_use :: "id \<Rightarrow> promotions_db \<Rightarrow> promotions_db" where
  "remove_use i d =
     d\<lparr>pp_promotions :=
       map (\<lambda>p. if promo_id p = i \<and> promo_uses p > 0 then p\<lparr>promo_uses := promo_uses p - 1\<rparr> else p)
         (pp_promotions d)\<rparr>"

section \<open>What the staff does\<close>

text \<open>
  What the catalog says of a target: nothing, or whether it is in use. A problem names the place of the target
  and whether it exists.
\<close>

type_synonym target_catalog = "promotion_target \<Rightarrow> bool option"

definition target_problems ::
  "target_catalog \<Rightarrow> promotion_target list \<Rightarrow> promotion_target list \<Rightarrow> (nat \<times> bool) list" where
  "target_problems catalog targets kept =
     concat (map (\<lambda>(index, t).
       if t \<in> set kept then []
       else case catalog t of
              None \<Rightarrow> [(index, False)]
            | Some usable \<Rightarrow> if usable then [] else [(index, True)]) (enumerate 0 targets))"

definition assert_targets ::
  "target_catalog \<Rightarrow> promotion_target list \<Rightarrow> promotion_target list \<Rightarrow> unit result" where
  "assert_targets catalog targets kept =
     (let problems = target_problems catalog targets kept
      in if problems \<noteq> [] then Inl (PromotionError (UnusableTargetsError problems)) else Inr ())"

definition create_promotion_in ::
  "target_catalog \<Rightarrow> id \<Rightarrow> promotion_terms \<Rightarrow> time option \<Rightarrow> id \<Rightarrow> time \<Rightarrow> promotions_db \<Rightarrow> promotions_db result" where
  "create_promotion_in catalog fresh terms starts_at staff now d =
     res_bind (create_promotion fresh terms starts_at staff now) (\<lambda>p.
     res_bind (assert_targets catalog (terms_targets p) []) (\<lambda>_. insert_promotion p d))"

text \<open>The fields the audit compares: only a coupon says whether each customer uses it once.\<close>

definition audited_promotion_fields :: "promotion \<Rightarrow> promotion_terms" where
  "audited_promotion_fields p =
     (promotion_terms.truncate p)\<lparr>terms_once_per_customer := terms_code p \<noteq> None \<and> terms_once_per_customer p\<rparr>"

text \<open>The table \<open>rd\<close> is as it was when the promotion was read, \<open>d\<close> as it is when it is saved.\<close>

definition update_promotion_in ::
  "target_catalog \<Rightarrow> id \<Rightarrow> promotion_changes \<Rightarrow> int \<Rightarrow> time \<Rightarrow> promotions_db \<Rightarrow> promotions_db \<Rightarrow> promotions_db result" where
  "update_promotion_in catalog i changes version now rd d =
     (case find_promotion_row i rd of
        None \<Rightarrow> Inl (NotFoundError ''Promotion'' i)
      | Some p \<Rightarrow>
          res_bind (assert_version (promo_version p) version) (\<lambda>_.
          res_bind (edit_promotion p changes now) (\<lambda>(q, targets_changed).
          res_bind (if targets_changed then assert_targets catalog (terms_targets q) (terms_targets p)
                    else Inr ()) (\<lambda>_.
            if audited_promotion_fields q = audited_promotion_fields p then Inr d
            else save_promotion q targets_changed d))))"

definition end_promotion_in :: "id \<Rightarrow> id \<Rightarrow> int \<Rightarrow> time \<Rightarrow> promotions_db \<Rightarrow> promotions_db result" where
  "end_promotion_in i staff version now d =
     (case find_promotion_row i d of
        None \<Rightarrow> Inl (NotFoundError ''Promotion'' i)
      | Some p \<Rightarrow>
          res_bind (assert_version (promo_version p) version) (\<lambda>_.
          res_bind (end_promotion p staff now) (\<lambda>q. save_promotion q False d)))"

section \<open>What Ordering asks\<close>

record variant_class =
  vc_product :: id
  vc_brand :: "id option"
  vc_categories :: "id list"

text \<open>
  A variant the catalog no longer has gets the empty text as its product, which no target names: here 0, where
  identifiers start at 1.
\<close>

definition classified :: "(id \<Rightarrow> variant_class option) \<Rightarrow> (id \<times> money) list \<Rightarrow> discountable_line list" where
  "classified classify lines =
     map (\<lambda>(variant, total).
       case classify variant of
         None \<Rightarrow> \<lparr>line_total = total, line_product = 0, line_brand = None, line_categories = []\<rparr>
       | Some c \<Rightarrow> \<lparr>line_total = total, line_product = vc_product c, line_brand = vc_brand c,
                    line_categories = vc_categories c\<rparr>) lines"

record applied_discount =
  ad_promotion :: id
  ad_name :: string
  ad_code :: "string option"
  ad_once_per_customer :: bool
  ad_discounts :: "money list"

definition applied :: "promotion \<Rightarrow> money list \<Rightarrow> applied_discount" where
  "applied p discounts =
     \<lparr>ad_promotion = promo_id p, ad_name = terms_name p, ad_code = terms_code p,
      ad_once_per_customer = terms_once_per_customer p, ad_discounts = discounts\<rparr>"

definition discount_for ::
  "(id \<Rightarrow> variant_class option) \<Rightarrow> promotion_channel \<Rightarrow> time \<Rightarrow> (id \<times> money) list \<Rightarrow> promotions_db \<Rightarrow>
     applied_discount option result" where
  "discount_for classify channel at lines d =
     (if lines = [] then Inr None
      else
        let promotions = active_at at channel d
        in if promotions = [] then Inr None
           else res_bind (best_discount promotions (classified classify lines) channel at) (\<lambda>best.
             Inr (map_option (\<lambda>b. applied (pd_promotion b) (pd_discounts b)) best)))"

datatype coupon_result = CouponApplied applied_discount | CouponResultRefused coupon_refusal

definition coupon_for ::
  "(id \<Rightarrow> variant_class option) \<Rightarrow> promotion_channel \<Rightarrow> time \<Rightarrow> (id \<times> money) list \<Rightarrow> string \<Rightarrow> promotions_db \<Rightarrow>
     coupon_result result" where
  "coupon_for classify channel at lines code d =
     (case find_by_code (normalized_coupon_code code) d of
        None \<Rightarrow> Inr (CouponResultRefused RefusedUnavailable)
      | Some coupon \<Rightarrow>
          res_bind (coupon_discount coupon (classified classify lines) channel at) (\<lambda>outcome.
            Inr (case outcome of
                   CouponRefused r \<Rightarrow> CouponResultRefused r
                 | CouponDiscounts ds \<Rightarrow> CouponApplied (applied coupon ds))))"

definition redeem :: "id \<Rightarrow> promotions_db \<Rightarrow> bool \<times> promotions_db" where
  "redeem i d = add_use i False d"

definition recount :: "id \<Rightarrow> promotions_db \<Rightarrow> promotions_db" where
  "recount i d = snd (add_use i True d)"

definition release_use :: "id \<Rightarrow> promotions_db \<Rightarrow> promotions_db" where
  "release_use i d = remove_use i d"

text \<open>
  What was read of a promotion that can still be saved differs from what it is in its uses at most, as
  \<open>stale_edits_differ_in_uses\<close> says below; so an edit carries the uses it read.
\<close>

definition with_uses_seen :: "id \<Rightarrow> nat \<Rightarrow> promotions_db \<Rightarrow> promotions_db" where
  "with_uses_seen i seen d =
     d\<lparr>pp_promotions := map (\<lambda>p. if promo_id p = i then p\<lparr>promo_uses := int seen\<rparr> else p) (pp_promotions d)\<rparr>"

datatype promotions_op =
    CreatePromotion id promotion_terms "time option" id time
  | UpdatePromotion id promotion_changes int time nat
  | EndPromotionOf id id int time
  | RedeemCoupon id
  | RecountCoupon id
  | ReleaseCoupon id

fun promotions_step :: "target_catalog \<Rightarrow> promotions_db \<Rightarrow> promotions_op \<Rightarrow> promotions_db result" where
  "promotions_step catalog d (CreatePromotion fresh terms starts_at staff now) =
     create_promotion_in catalog fresh terms starts_at staff now d"
| "promotions_step catalog d (UpdatePromotion i changes version now seen) =
     update_promotion_in catalog i changes version now (with_uses_seen i seen d) d"
| "promotions_step catalog d (EndPromotionOf i staff version now) = end_promotion_in i staff version now d"
| "promotions_step catalog d (RedeemCoupon i) = Inr (snd (redeem i d))"
| "promotions_step catalog d (RecountCoupon i) = Inr (recount i d)"
| "promotions_step catalog d (ReleaseCoupon i) = Inr (release_use i d)"

section \<open>What the table keeps\<close>

definition codes_unique :: "promotion list \<Rightarrow> bool" where
  "codes_unique ps \<longleftrightarrow>
     (\<forall>p\<in>set ps. \<forall>q\<in>set ps. terms_code p \<noteq> None \<longrightarrow> terms_code p = terms_code q \<longrightarrow> promo_id p = promo_id q)"

definition wf_promotions :: "promotions_db \<Rightarrow> bool" where
  "wf_promotions d \<longleftrightarrow>
     distinct (map promo_id (pp_promotions d)) \<and> codes_unique (pp_promotions d) \<and>
     (\<forall>p\<in>set (pp_promotions d). wf_promotion p)"

text \<open>A coupon used no more than its limit says.\<close>

definition within_limit :: "promotion \<Rightarrow> bool" where
  "within_limit p = (case terms_usage_limit p of None \<Rightarrow> True | Some n \<Rightarrow> promo_uses p \<le> n)"

lemma within_limit_iff: "within_limit p \<longleftrightarrow> (\<forall>n. terms_usage_limit p = Some n \<longrightarrow> promo_uses p \<le> n)"
  by (simp add: within_limit_def split: option.split)

definition within_limits :: "promotions_db \<Rightarrow> bool" where
  "within_limits d \<longleftrightarrow> (\<forall>p\<in>set (pp_promotions d). within_limit p)"

lemma codes_uniqueD:
  assumes "codes_unique ps" and "x \<in> set ps" and "y \<in> set ps" and "terms_code x = Some c" and "terms_code y = Some c"
  shows "promo_id x = promo_id y"
proof -
  from bspec [OF bspec [OF assms(1) [unfolded codes_unique_def] assms(2)] assms(3)]
  show ?thesis using assms(4,5) by simp
qed

lemma codes_uniqueI:
  assumes "\<And>x y c. x \<in> set ps \<Longrightarrow> y \<in> set ps \<Longrightarrow> terms_code x = Some c \<Longrightarrow> terms_code y = Some c \<Longrightarrow>
     promo_id x = promo_id y"
  shows "codes_unique ps"
  unfolding codes_unique_def
proof (intro ballI impI)
  fix p q assume p: "p \<in> set ps" and q: "q \<in> set ps" and some: "terms_code p \<noteq> None"
    and same: "terms_code p = terms_code q"
  obtain c where c: "terms_code p = Some c" by (rule not_None_eq [THEN iffD1, THEN exE, OF some])
  show "promo_id p = promo_id q" by (rule assms [OF p q c]) (rule same [symmetric, unfolded c])
qed

text \<open>Rows that keep their identifiers and codes keep them unique.\<close>

lemma codes_unique_map:
  assumes "codes_unique ps" and "\<And>p. promo_id (f p) = promo_id p" and "\<And>p. terms_code (f p) = terms_code p"
  shows "codes_unique (map f ps)"
proof (rule codes_uniqueI)
  fix x y c assume x: "x \<in> set (map f ps)" "terms_code x = Some c"
    and y: "y \<in> set (map f ps)" "terms_code y = Some c"
  from x assms(3) obtain u where u: "x = f u" "u \<in> set ps" "terms_code u = Some c" by auto
  from y assms(3) obtain v where v: "y = f v" "v \<in> set ps" "terms_code v = Some c" by auto
  have "promo_id u = promo_id v" by (rule codes_uniqueD [OF assms(1) u(2) v(2) u(3) v(3)])
  then show "promo_id x = promo_id y" by (simp only: u(1) v(1) assms(2))
qed

lemma code_free:
  "\<not> code_taken q d \<Longrightarrow> x \<in> set (pp_promotions d) \<Longrightarrow> terms_code q = Some c \<Longrightarrow> terms_code x = Some c \<Longrightarrow>
     promo_id x = promo_id q"
  by (auto simp: code_taken_def list_ex_iff)

lemma find_promotion_SomeD: "find_promotion_row i d = Some p \<Longrightarrow> p \<in> set (pp_promotions d) \<and> promo_id p = i"
  unfolding find_promotion_row_def by (drule find_SomeD) simp

lemma promotion_as_read_simps [simp]:
  "promo_id (promotion_as_read p) = promo_id p" "promo_uses (promotion_as_read p) = promo_uses p"
  "terms_code (promotion_as_read p) = terms_code p" "within_limit (promotion_as_read p) = within_limit p"
  by (simp_all add: promotion_as_read_def within_limit_def split: option.split)

lemma wf_promotion_as_read [simp]: "wf_promotion (promotion_as_read p) = wf_promotion p"
proof -
  let ?k = "\<lambda>x. (target_kind x, target_id x)"
  let ?ts = "sort_key (read_rank \<circ> target_kind) (sort_key target_id (terms_targets p))"
  have "mset (map ?k ?ts) = mset (map ?k (terms_targets p))" by simp
  then have "distinct (map ?k ?ts) = distinct (map ?k (terms_targets p))" by (rule mset_eq_imp_distinct_iff)
  then show ?thesis by (simp add: wf_promotion_def wf_terms_def promotion_as_read_def)
qed

lemma wf_promotion_counters [simp]:
  "wf_promotion (p\<lparr>promo_version := n\<rparr>) = wf_promotion p"
  "within_limit (p\<lparr>promo_version := n\<rparr>) = within_limit p"
  by (simp_all add: wf_promotion_def wf_terms_def within_limit_def split: option.split)

lemma wf_promotion_uses: "wf_promotion p \<Longrightarrow> 0 \<le> n \<Longrightarrow> wf_promotion (p\<lparr>promo_uses := n\<rparr>)"
  by (simp add: wf_promotion_def wf_terms_def)

lemma saved_promotion_exact:
  assumes "promo_id q = promo_id p" and "promo_created_by q = promo_created_by p"
    and "\<not> changed \<longrightarrow> terms_targets q = terms_targets p"
  shows "saved_promotion q changed p = promotion_as_read (q\<lparr>promo_version := promo_version p + 1, promo_uses := promo_uses p\<rparr>)"
  using assms by (cases p; cases q) (auto simp: saved_promotion_def with_terms_def promotion_terms.defs)

lemma edit_promotion_frame:
  assumes "edit_promotion p ch at = Inr (q, changed)" and "wf_promotion p"
  shows "promo_id q = promo_id p \<and> promo_created_by q = promo_created_by p \<and> promo_uses q = promo_uses p
     \<and> promo_version q = promo_version p \<and> (\<not> changed \<longrightarrow> terms_targets q = terms_targets p)
     \<and> wf_promotion q \<and> within_limit q"
proof -
  from assms(1) obtain t where
    limit: "\<forall>n. terms_usage_limit t = Some n \<longrightarrow> promo_uses p \<le> n"
    and q: "q = with_terms (t\<lparr>terms_targets :=
           (if same_term LockedTargets p t then terms_targets p else terms_targets t)\<rparr>) p"
    and c: "changed = (\<not> same_term LockedTargets p t)"
    by (rule edit_promotion_Inr) (unfold apply_edit_Inr, blast)
  have "wf_promotion q" by (rule edit_promotion_wf [OF assms])
  with limit q c show ?thesis by (auto simp: with_terms_def within_limit_def split: option.splits)
qed

definition replace_promotion :: "promotion \<Rightarrow> promotions_db \<Rightarrow> promotions_db" where
  "replace_promotion q d =
     d\<lparr>pp_promotions := map (\<lambda>x. if promo_id x = promo_id q then q else x) (pp_promotions d)\<rparr>"

lemma save_promotion_Inr:
  assumes wf: "wf_promotions d" and p: "p \<in> set (pp_promotions d)"
    and q: "promo_id q = promo_id p" "promo_created_by q = promo_created_by p"
      "\<not> changed \<longrightarrow> terms_targets q = terms_targets p"
    and save: "save_promotion q changed d = Inr d'"
  shows "d' = replace_promotion (promotion_as_read (q\<lparr>promo_version := promo_version p + 1, promo_uses := promo_uses p\<rparr>)) d
    \<and> \<not> code_taken q d"
proof -
  have ids: "distinct (map promo_id (pp_promotions d))" using wf by (simp add: wf_promotions_def)
  have only: "x = p" if "x \<in> set (pp_promotions d)" "promo_id x = promo_id p" for x
    by (rule same_key [OF ids that(1) p that(2)])
  have d': "d' = d\<lparr>pp_promotions :=
      map (\<lambda>x. if promo_id x = promo_id q then saved_promotion q changed x else x) (pp_promotions d)\<rparr>"
    and free: "\<not> code_taken q d"
    using save by (auto simp: save_promotion_def split: option.splits if_splits)
  have "map (\<lambda>x. if promo_id x = promo_id q then saved_promotion q changed x else x) (pp_promotions d)
      = map (\<lambda>x. if promo_id x = promo_id q
                 then promotion_as_read (q\<lparr>promo_version := promo_version p + 1, promo_uses := promo_uses p\<rparr>) else x)
          (pp_promotions d)"
    using only q saved_promotion_exact [OF q] by (auto intro!: map_cong)
  then show ?thesis using free by (simp add: d' replace_promotion_def)
qed

lemma replace_promotion_wf:
  assumes wf: "wf_promotions d" and q: "wf_promotion q" "\<not> code_taken q d"
  shows "wf_promotions (replace_promotion q d)"
proof -
  let ?ps = "map (\<lambda>x. if promo_id x = promo_id q then q else x) (pp_promotions d)"
  have "distinct (map promo_id ?ps)"
  proof -
    have "map promo_id ?ps = map promo_id (pp_promotions d)" by (auto intro!: map_cong)
    moreover have "distinct (map promo_id (pp_promotions d))" using wf by (simp add: wf_promotions_def)
    ultimately show ?thesis by (simp only:)
  qed
  moreover have "codes_unique ?ps"
  proof (rule codes_uniqueI)
    fix x y c assume in_ps: "x \<in> set ?ps" "y \<in> set ?ps" and codes: "terms_code x = Some c" "terms_code y = Some c"
    have old: "codes_unique (pp_promotions d)" using wf by (simp add: wf_promotions_def)
    from in_ps have xy: "x = q \<or> x \<in> set (pp_promotions d)" "y = q \<or> y \<in> set (pp_promotions d)" by auto
    show "promo_id x = promo_id y"
    proof (cases "x = q")
      case True
      with xy(2) code_free [OF q(2), of y c] codes show ?thesis by (cases "y = q") simp_all
    next
      case False
      with xy code_free [OF q(2), of x c] codes_uniqueD [OF old, of x y c] codes show ?thesis
        by (cases "y = q") simp_all
    qed
  qed
  moreover have "\<forall>x\<in>set ?ps. wf_promotion x" using wf q(1) by (auto simp: wf_promotions_def)
  moreover have fields: "pp_promotions (replace_promotion q d) = ?ps" by (simp add: replace_promotion_def)
  ultimately show ?thesis unfolding wf_promotions_def fields by (intro conjI)
qed

lemma code_taken_as_read [simp]:
  "code_taken (promotion_as_read (q\<lparr>promo_version := n\<rparr>)) d = code_taken q d"
  "code_taken (promotion_as_read (q\<lparr>promo_version := n, promo_uses := m\<rparr>)) d = code_taken q d"
  by (simp_all add: code_taken_def)

lemma changed_uses_wf:
  assumes wf: "wf_promotions d" and g: "\<And>p. p \<in> set (pp_promotions d) \<Longrightarrow> 0 \<le> g p"
  shows "wf_promotions (d\<lparr>pp_promotions := map (\<lambda>p. p\<lparr>promo_uses := g p\<rparr>) (pp_promotions d)\<rparr>)"
proof -
  have "wf_promotion (p\<lparr>promo_uses := g p\<rparr>)" if "p \<in> set (pp_promotions d)" for p
    using wf g that by (intro wf_promotion_uses) (simp_all add: wf_promotions_def)
  moreover have "codes_unique (map (\<lambda>p. p\<lparr>promo_uses := g p\<rparr>) (pp_promotions d))"
    by (rule codes_unique_map) (use wf in \<open>simp_all add: wf_promotions_def\<close>)
  ultimately show ?thesis using wf by (simp add: wf_promotions_def comp_def)
qed

lemma add_use_eq:
  "snd (add_use i beyond d) = d\<lparr>pp_promotions := map (\<lambda>p. p\<lparr>promo_uses :=
     (if promo_id p = i \<and> (beyond \<or> has_uses_left p) then promo_uses p + 1 else promo_uses p)\<rparr>) (pp_promotions d)\<rparr>"
  by (simp add: add_use_def Let_def)

lemma remove_use_eq:
  "remove_use i d = d\<lparr>pp_promotions := map (\<lambda>p. p\<lparr>promo_uses :=
     (if promo_id p = i \<and> promo_uses p > 0 then promo_uses p - 1 else promo_uses p)\<rparr>) (pp_promotions d)\<rparr>"
  by (simp add: remove_use_def)

lemma wf_promotions_uses: "wf_promotions d \<Longrightarrow> p \<in> set (pp_promotions d) \<Longrightarrow> 0 \<le> promo_uses p"
  by (simp add: wf_promotions_def wf_promotion_def)

lemma add_use_wf: "wf_promotions d \<Longrightarrow> wf_promotions (snd (add_use i beyond d))"
  unfolding add_use_eq by (rule changed_uses_wf) (auto dest!: wf_promotions_uses)

lemma remove_use_wf: "wf_promotions d \<Longrightarrow> wf_promotions (remove_use i d)"
  unfolding remove_use_eq by (rule changed_uses_wf) (auto dest!: wf_promotions_uses)

lemma within_limits_replace: "within_limits d \<Longrightarrow> within_limit q \<Longrightarrow> within_limits (replace_promotion q d)"
  by (auto simp: within_limits_def replace_promotion_def)

lemma create_in_keeps:
  assumes wf: "wf_promotions d" and step: "create_promotion_in catalog fresh terms starts_at staff now d = Inr d'"
  shows "wf_promotions d' \<and> (within_limits d \<longrightarrow> within_limits d')"
proof -
  from step obtain p where p: "create_promotion fresh terms starts_at staff now = Inr p" "insert_promotion p d = Inr d'"
    by (auto simp: create_promotion_in_def res_simps)
  have row: "wf_promotion p" using create_promotion_wf [OF p(1)] by simp
  have "promo_uses p = 0" using p(1) by (auto simp: create_promotion_def Let_def res_simps promotion_terms.defs)
  with row have limit: "within_limit p" by (auto simp: within_limit_def wf_promotion_def wf_terms_def split: option.split)
  from p(2) have free: "find_promotion_row (promo_id p) d = None" "\<not> code_taken p d"
    and d': "d' = d\<lparr>pp_promotions := pp_promotions d @ [promotion_as_read p]\<rparr>"
    by (auto simp: insert_promotion_def split: if_splits)
  have fresh: "promo_id p \<notin> promo_id ` set (pp_promotions d)"
    using free(1) by (auto simp: find_promotion_row_def find_None_iff)
  have "codes_unique (pp_promotions d')"
  proof (rule codes_uniqueI)
    fix x y c assume in_ps: "x \<in> set (pp_promotions d')" "y \<in> set (pp_promotions d')"
      and codes: "terms_code x = Some c" "terms_code y = Some c"
    have old: "codes_unique (pp_promotions d)" using wf by (simp add: wf_promotions_def)
    let ?r = "promotion_as_read p"
    from in_ps have xy: "x = ?r \<or> x \<in> set (pp_promotions d)" "y = ?r \<or> y \<in> set (pp_promotions d)"
      by (auto simp: d')
    show "promo_id x = promo_id y"
    proof (cases "x = ?r")
      case True
      with xy(2) code_free [OF free(2), of y c] codes show ?thesis by (cases "y = ?r") simp_all
    next
      case False
      with xy code_free [OF free(2), of x c] codes_uniqueD [OF old, of x y c] codes show ?thesis
        by (cases "y = ?r") simp_all
    qed
  qed
  moreover have "distinct (map promo_id (pp_promotions d'))" using wf fresh by (simp add: d' wf_promotions_def)
  moreover have "\<forall>x\<in>set (pp_promotions d'). wf_promotion x" using wf row by (simp add: d' wf_promotions_def)
  ultimately have "wf_promotions d'" by (simp add: wf_promotions_def)
  then show ?thesis using limit by (simp add: within_limits_def d')
qed

lemma find_seen:
  "find_promotion_row i (with_uses_seen i seen d) = map_option (\<lambda>p. p\<lparr>promo_uses := int seen\<rparr>) (find_promotion_row i d)"
proof -
  have "find (\<lambda>p. promo_id p = i) (map (\<lambda>p. if promo_id p = i then p\<lparr>promo_uses := int seen\<rparr> else p) ps)
      = map_option (\<lambda>p. p\<lparr>promo_uses := int seen\<rparr>) (find (\<lambda>p. promo_id p = i) ps)" for ps
    by (induction ps) simp_all
  then show ?thesis by (simp add: find_promotion_row_def with_uses_seen_def)
qed

text \<open>An edit that is saved changes terms that were valid for the uses it read, and keeps the uses there are.\<close>

lemma update_in_saved:
  assumes wf: "wf_promotions d" and step: "update_promotion_in catalog i ch version now (with_uses_seen i seen d) d = Inr d'"
  shows "d' = d \<or> (\<exists>p q. p \<in> set (pp_promotions d) \<and> promo_id p = i \<and> d' = replace_promotion q d \<and> \<not> code_taken q d
    \<and> promo_id q = promo_id p \<and> promo_uses q = promo_uses p \<and> promo_version q = promo_version p + 1 \<and> wf_promotion q
    \<and> (\<forall>n. terms_usage_limit q = Some n \<longrightarrow> int seen \<le> n))"
proof -
  from step obtain r q changed where r: "find_promotion_row i (with_uses_seen i seen d) = Some r"
      "edit_promotion r ch now = Inr (q, changed)"
      "(if audited_promotion_fields q = audited_promotion_fields r then Inr d else save_promotion q changed d) = Inr d'"
    by (auto simp: update_promotion_in_def res_simps split: option.splits)
  from r(1) obtain p where p: "find_promotion_row i d = Some p" "r = p\<lparr>promo_uses := int seen\<rparr>" by (auto simp: find_seen)
  from find_promotion_SomeD [OF p(1)] have row: "p \<in> set (pp_promotions d)" "promo_id p = i" by simp_all
  have wfp: "wf_promotion p" using wf row by (simp add: wf_promotions_def)
  then have "wf_promotion r" unfolding p(2) by (rule wf_promotion_uses) simp
  note q = edit_promotion_frame [OF r(2) this]
  have frame: "promo_id q = promo_id p" "promo_created_by q = promo_created_by p" "\<not> changed \<longrightarrow> terms_targets q = terms_targets p"
    using q p(2) by simp_all
  show ?thesis
  proof (cases "audited_promotion_fields q = audited_promotion_fields r")
    case True
    with r(3) show ?thesis by simp
  next
    case False
    with r(3) have save: "save_promotion q changed d = Inr d'" by simp
    let ?q = "promotion_as_read (q\<lparr>promo_version := promo_version p + 1, promo_uses := promo_uses p\<rparr>)"
    note saved = save_promotion_Inr [OF wf row(1) frame save]
    have "wf_promotion (q\<lparr>promo_version := promo_version p + 1, promo_uses := promo_uses p\<rparr>)"
      by (rule wf_promotion_uses) (use q wf_promotions_uses [OF wf row(1)] in simp_all)
    moreover have "promo_uses q = int seen" using q p(2) by simp
    then have "int seen \<le> n" if "terms_usage_limit ?q = Some n" for n
      using that q by (simp add: within_limit_def promotion_as_read_def)
    moreover have "promo_version ?q = promo_version p + 1" by (simp add: promotion_as_read_def)
    moreover have "promo_id ?q = promo_id p" "promo_uses ?q = promo_uses p" using frame(1) by simp_all
    moreover have "\<not> code_taken ?q d" using saved by simp
    moreover have "d' = replace_promotion ?q d" using saved by blast
    ultimately show ?thesis using row
      by (intro disjI2 exI [of _ p] exI [of _ ?q] conjI allI impI) (simp_all only: wf_promotion_as_read simp_thms)
  qed
qed

lemma update_in_keeps:
  assumes wf: "wf_promotions d" and step: "update_promotion_in catalog i ch version now (with_uses_seen i seen d) d = Inr d'"
  shows "wf_promotions d'"
    and "(\<And>p. find_promotion_row i d = Some p \<Longrightarrow> int seen = promo_uses p) \<Longrightarrow> within_limits d \<Longrightarrow> within_limits d'"
proof -
  note saved = update_in_saved [OF wf step]
  show "wf_promotions d'" using saved replace_promotion_wf [OF wf] wf by blast
  show "within_limits d'" if current: "\<And>p. find_promotion_row i d = Some p \<Longrightarrow> int seen = promo_uses p" and "within_limits d"
    using saved
  proof (elim disjE exE conjE)
    fix p q assume p: "p \<in> set (pp_promotions d)" "promo_id p = i" and d': "d' = replace_promotion q d"
      and q: "promo_uses q = promo_uses p" "\<forall>n. terms_usage_limit q = Some n \<longrightarrow> int seen \<le> n"
    obtain x where x: "find_promotion_row i d = Some x"
      using p by (cases "find_promotion_row i d") (auto simp: find_promotion_row_def find_None_iff)
    from find_promotion_SomeD [OF x] have "x = p"
      using wf p same_key [of promo_id "pp_promotions d" x p] by (simp add: wf_promotions_def)
    with current [OF x] q have "within_limit q" by (simp add: within_limit_def split: option.split)
    with that(2) show "within_limits d'" unfolding d' by (rule within_limits_replace)
  qed (use that(2) in simp)
qed

lemma end_in_saved:
  assumes wf: "wf_promotions d" and step: "end_promotion_in i staff version now d = Inr d'"
  shows "\<exists>p q. p \<in> set (pp_promotions d) \<and> promo_id p = i \<and> d' = replace_promotion q d \<and> \<not> code_taken q d
    \<and> promo_id q = promo_id p \<and> promo_uses q = promo_uses p \<and> promo_version q = promo_version p + 1 \<and> wf_promotion q
    \<and> terms_usage_limit q = terms_usage_limit p"
proof -
  from step obtain p q where p: "find_promotion_row i d = Some p" "end_promotion p staff now = Inr q"
      "save_promotion q False d = Inr d'"
    by (auto simp: end_promotion_in_def res_simps split: option.splits)
  from find_promotion_SomeD [OF p(1)] have row: "p \<in> set (pp_promotions d)" "promo_id p = i" by simp_all
  have q: "q = p\<lparr>promo_ended_at := Some now, promo_ended_by := Some staff\<rparr>" using p(2) by (simp add: end_promotion_Inr)
  have "wf_promotion p" using wf row by (simp add: wf_promotions_def)
  then have ok: "wf_promotion q" by (rule end_promotion_wf [OF p(2)])
  let ?q = "promotion_as_read (q\<lparr>promo_version := promo_version p + 1, promo_uses := promo_uses p\<rparr>)"
  have saved: "d' = replace_promotion ?q d" "\<not> code_taken q d"
    using save_promotion_Inr [OF wf row(1) _ _ _ p(3)] q by auto
  have "q\<lparr>promo_version := promo_version p + 1, promo_uses := promo_uses p\<rparr> = q\<lparr>promo_version := promo_version p + 1\<rparr>"
    by (simp add: q)
  with ok have "wf_promotion ?q" by simp
  moreover have "terms_usage_limit ?q = terms_usage_limit p" "promo_version ?q = promo_version p + 1"
    by (simp_all add: promotion_as_read_def q)
  ultimately show ?thesis using row saved q by (intro exI [of _ p] exI [of _ ?q]) simp
qed

lemma end_in_keeps:
  assumes wf: "wf_promotions d" and step: "end_promotion_in i staff version now d = Inr d'"
  shows "wf_promotions d' \<and> (within_limits d \<longrightarrow> within_limits d')"
proof -
  from end_in_saved [OF assms] obtain p q where p: "p \<in> set (pp_promotions d)" and d': "d' = replace_promotion q d" "\<not> code_taken q d"
    and q: "promo_uses q = promo_uses p" "wf_promotion q" "terms_usage_limit q = terms_usage_limit p" by blast
  have "within_limits d'" if "within_limits d"
  proof -
    have "within_limit p" using that p by (simp add: within_limits_def)
    then have "within_limit q" unfolding within_limit_def q(1,3) .
    then show ?thesis unfolding d'(1) by (rule within_limits_replace [OF that])
  qed
  with replace_promotion_wf [OF wf q(2) d'(2)] show ?thesis unfolding d'(1) by blast
qed

lemma redeem_limits: "within_limits d \<Longrightarrow> within_limits (snd (redeem i d))"
  unfolding redeem_def add_use_eq
  by (auto simp: within_limits_def within_limit_def has_uses_left_def split: option.splits)

lemma release_limits: "within_limits d \<Longrightarrow> within_limits (release_use i d)"
  unfolding release_use_def remove_use_eq
  by (force simp: within_limits_def within_limit_def split: option.splits)

section \<open>Every operation keeps it\<close>

fun counts_a_late_payment :: "promotions_op \<Rightarrow> bool" where
  "counts_a_late_payment (RecountCoupon i) = True"
| "counts_a_late_payment _ = False"

text \<open>An edit that read the uses there are when it saves.\<close>

fun reads_current_uses :: "promotions_db \<Rightarrow> promotions_op \<Rightarrow> bool" where
  "reads_current_uses d (UpdatePromotion i changes version now seen) =
     (case find_promotion_row i d of None \<Rightarrow> True | Some p \<Rightarrow> int seen = promo_uses p)"
| "reads_current_uses d _ = True"

primrec edits_read_current_uses :: "target_catalog \<Rightarrow> promotions_db \<Rightarrow> promotions_op list \<Rightarrow> bool" where
  "edits_read_current_uses catalog d [] = True"
| "edits_read_current_uses catalog d (op # ops) =
     (reads_current_uses d op \<and> edits_read_current_uses catalog (attempt (promotions_step catalog) d op) ops)"

lemma promotions_step_keeps:
  assumes wf: "wf_promotions d" and step: "promotions_step catalog d op = Inr d'"
  shows "wf_promotions d' \<and> (within_limits d \<and> \<not> counts_a_late_payment op \<and> reads_current_uses d op \<longrightarrow> within_limits d')"
proof (cases op)
  case (CreatePromotion fresh terms starts_at staff now)
  with step create_in_keeps [OF wf] show ?thesis by auto
next
  case (UpdatePromotion i changes version now seen)
  with step have u: "update_promotion_in catalog i changes version now (with_uses_seen i seen d) d = Inr d'" by simp
  have "within_limits d'" if "within_limits d" "reads_current_uses d op"
    by (rule update_in_keeps(2) [OF wf u _ that(1)]) (use that(2) UpdatePromotion in simp)
  with update_in_keeps(1) [OF wf u] show ?thesis by blast
next
  case (EndPromotionOf i staff version now)
  with step end_in_keeps [OF wf] show ?thesis by auto
next
  case (RedeemCoupon i)
  with step wf show ?thesis by (auto simp: redeem_limits) (simp add: redeem_def add_use_wf)
next
  case (RecountCoupon i)
  with step wf show ?thesis by (auto simp: recount_def add_use_wf)
next
  case (ReleaseCoupon i)
  with step wf show ?thesis by (auto simp: release_limits) (simp add: release_use_def remove_use_wf)
qed

interpretation promotions_life: lifecycle "promotions_step catalog" wf_promotions for catalog
  by unfold_locales (use promotions_step_keeps in blast)

definition no_promotions :: promotions_db where
  "no_promotions = \<lparr>pp_promotions = []\<rparr>"

lemma no_promotions_ok: "wf_promotions no_promotions \<and> within_limits no_promotions"
  by (simp add: no_promotions_def wf_promotions_def within_limits_def codes_unique_def)

lemma limits_kept:
  "wf_promotions d \<Longrightarrow> within_limits d \<Longrightarrow> list_all (\<lambda>op. \<not> counts_a_late_payment op) ops \<Longrightarrow>
     edits_read_current_uses catalog d ops \<Longrightarrow> within_limits (run (promotions_step catalog) d ops)"
proof (induction ops arbitrary: d)
  case (Cons op ops)
  have "wf_promotions (attempt (promotions_step catalog) d op) \<and> within_limits (attempt (promotions_step catalog) d op)"
    using Cons.prems promotions_step_keeps [OF Cons.prems(1), of catalog op] by (auto simp: attempt_def split: sum.split)
  with Cons show ?case by simp
qed simp

text \<open>
  Each promotion stays, and while its version does not move only its uses do; and they only go up while they are below the
  limit, unless a late payment counts again.
\<close>

definition grown :: "promotion \<Rightarrow> promotion \<Rightarrow> bool" where
  "grown p q = (promo_id q = promo_id p \<and> (promo_version p < promo_version q \<or> (\<exists>n. q = p\<lparr>promo_uses := n\<rparr>)))"

lemma grown_refl: "grown p p"
  by (auto simp: grown_def intro: exI [of _ "promo_uses p"])

lemma grown_trans:
  assumes "grown p q" and "grown q r"
  shows "grown p r"
proof -
  have i: "promo_id r = promo_id p" using assms by (simp add: grown_def)
  have v: "promo_version x \<le> promo_version y" if "grown x y" for x y
    using that unfolding grown_def by (elim conjE disjE exE) simp_all
  show ?thesis
  proof (cases "promo_version p < promo_version r")
    case True
    with i show ?thesis by (simp add: grown_def)
  next
    case False
    with v [OF assms(1)] v [OF assms(2)] have "\<not> promo_version p < promo_version q" "\<not> promo_version q < promo_version r"
      by simp_all
    with assms obtain n m where "q = p\<lparr>promo_uses := n\<rparr>" "r = q\<lparr>promo_uses := m\<rparr>" unfolding grown_def by blast
    then have "r = p\<lparr>promo_uses := m\<rparr>" by simp
    with i show ?thesis unfolding grown_def by blast
  qed
qed

lemma replaced_grown:
  assumes "wf_promotions d" and "r \<in> set (pp_promotions d)" "promo_id q = promo_id r" "promo_version q = promo_version r + 1"
    and "p \<in> set (pp_promotions d)"
  shows "\<exists>x\<in>set (pp_promotions (replace_promotion q d)). grown p x"
proof (cases "promo_id p = promo_id q")
  case True
  then have "p = r" using assms same_key [of promo_id "pp_promotions d" p r] by (simp add: wf_promotions_def)
  then have "grown p q" using assms(3,4) by (simp add: grown_def)
  moreover have "q \<in> set (pp_promotions (replace_promotion q d))" using assms(2,3) by (force simp: replace_promotion_def)
  ultimately show ?thesis by blast
next
  case False
  then have "p \<in> set (pp_promotions (replace_promotion q d))" using assms(5) by (force simp: replace_promotion_def)
  then show ?thesis using grown_refl by blast
qed

lemma uses_grown:
  assumes "p \<in> set (pp_promotions d)"
  shows "\<exists>x\<in>set (pp_promotions (d\<lparr>pp_promotions := map (\<lambda>p. p\<lparr>promo_uses := g p\<rparr>) (pp_promotions d)\<rparr>)). grown p x"
  using assms by (force simp: grown_def)

lemma promotions_step_grown:
  assumes wf: "wf_promotions d" and step: "promotions_step catalog d op = Inr d'" and p: "p \<in> set (pp_promotions d)"
  shows "\<exists>x\<in>set (pp_promotions d'). grown p x"
proof (cases op)
  case (CreatePromotion fresh terms starts_at staff now)
  with step p have "p \<in> set (pp_promotions d')"
    by (auto simp: create_promotion_in_def insert_promotion_def res_simps split: if_splits)
  then show ?thesis using grown_refl by blast
next
  case (UpdatePromotion i changes version now seen)
  with step have u: "update_promotion_in catalog i changes version now (with_uses_seen i seen d) d = Inr d'" by simp
  from update_in_saved [OF wf u] show ?thesis
  proof (elim disjE exE conjE)
    assume "d' = d"
    with p grown_refl show ?thesis by blast
  next
    fix r q assume r: "r \<in> set (pp_promotions d)" and d': "d' = replace_promotion q d"
      and q: "promo_id q = promo_id r" "promo_version q = promo_version r + 1"
    show ?thesis unfolding d' by (rule replaced_grown [OF wf r q p])
  qed
next
  case (EndPromotionOf i staff version now)
  with step have "end_promotion_in i staff version now d = Inr d'" by simp
  from end_in_saved [OF wf this] obtain r q where r: "r \<in> set (pp_promotions d)" and d': "d' = replace_promotion q d"
    and q: "promo_id q = promo_id r" "promo_version q = promo_version r + 1" by blast
  show ?thesis unfolding d' by (rule replaced_grown [OF wf r q p])
next
  case (RedeemCoupon i)
  with step uses_grown [OF p] show ?thesis by (auto simp: redeem_def add_use_eq)
next
  case (RecountCoupon i)
  with step uses_grown [OF p] show ?thesis by (auto simp: recount_def add_use_eq)
next
  case (ReleaseCoupon i)
  with step uses_grown [OF p] show ?thesis by (auto simp: release_use_def remove_use_eq)
qed

lemma promotions_run_grown:
  "wf_promotions d \<Longrightarrow> p \<in> set (pp_promotions d) \<Longrightarrow> \<exists>x\<in>set (pp_promotions (run (promotions_step catalog) d ops)). grown p x"
proof (induction ops arbitrary: d p)
  case Nil
  then show ?case using grown_refl by auto
next
  case (Cons op ops)
  let ?d = "attempt (promotions_step catalog) d op"
  have "\<exists>x\<in>set (pp_promotions ?d). grown p x"
  proof (cases "promotions_step catalog d op")
    case (Inl e)
    then show ?thesis using Cons.prems(2) grown_refl by (auto simp: attempt_def)
  next
    case (Inr d')
    with promotions_step_grown [OF Cons.prems(1) Inr Cons.prems(2)] show ?thesis by (simp add: attempt_def)
  qed
  then obtain x where x: "x \<in> set (pp_promotions ?d)" "grown p x" by blast
  have "wf_promotions ?d" by (rule promotions_life.attempt_inv [OF Cons.prems(1)])
  from Cons.IH [OF this x(1)] grown_trans [OF x(2)] show ?case by auto
qed

text \<open>An edit that read the table at any moment before, and is saved, read it as it is now but for the uses.\<close>

lemma stale_edits_differ_in_uses:
  assumes rd: "rd = run (promotions_step catalog) no_promotions past" and d: "d = run (promotions_step catalog) rd ops"
    and step: "update_promotion_in catalog i changes version now rd d = Inr d'"
  shows "d' = d \<or> (\<exists>seen. update_promotion_in catalog i changes version now (with_uses_seen i seen d) d = Inr d')"
proof -
  have wfr: "wf_promotions rd" unfolding rd by (rule promotions_life.run_inv) (simp add: no_promotions_ok)
  have wfd: "wf_promotions d" unfolding d by (rule promotions_life.run_inv [OF wfr])
  from step obtain r q changed where r: "find_promotion_row i rd = Some r" "edit_promotion r changes now = Inr (q, changed)"
      "(if audited_promotion_fields q = audited_promotion_fields r then Inr d else save_promotion q changed d) = Inr d'"
    by (auto simp: update_promotion_in_def res_simps split: option.splits)
  show ?thesis
  proof (cases "audited_promotion_fields q = audited_promotion_fields r")
    case True
    with r(3) show ?thesis by simp
  next
    case False
    from find_promotion_SomeD [OF r(1)] have row: "r \<in> set (pp_promotions rd)" "promo_id r = i" by simp_all
    then have wf: "wf_promotion r" using wfr by (simp add: wf_promotions_def)
    note q = edit_promotion_frame [OF r(2) wf]
    from False r(3) obtain x where x: "find_promotion_row i d = Some x" "promo_version x = promo_version r"
      using q row by (auto simp: save_promotion_def split: option.splits if_splits)
    from find_promotion_SomeD [OF x(1)] have xd: "x \<in> set (pp_promotions d)" "promo_id x = i" by simp_all
    from promotions_run_grown [OF wfr row(1), of catalog ops] obtain y where y: "y \<in> set (pp_promotions d)" "grown r y"
      unfolding d by blast
    have "y = x" using same_key [of promo_id "pp_promotions d" y x] wfd xd y row by (simp add: wf_promotions_def grown_def)
    then obtain n where "x = r\<lparr>promo_uses := n\<rparr>" using y(2) x(2) by (auto simp: grown_def)
    then have "x\<lparr>promo_uses := promo_uses r\<rparr> = r" by simp
    moreover have "int (nat (promo_uses r)) = promo_uses r" using wf by (simp add: wf_promotion_def)
    ultimately have "x\<lparr>promo_uses := int (nat (promo_uses r))\<rparr> = r" by simp
    then have "find_promotion_row i (with_uses_seen i (nat (promo_uses r)) d) = find_promotion_row i rd"
      by (simp add: find_seen x(1) r(1))
    then have "update_promotion_in catalog i changes version now (with_uses_seen i (nat (promo_uses r)) d) d = Inr d'"
      using step by (simp add: update_promotion_in_def)
    then show ?thesis by blast
  qed
qed

lemma step_counts_below_limit:
  assumes wf: "wf_promotions d" and step: "promotions_step catalog d op = Inr d'" and "\<not> counts_a_late_payment op"
    and p: "p \<in> set (pp_promotions d')"
  shows "(\<exists>x\<in>set (pp_promotions d). promo_id x = promo_id p \<and> promo_uses p \<le> promo_uses x) \<or> within_limit p"
proof (cases op)
  case (CreatePromotion fresh terms starts_at staff now)
  with step obtain c where c: "create_promotion fresh terms starts_at staff now = Inr c" "insert_promotion c d = Inr d'"
    by (auto simp: create_promotion_in_def res_simps)
  have "wf_promotion c" using create_promotion_wf [OF c(1)] by simp
  moreover have "promo_uses c = 0" using c(1) by (auto simp: create_promotion_def Let_def res_simps promotion_terms.defs)
  ultimately have "within_limit c"
    by (auto simp: within_limit_def wf_promotion_def wf_terms_def split: option.split)
  then have "within_limit (promotion_as_read c)" by simp
  with c(2) p show ?thesis by (auto simp: insert_promotion_def split: if_splits)
next
  case (UpdatePromotion i changes version now seen)
  with step have u: "update_promotion_in catalog i changes version now (with_uses_seen i seen d) d = Inr d'" by simp
  from update_in_saved [OF wf u] show ?thesis
  proof (elim disjE exE conjE)
    assume "d' = d"
    with p show ?thesis by blast
  next
    fix r q assume r: "r \<in> set (pp_promotions d)" and d': "d' = replace_promotion q d"
      and q: "promo_id q = promo_id r" "promo_uses q = promo_uses r"
    from p have "p = q \<or> p \<in> set (pp_promotions d)" by (auto simp: d' replace_promotion_def split: if_splits)
    with r q show ?thesis by auto
  qed
next
  case (EndPromotionOf i staff version now)
  with step have "end_promotion_in i staff version now d = Inr d'" by simp
  from end_in_saved [OF wf this] obtain r q where r: "r \<in> set (pp_promotions d)" and d': "d' = replace_promotion q d"
    and q: "promo_id q = promo_id r" "promo_uses q = promo_uses r" by blast
  from p have "p = q \<or> p \<in> set (pp_promotions d)" by (auto simp: d' replace_promotion_def split: if_splits)
  with r q show ?thesis by auto
next
  case (RedeemCoupon i)
  with step p obtain x where x: "x \<in> set (pp_promotions d)"
    "p = x\<lparr>promo_uses := (if promo_id x = i \<and> has_uses_left x then promo_uses x + 1 else promo_uses x)\<rparr>"
    by (auto simp: redeem_def add_use_eq)
  then show ?thesis
    by (cases "promo_id x = i \<and> has_uses_left x") (auto simp: within_limit_def has_uses_left_def split: option.splits)
next
  case (ReleaseCoupon i)
  with step p show ?thesis by (fastforce simp: release_use_def remove_use_eq)
qed (use assms(3) in simp)

lemma run_snoc: "run step s (evs @ [ev]) = attempt step (run step s evs) ev"
  by (induction evs arbitrary: s) simp_all

lemma counted_below_a_limit:
  assumes "list_all (\<lambda>op. \<not> counts_a_late_payment op) ops" and "p \<in> set (pp_promotions (run (promotions_step catalog) no_promotions ops))"
  shows "\<exists>k x. k \<le> length ops \<and> x \<in> set (pp_promotions (run (promotions_step catalog) no_promotions (take k ops)))
    \<and> promo_id x = promo_id p \<and> (\<forall>n. terms_usage_limit x = Some n \<longrightarrow> promo_uses p \<le> n)"
  using assms
proof (induction ops arbitrary: p rule: rev_induct)
  case Nil
  then show ?case by (simp add: no_promotions_def)
next
  case (snoc op ops)
  let ?d = "run (promotions_step catalog) no_promotions ops"
  have late: "\<not> counts_a_late_payment op" "list_all (\<lambda>op. \<not> counts_a_late_payment op) ops" using snoc.prems(1) by simp_all
  have wf: "wf_promotions ?d" by (rule promotions_life.run_inv) (simp add: no_promotions_ok)
  have "(\<exists>x\<in>set (pp_promotions ?d). promo_id x = promo_id p \<and> promo_uses p \<le> promo_uses x) \<or> within_limit p"
    using snoc.prems(2) step_counts_below_limit [OF wf _ late(1)]
    by (auto simp: run_snoc attempt_def split: sum.splits)
  then show ?case
  proof
    assume "\<exists>x\<in>set (pp_promotions ?d). promo_id x = promo_id p \<and> promo_uses p \<le> promo_uses x"
    then obtain x where x: "x \<in> set (pp_promotions ?d)" "promo_id x = promo_id p" "promo_uses p \<le> promo_uses x" by blast
    from snoc.IH [OF late(2) x(1)] obtain k y where k: "k \<le> length ops"
      and y: "y \<in> set (pp_promotions (run (promotions_step catalog) no_promotions (take k ops)))" "promo_id y = promo_id x"
        "\<forall>n. terms_usage_limit y = Some n \<longrightarrow> promo_uses x \<le> n" by blast
    have "\<forall>n. terms_usage_limit y = Some n \<longrightarrow> promo_uses p \<le> n" using y(3) x(3) by force
    with k y x(2) show ?thesis by (intro exI [of _ k] exI [of _ y]) simp
  next
    assume "within_limit p"
    then have "\<forall>n. terms_usage_limit p = Some n \<longrightarrow> promo_uses p \<le> n" by (simp add: within_limit_iff)
    with snoc.prems(2) show ?thesis by (intro exI [of _ "length (ops @ [op])"] exI [of _ p]) simp
  qed
qed

text \<open>
  C32. Whatever the orders and the staff do, in any order, and whatever uses an edit read, while no late payment counts
  its use again: an order is given its coupon exactly when there is a use left, no coupon is used less than zero times,
  and its uses are within the limit it has, or had at some moment before. They are within the limit it has when every
  edit read the uses there were when it was saved; the program does not see to that, as
  \<open>limit_lowered_below_uses\<close> shows.
\<close>

theorem coupon_limit_holds:
  assumes "list_all (\<lambda>op. \<not> counts_a_late_payment op) ops" and "d = run (promotions_step catalog) no_promotions ops"
    and "p \<in> set (pp_promotions d)"
  shows "0 \<le> promo_uses p \<and>
     (fst (redeem (promo_id p) d) \<longleftrightarrow> (\<forall>n. terms_usage_limit p = Some n \<longrightarrow> promo_uses p < n)) \<and>
     (\<exists>k x. k \<le> length ops \<and> x \<in> set (pp_promotions (run (promotions_step catalog) no_promotions (take k ops)))
        \<and> promo_id x = promo_id p \<and> (\<forall>n. terms_usage_limit x = Some n \<longrightarrow> promo_uses p \<le> n)) \<and>
     (edits_read_current_uses catalog no_promotions ops \<longrightarrow>
        (\<forall>n. terms_usage_limit p = Some n \<longrightarrow> promo_uses p \<le> n))"
proof -
  have wf: "wf_promotions d" unfolding assms(2) by (rule promotions_life.run_inv) (simp add: no_promotions_ok)
  then have ids: "distinct (map promo_id (pp_promotions d))" by (simp add: wf_promotions_def)
  have "fst (redeem (promo_id p) d) \<longleftrightarrow> has_uses_left p"
    using assms(3) same_key [OF ids _ assms(3)] by (auto simp: redeem_def add_use_def list_ex_iff)
  moreover have "within_limit p" if "edits_read_current_uses catalog no_promotions ops"
    using limits_kept [OF _ _ assms(1) that] no_promotions_ok assms(2,3) by (simp add: within_limits_def)
  moreover have "0 \<le> promo_uses p" using wf assms(3) by (simp add: wf_promotions_def wf_promotion_def)
  ultimately show ?thesis using counted_below_a_limit [OF assms(1), of p catalog] assms(2,3)
    by (simp add: within_limit_def has_uses_left_def split: option.splits)
qed

section \<open>A witness\<close>

definition coupon_terms :: promotion_terms where
  "coupon_terms = \<lparr>terms_name = ''Bienvenida'', terms_discount = PERCENTAGE 10, terms_targets = [],
     terms_channels = [PROMO_ONLINE], terms_minimum = None, terms_starts_at = 0, terms_ends_at = None,
     terms_code = Some ''hola'', terms_usage_limit = Some 2, terms_once_per_customer = True\<rparr>"

definition lower_limit :: promotion_changes where
  "lower_limit = no_changes\<lparr>ch_usage_limit := Some (Some 1)\<rparr>"

definition coupon_ops :: "promotions_op list" where
  "coupon_ops = [CreatePromotion 5 coupon_terms None 3 10, RedeemCoupon 5, RedeemCoupon 5, RedeemCoupon 5,
     UpdatePromotion 5 lower_limit 1 20 2, ReleaseCoupon 5, UpdatePromotion 5 lower_limit 1 30 1]"

definition coupon_db :: promotions_db where
  "coupon_db = run (promotions_step (\<lambda>t. Some True)) no_promotions coupon_ops"

theorem coupon_limit_holds_witness:
  "\<exists>p\<in>set (pp_promotions coupon_db). terms_usage_limit p = Some 1 \<and> promo_uses p \<le> 1 \<and> \<not> fst (redeem 5 coupon_db)"
proof -
  have "map (\<lambda>p. (promo_id p, terms_usage_limit p)) (pp_promotions coupon_db) = [(5, Some 1)]"
    and none: "\<not> fst (redeem 5 coupon_db)" by code_simp+
  then obtain p where p: "p \<in> set (pp_promotions coupon_db)" "promo_id p = 5" "terms_usage_limit p = Some 1" by fastforce
  have late: "list_all (\<lambda>op. \<not> counts_a_late_payment op) coupon_ops" by code_simp
  have current: "edits_read_current_uses (\<lambda>t. Some True) no_promotions coupon_ops" by code_simp
  from coupon_limit_holds [OF late coupon_db_def p(1)] current have "promo_uses p \<le> 1" using p(3) by blast
  with p none show ?thesis by blast
qed

text \<open>
  A limit lowered over uses counted since it was read: the edit read one use, another order was given its coupon before
  it was saved, and the coupon ends with more uses than its limit.
\<close>

lemma limit_lowered_below_uses:
  "map promo_uses (pp_promotions (run (promotions_step (\<lambda>t. Some True)) no_promotions
       [CreatePromotion 5 coupon_terms None 3 10, RedeemCoupon 5])) = [1]"
  "map (\<lambda>p. (terms_usage_limit p, promo_uses p)) (pp_promotions (run (promotions_step (\<lambda>t. Some True)) no_promotions
       [CreatePromotion 5 coupon_terms None 3 10, RedeemCoupon 5, RedeemCoupon 5, UpdatePromotion 5 lower_limit 1 20 1]))
     = [(Some 1, 2)]"
  by code_simp+

end
