(* ===== verification/AccessLinks.thy ===== *)
theory AccessLinks
  imports Errors Cleanup
begin

text \<open>
  The links to the guest orders of an email (\<open>ordering/application/order-access-links.ts\<close>,
  \<open>ordering/infrastructure/prisma-order-access-token.repository.ts\<close>, \<open>shared-kernel/one-time-link.ts\<close>): asked with
  the email alone, issued when it has guest orders, and used once. The digest of a token is the platform's, a
  parameter; the drawn token too. Issuing and deleting take the lock of the email, so they follow each other.
\<close>

record access_token =
  at_id :: id
  at_email :: string
  at_hash :: string
  at_expires_at :: time
  at_used_at :: "time option"
  at_invalidated_at :: "time option"

definition is_usable_link :: "access_token \<Rightarrow> time \<Rightarrow> bool" where
  "is_usable_link l now = (at_used_at l = None \<and> at_invalidated_at l = None \<and> at_expires_at l > now)"

section \<open>The statements of the repository\<close>

type_synonym access_tokens = "access_token list"

text \<open>The identifier and the digest are unique.\<close>

definition add_token :: "id \<Rightarrow> string \<Rightarrow> string \<Rightarrow> time \<Rightarrow> access_tokens \<Rightarrow> access_tokens result" where
  "add_token fresh email hash expires_at ls =
     (if list_ex (\<lambda>l. at_id l = fresh \<or> at_hash l = hash) ls then Inl (PlainError ''order_access_tokens_key'')
      else Inr (ls @ [\<lparr>at_id = fresh, at_email = email, at_hash = hash, at_expires_at = expires_at,
        at_used_at = None, at_invalidated_at = None\<rparr>]))"

definition find_by_hash :: "string \<Rightarrow> access_tokens \<Rightarrow> access_token option" where
  "find_by_hash hash ls = find (\<lambda>l. at_hash l = hash) ls"

definition mark_used :: "id \<Rightarrow> time \<Rightarrow> access_tokens \<Rightarrow> access_tokens" where
  "mark_used i at ls = map (\<lambda>l. if at_id l = i then l\<lparr>at_used_at := Some at\<rparr> else l) ls"

definition invalidate_pending_of :: "string \<Rightarrow> time \<Rightarrow> access_tokens \<Rightarrow> access_tokens" where
  "invalidate_pending_of email at ls =
     map (\<lambda>l. if at_email l = email \<and> at_used_at l = None \<and> at_invalidated_at l = None
              then l\<lparr>at_invalidated_at := Some at\<rparr> else l) ls"

definition delete_tokens_of :: "string \<Rightarrow> access_tokens \<Rightarrow> access_tokens" where
  "delete_tokens_of email ls = filter (\<lambda>l. at_email l \<noteq> email) ls"

definition is_spent :: "time \<Rightarrow> access_token \<Rightarrow> bool" where
  "is_spent now l = (at_expires_at l \<le> now \<or> at_used_at l \<noteq> None \<or> at_invalidated_at l \<noteq> None)"

text \<open>Which of the spent links a batch takes is the database's to choose; here, the first ones.\<close>

definition delete_spent :: "time \<Rightarrow> access_tokens \<Rightarrow> nat \<Rightarrow> nat \<times> access_tokens" where
  "delete_spent now ls limit =
     (let batch = map at_id (take limit (filter (is_spent now) ls))
      in (length (filter (\<lambda>l. at_id l \<in> set batch \<and> is_spent now l) ls),
          filter (\<lambda>l. \<not> (at_id l \<in> set batch \<and> is_spent now l)) ls))"

section \<open>The use cases\<close>

text \<open>The token sent by email, when the email has guest orders.\<close>

definition issue_link ::
  "(string \<Rightarrow> string) \<Rightarrow> int \<Rightarrow> id \<Rightarrow> string \<Rightarrow> string \<Rightarrow> bool \<Rightarrow> time \<Rightarrow> access_tokens \<Rightarrow>
     (string option \<times> access_tokens) result" where
  "issue_link digest ttl fresh token email has_guest_orders now ls =
     (if \<not> has_guest_orders then Inr (None, ls)
      else res_bind (add_token fresh email (digest token) (now + ttl * 1000) (invalidate_pending_of email now ls))
             (\<lambda>ls'. Inr (Some token, ls')))"

definition redeem_link ::
  "(string \<Rightarrow> string) \<Rightarrow> string \<Rightarrow> time \<Rightarrow> access_tokens \<Rightarrow> (string \<times> access_tokens) result" where
  "redeem_link digest token now ls =
     (case find_by_hash (digest token) ls of
        None \<Rightarrow> Inl InvalidOrExpiredTokenError
      | Some l \<Rightarrow>
          if \<not> is_usable_link l now then Inl InvalidOrExpiredTokenError
          else Inr (at_email l, mark_used (at_id l) now ls))"

definition clean_access_tokens :: "time \<Rightarrow> access_tokens \<Rightarrow> nat \<times> access_tokens" where
  "clean_access_tokens now ls = delete_in_batches (delete_spent now) CLEANUP_BATCH_SIZE CLEANUP_MAX_BATCHES 0 ls"

datatype access_event =
    IssueLink id string string bool time
  | RedeemLink string time
  | DeleteLinksOf string
  | CleanLinks time

fun access_step :: "(string \<Rightarrow> string) \<Rightarrow> int \<Rightarrow> access_tokens \<Rightarrow> access_event \<Rightarrow> access_tokens result" where
  "access_step digest ttl ls (IssueLink fresh token email has_orders now) =
     res_bind (issue_link digest ttl fresh token email has_orders now ls) (\<lambda>(sent, ls'). Inr ls')"
| "access_step digest ttl ls (RedeemLink token now) =
     res_bind (redeem_link digest token now ls) (\<lambda>(email, ls'). Inr ls')"
| "access_step digest ttl ls (DeleteLinksOf email) = Inr (delete_tokens_of email ls)"
| "access_step digest ttl ls (CleanLinks now) = Inr (snd (clean_access_tokens now ls))"

section \<open>What the table keeps\<close>

definition pending_link :: "access_token \<Rightarrow> bool" where
  "pending_link l \<longleftrightarrow> at_used_at l = None \<and> at_invalidated_at l = None"

definition wf_access :: "access_tokens \<Rightarrow> bool" where
  "wf_access ls \<longleftrightarrow>
     distinct (map at_id ls) \<and> distinct (map at_hash ls) \<and> distinct (map at_email (filter pending_link ls))"

lemma wf_access_filter:
  assumes "wf_access ls"
  shows "wf_access (filter p ls)"
proof -
  have "filter pending_link (filter p ls) = filter (\<lambda>l. pending_link l \<and> p l) ls" by (simp add: conj_commute)
  then show ?thesis using assms distinct_filter_conj [of at_email pending_link ls p]
    by (simp add: wf_access_def distinct_map_filter)
qed

text \<open>A link that changes keeps its keys, and is pending only if it was.\<close>

lemma wf_access_map:
  assumes wf: "wf_access ls"
    and f: "\<And>l. at_id (f l) = at_id l" "\<And>l. at_hash (f l) = at_hash l" "\<And>l. at_email (f l) = at_email l"
      "\<And>l. pending_link (f l) \<Longrightarrow> pending_link l"
  shows "wf_access (map f ls)"
proof -
  have "filter (\<lambda>l. pending_link (f l)) ls = filter (\<lambda>l. pending_link l \<and> pending_link (f l)) ls"
    using f(4) by (auto intro: filter_cong)
  then have "map at_email (filter pending_link (map f ls))
      = map at_email (filter (\<lambda>l. pending_link l \<and> pending_link (f l)) ls)"
    by (simp add: filter_map comp_def f(3))
  then show ?thesis using wf distinct_filter_conj [of at_email pending_link ls "\<lambda>l. pending_link (f l)"]
    by (simp add: wf_access_def comp_def f(1,2))
qed

lemma invalidated_wf:
  assumes "wf_access ls"
  shows "wf_access (invalidate_pending_of email now ls)"
    and "email \<notin> at_email ` {l \<in> set (invalidate_pending_of email now ls). pending_link l}"
proof -
  show "wf_access (invalidate_pending_of email now ls)" unfolding invalidate_pending_of_def
    by (rule wf_access_map [OF assms]) (auto simp: pending_link_def split: if_splits)
  have "at_email l \<noteq> email" if l: "l \<in> set (invalidate_pending_of email now ls)" "pending_link l" for l
  proof -
    from l(1) obtain k where "l = (if at_email k = email \<and> at_used_at k = None \<and> at_invalidated_at k = None
        then k\<lparr>at_invalidated_at := Some now\<rparr> else k)"
      unfolding invalidate_pending_of_def set_map by (elim imageE) (rule that)
    with l(2) show ?thesis by (simp add: pending_link_def split: if_splits)
  qed
  then show "email \<notin> at_email ` {l \<in> set (invalidate_pending_of email now ls). pending_link l}" by blast
qed

lemma add_token_wf:
  assumes "wf_access ls" and "email \<notin> at_email ` {l \<in> set ls. pending_link l}"
    and "add_token fresh email hash expires ls = Inr ls'"
  shows "wf_access ls'"
proof -
  have "fresh \<notin> at_id ` set ls" "hash \<notin> at_hash ` set ls"
    and "ls' = ls @ [\<lparr>at_id = fresh, at_email = email, at_hash = hash, at_expires_at = expires,
        at_used_at = None, at_invalidated_at = None\<rparr>]"
    using assms(3) by (auto simp: add_token_def list_ex_iff split: if_splits)
  with assms(1,2) show ?thesis by (simp add: wf_access_def pending_link_def)
qed

lemma issue_link_wf:
  assumes wf: "wf_access ls" and step: "issue_link digest ttl fresh token email has_orders now ls = Inr (sent, ls')"
  shows "wf_access ls'"
proof (cases has_orders)
  case False
  with step wf show ?thesis by (simp add: issue_link_def)
next
  case True
  with step have "add_token fresh email (digest token) (now + ttl * 1000) (invalidate_pending_of email now ls) = Inr ls'"
    by (auto simp: issue_link_def res_simps)
  then show ?thesis by (rule add_token_wf [OF invalidated_wf [OF wf]])
qed

lemma redeem_link_parts:
  assumes "redeem_link digest token now ls = Inr (email, ls')"
  shows "\<exists>l. find_by_hash (digest token) ls = Some l \<and> is_usable_link l now \<and> email = at_email l
    \<and> ls' = mark_used (at_id l) now ls"
  using assms by (auto simp: redeem_link_def split: option.splits if_splits)

lemma mark_used_wf: "wf_access ls \<Longrightarrow> wf_access (mark_used i now ls)"
  unfolding mark_used_def by (erule wf_access_map) (auto simp: pending_link_def split: if_splits)

section \<open>The cleanup\<close>

lemma take_filter_in:
  "distinct (map f xs) \<Longrightarrow> filter (\<lambda>x. f x \<in> set (map f (take n (filter p xs))) \<and> p x) xs = take n (filter p xs)"
proof (induction xs arbitrary: n)
  case Nil
  then show ?case by simp
next
  case (Cons x xs)
  then have new: "f x \<notin> f ` set xs" and d: "distinct (map f xs)" by auto
  show ?case
  proof (cases "p x \<and> n \<noteq> 0")
    case True
    then obtain k where n: "n = Suc k" by (cases n) auto
    have "filter (\<lambda>y. f y \<in> insert (f x) (set (map f (take k (filter p xs)))) \<and> p y) xs
        = filter (\<lambda>y. f y \<in> set (map f (take k (filter p xs))) \<and> p y) xs"
      using new by (intro filter_cong refl) (metis imageI insert_iff)
    with True n Cons.IH [OF d, of k] show ?thesis by simp
  next
    case False
    have "f x \<notin> f ` set (take n (filter p xs))" using new by (auto dest: in_set_takeD)
    with False Cons.IH [OF d, of n] show ?thesis by (cases "p x") auto
  qed
qed

interpretation link_cleanup:
  batch_deletion "delete_spent now" "\<lambda>ls. length (filter (is_spent now) ls)" wf_access
    "\<lambda>ls ls'. filter (\<lambda>l. \<not> is_spent now l) ls' = filter (\<lambda>l. \<not> is_spent now l) ls" for now
proof unfold_locales
  fix ls :: access_tokens and limit n ls'
  assume wf: "wf_access ls" and batch: "delete_spent now ls limit = (n, ls')"
  let ?b = "set (map at_id (take limit (filter (is_spent now) ls)))"
  have taken: "filter (\<lambda>l. at_id l \<in> ?b \<and> is_spent now l) ls = take limit (filter (is_spent now) ls)"
    by (rule take_filter_in) (use wf in \<open>simp add: wf_access_def\<close>)
  have n: "n = length (take limit (filter (is_spent now) ls))"
    and ls': "ls' = filter (\<lambda>l. \<not> (at_id l \<in> ?b \<and> is_spent now l)) ls"
    using batch taken by (auto simp: delete_spent_def Let_def)
  have "length (filter (is_spent now) ls)
      = length (filter (\<lambda>l. at_id l \<in> ?b) (filter (is_spent now) ls))
      + length (filter (\<lambda>l. \<not> at_id l \<in> ?b) (filter (is_spent now) ls))"
    by (simp only: sum_length_filter_compl)
  moreover have "filter (\<lambda>l. at_id l \<in> ?b) (filter (is_spent now) ls) = take limit (filter (is_spent now) ls)"
    using taken by (simp only: filter_filter conj_commute)
  moreover have "filter (is_spent now) ls' = filter (\<lambda>l. \<not> at_id l \<in> ?b) (filter (is_spent now) ls)"
    unfolding ls' filter_filter by (intro filter_cong refl) auto
  ultimately show "n = min limit (length (filter (is_spent now) ls))
      \<and> length (filter (is_spent now) ls') = length (filter (is_spent now) ls) - n"
    using n by (simp only: length_take) linarith
  have "filter (\<lambda>l. \<not> is_spent now l) ls' = filter (\<lambda>l. \<not> is_spent now l) ls"
    unfolding ls' filter_filter by (intro filter_cong refl) auto
  with wf show "wf_access ls' \<and> filter (\<lambda>l. \<not> is_spent now l) ls' = filter (\<lambda>l. \<not> is_spent now l) ls"
    unfolding ls' by (simp add: wf_access_filter)
qed simp_all

lemma clean_links:
  assumes "wf_access ls"
  shows "wf_access (snd (clean_access_tokens now ls))
     \<and> filter (\<lambda>l. \<not> is_spent now l) (snd (clean_access_tokens now ls)) = filter (\<lambda>l. \<not> is_spent now l) ls"
proof -
  obtain n ls' where run: "clean_access_tokens now ls = (n, ls')" by (cases "clean_access_tokens now ls")
  from link_cleanup.run_deletes [OF run [unfolded clean_access_tokens_def] assms] run show ?thesis by simp
qed

section \<open>A link works once\<close>

lemma access_step_wf:
  assumes wf: "wf_access ls" and step: "access_step digest ttl ls ev = Inr ls'"
  shows "wf_access ls'"
proof (cases ev)
  case (IssueLink fresh token email has_orders now)
  with step obtain sent where "issue_link digest ttl fresh token email has_orders now ls = Inr (sent, ls')"
    by (auto simp: res_simps)
  then show ?thesis by (rule issue_link_wf [OF wf])
next
  case (RedeemLink token now)
  with step obtain email where r: "redeem_link digest token now ls = Inr (email, ls')" by (auto simp: res_simps)
  from redeem_link_parts [OF r] obtain l :: access_token where "ls' = mark_used (at_id l) now ls" by blast
  then show ?thesis by (simp only: mark_used_wf [OF wf])
next
  case (DeleteLinksOf email)
  with step wf show ?thesis by (simp add: delete_tokens_of_def) (auto intro: wf_access_filter)
next
  case (CleanLinks now)
  with step clean_links [OF wf, of now] show ?thesis by auto
qed

interpretation access_life: lifecycle "access_step digest ttl" wf_access for digest ttl
  by unfold_locales (rule access_step_wf)

text \<open>Every link with a digest was used or replaced; none is drawn with it again.\<close>

definition worked :: "string \<Rightarrow> access_tokens \<Rightarrow> bool" where
  "worked hash ls \<longleftrightarrow> (\<forall>l\<in>set ls. at_hash l = hash \<longrightarrow> \<not> pending_link l)"

fun draws :: "(string \<Rightarrow> string) \<Rightarrow> string \<Rightarrow> access_event \<Rightarrow> bool" where
  "draws digest hash (IssueLink fresh token email has_orders now) = (digest token = hash)"
| "draws digest hash _ = False"

lemma worked_map:
  "worked hash ls \<Longrightarrow> (\<And>l. at_hash (f l) = at_hash l) \<Longrightarrow> (\<And>l. pending_link (f l) \<Longrightarrow> pending_link l) \<Longrightarrow>
     worked hash (map f ls)"
  by (auto simp: worked_def)

lemma delete_batches_subset:
  "set (snd (delete_in_batches (delete_spent now) batch_size batches deleted ls)) \<subseteq> set ls"
proof (induction batches arbitrary: deleted ls)
  case 0
  then show ?case by simp
next
  case (Suc batches)
  have "set (snd (delete_spent now ls batch_size)) \<subseteq> set ls" by (auto simp: delete_spent_def Let_def)
  with Suc.IH show ?case by (auto simp: Let_def split: prod.split) blast+
qed

lemma access_step_worked:
  assumes "worked hash ls" and "\<not> draws digest hash ev" and "access_step digest ttl ls ev = Inr ls'"
  shows "worked hash ls'"
proof (cases ev)
  case (IssueLink fresh token email has_orders now)
  have inval: "worked hash (invalidate_pending_of email now ls)" unfolding invalidate_pending_of_def
    by (rule worked_map [OF assms(1)]) (auto simp: pending_link_def split: if_splits)
  show ?thesis
  proof (cases has_orders)
    case False
    with IssueLink assms show ?thesis by (simp add: issue_link_def)
  next
    case True
    with IssueLink assms(3) have
      "add_token fresh email (digest token) (now + ttl * 1000) (invalidate_pending_of email now ls) = Inr ls'"
      by (auto simp: issue_link_def res_simps)
    with inval assms(2) IssueLink show ?thesis by (auto simp: add_token_def worked_def split: if_splits)
  qed
next
  case (RedeemLink token now)
  with assms(3) obtain email where r: "redeem_link digest token now ls = Inr (email, ls')" by (auto simp: res_simps)
  from redeem_link_parts [OF r] obtain l :: access_token where "ls' = mark_used (at_id l) now ls" by blast
  then show ?thesis unfolding mark_used_def
    by (simp only:) (rule worked_map [OF assms(1)]; auto simp: pending_link_def split: if_splits)
next
  case (DeleteLinksOf email)
  with assms show ?thesis by (auto simp: worked_def delete_tokens_of_def)
next
  case (CleanLinks now)
  with assms(3) have "ls' = snd (delete_in_batches (delete_spent now) CLEANUP_BATCH_SIZE CLEANUP_MAX_BATCHES 0 ls)"
    by (simp add: clean_access_tokens_def)
  then have "set ls' \<subseteq> set ls" by (simp only: delete_batches_subset)
  with assms(1) show ?thesis by (auto simp: worked_def)
qed

interpretation used_link: guarded_lifecycle "access_step digest ttl" "worked hash" "\<lambda>ev. \<not> draws digest hash ev" for digest ttl hash
  by unfold_locales (rule access_step_worked)

text \<open>
  An access link works once: once it opened the orders of its email it is refused for good, whatever links are
  issued, used, deleted or cleaned up afterwards, as long as no other draw gives its digest again; and of the links
  of one email at most one can still be used.
\<close>

lemma access_link_works_once:
  assumes "wf_access ls" and "redeem_link digest token now ls = Inr (email, used)"
    and "list_all (\<lambda>ev. \<not> draws digest (digest token) ev) evs" and "ls' = run (access_step digest ttl) used evs"
  shows "redeem_link digest token later ls' = Inl InvalidOrExpiredTokenError \<and>
     (\<forall>l\<in>set ls'. \<forall>k\<in>set ls'. is_usable_link l later \<and> is_usable_link k later \<and> at_email l = at_email k \<longrightarrow> l = k)"
proof -
  from redeem_link_parts [OF assms(2)] obtain l where l: "find_by_hash (digest token) ls = Some l"
      "used = mark_used (at_id l) now ls" by blast
  from find_SomeD [OF l(1) [unfolded find_by_hash_def]] have row: "l \<in> set ls" "at_hash l = digest token" by auto
  have "distinct (map at_hash ls)" using assms(1) by (simp add: wf_access_def)
  from same_key [OF this _ row(1)] row(2) have only: "k = l" if "k \<in> set ls" "at_hash k = digest token" for k
    using that by simp
  have "\<not> pending_link m" if m: "m \<in> set used" "at_hash m = digest token" for m
  proof -
    from m obtain k where k: "k \<in> set ls" "m = (if at_id k = at_id l then k\<lparr>at_used_at := Some now\<rparr> else k)"
      by (auto simp: l(2) mark_used_def)
    with m(2) have "at_hash k = digest token" by (simp split: if_splits)
    with only k show ?thesis by (simp add: pending_link_def)
  qed
  then have "worked (digest token) used" by (simp add: worked_def)
  then have worked: "worked (digest token) ls'"
    unfolding assms(4) by (rule used_link.sound_run_inv [OF _ assms(3)])
  have wf: "wf_access ls'"
    unfolding assms(4) by (rule access_life.run_inv) (simp only: l(2) mark_used_wf [OF assms(1)])
  have "redeem_link digest token later ls' = Inl InvalidOrExpiredTokenError"
    using worked by (auto simp: redeem_link_def find_by_hash_def worked_def pending_link_def is_usable_link_def
        dest!: find_SomeD split: option.split)
  moreover have "x = y" if "x \<in> set ls'" "y \<in> set ls'" "is_usable_link x later" "is_usable_link y later"
      "at_email x = at_email y" for x y
    by (rule same_key [of at_email "filter pending_link ls'"])
      (use wf that in \<open>auto simp: wf_access_def is_usable_link_def pending_link_def\<close>)
  ultimately show ?thesis by blast
qed

section \<open>A witness\<close>

text \<open>Here the digest of a token is the token backwards.\<close>

definition example_links :: access_tokens where
  "example_links = run (access_step rev 1800) [] [IssueLink 1 ''abc'' ''ana@x.mx'' True 0, IssueLink 2 ''xyz'' ''ana@x.mx'' True 10]"

end
