(* ===== verification/PublicCode.thy ===== *)
theory PublicCode
  imports Prelude
begin

text \<open>
  The code a customer knows an order by (\<open>ordering/domain/public-code.ts\<close>): eight symbols of Base32
  Crockford. Drawing the symbols is the platform's; the model takes the drawn numbers.
\<close>

definition PUBLIC_CODE_ALPHABET :: string where
  "PUBLIC_CODE_ALPHABET = ''0123456789ABCDEFGHJKMNPQRSTVWXYZ''"

definition public_code_length :: nat where
  "public_code_length = 8"

text \<open>The character class of the stored form, range by range as the expression writes it.\<close>

definition code_symbol :: "char \<Rightarrow> bool" where
  "code_symbol c =
     (let n = of_char c :: nat
      in (48 \<le> n \<and> n \<le> 57) \<or> (65 \<le> n \<and> n \<le> 72) \<or> n = 74 \<or> n = 75 \<or> n = 77 \<or> n = 78
         \<or> (80 \<le> n \<and> n \<le> 84) \<or> (86 \<le> n \<and> n \<le> 90))"

definition stored_code :: "string \<Rightarrow> bool" where
  "stored_code s = (length s = public_code_length \<and> list_all code_symbol s)"

definition new_public_code :: "(nat \<Rightarrow> nat) \<Rightarrow> string" where
  "new_public_code random_int = map (\<lambda>k. PUBLIC_CODE_ALPHABET ! random_int k) [0..<public_code_length]"

definition parse_public_code :: "string \<Rightarrow> string option" where
  "parse_public_code value =
     (let upper = js_upper value;
          compact = (if length upper = public_code_length + 1 \<and> upper ! (public_code_length div 2) = CHR ''-''
                     then take (public_code_length div 2) upper @ drop (public_code_length div 2 + 1) upper
                     else upper)
      in if stored_code compact then Some compact else None)"

definition format_public_code :: "string \<Rightarrow> string" where
  "format_public_code code =
     take (public_code_length div 2) code @ ''-'' @ drop (public_code_length div 2) code"

section \<open>Facts about the symbols\<close>

lemma alphabet_symbols:
  "k < 32 \<Longrightarrow> code_symbol (PUBLIC_CODE_ALPHABET ! k)"
proof -
  assume k: "k < 32"
  have "list_all code_symbol PUBLIC_CODE_ALPHABET" "length PUBLIC_CODE_ALPHABET = 32" by code_simp+
  with k show ?thesis by (simp add: list_all_length)
qed

lemma symbol_upper: "code_symbol c \<Longrightarrow> js_upper_char c = [c]"
  by (auto simp: code_symbol_def js_upper_char_def Let_def)

lemma dash_upper: "js_upper_char (CHR ''-'') = ''-''"
  by code_simp

lemma dash_no_symbol: "\<not> code_symbol (CHR ''-'')"
  by code_simp

lemma symbol_upper_lower:
  assumes "code_symbol c"
  shows "js_upper_char (js_lower_char c) = [c]"
proof -
  define n where "n = (of_char c :: nat)"
  have c: "c = char_of n" by (simp add: n_def)
  have n: "(48 \<le> n \<and> n \<le> 57) \<or> (65 \<le> n \<and> n \<le> 90)"
    using assms by (auto simp: code_symbol_def n_def Let_def)
  show ?thesis
  proof (cases "65 \<le> n")
    case True
    then have "js_lower_char c = char_of (n + 32)" using n by (simp add: js_lower_char_def n_def Let_def)
    moreover have "of_char (char_of (n + 32) :: char) = n + 32" using n True by simp
    ultimately show ?thesis using n True by (simp add: js_upper_char_def Let_def c)
  next
    case False
    then have "js_lower_char c = c" using n by (simp add: js_lower_char_def n_def Let_def)
    then show ?thesis using assms by (simp add: symbol_upper)
  qed
qed

lemma js_upper_append: "js_upper (s @ t) = js_upper s @ js_upper t"
  by (simp add: js_upper_def)

lemma js_upper_symbols: "list_all code_symbol s \<Longrightarrow> js_upper s = s"
  by (induction s) (auto simp: js_upper_def symbol_upper)

lemma js_upper_lower_symbols: "list_all code_symbol s \<Longrightarrow> js_upper (js_lower s) = s"
  by (induction s) (auto simp: js_upper_def js_lower_def symbol_upper_lower)

lemma new_public_code_stored:
  "(\<And>k. random_int k < 32) \<Longrightarrow> stored_code (new_public_code random_int)"
  by (simp add: stored_code_def new_public_code_def public_code_length_def list_all_iff alphabet_symbols)

lemma parse_plain:
  assumes "js_upper v = s" and "stored_code s"
  shows "parse_public_code v = Some s"
  using assms by (simp add: parse_public_code_def stored_code_def Let_def)

lemma parse_dashed:
  assumes "js_upper v = format_public_code s" and "stored_code s"
  shows "parse_public_code v = Some s"
  using assms
  by (simp add: parse_public_code_def stored_code_def Let_def format_public_code_def
      public_code_length_def nth_append)

text \<open>
  C39. A code is found however a person writes it: as it is kept, as it is shown with the dash, and
  either of them in lowercase; and nothing that cannot be a code is taken for one.
\<close>

theorem public_code_round_trip:
  assumes "stored_code s"
  shows "parse_public_code s = Some s \<and> parse_public_code (format_public_code s) = Some s \<and>
     parse_public_code (js_lower s) = Some s \<and>
     parse_public_code (js_lower (format_public_code s)) = Some s \<and>
     (\<forall>v c. parse_public_code v = Some c \<longrightarrow> stored_code c)"
proof -
  have s: "list_all code_symbol s" using assms by (simp add: stored_code_def)
  let ?k = "public_code_length div 2"
  have halves: "list_all code_symbol (take ?k s)" "list_all code_symbol (drop ?k s)"
    using s by (simp_all add: list_all_iff) (meson in_set_takeD in_set_dropD)+
  have dash: "js_upper ''-'' = ''-''" "js_lower ''-'' = ''-''" by code_simp+
  have shown: "js_upper (format_public_code s) = format_public_code s"
    unfolding format_public_code_def js_upper_append dash(1) js_upper_symbols [OF halves(1)]
      js_upper_symbols [OF halves(2)] ..
  have lower: "js_upper (js_lower (format_public_code s)) = format_public_code s"
  proof -
    have "js_lower (format_public_code s) = js_lower (take ?k s) @ ''-'' @ js_lower (drop ?k s)"
      using dash(2) by (simp add: format_public_code_def js_lower_def)
    then show ?thesis
      unfolding format_public_code_def by (simp only: js_upper_append dash(1)
          js_upper_lower_symbols [OF halves(1)] js_upper_lower_symbols [OF halves(2)])
  qed
  have "stored_code c" if "parse_public_code v = Some c" for v c
    using that by (auto simp: parse_public_code_def Let_def split: if_splits)
  with parse_plain [OF js_upper_symbols [OF s] assms] parse_dashed [OF shown assms]
    parse_plain [OF js_upper_lower_symbols [OF s] assms] parse_dashed [OF lower assms]
  show ?thesis by blast
qed

theorem public_code_round_trip_witness:
  "parse_public_code ''k7m4-q9xa'' = Some ''K7M4Q9XA''"
proof -
  have "stored_code ''K7M4Q9XA''" and "js_lower (format_public_code ''K7M4Q9XA'') = ''k7m4-q9xa''"
    by code_simp+
  with public_code_round_trip [of "''K7M4Q9XA''"] show ?thesis by simp
qed

end
