(* ===== verification/Store.thy ===== *)
theory Store
  imports Orders Inventory Payments Shipping Promotions Shopping AccessLinks PublicCode
begin

text \<open>
  The whole store as Ordering sees it: its own tables, and those of the modules it asks, each changed only by its
  own operations. An operation of Ordering is one transaction over all of them, which locks the order it changes; a
  thrown error leaves every table as it was. The clock is read once per operation. What the catalog, the prices,
  the accounts, the geographic catalog and the configuration answer are parameters, the ports.
\<close>

text \<open>The events of \<open>ordering/application/order-events.ts\<close> and of the expiry.\<close>

datatype ordering_event =
    OrderPlaced id time
  | OrderPaid id time
  | OrderCancelled id bool time
  | OrderExpired id "id option" "id option" "cart_item list" time

record store =
  st_orders :: orders_db
  st_stock :: inventory
  st_payments :: payments_db
  st_shipping :: shipping_db
  st_promotions :: promotions_db
  st_carts :: carts
  st_access :: access_tokens
  st_events :: "ordering_event list"

definition emit :: "ordering_event \<Rightarrow> store \<Rightarrow> store" where
  "emit e g = g\<lparr>st_events := st_events g @ [e]\<rparr>"

section \<open>The ports\<close>

record catalog_variant =
  cav_sku :: string
  cav_product_title :: string
  cav_options :: "(string \<times> string) list"
  cav_product_status :: string
  cav_status :: string
  cav_store_only :: bool

record municipality =
  mu_state_code :: string
  mu_name :: string
  mu_is_active :: bool

record ports =
  po_variant :: "id \<Rightarrow> catalog_variant option"
  po_price :: "id \<Rightarrow> time \<Rightarrow> money option"
  po_classify :: "id \<Rightarrow> variant_class option"
  po_contact :: "id \<Rightarrow> (string \<times> bool) option"
  po_address :: "id \<Rightarrow> id \<Rightarrow> shipping_address option"
  po_state :: "string \<Rightarrow> string option"
  po_municipality :: "string \<Rightarrow> municipality option"
  po_vat_rate :: int
  po_reservation_ttl :: int

text \<open>The variant as the checkout needs it.\<close>

record checkout_variant =
  cv_id :: id
  cv_sku :: string
  cv_product_name :: string
  cv_options :: "(string \<times> string) list"
  cv_on_sale :: bool
  cv_store_only :: bool

definition checkout_variant_of :: "ports \<Rightarrow> id \<Rightarrow> checkout_variant option" where
  "checkout_variant_of P v =
     map_option (\<lambda>c. \<lparr>cv_id = v, cv_sku = cav_sku c, cv_product_name = cav_product_title c, cv_options = cav_options c,
       cv_on_sale = (cav_product_status c = ''PUBLISHED'' \<and> cav_status c = ''ACTIVE''),
       cv_store_only = cav_store_only c\<rparr>) (po_variant P v)"

text \<open>The names of a state and one of its municipalities, or what is wrong with them.\<close>

definition resolve_location :: "ports \<Rightarrow> string \<Rightarrow> string \<Rightarrow> location_problem + string \<times> string" where
  "resolve_location P state_code municipality_code =
     (case po_state P state_code of
        None \<Rightarrow> Inl UnknownState
      | Some state_name \<Rightarrow>
          (case po_municipality P municipality_code of
             None \<Rightarrow> Inl MunicipalityNotInState
           | Some m \<Rightarrow>
               if mu_state_code m \<noteq> state_code then Inl MunicipalityNotInState
               else if \<not> mu_is_active m then Inl InactiveMunicipality
               else Inr (state_name, mu_name m)))"

section \<open>The other modules, as Ordering asks them\<close>

fun promotion_channel_of :: "order_channel \<Rightarrow> promotion_channel" where
  "promotion_channel_of ONLINE = PROMO_ONLINE"
| "promotion_channel_of STORE = PROMO_STORE"

definition stock_lines :: "order \<Rightarrow> (id \<times> js_number) list" where
  "stock_lines s = map (\<lambda>l. (li_variant l, Whole (li_quantity l))) (o_lines s)"

text \<open>Short of stock, nothing was reserved and the transaction goes on.\<close>

definition reserve_if_available ::
  "ports \<Rightarrow> order \<Rightarrow> time \<Rightarrow> store \<Rightarrow> (reservation_receipt option \<times> store) result" where
  "reserve_if_available P s now g =
     (case reserve_order (o_id s) (stock_lines s) (o_warehouse s) (po_reservation_ttl P) now (st_stock g) of
        Inr (receipt, stock) \<Rightarrow> Inr (Some receipt, g\<lparr>st_stock := stock\<rparr>)
      | Inl e \<Rightarrow> if error_code e = Some ''insufficient-stock'' then Inr (None, g) else Inl e)"

definition commit_stock :: "id \<Rightarrow> time \<Rightarrow> store \<Rightarrow> (commit_outcome \<times> store) result" where
  "commit_stock order now g =
     res_bind (commit_reservation order now (st_stock g)) (\<lambda>(outcome, stock). Inr (outcome, g\<lparr>st_stock := stock\<rparr>))"

definition free_stock :: "id \<Rightarrow> reservation_status \<Rightarrow> time \<Rightarrow> store \<Rightarrow> store result" where
  "free_stock order status now g =
     res_bind (free_reservation order status now (st_stock g)) (\<lambda>(freed, stock). Inr (g\<lparr>st_stock := stock\<rparr>))"

text \<open>A reason of the restock of an order, and as a movement of stock has it.\<close>

fun movement_reason_of :: "Order.restock_reason \<Rightarrow> movement_reason" where
  "movement_reason_of Order.restock_reason.ORDER_CANCELLED = movement_reason.ORDER_CANCELLED"
| "movement_reason_of Order.restock_reason.SHIPMENT_RETURNED = movement_reason.SHIPMENT_RETURNED"

definition restock_stock ::
  "id \<Rightarrow> Order.restock_reason \<Rightarrow> string option \<Rightarrow> id \<Rightarrow> restock_line list \<Rightarrow> id option \<Rightarrow> time \<Rightarrow> store \<Rightarrow>
     (stock_movement list \<times> store) result" where
  "restock_stock order reason remark actor lines warehouse now g =
     res_bind (restock_order
         \<lparr>rs_in_order = order, rs_in_reason = movement_reason_of reason, rs_in_note = remark, rs_in_actor = actor,
          rs_in_lines = map (\<lambda>l. \<lparr>rl_in_line = rl_order_line l, rl_in_variant = rl_variant l,
             rl_in_sold = rl_sold l, rl_in_quantity = Whole (rl_quantity l)\<rparr>) lines,
          rs_in_warehouse = warehouse\<rparr> now (st_stock g)) (\<lambda>(movements, stock).
       Inr (movements, g\<lparr>st_stock := stock\<rparr>))"

text \<open>The shipment of an order just paid, from the one warehouse its confirmed stock left.\<close>

definition create_for :: "id \<Rightarrow> order \<Rightarrow> store \<Rightarrow> store result" where
  "create_for fresh s g =
     (case allocation_of (o_id s) (st_stock g) of
        [a] \<Rightarrow>
          res_bind (delivery_address s) (\<lambda>address.
          res_bind (create_shipment_of fresh
              \<lparr>hn_order = o_id s, hn_code = o_public_code s, hn_warehouse = al_warehouse a, hn_destination = address,
               hn_items = map (\<lambda>l. \<lparr>hi_line = ol_id l, hi_sku = li_sku l, hi_product = li_product_name l,
                 hi_quantity = Whole (li_quantity l)\<rparr>) (o_lines s)\<rparr> (st_shipping g)) (\<lambda>shipping.
            Inr (g\<lparr>st_shipping := shipping\<rparr>)))
      | _ \<Rightarrow> Inl (PlainError ''The order needs exactly one warehouse''))"

definition cancel_shipment_for :: "id \<Rightarrow> time \<Rightarrow> store \<Rightarrow> store result" where
  "cancel_shipment_for order now g =
     res_bind (cancel_shipment_of order now (st_shipping g)) (\<lambda>shipping. Inr (g\<lparr>st_shipping := shipping\<rparr>))"

text \<open>The status of the shipment of an order, as its views show it.\<close>

definition shipment_status_of :: "id \<Rightarrow> store \<Rightarrow> string option" where
  "shipment_status_of order g =
     map_option (\<lambda>h. shipment_status_name (h_status h)) (shipment_of_order order (st_shipping g))"

text \<open>The order as Payments needs it: its total is what is collected.\<close>

definition request_of :: "order \<Rightarrow> payment_request" where
  "request_of s = \<lparr>pr_order = o_id s, pr_code = o_public_code s, pr_amount = tot_grand (o_totals s)\<rparr>"

definition start_refund_for :: "id \<Rightarrow> id \<Rightarrow> time \<Rightarrow> store \<Rightarrow> store result" where
  "start_refund_for fresh order now g =
     res_bind (start_refund_of fresh order now (st_payments g)) (\<lambda>payments. Inr (g\<lparr>st_payments := payments\<rparr>))"

definition cancel_pending_for :: "id \<Rightarrow> time \<Rightarrow> store \<Rightarrow> store result" where
  "cancel_pending_for order now g =
     res_bind (cancel_pending_of order now (st_payments g)) (\<lambda>payments. Inr (g\<lparr>st_payments := payments\<rparr>))"

definition release_coupon :: "order \<Rightarrow> store \<Rightarrow> store" where
  "release_coupon s g =
     (case order_coupon s of None \<Rightarrow> g | Some p \<Rightarrow> g\<lparr>st_promotions := release_use p (st_promotions g)\<rparr>)"

definition recount_coupon :: "order \<Rightarrow> store \<Rightarrow> store" where
  "recount_coupon s g =
     (case order_coupon s of None \<Rightarrow> g | Some p \<Rightarrow> g\<lparr>st_promotions := recount p (st_promotions g)\<rparr>)"

section \<open>An order of the table\<close>

definition found :: "id \<Rightarrow> store \<Rightarrow> order result" where
  "found i g = (case lock_order i (st_orders g) of None \<Rightarrow> Inl (NotFoundError ''Order'' i) | Some s \<Rightarrow> Inr s)"

definition save_in :: "order \<Rightarrow> store \<Rightarrow> store result" where
  "save_in s g = res_bind (save_order s (st_orders g)) (\<lambda>orders. Inr (g\<lparr>st_orders := orders\<rparr>))"

end
