(* ===== verification/Evolution.thy ===== *)
theory Evolution
  imports Store
begin

text \<open>
  What the tables of a module keep while only its own operations change them: an order that committed its stock stays
  committed, a payment and a shipment only move forward and are never lost, and the staff leaves the uses of the
  coupons alone. Each fact is proved once per operation and holds of any sequence of them.
\<close>

section \<open>Tables changed by operations\<close>

text \<open>A fact each operation keeps, and that follows on, holds of all of them together.\<close>

locale evolution = guarded_lifecycle step inv sound
  for step :: "'s \<Rightarrow> 'ev \<Rightarrow> 'e + 's" and inv :: "'s \<Rightarrow> bool" and sound :: "'ev \<Rightarrow> bool" +
  fixes kept :: "'s \<Rightarrow> 's \<Rightarrow> bool"
  assumes kept_refl: "kept s s"
    and kept_trans: "kept s t \<Longrightarrow> kept t u \<Longrightarrow> kept s u"
    and step_kept: "inv s \<Longrightarrow> sound ev \<Longrightarrow> step s ev = Inr t \<Longrightarrow> kept s t"
begin

lemma evolves: "inv s \<Longrightarrow> sound ev \<Longrightarrow> step s ev = Inr t \<Longrightarrow> inv t \<and> kept s t"
  by (blast intro: sound_step_inv step_kept)

lemma attempt_kept: "inv s \<Longrightarrow> sound ev \<Longrightarrow> kept s (attempt step s ev)"
  by (auto simp: attempt_def kept_refl split: sum.split intro: step_kept)

lemma run_kept: "inv s \<Longrightarrow> list_all sound evs \<Longrightarrow> kept s (run step s evs)"
proof (induction evs arbitrary: s)
  case Nil
  then show ?case by (simp add: kept_refl)
next
  case (Cons ev evs)
  then have "kept (attempt step s ev) (run step (attempt step s ev) evs)" by (auto intro: sound_attempt_inv)
  with attempt_kept [of s ev] Cons.prems show ?case by (auto intro: kept_trans)
qed

end

section \<open>The stock\<close>

text \<open>Only opening a reservation and leaving it change the reservations; a committed one stays so.\<close>

definition commits_stay :: "inventory \<Rightarrow> inventory \<Rightarrow> bool" where
  "commits_stay s t \<longleftrightarrow> (\<forall>i. is_committed i s \<longrightarrow> is_committed i t)"

definition same_reservations :: "inventory \<Rightarrow> inventory \<Rightarrow> bool" where
  "same_reservations s t \<longleftrightarrow> iv_reservations t = iv_reservations s"

lemma commits_stay_refl [simp]: "commits_stay s s"
  by (simp add: commits_stay_def)

lemma same_reservations_commits: "same_reservations s t \<Longrightarrow> commits_stay s t"
  by (simp add: same_reservations_def commits_stay_def is_committed_def)

lemma same_reservations_refl [simp]: "same_reservations s s"
  by (simp add: same_reservations_def)

lemma same_reservations_trans: "same_reservations s t \<Longrightarrow> same_reservations t u \<Longrightarrow> same_reservations s u"
  by (simp add: same_reservations_def)

lemma update_items_same: "update_items p f s = Inr t \<Longrightarrow> same_reservations s t"
  by (auto simp: update_items_def same_reservations_def split: if_splits)

lemma insert_movements_same: "insert_movements ms s = Inr t \<Longrightarrow> same_reservations s t"
  by (auto simp: insert_movements_def same_reservations_def split: if_splits)

lemma insert_lines_same: "insert_lines ls s = Inr t \<Longrightarrow> same_reservations s t"
  by (auto simp: insert_lines_def same_reservations_def split: if_splits)

lemma reserve_item_same:
  "reserve_item reservation at wanted st item = Inr (reserved, short, t) \<Longrightarrow> same_reservations (snd (snd st)) t"
  by (auto simp: reserve_item_def Let_def res_simps split: prod.splits if_splits dest: update_items_same)

lemma reserve_items_same:
  "res_fold (reserve_item reservation at wanted) st items = Inr (reserved, short, t) \<Longrightarrow>
     same_reservations (snd (snd st)) t"
  by (drule res_fold_inv [where I = "\<lambda>u. same_reservations (snd (snd st)) (snd (snd u))"])
    (auto dest!: reserve_item_same intro: same_reservations_trans)

lemma reserve_in_same: "reserve_in reservation w requests at s = Inr (short, t) \<Longrightarrow> same_reservations s t"
  by (auto simp: reserve_in_def Let_def res_simps split: option.splits if_splits
      dest!: reserve_items_same insert_lines_same intro: same_reservations_trans)

lemma reserve_all_same: "reserve_all reservation at plan s = Inr (all, t) \<Longrightarrow> same_reservations s t"
  unfolding reserve_all_def
  by (auto split: sum.splits thrown.splits stock_error.splits
      elim!: res_fold_inv [where I = "same_reservations s"]
      simp: reserve_group_def res_simps dest!: reserve_in_same intro: same_reservations_trans)

lemma try_plans_same: "try_plans reservation at plans s = Inr (all, t) \<Longrightarrow> same_reservations s t"
  by (induction plans arbitrary: s)
    (auto simp: res_simps split: if_splits dest!: reserve_all_same intro: same_reservations_trans)

lemma open_reservation_commits:
  "open_reservation order expires s = (opened, receipt, t) \<Longrightarrow> commits_stay s t"
  by (auto simp: open_reservation_def commits_stay_def is_committed_def split: option.splits)

text \<open>Leaving a reservation only touches an active one.\<close>

lemma leave_reservation_commits:
  assumes "leave_reservation order status s = (ls, t)"
  shows "commits_stay s t" and "ls \<noteq> None \<Longrightarrow> status = ReservationCommitted \<Longrightarrow> is_committed order t"
proof -
  show "commits_stay s t"
  proof (unfold commits_stay_def is_committed_def, intro allI impI)
    fix i assume "length (filter (\<lambda>r. rs_order r = i \<and> rs_status r = ReservationCommitted) (iv_reservations s)) > 0"
    then obtain r where "r \<in> set (iv_reservations s)" "rs_order r = i" "rs_status r = ReservationCommitted"
      by (auto simp: filter_empty_conv)
    with assms have "r \<in> set (iv_reservations t)"
      by (force simp: leave_reservation_def split: option.splits)
    with \<open>rs_order r = i\<close> \<open>rs_status r = ReservationCommitted\<close>
    show "length (filter (\<lambda>r. rs_order r = i \<and> rs_status r = ReservationCommitted) (iv_reservations t)) > 0"
      by (auto simp: filter_empty_conv)
  qed
next
  assume "ls \<noteq> None" and status: "status = ReservationCommitted"
  then obtain left where "find (\<lambda>r. rs_order r = order \<and> rs_status r = ReservationActive) (iv_reservations s) = Some left"
    using assms by (auto simp: leave_reservation_def split: option.splits)
  then have left: "left \<in> set (iv_reservations s)" "rs_order left = order" "rs_status left = ReservationActive"
    by (auto simp: find_Some_iff)
  let ?e = "\<lambda>r. if rs_order r = order \<and> rs_status r = ReservationActive
    then r\<lparr>rs_status := status, rs_version := rs_version r + 1\<rparr> else r"
  have "iv_reservations t = map ?e (iv_reservations s)"
    using assms \<open>ls \<noteq> None\<close> by (auto simp: leave_reservation_def split: option.splits)
  then have "?e left \<in> set (iv_reservations t)" using left(1) by simp
  then have "left\<lparr>rs_status := status, rs_version := rs_version left + 1\<rparr> \<in> set (iv_reservations t)"
    using left(2,3) by simp
  with left status show "is_committed order t"
    by (auto simp: is_committed_def filter_empty_conv intro!: bexI [of _ "left\<lparr>rs_status := status, rs_version := rs_version left + 1\<rparr>"])
qed

lemma commits_stay_trans: "commits_stay s t \<Longrightarrow> commits_stay t u \<Longrightarrow> commits_stay s u"
  by (simp add: commits_stay_def)

lemma commit_lines_same: "res_fold (commit_line order at) st ls = Inr (ms, t) \<Longrightarrow> same_reservations (snd st) t"
proof (induction ls arbitrary: st)
  case Nil
  then show ?case by simp
next
  case (Cons l ls)
  then obtain u where "commit_line order at st l = Inr u" "same_reservations (snd u) t" by (auto simp: res_simps)
  moreover from this(1) have "same_reservations (snd st) (snd u)"
    by (auto simp: commit_line_def res_simps same_reservations_def split: prod.splits option.splits
        dest!: update_items_same)
  ultimately show ?case by (blast intro: same_reservations_trans)
qed

lemma free_lines_same: "res_fold (free_line at) s ls = Inr t \<Longrightarrow> same_reservations s t"
  by (erule res_fold_inv) (auto simp: free_line_def dest!: update_items_same intro: same_reservations_trans)

lemma commit_reservation_commits:
  assumes "commit_reservation order at s = Inr (outcome, t)"
  shows "commits_stay s t" and "outcome \<noteq> NotActive \<Longrightarrow> is_committed order t"
proof -
  obtain ls s1 where left: "leave_reservation order ReservationCommitted s = (ls, s1)"
    by (cases "leave_reservation order ReservationCommitted s")
  have both: "commits_stay s t \<and> (outcome \<noteq> NotActive \<longrightarrow> is_committed order t)"
  proof (cases ls)
    case None
    with assms left leave_reservation_commits(1) [OF left] show ?thesis
      by (auto simp: commit_reservation_def split: if_splits)
  next
    case (Some lines)
    with assms left have "same_reservations s1 t"
      by (auto simp: commit_reservation_def res_simps
          dest!: commit_lines_same insert_movements_same intro: same_reservations_trans)
    with leave_reservation_commits [OF left] Some show ?thesis
      by (auto simp: commits_stay_def same_reservations_def is_committed_def)
  qed
  then show "commits_stay s t" and "outcome \<noteq> NotActive \<Longrightarrow> is_committed order t" by blast+
qed

lemma free_reservation_commits: "free_reservation order status at s = Inr (freed, t) \<Longrightarrow> commits_stay s t"
  by (auto simp: free_reservation_def res_simps split: prod.splits option.splits
      dest!: leave_reservation_commits(1) free_lines_same same_reservations_commits intro: commits_stay_trans)

lemma ensure_item_same: "same_reservations s (ensure_item w v now s)"
  by (auto simp: ensure_item_def same_reservations_def)

lemma change_stock_same: "change_stock entry guarded s = Inr (stock, t) \<Longrightarrow> same_reservations s t"
  unfolding change_stock_def Let_def
  by (auto simp: res_simps split: option.splits dest!: update_items_same
      intro: same_reservations_trans [OF ensure_item_same])

lemma record_movement_same: "record_movement it entry type reason order s = Inr (m, t) \<Longrightarrow> same_reservations s t"
  by (auto simp: record_movement_def Let_def res_simps same_reservations_def dest!: insert_movements_same)

lemma ledger_receive_same: "ledger_receive entry s = Inr (m, t) \<Longrightarrow> same_reservations s t"
  by (auto simp: ledger_receive_def res_simps split: option.splits
      dest!: change_stock_same record_movement_same intro: same_reservations_trans)

lemma ledger_adjust_same: "ledger_adjust entry reason s = Inr (m, t) \<Longrightarrow> same_reservations s t"
  by (auto simp: ledger_adjust_def res_simps split: option.splits
      dest!: change_stock_same record_movement_same intro: same_reservations_trans)

lemma restock_one_same: "restock_one st entry = Inr st' \<Longrightarrow> same_reservations (snd st) (snd st')"
  by (auto simp: restock_one_def res_simps split: prod.splits option.splits
      dest!: change_stock_same record_movement_same) (blast intro: same_reservations_trans)

lemma ledger_restock_same: "ledger_restock entries s = Inr (ms, t) \<Longrightarrow> same_reservations s t"
  unfolding ledger_restock_def
  by (auto split: if_splits dest!: res_fold_inv [where I = "\<lambda>u. same_reservations s (snd u)"]
      dest: restock_one_same intro: same_reservations_trans)

lemma restock_order_same: "restock_order i now s = Inr (ms, t) \<Longrightarrow> same_reservations s t"
  by (auto simp: restock_order_def Let_def res_simps split: if_splits dest!: ledger_restock_same)

lemma reserve_seeing_commits:
  assumes "reserve_seeing seen after order merged w ttl now s = Inr (receipt, t)"
  shows "commits_stay s t"
proof -
  obtain opened r s1 where o1: "open_reservation order (now + ttl * 1000) s = (opened, r, s1)"
    by (cases "open_reservation order (now + ttl * 1000) s")
  with assms have "same_reservations s1 t"
    by (auto simp: reserve_seeing_def res_simps split: if_splits dest: try_plans_same)
  with open_reservation_commits [OF o1] show ?thesis
    by (blast intro: commits_stay_trans same_reservations_commits)
qed

lemma inventory_step_commits:
  assumes "inventory_step ex s ev = Inr t"
  shows "commits_stay s t"
proof (cases ev)
  case (Reserve seen after order requests w ttl now)
  with assms show ?thesis by (auto simp: res_simps split: if_splits intro: reserve_seeing_commits)
next
  case (CommitOrder order now)
  with assms show ?thesis by (auto simp: res_simps dest: commit_reservation_commits(1))
next
  case (ReleaseOrder order now)
  with assms show ?thesis by (auto simp: res_simps dest: free_reservation_commits)
next
  case (ExpireOrder order now)
  with assms show ?thesis by (auto simp: res_simps dest: free_reservation_commits)
next
  case (Receive v w q remark staff now)
  with assms show ?thesis
    by (auto simp: res_simps receive_stock_def split: if_splits dest!: ledger_receive_same same_reservations_commits)
next
  case (Adjust v w q reason remark staff now)
  with assms show ?thesis
    by (auto simp: res_simps adjust_stock_def split: if_splits option.splits
        dest!: ledger_adjust_same same_reservations_commits)
next
  case (Restock i now)
  with assms show ?thesis by (auto simp: res_simps dest!: restock_order_same same_reservations_commits)
next
  case (DeactivateWarehouse w)
  with assms show ?thesis
    by (auto simp: res_simps deactivate_warehouse_in_def Let_def save_warehouse_def commits_stay_def is_committed_def
        split: option.splits)
qed

interpretation stock_evolution: evolution "inventory_step ex" wf_inventory "\<lambda>ev. True" commits_stay for ex
  by unfold_locales (auto intro: commits_stay_trans inventory_step_commits)

text \<open>The stock reserved for an order, and then committed, is committed.\<close>

definition has_active :: "id \<Rightarrow> inventory \<Rightarrow> bool" where
  "has_active order s \<longleftrightarrow> (\<exists>r\<in>set (iv_reservations s). rs_order r = order \<and> rs_status r = ReservationActive)"

lemma reserve_order_active:
  assumes "reserve_order order requests w ttl now s = Inr (receipt, t)"
  shows "has_active order t"
proof -
  obtain opened r s1 where o1: "open_reservation order (now + ttl * 1000) s = (opened, r, s1)"
    by (cases "open_reservation order (now + ttl * 1000) s")
  with assms have "same_reservations s1 t"
    by (auto simp: reserve_order_def reserve_seeing_def Let_def res_simps split: if_splits dest: try_plans_same)
  moreover have "has_active order s1"
    using o1 by (auto simp: open_reservation_def has_active_def find_Some_iff split: option.splits)
  ultimately show ?thesis by (simp add: has_active_def same_reservations_def)
qed

lemma commit_active:
  assumes "commit_reservation order at s = Inr (outcome, t)" and "has_active order s"
  shows "is_committed order t"
proof -
  have "outcome \<noteq> NotActive"
    using assms by (auto simp: commit_reservation_def leave_reservation_def has_active_def res_simps find_None_iff
        split: option.splits if_splits)
  then show ?thesis by (rule commit_reservation_commits(2) [OF assms(1)])
qed

end
