(* ===== verification/Trails.thy ===== *)
theory Trails
  imports Evolution
begin

text \<open>
  What Payments, Shipping and Promotions keep through their operations: no payment and no shipment is lost and
  their status only moves forward, an event published says what its payment or shipment did, and only Ordering
  changes the uses of a coupon.
\<close>

section \<open>Payments\<close>

definition payment_kept :: "payment \<Rightarrow> payment \<Rightarrow> bool" where
  "payment_kept p q \<longleftrightarrow>
     pm_order q = pm_order p \<and> pm_amount q = pm_amount p \<and> (pm_status p, pm_status q) \<in> payment_moves\<^sup>* \<and>
     (pm_refunds p \<noteq> [] \<longrightarrow> pm_refunds q \<noteq> [])"

definition payments_keep :: "payments_db \<Rightarrow> payments_db \<Rightarrow> bool" where
  "payments_keep d u \<longleftrightarrow> (\<forall>p\<in>set (pd_payments d). \<exists>q\<in>set (pd_payments u). payment_kept p q)"

lemma payment_kept_refl [simp]: "payment_kept p p"
  by (simp add: payment_kept_def)

lemma payment_kept_trans: "payment_kept p q \<Longrightarrow> payment_kept q r \<Longrightarrow> payment_kept p r"
  unfolding payment_kept_def by (auto intro: rtrancl_trans)

lemma payments_keep_refl [simp]: "payments_keep d d"
  by (auto simp: payments_keep_def intro: payment_kept_refl)

lemma payments_keep_trans: "payments_keep d u \<Longrightarrow> payments_keep u v \<Longrightarrow> payments_keep d v"
  unfolding payments_keep_def by (blast intro: payment_kept_trans)

lemma payment_step_kept:
  assumes wf: "wf_payment p" and step: "payment_step p ev = Inr q"
  shows "payment_kept p q"
proof -
  have "(pm_status p, pm_status q) \<in> payment_moves\<^sup>*"
    using payment_step_moves [OF wf step] by (metis r_into_rtrancl rtrancl.rtrancl_refl)
  moreover have "pm_refunds p \<noteq> [] \<longrightarrow> pm_refunds q \<noteq> []"
  proof (cases ev)
    case (StartRefund i now)
    with step show ?thesis by (auto simp: res_simps start_refund_def put_refund_def split: if_splits)
  next
    case (CompleteRefund reference remark staff now)
    with step show ?thesis
      by (auto simp: res_simps complete_manual_refund_def Let_def put_refund_def split: if_splits option.splits)
  qed (use step in \<open>auto simp: res_simps cancel_if_pending_def split: if_splits\<close>)
  ultimately show ?thesis using payment_step_frame [OF step] by (simp add: payment_kept_def)
qed

lemma replace_keeps:
  assumes "payment_kept p q" and "pm_id q = pm_id p"
    and "\<And>x. x \<in> set (pd_payments d) \<Longrightarrow> pm_id x = pm_id p \<Longrightarrow> x = p"
  shows "payments_keep d (replace_payment q new d)"
  unfolding payments_keep_def
proof
  fix x assume x: "x \<in> set (pd_payments d)"
  let ?y = "if pm_id x = pm_id q then q else x"
  have "?y \<in> set (pd_payments (replace_payment q new d))" using x by (simp add: replace_payment_def)
  moreover have "payment_kept x ?y" using assms x by (cases "pm_id x = pm_id q") auto
  ultimately show "\<exists>q\<in>set (pd_payments (replace_payment q new d)). payment_kept x q" by blast
qed

lemma save_keeps:
  assumes wf: "wf_payments d" and p: "p \<in> set (pd_payments d)" and step: "payment_step p ev = Inr q"
    and save: "save_payment q d = Inr u"
  shows "payments_keep d u"
proof -
  have u: "u = replace_payment (payment_as_read (q\<lparr>pm_version := pm_version p + 1\<rparr>)) [] d"
    using save save_changed [OF wf p step] by simp
  have ids: "distinct (map pm_id (pd_payments d))" and row: "wf_payment p" using wf p by (simp_all add: wf_payments_def)
  show ?thesis unfolding u
  proof (rule replace_keeps [of p])
    show "payment_kept p (payment_as_read (q\<lparr>pm_version := pm_version p + 1\<rparr>))"
      using payment_step_kept [OF row step] by (simp add: payment_kept_def payment_as_read_def)
    show "x = p" if "x \<in> set (pd_payments d)" "pm_id x = pm_id p" for x by (rule same_key [OF ids that(1) p that(2)])
  qed (use payment_step_frame [OF step] in simp)
qed

lemma insert_keeps: "insert_payment p d = Inr u \<Longrightarrow> payments_keep d u"
  by (auto simp: insert_payment_def payments_keep_def split: if_splits intro: payment_kept_refl)

lemma publish_keeps [simp]: "payments_keep d (publish e u) = payments_keep d u"
  by (simp add: payments_keep_def publish_def)

lemma payments_step_keeps:
  assumes wf: "wf_payments d" and step: "payments_step d op = Inr u"
  shows "payments_keep d u"
proof (cases op)
  case (StartPayment fresh r provider now)
  with step show ?thesis
    by (auto simp: res_simps start_order_payment_def split: option.splits if_splits intro: insert_keeps)
next
  case (CapturePayment fresh r i now)
  with step obtain p q v where p: "(case find_payment_of (pr_order r) d of Some p \<Rightarrow> Inr p
        | None \<Rightarrow> new_payment_of fresh r MANUAL now) = Inr p"
      and q: "capture_manually i now p = Inr q"
        "(if find_payment_of (pr_order r) d = None then insert_payment q d else save_payment q d) = Inr v"
      and u: "u = publish (PaymentCapturedEvent (pm_id q) (pm_order q) (pm_amount q) now) v"
    by (auto simp: capture_order_payment_def Let_def res_simps)
  have ev: "payment_step p (CaptureByHand i now) = Inr q" using q(1) by simp
  have "payments_keep d v"
  proof (cases "find_payment_of (pr_order r) d")
    case None
    with q(2) show ?thesis by (simp add: insert_keeps)
  next
    case (Some x)
    with p find_payment_SomeD [OF Some] have "p \<in> set (pd_payments d)" by simp
    from save_keeps [OF wf this ev] q(2) Some show ?thesis by simp
  qed
  then show ?thesis by (simp add: u)
next
  case (StartOrderRefund fresh order now)
  with step obtain p started q where p: "find_payment_of order d = Some p" "start_refund fresh now p = Inr (started, q)"
      "(if started then save_payment q d else Inr d) = Inr u"
    by (auto simp: start_refund_of_def res_simps split: option.splits)
  have "payment_step p (StartRefund fresh now) = Inr q" using p(2) by simp
  with p find_payment_SomeD [OF p(1)] show ?thesis
    by (auto split: if_splits intro: save_keeps [OF wf, where ev = "StartRefund fresh now"])
next
  case (CancelOrderPayment order now)
  have ev: "payment_step p CancelPending = Inr (snd (cancel_if_pending p))" for p by simp
  show ?thesis
  proof (cases "find_payment_of order d")
    case None
    with step CancelOrderPayment show ?thesis by (simp add: cancel_pending_of_def)
  next
    case (Some p)
    with find_payment_SomeD [OF Some] step CancelOrderPayment show ?thesis
      by (auto simp: cancel_pending_of_def split: prod.splits if_splits intro: save_keeps [OF wf _ ev])
  qed
next
  case (RegisterRefund i reference remark version staff now)
  with step obtain p r q v where p: "lock_payment i d = Some p"
      and q: "complete_manual_refund reference remark staff now p = Inr (r, q)" "save_payment q d = Inr v"
      and u: "u = publish (RefundCompletedEvent (rf_id r) (pm_id q) (pm_order q) (rf_amount r) now) v"
    by (auto simp: register_manual_refund_def res_simps split: option.splits)
  have "payment_step p (CompleteRefund reference remark staff now) = Inr q" using q(1) by simp
  with save_keeps [OF wf _ this q(2)] lock_payment_SomeD [OF p] show ?thesis by (simp add: u)
next
  case (ConfigurePayments enabled version)
  with step show ?thesis by (auto simp: configure_payments_def res_simps payments_keep_def split: if_splits intro: payment_kept_refl)
qed

interpretation payments_evolution: evolution payments_step wf_payments asks_money payments_keep
  by unfold_locales (auto intro: payments_keep_trans payments_step_keeps)

text \<open>What the payment of an order says of it: collected, being refunded, refunded.\<close>

definition collected :: "id \<Rightarrow> money \<Rightarrow> payments_db \<Rightarrow> bool" where
  "collected order m d \<longleftrightarrow>
     (\<exists>p\<in>set (pd_payments d). pm_order p = order \<and> pm_amount p = m \<and> pm_status p \<in> {Captured, PaymentRefunded})"

definition being_refunded :: "id \<Rightarrow> payments_db \<Rightarrow> bool" where
  "being_refunded order d \<longleftrightarrow> (\<exists>p\<in>set (pd_payments d). pm_order p = order \<and> pm_refunds p \<noteq> [])"

definition refunded :: "id \<Rightarrow> payments_db \<Rightarrow> bool" where
  "refunded order d \<longleftrightarrow> (\<exists>p\<in>set (pd_payments d). pm_order p = order \<and> pm_status p = PaymentRefunded)"

lemma refunded_stays: "(PaymentRefunded, s) \<in> payment_moves\<^sup>* \<Longrightarrow> s = PaymentRefunded"
  by (erule converse_rtranclE) (auto simp: payment_moves_def)

lemma captured_stays: "(Captured, s) \<in> payment_moves\<^sup>* \<Longrightarrow> s \<in> {Captured, PaymentRefunded}"
  by (induction rule: rtrancl_induct) (auto simp: payment_moves_def)

lemma payments_keep_facts:
  assumes "payments_keep d u"
  shows "collected order m d \<Longrightarrow> collected order m u" and "being_refunded order d \<Longrightarrow> being_refunded order u"
    and "refunded order d \<Longrightarrow> refunded order u"
proof -
  have kept: "\<exists>q\<in>set (pd_payments u). payment_kept p q" if "p \<in> set (pd_payments d)" for p
    using assms that by (simp add: payments_keep_def)
  show "collected order m u" if c: "collected order m d"
  proof -
    from c obtain p where p: "p \<in> set (pd_payments d)" "pm_order p = order" "pm_amount p = m"
        "pm_status p \<in> {Captured, PaymentRefunded}" by (auto simp: collected_def)
    from kept [OF p(1)] obtain q where "q \<in> set (pd_payments u)" "payment_kept p q" by blast
    with p captured_stays [of "pm_status q"] refunded_stays [of "pm_status q"] show ?thesis
      by (auto simp: collected_def payment_kept_def intro!: bexI [of _ q])
  qed
  show "being_refunded order u" if c: "being_refunded order d"
    using c kept by (fastforce simp: being_refunded_def payment_kept_def)
  show "refunded order u" if c: "refunded order d"
  proof -
    from c obtain p where p: "p \<in> set (pd_payments d)" "pm_order p = order" "pm_status p = PaymentRefunded"
      by (auto simp: refunded_def)
    from kept [OF p(1)] obtain q where "q \<in> set (pd_payments u)" "payment_kept p q" by blast
    with p refunded_stays [of "pm_status q"] show ?thesis
      by (auto simp: refunded_def payment_kept_def intro!: bexI [of _ q])
  qed
qed

text \<open>What is published happened.\<close>

lemma captured_event:
  assumes wf: "wf_payments d" and e: "PaymentCapturedEvent i order m at \<in> set (pd_events d)"
  shows "collected order m d"
proof -
  have "\<forall>x\<in>set (pd_events d). event_agrees (pd_payments d) x" using wf by (simp add: wf_payments_def)
  from bspec [OF this e] obtain p where p: "p \<in> set (pd_payments d)" "pm_id p = i" "pm_order p = order" "pm_amount p = m" by auto
  have "is_capture_of (pm_id p) (PaymentCapturedEvent i order m at)" using p(2) by simp
  with e have "PaymentCapturedEvent i order m at \<in> set (filter (is_capture_of (pm_id p)) (pd_events d))" by simp
  then have "length (filter (is_capture_of (pm_id p)) (pd_events d)) \<noteq> 0" by (metis length_pos_if_in_set less_irrefl)
  with wf p show ?thesis by (auto simp: wf_payments_def events_count_def collected_def split: if_splits)
qed

lemma refund_event:
  assumes wf: "wf_payments d" and e: "RefundCompletedEvent r i order m at \<in> set (pd_events d)"
  shows "refunded order d"
proof -
  have "\<forall>x\<in>set (pd_events d). event_agrees (pd_payments d) x" using wf by (simp add: wf_payments_def)
  from bspec [OF this e] obtain p where p: "p \<in> set (pd_payments d)" "pm_id p = i" "pm_order p = order" "pm_amount p = m" by auto
  have "is_refund_of (pm_id p) (RefundCompletedEvent r i order m at)" using p(2) by simp
  with e have "RefundCompletedEvent r i order m at \<in> set (filter (is_refund_of (pm_id p)) (pd_events d))" by simp
  then have "length (filter (is_refund_of (pm_id p)) (pd_events d)) \<noteq> 0" by (metis length_pos_if_in_set less_irrefl)
  with wf p show ?thesis by (auto simp: wf_payments_def events_count_def refunded_def split: if_splits)
qed

text \<open>Starting the refund of an order leaves one started.\<close>

lemma start_refund_of_started:
  assumes wf: "wf_payments d" and step: "start_refund_of fresh order now d = Inr u"
  shows "being_refunded order u"
proof -
  from step obtain p started q where p: "find_payment_of order d = Some p" "start_refund fresh now p = Inr (started, q)"
      "(if started then save_payment q d else Inr d) = Inr u"
    by (auto simp: start_refund_of_def res_simps split: option.splits)
  note row = find_payment_SomeD [OF p(1)]
  show ?thesis
  proof (cases started)
    case True
    have ev: "payment_step p (StartRefund fresh now) = Inr q" using p(2) by simp
    have u: "u = replace_payment (payment_as_read (q\<lparr>pm_version := pm_version p + 1\<rparr>)) [] d"
      using p(3) True save_changed [OF wf _ ev] row by simp
    let ?q = "payment_as_read (q\<lparr>pm_version := pm_version p + 1\<rparr>)"
    have "?q \<in> set (pd_payments u)"
      using row payment_step_frame [OF ev] by (force simp: u replace_payment_def payment_as_read_def)
    moreover have "pm_order ?q = order" using row payment_step_frame [OF ev] by simp
    moreover have "pm_refunds ?q \<noteq> []"
      using p(2) True by (auto simp: start_refund_def put_refund_def payment_as_read_def split: if_splits)
    ultimately show ?thesis unfolding being_refunded_def by blast
  next
    case False
    with p row show ?thesis
      by (auto simp: start_refund_def active_refund_def being_refunded_def find_None_iff split: if_splits)
  qed
qed

end
