(* ===== verification/ShippingTrail.thy ===== *)
theory ShippingTrail
  imports Trails
begin

text \<open>
  What Shipping keeps through its operations: no shipment is lost, its status only moves forward, only Ordering
  creates and cancels shipments, and an event of a shipment says what happened to it.
\<close>

text \<open>The orders whose shipments an operation may create or cancel.\<close>

fun touches_only :: "id set \<Rightarrow> shipping_op \<Rightarrow> bool" where
  "touches_only T (CreateShipmentOf fresh i) = (hn_order i \<in> T)"
| "touches_only T (CancelShipmentOf order now) = (order \<in> T)"
| "touches_only T _ = True"

definition shipment_kept :: "shipment \<Rightarrow> shipment \<Rightarrow> bool" where
  "shipment_kept s t \<longleftrightarrow> h_order t = h_order s \<and> (h_status s, h_status t) \<in> shipment_moves\<^sup>*"

definition shipments_keep :: "id set \<Rightarrow> shipping_db \<Rightarrow> shipping_db \<Rightarrow> bool" where
  "shipments_keep T d u \<longleftrightarrow>
     (\<forall>s\<in>set (sd_shipments d). \<exists>t\<in>set (sd_shipments u). shipment_kept s t) \<and>
     (\<forall>t\<in>set (sd_shipments u). h_order t \<in> T \<or>
        (\<exists>s\<in>set (sd_shipments d). shipment_kept s t \<and> (h_status s = ShipmentCancelled \<longleftrightarrow> h_status t = ShipmentCancelled)))"

lemma shipment_kept_refl [simp]: "shipment_kept s s"
  by (simp add: shipment_kept_def)

lemma shipment_kept_trans: "shipment_kept s t \<Longrightarrow> shipment_kept t u \<Longrightarrow> shipment_kept s u"
  unfolding shipment_kept_def by (auto intro: rtrancl_trans)

lemma shipments_keep_same: "sd_shipments u = sd_shipments d \<Longrightarrow> shipments_keep T d u"
  unfolding shipments_keep_def by (auto intro: shipment_kept_refl)

lemma shipments_keep_trans:
  assumes "shipments_keep T d u" and "shipments_keep T u v"
  shows "shipments_keep T d v"
  unfolding shipments_keep_def
proof (intro conjI ballI)
  fix s assume "s \<in> set (sd_shipments d)"
  with assms(1) obtain t where t: "t \<in> set (sd_shipments u)" "shipment_kept s t"
    unfolding shipments_keep_def by blast
  with assms(2) obtain r where "r \<in> set (sd_shipments v)" "shipment_kept t r"
    unfolding shipments_keep_def by blast
  with t(2) show "\<exists>t\<in>set (sd_shipments v). shipment_kept s t" by (blast intro: shipment_kept_trans)
next
  fix t assume t: "t \<in> set (sd_shipments v)"
  show "h_order t \<in> T \<or> (\<exists>s\<in>set (sd_shipments d). shipment_kept s t \<and>
      (h_status s = ShipmentCancelled \<longleftrightarrow> h_status t = ShipmentCancelled))"
  proof (cases "h_order t \<in> T")
    case False
    with assms(2) t obtain s where s: "s \<in> set (sd_shipments u)" "shipment_kept s t"
        "h_status s = ShipmentCancelled \<longleftrightarrow> h_status t = ShipmentCancelled"
      unfolding shipments_keep_def by blast
    with False have "h_order s \<notin> T" by (simp add: shipment_kept_def)
    with assms(1) s(1) obtain r where "r \<in> set (sd_shipments d)" "shipment_kept r s"
        "h_status r = ShipmentCancelled \<longleftrightarrow> h_status s = ShipmentCancelled"
      unfolding shipments_keep_def by blast
    with s show ?thesis by (blast intro: shipment_kept_trans)
  qed simp
qed

lemma shipment_step_kept:
  assumes "shipment_step s ev = Inr t"
  shows "shipment_kept s t"
  using shipment_step_moves [OF assms] shipment_step_frame [OF assms]
  by (metis r_into_rtrancl rtrancl.rtrancl_refl shipment_kept_def)

lemma step_cancelled:
  assumes "shipment_step s ev = Inr t" and "\<And>now. ev \<noteq> CancelShipment now"
  shows "h_status s = ShipmentCancelled \<longleftrightarrow> h_status t = ShipmentCancelled"
  using assms by (cases ev) (auto simp: shipment_ops res_simps split: if_splits)

lemma save_shipment_keeps:
  assumes wf: "wf_shipping d" and s: "s \<in> set (sd_shipments d)" and step: "shipment_step s ev = Inr t"
    and save: "save_shipment t d = Inr u" and cancel: "(\<exists>now. ev = CancelShipment now) \<Longrightarrow> h_order s \<in> T"
  shows "shipments_keep T d u"
proof -
  let ?t = "t\<lparr>h_version := h_version s + 1\<rparr>"
  note rows = save_shipment_rows(1) [OF wf s step save]
  have kept: "shipment_kept s ?t" using shipment_step_kept [OF step] by (simp add: shipment_kept_def)
  show ?thesis unfolding shipments_keep_def
  proof (intro conjI ballI)
    fix x assume x: "x \<in> set (sd_shipments d)"
    then have "(\<lambda>x. if x = s then ?t else x) x \<in> set (sd_shipments u)"
      unfolding rows set_map by (rule imageI)
    moreover have "shipment_kept x ((\<lambda>x. if x = s then ?t else x) x)"
      using kept by (cases "x = s") simp_all
    ultimately show "\<exists>y\<in>set (sd_shipments u). shipment_kept x y" by blast
  next
    fix y assume "y \<in> set (sd_shipments u)"
    then obtain x where x: "x \<in> set (sd_shipments d)" "y = (if x = s then ?t else x)" by (auto simp: rows)
    show "h_order y \<in> T \<or> (\<exists>x\<in>set (sd_shipments d). shipment_kept x y \<and>
        (h_status x = ShipmentCancelled \<longleftrightarrow> h_status y = ShipmentCancelled))"
    proof (cases "x = s")
      case True
      show ?thesis
      proof (cases "\<exists>now. ev = CancelShipment now")
        case True
        with cancel shipment_step_frame [OF step] x \<open>x = s\<close> show ?thesis by simp
      next
        case False
        then have "h_status s = ShipmentCancelled \<longleftrightarrow> h_status ?t = ShipmentCancelled"
          using step_cancelled [OF step] by auto
        with kept s x(2) \<open>x = s\<close> show ?thesis by auto
      qed
    next
      case False
      with x have "shipment_kept x y" "h_status x = h_status y" by simp_all
      with x(1) show ?thesis by auto
    qed
  qed
qed

section \<open>What its events say\<close>

definition on_its_way :: "id \<Rightarrow> shipping_db \<Rightarrow> bool" where
  "on_its_way order d \<longleftrightarrow>
     (\<exists>s\<in>set (sd_shipments d). h_order s = order \<and> h_status s \<notin> {ShipmentPending, ShipmentCancelled})"

definition arrived :: "id \<Rightarrow> shipping_db \<Rightarrow> bool" where
  "arrived order d \<longleftrightarrow> (\<exists>s\<in>set (sd_shipments d). h_order s = order \<and> h_status s = ShipmentDelivered)"

definition has_shipment :: "id \<Rightarrow> shipping_db \<Rightarrow> bool" where
  "has_shipment order d \<longleftrightarrow> (\<exists>s\<in>set (sd_shipments d). h_order s = order)"

fun event_true :: "shipping_db \<Rightarrow> shipping_event \<Rightarrow> bool" where
  "event_true d (ShipmentDispatchedEvent i order carrier tracking own at) = on_its_way order d"
| "event_true d (ShipmentDeliveredEvent i order dispatched at) = arrived order d"
| "event_true d (ShipmentReturnedEvent i order at) = on_its_way order d"

lemma left_stays:
  "(s, t) \<in> shipment_moves\<^sup>* \<Longrightarrow> s \<notin> {ShipmentPending, ShipmentCancelled} \<Longrightarrow> t \<notin> {ShipmentPending, ShipmentCancelled}"
  by (induction rule: rtrancl_induct) (auto simp: shipment_moves_def)

lemma delivered_stays: "(ShipmentDelivered, t) \<in> shipment_moves\<^sup>* \<Longrightarrow> t = ShipmentDelivered"
  by (erule converse_rtranclE) (auto simp: shipment_moves_def)

lemma shipments_keep_facts:
  assumes "shipments_keep T d u"
  shows "on_its_way order d \<Longrightarrow> on_its_way order u" and "arrived order d \<Longrightarrow> arrived order u"
    and "has_shipment order d \<Longrightarrow> has_shipment order u"
proof -
  have kept: "\<exists>t\<in>set (sd_shipments u). shipment_kept s t" if "s \<in> set (sd_shipments d)" for s
    using assms that by (simp add: shipments_keep_def)
  show "on_its_way order u" if "on_its_way order d"
  proof -
    from that obtain s where s: "s \<in> set (sd_shipments d)" "h_order s = order"
        "h_status s \<notin> {ShipmentPending, ShipmentCancelled}" by (auto simp: on_its_way_def)
    from kept [OF s(1)] obtain t where t: "t \<in> set (sd_shipments u)" "shipment_kept s t" by blast
    with left_stays [OF _ s(3)] s(2) show ?thesis unfolding on_its_way_def shipment_kept_def by blast
  qed
  show "arrived order u" if "arrived order d"
  proof -
    from that obtain s where s: "s \<in> set (sd_shipments d)" "h_order s = order" "h_status s = ShipmentDelivered"
      by (auto simp: arrived_def)
    from kept [OF s(1)] obtain t where t: "t \<in> set (sd_shipments u)" "shipment_kept s t" by blast
    with delivered_stays s(2,3) show ?thesis unfolding arrived_def shipment_kept_def by metis
  qed
  show "has_shipment order u" if "has_shipment order d"
    using that kept unfolding has_shipment_def shipment_kept_def by metis
qed

lemma shipments_keep_event: "shipments_keep T d u \<Longrightarrow> event_true d e \<Longrightarrow> event_true u e"
  by (cases e) (auto dest: shipments_keep_facts)

definition shipping_told :: "shipping_db \<Rightarrow> bool" where
  "shipping_told d \<longleftrightarrow> wf_shipping d \<and> (\<forall>e\<in>set (sd_events d). event_true d e)"

text \<open>An operation that tells nothing, and one that tells what it did.\<close>

lemma told_silent:
  assumes "shipping_told d" and "shipments_keep T d u" and "wf_shipping u" and "sd_events u = sd_events d"
  shows "shipping_told u"
  using assms shipments_keep_event [OF assms(2)] by (simp add: shipping_told_def)

lemma update_of_keeps:
  assumes wf: "wf_shipping d" and step: "update_shipment_of change d order = Inr u"
    and change: "\<And>s. shipment_step s ev = Inr (change s)" and ev: "\<And>now. ev \<noteq> CancelShipment now"
  shows "shipments_keep T d u \<and> sd_events u = sd_events d"
proof (cases "shipment_of_order order d")
  case None
  with step show ?thesis by (simp add: update_shipment_of_def shipments_keep_same)
next
  case (Some s)
  with step have save: "save_shipment (change s) d = Inr u" by (simp add: update_shipment_of_def)
  have row: "s \<in> set (sd_shipments d)" using shipment_of_order_SomeD [OF Some] by simp
  show ?thesis
    using save_shipment_keeps [OF wf row change save] save_shipment_rows(2) [OF wf row change save] ev by blast
qed

lemma update_all_keeps:
  assumes "res_fold (update_shipment_of change) d orders = Inr u" and "wf_shipping d"
    and "\<And>s. shipment_step s ev = Inr (change s)" and "\<And>now. ev \<noteq> CancelShipment now"
  shows "wf_shipping u \<and> shipments_keep T d u \<and> sd_events u = sd_events d"
proof (rule res_fold_inv [OF assms(1)])
  show "wf_shipping d \<and> shipments_keep T d d \<and> sd_events d = sd_events d"
    using assms(2) by (simp add: shipments_keep_same)
next
  fix v i w assume "wf_shipping v \<and> shipments_keep T d v \<and> sd_events v = sd_events d"
    and step: "update_shipment_of change v i = Inr w"
  then have v: "wf_shipping v" "shipments_keep T d v" "sd_events v = sd_events d" by auto
  from update_of_keeps [OF v(1) step assms(3,4), of T] update_of_wf [OF v(1) step assms(3)] v
  show "wf_shipping w \<and> shipments_keep T d w \<and> sd_events w = sd_events d"
    by (auto intro: shipments_keep_trans)
qed

lemma create_of_keeps:
  assumes "create_shipment_of fresh i d = Inr u" and "hn_order i \<in> T"
  shows "shipments_keep T d u \<and> sd_events u = sd_events d"
proof -
  from assms(1) obtain s where s: "create_shipment fresh i = Inr s" and u: "u = snd (insert_shipment s d)"
    by (auto simp: create_shipment_of_def res_simps)
  have "h_order s = hn_order i" using create_shipment_wf [OF s] by simp
  with assms(2) show ?thesis
    by (auto simp: u insert_shipment_def shipments_keep_def intro: shipment_kept_refl)
qed

lemma cancel_of_keeps:
  assumes wf: "wf_shipping d" and step: "cancel_shipment_of order now d = Inr u" and "order \<in> T"
  shows "shipments_keep T d u \<and> sd_events u = sd_events d"
proof (cases "shipment_of_order order d")
  case None
  with step show ?thesis by (simp add: cancel_shipment_of_def shipments_keep_same)
next
  case (Some s)
  with step obtain t where t: "cancel_shipment now s = Inr t" "save_shipment t d = Inr u"
    by (auto simp: cancel_shipment_of_def res_simps)
  have row: "s \<in> set (sd_shipments d)" "h_order s = order" using shipment_of_order_SomeD [OF Some] by auto
  have ev: "shipment_step s (CancelShipment now) = Inr t" using t(1) by simp
  show ?thesis
    using save_shipment_keeps [OF wf row(1) ev t(2)] save_shipment_rows(2) [OF wf row(1) ev t(2)] row(2) assms(3)
    by simp
qed

lemma changed_keeps:
  assumes told: "shipping_told d" and step: "change_shipment i version move d = Inr u"
    and move: "\<And>s t e. move s = Inr (t, e) \<Longrightarrow> shipment_step s ev = Inr t" and ev: "\<And>now. ev \<noteq> CancelShipment now"
    and fact: "\<And>s t e x. move s = Inr (t, Some e) \<Longrightarrow> wf_shipment s \<Longrightarrow>
      (\<exists>r\<in>set (sd_shipments x). h_order r = h_order t \<and> h_status r = h_status t) \<Longrightarrow> event_true x e \<and> event_dated e"
  shows "shipping_told u \<and> shipments_keep T d u"
proof -
  have wf: "wf_shipping d" using told by (simp add: shipping_told_def)
  from step obtain s t e v where s: "find_shipment i d = Some s" "move s = Inr (t, e)" "save_shipment t d = Inr v"
      and u: "u = (case e of None \<Rightarrow> v | Some x \<Rightarrow> v\<lparr>sd_events := sd_events v @ [x]\<rparr>)"
    by (auto simp: change_shipment_def res_simps split: option.splits)
  from find_shipment_SomeD [OF s(1)] have row: "s \<in> set (sd_shipments d)" by simp
  note step = move [OF s(2)]
  note rows = save_shipment_rows [OF wf row step s(3)]
  have keep: "shipments_keep T d v" for T by (rule save_shipment_keeps [OF wf row step s(3)]) (use ev in blast)
  have v: "shipping_told v"
    by (rule told_silent [OF told keep]) (use save_shipment_wf [OF wf row step s(3)] in simp_all)
  have same: "sd_shipments u = sd_shipments v" by (simp add: u split: option.split)
  have keep_u: "shipments_keep T d u" using keep [of T] same by (simp add: shipments_keep_def)
  let ?t = "t\<lparr>h_version := h_version s + 1\<rparr>"
  have "?t \<in> set (sd_shipments v)" unfolding rows(1) using row by force
  then have there: "\<exists>r\<in>set (sd_shipments v). h_order r = h_order t \<and> h_status r = h_status t"
    by (rule bexI [rotated]) simp
  have "wf_shipment s" using wf row by (simp add: wf_shipping_def)
  have same_true: "event_true u x = event_true v x" for x
    by (cases x) (simp_all add: on_its_way_def arrived_def same)
  have "shipping_told u"
  proof (cases e)
    case None
    with v u show ?thesis by simp
  next
    case (Some x)
    have new: "event_true v x \<and> event_dated x"
      by (rule fact [OF _ \<open>wf_shipment s\<close> there]) (use s(2) Some in simp)
    have "sd_events u = sd_events v @ [x]" by (simp add: u Some)
    with v new same same_true show ?thesis by (auto simp: shipping_told_def wf_shipping_def)
  qed
  with keep_u show ?thesis by blast
qed

lemma tracking_keeps:
  assumes told: "shipping_told d" and step: "record_tracking_in i version tracking d = Inr u"
  shows "shipping_told u \<and> shipments_keep T d u"
proof -
  have wf: "wf_shipping d" using told by (simp add: shipping_told_def)
  from step obtain s changed t where s: "find_shipment i d = Some s"
      "(case tracking of None \<Rightarrow> remove_tracking s | Some (c, n) \<Rightarrow> record_tracking c n s) = Inr (changed, t)"
      "(if \<not> changed then Inr d else save_shipment t d) = Inr u"
    by (auto simp: record_tracking_in_def res_simps split: option.splits)
  define ev where "ev = (case tracking of None \<Rightarrow> RemoveTracking | Some (c, n) \<Rightarrow> RecordTracking c n)"
  have ev: "shipment_step s ev = Inr t" "\<And>now. ev \<noteq> CancelShipment now"
    using s(2) by (auto simp: ev_def split: option.splits)
  show ?thesis
  proof (cases changed)
    case True
    with s(3) have save: "save_shipment t d = Inr u" by simp
    from find_shipment_SomeD [OF s(1)] have row: "s \<in> set (sd_shipments d)" by simp
    have keep: "shipments_keep T d u" for T
      by (rule save_shipment_keeps [OF wf row ev(1) save]) (use ev(2) in blast)
    have "shipping_told u"
      by (rule told_silent [OF told keep]) (use save_shipment_wf [OF wf row ev(1) save] in simp_all)
    with keep show ?thesis by blast
  next
    case False
    with s(3) told show ?thesis by (simp add: shipments_keep_same)
  qed
qed

lemma configure_keeps: "configure_method i version d = Inr u \<Longrightarrow> shipments_keep T d u \<and> sd_events u = sd_events d"
  by (auto simp: configure_method_def res_simps shipments_keep_same split: option.splits if_splits)

lemma shipping_step_keeps:
  assumes told: "shipping_told d" and op: "touches_only T op" and step: "shipping_step d op = Inr u"
  shows "shipping_told u \<and> shipments_keep T d u"
proof -
  have wf: "wf_shipping d" using told by (simp add: shipping_told_def)
  have silent: "shipping_told u \<and> shipments_keep T d u" if "shipments_keep T d u \<and> sd_events u = sd_events d"
    using that told_silent [OF told _ shipping_step_wf [OF wf step]] by blast
  show ?thesis
  proof (cases op)
    case (CreateShipmentOf fresh i)
    with step op show ?thesis by (intro silent create_of_keeps) auto
  next
    case (CancelShipmentOf order now)
    with step op show ?thesis by (intro silent cancel_of_keeps [OF wf]) auto
  next
    case (AnonymizeShipmentsOf orders at)
    with step update_all_keeps [OF _ wf, of "anonymize_shipment at" orders u "AnonymizeShipment at" T]
    show ?thesis by (intro silent) (auto simp: anonymize_shipments_of_def)
  next
    case (BlockShipmentsOf orders at)
    with step update_all_keeps [OF _ wf, of "block_shipment at" orders u "BlockShipment at" T]
    show ?thesis by (intro silent) (auto simp: block_shipments_of_def)
  next
    case (DispatchShipment i version own now)
    with step have "dispatch_in i version own now d = Inr u" by simp
    then show ?thesis unfolding dispatch_in_def
      by (rule changed_keeps [OF told, where ev = "Dispatch own now"])
        (auto simp: res_simps on_its_way_def dispatch_def assert_shipment_status_def split: if_splits)
  next
    case (DeliverShipment i version now)
    with step have "deliver_in i version now d = Inr u" by simp
    then show ?thesis unfolding deliver_in_def
      by (rule changed_keeps [OF told, where ev = "Deliver now"])
        (auto simp: res_simps arrived_def deliver_def assert_shipment_status_def wf_shipment_def split: if_splits)
  next
    case (FailShipment i version remark now)
    with step have "fail_delivery_in i version remark now d = Inr u" by simp
    then show ?thesis unfolding fail_delivery_in_def
      by (rule changed_keeps [OF told, where ev = "FailDelivery remark now"]) (auto simp: res_simps)
  next
    case (ReturnShipment i version remark now)
    with step have "mark_returned_in i version remark now d = Inr u" by simp
    then show ?thesis unfolding mark_returned_in_def
      by (rule changed_keeps [OF told, where ev = "MarkReturned remark now"])
        (auto simp: res_simps on_its_way_def mark_returned_def assert_shipment_status_def split: if_splits)
  next
    case (TrackShipment i version tracking)
    with step have "record_tracking_in i version tracking d = Inr u" by simp
    then show ?thesis by (rule tracking_keeps [OF told])
  next
    case (ConfigureMethod i version)
    with step show ?thesis by (intro silent) (auto dest: configure_keeps)
  qed
qed

interpretation shipping_evolution:
  evolution shipping_step shipping_told "touches_only T" "shipments_keep T" for T
  by unfold_locales (auto intro: shipments_keep_same shipments_keep_trans dest: shipping_step_keeps)

text \<open>After a cancellation an order has no shipment left but cancelled ones; after a creation it has one.\<close>

lemma cancel_of_cancels:
  assumes wf: "wf_shipping d" and step: "cancel_shipment_of order now d = Inr u"
    and t: "t \<in> set (sd_shipments u)" "h_order t = order"
  shows "h_status t = ShipmentCancelled"
proof (cases "shipment_of_order order d")
  case None
  with step have "u = d" by (simp add: cancel_shipment_of_def)
  with None t show ?thesis by (auto simp: shipment_of_order_def find_None_iff)
next
  case (Some s)
  with step obtain x where x: "cancel_shipment now s = Inr x" "save_shipment x d = Inr u"
    by (auto simp: cancel_shipment_of_def res_simps)
  have row: "s \<in> set (sd_shipments d)" "h_order s = order" using shipment_of_order_SomeD [OF Some] by auto
  have ev: "shipment_step s (CancelShipment now) = Inr x" using x(1) by simp
  have orders: "distinct (map h_order (sd_shipments d))" using wf by (simp add: wf_shipping_def)
  have "h_status x = ShipmentCancelled" using x(1) by (auto simp: cancel_shipment_def res_simps)
  with t(1) save_shipment_rows(1) [OF wf row(1) ev x(2)]
  consider "h_status t = ShipmentCancelled" | "t \<in> set (sd_shipments d)" "t \<noteq> s" by (auto split: if_splits)
  then show ?thesis
  proof cases
    case 2
    have "t = s" by (rule same_key [OF orders 2(1) row(1)]) (use t(2) row(2) in simp)
    with 2 show ?thesis by simp
  qed
qed

lemma create_of_creates:
  assumes wf: "wf_shipping d" and step: "create_shipment_of fresh i d = Inr u" and none: "\<not> has_shipment (hn_order i) d"
    and free: "find_shipment fresh d = None"
  shows "has_shipment (hn_order i) u"
    and "t \<in> set (sd_shipments u) \<Longrightarrow> h_order t = hn_order i \<Longrightarrow> h_status t = ShipmentPending"
proof -
  from step obtain s where s: "create_shipment fresh i = Inr s" and u: "u = snd (insert_shipment s d)"
    by (auto simp: create_shipment_of_def res_simps)
  note new = create_shipment_wf [OF s]
  have "shipment_of_order (h_order s) d = None"
    using none new by (auto simp: has_shipment_def shipment_of_order_def find_None_iff)
  with new free have rows: "sd_shipments u = sd_shipments d @ [s]" by (simp add: u insert_shipment_def)
  with new show "has_shipment (hn_order i) u" by (simp add: has_shipment_def)
  show "h_status t = ShipmentPending" if "t \<in> set (sd_shipments u)" "h_order t = hn_order i"
    using that rows new none by (auto simp: has_shipment_def)
qed

end
