(* ===== verification/Modules.thy ===== *)
theory Modules
  imports Trails ShippingTrail
begin

text \<open>
  What a call of Ordering to another module does to the tables of the store: it changes those of that module by one
  of its operations, so the facts of the trails go on holding, and it leaves the orders alone.
\<close>

definition modules_ok :: "store \<Rightarrow> bool" where
  "modules_ok g \<longleftrightarrow> wf_inventory (st_stock g) \<and> wf_payments (st_payments g) \<and> shipping_told (st_shipping g)"

text \<open>
  The modules moved on by their operations, creating and cancelling shipments only of the orders in T; a call leaves
  the promotions alone too.
\<close>

definition moved_on :: "id set \<Rightarrow> store \<Rightarrow> store \<Rightarrow> bool" where
  "moved_on T g g' \<longleftrightarrow>
     st_orders g' = st_orders g \<and> modules_ok g' \<and>
     commits_stay (st_stock g) (st_stock g') \<and> payments_keep (st_payments g) (st_payments g') \<and>
     shipments_keep T (st_shipping g) (st_shipping g')"

definition call :: "id set \<Rightarrow> store \<Rightarrow> store \<Rightarrow> bool" where
  "call T g g' \<longleftrightarrow> moved_on T g g' \<and> st_promotions g' = st_promotions g"

lemma moved_on_ok: "moved_on T g g' \<Longrightarrow> modules_ok g'"
  by (simp add: moved_on_def)

lemma call_ok: "call T g g' \<Longrightarrow> modules_ok g'"
  by (simp add: call_def moved_on_def)

lemma call_moved: "call T g g' \<Longrightarrow> moved_on T g g'"
  by (simp add: call_def)

lemma call_refl: "modules_ok g \<Longrightarrow> call T g g"
  by (simp add: call_def moved_on_def shipments_keep_same)

lemma moved_on_trans: "moved_on T g g' \<Longrightarrow> moved_on T g' g'' \<Longrightarrow> moved_on T g g''"
  unfolding moved_on_def by (auto intro: commits_stay_trans payments_keep_trans shipments_keep_trans)

lemma call_trans: "call T g g' \<Longrightarrow> call T g' g'' \<Longrightarrow> call T g g''"
  unfolding call_def by (auto intro: moved_on_trans)

lemma moved_on_promotions [simp]:
  "moved_on T g (release_coupon t g') = moved_on T g g'" "moved_on T g (recount_coupon t g') = moved_on T g g'"
  by (simp_all add: moved_on_def modules_ok_def release_coupon_def recount_coupon_def split: option.split)

lemma modules_ok_promotions [simp]:
  "modules_ok (release_coupon t g) = modules_ok g" "modules_ok (recount_coupon t g) = modules_ok g"
  by (simp_all add: modules_ok_def release_coupon_def recount_coupon_def split: option.split)

lemma call_stock:
  assumes "modules_ok g" and "inventory_step ex (st_stock g) ev = Inr x"
  shows "call T g (g\<lparr>st_stock := x\<rparr>)"
  using assms stock_evolution.evolves [of "st_stock g" ex ev x]
  by (simp add: call_def moved_on_def modules_ok_def shipments_keep_same)

lemma call_payments:
  assumes "modules_ok g" and "asks_money op" and "payments_step (st_payments g) op = Inr x"
  shows "call T g (g\<lparr>st_payments := x\<rparr>)"
  using assms payments_evolution.evolves [of "st_payments g" op x]
  by (simp add: call_def moved_on_def modules_ok_def shipments_keep_same)

lemma call_shipping:
  assumes "modules_ok g" and "touches_only T op" and "shipping_step (st_shipping g) op = Inr x"
  shows "call T g (g\<lparr>st_shipping := x\<rparr>)"
  using assms shipping_evolution.evolves [of "st_shipping g" T op x]
  by (simp add: call_def moved_on_def modules_ok_def)

section \<open>The calls of Ordering\<close>

lemma reserve_call:
  assumes ok: "modules_ok g" and step: "reserve_order order requests w ttl now (st_stock g) = Inr (receipt, x)"
  shows "call T g (g\<lparr>st_stock := x\<rparr>) \<and> has_active order x"
proof -
  obtain merged where merged: "merged_requests requests = Inr merged" "merged \<noteq> []"
    using step by (auto simp: reserve_order_def res_simps split: if_splits)
  let ?seen = "active_stock (map rq_variant merged) (st_stock g)"
  have "inventory_step (\<lambda>v. True) (st_stock g) (Reserve ?seen ?seen order requests w ttl now) = Inr x"
    using step merged by (simp add: reserve_order_def Let_def)
  from call_stock [OF ok this] reserve_order_active [OF step] show ?thesis by simp
qed

lemma commit_call:
  assumes ok: "modules_ok g" and step: "commit_stock order now g = Inr (outcome, g')"
  shows "call T g g' \<and> st_shipping g' = st_shipping g
    \<and> (outcome \<noteq> NotActive \<or> has_active order (st_stock g) \<longrightarrow> is_committed order (st_stock g'))"
proof -
  from step obtain x where x: "commit_reservation order now (st_stock g) = Inr (outcome, x)" "g' = g\<lparr>st_stock := x\<rparr>"
    by (auto simp: commit_stock_def res_simps)
  have "inventory_step (\<lambda>v. True) (st_stock g) (CommitOrder order now) = Inr x" using x(1) by simp
  from call_stock [OF ok this] x commit_reservation_commits(2) [OF x(1)] commit_active [OF x(1)] show ?thesis by auto
qed

lemma free_call:
  assumes ok: "modules_ok g" and step: "free_stock order status now g = Inr g'"
    and status: "status = ReservationReleased \<or> status = ReservationExpired"
  shows "call T g g' \<and> st_shipping g' = st_shipping g"
proof -
  from step obtain freed x where x: "free_reservation order status now (st_stock g) = Inr (freed, x)" "g' = g\<lparr>st_stock := x\<rparr>"
    by (auto simp: free_stock_def res_simps)
  define ev where "ev = (if status = ReservationReleased then ReleaseOrder order now else ExpireOrder order now)"
  have "inventory_step (\<lambda>v. True) (st_stock g) ev = Inr x" using x(1) status by (auto simp: ev_def)
  from call_stock [OF ok this] x show ?thesis by simp
qed

lemma reserve_if_available_call:
  assumes ok: "modules_ok g" and step: "reserve_if_available P s now g = Inr (receipt, g')"
  shows "call T g g' \<and> st_shipping g' = st_shipping g \<and> (receipt \<noteq> None \<longrightarrow> has_active (o_id s) (st_stock g'))"
proof (cases "reserve_order (o_id s) (stock_lines s) (o_warehouse s) (po_reservation_ttl P) now (st_stock g)")
  case (Inl e)
  with step call_refl [OF ok] show ?thesis by (auto simp: reserve_if_available_def split: if_splits)
next
  case (Inr r)
  obtain rc x where r: "r = (rc, x)" by (cases r)
  with step Inr have "receipt = Some rc" "g' = g\<lparr>st_stock := x\<rparr>" by (auto simp: reserve_if_available_def)
  with reserve_call [OF ok Inr [unfolded r]] show ?thesis by auto
qed

lemma restock_call:
  assumes ok: "modules_ok g" and step: "restock_stock order reason remark actor lines w now g = Inr (ms, g')"
  shows "call T g g' \<and> st_shipping g' = st_shipping g"
proof -
  let ?i = "\<lparr>rs_in_order = order, rs_in_reason = movement_reason_of reason, rs_in_note = remark, rs_in_actor = actor,
          rs_in_lines = map (\<lambda>l. \<lparr>rl_in_line = rl_order_line l, rl_in_variant = rl_variant l,
             rl_in_sold = rl_sold l, rl_in_quantity = Whole (rl_quantity l)\<rparr>) lines,
          rs_in_warehouse = w\<rparr>"
  from step obtain x where x: "restock_order ?i now (st_stock g) = Inr (ms, x)" "g' = g\<lparr>st_stock := x\<rparr>"
    by (auto simp: restock_stock_def res_simps)
  have "inventory_step (\<lambda>v. True) (st_stock g) (Restock ?i now) = Inr x" using x(1) by simp
  from call_stock [OF ok this] x show ?thesis by simp
qed

lemma start_refund_call:
  assumes ok: "modules_ok g" and step: "start_refund_for fresh order now g = Inr g'"
  shows "call T g g' \<and> st_shipping g' = st_shipping g \<and> being_refunded order (st_payments g')"
proof -
  from step obtain x where x: "start_refund_of fresh order now (st_payments g) = Inr x" "g' = g\<lparr>st_payments := x\<rparr>"
    by (auto simp: start_refund_for_def res_simps)
  have "payments_step (st_payments g) (StartOrderRefund fresh order now) = Inr x" using x(1) by simp
  from call_payments [OF ok _ this] x start_refund_of_started [OF _ x(1)] ok show ?thesis by (simp add: modules_ok_def)
qed

lemma cancel_pending_call:
  assumes ok: "modules_ok g" and step: "cancel_pending_for order now g = Inr g'"
  shows "call T g g' \<and> st_shipping g' = st_shipping g"
proof -
  from step obtain x where x: "cancel_pending_of order now (st_payments g) = Inr x" "g' = g\<lparr>st_payments := x\<rparr>"
    by (auto simp: cancel_pending_for_def res_simps)
  have "payments_step (st_payments g) (CancelOrderPayment order now) = Inr x" using x(1) by simp
  from call_payments [OF ok _ this] x show ?thesis by simp
qed

lemma create_call:
  assumes ok: "modules_ok g" and step: "create_for fresh s g = Inr g'"
    and none: "\<not> has_shipment (o_id s) (st_shipping g)" and free: "find_shipment fresh (st_shipping g) = None"
  shows "call {o_id s} g g' \<and> has_shipment (o_id s) (st_shipping g')
    \<and> (\<forall>h\<in>set (sd_shipments (st_shipping g')). h_order h = o_id s \<longrightarrow> h_status h = ShipmentPending)"
proof -
  from step obtain a where one: "allocation_of (o_id s) (st_stock g) = [a]"
    by (auto simp: create_for_def split: list.splits)
  from step obtain address where address: "delivery_address s = Inr address"
    unfolding create_for_def one by (auto simp: res_simps)
  define i where "i = \<lparr>hn_order = o_id s, hn_code = o_public_code s, hn_warehouse = al_warehouse a,
    hn_destination = address, hn_items = map (\<lambda>l. \<lparr>hi_line = ol_id l, hi_sku = li_sku l, hi_product = li_product_name l,
      hi_quantity = Whole (li_quantity l)\<rparr>) (o_lines s)\<rparr>"
  obtain x where x: "create_shipment_of fresh i (st_shipping g) = Inr x" "g' = g\<lparr>st_shipping := x\<rparr>"
    using step unfolding create_for_def one i_def by (auto simp: address res_simps)
  have i: "hn_order i = o_id s" by (simp add: i_def)
  have "shipping_step (st_shipping g) (CreateShipmentOf fresh i) = Inr x" using x(1) by simp
  from call_shipping [OF ok _ this, of "{o_id s}"] i x create_of_creates [OF _ x(1)] none free ok show ?thesis
    by (simp add: modules_ok_def shipping_told_def)
qed

lemma cancel_shipment_call:
  assumes ok: "modules_ok g" and step: "cancel_shipment_for order now g = Inr g'"
  shows "call {order} g g' \<and>
    (\<forall>h\<in>set (sd_shipments (st_shipping g')). h_order h = order \<longrightarrow> h_status h = ShipmentCancelled)"
proof -
  from step obtain x where x: "cancel_shipment_of order now (st_shipping g) = Inr x" "g' = g\<lparr>st_shipping := x\<rparr>"
    by (auto simp: cancel_shipment_for_def res_simps)
  have "shipping_step (st_shipping g) (CancelShipmentOf order now) = Inr x" using x(1) by simp
  from call_shipping [OF ok _ this, of "{order}"] x cancel_of_cancels [OF _ x(1)] ok show ?thesis
    by (simp add: modules_ok_def shipping_told_def)
qed

lemma hide_call:
  assumes ok: "modules_ok g" and "hide = AnonymizeShipmentsOf orders at \<or> hide = BlockShipmentsOf orders at"
    and "shipping_step (st_shipping g) hide = Inr x"
  shows "call {} g (g\<lparr>st_shipping := x\<rparr>)"
  using assms by (intro call_shipping) auto

end
