(* ===== verification/CouponTrail.thy ===== *)
theory CouponTrail
  imports Store
begin

text \<open>
  The uses of a coupon against the orders that hold one: what each operation of Promotions does to the count, what
  the staff leaves alone, and how the count follows the orders placed and changed.
\<close>

section \<open>The count of a promotion\<close>

definition uses_of :: "id \<Rightarrow> promotions_db \<Rightarrow> int option" where
  "uses_of i d = map_option promo_uses (find_promotion_row i d)"

lemma uses_of_map:
  "uses_of i (d\<lparr>pp_promotions := map (\<lambda>p. p\<lparr>promo_uses := g p\<rparr>) (pp_promotions d)\<rparr>)
     = map_option g (find_promotion_row i d)"
proof -
  have "find (\<lambda>p. promo_id p = i) (map (\<lambda>p. p\<lparr>promo_uses := g p\<rparr>) ps)
      = map_option (\<lambda>p. p\<lparr>promo_uses := g p\<rparr>) (find (\<lambda>p. promo_id p = i) ps)" for ps
    by (induction ps) simp_all
  then show ?thesis by (simp add: uses_of_def find_promotion_row_def option.map_comp comp_def)
qed

lemma find_row_id: "find_promotion_row i d = Some p \<Longrightarrow> promo_id p = i"
  using find_promotion_SomeD by blast

lemma redeem_uses:
  assumes wf: "wf_promotions d" and step: "redeem j d = (True, u)"
  shows "\<exists>n. uses_of j d = Some n \<and> uses_of j u = Some (n + 1)" and "i \<noteq> j \<Longrightarrow> uses_of i u = uses_of i d"
proof -
  have u: "u = snd (add_use j False d)" and counted: "fst (add_use j False d)"
    using step by (simp_all add: redeem_def)
  from counted obtain p where p: "p \<in> set (pp_promotions d)" "promo_id p = j" "has_uses_left p"
    by (auto simp: add_use_def list_ex_iff)
  have ids: "distinct (map promo_id (pp_promotions d))" using wf by (simp add: wf_promotions_def)
  have "find_promotion_row j d = Some p" using find_key [OF ids p(1)] p(2) by (simp add: find_promotion_row_def)
  with p show "\<exists>n. uses_of j d = Some n \<and> uses_of j u = Some (n + 1)"
    by (simp add: u add_use_eq uses_of_map) (simp add: uses_of_def)
  show "uses_of i u = uses_of i d" if "i \<noteq> j"
    using that unfolding u add_use_eq uses_of_map unfolding uses_of_def
    by (cases "find_promotion_row i d") (auto dest: find_row_id)
qed

lemma recount_uses: "uses_of i (recount j d) = map_option (\<lambda>n. if i = j then n + 1 else n) (uses_of i d)"
  unfolding recount_def add_use_eq uses_of_map unfolding uses_of_def
  by (cases "find_promotion_row i d") (auto dest: find_row_id)

lemma release_uses:
  "uses_of i (release_use j d) = map_option (\<lambda>n. if i = j \<and> n > 0 then n - 1 else n) (uses_of i d)"
  unfolding release_use_def remove_use_eq uses_of_map unfolding uses_of_def
  by (cases "find_promotion_row i d") (auto dest: find_row_id)

section \<open>What the staff does\<close>

fun staff_promotions :: "promotions_op \<Rightarrow> bool" where
  "staff_promotions (CreatePromotion fresh terms starts_at staff now) = True"
| "staff_promotions (UpdatePromotion i changes version now seen) = True"
| "staff_promotions (EndPromotionOf i staff version now) = True"
| "staff_promotions _ = False"

definition uses_kept :: "promotions_db \<Rightarrow> promotions_db \<Rightarrow> bool" where
  "uses_kept d u \<longleftrightarrow> (\<forall>i. uses_of i u = uses_of i d \<or> uses_of i d = None \<and> uses_of i u = Some 0)"

lemma replace_uses:
  assumes "p \<in> set (pp_promotions d)" and "distinct (map promo_id (pp_promotions d))"
    and "promo_id q = promo_id p" and "promo_uses q = promo_uses p"
  shows "uses_of i (replace_promotion q d) = uses_of i d"
proof -
  have "find (\<lambda>x. promo_id x = i) (map (\<lambda>x. if promo_id x = promo_id q then q else x) ps)
      = map_option (\<lambda>x. if promo_id x = promo_id q then q else x) (find (\<lambda>x. promo_id x = i) ps)" for ps
    by (induction ps) simp_all
  then have "uses_of i (replace_promotion q d)
      = map_option (\<lambda>x. promo_uses (if promo_id x = promo_id q then q else x)) (find_promotion_row i d)"
    by (simp add: uses_of_def replace_promotion_def find_promotion_row_def option.map_comp comp_def)
  moreover have "promo_uses x = promo_uses p" if "find_promotion_row i d = Some x" "promo_id x = promo_id q" for x
  proof -
    from find_promotion_SomeD [OF that(1)] have "x \<in> set (pp_promotions d)" by simp
    then have "x = p" by (rule same_key [OF assms(2) _ assms(1)]) (use that(2) assms(3) in simp)
    then show ?thesis by simp
  qed
  ultimately show ?thesis using assms(4) by (cases "find_promotion_row i d") (auto simp: uses_of_def)
qed

lemma staff_keeps_uses:
  assumes wf: "wf_promotions d" and staff: "staff_promotions op" and step: "promotions_step catalog d op = Inr u"
  shows "uses_kept d u"
proof (cases op)
  case (CreatePromotion fresh terms starts_at staff now)
  with step obtain p where p: "create_promotion fresh terms starts_at staff now = Inr p" "insert_promotion p d = Inr u"
    by (auto simp: create_promotion_in_def res_simps)
  have zero: "promo_uses p = 0" using p(1) by (auto simp: create_promotion_def Let_def res_simps promotion_terms.defs)
  have new: "find_promotion_row (promo_id p) d = None" and u: "u = d\<lparr>pp_promotions := pp_promotions d @ [promotion_as_read p]\<rparr>"
    using p(2) by (auto simp: insert_promotion_def split: if_splits)
  have "find (\<lambda>x. promo_id x = i) (ps @ [promotion_as_read p])
      = (case find (\<lambda>x. promo_id x = i) ps of Some x \<Rightarrow> Some x
         | None \<Rightarrow> if promo_id p = i then Some (promotion_as_read p) else None)" for i ps
    by (induction ps) simp_all
  then have "uses_of i u = (case find_promotion_row i d of Some x \<Rightarrow> Some (promo_uses x)
      | None \<Rightarrow> if promo_id p = i then Some 0 else None)" for i
    by (simp add: uses_of_def u find_promotion_row_def zero split: option.split)
  then show ?thesis by (auto simp: uses_kept_def uses_of_def split: option.split)
next
  case (UpdatePromotion i ch version now seen)
  with step have "update_promotion_in catalog i ch version now (with_uses_seen i seen d) d = Inr u" by simp
  from update_in_saved [OF wf this] show ?thesis
  proof (elim disjE exE conjE)
    assume "u = d"
    then show ?thesis by (simp add: uses_kept_def)
  next
    fix p q assume row: "p \<in> set (pp_promotions d)" and u: "u = replace_promotion q d"
      and q: "promo_id q = promo_id p" "promo_uses q = promo_uses p"
    show ?thesis unfolding uses_kept_def u using replace_uses [OF row _ q] wf by (simp add: wf_promotions_def)
  qed
next
  case (EndPromotionOf i staff version now)
  with step have "end_promotion_in i staff version now d = Inr u" by simp
  from end_in_saved [OF wf this] obtain p q where row: "p \<in> set (pp_promotions d)" and u: "u = replace_promotion q d"
    and q: "promo_id q = promo_id p" "promo_uses q = promo_uses p" by blast
  show ?thesis unfolding uses_kept_def u using replace_uses [OF row _ q] wf by (simp add: wf_promotions_def)
qed (use staff in simp_all)

section \<open>The orders that hold a use\<close>

definition holds_use :: "id \<Rightarrow> order \<Rightarrow> bool" where
  "holds_use i s \<longleftrightarrow> order_coupon s = Some i \<and> o_status s \<notin> {EXPIRED, CANCELLED, REFUNDED}"

definition uses_held :: "id \<Rightarrow> order list \<Rightarrow> nat" where
  "uses_held i os = length (filter (holds_use i) os)"

definition coupons_agree :: "order list \<Rightarrow> promotions_db \<Rightarrow> bool" where
  "coupons_agree os d \<longleftrightarrow>
     (\<forall>i. uses_of i d = Some (int (uses_held i os)) \<or> uses_of i d = None \<and> (\<forall>s\<in>set os. order_coupon s \<noteq> Some i))"

lemma coupons_agree_staff: "coupons_agree os d \<Longrightarrow> uses_kept d u \<Longrightarrow> coupons_agree os u"
  unfolding coupons_agree_def uses_kept_def uses_held_def
  by (auto simp: filter_empty_conv holds_use_def)
    (metis (mono_tags, lifting) filter_False holds_use_def list.size(3) of_nat_0 option.distinct(1))+

text \<open>The number of uses held after an order of the table becomes another.\<close>

lemma uses_held_replace:
  assumes "distinct (map o_id os)" and "s \<in> set os" and "o_id t = o_id s"
  shows "int (uses_held i (map (\<lambda>x. if o_id x = o_id t then t else x) os))
    = int (uses_held i os) - (if holds_use i s then 1 else 0) + (if holds_use i t then 1 else 0)"
  using assms(1,2)
proof (induction os)
  case Nil
  then show ?case by simp
next
  case (Cons x os)
  show ?case
  proof (cases "x = s")
    case True
    have "o_id y \<noteq> o_id s" if "y \<in> set os" for y using Cons.prems(1) True that by (metis distinct.simps(2) image_eqI list.set_map list.simps(9))
    then have "map (\<lambda>x. if o_id x = o_id t then t else x) os = os" using assms(3) by (intro map_idI) auto
    with True assms(3) show ?thesis by (simp add: uses_held_def)
  next
    case False
    with Cons.prems have s: "s \<in> set os" "distinct (map o_id os)" by auto
    have "o_id x \<noteq> o_id s" using Cons.prems(1) s(1) by (metis distinct.simps(2) image_eqI list.set_map list.simps(9))
    with Cons.IH [OF s(2,1)] assms(3) show ?thesis by (auto simp: uses_held_def)
  qed
qed

lemma uses_held_positive: "s \<in> set os \<Longrightarrow> holds_use i s \<Longrightarrow> 0 < uses_held i os"
  by (auto simp: uses_held_def filter_empty_conv)

lemma coupons_replace:
  assumes agree: "coupons_agree os d" and ids: "distinct (map o_id os)" and s: "s \<in> set os"
    and t: "o_id t = o_id s" "order_coupon t = order_coupon s"
    and uses: "\<And>i. uses_of i u =
      map_option (\<lambda>n. n - (if holds_use i s then 1 else 0) + (if holds_use i t then 1 else 0)) (uses_of i d)"
  shows "coupons_agree (map (\<lambda>x. if o_id x = o_id t then t else x) os) u"
  unfolding coupons_agree_def
proof
  fix i
  let ?os = "map (\<lambda>x. if o_id x = o_id t then t else x) os"
  have "uses_of i d = Some (int (uses_held i os)) \<or> uses_of i d = None \<and> (\<forall>s\<in>set os. order_coupon s \<noteq> Some i)"
    using agree unfolding coupons_agree_def by (rule spec)
  then show "uses_of i u = Some (int (uses_held i ?os)) \<or> uses_of i u = None \<and> (\<forall>s\<in>set ?os. order_coupon s \<noteq> Some i)"
  proof (elim disjE conjE)
    assume "uses_of i d = Some (int (uses_held i os))"
    then show ?thesis using uses_held_replace [OF ids s t(1), of i] by (simp add: uses)
  next
    assume "uses_of i d = None" and none: "\<forall>s\<in>set os. order_coupon s \<noteq> Some i"
    then show ?thesis using s t(2) by (auto simp: uses)
  qed
qed

lemma coupons_same:
  assumes "coupons_agree os d" and "distinct (map o_id os)" and "s \<in> set os"
    and "o_id t = o_id s" "order_coupon t = order_coupon s"
    and "o_status s \<in> {EXPIRED, CANCELLED, REFUNDED} \<longleftrightarrow> o_status t \<in> {EXPIRED, CANCELLED, REFUNDED}"
  shows "coupons_agree (map (\<lambda>x. if o_id x = o_id t then t else x) os) d"
proof (rule coupons_replace [OF assms(1-5)])
  have "holds_use i t = holds_use i s" for i using assms(5,6) by (simp add: holds_use_def)
  then show "uses_of i d =
      map_option (\<lambda>n. n - (if holds_use i s then 1 else 0) + (if holds_use i t then 1 else 0)) (uses_of i d)" for i
    by (cases "uses_of i d") simp_all
qed

lemma coupons_released:
  assumes agree: "coupons_agree os (st_promotions g)" and "distinct (map o_id os)" and s: "s \<in> set os"
    and "o_id t = o_id s" and coupon: "order_coupon t = order_coupon s"
    and live: "o_status s \<notin> {EXPIRED, CANCELLED, REFUNDED}" and dead: "o_status t \<in> {EXPIRED, CANCELLED, REFUNDED}"
  shows "coupons_agree (map (\<lambda>x. if o_id x = o_id t then t else x) os) (st_promotions (release_coupon t g))"
proof (rule coupons_replace [OF assms(1-5)])
  fix i
  have t: "\<not> holds_use i t" using dead by (simp add: holds_use_def)
  show "uses_of i (st_promotions (release_coupon t g)) =
      map_option (\<lambda>n. n - (if holds_use i s then 1 else 0) + (if holds_use i t then 1 else 0)) (uses_of i (st_promotions g))"
  proof (cases "order_coupon s = Some i")
    case True
    with live have held: "holds_use i s" by (simp add: holds_use_def)
    have "uses_of i (st_promotions g) = Some (int (uses_held i os))"
      using agree True s unfolding coupons_agree_def by blast
    with uses_held_positive [OF s held] True held t coupon show ?thesis by (simp add: release_coupon_def release_uses)
  next
    case False
    then have "\<not> holds_use i s" by (simp add: holds_use_def)
    with False t coupon show ?thesis
      by (cases "uses_of i (st_promotions g)") (auto simp: release_coupon_def release_uses split: option.split)
  qed
qed

lemma coupons_recounted:
  assumes "coupons_agree os (st_promotions g)" and "distinct (map o_id os)" and s: "s \<in> set os"
    and "o_id t = o_id s" and coupon: "order_coupon t = order_coupon s"
    and dead: "o_status s \<in> {EXPIRED, CANCELLED, REFUNDED}" and live: "o_status t \<notin> {EXPIRED, CANCELLED, REFUNDED}"
  shows "coupons_agree (map (\<lambda>x. if o_id x = o_id t then t else x) os) (st_promotions (recount_coupon t g))"
proof (rule coupons_replace [OF assms(1-5)])
  fix i
  have s: "\<not> holds_use i s" using dead by (simp add: holds_use_def)
  have t: "holds_use i t \<longleftrightarrow> order_coupon s = Some i" using live coupon by (simp add: holds_use_def)
  show "uses_of i (st_promotions (recount_coupon t g)) =
      map_option (\<lambda>n. n - (if holds_use i s then 1 else 0) + (if holds_use i t then 1 else 0)) (uses_of i (st_promotions g))"
    using s t coupon
    by (cases "uses_of i (st_promotions g)") (auto simp: recount_coupon_def recount_uses split: option.split)
qed

text \<open>A new order, with the use of its coupon counted if it has one.\<close>

lemma coupons_insert:
  assumes agree: "coupons_agree os d" and live: "o_status s \<notin> {EXPIRED, CANCELLED, REFUNDED}"
    and uses: "case order_coupon s of None \<Rightarrow> u = d
      | Some j \<Rightarrow> (\<exists>n. uses_of j d = Some n \<and> uses_of j u = Some (n + 1)) \<and> (\<forall>i. i \<noteq> j \<longrightarrow> uses_of i u = uses_of i d)"
  shows "coupons_agree (os @ [s]) u"
  unfolding coupons_agree_def
proof
  fix i
  have old: "uses_of i d = Some (int (uses_held i os)) \<or> uses_of i d = None \<and> (\<forall>s\<in>set os. order_coupon s \<noteq> Some i)"
    using agree unfolding coupons_agree_def by (rule spec)
  have held: "uses_held i (os @ [s]) = uses_held i os + (if order_coupon s = Some i then 1 else 0)"
    using live by (simp add: uses_held_def holds_use_def)
  show "uses_of i u = Some (int (uses_held i (os @ [s]))) \<or> uses_of i u = None \<and> (\<forall>x\<in>set (os @ [s]). order_coupon x \<noteq> Some i)"
  proof (cases "order_coupon s = Some i")
    case True
    with uses old held show ?thesis by auto
  next
    case False
    with uses have "uses_of i u = uses_of i d" by (auto split: option.splits)
    with old held False show ?thesis by auto
  qed
qed

end
