(* ===== verification/Placement.thy ===== *)
theory Placement
  imports Store
begin

text \<open>
  Placing an order (\<open>ordering/application/order-placement.ts\<close>, \<open>checkout.use-case.ts\<close>,
  \<open>staff-checkout.use-case.ts\<close>): the lines with what the catalog, the prices and the promotions say of them
  now, the quote, and the order of a cart or of the staff in the store. The public codes drawn and the new
  identifiers are parameters.
\<close>

section \<open>The lines now\<close>

record assessed_item =
  ai_variant :: checkout_variant
  ai_quantity :: int
  ai_priced :: "priced_line option"

record assessment =
  am_items :: "assessed_item list"
  am_priced :: "priced_line list"
  am_promotion :: "applied_promotion option"
  am_once_per_customer :: bool

definition assess_line :: "ports \<Rightarrow> time \<Rightarrow> order_channel \<Rightarrow> cart_item \<Rightarrow> assessed_item result" where
  "assess_line P at channel line =
     (case checkout_variant_of P (cit_variant line) of
        None \<Rightarrow> Inl (NotFoundError ''Variant'' (cit_variant line))
      | Some v \<Rightarrow>
          let sellable = (cv_on_sale v \<and> (channel = STORE \<or> \<not> cv_store_only v))
          in case po_price P (cit_variant line) at of
               Some unit_price \<Rightarrow>
                 if sellable then
                   res_bind (price_line \<lparr>li_variant = cit_variant line, li_sku = cv_sku v,
                       li_product_name = cv_product_name v, li_options = cv_options v,
                       li_unit_price = unit_price, li_quantity = cit_quantity line\<rparr> (po_vat_rate P)) (\<lambda>priced.
                     Inr \<lparr>ai_variant = v, ai_quantity = cit_quantity line, ai_priced = Some priced\<rparr>)
                 else Inr \<lparr>ai_variant = v, ai_quantity = cit_quantity line, ai_priced = None\<rparr>
             | None \<Rightarrow> Inr \<lparr>ai_variant = v, ai_quantity = cit_quantity line, ai_priced = None\<rparr>)"

definition discount_in ::
  "ports \<Rightarrow> priced_line list \<Rightarrow> time \<Rightarrow> order_channel \<Rightarrow> string option \<Rightarrow> store \<Rightarrow> applied_discount option result" where
  "discount_in P sellable at channel coupon_code g =
     (let lines = map (\<lambda>l. (li_variant l, pl_line_total l)) sellable
      in case coupon_code of
           None \<Rightarrow> discount_for (po_classify P) (promotion_channel_of channel) at lines (st_promotions g)
         | Some code \<Rightarrow>
             res_bind (coupon_for (po_classify P) (promotion_channel_of channel) at lines code (st_promotions g)) (\<lambda>c.
               case c of
                 CouponResultRefused r \<Rightarrow> Inl (OrderingError (CouponNotApplicableError r))
               | CouponApplied d \<Rightarrow> Inr (Some d)))"

text \<open>A \<open>Map\<close> of the discounted lines by their variant: in the order set, the last line of a variant.\<close>

definition assess ::
  "ports \<Rightarrow> cart_item list \<Rightarrow> time \<Rightarrow> order_channel \<Rightarrow> string option \<Rightarrow> store \<Rightarrow> assessment result" where
  "assess P lines at channel coupon_code g =
     res_bind (res_map (assess_line P at channel) lines) (\<lambda>items.
       let sellable = List.map_filter ai_priced items
       in res_bind (discount_in P sellable at channel coupon_code g) (\<lambda>discount.
            case discount of
              None \<Rightarrow> Inr \<lparr>am_items = items, am_priced = sellable, am_promotion = None, am_once_per_customer = False\<rparr>
            | Some d \<Rightarrow>
                res_bind (res_map (\<lambda>(l, m). discount_line l m) (zip sellable (ad_discounts d))) (\<lambda>lines'.
                  let discounted = fold (\<lambda>l. AList.update (li_variant l) l) lines' []
                  in Inr \<lparr>am_items = map (\<lambda>i. i\<lparr>ai_priced :=
                            (case ai_priced i of None \<Rightarrow> None | Some l \<Rightarrow> map_of discounted (li_variant l))\<rparr>) items,
                          am_priced = map snd discounted,
                          am_promotion = Some \<lparr>ap_id = ad_promotion d, ap_name = ad_name d, ap_code = ad_code d\<rparr>,
                          am_once_per_customer = ad_once_per_customer d\<rparr>)))"

section \<open>The coupon, the shipping, the buyer and the address\<close>

definition assert_coupon_unused :: "assessment \<Rightarrow> string \<Rightarrow> store \<Rightarrow> unit result" where
  "assert_coupon_unused a email g =
     (case am_promotion a of
        Some p \<Rightarrow>
          if am_once_per_customer a \<and> used_coupon (ap_id p) (normalized_contact_email email) (st_orders g)
          then Inl (OrderingError (CouponNotApplicableError RefusedAlreadyUsed)) else Inr ()
      | None \<Rightarrow> Inr ())"

definition use_coupon :: "assessment \<Rightarrow> string option \<Rightarrow> store \<Rightarrow> store result" where
  "use_coupon a email g =
     (case am_promotion a of
        None \<Rightarrow> Inr g
      | Some p \<Rightarrow>
          if ap_code p = None then Inr g
          else if am_once_per_customer a \<and> email = None
          then Inl (OrderingError (CouponNotApplicableError RefusedBuyerRequired))
          else
            let (counted, promotions) = redeem (ap_id p) (st_promotions g);
                g' = g\<lparr>st_promotions := promotions\<rparr>
            in if \<not> counted then Inl (OrderingError (CouponNotApplicableError RefusedExhausted))
               else case email of
                 None \<Rightarrow> Inr g'
               | Some e \<Rightarrow> res_bind (assert_coupon_unused a e g') (\<lambda>_. Inr g'))"

text \<open>The days of the shipping method are whole numbers.\<close>

definition whole_days :: "js_number \<Rightarrow> int" where
  "whole_days n = (case n of Whole d \<Rightarrow> d | NotWhole \<Rightarrow> 0)"

definition order_shipping_of :: "shipping_quote \<Rightarrow> order_shipping" where
  "order_shipping_of q =
     \<lparr>ship_cost = sg_cost (sq_charge q), ship_tax_amount = sg_tax (sq_charge q),
      ship_tax_rate_bp = sg_rate (sq_charge q), ship_min_days = whole_days (sq_min_days q),
      ship_max_days = whole_days (sq_max_days q)\<rparr>"

definition placement_shipping :: "ports \<Rightarrow> priced_line list \<Rightarrow> store \<Rightarrow> shipping_quote result" where
  "placement_shipping P lines g =
     res_bind (sum_lines pl_line_total lines) (\<lambda>subtotal.
     res_bind (sum_lines pl_discount lines) (\<lambda>discount.
       quote_shipping (po_vat_rate P) \<lparr>oa_subtotal = subtotal, oa_discount = discount\<rparr> (st_shipping g)))"

datatype buyer_choice = ChosenCustomer id | ChosenGuest string string

definition buyer_of :: "ports \<Rightarrow> buyer_choice option \<Rightarrow> buyer result" where
  "buyer_of P choice =
     (case choice of
        None \<Rightarrow> Inr NoBuyerData
      | Some (ChosenGuest email notice) \<Rightarrow> Inr (GuestBuyer email notice)
      | Some (ChosenCustomer c) \<Rightarrow>
          (case po_contact P c of
             None \<Rightarrow> Inl (NotFoundError ''Customer'' c)
           | Some (email, verified) \<Rightarrow>
               if \<not> verified then Inl (OrderingError EmailNotVerifiedError) else Inr (CustomerBuyer c email)))"

record address_input =
  an_recipient :: string
  an_phone :: string
  an_street :: string
  an_exterior :: string
  an_interior :: "string option"
  an_neighborhood :: string
  an_postal_code :: string
  an_state_code :: string
  an_municipality_code :: string
  an_city :: "string option"
  an_references :: "string option"

datatype address_choice = SavedAddress id | WrittenAddress address_input

definition shipping_address_of :: "ports \<Rightarrow> id option \<Rightarrow> address_choice \<Rightarrow> shipping_address result" where
  "shipping_address_of P customer choice =
     (case choice of
        SavedAddress i \<Rightarrow>
          (case (case customer of None \<Rightarrow> None | Some c \<Rightarrow> po_address P c i) of
             None \<Rightarrow> Inl (NotFoundError ''Address'' i)
           | Some saved \<Rightarrow> Inr saved)
      | WrittenAddress a \<Rightarrow>
          (case resolve_location P (an_state_code a) (an_municipality_code a) of
             Inl problem \<Rightarrow> Inl (OrderingError (InvalidShippingAddressError problem))
           | Inr (state_name, municipality_name) \<Rightarrow>
               Inr \<lparr>a_postal_code = an_postal_code a, a_state_code = an_state_code a, a_state_name = state_name,
                    a_municipality_code = an_municipality_code a, a_municipality_name = municipality_name,
                    a_country = ''MX'', a_recipient = an_recipient a, a_phone = an_phone a, a_street = an_street a,
                    a_exterior = an_exterior a, a_interior = an_interior a, a_neighborhood = an_neighborhood a,
                    a_city = an_city a, a_references = an_references a\<rparr>))"

section \<open>Saving the order\<close>

definition PUBLIC_CODE_ATTEMPTS :: nat where
  "PUBLIC_CODE_ATTEMPTS = 5"

text \<open>The attempts left, and the one now.\<close>

primrec insert_placed ::
  "nat \<Rightarrow> nat \<Rightarrow> (nat \<Rightarrow> string) \<Rightarrow> (string \<Rightarrow> order result) \<Rightarrow> orders_db \<Rightarrow> (order \<times> orders_db) result" where
  "insert_placed 0 n codes create d = Inl (PlainError ''No free public code'')"
| "insert_placed (Suc left) n codes create d =
     res_bind (create (codes n)) (\<lambda>s.
     res_bind (insert_order s d) (\<lambda>(inserted, d').
       if inserted then Inr (s, d') else insert_placed left (n + 1) codes create d))"

section \<open>The quote\<close>

record quote_line =
  ql_variant :: id
  ql_quantity :: int
  ql_priced :: "priced_line option"
  ql_sellable :: bool
  ql_can_fulfill :: bool

record checkout_quote =
  qt_lines :: "quote_line list"
  qt_totals :: order_totals
  qt_promotion :: "applied_promotion option"
  qt_threshold :: "money option"
  qt_min_days :: "js_number option"
  qt_max_days :: "js_number option"
  qt_ready :: bool

text \<open>An order handed over in the store ships nowhere: no shipping quote.\<close>

definition quote_of :: "assessment \<Rightarrow> (id \<times> bool) list \<Rightarrow> shipping_quote option \<Rightarrow> checkout_quote result" where
  "quote_of a available shipping =
     (let lines = map (\<lambda>i. \<lparr>ql_variant = cv_id (ai_variant i), ql_quantity = ai_quantity i, ql_priced = ai_priced i,
              ql_sellable = (ai_priced i \<noteq> None),
              ql_can_fulfill = (map_of available (cv_id (ai_variant i)) = Some True)\<rparr>) (am_items a)
      in res_bind (order_totals (am_priced a)
             (case shipping of None \<Rightarrow> money_zero MXN | Some q \<Rightarrow> sg_cost (sq_charge q))
             (case shipping of None \<Rightarrow> money_zero MXN | Some q \<Rightarrow> sg_tax (sq_charge q))) (\<lambda>totals.
           Inr \<lparr>qt_lines = lines, qt_totals = totals, qt_promotion = am_promotion a,
                qt_threshold = (case shipping of None \<Rightarrow> None | Some q \<Rightarrow> sq_threshold q),
                qt_min_days = map_option sq_min_days shipping, qt_max_days = map_option sq_max_days shipping,
                qt_ready = list_all (\<lambda>l. ql_sellable l \<and> ql_can_fulfill l) lines\<rparr>))"

definition priced_requests :: "assessment \<Rightarrow> (id \<times> js_number) list" where
  "priced_requests a = map (\<lambda>l. (li_variant l, Whole (li_quantity l))) (am_priced a)"

definition quote_cart :: "ports \<Rightarrow> cart_target \<Rightarrow> string option \<Rightarrow> time \<Rightarrow> store \<Rightarrow> checkout_quote result" where
  "quote_cart P target coupon_code now g =
     res_bind (cart_to_quote target (st_carts g)) (\<lambda>cart.
       case cart of
         None \<Rightarrow> Inl (OrderingError EmptyCartError)
       | Some c \<Rightarrow>
           if cc_lines c = [] then Inl (OrderingError EmptyCartError)
           else
             res_bind (assess P (cc_lines c) now ONLINE coupon_code g) (\<lambda>a.
             res_bind (case target of
                         CustomerTarget customer \<Rightarrow>
                           if am_once_per_customer a then
                             (case po_contact P customer of
                                None \<Rightarrow> Inr ()
                              | Some (email, verified) \<Rightarrow> assert_coupon_unused a email g)
                           else Inr ()
                       | GuestTarget i \<Rightarrow> Inr ()) (\<lambda>_.
             res_bind (can_fulfill_together (priced_requests a) None (st_stock g)) (\<lambda>available.
             res_bind (placement_shipping P (am_priced a) g) (\<lambda>shipping.
               quote_of a available (Some shipping))))))"

section \<open>Placing the order of a cart\<close>

datatype cart_buyer =
    GuestOrder (go_cart: id) (go_email: string) (go_address: address_input) (go_notice: string)
  | CustomerOrder (co_customer: id) (co_address: address_choice)

record cart_order =
  co_buyer :: cart_buyer
  co_expected :: js_number
  co_coupon :: "string option"

fun chosen_buyer :: "cart_buyer \<Rightarrow> buyer_choice" where
  "chosen_buyer (GuestOrder cart email address notice) = ChosenGuest email notice"
| "chosen_buyer (CustomerOrder customer address) = ChosenCustomer customer"

fun chosen_cart :: "cart_buyer \<Rightarrow> cart_target" where
  "chosen_cart (GuestOrder cart email address notice) = GuestTarget cart"
| "chosen_cart (CustomerOrder customer address) = CustomerTarget customer"

fun chosen_customer :: "cart_buyer \<Rightarrow> id option" where
  "chosen_customer (GuestOrder cart email address notice) = None"
| "chosen_customer (CustomerOrder customer address) = Some customer"

fun chosen_address :: "cart_buyer \<Rightarrow> address_choice" where
  "chosen_address (GuestOrder cart email address notice) = WrittenAddress address"
| "chosen_address (CustomerOrder customer address) = address"

text \<open>New identifiers, and the codes drawn.\<close>

record drawn =
  dr_order :: id
  dr_lines :: "nat \<Rightarrow> id"
  dr_codes :: "nat \<Rightarrow> string"

definition unsellable :: "assessment \<Rightarrow> id list" where
  "unsellable a = map (\<lambda>i. cv_id (ai_variant i)) (filter (\<lambda>i. ai_priced i = None) (am_items a))"

text \<open>What both checkouts do once the lines are assessed: the total, the coupon, the stock and the order.\<close>

definition place_assessed ::
  "ports \<Rightarrow> drawn \<Rightarrow> js_number \<Rightarrow> buyer \<Rightarrow> assessment \<Rightarrow> money \<Rightarrow> money \<Rightarrow> id option \<Rightarrow>
     (new_order \<Rightarrow> order result) \<Rightarrow> time \<Rightarrow> store \<Rightarrow> (order \<times> store) result" where
  "place_assessed P dr expected buyer a cost tax warehouse create now g =
     res_bind (order_totals (am_priced a) cost tax) (\<lambda>totals.
       if Whole (amount (tot_grand totals)) \<noteq> expected
       then Inl (OrderingError (TotalMismatchError (amount (tot_grand totals))))
       else
         res_bind (use_coupon a (buyer_email buyer) g) (\<lambda>g1.
         res_bind (reserve_order (dr_order dr) (priced_requests a) warehouse (po_reservation_ttl P) now
                     (st_stock g1)) (\<lambda>(receipt, stock).
         res_bind (insert_placed PUBLIC_CODE_ATTEMPTS 1 (dr_codes dr) (\<lambda>code.
             create \<lparr>no_id = dr_order dr, no_public_code = code, no_buyer = buyer, no_lines = am_priced a,
               no_promotion = am_promotion a, no_reservation = rc_reservation receipt,
               no_reservation_expires_at = rc_expires_at receipt, no_now = now\<rparr>) (st_orders g1)) (\<lambda>(s, orders).
           Inr (s, g1\<lparr>st_stock := stock, st_orders := orders\<rparr>)))))"

definition place_order :: "ports \<Rightarrow> drawn \<Rightarrow> cart_order \<Rightarrow> time \<Rightarrow> store \<Rightarrow> (id \<times> store) result" where
  "place_order P dr i now g =
     res_bind (buyer_of P (Some (chosen_buyer (co_buyer i)))) (\<lambda>buyer.
     res_bind (cart_to_quote (chosen_cart (co_buyer i)) (st_carts g)) (\<lambda>cart.
       case cart of
         None \<Rightarrow> Inl (OrderingError EmptyCartError)
       | Some c \<Rightarrow>
           if cc_lines c = [] then Inl (OrderingError EmptyCartError)
           else
             res_bind (shipping_address_of P (chosen_customer (co_buyer i)) (chosen_address (co_buyer i))) (\<lambda>address.
             res_bind (assess P (cc_lines c) now ONLINE (co_coupon i) g) (\<lambda>a.
               if unsellable a \<noteq> [] then Inl (OrderingError (VariantNotSellableError (unsellable a)))
               else
                 res_bind (placement_shipping P (am_priced a) g) (\<lambda>shipping.
                 res_bind (place_assessed P dr (co_expected i) buyer a (sg_cost (sq_charge shipping))
                     (sg_tax (sq_charge shipping)) None
                     (\<lambda>n. place (dr_lines dr) n (order_shipping_of shipping) address (cc_id c)) now g) (\<lambda>(s, g2).
                 res_bind (check_out_in (cc_id c) now (st_carts g2)) (\<lambda>carts.
                   Inr (o_id s, emit (OrderPlaced (o_id s) now) (g2\<lparr>st_carts := carts\<rparr>)))))))))"

section \<open>Placing the order of a customer in the store\<close>

definition MAX_STAFF_ORDER_LINES :: nat where
  "MAX_STAFF_ORDER_LINES = 100"

definition MAX_ORDER_LINE_QUANTITY :: int where
  "MAX_ORDER_LINE_QUANTITY = 30"

record staff_order =
  so_lines :: "(id \<times> js_number) list"
  so_warehouse :: id
  so_fulfillment :: order_fulfillment
  so_coupon :: "string option"
  so_staff :: id
  so_buyer :: "buyer_choice option"
  so_address :: "address_choice option"
  so_expected :: js_number

text \<open>The lines within their limits, with the whole units they ask.\<close>

definition assert_lines :: "(id \<times> js_number) list \<Rightarrow> cart_item list result" where
  "assert_lines lines =
     (if lines = [] \<or> length lines > MAX_STAFF_ORDER_LINES
      then Inl (InvalidValueError ''An order has from 1 to 100 lines'')
      else if \<not> list_all (\<lambda>l. whole_satisfying (\<lambda>q. 1 \<le> q \<and> q \<le> MAX_ORDER_LINE_QUANTITY) (snd l)) lines
      then Inl (InvalidValueError ''A line has from 1 to 30 units'')
      else if \<not> distinct (map fst lines) then Inl (InvalidValueError ''An order names each variant once'')
      else Inr (map (\<lambda>l. \<lparr>cit_variant = fst l, cit_quantity = (case snd l of Whole q \<Rightarrow> q | NotWhole \<Rightarrow> 0)\<rparr>) lines))"

definition assert_delivery :: "staff_order \<Rightarrow> unit result" where
  "assert_delivery i =
     (if so_fulfillment i = SHIPPING then
        if so_buyer i = None \<or> so_address i = None
        then Inl (InvalidValueError ''An order to ship needs a buyer and an address'') else Inr ()
      else if so_address i \<noteq> None
      then Inl (InvalidValueError ''An order handed over in the store has no address'') else Inr ())"

definition active_warehouse :: "id \<Rightarrow> store \<Rightarrow> unit result" where
  "active_warehouse w g =
     (if is_active_warehouse w (st_stock g) then Inr () else Inl (NotFoundError ''Warehouse'' w))"

definition quote_in_store ::
  "ports \<Rightarrow> (id \<times> js_number) list \<Rightarrow> id \<Rightarrow> order_fulfillment \<Rightarrow> string option \<Rightarrow> time \<Rightarrow> store \<Rightarrow> checkout_quote result" where
  "quote_in_store P lines warehouse fulfillment coupon_code now g =
     res_bind (assert_lines lines) (\<lambda>items.
     res_bind (active_warehouse warehouse g) (\<lambda>_.
     res_bind (assess P items now STORE coupon_code g) (\<lambda>a.
     res_bind (can_fulfill_together (priced_requests a) (Some warehouse) (st_stock g)) (\<lambda>available.
     res_bind (if fulfillment = IN_STORE then Inr None
               else res_bind (placement_shipping P (am_priced a) g) (\<lambda>q. Inr (Some q))) (\<lambda>shipping.
       quote_of a available shipping)))))"

definition place_staff_order :: "ports \<Rightarrow> drawn \<Rightarrow> staff_order \<Rightarrow> time \<Rightarrow> store \<Rightarrow> (id \<times> store) result" where
  "place_staff_order P dr i now g =
     res_bind (assert_lines (so_lines i)) (\<lambda>items.
     res_bind (assert_delivery i) (\<lambda>_.
     res_bind (buyer_of P (so_buyer i)) (\<lambda>buyer.
     res_bind (active_warehouse (so_warehouse i) g) (\<lambda>_.
     res_bind (case so_address i of
                 None \<Rightarrow> Inr None
               | Some choice \<Rightarrow>
                   res_bind (shipping_address_of P (buyer_customer_id buyer) choice) (\<lambda>x. Inr (Some x))) (\<lambda>address.
     res_bind (assess P items now STORE (so_coupon i) g) (\<lambda>a.
       if unsellable a \<noteq> [] then Inl (OrderingError (VariantNotSellableError (unsellable a)))
       else
         res_bind (case address of
                     None \<Rightarrow> Inr (HandedOverInStore, money_zero MXN, money_zero MXN)
                   | Some x \<Rightarrow>
                       res_bind (placement_shipping P (am_priced a) g) (\<lambda>q.
                         Inr (ShippedTo (order_shipping_of q) x, sg_cost (sq_charge q), sg_tax (sq_charge q))))
           (\<lambda>(delivery, cost, tax).
         res_bind (place_assessed P dr (so_expected i) buyer a cost tax (Some (so_warehouse i))
             (\<lambda>n. place_in_store (dr_lines dr) n delivery (so_staff i) (so_warehouse i)) now g) (\<lambda>(s, g2).
           Inr (o_id s, emit (OrderPlaced (o_id s) now) g2)))))))))"

end
