(* ===== verification/Lifecycle.thy ===== *)
theory Lifecycle
  imports Store
begin

text \<open>
  The life of an order after it is placed: the staff cancels it, retries its fulfillment and hands it over, the
  events of its payment and of its shipment move it (\<open>ordering/application/order-lifecycle.use-case.ts\<close> and the
  event handlers), it expires unpaid (\<open>order-expiry.use-case.ts\<close>), its payment is asked for
  (\<open>order-payment-requests.use-case.ts\<close>), its units come back (\<open>order-restocks.use-case.ts\<close>) and it is bought
  again (\<open>order-reorders.use-case.ts\<close>).
\<close>

section \<open>What the staff does\<close>

record cancellation =
  cn_order :: id
  cn_staff :: id
  cn_reason :: string
  cn_restock :: bool
  cn_version :: int

definition cancel_in :: "cancellation \<Rightarrow> id \<Rightarrow> time \<Rightarrow> store \<Rightarrow> store result" where
  "cancel_in i fresh_refund now g =
     res_bind (found (cn_order i) g) (\<lambda>s.
     res_bind (assert_version (o_version s) (cn_version i)) (\<lambda>_.
       if cn_restock i \<and> o_status s \<noteq> PAID
       then Inl (OrderingError (RestockNotAllowedError (order_status_name (o_status s))))
       else
         res_bind (cancel_order (cn_staff i) (cn_reason i) now s) (\<lambda>t.
         res_bind (if o_status s = PENDING_PAYMENT
                   then res_bind (free_stock (o_id t) ReservationReleased now g) (cancel_pending_for (o_id t) now)
                   else res_bind (cancel_shipment_for (o_id t) now g) (start_refund_for fresh_refund (o_id t) now))
           (\<lambda>g1.
         let g2 = release_coupon t g1
         in res_bind (if cn_restock i
                      then res_bind (lines_to_restock None t) (\<lambda>lines.
                             res_bind (restock_stock (o_id t) Order.restock_reason.ORDER_CANCELLED
                               (Some (cn_reason i)) (cn_staff i) lines None now g2) (\<lambda>(movements, g3). Inr g3))
                      else Inr g2) (\<lambda>g3.
            res_bind (save_in t g3) (\<lambda>g4.
              Inr (emit (OrderCancelled (o_id t) (o_status s \<noteq> PENDING_PAYMENT) now) g4)))))))"

definition retry_fulfillment :: "ports \<Rightarrow> id \<Rightarrow> id \<Rightarrow> int \<Rightarrow> id \<Rightarrow> time \<Rightarrow> store \<Rightarrow> store result" where
  "retry_fulfillment P i staff version fresh_shipment now g =
     res_bind (found i g) (\<lambda>s.
     res_bind (assert_version (o_version s) version) (\<lambda>_.
     res_bind (assert_fulfillable s) (\<lambda>_.
     res_bind (reserve_order (o_id s) (stock_lines s) (o_warehouse s) (po_reservation_ttl P) now (st_stock g))
       (\<lambda>(receipt, stock).
     res_bind (commit_stock (o_id s) now (g\<lparr>st_stock := stock\<rparr>)) (\<lambda>(outcome, g1).
     res_bind (fulfill_manually staff (rc_reservation receipt) now s) (\<lambda>t.
     res_bind (if o_fulfillment t = SHIPPING then create_for fresh_shipment t g1 else Inr g1) (\<lambda>g2.
     res_bind (save_in t g2) (\<lambda>g3. Inr (emit (OrderPaid (o_id t) now) g3)))))))))"

definition hand_over_in :: "id \<Rightarrow> id \<Rightarrow> int \<Rightarrow> time \<Rightarrow> store \<Rightarrow> store result" where
  "hand_over_in i staff version now g =
     res_bind (found i g) (\<lambda>s.
     res_bind (assert_version (o_version s) version) (\<lambda>_.
     res_bind (hand_over staff now s) (\<lambda>t. save_in t g)))"

section \<open>What a captured payment does\<close>

datatype payment_outcome =
    OutcomePaid | AwaitingManual | RecordedOnCancelled | PaymentAlreadyProcessed | AmountMismatch

text \<open>A payment whose reservation ended: the order reserves again, or waits for the staff.\<close>

definition late_payment :: "ports \<Rightarrow> order \<Rightarrow> time \<Rightarrow> time \<Rightarrow> store \<Rightarrow> (payment_outcome \<times> order \<times> store) result" where
  "late_payment P s captured_at now g =
     (if is_anonymized s then
        res_bind (await_manual_fulfillment captured_at now s) (\<lambda>t. Inr (AwaitingManual, t, g))
      else
        res_bind (reserve_if_available P s now g) (\<lambda>(receipt, g1).
          case receipt of
            None \<Rightarrow> res_bind (await_manual_fulfillment captured_at now s) (\<lambda>t. Inr (AwaitingManual, t, g1))
          | Some r \<Rightarrow>
              res_bind (commit_stock (o_id s) now g1) (\<lambda>(outcome, g2).
              res_bind (mark_paid captured_at now (Some (rc_reservation r)) s) (\<lambda>t.
                Inr (OutcomePaid, t, g2)))))"

text \<open>What the payment does to the order, by its status; none when nothing is left to do.\<close>

definition pay_order ::
  "ports \<Rightarrow> order \<Rightarrow> time \<Rightarrow> id \<Rightarrow> time \<Rightarrow> store \<Rightarrow> (payment_outcome \<times> order \<times> store) option result" where
  "pay_order P s captured_at fresh_refund now g =
     (case o_status s of
        PENDING_PAYMENT \<Rightarrow>
          res_bind (commit_stock (o_id s) now g) (\<lambda>(outcome, g1).
            if outcome = NotActive
            then res_bind (late_payment P s captured_at now g1) (\<lambda>r. Inr (Some r))
            else res_bind (mark_paid captured_at now None s) (\<lambda>t. Inr (Some (OutcomePaid, t, g1))))
      | EXPIRED \<Rightarrow>
          res_bind (late_payment P s captured_at now g) (\<lambda>(outcome, t, g1).
            Inr (Some (outcome, t, recount_coupon t g1)))
      | CANCELLED \<Rightarrow>
          res_bind (record_payment_after_cancellation captured_at s) (\<lambda>(recorded, t).
            if \<not> recorded then Inr None
            else res_bind (start_refund_for fresh_refund (o_id s) now g) (\<lambda>g1.
                   Inr (Some (RecordedOnCancelled, t, g1))))
      | _ \<Rightarrow> Inr None)"

definition record_payment ::
  "ports \<Rightarrow> id \<Rightarrow> money \<Rightarrow> time \<Rightarrow> id \<Rightarrow> id \<Rightarrow> time \<Rightarrow> store \<Rightarrow> (payment_outcome \<times> store) result" where
  "record_payment P i paid captured_at fresh_refund fresh_shipment now g =
     res_bind (found i g) (\<lambda>s.
       if \<not> money_equals paid (tot_grand (o_totals s)) then Inr (AmountMismatch, g)
       else
         res_bind (pay_order P s captured_at fresh_refund now g) (\<lambda>r.
           case r of
             None \<Rightarrow> Inr (PaymentAlreadyProcessed, g)
           | Some (outcome, t, g1) \<Rightarrow>
               res_bind (if outcome = OutcomePaid \<and> o_fulfillment t = SHIPPING then create_for fresh_shipment t g1
                         else Inr g1) (\<lambda>g2.
               res_bind (save_in t g2) (\<lambda>g3.
                 Inr (outcome, if outcome = OutcomePaid then emit (OrderPaid (o_id t) now) g3 else g3)))))"

section \<open>What a refund and a shipment do\<close>

datatype progress = Moved | AlreadyProcessed | NotExpected

definition record_refund :: "id \<Rightarrow> time \<Rightarrow> time \<Rightarrow> store \<Rightarrow> (progress \<times> store) result" where
  "record_refund i completed_at now g =
     res_bind (found i g) (\<lambda>s.
       if o_status s = REFUNDED then Inr (AlreadyProcessed, g)
       else if o_status s \<noteq> CANCELLED \<or> o_paid_at s = None then Inr (NotExpected, g)
       else
         res_bind (mark_refunded completed_at now s) (\<lambda>t.
         res_bind (save_in t g) (\<lambda>g1. Inr (Moved, g1))))"

definition record_shipment :: "id \<Rightarrow> time \<Rightarrow> time \<Rightarrow> store \<Rightarrow> (progress \<times> store) result" where
  "record_shipment i dispatched_at now g =
     res_bind (found i g) (\<lambda>s.
       if o_status s = SHIPPED \<or> o_status s = DELIVERED then Inr (AlreadyProcessed, g)
       else if o_status s \<noteq> PAID then Inr (NotExpected, g)
       else
         res_bind (mark_shipped dispatched_at now s) (\<lambda>t.
         res_bind (save_in t g) (\<lambda>g1. Inr (Moved, g1))))"

definition record_delivery :: "id \<Rightarrow> time \<Rightarrow> time \<Rightarrow> time \<Rightarrow> store \<Rightarrow> (progress \<times> store) result" where
  "record_delivery i dispatched_at delivered_at now g =
     res_bind (found i g) (\<lambda>s.
       if o_status s = DELIVERED then Inr (AlreadyProcessed, g)
       else if o_status s \<noteq> PAID \<and> o_status s \<noteq> SHIPPED then Inr (NotExpected, g)
       else
         res_bind (if o_status s = PAID then mark_shipped dispatched_at now s else Inr s) (\<lambda>t.
         res_bind (mark_delivered delivered_at now t) (\<lambda>u.
         res_bind (save_in u g) (\<lambda>g1. Inr (Moved, g1)))))"

definition record_return_in :: "id \<Rightarrow> time \<Rightarrow> store \<Rightarrow> (bool \<times> store) result" where
  "record_return_in i returned_at g =
     res_bind (found i g) (\<lambda>s.
       let (recorded, t) = record_return returned_at s
       in if \<not> recorded then Inr (False, g) else res_bind (save_in t g) (\<lambda>g1. Inr (True, g1)))"

text \<open>
  The handlers of the events of Payments and Shipping. An event is delivered in the background, at least once and
  in no particular order; \<open>Money.of\<close> makes the amount anew.
\<close>

definition on_payments_event :: "ports \<Rightarrow> payments_event \<Rightarrow> id \<Rightarrow> id \<Rightarrow> time \<Rightarrow> store \<Rightarrow> store result" where
  "on_payments_event P e fresh_refund fresh_shipment now g =
     (case e of
        PaymentCapturedEvent payment order paid at \<Rightarrow>
          res_bind (money_of (Whole (amount paid)) (currency paid)) (\<lambda>m.
          res_bind (record_payment P order m at fresh_refund fresh_shipment now g) (\<lambda>(outcome, g1). Inr g1))
      | RefundCompletedEvent refund payment order paid at \<Rightarrow>
          res_bind (record_refund order at now g) (\<lambda>(outcome, g1). Inr g1))"

definition on_shipping_event :: "shipping_event \<Rightarrow> time \<Rightarrow> store \<Rightarrow> store result" where
  "on_shipping_event e now g =
     (case e of
        ShipmentDispatchedEvent shipment order carrier tracking own at \<Rightarrow>
          res_bind (record_shipment order at now g) (\<lambda>(outcome, g1). Inr g1)
      | ShipmentDeliveredEvent shipment order dispatched at \<Rightarrow>
          (case dispatched of
             None \<Rightarrow> Inl (PlainError ''A delivered shipment left first'')
           | Some left \<Rightarrow> res_bind (record_delivery order left at now g) (\<lambda>(outcome, g1). Inr g1))
      | ShipmentReturnedEvent shipment order at \<Rightarrow>
          res_bind (record_return_in order at g) (\<lambda>(recorded, g1). Inr g1))"

section \<open>The expiry\<close>

definition EXPIRY_BATCH_SIZE :: nat where
  "EXPIRY_BATCH_SIZE = 100"

definition expired_event :: "order \<Rightarrow> time \<Rightarrow> ordering_event" where
  "expired_event s now =
     OrderExpired (o_id s) (o_customer s) (o_source_cart s)
       (map (\<lambda>l. \<lparr>cit_variant = li_variant l, cit_quantity = li_quantity l\<rparr>) (o_lines s)) now"

definition expire_one :: "time \<Rightarrow> id \<Rightarrow> store \<Rightarrow> (bool \<times> store) result" where
  "expire_one now i g =
     (case lock_order i (st_orders g) of
        None \<Rightarrow> Inr (False, g)
      | Some s \<Rightarrow>
          let (due, t) = expire_if_due now s
          in if \<not> due then Inr (False, g)
             else
               res_bind (free_stock (o_id t) ReservationExpired now g) (\<lambda>g1.
               res_bind (save_in t (release_coupon t g1)) (\<lambda>g2.
                 Inr (True, emit (expired_event t now) g2))))"

text \<open>Each order in its own transaction: one that fails is logged, and the rest go on.\<close>

record expiry_run =
  er_expired :: nat
  er_failed :: nat

definition expire_step :: "time \<Rightarrow> id \<Rightarrow> expiry_run \<times> store \<Rightarrow> expiry_run \<times> store" where
  "expire_step now i st =
     (case expire_one now i (snd st) of
        Inl e \<Rightarrow> ((fst st)\<lparr>er_failed := er_failed (fst st) + 1\<rparr>, snd st)
      | Inr (expired, g) \<Rightarrow>
          (if expired then (fst st)\<lparr>er_expired := er_expired (fst st) + 1\<rparr> else fst st, g))"

definition expire_due :: "time \<Rightarrow> store \<Rightarrow> expiry_run \<times> store" where
  "expire_due now g =
     fold (expire_step now) (due_for_expiry now EXPIRY_BATCH_SIZE (st_orders g)) (\<lparr>er_expired = 0, er_failed = 0\<rparr>, g)"

section \<open>Asking for its payment\<close>

datatype payer = GuestPayer id | CustomerPayer id

definition paid_by :: "order \<Rightarrow> payer \<Rightarrow> bool" where
  "paid_by s payer =
     (case payer of
        CustomerPayer c \<Rightarrow> o_customer s = Some c
      | GuestPayer cart \<Rightarrow> o_customer s = None \<and> o_source_cart s = Some cart)"

text \<open>A public code is no identifier: the missing order is named by 0.\<close>

definition start_payment_in ::
  "string \<Rightarrow> payer \<Rightarrow> payment_provider \<Rightarrow> id \<Rightarrow> time \<Rightarrow> store \<Rightarrow> ((payment \<times> bool) \<times> store) result" where
  "start_payment_in code payer provider fresh now g =
     res_bind (assert_provider_enabled provider (st_payments g)) (\<lambda>_.
       case lock_by_public_code code (st_orders g) of
         None \<Rightarrow> Inl (NotFoundError ''Order'' 0)
       | Some s \<Rightarrow>
           if \<not> paid_by s payer then Inl (NotFoundError ''Order'' 0)
           else if o_status s \<noteq> PENDING_PAYMENT
           then Inl (InvalidStateTransitionError (order_status_name (o_status s)) ''start a payment'')
           else res_bind (start_order_payment fresh (request_of s) provider now (st_payments g))
                  (\<lambda>(answer, payments). Inr (answer, g\<lparr>st_payments := payments\<rparr>)))"

definition capture_in :: "id \<Rightarrow> capture_input \<Rightarrow> id \<Rightarrow> time \<Rightarrow> store \<Rightarrow> store result" where
  "capture_in i input fresh now g =
     res_bind (assert_manual_payments_enabled (st_payments g)) (\<lambda>_.
     res_bind (found i g) (\<lambda>s.
       if o_status s \<noteq> PENDING_PAYMENT \<and> o_status s \<noteq> EXPIRED
       then Inl (InvalidStateTransitionError (order_status_name (o_status s)) ''register a manual payment'')
       else res_bind (capture_order_payment fresh (request_of s) input now (st_payments g))
              (\<lambda>payments. Inr (g\<lparr>st_payments := payments\<rparr>))))"

section \<open>Restocks and reorders\<close>

record restock_request =
  rr_order :: id
  rr_reason :: Order.restock_reason
  rr_lines :: "(id \<times> int) list"
  rr_note :: "string option"
  rr_actor :: id
  rr_warehouse :: "id option"

definition restock_in :: "restock_request \<Rightarrow> time \<Rightarrow> store \<Rightarrow> (stock_movement list \<times> store) result" where
  "restock_in i now g =
     res_bind (found (rr_order i) g) (\<lambda>s.
     let shipment = (if rr_reason i = Order.restock_reason.SHIPMENT_RETURNED then shipment_status_of (o_id s) g else None)
     in res_bind (assert_restockable (rr_reason i) shipment s) (\<lambda>_.
        res_bind (lines_to_restock (Some (rr_lines i)) s) (\<lambda>lines.
          restock_stock (o_id s) (rr_reason i) (rr_note i) (rr_actor i) lines (rr_warehouse i) now g)))"

definition lines_to_reorder :: "order \<Rightarrow> cart_item list result" where
  "lines_to_reorder s =
     (if o_status s \<noteq> CANCELLED \<and> o_status s \<noteq> REFUNDED
      then Inl (InvalidStateTransitionError (order_status_name (o_status s)) ''reorder'')
      else Inr (map (\<lambda>l. \<lparr>cit_variant = li_variant l, cit_quantity = li_quantity l\<rparr>) (o_lines s)))"

definition reorder_for_customer ::
  "shop_ports \<Rightarrow> id \<Rightarrow> id \<Rightarrow> string \<Rightarrow> time \<Rightarrow> store \<Rightarrow> (cart_copy \<times> store) result" where
  "reorder_for_customer S fresh customer code now g =
     (case lock_by_public_code code (st_orders g) of
        None \<Rightarrow> Inl (NotFoundError ''Order'' 0)
      | Some s \<Rightarrow>
          if o_customer s \<noteq> Some customer \<or> is_blocked s \<or> is_anonymized s then Inl (NotFoundError ''Order'' 0)
          else
            res_bind (lines_to_reorder s) (\<lambda>lines.
            res_bind (to_customer_cart S fresh customer lines now (st_carts g)) (\<lambda>(copy, carts).
              Inr (copy, g\<lparr>st_carts := carts\<rparr>))))"

text \<open>
  A guest order that is not hidden, with its code and its email (\<open>findGuestOrder\<close> of
  \<open>prisma-ordering.queries.ts\<close>): what the lookup of a guest finds.
\<close>

definition find_guest_order :: "string \<Rightarrow> string \<Rightarrow> store \<Rightarrow> order option" where
  "find_guest_order code email g =
     find (\<lambda>s. o_public_code s = code \<and> o_customer s = None \<and> o_contact_email s = Some email \<and> \<not> is_blocked s)
       (od_orders (st_orders g))"

definition reorder_for_guest ::
  "shop_ports \<Rightarrow> id \<Rightarrow> string \<Rightarrow> string \<Rightarrow> id option \<Rightarrow> time \<Rightarrow> store \<Rightarrow> (cart_copy \<times> store) result" where
  "reorder_for_guest S fresh code email cart now g =
     (case find_guest_order code (normalized_contact_email email) g of
        None \<Rightarrow> Inl (NotFoundError ''Guest order'' 0)
      | Some found_order \<Rightarrow>
          (case lock_order (o_id found_order) (st_orders g) of
             None \<Rightarrow> Inl (NotFoundError ''Guest order'' 0)
           | Some s \<Rightarrow>
               res_bind (lines_to_reorder s) (\<lambda>lines.
               res_bind (to_guest_cart S fresh cart lines now (st_carts g)) (\<lambda>(copy, carts).
                 Inr (copy, g\<lparr>st_carts := carts\<rparr>)))))"

definition reorder_for_staff :: "shop_ports \<Rightarrow> id \<Rightarrow> id \<Rightarrow> time \<Rightarrow> store \<Rightarrow> (cart_copy \<times> store) result" where
  "reorder_for_staff S fresh i now g =
     res_bind (found i g) (\<lambda>s.
     res_bind (lines_to_reorder s) (\<lambda>lines.
     res_bind (case o_customer s of
                 Some customer \<Rightarrow>
                   res_bind (to_customer_cart S fresh customer lines now (st_carts g)) (\<lambda>(copy, carts). Inr (Some copy, carts))
               | None \<Rightarrow>
                   (case o_source_cart s of
                      None \<Rightarrow> Inr (None, st_carts g)
                    | Some source \<Rightarrow> to_source_cart S source lines now (st_carts g))) (\<lambda>(copy, carts).
       case copy of
         None \<Rightarrow> Inl (OrderingError SourceCartUnavailableError)
       | Some c \<Rightarrow> Inr (c, g\<lparr>st_carts := carts\<rparr>))))"

end
