(* ===== verification/Calendar.thy ===== *)
theory Calendar
  imports Errors
begin

text \<open>
  Calendar months before an instant, in UTC (\<open>monthsBefore\<close> of \<open>shared-kernel/cleanup.ts\<close>), and the part of
  \<open>Date\<close> it uses: the proleptic Gregorian calendar, with the days counted from 1970-01-01. Years are counted from
  March, so the day a leap year adds is the last one of its year, in eras of 400 years.
\<close>

definition MS_PER_DAY :: int where
  "MS_PER_DAY = 86400000"

text \<open>The day of a date; months are 1 to 12.\<close>

definition days_of_civil :: "int \<Rightarrow> int \<Rightarrow> int \<Rightarrow> int" where
  "days_of_civil y m d =
     (let y' = (if m \<le> 2 then y - 1 else y);
          yoe = y' mod 400;
          doy = (153 * (if m > 2 then m - 3 else m + 9) + 2) div 5 + d - 1
      in y' div 400 * 146097 + (yoe * 365 + yoe div 4 - yoe div 100 + doy) - 719468)"

text \<open>The date of a day.\<close>

definition civil_of_days :: "int \<Rightarrow> int \<times> int \<times> int" where
  "civil_of_days z =
     (let doe = (z + 719468) mod 146097;
          yoe = (doe - doe div 1460 + doe div 36524 - doe div 146096) div 365;
          doy = doe - (365 * yoe + yoe div 4 - yoe div 100);
          mp = (5 * doy + 2) div 153;
          m = (if mp < 10 then mp + 3 else mp - 9);
          y = yoe + (z + 719468) div 146097 * 400
      in (if m \<le> 2 then y + 1 else y, m, doy - (153 * mp + 2) div 5 + 1))"

text \<open>The last day of a month is the one before the first of the next.\<close>

definition days_in_month :: "int \<Rightarrow> int \<Rightarrow> int" where
  "days_in_month y m =
     (if m = 12 then days_of_civil (y + 1) 1 1 else days_of_civil y (m + 1) 1) - days_of_civil y m 1"

definition months_before :: "time \<Rightarrow> int \<Rightarrow> time" where
  "months_before now months =
     (case civil_of_days (now div MS_PER_DAY) of
        (y, m, d) \<Rightarrow>
          let month = y * 12 + (m - 1) - months;
              y2 = month div 12;
              m2 = month mod 12 + 1
          in days_of_civil y2 m2 (min d (days_in_month y2 m2)) * MS_PER_DAY + now mod MS_PER_DAY)"

end
