(* ===== verification/Retention.thy ===== *)
theory Retention
  imports Store Calendar
begin

text \<open>
  What happens to the data of the buyers of orders: its anonymization when the buyer asks for it
  (\<open>ordering/application/order-anonymizations.use-case.ts\<close>), the daily retention that blocks it and later
  anonymizes it (\<open>personal-data-retention.ts\<close>), the reading of blocked data (\<open>blocked-order-data.ts\<close>), and the
  access links of guests on the tables of the store. The responses kept for the idempotency of the requests live
  outside these tables and are left out.
\<close>

section \<open>Anonymizing the orders of a buyer\<close>

datatype anonymized_buyer = AnonymizedCustomer id | AnonymizedGuest string string

fun orders_of_buyer :: "anonymized_buyer \<Rightarrow> orders_of" where
  "orders_of_buyer (AnonymizedCustomer c) = OrdersOfCustomer c"
| "orders_of_buyer (AnonymizedGuest email code) = OrdersOfGuest (normalized_contact_email email)"

fun shows_order :: "anonymized_buyer \<Rightarrow> order list \<Rightarrow> bool" where
  "shows_order (AnonymizedCustomer c) orders = True"
| "shows_order (AnonymizedGuest email code) orders =
     list_ex (\<lambda>s. Some (o_public_code s) = parse_public_code code) orders"

definition anonymize_each :: "time \<Rightarrow> store \<Rightarrow> order \<Rightarrow> order result" where
  "anonymize_each at g s = anonymize_order (shipment_status_of (o_id s) g) at s"

fun delete_links_of :: "orders_of \<Rightarrow> store \<Rightarrow> store" where
  "delete_links_of (OrdersOfCustomer c) g = g"
| "delete_links_of (OrdersOfGuest email) g = g\<lparr>st_access := delete_tokens_of email (st_access g)\<rparr>"

definition anonymize_buyer :: "anonymized_buyer \<Rightarrow> time \<Rightarrow> store \<Rightarrow> (nat \<times> store) result" where
  "anonymize_buyer buyer at g =
     (let orders = lock_of (orders_of_buyer buyer) (st_orders g)
      in if \<not> shows_order buyer orders then Inl (NotFoundError ''Guest order'' 0)
         else if orders = [] then Inr (0, g)
         else
           res_bind (res_map (anonymize_each at g) orders) (\<lambda>changed.
           res_bind (res_fold (\<lambda>g s. save_in s g) g changed) (\<lambda>g1.
           res_bind (anonymize_shipments_of (map o_id orders) at (st_shipping g1)) (\<lambda>shipping.
             Inr (length orders, delete_links_of (orders_of_buyer buyer) (g1\<lparr>st_shipping := shipping\<rparr>))))))"

section \<open>The retention\<close>

definition RETENTION_BATCH_SIZE :: nat where
  "RETENTION_BATCH_SIZE = 1000"

record retention_policy =
  rp_enabled :: bool
  rp_operational_months :: int
  rp_blocked_months :: int

record retention_run =
  rn_blocked :: nat
  rn_anonymized :: nat
  rn_failed :: nat

definition block_one :: "time \<Rightarrow> time \<Rightarrow> id \<Rightarrow> store \<Rightarrow> (bool \<times> store) result" where
  "block_one cutoff now i g =
     (case lock_order i (st_orders g) of
        None \<Rightarrow> Inr (False, g)
      | Some s \<Rightarrow>
          let (blocked, t) = block_if_due cutoff now s
          in if \<not> blocked then Inr (False, g)
             else
               res_bind (save_in t g) (\<lambda>g1.
               res_bind (block_shipments_of [i] now (st_shipping g1)) (\<lambda>shipping.
                 Inr (True, g1\<lparr>st_shipping := shipping\<rparr>))))"

definition anonymize_one :: "time \<Rightarrow> time \<Rightarrow> id \<Rightarrow> store \<Rightarrow> (bool \<times> store) result" where
  "anonymize_one cutoff now i g =
     (case lock_order i (st_orders g) of
        None \<Rightarrow> Inr (False, g)
      | Some s \<Rightarrow>
          if is_anonymized s \<or> \<not> concluded_by s cutoff then Inr (False, g)
          else
            res_bind (anonymize_each now g s) (\<lambda>t.
            res_bind (save_in t g) (\<lambda>g1.
            res_bind (anonymize_shipments_of [i] now (st_shipping g1)) (\<lambda>shipping.
            let g2 = g1\<lparr>st_shipping := shipping\<rparr>
            in Inr (True, case (o_customer s, o_contact_email s) of
                            (None, Some email) \<Rightarrow> g2\<lparr>st_access := delete_tokens_of email (st_access g2)\<rparr>
                          | _ \<Rightarrow> g2)))))"

text \<open>Each order in its own transaction: one that fails is logged and counted, and the others go on.\<close>

definition retention_step ::
  "(retention_run \<Rightarrow> retention_run) \<Rightarrow> (id \<Rightarrow> store \<Rightarrow> (bool \<times> store) result) \<Rightarrow> id \<Rightarrow>
     retention_run \<times> store \<Rightarrow> retention_run \<times> store" where
  "retention_step tally step i st =
     (case step i (snd st) of
        Inl e \<Rightarrow> ((fst st)\<lparr>rn_failed := rn_failed (fst st) + 1\<rparr>, snd st)
      | Inr (acted, g) \<Rightarrow> (if acted then tally (fst st) else fst st, g))"

definition run_retention :: "retention_policy \<Rightarrow> time \<Rightarrow> store \<Rightarrow> retention_run \<times> store" where
  "run_retention policy now g =
     (let none = \<lparr>rn_blocked = 0, rn_anonymized = 0, rn_failed = 0\<rparr>
      in if \<not> rp_enabled policy then (none, g)
         else
           let block_by = months_before now (rp_operational_months policy);
               anonymize_by = months_before now (rp_operational_months policy + rp_blocked_months policy);
               st = fold (retention_step (\<lambda>r. r\<lparr>rn_blocked := rn_blocked r + 1\<rparr>) (block_one block_by now))
                      (due_for_blocking block_by RETENTION_BATCH_SIZE (st_orders g)) (none, g)
           in fold (retention_step (\<lambda>r. r\<lparr>rn_anonymized := rn_anonymized r + 1\<rparr>) (anonymize_one anonymize_by now))
                (due_for_anonymization anonymize_by RETENTION_BATCH_SIZE (st_orders (snd st))) st)"

section \<open>Reading blocked data\<close>

record blocked_data =
  bd_contact_email :: string
  bd_address :: "order_address option"
  bd_destination :: "order_address option"

definition read_blocked :: "id \<Rightarrow> store \<Rightarrow> blocked_data result" where
  "read_blocked i g =
     res_bind (found i g) (\<lambda>s.
       case o_contact_email s of
         None \<Rightarrow> Inl (InvalidStateTransitionError (order_status_name (o_status s)) ''read blocked data'')
       | Some email \<Rightarrow>
           if \<not> is_blocked s
           then Inl (InvalidStateTransitionError (order_status_name (o_status s)) ''read blocked data'')
           else Inr \<lparr>bd_contact_email = email, bd_address = o_address s,
                     bd_destination = map_option h_destination (shipment_of_order (o_id s) (st_shipping g))\<rparr>)"

section \<open>The access links of guests\<close>

definition guest_orders_of :: "string \<Rightarrow> store \<Rightarrow> order list" where
  "guest_orders_of email g =
     filter (\<lambda>s. o_contact_email s = Some email \<and> o_customer s = None \<and> \<not> is_blocked s) (od_orders (st_orders g))"

definition has_guest_orders :: "string \<Rightarrow> store \<Rightarrow> bool" where
  "has_guest_orders email g = (guest_orders_of email g \<noteq> [])"

definition MAX_ACCESS_ORDERS :: nat where
  "MAX_ACCESS_ORDERS = 50"

text \<open>Newest first, and those placed together by their identifier.\<close>

definition list_guest_orders :: "string \<Rightarrow> nat \<Rightarrow> store \<Rightarrow> order list" where
  "list_guest_orders email limit g =
     take limit (sort_key (\<lambda>s. - o_placed_at s) (sort_key o_id (guest_orders_of email g)))"

definition issue_access ::
  "(string \<Rightarrow> string) \<Rightarrow> int \<Rightarrow> id \<Rightarrow> string \<Rightarrow> string \<Rightarrow> time \<Rightarrow> store \<Rightarrow> (string option \<times> store) result" where
  "issue_access digest ttl fresh token email now g =
     res_bind (issue_link digest ttl fresh token email (has_guest_orders email g) now (st_access g)) (\<lambda>(sent, ls).
       Inr (sent, g\<lparr>st_access := ls\<rparr>))"

definition redeem_access ::
  "(string \<Rightarrow> string) \<Rightarrow> string \<Rightarrow> time \<Rightarrow> store \<Rightarrow> ((string \<times> order list) \<times> store) result" where
  "redeem_access digest token now g =
     res_bind (redeem_link digest token now (st_access g)) (\<lambda>(email, ls).
       Inr ((email, list_guest_orders email MAX_ACCESS_ORDERS g), g\<lparr>st_access := ls\<rparr>))"

definition clean_access :: "time \<Rightarrow> store \<Rightarrow> store" where
  "clean_access now g = g\<lparr>st_access := snd (clean_access_tokens now (st_access g))\<rparr>"

section \<open>What the other modules ask of Ordering\<close>

definition has_open_orders :: "id \<Rightarrow> store \<Rightarrow> bool" where
  "has_open_orders customer g =
     list_ex (\<lambda>s. o_customer s = Some customer \<and> o_concluded_at s = None) (od_orders (st_orders g))"

datatype store_sale_payment = SalePaid | SalePending | SaleNone

definition PAID_STATUSES :: "order_status list" where
  "PAID_STATUSES = [PAID, AWAITING_MANUAL_FULFILLMENT, SHIPPED, DELIVERED]"

definition sale_payment :: "order \<Rightarrow> store_sale_payment" where
  "sale_payment s =
     (if o_status s \<in> set PAID_STATUSES then SalePaid
      else if o_status s = PENDING_PAYMENT then SalePending else SaleNone)"

text \<open>The sales of the physical store among these orders, oldest first.\<close>

definition store_sales :: "id list \<Rightarrow> store \<Rightarrow> (order \<times> store_sale_payment) list" where
  "store_sales ids g =
     (if ids = [] then []
      else map (\<lambda>s. (s, sale_payment s))
             (sort_key o_placed_at (sort_key o_id
               (filter (\<lambda>s. o_id s \<in> set ids \<and> o_channel s = STORE) (od_orders (st_orders g))))))"

end
