(* ===== verification/StoreSteps.thy ===== *)
theory StoreSteps
  imports Placement Lifecycle Retention CouponTrail
begin

text \<open>
  Everything that happens to the store, one operation at a time: what the buyers and the staff ask, the jobs, and
  the events of Payments and Shipping, which reach Ordering in the background, any time after they were published
  and any number of times. An operation that throws changes nothing.
\<close>

text \<open>What the modules left out of the tables answer, for one store.\<close>

record world =
  wo_ports :: ports
  wo_shop :: shop_ports
  wo_targets :: target_catalog
  wo_digest :: "string \<Rightarrow> string"
  wo_link_ttl :: int
  wo_retention :: retention_policy

datatype store_op =
    PlaceOrder drawn cart_order time
  | PlaceStaffOrder drawn staff_order time
  | AskPayment string payer payment_provider id time
  | RegisterPayment id capture_input id time
  | CancelOrder cancellation id time
  | RetryOrder id id int id time
  | HandOverOrder id id int time
  | HandlePaymentsEvent nat id id time
  | HandleShippingEvent nat time
  | ExpireOrders time
  | RestockOrder restock_request time
  | ReorderOfCustomer id id string time
  | ReorderOfGuest id string string "id option" time
  | ReorderByStaff id id time
  | AnonymizeOrders anonymized_buyer time
  | RetainOrders time
  | IssueAccess id string string time
  | RedeemAccess string time
  | CleanAccess time
  | StockOp inventory_event
  | PaymentsOp payments_op
  | ShippingOp shipping_op
  | PromotionsOp promotions_op
  | CartsOp shop_event

definition variant_known :: "world \<Rightarrow> id \<Rightarrow> bool" where
  "variant_known W v = (po_variant (wo_ports W) v \<noteq> None)"

fun store_step :: "world \<Rightarrow> store \<Rightarrow> store_op \<Rightarrow> store result" where
  "store_step W g (PlaceOrder dr i now) = res_bind (place_order (wo_ports W) dr i now g) (\<lambda>(order, g'). Inr g')"
| "store_step W g (PlaceStaffOrder dr i now) =
     res_bind (place_staff_order (wo_ports W) dr i now g) (\<lambda>(order, g'). Inr g')"
| "store_step W g (AskPayment code payer provider fresh now) =
     res_bind (start_payment_in code payer provider fresh now g) (\<lambda>(answer, g'). Inr g')"
| "store_step W g (RegisterPayment i input fresh now) = capture_in i input fresh now g"
| "store_step W g (CancelOrder i fresh now) = cancel_in i fresh now g"
| "store_step W g (RetryOrder i staff version fresh now) = retry_fulfillment (wo_ports W) i staff version fresh now g"
| "store_step W g (HandOverOrder i staff version now) = hand_over_in i staff version now g"
| "store_step W g (HandlePaymentsEvent n fresh_refund fresh_shipment now) =
     (if n < length (pd_events (st_payments g))
      then on_payments_event (wo_ports W) (pd_events (st_payments g) ! n) fresh_refund fresh_shipment now g else Inr g)"
| "store_step W g (HandleShippingEvent n now) =
     (if n < length (sd_events (st_shipping g))
      then on_shipping_event (sd_events (st_shipping g) ! n) now g else Inr g)"
| "store_step W g (ExpireOrders now) = Inr (snd (expire_due now g))"
| "store_step W g (RestockOrder i now) = res_bind (restock_in i now g) (\<lambda>(movements, g'). Inr g')"
| "store_step W g (ReorderOfCustomer fresh customer code now) =
     res_bind (reorder_for_customer (wo_shop W) fresh customer code now g) (\<lambda>(copy, g'). Inr g')"
| "store_step W g (ReorderOfGuest fresh code email cart now) =
     res_bind (reorder_for_guest (wo_shop W) fresh code email cart now g) (\<lambda>(copy, g'). Inr g')"
| "store_step W g (ReorderByStaff fresh i now) =
     res_bind (reorder_for_staff (wo_shop W) fresh i now g) (\<lambda>(copy, g'). Inr g')"
| "store_step W g (AnonymizeOrders buyer at) = res_bind (anonymize_buyer buyer at g) (\<lambda>(orders, g'). Inr g')"
| "store_step W g (RetainOrders now) = Inr (snd (run_retention (wo_retention W) now g))"
| "store_step W g (IssueAccess fresh token email now) =
     res_bind (issue_access (wo_digest W) (wo_link_ttl W) fresh token email now g) (\<lambda>(sent, g'). Inr g')"
| "store_step W g (RedeemAccess token now) = res_bind (redeem_access (wo_digest W) token now g) (\<lambda>(access, g'). Inr g')"
| "store_step W g (CleanAccess now) = Inr (clean_access now g)"
| "store_step W g (StockOp ev) = res_bind (inventory_step (variant_known W) (st_stock g) ev) (\<lambda>x. Inr (g\<lparr>st_stock := x\<rparr>))"
| "store_step W g (PaymentsOp op) = res_bind (payments_step (st_payments g) op) (\<lambda>x. Inr (g\<lparr>st_payments := x\<rparr>))"
| "store_step W g (ShippingOp op) = res_bind (shipping_step (st_shipping g) op) (\<lambda>x. Inr (g\<lparr>st_shipping := x\<rparr>))"
| "store_step W g (PromotionsOp op) =
     res_bind (promotions_step (wo_targets W) (st_promotions g) op) (\<lambda>x. Inr (g\<lparr>st_promotions := x\<rparr>))"
| "store_step W g (CartsOp ev) = res_bind (shop_step (wo_shop W) (st_carts g) ev) (\<lambda>x. Inr (g\<lparr>st_carts := x\<rparr>))"

text \<open>
  What each module leaves to others: the staff never reserves, collects, creates shipments or counts uses by itself,
  only Ordering does, through its own operations. New identifiers are new.
\<close>

fun of_staff_stock :: "inventory_event \<Rightarrow> bool" where
  "of_staff_stock (Receive v w q remark staff now) = True"
| "of_staff_stock (Adjust v w q reason remark staff now) = True"
| "of_staff_stock (DeactivateWarehouse w) = True"
| "of_staff_stock _ = False"

fun of_staff_payments :: "payments_op \<Rightarrow> bool" where
  "of_staff_payments (RegisterRefund i reference remark version staff now) = True"
| "of_staff_payments (ConfigurePayments enabled version) = True"
| "of_staff_payments _ = False"

fun of_staff_shipping :: "shipping_op \<Rightarrow> bool" where
  "of_staff_shipping (DispatchShipment i version own now) = True"
| "of_staff_shipping (DeliverShipment i version now) = True"
| "of_staff_shipping (FailShipment i version remark now) = True"
| "of_staff_shipping (ReturnShipment i version remark now) = True"
| "of_staff_shipping (TrackShipment i version tracking) = True"
| "of_staff_shipping (ConfigureMethod i version) = True"
| "of_staff_shipping _ = False"

fun may_happen :: "store \<Rightarrow> store_op \<Rightarrow> bool" where
  "may_happen g (RetryOrder i staff version fresh now) = (find_shipment fresh (st_shipping g) = None)"
| "may_happen g (HandlePaymentsEvent n fresh_refund fresh_shipment now) =
     (find_shipment fresh_shipment (st_shipping g) = None)"
| "may_happen g (StockOp ev) = of_staff_stock ev"
| "may_happen g (PaymentsOp op) = of_staff_payments op"
| "may_happen g (ShippingOp op) = of_staff_shipping op"
| "may_happen g (PromotionsOp op) = staff_promotions op"
| "may_happen g (CartsOp ev) = brings_whole_lines ev"
| "may_happen g _ = True"

text \<open>A store that opens with its warehouses, its settings and nothing else.\<close>

definition new_store :: "warehouse list \<Rightarrow> bool \<Rightarrow> (shipping_settings \<times> int) option \<Rightarrow> store" where
  "new_store warehouses manual m =
     \<lparr>st_orders = \<lparr>od_orders = [], od_history = []\<rparr>, st_stock = new_inventory warehouses,
      st_payments = new_payments manual, st_shipping = new_shipping m, st_promotions = no_promotions,
      st_carts = [], st_access = [], st_events = []\<rparr>"

text \<open>The stores it can become.\<close>

inductive reachable :: "world \<Rightarrow> store \<Rightarrow> bool" for W where
  opens: "reachable W (new_store warehouses manual m)"
| steps: "reachable W g \<Longrightarrow> may_happen g op \<Longrightarrow> store_step W g op = Inr g' \<Longrightarrow> reachable W g'"

text \<open>Operations one after the other, those that throw or may not happen left out.\<close>

primrec go_through :: "world \<Rightarrow> store \<Rightarrow> store_op list \<Rightarrow> store" where
  "go_through W g [] = g"
| "go_through W g (op # ops) =
     go_through W (if may_happen g op then attempt (store_step W) g op else g) ops"

lemma go_through_reachable: "reachable W g \<Longrightarrow> reachable W (go_through W g ops)"
proof (induction ops arbitrary: g)
  case Nil
  then show ?case by simp
next
  case (Cons op ops)
  then show ?case
    by (auto simp: attempt_def split: sum.split intro: reachable.steps)
qed

end
