(* ===== verification/StoreInvariant.thy ===== *)
theory StoreInvariant
  imports Modules CouponTrail StoreSteps
begin

text \<open>
  What holds of the store as a whole, whatever happens to it: each order is backed by the payment, the stock and the
  shipment its status and dates speak of, each shipment belongs to an order that asked for it, and the uses of a
  coupon are the orders that hold one.
\<close>

definition order_backed :: "payments_db \<Rightarrow> inventory \<Rightarrow> shipping_db \<Rightarrow> order \<Rightarrow> bool" where
  "order_backed pay stock ship s \<longleftrightarrow>
     valid_money (tot_grand (o_totals s)) \<and>
     (o_paid_at s \<noteq> None \<longrightarrow> collected (o_id s) (tot_grand (o_totals s)) pay) \<and>
     (o_status s = CANCELLED \<and> o_paid_at s \<noteq> None \<longrightarrow> being_refunded (o_id s) pay) \<and>
     (o_status s = REFUNDED \<longrightarrow> refunded (o_id s) pay) \<and>
     (o_status s \<in> {PAID, SHIPPED, DELIVERED} \<longrightarrow>
        is_committed (o_id s) stock \<and> (o_fulfillment s = SHIPPING \<longrightarrow> has_shipment (o_id s) ship)) \<and>
     (o_status s = SHIPPED \<longrightarrow> on_its_way (o_id s) ship) \<and>
     (o_status s = DELIVERED \<and> o_fulfillment s = SHIPPING \<longrightarrow> arrived (o_id s) ship)"

text \<open>A shipment is of an order on its way, or was cancelled with its order.\<close>

definition shipment_fits :: "shipment_status \<Rightarrow> order_status \<Rightarrow> bool" where
  "shipment_fits h s =
     (if h = ShipmentCancelled then s \<in> {CANCELLED, REFUNDED} else s \<in> {PAID, SHIPPED, DELIVERED})"

definition shipments_fit :: "order list \<Rightarrow> shipping_db \<Rightarrow> bool" where
  "shipments_fit os d \<longleftrightarrow>
     (\<forall>h\<in>set (sd_shipments d). \<exists>s\<in>set os. o_id s = h_order h \<and> shipment_fits (h_status h) (o_status s))"

abbreviation backed_in :: "store \<Rightarrow> order \<Rightarrow> bool" where
  "backed_in g \<equiv> order_backed (st_payments g) (st_stock g) (st_shipping g)"

abbreviation orders_in :: "store \<Rightarrow> order list" where
  "orders_in g \<equiv> od_orders (st_orders g)"

definition store_ok :: "store \<Rightarrow> bool" where
  "store_ok g \<longleftrightarrow>
     wf_orders (st_orders g) \<and> modules_ok g \<and> wf_promotions (st_promotions g) \<and>
     (\<forall>s\<in>set (orders_in g). backed_in g s) \<and> shipments_fit (orders_in g) (st_shipping g) \<and>
     coupons_agree (orders_in g) (st_promotions g)"

lemma new_store_ok: "store_ok (new_store warehouses manual m)"
  using no_promotions_ok
  by (simp add: store_ok_def new_store_def wf_orders_def modules_ok_def shipping_told_def new_shipping_wf
      shipments_fit_def coupons_agree_def uses_of_def find_promotion_row_def new_inventory_wf)
    (simp add: new_shipping_def no_promotions_def)

section \<open>Calls to the modules\<close>

lemma backed_call:
  assumes step: "moved_on T g g'" and backed: "backed_in g s"
  shows "backed_in g' s"
proof -
  have pay: "payments_keep (st_payments g) (st_payments g')" and stock: "commits_stay (st_stock g) (st_stock g')"
    and ship: "shipments_keep T (st_shipping g) (st_shipping g')" using step by (simp_all add: moved_on_def)
  have committed: "is_committed (o_id s) (st_stock g) \<Longrightarrow> is_committed (o_id s) (st_stock g')"
    using stock by (simp add: commits_stay_def)
  note old = backed [unfolded order_backed_def]
  show ?thesis
    unfolding order_backed_def
  proof (intro conjI impI)
    show "valid_money (tot_grand (o_totals s))" using old by blast
    show "collected (o_id s) (tot_grand (o_totals s)) (st_payments g')" if "o_paid_at s \<noteq> None"
      using old that by (intro payments_keep_facts(1) [OF pay]) blast
    show "being_refunded (o_id s) (st_payments g')" if "o_status s = CANCELLED \<and> o_paid_at s \<noteq> None"
      using old that by (intro payments_keep_facts(2) [OF pay]) blast
    show "refunded (o_id s) (st_payments g')" if "o_status s = REFUNDED"
      using old that by (intro payments_keep_facts(3) [OF pay]) blast
    show "is_committed (o_id s) (st_stock g')" if "o_status s \<in> {PAID, SHIPPED, DELIVERED}"
      using old that by (intro committed) blast
    show "has_shipment (o_id s) (st_shipping g')" if "o_status s \<in> {PAID, SHIPPED, DELIVERED}" "o_fulfillment s = SHIPPING"
      using old that by (intro shipments_keep_facts(3) [OF ship]) blast
    show "on_its_way (o_id s) (st_shipping g')" if "o_status s = SHIPPED"
      using old that by (intro shipments_keep_facts(1) [OF ship]) blast
    show "arrived (o_id s) (st_shipping g')" if "o_status s = DELIVERED \<and> o_fulfillment s = SHIPPING"
      using old that by (intro shipments_keep_facts(2) [OF ship]) blast
  qed
qed

lemma order_backed_stored [simp]: "order_backed pay stock ship (stored s) = order_backed pay stock ship s"
  by (simp add: order_backed_def)

text \<open>Shipments of other orders fit as before.\<close>

lemma fit_elsewhere:
  assumes "shipments_keep T d u" and "shipments_fit os d" and "h \<in> set (sd_shipments u)" and "h_order h \<notin> T"
  shows "\<exists>s\<in>set os. o_id s = h_order h \<and> shipment_fits (h_status h) (o_status s)"
proof -
  from assms(1,3,4) obtain r where r: "r \<in> set (sd_shipments d)" "shipment_kept r h"
      "h_status r = ShipmentCancelled \<longleftrightarrow> h_status h = ShipmentCancelled"
    unfolding shipments_keep_def by blast
  from assms(2) r(1) obtain s where "s \<in> set os" "o_id s = h_order r" "shipment_fits (h_status r) (o_status s)"
    unfolding shipments_fit_def by blast
  with r show ?thesis by (auto simp: shipment_kept_def shipment_fits_def)
qed

lemma fit_call: "moved_on {} g g' \<Longrightarrow> shipments_fit os (st_shipping g) \<Longrightarrow> shipments_fit os (st_shipping g')"
  unfolding moved_on_def by (subst shipments_fit_def) (blast intro: fit_elsewhere)

lemma call_keeps_ok:
  assumes ok: "store_ok g" and step: "call {} g g'"
  shows "store_ok g'"
proof -
  have moved: "moved_on {} g g'" and promotions: "st_promotions g' = st_promotions g"
    using step by (simp_all add: call_def)
  have same: "st_orders g' = st_orders g" "modules_ok g'" using moved by (simp_all add: moved_on_def)
  have "\<forall>s\<in>set (orders_in g). backed_in g' s" using ok backed_call [OF moved] by (simp add: store_ok_def)
  with ok same promotions fit_call [OF moved] show ?thesis by (simp add: store_ok_def)
qed

text \<open>Nothing of it is in the carts, the links and the events.\<close>

lemma store_ok_other [simp]:
  "store_ok (emit e g) = store_ok g" "store_ok (g\<lparr>st_carts := cs\<rparr>) = store_ok g" "store_ok (g\<lparr>st_access := ls\<rparr>) = store_ok g"
  by (simp_all add: store_ok_def modules_ok_def emit_def)

section \<open>An order changed\<close>

text \<open>What an order becomes by its own operations, with the changes of its status in its history.\<close>

definition changed_from :: "order \<Rightarrow> order \<Rightarrow> bool" where
  "changed_from s t \<longleftrightarrow>
     placed_order.truncate t = placed_order.truncate s \<and> wf_order t \<and> follows (o_status s) (o_changes t) (o_status t)"

lemma changed_from_row:
  assumes "store_ok g" and "s \<in> set (orders_in g)"
  shows "changed_from s s"
  using assms by (auto simp: store_ok_def wf_orders_def changed_from_def clean_order_def)

lemma changed_from_step: "changed_from s t \<Longrightarrow> order_step t ev = Inr u \<Longrightarrow> changed_from s u"
  unfolding changed_from_def using order_step_snapshot order_step_wf order_step_history by metis

lemma changed_fields:
  assumes "changed_from s t"
  shows "o_id t = o_id s" "o_totals t = o_totals s" "o_fulfillment t = o_fulfillment s"
    "o_promotion t = o_promotion s" "order_coupon t = order_coupon s"
  using truncate_fields [of t s] assms by (simp_all add: changed_from_def order_coupon_def)

lemma found_SomeD: "found i g = Inr s \<Longrightarrow> s \<in> set (orders_in g) \<and> o_id s = i"
  by (auto simp: found_def dest: lock_order_SomeD split: option.splits)

lemma release_stored [simp]: "release_coupon (stored t) = release_coupon t"
  by (rule ext) (simp add: release_coupon_def)

lemma recount_stored [simp]: "recount_coupon (stored t) = recount_coupon t"
  by (rule ext) (simp add: recount_coupon_def)

text \<open>
  The one step every operation on an order ends with: after its calls, the order is saved; what is left to show is
  that it is backed, that its shipments fit it, and that the uses of coupons follow.
\<close>

lemma change_order_ok:
  assumes ok: "store_ok g" and s: "s \<in> set (orders_in g)" and t: "changed_from s t" "o_changed t"
    and step: "moved_on {o_id s} g g1" and promotions: "wf_promotions (st_promotions g1)"
    and save: "save_in t g1 = Inr g2"
    and backed: "backed_in g1 t"
    and fits: "\<And>h. h \<in> set (sd_shipments (st_shipping g1)) \<Longrightarrow> h_order h = o_id s \<Longrightarrow>
      shipment_fits (h_status h) (o_status t)"
    and coupons: "coupons_agree (map (\<lambda>x. if o_id x = o_id (stored t) then stored t else x) (orders_in g)) (st_promotions g1)"
  shows "store_ok g2"
proof -
  have wf: "wf_orders (st_orders g)" and ids: "distinct (map o_id (orders_in g))"
    using ok by (simp_all add: store_ok_def wf_orders_def)
  have same: "st_orders g1 = st_orders g" "modules_ok g1" "shipments_keep {o_id s} (st_shipping g) (st_shipping g1)"
    using step by (simp_all add: moved_on_def)
  note fields = changed_fields [OF t(1)]
  have truncate: "placed_order.truncate t = placed_order.truncate s" using t(1) by (simp add: changed_from_def)
  from save same(1) obtain d where d: "save_order t (st_orders g) = Inr d" "g2 = g1\<lparr>st_orders := d\<rparr>"
    by (auto simp: save_in_def res_simps)
  have rows: "d = replace_order (stored t) (o_changes t) (st_orders g)"
    using save_order_replace [OF wf s truncate d(1)] t(2) by simp
  have "wf_orders d" unfolding rows
    by (rule replace_order_wf [OF wf s]) (use t(1) fields in \<open>simp_all add: changed_from_def\<close>)
  moreover have orders: "od_orders d = map (\<lambda>x. if o_id x = o_id t then stored t else x) (orders_in g)"
    by (simp add: rows replace_order_def)
  have "\<forall>x\<in>set (od_orders d). backed_in g1 x"
    unfolding orders using backed ok backed_call [OF step] by (auto simp: store_ok_def)
  moreover have "shipments_fit (od_orders d) (st_shipping g1)"
    unfolding shipments_fit_def
  proof
    fix h assume h: "h \<in> set (sd_shipments (st_shipping g1))"
    show "\<exists>x\<in>set (od_orders d). o_id x = h_order h \<and> shipment_fits (h_status h) (o_status x)"
    proof (cases "h_order h = o_id s")
      case True
      have "stored t \<in> set (od_orders d)" unfolding orders using s fields(1) by force
      with fits [OF h True] True fields(1) show ?thesis by (intro bexI [of _ "stored t"]) simp_all
    next
      case False
      with fit_elsewhere [OF same(3) _ h] ok obtain x where x: "x \<in> set (orders_in g)" "o_id x = h_order h"
          "shipment_fits (h_status h) (o_status x)" by (auto simp: store_ok_def)
      with False fields(1) have "x \<in> set (od_orders d)" unfolding orders by force
      with x show ?thesis by blast
    qed
  qed
  ultimately show ?thesis
    using same(2) promotions coupons orders by (simp add: store_ok_def d(2) modules_ok_def)
qed

end
