(* ===== verification/LifecycleOk.thy ===== *)
theory LifecycleOk
  imports StoreInvariant
begin

text \<open>
  Every operation on an order keeps the store as a whole sound: cancelling, retrying, handing over, paying, shipping,
  delivering, refunding, expiring, hiding and anonymizing it.
\<close>

lemma release_wf: "wf_promotions (st_promotions g) \<Longrightarrow> wf_promotions (st_promotions (release_coupon t g))"
  by (auto simp: release_coupon_def release_use_def remove_use_wf split: option.split)

lemma recount_wf: "wf_promotions (st_promotions g) \<Longrightarrow> wf_promotions (st_promotions (recount_coupon t g))"
  by (auto simp: recount_coupon_def recount_def add_use_wf split: option.split)

lemma rows_of:
  assumes "store_ok g" and "s \<in> set (orders_in g)"
  shows "backed_in g s" and "wf_order s" and "modules_ok g" and "wf_promotions (st_promotions g)"
    and "distinct (map o_id (orders_in g))" and "coupons_agree (orders_in g) (st_promotions g)"
  using assms by (simp_all add: store_ok_def wf_orders_def)

text \<open>What the shipments of an order say of its status.\<close>

lemma fits_row:
  assumes "store_ok g" and "s \<in> set (orders_in g)" and "h \<in> set (sd_shipments (st_shipping g))" and "h_order h = o_id s"
  shows "shipment_fits (h_status h) (o_status s)"
proof -
  from assms(1,3) obtain x where x: "x \<in> set (orders_in g)" "o_id x = h_order h" "shipment_fits (h_status h) (o_status x)"
    by (auto simp: store_ok_def shipments_fit_def)
  have "x = s" by (rule same_key [OF rows_of(5) [OF assms(1,2)] x(1) assms(2)]) (use x(2) assms(4) in simp)
  with x show ?thesis by simp
qed

lemma no_shipment_row:
  assumes "store_ok g" and "s \<in> set (orders_in g)"
    and "o_status s \<in> {PENDING_PAYMENT, AWAITING_MANUAL_FULFILLMENT, EXPIRED}"
  shows "\<not> has_shipment (o_id s) (st_shipping g)"
proof
  assume "has_shipment (o_id s) (st_shipping g)"
  then obtain h where "h \<in> set (sd_shipments (st_shipping g))" "h_order h = o_id s" by (auto simp: has_shipment_def)
  from fits_row [OF assms(1,2) this] assms(3) show False by (auto simp: shipment_fits_def split: if_splits)
qed

text \<open>
  An order changed after calls that leave its shipments alone, its coupon used by it before and after, or neither.
\<close>

lemma plain_change_ok:
  assumes ok: "store_ok g" and s: "s \<in> set (orders_in g)" and t: "changed_from s t" "o_changed t"
    and step: "call {} g g1" and save: "save_in t g1 = Inr g2" and backed: "backed_in g1 t"
    and fits: "\<And>h. shipment_fits h (o_status s) \<Longrightarrow> shipment_fits h (o_status t)"
    and use: "o_status s \<in> {EXPIRED, CANCELLED, REFUNDED} \<longleftrightarrow> o_status t \<in> {EXPIRED, CANCELLED, REFUNDED}"
  shows "store_ok g2"
proof -
  note row = rows_of [OF ok s] and fields = changed_fields [OF t(1)]
  have moved: "moved_on {} g g1" and promotions: "st_promotions g1 = st_promotions g" using step by (simp_all add: call_def)
  have wider: "moved_on {o_id s} g g1" using moved by (auto simp: moved_on_def shipments_keep_def)
  have "shipments_fit (orders_in g) (st_shipping g1)"
    using fit_call [OF moved] ok by (simp add: store_ok_def)
  then have shipments: "shipment_fits (h_status h) (o_status s)"
    if "h \<in> set (sd_shipments (st_shipping g1))" "h_order h = o_id s" for h
  proof -
    from \<open>shipments_fit (orders_in g) (st_shipping g1)\<close> that(1) obtain x where x: "x \<in> set (orders_in g)"
        "o_id x = h_order h" "shipment_fits (h_status h) (o_status x)" unfolding shipments_fit_def by blast
    have "x = s" by (rule same_key [OF row(5) x(1) s]) (use x(2) that(2) in simp)
    with x(3) show ?thesis by simp
  qed
  show ?thesis
  proof (rule change_order_ok [OF ok s t wider _ save backed])
    show "wf_promotions (st_promotions g1)" using row(4) promotions by simp
    show "shipment_fits (h_status h) (o_status t)"
      if "h \<in> set (sd_shipments (st_shipping g1))" "h_order h = o_id s" for h by (rule fits [OF shipments [OF that]])
    show "coupons_agree (map (\<lambda>x. if o_id x = o_id (stored t) then stored t else x) (orders_in g)) (st_promotions g1)"
      unfolding promotions by (rule coupons_same [OF row(6,5) s]) (use fields use in simp_all)
  qed
qed

lemma changed_by:
  assumes "store_ok g" and "s \<in> set (orders_in g)" and "order_step s ev = Inr t"
  shows "changed_from s t"
  by (rule changed_from_step [OF changed_from_row [OF assms(1,2)] assms(3)])

section \<open>The staff\<close>

lemma hand_over_ok:
  assumes ok: "store_ok g" and step: "hand_over_in i staff version now g = Inr g'"
  shows "store_ok g'"
proof -
  from step obtain s t where s: "found i g = Inr s" and t: "hand_over staff now s = Inr t" and save: "save_in t g = Inr g'"
    by (auto simp: hand_over_in_def res_simps)
  have row: "s \<in> set (orders_in g)" using found_SomeD [OF s] by simp
  note old = rows_of [OF ok row]
  have change: "changed_from s t" by (rule changed_by [OF ok row, of "HandOver staff now"]) (use t in simp)
  from t have parts: "o_status s = PAID" "o_status t = DELIVERED" "o_fulfillment s = IN_STORE" "o_changed t" "o_paid_at t = o_paid_at s"
    by (auto simp: hand_over_def res_simps move_order_def split: if_splits)
  show ?thesis
  proof (rule plain_change_ok [OF ok row change parts(4) call_refl [OF old(3)] save])
    show "backed_in g t" using old(1) parts changed_fields [OF change] by (simp add: order_backed_def)
  qed (use parts in \<open>simp_all add: shipment_fits_def split: if_splits\<close>)
qed

text \<open>A cancellation first frees the stock and the payment of an unpaid order, or stops the shipment and starts the refund.\<close>

lemma cancel_calls:
  assumes ok: "store_ok g" and row: "s \<in> set (orders_in g)"
    and g1: "(if o_status s = PENDING_PAYMENT
       then res_bind (free_stock (o_id s) ReservationReleased now g) (cancel_pending_for (o_id s) now)
       else res_bind (cancel_shipment_for (o_id s) now g) (start_refund_for fresh (o_id s) now)) = Inr g1"
  shows "call {o_id s} g g1 \<and> (o_status s \<noteq> PENDING_PAYMENT \<longrightarrow> being_refunded (o_id s) (st_payments g1))
      \<and> (\<forall>h\<in>set (sd_shipments (st_shipping g1)). h_order h = o_id s \<longrightarrow> h_status h = ShipmentCancelled)"
proof -
  note old = rows_of [OF ok row]
  show ?thesis
  proof (cases "o_status s = PENDING_PAYMENT")
    case True
    with g1 obtain g0 where g0: "free_stock (o_id s) ReservationReleased now g = Inr g0" "cancel_pending_for (o_id s) now g0 = Inr g1"
      by (auto simp: res_simps)
    have a: "call {o_id s} g g0 \<and> st_shipping g0 = st_shipping g" using free_call [OF old(3) g0(1)] by simp
    have b: "call {o_id s} g0 g1 \<and> st_shipping g1 = st_shipping g0"
      using cancel_pending_call [OF _ g0(2)] a by (auto dest: call_ok)
    with a call_trans no_shipment_row [OF ok row] True show ?thesis by (auto simp: has_shipment_def)
  next
    case False
    with g1 obtain g0 where g0: "cancel_shipment_for (o_id s) now g = Inr g0" "start_refund_for fresh (o_id s) now g0 = Inr g1"
      by (auto simp: res_simps)
    note a = cancel_shipment_call [OF old(3) g0(1)]
    then have "modules_ok g0" by (auto dest: call_ok)
    note b = start_refund_call [OF this g0(2), of "{o_id s}"]
    from a b show ?thesis by (auto intro: call_trans)
  qed
qed

lemma cancel_ok:
  assumes ok: "store_ok g" and step: "cancel_in i fresh now g = Inr g'"
  shows "store_ok g'"
proof -
  from step obtain s t g1 g3 g4 where s: "found (cn_order i) g = Inr s"
    and only_paid: "\<not> (cn_restock i \<and> o_status s \<noteq> PAID)" and t: "cancel_order (cn_staff i) (cn_reason i) now s = Inr t"
    and g1: "(if o_status s = PENDING_PAYMENT
       then res_bind (free_stock (o_id t) ReservationReleased now g) (cancel_pending_for (o_id t) now)
       else res_bind (cancel_shipment_for (o_id t) now g) (start_refund_for fresh (o_id t) now)) = Inr g1"
    and g3: "(if cn_restock i then res_bind (lines_to_restock None t) (\<lambda>lines.
         res_bind (restock_stock (o_id t) Order.restock_reason.ORDER_CANCELLED (Some (cn_reason i)) (cn_staff i)
            lines None now (release_coupon t g1)) (\<lambda>(movements, g3). Inr g3)) else Inr (release_coupon t g1)) = Inr g3"
    and save: "save_in t g3 = Inr g4" and g': "g' = emit (OrderCancelled (o_id t) (o_status s \<noteq> PENDING_PAYMENT) now) g4"
    unfolding cancel_in_def Let_def res_bind_eq_Inr if_Inl_eq_Inr sum.inject(2) by blast
  have row: "s \<in> set (orders_in g)" using found_SomeD [OF s] by simp
  note old = rows_of [OF ok row]
  have change: "changed_from s t" by (rule changed_by [OF ok row, of "Cancel (cn_staff i) (cn_reason i) now"]) (use t in simp)
  note fields = changed_fields [OF change]
  from t have parts: "o_status s \<in> {PENDING_PAYMENT, PAID, AWAITING_MANUAL_FULFILLMENT}" "o_status t = CANCELLED"
      "o_changed t" "o_paid_at t = o_paid_at s"
    by (auto simp: cancel_order_def res_simps move_order_def Let_def)
  note calls = cancel_calls [OF ok row g1 [unfolded fields(1)]]
  have moved1: "moved_on {o_id s} g (release_coupon t g1)" using calls by (simp add: call_def)
  have after: "call {o_id s} (release_coupon t g1) g3 \<and> st_shipping g3 = st_shipping (release_coupon t g1)"
  proof (cases "cn_restock i")
    case True
    with g3 obtain lines ms where "restock_stock (o_id t) Order.restock_reason.ORDER_CANCELLED (Some (cn_reason i)) (cn_staff i)
            lines None now (release_coupon t g1) = Inr (ms, g3)"
      by (auto simp: res_simps)
    then show ?thesis by (rule restock_call [OF moved_on_ok [OF moved1]])
  next
    case False
    with g3 moved_on_ok [OF moved1] show ?thesis by (simp add: call_refl)
  qed
  have moved: "moved_on {o_id s} g g3" by (rule moved_on_trans [OF moved1]) (use after in \<open>simp add: call_def\<close>)
  have promotions: "st_promotions g3 = st_promotions (release_coupon t g1)" using after by (simp add: call_def)
  have same: "st_promotions (release_coupon t g1) = st_promotions (release_coupon t g)"
    using calls by (simp add: release_coupon_def call_def split: option.split)
  have ships: "st_shipping g3 = st_shipping g1" using after by (simp add: release_coupon_def split: option.splits)
  have "store_ok g4"
  proof (rule change_order_ok [OF ok row change parts(3) moved _ save])
    show "wf_promotions (st_promotions g3)" unfolding promotions same by (rule release_wf [OF old(4)])
    show "backed_in g3 t"
    proof -
      have "backed_in g3 s" by (rule backed_call [OF moved old(1)])
      moreover have "being_refunded (o_id s) (st_payments g3)" if "o_paid_at s \<noteq> None"
      proof -
        have "o_status s \<noteq> PENDING_PAYMENT" using that old(2) by (auto simp: order_wf)
        with calls have "being_refunded (o_id s) (st_payments (release_coupon t g1))"
          by (simp add: release_coupon_def split: option.split)
        then show ?thesis using after payments_keep_facts(2) by (auto simp: call_def moved_on_def)
      qed
      ultimately show ?thesis using parts fields by (simp add: order_backed_def)
    qed
    show "shipment_fits (h_status h) (o_status t)" if "h \<in> set (sd_shipments (st_shipping g3))" "h_order h = o_id s" for h
      using that calls parts(2) ships by (simp add: shipment_fits_def)
    show "coupons_agree (map (\<lambda>x. if o_id x = o_id (stored t) then stored t else x) (orders_in g)) (st_promotions g3)"
      unfolding promotions same
      using coupons_released [OF old(6,5) row, of "stored t"] fields parts by auto
  qed
  then show ?thesis by (simp add: g')
qed

section \<open>Payments\<close>

text \<open>An order that becomes paid, its stock committed, with its shipment created when it ships.\<close>

lemma becomes_paid:
  assumes ok: "store_ok g" and s: "s \<in> set (orders_in g)" and t: "changed_from s t" "o_changed t"
    and status: "o_status s \<in> {PENDING_PAYMENT, AWAITING_MANUAL_FULFILLMENT, EXPIRED}" "o_status t = PAID"
    and step: "moved_on {} g g1" "st_shipping g1 = st_shipping g"
    and facts: "is_committed (o_id s) (st_stock g1)" "collected (o_id s) (tot_grand (o_totals s)) (st_payments g1)"
    and promotions: "wf_promotions (st_promotions g1)"
      "coupons_agree (map (\<lambda>x. if o_id x = o_id (stored t) then stored t else x) (orders_in g)) (st_promotions g1)"
    and create: "(if o_fulfillment t = SHIPPING then create_for fresh t g1 else Inr g1) = Inr g2"
    and fresh: "find_shipment fresh (st_shipping g) = None" and save: "save_in t g2 = Inr g3"
  shows "store_ok g3"
proof -
  note row = rows_of [OF ok s] and fields = changed_fields [OF t(1)]
  have none: "\<not> has_shipment (o_id s) (st_shipping g1)" using no_shipment_row [OF ok s status(1)] step(2) by simp
  have moved: "moved_on {o_id s} g g1" using step(1) by (auto simp: moved_on_def shipments_keep_def)
  have created: "call {o_id s} g1 g2 \<and> (o_fulfillment t = SHIPPING \<longrightarrow> has_shipment (o_id s) (st_shipping g2))
      \<and> (\<forall>h\<in>set (sd_shipments (st_shipping g2)). h_order h = o_id s \<longrightarrow> h_status h = ShipmentPending)"
  proof (cases "o_fulfillment t = SHIPPING")
    case True
    with create have "create_for fresh t g1 = Inr g2" by simp
    from create_call [OF moved_on_ok [OF step(1)] this] none fresh step(2) fields(1) show ?thesis by simp
  next
    case False
    with create none moved_on_ok [OF step(1)] show ?thesis by (auto simp: call_refl has_shipment_def)
  qed
  have moved2: "moved_on {o_id s} g1 g2" and same: "st_promotions g2 = st_promotions g1" using created by (simp_all add: call_def)
  show ?thesis
  proof (rule change_order_ok [OF ok s t moved_on_trans [OF moved moved2] _ save])
    have "is_committed (o_id s) (st_stock g2)" "collected (o_id s) (tot_grand (o_totals s)) (st_payments g2)"
      using facts moved2 payments_keep_facts(1) by (auto simp: moved_on_def commits_stay_def)
    with row(1) created fields status(2) show "backed_in g2 t" by (simp add: order_backed_def)
    show "shipment_fits (h_status h) (o_status t)" if "h \<in> set (sd_shipments (st_shipping g2))" "h_order h = o_id s" for h
      using created that status(2) by (simp add: shipment_fits_def)
  qed (use promotions same in simp_all)
qed

lemma retry_ok:
  assumes ok: "store_ok g" and step: "retry_fulfillment P i staff version fresh now g = Inr g'"
    and fresh: "find_shipment fresh (st_shipping g) = None"
  shows "store_ok g'"
proof -
  from step obtain s receipt x outcome g1 t g2 g3 where s: "found i g = Inr s"
    and r: "reserve_order (o_id s) (stock_lines s) (o_warehouse s) (po_reservation_ttl P) now (st_stock g) = Inr (receipt, x)"
    and c: "commit_stock (o_id s) now (g\<lparr>st_stock := x\<rparr>) = Inr (outcome, g1)"
    and t: "fulfill_manually staff (rc_reservation receipt) now s = Inr t"
    and create: "(if o_fulfillment t = SHIPPING then create_for fresh t g1 else Inr g1) = Inr g2"
    and save: "save_in t g2 = Inr g3" and g': "g' = emit (OrderPaid (o_id t) now) g3"
    unfolding retry_fulfillment_def res_bind_eq_Inr sum.inject(2) by (auto simp: res_bind_eq_Inr)
  have row: "s \<in> set (orders_in g)" using found_SomeD [OF s] by simp
  note old = rows_of [OF ok row]
  have change: "changed_from s t"
    by (rule changed_by [OF ok row, of "FulfillManually staff (rc_reservation receipt) now"]) (use t in simp)
  note fields = changed_fields [OF change]
  from t have parts: "o_status s = AWAITING_MANUAL_FULFILLMENT" "o_status t = PAID" "o_changed t" "o_paid_at t = o_paid_at s"
    by (auto simp: fulfill_manually_def assert_fulfillable_def res_simps move_order_def)
  have paid: "o_paid_at s \<noteq> None" using old(2) parts(1) by (simp add: order_wf)
  have a: "call {} g (g\<lparr>st_stock := x\<rparr>)" "has_active (o_id s) x" using reserve_call [OF old(3) r] by blast+
  have b: "call {} (g\<lparr>st_stock := x\<rparr>) g1" "st_shipping g1 = st_shipping g" "is_committed (o_id s) (st_stock g1)"
    using commit_call [OF call_ok [OF a(1)] c] a(2) by auto
  have both: "call {} g g1" by (rule call_trans [OF a(1) b(1)])
  have "store_ok g3"
  proof (rule becomes_paid [OF ok row change parts(3) _ parts(2) call_moved [OF both] b(2,3) _ _ _ create fresh save])
    have "backed_in g1 s" by (rule backed_call [OF call_moved [OF both] old(1)])
    with paid show "collected (o_id s) (tot_grand (o_totals s)) (st_payments g1)" by (simp add: order_backed_def)
    have same: "st_promotions g1 = st_promotions g" using both by (simp add: call_def)
    show "wf_promotions (st_promotions g1)" using old(4) same by simp
    show "coupons_agree (map (\<lambda>x. if o_id x = o_id (stored t) then stored t else x) (orders_in g)) (st_promotions g1)"
      unfolding same by (rule coupons_same [OF old(6,5) row]) (use fields parts in simp_all)
  qed (use parts in simp)
  then show ?thesis by (simp add: g')
qed

lemma late_payment_calls:
  assumes ok: "store_ok g" and row: "s \<in> set (orders_in g)" and live: "modules_ok g0"
    and step: "late_payment P s captured_at now g0 = Inr (outcome, t, g1)"
  shows "changed_from s t" and "o_changed t" and "o_paid_at t \<noteq> None" and "call {} g0 g1"
    and "st_shipping g1 = st_shipping g0" and "o_status s \<in> {PENDING_PAYMENT, EXPIRED}"
    and "outcome = OutcomePaid \<and> o_status t = PAID \<and> is_committed (o_id s) (st_stock g1)
       \<or> outcome = AwaitingManual \<and> o_status t = AWAITING_MANUAL_FULFILLMENT"
proof -
  from step consider
    (waits) receipt where "await_manual_fulfillment captured_at now s = Inr t" "outcome = AwaitingManual"
      "g1 = g0 \<or> reserve_if_available P s now g0 = Inr (receipt, g1)"
  | (paid) r g2 c where "reserve_if_available P s now g0 = Inr (Some r, g2)" "commit_stock (o_id s) now g2 = Inr (c, g1)"
      "mark_paid captured_at now (Some (rc_reservation r)) s = Inr t" "outcome = OutcomePaid"
    by (auto simp: late_payment_def res_simps split: if_splits option.splits)
  then have "changed_from s t \<and> o_changed t \<and> o_paid_at t \<noteq> None \<and> call {} g0 g1 \<and> st_shipping g1 = st_shipping g0
    \<and> o_status s \<in> {PENDING_PAYMENT, EXPIRED}
    \<and> (outcome = OutcomePaid \<and> o_status t = PAID \<and> is_committed (o_id s) (st_stock g1)
       \<or> outcome = AwaitingManual \<and> o_status t = AWAITING_MANUAL_FULFILLMENT)"
  proof cases
    case waits
    have "changed_from s t"
      by (rule changed_by [OF ok row, of "AwaitManualFulfillment captured_at now"]) (use waits in simp)
    moreover have "call {} g0 g1 \<and> st_shipping g1 = st_shipping g0"
      using waits(3) reserve_if_available_call [OF live] call_refl [OF live] by auto
    ultimately show ?thesis
      using waits(1,2) by (auto simp: await_manual_fulfillment_def res_simps move_order_def)
  next
    case paid
    have "changed_from s t"
      by (rule changed_by [OF ok row, of "MarkPaid captured_at now (Some (rc_reservation r))"]) (use paid in simp)
    moreover have a: "call {} g0 g2 \<and> st_shipping g2 = st_shipping g0 \<and> has_active (o_id s) (st_stock g2)"
      using reserve_if_available_call [OF live paid(1)] by simp
    moreover have b: "call {} g2 g1 \<and> st_shipping g1 = st_shipping g2 \<and> is_committed (o_id s) (st_stock g1)"
      using commit_call [OF _ paid(2)] a by (auto dest: call_ok)
    ultimately show ?thesis
      using paid(3,4) call_trans by (auto simp: mark_paid_def res_simps move_order_def Let_def)
  qed
  then show "changed_from s t" and "o_changed t" and "o_paid_at t \<noteq> None" and "call {} g0 g1"
    and "st_shipping g1 = st_shipping g0" and "o_status s \<in> {PENDING_PAYMENT, EXPIRED}"
    and "outcome = OutcomePaid \<and> o_status t = PAID \<and> is_committed (o_id s) (st_stock g1)
       \<or> outcome = AwaitingManual \<and> o_status t = AWAITING_MANUAL_FULFILLMENT" by blast+
qed

end
