(* ===== verification/PaymentOk.thy ===== *)
theory PaymentOk
  imports LifecycleOk
begin

text \<open>
  A captured payment keeps the store as a whole sound, whatever the status of its order.
\<close>

section \<open>A captured payment\<close>

text \<open>The three things a payment does to its order.\<close>

datatype pay_effect = BecomesPaid | Waits | StaysCancelled

fun effect_holds :: "pay_effect \<Rightarrow> payment_outcome \<Rightarrow> order \<Rightarrow> order \<Rightarrow> store \<Rightarrow> bool" where
  "effect_holds BecomesPaid outcome s t g =
     (outcome = OutcomePaid \<and> o_status s \<in> {PENDING_PAYMENT, EXPIRED} \<and> o_status t = PAID
      \<and> is_committed (o_id s) (st_stock g))"
| "effect_holds Waits outcome s t g =
     (outcome = AwaitingManual \<and> o_status s \<in> {PENDING_PAYMENT, EXPIRED} \<and> o_status t = AWAITING_MANUAL_FULFILLMENT)"
| "effect_holds StaysCancelled outcome s t g =
     (outcome = RecordedOnCancelled \<and> o_status s = CANCELLED \<and> o_status t = CANCELLED
      \<and> being_refunded (o_id s) (st_payments g))"

lemma pay_order_effect:
  assumes ok: "store_ok g" and row: "s \<in> set (orders_in g)"
    and step: "pay_order P s captured_at fresh_refund now g = Inr (Some (outcome, t, g1))"
  shows "changed_from s t" and "o_changed t" and "moved_on {} g g1" and "st_shipping g1 = st_shipping g"
    and "wf_promotions (st_promotions g1)"
    and "coupons_agree (map (\<lambda>x. if o_id x = o_id (stored t) then stored t else x) (orders_in g)) (st_promotions g1)"
    and "\<exists>effect. effect_holds effect outcome s t g1"
proof -
  note old = rows_of [OF ok row]
  have agree: "coupons_agree (map (\<lambda>x. if o_id x = o_id (stored t) then stored t else x) (orders_in g)) (st_promotions g)"
    if "changed_from s t" "o_status s \<in> {EXPIRED, CANCELLED, REFUNDED} \<longleftrightarrow> o_status t \<in> {EXPIRED, CANCELLED, REFUNDED}"
    by (rule coupons_same [OF old(6,5) row]) (use that changed_fields [OF that(1)] in simp_all)
  have "changed_from s t \<and> o_changed t \<and> moved_on {} g g1 \<and> st_shipping g1 = st_shipping g \<and> wf_promotions (st_promotions g1)
    \<and> coupons_agree (map (\<lambda>x. if o_id x = o_id (stored t) then stored t else x) (orders_in g)) (st_promotions g1)
    \<and> (\<exists>effect. effect_holds effect outcome s t g1)"
  proof (cases "o_status s")
    case PENDING_PAYMENT
    with step obtain c g0 where c: "commit_stock (o_id s) now g = Inr (c, g0)"
      and rest: "(if c = NotActive then res_bind (late_payment P s captured_at now g0) (\<lambda>r. Inr (Some r))
         else res_bind (mark_paid captured_at now None s) (\<lambda>t. Inr (Some (OutcomePaid, t, g0)))) = Inr (Some (outcome, t, g1))"
      by (auto simp: pay_order_def res_simps)
    note a = commit_call [OF old(3) c]
    show ?thesis
    proof (cases "c = NotActive")
      case True
      with rest have late: "late_payment P s captured_at now g0 = Inr (outcome, t, g1)" by (auto simp: res_simps)
      from a have calls: "call {} g g0" by blast
      note parts = late_payment_calls [OF ok row call_ok [OF calls] late]
      have both: "call {} g g1" by (rule call_trans [OF calls parts(4)])
      then have "st_promotions g1 = st_promotions g" by (simp add: call_def)
      moreover have "effect_holds (if outcome = OutcomePaid then BecomesPaid else Waits) outcome s t g1"
        using parts(6,7) by auto
      moreover from this have "\<exists>effect. effect_holds effect outcome s t g1" by (rule exI)
      moreover have live: "o_status t \<notin> {EXPIRED, CANCELLED, REFUNDED}" using parts(7) by auto
      ultimately show ?thesis
        using parts(1,2,5) a old(4) call_moved [OF both] agree [OF parts(1)] PENDING_PAYMENT live by simp
    next
      case False
      with rest have t: "mark_paid captured_at now None s = Inr t" "outcome = OutcomePaid" "g1 = g0"
        by (auto simp: res_simps)
      have change: "changed_from s t" by (rule changed_by [OF ok row, of "MarkPaid captured_at now None"]) (use t in simp)
      have parts: "o_changed t" "o_status t = PAID"
        using t(1) by (auto simp: mark_paid_def res_simps move_order_def Let_def)
      have calls: "call {} g g0" and facts: "st_shipping g0 = st_shipping g" "is_committed (o_id s) (st_stock g0)"
        using a False by auto
      have "effect_holds BecomesPaid outcome s t g1" using PENDING_PAYMENT parts facts t by simp
      then have "\<exists>effect. effect_holds effect outcome s t g1" by (rule exI)
      then show ?thesis
        using change parts calls facts old(4) agree [OF change] PENDING_PAYMENT t(3) by (simp add: call_def)
    qed
  next
    case EXPIRED
    with step obtain g0 where late: "late_payment P s captured_at now g = Inr (outcome, t, g0)"
      and g1: "g1 = recount_coupon t g0" by (auto simp: pay_order_def res_simps)
    note parts = late_payment_calls [OF ok row old(3) late]
    note fields = changed_fields [OF parts(1)]
    have same: "st_promotions (recount_coupon t g0) = st_promotions (recount_coupon t g)"
      using parts(4) by (simp add: recount_coupon_def call_def split: option.split)
    have ships: "st_shipping g1 = st_shipping g0" "st_stock g1 = st_stock g0"
      by (simp_all add: g1 recount_coupon_def split: option.split)
    have "coupons_agree (map (\<lambda>x. if o_id x = o_id (stored t) then stored t else x) (orders_in g)) (st_promotions g1)"
      unfolding g1 same
      using coupons_recounted [OF old(6,5) row, of "stored t"] fields EXPIRED parts(7) by auto
    moreover have "wf_promotions (st_promotions g1)" unfolding g1 same by (rule recount_wf [OF old(4)])
    moreover have "moved_on {} g g1" using parts(4) by (simp add: g1 call_def)
    moreover have "effect_holds (if outcome = OutcomePaid then BecomesPaid else Waits) outcome s t g1"
      using parts(6,7) ships by auto
    moreover from this have "\<exists>effect. effect_holds effect outcome s t g1" by (rule exI)
    ultimately show ?thesis using parts ships by simp
  next
    case CANCELLED
    with step have t: "record_payment_after_cancellation captured_at s = Inr (True, t)"
      and g1: "start_refund_for fresh_refund (o_id s) now g = Inr g1" "outcome = RecordedOnCancelled"
      by (auto simp: pay_order_def res_simps split: if_splits)
    have change: "changed_from s t"
      by (rule changed_by [OF ok row, of "RecordPaymentAfterCancellation captured_at"]) (use t in simp)
    have parts: "o_changed t" "o_status t = CANCELLED"
      using t CANCELLED by (auto simp: record_payment_after_cancellation_def res_simps split: if_splits)
    note a = start_refund_call [OF old(3) g1(1), of "{}"]
    have "effect_holds StaysCancelled outcome s t g1" using CANCELLED parts a g1(2) by simp
    then have "\<exists>effect. effect_holds effect outcome s t g1" by (rule exI)
    then show ?thesis
      using change parts a old(4) agree [OF change] CANCELLED by (simp add: call_def)
  qed (use step in \<open>simp_all add: pay_order_def\<close>)
  then show "changed_from s t" and "o_changed t" and "moved_on {} g g1" and "st_shipping g1 = st_shipping g"
    and "wf_promotions (st_promotions g1)"
    and "coupons_agree (map (\<lambda>x. if o_id x = o_id (stored t) then stored t else x) (orders_in g)) (st_promotions g1)"
    and "\<exists>effect. effect_holds effect outcome s t g1" by blast+
qed

lemma record_payment_ok:
  assumes ok: "store_ok g" and step: "record_payment P i paid captured_at fresh_refund fresh now g = Inr (outcome, g')"
    and collected: "collected i paid (st_payments g)" and fresh: "find_shipment fresh (st_shipping g) = None"
  shows "store_ok g'"
proof -
  from step obtain s where s: "found i g = Inr s"
    and rest: "(if \<not> money_equals paid (tot_grand (o_totals s)) then Inr (AmountMismatch, g)
       else res_bind (pay_order P s captured_at fresh_refund now g) (\<lambda>r.
           case r of
             None \<Rightarrow> Inr (PaymentAlreadyProcessed, g)
           | Some (outcome, t, g1) \<Rightarrow>
               res_bind (if outcome = OutcomePaid \<and> o_fulfillment t = SHIPPING then create_for fresh t g1
                         else Inr g1) (\<lambda>g2.
               res_bind (save_in t g2) (\<lambda>g3.
                 Inr (outcome, if outcome = OutcomePaid then emit (OrderPaid (o_id t) now) g3 else g3))))) = Inr (outcome, g')"
    unfolding record_payment_def res_bind_eq_Inr by blast
  have row: "s \<in> set (orders_in g)" "o_id s = i" using found_SomeD [OF s] by auto
  note old = rows_of [OF ok row(1)]
  show ?thesis
  proof (cases "money_equals paid (tot_grand (o_totals s))")
    case False
    with rest ok show ?thesis by simp
  next
    case True
    then have total: "paid = tot_grand (o_totals s)" by (simp add: money_equals_def money_eqI)
    from rest True obtain r where r: "pay_order P s captured_at fresh_refund now g = Inr r"
      by (auto simp: res_simps)
    show ?thesis
    proof (cases r)
      case None
      with rest True r ok show ?thesis by simp
    next
      case (Some x)
      obtain o1 t g1 where x: "x = (o1, t, g1)" by (cases x)
      with rest True r Some obtain g2 g3 where
        create: "(if o1 = OutcomePaid \<and> o_fulfillment t = SHIPPING then create_for fresh t g1 else Inr g1) = Inr g2"
        and save: "save_in t g2 = Inr g3"
        and g': "g' = (if o1 = OutcomePaid then emit (OrderPaid (o_id t) now) g3 else g3)"
        by (auto simp: res_bind_eq_Inr)
      note effect = pay_order_effect [OF ok row(1) r [unfolded Some x]]
      note fields = changed_fields [OF effect(1)]
      have paid: "collected (o_id s) (tot_grand (o_totals s)) (st_payments g1)"
        using collected payments_keep_facts(1) effect(3) total row(2) by (auto simp: moved_on_def)
      have "store_ok g3"
      proof -
        from effect(7) obtain e where e: "effect_holds e o1 s t g1" by blast
        show ?thesis
        proof (cases e)
          case BecomesPaid
          with e have b: "o1 = OutcomePaid" "o_status s \<in> {PENDING_PAYMENT, EXPIRED}" "o_status t = PAID"
            "is_committed (o_id s) (st_stock g1)" by simp_all
          from b(1) create have create: "(if o_fulfillment t = SHIPPING then create_for fresh t g1 else Inr g1) = Inr g2" by simp
          show ?thesis
            by (rule becomes_paid [OF ok row(1) effect(1,2) _ b(3) effect(3,4) b(4) paid effect(5,6) create fresh save])
              (use b(2) in blast)
        next
          case Waits
          with e have w: "o1 \<noteq> OutcomePaid" "o_status s \<in> {PENDING_PAYMENT, EXPIRED}" "o_status t = AWAITING_MANUAL_FULFILLMENT"
            by simp_all
          with create have g2: "g2 = g1" by simp
          have wider: "moved_on {o_id s} g g1" using effect(3) by (auto simp: moved_on_def shipments_keep_def)
          show ?thesis
          proof (rule change_order_ok [OF ok row(1) effect(1,2) wider effect(5) save [unfolded g2] _ _ effect(6)])
            show "backed_in g1 t" using paid fields w old(1) by (simp add: order_backed_def)
            show "shipment_fits (h_status h) (o_status t)"
              if "h \<in> set (sd_shipments (st_shipping g1))" "h_order h = o_id s" for h
              using no_shipment_row [OF ok row(1)] w(2) that effect(4) by (auto simp: has_shipment_def)
          qed
        next
          case StaysCancelled
          with e have w: "o1 \<noteq> OutcomePaid" "o_status s = CANCELLED" "o_status t = CANCELLED"
            "being_refunded (o_id s) (st_payments g1)" by simp_all
          with create have g2: "g2 = g1" by simp
          have wider: "moved_on {o_id s} g g1" using effect(3) by (auto simp: moved_on_def shipments_keep_def)
          show ?thesis
          proof (rule change_order_ok [OF ok row(1) effect(1,2) wider effect(5) save [unfolded g2] _ _ effect(6)])
            show "backed_in g1 t" using paid fields w old(1) by (simp add: order_backed_def)
            show "shipment_fits (h_status h) (o_status t)"
              if "h \<in> set (sd_shipments (st_shipping g1))" "h_order h = o_id s" for h
              using fits_row [OF ok row(1)] w(2,3) that effect(4) by auto
          qed
        qed
      qed
      then show ?thesis by (simp add: g')
    qed
  qed
qed

end
