(* ===== verification/EventsOk.thy ===== *)
theory EventsOk
  imports PaymentOk
begin

text \<open>
  What a refund, a shipment on its way, delivered or returned does to its order, and what the expiry does.
\<close>

section \<open>Refunds and shipments\<close>

text \<open>An order changed by its own operations alone, with no call to another module.\<close>

lemma own_change_ok:
  assumes ok: "store_ok g" and s: "s \<in> set (orders_in g)" and t: "changed_from s t" "o_changed t"
    and save: "save_in t g = Inr g'" and backed: "backed_in g t"
    and fits: "\<And>h. shipment_fits h (o_status s) \<Longrightarrow> shipment_fits h (o_status t)"
    and use: "o_status s \<in> {EXPIRED, CANCELLED, REFUNDED} \<longleftrightarrow> o_status t \<in> {EXPIRED, CANCELLED, REFUNDED}"
  shows "store_ok g'"
  by (rule plain_change_ok [OF ok s t call_refl [OF rows_of(3) [OF ok s]] save backed fits use])

lemma record_refund_ok:
  assumes ok: "store_ok g" and step: "record_refund i at now g = Inr (progress, g')" and told: "refunded i (st_payments g)"
  shows "store_ok g'"
proof -
  from step obtain s where s: "found i g = Inr s"
    and rest: "(if o_status s = REFUNDED then Inr (AlreadyProcessed, g)
       else if o_status s \<noteq> CANCELLED \<or> o_paid_at s = None then Inr (NotExpected, g)
       else res_bind (mark_refunded at now s) (\<lambda>t. res_bind (save_in t g) (\<lambda>g1. Inr (Moved, g1)))) = Inr (progress, g')"
    unfolding record_refund_def res_bind_eq_Inr by blast
  have row: "s \<in> set (orders_in g)" "o_id s = i" using found_SomeD [OF s] by auto
  note old = rows_of [OF ok row(1)]
  from rest consider "g' = g" | t where "mark_refunded at now s = Inr t" "save_in t g = Inr g'"
    by (auto simp: res_simps split: if_splits)
  then show ?thesis
  proof cases
    case 1
    with ok show ?thesis by simp
  next
    case 2
    have change: "changed_from s t" by (rule changed_by [OF ok row(1), of "MarkRefunded at now"]) (use 2 in simp)
    from 2(1) have parts: "o_status s = CANCELLED" "o_status t = REFUNDED" "o_changed t" "o_paid_at t = o_paid_at s"
      by (auto simp: mark_refunded_def move_order_def split: if_splits)
    show ?thesis
    proof (rule own_change_ok [OF ok row(1) change parts(3) 2(2)])
      show "backed_in g t" using old(1) parts told row(2) changed_fields [OF change] by (simp add: order_backed_def)
    qed (use parts in \<open>simp_all add: shipment_fits_def split: if_splits\<close>)
  qed
qed

lemma record_shipment_ok:
  assumes ok: "store_ok g" and step: "record_shipment i at now g = Inr (progress, g')" and told: "on_its_way i (st_shipping g)"
  shows "store_ok g'"
proof -
  from step obtain s where s: "found i g = Inr s"
    and rest: "(if o_status s = SHIPPED \<or> o_status s = DELIVERED then Inr (AlreadyProcessed, g)
       else if o_status s \<noteq> PAID then Inr (NotExpected, g)
       else res_bind (mark_shipped at now s) (\<lambda>t. res_bind (save_in t g) (\<lambda>g1. Inr (Moved, g1)))) = Inr (progress, g')"
    unfolding record_shipment_def res_bind_eq_Inr by blast
  have row: "s \<in> set (orders_in g)" "o_id s = i" using found_SomeD [OF s] by auto
  note old = rows_of [OF ok row(1)]
  from rest consider "g' = g" | t where "mark_shipped at now s = Inr t" "save_in t g = Inr g'"
    by (auto simp: res_simps split: if_splits)
  then show ?thesis
  proof cases
    case 1
    with ok show ?thesis by simp
  next
    case 2
    have change: "changed_from s t" by (rule changed_by [OF ok row(1), of "MarkShipped at now"]) (use 2 in simp)
    from 2(1) have parts: "o_status s = PAID" "o_status t = SHIPPED" "o_changed t" "o_paid_at t = o_paid_at s"
      by (auto simp: mark_shipped_def res_simps move_order_def)
    show ?thesis
    proof (rule own_change_ok [OF ok row(1) change parts(3) 2(2)])
      show "backed_in g t" using old(1) parts told row(2) changed_fields [OF change] by (simp add: order_backed_def)
    qed (use parts in \<open>simp_all add: shipment_fits_def split: if_splits\<close>)
  qed
qed

lemma arrived_on_its_way: "arrived i d \<Longrightarrow> on_its_way i d"
  by (auto simp: arrived_def on_its_way_def)

lemma record_delivery_ok:
  assumes ok: "store_ok g" and step: "record_delivery i left at now g = Inr (progress, g')" and told: "arrived i (st_shipping g)"
  shows "store_ok g'"
proof -
  from step obtain s where s: "found i g = Inr s"
    and rest: "(if o_status s = DELIVERED then Inr (AlreadyProcessed, g)
       else if o_status s \<noteq> PAID \<and> o_status s \<noteq> SHIPPED then Inr (NotExpected, g)
       else res_bind (if o_status s = PAID then mark_shipped left now s else Inr s) (\<lambda>t.
            res_bind (mark_delivered at now t) (\<lambda>u. res_bind (save_in u g) (\<lambda>g1. Inr (Moved, g1))))) = Inr (progress, g')"
    unfolding record_delivery_def res_bind_eq_Inr by blast
  have row: "s \<in> set (orders_in g)" "o_id s = i" using found_SomeD [OF s] by auto
  note old = rows_of [OF ok row(1)]
  from rest consider "g' = g"
    | t u where "(if o_status s = PAID then mark_shipped left now s else Inr s) = Inr t" "o_status s \<in> {PAID, SHIPPED}"
        "mark_delivered at now t = Inr u" "save_in u g = Inr g'"
    by (auto simp: res_bind_eq_Inr split: if_splits)
  then show ?thesis
  proof cases
    case 1
    with ok show ?thesis by simp
  next
    case 2
    have first: "changed_from s t" "o_paid_at t = o_paid_at s"
    proof -
      show "changed_from s t"
        using 2(1) changed_by [OF ok row(1), of "MarkShipped left now"] changed_from_row [OF ok row(1)]
        by (auto split: if_splits)
      show "o_paid_at t = o_paid_at s" using 2(1) by (auto simp: mark_shipped_def res_simps move_order_def split: if_splits)
    qed
    have change: "changed_from s u" by (rule changed_from_step [OF first(1), of "MarkDelivered at now"]) (use 2 in simp)
    from 2(3) first(2) have parts: "o_status u = DELIVERED" "o_changed u" "o_paid_at u = o_paid_at s"
      by (auto simp: mark_delivered_def res_simps move_order_def)
    show ?thesis
    proof (rule own_change_ok [OF ok row(1) change parts(2) 2(4)])
      show "backed_in g u" using old(1) parts 2(2) told row(2) changed_fields [OF change] by (auto simp: order_backed_def)
      show "shipment_fits h (o_status u)" if "shipment_fits h (o_status s)" for h
        using that parts 2(2) by (auto simp: shipment_fits_def split: if_splits)
    qed (use parts 2(2) in auto)
  qed
qed

text \<open>A change that leaves the status and the paid date alone: a return, a block, an anonymization.\<close>

lemma quiet_change_ok:
  assumes ok: "store_ok g" and s: "s \<in> set (orders_in g)" and t: "changed_from s t" "o_changed t"
    and save: "save_in t g = Inr g'" and same: "o_status t = o_status s" "o_paid_at t = o_paid_at s"
  shows "store_ok g'"
proof (rule own_change_ok [OF ok s t save])
  show "backed_in g t" using rows_of(1) [OF ok s] same changed_fields [OF t(1)] by (simp add: order_backed_def)
qed (use same in simp_all)

lemma record_return_ok:
  assumes ok: "store_ok g" and step: "record_return_in i at g = Inr (recorded, g')"
  shows "store_ok g'"
proof -
  from step obtain s where s: "found i g = Inr s"
    and rest: "(let (recorded, t) = record_return at s
       in if \<not> recorded then Inr (False, g) else res_bind (save_in t g) (\<lambda>g1. Inr (True, g1))) = Inr (recorded, g')"
    unfolding record_return_in_def res_bind_eq_Inr by blast
  have row: "s \<in> set (orders_in g)" using found_SomeD [OF s] by simp
  obtain b t where r: "record_return at s = (b, t)" by (cases "record_return at s")
  show ?thesis
  proof (cases b)
    case False
    with r rest ok show ?thesis by simp
  next
    case True
    with r rest have save: "save_in t g = Inr g'" by (auto simp: res_simps)
    have change: "changed_from s t" by (rule changed_by [OF ok row, of "RecordReturn at"]) (use r in simp)
    from r True have "o_changed t" "o_status t = o_status s" "o_paid_at t = o_paid_at s"
      by (auto simp: record_return_def split: if_splits)
    with quiet_change_ok [OF ok row change _ save] show ?thesis by simp
  qed
qed

section \<open>The handlers of the events\<close>

lemma money_of_paid: "money_of (Whole (amount m)) (currency m) = Inr x \<Longrightarrow> x = m"
  by (auto simp: money_of_def split: if_splits)

lemma on_payments_event_ok:
  assumes ok: "store_ok g" and told: "e \<in> set (pd_events (st_payments g))"
    and step: "on_payments_event P e fresh_refund fresh now g = Inr g'" and fresh: "find_shipment fresh (st_shipping g) = None"
  shows "store_ok g'"
proof -
  have wf: "wf_payments (st_payments g)" using ok by (simp add: store_ok_def modules_ok_def)
  show ?thesis
  proof (cases e)
    case (PaymentCapturedEvent i order m at)
    with step obtain x outcome where x: "money_of (Whole (amount m)) (currency m) = Inr x"
      and r: "record_payment P order x at fresh_refund fresh now g = Inr (outcome, g')"
      by (auto simp: on_payments_event_def res_simps)
    have "collected order m (st_payments g)" using captured_event [OF wf] told PaymentCapturedEvent by blast
    with record_payment_ok [OF ok r _ fresh] money_of_paid [OF x] show ?thesis by simp
  next
    case (RefundCompletedEvent r i order m at)
    with step obtain progress where r: "record_refund order at now g = Inr (progress, g')"
      by (auto simp: on_payments_event_def res_simps)
    have "refunded order (st_payments g)" using refund_event [OF wf] told RefundCompletedEvent by blast
    with record_refund_ok [OF ok r] show ?thesis .
  qed
qed

lemma on_shipping_event_ok:
  assumes ok: "store_ok g" and told: "e \<in> set (sd_events (st_shipping g))" and step: "on_shipping_event e now g = Inr g'"
  shows "store_ok g'"
proof -
  have e: "event_true (st_shipping g) e" using ok told by (simp add: store_ok_def modules_ok_def shipping_told_def)
  show ?thesis
  proof (cases e)
    case (ShipmentDispatchedEvent i order carrier tracking own at)
    with step obtain progress where "record_shipment order at now g = Inr (progress, g')"
      by (auto simp: on_shipping_event_def res_simps)
    from record_shipment_ok [OF ok this] e ShipmentDispatchedEvent show ?thesis by simp
  next
    case (ShipmentDeliveredEvent i order dispatched at)
    with step obtain left progress where "record_delivery order left at now g = Inr (progress, g')"
      by (auto simp: on_shipping_event_def res_simps split: option.splits)
    from record_delivery_ok [OF ok this] e ShipmentDeliveredEvent show ?thesis by simp
  next
    case (ShipmentReturnedEvent i order at)
    with step obtain recorded where "record_return_in order at g = Inr (recorded, g')"
      by (auto simp: on_shipping_event_def res_simps)
    then show ?thesis by (rule record_return_ok [OF ok])
  qed
qed

section \<open>The expiry\<close>

lemma expire_one_ok:
  assumes ok: "store_ok g" and step: "expire_one now i g = Inr (expired, g')"
  shows "store_ok g'"
proof (cases "lock_order i (st_orders g)")
  case None
  with step ok show ?thesis by (simp add: expire_one_def)
next
  case (Some s)
  have row: "s \<in> set (orders_in g)" "o_id s = i" using lock_order_SomeD [OF Some] by auto
  note old = rows_of [OF ok row(1)]
  obtain due t where t: "expire_if_due now s = (due, t)" by (cases "expire_if_due now s")
  show ?thesis
  proof (cases due)
    case False
    with step Some t ok show ?thesis by (simp add: expire_one_def)
  next
    case True
    with step Some t obtain g1 g2 where free: "free_stock (o_id t) ReservationExpired now g = Inr g1"
      and save: "save_in t (release_coupon t g1) = Inr g2" and g': "g' = emit (expired_event t now) g2"
      by (auto simp: expire_one_def res_simps)
    have change: "changed_from s t" by (rule changed_by [OF ok row(1), of "ExpireIfDue now"]) (use t in simp)
    note fields = changed_fields [OF change]
    from t True have parts: "o_status s = PENDING_PAYMENT" "o_status t = EXPIRED" "o_changed t" "o_paid_at t = o_paid_at s"
      by (auto simp: expire_if_due_def move_order_def split: if_splits)
    have calls: "call {o_id s} g g1" "st_shipping g1 = st_shipping g" using free_call [OF old(3) free] by simp_all
    have moved: "moved_on {o_id s} g (release_coupon t g1)" using calls(1) by (simp add: call_def)
    have same: "st_promotions (release_coupon t g1) = st_promotions (release_coupon t g)"
      using calls(1) by (simp add: release_coupon_def call_def split: option.split)
    have ships: "st_shipping (release_coupon t g1) = st_shipping g"
      using calls(2) by (simp add: release_coupon_def split: option.split)
    have "store_ok g2"
    proof (rule change_order_ok [OF ok row(1) change parts(3) moved _ save])
      show "wf_promotions (st_promotions (release_coupon t g1))" unfolding same by (rule release_wf [OF old(4)])
      have "backed_in (release_coupon t g1) s" by (rule backed_call [OF moved old(1)])
      then show "backed_in (release_coupon t g1) t" using parts fields by (simp add: order_backed_def)
      show "shipment_fits (h_status h) (o_status t)"
        if "h \<in> set (sd_shipments (st_shipping (release_coupon t g1)))" "h_order h = o_id s" for h
        using that no_shipment_row [OF ok row(1)] parts(1) ships by (auto simp: has_shipment_def)
      show "coupons_agree (map (\<lambda>x. if o_id x = o_id (stored t) then stored t else x) (orders_in g))
          (st_promotions (release_coupon t g1))"
        unfolding same using coupons_released [OF old(6,5) row(1), of "stored t"] fields parts by simp
    qed
    then show ?thesis by (simp add: g')
  qed
qed

lemma expire_due_ok:
  assumes "store_ok g"
  shows "store_ok (snd (expire_due now g))"
proof -
  have "store_ok (snd (expire_step now i st))" if "store_ok (snd st)" for i st
    using that expire_one_ok [OF that] by (auto simp: expire_step_def split: sum.split)
  then have "store_ok (snd st) \<Longrightarrow> store_ok (snd (fold (expire_step now) is st))" for "is" st
    by (induction "is" arbitrary: st) simp_all
  then show ?thesis using assms by (simp add: expire_due_def)
qed

end
