(* ===== verification/BuyersOk.thy ===== *)
theory BuyersOk
  imports EventsOk
begin

text \<open>
  The retention and the anonymizations keep the store as a whole sound: they hide the data of the buyers, in the
  orders and in their shipments, and nothing else.
\<close>

section \<open>Hiding\<close>

lemma anonymize_changes:
  assumes "store_ok g" and "s \<in> set (orders_in g)" and "anonymize_order shipment at s = Inr t"
  shows "changed_from s t" and "o_changed t" and "o_status t = o_status s" and "o_paid_at t = o_paid_at s"
proof -
  show "changed_from s t" by (rule changed_by [OF assms(1,2), of "Anonymize shipment at"]) (use assms(3) in simp)
  show "o_changed t" and "o_status t = o_status s" and "o_paid_at t = o_paid_at s"
    using assms(3) by (auto simp: anonymize_order_def split: if_splits)
qed

lemma hide_shipments_ok:
  assumes ok: "store_ok g" and step: "anonymize_shipments_of is at (st_shipping g) = Inr x
    \<or> block_shipments_of is at (st_shipping g) = Inr x"
  shows "store_ok (g\<lparr>st_shipping := x\<rparr>)"
proof -
  have live: "modules_ok g" using ok by (simp add: store_ok_def)
  from step obtain hide where "hide = AnonymizeShipmentsOf is at \<or> hide = BlockShipmentsOf is at"
      "shipping_step (st_shipping g) hide = Inr x" by force
  from call_keeps_ok [OF ok hide_call [OF live this]] show ?thesis .
qed

lemma delete_links_ok [simp]: "store_ok (delete_links_of who g) = store_ok g"
  by (cases who) simp_all

section \<open>The retention\<close>

lemma block_one_ok:
  assumes ok: "store_ok g" and step: "block_one cutoff now i g = Inr (acted, g')"
  shows "store_ok g'"
proof (cases "lock_order i (st_orders g)")
  case None
  with step ok show ?thesis by (simp add: block_one_def)
next
  case (Some s)
  have row: "s \<in> set (orders_in g)" using lock_order_SomeD [OF Some] by simp
  obtain b t where t: "block_if_due cutoff now s = (b, t)" by (cases "block_if_due cutoff now s")
  show ?thesis
  proof (cases b)
    case False
    with step Some t ok show ?thesis by (simp add: block_one_def)
  next
    case True
    with step Some t obtain g1 x where save: "save_in t g = Inr g1"
      and x: "block_shipments_of [i] now (st_shipping g1) = Inr x" and g': "g' = g1\<lparr>st_shipping := x\<rparr>"
      by (auto simp: block_one_def res_simps)
    have change: "changed_from s t" by (rule changed_by [OF ok row, of "BlockIfDue cutoff now"]) (use t in simp)
    have "o_changed t" "o_status t = o_status s" "o_paid_at t = o_paid_at s"
      using t True by (auto simp: block_if_due_def split: if_splits)
    with quiet_change_ok [OF ok row change _ save] have "store_ok g1" by simp
    with hide_shipments_ok x show ?thesis unfolding g' by blast
  qed
qed

lemma anonymize_one_ok:
  assumes ok: "store_ok g" and step: "anonymize_one cutoff now i g = Inr (acted, g')"
  shows "store_ok g'"
proof (cases "lock_order i (st_orders g)")
  case None
  with step ok show ?thesis by (simp add: anonymize_one_def)
next
  case (Some s)
  have row: "s \<in> set (orders_in g)" using lock_order_SomeD [OF Some] by simp
  show ?thesis
  proof (cases "is_anonymized s \<or> \<not> concluded_by s cutoff")
    case True
    with step Some ok show ?thesis by (simp add: anonymize_one_def)
  next
    case False
    with step Some obtain t g1 x where t: "anonymize_each now g s = Inr t" and save: "save_in t g = Inr g1"
      and x: "anonymize_shipments_of [i] now (st_shipping g1) = Inr x"
      and g': "g' = (case (o_customer s, o_contact_email s) of
                       (None, Some email) \<Rightarrow> g1\<lparr>st_shipping := x, st_access := delete_tokens_of email (st_access (g1\<lparr>st_shipping := x\<rparr>))\<rparr>
                     | _ \<Rightarrow> g1\<lparr>st_shipping := x\<rparr>)"
      by (auto simp: anonymize_one_def Let_def res_simps)
    note change = anonymize_changes [OF ok row t [unfolded anonymize_each_def]]
    have "store_ok g1" by (rule quiet_change_ok [OF ok row change(1,2) save change(3,4)])
    with hide_shipments_ok x have "store_ok (g1\<lparr>st_shipping := x\<rparr>)" by blast
    then show ?thesis unfolding g' by (auto split: option.split)
  qed
qed

lemma retention_fold_ok:
  assumes "\<And>i g acted g'. store_ok g \<Longrightarrow> step i g = Inr (acted, g') \<Longrightarrow> store_ok g'"
  shows "store_ok (snd st) \<Longrightarrow> store_ok (snd (fold (retention_step tally step) is st))"
proof (induction "is" arbitrary: st)
  case Nil
  then show ?case by simp
next
  case (Cons i "is")
  have "store_ok (snd (retention_step tally step i st))"
    using assms [OF Cons.prems] Cons.prems by (auto simp: retention_step_def split: sum.split)
  with Cons.IH show ?case by simp
qed

lemma run_retention_ok:
  assumes ok: "store_ok g"
  shows "store_ok (snd (run_retention policy now g))"
proof (cases "rp_enabled policy")
  case False
  with ok show ?thesis by (simp add: run_retention_def)
next
  case True
  then show ?thesis
    unfolding run_retention_def Let_def
    by (simp add: ok retention_fold_ok [OF anonymize_one_ok] retention_fold_ok [OF block_one_ok])
qed

section \<open>Anonymizing the orders of a buyer\<close>

lemma save_in_rows:
  assumes ok: "store_ok g" and s: "s \<in> set (orders_in g)" and t: "changed_from s t" and save: "save_in t g = Inr g'"
    and x: "x \<in> set (orders_in g)" "o_id x \<noteq> o_id s"
  shows "x \<in> set (orders_in g')"
proof -
  have wf: "wf_orders (st_orders g)" using ok by (simp add: store_ok_def)
  have truncate: "placed_order.truncate t = placed_order.truncate s" using t by (simp add: changed_from_def)
  from save obtain d where d: "save_order t (st_orders g) = Inr d" "g' = g\<lparr>st_orders := d\<rparr>"
    by (auto simp: save_in_def res_simps)
  from save_order_replace [OF wf s truncate d(1)] d(2) x changed_fields(1) [OF t] show ?thesis
    by (force simp: replace_order_def)
qed

lemma save_all_ok:
  assumes "list_all2 (\<lambda>s t. changed_from s t \<and> o_changed t \<and> o_status t = o_status s \<and> o_paid_at t = o_paid_at s) ss ts"
    and "store_ok g" and "set ss \<subseteq> set (orders_in g)" and "distinct (map o_id ss)"
    and "res_fold (\<lambda>g s. save_in s g) g ts = Inr g'"
  shows "store_ok g'"
  using assms
proof (induction arbitrary: g rule: list_all2_induct)
  case Nil
  then show ?case by simp
next
  case (Cons s ss t ts)
  from Cons.prems(4) obtain g1 where g1: "save_in t g = Inr g1" "res_fold (\<lambda>g s. save_in s g) g1 ts = Inr g'"
    by (auto simp: res_simps)
  have s: "s \<in> set (orders_in g)" using Cons.prems(2) by simp
  have ok: "store_ok g1" using quiet_change_ok [OF Cons.prems(1) s _ _ g1(1)] Cons.hyps(1) by blast
  have "set ss \<subseteq> set (orders_in g1)"
  proof
    fix x assume x: "x \<in> set ss"
    then have "o_id x \<noteq> o_id s" using Cons.prems(3) by (metis distinct.simps(2) image_eqI list.set_map list.simps(9))
    then show "x \<in> set (orders_in g1)"
      using save_in_rows [OF Cons.prems(1) s _ g1(1)] x Cons.hyps(1) Cons.prems(2) by auto
  qed
  with Cons.IH [OF ok _ _ g1(2)] Cons.prems(3) show ?case by simp
qed

lemma anonymize_buyer_ok:
  assumes ok: "store_ok g" and step: "anonymize_buyer buyer at g = Inr (n, g')"
  shows "store_ok g'"
proof -
  define orders where "orders = lock_of (orders_of_buyer buyer) (st_orders g)"
  have rows: "set orders \<subseteq> set (orders_in g)" by (auto simp: orders_def lock_of_def)
  have "distinct (map o_id (orders_in g))" using ok by (simp add: store_ok_def wf_orders_def)
  then have ids: "distinct (map o_id orders)"
    unfolding orders_def lock_of_def by (simp add: distinct_map inj_on_def)
  have body: "(if \<not> shows_order buyer orders then Inl (NotFoundError ''Guest order'' 0)
         else if orders = [] then Inr (0, g)
         else
           res_bind (res_map (anonymize_each at g) orders) (\<lambda>changed.
           res_bind (res_fold (\<lambda>g s. save_in s g) g changed) (\<lambda>g1.
           res_bind (anonymize_shipments_of (map o_id orders) at (st_shipping g1)) (\<lambda>shipping.
             Inr (length orders, delete_links_of (orders_of_buyer buyer) (g1\<lparr>st_shipping := shipping\<rparr>)))))) = Inr (n, g')"
    using step unfolding anonymize_buyer_def Let_def orders_def .
  show ?thesis
  proof (cases "orders = []")
    case True
    with body ok show ?thesis by (simp split: if_splits)
  next
    case False
    with body obtain changed g1 x where changed: "res_map (anonymize_each at g) orders = Inr changed"
      and save: "res_fold (\<lambda>g s. save_in s g) g changed = Inr g1"
      and x: "anonymize_shipments_of (map o_id orders) at (st_shipping g1) = Inr x"
      and g': "g' = delete_links_of (orders_of_buyer buyer) (g1\<lparr>st_shipping := x\<rparr>)"
      unfolding if_Inl_eq_Inr by (auto simp: res_bind_eq_Inr)
    have "list_all2 (\<lambda>s t. changed_from s t \<and> o_changed t \<and> o_status t = o_status s \<and> o_paid_at t = o_paid_at s) orders changed"
      using changed unfolding res_map_Inr_iff
      by (rule list.rel_mono_strong) (use rows anonymize_changes [OF ok] in \<open>auto simp: anonymize_each_def\<close>)
    from save_all_ok [OF this ok rows ids save] have "store_ok g1" .
    with hide_shipments_ok x have "store_ok (g1\<lparr>st_shipping := x\<rparr>)" by blast
    then show ?thesis by (simp add: g')
  qed
qed

end
