(* ===== verification/PlacementOk.thy ===== *)
theory PlacementOk
  imports BuyersOk
begin

text \<open>
  What placing an order leaves: the order at the total the buyer accepted, its stock reserved, its coupon counted;
  and the store as a whole stays sound.
\<close>

section \<open>A coupon used\<close>

lemma use_coupon_uses:
  assumes ok: "store_ok g" and step: "use_coupon a email g = Inr g1"
  shows "\<exists>p. g1 = g\<lparr>st_promotions := p\<rparr>" and "wf_promotions (st_promotions g1)"
    and "order_promotion = am_promotion a \<Longrightarrow>
      case (case order_promotion of Some p \<Rightarrow> if ap_code p \<noteq> None then Some (ap_id p) else None | None \<Rightarrow> None) of
        None \<Rightarrow> st_promotions g1 = st_promotions g
      | Some j \<Rightarrow> (\<exists>n. uses_of j (st_promotions g) = Some n \<and> uses_of j (st_promotions g1) = Some (n + 1))
          \<and> (\<forall>i. i \<noteq> j \<longrightarrow> uses_of i (st_promotions g1) = uses_of i (st_promotions g))"
proof -
  have wf: "wf_promotions (st_promotions g)" using ok by (simp add: store_ok_def)
  have "(\<exists>p. g1 = g\<lparr>st_promotions := p\<rparr>) \<and> wf_promotions (st_promotions g1) \<and>
      (case (case am_promotion a of Some p \<Rightarrow> if ap_code p \<noteq> None then Some (ap_id p) else None | None \<Rightarrow> None) of
        None \<Rightarrow> st_promotions g1 = st_promotions g
      | Some j \<Rightarrow> (\<exists>n. uses_of j (st_promotions g) = Some n \<and> uses_of j (st_promotions g1) = Some (n + 1))
          \<and> (\<forall>i. i \<noteq> j \<longrightarrow> uses_of i (st_promotions g1) = uses_of i (st_promotions g)))"
  proof (cases "\<exists>p. am_promotion a = Some p \<and> ap_code p \<noteq> None")
    case False
    with step wf have "g1 = g" "wf_promotions (st_promotions g)"
      by (auto simp: use_coupon_def split: option.splits)
    with False show ?thesis by (auto intro: exI [of _ "st_promotions g"] split: option.split)
  next
    case True
    then obtain p where p: "am_promotion a = Some p" "ap_code p \<noteq> None" by blast
    obtain counted u where u: "redeem (ap_id p) (st_promotions g) = (counted, u)"
      by (cases "redeem (ap_id p) (st_promotions g)")
    with step p have used: "counted" "g1 = g\<lparr>st_promotions := u\<rparr>"
      by (auto simp: use_coupon_def Let_def res_simps split: option.splits if_splits)
    have "wf_promotions u" using add_use_wf [OF wf, of "ap_id p" False] u by (simp add: redeem_def)
    with p used redeem_uses [OF wf u [unfolded used(1) [THEN eqTrueI]]] show ?thesis by auto
  qed
  then show "\<exists>p. g1 = g\<lparr>st_promotions := p\<rparr>" and "wf_promotions (st_promotions g1)"
    and "order_promotion = am_promotion a \<Longrightarrow>
      case (case order_promotion of Some p \<Rightarrow> if ap_code p \<noteq> None then Some (ap_id p) else None | None \<Rightarrow> None) of
        None \<Rightarrow> st_promotions g1 = st_promotions g
      | Some j \<Rightarrow> (\<exists>n. uses_of j (st_promotions g) = Some n \<and> uses_of j (st_promotions g1) = Some (n + 1))
          \<and> (\<forall>i. i \<noteq> j \<longrightarrow> uses_of i (st_promotions g1) = uses_of i (st_promotions g))" by blast+
qed

section \<open>The order inserted\<close>

lemma insert_placed_Inr:
  "insert_placed left n codes create d = Inr (s, d') \<Longrightarrow>
     \<exists>code. create code = Inr s \<and> insert_order s d = Inr (True, d')"
  by (induction left arbitrary: n) (auto simp: res_simps split: prod.splits if_splits)

text \<open>Both ways of placing create the order from its lines, its delivery and its origin.\<close>

definition creates :: "(new_order \<Rightarrow> order result) \<Rightarrow> money \<Rightarrow> money \<Rightarrow> bool" where
  "creates create cost tax \<longleftrightarrow> (\<forall>i s. create i = Inr s \<longrightarrow>
     (\<exists>fresh delivery origin. create_order fresh i delivery origin = Inr s
        \<and> (case delivery_shipping delivery of Some sh \<Rightarrow> ship_cost sh | None \<Rightarrow> money_zero MXN) = cost
        \<and> (case delivery_shipping delivery of Some sh \<Rightarrow> ship_tax_amount sh | None \<Rightarrow> money_zero MXN) = tax))"

lemma place_assessed_ok:
  assumes ok: "store_ok g" and creates: "creates create cost tax"
    and step: "place_assessed P dr expected buyer a cost tax w create now g = Inr (s, g')"
  shows "store_ok g'" and "Whole (amount (tot_grand (o_totals s))) = expected" and "has_active (dr_order dr) (st_stock g')"
    and "order_as_read s \<in> set (orders_in g')" and "o_status s = PENDING_PAYMENT" and "wf_order s"
    and "o_promotion s = am_promotion a" and "o_id s \<notin> o_id ` set (orders_in g)"
proof -
  from step obtain totals g1 receipt stock orders where
    totals: "order_totals (am_priced a) cost tax = Inr totals" "Whole (amount (tot_grand totals)) = expected"
    and use: "use_coupon a (buyer_email buyer) g = Inr g1"
    and reserve: "reserve_order (dr_order dr) (priced_requests a) w (po_reservation_ttl P) now (st_stock g1) = Inr (receipt, stock)"
    and insert: "insert_placed PUBLIC_CODE_ATTEMPTS 1 (dr_codes dr) (\<lambda>code.
             create \<lparr>no_id = dr_order dr, no_public_code = code, no_buyer = buyer, no_lines = am_priced a,
               no_promotion = am_promotion a, no_reservation = rc_reservation receipt,
               no_reservation_expires_at = rc_expires_at receipt, no_now = now\<rparr>) (st_orders g1) = Inr (s, orders)"
    and g': "g' = g1\<lparr>st_stock := stock, st_orders := orders\<rparr>"
    unfolding place_assessed_def res_bind_eq_Inr if_Inl_eq_Inr by (auto simp: res_bind_eq_Inr)
  from insert_placed_Inr [OF insert] obtain i where i: "create i = Inr s" "insert_order s (st_orders g1) = Inr (True, orders)"
    and made: "no_lines i = am_priced a" "no_promotion i = am_promotion a" by fastforce
  from i(1) creates obtain fresh delivery origin where new: "create_order fresh i delivery origin = Inr s"
    "(case delivery_shipping delivery of Some sh \<Rightarrow> ship_cost sh | None \<Rightarrow> money_zero MXN) = cost"
    "(case delivery_shipping delivery of Some sh \<Rightarrow> ship_tax_amount sh | None \<Rightarrow> money_zero MXN) = tax"
    unfolding creates_def by blast
  note parts = create_order_parts [OF new(1)]
  from totals(1) parts(1) new(2,3) made(1) have same: "o_totals s = totals" by simp
  show total: "Whole (amount (tot_grand (o_totals s))) = expected" using totals(2) same by simp
  show status: "o_status s = PENDING_PAYMENT" and wf: "wf_order s" and promo: "o_promotion s = am_promotion a"
    using parts(5,13,3) made(2) by simp_all
  obtain p where g1: "g1 = g\<lparr>st_promotions := p\<rparr>" using use_coupon_uses(1) [OF ok use] by blast
  have live: "modules_ok g1" and wfo: "wf_orders (st_orders g1)" and same_orders: "orders_in g1 = orders_in g"
    using ok by (simp_all add: g1 store_ok_def modules_ok_def)
  note inserted = insert_order_wf [OF wfo i(2) wf status]
  have rows: "od_orders orders = orders_in g @ [order_as_read s]" using inserted same_orders by simp
  show "o_id s \<notin> o_id ` set (orders_in g)" using inserted same_orders by simp
  show "order_as_read s \<in> set (orders_in g')" by (simp add: g' rows)
  note call = reserve_call [OF live reserve, of "{}"]
  then show "has_active (dr_order dr) (st_stock g')" by (simp add: g')
  have moved: "moved_on {} g1 (g1\<lparr>st_stock := stock\<rparr>)" using call by (simp add: call_def)
  have backed: "backed_in (g1\<lparr>st_stock := stock\<rparr>) x" if "x \<in> set (orders_in g)" for x
    by (rule backed_call [OF moved]) (use ok that in \<open>simp add: store_ok_def g1\<close>)
  have mine: "order_backed (st_payments g) stock (st_shipping g) (order_as_read s)"
  proof -
    have "o_paid_at s = None" using wf status by (simp add: order_wf)
    moreover have "valid_money (tot_grand (o_totals s))" using order_totals_Inr(6) [OF totals(1)] same by simp
    ultimately show ?thesis using status by (simp add: order_backed_def) (simp add: order_as_read_def)
  qed
  show "store_ok g'"
    unfolding store_ok_def
  proof (intro conjI)
    show "wf_orders (st_orders g')" using inserted by (simp add: g')
    show "modules_ok g'" using call_ok [OF conjunct1 [OF call]] by (simp add: g' modules_ok_def)
    show "wf_promotions (st_promotions g')" using use_coupon_uses(2) [OF ok use] by (simp add: g')
    show "\<forall>x\<in>set (orders_in g'). backed_in g' x" using backed mine by (auto simp: g' rows g1)
    show "shipments_fit (orders_in g') (st_shipping g')"
      using ok by (auto simp: g' rows g1 store_ok_def shipments_fit_def)
    show "coupons_agree (orders_in g') (st_promotions g')"
    proof -
      have "order_coupon (order_as_read s)
          = (case am_promotion a of Some p \<Rightarrow> if ap_code p \<noteq> None then Some (ap_id p) else None | None \<Rightarrow> None)"
        unfolding order_coupon_def by (simp add: order_as_read_def promo)
      then have "coupons_agree (orders_in g @ [order_as_read s]) (st_promotions g1)"
        using coupons_insert [of "orders_in g" "st_promotions g" "order_as_read s" "st_promotions g1"]
          use_coupon_uses(3) [OF ok use refl] ok status by (simp add: store_ok_def)
      then show ?thesis by (simp add: g' rows)
    qed
  qed
qed

section \<open>The two checkouts\<close>

lemma place_creates:
  "creates (\<lambda>n. place fresh n shipping address cart) (ship_cost shipping) (ship_tax_amount shipping)"
  unfolding creates_def place_def
  by (intro allI impI, rule exI [of _ fresh], rule exI [of _ "ShippedTo shipping address"], rule exI) (rule conjI, assumption, simp)

lemma place_in_store_creates:
  "creates (\<lambda>n. place_in_store fresh n delivery staff w)
     (case delivery_shipping delivery of Some sh \<Rightarrow> ship_cost sh | None \<Rightarrow> money_zero MXN)
     (case delivery_shipping delivery of Some sh \<Rightarrow> ship_tax_amount sh | None \<Rightarrow> money_zero MXN)"
  unfolding creates_def place_in_store_def
  by (intro allI impI, rule exI [of _ fresh], rule exI [of _ delivery], rule exI) (rule conjI, assumption, simp)

lemma place_order_ok:
  assumes ok: "store_ok g" and step: "place_order P dr i now g = Inr (placed, g')"
  shows "store_ok g'"
    and "\<exists>s\<in>set (orders_in g'). o_id s = placed \<and> o_status s = PENDING_PAYMENT
      \<and> Whole (amount (tot_grand (o_totals s))) = co_expected i \<and> placed \<notin> o_id ` set (orders_in g)"
    and "has_active (dr_order dr) (st_stock g')"
proof -
  from step obtain buyer where b: "buyer_of P (Some (chosen_buyer (co_buyer i))) = Inr buyer"
    by (auto simp: place_order_def res_bind_eq_Inr)
  with step obtain cart where q: "cart_to_quote (chosen_cart (co_buyer i)) (st_carts g) = Inr cart"
    by (auto simp: place_order_def res_bind_eq_Inr)
  have rest: "(case cart of None \<Rightarrow> Inl (OrderingError EmptyCartError)
     | Some c \<Rightarrow> if cc_lines c = [] then Inl (OrderingError EmptyCartError)
         else res_bind (shipping_address_of P (chosen_customer (co_buyer i)) (chosen_address (co_buyer i))) (\<lambda>address.
             res_bind (assess P (cc_lines c) now ONLINE (co_coupon i) g) (\<lambda>a.
               if unsellable a \<noteq> [] then Inl (OrderingError (VariantNotSellableError (unsellable a)))
               else res_bind (placement_shipping P (am_priced a) g) (\<lambda>shipping.
                 res_bind (place_assessed P dr (co_expected i) buyer a (sg_cost (sq_charge shipping))
                     (sg_tax (sq_charge shipping)) None
                     (\<lambda>n. place (dr_lines dr) n (order_shipping_of shipping) address (cc_id c)) now g) (\<lambda>(s, g2).
                 res_bind (check_out_in (cc_id c) now (st_carts g2)) (\<lambda>carts.
                   Inr (o_id s, emit (OrderPlaced (o_id s) now) (g2\<lparr>st_carts := carts\<rparr>)))))))) = Inr (placed, g')"
    using step unfolding place_order_def b q res_bind_Inr .
  then obtain c where c: "cart = Some c" by (auto split: option.splits)
  from rest obtain address a shipping s g2 carts where
    assessed: "place_assessed P dr (co_expected i) buyer a (sg_cost (sq_charge shipping)) (sg_tax (sq_charge shipping)) None
         (\<lambda>n. place (dr_lines dr) n (order_shipping_of shipping) address (cc_id c)) now g = Inr (s, g2)"
    and g': "g' = emit (OrderPlaced (o_id s) now) (g2\<lparr>st_carts := carts\<rparr>)" "placed = o_id s"
    unfolding c option.case res_bind_eq_Inr if_Inl_eq_Inr by (auto simp: res_bind_eq_Inr)
  have creates: "creates (\<lambda>n. place (dr_lines dr) n (order_shipping_of shipping) address (cc_id c))
      (sg_cost (sq_charge shipping)) (sg_tax (sq_charge shipping))"
    using place_creates [of "dr_lines dr" "order_shipping_of shipping" address "cc_id c"] by (simp add: order_shipping_of_def)
  note facts = place_assessed_ok [OF ok creates assessed]
  show "store_ok g'" using facts(1) by (simp add: g')
  show "has_active (dr_order dr) (st_stock g')" using facts(3) by (simp add: g' emit_def)
  have "o_totals (order_as_read s) = o_totals s" by (simp add: order_as_read_def)
  then show "\<exists>s\<in>set (orders_in g'). o_id s = placed \<and> o_status s = PENDING_PAYMENT
      \<and> Whole (amount (tot_grand (o_totals s))) = co_expected i \<and> placed \<notin> o_id ` set (orders_in g)"
    using facts by (intro bexI [of _ "order_as_read s"]) (simp_all add: g' emit_def)
qed

lemma place_staff_order_ok:
  assumes ok: "store_ok g" and step: "place_staff_order P dr i now g = Inr (placed, g')"
  shows "store_ok g'"
proof -
  from step obtain buyer address a delivery cost tax s g2 where
    delivery: "(case address of None \<Rightarrow> Inr (HandedOverInStore, money_zero MXN, money_zero MXN)
       | Some x \<Rightarrow> res_bind (placement_shipping P (am_priced a) g) (\<lambda>q.
           Inr (ShippedTo (order_shipping_of q) x, sg_cost (sq_charge q), sg_tax (sq_charge q)))) = Inr (delivery, cost, tax)"
    and assessed: "place_assessed P dr (so_expected i) buyer a cost tax (Some (so_warehouse i))
             (\<lambda>n. place_in_store (dr_lines dr) n delivery (so_staff i) (so_warehouse i)) now g = Inr (s, g2)"
    and g': "g' = emit (OrderPlaced (o_id s) now) g2"
    unfolding place_staff_order_def res_bind_eq_Inr if_Inl_eq_Inr by (auto simp: res_bind_eq_Inr split: if_splits)
  have "cost = (case delivery_shipping delivery of Some sh \<Rightarrow> ship_cost sh | None \<Rightarrow> money_zero MXN)"
    "tax = (case delivery_shipping delivery of Some sh \<Rightarrow> ship_tax_amount sh | None \<Rightarrow> money_zero MXN)"
    using delivery by (auto simp: res_simps order_shipping_of_def split: option.splits)
  with place_in_store_creates [of "dr_lines dr" delivery "so_staff i" "so_warehouse i"]
  have "creates (\<lambda>n. place_in_store (dr_lines dr) n delivery (so_staff i) (so_warehouse i)) cost tax" by simp
  from place_assessed_ok(1) [OF ok this assessed] show ?thesis by (simp add: g')
qed

end
