(* ===== verification/StoreOk.thy ===== *)
theory StoreOk
  imports PlacementOk
begin

text \<open>
  Every operation of the store keeps it sound, so every store that can be reached is.
\<close>

section \<open>The operations that only call a module\<close>

lemma total_of_row: "store_ok g \<Longrightarrow> s \<in> set (orders_in g) \<Longrightarrow> valid_money (tot_grand (o_totals s))"
  using rows_of(1) by (simp add: order_backed_def)

lemma start_payment_ok:
  assumes ok: "store_ok g" and step: "start_payment_in code payer provider fresh now g = Inr (answer, g')"
  shows "store_ok g'"
proof -
  from step obtain s x where s: "lock_by_public_code code (st_orders g) = Some s"
    and x: "start_order_payment fresh (request_of s) provider now (st_payments g) = Inr (answer, x)" and g': "g' = g\<lparr>st_payments := x\<rparr>"
    by (auto simp: start_payment_in_def res_simps split: option.splits if_splits)
  have row: "s \<in> set (orders_in g)" using lock_by_code_SomeD [OF s] by simp
  have "payments_step (st_payments g) (StartPayment fresh (request_of s) provider now) = Inr x" using x by simp
  from call_payments [OF rows_of(3) [OF ok row] _ this] total_of_row [OF ok row] show ?thesis
    unfolding g' by (intro call_keeps_ok [OF ok]) (simp add: request_of_def)
qed

lemma capture_in_ok:
  assumes ok: "store_ok g" and step: "capture_in i input fresh now g = Inr g'"
  shows "store_ok g'"
proof -
  from step obtain s x where s: "found i g = Inr s"
    and x: "capture_order_payment fresh (request_of s) input now (st_payments g) = Inr x" and g': "g' = g\<lparr>st_payments := x\<rparr>"
    by (auto simp: capture_in_def res_simps)
  have row: "s \<in> set (orders_in g)" using found_SomeD [OF s] by simp
  have "payments_step (st_payments g) (CapturePayment fresh (request_of s) input now) = Inr x" using x by simp
  from call_payments [OF rows_of(3) [OF ok row] _ this] total_of_row [OF ok row] show ?thesis
    unfolding g' by (intro call_keeps_ok [OF ok]) (simp add: request_of_def)
qed

lemma restock_in_ok:
  assumes ok: "store_ok g" and step: "restock_in i now g = Inr (ms, g')"
  shows "store_ok g'"
proof -
  from step obtain s lines where "found (rr_order i) g = Inr s" and restock: "restock_stock (o_id s) (rr_reason i) (rr_note i) (rr_actor i) lines (rr_warehouse i) now g = Inr (ms, g')"
    by (auto simp: restock_in_def Let_def res_simps)
  from restock_call [OF _ restock] ok show ?thesis by (intro call_keeps_ok [OF ok]) (simp add: store_ok_def)
qed

text \<open>A reorder writes the carts alone.\<close>

lemma reorders_ok:
  assumes ok: "store_ok g"
  shows "reorder_for_customer S fresh customer code now g = Inr (copy, g') \<Longrightarrow> store_ok g'"
    and "reorder_for_guest S fresh code email cart now g = Inr (copy, g') \<Longrightarrow> store_ok g'"
    and "reorder_for_staff S fresh i now g = Inr (copy, g') \<Longrightarrow> store_ok g'"
proof -
  assume "reorder_for_customer S fresh customer code now g = Inr (copy, g')"
  then obtain carts where "g' = g\<lparr>st_carts := carts\<rparr>"
    by (cases "lock_by_public_code code (st_orders g)") (auto simp: reorder_for_customer_def res_bind_eq_Inr if_Inl_eq_Inr)
  with ok show "store_ok g'" by simp
next
  assume step: "reorder_for_guest S fresh code email cart now g = Inr (copy, g')"
  show "store_ok g'"
  proof (cases "find_guest_order code (normalized_contact_email email) g")
    case None
    with step show ?thesis by (simp add: reorder_for_guest_def)
  next
    case (Some f)
    with step obtain carts where "g' = g\<lparr>st_carts := carts\<rparr>"
      by (cases "lock_order (o_id f) (st_orders g)") (auto simp: reorder_for_guest_def res_bind_eq_Inr)
    with ok show ?thesis by simp
  qed
next
  assume "reorder_for_staff S fresh i now g = Inr (copy, g')"
  then obtain r where "(case r of (copy', carts) \<Rightarrow>
       case copy' of None \<Rightarrow> Inl (OrderingError SourceCartUnavailableError)
       | Some c \<Rightarrow> Inr (c, g\<lparr>st_carts := carts\<rparr>)) = Inr (copy, g')"
    unfolding reorder_for_staff_def by (elim res_bind_eq_Inr [THEN iffD1, elim_format] exE conjE)
  then have "g' = g\<lparr>st_carts := snd r\<rparr>" by (cases r; cases "fst r") simp_all
  with ok show "store_ok g'" by simp
qed

section \<open>The staff of each module\<close>

lemma staff_stock_ok:
  assumes ok: "store_ok g" and step: "inventory_step ex (st_stock g) ev = Inr x"
  shows "store_ok (g\<lparr>st_stock := x\<rparr>)"
  using call_keeps_ok [OF ok call_stock [OF _ step]] ok by (simp add: store_ok_def)

lemma staff_payments_ok:
  assumes ok: "store_ok g" and op: "of_staff_payments op" and step: "payments_step (st_payments g) op = Inr x"
  shows "store_ok (g\<lparr>st_payments := x\<rparr>)"
proof -
  have "asks_money op" using op by (cases op) simp_all
  from call_payments [OF _ this step] ok show ?thesis by (intro call_keeps_ok [OF ok]) (simp add: store_ok_def)
qed

lemma staff_shipping_ok:
  assumes ok: "store_ok g" and op: "of_staff_shipping op" and step: "shipping_step (st_shipping g) op = Inr x"
  shows "store_ok (g\<lparr>st_shipping := x\<rparr>)"
proof -
  have "touches_only {} op" using op by (cases op) simp_all
  from call_shipping [OF _ this step] ok show ?thesis by (intro call_keeps_ok [OF ok]) (simp add: store_ok_def)
qed

lemma staff_promotions_ok:
  assumes ok: "store_ok g" and op: "staff_promotions op" and step: "promotions_step catalog (st_promotions g) op = Inr x"
  shows "store_ok (g\<lparr>st_promotions := x\<rparr>)"
proof -
  have wf: "wf_promotions (st_promotions g)" and agree: "coupons_agree (orders_in g) (st_promotions g)"
    using ok by (simp_all add: store_ok_def)
  have "coupons_agree (orders_in g) x" by (rule coupons_agree_staff [OF agree staff_keeps_uses [OF wf op step]])
  with ok promotions_step_keeps [OF wf step] show ?thesis by (simp add: store_ok_def modules_ok_def)
qed

section \<open>Every operation\<close>

lemma store_step_ok:
  assumes ok: "store_ok g" and may: "may_happen g op" and step: "store_step W g op = Inr g'"
  shows "store_ok g'"
proof (cases op)
  case (PlaceOrder dr i now)
  with step place_order_ok(1) [OF ok] show ?thesis by (auto simp: res_simps)
next
  case (PlaceStaffOrder dr i now)
  with step place_staff_order_ok [OF ok] show ?thesis by (auto simp: res_simps)
next
  case (AskPayment code payer provider fresh now)
  with step start_payment_ok [OF ok] show ?thesis by (auto simp: res_simps)
next
  case (RegisterPayment i input fresh now)
  with step capture_in_ok [OF ok] show ?thesis by simp
next
  case (CancelOrder i fresh now)
  with step cancel_ok [OF ok] show ?thesis by simp
next
  case (RetryOrder i staff version fresh now)
  with step may retry_ok [OF ok] show ?thesis by simp
next
  case (HandOverOrder i staff version now)
  with step hand_over_ok [OF ok] show ?thesis by simp
next
  case (HandlePaymentsEvent n fresh_refund fresh now)
  show ?thesis
  proof (cases "n < length (pd_events (st_payments g))")
    case True
    with HandlePaymentsEvent step on_payments_event_ok [OF ok nth_mem [OF True]] may show ?thesis by simp
  next
    case False
    with HandlePaymentsEvent step ok show ?thesis by simp
  qed
next
  case (HandleShippingEvent n now)
  show ?thesis
  proof (cases "n < length (sd_events (st_shipping g))")
    case True
    with HandleShippingEvent step on_shipping_event_ok [OF ok nth_mem [OF True]] show ?thesis by simp
  next
    case False
    with HandleShippingEvent step ok show ?thesis by simp
  qed
next
  case (ExpireOrders now)
  with step expire_due_ok [OF ok] show ?thesis by auto
next
  case (RestockOrder i now)
  with step restock_in_ok [OF ok] show ?thesis by (auto simp: res_simps)
next
  case (ReorderOfCustomer fresh customer code now)
  with step reorders_ok(1) [OF ok] show ?thesis by (auto simp: res_simps)
next
  case (ReorderOfGuest fresh code email cart now)
  with step reorders_ok(2) [OF ok] show ?thesis by (auto simp: res_simps)
next
  case (ReorderByStaff fresh i now)
  with step reorders_ok(3) [OF ok] show ?thesis by (auto simp: res_simps)
next
  case (AnonymizeOrders buyer at)
  with step anonymize_buyer_ok [OF ok] show ?thesis by (auto simp: res_simps)
next
  case (RetainOrders now)
  with step run_retention_ok [OF ok] show ?thesis by auto
next
  case (IssueAccess fresh token email now)
  with step ok show ?thesis by (auto simp: issue_access_def res_simps)
next
  case (RedeemAccess token now)
  with step ok show ?thesis by (auto simp: redeem_access_def res_simps)
next
  case (CleanAccess now)
  with step ok show ?thesis by (auto simp: clean_access_def)
next
  case (StockOp ev)
  with step staff_stock_ok [OF ok] show ?thesis by (auto simp: res_simps)
next
  case (PaymentsOp op')
  with step may staff_payments_ok [OF ok] show ?thesis by (auto simp: res_simps)
next
  case (ShippingOp op')
  with step may staff_shipping_ok [OF ok] show ?thesis by (auto simp: res_simps)
next
  case (PromotionsOp op')
  with step may staff_promotions_ok [OF ok] show ?thesis by (auto simp: res_simps)
next
  case (CartsOp ev)
  with step ok show ?thesis by (auto simp: res_simps)
qed

text \<open>The store as a machine whose soundness every operation that may happen keeps.\<close>

lemma reachable_ok: "reachable W g \<Longrightarrow> store_ok g"
  by (induction rule: reachable.induct) (auto intro: new_store_ok store_step_ok)

lemma reachable_row:
  assumes "reachable W g" and "s \<in> set (orders_in g)"
  shows "backed_in g s" and "wf_order s"
  using rows_of [OF reachable_ok [OF assms(1)] assms(2)] by simp_all

end
