(* ===== verification/Redelivery.thy ===== *)
theory Redelivery
  imports StoreOk
begin

text \<open>
  The events of Payments and Shipping reach Ordering at least once: what was done the first time is found done the
  next.
\<close>

lemma found_saved:
  assumes ok: "store_ok g" and s: "s \<in> set (orders_in g)" and t: "changed_from s t" "o_changed t"
    and same: "st_orders g1 = st_orders g" and save: "save_in t g1 = Inr g2"
  shows "found (o_id s) g2 = Inr (stored t)"
proof -
  have wf: "wf_orders (st_orders g)" and ids: "distinct (map o_id (orders_in g))"
    using ok by (simp_all add: store_ok_def wf_orders_def)
  have truncate: "placed_order.truncate t = placed_order.truncate s" using t by (simp add: changed_from_def)
  note fields = changed_fields [OF t(1)]
  from save same obtain d where d: "save_order t (st_orders g) = Inr d" "g2 = g1\<lparr>st_orders := d\<rparr>"
    by (auto simp: save_in_def res_simps)
  have rows: "od_orders d = map (\<lambda>x. if o_id x = o_id s then stored t else x) (orders_in g)"
    using save_order_replace [OF wf s truncate d(1)] t(2) fields by (simp add: replace_order_def)
  have "find (\<lambda>x. o_id x = o_id s) (map (\<lambda>x. if o_id x = o_id s then stored t else x) xs) = Some (stored t)"
    if "s \<in> set xs" for xs
    using that fields by (induction xs) auto
  with s show ?thesis by (simp add: found_def lock_order_def d(2) rows)
qed

section \<open>A payment recorded\<close>

lemma paid_pays_nothing:
  assumes "wf_order s" and "o_paid_at s \<noteq> None"
  shows "pay_order P s captured_at fresh now g = Inr None"
  using assms
  by (cases "o_status s") (auto simp: pay_order_def order_wf record_payment_after_cancellation_def assert_status_def)

lemma pay_nothing_again: "pay_order P s captured_at fresh now g = Inr None \<Longrightarrow> pay_order P s captured_at fresh' now' g = Inr None"
  by (cases "o_status s") (auto simp: pay_order_def res_simps split: if_splits)

lemma pay_order_paid:
  assumes "store_ok g" and "s \<in> set (orders_in g)" and "pay_order P s captured_at fresh now g = Inr (Some (outcome, t, g1))"
  shows "o_paid_at t \<noteq> None"
proof -
  have ok: "modules_ok g" by (rule rows_of(3) [OF assms(1,2)])
  show ?thesis
  proof (cases "o_status s")
    case PENDING_PAYMENT
    with assms(3) obtain c g0 where c: "commit_stock (o_id s) now g = Inr (c, g0)"
      and rest: "(if c = NotActive then res_bind (late_payment P s captured_at now g0) (\<lambda>r. Inr (Some r))
         else res_bind (mark_paid captured_at now None s) (\<lambda>t. Inr (Some (OutcomePaid, t, g0)))) = Inr (Some (outcome, t, g1))"
      by (auto simp: pay_order_def res_simps)
    have live: "modules_ok g0" using commit_call [OF ok c, of "{}"] by (auto dest: call_ok)
    show ?thesis
    proof (cases "c = NotActive")
      case True
      with rest have "late_payment P s captured_at now g0 = Inr (outcome, t, g1)" by (auto simp: res_simps)
      from late_payment_calls(3) [OF assms(1,2) live this] show ?thesis .
    next
      case False
      with rest show ?thesis by (auto simp: res_simps mark_paid_def)
    qed
  next
    case EXPIRED
    with assms(3) obtain g0 where "late_payment P s captured_at now g = Inr (outcome, t, g0)"
      by (auto simp: pay_order_def res_simps)
    from late_payment_calls(3) [OF assms(1,2) ok this] show ?thesis .
  next
    case CANCELLED
    with assms(3) show ?thesis
      by (auto simp: pay_order_def record_payment_after_cancellation_def res_simps split: if_splits)
  qed (use assms(3) in \<open>simp_all add: pay_order_def\<close>)
qed

lemma create_for_orders: "create_for fresh s g = Inr g' \<Longrightarrow> st_orders g' = st_orders g"
  by (auto simp: create_for_def res_simps split: list.splits)

lemma record_payment_again:
  assumes ok: "store_ok g" and step: "record_payment P i paid captured_at fresh_refund fresh now g = Inr (outcome, g1)"
  shows "\<exists>outcome'. record_payment P i paid captured_at fresh_refund' fresh' now' g1 = Inr (outcome', g1)"
proof -
  from step obtain s where s: "found i g = Inr s"
    and rest: "(if \<not> money_equals paid (tot_grand (o_totals s)) then Inr (AmountMismatch, g)
       else res_bind (pay_order P s captured_at fresh_refund now g) (\<lambda>r.
           case r of
             None \<Rightarrow> Inr (PaymentAlreadyProcessed, g)
           | Some (outcome, t, g1) \<Rightarrow>
               res_bind (if outcome = OutcomePaid \<and> o_fulfillment t = SHIPPING then create_for fresh t g1
                         else Inr g1) (\<lambda>g2.
               res_bind (save_in t g2) (\<lambda>g3.
                 Inr (outcome, if outcome = OutcomePaid then emit (OrderPaid (o_id t) now) g3 else g3))))) = Inr (outcome, g1)"
    unfolding record_payment_def res_bind_eq_Inr by blast
  have row: "s \<in> set (orders_in g)" "o_id s = i" using found_SomeD [OF s] by auto
  show ?thesis
  proof (cases "money_equals paid (tot_grand (o_totals s))")
    case False
    with rest have "g1 = g" by simp
    with s False show ?thesis by (simp add: record_payment_def)
  next
    case True
    from rest True obtain r where r: "pay_order P s captured_at fresh_refund now g = Inr r" by (auto simp: res_simps)
    show ?thesis
    proof (cases r)
      case None
      with rest True r have "g1 = g" by simp
      with s True pay_nothing_again [OF r [unfolded None]] show ?thesis by (simp add: record_payment_def)
    next
      case (Some x)
      obtain o1 t g0 where x: "x = (o1, t, g0)" by (cases x)
      with rest True r Some obtain g2 g3 where
        create: "(if o1 = OutcomePaid \<and> o_fulfillment t = SHIPPING then create_for fresh t g0 else Inr g0) = Inr g2"
        and save: "save_in t g2 = Inr g3"
        and g1: "g1 = (if o1 = OutcomePaid then emit (OrderPaid (o_id t) now) g3 else g3)"
        by (auto simp: res_bind_eq_Inr)
      note effect = pay_order_effect [OF ok row(1) r [unfolded Some x]]
      have orders: "st_orders g2 = st_orders g"
        using create effect(3) create_for_orders by (auto simp: moved_on_def split: if_splits)
      have "found (o_id s) g3 = Inr (stored t)" by (rule found_saved [OF ok row(1) effect(1,2) orders save])
      then have again: "found i g1 = Inr (stored t)" using row(2) by (simp add: g1 found_def emit_def)
      have "wf_order (stored t)" "o_paid_at (stored t) \<noteq> None"
        using effect(1) pay_order_paid [OF ok row(1) r [unfolded Some x]] by (simp_all add: changed_from_def)
      from paid_pays_nothing [OF this] have "pay_order P (stored t) captured_at fresh_refund' now' g1 = Inr None" .
      with again True changed_fields [OF effect(1)] show ?thesis by (simp add: record_payment_def)
    qed
  qed
qed

section \<open>A refund, a shipment, a delivery, a return\<close>

lemma record_refund_again:
  assumes ok: "store_ok g" and step: "record_refund i at now g = Inr (progress, g1)"
  shows "\<exists>p. record_refund i at now' g1 = Inr (p, g1)"
proof -
  from step obtain s where s: "found i g = Inr s" by (auto simp: record_refund_def res_simps)
  have row: "s \<in> set (orders_in g)" "o_id s = i" using found_SomeD [OF s] by auto
  from step s consider "g1 = g" "o_status s = REFUNDED \<or> o_status s \<noteq> CANCELLED \<or> o_paid_at s = None"
    | t where "mark_refunded at now s = Inr t" "save_in t g = Inr g1"
    by (auto simp: record_refund_def res_simps split: if_splits)
  then show ?thesis
  proof cases
    case 1
    with s show ?thesis by (auto simp: record_refund_def)
  next
    case 2
    have change: "changed_from s t" by (rule changed_by [OF ok row(1), of "MarkRefunded at now"]) (use 2 in simp)
    have "o_changed t" "o_status t = REFUNDED" using 2(1) by (auto simp: mark_refunded_def move_order_def split: if_splits)
    with found_saved [OF ok row(1) change _ refl 2(2)] row(2) show ?thesis by (simp add: record_refund_def)
  qed
qed

lemma record_shipment_again:
  assumes ok: "store_ok g" and step: "record_shipment i at now g = Inr (progress, g1)"
  shows "\<exists>p. record_shipment i at now' g1 = Inr (p, g1)"
proof -
  from step obtain s where s: "found i g = Inr s" by (auto simp: record_shipment_def res_simps)
  have row: "s \<in> set (orders_in g)" "o_id s = i" using found_SomeD [OF s] by auto
  from step s consider "g1 = g" "o_status s \<noteq> PAID"
    | t where "mark_shipped at now s = Inr t" "save_in t g = Inr g1"
    by (auto simp: record_shipment_def res_simps split: if_splits)
  then show ?thesis
  proof cases
    case 1
    with s show ?thesis by (auto simp: record_shipment_def)
  next
    case 2
    have change: "changed_from s t" by (rule changed_by [OF ok row(1), of "MarkShipped at now"]) (use 2 in simp)
    have "o_changed t" "o_status t = SHIPPED" using 2(1) by (auto simp: mark_shipped_def res_simps move_order_def)
    with found_saved [OF ok row(1) change _ refl 2(2)] row(2) show ?thesis by (simp add: record_shipment_def)
  qed
qed

lemma record_delivery_again:
  assumes ok: "store_ok g" and step: "record_delivery i left at now g = Inr (progress, g1)"
  shows "\<exists>p. record_delivery i left at now' g1 = Inr (p, g1)"
proof -
  from step obtain s where s: "found i g = Inr s" by (auto simp: record_delivery_def res_simps)
  have row: "s \<in> set (orders_in g)" "o_id s = i" using found_SomeD [OF s] by auto
  from step s consider "g1 = g" "o_status s = DELIVERED \<or> o_status s \<noteq> PAID \<and> o_status s \<noteq> SHIPPED"
    | t u where "(if o_status s = PAID then mark_shipped left now s else Inr s) = Inr t"
        "mark_delivered at now t = Inr u" "save_in u g = Inr g1"
    by (auto simp: record_delivery_def res_bind_eq_Inr split: if_splits)
  then show ?thesis
  proof cases
    case 1
    with s show ?thesis by (auto simp: record_delivery_def)
  next
    case 2
    have "changed_from s t"
      using 2(1) changed_by [OF ok row(1), of "MarkShipped left now"] changed_from_row [OF ok row(1)]
      by (auto split: if_splits)
    then have change: "changed_from s u" by (rule changed_from_step [of s t "MarkDelivered at now"]) (use 2 in simp)
    have "o_changed u" "o_status u = DELIVERED" using 2(2) by (auto simp: mark_delivered_def res_simps move_order_def)
    with found_saved [OF ok row(1) change _ refl 2(3)] row(2) show ?thesis by (simp add: record_delivery_def)
  qed
qed

lemma record_return_again:
  assumes ok: "store_ok g" and step: "record_return_in i at g = Inr (recorded, g1)"
  shows "\<exists>r. record_return_in i at g1 = Inr (r, g1)"
proof -
  from step obtain s where s: "found i g = Inr s" by (auto simp: record_return_in_def res_simps)
  have row: "s \<in> set (orders_in g)" "o_id s = i" using found_SomeD [OF s] by auto
  obtain b t where t: "record_return at s = (b, t)" by (cases "record_return at s")
  show ?thesis
  proof (cases b)
    case False
    with step s t have "g1 = g" by (simp add: record_return_in_def)
    with s t False have "record_return_in i at g1 = Inr (False, g1)" by (simp add: record_return_in_def)
    then show ?thesis by blast
  next
    case True
    with step s t have save: "save_in t g = Inr g1" by (auto simp: record_return_in_def res_simps)
    have change: "changed_from s t" by (rule changed_by [OF ok row(1), of "RecordReturn at"]) (use t in simp)
    have "o_changed t" "o_concluded_at t \<noteq> None" using t True by (auto simp: record_return_def split: if_splits)
    moreover have "o_concluded_at (stored t) = o_concluded_at t" by (simp add: stored_def order_as_read_def)
    ultimately have "fst (record_return at (stored t)) = False" by (simp add: record_return_def)
    then obtain u where "record_return at (stored t) = (False, u)" by (cases "record_return at (stored t)") simp
    with found_saved [OF ok row(1) change _ refl save] row(2) \<open>o_changed t\<close>
    have "record_return_in i at g1 = Inr (False, g1)" by (simp add: record_return_in_def)
    then show ?thesis by blast
  qed
qed

section \<open>The events\<close>

lemma payments_event_again:
  assumes ok: "store_ok g" and step: "on_payments_event P e fresh_refund fresh now g = Inr g1"
  shows "on_payments_event P e fresh_refund' fresh' now' g1 = Inr g1"
proof (cases e)
  case (PaymentCapturedEvent i order m at)
  with step obtain x outcome where x: "money_of (Whole (amount m)) (currency m) = Inr x"
    and r: "record_payment P order x at fresh_refund fresh now g = Inr (outcome, g1)"
    by (auto simp: on_payments_event_def res_simps)
  from record_payment_again [OF ok r, of fresh_refund' fresh' now'] x PaymentCapturedEvent
  show ?thesis by (auto simp: on_payments_event_def)
next
  case (RefundCompletedEvent r i order m at)
  with step obtain progress where r: "record_refund order at now g = Inr (progress, g1)"
    by (auto simp: on_payments_event_def res_simps)
  from record_refund_again [OF ok r, of now'] RefundCompletedEvent show ?thesis by (auto simp: on_payments_event_def)
qed

lemma shipping_event_again:
  assumes ok: "store_ok g" and step: "on_shipping_event e now g = Inr g1"
  shows "on_shipping_event e now' g1 = Inr g1"
proof (cases e)
  case (ShipmentDispatchedEvent i order carrier tracking own at)
  with step obtain progress where "record_shipment order at now g = Inr (progress, g1)"
    by (auto simp: on_shipping_event_def res_simps)
  from record_shipment_again [OF ok this, of now'] ShipmentDispatchedEvent show ?thesis by (auto simp: on_shipping_event_def)
next
  case (ShipmentDeliveredEvent i order dispatched at)
  with step obtain left progress where l: "dispatched = Some left" "record_delivery order left at now g = Inr (progress, g1)"
    by (auto simp: on_shipping_event_def res_simps split: option.splits)
  from record_delivery_again [OF ok l(2), of now'] l(1) ShipmentDeliveredEvent show ?thesis by (auto simp: on_shipping_event_def)
next
  case (ShipmentReturnedEvent i order at)
  with step obtain recorded where "record_return_in order at g = Inr (recorded, g1)"
    by (auto simp: on_shipping_event_def res_simps)
  from record_return_again [OF ok this] ShipmentReturnedEvent show ?thesis by (auto simp: on_shipping_event_def)
qed

end
