(* ===== verification/StoreGuarantees.thy ===== *)
theory StoreGuarantees
  imports Redelivery
begin

text \<open>
  What can be relied on in every store that can be reached, read off its invariant, and a day of a small store where
  the guarantees are seen at work.
\<close>

section \<open>A small store\<close>

text \<open>It sells one mug, ships in one way, and has a coupon of 10%.\<close>

definition mug :: catalog_variant where
  "mug = \<lparr>cav_sku = ''SKU-7'', cav_product_title = ''Mug'', cav_options = [], cav_product_status = ''PUBLISHED'',
     cav_status = ''ACTIVE'', cav_store_only = False\<rparr>"

definition small_world :: world where
  "small_world =
     \<lparr>wo_ports =
        \<lparr>po_variant = (\<lambda>v. if v = 7 then Some mug else None),
         po_price = (\<lambda>v at. Some \<lparr>amount = 11600, currency = MXN\<rparr>),
         po_classify = (\<lambda>v. Some \<lparr>vc_product = 70, vc_brand = None, vc_categories = [71]\<rparr>),
         po_contact = (\<lambda>c. None), po_address = (\<lambda>c a. None), po_state = (\<lambda>s. Some ''Jalisco''),
         po_municipality = (\<lambda>m. Some \<lparr>mu_state_code = ''14'', mu_name = ''Zapopan'', mu_is_active = True\<rparr>),
         po_vat_rate = 1600, po_reservation_ttl = 900\<rparr>,
      wo_shop = \<lparr>sp_on_sale = (\<lambda>v. Some True), sp_price = (\<lambda>v at. Some \<lparr>amount = 11600, currency = MXN\<rparr>)\<rparr>,
      wo_targets = (\<lambda>t. Some True), wo_digest = (\<lambda>s. s), wo_link_ttl = 600,
      wo_retention = \<lparr>rp_enabled = False, rp_operational_months = 1, rp_blocked_months = 1\<rparr>\<rparr>"

definition opened_store :: store where
  "opened_store = new_store
     [\<lparr>wh_id = 1, wh_code = ''GDL'', wh_name = ''Guadalajara'', wh_address = None, wh_status = ActiveWarehouse, wh_priority = 1\<rparr>]
     True
     (Some (\<lparr>sh_name = ''Envio'', sh_flat_fee = \<lparr>amount = 9900, currency = MXN\<rparr>, sh_threshold = None,
        sh_min_days = Whole 2, sh_max_days = Whole 5\<rparr>, 1))"

definition tenth_off :: promotion_terms where
  "tenth_off =
     \<lparr>terms_name = ''Diez'', terms_discount = PERCENTAGE 10, terms_targets = [], terms_channels = [PROMO_ONLINE, PROMO_STORE],
      terms_minimum = None, terms_starts_at = 5, terms_ends_at = None, terms_code = Some ''DIEZ'',
      terms_usage_limit = Some 5, terms_once_per_customer = False\<rparr>"

definition two_mugs :: cart_order where
  "two_mugs =
     \<lparr>co_buyer = GuestOrder 2 ''ana@mail.mx'' \<lparr>an_recipient = ''Ana'', an_phone = ''3312345678'', an_street = ''Hidalgo'',
        an_exterior = ''5'', an_interior = None, an_neighborhood = ''Centro'', an_postal_code = ''45100'',
        an_state_code = ''14'', an_municipality_code = ''120'', an_city = None, an_references = None\<rparr> ''v1'',
      co_expected = Whole 30780, co_coupon = Some ''diez''\<rparr>"

definition some_drawn :: drawn where
  "some_drawn = \<lparr>dr_order = 40, dr_lines = (\<lambda>n. 41 + n), dr_codes = (\<lambda>n. ''0123456789'')\<rparr>"

definition stocking :: "store_op list" where
  "stocking =
     [StockOp (Receive 7 1 (Whole 5) None 9 10), PromotionsOp (CreatePromotion 3 tenth_off None 9 20),
      CartsOp (NewGuestCart 2 21), CartsOp (AddLineTo 4 (GuestTarget 2) 7 (Whole 2) 22)]"

definition paying :: "store_op list" where
  "paying =
     [PlaceOrder some_drawn two_mugs 30,
      RegisterPayment 40 \<lparr>ci_reference = ''T-1'', ci_method = Some CASH, ci_note = None, ci_registered_by = 9\<rparr> 60 40]"

definition shipping_out :: "store_op list" where
  "shipping_out =
     [HandlePaymentsEvent 0 71 80 50, ShippingOp (DispatchShipment 80 1 True 60), HandleShippingEvent 0 70]"

definition stocked_store :: store where
  "stocked_store = go_through small_world opened_store stocking"

definition paying_store :: store where
  "paying_store = go_through small_world stocked_store paying"

definition shipped_store :: store where
  "shipped_store = go_through small_world paying_store shipping_out"

lemma shipped_run:
  "(map (\<lambda>s. (o_id s, o_status s, o_paid_at s, o_fulfillment s, order_coupon s)) (orders_in shipped_store),
    map (\<lambda>h. (h_order h, h_status h)) (sd_shipments (st_shipping shipped_store)),
    map (\<lambda>p. (promo_id p, promo_uses p)) (pp_promotions (st_promotions shipped_store)))
   = ([(40, SHIPPED, Some 40, SHIPPING, Some 3)], [(40, Dispatched)], [(3, 1)])"
  by code_simp


lemma paid_run:
  "(case pd_events (st_payments paying_store) of
      [e] \<Rightarrow> returned (\<lambda>g. map o_status (orders_in g) = [PAID]) (on_payments_event (wo_ports small_world) e 71 80 50 paying_store)
    | _ \<Rightarrow> False)"
  by code_simp

lemma shipped_reachable: "reachable small_world shipped_store"
  unfolding shipped_store_def paying_store_def stocked_store_def opened_store_def
  by (intro go_through_reachable reachable.opens)

lemma earlier_reachable: "reachable small_world paying_store" "reachable small_world stocked_store"
  unfolding paying_store_def stocked_store_def opened_store_def
  by (intro go_through_reachable reachable.opens)+

text \<open>Its order, read off the run.\<close>

lemma shipped_order:
  obtains s where "orders_in shipped_store = [s]" "o_id s = 40" "o_status s = SHIPPED" "o_paid_at s = Some 40"
    "o_fulfillment s = SHIPPING" "order_coupon s = Some 3"
proof -
  have "map (\<lambda>s. (o_id s, o_status s, o_paid_at s, o_fulfillment s, order_coupon s)) (orders_in shipped_store)
      = [(40, SHIPPED, Some 40, SHIPPING, Some 3)]" using shipped_run by simp
  then show ?thesis by (auto intro: that)
qed

section \<open>Guarantees\<close>

text \<open>
  C3. No order counts as paid that was not collected. In every store that can be reached, an order with a paid date
  has a payment captured for exactly its total; if it was cancelled, its refund is under way, and if it is refunded,
  its payment is.
\<close>

theorem paid_orders_are_collected:
  assumes "reachable W g" and "s \<in> set (orders_in g)" and "o_paid_at s \<noteq> None"
  shows "collected (o_id s) (tot_grand (o_totals s)) (st_payments g)
      \<and> (o_status s = CANCELLED \<longrightarrow> being_refunded (o_id s) (st_payments g))
      \<and> (o_status s = REFUNDED \<longrightarrow> refunded (o_id s) (st_payments g))"
  using reachable_row(1) [OF assms(1,2)] assms(3) by (simp_all add: order_backed_def)

theorem paid_orders_are_collected_witness:
  "\<exists>s\<in>set (orders_in shipped_store). o_status s = SHIPPED \<and> collected 40 (tot_grand (o_totals s)) (st_payments shipped_store)"
proof -
  obtain s where s: "orders_in shipped_store = [s]" "o_id s = 40" "o_status s = SHIPPED" "o_paid_at s = Some 40"
    by (rule shipped_order)
  from paid_orders_are_collected [OF shipped_reachable, of s] s show ?thesis by simp
qed

text \<open>
  C2. Goods leave only for orders that were paid, and from stock that was theirs. In every store that can be reached,
  a paid, shipped or delivered order has its stock committed, and a shipment when it ships; a shipped one left with
  it and a delivered one arrived; and each shipment that was not cancelled is of a paid order.
\<close>

theorem goods_leave_only_for_paid_orders:
  assumes "reachable W g"
  shows "(\<forall>s\<in>set (orders_in g). o_status s \<in> {PAID, SHIPPED, DELIVERED} \<longrightarrow>
        is_committed (o_id s) (st_stock g) \<and> o_paid_at s \<noteq> None
        \<and> (o_fulfillment s = SHIPPING \<longrightarrow> has_shipment (o_id s) (st_shipping g))
        \<and> (o_status s = SHIPPED \<longrightarrow> on_its_way (o_id s) (st_shipping g))
        \<and> (o_status s = DELIVERED \<and> o_fulfillment s = SHIPPING \<longrightarrow> arrived (o_id s) (st_shipping g)))
    \<and> (\<forall>h\<in>set (sd_shipments (st_shipping g)). \<exists>s\<in>set (orders_in g). o_id s = h_order h \<and>
        (if h_status h = ShipmentCancelled then o_status s \<in> {CANCELLED, REFUNDED}
         else o_status s \<in> {PAID, SHIPPED, DELIVERED}))"
proof (intro conjI ballI impI)
  fix s assume row: "s \<in> set (orders_in g)" and status: "o_status s \<in> {PAID, SHIPPED, DELIVERED}"
  note facts = reachable_row [OF assms row]
  show "o_paid_at s \<noteq> None" using facts(2) status by (auto simp: order_wf)
  show "is_committed (o_id s) (st_stock g)" "o_fulfillment s = SHIPPING \<Longrightarrow> has_shipment (o_id s) (st_shipping g)"
    "o_status s = SHIPPED \<Longrightarrow> on_its_way (o_id s) (st_shipping g)"
    "o_status s = DELIVERED \<and> o_fulfillment s = SHIPPING \<Longrightarrow> arrived (o_id s) (st_shipping g)"
    using facts(1) status unfolding order_backed_def by blast+
next
  fix h assume "h \<in> set (sd_shipments (st_shipping g))"
  then show "\<exists>s\<in>set (orders_in g). o_id s = h_order h \<and>
        (if h_status h = ShipmentCancelled then o_status s \<in> {CANCELLED, REFUNDED}
         else o_status s \<in> {PAID, SHIPPED, DELIVERED})"
    using reachable_ok [OF assms] by (simp add: store_ok_def shipments_fit_def shipment_fits_def)
qed

theorem goods_leave_only_for_paid_orders_witness:
  "is_committed 40 (st_stock shipped_store) \<and> on_its_way 40 (st_shipping shipped_store)
     \<and> list_all (\<lambda>h. h_order h = 40) (sd_shipments (st_shipping shipped_store))"
proof -
  obtain s where s: "orders_in shipped_store = [s]" "o_id s = 40" "o_status s = SHIPPED" by (rule shipped_order)
  note facts = goods_leave_only_for_paid_orders [OF shipped_reachable, unfolded s(1)]
  have "\<forall>h\<in>set (sd_shipments (st_shipping shipped_store)). h_order h = 40"
    using facts [THEN conjunct2] s(2) by fastforce
  with facts s show ?thesis by (simp add: list_all_iff)
qed

text \<open>
  C5. The uses of a coupon are the orders that hold one: those placed with it and neither expired, cancelled nor
  refunded. A use is never lost nor counted twice, whatever happens to its order.
\<close>

theorem coupon_uses_are_live_orders:
  assumes "reachable W g" and "p \<in> set (pp_promotions (st_promotions g))"
  shows "promo_uses p = int (length (filter (\<lambda>s. order_coupon s = Some (promo_id p)
      \<and> o_status s \<notin> {EXPIRED, CANCELLED, REFUNDED}) (orders_in g)))"
proof -
  have ok: "store_ok g" by (rule reachable_ok [OF assms(1)])
  then have ids: "distinct (map promo_id (pp_promotions (st_promotions g)))"
    by (simp add: store_ok_def wf_promotions_def)
  have "find_promotion_row (promo_id p) (st_promotions g) = Some p"
    using find_key [OF ids assms(2)] by (simp add: find_promotion_row_def)
  then have "uses_of (promo_id p) (st_promotions g) = Some (promo_uses p)" by (simp add: uses_of_def)
  moreover have "coupons_agree (orders_in g) (st_promotions g)" using ok by (simp add: store_ok_def)
  ultimately have "promo_uses p = int (uses_held (promo_id p) (orders_in g))"
    unfolding coupons_agree_def by (metis option.distinct(1) option.inject)
  then show ?thesis by (simp add: uses_held_def holds_use_def cong: filter_cong)
qed

theorem coupon_uses_are_live_orders_witness:
  "list_all (\<lambda>p. promo_id p = 3 \<and> promo_uses p = 1) (pp_promotions (st_promotions shipped_store))"
proof (unfold list_all_iff, rule ballI)
  fix p assume p: "p \<in> set (pp_promotions (st_promotions shipped_store))"
  obtain s where s: "orders_in shipped_store = [s]" "o_status s = SHIPPED" "order_coupon s = Some 3" by (rule shipped_order)
  have "map (\<lambda>p. (promo_id p, promo_uses p)) (pp_promotions (st_promotions shipped_store)) = [(3, 1)]"
    using shipped_run by simp
  with p have "promo_id p = 3" by auto
  with coupon_uses_are_live_orders [OF shipped_reachable p] s show "promo_id p = 3 \<and> promo_uses p = 1" by simp
qed



text \<open>
  C8. The events of Payments and Shipping may be delivered again. What an event did the first time, a second delivery
  finds done: it changes nothing, neither in the orders nor in any other table.
\<close>

theorem redelivered_events_change_nothing:
  assumes "reachable W g"
  shows "(on_payments_event P e fresh_refund fresh now g = Inr g1 \<longrightarrow>
        on_payments_event P e fresh_refund' fresh' now' g1 = Inr g1)
    \<and> (on_shipping_event e' now g = Inr g2 \<longrightarrow> on_shipping_event e' now' g2 = Inr g2)"
  using payments_event_again [OF reachable_ok [OF assms]] shipping_event_again [OF reachable_ok [OF assms]] by blast

theorem redelivered_events_change_nothing_witness:
  "\<exists>e g1. e \<in> set (pd_events (st_payments paying_store)) \<and> map o_status (orders_in g1) = [PAID]
     \<and> on_payments_event (wo_ports small_world) e 71 80 50 paying_store = Inr g1
     \<and> on_payments_event (wo_ports small_world) e 72 81 90 g1 = Inr g1"
proof -
  from paid_run obtain e where e: "pd_events (st_payments paying_store) = [e]"
    and paid: "returned (\<lambda>g. map o_status (orders_in g) = [PAID]) (on_payments_event (wo_ports small_world) e 71 80 50 paying_store)"
    by (auto split: list.splits)
  from returnedD [OF paid] obtain g1 where
    "on_payments_event (wo_ports small_world) e 71 80 50 paying_store = Inr g1" "map o_status (orders_in g1) = [PAID]"
    by (elim exE conjE) (rule that)
  with redelivered_events_change_nothing [OF earlier_reachable(1), THEN conjunct1, THEN mp, OF this(1)] e
  show ?thesis by auto
qed



end
