(* ===== verification/VariantPrice.thy ===== *)
theory VariantPrice
  imports Money
begin

text \<open>
  The prices of a variant in a list (\<open>pricing/domain/variant-price.ts\<close>): periods that form one line without
  gaps, each ending where the next begins, with setting, scheduling and cancelling a price. What is compared by
  reference in the code, the period in force and the one to cancel, is compared here by its value, which in a list
  of different identifiers is the same.
\<close>

record price_period =
  per_id :: id
  per_amount :: money
  per_compare_at :: "money option"
  per_from :: time
  per_to :: "time option"
  per_created_by :: id
  per_created_at :: time

datatype price_period_state = PeriodPast | PeriodCurrent | PeriodScheduled

definition PRICE_PERIOD_STATES :: "price_period_state list" where
  "PRICE_PERIOD_STATES = [PeriodPast, PeriodCurrent, PeriodScheduled]"

definition period_state :: "price_period \<Rightarrow> time \<Rightarrow> price_period_state" where
  "period_state p at =
     (if per_from p > at then PeriodScheduled
      else case per_to p of
        Some e \<Rightarrow> if e \<le> at then PeriodPast else PeriodCurrent
      | None \<Rightarrow> PeriodCurrent)"

record new_price =
  np_id :: id
  np_amount :: money
  np_compare_at :: "money option"
  np_effective_from :: "time option"
  np_created_by :: id

datatype price_change = PriceSet | PriceScheduled | PriceUnchanged

record price_period_changes =
  chg_removed :: "id list"
  chg_ended :: "price_period list"
  chg_added :: "price_period list"

definition same_money :: "money option \<Rightarrow> money option \<Rightarrow> bool" where
  "same_money a b =
     (case (a, b) of
        (Some x, Some y) \<Rightarrow> money_equals x y
      | (None, None) \<Rightarrow> True
      | _ \<Rightarrow> False)"

definition same_price :: "price_period \<Rightarrow> new_price \<Rightarrow> bool" where
  "same_price p price \<longleftrightarrow> money_equals (per_amount p) (np_amount price) \<and> same_money (per_compare_at p) (np_compare_at price)"

record variant_price =
  vp_id :: id
  vp_list :: id
  vp_variant :: id
  vp_periods :: "price_period list"
  vp_saved :: "price_period list"

definition sorted_by_start :: "price_period list \<Rightarrow> price_period list" where
  "sorted_by_start = sort_key per_from"

definition variant_price_of :: "id \<Rightarrow> id \<Rightarrow> id \<Rightarrow> price_period list \<Rightarrow> variant_price" where
  "variant_price_of i list variant periods =
     \<lparr>vp_id = i, vp_list = list, vp_variant = variant, vp_periods = sorted_by_start periods,
      vp_saved = sorted_by_start periods\<rparr>"

definition price_at :: "time \<Rightarrow> price_period list \<Rightarrow> price_period option" where
  "price_at at ps = find (\<lambda>p. period_state p at = PeriodCurrent) ps"

definition set_price :: "new_price \<Rightarrow> time \<Rightarrow> variant_price \<Rightarrow> (price_period \<times> price_change \<times> variant_price) result" where
  "set_price price now v =
     res_bind (case np_compare_at price of
                 None \<Rightarrow> Inr ()
               | Some m \<Rightarrow>
                   res_bind (greater_than m (np_amount price)) (\<lambda>above.
                     if \<not> above then Inl (PricingError CompareAtAmountError) else Inr ())) (\<lambda>_.
       let scheduled = (case np_effective_from price of Some t \<Rightarrow> t > now | None \<Rightarrow> False);
           start = (case np_effective_from price of Some t \<Rightarrow> if scheduled then t else now | None \<Rightarrow> now);
           unchanged = (if scheduled then None
                        else case price_at now (vp_periods v) of
                          Some current \<Rightarrow> if same_price current price then Some current else None
                        | None \<Rightarrow> None)
       in case unchanged of
            Some current \<Rightarrow> Inr (current, PriceUnchanged, v)
          | None \<Rightarrow>
              (case find (\<lambda>p. per_from p = start) (vp_periods v) of
                 Some same_start \<Rightarrow>
                   if same_price same_start price then Inr (same_start, PriceUnchanged, v)
                   else Inl (PricingError (PricePeriodConflictError Overlap))
               | None \<Rightarrow>
                   let next = find (\<lambda>p. per_from p > start) (vp_periods v);
                       period = \<lparr>per_id = np_id price, per_amount = np_amount price, per_compare_at = np_compare_at price,
                         per_from = start, per_to = map_option per_from next, per_created_by = np_created_by price,
                         per_created_at = now\<rparr>;
                       containing = price_at start (vp_periods v)
                   in Inr (period, if scheduled then PriceScheduled else PriceSet,
                        v\<lparr>vp_periods := sorted_by_start
                          (map (\<lambda>p. if Some p = containing then p\<lparr>per_to := Some start\<rparr> else p) (vp_periods v) @ [period])\<rparr>)))"

definition cancel_price :: "id \<Rightarrow> time \<Rightarrow> variant_price \<Rightarrow> (price_period \<times> variant_price) result" where
  "cancel_price i now v =
     (case find (\<lambda>p. per_id p = i) (vp_periods v) of
        None \<Rightarrow> Inl (NotFoundError ''PricePeriod'' i)
      | Some period \<Rightarrow>
          if per_from period \<le> now then Inl (PricingError (PricePeriodConflictError AlreadyStarted))
          else Inr (period, v\<lparr>vp_periods :=
                 map (\<lambda>p. if per_to p = Some (per_from period) then p\<lparr>per_to := per_to period\<rparr> else p)
                   (filter (\<lambda>p. p \<noteq> period) (vp_periods v))\<rparr>))"

text \<open>A \<open>Map\<close> of the saved periods by their identifier.\<close>

definition price_changes :: "variant_price \<Rightarrow> price_period_changes" where
  "price_changes v =
     (let before = (\<lambda>i. find (\<lambda>p. per_id p = i) (rev (vp_saved v)));
          after = map per_id (vp_periods v)
      in \<lparr>chg_removed = map per_id (filter (\<lambda>p. per_id p \<notin> set after) (vp_saved v)),
          chg_ended = filter (\<lambda>p. case before (per_id p) of Some was \<Rightarrow> per_to was \<noteq> per_to p | None \<Rightarrow> False) (vp_periods v),
          chg_added = filter (\<lambda>p. before (per_id p) = None) (vp_periods v)\<rparr>)"

definition mark_saved :: "variant_price \<Rightarrow> variant_price" where
  "mark_saved v = v\<lparr>vp_saved := vp_periods v\<rparr>"

section \<open>One line without gaps\<close>

text \<open>Where a line begins, or else where it would.\<close>

definition start_of :: "price_period list \<Rightarrow> time option \<Rightarrow> time option" where
  "start_of ps e = (case ps of [] \<Rightarrow> e | p # _ \<Rightarrow> Some (per_from p))"

text \<open>Each period ends where the next begins and the last one at e, none of them empty.\<close>

fun line_to :: "time option \<Rightarrow> price_period list \<Rightarrow> bool" where
  "line_to e [] = True"
| "line_to e (p # ps) =
     (per_to p = start_of ps e \<and> (case start_of ps e of Some t \<Rightarrow> per_from p < t | None \<Rightarrow> True) \<and> line_to e ps)"

definition fair_price :: "price_period \<Rightarrow> bool" where
  "fair_price p \<longleftrightarrow> (case per_compare_at p of Some m \<Rightarrow> amount m > amount (per_amount p) | None \<Rightarrow> True)"

definition wf_periods :: "price_period list \<Rightarrow> bool" where
  "wf_periods ps \<longleftrightarrow> line_to None ps \<and> distinct (map per_id ps) \<and> list_all fair_price ps"

lemma start_of_simps [simp]: "start_of [] e = e" "start_of (p # ps) e = Some (per_from p)"
  by (simp_all add: start_of_def)

lemma start_of_append [simp]: "start_of (xs @ ys) e = start_of xs (start_of ys e)"
  by (cases xs) simp_all

lemma line_to_append: "line_to e (xs @ ys) \<longleftrightarrow> line_to (start_of ys e) xs \<and> line_to e ys"
  by (induction xs) auto

lemma line_starts: "line_to e (p # ps) \<Longrightarrow> q \<in> set ps \<Longrightarrow> per_from p < per_from q"
proof (induction ps arbitrary: p)
  case Nil
  then show ?case by simp
next
  case (Cons r ps)
  from Cons.prems have r: "per_from p < per_from r" "line_to e (r # ps)" by auto
  with Cons.IH [OF r(2)] Cons.prems(2) show ?case by (cases "q = r") force+
qed

lemma line_sorted: "line_to e ps \<Longrightarrow> sorted_wrt (\<lambda>p q. per_from p < per_from q) ps"
proof (induction ps)
  case Nil
  then show ?case by simp
next
  case (Cons p ps)
  with line_starts [OF Cons.prems] show ?case by simp
qed

text \<open>The period in force is the last that began.\<close>

lemma price_at_none: "line_to e ps \<Longrightarrow> (\<forall>p\<in>set ps. at < per_from p) \<Longrightarrow> price_at at ps = None"
  by (induction ps) (auto simp: price_at_def period_state_def)

lemma period_state_current:
  "period_state p at = PeriodCurrent \<longleftrightarrow> per_from p \<le> at \<and> (case per_to p of None \<Rightarrow> True | Some e \<Rightarrow> at < e)"
  by (auto simp: period_state_def split: option.split)

lemma price_at_split:
  assumes line: "line_to e (xs @ ys)" and before: "\<forall>p\<in>set xs. per_from p \<le> at" and after: "\<forall>p\<in>set ys. at < per_from p"
    and open_end: "\<And>t. e = Some t \<Longrightarrow> at < t"
  shows "price_at at (xs @ ys) = (if xs = [] then None else Some (last xs))"
  using line before
proof (induction xs)
  case Nil
  then show ?case using price_at_none after by simp
next
  case (Cons p xs)
  have rest: "line_to e (xs @ ys)" "\<forall>p\<in>set xs. per_from p \<le> at" "per_to p = start_of (xs @ ys) e"
    using Cons.prems by simp_all
  show ?case
  proof (cases xs)
    case Nil
    have "case per_to p of None \<Rightarrow> True | Some t \<Rightarrow> at < t"
      using rest(3) Nil after open_end by (cases ys) (auto split: option.split)
    then have "period_state p at = PeriodCurrent" using Cons.prems(2) by (simp add: period_state_current)
    with Nil show ?thesis by (simp add: price_at_def)
  next
    case (Cons q zs)
    have "period_state p at \<noteq> PeriodCurrent" using rest Cons by (simp add: period_state_current)
    with Cons.IH [OF rest(1,2)] Cons show ?thesis by (simp add: price_at_def)
  qed
qed

text \<open>A line seen from an instant: what began before, and what comes after.\<close>

lemma line_split:
  assumes "line_to e ps"
  shows "ps = filter (\<lambda>p. per_from p \<le> at) ps @ filter (\<lambda>p. at < per_from p) ps"
  using assms
proof (induction ps)
  case Nil
  then show ?case by simp
next
  case (Cons p ps)
  then have ih: "ps = filter (\<lambda>p. per_from p \<le> at) ps @ filter (\<lambda>p. at < per_from p) ps" by simp
  show ?case
  proof (cases "per_from p \<le> at")
    case True
    with ih show ?thesis by simp
  next
    case False
    with line_starts [OF Cons.prems] have "\<forall>q\<in>set ps. at < per_from q" by fastforce
    with False show ?thesis by (fastforce simp: filter_id_conv filter_empty_conv)
  qed
qed

definition began :: "time \<Rightarrow> price_period list \<Rightarrow> price_period list" where
  "began at ps = filter (\<lambda>p. per_from p \<le> at) ps"

definition later :: "time \<Rightarrow> price_period list \<Rightarrow> price_period list" where
  "later at ps = filter (\<lambda>p. at < per_from p) ps"

lemma line_parts: "line_to e ps \<Longrightarrow> began at ps @ later at ps = ps"
  using line_split [of e ps at] by (simp add: began_def later_def)

lemma price_at_line:
  assumes "line_to None ps"
  shows "price_at at ps = (if began at ps = [] then None else Some (last (began at ps)))"
proof -
  have "line_to None (began at ps @ later at ps)" using assms line_parts by simp
  from price_at_split [OF this] line_parts [OF assms, of at] show ?thesis by (simp add: began_def later_def)
qed

section \<open>The price in force at each instant\<close>

text \<open>What a line of periods promises: the price of each instant, whatever the ends say.\<close>

definition in_force :: "price_period list \<Rightarrow> time \<Rightarrow> price_period option" where
  "in_force ps at = map_option (\<lambda>p. p\<lparr>per_to := None\<rparr>) (price_at at ps)"

text \<open>The same periods with another end for the last.\<close>

definition ending :: "time option \<Rightarrow> price_period list \<Rightarrow> price_period list" where
  "ending e ps = (if ps = [] then [] else butlast ps @ [(last ps)\<lparr>per_to := e\<rparr>])"

lemma ending_simps [simp]: "ending e [] = []" "ending e (xs @ [p]) = xs @ [p\<lparr>per_to := e\<rparr>]"
  by (simp_all add: ending_def)

lemma fair_price_end [simp]: "fair_price (p\<lparr>per_to := e\<rparr>) = fair_price p"
  by (simp add: fair_price_def split: option.split)

lemma ending_starts [simp]:
  shows "map per_from (ending e ps) = map per_from ps" and "map per_id (ending e ps) = map per_id ps"
    and "list_all fair_price (ending e ps) = list_all fair_price ps" and "(ending e ps = []) = (ps = [])"
  by (cases ps rule: rev_cases, simp, simp)+

lemma line_to_ending:
  assumes "line_to e' ps" and "\<And>t. e = Some t \<Longrightarrow> \<forall>p\<in>set ps. per_from p < t"
  shows "line_to e (ending e ps)"
proof (cases ps rule: rev_cases)
  case Nil
  then show ?thesis by simp
next
  case (snoc xs p)
  with assms show ?thesis by (cases e) (simp_all add: line_to_append)
qed

lemma starts_eq_ids: "map per_from ps = map per_from qs \<Longrightarrow> (\<forall>p\<in>set ps. P (per_from p)) = (\<forall>q\<in>set qs. P (per_from q))"
  by (metis (no_types, lifting) image_iff list.set_map)

lemma sort_sorted: "sorted_wrt (\<lambda>p q. per_from p < per_from q) ps \<Longrightarrow> sorted_by_start ps = ps"
proof -
  assume "sorted_wrt (\<lambda>p q. per_from p < per_from q) ps"
  then have "sorted (map per_from ps)"
    by (simp add: sorted_map) (auto elim!: sorted_wrt_mono_rel [rotated])
  then show ?thesis by (simp add: sorted_by_start_def sort_key_id_if_sorted)
qed


section \<open>Setting a price\<close>

text \<open>
  A price opened at an instant no other begins at: what began before ends there, and what comes after stays.
\<close>

definition opened :: "price_period \<Rightarrow> price_period list \<Rightarrow> price_period list" where
  "opened p ps =
     ending (Some (per_from p)) (began (per_from p) ps)
       @ p\<lparr>per_to := start_of (later (per_from p) ps) None\<rparr> # later (per_from p) ps"

lemma find_later: "find (\<lambda>p. per_from p > at) ps = (case later at ps of [] \<Rightarrow> None | p # _ \<Rightarrow> Some p)"
  by (induction ps) (auto simp: later_def)

lemma began_set: "p \<in> set (began at ps) \<longleftrightarrow> p \<in> set ps \<and> per_from p \<le> at"
  by (auto simp: began_def)

lemma began_all: "(\<And>p. p \<in> set ps \<Longrightarrow> per_from p \<le> at) \<Longrightarrow> began at ps = ps"
  by (simp add: began_def)

lemma later_set: "p \<in> set (later at ps) \<longleftrightarrow> p \<in> set ps \<and> at < per_from p"
  by (auto simp: later_def)

lemma opened_line:
  assumes line: "line_to None ps" and new: "per_from p \<notin> per_from ` set ps"
  shows "line_to None (opened p ps)"
proof -
  have parts: "line_to (start_of (later (per_from p) ps) None) (began (per_from p) ps)" "line_to None (later (per_from p) ps)"
    using line line_parts [OF line, of "per_from p"] line_to_append by metis+
  have before: "\<forall>q\<in>set (began (per_from p) ps). per_from q < per_from p"
  proof
    fix q assume "q \<in> set (began (per_from p) ps)"
    then have "q \<in> set ps" "per_from q \<le> per_from p" by (simp_all add: began_def)
    moreover from this(1) new have "per_from q \<noteq> per_from p" by (metis imageI)
    ultimately show "per_from q < per_from p" by simp
  qed
  have "line_to (Some (per_from p)) (ending (Some (per_from p)) (began (per_from p) ps))"
    by (rule line_to_ending [OF parts(1)]) (use before in simp)
  moreover have "case start_of (later (per_from p) ps) None of None \<Rightarrow> True | Some t \<Rightarrow> per_from p < t"
  proof (cases "later (per_from p) ps")
    case Nil
    then show ?thesis by simp
  next
    case (Cons a as)
    then have "a \<in> set (later (per_from p) ps)" by simp
    then have "per_from p < per_from a" unfolding later_set by blast
    with Cons show ?thesis by simp
  qed
  ultimately show ?thesis using parts(2)
    by (cases "start_of (later (per_from p) ps) None") (simp_all add: opened_def line_to_append)
qed

lemma map_last:
  assumes "distinct xs" and "set xs \<inter> set ys = {}" and "xs \<noteq> []"
  shows "map (\<lambda>x. if Some x = Some (last xs) then f x else x) (xs @ ys) = butlast xs @ [f (last xs)] @ ys"
proof -
  obtain zs z where xs: "xs = zs @ [z]" using assms(3) by (cases xs rule: rev_cases) auto
  with assms show ?thesis by (auto intro!: map_idI)
qed

lemma containing_closed:
  assumes line: "line_to None ps" and ids: "distinct (map per_id ps)"
  shows "map (\<lambda>p. if Some p = price_at at ps then p\<lparr>per_to := Some at\<rparr> else p) ps
    = ending (Some at) (began at ps) @ later at ps"
proof (cases "began at ps = []")
  case True
  with line_parts [OF line, of at] price_at_line [OF line] show ?thesis by simp
next
  case False
  have whole: "began at ps @ later at ps = ps" by (rule line_parts [OF line])
  have "distinct ps" using ids by (simp add: distinct_map)
  then have "distinct (began at ps)" "set (began at ps) \<inter> set (later at ps) = {}"
    by (auto simp: began_def later_def)
  from map_last [OF this False, of "\<lambda>p. p\<lparr>per_to := Some at\<rparr>"] whole price_at_line [OF line, of at] False
  show ?thesis by (simp add: ending_def)
qed

lemma sort_insert:
  assumes "sorted_wrt (\<lambda>p q. per_from p < per_from q) (xs @ p # ys)"
  shows "sorted_by_start ((xs @ ys) @ [p]) = xs @ p # ys"
  using assms
proof (induction xs)
  case Nil
  then show ?case
  proof (induction ys)
    case Nil
    then show ?case by (simp add: sorted_by_start_def)
  next
    case (Cons y ys)
    then have "sorted_by_start (ys @ [p]) = p # ys" "per_from p < per_from y" "\<forall>q\<in>set ys. per_from y \<le> per_from q"
      by auto
    then show ?case by (simp add: sorted_by_start_def insort_is_Cons)
  qed
next
  case (Cons x xs)
  then have ih: "sorted_by_start ((xs @ ys) @ [p]) = xs @ p # ys" and least: "\<forall>q\<in>set (xs @ p # ys). per_from x \<le> per_from q"
    by (auto intro: less_imp_le)
  from insort_is_Cons [of "xs @ p # ys" per_from x] least ih show ?case by (simp add: sorted_by_start_def)
qed

text \<open>Setting a price either changes nothing or opens one.\<close>

lemma set_price_Inr:
  assumes step: "set_price price now v = Inr (p, change, w)" and wf: "wf_periods (vp_periods v)"
  shows "change = PriceUnchanged \<and> w = v \<and> p \<in> set (vp_periods v) \<and> same_price p price
    \<or> change \<noteq> PriceUnchanged \<and> w = v\<lparr>vp_periods := opened p (vp_periods v)\<rparr> \<and> per_from p \<notin> per_from ` set (vp_periods v)
      \<and> per_id p = np_id price \<and> per_amount p = np_amount price \<and> per_compare_at p = np_compare_at price
      \<and> per_from p \<ge> now \<and> fair_price p \<and> per_to p = start_of (later (per_from p) (vp_periods v)) None"
proof -
  define ps where "ps = vp_periods v"
  have line: "line_to None ps" and ids: "distinct (map per_id ps)" using wf by (simp_all add: wf_periods_def ps_def)
  define scheduled where "scheduled = (case np_effective_from price of Some t \<Rightarrow> t > now | None \<Rightarrow> False)"
  define start where "start = (case np_effective_from price of Some t \<Rightarrow> if scheduled then t else now | None \<Rightarrow> now)"
  define unchanged where "unchanged = (if scheduled then None
                        else case price_at now ps of
                          Some current \<Rightarrow> if same_price current price then Some current else None
                        | None \<Rightarrow> None)"
  have start: "now \<le> start" by (auto simp: start_def scheduled_def split: option.split)
  from step have fair: "\<And>m. np_compare_at price = Some m \<Longrightarrow> amount m > amount (np_amount price)"
    by (auto simp: set_price_def res_simps greater_than_def compare_to_def assert_same_currency_def)
  from step have body: "(case unchanged of
            Some current \<Rightarrow> Inr (current, PriceUnchanged, v)
          | None \<Rightarrow>
              (case find (\<lambda>p. per_from p = start) ps of
                 Some same_start \<Rightarrow>
                   if same_price same_start price then Inr (same_start, PriceUnchanged, v)
                   else Inl (PricingError (PricePeriodConflictError Overlap))
               | None \<Rightarrow>
                   let next = find (\<lambda>p. per_from p > start) ps;
                       period = \<lparr>per_id = np_id price, per_amount = np_amount price, per_compare_at = np_compare_at price,
                         per_from = start, per_to = map_option per_from next, per_created_by = np_created_by price,
                         per_created_at = now\<rparr>;
                       containing = price_at start ps
                   in Inr (period, if scheduled then PriceScheduled else PriceSet,
                        v\<lparr>vp_periods := sorted_by_start
                          (map (\<lambda>p. if Some p = containing then p\<lparr>per_to := Some start\<rparr> else p) ps @ [period])\<rparr>)))
      = Inr (p, change, w)"
    unfolding set_price_def Let_def res_bind_eq_Inr
    unfolding ps_def [symmetric] scheduled_def [symmetric] start_def [symmetric] unchanged_def [symmetric] by blast
  show ?thesis
  proof (cases unchanged)
    case (Some current)
    then have "price_at now ps = Some current" "same_price current price"
      by (auto simp: unchanged_def split: if_splits option.splits)
    moreover from this(1) have "current \<in> set ps" by (auto simp: price_at_def find_Some_iff)
    ultimately show ?thesis using body Some by (auto simp: ps_def)
  next
    case None
    show ?thesis
    proof (cases "find (\<lambda>p. per_from p = start) ps")
      case (Some same)
      then have "same \<in> set ps" by (auto simp: find_Some_iff)
      with body None Some show ?thesis by (auto simp: ps_def split: if_splits)
    next
      case free: None
      then have new: "start \<notin> per_from ` set ps" by (auto simp: find_None_iff)
      let ?p = "\<lparr>per_id = np_id price, per_amount = np_amount price, per_compare_at = np_compare_at price,
          per_from = start, per_to = start_of (later start ps) None, per_created_by = np_created_by price, per_created_at = now\<rparr>"
      have upto: "map_option per_from (find (\<lambda>p. per_from p > start) ps) = start_of (later start ps) None"
        by (simp add: find_later split: list.split)
      have p: "p = ?p" and change: "change \<noteq> PriceUnchanged"
        and w: "w = v\<lparr>vp_periods := sorted_by_start
                  (map (\<lambda>q. if Some q = price_at start ps then q\<lparr>per_to := Some start\<rparr> else q) ps @ [?p])\<rparr>"
        using body None free by (auto simp: Let_def upto split: if_splits)
      have "opened p ps = ending (Some start) (began start ps) @ ?p # later start ps" by (simp add: opened_def p)
      moreover have "sorted_wrt (\<lambda>p q. per_from p < per_from q) (opened p ps)"
        by (rule line_sorted [OF opened_line [OF line]]) (use new p in simp)
      ultimately have "sorted_by_start (map (\<lambda>q. if Some q = price_at start ps then q\<lparr>per_to := Some start\<rparr> else q) ps @ [?p])
          = opened p ps"
        using containing_closed [OF line ids, of start] sort_insert by simp
      with p change w start new fair show ?thesis
        by (auto simp: ps_def fair_price_def split: option.split)
    qed
  qed
qed


lemma opened_wf:
  assumes wf: "wf_periods ps" and new: "per_from p \<notin> per_from ` set ps" "per_id p \<notin> per_id ` set ps" "fair_price p"
  shows "wf_periods (opened p ps)"
proof -
  have line: "line_to None ps" and ids: "distinct (map per_id ps)" and fair: "list_all fair_price ps"
    using wf by (simp_all add: wf_periods_def)
  have parts: "began (per_from p) ps @ later (per_from p) ps = ps" by (rule line_parts [OF line])
  then have "set (map per_id (began (per_from p) ps)) \<union> set (map per_id (later (per_from p) ps)) = per_id ` set ps"
    by (metis map_append set_append set_map)
  moreover have "distinct (map per_id (began (per_from p) ps) @ map per_id (later (per_from p) ps))"
    using ids parts by (metis map_append)
  ultimately have "distinct (map per_id (opened p ps))" using new(2) by (auto simp: opened_def)
  moreover have "list_all fair_price (began (per_from p) ps)" "list_all fair_price (later (per_from p) ps)"
    using fair by (auto simp: began_def later_def list_all_iff)
  ultimately show ?thesis using opened_line [OF line new(1)] new(3) by (simp add: wf_periods_def opened_def)
qed

text \<open>From its start to the next the new price is in force, and at any other instant the same as before.\<close>

lemma last_ending: "ps \<noteq> [] \<Longrightarrow> last (ending e ps) = (last ps)\<lparr>per_to := e\<rparr>"
  by (simp add: ending_def)

definition last_began :: "time \<Rightarrow> price_period list \<Rightarrow> price_period option" where
  "last_began at ps = (if began at ps = [] then None else Some ((last (began at ps))\<lparr>per_to := None\<rparr>))"

lemma in_force_line: "line_to None ps \<Longrightarrow> in_force ps at = last_began at ps"
  by (simp add: in_force_def last_began_def price_at_line)

lemma last_began_ending [simp]: "last_began at (ending e ps) = last_began at ps"
  by (cases ps rule: rev_cases) (auto simp: last_began_def began_def)

lemma in_force_opened:
  assumes line: "line_to None ps" and new: "per_from p \<notin> per_from ` set ps"
  shows "in_force (opened p ps) at
    = (if per_from p \<le> at \<and> (case start_of (later (per_from p) ps) None of None \<Rightarrow> True | Some t \<Rightarrow> at < t)
       then Some (p\<lparr>per_to := None\<rparr>) else in_force ps at)"
proof -
  let ?b = "began (per_from p) ps" and ?l = "later (per_from p) ps"
  note open_line = opened_line [OF line new]
  have whole: "?b @ ?l = ps" by (rule line_parts [OF line])
  have split: "began at (ending (Some (per_from p)) ?b @ (p\<lparr>per_to := start_of ?l None\<rparr>) # ?l)
      = began at (ending (Some (per_from p)) ?b) @ began at [p\<lparr>per_to := start_of ?l None\<rparr>] @ began at ?l"
    by (simp add: began_def)
  have before: "per_from q \<le> per_from p" if "q \<in> set ?b" for q using that by (simp add: began_set)
  have after: "per_from p < per_from q" if "q \<in> set ?l" for q using that by (simp add: later_set)
  have ended: "per_from q \<le> per_from p" if "q \<in> set (ending e ?b)" for q e
  proof -
    have "per_from q \<in> per_from ` set (ending e ?b)" using that by (rule imageI)
    also have "\<dots> = per_from ` set ?b" by (simp only: set_map [symmetric] ending_starts(1))
    finally show ?thesis using before by auto
  qed
  show ?thesis
  proof (cases "per_from p \<le> at")
    case False
    have "began at ?l = []" using after False by (force simp: began_def filter_empty_conv)
    then have a: "began at ps = began at ?b" using whole by (metis append_Nil2 began_def filter_append)
    have b: "began at (opened p ps) = began at (ending (Some (per_from p)) ?b)"
      using split \<open>began at ?l = []\<close> False by (simp add: opened_def) (simp add: began_def)
    have "last_began at (opened p ps) = last_began at (ending (Some (per_from p)) ?b)"
      unfolding last_began_def b by (rule refl)
    moreover have "last_began at ps = last_began at ?b" unfolding last_began_def a by (rule refl)
    ultimately have "last_began at (opened p ps) = last_began at ps" by (metis last_began_ending)
    with False show ?thesis by (simp add: in_force_line [OF line] in_force_line [OF open_line])
  next
    case True
    have all: "began at (ending (Some (per_from p)) ?b) = ending (Some (per_from p)) ?b"
      using order_trans [OF ended True] by (simp add: began_all)
    show ?thesis
    proof (cases "began at ?l = []")
      case none: True
      have "case start_of ?l None of None \<Rightarrow> True | Some t \<Rightarrow> at < t"
        using none by (cases ?l) (auto simp: began_def filter_empty_conv split: if_splits)
      moreover have "began at (opened p ps) = ending (Some (per_from p)) ?b @ [p\<lparr>per_to := start_of ?l None\<rparr>]"
        using split all none True by (simp add: opened_def) (simp add: began_def)
      ultimately show ?thesis using True by (simp add: in_force_def price_at_line [OF open_line])
    next
      case some: False
      then obtain q l where l: "?l = q # l" by (cases ?l) (auto simp: began_def)
      have "line_to None (?b @ ?l)" using line whole by simp
      then have sorted: "line_to None (q # l)" using l by (simp add: line_to_append)
      have q: "per_from q \<le> at"
      proof (rule ccontr)
        assume "\<not> per_from q \<le> at"
        moreover have "per_from q < per_from r" if "r \<in> set l" for r by (rule line_starts [OF sorted that])
        ultimately have "began at (q # l) = []" by (force simp: began_def filter_empty_conv)
        with some l show False by simp
      qed
      have "began at ps = ?b @ began at ?l"
      proof -
        have "began at ps = began at ?b @ began at ?l" using whole by (metis began_def filter_append)
        moreover have "began at ?b = ?b" using order_trans [OF before True] by (simp add: began_all)
        ultimately show ?thesis by simp
      qed
      moreover have "began at (opened p ps)
          = ending (Some (per_from p)) ?b @ [p\<lparr>per_to := start_of ?l None\<rparr>] @ began at ?l"
        using split all True by (simp add: opened_def) (simp add: began_def)
      ultimately show ?thesis
        using True some l q by (simp add: in_force_def price_at_line [OF line] price_at_line [OF open_line])
    qed
  qed
qed


section \<open>Cancelling a scheduled price\<close>

lemma line_all_before: "line_to (Some t) ps \<Longrightarrow> \<forall>p\<in>set ps. per_from p < t"
proof (induction ps)
  case Nil
  then show ?case by simp
next
  case (Cons q ps)
  then have ih: "\<forall>p\<in>set ps. per_from p < t" by simp
  have "per_from q < t"
  proof (cases ps)
    case Nil
    with Cons.prems show ?thesis by simp
  next
    case (Cons r rs)
    with \<open>line_to (Some t) (q # ps)\<close> have "per_from q < per_from r" by simp
    also have "per_from r < t" using ih Cons by simp
    finally show ?thesis .
  qed
  with ih show ?case by simp
qed

lemma line_before: "line_to (Some t) ps \<Longrightarrow> p \<in> set ps \<Longrightarrow> per_from p < t"
  using line_all_before by blast

lemma line_ends: "line_to e ps \<Longrightarrow> p \<in> set ps \<Longrightarrow> per_to p = Some t \<Longrightarrow> per_from p < t"
  by (induction ps) auto

lemma give_back:
  "line_to (Some t) ps \<Longrightarrow> map (\<lambda>p. if per_to p = Some t then p\<lparr>per_to := e\<rparr> else p) ps = ending e ps"
proof (induction ps)
  case Nil
  then show ?case by simp
next
  case (Cons p ps)
  show ?case
  proof (cases ps)
    case Nil
    with Cons.prems show ?thesis by (simp add: ending_def)
  next
    case c: (Cons q qs)
    have "per_from q < t" by (rule line_before [of t ps]) (use Cons.prems c in simp_all)
    with Cons.prems c have "per_to p \<noteq> Some t" by auto
    with Cons.IH Cons.prems c show ?thesis by (simp add: ending_def)
  qed
qed

lemma keep_ends:
  assumes "line_to e ps" and "\<And>p. p \<in> set ps \<Longrightarrow> t < per_from p"
  shows "map (\<lambda>p. if per_to p = Some t then p\<lparr>per_to := e'\<rparr> else p) ps = ps"
proof (rule map_idI)
  fix p assume p: "p \<in> set ps"
  have "per_to p \<noteq> Some t" using line_ends [OF assms(1) p] assms(2) [OF p] by force
  then show "(if per_to p = Some t then p\<lparr>per_to := e'\<rparr> else p) = p" by simp
qed

lemma cancel_price_Inr:
  assumes step: "cancel_price i now v = Inr (p, w)" and wf: "wf_periods (vp_periods v)"
  obtains xs ys where "vp_periods v = xs @ p # ys" and "w = v\<lparr>vp_periods := ending (per_to p) xs @ ys\<rparr>"
    and "now < per_from p" and "per_id p = i"
proof -
  have line: "line_to None (vp_periods v)" and ids: "distinct (map per_id (vp_periods v))" using wf by (simp_all add: wf_periods_def)
  from step have found: "find (\<lambda>p. per_id p = i) (vp_periods v) = Some p" "now < per_from p"
    and w: "w = v\<lparr>vp_periods := map (\<lambda>q. if per_to q = Some (per_from p) then q\<lparr>per_to := per_to p\<rparr> else q)
                   (filter (\<lambda>q. q \<noteq> p) (vp_periods v))\<rparr>"
    by (auto simp: cancel_price_def split: option.splits if_splits)
  from found(1) have row: "p \<in> set (vp_periods v)" "per_id p = i" by (auto simp: find_Some_iff)
  from row(1) obtain xs ys where ps: "vp_periods v = xs @ p # ys" by (auto simp: in_set_conv_decomp)
  have "distinct (vp_periods v)" using ids by (simp add: distinct_map)
  then have "filter (\<lambda>q. q \<noteq> p) xs = xs" "filter (\<lambda>q. q \<noteq> p) ys = ys"
    by (auto simp: ps intro!: filter_True)
  then have others: "filter (\<lambda>q. q \<noteq> p) (vp_periods v) = xs @ ys" by (simp add: ps)
  have parts: "line_to (Some (per_from p)) xs" "line_to None (p # ys)" using line by (simp_all add: ps line_to_append)
  have "map (\<lambda>q. if per_to q = Some (per_from p) then q\<lparr>per_to := per_to p\<rparr> else q) ys = ys"
    by (rule keep_ends [of None]) (use parts(2) line_starts [OF parts(2)] in auto)
  with give_back [OF parts(1), of "per_to p"] have "w = v\<lparr>vp_periods := ending (per_to p) xs @ ys\<rparr>"
    by (simp add: w others)
  from that [OF ps this found(2) row(2)] show ?thesis .
qed

lemma cancelled_wf:
  assumes "wf_periods (xs @ p # ys)"
  shows "wf_periods (ending (per_to p) xs @ ys)"
proof -
  have line: "line_to (Some (per_from p)) xs" "per_to p = start_of ys None" "line_to None ys"
    using assms by (simp_all add: wf_periods_def line_to_append)
  have "per_from q < t" if "per_to p = Some t" "q \<in> set xs" for q t
  proof -
    have "per_from p < t" using assms that(1) by (simp add: wf_periods_def line_to_append split: option.splits)
    with line_before [OF line(1) that(2)] show ?thesis by simp
  qed
  then have "line_to (per_to p) (ending (per_to p) xs)" by (intro line_to_ending [OF line(1)]) blast
  with assms line show ?thesis by (auto simp: wf_periods_def line_to_append)
qed

text \<open>Where the cancelled price was in force, or would have been, the one before it is; elsewhere nothing changes.\<close>

lemma in_force_cancelled:
  assumes wf: "wf_periods (xs @ p # ys)"
  shows "in_force (ending (per_to p) xs @ ys) at
    = (if in_force (xs @ p # ys) at = Some (p\<lparr>per_to := None\<rparr>) then in_force (xs @ p # ys) (per_from p - 1)
       else in_force (xs @ p # ys) at)"
proof -
  have line: "line_to None (xs @ p # ys)" and ids: "distinct (map per_id (xs @ p # ys))" using wf by (simp_all add: wf_periods_def)
  have line': "line_to None (ending (per_to p) xs @ ys)" using cancelled_wf [OF wf] by (simp add: wf_periods_def)
  have before: "per_from q < per_from p" if "q \<in> set xs" for q
    using line_before [of "per_from p" xs q] line that by (simp add: line_to_append)
  have after: "per_from p < per_from q" if "q \<in> set ys" for q
    using line_starts [of None p ys q] line that by (simp add: line_to_append)
  have "began (per_from p - 1) xs = xs" by (rule began_all) (use before in force)
  moreover have "began (per_from p - 1) (p # ys) = []" using after by (force simp: began_def filter_empty_conv)
  ultimately have prior: "last_began (per_from p - 1) (xs @ p # ys) = (if xs = [] then None else Some ((last xs)\<lparr>per_to := None\<rparr>))"
    by (simp add: last_began_def began_def)
  have ends: "began at (ending e xs @ ys) = began at (ending e xs) @ began at ys" for e by (simp add: began_def)
  have other: "q\<lparr>per_to := None\<rparr> \<noteq> p\<lparr>per_to := None\<rparr>" if "q \<in> set xs \<union> set ys" for q
  proof
    assume "q\<lparr>per_to := None\<rparr> = p\<lparr>per_to := None\<rparr>"
    then have "per_id (q\<lparr>per_to := None\<rparr>) = per_id (p\<lparr>per_to := None\<rparr>)" by (rule arg_cong)
    then have "per_id q = per_id p" by simp
    moreover have "per_id q \<in> per_id ` (set xs \<union> set ys)" using that by (rule imageI)
    moreover have "per_id p \<notin> per_id ` (set xs \<union> set ys)" using ids by auto
    ultimately show False by simp
  qed
  show ?thesis
  proof (cases "at < per_from p")
    case True
    have none: "began at ys = []" "began at (p # ys) = []" using after True by (force simp: began_def filter_empty_conv)+
    then have "last_began at (xs @ p # ys) = last_began at xs" by (simp add: last_began_def began_def)
    moreover have "last_began at (ending (per_to p) xs @ ys) = last_began at (ending (per_to p) xs)"
      using none ends by (simp add: last_began_def)
    moreover have "last_began at xs \<noteq> Some (p\<lparr>per_to := None\<rparr>)"
      using other last_in_set [of "began at xs"] by (auto simp: last_began_def began_set)
    ultimately show ?thesis by (simp add: in_force_line [OF line] in_force_line [OF line'])
  next
    case False
    have "per_from q \<le> at" if "q \<in> set (ending e xs)" for q e
    proof -
      have "per_from q \<in> per_from ` set (ending e xs)" using that by (rule imageI)
      also have "\<dots> = per_from ` set xs" by (simp only: set_map [symmetric] ending_starts(1))
      finally show ?thesis using before False by force
    qed
    then have all: "began at (ending e xs) = ending e xs" for e by (rule began_all)
    have whole: "began at (xs @ p # ys) = xs @ p # began at ys"
    proof -
      have "began at xs = xs" by (rule began_all) (use before False in \<open>force simp: less_le_not_le\<close>)
      moreover have "began at (xs @ p # ys) = began at xs @ began at (p # ys)" by (simp add: began_def)
      moreover have "began at (p # ys) = p # began at ys" using False by (simp add: began_def)
      ultimately show ?thesis by simp
    qed
    show ?thesis
    proof (cases "began at ys = []")
      case True
      then have "last_began at (xs @ p # ys) = Some (p\<lparr>per_to := None\<rparr>)" by (simp add: last_began_def whole)
      moreover have "last_began at (ending (per_to p) xs @ ys) = (if xs = [] then None else Some ((last xs)\<lparr>per_to := None\<rparr>))"
        using True ends all by (simp add: last_began_def last_ending)
      ultimately show ?thesis using prior by (simp add: in_force_line [OF line] in_force_line [OF line'])
    next
      case some: False
      then have last: "last (began at ys) \<in> set ys" using last_in_set [OF some] by (simp add: began_set)
      have "last_began at (xs @ p # ys) = Some ((last (began at ys))\<lparr>per_to := None\<rparr>)"
        using some by (simp add: last_began_def whole)
      moreover have "last_began at (ending (per_to p) xs @ ys) = Some ((last (began at ys))\<lparr>per_to := None\<rparr>)"
        using some ends by (simp add: last_began_def)
      ultimately show ?thesis using other [of "last (began at ys)"] last
        by (simp add: in_force_line [OF line] in_force_line [OF line'])
    qed
  qed
qed

end
