(* ===== verification/Prices.thy ===== *)
theory Prices
  imports VariantPrice
begin

text \<open>
  The tables of the prices (\<open>pricing/infrastructure/prisma-variant-price.repository.ts\<close> and
  \<open>prisma-pricing.queries.ts\<close>, with the constraints of the migration), what the staff does to them
  (\<open>pricing/application/variant-prices.use-case.ts\<close>) and the price in force other modules ask for
  (\<open>pricing.facade.ts\<close>). The variants the catalog knows are a parameter. Each use case loads the prices it
  changes and leaves them once saved, so saving answers the tables alone.
\<close>

record price_row =
  vr_id :: id
  vr_list :: id
  vr_variant :: id
  vr_version :: int

record prices_db =
  px_lists :: "id list"
  px_default :: "id option"
  px_rows :: "price_row list"
  px_periods :: "(id \<times> price_period) list"

definition periods_of :: "id \<Rightarrow> prices_db \<Rightarrow> price_period list" where
  "periods_of i d = map snd (filter (\<lambda>(j, p). j = i) (px_periods d))"

section \<open>Locking and saving\<close>

text \<open>A first price creates the row of its variant, unless it is there.\<close>

definition create_price_row :: "id \<Rightarrow> id \<Rightarrow> id \<Rightarrow> prices_db \<Rightarrow> prices_db result" where
  "create_price_row list fresh variant d =
     (if list_ex (\<lambda>r. vr_list r = list \<and> vr_variant r = variant) (px_rows d) then Inr d
      else if list_ex (\<lambda>r. vr_id r = fresh) (px_rows d) then Inl (PlainError ''variant_prices_pkey'')
      else Inr (d\<lparr>px_rows := px_rows d @ [\<lparr>vr_id = fresh, vr_list = list, vr_variant = variant, vr_version = 1\<rparr>]\<rparr>))"

definition lock_prices :: "(nat \<Rightarrow> id) \<Rightarrow> id \<Rightarrow> id list \<Rightarrow> prices_db \<Rightarrow> (variant_price list \<times> prices_db) result" where
  "lock_prices fresh list variants d =
     (let ids = sort (remdups variants)
      in if ids = [] then Inr ([], d)
         else
           res_bind (res_fold (\<lambda>d (i, v). create_price_row list i v d) d (zip (map fresh [0..<length ids]) ids)) (\<lambda>d'.
             Inr (map (\<lambda>r. variant_price_of (vr_id r) list (vr_variant r) (periods_of (vr_id r) d'))
                    (sort_key vr_variant (filter (\<lambda>r. vr_list r = list \<and> vr_variant r \<in> set ids) (px_rows d'))), d')))"

text \<open>The constraints of the table: the checks, the key and the exclusion of overlaps.\<close>

definition overlaps :: "price_period \<Rightarrow> price_period \<Rightarrow> bool" where
  "overlaps p q \<longleftrightarrow>
     (case per_to q of None \<Rightarrow> True | Some e \<Rightarrow> per_from p < e) \<and> (case per_to p of None \<Rightarrow> True | Some e \<Rightarrow> per_from q < e)"

definition no_overlap :: "(id \<times> price_period) list \<Rightarrow> bool" where
  "no_overlap ps = sorted_wrt (\<lambda>(i, p) (j, q). i = j \<longrightarrow> \<not> overlaps p q) ps"

definition period_checks :: "price_period \<Rightarrow> bool" where
  "period_checks p \<longleftrightarrow>
     0 \<le> amount (per_amount p) \<and> fair_price p \<and> (case per_to p of None \<Rightarrow> True | Some e \<Rightarrow> per_from p < e)"

definition write_periods :: "(id \<times> price_period) list \<Rightarrow> prices_db \<Rightarrow> prices_db result" where
  "write_periods ps d =
     (if \<not> list_all (\<lambda>(i, p). period_checks p) ps then Inl (PlainError ''price_periods_check'')
      else if \<not> distinct (map (\<lambda>(i, p). per_id p) ps) then Inl (PlainError ''price_periods_pkey'')
      else if \<not> no_overlap ps then Inl (PricingError (PricePeriodConflictError Overlap))
      else Inr (d\<lparr>px_periods := ps\<rparr>))"

definition has_changes :: "variant_price \<Rightarrow> bool" where
  "has_changes v \<longleftrightarrow>
     (let c = price_changes v in length (chg_removed c) + length (chg_ended c) + length (chg_added c) > 0)"

definition end_periods :: "price_period list \<Rightarrow> (id \<times> price_period) list \<Rightarrow> (id \<times> price_period) list" where
  "end_periods ended ps =
     map (\<lambda>(i, p). (i, case find (\<lambda>e. per_id e = per_id p) ended of Some e \<Rightarrow> p\<lparr>per_to := per_to e\<rparr> | None \<Rightarrow> p)) ps"

definition save_prices :: "variant_price list \<Rightarrow> prices_db \<Rightarrow> prices_db result" where
  "save_prices vs d =
     (let changed = filter has_changes vs
      in if changed = [] then Inr d
         else
           let removed = concat (map (\<lambda>v. chg_removed (price_changes v)) changed);
               ended = concat (map (\<lambda>v. chg_ended (price_changes v)) changed);
               added = concat (map (\<lambda>v. map (Pair (vp_id v)) (chg_added (price_changes v))) changed);
               d1 = (if removed = [] then d else d\<lparr>px_periods := filter (\<lambda>(i, p). per_id p \<notin> set removed) (px_periods d)\<rparr>)
           in res_bind (if ended = [] then Inr d1 else write_periods (end_periods ended (px_periods d1)) d1) (\<lambda>d2.
              res_bind (if added = [] then Inr d2 else write_periods (px_periods d2 @ added) d2) (\<lambda>d3.
                Inr (d3\<lparr>px_rows := map (\<lambda>r. if vr_id r \<in> set (map vp_id changed) then r\<lparr>vr_version := vr_version r + 1\<rparr> else r)
                   (px_rows d3)\<rparr>))))"

section \<open>What the staff does\<close>

record price_input =
  pri_amount :: js_number
  pri_compare_at :: "js_number option"
  pri_effective_from :: "time option"

definition require_list_and_variant :: "(id \<Rightarrow> bool) \<Rightarrow> id \<Rightarrow> id \<Rightarrow> prices_db \<Rightarrow> unit result" where
  "require_list_and_variant known list variant d =
     (if list \<notin> set (px_lists d) then Inl (NotFoundError ''PriceList'' list)
      else if \<not> known variant then Inl (NotFoundError ''Variant'' variant) else Inr ())"

text \<open>The one price locked; none would break the code.\<close>

fun the_locked :: "variant_price list \<Rightarrow> variant_price result" where
  "the_locked (v # vs) = Inr v"
| "the_locked [] = Inl (PlainError ''Cannot read properties of undefined'')"

definition set_price_in ::
  "(id \<Rightarrow> bool) \<Rightarrow> (nat \<Rightarrow> id) \<Rightarrow> id \<Rightarrow> id \<Rightarrow> id \<Rightarrow> price_input \<Rightarrow> id \<Rightarrow> time \<Rightarrow> prices_db \<Rightarrow>
     ((price_period \<times> bool) \<times> prices_db) result" where
  "set_price_in known fresh_rows fresh list variant i staff now d =
     res_bind (money_of (pri_amount i) MXN) (\<lambda>m.
     res_bind (case pri_compare_at i of None \<Rightarrow> Inr None | Some n \<Rightarrow> res_bind (money_of n MXN) (\<lambda>c. Inr (Some c))) (\<lambda>compare.
     res_bind (require_list_and_variant known list variant d) (\<lambda>_.
     res_bind (lock_prices fresh_rows list [variant] d) (\<lambda>(vs, d1).
     res_bind (the_locked vs) (\<lambda>v.
     res_bind (set_price \<lparr>np_id = fresh, np_amount = m, np_compare_at = compare,
         np_effective_from = pri_effective_from i, np_created_by = staff\<rparr> now v) (\<lambda>(p, change, w).
     res_bind (if change \<noteq> PriceUnchanged then save_prices [w] d1 else Inr d1) (\<lambda>d2.
       Inr ((p, change \<noteq> PriceUnchanged), d2))))))))"

definition cancel_price_in ::
  "(id \<Rightarrow> bool) \<Rightarrow> (nat \<Rightarrow> id) \<Rightarrow> id \<Rightarrow> id \<Rightarrow> id \<Rightarrow> time \<Rightarrow> prices_db \<Rightarrow> prices_db result" where
  "cancel_price_in known fresh_rows list variant i now d =
     res_bind (require_list_and_variant known list variant d) (\<lambda>_.
     res_bind (lock_prices fresh_rows list [variant] d) (\<lambda>(vs, d1).
     res_bind (the_locked vs) (\<lambda>v.
     res_bind (cancel_price i now v) (\<lambda>(p, w). save_prices [w] d1))))"

section \<open>What others read\<close>

text \<open>The latest start first, with the state of each period now.\<close>

definition list_periods :: "id \<Rightarrow> id \<Rightarrow> prices_db \<Rightarrow> price_period list" where
  "list_periods list variant d =
     sort_key (\<lambda>p. - per_from p)
       (map snd (filter (\<lambda>(i, p). list_ex (\<lambda>r. vr_id r = i \<and> vr_list r = list \<and> vr_variant r = variant) (px_rows d))
         (px_periods d)))"

definition price_history ::
  "(id \<Rightarrow> bool) \<Rightarrow> id \<Rightarrow> id \<Rightarrow> price_period_state list option \<Rightarrow> time \<Rightarrow> prices_db \<Rightarrow>
     ((price_period \<times> price_period_state) list \<times> (price_period \<times> price_period_state) option) result" where
  "price_history known list variant states now d =
     res_bind (require_list_and_variant known list variant d) (\<lambda>_.
       let periods = map (\<lambda>p. (p, period_state p now)) (list_periods list variant d)
       in Inr (case states of None \<Rightarrow> periods | Some ss \<Rightarrow> filter (\<lambda>(p, s). s \<in> set ss) periods,
               find (\<lambda>(p, s). s = PeriodCurrent) periods))"

record price_quote =
  prq_variant :: id
  prq_amount :: money
  prq_compare_at :: "money option"

definition current_prices :: "id \<Rightarrow> id list \<Rightarrow> time \<Rightarrow> prices_db \<Rightarrow> price_quote list" where
  "current_prices list variants at d =
     concat (map (\<lambda>(i, p).
       if per_from p \<le> at \<and> (case per_to p of None \<Rightarrow> True | Some e \<Rightarrow> e > at)
       then map (\<lambda>r. \<lparr>prq_variant = vr_variant r, prq_amount = per_amount p, prq_compare_at = per_compare_at p\<rparr>)
              (filter (\<lambda>r. vr_id r = i \<and> vr_list r = list \<and> vr_variant r \<in> set variants) (px_rows d))
       else []) (px_periods d))"

text \<open>A \<open>Map\<close> of the quotes by their variant: the last one of a variant stays.\<close>

definition quote_prices :: "id list \<Rightarrow> time \<Rightarrow> prices_db \<Rightarrow> (id \<Rightarrow> price_quote option) result" where
  "quote_prices variants at d =
     (if remdups variants = [] then Inr (\<lambda>v. None)
      else case px_default d of
        None \<Rightarrow> Inl (PlainError ''There is no default price list'')
      | Some list \<Rightarrow> Inr (map_of (map (\<lambda>q. (prq_variant q, q)) (rev (current_prices list (remdups variants) at d)))))"

end
