(* ===== verification/PricesSaved.thy ===== *)
theory PricesSaved
  imports Prices
begin

text \<open>
  What the tables of the prices keep, and saving: the periods of each row are one line, saving the prices of a
  variant after a change never meets the checks, the key or the exclusion of overlaps, and leaves in its row the
  line as it was changed and every other row alone.
\<close>

section \<open>What the tables keep\<close>

definition wf_prices :: "prices_db \<Rightarrow> bool" where
  "wf_prices d \<longleftrightarrow>
     distinct (map vr_id (px_rows d)) \<and> distinct (map (\<lambda>r. (vr_list r, vr_variant r)) (px_rows d)) \<and>
     distinct (map (\<lambda>(i, p). per_id p) (px_periods d)) \<and>
     fst ` set (px_periods d) \<subseteq> vr_id ` set (px_rows d) \<and>
     (\<forall>r\<in>set (px_rows d). wf_periods (sorted_by_start (periods_of (vr_id r) d))) \<and>
     list_all (\<lambda>(i, p). 0 \<le> amount (per_amount p)) (px_periods d)"

lemma sorted_unique:
  assumes "sorted_wrt (\<lambda>p q. per_from p < per_from q) ps" and "set qs = set ps" and "distinct qs"
  shows "sorted_by_start qs = ps"
proof -
  have sorted: "sorted (map per_from ps)" and starts: "distinct (map per_from ps)"
    using assms(1) by (induction ps) (auto intro: less_imp_le)
  have inj: "inj_on per_from (set qs)" using starts assms(2) by (simp add: distinct_map)
  have keys: "map per_from (sorted_by_start qs) = map per_from ps"
  proof (rule sorted_distinct_set_unique)
    show "sorted (map per_from (sorted_by_start qs))" by (simp add: sorted_by_start_def)
    show "distinct (map per_from (sorted_by_start qs))"
      using assms(3) inj by (simp add: sorted_by_start_def distinct_map)
    show "sorted (map per_from ps)" "distinct (map per_from ps)" by (fact sorted starts)+
    show "set (map per_from (sorted_by_start qs)) = set (map per_from ps)" using assms(2) by (simp add: sorted_by_start_def)
  qed
  show ?thesis
    by (rule map_inj_on [OF keys]) (use inj assms(2) in \<open>simp add: sorted_by_start_def\<close>)
qed

lemma line_disjoint:
  assumes "line_to None ps" and "p \<in> set ps" "q \<in> set ps" "p \<noteq> q"
  shows "\<not> overlaps p q"
proof -
  have one: "\<not> overlaps p q \<and> \<not> overlaps q p"
    if h: "line_to None ps" "ps = xs @ p # ys" "q \<in> set ys" for p q xs ys
  proof -
    have rest: "line_to None (p # ys)" using h(1,2) by (simp add: line_to_append)
    obtain r rs where ys: "ys = r # rs" using h(3) by (cases ys) auto
    have "per_from r \<le> per_from q"
      using rest ys h(3) line_starts [of None r rs q] by auto
    with rest ys show ?thesis by (simp add: overlaps_def)
  qed
  from assms(2) obtain xs ys where ps: "ps = xs @ p # ys" by (auto simp: in_set_conv_decomp)
  show ?thesis
  proof (cases "q \<in> set ys")
    case True
    with one [OF assms(1) ps] show ?thesis by simp
  next
    case False
    with assms(3,4) ps have "q \<in> set xs" by simp
    then obtain as bs where "xs = as @ q # bs" by (auto simp: in_set_conv_decomp)
    with ps have "ps = as @ q # (bs @ p # ys)" by simp
    from one [OF assms(1) this, of p] show ?thesis by simp
  qed
qed


section \<open>Saving\<close>

text \<open>
  The prices of a variant as they are to be saved: loaded from their row, changed since by what keeps them a line, and
  the periods that stay differing from the saved ones in their end alone.
\<close>

definition to_save :: "prices_db \<Rightarrow> variant_price \<Rightarrow> bool" where
  "to_save d v \<longleftrightarrow>
     vp_id v \<in> vr_id ` set (px_rows d) \<and> vp_saved v = sorted_by_start (periods_of (vp_id v) d) \<and>
     wf_periods (vp_periods v) \<and> list_all (\<lambda>p. 0 \<le> amount (per_amount p)) (vp_periods v) \<and>
     (\<forall>p\<in>set (vp_periods v). \<forall>(i, q)\<in>set (px_periods d). per_id q = per_id p \<longrightarrow>
        i = vp_id v \<and> p\<lparr>per_to := None\<rparr> = q\<lparr>per_to := None\<rparr>)"

text \<open>What the three statements leave of a row: the periods kept, with their ends, and the new ones.\<close>

definition after_save :: "variant_price \<Rightarrow> price_period list \<Rightarrow> price_period list" where
  "after_save v ps =
     map (\<lambda>p. case find (\<lambda>e. per_id e = per_id p) (chg_ended (price_changes v)) of Some e \<Rightarrow> p\<lparr>per_to := per_to e\<rparr> | None \<Rightarrow> p)
       (filter (\<lambda>p. per_id p \<notin> set (chg_removed (price_changes v))) ps)
     @ chg_added (price_changes v)"

lemma saved_row:
  assumes "to_save d v"
  shows "set (vp_saved v) = set (periods_of (vp_id v) d)"
  using assms by (simp add: to_save_def sorted_by_start_def)

lemma periods_of_set: "p \<in> set (periods_of i d) \<longleftrightarrow> (i, p) \<in> set (px_periods d)"
  by (force simp: periods_of_def)

lemma periods_of_ids:
  assumes "distinct (map (\<lambda>(i, p). per_id p) (px_periods d))"
  shows "distinct (map per_id (periods_of i d))"
proof -
  have "map per_id (periods_of i d) = map (\<lambda>(i, p). per_id p) (filter (\<lambda>(j, p). j = i) (px_periods d))"
    by (simp add: periods_of_def comp_def case_prod_unfold)
  with distinct_map_filter [OF assms, of "\<lambda>(j, p). j = i"] show ?thesis by simp
qed

lemma find_by_id: "distinct (map per_id ps) \<Longrightarrow> p \<in> set ps \<Longrightarrow> find (\<lambda>q. per_id q = per_id p) ps = Some p"
  by (rule find_key)

lemma find_by_id_None: "find (\<lambda>q. per_id q = i) ps = None \<longleftrightarrow> i \<notin> per_id ` set ps"
  by (auto simp: find_None_iff)

lemma saved_lookup:
  assumes wf: "wf_prices d" and v: "to_save d v"
  shows "find (\<lambda>q. per_id q = i) (rev (vp_saved v)) = Some q \<longleftrightarrow> q \<in> set (periods_of (vp_id v) d) \<and> per_id q = i"
    and "find (\<lambda>q. per_id q = i) (rev (vp_saved v)) = None \<longleftrightarrow> i \<notin> per_id ` set (periods_of (vp_id v) d)"
proof -
  have "distinct (map per_id (periods_of (vp_id v) d))" using periods_of_ids wf by (simp add: wf_prices_def)
  then have "distinct (map per_id (vp_saved v))" using v by (simp add: to_save_def sorted_by_start_def distinct_map)
  then have ids: "distinct (map per_id (rev (vp_saved v)))" by (simp add: rev_map [symmetric])
  show "find (\<lambda>q. per_id q = i) (rev (vp_saved v)) = Some q \<longleftrightarrow> q \<in> set (periods_of (vp_id v) d) \<and> per_id q = i"
  proof
    assume "find (\<lambda>q. per_id q = i) (rev (vp_saved v)) = Some q"
    from find_SomeD [OF this] have "q \<in> set (rev (vp_saved v))" "per_id q = i" by simp_all
    with saved_row [OF v] show "q \<in> set (periods_of (vp_id v) d) \<and> per_id q = i" by simp
  next
    assume q: "q \<in> set (periods_of (vp_id v) d) \<and> per_id q = i"
    with saved_row [OF v] have "q \<in> set (rev (vp_saved v))" by simp
    from find_by_id [OF ids this] q show "find (\<lambda>q. per_id q = i) (rev (vp_saved v)) = Some q" by simp
  qed
  show "find (\<lambda>q. per_id q = i) (rev (vp_saved v)) = None \<longleftrightarrow> i \<notin> per_id ` set (periods_of (vp_id v) d)"
    using saved_row [OF v] by (simp add: find_by_id_None)
qed


lemma changes_sets:
  assumes wf: "wf_prices d" and v: "to_save d v"
  shows "set (chg_removed (price_changes v)) = per_id ` set (periods_of (vp_id v) d) - per_id ` set (vp_periods v)"
    and "e \<in> set (chg_ended (price_changes v)) \<longleftrightarrow>
      e \<in> set (vp_periods v) \<and> (\<exists>q\<in>set (periods_of (vp_id v) d). per_id q = per_id e \<and> per_to q \<noteq> per_to e)"
    and "set (chg_added (price_changes v)) = {p \<in> set (vp_periods v). per_id p \<notin> per_id ` set (periods_of (vp_id v) d)}"
    and "distinct (map per_id (chg_ended (price_changes v)))" and "distinct (map per_id (chg_added (price_changes v)))"
proof -
  note look = saved_lookup [OF wf v]
  show "set (chg_removed (price_changes v)) = per_id ` set (periods_of (vp_id v) d) - per_id ` set (vp_periods v)"
    using saved_row [OF v] by (auto simp: price_changes_def Let_def)
  show "e \<in> set (chg_ended (price_changes v)) \<longleftrightarrow>
      e \<in> set (vp_periods v) \<and> (\<exists>q\<in>set (periods_of (vp_id v) d). per_id q = per_id e \<and> per_to q \<noteq> per_to e)"
  proof (cases "find (\<lambda>q. per_id q = per_id e) (rev (vp_saved v))")
    case None
    then have "per_id e \<notin> per_id ` set (periods_of (vp_id v) d)" by (rule look(2) [THEN iffD1])
    then have "\<not> (\<exists>q\<in>set (periods_of (vp_id v) d). per_id q = per_id e \<and> per_to q \<noteq> per_to e)" by (metis imageI)
    moreover have "e \<notin> set (chg_ended (price_changes v))"
      unfolding price_changes_def Let_def price_period_changes.simps set_filter mem_Collect_eq None option.case by simp
    ultimately show ?thesis by simp
  next
    case (Some q)
    then have q: "q \<in> set (periods_of (vp_id v) d)" "per_id q = per_id e" using look(1) by blast+
    have "distinct (map per_id (periods_of (vp_id v) d))" using periods_of_ids wf by (simp add: wf_prices_def)
    then have "r = q" if "r \<in> set (periods_of (vp_id v) d)" "per_id r = per_id e" for r
      using same_key [of per_id "periods_of (vp_id v) d" r q] that q by simp
    with q have "(\<exists>r\<in>set (periods_of (vp_id v) d). per_id r = per_id e \<and> per_to r \<noteq> per_to e) \<longleftrightarrow> per_to q \<noteq> per_to e"
      by blast
    with Some show ?thesis by (simp add: price_changes_def Let_def)
  qed
  show "set (chg_added (price_changes v)) = {p \<in> set (vp_periods v). per_id p \<notin> per_id ` set (periods_of (vp_id v) d)}"
    by (simp only: price_changes_def Let_def price_period_changes.simps set_filter look(2))
  have "distinct (map per_id (vp_periods v))" using v by (simp add: to_save_def wf_periods_def)
  then show "distinct (map per_id (chg_ended (price_changes v)))" "distinct (map per_id (chg_added (price_changes v)))"
    by (simp_all add: price_changes_def Let_def distinct_map_filter)
qed

text \<open>A saved period that stays becomes the one of the line with its identifier.\<close>

lemma kept_period:
  assumes wf: "wf_prices d" and v: "to_save d v" and q: "q \<in> set (periods_of (vp_id v) d)"
    and p: "p \<in> set (vp_periods v)" "per_id p = per_id q"
  shows "(case find (\<lambda>e. per_id e = per_id q) (chg_ended (price_changes v)) of
      Some e \<Rightarrow> q\<lparr>per_to := per_to e\<rparr> | None \<Rightarrow> q) = p"
proof -
  have "\<forall>(i, q)\<in>set (px_periods d). per_id q = per_id p \<longrightarrow> i = vp_id v \<and> p\<lparr>per_to := None\<rparr> = q\<lparr>per_to := None\<rparr>"
    using v p(1) by (simp add: to_save_def)
  with q p(2) have "p\<lparr>per_to := None\<rparr> = q\<lparr>per_to := None\<rparr>" by (force simp: periods_of_set)
  then have same: "q\<lparr>per_to := per_to p\<rparr> = p" by (cases p; cases q) simp
  show ?thesis
  proof (cases "per_to q = per_to p")
    case True
    have "find (\<lambda>e. per_id e = per_id q) (chg_ended (price_changes v)) = None"
    proof (rule ccontr)
      assume "find (\<lambda>e. per_id e = per_id q) (chg_ended (price_changes v)) \<noteq> None"
      then obtain e where "find (\<lambda>e. per_id e = per_id q) (chg_ended (price_changes v)) = Some e" by blast
      from find_SomeD [OF this] have e: "e \<in> set (chg_ended (price_changes v))" "per_id e = per_id q" by simp_all
      from e(1) obtain r where r: "e \<in> set (vp_periods v)" "r \<in> set (periods_of (vp_id v) d)" "per_id r = per_id e"
        "per_to r \<noteq> per_to e" using changes_sets(2) [OF wf v] by blast
      have "distinct (map per_id (periods_of (vp_id v) d))" using periods_of_ids wf by (simp add: wf_prices_def)
      from same_key [OF this r(2) q] r(3) e(2) have "r = q" by simp
      have "distinct (map per_id (vp_periods v))" using v by (simp add: to_save_def wf_periods_def)
      from same_key [OF this r(1) p(1)] e(2) p(2) have "e = p" by simp
      with True r(4) \<open>r = q\<close> show False by simp
    qed
    moreover have "q = p" using same True by (cases p; cases q) simp
    ultimately show ?thesis by simp
  next
    case False
    have "p \<in> set (chg_ended (price_changes v))" using changes_sets(2) [OF wf v] p q False by auto
    from find_by_id [OF changes_sets(4) [OF wf v] this] p(2) same show ?thesis by simp
  qed
qed

lemma distinct_parts:
  "distinct (map f xs) \<Longrightarrow> distinct (map f ys) \<Longrightarrow> f ` set xs \<subseteq> A \<Longrightarrow> (\<And>y. y \<in> set ys \<Longrightarrow> f y \<notin> A) \<Longrightarrow>
    distinct (map f (xs @ ys))"
  by auto

lemma after_save_set:
  assumes wf: "wf_prices d" and v: "to_save d v"
  shows "set (after_save v (periods_of (vp_id v) d)) = set (vp_periods v)"
    and "distinct (map per_id (after_save v (periods_of (vp_id v) d)))"
proof -
  let ?ps = "periods_of (vp_id v) d"
  let ?upd = "\<lambda>q. case find (\<lambda>e. per_id e = per_id q) (chg_ended (price_changes v)) of
      Some e \<Rightarrow> q\<lparr>per_to := per_to e\<rparr> | None \<Rightarrow> q"
  note sets = changes_sets [OF wf v]
  have upd_id: "per_id (?upd q) = per_id q" for q by (simp split: option.split)
  show "set (after_save v ?ps) = set (vp_periods v)"
  proof (intro equalityI subsetI)
    fix x assume "x \<in> set (after_save v ?ps)"
    then consider q where "q \<in> set ?ps" "per_id q \<notin> set (chg_removed (price_changes v))" "x = ?upd q"
      | "x \<in> set (chg_added (price_changes v))" by (auto simp: after_save_def)
    then show "x \<in> set (vp_periods v)"
    proof cases
      case 1
      then obtain p where "p \<in> set (vp_periods v)" "per_id p = per_id q" using sets(1) by force
      with kept_period [OF wf v 1(1) this] 1(3) show ?thesis by simp
    next
      case 2
      with sets(3) show ?thesis by simp
    qed
  next
    fix p assume p: "p \<in> set (vp_periods v)"
    show "p \<in> set (after_save v ?ps)"
    proof (cases "per_id p \<in> per_id ` set ?ps")
      case True
      then obtain q where q: "q \<in> set ?ps" "per_id p = per_id q" by blast
      have "per_id q \<in> per_id ` set (vp_periods v)" using p q(2) by (metis imageI)
      then have "per_id q \<notin> set (chg_removed (price_changes v))" by (simp only: sets(1) Diff_iff not_not simp_thms)
      then have "q \<in> set (filter (\<lambda>p. per_id p \<notin> set (chg_removed (price_changes v))) ?ps)" using q(1) by simp
      from imageI [OF this, of ?upd] have "?upd q \<in> set (after_save v ?ps)" by (simp only: after_save_def set_append set_map Un_iff simp_thms)
      with kept_period [OF wf v q(1) p q(2)] show ?thesis by simp
    next
      case False
      with sets(3) p show ?thesis by (simp add: after_save_def)
    qed
  qed
  let ?kept = "map ?upd (filter (\<lambda>p. per_id p \<notin> set (chg_removed (price_changes v))) ?ps)"
  have "distinct (map per_id ?ps)" using periods_of_ids wf by (simp add: wf_prices_def)
  then have "distinct (map per_id ?kept)" by (simp add: comp_def upd_id distinct_map_filter)
  moreover have "per_id ` set ?kept \<subseteq> per_id ` set ?ps" by (auto simp: upd_id)
  moreover have "per_id p \<notin> per_id ` set ?ps" if "p \<in> set (chg_added (price_changes v))" for p
    using that unfolding sets(3) by simp
  ultimately have "distinct (map per_id (?kept @ chg_added (price_changes v)))"
    by (intro distinct_parts [OF _ sets(5)])
  then show "distinct (map per_id (after_save v ?ps))" by (simp only: after_save_def)
qed

text \<open>What the constraints accept: periods of different identifiers, of each row some of a line.\<close>

definition fitting :: "(id \<times> price_period) list \<Rightarrow> bool" where
  "fitting qs \<longleftrightarrow>
     distinct (map (\<lambda>(i, p). per_id p) qs) \<and>
     (\<forall>i. \<exists>ps. wf_periods ps \<and> list_all (\<lambda>p. 0 \<le> amount (per_amount p)) ps \<and> {p. (i, p) \<in> set qs} \<subseteq> set ps)"

lemma sorted_wrt_pairs:
  "distinct xs \<Longrightarrow> (\<And>x y. x \<in> set xs \<Longrightarrow> y \<in> set xs \<Longrightarrow> x \<noteq> y \<Longrightarrow> P x y) \<Longrightarrow> sorted_wrt P xs"
proof (induction xs)
  case Nil
  then show ?case by simp
next
  case (Cons x xs)
  then have "sorted_wrt P xs" by simp
  moreover have "P x y" if "y \<in> set xs" for y using Cons.prems that by auto
  ultimately show ?case by simp
qed

lemma fitting_no_overlap:
  assumes "fitting qs"
  shows "no_overlap qs"
  unfolding no_overlap_def
proof (rule sorted_wrt_pairs)
  show "distinct qs" using assms by (auto simp: fitting_def distinct_map)
  fix x y assume xy: "x \<in> set qs" "y \<in> set qs" "x \<noteq> y"
  obtain i p j q where x: "x = (i, p)" and y: "y = (j, q)" by (cases x; cases y)
  from assms obtain ps where ps: "wf_periods ps" "{p. (i, p) \<in> set qs} \<subseteq> set ps" by (auto simp: fitting_def)
  have "i = j \<longrightarrow> \<not> overlaps p q"
  proof
    assume "i = j"
    with xy x y ps(2) have "p \<in> set ps" "q \<in> set ps" "p \<noteq> q" by auto
    with ps(1) show "\<not> overlaps p q" by (intro line_disjoint [of ps]) (simp_all add: wf_periods_def)
  qed
  then show "(case x of (i, p) \<Rightarrow> \<lambda>(j, q). i = j \<longrightarrow> \<not> overlaps p q) y" by (simp add: x y)
qed

lemma fitting_written:
  assumes "fitting qs"
  shows "write_periods qs d = Inr (d\<lparr>px_periods := qs\<rparr>)"
proof -
  have "period_checks p" if p: "(i, p) \<in> set qs" for i p
  proof -
    from assms p obtain ps where "wf_periods ps" "list_all (\<lambda>p. 0 \<le> amount (per_amount p)) ps" "p \<in> set ps"
      by (auto simp: fitting_def)
    then show ?thesis using line_ends [of None ps p]
      by (auto simp: period_checks_def wf_periods_def list_all_iff split: option.split)
  qed
  then have "list_all (\<lambda>(i, p). period_checks p) qs" by (auto simp: list_all_iff)
  with assms fitting_no_overlap [OF assms] show ?thesis by (simp add: write_periods_def fitting_def)
qed

lemma nonneg_saved:
  assumes "wf_prices d"
  shows "list_all (\<lambda>p. 0 \<le> amount (per_amount p)) (periods_of i d)"
  using assms by (force simp: wf_prices_def periods_of_def list_all_iff)

text \<open>The periods of another row have other identifiers than those the changes name.\<close>

lemma other_row:
  assumes wf: "wf_prices d" and v: "to_save d v" and p: "(j, p) \<in> set (px_periods d)" and j: "j \<noteq> vp_id v"
  shows "per_id p \<notin> set (chg_removed (price_changes v))"
    and "find (\<lambda>e. per_id e = per_id p) (chg_ended (price_changes v)) = None"
proof -
  have "per_id q \<noteq> per_id p" if "q \<in> set (periods_of (vp_id v) d)" for q
  proof
    assume same: "per_id q = per_id p"
    have "(vp_id v, q) \<in> set (px_periods d)" using that by (simp add: periods_of_set)
    with same_key [of "\<lambda>(i, p). per_id p" "px_periods d" "(vp_id v, q)" "(j, p)"] wf p same j
    show False by (simp add: wf_prices_def)
  qed
  then have free: "per_id p \<notin> per_id ` set (periods_of (vp_id v) d)" by (metis imageE)
  then show "per_id p \<notin> set (chg_removed (price_changes v))" by (simp add: changes_sets(1) [OF wf v])
  have "per_id p \<notin> per_id ` set (chg_ended (price_changes v))"
  proof
    assume "per_id p \<in> per_id ` set (chg_ended (price_changes v))"
    then obtain e where "e \<in> set (chg_ended (price_changes v))" "per_id p = per_id e" by (rule imageE)
    with changes_sets(2) [OF wf v, of e] have "\<exists>q\<in>set (periods_of (vp_id v) d). per_id q = per_id p" by auto
    with free show False by (metis imageI)
  qed
  then show "find (\<lambda>e. per_id e = per_id p) (chg_ended (price_changes v)) = None" by (rule find_by_id_None [THEN iffD2])
qed

definition kept_rows :: "variant_price \<Rightarrow> (id \<times> price_period) list \<Rightarrow> (id \<times> price_period) list" where
  "kept_rows v ps = filter (\<lambda>(i, p). per_id p \<notin> set (chg_removed (price_changes v))) ps"

definition saved_rows :: "variant_price \<Rightarrow> (id \<times> price_period) list \<Rightarrow> (id \<times> price_period) list" where
  "saved_rows v ps =
     end_periods (chg_ended (price_changes v)) (kept_rows v ps) @ map (Pair (vp_id v)) (chg_added (price_changes v))"

lemma end_periods_append: "end_periods es (ps @ qs) = end_periods es ps @ end_periods es qs"
  by (simp add: end_periods_def)

lemma end_periods_ids: "map (\<lambda>(i, p). per_id p) (end_periods es ps) = map (\<lambda>(i, p). per_id p) ps"
  by (induction ps) (auto simp: end_periods_def split: option.split)

lemma filter_pairs: "map snd (filter (\<lambda>(j, p). j = i) (map (Pair k) ps)) = (if k = i then ps else [])"
  by (simp add: filter_map comp_def)

lemma rows_of_end_periods:
  "map snd (filter (\<lambda>(j, p). j = i) (end_periods es ps)) =
    map (\<lambda>p. case find (\<lambda>e. per_id e = per_id p) es of Some e \<Rightarrow> p\<lparr>per_to := per_to e\<rparr> | None \<Rightarrow> p)
      (map snd (filter (\<lambda>(j, p). j = i) ps))"
  by (induction ps) (auto simp: end_periods_def split: option.split)

lemma rows_of_kept:
  "map snd (filter (\<lambda>(j, p). j = i) (kept_rows v ps)) =
    filter (\<lambda>p. per_id p \<notin> set (chg_removed (price_changes v))) (map snd (filter (\<lambda>(j, p). j = i) ps))"
  by (induction ps) (auto simp: kept_rows_def)

lemma saved_own: "map snd (filter (\<lambda>(j, p). j = vp_id v) (saved_rows v (px_periods d))) = after_save v (periods_of (vp_id v) d)"
  by (simp only: saved_rows_def filter_append map_append rows_of_end_periods rows_of_kept filter_pairs if_True refl
      after_save_def periods_of_def)

lemma saved_other:
  assumes wf: "wf_prices d" and v: "to_save d v" and i: "i \<noteq> vp_id v"
  shows "map snd (filter (\<lambda>(j, p). j = i) (saved_rows v (px_periods d))) = periods_of i d"
proof -
  have row: "(i, p) \<in> set (px_periods d)" if "p \<in> set (periods_of i d)" for p using that by (simp add: periods_of_set)
  have "filter (\<lambda>p. per_id p \<notin> set (chg_removed (price_changes v))) (periods_of i d) = periods_of i d"
    using other_row(1) [OF wf v row i] by (simp add: filter_True)
  moreover have "map (\<lambda>p. case find (\<lambda>e. per_id e = per_id p) (chg_ended (price_changes v)) of
      Some e \<Rightarrow> p\<lparr>per_to := per_to e\<rparr> | None \<Rightarrow> p) (periods_of i d) = periods_of i d"
    by (rule map_idI) (use other_row(2) [OF wf v row i] in simp)
  ultimately show ?thesis
    using i by (simp only: saved_rows_def filter_append map_append rows_of_end_periods rows_of_kept filter_pairs
        periods_of_def [symmetric] not_sym if_False append_Nil2) simp
qed

lemma in_rows_of: "(i, p) \<in> set qs \<longleftrightarrow> p \<in> set (map snd (filter (\<lambda>(j, p). j = i) qs))"
  by (induction qs) auto

lemma periods_line:
  assumes wf: "wf_prices d"
  shows "\<exists>ps. wf_periods ps \<and> list_all (\<lambda>p. 0 \<le> amount (per_amount p)) ps \<and> set (periods_of i d) \<subseteq> set ps"
proof (cases "i \<in> vr_id ` set (px_rows d)")
  case True
  then have "wf_periods (sorted_by_start (periods_of i d))" using wf by (auto simp: wf_prices_def)
  with nonneg_saved [OF wf, of i] show ?thesis
    by (intro exI [of _ "sorted_by_start (periods_of i d)"]) (simp add: sorted_by_start_def list_all_iff)
next
  case False
  then have "periods_of i d = []" using wf by (force simp: wf_prices_def periods_of_def filter_empty_conv)
  then show ?thesis by (intro exI [of _ "[]"]) (simp add: wf_periods_def)
qed

lemma fitting_saved:
  assumes wf: "wf_prices d" and v: "to_save d v"
  shows "fitting (saved_rows v (px_periods d))"
proof -
  let ?kept = "end_periods (chg_ended (price_changes v)) (kept_rows v (px_periods d))"
  have ids: "distinct (map (\<lambda>(i, p). per_id p) (px_periods d))" using wf by (simp add: wf_prices_def)
  have kept_ids: "map (\<lambda>(i, p). per_id p) ?kept
      = map (\<lambda>(i, p). per_id p) (filter (\<lambda>(i, p). per_id p \<notin> set (chg_removed (price_changes v))) (px_periods d))"
    by (simp only: end_periods_ids kept_rows_def)
  have "distinct (map (\<lambda>(i, p). per_id p) ?kept)"
    unfolding kept_ids by (rule distinct_map_filter [OF ids])
  moreover have "distinct (map (\<lambda>(i, p). per_id p) (map (Pair (vp_id v)) (chg_added (price_changes v))))"
    using changes_sets(5) [OF wf v] by (simp add: comp_def)
  moreover have "(\<lambda>(i, p). per_id p) ` set ?kept \<subseteq> (\<lambda>(i, p). per_id p) ` set (px_periods d)"
    unfolding set_map [symmetric] kept_ids by auto
  moreover have "(\<lambda>(i, p). per_id p) x \<notin> (\<lambda>(i, p). per_id p) ` set (px_periods d)"
    if "x \<in> set (map (Pair (vp_id v)) (chg_added (price_changes v)))" for x
  proof
    assume used: "(\<lambda>(i, p). per_id p) x \<in> (\<lambda>(i, p). per_id p) ` set (px_periods d)"
    from that obtain p where x: "x = (vp_id v, p)" "p \<in> set (chg_added (price_changes v))" by auto
    with changes_sets(3) [OF wf v] have p: "p \<in> set (vp_periods v)" "per_id p \<notin> per_id ` set (periods_of (vp_id v) d)" by simp_all
    from used x obtain j q where q: "(j, q) \<in> set (px_periods d)" "per_id q = per_id p" by auto
    with v p(1) have "j = vp_id v" by (auto simp: to_save_def)
    with q have "q \<in> set (periods_of (vp_id v) d)" by (simp add: periods_of_set)
    with p(2) q(2) show False by (metis imageI)
  qed
  ultimately have "distinct (map (\<lambda>(i, p). per_id p) (saved_rows v (px_periods d)))"
    unfolding saved_rows_def by (rule distinct_parts)
  moreover have "\<exists>ps. wf_periods ps \<and> list_all (\<lambda>p. 0 \<le> amount (per_amount p)) ps \<and>
      {p. (i, p) \<in> set (saved_rows v (px_periods d))} \<subseteq> set ps" for i
  proof (cases "i = vp_id v")
    case True
    have "{p. (i, p) \<in> set (saved_rows v (px_periods d))} = set (vp_periods v)"
      unfolding in_rows_of True saved_own using after_save_set(1) [OF wf v] by simp
    with v show ?thesis by (intro exI [of _ "vp_periods v"]) (simp add: to_save_def)
  next
    case False
    have "{p. (i, p) \<in> set (saved_rows v (px_periods d))} = set (periods_of i d)"
      unfolding in_rows_of saved_other [OF wf v False] by simp
    with periods_line [OF wf] show ?thesis by simp
  qed
  ultimately show ?thesis by (simp add: fitting_def)
qed

lemma fitting_prefix: "fitting (xs @ ys) \<Longrightarrow> fitting xs"
  by (auto simp: fitting_def) (metis (no_types, lifting) Collect_mono_iff subset_iff)

text \<open>Saving the prices of a variant never meets a constraint, and leaves in its row the line as it is.\<close>

definition bump_version :: "id \<Rightarrow> price_row \<Rightarrow> price_row" where
  "bump_version i r = (if vr_id r = i then r\<lparr>vr_version := vr_version r + 1\<rparr> else r)"

lemma save_one:
  assumes wf: "wf_prices d" and v: "to_save d v" and changed: "has_changes v"
  shows "save_prices [v] d =
    Inr (d\<lparr>px_periods := saved_rows v (px_periods d), px_rows := map (bump_version (vp_id v)) (px_rows d)\<rparr>)"
proof -
  let ?c = "price_changes v"
  have fit: "fitting (end_periods (chg_ended ?c) (kept_rows v (px_periods d)) @ map (Pair (vp_id v)) (chg_added ?c))"
    using fitting_saved [OF wf v] by (simp only: saved_rows_def)
  have kept: "(if chg_removed ?c = [] then d else d\<lparr>px_periods := kept_rows v (px_periods d)\<rparr>)
      = d\<lparr>px_periods := kept_rows v (px_periods d)\<rparr>"
    by (simp add: kept_rows_def case_prod_unfold)
  have none: "end_periods [] ps = ps" for ps by (induction ps) (auto simp: end_periods_def)
  have ended: "(if chg_ended ?c = [] then Inr (d\<lparr>px_periods := kept_rows v (px_periods d)\<rparr>)
      else write_periods (end_periods (chg_ended ?c) (kept_rows v (px_periods d))) (d\<lparr>px_periods := kept_rows v (px_periods d)\<rparr>))
      = Inr (d\<lparr>px_periods := end_periods (chg_ended ?c) (kept_rows v (px_periods d))\<rparr>)"
    using fitting_written [OF fitting_prefix [OF fit]] by (cases "chg_ended ?c = []") (simp_all add: none)
  have added: "(if chg_added ?c = [] then Inr (d\<lparr>px_periods := xs\<rparr>)
      else write_periods (xs @ map (Pair (vp_id v)) (chg_added ?c)) (d\<lparr>px_periods := xs\<rparr>))
      = Inr (d\<lparr>px_periods := xs @ map (Pair (vp_id v)) (chg_added ?c)\<rparr>)"
    if "fitting (xs @ map (Pair (vp_id v)) (chg_added ?c))" for xs
    using fitting_written [OF that] by simp
  have bump: "(\<lambda>r. if vr_id r \<in> set [vp_id v] then r\<lparr>vr_version := vr_version r + 1\<rparr> else r) = bump_version (vp_id v)"
    by (rule ext) (simp add: bump_version_def)
  have one: "filter has_changes [v] = [v]" using changed by simp
  have rows: "filter (\<lambda>(i, p). per_id p \<notin> set (chg_removed ?c)) (px_periods d) = kept_rows v (px_periods d)"
    by (simp only: kept_rows_def)
  have at: "px_periods (e\<lparr>px_periods := x\<rparr>) = x" "px_rows (e\<lparr>px_periods := x\<rparr>) = px_rows e" for e x by simp_all
  have no_added: "map (Pair (vp_id v)) (chg_added ?c) = [] \<longleftrightarrow> chg_added ?c = []" by simp
  show ?thesis
    unfolding save_prices_def Let_def one concat.simps list.map append_Nil2 rows kept bump
    by (simp only: at ended no_added added [OF fit] res_bind_Inr list.simps if_False saved_rows_def)
qed

section \<open>Every change keeps the tables\<close>

lemma periods_of_rows: "periods_of i (d\<lparr>px_periods := ps, px_rows := rs\<rparr>) = map snd (filter (\<lambda>(j, p). j = i) ps)"
  by (simp add: periods_of_def)

lemma bump_keys [simp]: "vr_id (bump_version i r) = vr_id r" "vr_list (bump_version i r) = vr_list r"
    "vr_variant (bump_version i r) = vr_variant r"
  by (simp_all add: bump_version_def)

lemma save_one_keeps:
  assumes wf: "wf_prices d" and v: "to_save d v" and save: "save_prices [v] d = Inr d'" and changed: "has_changes v"
  shows "wf_prices d'" and "sorted_by_start (periods_of (vp_id v) d') = vp_periods v"
    and "i \<noteq> vp_id v \<Longrightarrow> periods_of i d' = periods_of i d"
    and "px_rows d' = map (bump_version (vp_id v)) (px_rows d)" and "px_lists d' = px_lists d" and "px_default d' = px_default d"
proof -
  from save save_one [OF wf v changed]
  have d': "d' = d\<lparr>px_periods := saved_rows v (px_periods d), px_rows := map (bump_version (vp_id v)) (px_rows d)\<rparr>" by simp
  show rows: "px_rows d' = map (bump_version (vp_id v)) (px_rows d)" and "px_lists d' = px_lists d" "px_default d' = px_default d"
    by (simp_all add: d')
  have own: "periods_of (vp_id v) d' = after_save v (periods_of (vp_id v) d)"
    unfolding d' periods_of_rows by (rule saved_own)
  have other: "periods_of i d' = periods_of i d" if "i \<noteq> vp_id v" for i
    unfolding d' periods_of_rows by (rule saved_other [OF wf v that])
  show "i \<noteq> vp_id v \<Longrightarrow> periods_of i d' = periods_of i d" by (rule other)
  have line: "wf_periods (vp_periods v)" using v by (simp add: to_save_def)
  show mine: "sorted_by_start (periods_of (vp_id v) d') = vp_periods v"
  proof (rule sorted_unique)
    show "sorted_wrt (\<lambda>p q. per_from p < per_from q) (vp_periods v)"
      using line by (intro line_sorted [of None]) (simp add: wf_periods_def)
    show "set (periods_of (vp_id v) d') = set (vp_periods v)" unfolding own by (rule after_save_set(1) [OF wf v])
    show "distinct (periods_of (vp_id v) d')"
      using after_save_set(2) [OF wf v] unfolding own [symmetric] by (simp add: distinct_map)
  qed
  have fits: "fitting (px_periods d')" using fitting_saved [OF wf v] by (simp add: d')
  show "wf_prices d'"
    unfolding wf_prices_def
  proof (intro conjI ballI)
    show "distinct (map vr_id (px_rows d'))" "distinct (map (\<lambda>r. (vr_list r, vr_variant r)) (px_rows d'))"
      using wf by (simp_all add: wf_prices_def rows comp_def)
    show "distinct (map (\<lambda>(i, p). per_id p) (px_periods d'))" using fits by (simp add: fitting_def)
    show "fst ` set (px_periods d') \<subseteq> vr_id ` set (px_rows d')"
    proof
      fix i assume "i \<in> fst ` set (px_periods d')"
      then obtain p where p: "p \<in> set (periods_of i d')" by (auto simp: periods_of_set)
      have "i \<in> vr_id ` set (px_rows d)"
      proof (cases "i = vp_id v")
        case True
        with v show ?thesis by (simp add: to_save_def)
      next
        case False
        with p other have "(i, p) \<in> set (px_periods d)" by (simp add: periods_of_set)
        then have "i \<in> fst ` set (px_periods d)" by force
        with wf show ?thesis by (auto simp: wf_prices_def)
      qed
      then show "i \<in> vr_id ` set (px_rows d')" by (simp add: rows image_image)
    qed
    fix r assume "r \<in> set (px_rows d')"
    then have "vr_id r \<in> vr_id ` set (px_rows d)" by (auto simp: rows)
    then show "wf_periods (sorted_by_start (periods_of (vr_id r) d'))"
      using mine line other wf by (cases "vr_id r = vp_id v") (auto simp: wf_prices_def)
  next
    have "0 \<le> amount (per_amount p)" if "(i, p) \<in> set (px_periods d')" for i p
    proof -
      from that have "p \<in> set (periods_of i d')" by (simp add: periods_of_set)
      then show ?thesis
        using nonneg_saved [OF wf, of i] other after_save_set(1) [OF wf v] v own
        by (cases "i = vp_id v") (auto simp: to_save_def list_all_iff)
    qed
    then show "list_all (\<lambda>(i, p). 0 \<le> amount (per_amount p)) (px_periods d')" by (auto simp: list_all_iff)
  qed
qed

text \<open>Locking one variant loads the prices of its row, created unless it was there.\<close>

lemma new_row_wf:
  assumes wf: "wf_prices d" and made: "create_price_row list i variant d = Inr d'"
  shows "wf_prices d'" and "px_periods d' = px_periods d" and "px_lists d' = px_lists d" and "px_default d' = px_default d"
    and "set (px_rows d) \<subseteq> set (px_rows d')" and "\<exists>r\<in>set (px_rows d'). vr_list r = list \<and> vr_variant r = variant"
proof -
  consider (there) "d' = d" "list_ex (\<lambda>r. vr_list r = list \<and> vr_variant r = variant) (px_rows d)"
    | (fresh) "d' = d\<lparr>px_rows := px_rows d @ [\<lparr>vr_id = i, vr_list = list, vr_variant = variant, vr_version = 1\<rparr>]\<rparr>"
      "\<not> list_ex (\<lambda>r. vr_list r = list \<and> vr_variant r = variant) (px_rows d)" "\<not> list_ex (\<lambda>r. vr_id r = i) (px_rows d)"
    using made by (auto simp: create_price_row_def split: if_splits)
  then have "wf_prices d' \<and> px_periods d' = px_periods d \<and> px_lists d' = px_lists d \<and> px_default d' = px_default d
    \<and> set (px_rows d) \<subseteq> set (px_rows d') \<and> (\<exists>r\<in>set (px_rows d'). vr_list r = list \<and> vr_variant r = variant)"
  proof cases
    case there
    with wf show ?thesis by (auto simp: list_ex_iff)
  next
    case fresh
    have "periods_of i d = []" using wf fresh(3) by (force simp: wf_prices_def periods_of_def filter_empty_conv list_ex_iff)
    moreover have "periods_of j d' = periods_of j d" for j by (simp add: fresh(1) periods_of_def)
    ultimately show ?thesis
      using wf fresh by (auto simp: wf_prices_def list_ex_iff wf_periods_def sorted_by_start_def)
  qed
  then show "wf_prices d'" "px_periods d' = px_periods d" "px_lists d' = px_lists d" "px_default d' = px_default d"
    "set (px_rows d) \<subseteq> set (px_rows d')" "\<exists>r\<in>set (px_rows d'). vr_list r = list \<and> vr_variant r = variant"
    by simp_all
qed

end
