(* ===== verification/PricesOk.thy ===== *)
theory PricesOk
  imports PricesSaved
begin

text \<open>
  Setting and cancelling prices, seen as the price of each instant: what the price line of a variant promises after
  each, that nothing before now changes, and that what others read is the price in force.
\<close>

text \<open>The line of a variant in a list, empty before its first price.\<close>

definition line_of :: "id \<Rightarrow> id \<Rightarrow> prices_db \<Rightarrow> price_period list" where
  "line_of list variant d =
     (case find (\<lambda>r. vr_list r = list \<and> vr_variant r = variant) (px_rows d) of
        None \<Rightarrow> []
      | Some r \<Rightarrow> sorted_by_start (periods_of (vr_id r) d))"

lemma find_row:
  assumes wf: "wf_prices d" and r: "r \<in> set (px_rows d)" "vr_list r = list" "vr_variant r = variant"
  shows "find (\<lambda>r. vr_list r = list \<and> vr_variant r = variant) (px_rows d) = Some r"
proof -
  have "distinct (map (\<lambda>r. (vr_list r, vr_variant r)) (px_rows d))" using wf by (simp add: wf_prices_def)
  from find_key [OF this r(1)] r(2,3) show ?thesis by simp
qed

lemma line_of_row:
  assumes "wf_prices d" and "r \<in> set (px_rows d)"
  shows "line_of (vr_list r) (vr_variant r) d = sorted_by_start (periods_of (vr_id r) d)"
  using find_row [OF assms refl refl] by (simp add: line_of_def)

lemma line_of_none:
  assumes "\<And>r. r \<in> set (px_rows d) \<Longrightarrow> \<not> (vr_list r = list \<and> vr_variant r = variant)"
  shows "line_of list variant d = []"
proof -
  have "find (\<lambda>r. vr_list r = list \<and> vr_variant r = variant) (px_rows d) = None" using assms by (simp add: find_None_iff)
  then show ?thesis by (simp add: line_of_def)
qed

lemma line_of_wf:
  assumes wf: "wf_prices d"
  shows "wf_periods (line_of list variant d)"
proof (cases "find (\<lambda>r. vr_list r = list \<and> vr_variant r = variant) (px_rows d)")
  case None
  then show ?thesis by (simp add: line_of_def wf_periods_def)
next
  case (Some r)
  with find_SomeD [OF Some] wf show ?thesis by (simp add: line_of_def wf_prices_def)
qed

section \<open>Locking\<close>

lemma lock_one:
  assumes wf: "wf_prices d" and lock: "lock_prices fresh list [variant] d = Inr (vs, d1)"
  obtains r where "vs = [variant_price_of (vr_id r) list variant (periods_of (vr_id r) d1)]" and "r \<in> set (px_rows d1)"
    and "vr_list r = list" and "vr_variant r = variant" and "wf_prices d1" and "px_periods d1 = px_periods d"
    and "px_lists d1 = px_lists d" and "px_default d1 = px_default d" and "\<forall>l v. line_of l v d1 = line_of l v d"
proof -
  from lock have made: "create_price_row list (fresh 0) variant d = Inr d1"
    and vs: "vs = map (\<lambda>r. variant_price_of (vr_id r) list (vr_variant r) (periods_of (vr_id r) d1))
               (sort_key vr_variant (filter (\<lambda>r. vr_list r = list \<and> vr_variant r \<in> set [variant]) (px_rows d1)))"
    by (auto simp: lock_prices_def Let_def res_simps)
  note new = new_row_wf [OF wf made]
  from new(6) obtain r where r: "r \<in> set (px_rows d1)" "vr_list r = list" "vr_variant r = variant" by blast
  have keys: "distinct (map (\<lambda>r. (vr_list r, vr_variant r)) (px_rows d1))" using new(1) by (simp add: wf_prices_def)
  have "filter (\<lambda>q. vr_list q = list \<and> vr_variant q \<in> set [variant]) (px_rows d1)
      = filter (\<lambda>q. (vr_list q, vr_variant q) = (vr_list r, vr_variant r)) (px_rows d1)"
    using r by (intro filter_cong) auto
  also have "\<dots> = [r]" using keys r(1) by (rule filter_key)
  finally have "vs = [variant_price_of (vr_id r) list variant (periods_of (vr_id r) d1)]" using r by (simp add: vs)
  moreover have "line_of l v d1 = line_of l v d" for l v
  proof (cases "\<exists>q\<in>set (px_rows d). vr_list q = l \<and> vr_variant q = v")
    case True
    then obtain q where q: "q \<in> set (px_rows d)" "vr_list q = l" "vr_variant q = v" by blast
    with new(5) have "q \<in> set (px_rows d1)" by blast
    with line_of_row [OF wf q(1)] line_of_row [OF new(1) this] q show ?thesis by (simp add: periods_of_def new(2))
  next
    case False
    then have none: "line_of l v d = []" by (intro line_of_none) blast
    show ?thesis
    proof (cases "\<exists>q\<in>set (px_rows d1). vr_list q = l \<and> vr_variant q = v")
      case True
      then obtain q where q: "q \<in> set (px_rows d1)" "vr_list q = l" "vr_variant q = v" by blast
      have "vr_id q \<notin> vr_id ` set (px_rows d)"
      proof
        assume "vr_id q \<in> vr_id ` set (px_rows d)"
        then obtain p where p: "p \<in> set (px_rows d)" "vr_id p = vr_id q" by auto
        have "distinct (map vr_id (px_rows d1))" using new(1) by (simp add: wf_prices_def)
        from same_key [OF this _ q(1) p(2)] new(5) p(1) have "p = q" by blast
        with False p(1) q show False by blast
      qed
      then have "periods_of (vr_id q) d = []" using wf by (force simp: wf_prices_def periods_of_def filter_empty_conv)
      with line_of_row [OF new(1) q(1)] q none show ?thesis by (simp add: periods_of_def new(2) sorted_by_start_def)
    next
      case False
      then have "line_of l v d1 = []" by (intro line_of_none) blast
      with none show ?thesis by simp
    qed
  qed
  ultimately show ?thesis using that [OF _ r new(1-4)] by simp
qed

section \<open>What each change does to the line of its variant\<close>

text \<open>The line of one variant becomes another, and the rest stays.\<close>

definition line_becomes :: "id \<Rightarrow> id \<Rightarrow> price_period list \<Rightarrow> prices_db \<Rightarrow> prices_db \<Rightarrow> bool" where
  "line_becomes list variant ps d d' \<longleftrightarrow>
     wf_prices d' \<and> px_lists d' = px_lists d \<and> px_default d' = px_default d \<and>
     (\<forall>l v. line_of l v d' = (if l = list \<and> v = variant then ps else line_of l v d))"

lemma loaded_changed:
  assumes wf: "wf_prices d" and r: "r \<in> set (px_rows d)" and line: "wf_periods ps"
    and nonneg: "list_all (\<lambda>p. 0 \<le> amount (per_amount p)) ps"
    and from_old: "\<And>p. p \<in> set ps \<Longrightarrow> per_id p \<notin> (\<lambda>(i, q). per_id q) ` set (px_periods d) \<or>
        (\<exists>q\<in>set (periods_of (vr_id r) d). p\<lparr>per_to := None\<rparr> = q\<lparr>per_to := None\<rparr>)"
  shows "to_save d ((variant_price_of (vr_id r) list variant (periods_of (vr_id r) d))\<lparr>vp_periods := ps\<rparr>)"
proof -
  have ids: "distinct (map (\<lambda>(i, p). per_id p) (px_periods d))" using wf by (simp add: wf_prices_def)
  have "j = vr_id r \<and> p\<lparr>per_to := None\<rparr> = t\<lparr>per_to := None\<rparr>"
    if p: "p \<in> set ps" and t: "(j, t) \<in> set (px_periods d)" "per_id t = per_id p" for p j t
  proof -
    have "per_id p \<in> (\<lambda>(i, q). per_id q) ` set (px_periods d)" using t by force
    with from_old [OF p] obtain q where q: "q \<in> set (periods_of (vr_id r) d)" "p\<lparr>per_to := None\<rparr> = q\<lparr>per_to := None\<rparr>" by blast
    from q(2) have "per_id (p\<lparr>per_to := None\<rparr>) = per_id (q\<lparr>per_to := None\<rparr>)" by (rule arg_cong)
    then have "per_id p = per_id q" by simp
    with t q(1) same_key [OF ids t(1), of "(vr_id r, q)"] have "(j, t) = (vr_id r, q)" by (simp add: periods_of_set)
    with q(2) show ?thesis by simp
  qed
  with r line nonneg show ?thesis by (auto simp: to_save_def variant_price_of_def)
qed

lemma saved_line:
  assumes wf: "wf_prices d" and r: "r \<in> set (px_rows d)" and v: "to_save d v" "vp_id v = vr_id r"
    and save: "save_prices [v] d = Inr d'" and changed: "has_changes v"
  shows "line_becomes (vr_list r) (vr_variant r) (vp_periods v) d d'"
proof -
  note kept = save_one_keeps [OF wf v(1) save changed]
  have "line_of l w d' = (if l = vr_list r \<and> w = vr_variant r then vp_periods v else line_of l w d)" for l w
  proof (cases "\<exists>q\<in>set (px_rows d). vr_list q = l \<and> vr_variant q = w")
    case True
    then obtain q where q: "q \<in> set (px_rows d)" "vr_list q = l" "vr_variant q = w" by blast
    then have q': "bump_version (vp_id v) q \<in> set (px_rows d')" by (simp add: kept(4))
    have new: "line_of l w d' = sorted_by_start (periods_of (vr_id q) d')" using line_of_row [OF kept(1) q'] q by simp
    show ?thesis
    proof (cases "vr_id q = vr_id r")
      case True
      have "distinct (map vr_id (px_rows d))" using wf by (simp add: wf_prices_def)
      from same_key [OF this q(1) r True] q have "l = vr_list r" "w = vr_variant r" by simp_all
      with new kept(2) True v(2) show ?thesis by simp
    next
      case False
      have "distinct (map (\<lambda>r. (vr_list r, vr_variant r)) (px_rows d))" using wf by (simp add: wf_prices_def)
      with same_key [OF this q(1) r] False q have "\<not> (l = vr_list r \<and> w = vr_variant r)" by auto
      with new kept(3) [of "vr_id q"] False v(2) line_of_row [OF wf q(1)] q show ?thesis by auto
    qed
  next
    case False
    then have "line_of l w d = []" by (intro line_of_none) blast
    moreover have "line_of l w d' = []" by (rule line_of_none) (use False kept(4) in auto)
    ultimately show ?thesis using False r by auto
  qed
  with kept show ?thesis by (simp add: line_becomes_def)
qed

lemma line_becomes_after:
  assumes "\<forall>l v. line_of l v d1 = line_of l v d" and "px_lists d1 = px_lists d" and "px_default d1 = px_default d"
  shows "line_becomes list variant ps d1 d' = line_becomes list variant ps d d'"
  using assms by (simp add: line_becomes_def)

lemma opened_from:
  assumes "q \<in> set (opened p ps)" and "line_to None ps"
  shows "q\<lparr>per_to := None\<rparr> = p\<lparr>per_to := None\<rparr> \<or> (\<exists>r\<in>set ps. q\<lparr>per_to := None\<rparr> = r\<lparr>per_to := None\<rparr>)"
proof -
  let ?b = "began (per_from p) ps"
  consider "q \<in> set (ending (Some (per_from p)) ?b)" | "q = p\<lparr>per_to := start_of (later (per_from p) ps) None\<rparr>"
    | "q \<in> set (later (per_from p) ps)" using assms(1) by (auto simp: opened_def)
  then show ?thesis
  proof cases
    case 1
    then show ?thesis
    proof (cases ?b rule: rev_cases)
      case (snoc xs x)
      then have "set xs \<subseteq> set ps" "x \<in> set ps" using began_set [of _ "per_from p" ps] by auto
      with 1 snoc show ?thesis by auto
    qed simp
  next
    case 2
    then show ?thesis by simp
  next
    case 3
    then show ?thesis by (auto simp: later_set)
  qed
qed

definition used_periods :: "prices_db \<Rightarrow> id set" where
  "used_periods d = (\<lambda>(i, p). per_id p) ` set (px_periods d)"

lemma row_used: "q \<in> set (periods_of i d) \<Longrightarrow> per_id q \<in> used_periods d"
  by (force simp: used_periods_def periods_of_set)

lemma set_price_in_does:
  assumes step: "set_price_in known fresh_rows fresh list variant i staff now d = Inr ((p, created), d')"
    and wf: "wf_prices d" and new: "fresh \<notin> used_periods d"
  shows "\<not> created \<and> line_becomes list variant (line_of list variant d) d d' \<and> p \<in> set (line_of list variant d)
    \<or> created \<and> line_becomes list variant (opened p (line_of list variant d)) d d'
      \<and> per_from p \<notin> per_from ` set (line_of list variant d) \<and> per_id p = fresh \<and> now \<le> per_from p
      \<and> Whole (amount (per_amount p)) = pri_amount i
      \<and> per_to p = start_of (later (per_from p) (line_of list variant d)) None"
proof -
  from step obtain m compare where m: "money_of (pri_amount i) MXN = Inr m"
    and rest: "res_bind (require_list_and_variant known list variant d) (\<lambda>_.
     res_bind (lock_prices fresh_rows list [variant] d) (\<lambda>(vs, d1).
     res_bind (the_locked vs) (\<lambda>v.
     res_bind (set_price \<lparr>np_id = fresh, np_amount = m, np_compare_at = compare,
         np_effective_from = pri_effective_from i, np_created_by = staff\<rparr> now v) (\<lambda>(p, change, w).
     res_bind (if change \<noteq> PriceUnchanged then save_prices [w] d1 else Inr d1) (\<lambda>d2.
       Inr ((p, change \<noteq> PriceUnchanged), d2)))))) = Inr ((p, created), d')"
    unfolding set_price_in_def res_bind_eq_Inr by blast
  from rest obtain vs d1 where lock: "lock_prices fresh_rows list [variant] d = Inr (vs, d1)"
    and rest: "res_bind (the_locked vs) (\<lambda>v.
     res_bind (set_price \<lparr>np_id = fresh, np_amount = m, np_compare_at = compare,
         np_effective_from = pri_effective_from i, np_created_by = staff\<rparr> now v) (\<lambda>(p, change, w).
     res_bind (if change \<noteq> PriceUnchanged then save_prices [w] d1 else Inr d1) (\<lambda>d2.
       Inr ((p, change \<noteq> PriceUnchanged), d2)))) = Inr ((p, created), d')"
    by (auto simp only: res_bind_eq_Inr case_prod_conv)
  from rest obtain v q change w where v: "the_locked vs = Inr v"
    and set: "set_price \<lparr>np_id = fresh, np_amount = m, np_compare_at = compare,
         np_effective_from = pri_effective_from i, np_created_by = staff\<rparr> now v = Inr (q, change, w)"
    and rest: "res_bind (if change \<noteq> PriceUnchanged then save_prices [w] d1 else Inr d1) (\<lambda>d2.
       Inr ((q, change \<noteq> PriceUnchanged), d2)) = Inr ((p, created), d')"
    by (auto simp only: res_bind_eq_Inr case_prod_conv)
  from rest have save: "(if change \<noteq> PriceUnchanged then save_prices [w] d1 else Inr d1) = Inr d'" and "q = p"
    and created: "created = (change \<noteq> PriceUnchanged)" by (auto simp: res_bind_eq_Inr)
  note set = set [unfolded \<open>q = p\<close>]
  from m have amount: "Whole (amount m) = pri_amount i" "0 \<le> amount m" by (auto simp: money_of_Inr valid_money_def)
  from lock_one [OF wf lock] obtain r where vs: "vs = [variant_price_of (vr_id r) list variant (periods_of (vr_id r) d1)]"
    and r: "r \<in> set (px_rows d1)" "vr_list r = list" "vr_variant r = variant" and wf1: "wf_prices d1"
    and same: "px_periods d1 = px_periods d" "px_lists d1 = px_lists d" "px_default d1 = px_default d"
      "\<forall>l v. line_of l v d1 = line_of l v d" .
  have v': "v = variant_price_of (vr_id r) list variant (periods_of (vr_id r) d1)" using v vs by simp
  have line: "vp_periods v = line_of list variant d"
    using line_of_row [OF wf1 r(1)] r same(4) by (simp add: v' variant_price_of_def)
  have wfl: "wf_periods (vp_periods v)" unfolding line by (rule line_of_wf [OF wf])
  then have lin: "line_to None (vp_periods v)" by (simp add: wf_periods_def)
  consider (unchanged) "change = PriceUnchanged" "w = v" "p \<in> set (vp_periods v)"
    | (new) "change \<noteq> PriceUnchanged" "w = v\<lparr>vp_periods := opened p (vp_periods v)\<rparr>" "per_from p \<notin> per_from ` set (vp_periods v)"
      "per_id p = fresh" "per_amount p = m" "per_from p \<ge> now" "fair_price p"
      "per_to p = start_of (later (per_from p) (vp_periods v)) None"
    using set_price_Inr [OF set wfl] by auto
  then show ?thesis
  proof cases
    case unchanged
    then have "d' = d1" using save by simp
    with unchanged created line wf1 same show ?thesis by (simp add: line_becomes_def)
  next
    case new
    have own: "q \<in> set (periods_of (vr_id r) d1)" if "q \<in> set (vp_periods v)" for q
      using that by (simp add: v' variant_price_of_def sorted_by_start_def)
    have unused: "fresh \<notin> used_periods d1" using \<open>fresh \<notin> used_periods d\<close> same(1) by (simp add: used_periods_def)
    have id: "per_id p \<notin> per_id ` set (vp_periods v)"
    proof
      assume "per_id p \<in> per_id ` set (vp_periods v)"
      then obtain q where "q \<in> set (vp_periods v)" "per_id p = per_id q" by (rule imageE)
      with row_used [OF own [of q]] unused new(4) show False by simp
    qed
    have saved: "to_save d1 w"
      unfolding new(2) v'
    proof (rule loaded_changed [OF wf1 r(1)])
      let ?ps = "vp_periods (variant_price_of (vr_id r) list variant (periods_of (vr_id r) d1))"
      show "wf_periods (opened p ?ps)" unfolding v' [symmetric] by (rule opened_wf [OF wfl new(3) id new(7)])
      have from_old: "q\<lparr>per_to := None\<rparr> = p\<lparr>per_to := None\<rparr> \<or> (\<exists>t\<in>set (periods_of (vr_id r) d1). q\<lparr>per_to := None\<rparr> = t\<lparr>per_to := None\<rparr>)"
        if "q \<in> set (opened p ?ps)" for q
        using opened_from [OF that] lin own unfolding v' [symmetric] by blast
      show "per_id q \<notin> (\<lambda>(i, q). per_id q) ` set (px_periods d1) \<or> (\<exists>t\<in>set (periods_of (vr_id r) d1). q\<lparr>per_to := None\<rparr> = t\<lparr>per_to := None\<rparr>)"
        if "q \<in> set (opened p ?ps)" for q
      proof -
        have "per_id q = fresh" if "q\<lparr>per_to := None\<rparr> = p\<lparr>per_to := None\<rparr>"
        proof -
          from that have "per_id (q\<lparr>per_to := None\<rparr>) = per_id (p\<lparr>per_to := None\<rparr>)" by (rule arg_cong)
          with new(4) show ?thesis by simp
        qed
        with from_old [OF that] unused show ?thesis unfolding used_periods_def by blast
      qed
      have "0 \<le> amount (per_amount q)" if "q \<in> set (opened p ?ps)" for q
      proof -
        have "per_amount q = per_amount t" if "q\<lparr>per_to := None\<rparr> = t\<lparr>per_to := None\<rparr>" for t
        proof -
          from that have "per_amount (q\<lparr>per_to := None\<rparr>) = per_amount (t\<lparr>per_to := None\<rparr>)" by (rule arg_cong)
          then show ?thesis by simp
        qed
        with from_old [OF that] consider "per_amount q = per_amount p"
          | t where "t \<in> set (periods_of (vr_id r) d1)" "per_amount q = per_amount t" by blast
        then show ?thesis
          by cases (use nonneg_saved [OF wf1, of "vr_id r"] amount(2) new(5) in \<open>simp_all add: list_all_iff\<close>)
      qed
      then show "list_all (\<lambda>p. 0 \<le> amount (per_amount p)) (opened p ?ps)" by (simp add: list_all_iff)
    qed
    have "p\<lparr>per_to := start_of (later (per_from p) (vp_periods v)) None\<rparr> \<in> set (vp_periods w)" by (simp add: new(2) opened_def)
    then have "p\<lparr>per_to := start_of (later (per_from p) (vp_periods v)) None\<rparr> \<in> set (chg_added (price_changes w))"
    proof -
      have "fresh \<notin> per_id ` set (periods_of (vp_id w) d1)"
      proof
        assume "fresh \<in> per_id ` set (periods_of (vp_id w) d1)"
        then obtain q where "q \<in> set (periods_of (vp_id w) d1)" "fresh = per_id q" by (rule imageE)
        with row_used [of q] unused show False by simp
      qed
      with \<open>_ \<in> set (vp_periods w)\<close> new(4) show ?thesis unfolding changes_sets(3) [OF wf1 saved] by simp
    qed
    then have changed: "has_changes w" by (auto simp: has_changes_def Let_def)
    have at: "vp_id w = vr_id r" by (simp add: new(2) v' variant_price_of_def)
    have "line_becomes list variant (vp_periods w) d1 d'"
      using saved_line [OF wf1 r(1) saved at _ changed] save new(1) r(2,3) by simp
    then have "line_becomes list variant (opened p (line_of list variant d)) d d'"
      using line_becomes_after [OF same(4,2,3)] new(2) line by simp
    with new created amount line show ?thesis by simp
  qed
qed

lemma ending_from:
  assumes "q \<in> set (ending e xs)"
  shows "\<exists>r\<in>set xs. q\<lparr>per_to := None\<rparr> = r\<lparr>per_to := None\<rparr>"
proof (cases xs rule: rev_cases)
  case Nil
  with assms show ?thesis by simp
next
  case (snoc ys y)
  with assms consider "q \<in> set ys" | "q = y\<lparr>per_to := e\<rparr>" by auto
  then show ?thesis by cases (auto simp: snoc)
qed

lemma cancel_price_in_does:
  assumes step: "cancel_price_in known fresh_rows list variant i now d = Inr d'" and wf: "wf_prices d"
  obtains xs p ys where "line_of list variant d = xs @ p # ys" and "now < per_from p" and "per_id p = i"
    and "line_becomes list variant (ending (per_to p) xs @ ys) d d'"
proof -
  from step obtain vs d1 where lock: "lock_prices fresh_rows list [variant] d = Inr (vs, d1)"
    and rest: "res_bind (the_locked vs) (\<lambda>v. res_bind (cancel_price i now v) (\<lambda>(p, w). save_prices [w] d1)) = Inr d'"
    unfolding cancel_price_in_def by (auto simp only: res_bind_eq_Inr case_prod_conv)
  from rest obtain v p w where v: "the_locked vs = Inr v" and cancel: "cancel_price i now v = Inr (p, w)"
    and save: "save_prices [w] d1 = Inr d'"
    by (auto simp only: res_bind_eq_Inr case_prod_conv)
  from lock_one [OF wf lock] obtain r where vs: "vs = [variant_price_of (vr_id r) list variant (periods_of (vr_id r) d1)]"
    and r: "r \<in> set (px_rows d1)" "vr_list r = list" "vr_variant r = variant" and wf1: "wf_prices d1"
    and same: "px_periods d1 = px_periods d" "px_lists d1 = px_lists d" "px_default d1 = px_default d"
      "\<forall>l v. line_of l v d1 = line_of l v d" .
  have v': "v = variant_price_of (vr_id r) list variant (periods_of (vr_id r) d1)" using v vs by simp
  have line: "vp_periods v = line_of list variant d"
    using line_of_row [OF wf1 r(1)] r same(4) by (simp add: v' variant_price_of_def)
  have wfl: "wf_periods (vp_periods v)" unfolding line by (rule line_of_wf [OF wf])
  from cancel_price_Inr [OF cancel wfl] obtain xs ys where ps: "vp_periods v = xs @ p # ys"
    and w: "w = v\<lparr>vp_periods := ending (per_to p) xs @ ys\<rparr>" and p: "now < per_from p" "per_id p = i" .
  have rows: "set (periods_of (vr_id r) d1) = set (xs @ p # ys)"
    using ps by (simp add: v' variant_price_of_def sorted_by_start_def del: set_append) (metis set_sort)
  have from_old: "\<exists>t\<in>set (periods_of (vr_id r) d1). q\<lparr>per_to := None\<rparr> = t\<lparr>per_to := None\<rparr>"
    if "q \<in> set (ending (per_to p) xs @ ys)" for q
  proof (cases "q \<in> set ys")
    case True
    then show ?thesis unfolding rows by auto
  next
    case False
    with that have "q \<in> set (ending (per_to p) xs)" by simp
    from ending_from [OF this] show ?thesis unfolding rows by auto
  qed
  have saved: "to_save d1 w"
    unfolding w v'
  proof (rule loaded_changed [OF wf1 r(1)])
    show "wf_periods (ending (per_to p) xs @ ys)" by (rule cancelled_wf) (use wfl ps in simp)
    show "per_id q \<notin> (\<lambda>(i, q). per_id q) ` set (px_periods d1) \<or> (\<exists>t\<in>set (periods_of (vr_id r) d1). q\<lparr>per_to := None\<rparr> = t\<lparr>per_to := None\<rparr>)"
      if "q \<in> set (ending (per_to p) xs @ ys)" for q
      using from_old [OF that] by (rule disjI2)
    have "0 \<le> amount (per_amount q)" if "q \<in> set (ending (per_to p) xs @ ys)" for q
    proof -
      from from_old [OF that] obtain t where t: "t \<in> set (periods_of (vr_id r) d1)" "q\<lparr>per_to := None\<rparr> = t\<lparr>per_to := None\<rparr>" by blast
      from t(2) have "per_amount (q\<lparr>per_to := None\<rparr>) = per_amount (t\<lparr>per_to := None\<rparr>)" by (rule arg_cong)
      with t(1) nonneg_saved [OF wf1, of "vr_id r"] show ?thesis by (simp add: list_all_iff)
    qed
    then show "list_all (\<lambda>p. 0 \<le> amount (per_amount p)) (ending (per_to p) xs @ ys)" unfolding list_all_iff by blast
  qed
  have at: "vp_id w = vr_id r" by (simp add: w v' variant_price_of_def)
  have "per_id p \<notin> per_id ` set (vp_periods w)"
  proof -
    have "distinct (map per_id (xs @ p # ys))" using wfl by (simp add: ps wf_periods_def)
    moreover have "per_id ` set (ending (per_to p) xs) = per_id ` set xs" by (simp only: set_map [symmetric] ending_starts(2))
    ultimately show ?thesis by (auto simp: w image_Un)
  qed
  moreover have "per_id p \<in> per_id ` set (periods_of (vp_id w) d1)" unfolding at rows by simp
  ultimately have "per_id p \<in> set (chg_removed (price_changes w))" unfolding changes_sets(1) [OF wf1 saved] by simp
  then have changed: "has_changes w" by (auto simp: has_changes_def Let_def)
  have "line_becomes list variant (vp_periods w) d1 d'"
    using saved_line [OF wf1 r(1) saved at save changed] r(2,3) by simp
  then have "line_becomes list variant (ending (per_to p) xs @ ys) d d'"
    using line_becomes_after [OF same(4,2,3)] w by simp
  with ps line p show ?thesis by (intro that) simp_all
qed

section \<open>The price in force is what others read\<close>

lemma current_unique:
  assumes line: "line_to None ps" and p: "p \<in> set ps" "period_state p at = PeriodCurrent"
  shows "price_at at ps = Some p"
proof (cases "price_at at ps")
  case None
  with p show ?thesis by (simp add: price_at_def find_None_iff)
next
  case (Some q)
  with find_SomeD [of "\<lambda>p. period_state p at = PeriodCurrent" ps q]
  have q: "q \<in> set ps" "period_state q at = PeriodCurrent" by (simp_all add: price_at_def)
  have "overlaps p q" using p(2) q(2) by (auto simp: overlaps_def period_state_current split: option.splits)
  with line_disjoint [OF line p(1) q(1)] Some show ?thesis by blast
qed

definition quote_of :: "id \<Rightarrow> price_period \<Rightarrow> price_quote" where
  "quote_of v p = \<lparr>prq_variant = v, prq_amount = per_amount p, prq_compare_at = per_compare_at p\<rparr>"

lemma quote_of_end [simp]: "quote_of v (p\<lparr>per_to := e\<rparr>) = quote_of v p"
  by (simp add: quote_of_def)

lemma in_current_prices:
  "q \<in> set (current_prices list variants at d) \<longleftrightarrow>
    (\<exists>r\<in>set (px_rows d). \<exists>p\<in>set (periods_of (vr_id r) d). vr_list r = list \<and> vr_variant r \<in> set variants \<and>
      period_state p at = PeriodCurrent \<and> q = quote_of (vr_variant r) p)"
proof -
  have open_at: "(per_from p \<le> at \<and> (case per_to p of None \<Rightarrow> True | Some e \<Rightarrow> e > at)) = (period_state p at = PeriodCurrent)" for p
    by (simp add: period_state_current)
  let ?of = "\<lambda>(i, p). if period_state p at = PeriodCurrent
      then map (\<lambda>r. quote_of (vr_variant r) p) (filter (\<lambda>r. vr_id r = i \<and> vr_list r = list \<and> vr_variant r \<in> set variants) (px_rows d))
      else []"
  have quotes: "current_prices list variants at d = concat (map ?of (px_periods d))"
    by (simp only: current_prices_def open_at quote_of_def)
  show ?thesis
  proof
    assume "q \<in> set (current_prices list variants at d)"
    then obtain i p where p: "(i, p) \<in> set (px_periods d)" "q \<in> set (?of (i, p))" unfolding quotes by auto
    then have "period_state p at = PeriodCurrent" by (auto split: if_splits)
    moreover from this p(2) obtain r where "r \<in> set (px_rows d)" "vr_id r = i" "vr_list r = list" "vr_variant r \<in> set variants"
      "q = quote_of (vr_variant r) p" by auto
    ultimately show "\<exists>r\<in>set (px_rows d). \<exists>p\<in>set (periods_of (vr_id r) d). vr_list r = list \<and> vr_variant r \<in> set variants \<and>
      period_state p at = PeriodCurrent \<and> q = quote_of (vr_variant r) p"
      using p(1) by (intro bexI [of _ r] bexI [of _ p]) (simp_all add: periods_of_set)
  next
    assume "\<exists>r\<in>set (px_rows d). \<exists>p\<in>set (periods_of (vr_id r) d). vr_list r = list \<and> vr_variant r \<in> set variants \<and>
      period_state p at = PeriodCurrent \<and> q = quote_of (vr_variant r) p"
    then obtain r p where r: "r \<in> set (px_rows d)" "(vr_id r, p) \<in> set (px_periods d)" "vr_list r = list"
      "vr_variant r \<in> set variants" "period_state p at = PeriodCurrent" "q = quote_of (vr_variant r) p"
      by (auto simp: periods_of_set)
    then have "q \<in> set (?of (vr_id r, p))" by simp
    with r(2) show "q \<in> set (current_prices list variants at d)" unfolding quotes set_concat set_map by (intro UN_I [of "?of (vr_id r, p)"] imageI)
  qed
qed

lemma map_of_only:
  assumes "\<And>x. x \<in> set xs \<Longrightarrow> key x = k \<Longrightarrow> x = y" and "y \<in> set xs" and "key y = k"
  shows "map_of (map (\<lambda>x. (key x, x)) xs) k = Some y"
  using assms
proof (induction xs)
  case Nil
  then show ?case by simp
next
  case (Cons x xs)
  show ?case
  proof (cases "key x = k")
    case True
    with Cons.prems(1) [of x] show ?thesis by simp
  next
    case False
    have "map_of (map (\<lambda>x. (key x, x)) xs) k = Some y"
      by (rule Cons.IH) (use Cons.prems(1) [OF list.set_intros(2)] Cons.prems(2,3) False in auto)
    with False show ?thesis by simp
  qed
qed

lemma quoted_in_force:
  assumes wf: "wf_prices d" and quote: "quote_prices variants at d = Inr f" and default: "px_default d = Some list"
    and v: "v \<in> set variants"
  shows "f v = map_option (quote_of v) (in_force (line_of list v d) at)"
proof -
  have f: "f = map_of (map (\<lambda>q. (prq_variant q, q)) (rev (current_prices list (remdups variants) at d)))"
    using quote default v by (cases variants) (auto simp: quote_prices_def split: if_splits)
  have line: "line_to None (line_of list v d)" using line_of_wf [OF wf] by (simp add: wf_periods_def)
  have own: "p \<in> set (line_of list v d)"
    if "r \<in> set (px_rows d)" "vr_list r = list" "vr_variant r = v" "p \<in> set (periods_of (vr_id r) d)" for r p
    using line_of_row [OF wf that(1)] that by (simp add: sorted_by_start_def)
  show ?thesis
  proof (cases "price_at at (line_of list v d)")
    case None
    have "prq_variant q \<noteq> v" if "q \<in> set (current_prices list (remdups variants) at d)" for q
    proof
      assume q: "prq_variant q = v"
      from that obtain r p where rp: "r \<in> set (px_rows d)" "p \<in> set (periods_of (vr_id r) d)" "vr_list r = list"
        "period_state p at = PeriodCurrent" "q = quote_of (vr_variant r) p" unfolding in_current_prices by blast
      from rp(5) q have "vr_variant r = v" by (simp add: quote_of_def)
      from current_unique [OF line own [OF rp(1,3) this rp(2)] rp(4)] None show False by simp
    qed
    then have "v \<notin> prq_variant ` set (current_prices list (remdups variants) at d)" by (metis imageE)
    then have "f v = None" by (simp add: f map_of_eq_None_iff image_image)
    with None show ?thesis by (simp add: in_force_def)
  next
    case (Some p)
    from Some have p: "p \<in> set (line_of list v d)" "period_state p at = PeriodCurrent"
      using find_SomeD [of "\<lambda>p. period_state p at = PeriodCurrent" "line_of list v d" p] by (simp_all add: price_at_def)
    obtain r where found: "find (\<lambda>r. vr_list r = list \<and> vr_variant r = v) (px_rows d) = Some r"
      using p(1) by (cases "find (\<lambda>r. vr_list r = list \<and> vr_variant r = v) (px_rows d)") (simp_all add: line_of_def)
    with p(1) have r: "p \<in> set (periods_of (vr_id r) d)" by (simp add: line_of_def sorted_by_start_def)
    from find_SomeD [OF found] have row: "r \<in> set (px_rows d)" "vr_list r = list" "vr_variant r = v" by simp_all
    have "f v = Some (quote_of v p)"
      unfolding f
    proof (rule map_of_only)
      show "quote_of v p \<in> set (rev (current_prices list (remdups variants) at d))"
        unfolding set_rev in_current_prices using row r p(2) v by (intro bexI [of _ r] bexI [of _ p]) simp_all
      show "prq_variant (quote_of v p) = v" by (simp add: quote_of_def)
      fix q assume "q \<in> set (rev (current_prices list (remdups variants) at d))" and q: "prq_variant q = v"
      then obtain s t where st: "s \<in> set (px_rows d)" "t \<in> set (periods_of (vr_id s) d)" "vr_list s = list"
        "period_state t at = PeriodCurrent" "q = quote_of (vr_variant s) t" unfolding set_rev in_current_prices by blast
      from st(5) q have var: "vr_variant s = v" by (simp add: quote_of_def)
      from current_unique [OF line own [OF st(1,3) this st(2)] st(4)] Some have "t = p" by simp
      with st(5) var show "q = quote_of v p" by simp
    qed
    with Some show ?thesis by (simp add: in_force_def)
  qed
qed

end
