(* ===== verification/PricingGuarantees.thy ===== *)
theory PricingGuarantees
  imports PricesOk
begin

text \<open>
  What can be relied on of the prices, in any order of settings, schedulings and cancellations with a clock that never
  goes back. New identifiers are random: that each is new is a hypothesis of its step.
\<close>

inductive pricing_step :: "(id \<Rightarrow> bool) \<Rightarrow> time \<Rightarrow> prices_db \<Rightarrow> prices_db \<Rightarrow> bool" for known where
  setting: "fresh \<notin> used_periods d \<Longrightarrow>
     set_price_in known fresh_rows fresh list variant i staff now d = Inr (answer, d') \<Longrightarrow> pricing_step known now d d'"
| cancelling: "cancel_price_in known fresh_rows list variant i now d = Inr d' \<Longrightarrow> pricing_step known now d d'"

inductive prices_reached :: "(id \<Rightarrow> bool) \<Rightarrow> time \<Rightarrow> prices_db \<Rightarrow> bool" for known where
  start: "px_rows d = [] \<Longrightarrow> px_periods d = [] \<Longrightarrow> prices_reached known now d"
| later: "prices_reached known before d \<Longrightarrow> before \<le> now \<Longrightarrow> pricing_step known now d d' \<Longrightarrow> prices_reached known now d'"

lemma pricing_step_wf:
  assumes "pricing_step known now d d'" and "wf_prices d"
  shows "wf_prices d'"
  using assms
proof cases
  case (setting fresh fresh_rows list variant i staff answer)
  obtain p created where "answer = (p, created)" by (cases answer)
  with set_price_in_does [of known fresh_rows fresh list variant i staff now d p created d'] setting assms(2)
  show ?thesis by (auto simp: line_becomes_def)
next
  case (cancelling fresh_rows list variant i)
  from cancel_price_in_does [OF cancelling assms(2)] show ?thesis by (auto simp: line_becomes_def)
qed

lemma prices_reached_wf: "prices_reached known now d \<Longrightarrow> wf_prices d"
proof (induction rule: prices_reached.induct)
  case (start d now)
  then show ?case by (simp add: wf_prices_def)
next
  case (later before d now d')
  from pricing_step_wf [OF later(3,4)] show ?case .
qed

lemma in_force_after:
  assumes "line_becomes list variant ps d d'"
  shows "in_force (line_of l v d') at = in_force (if l = list \<and> v = variant then ps else line_of l v d) at"
  using assms by (simp add: line_becomes_def)

lemma cancelled_future:
  assumes wf: "wf_periods (xs @ p # ys)" and at: "at < per_from p"
  shows "in_force (xs @ p # ys) at \<noteq> Some (p\<lparr>per_to := None\<rparr>)"
proof
  assume now: "in_force (xs @ p # ys) at = Some (p\<lparr>per_to := None\<rparr>)"
  then obtain q where q: "price_at at (xs @ p # ys) = Some q" "q\<lparr>per_to := None\<rparr> = p\<lparr>per_to := None\<rparr>" by (auto simp: in_force_def)
  from q(2) have "per_from (q\<lparr>per_to := None\<rparr>) = per_from (p\<lparr>per_to := None\<rparr>)" by (rule arg_cong)
  moreover have "period_state q at = PeriodCurrent" using find_SomeD [of "\<lambda>p. period_state p at = PeriodCurrent"] q(1)
    unfolding price_at_def by blast
  ultimately show False using at by (simp add: period_state_current)
qed

section \<open>A first price, a rise and its cancellation\<close>

definition no_prices :: prices_db where
  "no_prices = \<lparr>px_lists = [3], px_default = Some 3, px_rows = [], px_periods = []\<rparr>"

definition priced_at :: "int \<Rightarrow> time option \<Rightarrow> price_input" where
  "priced_at a t = \<lparr>pri_amount = Whole a, pri_compare_at = None, pri_effective_from = t\<rparr>"

definition first_price :: "((price_period \<times> bool) \<times> prices_db) result" where
  "first_price = set_price_in (\<lambda>v. True) (\<lambda>n. 50) 60 3 7 (priced_at 11600 None) 9 10 no_prices"

definition with_price :: prices_db where
  "with_price = (case first_price of Inr (_, d) \<Rightarrow> d | Inl _ \<Rightarrow> no_prices)"

definition rise :: "((price_period \<times> bool) \<times> prices_db) result" where
  "rise = set_price_in (\<lambda>v. True) (\<lambda>n. 51) 61 3 7 (priced_at 12900 (Some 40)) 9 20 with_price"

definition with_rise :: prices_db where
  "with_rise = (case rise of Inr (_, d) \<Rightarrow> d | Inl _ \<Rightarrow> no_prices)"

definition first_period :: price_period where
  "first_period =
     \<lparr>per_id = 60, per_amount = \<lparr>amount = 11600, currency = MXN\<rparr>, per_compare_at = None, per_from = 10, per_to = None,
      per_created_by = 9, per_created_at = 10\<rparr>"

definition rise_period :: price_period where
  "rise_period =
     \<lparr>per_id = 61, per_amount = \<lparr>amount = 12900, currency = MXN\<rparr>, per_compare_at = None, per_from = 40, per_to = None,
      per_created_by = 9, per_created_at = 20\<rparr>"

lemma first_run: "set_price_in (\<lambda>v. True) (\<lambda>n. 50) 60 3 7 (priced_at 11600 None) 9 10 no_prices = Inr ((first_period, True), with_price)"
  by code_simp

lemma rise_run: "set_price_in (\<lambda>v. True) (\<lambda>n. 51) 61 3 7 (priced_at 12900 (Some 40)) 9 20 with_price = Inr ((rise_period, True), with_rise)"
  by code_simp

lemma small_lines:
  shows "line_of 3 7 with_rise = [first_period\<lparr>per_to := Some 40\<rparr>, rise_period]" and "line_of 3 7 with_price = [first_period]"
  by code_simp+

lemma small_new: "60 \<notin> used_periods no_prices" "61 \<notin> used_periods with_price"
  by code_simp+

lemma small_reached:
  shows "prices_reached (\<lambda>v. True) 10 no_prices" and "prices_reached (\<lambda>v. True) 10 with_price"
    and "prices_reached (\<lambda>v. True) 20 with_rise"
proof -
  show none: "prices_reached (\<lambda>v. True) 10 no_prices" by (rule prices_reached.start) (simp_all add: no_prices_def)
  show one: "prices_reached (\<lambda>v. True) 10 with_price"
    by (rule prices_reached.later [OF none order_refl pricing_step.setting [OF small_new(1) first_run]])
  show "prices_reached (\<lambda>v. True) 20 with_rise"
    by (rule prices_reached.later [OF one _ pricing_step.setting [OF small_new(2) rise_run]]) simp
qed

section \<open>The guarantees\<close>

text \<open>
  C12. The prices of a variant in a list are always one line: each period ends where the next begins, none is empty, the
  last has no end, and the compare-at price is above the price; the table never holds two periods that overlap.
\<close>

theorem prices_form_one_line:
  assumes "prices_reached known now d"
  shows "line_to None (line_of list variant d) \<and> list_all fair_price (line_of list variant d) \<and> no_overlap (px_periods d)"
proof -
  have wf: "wf_prices d" by (rule prices_reached_wf [OF assms])
  have "fitting (px_periods d)"
    using wf periods_line [OF wf] by (auto simp: fitting_def wf_prices_def periods_of_set [symmetric])
  then have "no_overlap (px_periods d)" by (rule fitting_no_overlap)
  with line_of_wf [OF wf] show ?thesis by (simp add: wf_periods_def)
qed

theorem prices_form_one_line_witness: "line_to None (line_of 3 7 with_rise) \<and> length (line_of 3 7 with_rise) = 2"
  using prices_form_one_line [OF small_reached(3), of 3 7] by (simp add: small_lines)

text \<open>
  C13. What was the price of a variant at any instant before now stays so, whatever is set, scheduled or cancelled.
\<close>

theorem past_prices_never_change:
  assumes "prices_reached known before d" and "pricing_step known now d d'" and "at < now"
  shows "in_force (line_of l v d') at = in_force (line_of l v d) at"
proof -
  have wf: "wf_prices d" by (rule prices_reached_wf [OF assms(1)])
  from assms(2) show ?thesis
  proof cases
    case (setting fresh fresh_rows list variant i staff answer)
    obtain p created where "answer = (p, created)" by (cases answer)
    with setting set_price_in_does [of known fresh_rows fresh list variant i staff now d p created d'] wf
    have "line_becomes list variant (line_of list variant d) d d' \<or>
        line_becomes list variant (opened p (line_of list variant d)) d d' \<and> per_from p \<notin> per_from ` set (line_of list variant d)
          \<and> now \<le> per_from p" by blast
    then show ?thesis
      using in_force_opened [of "line_of list variant d" p at] line_of_wf [OF wf, of list variant] assms(3)
      by (auto simp: in_force_after wf_periods_def)
  next
    case (cancelling fresh_rows list variant i)
    from cancel_price_in_does [OF cancelling wf] obtain xs p ys where
      line: "line_of list variant d = xs @ p # ys" "now < per_from p"
      "line_becomes list variant (ending (per_to p) xs @ ys) d d'" by metis
    have wfl: "wf_periods (xs @ p # ys)" using line_of_wf [OF wf, of list variant] line(1) by simp
    from cancelled_future [OF wfl, of at] line(2) assms(3) have "in_force (xs @ p # ys) at \<noteq> Some (p\<lparr>per_to := None\<rparr>)" by simp
    with in_force_cancelled [OF wfl, of at] in_force_after [OF line(3), of l v at] line(1) show ?thesis by simp
  qed
qed

theorem past_prices_never_change_witness:
  "in_force (line_of 3 7 with_rise) 15 = in_force (line_of 3 7 with_price) 15 \<and> in_force (line_of 3 7 with_rise) 15 = Some first_period"
proof -
  have "in_force (line_of 3 7 with_rise) 15 = in_force (line_of 3 7 with_price) 15"
    by (rule past_prices_never_change [OF small_reached(2) pricing_step.setting [OF small_new(2) rise_run]]) simp
  moreover have "in_force (line_of 3 7 with_price) 15 = Some first_period"
    unfolding small_lines by code_simp
  ultimately show ?thesis by simp
qed

text \<open>
  C35. A price set is the price of its variant from its start, never before now, until the next one begins; at any other
  instant, and of any other variant or list, the price is what it was.
\<close>

theorem price_set_is_in_force:
  assumes "prices_reached known before d" and "fresh \<notin> used_periods d"
    and "set_price_in known fresh_rows fresh list variant i staff now d = Inr ((p, True), d')"
  shows "Whole (amount (per_amount p)) = pri_amount i \<and> now \<le> per_from p \<and>
    in_force (line_of l v d') at =
      (if l = list \<and> v = variant \<and> period_state p at = PeriodCurrent then Some (p\<lparr>per_to := None\<rparr>)
       else in_force (line_of l v d) at)"
proof -
  have wf: "wf_prices d" by (rule prices_reached_wf [OF assms(1)])
  from set_price_in_does [OF assms(3) wf assms(2)]
  have line: "line_becomes list variant (opened p (line_of list variant d)) d d'"
    and p: "per_from p \<notin> per_from ` set (line_of list variant d)" "now \<le> per_from p" "Whole (amount (per_amount p)) = pri_amount i"
      "per_to p = start_of (later (per_from p) (line_of list variant d)) None" by simp_all
  have "line_to None (line_of list variant d)" using line_of_wf [OF wf] by (simp add: wf_periods_def)
  from in_force_opened [OF this p(1), of at] in_force_after [OF line, of l v at] p show ?thesis
    by (simp add: period_state_current)
qed

theorem price_set_is_in_force_witness:
  "in_force (line_of 3 7 with_rise) 45 = Some rise_period \<and> in_force (line_of 3 7 with_rise) 39 = in_force (line_of 3 7 with_price) 39"
proof -
  note set = price_set_is_in_force [OF small_reached(2) small_new(2) rise_run, THEN conjunct2, THEN conjunct2, of 3 7]
  have "period_state rise_period 45 = PeriodCurrent" "period_state rise_period 39 \<noteq> PeriodCurrent"
    "rise_period\<lparr>per_to := None\<rparr> = rise_period" by (simp_all add: rise_period_def period_state_def)
  with set [of 45] set [of 39] show ?thesis by simp
qed

text \<open>
  Cancelling, possible only before it starts, gives the time of a price back to the one before it; at any other
  instant, and of any other variant or list, the price is what it was.
\<close>

lemma cancelled_price_gives_back:
  assumes "prices_reached known before d" and "cancel_price_in known fresh_rows list variant i now d = Inr d'"
  shows "\<exists>p. per_id p = i \<and> now < per_from p \<and>
    in_force (line_of l v d') at =
      (if l = list \<and> v = variant \<and> in_force (line_of l v d) at = Some (p\<lparr>per_to := None\<rparr>)
       then in_force (line_of l v d) (per_from p - 1) else in_force (line_of l v d) at)"
proof -
  have wf: "wf_prices d" by (rule prices_reached_wf [OF assms(1)])
  from cancel_price_in_does [OF assms(2) wf] obtain xs p ys where
    line: "line_of list variant d = xs @ p # ys" "now < per_from p" "per_id p = i"
    "line_becomes list variant (ending (per_to p) xs @ ys) d d'" by metis
  have "wf_periods (xs @ p # ys)" using line_of_wf [OF wf, of list variant] line(1) by simp
  note gone = in_force_cancelled [OF this, of at, folded line(1)]
  have "in_force (line_of l v d') at =
      (if l = list \<and> v = variant \<and> in_force (line_of l v d) at = Some (p\<lparr>per_to := None\<rparr>)
       then in_force (line_of l v d) (per_from p - 1) else in_force (line_of l v d) at)"
  proof (cases "l = list \<and> v = variant")
    case True
    with in_force_after [OF line(4), of l v at] gone show ?thesis by simp
  next
    case False
    with in_force_after [OF line(4), of l v at] show ?thesis by auto
  qed
  with line(2,3) show ?thesis by blast
qed

text \<open>
  The price other modules are quoted for a variant is the one in force in the default list at the instant they ask
  for, and none where no price has begun.
\<close>

lemma quotes_are_the_price_in_force:
  assumes "prices_reached known now d" and "quote_prices variants at d = Inr f" and "v \<in> set variants"
  shows "\<exists>list. px_default d = Some list \<and> f v = map_option (quote_of v) (in_force (line_of list v d) at)"
proof -
  from assms(2,3) obtain list where "px_default d = Some list"
    by (cases "px_default d") (auto simp: quote_prices_def split: if_splits)
  with quoted_in_force [OF prices_reached_wf [OF assms(1)] assms(2) this assms(3)] show ?thesis by blast
qed

end
