(* ===== verification/Outbox.thy ===== *)
theory Outbox
  imports Cleanup
begin

text \<open>
  The outbox of domain events (\<open>platform/events/event-outbox.ts\<close>, with \<open>event-retries.ts\<close> and the
  constraints of its migration): the stored events, one delivery per handler, and every statement that takes, settles,
  gives up, retries or deletes them. Each is one statement of the database, so here each is one step. What an event
  carries is a parameter of the types.
\<close>

section \<open>Retries\<close>

definition RETRY_DELAY_MINUTES :: "int list" where
  "RETRY_DELAY_MINUTES = [1, 5, 15, 60, 180, 360, 720]"

definition MAX_DELIVERY_ATTEMPTS :: nat where
  "MAX_DELIVERY_ATTEMPTS = length RETRY_DELAY_MINUTES + 1"

definition DELIVERY_LEASE_MS :: int where
  "DELIVERY_LEASE_MS = 5 * 60000"

definition DELIVERY_BATCH_SIZE :: nat where
  "DELIVERY_BATCH_SIZE = 100"

definition next_attempt_at :: "nat \<Rightarrow> time \<Rightarrow> time option" where
  "next_attempt_at attempts now =
     (if attempts \<ge> MAX_DELIVERY_ATTEMPTS then None
      else Some (now + RETRY_DELAY_MINUTES ! (max attempts 1 - 1) * 60000))"

section \<open>The tables\<close>

record 'e domain_event =
  de_id :: id
  de_type :: string
  de_occurred :: time
  de_content :: 'e

datatype delivery_status = DeliveryPending | Delivered | DeliveryFailed

record delivery =
  dv_id :: id
  dv_event :: id
  dv_handler :: string
  dv_status :: delivery_status
  dv_attempts :: nat
  dv_next :: time
  dv_locked :: "time option"
  dv_error :: "string option"
  dv_delivered_at :: "time option"

record 'e outbox =
  ob_events :: "'e domain_event list"
  ob_deliveries :: "delivery list"

definition new_delivery :: "id \<Rightarrow> id \<Rightarrow> string \<Rightarrow> time \<Rightarrow> delivery" where
  "new_delivery i event handler first =
     \<lparr>dv_id = i, dv_event = event, dv_handler = handler, dv_status = DeliveryPending, dv_attempts = 0, dv_next = first,
      dv_locked = None, dv_error = None, dv_delivered_at = None\<rparr>"

text \<open>The events with handlers, each with a delivery for each of them; the keys of the two tables refuse a second one.\<close>

definition write_events ::
  "(nat \<Rightarrow> id) \<Rightarrow> ('e domain_event \<times> string list) list \<Rightarrow> time \<Rightarrow> 'e outbox \<Rightarrow> 'e outbox result" where
  "write_events fresh events now ob =
     (let handled = filter (\<lambda>(e, handlers). handlers \<noteq> []) events
      in if handled = [] then Inr ob
         else
           let stored = ob_events ob @ map fst handled;
               asked = concat (map (\<lambda>(e, handlers). map (Pair (de_id e)) handlers) handled);
               rows = map (\<lambda>(n, event, handler). new_delivery (fresh n) event handler (the (next_attempt_at 0 now)))
                        (zip [0..<length asked] asked);
               deliveries = ob_deliveries ob @ rows
           in if \<not> distinct (map de_id stored) then Inl (PlainError ''domain_events_pkey'')
              else if \<not> distinct (map dv_id deliveries) then Inl (PlainError ''event_deliveries_pkey'')
              else if \<not> distinct (map (\<lambda>d. (dv_event d, dv_handler d)) deliveries)
              then Inl (PlainError ''event_deliveries_event_id_handler_key'')
              else Inr \<lparr>ob_events = stored, ob_deliveries = deliveries\<rparr>)"

text \<open>An update of the rows of a condition.\<close>

definition change_rows :: "(delivery \<Rightarrow> bool) \<Rightarrow> (delivery \<Rightarrow> delivery) \<Rightarrow> 'e outbox \<Rightarrow> 'e outbox" where
  "change_rows p f ob = ob\<lparr>ob_deliveries := map (\<lambda>d. if p d then f d else d) (ob_deliveries ob)\<rparr>"

section \<open>Taking\<close>

text \<open>Nobody holds it: it was not taken, or the lease of who took it ran out.\<close>

definition unheld :: "time \<Rightarrow> delivery \<Rightarrow> bool" where
  "unheld now d \<longleftrightarrow> (case dv_locked d of None \<Rightarrow> True | Some t \<Rightarrow> t \<le> now)"

definition can_take :: "time \<Rightarrow> delivery \<Rightarrow> bool" where
  "can_take now d \<longleftrightarrow> dv_status d = DeliveryPending \<and> dv_attempts d < MAX_DELIVERY_ATTEMPTS \<and> unheld now d"

definition taken_at :: "time \<Rightarrow> delivery \<Rightarrow> delivery" where
  "taken_at now d = d\<lparr>dv_attempts := dv_attempts d + 1, dv_locked := Some (now + DELIVERY_LEASE_MS)\<rparr>"

definition claim :: "id \<Rightarrow> string \<Rightarrow> time \<Rightarrow> 'e outbox \<Rightarrow> (id \<times> nat) option \<times> 'e outbox" where
  "claim event handler now ob =
     (let mine = (\<lambda>d. dv_event d = event \<and> dv_handler d = handler \<and> can_take now d)
      in (map_option (\<lambda>d. (dv_id d, dv_attempts d + 1)) (find mine (ob_deliveries ob)),
          change_rows mine (taken_at now) ob))"

record 'e claimed =
  cl_id :: id
  cl_handler :: string
  cl_attempts :: nat
  cl_event :: "'e domain_event"

text \<open>The due ones that come first, of events that are there; they are answered oldest event first.\<close>

definition due_first :: "time \<Rightarrow> nat \<Rightarrow> 'e outbox \<Rightarrow> delivery list" where
  "due_first now limit ob =
     take limit (sort_key dv_next (sort_key dv_id (filter (\<lambda>d. can_take now d \<and> dv_next d \<le> now) (ob_deliveries ob))))"

definition claim_due :: "time \<Rightarrow> nat \<Rightarrow> 'e outbox \<Rightarrow> 'e claimed list \<times> 'e outbox" where
  "claim_due now limit ob =
     (let ids = map dv_id (due_first now limit ob);
          due = (\<lambda>d. dv_id d \<in> set ids \<and> dv_event d \<in> de_id ` set (ob_events ob));
          rows = concat (map (\<lambda>d. map (\<lambda>e. \<lparr>cl_id = dv_id d, cl_handler = dv_handler d, cl_attempts = dv_attempts d + 1, cl_event = e\<rparr>)
                   (filter (\<lambda>e. de_id e = dv_event d) (ob_events ob))) (filter due (ob_deliveries ob)))
      in (sort_key (\<lambda>c. de_occurred (cl_event c)) (sort_key cl_id rows),
          change_rows due (taken_at now) ob))"

section \<open>Settling\<close>

text \<open>An update of one row by its identifier, which fails when it is not there.\<close>

definition update_delivery :: "id \<Rightarrow> (delivery \<Rightarrow> delivery) \<Rightarrow> 'e outbox \<Rightarrow> 'e outbox result" where
  "update_delivery i f ob =
     (if list_ex (\<lambda>d. dv_id d = i) (ob_deliveries ob)
      then Inr (change_rows (\<lambda>d. dv_id d = i) f ob)
      else Inl (PlainError ''No record was found for an update''))"

definition delivered_row :: "time \<Rightarrow> delivery \<Rightarrow> delivery" where
  "delivered_row now d =
     d\<lparr>dv_status := Delivered, dv_delivered_at := Some now, dv_locked := None, dv_error := None\<rparr>"

definition mark_delivered :: "id \<Rightarrow> time \<Rightarrow> 'e outbox \<Rightarrow> 'e outbox result" where
  "mark_delivered i now = update_delivery i (delivered_row now)"

definition failed_row :: "time option \<Rightarrow> string \<Rightarrow> delivery \<Rightarrow> delivery" where
  "failed_row retry_at error d =
     (case retry_at of
        None \<Rightarrow> d\<lparr>dv_status := DeliveryFailed, dv_locked := None, dv_error := Some error\<rparr>
      | Some t \<Rightarrow> d\<lparr>dv_next := t, dv_locked := None, dv_error := Some error\<rparr>)"

definition mark_failed_attempt :: "id \<Rightarrow> nat \<Rightarrow> time \<Rightarrow> string \<Rightarrow> 'e outbox \<Rightarrow> (time option \<times> 'e outbox) result" where
  "mark_failed_attempt i attempts now error ob =
     (let retry_at = next_attempt_at attempts now
      in res_bind (update_delivery i (failed_row retry_at error) ob) (\<lambda>ob'. Inr (retry_at, ob')))"

definition abandoned :: "time \<Rightarrow> delivery \<Rightarrow> bool" where
  "abandoned now d \<longleftrightarrow>
     dv_status d = DeliveryPending \<and> dv_attempts d \<ge> MAX_DELIVERY_ATTEMPTS
     \<and> (case dv_locked d of None \<Rightarrow> False | Some t \<Rightarrow> t \<le> now)"

definition fail_abandoned :: "time \<Rightarrow> 'e outbox \<Rightarrow> nat \<times> 'e outbox" where
  "fail_abandoned now ob =
     (length (filter (abandoned now) (ob_deliveries ob)),
      change_rows (abandoned now)
        (\<lambda>d. d\<lparr>dv_status := DeliveryFailed, dv_locked := None, dv_error := Some ''The last attempt did not finish''\<rparr>) ob)"

section \<open>What the staff does (\<open>event-deliveries.ts\<close>)\<close>

definition delivery_status_name :: "delivery_status \<Rightarrow> string" where
  "delivery_status_name s =
     (case s of DeliveryPending \<Rightarrow> ''PENDING'' | Delivered \<Rightarrow> ''DELIVERED'' | DeliveryFailed \<Rightarrow> ''FAILED'')"

record delivery_filter =
  df_status :: "delivery_status list option"
  df_type :: "string option"
  df_handler :: "string option"

definition event_type_of :: "'e outbox \<Rightarrow> id \<Rightarrow> string option" where
  "event_type_of ob i = map_option de_type (find (\<lambda>e. de_id e = i) (ob_events ob))"

definition where_of :: "delivery_filter \<Rightarrow> 'e outbox \<Rightarrow> delivery \<Rightarrow> bool" where
  "where_of f ob d \<longleftrightarrow>
     (case df_status f of None \<Rightarrow> True | Some ss \<Rightarrow> dv_status d \<in> set ss)
     \<and> (case df_handler f of None \<Rightarrow> True | Some h \<Rightarrow> dv_handler d = h)
     \<and> (case df_type f of None \<Rightarrow> True | Some t \<Rightarrow> event_type_of ob (dv_event d) = Some t)"

definition pending_again :: "time \<Rightarrow> delivery \<Rightarrow> delivery" where
  "pending_again now d = d\<lparr>dv_status := DeliveryPending, dv_attempts := 0, dv_next := now, dv_locked := None\<rparr>"

definition retry_delivery :: "id \<Rightarrow> time \<Rightarrow> 'e outbox \<Rightarrow> 'e outbox result" where
  "retry_delivery i now ob =
     (let failed = (\<lambda>d. dv_id d = i \<and> dv_status d = DeliveryFailed)
      in if length (filter failed (ob_deliveries ob)) = 0
         then (case find (\<lambda>d. dv_id d = i) (ob_deliveries ob) of
                 None \<Rightarrow> Inl (NotFoundError ''Event delivery'' i)
               | Some d \<Rightarrow> Inl (InvalidStateTransitionError (delivery_status_name (dv_status d)) ''retry''))
         else Inr (change_rows failed (pending_again now) ob))"

definition retry_all :: "string option \<Rightarrow> string option \<Rightarrow> time \<Rightarrow> 'e outbox \<Rightarrow> nat \<times> 'e outbox" where
  "retry_all type handler now ob =
     (let failed = where_of \<lparr>df_status = Some [DeliveryFailed], df_type = type, df_handler = handler\<rparr> ob
      in (length (filter failed (ob_deliveries ob)),
          change_rows failed (pending_again now) ob))"

section \<open>The daily cleanup (\<open>delivered-event-cleanup.ts\<close>)\<close>

definition all_delivered_before :: "time \<Rightarrow> 'e outbox \<Rightarrow> id \<Rightarrow> bool" where
  "all_delivered_before before ob event \<longleftrightarrow>
     \<not> list_ex (\<lambda>d. dv_event d = event \<and>
         (dv_status d \<noteq> Delivered \<or> (case dv_delivered_at d of None \<Rightarrow> False | Some t \<Rightarrow> t \<ge> before)))
       (ob_deliveries ob)"

definition delete_delivered :: "time \<Rightarrow> 'e outbox \<Rightarrow> nat \<Rightarrow> nat \<times> 'e outbox" where
  "delete_delivered before ob limit =
     (let gone = take limit (filter (\<lambda>e. all_delivered_before before ob (de_id e)) (ob_events ob));
          ids = map de_id gone
      in (length gone,
          \<lparr>ob_events = filter (\<lambda>e. de_id e \<notin> set ids) (ob_events ob),
           ob_deliveries = filter (\<lambda>d. dv_event d \<notin> set ids) (ob_deliveries ob)\<rparr>))"

definition clean_delivered :: "int \<Rightarrow> time \<Rightarrow> 'e outbox \<Rightarrow> nat \<times> 'e outbox" where
  "clean_delivered days now ob =
     delete_in_batches (delete_delivered (days_before now days)) CLEANUP_BATCH_SIZE CLEANUP_MAX_BATCHES 0 ob"

end
