(* ===== verification/EventBus.thy ===== *)
theory EventBus
  imports Outbox
begin

text \<open>
  Publishing and delivering domain events (\<open>platform/events/cls-domain-event-publisher.ts\<close>,
  \<open>domain-event-dispatcher.ts\<close>) and the transaction they are published in
  (\<open>platform/persistence/transaction-scope.ts\<close>, \<open>cls-transaction-manager.ts\<close>). What a handler does to
  the tables of its module is modelled with that module; here it is the outcome of each call, a parameter, as is when
  each attempt ends.
\<close>

section \<open>The handlers\<close>

text \<open>Each is registered for a type of event, under its name; those of a type in the order they were registered.\<close>

type_synonym registry = "(string \<times> string) list"

definition handler_names :: "registry \<Rightarrow> string \<Rightarrow> string list" where
  "handler_names reg type = map snd (filter (\<lambda>(t, name). t = type) reg)"

definition is_registered :: "registry \<Rightarrow> string \<Rightarrow> bool" where
  "is_registered reg name = list_ex (\<lambda>(t, n). n = name) reg"

definition to_store :: "registry \<Rightarrow> 'e domain_event list \<Rightarrow> ('e domain_event \<times> string list) list" where
  "to_store reg events = map (\<lambda>e. (e, handler_names reg (de_type e))) events"

section \<open>The scope of a transaction\<close>

text \<open>What waits for the commit: each publish, to be stored just before it, and to be dispatched after it.\<close>

record 'e scope =
  sc_before_commit :: "'e domain_event list list"
  sc_after_commit :: "('e domain_event \<times> bool) list list"

definition empty_scope :: "'e scope" where
  "empty_scope = \<lparr>sc_before_commit = [], sc_after_commit = []\<rparr>"

definition publish_in :: "'e domain_event list \<Rightarrow> 'e scope \<Rightarrow> 'e scope" where
  "publish_in events s =
     s\<lparr>sc_before_commit := sc_before_commit s @ [events],
       sc_after_commit := sc_after_commit s @ [map (\<lambda>e. (e, True)) events]\<rparr>"

definition publish_volatile_in :: "'e domain_event list \<Rightarrow> 'e scope \<Rightarrow> 'e scope" where
  "publish_volatile_in events s = s\<lparr>sc_after_commit := sc_after_commit s @ [map (\<lambda>e. (e, False)) events]\<rparr>"

definition scope_mark :: "'e scope \<Rightarrow> nat \<times> nat" where
  "scope_mark s = (length (sc_before_commit s), length (sc_after_commit s))"

definition discard_since :: "nat \<times> nat \<Rightarrow> 'e scope \<Rightarrow> 'e scope" where
  "discard_since mark s =
     (case mark of (before, after) \<Rightarrow>
        s\<lparr>sc_before_commit := take before (sc_before_commit s), sc_after_commit := take after (sc_after_commit s)\<rparr>)"

text \<open>What a transaction publishes: at once, or in a nested step that ends well or is undone.\<close>

datatype 'e work =
    Publishes "'e domain_event list"
  | PublishesVolatile "'e domain_event list"
  | Nests bool "'e work list"

fun run_work :: "'e work \<Rightarrow> 'e scope \<Rightarrow> 'e scope" where
  "run_work (Publishes events) s = publish_in events s"
| "run_work (PublishesVolatile events) s = publish_volatile_in events s"
| "run_work (Nests ends_well ws) s =
     (let mark = scope_mark s; t = fold run_work ws s
      in if ends_well then t else discard_since mark t)"

section \<open>Dispatching after the commit\<close>

text \<open>Each run of events of one kind goes out together, in publish order.\<close>

function dispatch_runs :: "('e domain_event \<times> bool) list \<Rightarrow> (bool \<times> 'e domain_event list) list" where
  "dispatch_runs [] = []"
| "dispatch_runs ((e, stored) # batch) =
     (stored, e # map fst (takeWhile (\<lambda>(f, k). k = stored) batch)) # dispatch_runs (dropWhile (\<lambda>(f, k). k = stored) batch)"
  by pat_completeness auto

termination
  by (relation "measure length") (simp_all add: length_dropWhile_le less_Suc_eq_le)

text \<open>
  A transaction whose work succeeded: its events are stored in publish order, each publish on its own, and whatever
  fails there undoes it all; after the commit the events go out.
\<close>

primrec save_all :: "registry \<Rightarrow> (nat \<Rightarrow> nat \<Rightarrow> id) \<Rightarrow> time \<Rightarrow> nat \<Rightarrow> 'e domain_event list list \<Rightarrow> 'e outbox \<Rightarrow> 'e outbox result" where
  "save_all reg fresh now n [] ob = Inr ob"
| "save_all reg fresh now n (events # rest) ob =
     res_bind (write_events (fresh n) (to_store reg events) now ob) (save_all reg fresh now (Suc n) rest)"

definition commit_scope ::
  "registry \<Rightarrow> (nat \<Rightarrow> nat \<Rightarrow> id) \<Rightarrow> time \<Rightarrow> 'e scope \<Rightarrow> 'e outbox \<Rightarrow> ((bool \<times> 'e domain_event list) list \<times> 'e outbox) result" where
  "commit_scope reg fresh now s ob =
     res_bind (save_all reg fresh now 0 (sc_before_commit s) ob) (\<lambda>ob'.
       Inr (dispatch_runs (concat (sc_after_commit s)), ob'))"

section \<open>Delivering\<close>

text \<open>What a handler does when it is called with an event: it returns, or throws what is kept of the failure.\<close>

type_synonym 'e outcome = "string \<Rightarrow> 'e domain_event \<Rightarrow> string option"

text \<open>An attempt and how it is settled; a settlement that fails is logged and changes nothing.\<close>

definition or_unchanged :: "'e outbox \<Rightarrow> 'e outbox result \<Rightarrow> 'e outbox" where
  "or_unchanged ob r = (case r of Inr ob' \<Rightarrow> ob' | Inl e \<Rightarrow> ob)"

text \<open>What is done with what the handler answered: it returned, or threw what is kept of the failure.\<close>

definition settle_attempt :: "string option \<Rightarrow> time \<Rightarrow> id \<times> nat \<Rightarrow> 'e outbox \<Rightarrow> bool \<times> 'e outbox" where
  "settle_attempt answer now delivery ob =
     (case delivery of (i, attempts) \<Rightarrow>
        case answer of
          None \<Rightarrow> (True, or_unchanged ob (mark_delivered i now ob))
        | Some error \<Rightarrow>
            (False, or_unchanged ob (res_bind (mark_failed_attempt i attempts now error ob) (\<lambda>(retry_at, ob'). Inr ob'))))"

definition attempt_delivery ::
  "'e outcome \<Rightarrow> (id \<Rightarrow> nat \<Rightarrow> time) \<Rightarrow> string \<Rightarrow> 'e domain_event \<Rightarrow> id \<times> nat \<Rightarrow> 'e outbox \<Rightarrow> bool \<times> 'e outbox" where
  "attempt_delivery outcome ends handler event delivery ob =
     settle_attempt (outcome handler event) (ends (fst delivery) (snd delivery)) delivery ob"

text \<open>Right after the commit: each handler of each event takes its own delivery first.\<close>

definition deliver_to ::
  "'e outcome \<Rightarrow> (id \<Rightarrow> nat \<Rightarrow> time) \<Rightarrow> time \<Rightarrow> 'e domain_event \<Rightarrow> string \<Rightarrow> 'e outbox \<Rightarrow> 'e outbox" where
  "deliver_to outcome ends now event handler ob =
     (case claim (de_id event) handler now ob of
        (None, ob') \<Rightarrow> ob'
      | (Some delivery, ob') \<Rightarrow> snd (attempt_delivery outcome ends handler event delivery ob'))"

definition deliver ::
  "registry \<Rightarrow> 'e outcome \<Rightarrow> (id \<Rightarrow> nat \<Rightarrow> time) \<Rightarrow> (id \<Rightarrow> string \<Rightarrow> time) \<Rightarrow> 'e domain_event list \<Rightarrow> 'e outbox \<Rightarrow> 'e outbox" where
  "deliver reg outcome ends begins events =
     fold (\<lambda>event. fold (\<lambda>handler. deliver_to outcome ends (begins (de_id event) handler) event handler)
        (handler_names reg (de_type event))) events"

text \<open>Outside a transaction the events are stored in one of their own and delivered, both in the background.\<close>

definition publish_outside ::
  "registry \<Rightarrow> (nat \<Rightarrow> id) \<Rightarrow> 'e outcome \<Rightarrow> (id \<Rightarrow> nat \<Rightarrow> time) \<Rightarrow> (id \<Rightarrow> string \<Rightarrow> time) \<Rightarrow> time \<Rightarrow>
     'e domain_event list \<Rightarrow> 'e outbox \<Rightarrow> 'e outbox result" where
  "publish_outside reg fresh outcome ends begins now events ob =
     res_bind (write_events fresh (to_store reg events) now ob) (\<lambda>ob'. Inr (deliver reg outcome ends begins events ob'))"

record delivery_run =
  dr_delivered :: nat
  dr_failed :: nat
  dr_abandoned :: nat

text \<open>One delivery the retry job took; one to a handler no longer registered fails for good.\<close>

definition run_claimed ::
  "registry \<Rightarrow> 'e outcome \<Rightarrow> (id \<Rightarrow> nat \<Rightarrow> time) \<Rightarrow> 'e claimed \<Rightarrow> nat \<times> nat \<times> 'e outbox \<Rightarrow> nat \<times> nat \<times> 'e outbox" where
  "run_claimed reg outcome ends c r =
     (case r of (delivered, failed, ob) \<Rightarrow>
        if \<not> is_registered reg (cl_handler c)
        then (delivered, failed + 1,
              or_unchanged ob (res_bind (mark_failed_attempt (cl_id c) MAX_DELIVERY_ATTEMPTS (ends (cl_id c) (cl_attempts c))
                (''Handler '' @ cl_handler c @ '' is not registered'') ob) (\<lambda>(retry_at, ob'). Inr ob')))
        else case attempt_delivery outcome ends (cl_handler c) (cl_event c) (cl_id c, cl_attempts c) ob of
               (True, ob') \<Rightarrow> (delivered + 1, failed, ob')
             | (False, ob') \<Rightarrow> (delivered, failed + 1, ob'))"

definition deliver_due ::
  "registry \<Rightarrow> 'e outcome \<Rightarrow> (id \<Rightarrow> nat \<Rightarrow> time) \<Rightarrow> time \<Rightarrow> 'e outbox \<Rightarrow> delivery_run \<times> 'e outbox" where
  "deliver_due reg outcome ends now ob =
     (let (abandoned, ob1) = fail_abandoned now ob;
          (taken, ob2) = claim_due now DELIVERY_BATCH_SIZE ob1;
          (delivered, failed, ob3) = fold (run_claimed reg outcome ends) taken (0, 0, ob2)
      in (\<lparr>dr_delivered = delivered, dr_failed = failed, dr_abandoned = abandoned\<rparr>, ob3))"

end
