(* ===== verification/Deliveries.thy ===== *)
theory Deliveries
  imports EventBus
begin

text \<open>
  The deliveries of stored events as they run: any number of instances take, handle and settle them at the same time,
  each statement in one step, while handlers take their time, throw or never finish. A run is timely when whoever took
  a delivery settles it before its lease runs out.
\<close>

record running =
  ru_id :: id
  ru_attempts :: nat
  ru_until :: time
  ru_event :: id
  ru_handler :: string
  ru_answer :: "string option option"

text \<open>
  The answer of an attempt is missing while its handler runs; then the handler returned, or threw what is kept of the
  failure. With the outbox and the attempts under way goes the record of which handlers returned for which events.
\<close>

record 'e bus =
  bu_outbox :: "'e outbox"
  bu_running :: "running list"
  bu_returned :: "(id \<times> string) list"

definition running_of :: "time \<Rightarrow> 'e claimed \<Rightarrow> running" where
  "running_of now c =
     \<lparr>ru_id = cl_id c, ru_attempts = cl_attempts c, ru_until = now + DELIVERY_LEASE_MS, ru_event = de_id (cl_event c),
      ru_handler = cl_handler c, ru_answer = None\<rparr>"

inductive bus_step :: "bool \<Rightarrow> time \<Rightarrow> 'e bus \<Rightarrow> 'e bus \<Rightarrow> bool" for timely now where
  publishing: "write_events fresh es at (bu_outbox b) = Inr ob \<Longrightarrow> (\<And>n. fresh n \<notin> ru_id ` set (bu_running b)) \<Longrightarrow>
     bus_step timely now b (b\<lparr>bu_outbox := ob\<rparr>)"
| taking: "claim event handler now (bu_outbox b) = (Some (i, n), ob) \<Longrightarrow>
     bus_step timely now b (b\<lparr>bu_outbox := ob, bu_running :=
       \<lparr>ru_id = i, ru_attempts = n, ru_until = now + DELIVERY_LEASE_MS, ru_event = event, ru_handler = handler, ru_answer = None\<rparr>
         # bu_running b\<rparr>)"
| taking_due: "claim_due now limit (bu_outbox b) = (cs, ob) \<Longrightarrow>
     bus_step timely now b (b\<lparr>bu_outbox := ob, bu_running := map (running_of now) cs @ bu_running b\<rparr>)"
| answering: "r \<in> set (bu_running b) \<Longrightarrow> ru_answer r = None \<Longrightarrow> timely \<longrightarrow> now < ru_until r \<Longrightarrow>
     bus_step timely now b (b\<lparr>bu_running := r\<lparr>ru_answer := Some answer\<rparr> # remove1 r (bu_running b),
       bu_returned := (if answer = None then (ru_event r, ru_handler r) # bu_returned b else bu_returned b)\<rparr>)"
| settling: "r \<in> set (bu_running b) \<Longrightarrow> ru_answer r = Some answer \<Longrightarrow> timely \<longrightarrow> now < ru_until r \<Longrightarrow>
     settle_attempt answer now (ru_id r, ru_attempts r) (bu_outbox b) = (told, ob) \<Longrightarrow>
     bus_step timely now b (b\<lparr>bu_outbox := ob, bu_running := remove1 r (bu_running b)\<rparr>)"
| unregistered: "r \<in> set (bu_running b) \<Longrightarrow> ru_answer r = None \<Longrightarrow> timely \<longrightarrow> now < ru_until r \<Longrightarrow>
     mark_failed_attempt (ru_id r) MAX_DELIVERY_ATTEMPTS now error (bu_outbox b) = Inr (retry_at, ob) \<Longrightarrow>
     bus_step timely now b (b\<lparr>bu_outbox := ob, bu_running := remove1 r (bu_running b)\<rparr>)"
| stopping: "r \<in> set (bu_running b) \<Longrightarrow> bus_step timely now b (b\<lparr>bu_running := remove1 r (bu_running b)\<rparr>)"
| giving_up: "fail_abandoned now (bu_outbox b) = (n, ob) \<Longrightarrow> bus_step timely now b (b\<lparr>bu_outbox := ob\<rparr>)"
| retrying: "retry_delivery i now (bu_outbox b) = Inr ob \<Longrightarrow> bus_step timely now b (b\<lparr>bu_outbox := ob\<rparr>)"
| retrying_all: "retry_all type handler now (bu_outbox b) = (n, ob) \<Longrightarrow> bus_step timely now b (b\<lparr>bu_outbox := ob\<rparr>)"
| cleaning: "clean_delivered days now (bu_outbox b) = (n, ob) \<Longrightarrow> bus_step timely now b (b\<lparr>bu_outbox := ob\<rparr>)"

definition empty_bus :: "'e bus" where
  "empty_bus = \<lparr>bu_outbox = \<lparr>ob_events = [], ob_deliveries = []\<rparr>, bu_running = [], bu_returned = []\<rparr>"

inductive bus_reached :: "bool \<Rightarrow> time \<Rightarrow> 'e bus \<Rightarrow> bool" for timely where
  start: "bus_reached timely now empty_bus"
| later: "bus_reached timely before b \<Longrightarrow> before \<le> now \<Longrightarrow> bus_step timely now b b' \<Longrightarrow> bus_reached timely now b'"

section \<open>What the tables keep\<close>

definition delivery_key :: "delivery \<Rightarrow> id \<times> id \<times> string" where
  "delivery_key d = (dv_id d, dv_event d, dv_handler d)"

definition delivery_ok :: "delivery \<Rightarrow> bool" where
  "delivery_ok d \<longleftrightarrow> dv_attempts d \<le> MAX_DELIVERY_ATTEMPTS \<and> (dv_status d = Delivered \<longrightarrow> dv_delivered_at d \<noteq> None)"

definition wf_outbox :: "'e outbox \<Rightarrow> bool" where
  "wf_outbox ob \<longleftrightarrow>
     distinct (map de_id (ob_events ob)) \<and> distinct (map dv_id (ob_deliveries ob)) \<and>
     distinct (map (\<lambda>d. (dv_event d, dv_handler d)) (ob_deliveries ob)) \<and>
     (\<forall>d\<in>set (ob_deliveries ob). dv_event d \<in> de_id ` set (ob_events ob) \<and> delivery_ok d)"

text \<open>A change of rows that keeps what identifies each.\<close>

lemma change_rows_simps [simp]:
  "ob_events (change_rows p f ob) = ob_events ob"
  "ob_deliveries (change_rows p f ob) = map (\<lambda>d. if p d then f d else d) (ob_deliveries ob)"
  by (simp_all add: change_rows_def)

lemma changed_keys:
  assumes "\<And>d. delivery_key (f d) = delivery_key d"
  shows "map dv_id (map (\<lambda>d. if p d then f d else d) ds) = map dv_id ds"
    and "map (\<lambda>d. (dv_event d, dv_handler d)) (map (\<lambda>d. if p d then f d else d) ds) = map (\<lambda>d. (dv_event d, dv_handler d)) ds"
  using assms by (auto simp: delivery_key_def)

lemma key_parts:
  assumes "delivery_key d = delivery_key e"
  shows "dv_id d = dv_id e" and "dv_event d = dv_event e" and "dv_handler d = dv_handler e"
  using assms by (simp_all add: delivery_key_def)

lemma change_rows_wf:
  assumes wf: "wf_outbox ob" and keys: "\<And>d. delivery_key (f d) = delivery_key d"
    and ok: "\<And>d. d \<in> set (ob_deliveries ob) \<Longrightarrow> p d \<Longrightarrow> delivery_ok d \<Longrightarrow> delivery_ok (f d)"
  shows "wf_outbox (change_rows p f ob)"
  using wf ok key_parts [OF keys]
  unfolding wf_outbox_def change_rows_simps changed_keys [OF keys] by auto

lemma keys_kept [simp]:
  "delivery_key (taken_at now d) = delivery_key d" "delivery_key (delivered_row now d) = delivery_key d"
  "delivery_key (failed_row t e d) = delivery_key d" "delivery_key (pending_again now d) = delivery_key d"
  "delivery_key (d\<lparr>dv_status := s, dv_locked := l, dv_error := x\<rparr>) = delivery_key d"
  by (simp_all add: delivery_key_def taken_at_def delivered_row_def failed_row_def pending_again_def split: option.split)

text \<open>Each operation of the outbox changes rows, adds them or deletes those of whole events.\<close>

lemma claim_parts:
  assumes "claim event handler now ob = (Some (i, n), ob')" and "wf_outbox ob"
  shows "\<exists>d\<in>set (ob_deliveries ob). dv_id d = i \<and> n = dv_attempts d + 1 \<and> dv_event d = event \<and> dv_handler d = handler \<and> can_take now d
    \<and> ob' = change_rows (\<lambda>d. dv_id d = i) (taken_at now) ob"
proof -
  let ?mine = "\<lambda>d. dv_event d = event \<and> dv_handler d = handler \<and> can_take now d"
  from assms(1) obtain d where found: "find ?mine (ob_deliveries ob) = Some d" and d: "i = dv_id d" "n = dv_attempts d + 1"
    and ob': "ob' = change_rows ?mine (taken_at now) ob" by (auto simp: claim_def Let_def)
  note row = find_SomeD [OF found]
  have "?mine e \<longleftrightarrow> dv_id e = i" if "e \<in> set (ob_deliveries ob)" for e
  proof
    assume "?mine e"
    then have "(dv_event e, dv_handler e) = (dv_event d, dv_handler d)" using row by simp
    moreover have "distinct (map (\<lambda>d. (dv_event d, dv_handler d)) (ob_deliveries ob))" using assms(2) by (simp add: wf_outbox_def)
    ultimately have "e = d" using same_key [of "\<lambda>d. (dv_event d, dv_handler d)"] that row by blast
    with d show "dv_id e = i" by simp
  next
    assume "dv_id e = i"
    moreover have "distinct (map dv_id (ob_deliveries ob))" using assms(2) by (simp add: wf_outbox_def)
    ultimately have "e = d" using same_key [of dv_id] that row d by blast
    with row show "?mine e" by simp
  qed
  then have "ob' = change_rows (\<lambda>d. dv_id d = i) (taken_at now) ob" by (simp add: ob' change_rows_def)
  with row d show ?thesis by auto
qed

lemma claim_due_parts:
  assumes "claim_due now limit ob = (cs, ob')" and wf: "wf_outbox ob"
  shows "ob' = change_rows (\<lambda>d. d \<in> set (due_first now limit ob)) (taken_at now) ob"
    and "c \<in> set cs \<longleftrightarrow> (\<exists>d\<in>set (due_first now limit ob). \<exists>e\<in>set (ob_events ob). de_id e = dv_event d \<and>
          c = \<lparr>cl_id = dv_id d, cl_handler = dv_handler d, cl_attempts = dv_attempts d + 1, cl_event = e\<rparr>)"
    and "distinct (map cl_id cs)"
proof -
  let ?due = "\<lambda>d. dv_id d \<in> set (map dv_id (due_first now limit ob)) \<and> dv_event d \<in> de_id ` set (ob_events ob)"
  have first: "set (due_first now limit ob) \<subseteq> set (ob_deliveries ob)"
    using set_take_subset by (fastforce simp: due_first_def)
  have ids: "distinct (map dv_id (ob_deliveries ob))" and evs: "distinct (map de_id (ob_events ob))" using wf by (simp_all add: wf_outbox_def)
  have due: "?due d \<longleftrightarrow> d \<in> set (due_first now limit ob)" if "d \<in> set (ob_deliveries ob)" for d
  proof
    assume "?due d"
    then obtain e where "e \<in> set (due_first now limit ob)" "dv_id d = dv_id e" by auto
    with same_key [OF ids that, of e] first show "d \<in> set (due_first now limit ob)" by auto
  next
    assume "d \<in> set (due_first now limit ob)"
    with wf that show "?due d" by (auto simp: wf_outbox_def)
  qed
  define taken where "taken = filter ?due (ob_deliveries ob)"
  let ?row = "\<lambda>d e. \<lparr>cl_id = dv_id d, cl_handler = dv_handler d, cl_attempts = dv_attempts d + 1, cl_event = e\<rparr>"
  let ?rows = "concat (map (\<lambda>d. map (?row d) (filter (\<lambda>e. de_id e = dv_event d) (ob_events ob))) taken)"
  have cs: "cs = sort_key (\<lambda>c. de_occurred (cl_event c)) (sort_key cl_id ?rows)"
    and ob': "ob' = change_rows ?due (taken_at now) ob"
    using assms(1) unfolding claim_due_def Let_def taken_def by simp_all
  show "ob' = change_rows (\<lambda>d. d \<in> set (due_first now limit ob)) (taken_at now) ob"
    using due by (simp add: ob' change_rows_def)
  have "taken = filter (\<lambda>d. d \<in> set (due_first now limit ob)) (ob_deliveries ob)"
    unfolding taken_def using due by (rule filter_cong [OF refl])
  then have set_taken: "set taken = set (due_first now limit ob)" using first by auto
  show "c \<in> set cs \<longleftrightarrow> (\<exists>d\<in>set (due_first now limit ob). \<exists>e\<in>set (ob_events ob). de_id e = dv_event d \<and> c = ?row d e)"
    unfolding cs set_sort set_concat set_map image_image set_taken by auto
  have one: "length (filter (\<lambda>e. de_id e = dv_event d) (ob_events ob)) = 1" if "d \<in> set (ob_deliveries ob)" for d
  proof -
    from that wf obtain e where e: "e \<in> set (ob_events ob)" "de_id e = dv_event d" by (force simp: wf_outbox_def)
    have "filter (\<lambda>y. de_id y = de_id e) (ob_events ob) = [e]" by (rule filter_key [OF evs e(1)])
    with e(2) show ?thesis by simp
  qed
  have single: "map cl_id (map (?row d) es) = [dv_id d]" if "length es = 1" for d and es :: "'a domain_event list"
    using that by (cases es) auto
  have ids_of: "map cl_id (concat (map (\<lambda>d. map (?row d) (filter (\<lambda>e. de_id e = dv_event d) (ob_events ob))) ds)) = map dv_id ds"
    if "set ds \<subseteq> set (ob_deliveries ob)" for ds
    using that
  proof (induction ds)
    case Nil
    then show ?case by simp
  next
    case (Cons d ds)
    with single [OF one [of d], of d] show ?case by simp
  qed
  have "map cl_id ?rows = map dv_id taken" by (rule ids_of) (simp add: taken_def)
  moreover have "distinct (map dv_id taken)" unfolding taken_def by (rule distinct_map_filter [OF ids])
  ultimately have "distinct (map cl_id ?rows)" by simp
  then show "distinct (map cl_id cs)" unfolding cs by (simp add: distinct_map)
qed

lemma write_parts:
  assumes "write_events fresh es now ob = Inr ob'" and wf: "wf_outbox ob"
  obtains new where "ob_deliveries ob' = ob_deliveries ob @ new" and "wf_outbox ob'" and "set (ob_events ob) \<subseteq> set (ob_events ob')"
    and "\<And>d. d \<in> set new \<Longrightarrow> dv_status d = DeliveryPending \<and> dv_attempts d = 0 \<and> dv_locked d = None \<and> (\<exists>n. dv_id d = fresh n)"
proof -
  define handled where "handled = filter (\<lambda>(e, handlers). handlers \<noteq> []) es"
  define asked where "asked = concat (map (\<lambda>(e, handlers). map (Pair (de_id e)) handlers) handled)"
  define new where "new = map (\<lambda>(n, event, handler). new_delivery (fresh n) event handler (the (next_attempt_at 0 now)))
      (zip [0..<length asked] asked)"
  show ?thesis
  proof (cases "handled = []")
    case True
    then have "ob' = ob" using assms(1) by (simp add: write_events_def Let_def handled_def)
    with that [of "[]"] wf show ?thesis by simp
  next
    case False
    with assms(1) have ob': "ob' = \<lparr>ob_events = ob_events ob @ map fst handled, ob_deliveries = ob_deliveries ob @ new\<rparr>"
      and keys: "distinct (map de_id (ob_events ob @ map fst handled))" "distinct (map dv_id (ob_deliveries ob @ new))"
        "distinct (map (\<lambda>d. (dv_event d, dv_handler d)) (ob_deliveries ob @ new))"
      unfolding write_events_def Let_def handled_def [symmetric] asked_def [symmetric] new_def [symmetric]
      by (simp_all split: if_splits)
    have row: "dv_status d = DeliveryPending \<and> dv_attempts d = 0 \<and> dv_locked d = None \<and> (\<exists>n. dv_id d = fresh n)
        \<and> dv_event d \<in> fst ` set asked" if "d \<in> set new" for d
    proof -
      from that obtain n event handler where d: "d = new_delivery (fresh n) event handler (the (next_attempt_at 0 now))"
        and "(n, event, handler) \<in> set (zip [0..<length asked] asked)" by (auto simp: new_def)
      from set_zip_rightD [OF this(2)] have "event \<in> fst ` set asked" by force
      with d show ?thesis by (auto simp: new_delivery_def)
    qed
    have "fst ` set asked \<subseteq> de_id ` set (map fst handled)" by (force simp: asked_def)
    then have events: "dv_event d \<in> de_id ` set (ob_events ob')" if "d \<in> set new" for d
    proof -
      from row [OF that] have "dv_event d \<in> fst ` set asked" by simp
      with \<open>fst ` set asked \<subseteq> _\<close> have "dv_event d \<in> de_id ` set (map fst handled)" by (rule subsetD)
      then show ?thesis by (auto simp: ob')
    qed
    have "delivery_ok d" if "d \<in> set new" for d using row [OF that] by (simp add: delivery_ok_def)
    with wf events keys have "wf_outbox ob'" by (auto simp: wf_outbox_def ob')
    with that [of new] row show ?thesis by (simp add: ob')
  qed
qed

text \<open>What the cleanup deletes are whole events, all of whose deliveries succeeded.\<close>

definition outlived :: "'e outbox \<Rightarrow> 'e outbox \<Rightarrow> bool" where
  "outlived ob ob' \<longleftrightarrow>
     (\<exists>ids. ob' = \<lparr>ob_events = filter (\<lambda>e. de_id e \<notin> ids) (ob_events ob),
                   ob_deliveries = filter (\<lambda>d. dv_event d \<notin> ids) (ob_deliveries ob)\<rparr> \<and>
        (\<forall>d\<in>set (ob_deliveries ob). dv_event d \<in> ids \<longrightarrow> dv_status d = Delivered))"

lemma outlived_refl: "outlived ob ob"
  unfolding outlived_def by (rule exI [of _ "{}"]) simp

lemma outlived_trans:
  assumes "outlived a b" and "outlived b c"
  shows "outlived a c"
proof -
  from assms(1) obtain is1 where b: "b = \<lparr>ob_events = filter (\<lambda>e. de_id e \<notin> is1) (ob_events a),
      ob_deliveries = filter (\<lambda>d. dv_event d \<notin> is1) (ob_deliveries a)\<rparr>"
    "\<forall>d\<in>set (ob_deliveries a). dv_event d \<in> is1 \<longrightarrow> dv_status d = Delivered" by (auto simp: outlived_def)
  from assms(2) obtain js where c: "c = \<lparr>ob_events = filter (\<lambda>e. de_id e \<notin> js) (ob_events b),
      ob_deliveries = filter (\<lambda>d. dv_event d \<notin> js) (ob_deliveries b)\<rparr>"
    "\<forall>d\<in>set (ob_deliveries b). dv_event d \<in> js \<longrightarrow> dv_status d = Delivered" by (auto simp: outlived_def)
  show ?thesis unfolding outlived_def
    by (rule exI [of _ "is1 \<union> js"]) (use b c in \<open>auto simp: conj_commute\<close>)
qed

lemma outlived_wf: "outlived ob ob' \<Longrightarrow> wf_outbox ob \<Longrightarrow> wf_outbox ob'"
  by (force simp: outlived_def wf_outbox_def distinct_map_filter)

lemma delete_delivered_outlived:
  assumes "delete_delivered before ob limit = (n, ob')"
  shows "outlived ob ob'"
proof -
  define gone where "gone = take limit (filter (\<lambda>e. all_delivered_before before ob (de_id e)) (ob_events ob))"
  have all: "all_delivered_before before ob (de_id e)" if "e \<in> set gone" for e
    using that by (auto simp: gone_def dest: in_set_takeD)
  have "dv_status d = Delivered" if "d \<in> set (ob_deliveries ob)" "dv_event d \<in> set (map de_id gone)" for d
  proof -
    from that(2) obtain e where "e \<in> set gone" "dv_event d = de_id e" by auto
    with all [of e] that(1) show ?thesis by (auto simp: all_delivered_before_def list_ex_iff)
  qed
  with assms show ?thesis
    unfolding outlived_def delete_delivered_def Let_def gone_def [symmetric] by (intro exI [of _ "set (map de_id gone)"]) auto
qed

lemma batches_outlived:
  "delete_in_batches (delete_delivered before) batch batches n ob = (m, ob') \<Longrightarrow> outlived ob ob'"
proof (induction batches arbitrary: n ob)
  case 0
  then show ?case by (simp add: outlived_refl)
next
  case (Suc batches)
  obtain count u where one: "delete_delivered before ob batch = (count, u)" by (cases "delete_delivered before ob batch")
  have first: "outlived ob u" by (rule delete_delivered_outlived [OF one])
  show ?case
  proof (cases "count < batch")
    case True
    with Suc.prems one first show ?thesis by simp
  next
    case False
    with Suc.prems one have "delete_in_batches (delete_delivered before) batch batches (n + count) u = (m, ob')" by simp
    from outlived_trans [OF first Suc.IH [OF this]] show ?thesis .
  qed
qed

lemma clean_outlived: "clean_delivered days now ob = (n, ob') \<Longrightarrow> outlived ob ob'"
  unfolding clean_delivered_def by (rule batches_outlived)

section \<open>Nothing is delivered that was not handled\<close>

definition delivered_told :: "delivery list \<Rightarrow> (id \<times> string) list \<Rightarrow> bool" where
  "delivered_told ds ret \<longleftrightarrow> (\<forall>d\<in>set ds. dv_status d = Delivered \<longrightarrow> (dv_event d, dv_handler d) \<in> set ret)"

definition running_told :: "running list \<Rightarrow> (id \<times> string) list \<Rightarrow> bool" where
  "running_told rs ret \<longleftrightarrow> (\<forall>r\<in>set rs. ru_answer r = Some None \<longrightarrow> (ru_event r, ru_handler r) \<in> set ret)"

definition running_match :: "running list \<Rightarrow> delivery list \<Rightarrow> bool" where
  "running_match rs ds \<longleftrightarrow> (\<forall>r\<in>set rs. \<forall>d\<in>set ds. dv_id d = ru_id r \<longrightarrow> dv_event d = ru_event r \<and> dv_handler d = ru_handler r)"

definition bus_ok :: "'e bus \<Rightarrow> bool" where
  "bus_ok b \<longleftrightarrow>
     wf_outbox (bu_outbox b) \<and> delivered_told (ob_deliveries (bu_outbox b)) (bu_returned b) \<and>
     running_told (bu_running b) (bu_returned b) \<and> running_match (bu_running b) (ob_deliveries (bu_outbox b))"

lemma delivered_told_change:
  assumes "delivered_told ds ret" and "\<And>d. delivery_key (f d) = delivery_key d"
    and "\<And>d. d \<in> set ds \<Longrightarrow> p d \<Longrightarrow> dv_status (f d) = Delivered \<Longrightarrow> dv_status d = Delivered \<or> (dv_event d, dv_handler d) \<in> set ret"
  shows "delivered_told (map (\<lambda>d. if p d then f d else d) ds) ret"
  unfolding delivered_told_def
proof (intro ballI impI)
  fix x assume "x \<in> set (map (\<lambda>d. if p d then f d else d) ds)" and x: "dv_status x = Delivered"
  then obtain d where d: "d \<in> set ds" "x = (if p d then f d else d)" by auto
  have "delivery_key x = delivery_key d" using d(2) assms(2) by simp
  moreover have "dv_status d = Delivered \<or> (dv_event d, dv_handler d) \<in> set ret"
    using d x assms(3) [OF d(1)] by (cases "p d") simp_all
  ultimately show "(dv_event x, dv_handler x) \<in> set ret"
    using assms(1) d(1) key_parts [of x d] by (auto simp: delivered_told_def)
qed

lemma running_match_change:
  assumes "running_match rs ds" and "\<And>d. delivery_key (f d) = delivery_key d"
  shows "running_match rs (map (\<lambda>d. if p d then f d else d) ds)"
  using assms(1) key_parts [OF assms(2)] by (auto simp: running_match_def)

lemma running_match_subset: "running_match rs ds \<Longrightarrow> set rs' \<subseteq> set rs \<Longrightarrow> set ds' \<subseteq> set ds \<Longrightarrow> running_match rs' ds'"
  by (auto simp: running_match_def)

lemma running_match_answer:
  assumes "running_match rs ds" and "r \<in> set rs"
  shows "running_match (r\<lparr>ru_answer := a\<rparr> # remove1 r rs) ds"
  unfolding running_match_def
proof (intro ballI impI)
  fix s d assume s: "s \<in> set (r\<lparr>ru_answer := a\<rparr> # remove1 r rs)" and d: "d \<in> set ds" "dv_id d = ru_id s"
  from s assms(2) obtain q where "q \<in> set rs" "ru_id q = ru_id s" "ru_event q = ru_event s" "ru_handler q = ru_handler s"
    using set_remove1_subset [of r rs] by (cases "s = r\<lparr>ru_answer := a\<rparr>") auto
  moreover from this assms(1) d have "dv_event d = ru_event q \<and> dv_handler d = ru_handler q"
    unfolding running_match_def by metis
  ultimately show "dv_event d = ru_event s \<and> dv_handler d = ru_handler s" by simp
qed

lemma running_told_subset: "running_told rs ret \<Longrightarrow> set rs' \<subseteq> set rs \<Longrightarrow> running_told rs' ret"
  by (auto simp: running_told_def)

lemma change_rows_ok:
  assumes ok: "bus_ok b" and keys: "\<And>d. delivery_key (f d) = delivery_key d"
    and rows: "\<And>d. d \<in> set (ob_deliveries (bu_outbox b)) \<Longrightarrow> p d \<Longrightarrow> delivery_ok d \<Longrightarrow> delivery_ok (f d)"
    and told: "\<And>d. d \<in> set (ob_deliveries (bu_outbox b)) \<Longrightarrow> p d \<Longrightarrow> dv_status (f d) = Delivered \<Longrightarrow>
        dv_status d = Delivered \<or> (dv_event d, dv_handler d) \<in> set (bu_returned b)"
    and fewer: "set rs \<subseteq> set (bu_running b)"
  shows "bus_ok (b\<lparr>bu_outbox := change_rows p f (bu_outbox b), bu_running := rs\<rparr>)"
  using ok change_rows_wf [of "bu_outbox b" f p, OF _ keys rows] delivered_told_change [OF _ keys told]
    running_match_change [OF running_match_subset [OF _ fewer subset_refl] keys] running_told_subset [OF _ fewer]
  by (simp add: bus_ok_def)

lemma change_outbox_ok:
  assumes "bus_ok b" and "\<And>d. delivery_key (f d) = delivery_key d"
    and "\<And>d. d \<in> set (ob_deliveries (bu_outbox b)) \<Longrightarrow> p d \<Longrightarrow> delivery_ok d \<Longrightarrow> delivery_ok (f d)"
    and "\<And>d. dv_status (f d) \<noteq> Delivered"
  shows "bus_ok (b\<lparr>bu_outbox := change_rows p f (bu_outbox b)\<rparr>)"
  using change_rows_ok [of b f p "bu_running b"] assms by simp

lemma remove1_subset: "set (remove1 r rs) \<subseteq> set rs"
  by (rule set_remove1_subset)

lemma add_running_ok:
  assumes ok: "bus_ok b" and new: "\<And>r. r \<in> set rs \<Longrightarrow> ru_answer r = None"
    "\<And>r d. r \<in> set rs \<Longrightarrow> d \<in> set (ob_deliveries (bu_outbox b)) \<Longrightarrow> dv_id d = ru_id r \<Longrightarrow> dv_event d = ru_event r \<and> dv_handler d = ru_handler r"
  shows "bus_ok (b\<lparr>bu_running := rs @ bu_running b\<rparr>)"
  using assms by (auto simp: bus_ok_def running_told_def running_match_def)

lemma taken_status [simp]: "dv_status (taken_at now d) = dv_status d"
  by (simp add: taken_at_def)

lemma delivered_simps [simp]: "dv_status (delivered_row now d) = Delivered" "delivery_ok d \<Longrightarrow> delivery_ok (delivered_row now d)"
  by (simp_all add: delivered_row_def delivery_ok_def)

lemma failed_simps [simp]: "delivery_ok d \<Longrightarrow> delivery_ok (failed_row t e d)" "dv_attempts (failed_row t e d) = dv_attempts d"
  by (simp_all add: failed_row_def delivery_ok_def split: option.split)

lemma failed_status: "dv_status (failed_row t e d) = (if t = None then DeliveryFailed else dv_status d)"
  by (simp add: failed_row_def split: option.split)

lemma pending_simps [simp]: "delivery_ok (pending_again now d)" "dv_status (pending_again now d) = DeliveryPending"
  by (simp_all add: pending_again_def delivery_ok_def)

lemma taken_ok: "can_take now d \<Longrightarrow> delivery_ok d \<Longrightarrow> delivery_ok (taken_at now d)"
  by (simp add: delivery_ok_def taken_at_def can_take_def)

lemma due_first_taken: "d \<in> set (due_first now limit ob) \<Longrightarrow> d \<in> set (ob_deliveries ob) \<and> can_take now d \<and> dv_next d \<le> now"
  by (auto simp: due_first_def dest: in_set_takeD)

lemma row_by_id:
  assumes "wf_outbox ob" and "d \<in> set (ob_deliveries ob)" "e \<in> set (ob_deliveries ob)" "dv_id d = dv_id e"
  shows "d = e"
  using same_key [of dv_id "ob_deliveries ob" d e] assms by (simp add: wf_outbox_def)

lemma update_parts:
  assumes "update_delivery i f ob = Inr ob'"
  shows "ob' = change_rows (\<lambda>d. dv_id d = i) f ob"
  using assms by (simp add: update_delivery_def split: if_splits)

lemma failed_parts:
  assumes "mark_failed_attempt i n now error ob = Inr (t, ob')"
  shows "t = next_attempt_at n now" and "ob' = change_rows (\<lambda>d. dv_id d = i) (failed_row (next_attempt_at n now) error) ob"
  using assms update_parts by (auto simp: mark_failed_attempt_def Let_def res_bind_eq_Inr)

text \<open>
  What an attempt does to the outbox, from the code that settles it: its row is marked delivered when the handler
  returned, and only then; failed when it threw; or nothing changes, when the database refuses.
\<close>

lemma settled_parts:
  assumes "settle_attempt answer now (i, n) ob = (told, ob')"
  shows "ob' = ob
    \<or> (answer = None \<and> ob' = change_rows (\<lambda>d. dv_id d = i) (delivered_row now) ob)
    \<or> (\<exists>error. answer = Some error \<and> ob' = change_rows (\<lambda>d. dv_id d = i) (failed_row (next_attempt_at n now) error) ob)"
proof (cases answer)
  case None
  then show ?thesis using assms update_parts
    by (auto simp: settle_attempt_def or_unchanged_def mark_delivered_def split: sum.splits)
next
  case (Some error)
  show ?thesis
  proof (cases "mark_failed_attempt i n now error ob")
    case (Inl e)
    with assms Some show ?thesis by (simp add: settle_attempt_def or_unchanged_def)
  next
    case (Inr x)
    obtain t ob1 where x: "x = (t, ob1)" by (cases x)
    with assms Some Inr have "ob' = ob1" by (simp add: settle_attempt_def or_unchanged_def)
    with failed_parts(2) [OF Inr [unfolded x]] Some show ?thesis by blast
  qed
qed

lemma bus_step_ok:
  assumes "bus_step timely now b b'" and ok: "bus_ok b"
  shows "bus_ok b'"
  using assms(1)
proof cases
  case (publishing fresh es at ob)
  from write_parts [OF publishing(2)] ok obtain new where new: "ob_deliveries ob = ob_deliveries (bu_outbox b) @ new" "wf_outbox ob"
    "\<And>d. d \<in> set new \<Longrightarrow> dv_status d = DeliveryPending \<and> (\<exists>n. dv_id d = fresh n)" by (metis bus_ok_def)
  have "running_match (bu_running b) new"
    unfolding running_match_def
  proof (intro ballI impI)
    fix r d assume r: "r \<in> set (bu_running b)" and d: "d \<in> set new" "dv_id d = ru_id r"
    from new(3) [OF d(1)] obtain n where "ru_id r = fresh n" using d(2) by auto
    with publishing(3) [of n] r show "dv_event d = ru_event r \<and> dv_handler d = ru_handler r" by (metis imageI)
  qed
  with ok new show ?thesis by (auto simp: publishing(1) bus_ok_def delivered_told_def running_match_def)
next
  case (taking event handler i n ob)
  have wf: "wf_outbox (bu_outbox b)" using ok by (simp add: bus_ok_def)
  from claim_parts [OF taking(2) wf] obtain d where d: "d \<in> set (ob_deliveries (bu_outbox b))" "dv_id d = i" "dv_event d = event"
    "dv_handler d = handler" "can_take now d" and ob: "ob = change_rows (\<lambda>d. dv_id d = i) (taken_at now) (bu_outbox b)" by blast
  have "bus_ok (b\<lparr>bu_outbox := ob, bu_running := bu_running b\<rparr>)" unfolding ob
  proof (rule change_rows_ok [OF ok])
    fix e assume e: "e \<in> set (ob_deliveries (bu_outbox b))" "dv_id e = i"
    with row_by_id [OF wf e(1) d(1)] d(2) have "e = d" by simp
    then show "delivery_ok e \<Longrightarrow> delivery_ok (taken_at now e)" using d(5) by (simp add: taken_ok)
  qed simp_all
  from add_running_ok [OF this, of "[\<lparr>ru_id = i, ru_attempts = n, ru_until = now + DELIVERY_LEASE_MS, ru_event = event, ru_handler = handler, ru_answer = None\<rparr>]"]
  have added: "bus_ok (b\<lparr>bu_outbox := ob, bu_running := bu_running b, bu_running :=
      [\<lparr>ru_id = i, ru_attempts = n, ru_until = now + DELIVERY_LEASE_MS, ru_event = event, ru_handler = handler, ru_answer = None\<rparr>]
        @ bu_running b\<rparr>)"
  proof (simp, goal_cases)
    case 1
    show ?case
    proof (rule 1)
      fix x assume x: "x \<in> set (ob_deliveries ob)" "dv_id x = i"
      then obtain f where f: "f \<in> set (ob_deliveries (bu_outbox b))" "delivery_key x = delivery_key f" by (auto simp: ob)
      have "f = d" by (rule row_by_id [OF wf f(1) d(1)]) (use key_parts(1) [OF f(2)] x(2) d(2) in simp)
      with key_parts(2,3) [OF f(2)] d(3,4) show "dv_event x = event \<and> dv_handler x = handler" by simp
    qed
  qed
  then show ?thesis by (simp add: taking(1))
next
  case (taking_due limit cs ob)
  have wf: "wf_outbox (bu_outbox b)" using ok by (simp add: bus_ok_def)
  note parts = claim_due_parts [OF taking_due(2) wf]
  have "bus_ok (b\<lparr>bu_outbox := ob, bu_running := bu_running b\<rparr>)" unfolding parts(1)
    by (rule change_rows_ok [OF ok]) (auto dest!: due_first_taken intro: taken_ok)
  from add_running_ok [OF this, of "map (running_of now) cs"]
  have "bus_ok (b\<lparr>bu_outbox := ob, bu_running := bu_running b, bu_running := map (running_of now) cs @ bu_running b\<rparr>)"
  proof (simp, goal_cases)
    case 1
    show ?case
    proof (rule 1)
      fix r assume "r \<in> running_of now ` set cs" then show "ru_answer r = None" by (auto simp: running_of_def)
    next
      fix r d assume r: "r \<in> running_of now ` set cs" and d: "d \<in> set (ob_deliveries ob)" "dv_id d = ru_id r"
      from r obtain c where c: "c \<in> set cs" "r = running_of now c" by blast
      from parts(2) c(1) obtain e v where e: "e \<in> set (due_first now limit (bu_outbox b))" "de_id v = dv_event e"
        "c = \<lparr>cl_id = dv_id e, cl_handler = dv_handler e, cl_attempts = dv_attempts e + 1, cl_event = v\<rparr>" by blast
      from d(1) obtain f where f: "f \<in> set (ob_deliveries (bu_outbox b))" "delivery_key d = delivery_key f" by (auto simp: parts(1))
      have e': "e \<in> set (ob_deliveries (bu_outbox b))" using due_first_taken [OF e(1)] by simp
      have "f = e" by (rule row_by_id [OF wf f(1) e']) (use key_parts(1) [OF f(2)] d(2) c(2) e(3) in \<open>simp add: running_of_def\<close>)
      with key_parts(2,3) [OF f(2)] c(2) e(2,3) show "dv_event d = ru_event r \<and> dv_handler d = ru_handler r"
        by (simp add: running_of_def)
    qed
  qed
  then show ?thesis by (simp add: taking_due(1))
next
  case (answering r answer)
  have "running_match (r\<lparr>ru_answer := Some answer\<rparr> # remove1 r (bu_running b)) (ob_deliveries (bu_outbox b))"
    by (rule running_match_answer [OF _ answering(2)]) (use ok in \<open>simp add: bus_ok_def\<close>)
  moreover have "running_told (remove1 r (bu_running b)) (bu_returned b)"
    using ok running_told_subset [OF _ remove1_subset] unfolding bus_ok_def by blast
  moreover have "delivered_told (ob_deliveries (bu_outbox b)) (bu_returned b)" "wf_outbox (bu_outbox b)"
    using ok by (simp_all add: bus_ok_def)
  ultimately show ?thesis
    by (cases answer) (simp_all add: answering(1) bus_ok_def delivered_told_def running_told_def)
next
  case (settling r answer told ob)
  let ?c = "\<lambda>ob. b\<lparr>bu_outbox := ob, bu_running := remove1 r (bu_running b)\<rparr>"
  from settled_parts [OF settling(5)] show ?thesis unfolding settling(1)
  proof (elim disjE conjE exE)
    assume "ob = bu_outbox b"
    then show "bus_ok (?c ob)"
      using ok running_match_subset [OF _ remove1_subset subset_refl] running_told_subset [OF _ remove1_subset]
      by (simp add: bus_ok_def)
  next
    assume answer: "answer = None" and ob: "ob = change_rows (\<lambda>d. dv_id d = ru_id r) (delivered_row now) (bu_outbox b)"
    have told: "(ru_event r, ru_handler r) \<in> set (bu_returned b)"
      using ok settling(2,3) answer by (auto simp: bus_ok_def running_told_def)
    show "bus_ok (?c ob)" unfolding ob
      by (rule change_rows_ok [OF ok _ _ _ remove1_subset])
        (use ok settling(2) told in \<open>auto simp: bus_ok_def running_match_def\<close>)
  next
    fix error assume ob: "ob = change_rows (\<lambda>d. dv_id d = ru_id r) (failed_row (next_attempt_at (ru_attempts r) now) error) (bu_outbox b)"
    show "bus_ok (?c ob)" unfolding ob
      by (rule change_rows_ok [OF ok _ _ _ remove1_subset]) (auto simp: failed_status split: if_splits)
  qed
next
  case (unregistered r error retry_at ob)
  show ?thesis unfolding unregistered(1) failed_parts(2) [OF unregistered(5)]
    by (rule change_rows_ok [OF ok _ _ _ remove1_subset]) (auto simp: failed_status split: if_splits)
next
  case (stopping r)
  then show ?thesis using ok running_match_subset [OF _ remove1_subset subset_refl] running_told_subset [OF _ remove1_subset]
    by (simp add: bus_ok_def)
next
  case (giving_up n ob)
  then have ob: "ob = change_rows (abandoned now)
      (\<lambda>d. d\<lparr>dv_status := DeliveryFailed, dv_locked := None, dv_error := Some ''The last attempt did not finish''\<rparr>) (bu_outbox b)"
    by (simp add: fail_abandoned_def)
  show ?thesis unfolding giving_up(1) ob by (rule change_outbox_ok [OF ok]) (simp_all add: delivery_ok_def)
next
  case (retrying i ob)
  then have ob: "ob = change_rows (\<lambda>d. dv_id d = i \<and> dv_status d = DeliveryFailed) (pending_again now) (bu_outbox b)"
    by (auto simp: retry_delivery_def Let_def split: if_splits option.splits)
  show ?thesis unfolding retrying(1) ob by (rule change_outbox_ok [OF ok]) simp_all
next
  case (retrying_all type handler n ob)
  then have ob: "ob = change_rows (where_of \<lparr>df_status = Some [DeliveryFailed], df_type = type, df_handler = handler\<rparr> (bu_outbox b))
      (pending_again now) (bu_outbox b)"
    by (simp add: retry_all_def Let_def)
  show ?thesis unfolding retrying_all(1) ob by (rule change_outbox_ok [OF ok]) simp_all
next
  case (cleaning days n ob)
  have out: "outlived (bu_outbox b) ob" by (rule clean_outlived [OF cleaning(2)])
  then have "set (ob_deliveries ob) \<subseteq> set (ob_deliveries (bu_outbox b))" by (auto simp: outlived_def)
  with ok outlived_wf [OF out] running_match_subset [OF _ subset_refl this] show ?thesis
    by (auto simp: cleaning(1) bus_ok_def delivered_told_def)
qed

lemma bus_reached_ok: "bus_reached timely now b \<Longrightarrow> bus_ok b"
proof (induction rule: bus_reached.induct)
  case (start now)
  then show ?case by (simp add: empty_bus_def bus_ok_def wf_outbox_def delivered_told_def running_told_def running_match_def)
next
  case (later before b now b')
  from bus_step_ok [OF later(3,4)] show ?case .
qed

end
