(* ===== verification/Timely.thy ===== *)
theory Timely
  imports Deliveries
begin

text \<open>
  Timely runs: when every attempt is settled before its lease runs out, or never, a delivery has one holder at a time,
  what is settled stays so, and none is left that nobody would ever take, fail or retry.
\<close>

definition live :: "time \<Rightarrow> running \<Rightarrow> bool" where
  "live now r \<longleftrightarrow> now < ru_until r"

definition holds_row :: "running \<Rightarrow> delivery \<Rightarrow> bool" where
  "holds_row r d \<longleftrightarrow>
     dv_id d = ru_id r \<and> dv_status d = DeliveryPending \<and> dv_attempts d = ru_attempts r \<and> dv_locked d = Some (ru_until r)"

definition held_rows :: "time \<Rightarrow> running list \<Rightarrow> delivery list \<Rightarrow> bool" where
  "held_rows now rs ds \<longleftrightarrow> (\<forall>r\<in>set rs. live now r \<longrightarrow> (\<exists>d\<in>set ds. holds_row r d))"

definition lone :: "time \<Rightarrow> running list \<Rightarrow> bool" where
  "lone now rs \<longleftrightarrow> distinct (map ru_id (filter (live now) rs))"

definition leased :: "delivery list \<Rightarrow> bool" where
  "leased ds \<longleftrightarrow> (\<forall>d\<in>set ds. dv_status d = DeliveryPending \<longrightarrow> MAX_DELIVERY_ATTEMPTS \<le> dv_attempts d \<longrightarrow> dv_locked d \<noteq> None)"

definition timely_ok :: "time \<Rightarrow> 'e bus \<Rightarrow> bool" where
  "timely_ok now b \<longleftrightarrow>
     held_rows now (bu_running b) (ob_deliveries (bu_outbox b)) \<and> lone now (bu_running b) \<and> leased (ob_deliveries (bu_outbox b))"

lemma live_later: "before \<le> now \<Longrightarrow> live now r \<Longrightarrow> live before r"
  by (simp add: live_def)

lemma lone_later: "before \<le> now \<Longrightarrow> lone before rs \<Longrightarrow> lone now rs"
proof -
  assume "before \<le> now" and "lone before rs"
  have "filter (live now) rs = filter (live now) (filter (live before) rs)"
    using live_later [OF \<open>before \<le> now\<close>] by (auto intro!: filter_cong)
  with \<open>lone before rs\<close> show ?thesis by (simp only: lone_def distinct_map_filter)
qed

lemma timely_later: "before \<le> now \<Longrightarrow> timely_ok before b \<Longrightarrow> timely_ok now b"
  using live_later lone_later by (fastforce simp: timely_ok_def held_rows_def)

lemma held_subset: "held_rows now rs ds \<Longrightarrow> set rs' \<subseteq> set rs \<Longrightarrow> held_rows now rs' ds"
  by (auto simp: held_rows_def)

lemma distinct_keys_remove1: "distinct (map f xs) \<Longrightarrow> distinct (map f (remove1 x xs))"
  by (induction xs) (use set_remove1_subset in fastforce)+

lemma lone_remove1: "lone now rs \<Longrightarrow> lone now (remove1 r rs)"
  unfolding lone_def filter_remove1 by (rule distinct_keys_remove1)

lemma lone_other:
  assumes "lone now rs" and "r \<in> set rs" "live now r" and "s \<in> set (remove1 r rs)" "live now s"
  shows "ru_id s \<noteq> ru_id r"
proof
  assume same: "ru_id s = ru_id r"
  have s: "s \<in> set rs" using assms(4) set_remove1_subset [of r rs] by (rule rev_subsetD)
  have "s = r" using same_key [of ru_id "filter (live now) rs" s r] assms s same by (simp add: lone_def)
  moreover have "distinct (filter (live now) rs)" using assms(1) by (simp add: lone_def distinct_map)
  then have "r \<notin> set (remove1 r (filter (live now) rs))" by simp
  ultimately show False using assms(4,5) by (simp add: filter_remove1 [symmetric])
qed

text \<open>A change of rows nobody holds.\<close>

lemma held_change:
  assumes "held_rows now rs ds" and "\<And>r d. r \<in> set rs \<Longrightarrow> live now r \<Longrightarrow> d \<in> set ds \<Longrightarrow> holds_row r d \<Longrightarrow> \<not> p d"
  shows "held_rows now rs (map (\<lambda>d. if p d then f d else d) ds)"
  unfolding held_rows_def
proof (intro ballI impI)
  fix r assume r: "r \<in> set rs" "live now r"
  with assms(1) obtain d where d: "d \<in> set ds" "holds_row r d" by (auto simp: held_rows_def)
  with assms(2) [OF r] have "\<not> p d" by simp
  with d(1) have "d \<in> set (map (\<lambda>d. if p d then f d else d) ds)" by force
  with d(2) show "\<exists>d\<in>set (map (\<lambda>d. if p d then f d else d) ds). holds_row r d" by blast
qed

lemma leased_change:
  assumes "leased ds" and "\<And>d. d \<in> set ds \<Longrightarrow> p d \<Longrightarrow> dv_status (f d) = DeliveryPending \<Longrightarrow>
      dv_attempts (f d) < MAX_DELIVERY_ATTEMPTS \<or> dv_locked (f d) \<noteq> None"
  shows "leased (map (\<lambda>d. if p d then f d else d) ds)"
  using assms by (fastforce simp: leased_def)

lemma holder_not_taken: "live now r \<Longrightarrow> holds_row r d \<Longrightarrow> \<not> unheld now d"
  by (simp add: live_def holds_row_def unheld_def)

lemma taken_held:
  assumes "can_take now d"
  shows "holds_row \<lparr>ru_id = dv_id d, ru_attempts = dv_attempts d + 1, ru_until = now + DELIVERY_LEASE_MS, ru_event = e,
      ru_handler = h, ru_answer = x\<rparr> (taken_at now d)"
  using assms by (simp add: holds_row_def taken_at_def can_take_def)

lemma lease_live: "live now r \<longleftrightarrow> now < ru_until r"
  by (simp add: live_def)

section \<open>Every step of a timely run keeps it so\<close>

lemma live_running: "live now \<lparr>ru_id = i, ru_attempts = n, ru_until = now + DELIVERY_LEASE_MS, ru_event = e, ru_handler = h, ru_answer = x\<rparr>"
  by (simp add: live_def DELIVERY_LEASE_MS_def)

lemma timely_change:
  assumes ok: "timely_ok now b" and fewer: "set rs \<subseteq> set (bu_running b)" and lone: "lone now rs"
    and free: "\<And>r d. r \<in> set rs \<Longrightarrow> live now r \<Longrightarrow> d \<in> set (ob_deliveries (bu_outbox b)) \<Longrightarrow> holds_row r d \<Longrightarrow> \<not> p d"
    and settled: "\<And>d. d \<in> set (ob_deliveries (bu_outbox b)) \<Longrightarrow> p d \<Longrightarrow> dv_status (f d) = DeliveryPending \<Longrightarrow>
      dv_attempts (f d) < MAX_DELIVERY_ATTEMPTS \<or> dv_locked (f d) \<noteq> None"
  shows "timely_ok now (b\<lparr>bu_outbox := change_rows p f (bu_outbox b), bu_running := rs\<rparr>)"
  using ok lone held_change [OF held_subset [OF _ fewer] free] leased_change [OF _ settled]
  by (simp add: timely_ok_def)

lemma timely_change_all:
  assumes "timely_ok now b"
    and "\<And>r d. r \<in> set (bu_running b) \<Longrightarrow> live now r \<Longrightarrow> d \<in> set (ob_deliveries (bu_outbox b)) \<Longrightarrow> holds_row r d \<Longrightarrow> \<not> p d"
    and "\<And>d. d \<in> set (ob_deliveries (bu_outbox b)) \<Longrightarrow> p d \<Longrightarrow> dv_status (f d) = DeliveryPending \<Longrightarrow>
      dv_attempts (f d) < MAX_DELIVERY_ATTEMPTS \<or> dv_locked (f d) \<noteq> None"
  shows "timely_ok now (b\<lparr>bu_outbox := change_rows p f (bu_outbox b)\<rparr>)"
  using timely_change [of now b "bu_running b" p f] assms by (simp add: timely_ok_def)

lemma taken_fields [simp]: "dv_locked (taken_at now d) = Some (now + DELIVERY_LEASE_MS)" "dv_id (taken_at now d) = dv_id d"
  by (simp_all add: taken_at_def)

text \<open>Taking adds holders of rows nobody held.\<close>

lemma timely_take:
  assumes ok: "timely_ok now b" and wf: "wf_outbox (bu_outbox b)"
    and rows: "\<And>d. d \<in> set (ob_deliveries (bu_outbox b)) \<Longrightarrow> p d \<Longrightarrow> can_take now d"
    and new: "\<And>r. r \<in> set rs \<Longrightarrow> \<exists>d\<in>set (ob_deliveries (bu_outbox b)). p d \<and> ru_id r = dv_id d \<and> holds_row r (taken_at now d)"
    and ids: "distinct (map ru_id rs)"
  shows "timely_ok now (b\<lparr>bu_outbox := change_rows p (taken_at now) (bu_outbox b), bu_running := rs @ bu_running b\<rparr>)"
proof -
  let ?ds = "map (\<lambda>d. if p d then taken_at now d else d) (ob_deliveries (bu_outbox b))"
  have free: "\<not> p d" if "r \<in> set (bu_running b)" "live now r" "d \<in> set (ob_deliveries (bu_outbox b))" "holds_row r d" for r d
    using holder_not_taken [OF that(2,4)] rows [OF that(3)] by (auto simp: can_take_def)
  have base: "timely_ok now (b\<lparr>bu_outbox := change_rows p (taken_at now) (bu_outbox b)\<rparr>)"
    by (rule timely_change_all [OF ok free]) simp_all
  have "\<exists>d\<in>set ?ds. holds_row r d" if r: "r \<in> set rs" for r
  proof -
    from new [OF r] obtain d where "d \<in> set (ob_deliveries (bu_outbox b))" "p d" "holds_row r (taken_at now d)" by blast
    then show ?thesis by (intro bexI [of _ "taken_at now d"]) force+
  qed
  with base have held: "held_rows now (rs @ bu_running b) ?ds" by (auto simp: timely_ok_def held_rows_def)
  have "ru_id r \<noteq> ru_id s" if r: "r \<in> set rs" and s: "s \<in> set (bu_running b)" "live now s" for r s
  proof
    assume same: "ru_id r = ru_id s"
    from new [OF r] obtain d where d: "d \<in> set (ob_deliveries (bu_outbox b))" "p d" "ru_id r = dv_id d" by blast
    from ok s obtain e where e: "e \<in> set (ob_deliveries (bu_outbox b))" "holds_row s e" by (auto simp: timely_ok_def held_rows_def)
    have "e = d" by (rule row_by_id [OF wf e(1) d(1)]) (use e(2) d(3) same in \<open>simp add: holds_row_def\<close>)
    with free [OF s e] d(2) show False by simp
  qed
  then have "ru_id ` set (filter (live now) rs) \<inter> ru_id ` set (filter (live now) (bu_running b)) = {}" by fastforce
  moreover have "lone now (bu_running b)" using ok by (simp add: timely_ok_def)
  ultimately have "lone now (rs @ bu_running b)" using distinct_map_filter [OF ids, of "live now"] by (simp add: lone_def)
  with held base show ?thesis by (simp add: timely_ok_def)
qed

lemma lone_replace:
  assumes "lone now rs" and "r \<in> set rs" and "ru_id s = ru_id r" and "ru_until s = ru_until r"
  shows "lone now (s # remove1 r rs)"
proof (cases "live now r")
  case False
  then have "\<not> live now s" using assms(4) by (simp add: live_def)
  with lone_remove1 [OF assms(1)] show ?thesis by (simp add: lone_def)
next
  case True
  then have "live now s" using assms(4) by (simp add: live_def)
  moreover have "ru_id s \<notin> ru_id ` set (filter (live now) (remove1 r rs))"
  proof
    assume "ru_id s \<in> ru_id ` set (filter (live now) (remove1 r rs))"
    then obtain t where "t \<in> set (remove1 r rs)" "live now t" "ru_id s = ru_id t" by auto
    with lone_other [OF assms(1,2) True] assms(3) show False by simp
  qed
  ultimately show ?thesis using lone_remove1 [OF assms(1)] by (simp add: lone_def)
qed

lemma pending_fields [simp]: "dv_attempts (pending_again now d) = 0"
  by (simp add: pending_again_def)

lemma positive_limit: "0 < MAX_DELIVERY_ATTEMPTS"
  by (simp add: MAX_DELIVERY_ATTEMPTS_def)

text \<open>Whoever holds a row settles it: nobody else holds it.\<close>

lemma timely_settled:
  assumes timely: "timely_ok now b" and r: "r \<in> set (bu_running b)" "live now r"
    and "\<And>d. d \<in> set (ob_deliveries (bu_outbox b)) \<Longrightarrow> dv_id d = ru_id r \<Longrightarrow> dv_status (f d) = DeliveryPending \<Longrightarrow>
      dv_attempts (f d) < MAX_DELIVERY_ATTEMPTS \<or> dv_locked (f d) \<noteq> None"
  shows "timely_ok now (b\<lparr>bu_outbox := change_rows (\<lambda>d. dv_id d = ru_id r) f (bu_outbox b),
      bu_running := remove1 r (bu_running b)\<rparr>)"
proof -
  have alone: "lone now (bu_running b)" using timely by (simp add: timely_ok_def)
  show ?thesis
  proof (rule timely_change [OF timely remove1_subset lone_remove1 [OF alone]])
    show "dv_id d \<noteq> ru_id r" if "s \<in> set (remove1 r (bu_running b))" "live now s" "holds_row s d" for s d
      using lone_other [OF alone r that(1,2)] that(3) by (simp add: holds_row_def)
  qed (rule assms(4))
qed

lemma timely_failed:
  assumes timely: "timely_ok now b" and ok: "bus_ok b" and r: "r \<in> set (bu_running b)" "live now r"
    and n: "n = ru_attempts r \<or> n = MAX_DELIVERY_ATTEMPTS"
  shows "timely_ok now (b\<lparr>bu_outbox := change_rows (\<lambda>d. dv_id d = ru_id r) (failed_row (next_attempt_at n now) error) (bu_outbox b),
      bu_running := remove1 r (bu_running b)\<rparr>)"
proof (rule timely_settled [OF timely r])
  from timely r obtain e where e: "e \<in> set (ob_deliveries (bu_outbox b))" "holds_row r e"
    by (auto simp: timely_ok_def held_rows_def)
  fix d assume d: "d \<in> set (ob_deliveries (bu_outbox b))" "dv_id d = ru_id r"
    and pending: "dv_status (failed_row (next_attempt_at n now) error d) = DeliveryPending"
  have "d = e" by (rule row_by_id [OF _ d(1) e(1)]) (use ok e(2) d(2) in \<open>simp_all add: bus_ok_def holds_row_def\<close>)
  moreover have "n < MAX_DELIVERY_ATTEMPTS" using pending
    by (auto simp: failed_status next_attempt_at_def split: if_splits)
  ultimately show "dv_attempts (failed_row (next_attempt_at n now) error d) < MAX_DELIVERY_ATTEMPTS
      \<or> dv_locked (failed_row (next_attempt_at n now) error d) \<noteq> None"
    using n e(2) by (simp add: holds_row_def)
qed

lemma bus_step_timely:
  assumes "bus_step True now b b'" and ok: "bus_ok b" and timely: "timely_ok now b"
  shows "timely_ok now b'"
  using assms(1)
proof cases
  case (publishing fresh es at ob)
  from write_parts [OF publishing(2)] ok obtain new where new: "ob_deliveries ob = ob_deliveries (bu_outbox b) @ new"
    "\<And>d. d \<in> set new \<Longrightarrow> dv_attempts d = 0" by (metis bus_ok_def)
  have "held_rows now (bu_running b) (ob_deliveries ob)"
    using timely unfolding timely_ok_def held_rows_def new(1) by fastforce
  moreover have "leased (ob_deliveries ob)"
    using timely new positive_limit by (auto simp: timely_ok_def leased_def)
  ultimately show ?thesis using timely by (simp add: publishing(1) timely_ok_def)
next
  case (taking event handler i n ob)
  have wf: "wf_outbox (bu_outbox b)" using ok by (simp add: bus_ok_def)
  from claim_parts [OF taking(2) wf] obtain d where d: "d \<in> set (ob_deliveries (bu_outbox b))" "dv_id d = i" "n = dv_attempts d + 1"
    "can_take now d" and ob: "ob = change_rows (\<lambda>d. dv_id d = i) (taken_at now) (bu_outbox b)" by blast
  have only: "e = d" if "e \<in> set (ob_deliveries (bu_outbox b))" "dv_id e = i" for e
    by (rule row_by_id [OF wf that(1) d(1)]) (simp add: that(2) d(2))
  let ?r = "\<lparr>ru_id = i, ru_attempts = n, ru_until = now + DELIVERY_LEASE_MS, ru_event = event, ru_handler = handler, ru_answer = None\<rparr>"
  have "timely_ok now (b\<lparr>bu_outbox := change_rows (\<lambda>d. dv_id d = i) (taken_at now) (bu_outbox b), bu_running := [?r] @ bu_running b\<rparr>)"
  proof (rule timely_take [OF timely wf])
    show "can_take now e" if "e \<in> set (ob_deliveries (bu_outbox b))" "dv_id e = i" for e using only [OF that] d(4) by simp
    show "\<exists>e\<in>set (ob_deliveries (bu_outbox b)). dv_id e = i \<and> ru_id r = dv_id e \<and> holds_row r (taken_at now e)"
      if "r \<in> set [?r]" for r
      using that d taken_held [OF d(4)] by (intro bexI [of _ d]) simp_all
  qed simp
  then show ?thesis by (simp add: taking(1) ob)
next
  case (taking_due limit cs ob)
  have wf: "wf_outbox (bu_outbox b)" using ok by (simp add: bus_ok_def)
  note parts = claim_due_parts [OF taking_due(2) wf]
  show ?thesis unfolding taking_due(1) parts(1)
  proof (rule timely_take [OF timely wf])
    show "can_take now d" if "d \<in> set (due_first now limit (bu_outbox b))" for d using due_first_taken [OF that] by simp
    show "distinct (map ru_id (map (running_of now) cs))" using parts(3) by (simp add: comp_def running_of_def)
    fix r assume "r \<in> set (map (running_of now) cs)"
    then obtain c where c: "c \<in> set cs" "r = running_of now c" by auto
    from parts(2) c(1) obtain d e where d: "d \<in> set (due_first now limit (bu_outbox b))"
      "c = \<lparr>cl_id = dv_id d, cl_handler = dv_handler d, cl_attempts = dv_attempts d + 1, cl_event = e\<rparr>" by blast
    from due_first_taken [OF d(1)] have "d \<in> set (ob_deliveries (bu_outbox b))" "can_take now d" by simp_all
    with taken_held [OF this(2)] c(2) d show "\<exists>d\<in>set (ob_deliveries (bu_outbox b)). d \<in> set (due_first now limit (bu_outbox b))
        \<and> ru_id r = dv_id d \<and> holds_row r (taken_at now d)"
      by (intro bexI [of _ d]) (simp_all add: running_of_def)
  qed
next
  case (answering r answer)
  have "held_rows now (r\<lparr>ru_answer := Some answer\<rparr> # remove1 r (bu_running b)) (ob_deliveries (bu_outbox b))"
  proof -
    have held: "held_rows now (bu_running b) (ob_deliveries (bu_outbox b))" using timely by (simp add: timely_ok_def)
    have "holds_row (r\<lparr>ru_answer := Some answer\<rparr>) d = holds_row r d" "live now (r\<lparr>ru_answer := Some answer\<rparr>) = live now r" for d
      by (simp_all add: holds_row_def live_def)
    with held held_subset [OF held remove1_subset, of r] answering(2) show ?thesis by (simp add: held_rows_def)
  qed
  moreover have "lone now (r\<lparr>ru_answer := Some answer\<rparr> # remove1 r (bu_running b))"
    by (rule lone_replace) (use timely answering(2) in \<open>simp_all add: timely_ok_def\<close>)
  ultimately show ?thesis using timely by (simp add: answering(1) timely_ok_def)
next
  case (settling r answer told ob)
  have r: "live now r" using settling(4) by (simp add: live_def)
  from settled_parts [OF settling(5)] show ?thesis unfolding settling(1)
  proof (elim disjE conjE exE)
    assume "ob = bu_outbox b"
    then show "timely_ok now (b\<lparr>bu_outbox := ob, bu_running := remove1 r (bu_running b)\<rparr>)"
      using timely held_subset [OF _ remove1_subset] lone_remove1 by (auto simp: timely_ok_def)
  next
    assume ob: "ob = change_rows (\<lambda>d. dv_id d = ru_id r) (delivered_row now) (bu_outbox b)"
    show "timely_ok now (b\<lparr>bu_outbox := ob, bu_running := remove1 r (bu_running b)\<rparr>)"
      unfolding ob by (rule timely_settled [OF timely settling(2) r]) simp
  next
    fix error assume ob: "ob = change_rows (\<lambda>d. dv_id d = ru_id r) (failed_row (next_attempt_at (ru_attempts r) now) error) (bu_outbox b)"
    show "timely_ok now (b\<lparr>bu_outbox := ob, bu_running := remove1 r (bu_running b)\<rparr>)"
      unfolding ob by (rule timely_failed [OF timely ok settling(2) r]) simp
  qed
next
  case (unregistered r error retry_at ob)
  have r: "live now r" using unregistered(4) by (simp add: live_def)
  show ?thesis unfolding unregistered(1) failed_parts(2) [OF unregistered(5)]
    by (rule timely_failed [OF timely ok unregistered(2) r]) simp
next
  case (stopping r)
  then show ?thesis using timely held_subset [OF _ remove1_subset] lone_remove1 by (auto simp: timely_ok_def)
next
  case (giving_up n ob)
  then have ob: "ob = change_rows (abandoned now)
      (\<lambda>d. d\<lparr>dv_status := DeliveryFailed, dv_locked := None, dv_error := Some ''The last attempt did not finish''\<rparr>) (bu_outbox b)"
    by (simp add: fail_abandoned_def)
  show ?thesis unfolding giving_up(1) ob
    by (rule timely_change_all [OF timely]) (auto simp: abandoned_def holds_row_def live_def)
next
  case (retrying i ob)
  then have ob: "ob = change_rows (\<lambda>d. dv_id d = i \<and> dv_status d = DeliveryFailed) (pending_again now) (bu_outbox b)"
    by (auto simp: retry_delivery_def Let_def split: if_splits option.splits)
  show ?thesis unfolding retrying(1) ob
    by (rule timely_change_all [OF timely]) (auto simp: holds_row_def positive_limit)
next
  case (retrying_all type handler n ob)
  then have ob: "ob = change_rows (where_of \<lparr>df_status = Some [DeliveryFailed], df_type = type, df_handler = handler\<rparr> (bu_outbox b))
      (pending_again now) (bu_outbox b)"
    by (simp add: retry_all_def Let_def)
  show ?thesis unfolding retrying_all(1) ob
    by (rule timely_change_all [OF timely]) (auto simp: holds_row_def positive_limit where_of_def)
next
  case (cleaning days n ob)
  have out: "outlived (bu_outbox b) ob" by (rule clean_outlived [OF cleaning(2)])
  then obtain ids where ob: "ob_deliveries ob = filter (\<lambda>d. dv_event d \<notin> ids) (ob_deliveries (bu_outbox b))"
    and gone: "\<forall>d\<in>set (ob_deliveries (bu_outbox b)). dv_event d \<in> ids \<longrightarrow> dv_status d = Delivered" by (auto simp: outlived_def)
  have "holds_row r d \<Longrightarrow> d \<in> set (ob_deliveries (bu_outbox b)) \<Longrightarrow> d \<in> set (ob_deliveries ob)" for r d
    using gone by (auto simp: ob holds_row_def)
  then have "held_rows now (bu_running b) (ob_deliveries ob)" using timely unfolding timely_ok_def held_rows_def by blast
  moreover have "leased (ob_deliveries ob)" using timely by (auto simp: timely_ok_def leased_def ob)
  ultimately show ?thesis using timely by (simp add: cleaning(1) timely_ok_def)
qed

lemma bus_reached_timely: "bus_reached True now b \<Longrightarrow> timely_ok now b"
proof (induction now b rule: bus_reached.induct)
  case (start now)
  then show ?case by (simp add: empty_bus_def timely_ok_def held_rows_def lone_def leased_def)
next
  case (later before b now b')
  from bus_step_timely [OF later(3) bus_reached_ok [OF later(1)] timely_later [OF later(2,4)]] show ?case .
qed

end
