(* ===== verification/EventRuns.thy ===== *)
theory EventRuns
  imports Timely
begin

text \<open>
  What a transaction publishes, undone steps left out, and how the outbox grows by it; and the functions of the
  dispatcher as runs of the steps of \<open>Deliveries\<close>.
\<close>

section \<open>Publishing in a transaction\<close>

text \<open>The events published in what was not undone, each publish with its kind.\<close>

fun kept_publishes :: "'e work \<Rightarrow> ('e domain_event list \<times> bool) list" where
  "kept_publishes (Publishes es) = [(es, True)]"
| "kept_publishes (PublishesVolatile es) = [(es, False)]"
| "kept_publishes (Nests ends_well ws) = (if ends_well then concat (map kept_publishes ws) else [])"

definition tagged :: "('e domain_event list \<times> bool) list \<Rightarrow> ('e domain_event \<times> bool) list list" where
  "tagged ps = map (\<lambda>(es, k). map (\<lambda>e. (e, k)) es) ps"

definition extended :: "('e domain_event list \<times> bool) list \<Rightarrow> 'e scope \<Rightarrow> 'e scope" where
  "extended ps s =
     \<lparr>sc_before_commit = sc_before_commit s @ map fst (filter snd ps), sc_after_commit = sc_after_commit s @ tagged ps\<rparr>"

lemma extended_nil [simp]: "extended [] s = s"
  by (simp add: extended_def tagged_def)

lemma extended_append: "extended qs (extended ps s) = extended (ps @ qs) s"
  by (simp add: extended_def tagged_def)

lemma extended_back: "discard_since (scope_mark s) (extended ps s) = s"
  by (simp add: extended_def discard_since_def scope_mark_def)

lemma run_work_extends: "run_work w s = extended (kept_publishes w) s"
proof (induction w arbitrary: s)
  case (Nests ends_well ws)
  have "fold run_work vs s = extended (concat (map kept_publishes vs)) s" if "set vs \<subseteq> set ws" for vs s
    using that
  proof (induction vs arbitrary: s)
    case Nil
    then show ?case by simp
  next
    case (Cons v vs)
    then have "run_work v s = extended (kept_publishes v) s" using Nests.IH by simp
    with Cons show ?case by (simp add: extended_append)
  qed
  then show ?case by (simp add: Let_def extended_back)
qed (simp_all add: extended_def tagged_def publish_in_def publish_volatile_in_def)

lemma run_works_extend: "fold run_work ws s = extended (concat (map kept_publishes ws)) s"
  by (induction ws arbitrary: s) (simp_all add: run_work_extends extended_append)

definition untag :: "(bool \<times> 'e domain_event list) list \<Rightarrow> ('e domain_event \<times> bool) list" where
  "untag runs = concat (map (\<lambda>(k, es). map (\<lambda>e. (e, k)) es) runs)"

lemma take_run: "map (\<lambda>e. (e, k)) (map fst (takeWhile (\<lambda>(f, l). l = k) batch)) = takeWhile (\<lambda>(f, l). l = k) batch"
  by (induction batch) auto

lemma dispatch_runs_order: "untag (dispatch_runs batch) = batch"
proof (induction batch rule: dispatch_runs.induct)
  case 1
  then show ?case by (simp add: untag_def)
next
  case (2 e k batch)
  then show ?case using take_run [of k batch] by (simp add: untag_def)
qed

definition asked_of :: "registry \<Rightarrow> 'e domain_event list \<Rightarrow> (id \<times> string) list" where
  "asked_of reg es = concat (map (\<lambda>e. map (Pair (de_id e)) (handler_names reg (de_type e))) es)"

definition handled_of :: "registry \<Rightarrow> 'e domain_event list \<Rightarrow> 'e domain_event list" where
  "handled_of reg es = filter (\<lambda>e. handler_names reg (de_type e) \<noteq> []) es"

lemma asked_handled:
  "concat (map (\<lambda>(e, handlers). map (Pair (de_id e)) handlers) (filter (\<lambda>(e, handlers). handlers \<noteq> []) (to_store reg es))) = asked_of reg es"
  by (induction es) (auto simp: to_store_def asked_of_def)

lemma stored_handled: "map fst (filter (\<lambda>(e, handlers). handlers \<noteq> []) (to_store reg es)) = handled_of reg es"
  by (induction es) (auto simp: to_store_def handled_of_def)

lemma zip_rows:
  "map (\<lambda>d. (dv_event d, dv_handler d)) (map (\<lambda>(n, event, handler). new_delivery (fresh n) event handler t) (zip ns asked)) =
     map snd (zip ns asked)"
  by (induction ns asked rule: list_induct2') (auto simp: new_delivery_def)

lemma write_stores:
  assumes "write_events fresh (to_store reg es) now ob = Inr ob'"
  shows "ob_events ob' = ob_events ob @ handled_of reg es"
    and "map (\<lambda>d. (dv_event d, dv_handler d)) (ob_deliveries ob') = map (\<lambda>d. (dv_event d, dv_handler d)) (ob_deliveries ob) @ asked_of reg es"
proof -
  let ?handled = "filter (\<lambda>(e, handlers). handlers \<noteq> []) (to_store reg es)"
  have parts: "ob_events ob' = ob_events ob @ map fst ?handled \<and>
      map (\<lambda>d. (dv_event d, dv_handler d)) (ob_deliveries ob') = map (\<lambda>d. (dv_event d, dv_handler d)) (ob_deliveries ob) @
        concat (map (\<lambda>(e, handlers). map (Pair (de_id e)) handlers) ?handled)"
  proof (cases "?handled = []")
    case True
    with assms show ?thesis by (simp add: write_events_def Let_def)
  next
    case False
    define asked where "asked = concat (map (\<lambda>(e, handlers). map (Pair (de_id e)) handlers) ?handled)"
    define rows where "rows = map (\<lambda>(n, event, handler). new_delivery (fresh n) event handler (the (next_attempt_at 0 now)))
        (zip [0..<length asked] asked)"
    from assms False have "ob' = \<lparr>ob_events = ob_events ob @ map fst ?handled, ob_deliveries = ob_deliveries ob @ rows\<rparr>"
      unfolding write_events_def Let_def asked_def [symmetric] rows_def [symmetric] by (auto split: if_splits)
    moreover have "map (\<lambda>d. (dv_event d, dv_handler d)) rows = asked" unfolding rows_def zip_rows by simp
    ultimately show ?thesis by (simp add: asked_def)
  qed
  then show "ob_events ob' = ob_events ob @ handled_of reg es"
    "map (\<lambda>d. (dv_event d, dv_handler d)) (ob_deliveries ob') = map (\<lambda>d. (dv_event d, dv_handler d)) (ob_deliveries ob) @ asked_of reg es"
    by (simp_all only: asked_handled stored_handled)
qed

lemma save_all_stores:
  assumes "save_all reg fresh now n ess ob = Inr ob'"
  shows "ob_events ob' = ob_events ob @ handled_of reg (concat ess) \<and>
    map (\<lambda>d. (dv_event d, dv_handler d)) (ob_deliveries ob') =
      map (\<lambda>d. (dv_event d, dv_handler d)) (ob_deliveries ob) @ asked_of reg (concat ess)"
  using assms
proof (induction ess arbitrary: n ob)
  case Nil
  then show ?case by (simp add: handled_of_def asked_of_def)
next
  case (Cons es ess)
  from Cons.prems obtain ob1 where one: "write_events (fresh n) (to_store reg es) now ob = Inr ob1"
    and rest: "save_all reg fresh now (Suc n) ess ob1 = Inr ob'" by (auto simp: res_bind_eq_Inr)
  from Cons.IH [OF rest] write_stores [OF one] show ?case by (simp add: handled_of_def asked_of_def)
qed

section \<open>The dispatcher runs these steps\<close>

definition bus_runs :: "'e bus \<Rightarrow> 'e bus \<Rightarrow> bool" where
  "bus_runs = rtranclp (\<lambda>b b'. \<exists>now. bus_step False now b b')"

lemma one_run: "bus_step False now b b' \<Longrightarrow> bus_runs b b'"
  unfolding bus_runs_def by blast

lemma runs_trans: "bus_runs a b \<Longrightarrow> bus_runs b c \<Longrightarrow> bus_runs a c"
  unfolding bus_runs_def by (rule rtranclp_trans)

lemma no_run: "bus_runs b b"
  by (simp add: bus_runs_def)

lemma settled_bus: "b\<lparr>bu_outbox := ob, bu_running := rs\<rparr> = \<lparr>bu_outbox = ob, bu_running = rs, bu_returned = bu_returned b\<rparr>"
  by simp

text \<open>A handler answers and its attempt is settled: what was running besides it stays.\<close>

lemma attempt_runs:
  assumes r: "ru_id r = i" "ru_answer r = None" "ru_attempts r = n"
    and step: "attempt_delivery outcome ends handler event (i, n) ob = (told, ob')"
  shows "\<exists>ret'. bus_runs \<lparr>bu_outbox = ob, bu_running = r # rs, bu_returned = ret\<rparr> \<lparr>bu_outbox = ob', bu_running = rs, bu_returned = ret'\<rparr>"
proof -
  let ?answer = "outcome handler event"
  let ?b = "\<lparr>bu_outbox = ob, bu_running = r # rs, bu_returned = ret\<rparr>"
  let ?ret = "if ?answer = None then (ru_event r, ru_handler r) # ret else ret"
  let ?c = "\<lparr>bu_outbox = ob, bu_running = r\<lparr>ru_answer := Some ?answer\<rparr> # rs, bu_returned = ?ret\<rparr>"
  have "bus_step False 0 ?b ?c" 
    using bus_step.answering [of r ?b False 0 ?answer] r by (cases ?answer) simp_all
  moreover have "settle_attempt ?answer (ends i n) (ru_id (r\<lparr>ru_answer := Some ?answer\<rparr>), ru_attempts (r\<lparr>ru_answer := Some ?answer\<rparr>))
      (bu_outbox ?c) = (told, ob')"
    using step r by (simp add: attempt_delivery_def)
  then have "bus_step False (ends i n) ?c \<lparr>bu_outbox = ob', bu_running = rs, bu_returned = ?ret\<rparr>"
    using bus_step.settling [of "r\<lparr>ru_answer := Some ?answer\<rparr>" ?c ?answer False "ends i n" told ob'] by simp
  ultimately have "bus_runs ?b \<lparr>bu_outbox = ob', bu_running = rs, bu_returned = ?ret\<rparr>" using one_run runs_trans by blast
  then show ?thesis by blast
qed

lemma claimed_runs:
  assumes "run_claimed reg outcome ends c (d, f, ob) = (d', f', ob')"
  shows "\<exists>ret'. bus_runs \<lparr>bu_outbox = ob, bu_running = running_of now c # rs, bu_returned = ret\<rparr>
      \<lparr>bu_outbox = ob', bu_running = rs, bu_returned = ret'\<rparr>"
proof (cases "is_registered reg (cl_handler c)")
  case True
  obtain answer ob1 where one: "attempt_delivery outcome ends (cl_handler c) (cl_event c) (cl_id c, cl_attempts c) ob = (answer, ob1)"
    by (cases "attempt_delivery outcome ends (cl_handler c) (cl_event c) (cl_id c, cl_attempts c) ob")
  with assms True have "ob' = ob1" by (cases answer) (simp_all add: run_claimed_def)
  with attempt_runs [OF _ _ _ one, of "running_of now c" rs ret] show ?thesis by (simp add: running_of_def)
next
  case False
  let ?b = "\<lparr>bu_outbox = ob, bu_running = running_of now c # rs, bu_returned = ret\<rparr>"
  let ?t = "ends (cl_id c) (cl_attempts c)" and ?e = "''Handler '' @ cl_handler c @ '' is not registered''"
  have r: "ru_id (running_of now c) = cl_id c" "ru_answer (running_of now c) = None" by (simp_all add: running_of_def)
  have "\<exists>t. bus_step False t ?b \<lparr>bu_outbox = ob', bu_running = rs, bu_returned = ret\<rparr>"
  proof (cases "mark_failed_attempt (cl_id c) MAX_DELIVERY_ATTEMPTS ?t ?e ob")
    case (Inr x)
    obtain t ob1 where x: "x = (t, ob1)" by (cases x)
    with assms False Inr have "ob' = ob1" by (simp add: run_claimed_def or_unchanged_def)
    with Inr x r bus_step.unregistered [of "running_of now c" ?b False ?t ?e t ob1]
    show ?thesis by (intro exI [of _ ?t]) simp
  next
    case (Inl e)
    with assms False have "ob' = ob" by (simp add: run_claimed_def or_unchanged_def)
    with bus_step.stopping [of "running_of now c" ?b False 0] show ?thesis by (intro exI [of _ 0]) simp
  qed
  then show ?thesis using one_run by blast
qed

lemma claimed_fold_runs:
  assumes "fold (run_claimed reg outcome ends) cs (d, f, ob) = (d', f', ob')"
  shows "\<exists>ret'. bus_runs \<lparr>bu_outbox = ob, bu_running = map (running_of now) cs @ rs, bu_returned = ret\<rparr>
      \<lparr>bu_outbox = ob', bu_running = rs, bu_returned = ret'\<rparr>"
  using assms
proof (induction cs arbitrary: d f ob ret)
  case Nil
  then show ?case using no_run by auto
next
  case (Cons c cs)
  obtain d1 f1 ob1 where one: "run_claimed reg outcome ends c (d, f, ob) = (d1, f1, ob1)"
    by (cases "run_claimed reg outcome ends c (d, f, ob)") auto
  from claimed_runs [OF one, of now "map (running_of now) cs @ rs" ret] obtain ret1 where
    first: "bus_runs \<lparr>bu_outbox = ob, bu_running = map (running_of now) (c # cs) @ rs, bu_returned = ret\<rparr>
      \<lparr>bu_outbox = ob1, bu_running = map (running_of now) cs @ rs, bu_returned = ret1\<rparr>" by auto
  from Cons.prems one have "fold (run_claimed reg outcome ends) cs (d1, f1, ob1) = (d', f', ob')" by simp
  from Cons.IH [OF this, of ret1] runs_trans [OF first] show ?case by blast
qed

lemma deliver_due_runs:
  assumes "deliver_due reg outcome ends now ob = (rn, ob')"
  shows "\<exists>ret'. bus_runs \<lparr>bu_outbox = ob, bu_running = rs, bu_returned = ret\<rparr> \<lparr>bu_outbox = ob', bu_running = rs, bu_returned = ret'\<rparr>"
proof -
  obtain n ob1 where one: "fail_abandoned now ob = (n, ob1)" by (cases "fail_abandoned now ob")
  obtain cs ob2 where two: "claim_due now DELIVERY_BATCH_SIZE ob1 = (cs, ob2)" by (cases "claim_due now DELIVERY_BATCH_SIZE ob1")
  obtain d f ob3 where three: "fold (run_claimed reg outcome ends) cs (0, 0, ob2) = (d, f, ob3)"
    by (cases "fold (run_claimed reg outcome ends) cs (0, 0, ob2)") auto
  from assms one two three have ob': "ob' = ob3" by (simp add: deliver_due_def)
  have "bus_runs \<lparr>bu_outbox = ob, bu_running = rs, bu_returned = ret\<rparr> \<lparr>bu_outbox = ob1, bu_running = rs, bu_returned = ret\<rparr>"
    using one_run [OF bus_step.giving_up [of now "\<lparr>bu_outbox = ob, bu_running = rs, bu_returned = ret\<rparr>" n ob1 False]] one by simp
  moreover have "bus_runs \<lparr>bu_outbox = ob1, bu_running = rs, bu_returned = ret\<rparr>
      \<lparr>bu_outbox = ob2, bu_running = map (running_of now) cs @ rs, bu_returned = ret\<rparr>"
    using one_run [OF bus_step.taking_due [of now DELIVERY_BATCH_SIZE "\<lparr>bu_outbox = ob1, bu_running = rs, bu_returned = ret\<rparr>" cs ob2 False]] two
    by simp
  ultimately show ?thesis using claimed_fold_runs [OF three, of now rs ret] runs_trans unfolding ob' by blast
qed

lemma deliver_to_runs:
  "\<exists>ret'. bus_runs \<lparr>bu_outbox = ob, bu_running = rs, bu_returned = ret\<rparr>
      \<lparr>bu_outbox = deliver_to outcome ends now event handler ob, bu_running = rs, bu_returned = ret'\<rparr>"
proof (cases "claim (de_id event) handler now ob")
  case (Pair taken ob1)
  show ?thesis
  proof (cases taken)
    case None
    from Pair None have none: "\<And>d. d \<in> set (ob_deliveries ob) \<Longrightarrow> \<not> (dv_event d = de_id event \<and> dv_handler d = handler \<and> can_take now d)"
      by (auto simp: claim_def Let_def find_None_iff)
    from Pair have "ob1 = change_rows (\<lambda>d. dv_event d = de_id event \<and> dv_handler d = handler \<and> can_take now d) (taken_at now) ob"
      by (auto simp: claim_def Let_def)
    also have "\<dots> = ob"
    proof -
      have "map (\<lambda>d. if dv_event d = de_id event \<and> dv_handler d = handler \<and> can_take now d then taken_at now d else d) (ob_deliveries ob)
          = ob_deliveries ob" by (rule map_idI) (use none in auto)
      then show ?thesis by (simp add: change_rows_def)
    qed
    finally show ?thesis using Pair None no_run by (auto simp: deliver_to_def)
  next
    case (Some x)
    obtain i n where x: "x = (i, n)" by (cases x)
    let ?r = "\<lparr>ru_id = i, ru_attempts = n, ru_until = now + DELIVERY_LEASE_MS, ru_event = de_id event, ru_handler = handler, ru_answer = None\<rparr>"
    have "bus_runs \<lparr>bu_outbox = ob, bu_running = rs, bu_returned = ret\<rparr> \<lparr>bu_outbox = ob1, bu_running = ?r # rs, bu_returned = ret\<rparr>"
      using one_run [OF bus_step.taking [of "de_id event" handler now "\<lparr>bu_outbox = ob, bu_running = rs, bu_returned = ret\<rparr>" i n ob1 False]]
        Pair Some x by simp
    moreover obtain answer ob2 where "attempt_delivery outcome ends handler event (i, n) ob1 = (answer, ob2)"
      by (cases "attempt_delivery outcome ends handler event (i, n) ob1")
    moreover from this Pair Some x have "deliver_to outcome ends now event handler ob = ob2" by (simp add: deliver_to_def)
    ultimately show ?thesis using attempt_runs [of ?r i n outcome ends handler event ob1 answer ob2 rs ret] runs_trans by auto
  qed
qed

lemma handlers_run:
  "\<exists>ret'. bus_runs \<lparr>bu_outbox = ob, bu_running = rs, bu_returned = ret\<rparr>
      \<lparr>bu_outbox = fold (\<lambda>h. deliver_to outcome ends (begins (de_id event) h) event h) hs ob, bu_running = rs, bu_returned = ret'\<rparr>"
proof (induction hs arbitrary: ob ret)
  case Nil
  then show ?case using no_run by auto
next
  case (Cons h hs)
  from deliver_to_runs [of ob rs ret outcome ends "begins (de_id event) h" event h] obtain ret1 where
    "bus_runs \<lparr>bu_outbox = ob, bu_running = rs, bu_returned = ret\<rparr>
      \<lparr>bu_outbox = deliver_to outcome ends (begins (de_id event) h) event h ob, bu_running = rs, bu_returned = ret1\<rparr>" by blast
  from Cons.IH [of "deliver_to outcome ends (begins (de_id event) h) event h ob" ret1] runs_trans [OF this] show ?case by simp blast
qed

lemma deliver_runs:
  "\<exists>ret'. bus_runs \<lparr>bu_outbox = ob, bu_running = rs, bu_returned = ret\<rparr>
      \<lparr>bu_outbox = deliver reg outcome ends begins events ob, bu_running = rs, bu_returned = ret'\<rparr>"
proof (induction events arbitrary: ob ret)
  case Nil
  then show ?case using no_run by (auto simp: deliver_def)
next
  case (Cons e es)
  let ?one = "fold (\<lambda>h. deliver_to outcome ends (begins (de_id e) h) e h) (handler_names reg (de_type e)) ob"
  from handlers_run [of ob rs ret outcome ends begins e "handler_names reg (de_type e)"] obtain ret1 where
    "bus_runs \<lparr>bu_outbox = ob, bu_running = rs, bu_returned = ret\<rparr> \<lparr>bu_outbox = ?one, bu_running = rs, bu_returned = ret1\<rparr>" by blast
  from Cons.IH [of ?one ret1] runs_trans [OF this] show ?case by (simp add: deliver_def) blast
qed

end
