(* ===== verification/EventGuarantees.thy ===== *)
theory EventGuarantees
  imports EventRuns
begin

text \<open>
  What can be relied on of domain events: a transaction stores exactly the events of what it did not undo, a delivery
  is marked delivered only after its handler returned, in a timely run one holder at a time runs it and none is left
  behind; and what a run that is not timely can leave behind.
\<close>

lemma max_attempts: "MAX_DELIVERY_ATTEMPTS = 8"
  by (simp add: MAX_DELIVERY_ATTEMPTS_def RETRY_DELAY_MINUTES_def)

section \<open>A small bus\<close>

definition order_told :: "nat domain_event" where
  "order_told = \<lparr>de_id = 5, de_type = ''OrderPaid'', de_occurred = 0, de_content = 40\<rparr>"

definition small_registry :: registry where
  "small_registry = [(''OrderPaid'', ''Emails.send'')]"

definition stored_bus :: "nat bus" where
  "stored_bus = (case write_events (\<lambda>n. 30) (to_store small_registry [order_told]) 0 (bu_outbox empty_bus) of
     Inr ob \<Rightarrow> empty_bus\<lparr>bu_outbox := ob\<rparr> | Inl e \<Rightarrow> empty_bus)"

text \<open>The retry job takes it at each instant of the list, and no attempt is settled.\<close>

fun overrun :: "time list \<Rightarrow> nat bus" where
  "overrun [] = stored_bus"
| "overrun (t # ts) =
     (let b = overrun ts; (cs, ob) = claim_due t 100 (bu_outbox b)
      in b\<lparr>bu_outbox := ob, bu_running := map (running_of t) cs @ bu_running b\<rparr>)"

lemma stored_reached: "bus_reached timely 0 stored_bus"
proof -
  have "returned (\<lambda>ob. True) (write_events (\<lambda>n. 30) (to_store small_registry [order_told]) 0 (bu_outbox empty_bus))"
    by code_simp
  from returnedD [OF this] obtain ob where ob: "write_events (\<lambda>n. 30) (to_store small_registry [order_told]) 0 (bu_outbox empty_bus) = Inr ob" by blast
  have "bus_step timely 0 empty_bus (empty_bus\<lparr>bu_outbox := ob\<rparr>)"
    by (rule bus_step.publishing [OF ob]) (simp add: empty_bus_def)
  from bus_reached.later [OF bus_reached.start order_refl this] ob show ?thesis by (simp add: stored_bus_def)
qed

lemma overrun_step: "bus_step timely t (overrun ts) (overrun (t # ts))"
  using bus_step.taking_due [of t 100 "overrun ts"] by (simp add: split_beta' Let_def)

declare overrun.simps [simp del]

lemma overrun_reached: "sorted (rev ts) \<Longrightarrow> list_all (\<lambda>t. 0 \<le> t) ts \<Longrightarrow> bus_reached timely (if ts = [] then 0 else hd ts) (overrun ts)"
proof (induction ts)
  case Nil
  then show ?case using stored_reached by (simp add: overrun.simps)
next
  case (Cons t ts)
  then have "bus_reached timely (if ts = [] then 0 else hd ts) (overrun ts)" by (simp add: sorted_append)
  moreover have "(if ts = [] then 0 else hd ts) \<le> t" using Cons.prems by (cases ts) (auto simp: sorted_append)
  ultimately show ?case using bus_reached.later overrun_step by fastforce
qed

section \<open>The guarantees\<close>

text \<open>
  C37. A transaction stores, in publish order, exactly the events published in what it did not undo that have handlers,
  each with one pending delivery for each of its handlers; and after the commit all of those events go out in that
  order, those of undone steps never.
\<close>

theorem committed_events_are_stored:
  assumes "commit_scope reg fresh now (fold run_work ws empty_scope) ob = Inr (runs, ob')"
  shows "ob_events ob' = ob_events ob @ handled_of reg (concat (map fst (filter snd (concat (map kept_publishes ws)))))
    \<and> map (\<lambda>d. (dv_event d, dv_handler d)) (ob_deliveries ob') = map (\<lambda>d. (dv_event d, dv_handler d)) (ob_deliveries ob)
        @ asked_of reg (concat (map fst (filter snd (concat (map kept_publishes ws)))))
    \<and> untag runs = concat (tagged (concat (map kept_publishes ws)))"
proof -
  let ?s = "extended (concat (map kept_publishes ws)) empty_scope"
  from assms have saved: "save_all reg fresh now 0 (sc_before_commit ?s) ob = Inr ob'"
    and runs: "runs = dispatch_runs (concat (sc_after_commit ?s))"
    by (auto simp: commit_scope_def run_works_extend res_bind_eq_Inr)
  have "sc_before_commit ?s = map fst (filter snd (concat (map kept_publishes ws)))"
    "sc_after_commit ?s = tagged (concat (map kept_publishes ws))"
    by (simp_all add: extended_def empty_scope_def)
  with save_all_stores [OF saved] runs dispatch_runs_order show ?thesis by simp
qed

theorem committed_events_are_stored_witness:
  "\<exists>runs ob'. commit_scope small_registry (\<lambda>n m. 30 + n) 0
      (fold run_work [Publishes [order_told], Nests False [Publishes [order_told\<lparr>de_id := 6\<rparr>]]] empty_scope)
      (bu_outbox empty_bus) = Inr (runs, ob')
    \<and> map de_id (ob_events ob') = [5] \<and> untag runs = [(order_told, True)]"
proof -
  let ?ws = "[Publishes [order_told], Nests False [Publishes [order_told\<lparr>de_id := 6\<rparr>]]]"
  have "returned (\<lambda>r. True) (commit_scope small_registry (\<lambda>n m. 30 + n) 0 (fold run_work ?ws empty_scope) (bu_outbox empty_bus))"
    by code_simp
  from returnedD [OF this] obtain runs ob' where
    run: "commit_scope small_registry (\<lambda>n m. 30 + n) 0 (fold run_work ?ws empty_scope) (bu_outbox empty_bus) = Inr (runs, ob')" by auto
  have "map de_id (handled_of small_registry [order_told]) = [5]" by code_simp
  with committed_events_are_stored [OF run] run show ?thesis by (simp add: tagged_def empty_bus_def order_told_def)
qed

text \<open>
  C14. However many instances take, handle and settle deliveries, and whatever stops or comes late, no delivery is
  attempted more than 8 times before the staff retries it, and none is marked delivered unless its handler returned for
  its event.
\<close>

theorem delivered_only_when_handled:
  assumes "bus_reached timely now b" and "d \<in> set (ob_deliveries (bu_outbox b))"
  shows "dv_attempts d \<le> 8 \<and> (dv_status d = Delivered \<longrightarrow> (dv_event d, dv_handler d) \<in> set (bu_returned b))"
  using bus_reached_ok [OF assms(1)] assms(2)
  by (simp add: bus_ok_def wf_outbox_def delivery_ok_def delivered_told_def max_attempts)

text \<open>Its handler returned at the second instant, and the attempt was settled at the third.\<close>

lemma handled_once:
  "\<exists>(b :: nat bus) d. bus_reached True 60002 b \<and> d \<in> set (ob_deliveries (bu_outbox b)) \<and> dv_status d = Delivered"
proof -
  let ?r = "\<lparr>ru_id = 30, ru_attempts = 1, ru_until = 360000, ru_event = 5, ru_handler = ''Emails.send'', ru_answer = None\<rparr>"
  let ?q = "?r\<lparr>ru_answer := Some None\<rparr>"
  have reached: "bus_reached True 60000 (overrun [60000])" using overrun_reached [of "[60000]" True] by simp
  have running: "bu_running (overrun [60000]) = [?r]" by code_simp
  let ?told = "(overrun [60000])\<lparr>bu_running := [?q], bu_returned := (5, ''Emails.send'') # bu_returned (overrun [60000])\<rparr>"
  have "bus_step True 60001 (overrun [60000]) ?told"
    using bus_step.answering [of ?r "overrun [60000]" True 60001 None] running by simp
  from bus_reached.later [OF reached _ this] have told: "bus_reached True 60001 ?told" by simp
  obtain answered ob where ob: "settle_attempt None 60002 (30, 1) (bu_outbox (overrun [60000])) = (answered, ob)"
    by (cases "settle_attempt None 60002 (30, 1) (bu_outbox (overrun [60000]))")
  have "list_ex (\<lambda>d. dv_status d = Delivered) (ob_deliveries (snd (settle_attempt None 60002 (30, 1) (bu_outbox (overrun [60000])))))"
    by code_simp
  then have "list_ex (\<lambda>d. dv_status d = Delivered) (ob_deliveries ob)" unfolding ob by simp
  then obtain d where d: "d \<in> set (ob_deliveries ob)" "dv_status d = Delivered" by (auto simp: list_ex_iff)
  have "bus_step True 60002 ?told (?told\<lparr>bu_outbox := ob, bu_running := remove1 ?q [?q]\<rparr>)"
    using bus_step.settling [of ?q ?told None True 60002 answered ob] ob by simp
  from bus_reached.later [OF told _ this] d show ?thesis by (intro exI [of _ "?told\<lparr>bu_outbox := ob, bu_running := remove1 ?q [?q]\<rparr>"]) auto
qed

theorem delivered_only_when_handled_witness:
  "\<exists>(b :: nat bus) d. bus_reached True 60002 b \<and> d \<in> set (ob_deliveries (bu_outbox b)) \<and> dv_status d = Delivered
    \<and> (dv_event d, dv_handler d) \<in> set (bu_returned b) \<and> dv_attempts d \<le> 8"
proof -
  obtain b :: "nat bus" and d where b: "bus_reached True 60002 b" "d \<in> set (ob_deliveries (bu_outbox b))" "dv_status d = Delivered"
    using handled_once by blast
  from delivered_only_when_handled [OF b(1,2)] b show ?thesis by blast
qed

text \<open>
  C15. In a timely run whoever holds a delivery holds it alone until its lease runs out: it is still pending at the
  attempt that was taken, nobody can take it, and no other attempt of it is under way.
\<close>

theorem one_holder_at_a_time:
  assumes "bus_reached True now b" and "r \<in> set (bu_running b)" and "now < ru_until r"
  shows "\<exists>d\<in>set (ob_deliveries (bu_outbox b)). dv_id d = ru_id r \<and> dv_status d = DeliveryPending \<and> dv_attempts d = ru_attempts r
    \<and> \<not> can_take now d \<and> list_all (\<lambda>s. now < ru_until s \<longrightarrow> ru_id s \<noteq> ru_id r) (remove1 r (bu_running b))"
proof -
  have ok: "timely_ok now b" by (rule bus_reached_timely [OF assms(1)])
  have r: "live now r" using assms(3) by (simp add: live_def)
  from ok assms(2) r obtain d where d: "d \<in> set (ob_deliveries (bu_outbox b))" "holds_row r d"
    by (auto simp: timely_ok_def held_rows_def)
  have "list_all (\<lambda>s. now < ru_until s \<longrightarrow> ru_id s \<noteq> ru_id r) (remove1 r (bu_running b))"
    using lone_other [OF _ assms(2) r] ok by (auto simp: list_all_iff timely_ok_def live_def)
  with d holder_not_taken [OF r d(2)] show ?thesis by (intro bexI [of _ d]) (simp_all add: holds_row_def can_take_def)
qed

theorem one_holder_at_a_time_witness:
  "list_all (\<lambda>d. dv_attempts d = 1 \<and> \<not> can_take 60000 d) (ob_deliveries (bu_outbox (overrun [60000])))"
proof -
  have reached: "bus_reached True 60000 (overrun [60000])" using overrun_reached [of "[60000]" True] by simp
  let ?r = "\<lparr>ru_id = 30, ru_attempts = 1, ru_until = 360000, ru_event = 5, ru_handler = ''Emails.send'', ru_answer = None\<rparr>"
  have running: "bu_running (overrun [60000]) = [?r]" by code_simp
  have one: "length (ob_deliveries (bu_outbox (overrun [60000]))) = 1" by code_simp
  from one_holder_at_a_time [OF reached, of ?r] running obtain d where
    "d \<in> set (ob_deliveries (bu_outbox (overrun [60000])))" "dv_attempts d = 1" "\<not> can_take 60000 d" by auto
  with one show ?thesis by (cases "ob_deliveries (bu_outbox (overrun [60000]))") auto
qed
















text \<open>
  Delivering right after a commit and each run of the retry job are made of the steps above: they leave the outbox
  as a sequence of them does, with what others have under way untouched.
\<close>

lemma dispatcher_takes_these_steps:
  "(\<exists>ret'. bus_runs \<lparr>bu_outbox = ob, bu_running = rs, bu_returned = ret\<rparr>
      \<lparr>bu_outbox = deliver reg outcome ends begins events ob, bu_running = rs, bu_returned = ret'\<rparr>)
   \<and> (\<exists>ret'. bus_runs \<lparr>bu_outbox = ob, bu_running = rs, bu_returned = ret\<rparr>
      \<lparr>bu_outbox = snd (deliver_due reg outcome ends now ob), bu_running = rs, bu_returned = ret'\<rparr>)"
proof
  show "\<exists>ret'. bus_runs \<lparr>bu_outbox = ob, bu_running = rs, bu_returned = ret\<rparr>
      \<lparr>bu_outbox = deliver reg outcome ends begins events ob, bu_running = rs, bu_returned = ret'\<rparr>" by (rule deliver_runs)
  obtain rn ob' where "deliver_due reg outcome ends now ob = (rn, ob')" by (cases "deliver_due reg outcome ends now ob")
  from deliver_due_runs [OF this, of rs ret] this show "\<exists>ret'. bus_runs \<lparr>bu_outbox = ob, bu_running = rs, bu_returned = ret\<rparr>
      \<lparr>bu_outbox = snd (deliver_due reg outcome ends now ob), bu_running = rs, bu_returned = ret'\<rparr>" by simp
qed

section \<open>A run that is not timely\<close>

text \<open>
  An attempt that fails after its lease ran out gives up the lease of whoever took the delivery since. When that one
  was the last attempt and never ends, the delivery stays pending for ever: with no attempts left nobody takes it,
  without a lease nobody fails it, and the staff can only retry a failed one.
\<close>

lemma overrun_strands_a_delivery:
  "\<exists>(b :: nat bus) d. bus_reached False 2500000 b \<and> d \<in> set (ob_deliveries (bu_outbox b)) \<and> dv_status d = DeliveryPending
    \<and> (\<forall>t. \<not> can_take t d \<and> \<not> abandoned t d)"
proof -
  let ?ts = "[2160000, 1860000, 1560000, 1260000, 960000, 660000, 360000, 60000]"
  let ?r = "\<lparr>ru_id = 30, ru_attempts = 1, ru_until = 360000, ru_event = 5, ru_handler = ''Emails.send'', ru_answer = None\<rparr>"
  have reached: "bus_reached False 2160000 (overrun ?ts)" using overrun_reached [of ?ts False] by simp
  have "list_ex (\<lambda>r. r = ?r) (bu_running (overrun ?ts))" by code_simp
  then have running: "?r \<in> set (bu_running (overrun ?ts))" by (auto simp: list_ex_iff)
  have "returned (\<lambda>(t, ob). list_ex (\<lambda>d. dv_status d = DeliveryPending \<and> dv_attempts d = 8 \<and> dv_locked d = None) (ob_deliveries ob))
      (mark_failed_attempt (ru_id ?r) 1 2500000 ''late'' (bu_outbox (overrun ?ts)))" by code_simp
  from returnedD [OF this] obtain t ob where
    failed: "mark_failed_attempt (ru_id ?r) 1 2500000 ''late'' (bu_outbox (overrun ?ts)) = Inr (t, ob)"
    and ex: "list_ex (\<lambda>d. dv_status d = DeliveryPending \<and> dv_attempts d = 8 \<and> dv_locked d = None) (ob_deliveries ob)" by auto
  from ex obtain d where d: "d \<in> set (ob_deliveries ob)" "dv_status d = DeliveryPending" "dv_attempts d = 8" "dv_locked d = None"
    by (auto simp: list_ex_iff)
  let ?q = "?r\<lparr>ru_answer := Some (Some ''late'')\<rparr>"
  let ?told = "(overrun ?ts)\<lparr>bu_running := ?q # remove1 ?r (bu_running (overrun ?ts)), bu_returned := bu_returned (overrun ?ts)\<rparr>"
  let ?late = "?told\<lparr>bu_outbox := ob, bu_running := remove1 ?q (bu_running ?told)\<rparr>"
  have "bus_step False 2500000 (overrun ?ts) ?told"
    using bus_step.answering [OF running, of False 2500000 "Some ''late''"] by simp
  from bus_reached.later [OF reached _ this] have told: "bus_reached False 2500000 ?told" by simp
  have "settle_attempt (Some ''late'') 2500000 (ru_id ?q, ru_attempts ?q) (bu_outbox ?told) = (False, ob)"
    using failed by (simp add: settle_attempt_def or_unchanged_def)
  from bus_step.settling [OF _ _ _ this, of False] have "bus_step False 2500000 ?told ?late" by simp
  from bus_reached.later [OF told order_refl this] have late: "bus_reached False 2500000 ?late" .
  have "\<forall>t. \<not> can_take t d \<and> \<not> abandoned t d" using d(3,4) by (simp add: can_take_def abandoned_def max_attempts)
  moreover have "d \<in> set (ob_deliveries (bu_outbox ?late))" using d(1) by simp
  ultimately show ?thesis using late d(2) by blast
qed

end
