(* ===== verification/Roles.thy ===== *)
theory Roles
  imports Errors
begin

text \<open>
  The permissions of the staff (\<open>shared-kernel/permissions.ts\<close>) and the roles that hold them
  (\<open>identity-access/domain/role.ts\<close>). A role is edited in the database, but holds codes of the catalog only, and
  none of those reserved to the superadmin role, which has every permission without listing any.
\<close>

section \<open>The catalog of permissions\<close>

definition PERMISSION_CODES :: "string list" where
  "PERMISSION_CODES =
    [''catalog.read'', ''catalog.write'', ''pricing.read'', ''pricing.write'', ''inventory.read'',
     ''inventory.write'', ''orders.read'', ''orders.manage'', ''orders.read-blocked'', ''orders.place'',
     ''work-orders.read'', ''work-orders.manage'', ''work-orders.read-blocked'', ''promotions.read'',
     ''promotions.manage'', ''payments.manage'', ''payments.configure'', ''shipping.manage'',
     ''shipping.configure'', ''customers.read'', ''customers.manage'', ''staff.manage'', ''audit.read'',
     ''events.manage'']"

definition is_permission_code :: "string \<Rightarrow> bool" where
  "is_permission_code code = (code \<in> set PERMISSION_CODES)"

definition SUPERADMIN_ONLY_PERMISSIONS :: "string list" where
  "SUPERADMIN_ONLY_PERMISSIONS = [''payments.configure'']"

definition is_superadmin_only :: "string \<Rightarrow> bool" where
  "is_superadmin_only code = (code \<in> set SUPERADMIN_ONLY_PERMISSIONS)"

section \<open>A role\<close>

definition MAX_NAME_LENGTH :: nat where
  "MAX_NAME_LENGTH = 50"

record role =
  ro_id :: id
  ro_name :: string
  ro_description :: "string option"
  ro_superadmin :: bool
  ro_permissions :: "string list"
  ro_version :: int

definition valid_role_name :: "string \<Rightarrow> string result" where
  "valid_role_name name =
     (let trimmed = js_trim name
      in if trimmed = [] \<or> length trimmed > MAX_NAME_LENGTH
         then Inl (InvalidValueError ''A role name has 1 to 50 characters'') else Inr trimmed)"

text \<open>Unknown codes are told apart from the reserved ones, which only the superadmin role holds.\<close>

definition valid_permissions :: "string list \<Rightarrow> string list result" where
  "valid_permissions permissions =
     (if filter (\<lambda>code. \<not> is_permission_code code) permissions \<noteq> []
      then Inl (InvalidValueError (''Unknown permissions: ''
             @ js_join '', '' (filter (\<lambda>code. \<not> is_permission_code code) permissions)))
      else
        (let codes = new_set permissions; reserved = filter is_superadmin_only codes
         in if reserved \<noteq> [] then Inl (IdentityError (SuperadminOnlyPermissionError reserved)) else Inr codes))"

definition role_create :: "id \<Rightarrow> string \<Rightarrow> string option \<Rightarrow> string list \<Rightarrow> role result" where
  "role_create i name description permissions =
     res_bind (valid_role_name name) (\<lambda>n.
       res_bind (valid_permissions permissions) (\<lambda>ps.
         Inr \<lparr>ro_id = i, ro_name = n, ro_description = description, ro_superadmin = False,
           ro_permissions = ps, ro_version = 1\<rparr>))"

definition effective_permissions :: "role \<Rightarrow> string list" where
  "effective_permissions r = (if ro_superadmin r then PERMISSION_CODES else ro_permissions r)"

definition role_rename :: "string \<Rightarrow> role \<Rightarrow> role result" where
  "role_rename name r = res_bind (valid_role_name name) (\<lambda>n. Inr (r\<lparr>ro_name := n\<rparr>))"

definition role_describe :: "string option \<Rightarrow> role \<Rightarrow> role" where
  "role_describe description r = r\<lparr>ro_description := description\<rparr>"

definition role_replace_permissions :: "string list \<Rightarrow> role \<Rightarrow> role result" where
  "role_replace_permissions permissions r =
     (if ro_superadmin r then Inl (IdentityError SuperadminPermissionsFixedError)
      else res_bind (valid_permissions permissions) (\<lambda>ps. Inr (r\<lparr>ro_permissions := ps\<rparr>)))"

section \<open>What a role keeps\<close>

definition wf_role :: "role \<Rightarrow> bool" where
  "wf_role r \<longleftrightarrow>
     js_trim (ro_name r) = ro_name r \<and> ro_name r \<noteq> [] \<and> length (ro_name r) \<le> MAX_NAME_LENGTH
     \<and> distinct (ro_permissions r) \<and> list_all is_permission_code (ro_permissions r)
     \<and> \<not> list_ex is_superadmin_only (ro_permissions r) \<and> (ro_superadmin r \<longrightarrow> ro_permissions r = [])"

lemma valid_role_nameD:
  "valid_role_name name = Inr n \<Longrightarrow> js_trim n = n \<and> n \<noteq> [] \<and> length n \<le> MAX_NAME_LENGTH"
  by (auto simp: valid_role_name_def Let_def split: if_splits)

lemma valid_permissionsD:
  assumes "valid_permissions ps = Inr qs"
  shows "qs = new_set ps" and "distinct qs" and "list_all is_permission_code qs"
    and "\<not> list_ex is_superadmin_only qs"
  using assms
  by (auto simp: valid_permissions_def Let_def filter_empty_conv list_all_iff list_ex_iff split: if_splits)

lemma role_create_wf:
  "role_create i name description ps = Inr r \<Longrightarrow>
     wf_role r \<and> ro_id r = i \<and> \<not> ro_superadmin r \<and> ro_version r = 1"
  by (auto simp: role_create_def wf_role_def res_simps dest: valid_role_nameD valid_permissionsD)

lemma role_rename_wf:
  "role_rename name r = Inr r' \<Longrightarrow> wf_role r \<Longrightarrow>
     wf_role r' \<and> r' = r\<lparr>ro_name := ro_name r'\<rparr>"
  by (auto simp: role_rename_def wf_role_def res_simps dest: valid_role_nameD)

lemma role_describe_wf [simp]: "wf_role (role_describe d r) = wf_role r"
  by (simp add: role_describe_def wf_role_def)

lemma role_replace_permissions_wf:
  "role_replace_permissions ps r = Inr r' \<Longrightarrow> wf_role r \<Longrightarrow>
     wf_role r' \<and> \<not> ro_superadmin r \<and> r' = r\<lparr>ro_permissions := ro_permissions r'\<rparr>"
  by (auto simp: role_replace_permissions_def wf_role_def res_simps dest: valid_permissionsD split: if_splits)

text \<open>Only the superadmin role reaches a reserved permission.\<close>

lemma reserved_is_superadmin:
  "wf_role r \<Longrightarrow> code \<in> set (effective_permissions r) \<Longrightarrow> is_superadmin_only code \<Longrightarrow> ro_superadmin r"
  by (auto simp: effective_permissions_def wf_role_def list_ex_iff split: if_splits)

lemma effective_permissions_codes:
  "wf_role r \<Longrightarrow> set (effective_permissions r) \<subseteq> set PERMISSION_CODES"
  by (auto simp: effective_permissions_def wf_role_def list_all_iff is_permission_code_def)

end
