(* ===== verification/Users.thy ===== *)
theory Users
  imports Roles
begin

text \<open>
  The account of a customer or of a staff member (\<open>identity-access/domain/user.ts\<close>). The state of the class is
  a record; each operation returns it changed or throws. The time of the last sign-in is only ever written by the
  repository.
\<close>

datatype user_type = CUSTOMER | STAFF

datatype user_status = ACTIVE | SUSPENDED | ANONYMIZED

fun user_status_name :: "user_status \<Rightarrow> string" where
  "user_status_name ACTIVE = ''ACTIVE''"
| "user_status_name SUSPENDED = ''SUSPENDED''"
| "user_status_name ANONYMIZED = ''ANONYMIZED''"

definition normalize_email :: "string \<Rightarrow> string" where
  "normalize_email email = js_lower (js_trim email)"

record user =
  us_id :: id
  us_type :: user_type
  us_status :: user_status
  us_email :: "string option"
  us_first_names :: "string option"
  us_last_names :: "string option"
  us_email_verified_at :: "time option"
  us_password_hash :: "string option"
  us_password_changed_at :: "time option"
  us_must_change_password :: bool
  us_last_login_at :: "time option"
  us_suspended_at :: "time option"
  us_anonymized_at :: "time option"
  us_privacy_notice :: "string option"
  us_created_at :: time
  us_roles :: "id list"
  us_version :: int

definition can_sign_in :: "'a user_scheme \<Rightarrow> bool" where
  "can_sign_in u = (us_status u = ACTIVE \<and> us_password_hash u \<noteq> None)"

section \<open>Operations\<close>

definition user_replace_roles :: "id list \<Rightarrow> user \<Rightarrow> user result" where
  "user_replace_roles role_ids u =
     (if us_type u \<noteq> STAFF then Inl (InvalidValueError ''Customers never have roles'')
      else if new_set role_ids = [] then Inl (InvalidValueError ''A staff member has at least one role'')
      else Inr (u\<lparr>us_roles := new_set role_ids\<rparr>))"

definition user_create_staff ::
  "id \<Rightarrow> string \<Rightarrow> string \<Rightarrow> string \<Rightarrow> id list \<Rightarrow> string \<Rightarrow> time \<Rightarrow> user result" where
  "user_create_staff i email firsts lasts role_ids hash now =
     user_replace_roles role_ids
       \<lparr>us_id = i, us_type = STAFF, us_status = ACTIVE, us_email = Some (normalize_email email),
        us_first_names = Some firsts, us_last_names = Some lasts, us_email_verified_at = None,
        us_password_hash = Some hash, us_password_changed_at = Some now, us_must_change_password = True,
        us_last_login_at = None, us_suspended_at = None, us_anonymized_at = None, us_privacy_notice = None,
        us_created_at = now, us_roles = [], us_version = 1\<rparr>"

definition user_register_customer ::
  "id \<Rightarrow> string \<Rightarrow> string \<Rightarrow> string \<Rightarrow> string \<Rightarrow> string \<Rightarrow> time \<Rightarrow> user" where
  "user_register_customer i email firsts lasts hash notice now =
     \<lparr>us_id = i, us_type = CUSTOMER, us_status = ACTIVE, us_email = Some (normalize_email email),
      us_first_names = Some firsts, us_last_names = Some lasts, us_email_verified_at = None,
      us_password_hash = Some hash, us_password_changed_at = Some now, us_must_change_password = False,
      us_last_login_at = None, us_suspended_at = None, us_anonymized_at = None, us_privacy_notice = Some notice,
      us_created_at = now, us_roles = [], us_version = 1\<rparr>"

definition user_suspend :: "time \<Rightarrow> user \<Rightarrow> user result" where
  "user_suspend at u =
     (if us_status u \<noteq> ACTIVE then Inl (InvalidStateTransitionError (user_status_name (us_status u)) ''suspend'')
      else Inr (u\<lparr>us_status := SUSPENDED, us_suspended_at := Some at\<rparr>))"

definition user_reactivate_customer :: "user \<Rightarrow> user result" where
  "user_reactivate_customer u =
     (if us_type u \<noteq> CUSTOMER then Inl (PlainError ''Staff is reactivated with a new temporary password'')
      else if us_status u \<noteq> SUSPENDED
      then Inl (InvalidStateTransitionError (user_status_name (us_status u)) ''reactivate'')
      else Inr (u\<lparr>us_status := ACTIVE, us_suspended_at := None\<rparr>))"

definition user_reactivate_staff :: "string \<Rightarrow> time \<Rightarrow> user \<Rightarrow> user result" where
  "user_reactivate_staff hash at u =
     (if us_type u \<noteq> STAFF then Inl (PlainError ''A customer keeps their password when reactivated'')
      else if us_status u \<noteq> SUSPENDED
      then Inl (InvalidStateTransitionError (user_status_name (us_status u)) ''reactivate'')
      else Inr (u\<lparr>us_status := ACTIVE, us_suspended_at := None, us_password_hash := Some hash,
        us_password_changed_at := Some at, us_must_change_password := True\<rparr>))"

definition user_change_password :: "string \<Rightarrow> time \<Rightarrow> user \<Rightarrow> user result" where
  "user_change_password hash at u =
     (if \<not> can_sign_in u
      then Inl (InvalidStateTransitionError (user_status_name (us_status u)) ''change password'')
      else Inr (u\<lparr>us_password_hash := Some hash, us_password_changed_at := Some at,
        us_must_change_password := False\<rparr>))"

definition user_reset_password :: "string \<Rightarrow> time \<Rightarrow> user \<Rightarrow> user result" where
  "user_reset_password hash at u =
     (if \<not> can_sign_in u
      then Inl (InvalidStateTransitionError (user_status_name (us_status u)) ''reset password'')
      else Inr (u\<lparr>us_password_hash := Some hash, us_password_changed_at := Some at,
        us_must_change_password := False,
        us_email_verified_at := (case us_email_verified_at u of None \<Rightarrow> Some at | Some t \<Rightarrow> Some t)\<rparr>))"

text \<open>Nothing when the account no longer has the address, or can no longer sign in.\<close>

definition user_verify_email :: "string \<Rightarrow> time \<Rightarrow> user \<Rightarrow> user option" where
  "user_verify_email sent_to at u =
     (if \<not> can_sign_in u \<or> us_email u \<noteq> Some sent_to then None
      else Some (u\<lparr>us_email_verified_at := Some at\<rparr>))"

definition user_change_email :: "string \<Rightarrow> user \<Rightarrow> user result" where
  "user_change_email new_email u =
     (if us_type u \<noteq> CUSTOMER then Inl (PlainError ''Only customers change their own email'')
      else if \<not> can_sign_in u
      then Inl (InvalidStateTransitionError (user_status_name (us_status u)) ''change email'')
      else if Some (normalize_email new_email) = us_email u then Inl (IdentityError SameEmailError)
      else Inr (u\<lparr>us_email := Some (normalize_email new_email), us_email_verified_at := None\<rparr>))"

definition user_rectify :: "string option \<Rightarrow> string option \<Rightarrow> user \<Rightarrow> user result" where
  "user_rectify firsts lasts u =
     (if us_type u \<noteq> CUSTOMER then Inl (PlainError ''Only customers rectify their own data'')
      else if \<not> can_sign_in u then Inl (InvalidStateTransitionError (user_status_name (us_status u)) ''rectify'')
      else Inr (u\<lparr>us_first_names := (if firsts = None then us_first_names u else firsts),
        us_last_names := (if lasts = None then us_last_names u else lasts)\<rparr>))"

definition user_anonymize :: "time \<Rightarrow> user \<Rightarrow> user result" where
  "user_anonymize at u =
     (if us_type u \<noteq> CUSTOMER then Inl (PlainError ''Staff is never anonymized'')
      else if us_status u = ANONYMIZED then Inl (InvalidStateTransitionError ''ANONYMIZED'' ''anonymize'')
      else Inr (u\<lparr>us_status := ANONYMIZED, us_email := None, us_first_names := None, us_last_names := None,
        us_email_verified_at := None, us_password_hash := None, us_anonymized_at := Some at\<rparr>))"

section \<open>What an account keeps\<close>

text \<open>
  The constraints of its table, and what they rest on: an account has an email, names and a password exactly while it
  is not anonymized, only customers are, staff has at least one role and customers none.
\<close>

definition email_form :: "string \<Rightarrow> bool" where
  "email_form e \<longleftrightarrow> js_lower e = e \<and> js_trim e = e"

definition wf_user :: "'a user_scheme \<Rightarrow> bool" where
  "wf_user u \<longleftrightarrow>
     (us_type u = STAFF \<longleftrightarrow> us_roles u \<noteq> []) \<and> distinct (us_roles u) \<and> pred_option email_form (us_email u)
     \<and> (if us_status u = ANONYMIZED
        then us_type u = CUSTOMER \<and> us_email u = None \<and> us_password_hash u = None \<and> us_first_names u = None
          \<and> us_last_names u = None \<and> us_email_verified_at u = None \<and> us_anonymized_at u \<noteq> None
        else us_email u \<noteq> None \<and> us_password_hash u \<noteq> None \<and> us_first_names u \<noteq> None
          \<and> us_last_names u \<noteq> None \<and> us_anonymized_at u = None
          \<and> (us_status u = SUSPENDED \<longleftrightarrow> us_suspended_at u \<noteq> None))"

text \<open>Lower case moves no character to or from a space, so trimming first or last is the same.\<close>

lemma of_char_below: "of_char c < (256 :: nat)"
  by (metis of_char_mod_256 mod_less_divisor zero_less_numeral)

lemma js_lower_char_idem [simp]: "js_lower_char (js_lower_char c) = js_lower_char c"
  using of_char_below [of c] by (auto simp: js_lower_char_def Let_def)

lemma js_lower_char_space [simp]: "is_js_space (js_lower_char c) = is_js_space c"
  using of_char_below [of c] by (auto simp: js_lower_char_def is_js_space_def Let_def)

lemma js_lower_idem [simp]: "js_lower (js_lower s) = js_lower s"
  by (simp add: js_lower_def)

lemma js_lower_trim: "js_trim s = s \<Longrightarrow> js_trim (js_lower s) = js_lower s"
proof (cases "s = []")
  case True
  then show ?thesis by (simp add: js_lower_def js_trim_def)
next
  case False
  assume "js_trim s = s"
  with False js_trim_ends [of s] have "\<not> is_js_space (hd s)" "\<not> is_js_space (last s)" by auto
  with False show ?thesis by (intro js_trim_id) (simp add: js_lower_def hd_map last_map)
qed

lemma normalized_form [simp]: "email_form (normalize_email e)"
  by (simp add: email_form_def normalize_email_def js_lower_trim)

lemma normalize_normalized [simp]: "email_form e \<Longrightarrow> normalize_email e = e"
  by (simp add: email_form_def normalize_email_def)

subsection \<open>Every operation keeps it\<close>

lemma user_replace_rolesD:
  "user_replace_roles rs u = Inr u' \<Longrightarrow> us_type u = STAFF \<and> rs \<noteq> [] \<and> u' = u\<lparr>us_roles := new_set rs\<rparr>"
  by (simp add: user_replace_roles_def split: if_splits)

lemma user_create_staff_wf:
  "user_create_staff i email f l rs h now = Inr u \<Longrightarrow>
     wf_user u \<and> us_id u = i \<and> us_type u = STAFF \<and> us_status u = ACTIVE \<and> us_roles u = new_set rs
     \<and> us_email u = Some (normalize_email email) \<and> us_version u = 1"
  by (auto simp: user_create_staff_def wf_user_def dest!: user_replace_rolesD)

lemma user_register_wf [simp]: "wf_user (user_register_customer i email f l h notice now)"
  by (simp add: user_register_customer_def wf_user_def)

datatype user_event =
    Suspend time
  | ReactivateCustomer
  | ReactivateStaff string time
  | ReplaceRoles "id list"
  | ChangePassword string time
  | ResetPassword string time
  | VerifyEmail string time
  | ChangeEmail string
  | Rectify "string option" "string option"
  | Anonymize time

fun user_step :: "user \<Rightarrow> user_event \<Rightarrow> user result" where
  "user_step u (Suspend at) = user_suspend at u"
| "user_step u ReactivateCustomer = user_reactivate_customer u"
| "user_step u (ReactivateStaff h at) = user_reactivate_staff h at u"
| "user_step u (ReplaceRoles rs) = user_replace_roles rs u"
| "user_step u (ChangePassword h at) = user_change_password h at u"
| "user_step u (ResetPassword h at) = user_reset_password h at u"
| "user_step u (VerifyEmail sent at) =
     (case user_verify_email sent at u of None \<Rightarrow> Inl InvalidOrExpiredTokenError | Some u' \<Rightarrow> Inr u')"
| "user_step u (ChangeEmail e) = user_change_email e u"
| "user_step u (Rectify f l) = user_rectify f l u"
| "user_step u (Anonymize at) = user_anonymize at u"

lemmas user_op_defs = user_suspend_def user_reactivate_customer_def user_reactivate_staff_def
  user_replace_roles_def user_change_password_def user_reset_password_def user_verify_email_def
  user_change_email_def user_rectify_def user_anonymize_def can_sign_in_def

definition user_moves :: "(user_status \<times> user_status) set" where
  "user_moves = {(ACTIVE, SUSPENDED), (SUSPENDED, ACTIVE), (ACTIVE, ANONYMIZED), (SUSPENDED, ANONYMIZED)}"

lemma user_step_wf:
  assumes "wf_user u" and "user_step u ev = Inr u'"
  shows "wf_user u'"
proof (cases ev)
  case (Suspend at)
  with assms show ?thesis by (auto simp: user_op_defs wf_user_def split: if_splits)
next
  case ReactivateCustomer
  with assms show ?thesis by (auto simp: user_op_defs wf_user_def split: if_splits)
next
  case (ReactivateStaff h at)
  with assms show ?thesis by (auto simp: user_op_defs wf_user_def split: if_splits)
next
  case (ReplaceRoles rs)
  with assms show ?thesis by (auto simp: user_op_defs wf_user_def split: if_splits)
next
  case (ChangePassword h at)
  with assms show ?thesis by (auto simp: user_op_defs wf_user_def split: if_splits)
next
  case (ResetPassword h at)
  with assms show ?thesis by (auto simp: user_op_defs wf_user_def split: if_splits)
next
  case (VerifyEmail sent at)
  with assms show ?thesis by (auto simp: user_op_defs wf_user_def split: if_splits)
next
  case (ChangeEmail e)
  with assms show ?thesis by (auto simp: user_op_defs wf_user_def split: if_splits)
next
  case (Rectify f l)
  with assms show ?thesis by (auto simp: user_op_defs wf_user_def split: if_splits)
next
  case (Anonymize at)
  with assms show ?thesis by (auto simp: user_op_defs wf_user_def split: if_splits)
qed

text \<open>What no operation of an account changes.\<close>

lemma user_step_keeps:
  "user_step u ev = Inr u' \<Longrightarrow>
     us_id u' = us_id u \<and> us_type u' = us_type u \<and> us_created_at u' = us_created_at u
     \<and> us_version u' = us_version u \<and> us_last_login_at u' = us_last_login_at u
     \<and> us_privacy_notice u' = us_privacy_notice u"
  by (cases ev) (auto simp: user_op_defs split: if_splits option.splits)

lemma user_step_moves:
  "user_step u ev = Inr u' \<Longrightarrow> us_status u' = us_status u \<or> (us_status u, us_status u') \<in> user_moves"
  by (cases ev; cases "us_status u") (auto simp: user_op_defs user_moves_def split: if_splits option.splits)

interpretation user_life: status_machine user_step wf_user us_status user_moves
  by unfold_locales (fact user_step_wf, rule user_step_moves)

text \<open>An anonymized account stays so, whatever is asked of it.\<close>

lemma anonymized_account_stays_so:
  "wf_user u \<Longrightarrow> us_status u = ANONYMIZED \<Longrightarrow> us_status (run user_step u evs) = ANONYMIZED"
  using user_life.run_final [of u evs] by (simp add: user_moves_def)

end
