(* ===== verification/Sessions.thy ===== *)
theory Sessions
  imports Cleanup
begin

text \<open>
  Sessions as their refresh tokens (\<open>identity-access/domain/session.ts\<close>,
  \<open>infrastructure/prisma-session.repository.ts\<close>): a sign-in starts a session with one token, and renewing it
  rotates the token into a new one. Presenting a token already rotated ends the whole session. Only the digest of a
  token is stored.
\<close>

record refresh_token =
  rt_id :: id
  rt_user :: id
  rt_session :: id
  rt_hash :: string
  rt_expires_at :: time
  rt_revoked_at :: "time option"
  rt_replaced_by :: "id option"

datatype token_state = Usable | Rotated | Revoked | Expired

definition refresh_token_state :: "refresh_token \<Rightarrow> time \<Rightarrow> token_state" where
  "refresh_token_state t now =
     (if rt_replaced_by t \<noteq> None then Rotated
      else if rt_revoked_at t \<noteq> None then Revoked
      else if rt_expires_at t \<le> now then Expired else Usable)"

section \<open>The statements of the repository\<close>

type_synonym refresh_tokens = "refresh_token list"

text \<open>The identifier and the digest are unique.\<close>

definition add_refresh_token :: "refresh_token \<Rightarrow> refresh_tokens \<Rightarrow> refresh_tokens result" where
  "add_refresh_token t ts =
     (if list_ex (\<lambda>u. rt_id u = rt_id t \<or> rt_hash u = rt_hash t) ts then Inl (PlainError ''refresh_tokens_key'')
      else Inr (ts @ [t]))"

definition find_refresh_token :: "string \<Rightarrow> refresh_tokens \<Rightarrow> refresh_token option" where
  "find_refresh_token hash ts = find (\<lambda>t. rt_hash t = hash) ts"

definition rotated_into :: "id \<Rightarrow> id \<Rightarrow> time \<Rightarrow> refresh_token \<Rightarrow> refresh_token" where
  "rotated_into i successor at t =
     (if rt_id t = i then t\<lparr>rt_revoked_at := Some at, rt_replaced_by := Some successor\<rparr> else t)"

definition rotate_token :: "refresh_token \<Rightarrow> refresh_token \<Rightarrow> time \<Rightarrow> refresh_tokens \<Rightarrow> refresh_tokens result" where
  "rotate_token t successor at ts =
     res_bind (add_refresh_token successor ts) (\<lambda>ts'.
       Inr (map (rotated_into (rt_id t) (rt_id successor) at) ts'))"

text \<open>A token of those to revoke, unless it already was.\<close>

definition revoked_if :: "(refresh_token \<Rightarrow> bool) \<Rightarrow> time \<Rightarrow> refresh_token \<Rightarrow> refresh_token" where
  "revoked_if p at t = (if p t \<and> rt_revoked_at t = None then t\<lparr>rt_revoked_at := Some at\<rparr> else t)"

definition revoke_session :: "id \<Rightarrow> time \<Rightarrow> refresh_tokens \<Rightarrow> nat \<times> refresh_tokens" where
  "revoke_session s at ts =
     (length (filter (\<lambda>t. rt_session t = s \<and> rt_revoked_at t = None) ts),
      map (revoked_if (\<lambda>t. rt_session t = s) at) ts)"

definition revoke_all_of :: "id \<Rightarrow> time \<Rightarrow> id option \<Rightarrow> refresh_tokens \<Rightarrow> refresh_tokens" where
  "revoke_all_of user at except ts =
     map (revoked_if (\<lambda>t. rt_user t = user \<and> except \<noteq> Some (rt_session t)) at) ts"

definition session_is_active :: "id \<Rightarrow> id \<Rightarrow> time \<Rightarrow> refresh_tokens \<Rightarrow> bool" where
  "session_is_active s user now ts =
     list_ex (\<lambda>t. rt_session t = s \<and> rt_user t = user \<and> rt_revoked_at t = None \<and> rt_expires_at t > now) ts"

definition delete_refresh_tokens_of :: "id \<Rightarrow> refresh_tokens \<Rightarrow> refresh_tokens" where
  "delete_refresh_tokens_of user ts = filter (\<lambda>t. rt_user t \<noteq> user) ts"

definition token_is_old :: "time \<Rightarrow> refresh_token \<Rightarrow> bool" where
  "token_is_old before t =
     (rt_expires_at t < before \<or> (case rt_revoked_at t of None \<Rightarrow> False | Some at \<Rightarrow> at < before))"

text \<open>Which of the old tokens a batch takes is the database's to choose; here, the first ones.\<close>

definition delete_refresh_tokens :: "time \<Rightarrow> refresh_tokens \<Rightarrow> nat \<Rightarrow> nat \<times> refresh_tokens" where
  "delete_refresh_tokens before ts limit =
     (let batch = map rt_id (take limit (filter (token_is_old before) ts))
      in (length (filter (\<lambda>t. rt_id t \<in> set batch \<and> token_is_old before t) ts),
          filter (\<lambda>t. \<not> (rt_id t \<in> set batch \<and> token_is_old before t)) ts))"

section \<open>What the table keeps\<close>

abbreviation unrevoked :: "refresh_token \<Rightarrow> bool" where
  "unrevoked t \<equiv> rt_revoked_at t = None"

text \<open>
  A session is of one user and has at most one token that is not revoked; a rotated token is revoked.
\<close>

definition wf_sessions :: "refresh_tokens \<Rightarrow> bool" where
  "wf_sessions ts \<longleftrightarrow>
     distinct (map rt_id ts) \<and> distinct (map rt_hash ts)
     \<and> distinct (map rt_session (filter unrevoked ts))
     \<and> (\<forall>t \<in> set ts. rt_replaced_by t \<noteq> None \<longrightarrow> rt_revoked_at t \<noteq> None)
     \<and> (\<forall>t \<in> set ts. \<forall>u \<in> set ts. rt_session t = rt_session u \<longrightarrow> rt_user t = rt_user u)"

text \<open>A session without a token that can still be presented.\<close>

definition session_over :: "id \<Rightarrow> refresh_tokens \<Rightarrow> bool" where
  "session_over s ts = list_all (\<lambda>t. rt_session t = s \<longrightarrow> rt_revoked_at t \<noteq> None) ts"

lemma over_not_active: "session_over s ts \<Longrightarrow> \<not> session_is_active s user now ts"
  by (auto simp: session_over_def session_is_active_def list_all_iff list_ex_iff)

lemma wf_sessionsD:
  assumes "wf_sessions ts"
  shows "distinct (map rt_id ts)" "distinct (map rt_hash ts)" "distinct (map rt_session (filter unrevoked ts))"
    "t \<in> set ts \<Longrightarrow> rt_replaced_by t \<noteq> None \<Longrightarrow> rt_revoked_at t \<noteq> None"
    "t \<in> set ts \<Longrightarrow> u \<in> set ts \<Longrightarrow> rt_session t = rt_session u \<Longrightarrow> rt_user t = rt_user u"
  using assms unfolding wf_sessions_def by blast+

lemma wf_sessionsI:
  assumes "distinct (map rt_id ts)" "distinct (map rt_hash ts)" "distinct (map rt_session (filter unrevoked ts))"
    and "\<And>t. t \<in> set ts \<Longrightarrow> rt_replaced_by t \<noteq> None \<Longrightarrow> rt_revoked_at t \<noteq> None"
    and "\<And>t u. t \<in> set ts \<Longrightarrow> u \<in> set ts \<Longrightarrow> rt_session t = rt_session u \<Longrightarrow> rt_user t = rt_user u"
  shows "wf_sessions ts"
  using assms unfolding wf_sessions_def by blast

lemma session_overD: "session_over s ts \<Longrightarrow> t \<in> set ts \<Longrightarrow> rt_session t = s \<Longrightarrow> rt_revoked_at t \<noteq> None"
  by (simp add: session_over_def list_all_iff)

lemma session_overI: "(\<And>t. t \<in> set ts \<Longrightarrow> rt_session t = s \<Longrightarrow> rt_revoked_at t \<noteq> None) \<Longrightarrow> session_over s ts"
  by (simp add: session_over_def list_all_iff)

text \<open>Revoking tokens keeps all of it; so does deleting some.\<close>

lemma revoked_if_simps [simp]:
  "rt_id (revoked_if p at t) = rt_id t" "rt_hash (revoked_if p at t) = rt_hash t"
  "rt_session (revoked_if p at t) = rt_session t" "rt_user (revoked_if p at t) = rt_user t"
  "rt_replaced_by (revoked_if p at t) = rt_replaced_by t"
  "rt_revoked_at (revoked_if p at t) = None \<longleftrightarrow> rt_revoked_at t = None \<and> \<not> p t"
  by (auto simp: revoked_if_def)

lemma revoking_wf:
  assumes wf: "wf_sessions ts"
  shows "wf_sessions (map (revoked_if p at) ts)"
proof (rule wf_sessionsI)
  show "distinct (map rt_id (map (revoked_if p at) ts))" "distinct (map rt_hash (map (revoked_if p at) ts))"
    using wf_sessionsD(1,2) [OF wf] by (simp_all add: comp_def)
  show "distinct (map rt_session (filter unrevoked (map (revoked_if p at) ts)))"
    by (rule distinct_map_filter_le) (simp_all add: wf_sessionsD(3) [OF wf])
next
  fix t
  assume "t \<in> set (map (revoked_if p at) ts)" and r: "rt_replaced_by t \<noteq> None"
  then obtain u where "u \<in> set ts" and t: "t = revoked_if p at u" unfolding set_map by (elim imageE) (rule that)
  with r wf_sessionsD(4) [OF wf] show "rt_revoked_at t \<noteq> None" by simp
next
  fix t v
  assume "t \<in> set (map (revoked_if p at) ts)" and "v \<in> set (map (revoked_if p at) ts)"
    and s: "rt_session t = rt_session v"
  then obtain t' v' where "t' \<in> set ts" "t = revoked_if p at t'" "v' \<in> set ts" "v = revoked_if p at v'"
    unfolding set_map by (elim imageE) (rule that)
  with s wf_sessionsD(5) [OF wf, of t' v'] show "rt_user t = rt_user v" by simp
qed

lemma revoking_over: "session_over s ts \<Longrightarrow> session_over s (map (revoked_if p at) ts)"
  unfolding session_over_def list_all_iff set_map ball_simps by simp

lemma filter_wf:
  assumes "wf_sessions ts"
  shows "wf_sessions (filter p ts)"
proof (rule wf_sessionsI)
  have "filter unrevoked (filter p ts) = filter (\<lambda>t. unrevoked t \<and> p t) ts" by (simp add: conj_commute)
  then show "distinct (map rt_session (filter unrevoked (filter p ts)))"
    using distinct_filter_conj [OF wf_sessionsD(3) [OF assms]] by simp
  show "distinct (map rt_id (filter p ts))" "distinct (map rt_hash (filter p ts))"
    using wf_sessionsD(1,2) [OF assms] by (simp_all add: distinct_map_filter)
qed (use wf_sessionsD(4,5) [OF assms] in simp_all)

lemma filter_over: "session_over s ts \<Longrightarrow> session_over s (filter p ts)"
  by (simp add: session_over_def list_all_iff)

lemma revoke_session_wf: "wf_sessions ts \<Longrightarrow> wf_sessions (snd (revoke_session s at ts))"
  by (simp add: revoke_session_def revoking_wf)

lemma revoke_session_keeps_over: "session_over r ts \<Longrightarrow> session_over r (snd (revoke_session s at ts))"
  by (simp add: revoke_session_def revoking_over)

lemma revoke_session_over: "session_over s (snd (revoke_session s at ts))"
  unfolding session_over_def list_all_iff revoke_session_def snd_conv set_map ball_simps by simp

lemma revoke_all_wf: "wf_sessions ts \<Longrightarrow> wf_sessions (revoke_all_of user at e ts)"
  by (simp add: revoke_all_of_def revoking_wf)

lemma revoke_all_keeps_over: "session_over s ts \<Longrightarrow> session_over s (revoke_all_of user at e ts)"
  by (simp add: revoke_all_of_def revoking_over)

text \<open>A session of the user is over, but for the one to keep.\<close>

lemma revoke_all_over:
  assumes "\<And>t. t \<in> set ts \<Longrightarrow> rt_session t = s \<Longrightarrow> rt_user t = user" and "e \<noteq> Some s"
  shows "session_over s (revoke_all_of user at e ts)"
  unfolding session_over_def list_all_iff revoke_all_of_def set_map ball_simps using assms by simp

lemma add_refresh_tokenD:
  "add_refresh_token t ts = Inr ts' \<Longrightarrow>
     ts' = ts @ [t] \<and> rt_id t \<notin> rt_id ` set ts \<and> rt_hash t \<notin> rt_hash ` set ts"
  by (auto simp: add_refresh_token_def list_ex_iff split: if_splits)

text \<open>The first token of a session: the session is new.\<close>

lemma first_token_wf:
  assumes add: "add_refresh_token t ts = Inr ts'" and wf: "wf_sessions ts" and s: "rt_session t \<notin> rt_session ` set ts"
    and r: "rt_replaced_by t = None"
  shows "wf_sessions ts'"
proof (rule wf_sessionsI)
  note new = add_refresh_tokenD [OF add]
  show "distinct (map rt_id ts')" "distinct (map rt_hash ts')"
    using new wf_sessionsD(1,2) [OF wf] by simp_all
  show "distinct (map rt_session (filter unrevoked ts'))" using new wf_sessionsD(3) [OF wf] s by auto
  show "rt_revoked_at u \<noteq> None" if "u \<in> set ts'" "rt_replaced_by u \<noteq> None" for u
    using that new wf_sessionsD(4) [OF wf, of u] r by auto
  show "rt_user u = rt_user v" if "u \<in> set ts'" "v \<in> set ts'" "rt_session u = rt_session v" for u v
    using that new wf_sessionsD(5) [OF wf, of u v] s by (auto simp: image_iff)
qed

lemma first_token_over:
  "add_refresh_token t ts = Inr ts' \<Longrightarrow> rt_session t \<noteq> s \<Longrightarrow> session_over s ts \<Longrightarrow> session_over s ts'"
  using add_refresh_tokenD [of t ts ts'] by (simp add: session_over_def)

text \<open>Rotating the token of a session that is not revoked moves the session to its successor.\<close>

lemma rotated_into_simps [simp]:
  "rt_id (rotated_into i n at t) = rt_id t" "rt_hash (rotated_into i n at t) = rt_hash t"
  "rt_session (rotated_into i n at t) = rt_session t" "rt_user (rotated_into i n at t) = rt_user t"
  "rt_revoked_at (rotated_into i n at t) = None \<longleftrightarrow> rt_revoked_at t = None \<and> rt_id t \<noteq> i"
  "rt_replaced_by (rotated_into i n at t) = None \<longleftrightarrow> rt_replaced_by t = None \<and> rt_id t \<noteq> i"
  by (simp_all add: rotated_into_def)

lemma rotate_tokenD:
  assumes "rotate_token t successor at ts = Inr ts'"
  shows "ts' = map (rotated_into (rt_id t) (rt_id successor) at) (ts @ [successor])"
    and "rt_id successor \<notin> rt_id ` set ts" and "rt_hash successor \<notin> rt_hash ` set ts"
proof -
  from assms obtain us where "add_refresh_token successor ts = Inr us"
    and "ts' = map (rotated_into (rt_id t) (rt_id successor) at) us"
    by (auto simp only: rotate_token_def res_bind_eq_Inr sum.inject)
  with add_refresh_tokenD [of successor ts us]
  show "ts' = map (rotated_into (rt_id t) (rt_id successor) at) (ts @ [successor])"
    "rt_id successor \<notin> rt_id ` set ts" "rt_hash successor \<notin> rt_hash ` set ts" by simp_all
qed

text \<open>Nothing else of its session can be presented.\<close>

lemma session_alone:
  assumes wf: "wf_sessions ts" and t: "t \<in> set ts" "unrevoked t" and u: "u \<in> set ts" "unrevoked u"
    and "rt_session u = rt_session t"
  shows "u = t"
proof (rule same_key)
  show "distinct (map rt_session (filter unrevoked ts))" by (rule wf_sessionsD(3) [OF wf])
qed (use assms in simp_all)

lemma rotate_wf:
  assumes rot: "rotate_token t successor at ts = Inr ts'" and wf: "wf_sessions ts"
    and t: "t \<in> set ts" "unrevoked t"
    and n: "rt_session successor = rt_session t" "rt_user successor = rt_user t"
      "rt_replaced_by successor = None"
  shows "wf_sessions ts'"
proof (rule wf_sessionsI)
  let ?f = "rotated_into (rt_id t) (rt_id successor) at"
  note ts' = rotate_tokenD(1) [OF rot] and new = rotate_tokenD(2,3) [OF rot]
  from new t have sid: "rt_id successor \<noteq> rt_id t" by auto
  show "distinct (map rt_id ts')" "distinct (map rt_hash ts')"
    using new wf_sessionsD(1,2) [OF wf] by (simp_all add: ts' comp_def)
  have left: "distinct (map rt_session (filter unrevoked (map ?f ts)))"
    by (rule distinct_map_filter_le) (simp_all add: wf_sessionsD(3) [OF wf])
  have "rt_session t \<notin> rt_session ` set (filter unrevoked (map ?f ts))"
  proof
    assume "rt_session t \<in> rt_session ` set (filter unrevoked (map ?f ts))"
    then obtain v where "v \<in> set (filter unrevoked (map ?f ts))" and s: "rt_session t = rt_session v"
      by (rule imageE)
    then have "v \<in> ?f ` set ts" and r: "unrevoked v" by simp_all
    from this(1) obtain u where "u \<in> set ts" and v: "v = ?f u" by (elim imageE) (rule that)
    with r s have "u = t" using session_alone [OF wf t, of u] by simp
    with r v show False by simp
  qed
  with left show "distinct (map rt_session (filter unrevoked ts'))"
    using sid n by (simp add: ts')
  have in': "\<exists>v. v \<in> set (ts @ [successor]) \<and> u = ?f v" if "u \<in> set ts'" for u
    using that unfolding ts' set_map by (elim imageE) blast
  show "rt_revoked_at u \<noteq> None" if u: "u \<in> set ts'" "rt_replaced_by u \<noteq> None" for u
  proof -
    from in' [OF u(1)] obtain v where v: "v \<in> set (ts @ [successor])" "u = ?f v" by blast
    show ?thesis
    proof (cases "rt_id v = rt_id t")
      case False
      with u(2) v n(3) have "v \<in> set ts" "rt_replaced_by v \<noteq> None" by auto
      with v(2) wf_sessionsD(4) [OF wf] show ?thesis by simp
    qed (use v(2) in simp)
  qed
  show "rt_user u = rt_user v" if "u \<in> set ts'" "v \<in> set ts'" and s: "rt_session u = rt_session v" for u v
  proof -
    from in' [OF that(1)] obtain a where a: "a \<in> set (ts @ [successor])" "u = ?f a" by blast
    from in' [OF that(2)] obtain b where b: "b \<in> set (ts @ [successor])" "v = ?f b" by blast
    define c where "c = (if a = successor then t else a)"
    define d where "d = (if b = successor then t else b)"
    have "c \<in> set ts" "rt_session c = rt_session a" "rt_user c = rt_user a"
      using a t n by (auto simp: c_def)
    moreover have "d \<in> set ts" "rt_session d = rt_session b" "rt_user d = rt_user b"
      using b t n by (auto simp: d_def)
    ultimately show ?thesis using wf_sessionsD(5) [OF wf, of c d] s a(2) b(2) by simp
  qed
qed

lemma rotate_over:
  assumes rot: "rotate_token t successor at ts = Inr ts'" and over: "session_over s ts"
    and t: "t \<in> set ts" "unrevoked t" and n: "rt_session successor = rt_session t"
  shows "session_over s ts'"
proof -
  from session_overD [OF over t(1)] t(2) have "rt_session successor \<noteq> s" using n by auto
  then have "session_over s (ts @ [successor])" using over by (simp add: session_over_def)
  then show ?thesis unfolding rotate_tokenD(1) [OF rot] session_over_def list_all_iff set_map ball_simps by simp
qed

lemma delete_refresh_tokens_filter: "\<exists>p. snd (delete_refresh_tokens before ts limit) = filter p ts"
  by (auto simp: delete_refresh_tokens_def Let_def)

end
