(* ===== verification/AccountLinks.thy ===== *)
theory AccountLinks
  imports Cleanup
begin

text \<open>
  The links sent to the email of an account, to verify it and to recover the password
  (\<open>identity-access/domain/email-verification.ts\<close>, \<open>domain/password-reset.ts\<close>,
  \<open>shared-kernel/one-time-link.ts\<close>, and the repositories of their tables). Both tables work the same way: a
  link works once, within its lifetime, and until a newer one of its account replaces it. Only the digest of its token is
  stored.
\<close>

record link =
  lk_id :: id
  lk_user :: id
  lk_hash :: string
  lk_expires_at :: time
  lk_used_at :: "time option"
  lk_invalidated_at :: "time option"

text \<open>A verification link keeps the address it was sent to.\<close>

record verification = link +
  vf_email :: string

definition link_pending :: "'a link_scheme \<Rightarrow> bool" where
  "link_pending l \<longleftrightarrow> lk_used_at l = None \<and> lk_invalidated_at l = None"

definition link_usable :: "'a link_scheme \<Rightarrow> time \<Rightarrow> bool" where
  "link_usable l now = (lk_used_at l = None \<and> lk_invalidated_at l = None \<and> lk_expires_at l > now)"

section \<open>The statements\<close>

text \<open>The identifier and the digest are unique.\<close>

definition add_link :: "'a link_scheme \<Rightarrow> 'a link_scheme list \<Rightarrow> 'a link_scheme list result" where
  "add_link l ls =
     (if list_ex (\<lambda>k. lk_id k = lk_id l \<or> lk_hash k = lk_hash l) ls then Inl (PlainError ''links_key'')
      else Inr (ls @ [l]))"

definition find_link :: "string \<Rightarrow> 'a link_scheme list \<Rightarrow> 'a link_scheme option" where
  "find_link hash ls = find (\<lambda>l. lk_hash l = hash) ls"

definition link_used :: "id \<Rightarrow> time \<Rightarrow> 'a link_scheme \<Rightarrow> 'a link_scheme" where
  "link_used i at l = (if lk_id l = i then l\<lparr>lk_used_at := Some at\<rparr> else l)"

definition link_replaced :: "id \<Rightarrow> time \<Rightarrow> 'a link_scheme \<Rightarrow> 'a link_scheme" where
  "link_replaced user at l =
     (if lk_user l = user \<and> lk_used_at l = None \<and> lk_invalidated_at l = None
      then l\<lparr>lk_invalidated_at := Some at\<rparr> else l)"

definition mark_link_used :: "id \<Rightarrow> time \<Rightarrow> 'a link_scheme list \<Rightarrow> 'a link_scheme list" where
  "mark_link_used i at ls = map (link_used i at) ls"

definition invalidate_links_of :: "id \<Rightarrow> time \<Rightarrow> 'a link_scheme list \<Rightarrow> 'a link_scheme list" where
  "invalidate_links_of user at ls = map (link_replaced user at) ls"

definition delete_links_of :: "id \<Rightarrow> 'a link_scheme list \<Rightarrow> 'a link_scheme list" where
  "delete_links_of user ls = filter (\<lambda>l. lk_user l \<noteq> user) ls"

definition link_spent :: "time \<Rightarrow> 'a link_scheme \<Rightarrow> bool" where
  "link_spent now l = (lk_expires_at l \<le> now \<or> lk_used_at l \<noteq> None \<or> lk_invalidated_at l \<noteq> None)"

text \<open>Which of the spent links a batch takes is the database's to choose; here, the first ones.\<close>

definition delete_spent_links :: "time \<Rightarrow> 'a link_scheme list \<Rightarrow> nat \<Rightarrow> nat \<times> 'a link_scheme list" where
  "delete_spent_links now ls limit =
     (let batch = map lk_id (take limit (filter (link_spent now) ls))
      in (length (filter (\<lambda>l. lk_id l \<in> set batch \<and> link_spent now l) ls),
          filter (\<lambda>l. \<not> (lk_id l \<in> set batch \<and> link_spent now l)) ls))"

section \<open>What a table of links keeps\<close>

text \<open>An account has at most one link that still works.\<close>

definition wf_links :: "'a link_scheme list \<Rightarrow> bool" where
  "wf_links ls \<longleftrightarrow>
     distinct (map lk_id ls) \<and> distinct (map lk_hash ls) \<and> distinct (map lk_user (filter link_pending ls))"

text \<open>No link of a token works, nor will one if the token is not drawn again.\<close>

definition link_over :: "string \<Rightarrow> 'a link_scheme list \<Rightarrow> bool" where
  "link_over hash ls = list_all (\<lambda>l. lk_hash l = hash \<longrightarrow> \<not> link_pending l) ls"

lemma link_used_simps [simp]:
  "lk_id (link_used i at l) = lk_id l" "lk_hash (link_used i at l) = lk_hash l"
  "lk_user (link_used i at l) = lk_user l" "lk_expires_at (link_used i at l) = lk_expires_at l"
  "link_pending (link_used i at l) \<longleftrightarrow> link_pending l \<and> lk_id l \<noteq> i"
  by (simp_all add: link_used_def link_pending_def)

lemma link_replaced_simps [simp]:
  "lk_id (link_replaced u at l) = lk_id l" "lk_hash (link_replaced u at l) = lk_hash l"
  "lk_user (link_replaced u at l) = lk_user l" "lk_expires_at (link_replaced u at l) = lk_expires_at l"
  "link_pending (link_replaced u at l) \<longleftrightarrow> link_pending l \<and> lk_user l \<noteq> u"
  by (auto simp: link_replaced_def link_pending_def)

lemma link_usable_pending: "link_usable l now \<longleftrightarrow> link_pending l \<and> lk_expires_at l > now"
  by (simp add: link_usable_def link_pending_def)

lemma find_linkD: "find_link hash ls = Some l \<Longrightarrow> l \<in> set ls \<and> lk_hash l = hash"
  unfolding find_link_def by (drule find_SomeD) simp

lemma mark_link_used_wf:
  assumes "wf_links ls"
  shows "wf_links (mark_link_used i at ls)"
proof -
  have "distinct (map lk_user (filter link_pending (map (link_used i at) ls)))"
    by (rule distinct_map_filter_le) (use assms in \<open>simp_all add: wf_links_def\<close>)
  with assms show ?thesis by (simp add: wf_links_def mark_link_used_def comp_def)
qed

lemma invalidate_links_wf:
  assumes "wf_links ls"
  shows "wf_links (invalidate_links_of u at ls)"
proof -
  have "distinct (map lk_user (filter link_pending (map (link_replaced u at) ls)))"
    by (rule distinct_map_filter_le) (use assms in \<open>simp_all add: wf_links_def\<close>)
  with assms show ?thesis by (simp add: wf_links_def invalidate_links_of_def comp_def)
qed

lemma filter_links_wf:
  assumes "wf_links ls"
  shows "wf_links (filter p ls)"
proof -
  have "filter link_pending (filter p ls) = filter (\<lambda>l. link_pending l \<and> p l) ls" by (simp add: conj_commute)
  then show ?thesis using assms distinct_filter_conj [of lk_user link_pending ls p]
    by (simp add: wf_links_def distinct_map_filter)
qed

lemma add_linkD:
  "add_link l ls = Inr ls' \<Longrightarrow> ls' = ls @ [l] \<and> lk_id l \<notin> lk_id ` set ls \<and> lk_hash l \<notin> lk_hash ` set ls"
  by (auto simp: add_link_def list_ex_iff split: if_splits)

text \<open>A new link, after those of its account were invalidated.\<close>

lemma new_link_wf:
  assumes "add_link l (invalidate_links_of (lk_user l) at ls) = Inr ls'" and "wf_links ls"
  shows "wf_links ls'"
proof -
  let ?ks = "invalidate_links_of (lk_user l) at ls"
  have "lk_user k \<noteq> lk_user l" if "k \<in> set (filter link_pending ?ks)" for k
  proof -
    from that have "k \<in> link_replaced (lk_user l) at ` set ls" and "link_pending k"
      by (simp_all add: invalidate_links_of_def)
    from this(1) obtain j where "k = link_replaced (lk_user l) at j" by (elim imageE)
    with \<open>link_pending k\<close> show ?thesis by simp
  qed
  then have "lk_user l \<notin> lk_user ` set (filter link_pending ?ks)" by (metis imageE)
  with add_linkD [OF assms(1)] invalidate_links_wf [OF assms(2), of "lk_user l" at] show ?thesis
    by (simp add: wf_links_def)
qed

lemma over_mark: "link_over h ls \<Longrightarrow> link_over h (mark_link_used i at ls)"
  unfolding link_over_def mark_link_used_def list_all_iff set_map ball_simps by simp

lemma over_invalidate: "link_over h ls \<Longrightarrow> link_over h (invalidate_links_of u at ls)"
  unfolding link_over_def invalidate_links_of_def list_all_iff set_map ball_simps by simp

lemma over_filter: "link_over h ls \<Longrightarrow> link_over h (filter p ls)"
  by (simp add: link_over_def list_all_iff)

lemma over_add: "add_link l ls = Inr ls' \<Longrightarrow> lk_hash l \<noteq> h \<Longrightarrow> link_over h ls \<Longrightarrow> link_over h ls'"
  using add_linkD [of l ls ls'] by (simp add: link_over_def)

text \<open>A link that was used is over; those an account had are, once they were invalidated.\<close>

lemma used_link_over:
  assumes "wf_links ls" and "l \<in> set ls"
  shows "link_over (lk_hash l) (mark_link_used (lk_id l) at ls)"
proof -
  have "lk_id k = lk_id l" if "k \<in> set ls" "lk_hash k = lk_hash l" for k
    using same_key [of lk_hash ls k l] assms that by (simp add: wf_links_def)
  then show ?thesis unfolding link_over_def mark_link_used_def list_all_iff set_map ball_simps by simp
qed

lemma invalidated_link_over:
  assumes "wf_links ls" and "l \<in> set ls"
  shows "link_over (lk_hash l) (invalidate_links_of (lk_user l) at ls)"
proof -
  have "k = l" if "k \<in> set ls" "lk_hash k = lk_hash l" for k
    using same_key [of lk_hash ls k l] assms that by (simp add: wf_links_def)
  then show ?thesis unfolding link_over_def invalidate_links_of_def list_all_iff set_map ball_simps by auto
qed

lemma over_not_usable: "link_over h ls \<Longrightarrow> find_link h ls = Some l \<Longrightarrow> \<not> link_usable l now"
  by (auto simp: link_over_def list_all_iff link_usable_pending dest: find_linkD)

end
