(* ===== verification/Accounts.thy ===== *)
theory Accounts
  imports Users Sessions AccountLinks
begin

text \<open>
  The tables of identity and access and the statements on the accounts and the roles
  (\<open>identity-access/infrastructure/prisma-user.repository.ts\<close>, \<open>prisma-role.repository.ts\<close>), with the
  constraints of the migrations. A change of an account or a role is saved against the version it was read at. The
  links of the roles of an account are kept with its row. Accounts are never deleted.
\<close>

text \<open>A row of an account: what the domain sees, and its last activity.\<close>

record account = user +
  ac_last_active_at :: time

record identity =
  id_accounts :: "account list"
  id_roles :: "role list"
  id_tokens :: refresh_tokens
  id_verifications :: "verification list"
  id_resets :: "link list"

section \<open>Accounts\<close>

definition find_account :: "id \<Rightarrow> identity \<Rightarrow> user option" where
  "find_account i db = map_option user.truncate (find (\<lambda>a. us_id a = i) (id_accounts db))"

definition find_account_by_email :: "string \<Rightarrow> identity \<Rightarrow> user option" where
  "find_account_by_email email db = map_option user.truncate (find (\<lambda>a. us_email a = Some email) (id_accounts db))"

text \<open>Two accounts never have one email; those without one are not compared.\<close>

definition email_taken :: "user \<Rightarrow> identity \<Rightarrow> bool" where
  "email_taken u db = (us_email u \<noteq> None \<and> list_ex (\<lambda>a. us_id a \<noteq> us_id u \<and> us_email a = us_email u) (id_accounts db))"

definition roles_exist :: "id list \<Rightarrow> identity \<Rightarrow> bool" where
  "roles_exist rs db = list_all (\<lambda>r. r \<in> ro_id ` set (id_roles db)) rs"

text \<open>\<open>users_identity_required_check\<close> and \<open>users_staff_never_anonymized_check\<close>.\<close>

definition user_checks :: "user \<Rightarrow> bool" where
  "user_checks u =
     ((us_status u = ANONYMIZED \<or> us_email u \<noteq> None \<and> us_password_hash u \<noteq> None \<and> us_first_names u \<noteq> None
        \<and> us_last_names u \<noteq> None)
      \<and> (us_type u = CUSTOMER \<or> us_status u \<noteq> ANONYMIZED))"

definition new_account :: "user \<Rightarrow> account" where
  "new_account u =
     \<lparr>us_id = us_id u, us_type = us_type u, us_status = us_status u, us_email = us_email u,
      us_first_names = us_first_names u, us_last_names = us_last_names u,
      us_email_verified_at = us_email_verified_at u, us_password_hash = us_password_hash u,
      us_password_changed_at = us_password_changed_at u, us_must_change_password = us_must_change_password u,
      us_last_login_at = None, us_suspended_at = None, us_anonymized_at = None,
      us_privacy_notice = us_privacy_notice u, us_created_at = us_created_at u, us_roles = us_roles u,
      us_version = us_version u, ac_last_active_at = us_created_at u\<rparr>"

text \<open>A violated unique index is answered as a taken email.\<close>

definition add_account :: "user \<Rightarrow> identity \<Rightarrow> identity result" where
  "add_account u db =
     (if \<not> user_checks u then Inl (PlainError ''users_check'')
      else if us_id u \<in> us_id ` set (id_accounts db) \<or> email_taken u db then Inl (DuplicateValueError ''email'')
      else if \<not> roles_exist (us_roles u) db then Inl (PlainError ''user_roles_role_id_fkey'')
      else Inr (db\<lparr>id_accounts := id_accounts db @ [new_account u]\<rparr>))"

text \<open>What saving writes of a row: the links of roles no longer held are deleted, and the new ones added.\<close>

definition stored_roles :: "id list \<Rightarrow> id list \<Rightarrow> id list" where
  "stored_roles old new = filter (\<lambda>r. r \<in> set new) old @ filter (\<lambda>r. r \<notin> set old) new"

definition saved_account :: "user \<Rightarrow> account \<Rightarrow> account" where
  "saved_account u a =
     (if us_id a \<noteq> us_id u then a
      else a\<lparr>us_status := us_status u, us_email := us_email u, us_email_verified_at := us_email_verified_at u,
        us_first_names := us_first_names u, us_last_names := us_last_names u, us_suspended_at := us_suspended_at u,
        us_anonymized_at := us_anonymized_at u, us_password_hash := us_password_hash u,
        us_password_changed_at := us_password_changed_at u, us_must_change_password := us_must_change_password u,
        us_version := us_version a + 1, us_roles := stored_roles (us_roles a) (us_roles u)\<rparr>)"

definition save_account :: "user \<Rightarrow> identity \<Rightarrow> identity result" where
  "save_account u db =
     (case find (\<lambda>a. us_id a = us_id u) (id_accounts db) of
        None \<Rightarrow> Inl (PlainError ''User does not exist'')
      | Some a \<Rightarrow>
          if us_version a \<noteq> us_version u then Inl (VersionConflictError (us_version a))
          else if \<not> user_checks (u\<lparr>us_type := us_type a\<rparr>) then Inl (PlainError ''users_check'')
          else if email_taken u db then Inl (DuplicateValueError ''email'')
          else if \<not> roles_exist (us_roles u) db then Inl (PlainError ''user_roles_role_id_fkey'')
          else Inr (db\<lparr>id_accounts := map (saved_account u) (id_accounts db)\<rparr>))"

definition signed_in_at :: "id \<Rightarrow> time \<Rightarrow> account \<Rightarrow> account" where
  "signed_in_at i at a = (if us_id a = i then a\<lparr>us_last_login_at := Some at, ac_last_active_at := at\<rparr> else a)"

definition record_sign_in :: "id \<Rightarrow> time \<Rightarrow> identity \<Rightarrow> identity result" where
  "record_sign_in i at db =
     (if i \<notin> us_id ` set (id_accounts db) then Inl (PlainError ''Record to update not found'')
      else Inr (db\<lparr>id_accounts := map (signed_in_at i at) (id_accounts db)\<rparr>))"

definition active_at :: "id \<Rightarrow> time \<Rightarrow> account \<Rightarrow> account" where
  "active_at i at a =
     (if us_id a = i \<and> ac_last_active_at a \<le> at - 86400000 then a\<lparr>ac_last_active_at := at\<rparr> else a)"

definition record_activity :: "id \<Rightarrow> time \<Rightarrow> identity \<Rightarrow> identity" where
  "record_activity i at db = db\<lparr>id_accounts := map (active_at i at) (id_accounts db)\<rparr>"

definition inactive_customer :: "time \<Rightarrow> account \<Rightarrow> bool" where
  "inactive_customer before a =
     (us_type a = CUSTOMER \<and> us_status a \<noteq> ANONYMIZED \<and> ac_last_active_at a \<le> before)"

text \<open>Least recently active first; those active at the same time, by identifier.\<close>

definition inactive_customers :: "time \<Rightarrow> nat \<Rightarrow> identity \<Rightarrow> id list" where
  "inactive_customers before limit db =
     take limit (map us_id (sort_key ac_last_active_at (sort_key us_id (filter (inactive_customer before) (id_accounts db)))))"

definition lock_inactive_customer :: "id \<Rightarrow> time \<Rightarrow> identity \<Rightarrow> user option" where
  "lock_inactive_customer i before db =
     map_option user.truncate (find (\<lambda>a. us_id a = i \<and> inactive_customer before a) (id_accounts db))"

definition count_active_staff_with_role :: "id \<Rightarrow> id option \<Rightarrow> identity \<Rightarrow> nat" where
  "count_active_staff_with_role r except db =
     length (filter (\<lambda>a. us_type a = STAFF \<and> us_status a = ACTIVE \<and> except \<noteq> Some (us_id a) \<and> r \<in> set (us_roles a))
       (id_accounts db))"

section \<open>Roles\<close>

definition find_role_by_id :: "id \<Rightarrow> identity \<Rightarrow> role option" where
  "find_role_by_id i db = find (\<lambda>r. ro_id r = i) (id_roles db)"

definition find_roles :: "id list \<Rightarrow> identity \<Rightarrow> role list" where
  "find_roles ids db = filter (\<lambda>r. ro_id r \<in> set ids) (id_roles db)"

definition count_role_users :: "id \<Rightarrow> identity \<Rightarrow> nat" where
  "count_role_users i db = length (filter (\<lambda>a. i \<in> set (us_roles a)) (id_accounts db))"

definition lock_superadmin_role :: "identity \<Rightarrow> id result" where
  "lock_superadmin_role db =
     (case find ro_superadmin (id_roles db) of
        None \<Rightarrow> Inl (PlainError ''The superadmin role is missing'')
      | Some r \<Rightarrow> Inr (ro_id r))"

definition stored_permissions :: "string list \<Rightarrow> string list \<Rightarrow> string list" where
  "stored_permissions old new = filter (\<lambda>p. p \<in> set new) old @ filter (\<lambda>p. p \<notin> set old) new"

definition saved_role :: "role \<Rightarrow> role \<Rightarrow> role" where
  "saved_role r s =
     (if ro_id s \<noteq> ro_id r then s
      else s\<lparr>ro_name := ro_name r, ro_description := ro_description r, ro_version := ro_version s + 1,
        ro_permissions := stored_permissions (ro_permissions s) (ro_permissions r)\<rparr>)"

definition role_name_taken :: "role \<Rightarrow> identity \<Rightarrow> bool" where
  "role_name_taken r db = list_ex (\<lambda>s. ro_id s \<noteq> ro_id r \<and> ro_name s = ro_name r) (id_roles db)"

definition save_role :: "role \<Rightarrow> identity \<Rightarrow> identity result" where
  "save_role r db =
     (case find (\<lambda>s. ro_id s = ro_id r) (id_roles db) of
        Some s \<Rightarrow>
          if ro_version s \<noteq> ro_version r then Inl (VersionConflictError (ro_version s))
          else if role_name_taken r db then Inl (DuplicateValueError ''name'')
          else Inr (db\<lparr>id_roles := map (saved_role r) (id_roles db)\<rparr>)
      | None \<Rightarrow>
          if role_name_taken r db then Inl (DuplicateValueError ''name'')
          else Inr (db\<lparr>id_roles := id_roles db @ [r\<lparr>ro_version := 1\<rparr>]\<rparr>))"

definition delete_role_row :: "id \<Rightarrow> identity \<Rightarrow> identity result" where
  "delete_role_row i db =
     (if i \<notin> ro_id ` set (id_roles db) then Inl (PlainError ''Record to delete does not exist'')
      else if list_ex (\<lambda>a. i \<in> set (us_roles a)) (id_accounts db) then Inl (ResourceInUseError ''Role has users'')
      else Inr (db\<lparr>id_roles := filter (\<lambda>r. ro_id r \<noteq> i) (id_roles db)\<rparr>))"

section \<open>Links\<close>

definition add_verification :: "verification \<Rightarrow> identity \<Rightarrow> identity result" where
  "add_verification l db = res_bind (add_link l (id_verifications db)) (\<lambda>ls. Inr (db\<lparr>id_verifications := ls\<rparr>))"

definition mark_verification_used :: "id \<Rightarrow> time \<Rightarrow> identity \<Rightarrow> identity" where
  "mark_verification_used i at db = db\<lparr>id_verifications := mark_link_used i at (id_verifications db)\<rparr>"

definition invalidate_verifications_of :: "id \<Rightarrow> time \<Rightarrow> identity \<Rightarrow> identity" where
  "invalidate_verifications_of user at db =
     db\<lparr>id_verifications := invalidate_links_of user at (id_verifications db)\<rparr>"

definition add_reset :: "link \<Rightarrow> identity \<Rightarrow> identity result" where
  "add_reset l db = res_bind (add_link l (id_resets db)) (\<lambda>ls. Inr (db\<lparr>id_resets := ls\<rparr>))"

definition mark_reset_used :: "id \<Rightarrow> time \<Rightarrow> identity \<Rightarrow> identity" where
  "mark_reset_used i at db = db\<lparr>id_resets := mark_link_used i at (id_resets db)\<rparr>"

definition invalidate_resets_of :: "id \<Rightarrow> time \<Rightarrow> identity \<Rightarrow> identity" where
  "invalidate_resets_of user at db = db\<lparr>id_resets := invalidate_links_of user at (id_resets db)\<rparr>"

text \<open>What an anonymization deletes besides the data of the account; the saved addresses have a theory of their own.\<close>

definition delete_traces_of :: "id \<Rightarrow> identity \<Rightarrow> identity" where
  "delete_traces_of user db =
     db\<lparr>id_tokens := delete_refresh_tokens_of user (id_tokens db),
        id_verifications := delete_links_of user (id_verifications db),
        id_resets := delete_links_of user (id_resets db)\<rparr>"

end
