(* ===== verification/Passwords.thy ===== *)
theory Passwords
  imports Errors
begin

text \<open>
  The passwords of the accounts (\<open>identity-access/domain/password.ts\<close>, \<open>temporary-password.ts\<close>,
  \<open>application/password-policy.ts\<close>, \<open>temporary-passwords.ts\<close>). A normalized password is its list of code
  points. The tables of Unicode are the platform's: its normalization form NFKC, the letters, marks, numbers,
  punctuation and symbols, and the lower case are parameters, as are the list of common passwords and the hash.
\<close>

record unicode =
  un_nfkc :: "string \<Rightarrow> nat list"
  un_printable :: "nat \<Rightarrow> bool"
  un_lower :: "nat list \<Rightarrow> nat list"

definition PASSWORD_MIN_LENGTH :: nat where
  "PASSWORD_MIN_LENGTH = 15"

definition PASSWORD_MAX_LENGTH :: nat where
  "PASSWORD_MAX_LENGTH = 64"

definition allowed_character :: "unicode \<Rightarrow> nat \<Rightarrow> bool" where
  "allowed_character U c = (un_printable U c \<or> c = 32)"

definition password_shape_problem :: "unicode \<Rightarrow> string \<Rightarrow> password_problem option" where
  "password_shape_problem U password =
     (let normalized = un_nfkc U password
      in if length normalized < PASSWORD_MIN_LENGTH \<or> length normalized > PASSWORD_MAX_LENGTH
         then Some PasswordLength
         else if list_all (allowed_character U) normalized then None else Some PasswordCharacters)"

definition common_password_key :: "unicode \<Rightarrow> string \<Rightarrow> nat list" where
  "common_password_key U password = un_lower U (un_nfkc U password)"

definition without_return :: "string \<Rightarrow> string" where
  "without_return line = (if line \<noteq> [] \<and> last line = char_of (13 :: nat) then butlast line else line)"

text \<open>The keys of a list of common passwords that the rules of length and characters let through.\<close>

definition common_password_entries :: "unicode \<Rightarrow> string list \<Rightarrow> nat list list" where
  "common_password_entries U ls =
     new_set (map (common_password_key U)
       (filter (\<lambda>entry. password_shape_problem U entry = None) (map without_return ls)))"

definition assert_acceptable :: "unicode \<Rightarrow> (nat list \<Rightarrow> bool) \<Rightarrow> string \<Rightarrow> string \<Rightarrow> unit result" where
  "assert_acceptable U common password field =
     (case password_shape_problem U password of
        Some p \<Rightarrow> Inl (IdentityError (PasswordPolicyViolationError p field))
      | None \<Rightarrow>
          if common (common_password_key U password)
          then Inl (IdentityError (PasswordPolicyViolationError CommonPassword field))
          else Inr ())"

section \<open>Temporary passwords\<close>

definition TEMPORARY_PASSWORD_ALPHABET :: string where
  "TEMPORARY_PASSWORD_ALPHABET = ''abcdefghijkmnpqrstuvwxyz'' @ ''23456789''"

text \<open>The random numbers are drawn one after the other: the one of each position of each group is a parameter.\<close>

definition temporary_group :: "(nat \<Rightarrow> nat) \<Rightarrow> string" where
  "temporary_group draw = map (\<lambda>i. TEMPORARY_PASSWORD_ALPHABET ! draw i) [0..<4]"

definition new_temporary_password :: "(nat \<Rightarrow> nat \<Rightarrow> nat) \<Rightarrow> string" where
  "new_temporary_password draw = js_join ''-'' (map (\<lambda>g. temporary_group (draw g)) [0..<5])"

definition issue_temporary_password ::
  "unicode \<Rightarrow> (nat list \<Rightarrow> bool) \<Rightarrow> (string \<Rightarrow> string) \<Rightarrow> (nat \<Rightarrow> nat \<Rightarrow> nat) \<Rightarrow> (string \<times> string) result" where
  "issue_temporary_password U common hash draw =
     (let password = new_temporary_password draw
      in res_bind (assert_acceptable U common password ''temporaryPassword'') (\<lambda>_. Inr (password, hash password)))"

section \<open>What they keep\<close>

lemma entries_pass_the_shape:
  "k \<in> set (common_password_entries U ls) \<Longrightarrow>
     \<exists>e. password_shape_problem U e = None \<and> k = common_password_key U e"
  by (auto simp: common_password_entries_def)

text \<open>
  What Unicode says of ASCII: text without other characters is its own normalization, and its letters, digits and
  hyphen are printable.
\<close>

definition ascii_printable :: "char \<Rightarrow> bool" where
  "ascii_printable c = (32 < (of_char c :: nat) \<and> (of_char c :: nat) < 127)"

definition ascii_stays :: "unicode \<Rightarrow> bool" where
  "ascii_stays U \<longleftrightarrow>
     (\<forall>s. list_all ascii_printable s \<longrightarrow> un_nfkc U s = map of_char s)
     \<and> (\<forall>c. ascii_printable c \<longrightarrow> un_printable U (of_char c))"

lemma alphabet_printable: "list_all ascii_printable TEMPORARY_PASSWORD_ALPHABET"
  by code_simp

lemma alphabet_length: "length TEMPORARY_PASSWORD_ALPHABET = 32"
  by code_simp

lemma alphabet_distinct: "distinct TEMPORARY_PASSWORD_ALPHABET"
  by code_simp

lemma new_temporary_password_groups:
  "new_temporary_password draw = temporary_group (draw 0) @ ''-'' @ temporary_group (draw 1) @ ''-''
     @ temporary_group (draw 2) @ ''-'' @ temporary_group (draw 3) @ ''-'' @ temporary_group (draw 4)"
proof -
  have "[0..<5] = [0, 1, 2, 3, 4 :: nat]" by (simp add: upt_rec)
  then show ?thesis by (simp add: new_temporary_password_def)
qed

lemma temporary_group_length [simp]: "length (temporary_group d) = 4"
  by (simp add: temporary_group_def)

lemma temporary_group_printable:
  assumes "\<And>i. i < 4 \<Longrightarrow> d i < 32"
  shows "list_all ascii_printable (temporary_group d)"
proof -
  have "ascii_printable (TEMPORARY_PASSWORD_ALPHABET ! d i)" if "i < 4" for i
    using alphabet_printable assms [OF that] by (simp add: list_all_length alphabet_length)
  then show ?thesis by (simp add: temporary_group_def list_all_iff)
qed

lemma temporary_shape:
  assumes "ascii_stays U" and "\<And>g i. g < 5 \<Longrightarrow> i < 4 \<Longrightarrow> draw g i < 32"
  shows "password_shape_problem U (new_temporary_password draw) = None"
proof -
  let ?p = "new_temporary_password draw"
  have groups: "list_all ascii_printable (temporary_group (draw g))" if "g < 5" for g
    using that assms(2) by (intro temporary_group_printable) simp
  have hyphen: "ascii_printable (CHR ''-'')" by code_simp
  have p: "list_all ascii_printable ?p"
    using groups [of 0] groups [of 1] groups [of 2] groups [of 3] groups [of 4] hyphen
    by (simp add: new_temporary_password_groups)
  then have n: "un_nfkc U ?p = map of_char ?p" using assms(1) by (simp add: ascii_stays_def)
  have "list_all (allowed_character U) (un_nfkc U ?p)"
    unfolding n list_all_iff set_map ball_simps
    using p assms(1) by (simp add: list_all_iff ascii_stays_def allowed_character_def)
  moreover have "length ?p = 24" by (simp add: new_temporary_password_groups)
  ultimately show ?thesis using n
    by (simp add: password_shape_problem_def Let_def PASSWORD_MIN_LENGTH_def PASSWORD_MAX_LENGTH_def)
qed

lemma temporary_group_inj:
  assumes "temporary_group d = temporary_group e" and "\<And>i. i < 4 \<Longrightarrow> d i < 32 \<and> e i < 32" and "i < 4"
  shows "d i = e i"
proof -
  from assms(1) have "TEMPORARY_PASSWORD_ALPHABET ! d i = TEMPORARY_PASSWORD_ALPHABET ! e i"
    using assms(3) by (simp add: temporary_group_def)
  then show ?thesis
    using nth_eq_iff_index_eq [OF alphabet_distinct] assms(2) [OF assms(3)] by (simp add: alphabet_length)
qed

text \<open>Two different drawings give two different passwords.\<close>

lemma temporary_passwords_differ:
  assumes "new_temporary_password d = new_temporary_password e"
    and "\<And>g i. g < 5 \<Longrightarrow> i < 4 \<Longrightarrow> d g i < 32 \<and> e g i < 32" and "g < 5" and "i < 4"
  shows "d g i = e g i"
proof -
  have "temporary_group (d g) = temporary_group (e g)"
  proof -
    from assms(1) have "temporary_group (d 0) = temporary_group (e 0)" "temporary_group (d 1) = temporary_group (e 1)"
      "temporary_group (d 2) = temporary_group (e 2)" "temporary_group (d 3) = temporary_group (e 3)"
      "temporary_group (d 4) = temporary_group (e 4)"
      by (simp_all add: new_temporary_password_groups)
    moreover have "g = 0 \<or> g = 1 \<or> g = 2 \<or> g = 3 \<or> g = 4" using assms(3) by linarith
    ultimately show ?thesis by auto
  qed
  then show ?thesis by (rule temporary_group_inj) (use assms(2-4) in auto)
qed

end
