(* ===== verification/Identity.thy ===== *)
theory Identity
  imports Accounts Passwords
begin

text \<open>
  The use cases of identity and access (\<open>identity-access/application/\<close>) on its tables. Each is one transaction.
  The account or role it changes is read before, without a lock, so the tables that reading found, \<open>rd\<close>, may be
  older than those it changes, \<open>db\<close>; saving compares their versions. Rows read \<open>FOR UPDATE\<close> are read in
  \<open>db\<close>. New identifiers, drawn tokens and the hash of a new password are arguments, and the clock is read once. The
  emails and the audit trail are left out.
\<close>

record identity_ports =
  ip_unicode :: unicode
  ip_common :: "nat list \<Rightarrow> bool"
  ip_verify :: "string \<Rightarrow> string option \<Rightarrow> bool"
  ip_digest :: "string \<Rightarrow> string"
  ip_refresh_ttl :: int
  ip_verification_ttl :: int
  ip_reset_ttl :: int
  ip_token_days :: int

definition find_user_of_type :: "id \<Rightarrow> user_type \<Rightarrow> identity \<Rightarrow> user result" where
  "find_user_of_type i ty db =
     (case find_account i db of
        None \<Rightarrow> Inl (NotFoundError (if ty = STAFF then ''Staff member'' else ''Customer'') i)
      | Some u \<Rightarrow>
          if us_type u \<noteq> ty then Inl (NotFoundError (if ty = STAFF then ''Staff member'' else ''Customer'') i)
          else Inr u)"

definition find_role :: "id \<Rightarrow> identity \<Rightarrow> role result" where
  "find_role i db = (case find_role_by_id i db of None \<Rightarrow> Inl (NotFoundError ''Role'' i) | Some r \<Rightarrow> Inr r)"

section \<open>Permissions\<close>

definition account_permissions :: "user \<Rightarrow> identity \<Rightarrow> string list" where
  "account_permissions u db =
     (if us_type u \<noteq> STAFF \<or> us_status u \<noteq> ACTIVE then []
      else filter (\<lambda>code. list_ex (\<lambda>r. code \<in> set (effective_permissions r)) (find_roles (us_roles u) db))
             PERMISSION_CODES)"

definition permissions_of :: "id \<Rightarrow> identity \<Rightarrow> string list" where
  "permissions_of i db = (case find_account i db of None \<Rightarrow> [] | Some u \<Rightarrow> account_permissions u db)"

text \<open>What a staff member holds: whether a role is the superadmin one, and the permissions of all of them.\<close>

definition holdings_of :: "id \<Rightarrow> identity \<Rightarrow> bool \<times> string list" where
  "holdings_of actor db =
     (case find_account actor db of
        None \<Rightarrow> (False, [])
      | Some u \<Rightarrow>
          if us_type u \<noteq> STAFF \<or> us_status u \<noteq> ACTIVE then (False, [])
          else (list_ex ro_superadmin (find_roles (us_roles u) db),
                concat (map effective_permissions (find_roles (us_roles u) db))))"

definition holds_all :: "bool \<times> string list \<Rightarrow> string list \<Rightarrow> bool" where
  "holds_all h codes = list_all (\<lambda>code. code \<in> set (snd h)) codes"

definition assert_can_grant_roles :: "id \<Rightarrow> role list \<Rightarrow> identity \<Rightarrow> unit result" where
  "assert_can_grant_roles actor rs db =
     (if rs = [] then Inr ()
      else if list_all (\<lambda>r. if ro_superadmin r then fst (holdings_of actor db)
                            else holds_all (holdings_of actor db) (effective_permissions r)) rs
      then Inr () else Inl (IdentityError PermissionNotHeldError))"

definition assert_can_grant_permissions :: "id \<Rightarrow> string list \<Rightarrow> identity \<Rightarrow> unit result" where
  "assert_can_grant_permissions actor codes db =
     (if codes = [] then Inr ()
      else if holds_all (holdings_of actor db) codes then Inr () else Inl (IdentityError PermissionNotHeldError))"

definition ensure_another_remains :: "user \<Rightarrow> (id \<Rightarrow> bool) \<Rightarrow> identity \<Rightarrow> unit result" where
  "ensure_another_remains u keeps db =
     res_bind (lock_superadmin_role db) (\<lambda>s.
       if \<not> (us_status u = ACTIVE \<and> s \<in> set (us_roles u)) \<or> keeps s then Inr ()
       else if count_active_staff_with_role s (Some (us_id u)) db = 0 then Inl (IdentityError LastSuperadminError)
       else Inr ())"

section \<open>Staff and roles\<close>

definition create_staff ::
  "identity_ports \<Rightarrow> id option \<Rightarrow> id \<Rightarrow> string \<Rightarrow> string \<Rightarrow> string \<Rightarrow> id list \<Rightarrow> string \<Rightarrow> (nat \<Rightarrow> nat \<Rightarrow> nat) \<Rightarrow> time \<Rightarrow>
     identity \<Rightarrow> (string \<times> identity) result" where
  "create_staff P actor fresh email fnames lnames role_ids hash draw now db =
     res_bind (issue_temporary_password (ip_unicode P) (ip_common P) (\<lambda>_. hash) draw) (\<lambda>(password, h).
       if length (find_roles (new_set role_ids) db) \<noteq> length (new_set role_ids)
       then Inl (IdentityError UnknownRolesError)
       else res_bind (case actor of None \<Rightarrow> Inr ()
                      | Some a \<Rightarrow> assert_can_grant_roles a (find_roles (new_set role_ids) db) db) (\<lambda>_.
         res_bind (user_create_staff fresh email fnames lnames (new_set role_ids) h now) (\<lambda>u.
           res_bind (add_account u db) (\<lambda>db'. Inr (password, db')))))"

definition create_first_superadmin ::
  "identity_ports \<Rightarrow> id \<Rightarrow> string \<Rightarrow> string \<Rightarrow> string \<Rightarrow> string \<Rightarrow> (nat \<Rightarrow> nat \<Rightarrow> nat) \<Rightarrow> time \<Rightarrow>
     identity \<Rightarrow> (string \<times> identity) result" where
  "create_first_superadmin P fresh email fnames lnames hash draw now db =
     res_bind (lock_superadmin_role db) (\<lambda>s.
       if count_active_staff_with_role s None db > 0 then Inl (PlainError ''An active superadmin already exists'')
       else create_staff P None fresh email fnames lnames [s] hash draw now db)"

definition replace_staff_roles :: "id \<Rightarrow> id \<Rightarrow> id list \<Rightarrow> int \<Rightarrow> identity \<Rightarrow> identity \<Rightarrow> identity result" where
  "replace_staff_roles actor user role_ids version rd db =
     res_bind (find_user_of_type user STAFF rd) (\<lambda>u.
       res_bind (assert_version (us_version u) version) (\<lambda>_.
         if length (find_roles (new_set role_ids) db) \<noteq> length (new_set role_ids)
         then Inl (IdentityError UnknownRolesError)
         else res_bind (assert_can_grant_roles actor
                          (filter (\<lambda>r. ro_id r \<notin> set (us_roles u)) (find_roles (new_set role_ids) db)) db) (\<lambda>_.
           res_bind (ensure_another_remains u (\<lambda>s. s \<in> set (new_set role_ids)) db) (\<lambda>_.
             res_bind (user_replace_roles (new_set role_ids) u) (\<lambda>u'. save_account u' db)))))"

definition with_tokens :: "(refresh_tokens \<Rightarrow> refresh_tokens) \<Rightarrow> identity \<Rightarrow> identity" where
  "with_tokens f db = db\<lparr>id_tokens := f (id_tokens db)\<rparr>"

definition suspend_staff :: "id \<Rightarrow> id \<Rightarrow> int \<Rightarrow> time \<Rightarrow> identity \<Rightarrow> identity \<Rightarrow> identity result" where
  "suspend_staff actor user version now rd db =
     res_bind (find_user_of_type user STAFF rd) (\<lambda>u.
       res_bind (assert_version (us_version u) version) (\<lambda>_.
         if us_id u = actor
         then Inl (InvalidStateTransitionError (user_status_name (us_status u)) ''suspend yourself'')
         else res_bind (ensure_another_remains u (\<lambda>_. False) db) (\<lambda>_.
           res_bind (user_suspend now u) (\<lambda>u'.
             res_bind (save_account u' db) (\<lambda>db'. Inr (with_tokens (revoke_all_of (us_id u) now None) db'))))))"

definition reactivate_staff ::
  "identity_ports \<Rightarrow> id \<Rightarrow> id \<Rightarrow> int \<Rightarrow> string \<Rightarrow> (nat \<Rightarrow> nat \<Rightarrow> nat) \<Rightarrow> time \<Rightarrow> identity \<Rightarrow> identity \<Rightarrow>
     (string \<times> identity) result" where
  "reactivate_staff P actor user version hash draw now rd db =
     res_bind (issue_temporary_password (ip_unicode P) (ip_common P) (\<lambda>_. hash) draw) (\<lambda>(password, h).
       res_bind (find_user_of_type user STAFF rd) (\<lambda>u.
         res_bind (assert_version (us_version u) version) (\<lambda>_.
           res_bind (assert_can_grant_roles actor (find_roles (us_roles u) db) db) (\<lambda>_.
             res_bind (user_reactivate_staff h now u) (\<lambda>u'.
               res_bind (save_account u' db) (\<lambda>db'. Inr (password, db')))))))"

definition create_role :: "id \<Rightarrow> id \<Rightarrow> string \<Rightarrow> string option \<Rightarrow> string list \<Rightarrow> identity \<Rightarrow> identity result" where
  "create_role actor fresh name description permissions db =
     res_bind (role_create fresh name description permissions) (\<lambda>r.
       res_bind (assert_can_grant_permissions actor (effective_permissions r) db) (\<lambda>_. save_role r db))"

text \<open>Each change of a role is optional; a description may be taken away.\<close>

definition update_role ::
  "id \<Rightarrow> id \<Rightarrow> string option \<Rightarrow> string option option \<Rightarrow> string list option \<Rightarrow> int \<Rightarrow> identity \<Rightarrow> identity \<Rightarrow>
     identity result" where
  "update_role actor i name description permissions version rd db =
     res_bind (find_role i rd) (\<lambda>r.
       res_bind (assert_version (ro_version r) version) (\<lambda>_.
         res_bind (case name of None \<Rightarrow> Inr r | Some n \<Rightarrow> role_rename n r) (\<lambda>r1.
           let r2 = (case description of None \<Rightarrow> r1 | Some d \<Rightarrow> role_describe d r1)
           in res_bind
                (case permissions of
                   None \<Rightarrow> Inr r2
                 | Some ps \<Rightarrow>
                     res_bind (role_replace_permissions ps r2) (\<lambda>r3.
                       res_bind (assert_can_grant_permissions actor
                         (filter (\<lambda>code. code \<notin> set (effective_permissions r2)) (effective_permissions r3)) db)
                         (\<lambda>_. Inr r3)))
                (\<lambda>r'. save_role r' db))))"

definition delete_role :: "id \<Rightarrow> identity \<Rightarrow> identity \<Rightarrow> identity result" where
  "delete_role i rd db =
     res_bind (find_role i rd) (\<lambda>r.
       if ro_superadmin r then Inl (IdentityError LastSuperadminError)
       else if count_role_users i db > 0 then Inl (ResourceInUseError ''Role has users'')
       else delete_role_row (ro_id r) db)"

section \<open>Customers\<close>

definition issue_verification ::
  "identity_ports \<Rightarrow> id \<Rightarrow> string \<Rightarrow> id \<Rightarrow> string \<Rightarrow> time \<Rightarrow> identity \<Rightarrow> identity result" where
  "issue_verification P fresh token user address now db =
     add_verification \<lparr>lk_id = fresh, lk_user = user, lk_hash = ip_digest P token,
         lk_expires_at = now + ip_verification_ttl P * 1000, lk_used_at = None, lk_invalidated_at = None,
         vf_email = address\<rparr>
       (invalidate_verifications_of user now db)"

definition issue_reset :: "identity_ports \<Rightarrow> id \<Rightarrow> string \<Rightarrow> id \<Rightarrow> time \<Rightarrow> identity \<Rightarrow> identity result" where
  "issue_reset P fresh token user now db =
     add_reset \<lparr>lk_id = fresh, lk_user = user, lk_hash = ip_digest P token,
         lk_expires_at = now + ip_reset_ttl P * 1000, lk_used_at = None, lk_invalidated_at = None\<rparr>
       (invalidate_resets_of user now db)"

definition register_customer ::
  "identity_ports \<Rightarrow> id \<Rightarrow> string \<Rightarrow> string \<Rightarrow> string \<Rightarrow> string \<Rightarrow> string \<Rightarrow> string \<Rightarrow> id \<Rightarrow> string \<Rightarrow> time \<Rightarrow>
     identity \<Rightarrow> identity result" where
  "register_customer P fresh email password fnames lnames notice hash link token now db =
     res_bind (assert_acceptable (ip_unicode P) (ip_common P) password ''password'') (\<lambda>_.
       let u = user_register_customer fresh email fnames lnames hash notice now
       in res_bind (add_account u db) (\<lambda>db'.
            issue_verification P link token (us_id u) (case us_email u of None \<Rightarrow> [] | Some e \<Rightarrow> e) now db'))"

definition suspend_customer :: "id \<Rightarrow> int \<Rightarrow> time \<Rightarrow> identity \<Rightarrow> identity \<Rightarrow> identity result" where
  "suspend_customer user version now rd db =
     res_bind (find_user_of_type user CUSTOMER rd) (\<lambda>u.
       res_bind (assert_version (us_version u) version) (\<lambda>_.
         res_bind (user_suspend now u) (\<lambda>u'.
           res_bind (save_account u' db) (\<lambda>db'. Inr (with_tokens (revoke_all_of (us_id u) now None) db')))))"

definition reactivate_customer :: "id \<Rightarrow> int \<Rightarrow> identity \<Rightarrow> identity \<Rightarrow> identity result" where
  "reactivate_customer user version rd db =
     res_bind (find_user_of_type user CUSTOMER rd) (\<lambda>u.
       res_bind (assert_version (us_version u) version) (\<lambda>_.
         res_bind (user_reactivate_customer u) (\<lambda>u'. save_account u' db)))"

text \<open>Names that stay as they are save nothing.\<close>

definition rectify_customer :: "id \<Rightarrow> string option \<Rightarrow> string option \<Rightarrow> identity \<Rightarrow> identity \<Rightarrow> identity result" where
  "rectify_customer user fnames lnames rd db =
     res_bind (find_user_of_type user CUSTOMER rd) (\<lambda>u.
       res_bind (user_rectify fnames lnames u) (\<lambda>u'.
         if us_first_names u' = us_first_names u \<and> us_last_names u' = us_last_names u then Inr db
         else save_account u' db))"

definition anonymize_customer :: "id \<Rightarrow> int \<Rightarrow> time \<Rightarrow> identity \<Rightarrow> identity \<Rightarrow> identity result" where
  "anonymize_customer user version at rd db =
     res_bind (find_user_of_type user CUSTOMER rd) (\<lambda>u.
       res_bind (assert_version (us_version u) version) (\<lambda>_.
         res_bind (user_anonymize at u) (\<lambda>u'.
           res_bind (save_account u' db) (\<lambda>db'. Inr (delete_traces_of (us_id u) db')))))"

text \<open>The account is locked while it is still inactive, so nothing it reads is old.\<close>

definition anonymize_inactive_customer :: "id \<Rightarrow> time \<Rightarrow> time \<Rightarrow> identity \<Rightarrow> (bool \<times> identity) result" where
  "anonymize_inactive_customer user inactive_since at db =
     (case lock_inactive_customer user inactive_since db of
        None \<Rightarrow> Inr (False, db)
      | Some u \<Rightarrow>
          res_bind (user_anonymize at u) (\<lambda>u'.
            res_bind (save_account u' db) (\<lambda>db'. Inr (True, delete_traces_of (us_id u) db'))))"

text \<open>The contact of an active customer, for an order.\<close>

definition customer_contact :: "id \<Rightarrow> identity \<Rightarrow> (string \<times> bool) option" where
  "customer_contact i db =
     (case find_account i db of
        None \<Rightarrow> None
      | Some u \<Rightarrow>
          if us_type u \<noteq> CUSTOMER \<or> us_status u \<noteq> ACTIVE then None
          else map_option (\<lambda>e. (e, us_email_verified_at u \<noteq> None)) (us_email u))"

definition is_active_staff :: "id \<Rightarrow> identity \<Rightarrow> bool" where
  "is_active_staff i db =
     (case find_account i db of None \<Rightarrow> False | Some u \<Rightarrow> us_type u = STAFF \<and> us_status u = ACTIVE)"

section \<open>Passwords and links\<close>

text \<open>Whether the current password was the one given.\<close>

definition change_password ::
  "identity_ports \<Rightarrow> id \<Rightarrow> id \<Rightarrow> string \<Rightarrow> string \<Rightarrow> string \<Rightarrow> time \<Rightarrow> identity \<Rightarrow> identity \<Rightarrow> (bool \<times> identity) result" where
  "change_password P user session current new_password hash now rd db =
     (case find_account user rd of
        None \<Rightarrow> Inl (NotFoundError ''User'' user)
      | Some u \<Rightarrow>
          if \<not> ip_verify P current (us_password_hash u) then Inr (False, db)
          else res_bind (assert_acceptable (ip_unicode P) (ip_common P) new_password ''newPassword'') (\<lambda>_.
            if ip_verify P new_password (us_password_hash u)
            then Inl (IdentityError (PasswordPolicyViolationError SamePassword ''newPassword''))
            else res_bind (user_change_password hash now u) (\<lambda>u'.
              res_bind (save_account u' db) (\<lambda>db'.
                Inr (True, with_tokens (revoke_all_of (us_id u) now (Some session)) db')))))"

definition change_email ::
  "identity_ports \<Rightarrow> id \<Rightarrow> string \<Rightarrow> string \<Rightarrow> id \<Rightarrow> string \<Rightarrow> time \<Rightarrow> identity \<Rightarrow> identity \<Rightarrow> (bool \<times> identity) result" where
  "change_email P user new_email current link token now rd db =
     res_bind (find_user_of_type user CUSTOMER rd) (\<lambda>u.
       if \<not> ip_verify P current (us_password_hash u) then Inr (False, db)
       else res_bind (user_change_email new_email u) (\<lambda>u'.
         res_bind (save_account u' db) (\<lambda>db1.
           res_bind (issue_verification P link token (us_id u) (case us_email u' of None \<Rightarrow> [] | Some e \<Rightarrow> e) now db1)
             (\<lambda>db2. Inr (True, invalidate_resets_of (us_id u) now db2)))))"

text \<open>The token sent by email, when the account may have one.\<close>

definition request_password_reset ::
  "identity_ports \<Rightarrow> string \<Rightarrow> id \<Rightarrow> string \<Rightarrow> time \<Rightarrow> identity \<Rightarrow> identity \<Rightarrow> (string option \<times> identity) result" where
  "request_password_reset P email link token now rd db =
     (case find_account_by_email (normalize_email email) rd of
        None \<Rightarrow> Inr (None, db)
      | Some u \<Rightarrow>
          if \<not> can_sign_in u then Inr (None, db)
          else res_bind (issue_reset P link token (us_id u) now db) (\<lambda>db'. Inr (Some token, db')))"

definition reset_password ::
  "identity_ports \<Rightarrow> string \<Rightarrow> string \<Rightarrow> string \<Rightarrow> time \<Rightarrow> identity \<Rightarrow> identity \<Rightarrow> identity result" where
  "reset_password P token new_password hash now rd db =
     (case find_link (ip_digest P token) (id_resets db) of
        None \<Rightarrow> Inl InvalidOrExpiredTokenError
      | Some l \<Rightarrow>
          if \<not> link_usable l now then Inl InvalidOrExpiredTokenError
          else (case find_account (lk_user l) rd of
                  None \<Rightarrow> Inl InvalidOrExpiredTokenError
                | Some u \<Rightarrow>
                    if \<not> can_sign_in u then Inl InvalidOrExpiredTokenError
                    else res_bind (assert_acceptable (ip_unicode P) (ip_common P) new_password ''newPassword'') (\<lambda>_.
                      res_bind (user_reset_password hash now u) (\<lambda>u'.
                        res_bind (save_account u' (mark_reset_used (lk_id l) now db)) (\<lambda>db'.
                          Inr (with_tokens (revoke_all_of (us_id u) now None) db'))))))"

definition resend_email_verification ::
  "identity_ports \<Rightarrow> string \<Rightarrow> id \<Rightarrow> string \<Rightarrow> time \<Rightarrow> identity \<Rightarrow> identity \<Rightarrow> (string option \<times> identity) result" where
  "resend_email_verification P email link token now rd db =
     (case find_account_by_email (normalize_email email) rd of
        None \<Rightarrow> Inr (None, db)
      | Some u \<Rightarrow>
          if us_type u \<noteq> CUSTOMER \<or> \<not> can_sign_in u \<or> us_email_verified_at u \<noteq> None then Inr (None, db)
          else res_bind (issue_verification P link token (us_id u) (case us_email u of None \<Rightarrow> [] | Some e \<Rightarrow> e) now db)
                 (\<lambda>db'. Inr (Some token, db')))"

definition confirm_email :: "identity_ports \<Rightarrow> string \<Rightarrow> time \<Rightarrow> identity \<Rightarrow> identity \<Rightarrow> identity result" where
  "confirm_email P token now rd db =
     (case find_link (ip_digest P token) (id_verifications db) of
        None \<Rightarrow> Inl InvalidOrExpiredTokenError
      | Some l \<Rightarrow>
          if \<not> link_usable l now then Inl InvalidOrExpiredTokenError
          else (case find_account (lk_user l) rd of
                  None \<Rightarrow> Inl InvalidOrExpiredTokenError
                | Some u \<Rightarrow>
                    (case user_verify_email (vf_email l) now u of
                       None \<Rightarrow> Inl InvalidOrExpiredTokenError
                     | Some u' \<Rightarrow> save_account u' (mark_verification_used (lk_id l) now db))))"

section \<open>Sessions\<close>

definition new_refresh_token :: "identity_ports \<Rightarrow> id \<Rightarrow> string \<Rightarrow> id \<Rightarrow> id \<Rightarrow> time \<Rightarrow> refresh_token" where
  "new_refresh_token P fresh token user session now =
     \<lparr>rt_id = fresh, rt_user = user, rt_session = session, rt_hash = ip_digest P token,
      rt_expires_at = now + ip_refresh_ttl P * 1000, rt_revoked_at = None, rt_replaced_by = None\<rparr>"

datatype sign_in_outcome = Authenticated id bool | InvalidCredentials | AccountDisabled

text \<open>The account and its password are looked at before the transaction that starts the session.\<close>

definition sign_in ::
  "identity_ports \<Rightarrow> string \<Rightarrow> string \<Rightarrow> id \<Rightarrow> id \<Rightarrow> string \<Rightarrow> time \<Rightarrow> identity \<Rightarrow> identity \<Rightarrow>
     (sign_in_outcome \<times> identity) result" where
  "sign_in P email password fresh session token now rd db =
     (case find_account_by_email (normalize_email email) rd of
        None \<Rightarrow> Inr (InvalidCredentials, db)
      | Some u \<Rightarrow>
          if \<not> ip_verify P password (us_password_hash u) then Inr (InvalidCredentials, db)
          else if \<not> can_sign_in u then Inr (AccountDisabled, db)
          else res_bind (add_refresh_token (new_refresh_token P fresh token (us_id u) session now) (id_tokens db)) (\<lambda>ts.
            res_bind (record_sign_in (us_id u) now (db\<lparr>id_tokens := ts\<rparr>)) (\<lambda>db'.
              Inr (Authenticated (us_id u) (us_must_change_password u), db'))))"

datatype refresh_outcome = Renewed id bool | RefreshInvalid

definition refresh_session ::
  "identity_ports \<Rightarrow> string \<Rightarrow> id \<Rightarrow> string \<Rightarrow> time \<Rightarrow> identity \<Rightarrow> identity \<Rightarrow> (refresh_outcome \<times> identity) result" where
  "refresh_session P token fresh new_token now rd db =
     (case find_refresh_token (ip_digest P token) (id_tokens db) of
        None \<Rightarrow> Inr (RefreshInvalid, db)
      | Some t \<Rightarrow>
          if refresh_token_state t now = Rotated
          then Inr (RefreshInvalid, with_tokens (\<lambda>ts. snd (revoke_session (rt_session t) now ts)) db)
          else if refresh_token_state t now \<noteq> Usable then Inr (RefreshInvalid, db)
          else (case find_account (rt_user t) rd of
                  None \<Rightarrow> Inr (RefreshInvalid, db)
                | Some u \<Rightarrow>
                    if \<not> can_sign_in u then Inr (RefreshInvalid, db)
                    else (let db1 = record_activity (us_id u) now db
                          in res_bind (rotate_token t (new_refresh_token P fresh new_token (us_id u) (rt_session t) now)
                                         now (id_tokens db1)) (\<lambda>ts.
                               Inr (Renewed (us_id u) (us_must_change_password u), db1\<lparr>id_tokens := ts\<rparr>)))))"

definition sign_out :: "identity_ports \<Rightarrow> id \<Rightarrow> string \<Rightarrow> time \<Rightarrow> identity \<Rightarrow> identity" where
  "sign_out P user token now db =
     (case find_refresh_token (ip_digest P token) (id_tokens db) of
        None \<Rightarrow> db
      | Some t \<Rightarrow>
          if rt_user t \<noteq> user then db
          else with_tokens (\<lambda>ts. snd (revoke_session (rt_session t) now ts)) db)"

text \<open>Who is calling: the account, its type, its permissions and whether it must change its password.\<close>

definition resolve_signed_in_account ::
  "id \<Rightarrow> id \<Rightarrow> time \<Rightarrow> identity \<Rightarrow> (id \<times> user_type \<times> string list \<times> bool) option" where
  "resolve_signed_in_account user session now db =
     (case find_account user db of
        None \<Rightarrow> None
      | Some u \<Rightarrow>
          if \<not> can_sign_in u \<or> \<not> session_is_active session user now (id_tokens db) then None
          else Some (us_id u, us_type u, account_permissions u db, us_must_change_password u))"

text \<open>Each kind in batches of its own; a kind that fails leaves the others to go on.\<close>

definition clean_tokens :: "identity_ports \<Rightarrow> time \<Rightarrow> identity \<Rightarrow> identity" where
  "clean_tokens P now db =
     (let before = days_before now (ip_token_days P)
      in db\<lparr>id_tokens := snd (delete_in_batches (delete_refresh_tokens before) CLEANUP_BATCH_SIZE CLEANUP_MAX_BATCHES 0
               (id_tokens db)),
           id_verifications := snd (delete_in_batches (delete_spent_links now) CLEANUP_BATCH_SIZE CLEANUP_MAX_BATCHES 0
               (id_verifications db)),
           id_resets := snd (delete_in_batches (delete_spent_links now) CLEANUP_BATCH_SIZE CLEANUP_MAX_BATCHES 0
               (id_resets db))\<rparr>)"

section \<open>Everything that happens\<close>

datatype identity_event =
    RegisterCustomer id string string string string string string id string time
  | CreateStaff id id string string string "id list" string "nat \<Rightarrow> nat \<Rightarrow> nat" time
  | CreateFirstSuperadmin id string string string string "nat \<Rightarrow> nat \<Rightarrow> nat" time
  | ReplaceStaffRoles id id "id list" int
  | SuspendStaff id id int time
  | ReactivateStaffMember id id int string "nat \<Rightarrow> nat \<Rightarrow> nat" time
  | CreateRole id id string "string option" "string list"
  | UpdateRole id id "string option" "string option option" "string list option" int
  | DeleteRole id
  | SuspendCustomer id int time
  | ReactivateCustomerAccount id int
  | RectifyCustomer id "string option" "string option"
  | AnonymizeCustomer id int time
  | AnonymizeInactiveCustomer id time time
  | ChangeOwnPassword id id string string string time
  | ChangeOwnEmail id string string id string time
  | RequestPasswordReset string id string time
  | ResetForgottenPassword string string string time
  | ResendEmailVerification string id string time
  | ConfirmEmail string time
  | SignIn string string id id string time
  | RefreshSession string id string time
  | SignOut id string time
  | CleanTokens time

text \<open>The second tables are those the operation changes; the first, those it read its account or role in.\<close>

fun identity_step :: "identity_ports \<Rightarrow> identity \<Rightarrow> identity \<Rightarrow> identity_event \<Rightarrow> identity result" where
  "identity_step P rd db (RegisterCustomer i e pw f l n h k t now) = register_customer P i e pw f l n h k t now db"
| "identity_step P rd db (CreateStaff a i e f l rs h d now) =
     res_bind (create_staff P (Some a) i e f l rs h d now db) (\<lambda>(_, db'). Inr db')"
| "identity_step P rd db (CreateFirstSuperadmin i e f l h d now) =
     res_bind (create_first_superadmin P i e f l h d now db) (\<lambda>(_, db'). Inr db')"
| "identity_step P rd db (ReplaceStaffRoles a i rs v) = replace_staff_roles a i rs v rd db"
| "identity_step P rd db (SuspendStaff a i v now) = suspend_staff a i v now rd db"
| "identity_step P rd db (ReactivateStaffMember a i v h d now) =
     res_bind (reactivate_staff P a i v h d now rd db) (\<lambda>(_, db'). Inr db')"
| "identity_step P rd db (CreateRole a i n d ps) = create_role a i n d ps db"
| "identity_step P rd db (UpdateRole a i n d ps v) = update_role a i n d ps v rd db"
| "identity_step P rd db (DeleteRole i) = delete_role i rd db"
| "identity_step P rd db (SuspendCustomer i v now) = suspend_customer i v now rd db"
| "identity_step P rd db (ReactivateCustomerAccount i v) = reactivate_customer i v rd db"
| "identity_step P rd db (RectifyCustomer i f l) = rectify_customer i f l rd db"
| "identity_step P rd db (AnonymizeCustomer i v at) = anonymize_customer i v at rd db"
| "identity_step P rd db (AnonymizeInactiveCustomer i since at) =
     res_bind (anonymize_inactive_customer i since at db) (\<lambda>(_, db'). Inr db')"
| "identity_step P rd db (ChangeOwnPassword i s c n h now) =
     res_bind (change_password P i s c n h now rd db) (\<lambda>(_, db'). Inr db')"
| "identity_step P rd db (ChangeOwnEmail i e c k t now) =
     res_bind (change_email P i e c k t now rd db) (\<lambda>(_, db'). Inr db')"
| "identity_step P rd db (RequestPasswordReset e k t now) =
     res_bind (request_password_reset P e k t now rd db) (\<lambda>(_, db'). Inr db')"
| "identity_step P rd db (ResetForgottenPassword t n h now) = reset_password P t n h now rd db"
| "identity_step P rd db (ResendEmailVerification e k t now) =
     res_bind (resend_email_verification P e k t now rd db) (\<lambda>(_, db'). Inr db')"
| "identity_step P rd db (ConfirmEmail t now) = confirm_email P t now rd db"
| "identity_step P rd db (SignIn e pw i s t now) =
     res_bind (sign_in P e pw i s t now rd db) (\<lambda>(_, db'). Inr db')"
| "identity_step P rd db (RefreshSession t i n now) =
     res_bind (refresh_session P t i n now rd db) (\<lambda>(_, db'). Inr db')"
| "identity_step P rd db (SignOut i t now) = Inr (sign_out P i t now db)"
| "identity_step P rd db (CleanTokens now) = Inr (clean_tokens P now db)"

end
