(* ===== verification/AccountsOk.thy ===== *)
theory AccountsOk
  imports Identity
begin

text \<open>
  What the tables of identity and access keep, statement by statement: accounts and roles as their constraints ask, one
  superadmin role, and what saving an account that was read in older tables finds: if its version still matches, nothing
  of it has changed.
\<close>

section \<open>The invariants\<close>

definition wf_roles :: "identity \<Rightarrow> bool" where
  "wf_roles db \<longleftrightarrow>
     distinct (map ro_id (id_roles db)) \<and> distinct (map ro_name (id_roles db)) \<and> list_all wf_role (id_roles db)
     \<and> length (filter ro_superadmin (id_roles db)) = 1"

definition wf_accounts :: "identity \<Rightarrow> bool" where
  "wf_accounts db \<longleftrightarrow>
     distinct (map us_id (id_accounts db)) \<and> list_all wf_user (id_accounts db)
     \<and> distinct (map us_email (filter (\<lambda>a. us_email a \<noteq> None) (id_accounts db)))
     \<and> list_all (\<lambda>a. roles_exist (us_roles a) db) (id_accounts db)"

definition wf_identity :: "identity \<Rightarrow> bool" where
  "wf_identity db \<longleftrightarrow>
     wf_roles db \<and> wf_accounts db \<and> wf_sessions (id_tokens db) \<and> wf_links (id_verifications db)
     \<and> wf_links (id_resets db)"

text \<open>The tables that do not change keep what is said of them.\<close>

lemma roles_exist_cong: "id_roles db = id_roles db' \<Longrightarrow> roles_exist rs db = roles_exist rs db'"
  by (simp add: roles_exist_def)

lemma wf_roles_frame [simp]:
  "wf_roles (db\<lparr>id_tokens := ts\<rparr>) = wf_roles db" "wf_roles (db\<lparr>id_verifications := vs\<rparr>) = wf_roles db"
  "wf_roles (db\<lparr>id_resets := ls\<rparr>) = wf_roles db" "wf_roles (db\<lparr>id_accounts := as\<rparr>) = wf_roles db"
  by (simp_all add: wf_roles_def)

lemma wf_accounts_frame [simp]:
  "wf_accounts (db\<lparr>id_tokens := ts\<rparr>) = wf_accounts db" "wf_accounts (db\<lparr>id_verifications := vs\<rparr>) = wf_accounts db"
  "wf_accounts (db\<lparr>id_resets := ls\<rparr>) = wf_accounts db"
  by (simp_all add: wf_accounts_def roles_exist_def)

lemma find_account_frame [simp]:
  "find_account i (db\<lparr>id_tokens := ts\<rparr>) = find_account i db"
  "find_account i (db\<lparr>id_verifications := vs\<rparr>) = find_account i db"
  "find_account i (db\<lparr>id_resets := ls\<rparr>) = find_account i db"
  "find_account i (db\<lparr>id_roles := rs\<rparr>) = find_account i db"
  by (simp_all add: find_account_def)

section \<open>Finding\<close>

lemma user_truncate_fields [simp]:
  "us_id (user.truncate a) = us_id a" "us_type (user.truncate a) = us_type a"
  "us_status (user.truncate a) = us_status a" "us_email (user.truncate a) = us_email a"
  "us_first_names (user.truncate a) = us_first_names a" "us_last_names (user.truncate a) = us_last_names a"
  "us_email_verified_at (user.truncate a) = us_email_verified_at a"
  "us_password_hash (user.truncate a) = us_password_hash a"
  "us_suspended_at (user.truncate a) = us_suspended_at a" "us_anonymized_at (user.truncate a) = us_anonymized_at a"
  "us_roles (user.truncate a) = us_roles a" "us_version (user.truncate a) = us_version a"
  by (simp_all add: user.truncate_def)

lemma wf_user_truncate [simp]: "wf_user (user.truncate a) = wf_user a"
  by (simp add: wf_user_def)

lemma find_accountD:
  assumes "find_account i db = Some u"
  shows "\<exists>a. a \<in> set (id_accounts db) \<and> us_id a = i \<and> u = user.truncate a"
proof -
  from assms obtain a where "find (\<lambda>a. us_id a = i) (id_accounts db) = Some a" and "u = user.truncate a"
    by (auto simp: find_account_def)
  with find_SomeD [of "\<lambda>a. us_id a = i" "id_accounts db" a] show ?thesis by blast
qed

lemma find_account_id: "find_account i db = Some u \<Longrightarrow> us_id u = i"
  by (auto dest: find_accountD)

lemma find_account_in:
  assumes "distinct (map us_id (id_accounts db))" and "a \<in> set (id_accounts db)"
  shows "find_account (us_id a) db = Some (user.truncate a)"
  using find_key [OF assms] by (simp add: find_account_def)

lemma find_account_wf: "find_account i db = Some u \<Longrightarrow> wf_accounts db \<Longrightarrow> wf_user u"
  by (auto simp: wf_accounts_def list_all_iff dest!: find_accountD)

lemma find_user_of_typeD:
  "find_user_of_type i ty db = Inr u \<Longrightarrow> find_account i db = Some u \<and> us_type u = ty"
  by (auto simp: find_user_of_type_def split: option.splits if_splits)

lemma superadmin_role:
  assumes "wf_roles db" and "lock_superadmin_role db = Inr s"
  shows "\<exists>r. r \<in> set (id_roles db) \<and> ro_superadmin r \<and> ro_id r = s"
proof -
  from assms(2) obtain r where "find ro_superadmin (id_roles db) = Some r" and "s = ro_id r"
    by (auto simp: lock_superadmin_role_def split: option.splits)
  with find_SomeD [of ro_superadmin "id_roles db" r] show ?thesis by blast
qed

lemma one_superadmin_role:
  assumes "wf_roles db" and r: "r \<in> set (id_roles db)" "ro_superadmin r" and s: "s \<in> set (id_roles db)" "ro_superadmin s"
  shows "r = s"
proof -
  have "length (filter ro_superadmin (id_roles db)) = 1" using assms(1) by (simp add: wf_roles_def)
  then obtain x where x: "filter ro_superadmin (id_roles db) = [x]" by (auto simp: length_Suc_conv)
  have "r \<in> set (filter ro_superadmin (id_roles db))" "s \<in> set (filter ro_superadmin (id_roles db))"
    using r s by simp_all
  then show ?thesis by (simp add: x)
qed

lemma role_by_id:
  "wf_roles db \<Longrightarrow> r \<in> set (id_roles db) \<Longrightarrow> s \<in> set (id_roles db) \<Longrightarrow> ro_id r = ro_id s \<Longrightarrow> r = s"
  using same_key [of ro_id "id_roles db" r s] by (simp add: wf_roles_def)

lemma find_role_by_idD: "find_role_by_id i db = Some r \<Longrightarrow> r \<in> set (id_roles db) \<and> ro_id r = i"
  unfolding find_role_by_id_def by (drule find_SomeD) simp

lemma find_roleD: "find_role i db = Inr r \<Longrightarrow> r \<in> set (id_roles db) \<and> ro_id r = i"
  by (auto simp: find_role_def dest: find_role_by_idD split: option.splits)

section \<open>Saving an account\<close>

lemma set_stored_roles [simp]: "set (stored_roles old new) = set new"
  by (auto simp: stored_roles_def)

lemma distinct_stored_roles: "distinct old \<Longrightarrow> distinct new \<Longrightarrow> distinct (stored_roles old new)"
  by (auto simp: stored_roles_def)

lemma stored_roles_Nil [simp]: "stored_roles old new = [] \<longleftrightarrow> new = []"
  using set_stored_roles [of old new] set_empty by metis

lemma saved_account_other [simp]: "us_id a \<noteq> us_id u \<Longrightarrow> saved_account u a = a"
  by (simp add: saved_account_def)

lemma saved_account_simps [simp]:
  "us_id (saved_account u a) = us_id a" "us_type (saved_account u a) = us_type a"
  "us_id a = us_id u \<Longrightarrow> us_status (saved_account u a) = us_status u"
  "us_id a = us_id u \<Longrightarrow> us_email (saved_account u a) = us_email u"
  "us_id a = us_id u \<Longrightarrow> us_password_hash (saved_account u a) = us_password_hash u"
  "us_id a = us_id u \<Longrightarrow> us_roles (saved_account u a) = stored_roles (us_roles a) (us_roles u)"
  "us_id a = us_id u \<Longrightarrow> us_version (saved_account u a) = us_version a + 1"
  by (simp_all add: saved_account_def)

lemma saved_account_wf:
  assumes "us_id a = us_id u" and "us_type a = us_type u" and "wf_user u" and "wf_user a"
  shows "wf_user (saved_account u a)"
  using assms by (simp add: wf_user_def saved_account_def distinct_stored_roles)

lemma save_accountD:
  assumes "save_account u db = Inr db'"
  shows "db' = db\<lparr>id_accounts := map (saved_account u) (id_accounts db)\<rparr>"
    and "\<exists>a. a \<in> set (id_accounts db) \<and> us_id a = us_id u \<and> us_version a = us_version u"
    and "\<not> email_taken u db" and "roles_exist (us_roles u) db"
proof -
  from assms obtain a where f: "find (\<lambda>a. us_id a = us_id u) (id_accounts db) = Some a"
    by (auto simp: save_account_def split: option.splits)
  with assms show "db' = db\<lparr>id_accounts := map (saved_account u) (id_accounts db)\<rparr>"
    and "\<not> email_taken u db" and "roles_exist (us_roles u) db"
    by (simp_all add: save_account_def split: if_splits)
  have "us_version a = us_version u" using assms f by (simp add: save_account_def split: if_splits)
  with find_SomeD [OF f]
  show "\<exists>a. a \<in> set (id_accounts db) \<and> us_id a = us_id u \<and> us_version a = us_version u" by blast
qed

lemma account_by_id:
  "distinct (map us_id (id_accounts db)) \<Longrightarrow> a \<in> set (id_accounts db) \<Longrightarrow> b \<in> set (id_accounts db) \<Longrightarrow>
     us_id a = us_id b \<Longrightarrow> a = b"
  by (rule same_key)

lemma save_account_wf:
  assumes save: "save_account u db = Inr db'" and wf: "wf_accounts db" and u: "wf_user u"
    and ty: "\<And>a. a \<in> set (id_accounts db) \<Longrightarrow> us_id a = us_id u \<Longrightarrow> us_type a = us_type u"
  shows "wf_accounts db'"
proof -
  note parts = save_accountD [OF save]
  let ?as = "id_accounts db"
  let ?s = "saved_account u"
  have d: "distinct (map us_id ?as)" using wf by (simp add: wf_accounts_def)
  have accounts: "id_accounts db' = map ?s ?as" and roles: "id_roles db' = id_roles db"
    by (simp_all add: parts(1))
  have "distinct (map us_id (map ?s ?as))" using d by (simp add: comp_def)
  moreover have "wf_user (?s a)" if "a \<in> set ?as" for a
    using that saved_account_wf [OF _ ty [OF that] u] wf
    by (cases "us_id a = us_id u") (simp_all add: wf_accounts_def list_all_iff)
  moreover have "roles_exist (us_roles (?s a)) db'" if "a \<in> set ?as" for a
    using that parts(4) wf
    by (cases "us_id a = us_id u") (simp_all add: wf_accounts_def list_all_iff roles_exist_def roles)
  moreover have "distinct (map us_email (filter (\<lambda>a. us_email a \<noteq> None) (map ?s ?as)))"
  proof -
    have em: "distinct (map us_email (filter (\<lambda>a. us_email a \<noteq> None) ?as))" using wf by (simp add: wf_accounts_def)
    have other: "us_email a \<noteq> us_email u" if "a \<in> set ?as" "us_id a \<noteq> us_id u" "us_email u \<noteq> None" for a
      using parts(3) that by (auto simp: email_taken_def list_ex_iff)
    have "set bs \<subseteq> set ?as \<Longrightarrow> distinct (map us_id bs)
        \<Longrightarrow> distinct (map us_email (filter (\<lambda>a. us_email a \<noteq> None) bs))
        \<Longrightarrow> distinct (map us_email (filter (\<lambda>a. us_email a \<noteq> None) (map ?s bs)))" for bs
    proof (induction bs)
      case Nil
      then show ?case by simp
    next
      case (Cons b bs)
      then have ih: "distinct (map us_email (filter (\<lambda>a. us_email a \<noteq> None) (map ?s bs)))"
        and b: "b \<in> set ?as" and sub: "set bs \<subseteq> set ?as" and new: "us_id b \<notin> us_id ` set bs"
        by (auto split: if_splits)
      have "us_email (?s b) \<noteq> us_email (?s c)" if "c \<in> set bs" "us_email (?s b) \<noteq> None" for c
      proof (cases "us_id b = us_id u")
        case True
        with that new have "us_id c \<noteq> us_id u" by (metis imageI)
        with True that sub other [of c] show ?thesis by auto
      next
        case False
        show ?thesis
        proof (cases "us_id c = us_id u")
          case True
          with False that b other [of b] show ?thesis by (cases "us_email u") auto
        next
          case other_c: False
          with False that Cons.prems(3) show ?thesis by (auto split: if_splits)
        qed
      qed
      then have "us_email (?s b) \<noteq> None \<Longrightarrow> us_email (?s b) \<notin> us_email ` ?s ` set bs" by auto
      with ih show ?case by (auto simp: image_iff)
    qed
    from this [of ?as] d em show ?thesis by simp
  qed
  ultimately show ?thesis by (simp add: wf_accounts_def accounts list_all_iff)
qed

lemma add_accountD:
  assumes "add_account u db = Inr db'"
  shows "db' = db\<lparr>id_accounts := id_accounts db @ [new_account u]\<rparr>"
    and "us_id u \<notin> us_id ` set (id_accounts db)" and "\<not> email_taken u db" and "roles_exist (us_roles u) db"
  using assms by (simp_all add: add_account_def split: if_splits)

lemma new_account_simps [simp]:
  "us_id (new_account u) = us_id u" "us_type (new_account u) = us_type u" "us_status (new_account u) = us_status u"
  "us_email (new_account u) = us_email u" "us_roles (new_account u) = us_roles u"
  "us_version (new_account u) = us_version u" "us_password_hash (new_account u) = us_password_hash u"
  by (simp_all add: new_account_def)

lemma add_account_wf:
  assumes add: "add_account u db = Inr db'" and wf: "wf_accounts db" and u: "wf_user u"
    and n: "us_status u = ACTIVE"
  shows "wf_accounts db'"
proof -
  note parts = add_accountD [OF add]
  have w: "wf_user (new_account u)" using u n by (simp add: wf_user_def new_account_def)
  have "us_email a \<noteq> us_email u" if "a \<in> set (id_accounts db)" "us_email u \<noteq> None" for a
    using parts(2,3) that by (force simp: email_taken_def list_ex_iff)
  then have e: "us_email u \<noteq> None \<Longrightarrow> us_email u \<notin> us_email ` set (id_accounts db)" by auto
  show ?thesis unfolding wf_accounts_def parts(1) using wf w parts(2,4) e
    by (auto simp: wf_accounts_def roles_exist_def)
qed

text \<open>A sign-in and an activity change no more than their times.\<close>

lemma touched_account_simps [simp]:
  "us_id (signed_in_at i at a) = us_id a" "us_type (signed_in_at i at a) = us_type a"
  "us_status (signed_in_at i at a) = us_status a" "us_email (signed_in_at i at a) = us_email a"
  "us_roles (signed_in_at i at a) = us_roles a" "us_version (signed_in_at i at a) = us_version a"
  "wf_user (signed_in_at i at a) = wf_user a"
  "us_id (active_at i at a) = us_id a" "us_type (active_at i at a) = us_type a"
  "us_status (active_at i at a) = us_status a" "us_email (active_at i at a) = us_email a"
  "us_roles (active_at i at a) = us_roles a" "us_version (active_at i at a) = us_version a"
  "wf_user (active_at i at a) = wf_user a" "user.truncate (active_at i at a) = user.truncate a"
  by (simp_all add: signed_in_at_def active_at_def wf_user_def user.truncate_def)

lemma touched_wf:
  assumes "wf_accounts db" and "\<And>a. us_id (f a) = us_id a" "\<And>a. us_email (f a) = us_email a"
    "\<And>a. us_roles (f a) = us_roles a" "\<And>a. wf_user (f a) = wf_user a"
  shows "wf_accounts (db\<lparr>id_accounts := map f (id_accounts db)\<rparr>)"
proof -
  have "map us_email (filter (\<lambda>a. us_email a \<noteq> None) (map f (id_accounts db)))
      = map us_email (filter (\<lambda>a. us_email a \<noteq> None) (id_accounts db))"
    by (simp add: filter_map comp_def assms(3))
  with assms(1,2,4,5) show ?thesis by (simp add: wf_accounts_def comp_def list_all_iff roles_exist_def)
qed

lemma record_sign_in_wf: "record_sign_in i at db = Inr db' \<Longrightarrow> wf_accounts db \<Longrightarrow> wf_accounts db'"
  using touched_wf [of db "signed_in_at i at"] by (simp add: record_sign_in_def split: if_splits)

lemma record_activity_wf: "wf_accounts db \<Longrightarrow> wf_accounts (record_activity i at db)"
  unfolding record_activity_def by (rule touched_wf) simp_all

section \<open>Saving and deleting a role\<close>

lemma set_stored_permissions [simp]: "set (stored_permissions old new) = set new"
  by (auto simp: stored_permissions_def)

lemma saved_role_simps [simp]:
  "ro_id (saved_role r s) = ro_id s" "ro_superadmin (saved_role r s) = ro_superadmin s"
  "ro_id s \<noteq> ro_id r \<Longrightarrow> saved_role r s = s"
  "ro_id s = ro_id r \<Longrightarrow> ro_name (saved_role r s) = ro_name r"
  "ro_id s = ro_id r \<Longrightarrow> set (ro_permissions (saved_role r s)) = set (ro_permissions r)"
  by (simp_all add: saved_role_def)

lemma saved_role_wf:
  assumes "ro_id s = ro_id r" and "wf_role r" and "wf_role s" and "ro_superadmin r = ro_superadmin s"
  shows "wf_role (saved_role r s)"
proof -
  have "distinct (stored_permissions (ro_permissions s) (ro_permissions r))"
    using assms(2,3) by (auto simp: stored_permissions_def wf_role_def)
  moreover have "list_all p (stored_permissions xs ys) = list_all p ys" for p xs ys
    by (simp add: list_all_iff)
  moreover have "list_ex p (stored_permissions xs ys) = list_ex p ys" for p xs ys
    by (simp add: list_ex_iff)
  moreover have "stored_permissions xs [] = []" for xs by (simp add: stored_permissions_def)
  ultimately show ?thesis using assms by (auto simp: saved_role_def wf_role_def)
qed

text \<open>An existing role, saved by whoever read it as it is, or a new one.\<close>

lemma save_role_cases:
  assumes "save_role r db = Inr db'"
  shows "\<not> role_name_taken r db"
    and "(\<exists>s. s \<in> set (id_roles db) \<and> ro_id s = ro_id r \<and> ro_version s = ro_version r
            \<and> db' = db\<lparr>id_roles := map (saved_role r) (id_roles db)\<rparr>)
      \<or> ro_id r \<notin> ro_id ` set (id_roles db) \<and> db' = db\<lparr>id_roles := id_roles db @ [r\<lparr>ro_version := 1\<rparr>]\<rparr>"
proof -
  show "\<not> role_name_taken r db" using assms by (auto simp: save_role_def split: option.splits if_splits)
  show "(\<exists>s. s \<in> set (id_roles db) \<and> ro_id s = ro_id r \<and> ro_version s = ro_version r
            \<and> db' = db\<lparr>id_roles := map (saved_role r) (id_roles db)\<rparr>)
      \<or> ro_id r \<notin> ro_id ` set (id_roles db) \<and> db' = db\<lparr>id_roles := id_roles db @ [r\<lparr>ro_version := 1\<rparr>]\<rparr>"
  proof (cases "find (\<lambda>s. ro_id s = ro_id r) (id_roles db)")
    case None
    then have "ro_id r \<notin> ro_id ` set (id_roles db)" by (auto simp: find_None_iff)
    with None assms show ?thesis by (simp add: save_role_def split: if_splits)
  next
    case (Some s)
    with assms find_SomeD [OF Some] show ?thesis by (auto simp: save_role_def split: if_splits)
  qed
qed

lemma names_stay_distinct:
  assumes "distinct (map ro_id rs)" and "distinct (map ro_name rs)"
    and "\<And>s. s \<in> set rs \<Longrightarrow> ro_id s \<noteq> ro_id r \<Longrightarrow> ro_name s \<noteq> ro_name r"
  shows "distinct (map ro_name (map (saved_role r) rs))"
  using assms
proof (induction rs)
  case Nil
  then show ?case by simp
next
  case (Cons s rs)
  then have ih: "distinct (map ro_name (map (saved_role r) rs))" by auto
  have "ro_name (saved_role r s) \<noteq> ro_name (saved_role r t)" if "t \<in> set rs" for t
  proof (cases "ro_id s = ro_id r")
    case True
    with Cons.prems(1) that have "ro_id t \<noteq> ro_id r" by (metis distinct.simps(2) imageI list.simps(9) set_map)
    with True that Cons.prems(3) [of t] show ?thesis by simp
  next
    case False
    with that Cons.prems(2) Cons.prems(3) [of s] show ?thesis by (cases "ro_id t = ro_id r") auto
  qed
  with ih show ?case by auto
qed

lemma save_role_wf:
  assumes save: "save_role r db = Inr db'" and wf: "wf_roles db" and r: "wf_role r"
    and s: "\<And>s. s \<in> set (id_roles db) \<Longrightarrow> ro_id s = ro_id r \<Longrightarrow> ro_superadmin s = ro_superadmin r"
    and new: "ro_id r \<notin> ro_id ` set (id_roles db) \<Longrightarrow> \<not> ro_superadmin r"
  shows "wf_roles db'"
  using save_role_cases(2) [OF save]
proof (elim disjE exE conjE)
  fix t
  assume db': "db' = db\<lparr>id_roles := map (saved_role r) (id_roles db)\<rparr>"
  have "ro_name q \<noteq> ro_name r" if "q \<in> set (id_roles db)" "ro_id q \<noteq> ro_id r" for q
    using save_role_cases(1) [OF save] that by (auto simp: role_name_taken_def list_ex_iff)
  then have "distinct (map ro_name (map (saved_role r) (id_roles db)))"
    using wf names_stay_distinct [of "id_roles db" r] by (simp add: wf_roles_def)
  moreover have "wf_role (saved_role r q)" if "q \<in> set (id_roles db)" for q
    using that wf saved_role_wf [OF _ r, of q] s [of q]
    by (cases "ro_id q = ro_id r") (simp_all add: wf_roles_def list_all_iff)
  moreover have "length (filter ro_superadmin (map (saved_role r) (id_roles db))) = length (filter ro_superadmin (id_roles db))"
    by (simp add: filter_map comp_def)
  ultimately show ?thesis using wf by (simp add: wf_roles_def db' comp_def list_all_iff)
next
  assume absent: "ro_id r \<notin> ro_id ` set (id_roles db)"
    and db': "db' = db\<lparr>id_roles := id_roles db @ [r\<lparr>ro_version := 1\<rparr>]\<rparr>"
  have "ro_name q \<noteq> ro_name r" if "q \<in> set (id_roles db)" for q
  proof -
    have "ro_id q \<noteq> ro_id r" using that absent by (metis imageI)
    with save_role_cases(1) [OF save] that show ?thesis by (auto simp: role_name_taken_def list_ex_iff)
  qed
  then have "ro_name r \<notin> ro_name ` set (id_roles db)" by (metis imageE)
  moreover have "wf_role (r\<lparr>ro_version := 1\<rparr>)" using r by (simp add: wf_role_def)
  ultimately show ?thesis using wf absent new by (simp add: wf_roles_def db')
qed

lemma save_role_accounts:
  assumes "save_role r db = Inr db'" and "wf_accounts db"
  shows "wf_accounts db'"
proof -
  have "ro_id ` set (id_roles db) \<subseteq> ro_id ` set (id_roles db')" and "id_accounts db' = id_accounts db"
    using save_role_cases(2) [OF assms(1)] by (auto simp: image_image)
  then show ?thesis using assms(2) by (auto simp: wf_accounts_def roles_exist_def list_all_iff)
qed

lemma delete_role_rowD:
  "delete_role_row i db = Inr db' \<Longrightarrow>
     db' = db\<lparr>id_roles := filter (\<lambda>r. ro_id r \<noteq> i) (id_roles db)\<rparr> \<and> (\<forall>a \<in> set (id_accounts db). i \<notin> set (us_roles a))"
  by (auto simp: delete_role_row_def list_ex_iff split: if_splits)

lemma delete_role_row_wf:
  assumes del: "delete_role_row i db = Inr db'" and wf: "wf_roles db" "wf_accounts db"
    and ns: "\<And>r. r \<in> set (id_roles db) \<Longrightarrow> ro_id r = i \<Longrightarrow> \<not> ro_superadmin r"
  shows "wf_roles db' \<and> wf_accounts db'"
proof
  note d = delete_role_rowD [OF del]
  have "filter ro_superadmin (filter (\<lambda>r. ro_id r \<noteq> i) (id_roles db)) = filter ro_superadmin (id_roles db)"
    using ns by (auto intro: filter_cong)
  with d wf(1) show "wf_roles db'" by (auto simp: wf_roles_def distinct_map_filter list_all_iff)
  have "roles_exist (us_roles a) db'" if "a \<in> set (id_accounts db)" for a
    using d wf(2) that by (fastforce simp: wf_accounts_def roles_exist_def list_all_iff)
  with d wf(2) show "wf_accounts db'" by (simp add: wf_accounts_def list_all_iff)
qed

end
