(* ===== verification/IdentityOps.thy ===== *)
theory IdentityOps
  imports AccountsOk
begin

text \<open>
  What each use case of identity and access did when it returned: the account it read, what the account made of it, and
  the tables it left.
\<close>

named_theorems identity_ops \<open>what a use case did when it returned\<close>

lemma find_user_of_type_Inr:
  "find_user_of_type i ty db = Inr u \<longleftrightarrow> find_account i db = Some u \<and> us_type u = ty"
  by (auto simp: find_user_of_type_def split: option.splits)

lemma if_Inr_Inr: "(if b then Inr x else r) = Inr y \<longleftrightarrow> (b \<and> x = y) \<or> (\<not> b \<and> r = Inr y)"
  by auto

lemma prod_bind_Inr:
  "res_bind m (\<lambda>(x, y). Inr y) = Inr z \<longleftrightarrow> (\<exists>x. m = Inr (x, z))"
  by (cases m) auto

lemma issue_temporary_passwordD:
  "issue_temporary_password U common (\<lambda>_. hash) draw = Inr (password, h) \<Longrightarrow> h = hash"
  by (auto simp: issue_temporary_password_def res_bind_eq_Inr Let_def)

lemma create_staff_Inr [identity_ops]:
  "create_staff P actor i e f l rs h d now db = Inr (pw, db') \<Longrightarrow>
     \<exists>u. length (find_roles (new_set rs) db) = length (new_set rs)
       \<and> (case actor of None \<Rightarrow> Inr () | Some a \<Rightarrow> assert_can_grant_roles a (find_roles (new_set rs) db) db) = Inr ()
       \<and> user_create_staff i e f l (new_set rs) h now = Inr u \<and> add_account u db = Inr db'"
  by (auto simp: create_staff_def res_bind_eq_Inr if_Inl_eq_Inr simp del: set_new_set dest!: issue_temporary_passwordD)

lemma replace_staff_roles_Inr [identity_ops]:
  "replace_staff_roles actor i rs v rd db = Inr db' \<longleftrightarrow>
     (\<exists>u u'. find_account i rd = Some u \<and> us_type u = STAFF \<and> us_version u = v
       \<and> length (find_roles (new_set rs) db) = length (new_set rs)
       \<and> assert_can_grant_roles actor (filter (\<lambda>r. ro_id r \<notin> set (us_roles u)) (find_roles (new_set rs) db)) db = Inr ()
       \<and> ensure_another_remains u (\<lambda>s. s \<in> set (new_set rs)) db = Inr ()
       \<and> user_replace_roles (new_set rs) u = Inr u' \<and> save_account u' db = Inr db')"
  by (auto simp: replace_staff_roles_def res_bind_eq_Inr if_Inl_eq_Inr find_user_of_type_Inr simp del: set_new_set)

lemma suspend_staff_Inr [identity_ops]:
  "suspend_staff actor i v now rd db = Inr db' \<longleftrightarrow>
     (\<exists>u u' db1. find_account i rd = Some u \<and> us_type u = STAFF \<and> us_version u = v \<and> us_id u \<noteq> actor
       \<and> ensure_another_remains u (\<lambda>_. False) db = Inr () \<and> user_suspend now u = Inr u'
       \<and> save_account u' db = Inr db1 \<and> db' = with_tokens (revoke_all_of (us_id u) now None) db1)"
  by (auto simp: suspend_staff_def res_bind_eq_Inr if_Inl_eq_Inr find_user_of_type_Inr)

lemma reactivate_staff_Inr [identity_ops]:
  "reactivate_staff P actor i v h d now rd db = Inr (pw, db') \<longleftrightarrow>
     (\<exists>u u'. issue_temporary_password (ip_unicode P) (ip_common P) (\<lambda>_. h) d = Inr (pw, h)
       \<and> find_account i rd = Some u \<and> us_type u = STAFF \<and> us_version u = v
       \<and> assert_can_grant_roles actor (find_roles (us_roles u) db) db = Inr ()
       \<and> user_reactivate_staff h now u = Inr u' \<and> save_account u' db = Inr db')"
  by (auto simp: reactivate_staff_def res_bind_eq_Inr find_user_of_type_Inr dest: issue_temporary_passwordD)

lemma suspend_customer_Inr [identity_ops]:
  "suspend_customer i v now rd db = Inr db' \<longleftrightarrow>
     (\<exists>u u' db1. find_account i rd = Some u \<and> us_type u = CUSTOMER \<and> us_version u = v
       \<and> user_suspend now u = Inr u' \<and> save_account u' db = Inr db1
       \<and> db' = with_tokens (revoke_all_of (us_id u) now None) db1)"
  by (auto simp: suspend_customer_def res_bind_eq_Inr find_user_of_type_Inr)

lemma reactivate_customer_Inr [identity_ops]:
  "reactivate_customer i v rd db = Inr db' \<longleftrightarrow>
     (\<exists>u u'. find_account i rd = Some u \<and> us_type u = CUSTOMER \<and> us_version u = v
       \<and> user_reactivate_customer u = Inr u' \<and> save_account u' db = Inr db')"
  by (auto simp: reactivate_customer_def res_bind_eq_Inr find_user_of_type_Inr)

lemma rectify_customer_Inr [identity_ops]:
  "rectify_customer i f l rd db = Inr db' \<longleftrightarrow>
     (\<exists>u u'. find_account i rd = Some u \<and> us_type u = CUSTOMER \<and> user_rectify f l u = Inr u'
       \<and> (if us_first_names u' = us_first_names u \<and> us_last_names u' = us_last_names u then db' = db
          else save_account u' db = Inr db'))"
  by (auto simp: rectify_customer_def res_bind_eq_Inr find_user_of_type_Inr split: if_splits)

lemma anonymize_customer_Inr [identity_ops]:
  "anonymize_customer i v at rd db = Inr db' \<longleftrightarrow>
     (\<exists>u u' db1. find_account i rd = Some u \<and> us_type u = CUSTOMER \<and> us_version u = v
       \<and> user_anonymize at u = Inr u' \<and> save_account u' db = Inr db1 \<and> db' = delete_traces_of (us_id u) db1)"
  by (auto simp: anonymize_customer_def res_bind_eq_Inr find_user_of_type_Inr)

lemma change_password_Inr [identity_ops]:
  "change_password P i s c n h now rd db = Inr (b, db') \<longleftrightarrow>
     (\<exists>u. find_account i rd = Some u
       \<and> (if \<not> ip_verify P c (us_password_hash u) then \<not> b \<and> db' = db
          else b \<and> assert_acceptable (ip_unicode P) (ip_common P) n ''newPassword'' = Inr ()
            \<and> \<not> ip_verify P n (us_password_hash u)
            \<and> (\<exists>u' db1. user_change_password h now u = Inr u' \<and> save_account u' db = Inr db1
                \<and> db' = with_tokens (revoke_all_of (us_id u) now (Some s)) db1)))"
  by (auto simp: change_password_def res_bind_eq_Inr split: option.splits if_splits)

definition address_of :: "user \<Rightarrow> string" where
  "address_of u = (case us_email u of None \<Rightarrow> [] | Some e \<Rightarrow> e)"

lemma change_email_Inr [identity_ops]:
  "change_email P i e c k t now rd db = Inr (b, db') \<longleftrightarrow>
     (\<exists>u. find_account i rd = Some u \<and> us_type u = CUSTOMER
       \<and> (if \<not> ip_verify P c (us_password_hash u) then \<not> b \<and> db' = db
          else b \<and> (\<exists>u' db1 db2. user_change_email e u = Inr u' \<and> save_account u' db = Inr db1
                \<and> issue_verification P k t (us_id u) (address_of u') now db1 = Inr db2
                \<and> db' = invalidate_resets_of (us_id u) now db2)))"
  by (auto simp: change_email_def res_bind_eq_Inr find_user_of_type_Inr address_of_def split: if_splits)

lemma reset_password_Inr [identity_ops]:
  "reset_password P t n h now rd db = Inr db' \<longleftrightarrow>
     (\<exists>l u u' db1. find_link (ip_digest P t) (id_resets db) = Some l \<and> link_usable l now
       \<and> find_account (lk_user l) rd = Some u \<and> can_sign_in u
       \<and> assert_acceptable (ip_unicode P) (ip_common P) n ''newPassword'' = Inr ()
       \<and> user_reset_password h now u = Inr u' \<and> save_account u' (mark_reset_used (lk_id l) now db) = Inr db1
       \<and> db' = with_tokens (revoke_all_of (us_id u) now None) db1)"
  by (auto simp: reset_password_def res_bind_eq_Inr split: option.splits if_splits)

lemma confirm_email_Inr [identity_ops]:
  "confirm_email P t now rd db = Inr db' \<longleftrightarrow>
     (\<exists>l u u'. find_link (ip_digest P t) (id_verifications db) = Some l \<and> link_usable l now
       \<and> find_account (lk_user l) rd = Some u \<and> user_verify_email (vf_email l) now u = Some u'
       \<and> save_account u' (mark_verification_used (lk_id l) now db) = Inr db')"
  by (auto simp: confirm_email_def split: option.splits if_splits)

lemma sign_in_Inr [identity_ops]:
  "sign_in P e pw i s t now rd db = Inr (r, db') \<Longrightarrow>
     db' = db \<or> (\<exists>u ts. find_account_by_email (normalize_email e) rd = Some u
       \<and> ip_verify P pw (us_password_hash u) \<and> can_sign_in u
       \<and> add_refresh_token (new_refresh_token P i t (us_id u) s now) (id_tokens db) = Inr ts
       \<and> record_sign_in (us_id u) now (db\<lparr>id_tokens := ts\<rparr>) = Inr db')"
  by (auto simp: sign_in_def res_bind_eq_Inr split: option.splits if_splits)

lemma refresh_session_Inr [identity_ops]:
  "refresh_session P t i n now rd db = Inr (r, db') \<Longrightarrow>
     db' = db
     \<or> (\<exists>k. find_refresh_token (ip_digest P t) (id_tokens db) = Some k \<and> rt_replaced_by k \<noteq> None
         \<and> db' = with_tokens (\<lambda>ts. snd (revoke_session (rt_session k) now ts)) db)
     \<or> (\<exists>k u ts. find_refresh_token (ip_digest P t) (id_tokens db) = Some k \<and> refresh_token_state k now = Usable
         \<and> find_account (rt_user k) rd = Some u \<and> can_sign_in u
         \<and> rotate_token k (new_refresh_token P i n (us_id u) (rt_session k) now) now (id_tokens db) = Inr ts
         \<and> db' = (record_activity (us_id u) now db)\<lparr>id_tokens := ts\<rparr>)"
  by (auto simp: refresh_session_def res_bind_eq_Inr Let_def record_activity_def refresh_token_state_def
      split: option.splits if_splits)

end
