(* ===== verification/IdentityOk.thy ===== *)
theory IdentityOk
  imports IdentityOps
begin

text \<open>
  Every use case of identity and access keeps its tables as they should be, also when the account it changes was read
  in older tables.
\<close>

section \<open>Older tables\<close>

text \<open>A sign-in is the one change of an account that leaves its version as it is.\<close>

definition login_apart :: "user \<Rightarrow> user \<Rightarrow> bool" where
  "login_apart u v \<longleftrightarrow> v = u\<lparr>us_last_login_at := us_last_login_at v\<rparr>"

text \<open>
  Tables that were those of the present or of some time before: an account keeps its type and its version only grows,
  and at one version it is one account.
\<close>

definition older_account :: "account \<Rightarrow> account \<Rightarrow> bool" where
  "older_account a b \<longleftrightarrow>
     us_type a = us_type b \<and> us_version a \<le> us_version b
     \<and> (us_version a = us_version b \<longrightarrow> login_apart (user.truncate a) (user.truncate b))"

definition older :: "identity \<Rightarrow> identity \<Rightarrow> bool" where
  "older rd db \<longleftrightarrow>
     (\<forall>a \<in> set (id_accounts rd). \<exists>b \<in> set (id_accounts db). us_id b = us_id a \<and> older_account a b)"

lemma login_apart_refl [simp]: "login_apart u u"
  by (simp add: login_apart_def)

lemma login_apartD:
  assumes "login_apart u v"
  shows "us_id v = us_id u" "us_type v = us_type u" "us_status v = us_status u" "us_email v = us_email u"
    "us_roles v = us_roles u" "us_version v = us_version u" "us_password_hash v = us_password_hash u"
proof -
  from assms have v: "v = u\<lparr>us_last_login_at := us_last_login_at v\<rparr>" by (simp add: login_apart_def)
  show "us_id v = us_id u" "us_type v = us_type u" "us_status v = us_status u" "us_email v = us_email u"
    "us_roles v = us_roles u" "us_version v = us_version u" "us_password_hash v = us_password_hash u"
    by (subst v, simp)+
qed

lemma login_apart_trans:
  assumes "login_apart u v" and "login_apart v w"
  shows "login_apart u w"
proof -
  from assms have "v = u\<lparr>us_last_login_at := us_last_login_at v\<rparr>" "w = v\<lparr>us_last_login_at := us_last_login_at w\<rparr>"
    by (simp_all add: login_apart_def)
  then have "w = u\<lparr>us_last_login_at := us_last_login_at v, us_last_login_at := us_last_login_at w\<rparr>" by metis
  then show ?thesis by (simp add: login_apart_def)
qed

lemma older_account_trans:
  "older_account a b \<Longrightarrow> older_account b c \<Longrightarrow> older_account a c"
  using login_apart_trans [of "user.truncate a" "user.truncate b" "user.truncate c"]
  by (auto simp: older_account_def)

lemma older_refl [simp]: "older db db"
  by (auto simp: older_def older_account_def)

lemma older_trans: "older x y \<Longrightarrow> older y z \<Longrightarrow> older x z"
  unfolding older_def using older_account_trans by metis

lemma older_sameI: "id_accounts db' = id_accounts db \<Longrightarrow> older db db'"
  by (auto simp: older_def older_account_def)

text \<open>What another reads of an account it will save: nothing that changed since.\<close>

lemma older_find:
  assumes old: "older rd db" and wf: "wf_accounts db" and f: "find_account i rd = Some u"
  shows "\<exists>b. b \<in> set (id_accounts db) \<and> find_account i db = Some (user.truncate b) \<and> us_id b = i
    \<and> us_type b = us_type u \<and> us_version u \<le> us_version b
    \<and> (us_version u = us_version b \<longrightarrow> login_apart u (user.truncate b))"
proof -
  from find_accountD [OF f] obtain a where a: "a \<in> set (id_accounts rd)" "us_id a = i" "u = user.truncate a" by blast
  with old obtain b where b: "b \<in> set (id_accounts db)" "us_id b = us_id a" "older_account a b"
    unfolding older_def by blast
  moreover have "find_account (us_id b) db = Some (user.truncate b)"
    using wf b(1) by (intro find_account_in) (simp_all add: wf_accounts_def)
  ultimately show ?thesis using a by (intro exI [of _ b]) (simp add: older_account_def)
qed

lemma saved_version_matches:
  assumes old: "older rd db" and wf: "wf_accounts db" and f: "find_account i rd = Some u"
    and s: "save_account u' db = Inr db'" and u': "us_id u' = us_id u" "us_version u' = us_version u"
  shows "\<exists>b. b \<in> set (id_accounts db) \<and> find_account i db = Some (user.truncate b) \<and> us_id b = i
    \<and> us_type b = us_type u \<and> us_version b = us_version u \<and> login_apart u (user.truncate b)"
proof -
  from older_find [OF old wf f] obtain b where b: "b \<in> set (id_accounts db)"
      "find_account i db = Some (user.truncate b)" "us_id b = i" "us_type b = us_type u"
      "us_version u = us_version b \<longrightarrow> login_apart u (user.truncate b)" by blast
  from save_accountD(2) [OF s] obtain c where c: "c \<in> set (id_accounts db)" "us_id c = us_id u'"
    "us_version c = us_version u'" by blast
  have "us_id c = us_id b" using c(2) u'(1) find_account_id [OF f] b(3) by simp
  then have "c = b" using account_by_id [of db c b] wf b(1) c(1) by (simp add: wf_accounts_def)
  with b c u' show ?thesis by (intro exI [of _ b]) simp
qed

text \<open>A saved account is of the present: the one before is older.\<close>

lemma save_older:
  assumes s: "save_account u db = Inr db'" and wf: "wf_accounts db"
  shows "older db db'"
  unfolding older_def
proof
  fix a
  assume a: "a \<in> set (id_accounts db)"
  have "saved_account u a \<in> set (id_accounts db')" using a by (simp add: save_accountD(1) [OF s])
  moreover have "older_account a (saved_account u a)"
    by (cases "us_id a = us_id u") (simp_all add: older_account_def)
  ultimately show "\<exists>b \<in> set (id_accounts db'). us_id b = us_id a \<and> older_account a b"
    by (intro bexI [of _ "saved_account u a"]) simp_all
qed

lemma add_older: "add_account u db = Inr db' \<Longrightarrow> older db db'"
  using add_accountD(1) [of u db db'] by (auto simp: older_def older_account_def)

lemma touched_older:
  assumes "\<And>a. us_id (f a) = us_id a" "\<And>a. older_account a (f a)"
  shows "older db (db\<lparr>id_accounts := map f (id_accounts db)\<rparr>)"
  unfolding older_def using assms by auto

lemma record_sign_in_older: "record_sign_in i at db = Inr db' \<Longrightarrow> older db db'"
proof -
  assume r: "record_sign_in i at db = Inr db'"
  have "older_account a (signed_in_at i at a)" for a
    by (simp add: older_account_def login_apart_def signed_in_at_def user.truncate_def)
  then show ?thesis using r touched_older [of "signed_in_at i at" db]
    by (simp add: record_sign_in_def split: if_splits)
qed

lemma record_activity_older: "older db (record_activity i at db)"
  unfolding record_activity_def by (rule touched_older) (simp_all add: older_account_def)

section \<open>Saving an account that was read before\<close>

lemma user_step_version: "user_step u ev = Inr u' \<Longrightarrow> us_id u' = us_id u \<and> us_version u' = us_version u"
  by (simp add: user_step_keeps)

lemma saved_wf:
  assumes old: "older rd db" and wf: "wf_accounts rd" "wf_accounts db" and f: "find_account i rd = Some u"
    and op: "user_step u ev = Inr u'" and s: "save_account u' db = Inr db'"
  shows "wf_accounts db'"
proof (rule save_account_wf [OF s wf(2)])
  show "wf_user u'" by (rule user_step_wf [OF find_account_wf [OF f wf(1)] op])
  fix a
  assume a: "a \<in> set (id_accounts db)" "us_id a = us_id u'"
  note k = user_step_keeps [OF op]
  from saved_version_matches [OF old wf(2) f s] k obtain b where b: "b \<in> set (id_accounts db)" "us_id b = i"
    "us_type b = us_type u" by blast
  have "us_id a = us_id b" using a(2) b(2) k find_account_id [OF f] by simp
  then have "a = b" using account_by_id [of db a b] wf(2) a(1) b(1) by (simp add: wf_accounts_def)
  with b k show "us_type a = us_type u'" by simp
qed

lemma save_account_frame:
  assumes "save_account u db = Inr db'"
  shows "id_roles db' = id_roles db" "id_tokens db' = id_tokens db" "id_verifications db' = id_verifications db"
    "id_resets db' = id_resets db"
  using save_accountD(1) [OF assms] by simp_all

lemma add_account_frame:
  assumes "add_account u db = Inr db'"
  shows "id_roles db' = id_roles db" "id_tokens db' = id_tokens db" "id_verifications db' = id_verifications db"
    "id_resets db' = id_resets db"
  using add_accountD(1) [OF assms] by simp_all

text \<open>Tables whose accounts may have changed, and nothing else.\<close>

definition accounts_only :: "identity \<Rightarrow> identity \<Rightarrow> bool" where
  "accounts_only db db' \<longleftrightarrow>
     id_roles db' = id_roles db \<and> id_tokens db' = id_tokens db \<and> id_verifications db' = id_verifications db
     \<and> id_resets db' = id_resets db \<and> older db db' \<and> (wf_accounts db \<longrightarrow> wf_accounts db')"

lemma saved_only:
  assumes "older rd db" and "wf_accounts rd" "wf_accounts db" and "find_account i rd = Some u"
    and "user_step u ev = Inr u'" and s: "save_account u' db = Inr db'"
  shows "accounts_only db db'"
  using saved_wf [OF assms] save_account_frame [OF s] save_older [OF s assms(3)] by (simp add: accounts_only_def)

lemma added_only:
  assumes a: "add_account u db = Inr db'" and "wf_user u" "us_status u = ACTIVE"
  shows "accounts_only db db'"
  using add_account_wf [OF a] assms(2,3) add_account_frame [OF a] add_older [OF a] by (simp add: accounts_only_def)

lemma accounts_only_refl [simp]: "accounts_only db db"
  by (simp add: accounts_only_def)

lemma accounts_only_wf: "accounts_only db db' \<Longrightarrow> wf_identity db \<Longrightarrow> wf_identity db'"
  by (simp add: accounts_only_def wf_identity_def wf_roles_def)

section \<open>The other tables\<close>

lemma with_tokens_wf: "wf_identity db \<Longrightarrow> wf_sessions (f (id_tokens db)) \<Longrightarrow> wf_identity (with_tokens f db)"
  by (simp add: wf_identity_def with_tokens_def)

lemma with_tokens_older [simp]: "older db (with_tokens f db)"
  by (rule older_sameI) (simp add: with_tokens_def)

lemma revoked_all_wf: "wf_identity db \<Longrightarrow> wf_identity (with_tokens (revoke_all_of i now e) db)"
  by (rule with_tokens_wf) (simp_all add: wf_identity_def revoke_all_wf)

lemma revoked_session_wf:
  "wf_identity db \<Longrightarrow> wf_identity (with_tokens (\<lambda>ts. snd (revoke_session s now ts)) db)"
  by (rule with_tokens_wf) (simp_all add: wf_identity_def revoke_session_wf)

lemma issue_verification_wf:
  assumes "issue_verification P k t i e now db = Inr db'" and "wf_identity db"
  shows "wf_identity db' \<and> older db db' \<and> id_accounts db' = id_accounts db \<and> id_roles db' = id_roles db"
proof -
  let ?l = "\<lparr>lk_id = k, lk_user = i, lk_hash = ip_digest P t, lk_expires_at = now + ip_verification_ttl P * 1000,
      lk_used_at = None, lk_invalidated_at = None, vf_email = e\<rparr>"
  from assms(1) obtain ls where l: "add_link ?l (invalidate_links_of (lk_user ?l) now (id_verifications db)) = Inr ls"
    and db': "db' = db\<lparr>id_verifications := ls\<rparr>"
    by (auto simp: issue_verification_def add_verification_def invalidate_verifications_of_def res_bind_eq_Inr)
  have "wf_links ls" using new_link_wf [OF l] assms(2) by (simp add: wf_identity_def)
  then show ?thesis using assms(2) by (simp add: db' wf_identity_def older_sameI)
qed

lemma issue_reset_wf:
  assumes "issue_reset P k t i now db = Inr db'" and "wf_identity db"
  shows "wf_identity db' \<and> older db db' \<and> id_accounts db' = id_accounts db \<and> id_roles db' = id_roles db"
proof -
  let ?l = "\<lparr>lk_id = k, lk_user = i, lk_hash = ip_digest P t, lk_expires_at = now + ip_reset_ttl P * 1000,
      lk_used_at = None, lk_invalidated_at = None\<rparr>"
  from assms(1) obtain ls where l: "add_link ?l (invalidate_links_of (lk_user ?l) now (id_resets db)) = Inr ls"
    and db': "db' = db\<lparr>id_resets := ls\<rparr>"
    by (auto simp: issue_reset_def add_reset_def invalidate_resets_of_def res_bind_eq_Inr)
  have "wf_links ls" using new_link_wf [OF l] assms(2) by (simp add: wf_identity_def)
  then show ?thesis using assms(2) by (simp add: db' wf_identity_def older_sameI)
qed

lemma marked_wf:
  "wf_identity db \<Longrightarrow> wf_identity (mark_reset_used k now db)"
  "wf_identity db \<Longrightarrow> wf_identity (mark_verification_used k now db)"
  "wf_identity db \<Longrightarrow> wf_identity (invalidate_resets_of i now db)"
  by (simp_all add: wf_identity_def mark_reset_used_def mark_verification_used_def invalidate_resets_of_def
      mark_link_used_wf invalidate_links_wf)

lemma marked_accounts [simp]:
  "id_accounts (mark_reset_used k now db) = id_accounts db"
  "id_accounts (mark_verification_used k now db) = id_accounts db"
  "id_accounts (invalidate_resets_of i now db) = id_accounts db"
  "id_roles (mark_reset_used k now db) = id_roles db"
  "id_roles (mark_verification_used k now db) = id_roles db"
  "id_roles (invalidate_resets_of i now db) = id_roles db"
  by (simp_all add: mark_reset_used_def mark_verification_used_def invalidate_resets_of_def)

lemma older_same: "id_accounts d = id_accounts db \<Longrightarrow> older rd db \<Longrightarrow> older rd d"
  by (simp add: older_def)

lemma delete_traces_wf: "wf_identity db \<Longrightarrow> wf_identity (delete_traces_of i db)"
  by (simp add: wf_identity_def delete_traces_of_def delete_refresh_tokens_of_def delete_links_of_def filter_wf
      filter_links_wf)

lemma delete_traces_older [simp]: "older db (delete_traces_of i db)"
  by (rule older_sameI) (simp add: delete_traces_of_def)

text \<open>What every batch keeps, the whole run does.\<close>

lemma batches_keep:
  assumes "\<And>s l. Q s \<Longrightarrow> Q (snd (f s l))" and "Q s"
  shows "Q (snd (delete_in_batches f bsize batches d s))"
  using assms(2)
proof (induction batches arbitrary: d s)
  case 0
  then show ?case by simp
next
  case (Suc batches)
  obtain n t where f: "f s bsize = (n, t)" by (cases "f s bsize")
  with assms(1) [OF Suc.prems, of bsize] have "Q t" by simp
  with f Suc.IH show ?case by simp
qed

lemma clean_tokens_wf:
  assumes "wf_identity db"
  shows "wf_identity (clean_tokens P now db) \<and> older db (clean_tokens P now db)"
proof -
  let ?before = "days_before now (ip_token_days P)"
  have "wf_sessions (snd (delete_refresh_tokens b ts l))" if "wf_sessions ts" for b ts l
    using that delete_refresh_tokens_filter [of b ts l] filter_wf by auto
  from batches_keep [of wf_sessions "delete_refresh_tokens ?before", OF this]
  have ts: "wf_sessions (snd (delete_in_batches (delete_refresh_tokens ?before) n m k (id_tokens db)))" for n m k
    using assms by (simp add: wf_identity_def)
  have vs: "wf_links (snd (delete_in_batches (delete_spent_links now) n m k (id_verifications db)))" for n m k
    by (rule batches_keep) (use assms in \<open>simp_all add: wf_identity_def delete_spent_links_def Let_def filter_links_wf\<close>)
  have ls: "wf_links (snd (delete_in_batches (delete_spent_links now) n m k (id_resets db)))" for n m k
    by (rule batches_keep) (use assms in \<open>simp_all add: wf_identity_def delete_spent_links_def Let_def filter_links_wf\<close>)
  have "older db (clean_tokens P now db)" by (rule older_sameI) (simp add: clean_tokens_def Let_def)
  with assms ts vs ls show ?thesis by (simp add: wf_identity_def clean_tokens_def Let_def)
qed

end
