(* ===== verification/IdentitySound.thy ===== *)
theory IdentitySound
  imports IdentityOk
begin

text \<open>
  The tables of identity and access stay as they should be, whatever is asked, in whatever order, with the accounts
  read in the tables of the present or of any time before.
\<close>

text \<open>The identifiers drawn for a session and a role are new. (That of an account is unique in its table.)\<close>

fun fresh_ids :: "identity_event \<Rightarrow> identity \<Rightarrow> bool" where
  "fresh_ids (SignIn e pw i s t now) db = (\<not> list_ex (\<lambda>k. rt_session k = s) (id_tokens db))"
| "fresh_ids (CreateRole a i n d ps) db = (\<not> list_ex (\<lambda>r. ro_id r = i) (id_roles db))"
| "fresh_ids _ db = True"

text \<open>What changes a role, read in the same transaction.\<close>

fun edits_role :: "identity_event \<Rightarrow> bool" where
  "edits_role (UpdateRole a i n d ps v) = True"
| "edits_role (DeleteRole i) = True"
| "edits_role _ = False"

section \<open>Roles\<close>

lemma role_changes_keep:
  "role_rename n r = Inr r1 \<Longrightarrow> ro_id r1 = ro_id r \<and> ro_superadmin r1 = ro_superadmin r
     \<and> ro_permissions r1 = ro_permissions r \<and> ro_version r1 = ro_version r"
  "role_replace_permissions ps r = Inr r1 \<Longrightarrow> ro_id r1 = ro_id r \<and> ro_superadmin r1 = ro_superadmin r
     \<and> ro_version r1 = ro_version r \<and> \<not> ro_superadmin r"
  by (auto simp: role_rename_def role_replace_permissions_def res_bind_eq_Inr split: if_splits)

lemma role_describe_keeps [simp]:
  "ro_id (role_describe d r) = ro_id r" "ro_superadmin (role_describe d r) = ro_superadmin r"
  "ro_permissions (role_describe d r) = ro_permissions r" "ro_version (role_describe d r) = ro_version r"
  by (simp_all add: role_describe_def)

text \<open>The role an edit saves: that of the tables with the changes asked for, and permissions the actor holds.\<close>

lemma update_roleD:
  assumes u: "update_role actor i name description permissions v rd db = Inr db'" and wf: "wf_roles rd"
  shows "\<exists>r r'. find_role i rd = Inr r \<and> ro_version r = v \<and> save_role r' db = Inr db' \<and> wf_role r'
    \<and> ro_id r' = ro_id r \<and> ro_superadmin r' = ro_superadmin r \<and> ro_version r' = ro_version r
    \<and> (permissions = None \<and> ro_permissions r' = ro_permissions r
       \<or> permissions \<noteq> None \<and> \<not> ro_superadmin r
         \<and> assert_can_grant_permissions actor
              (filter (\<lambda>code. code \<notin> set (effective_permissions r)) (effective_permissions r')) db = Inr ())"
proof -
  from u obtain r r1 r' where r: "find_role i rd = Inr r" "ro_version r = v"
    and r1: "(case name of None \<Rightarrow> Inr r | Some n \<Rightarrow> role_rename n r) = Inr r1"
    and r': "(case permissions of
           None \<Rightarrow> Inr (case description of None \<Rightarrow> r1 | Some d \<Rightarrow> role_describe d r1)
         | Some ps \<Rightarrow>
             res_bind (role_replace_permissions ps (case description of None \<Rightarrow> r1 | Some d \<Rightarrow> role_describe d r1)) (\<lambda>r3.
               res_bind (assert_can_grant_permissions actor
                 (filter (\<lambda>code. code \<notin> set (effective_permissions
                    (case description of None \<Rightarrow> r1 | Some d \<Rightarrow> role_describe d r1))) (effective_permissions r3)) db)
                 (\<lambda>_. Inr r3))) = Inr r'"
    and s: "save_role r' db = Inr db'"
    unfolding update_role_def Let_def by (auto simp only: res_bind_eq_Inr assert_version_Inr)
  define r2 where "r2 = (case description of None \<Rightarrow> r1 | Some d \<Rightarrow> role_describe d r1)"
  have wr: "wf_role r" using find_roleD [OF r(1)] wf by (simp add: wf_roles_def list_all_iff)
  have w1: "wf_role r1 \<and> ro_id r1 = ro_id r \<and> ro_superadmin r1 = ro_superadmin r
      \<and> ro_permissions r1 = ro_permissions r \<and> ro_version r1 = ro_version r"
    using r1 wr role_changes_keep(1) [of _ r r1] role_rename_wf [of _ r r1] by (cases name) auto
  then have w2: "wf_role r2 \<and> ro_id r2 = ro_id r \<and> ro_superadmin r2 = ro_superadmin r
      \<and> ro_permissions r2 = ro_permissions r \<and> ro_version r2 = ro_version r"
    by (simp add: r2_def split: option.splits)
  then have e2: "effective_permissions r2 = effective_permissions r" by (simp add: effective_permissions_def)
  show ?thesis
  proof (cases permissions)
    case None
    with r' have "r' = r2" by (simp add: r2_def)
    with None r s w2 show ?thesis by blast
  next
    case (Some ps)
    with r' have p: "role_replace_permissions ps r2 = Inr r'" and g: "assert_can_grant_permissions actor
        (filter (\<lambda>code. code \<notin> set (effective_permissions r)) (effective_permissions r')) db = Inr ()"
      by (auto simp: res_bind_eq_Inr r2_def [symmetric] e2)
    with role_changes_keep(2) [OF p] role_replace_permissions_wf [OF p] w2 Some r s show ?thesis by auto
  qed
qed

lemma update_role_wf:
  assumes u: "update_role actor i name description permissions v db db = Inr db'" and wf: "wf_identity db"
  shows "wf_identity db' \<and> older db db'"
proof -
  have wr: "wf_roles db" and wa: "wf_accounts db" using wf by (simp_all add: wf_identity_def)
  from update_roleD [OF u wr] obtain r r' where r: "find_role i db = Inr r" and s: "save_role r' db = Inr db'"
    and r': "wf_role r'" "ro_id r' = ro_id r" "ro_superadmin r' = ro_superadmin r" by blast
  note f = find_roleD [OF r]
  have "wf_roles db'"
  proof (rule save_role_wf [OF s wr r'(1)])
    show "ro_superadmin q = ro_superadmin r'" if "q \<in> set (id_roles db)" "ro_id q = ro_id r'" for q
      using role_by_id [OF wr that(1), of r] f that r' by simp
    assume "ro_id r' \<notin> ro_id ` set (id_roles db)"
    with f r'(2) show "\<not> ro_superadmin r'" by (metis imageI)
  qed
  moreover have "id_accounts db' = id_accounts db" "id_tokens db' = id_tokens db"
    "id_verifications db' = id_verifications db" "id_resets db' = id_resets db"
    using save_role_cases(2) [OF s] by auto
  ultimately show ?thesis using save_role_accounts [OF s wa] wf by (simp add: wf_identity_def older_sameI)
qed

lemma create_role_wf:
  assumes c: "create_role actor i name description permissions db = Inr db'" and wf: "wf_identity db"
    and new: "i \<notin> ro_id ` set (id_roles db)"
  shows "wf_identity db' \<and> older db db'"
proof -
  have wr: "wf_roles db" and wa: "wf_accounts db" using wf by (simp_all add: wf_identity_def)
  from c obtain r where r: "role_create i name description permissions = Inr r" and s: "save_role r db = Inr db'"
    by (auto simp: create_role_def res_bind_eq_Inr)
  note w = role_create_wf [OF r]
  have "wf_roles db'"
    by (rule save_role_wf [OF s wr]) (use w new in auto)
  moreover have "id_accounts db' = id_accounts db" "id_tokens db' = id_tokens db"
    "id_verifications db' = id_verifications db" "id_resets db' = id_resets db"
    using save_role_cases(2) [OF s] by auto
  ultimately show ?thesis using save_role_accounts [OF s wa] wf by (simp add: wf_identity_def older_sameI)
qed

lemma delete_role_wf:
  assumes d: "delete_role i db db = Inr db'" and wf: "wf_identity db"
  shows "wf_identity db' \<and> older db db'"
proof -
  have wr: "wf_roles db" and wa: "wf_accounts db" using wf by (simp_all add: wf_identity_def)
  from d obtain r where r: "find_role i db = Inr r" "\<not> ro_superadmin r" and s: "delete_role_row (ro_id r) db = Inr db'"
    by (auto simp: delete_role_def res_bind_eq_Inr if_Inl_eq_Inr)
  have "\<not> ro_superadmin q" if "q \<in> set (id_roles db)" "ro_id q = ro_id r" for q
    using role_by_id [OF wr that(1), of r] find_roleD [OF r(1)] that r(2) by simp
  from delete_role_row_wf [OF s wr wa this] delete_role_rowD [OF s] wf show ?thesis
    by (auto simp: wf_identity_def intro: older_sameI)
qed

section \<open>Every step\<close>

lemma changed_account_wf:
  assumes old: "older rd db" and wf: "wf_accounts rd" "wf_identity db" and f: "find_account i rd = Some u"
    and op: "user_step u ev = Inr u'" and s: "save_account u' db = Inr db'"
  shows "wf_identity db' \<and> older db db'"
proof -
  have "wf_accounts db" using wf(2) by (simp add: wf_identity_def)
  from saved_only [OF old wf(1) this f op s] show ?thesis
    using accounts_only_wf [OF _ wf(2)] by (simp add: accounts_only_def)
qed

lemma added_wf:
  assumes "add_account u db = Inr db'" and "wf_user u" "us_status u = ACTIVE" and "wf_identity db"
  shows "wf_identity db' \<and> older db db'"
  using added_only [OF assms(1-3)] accounts_only_wf [OF _ assms(4)] by (simp add: accounts_only_def)

lemma find_in_older:
  assumes "older rd db" and "wf_accounts rd" and "find_account_by_email e rd = Some u"
  shows "wf_user u"
proof -
  from assms(3) obtain a where "find (\<lambda>a. us_email a = Some e) (id_accounts rd) = Some a" and u: "u = user.truncate a"
    by (auto simp: find_account_by_email_def)
  from find_SomeD [OF this(1)] assms(2) u show ?thesis by (simp add: wf_accounts_def list_all_iff)
qed

lemma sign_in_wf:
  assumes s: "sign_in P e pw i s t now rd db = Inr (r, db')" and wf: "wf_identity db"
    and new: "s \<notin> rt_session ` set (id_tokens db)"
  shows "wf_identity db' \<and> older db db'"
  using sign_in_Inr [OF s]
proof (elim disjE exE conjE)
  fix u ts
  assume a: "add_refresh_token (new_refresh_token P i t (us_id u) s now) (id_tokens db) = Inr ts"
    and r: "record_sign_in (us_id u) now (db\<lparr>id_tokens := ts\<rparr>) = Inr db'"
  have "wf_sessions ts"
    by (rule first_token_wf [OF a]) (use wf new in \<open>simp_all add: wf_identity_def new_refresh_token_def\<close>)
  then have w: "wf_identity (db\<lparr>id_tokens := ts\<rparr>)" using wf by (simp add: wf_identity_def)
  then have "wf_accounts db'" using record_sign_in_wf [OF r] by (simp add: wf_identity_def)
  then have "wf_identity db'" using w r by (auto simp: wf_identity_def record_sign_in_def wf_roles_def split: if_splits)
  moreover have "older db db'"
    using older_trans [OF older_sameI record_sign_in_older [OF r], of db] by simp
  ultimately show ?thesis ..
qed (use wf in simp)

lemma refresh_session_wf:
  assumes s: "refresh_session P t i n now rd db = Inr (r, db')" and wf: "wf_identity db"
  shows "wf_identity db' \<and> older db db'"
  using refresh_session_Inr [OF s]
proof (elim disjE exE conjE)
  fix k
  assume "db' = with_tokens (\<lambda>ts. snd (revoke_session (rt_session k) now ts)) db"
  then show ?thesis using revoked_session_wf [OF wf] by simp
next
  fix k u ts
  assume f: "find_refresh_token (ip_digest P t) (id_tokens db) = Some k" and st: "refresh_token_state k now = Usable"
    and u: "find_account (rt_user k) rd = Some u"
    and rot: "rotate_token k (new_refresh_token P i n (us_id u) (rt_session k) now) now (id_tokens db) = Inr ts"
    and db': "db' = (record_activity (us_id u) now db)\<lparr>id_tokens := ts\<rparr>"
  have k: "k \<in> set (id_tokens db)" using f find_SomeD unfolding find_refresh_token_def by fast
  have un: "unrevoked k" using st by (simp add: refresh_token_state_def split: if_splits)
  have ws: "wf_sessions (id_tokens db)" using wf by (simp add: wf_identity_def)
  have "wf_sessions ts"
    by (rule rotate_wf [OF rot ws k un]) (simp_all add: new_refresh_token_def find_account_id [OF u])
  moreover have "wf_identity (record_activity (us_id u) now db)"
    using wf record_activity_wf by (simp add: wf_identity_def) (simp add: record_activity_def wf_roles_def)
  ultimately have "wf_identity db'" by (simp add: db' wf_identity_def)
  moreover have "older db db'"
    using older_trans [OF record_activity_older older_sameI] by (simp add: db')
  ultimately show ?thesis ..
qed (use wf in simp)

lemma sign_out_wf: "wf_identity db \<Longrightarrow> wf_identity (sign_out P i t now db) \<and> older db (sign_out P i t now db)"
  by (simp add: sign_out_def revoked_session_wf split: option.splits)

lemma reset_password_wf:
  assumes r: "reset_password P t n h now rd db = Inr db'" and old: "older rd db"
    and wf: "wf_accounts rd" "wf_identity db"
  shows "wf_identity db' \<and> older db db'"
proof -
  from r [unfolded reset_password_Inr] obtain l :: link and u u' db1 where f: "find_account (lk_user l) rd = Some u"
    and op: "user_reset_password h now u = Inr u'" and s: "save_account u' (mark_reset_used (lk_id l) now db) = Inr db1"
    and db': "db' = with_tokens (revoke_all_of (us_id u) now None) db1" by blast
  have "user_step u (ResetPassword h now) = Inr u'" using op by simp
  from changed_account_wf [OF _ wf(1) marked_wf(1) [OF wf(2)] f this s] older_same [OF marked_accounts(1) old]
  have c: "wf_identity db1" "older (mark_reset_used (lk_id l) now db) db1" by auto
  have "older db db'"
    using older_trans [OF older_trans [OF older_sameI c(2)] with_tokens_older] by (simp add: db')
  then show ?thesis using revoked_all_wf [OF c(1)] by (simp add: db')
qed

lemma confirm_email_wf:
  assumes r: "confirm_email P t now rd db = Inr db'" and old: "older rd db"
    and wf: "wf_accounts rd" "wf_identity db"
  shows "wf_identity db' \<and> older db db'"
proof -
  from r [unfolded confirm_email_Inr] obtain l :: verification and u u' where f: "find_account (lk_user l) rd = Some u"
    and op: "user_verify_email (vf_email l) now u = Some u'"
    and s: "save_account u' (mark_verification_used (lk_id l) now db) = Inr db'" by blast
  have "user_step u (VerifyEmail (vf_email l) now) = Inr u'" using op by simp
  from changed_account_wf [OF _ wf(1) marked_wf(2) [OF wf(2)] f this s] older_same [OF marked_accounts(2) old]
  have c: "wf_identity db'" "older (mark_verification_used (lk_id l) now db) db'" by auto
  have "older db db'" using older_trans [OF older_sameI c(2)] by simp
  with c show ?thesis by simp
qed

text \<open>What was saved, and what was done to the tokens and links then.\<close>

lemma change_then_wf:
  assumes "wf_identity db1 \<and> older db db1" and "wf_identity db1 \<Longrightarrow> wf_identity db' \<and> older db1 db'"
  shows "wf_identity db' \<and> older db db'"
  using assms older_trans by blast

lemma then_revoked: "wf_identity d \<Longrightarrow>
    wf_identity (with_tokens (revoke_all_of i now e) d) \<and> older d (with_tokens (revoke_all_of i now e) d)"
  by (simp add: revoked_all_wf)

lemma then_traces_deleted: "wf_identity d \<Longrightarrow> wf_identity (delete_traces_of i d) \<and> older d (delete_traces_of i d)"
  by (simp add: delete_traces_wf)

theorem identity_step_sound:
  assumes step: "identity_step P rd db ev = Inr db'" and old: "older rd db" and wr: "wf_accounts rd"
    and wf: "wf_identity db" and fresh: "fresh_ids ev db" and role: "edits_role ev \<Longrightarrow> rd = db"
  shows "wf_identity db' \<and> older db db'"
proof -
  have wa: "wf_accounts db" using wf by (simp add: wf_identity_def)
  note change = changed_account_wf [OF old wr wf]
  show ?thesis
  proof (cases ev)
    case (RegisterCustomer i e pw f l n h k t now)
    with step obtain db1 where a: "add_account (user_register_customer i e f l h n now) db = Inr db1"
      and v: "issue_verification P k t i (address_of (user_register_customer i e f l h n now)) now db1 = Inr db'"
      by (auto simp: register_customer_def res_bind_eq_Inr Let_def address_of_def user_register_customer_def)
    have "wf_identity db1 \<and> older db db1" by (rule added_wf [OF a]) (simp_all add: wf, simp add: user_register_customer_def)
    then show ?thesis by (rule change_then_wf) (use issue_verification_wf [OF v] in blast)
  next
    case (CreateStaff a i e f l rs h d now)
    with step obtain pw where c: "create_staff P (Some a) i e f l rs h d now db = Inr (pw, db')"
      by (auto simp: prod_bind_Inr)
    from create_staff_Inr [OF c] obtain u where u: "user_create_staff i e f l (new_set rs) h now = Inr u"
      and add: "add_account u db = Inr db'" by blast
    show ?thesis by (rule added_wf [OF add]) (use user_create_staff_wf [OF u] wf in simp_all)
  next
    case (CreateFirstSuperadmin i e f l h d now)
    with step obtain pw s where c: "create_staff P None i e f l [s] h d now db = Inr (pw, db')"
      by (auto simp: prod_bind_Inr create_first_superadmin_def res_bind_eq_Inr if_Inl_eq_Inr)
    from create_staff_Inr [OF c] obtain u where u: "user_create_staff i e f l (new_set [s]) h now = Inr u"
      and add: "add_account u db = Inr db'" by blast
    show ?thesis by (rule added_wf [OF add]) (use user_create_staff_wf [OF u] wf in simp_all)
  next
    case (ReplaceStaffRoles a i rs v)
    with step obtain u u' where "find_account i rd = Some u" "user_replace_roles (new_set rs) u = Inr u'"
      "save_account u' db = Inr db'" by (auto simp: replace_staff_roles_Inr)
    then show ?thesis using change [of i u "ReplaceRoles (new_set rs)" u'] by simp
  next
    case (SuspendStaff a i v now)
    with step obtain u u' db1 where "find_account i rd = Some u" "user_suspend now u = Inr u'"
      "save_account u' db = Inr db1" and db': "db' = with_tokens (revoke_all_of (us_id u) now None) db1"
      by (auto simp: suspend_staff_Inr)
    then have "wf_identity db1 \<and> older db db1" using change [of i u "Suspend now" u'] by simp
    then show ?thesis unfolding db' by (rule change_then_wf) (rule then_revoked)
  next
    case (ReactivateStaffMember a i v h d now)
    with step obtain u u' where "find_account i rd = Some u" "user_reactivate_staff h now u = Inr u'"
      "save_account u' db = Inr db'" by (auto simp: prod_bind_Inr reactivate_staff_Inr)
    then show ?thesis using change [of i u "ReactivateStaff h now" u'] by simp
  next
    case (CreateRole a i n d ps)
    with step fresh wf show ?thesis
      by (intro create_role_wf [of a i n d ps db db']) (auto simp: list_ex_iff)
  next
    case (UpdateRole a i n d ps v)
    with step role wf show ?thesis by (intro update_role_wf [of a i n d ps v db db']) simp_all
  next
    case (DeleteRole i)
    with step role wf show ?thesis by (intro delete_role_wf [of i db db']) simp_all
  next
    case (SuspendCustomer i v now)
    with step obtain u u' db1 where "find_account i rd = Some u" "user_suspend now u = Inr u'"
      "save_account u' db = Inr db1" and db': "db' = with_tokens (revoke_all_of (us_id u) now None) db1"
      by (auto simp: suspend_customer_Inr)
    then have "wf_identity db1 \<and> older db db1" using change [of i u "Suspend now" u'] by simp
    then show ?thesis unfolding db' by (rule change_then_wf) (rule then_revoked)
  next
    case (ReactivateCustomerAccount i v)
    with step obtain u u' where "find_account i rd = Some u" "user_reactivate_customer u = Inr u'"
      "save_account u' db = Inr db'" by (auto simp: reactivate_customer_Inr)
    then show ?thesis using change [of i u "ReactivateCustomer" u'] by simp
  next
    case (RectifyCustomer i f l)
    with step obtain u u' where "find_account i rd = Some u" "user_rectify f l u = Inr u'"
      "db' = db \<or> save_account u' db = Inr db'" by (auto simp: rectify_customer_Inr split: if_splits)
    then show ?thesis using change [of i u "Rectify f l" u'] wf by auto
  next
    case (AnonymizeCustomer i v at)
    with step obtain u u' db1 where "find_account i rd = Some u" "user_anonymize at u = Inr u'"
      "save_account u' db = Inr db1" and db': "db' = delete_traces_of (us_id u) db1"
      by (auto simp: anonymize_customer_Inr)
    then have "wf_identity db1 \<and> older db db1" using change [of i u "Anonymize at" u'] by simp
    then show ?thesis unfolding db' by (rule change_then_wf) (rule then_traces_deleted)
  next
    case (AnonymizeInactiveCustomer i since at)
    show ?thesis
    proof (cases "lock_inactive_customer i since db")
      case None
      with AnonymizeInactiveCustomer step wf show ?thesis by (simp add: anonymize_inactive_customer_def)
    next
      case (Some u)
      with AnonymizeInactiveCustomer step obtain u' db1 where u': "user_anonymize at u = Inr u'"
        and s: "save_account u' db = Inr db1" and db': "db' = delete_traces_of (us_id u) db1"
        by (auto simp: anonymize_inactive_customer_def res_bind_eq_Inr)
      from Some obtain a where "find (\<lambda>a. us_id a = i \<and> inactive_customer since a) (id_accounts db) = Some a"
        and u: "u = user.truncate a" by (auto simp: lock_inactive_customer_def)
      from find_SomeD [OF this(1)] have "a \<in> set (id_accounts db)" "us_id a = i" by simp_all
      then have "find_account i db = Some u" using find_account_in [of db a] wa u by (simp add: wf_accounts_def)
      then have "wf_identity db1 \<and> older db db1"
        using changed_account_wf [OF older_refl wa wf, of i u "Anonymize at" u'] u' s by simp
      then show ?thesis unfolding db' by (rule change_then_wf) (rule then_traces_deleted)
    qed
  next
    case (ChangeOwnPassword i s c n h now)
    with step obtain b where "change_password P i s c n h now rd db = Inr (b, db')" by (auto simp: prod_bind_Inr)
    then obtain u where f: "find_account i rd = Some u" and "db' = db \<or> (\<exists>u' db1. user_change_password h now u = Inr u'
        \<and> save_account u' db = Inr db1 \<and> db' = with_tokens (revoke_all_of (us_id u) now (Some s)) db1)"
      by (auto simp: change_password_Inr split: if_splits)
    then show ?thesis
    proof (elim disjE exE conjE)
      fix u' db1
      assume "user_change_password h now u = Inr u'" "save_account u' db = Inr db1"
        and db': "db' = with_tokens (revoke_all_of (us_id u) now (Some s)) db1"
      then have "wf_identity db1 \<and> older db db1" using change [OF f, of "ChangePassword h now" u'] by simp
      then show ?thesis unfolding db' by (rule change_then_wf) (rule then_revoked)
    qed (use wf in simp)
  next
    case (ChangeOwnEmail i e c k t now)
    with step obtain b where "change_email P i e c k t now rd db = Inr (b, db')" by (auto simp: prod_bind_Inr)
    then obtain u where f: "find_account i rd = Some u" and "db' = db \<or> (\<exists>u' db1 db2. user_change_email e u = Inr u'
        \<and> save_account u' db = Inr db1 \<and> issue_verification P k t (us_id u) (address_of u') now db1 = Inr db2
        \<and> db' = invalidate_resets_of (us_id u) now db2)"
      by (auto simp: change_email_Inr split: if_splits)
    then show ?thesis
    proof (elim disjE exE conjE)
      fix u' db1 db2
      assume op: "user_change_email e u = Inr u'" "save_account u' db = Inr db1"
        and v: "issue_verification P k t (us_id u) (address_of u') now db1 = Inr db2"
        and db': "db' = invalidate_resets_of (us_id u) now db2"
      from op have "wf_identity db1 \<and> older db db1" using change [OF f, of "ChangeEmail e" u'] by simp
      then have "wf_identity db2 \<and> older db db2" by (rule change_then_wf) (use issue_verification_wf [OF v] in blast)
      then show ?thesis unfolding db' by (rule change_then_wf) (simp add: marked_wf older_sameI)
    qed (use wf in simp)
  next
    case (RequestPasswordReset e k t now)
    with step wf show ?thesis
      by (auto simp: request_password_reset_def res_bind_eq_Inr split: option.splits if_splits
          dest!: issue_reset_wf [OF _ wf])
  next
    case (ResetForgottenPassword t n h now)
    with step show ?thesis using reset_password_wf [OF _ old wr wf] by simp
  next
    case (ResendEmailVerification e k t now)
    with step wf show ?thesis
      by (auto simp: resend_email_verification_def res_bind_eq_Inr split: option.splits if_splits
          dest!: issue_verification_wf [OF _ wf])
  next
    case (ConfirmEmail t now)
    with step show ?thesis using confirm_email_wf [OF _ old wr wf] by simp
  next
    case (SignIn e pw i s t now)
    with step obtain r where "sign_in P e pw i s t now rd db = Inr (r, db')" by (auto simp: prod_bind_Inr)
    moreover have "s \<notin> rt_session ` set (id_tokens db)" using SignIn fresh by (auto simp: list_ex_iff)
    ultimately show ?thesis using sign_in_wf [OF _ wf] by blast
  next
    case (RefreshSession t i n now)
    with step obtain r where "refresh_session P t i n now rd db = Inr (r, db')" by (auto simp: prod_bind_Inr)
    then show ?thesis using refresh_session_wf [OF _ wf] by blast
  next
    case (SignOut i t now)
    with step show ?thesis using sign_out_wf [OF wf] by auto
  next
    case (CleanTokens now)
    with step show ?thesis using clean_tokens_wf [OF wf] by auto
  qed
qed

end
