(* ===== verification/Superadmins.thy ===== *)
theory Superadmins
  imports IdentitySound
begin

text \<open>
  Runs of identity and access where operations overlap: each reads its account in the tables of the present or of any
  time before, and the rest when it saves. There is always an active superadmin left, and what an operation saves is what
  it would have saved with nothing in between.
\<close>

text \<open>The tables so far, the present ones first.\<close>

inductive identity_history :: "identity_ports \<Rightarrow> identity list \<Rightarrow> bool" for P where
  first: "wf_identity db \<Longrightarrow> identity_history P [db]"
| later: "identity_history P (db # past) \<Longrightarrow> rd \<in> set (db # past) \<Longrightarrow> (edits_role ev \<longrightarrow> rd = db) \<Longrightarrow>
    fresh_ids ev db \<Longrightarrow> identity_step P rd db ev = Inr db' \<Longrightarrow> identity_history P (db' # db # past)"

inductive_cases identity_history_ConsE: "identity_history P (db # past)"

lemma history_sound:
  "identity_history P h \<Longrightarrow> h \<noteq> [] \<and> wf_identity (hd h) \<and> (\<forall>p \<in> set h. wf_accounts p \<and> older p (hd h))"
proof (induction rule: identity_history.induct)
  case (first db)
  then show ?case by (simp add: wf_identity_def)
next
  case (later db past rd ev db')
  then have wf: "wf_identity db" and p: "\<And>p. p \<in> set (db # past) \<Longrightarrow> wf_accounts p \<and> older p db" by auto
  from identity_step_sound [OF later.hyps(5) _ _ wf later.hyps(4)] p [OF later.hyps(2)] later.hyps(3)
  have s: "wf_identity db'" "older db db'" by auto
  then have "wf_accounts q \<and> older q db'" if "q \<in> set (db' # db # past)" for q
  proof (cases "q = db'")
    case True
    with s show ?thesis by (simp add: wf_identity_def)
  next
    case False
    with that p [of q] s(2) show ?thesis by (auto intro: older_trans)
  qed
  with s show ?case by simp
qed

section \<open>The superadmins\<close>

definition is_active_superadmin :: "identity \<Rightarrow> account \<Rightarrow> bool" where
  "is_active_superadmin db a =
     (us_type a = STAFF \<and> us_status a = ACTIVE
      \<and> list_ex (\<lambda>r. ro_superadmin r \<and> ro_id r \<in> set (us_roles a)) (id_roles db))"

definition has_active_superadmin :: "identity \<Rightarrow> bool" where
  "has_active_superadmin db = list_ex (is_active_superadmin db) (id_accounts db)"

lemma active_superadminI:
  "a \<in> set (id_accounts db) \<Longrightarrow> us_type a = STAFF \<Longrightarrow> us_status a = ACTIVE \<Longrightarrow> r \<in> set (id_roles db) \<Longrightarrow>
     ro_superadmin r \<Longrightarrow> ro_id r \<in> set (us_roles a) \<Longrightarrow> has_active_superadmin db"
  by (auto simp: has_active_superadmin_def is_active_superadmin_def list_ex_iff)

lemma active_superadminE:
  assumes "has_active_superadmin db"
  obtains a r where "a \<in> set (id_accounts db)" "us_type a = STAFF" "us_status a = ACTIVE" "r \<in> set (id_roles db)"
    "ro_superadmin r" "ro_id r \<in> set (us_roles a)"
  using assms by (auto simp: has_active_superadmin_def is_active_superadmin_def list_ex_iff)

lemma superadmin_frame:
  "id_accounts d = id_accounts db \<Longrightarrow> id_roles d = id_roles db \<Longrightarrow> has_active_superadmin d = has_active_superadmin db"
  unfolding has_active_superadmin_def is_active_superadmin_def by simp

lemma with_tokens_frame [simp]:
  "id_accounts (with_tokens f db) = id_accounts db" "id_roles (with_tokens f db) = id_roles db"
  "id_accounts (delete_traces_of i db) = id_accounts db" "id_roles (delete_traces_of i db) = id_roles db"
  by (simp_all add: with_tokens_def delete_traces_of_def)

text \<open>An account that is saved does not take the last one away, if it stays one or there is another.\<close>

lemma saving_keeps_superadmin:
  assumes old: "older rd db" and wf: "wf_accounts db" and f: "find_account i rd = Some u"
    and op: "user_step u ev = Inr u'" and s: "save_account u' db = Inr db'" and has: "has_active_superadmin db"
    and keep: "\<And>r. r \<in> set (id_roles db) \<Longrightarrow> ro_superadmin r \<Longrightarrow> us_type u = STAFF \<Longrightarrow> us_status u = ACTIVE \<Longrightarrow>
      ro_id r \<in> set (us_roles u) \<Longrightarrow> us_status u' = ACTIVE \<and> ro_id r \<in> set (us_roles u')
        \<or> (\<exists>c \<in> set (id_accounts db). us_id c \<noteq> us_id u \<and> us_type c = STAFF \<and> us_status c = ACTIVE
             \<and> ro_id r \<in> set (us_roles c))"
  shows "has_active_superadmin db'"
proof -
  note k = user_step_keeps [OF op]
  note db' = save_accountD(1) [OF s]
  from saved_version_matches [OF old wf f s] k obtain b where b: "b \<in> set (id_accounts db)" "us_id b = i"
    "us_type b = us_type u" "login_apart u (user.truncate b)" by blast
  have uid: "us_id u = i" by (rule find_account_id [OF f])
  from login_apartD [OF b(4)] have same: "us_status b = us_status u" "us_roles b = us_roles u" by simp_all
  have other: "has_active_superadmin db'" if "c \<in> set (id_accounts db)" "us_id c \<noteq> i" "us_type c = STAFF"
    "us_status c = ACTIVE" "r \<in> set (id_roles db)" "ro_superadmin r" "ro_id r \<in> set (us_roles c)" for c r
  proof (rule active_superadminI [of c _ r])
    have "us_id c \<noteq> us_id u'" using that(2) k uid by simp
    then have "saved_account u' c = c" by simp
    moreover have "saved_account u' c \<in> set (id_accounts db')" using that(1) by (simp add: db')
    ultimately show "c \<in> set (id_accounts db')" by simp
  qed (use that in \<open>simp_all add: db'\<close>)
  from has obtain a r where a: "a \<in> set (id_accounts db)" "us_type a = STAFF" "us_status a = ACTIVE"
    "r \<in> set (id_roles db)" "ro_superadmin r" "ro_id r \<in> set (us_roles a)" by (rule active_superadminE)
  show ?thesis
  proof (cases "us_id a = i")
    case False
    with a other show ?thesis by blast
  next
    case True
    then have "a = b" using account_by_id [of db a b] wf a(1) b(1,2) by (simp add: wf_accounts_def)
    with keep [OF a(4,5)] a b same have "us_status u' = ACTIVE \<and> ro_id r \<in> set (us_roles u')
        \<or> (\<exists>c \<in> set (id_accounts db). us_id c \<noteq> us_id u \<and> us_type c = STAFF \<and> us_status c = ACTIVE
             \<and> ro_id r \<in> set (us_roles c))" by simp
    then show ?thesis
    proof (elim disjE bexE conjE)
      assume u': "us_status u' = ACTIVE" "ro_id r \<in> set (us_roles u')"
      show ?thesis
        by (rule active_superadminI [of "saved_account u' b" _ r])
          (use b a k uid u' \<open>a = b\<close> in \<open>simp_all add: db'\<close>)
    qed (use other [OF _ _ _ _ a(4,5)] uid in blast)
  qed
qed

lemma ensured_superadmin:
  assumes e: "ensure_another_remains u keeps db = Inr ()" and wf: "wf_roles db"
    and r: "r \<in> set (id_roles db)" "ro_superadmin r" "us_status u = ACTIVE" "ro_id r \<in> set (us_roles u)"
  shows "keeps (ro_id r) \<or> (\<exists>c \<in> set (id_accounts db). us_id c \<noteq> us_id u \<and> us_type c = STAFF \<and> us_status c = ACTIVE
    \<and> ro_id r \<in> set (us_roles c))"
proof -
  from e obtain s where s: "lock_superadmin_role db = Inr s"
    and c: "\<not> (us_status u = ACTIVE \<and> s \<in> set (us_roles u)) \<or> keeps s
      \<or> count_active_staff_with_role s (Some (us_id u)) db \<noteq> 0"
    by (auto simp: ensure_another_remains_def res_bind_eq_Inr split: if_splits)
  from superadmin_role [OF wf s] obtain q where "q \<in> set (id_roles db)" "ro_superadmin q" "ro_id q = s" by blast
  with one_superadmin_role [OF wf r(1,2)] have "s = ro_id r" by blast
  with c r(3,4) have "keeps (ro_id r) \<or> count_active_staff_with_role (ro_id r) (Some (us_id u)) db \<noteq> 0" by simp
  then show ?thesis unfolding count_active_staff_with_role_def length_0_conv filter_empty_conv by fastforce
qed

text \<open>What a customer may hold: nothing; and what most changes of an account leave.\<close>

lemma customer_change_keeps:
  assumes "older rd db" and wf: "wf_accounts rd" "wf_accounts db" and f: "find_account i rd = Some u" and "us_type u = CUSTOMER"
    and "user_step u ev = Inr u'" and "save_account u' db = Inr db'" and "has_active_superadmin db"
  shows "has_active_superadmin db'"
  by (rule saving_keeps_superadmin [OF assms(1) wf(2) f assms(6-8)]) (simp add: assms(5))

lemma mild_change_keeps:
  assumes "older rd db" and "wf_accounts db" and "find_account i rd = Some u"
    and "user_step u ev = Inr u'" and "save_account u' db = Inr db'" and "has_active_superadmin db"
    and "us_status u = ACTIVE \<Longrightarrow> us_status u' = ACTIVE" and "us_roles u' = us_roles u"
  shows "has_active_superadmin db'"
  by (rule saving_keeps_superadmin [OF assms(1-6)]) (use assms(7,8) in simp)

lemma adding_keeps_superadmin:
  assumes a: "add_account u db = Inr db'" and has: "has_active_superadmin db"
  shows "has_active_superadmin db'"
proof -
  from has obtain b r where "b \<in> set (id_accounts db)" "us_type b = STAFF" "us_status b = ACTIVE"
    "r \<in> set (id_roles db)" "ro_superadmin r" "ro_id r \<in> set (us_roles b)" by (rule active_superadminE)
  then show ?thesis by (intro active_superadminI [of b _ r]) (simp_all add: add_accountD(1) [OF a])
qed

lemma touching_keeps_superadmin:
  assumes has: "has_active_superadmin db" and "\<And>a. us_type (f a) = us_type a" "\<And>a. us_status (f a) = us_status a"
    "\<And>a. us_roles (f a) = us_roles a"
  shows "has_active_superadmin (db\<lparr>id_accounts := map f (id_accounts db)\<rparr>)"
proof -
  from has obtain b r where "b \<in> set (id_accounts db)" "us_type b = STAFF" "us_status b = ACTIVE"
    "r \<in> set (id_roles db)" "ro_superadmin r" "ro_id r \<in> set (us_roles b)" by (rule active_superadminE)
  then show ?thesis by (intro active_superadminI [of "f b" _ r]) (simp_all add: assms)
qed

text \<open>Roles may be edited and deleted: the superadmin one keeps its identity.\<close>

lemma roles_keep_superadmin:
  assumes has: "has_active_superadmin db" and "id_accounts db' = id_accounts db"
    and "\<And>r. r \<in> set (id_roles db) \<Longrightarrow> ro_superadmin r \<Longrightarrow> \<exists>q \<in> set (id_roles db'). ro_superadmin q \<and> ro_id q = ro_id r"
  shows "has_active_superadmin db'"
proof -
  from has obtain b r where b: "b \<in> set (id_accounts db)" "us_type b = STAFF" "us_status b = ACTIVE"
    "r \<in> set (id_roles db)" "ro_superadmin r" "ro_id r \<in> set (us_roles b)" by (rule active_superadminE)
  from assms(3) [OF b(4,5)] obtain q where "q \<in> set (id_roles db')" "ro_superadmin q" "ro_id q = ro_id r" by blast
  with b show ?thesis by (intro active_superadminI [of b _ q]) (simp_all add: assms(2))
qed

lemma save_role_keeps_superadmin:
  assumes s: "save_role r db = Inr db'" and has: "has_active_superadmin db"
  shows "has_active_superadmin db'"
proof (rule roles_keep_superadmin [OF has])
  show "id_accounts db' = id_accounts db" using save_role_cases(2) [OF s] by auto
  fix q
  assume q: "q \<in> set (id_roles db)" "ro_superadmin q"
  from save_role_cases(2) [OF s] show "\<exists>p \<in> set (id_roles db'). ro_superadmin p \<and> ro_id p = ro_id q"
  proof (elim disjE exE conjE)
    fix t
    assume "db' = db\<lparr>id_roles := map (saved_role r) (id_roles db)\<rparr>"
    then show ?thesis using q by (intro bexI [of _ "saved_role r q"]) simp_all
  qed (use q in auto)
qed

lemma delete_role_keeps_superadmin:
  assumes d: "delete_role i db db = Inr db'" and wf: "wf_roles db" and has: "has_active_superadmin db"
  shows "has_active_superadmin db'"
proof -
  from d obtain r where r: "find_role i db = Inr r" "\<not> ro_superadmin r" and s: "delete_role_row (ro_id r) db = Inr db'"
    by (auto simp: delete_role_def res_bind_eq_Inr if_Inl_eq_Inr)
  show ?thesis
  proof (rule roles_keep_superadmin [OF has])
    fix q
    assume q: "q \<in> set (id_roles db)" "ro_superadmin q"
    have "ro_id q \<noteq> ro_id r" using role_by_id [OF wf q(1), of r] find_roleD [OF r(1)] q(2) r(2) by auto
    with q show "\<exists>p \<in> set (id_roles db'). ro_superadmin p \<and> ro_id p = ro_id q"
      by (intro bexI [of _ q]) (simp_all add: delete_role_rowD [OF s])
  qed (simp add: delete_role_rowD [OF s])
qed

lemma issued_frame:
  "issue_verification P k t i e now db = Inr db' \<Longrightarrow> id_accounts db' = id_accounts db \<and> id_roles db' = id_roles db"
  "issue_reset P k t i now db = Inr db' \<Longrightarrow> id_accounts db' = id_accounts db \<and> id_roles db' = id_roles db"
  by (auto simp: issue_verification_def add_verification_def invalidate_verifications_of_def issue_reset_def
      add_reset_def invalidate_resets_of_def res_bind_eq_Inr)

lemma touched_keeps_superadmin:
  "record_sign_in i at db = Inr db' \<Longrightarrow> has_active_superadmin db \<Longrightarrow> has_active_superadmin db'"
  "has_active_superadmin db \<Longrightarrow> has_active_superadmin (record_activity i at db)"
  using touching_keeps_superadmin [of db "signed_in_at i at"] touching_keeps_superadmin [of db "active_at i at"]
  by (simp_all add: record_sign_in_def record_activity_def split: if_splits)

lemma session_steps_keep_superadmin:
  assumes "has_active_superadmin db"
  shows "sign_in P e pw i s t now rd db = Inr (r, db') \<Longrightarrow> has_active_superadmin db'"
    and "refresh_session P k j n now rd db = Inr (q, db') \<Longrightarrow> has_active_superadmin db'"
    and "has_active_superadmin (sign_out P u k now db)"
    and "has_active_superadmin (clean_tokens P now db)"
proof -
  show "has_active_superadmin db'" if "sign_in P e pw i s t now rd db = Inr (r, db')"
    using sign_in_Inr [OF that]
  proof (elim disjE exE conjE)
    fix u ts
    assume "record_sign_in (us_id u) now (db\<lparr>id_tokens := ts\<rparr>) = Inr db'"
    then show ?thesis
      by (rule touched_keeps_superadmin) (use assms in \<open>simp add: superadmin_frame [of "db\<lparr>id_tokens := ts\<rparr>" db]\<close>)
  qed (use assms in simp)
  show "has_active_superadmin db'" if "refresh_session P k j n now rd db = Inr (q, db')"
    using refresh_session_Inr [OF that]
  proof (elim disjE exE conjE)
    fix t
    assume "db' = with_tokens (\<lambda>ts. snd (revoke_session (rt_session t) now ts)) db"
    then show ?thesis using assms superadmin_frame [of db' db] by simp
  next
    fix t u ts
    assume "db' = (record_activity (us_id u) now db)\<lparr>id_tokens := ts\<rparr>"
    then show ?thesis using touched_keeps_superadmin(2) [OF assms, of "us_id u" now]
      superadmin_frame [of db' "record_activity (us_id u) now db"] by simp
  qed (use assms in simp)
  show "has_active_superadmin (sign_out P u k now db)"
    using assms superadmin_frame [of "sign_out P u k now db" db] by (simp add: sign_out_def split: option.splits)
  show "has_active_superadmin (clean_tokens P now db)"
    using assms superadmin_frame [of "clean_tokens P now db" db] by (simp add: clean_tokens_def Let_def)
qed

theorem superadmin_step:
  assumes step: "identity_step P rd db ev = Inr db'" and old: "older rd db" and wr: "wf_accounts rd"
    and wf: "wf_identity db" and role: "edits_role ev \<Longrightarrow> rd = db" and has: "has_active_superadmin db"
  shows "has_active_superadmin db'"
proof -
  have wa: "wf_accounts db" and wroles: "wf_roles db" using wf by (simp_all add: wf_identity_def)
  note mild = mild_change_keeps [OF old wa _ _ _ has]
  note customer = customer_change_keeps [OF old wr wa _ _ _ _ has]
  show ?thesis
  proof (cases ev)
    case (RegisterCustomer i e pw f l n h k t now)
    with step obtain db1 where a: "add_account (user_register_customer i e f l h n now) db = Inr db1"
      and v: "issue_verification P k t i (address_of (user_register_customer i e f l h n now)) now db1 = Inr db'"
      by (auto simp: register_customer_def res_bind_eq_Inr Let_def address_of_def user_register_customer_def)
    show ?thesis using adding_keeps_superadmin [OF a has] issued_frame(1) [OF v] superadmin_frame [of db' db1] by simp
  next
    case (CreateStaff a i e f l rs h d now)
    with step obtain pw where "create_staff P (Some a) i e f l rs h d now db = Inr (pw, db')"
      by (auto simp: prod_bind_Inr)
    from create_staff_Inr [OF this] show ?thesis using adding_keeps_superadmin [OF _ has] by blast
  next
    case (CreateFirstSuperadmin i e f l h d now)
    with step obtain pw s where "create_staff P None i e f l [s] h d now db = Inr (pw, db')"
      by (auto simp: prod_bind_Inr create_first_superadmin_def res_bind_eq_Inr if_Inl_eq_Inr)
    from create_staff_Inr [OF this] show ?thesis using adding_keeps_superadmin [OF _ has] by blast
  next
    case (ReplaceStaffRoles a i rs v)
    with step obtain u u' where f: "find_account i rd = Some u" and e: "ensure_another_remains u (\<lambda>s. s \<in> set (new_set rs)) db = Inr ()"
      and u': "user_replace_roles (new_set rs) u = Inr u'" and s: "save_account u' db = Inr db'"
      by (auto simp: replace_staff_roles_Inr)
    show ?thesis
      by (rule saving_keeps_superadmin [OF old wa f _ s has, of "ReplaceRoles (new_set rs)"])
        (use u' user_replace_rolesD [OF u'] ensured_superadmin [OF e wroles] in auto)
  next
    case (SuspendStaff a i v now)
    with step obtain u u' db1 where f: "find_account i rd = Some u" and e: "ensure_another_remains u (\<lambda>_. False) db = Inr ()"
      and u': "user_suspend now u = Inr u'" and s: "save_account u' db = Inr db1"
      and db': "db' = with_tokens (revoke_all_of (us_id u) now None) db1"
      by (auto simp: suspend_staff_Inr)
    have "has_active_superadmin db1"
      by (rule saving_keeps_superadmin [OF old wa f _ s has, of "Suspend now"])
        (use u' ensured_superadmin [OF e wroles] in auto)
    then show ?thesis using superadmin_frame [of db' db1] by (simp add: db')
  next
    case (ReactivateStaffMember a i v h d now)
    with step obtain u u' where f: "find_account i rd = Some u" and u': "user_reactivate_staff h now u = Inr u'"
      and s: "save_account u' db = Inr db'" by (auto simp: prod_bind_Inr reactivate_staff_Inr)
    show ?thesis by (rule mild [OF f _ s, of "ReactivateStaff h now"])
      (use u' in \<open>auto simp: user_reactivate_staff_def split: if_splits\<close>)
  next
    case (CreateRole a i n d ps)
    with step show ?thesis by (auto simp: create_role_def res_bind_eq_Inr intro: save_role_keeps_superadmin [OF _ has])
  next
    case (UpdateRole a i n d ps v)
    with step update_roleD [of a i n d ps v db db db'] role wroles show ?thesis
      using save_role_keeps_superadmin [OF _ has] by auto
  next
    case (DeleteRole i)
    with step role show ?thesis using delete_role_keeps_superadmin [OF _ wroles has] by simp
  next
    case (SuspendCustomer i v now)
    with step obtain u u' db1 where f: "find_account i rd = Some u" "us_type u = CUSTOMER" and u': "user_suspend now u = Inr u'"
      and s: "save_account u' db = Inr db1" and db': "db' = with_tokens (revoke_all_of (us_id u) now None) db1"
      by (auto simp: suspend_customer_Inr)
    have "has_active_superadmin db1" by (rule customer [OF f _ s, of "Suspend now"]) (use u' in simp)
    then show ?thesis using superadmin_frame [of db' db1] by (simp add: db')
  next
    case (ReactivateCustomerAccount i v)
    with step obtain u u' where f: "find_account i rd = Some u" "us_type u = CUSTOMER"
      and u': "user_reactivate_customer u = Inr u'" and s: "save_account u' db = Inr db'"
      by (auto simp: reactivate_customer_Inr)
    show ?thesis by (rule customer [OF f _ s, of ReactivateCustomer]) (use u' in simp)
  next
    case (RectifyCustomer i f l)
    with step obtain u u' where f: "find_account i rd = Some u" "us_type u = CUSTOMER" and u': "user_rectify f l u = Inr u'"
      and s: "db' = db \<or> save_account u' db = Inr db'" by (auto simp: rectify_customer_Inr split: if_splits)
    show ?thesis using s customer [OF f, of "Rectify f l" u'] u' has by auto
  next
    case (AnonymizeCustomer i v at)
    with step obtain u u' db1 where f: "find_account i rd = Some u" "us_type u = CUSTOMER" and u': "user_anonymize at u = Inr u'"
      and s: "save_account u' db = Inr db1" and db': "db' = delete_traces_of (us_id u) db1"
      by (auto simp: anonymize_customer_Inr)
    have "has_active_superadmin db1" by (rule customer [OF f _ s, of "Anonymize at"]) (use u' in simp)
    then show ?thesis using superadmin_frame [of db' db1] by (simp add: db')
  next
    case (AnonymizeInactiveCustomer i since at)
    show ?thesis
    proof (cases "lock_inactive_customer i since db")
      case None
      with AnonymizeInactiveCustomer step has show ?thesis by (simp add: anonymize_inactive_customer_def)
    next
      case (Some u)
      with AnonymizeInactiveCustomer step obtain u' db1 where u': "user_anonymize at u = Inr u'"
        and s: "save_account u' db = Inr db1" and db': "db' = delete_traces_of (us_id u) db1"
        by (auto simp: anonymize_inactive_customer_def res_bind_eq_Inr)
      from Some obtain a where "find (\<lambda>a. us_id a = i \<and> inactive_customer since a) (id_accounts db) = Some a"
        and u: "u = user.truncate a" by (auto simp: lock_inactive_customer_def)
      from find_SomeD [OF this(1)] have a: "a \<in> set (id_accounts db)" "us_id a = i" "us_type u = CUSTOMER"
        using u by (simp_all add: inactive_customer_def)
      then have "find_account i db = Some u" using find_account_in [of db a] wa u by (simp add: wf_accounts_def)
      from customer_change_keeps [OF older_refl wa wa this a(3) _ s has, of "Anonymize at"] u'
      have "has_active_superadmin db1" by simp
      then show ?thesis using superadmin_frame [of db' db1] by (simp add: db')
    qed
  next
    case (ChangeOwnPassword i s c n h now)
    with step obtain b where "change_password P i s c n h now rd db = Inr (b, db')" by (auto simp: prod_bind_Inr)
    then obtain u where f: "find_account i rd = Some u" and "db' = db \<or> (\<exists>u' db1. user_change_password h now u = Inr u'
        \<and> save_account u' db = Inr db1 \<and> db' = with_tokens (revoke_all_of (us_id u) now (Some s)) db1)"
      by (auto simp: change_password_Inr split: if_splits)
    then show ?thesis
    proof (elim disjE exE conjE)
      fix u' db1
      assume u': "user_change_password h now u = Inr u'" and s: "save_account u' db = Inr db1"
        and db': "db' = with_tokens (revoke_all_of (us_id u) now (Some s)) db1"
      have "has_active_superadmin db1" by (rule mild [OF f _ s, of "ChangePassword h now"])
        (use u' in \<open>auto simp: user_change_password_def split: if_splits\<close>)
      then show ?thesis using superadmin_frame [of db' db1] by (simp add: db')
    qed (use has in simp)
  next
    case (ChangeOwnEmail i e c k t now)
    with step obtain b where "change_email P i e c k t now rd db = Inr (b, db')" by (auto simp: prod_bind_Inr)
    then obtain u where f: "find_account i rd = Some u" "us_type u = CUSTOMER"
      and "db' = db \<or> (\<exists>u' db1 db2. user_change_email e u = Inr u'
        \<and> save_account u' db = Inr db1 \<and> issue_verification P k t (us_id u) (address_of u') now db1 = Inr db2
        \<and> db' = invalidate_resets_of (us_id u) now db2)"
      by (auto simp: change_email_Inr split: if_splits)
    from this(3) show ?thesis
    proof (elim disjE exE conjE)
      fix u' db1 db2
      assume u': "user_change_email e u = Inr u'" and s: "save_account u' db = Inr db1"
        and v: "issue_verification P k t (us_id u) (address_of u') now db1 = Inr db2"
        and db': "db' = invalidate_resets_of (us_id u) now db2"
      have "has_active_superadmin db1" by (rule customer [OF f _ s, of "ChangeEmail e"]) (use u' in simp)
      then show ?thesis using superadmin_frame [of db' db1] issued_frame(1) [OF v] by (simp add: db')
    qed (use has in simp)
  next
    case (RequestPasswordReset e k t now)
    with step have "db' = db \<or> (\<exists>i. issue_reset P k t i now db = Inr db')"
      by (auto simp: request_password_reset_def res_bind_eq_Inr split: option.splits if_splits)
    then have "id_accounts db' = id_accounts db \<and> id_roles db' = id_roles db" using issued_frame(2) by blast
    with has superadmin_frame [of db' db] show ?thesis by simp
  next
    case (ResetForgottenPassword t n h now)
    with step have "reset_password P t n h now rd db = Inr db'" by simp
    from this [unfolded reset_password_Inr] obtain l :: link and u u' db1 where f: "find_account (lk_user l) rd = Some u"
      and u': "user_reset_password h now u = Inr u'" and s: "save_account u' (mark_reset_used (lk_id l) now db) = Inr db1"
      and db': "db' = with_tokens (revoke_all_of (us_id u) now None) db1" by blast
    have m: "has_active_superadmin (mark_reset_used (lk_id l) now db)"
      using has superadmin_frame [of "mark_reset_used (lk_id l) now db" db] by simp
    have w: "wf_accounts (mark_reset_used (lk_id l) now db)" using marked_wf(1) [OF wf] by (simp add: wf_identity_def)
    have "has_active_superadmin db1"
      by (rule mild_change_keeps [OF older_same [OF marked_accounts(1) old] w f _ s m, of "ResetPassword h now"])
        (use u' in \<open>auto simp: user_reset_password_def split: if_splits\<close>)
    then show ?thesis using superadmin_frame [of db' db1] by (simp add: db')
  next
    case (ResendEmailVerification e k t now)
    with step have "db' = db \<or> (\<exists>i a. issue_verification P k t i a now db = Inr db')"
      by (auto simp: resend_email_verification_def res_bind_eq_Inr split: option.splits if_splits)
    then have "id_accounts db' = id_accounts db \<and> id_roles db' = id_roles db" using issued_frame(1) by blast
    with has superadmin_frame [of db' db] show ?thesis by simp
  next
    case (ConfirmEmail t now)
    with step have "confirm_email P t now rd db = Inr db'" by simp
    from this [unfolded confirm_email_Inr] obtain l :: verification and u u' where f: "find_account (lk_user l) rd = Some u"
      and u': "user_verify_email (vf_email l) now u = Some u'"
      and s: "save_account u' (mark_verification_used (lk_id l) now db) = Inr db'" by blast
    have m: "has_active_superadmin (mark_verification_used (lk_id l) now db)"
      using has superadmin_frame [of "mark_verification_used (lk_id l) now db" db] by simp
    have w: "wf_accounts (mark_verification_used (lk_id l) now db)" using marked_wf(2) [OF wf] by (simp add: wf_identity_def)
    show ?thesis
      by (rule mild_change_keeps [OF older_same [OF marked_accounts(2) old] w f _ s m, of "VerifyEmail (vf_email l) now"])
        (use u' in \<open>auto simp: user_verify_email_def split: if_splits\<close>)
  next
    case (SignIn e pw i s t now)
    with step show ?thesis using session_steps_keep_superadmin(1) [OF has] by (auto simp: prod_bind_Inr)
  next
    case (RefreshSession t i n now)
    with step show ?thesis using session_steps_keep_superadmin(2) [OF has] by (auto simp: prod_bind_Inr)
  next
    case (SignOut i t now)
    with step show ?thesis using session_steps_keep_superadmin(3) [OF has] by auto
  next
    case (CleanTokens now)
    with step show ?thesis using session_steps_keep_superadmin(4) [OF has] by auto
  qed
qed

lemma superadmin_stays:
  "identity_history P h \<Longrightarrow> has_active_superadmin (last h) \<Longrightarrow> has_active_superadmin (hd h)"
proof (induction rule: identity_history.induct)
  case (first db)
  then show ?case by simp
next
  case (later db past rd ev db')
  from history_sound [OF later.hyps(1)] later.hyps(2)
  have "wf_identity db" "wf_accounts rd" "older rd db" by auto
  moreover have "has_active_superadmin db" using later.IH later.prems by simp
  ultimately show ?case using superadmin_step [OF later.hyps(5)] later.hyps(3) by simp
qed

end
