(* ===== verification/SavedAsRead.thy ===== *)
theory SavedAsRead
  imports Superadmins
begin

text \<open>
  Operations that overlap are as if they did not: when a use case saves the account it read, it leaves the tables it
  would have left reading it then. Its version tells that nothing else changed it.
\<close>

abbreviation logged_in :: "time option \<Rightarrow> user \<Rightarrow> user" where
  "logged_in x u \<equiv> u\<lparr>us_last_login_at := x\<rparr>"

lemma user_step_logged_in:
  assumes "user_step u ev = Inr u'"
  shows "user_step (logged_in x u) ev = Inr (logged_in x u')"
proof (cases ev)
  case (Suspend at)
  with assms show ?thesis by (auto simp: user_suspend_def split: if_splits)
next
  case ReactivateCustomer
  with assms show ?thesis by (auto simp: user_reactivate_customer_def split: if_splits)
next
  case (ReactivateStaff h at)
  with assms show ?thesis by (auto simp: user_reactivate_staff_def split: if_splits)
next
  case (ReplaceRoles rs)
  with assms show ?thesis by (auto simp: user_replace_roles_def split: if_splits)
next
  case (ChangePassword h at)
  with assms show ?thesis by (auto simp: user_change_password_def can_sign_in_def split: if_splits)
next
  case (ResetPassword h at)
  with assms show ?thesis by (auto simp: user_reset_password_def can_sign_in_def split: if_splits)
next
  case (VerifyEmail sent at)
  with assms show ?thesis by (auto simp: user_verify_email_def can_sign_in_def split: if_splits option.splits)
next
  case (ChangeEmail e)
  with assms show ?thesis by (auto simp: user_change_email_def can_sign_in_def split: if_splits)
next
  case (Rectify f l)
  with assms show ?thesis by (auto simp: user_rectify_def can_sign_in_def split: if_splits)
next
  case (Anonymize at)
  with assms show ?thesis by (auto simp: user_anonymize_def split: if_splits)
qed

text \<open>A save does not write the time of the last sign-in.\<close>

lemma saved_account_logged_in [simp]: "saved_account (logged_in x u) = saved_account u"
  by (rule ext) (simp add: saved_account_def)

lemma save_account_logged_in [simp]: "save_account (logged_in x u) db = save_account u db"
proof -
  have "email_taken (logged_in x u) db = email_taken u db" by (simp add: email_taken_def)
  moreover have "user_checks (logged_in x u\<lparr>us_type := ty\<rparr>) = user_checks (u\<lparr>us_type := ty\<rparr>)" for ty
    by (simp add: user_checks_def)
  ultimately show ?thesis by (simp add: save_account_def cong: if_cong option.case_cong)
qed

lemma ensure_logged_in [simp]: "ensure_another_remains (logged_in x u) k db = ensure_another_remains u k db"
  by (simp add: ensure_another_remains_def cong: if_cong)

text \<open>The account in the present tables, and what the operation makes of it there.\<close>

lemma read_now:
  assumes "older rd db" and "wf_accounts db" and f: "find_account i rd = Some u"
    and op: "user_step u ev = Inr u'" and s: "save_account u' db = Inr db'"
  shows "\<exists>x. find_account i db = Some (logged_in x u) \<and> user_step (logged_in x u) ev = Inr (logged_in x u')
    \<and> save_account (logged_in x u') db = Inr db'"
proof -
  have "us_id u' = us_id u" "us_version u' = us_version u" using user_step_keeps [OF op] by simp_all
  from saved_version_matches [OF assms(1,2) f s this] obtain b :: account where
    b: "find_account i db = Some (user.truncate b)" "login_apart u (user.truncate b)" by blast
  define x where "x = us_last_login_at (user.truncate b)"
  from b(2) have "user.truncate b = logged_in x u" unfolding login_apart_def x_def .
  then show ?thesis using b(1) user_step_logged_in [OF op, of x] s by (intro exI [of _ x]) simp
qed

fun saves_account :: "identity_event \<Rightarrow> bool" where
  "saves_account (ReplaceStaffRoles a i rs v) = True"
| "saves_account (SuspendStaff a i v now) = True"
| "saves_account (ReactivateStaffMember a i v h d now) = True"
| "saves_account (SuspendCustomer i v now) = True"
| "saves_account (ReactivateCustomerAccount i v) = True"
| "saves_account (RectifyCustomer i f l) = True"
| "saves_account (AnonymizeCustomer i v at) = True"
| "saves_account (ChangeOwnPassword i s c n h now) = True"
| "saves_account (ChangeOwnEmail i e c k t now) = True"
| "saves_account (ResetForgottenPassword t n h now) = True"
| "saves_account (ConfirmEmail t now) = True"
| "saves_account _ = False"

lemma step_as_read_now:
  assumes step: "identity_step P rd db ev = Inr db'" and ev: "saves_account ev" and old: "older rd db"
    and wf: "wf_identity db"
  shows "db' = db \<or> identity_step P db db ev = Inr db'"
proof -
  have wa: "wf_accounts db" using wf by (simp add: wf_identity_def)
  note now = read_now [OF old wa]
  show ?thesis
  proof (cases ev)
    case (ReplaceStaffRoles a i rs v)
    with step obtain u u' where f: "find_account i rd = Some u" "us_type u = STAFF" "us_version u = v"
      "length (find_roles (new_set rs) db) = length (new_set rs)"
      "assert_can_grant_roles a (filter (\<lambda>r. ro_id r \<notin> set (us_roles u)) (find_roles (new_set rs) db)) db = Inr ()"
      "ensure_another_remains u (\<lambda>s. s \<in> set (new_set rs)) db = Inr ()"
      and u': "user_replace_roles (new_set rs) u = Inr u'" and s: "save_account u' db = Inr db'"
      by (auto simp only: replace_staff_roles_Inr identity_step.simps)
    from now [OF f(1) _ s, of "ReplaceRoles (new_set rs)"] u' obtain x where "find_account i db = Some (logged_in x u)"
      "user_replace_roles (new_set rs) (logged_in x u) = Inr (logged_in x u')" by auto
    with f s have "replace_staff_roles a i rs v db db = Inr db'"
      unfolding replace_staff_roles_Inr
      by (intro exI [of _ "logged_in x u"] exI [of _ "logged_in x u'"]) (simp del: set_new_set)
    with ReplaceStaffRoles show ?thesis by simp
  next
    case (SuspendStaff a i v now)
    with step obtain u u' db1 where f: "find_account i rd = Some u" "us_type u = STAFF" "us_version u = v" "us_id u \<noteq> a"
      "ensure_another_remains u (\<lambda>_. False) db = Inr ()" and u': "user_suspend now u = Inr u'"
      and s: "save_account u' db = Inr db1" and db': "db' = with_tokens (revoke_all_of (us_id u) now None) db1"
      by (auto simp only: suspend_staff_Inr identity_step.simps)
    from read_now [OF old wa f(1) _ s, of "Suspend now"] u' obtain x where "find_account i db = Some (logged_in x u)"
      "user_suspend now (logged_in x u) = Inr (logged_in x u')" by auto
    with f s db' have "suspend_staff a i v now db db = Inr db'"
      unfolding suspend_staff_Inr
      by (intro exI [of _ "logged_in x u"] exI [of _ "logged_in x u'"] exI [of _ db1]) simp
    with SuspendStaff show ?thesis by simp
  next
    case (ReactivateStaffMember a i v h d now)
    with step obtain pw where "reactivate_staff P a i v h d now rd db = Inr (pw, db')" by (auto simp: prod_bind_Inr)
    then obtain u u' where p: "issue_temporary_password (ip_unicode P) (ip_common P) (\<lambda>_. h) d = Inr (pw, h)"
      and f: "find_account i rd = Some u" "us_type u = STAFF" "us_version u = v"
      "assert_can_grant_roles a (find_roles (us_roles u) db) db = Inr ()"
      and u': "user_reactivate_staff h now u = Inr u'" and s: "save_account u' db = Inr db'"
      by (auto simp only: reactivate_staff_Inr)
    from read_now [OF old wa f(1) _ s, of "ReactivateStaff h now"] u' obtain x where "find_account i db = Some (logged_in x u)"
      "user_reactivate_staff h now (logged_in x u) = Inr (logged_in x u')" by auto
    with p f s have "reactivate_staff P a i v h d now db db = Inr (pw, db')"
      unfolding reactivate_staff_Inr
      by (intro exI [of _ "logged_in x u"] exI [of _ "logged_in x u'"]) simp
    with ReactivateStaffMember show ?thesis by (auto simp: prod_bind_Inr)
  next
    case (SuspendCustomer i v now)
    with step obtain u u' db1 where f: "find_account i rd = Some u" "us_type u = CUSTOMER" "us_version u = v"
      and u': "user_suspend now u = Inr u'"
      and s: "save_account u' db = Inr db1" and db': "db' = with_tokens (revoke_all_of (us_id u) now None) db1"
      by (auto simp only: suspend_customer_Inr identity_step.simps)
    from read_now [OF old wa f(1) _ s, of "Suspend now"] u' obtain x where "find_account i db = Some (logged_in x u)"
      "user_suspend now (logged_in x u) = Inr (logged_in x u')" by auto
    with f s db' have "suspend_customer i v now db db = Inr db'"
      unfolding suspend_customer_Inr
      by (intro exI [of _ "logged_in x u"] exI [of _ "logged_in x u'"] exI [of _ db1]) simp
    with SuspendCustomer show ?thesis by simp
  next
    case (ReactivateCustomerAccount i v)
    with step obtain u u' where f: "find_account i rd = Some u" "us_type u = CUSTOMER" "us_version u = v"
      and u': "user_reactivate_customer u = Inr u'" and s: "save_account u' db = Inr db'"
      by (auto simp only: reactivate_customer_Inr identity_step.simps)
    from read_now [OF old wa f(1) _ s, of ReactivateCustomer] u' obtain x where "find_account i db = Some (logged_in x u)"
      "user_reactivate_customer (logged_in x u) = Inr (logged_in x u')" by auto
    with f s have "reactivate_customer i v db db = Inr db'"
      unfolding reactivate_customer_Inr
      by (intro exI [of _ "logged_in x u"] exI [of _ "logged_in x u'"]) simp
    with ReactivateCustomerAccount show ?thesis by simp
  next
    case (RectifyCustomer i f l)
    with step obtain u u' where g: "find_account i rd = Some u" "us_type u = CUSTOMER" and u': "user_rectify f l u = Inr u'"
      and s: "if us_first_names u' = us_first_names u \<and> us_last_names u' = us_last_names u then db' = db
        else save_account u' db = Inr db'"
      by (auto simp only: rectify_customer_Inr identity_step.simps)
    show ?thesis
    proof (cases "us_first_names u' = us_first_names u \<and> us_last_names u' = us_last_names u")
      case True
      with s show ?thesis by simp
    next
      case False
      with s have s: "save_account u' db = Inr db'" by simp
      from read_now [OF old wa g(1) _ s, of "Rectify f l"] u' obtain x where "find_account i db = Some (logged_in x u)"
        "user_rectify f l (logged_in x u) = Inr (logged_in x u')" by auto
      with g s False have "rectify_customer i f l db db = Inr db'"
        unfolding rectify_customer_Inr
        by - (rule exI [of _ "logged_in x u"], rule exI [of _ "logged_in x u'"], auto)
      with RectifyCustomer show ?thesis by simp
    qed
  next
    case (AnonymizeCustomer i v at)
    with step obtain u u' db1 where f: "find_account i rd = Some u" "us_type u = CUSTOMER" "us_version u = v"
      and u': "user_anonymize at u = Inr u'"
      and s: "save_account u' db = Inr db1" and db': "db' = delete_traces_of (us_id u) db1"
      by (auto simp only: anonymize_customer_Inr identity_step.simps)
    from read_now [OF old wa f(1) _ s, of "Anonymize at"] u' obtain x where "find_account i db = Some (logged_in x u)"
      "user_anonymize at (logged_in x u) = Inr (logged_in x u')" by auto
    with f s db' have "anonymize_customer i v at db db = Inr db'"
      unfolding anonymize_customer_Inr
      by (intro exI [of _ "logged_in x u"] exI [of _ "logged_in x u'"] exI [of _ db1]) simp
    with AnonymizeCustomer show ?thesis by simp
  next
    case (ChangeOwnPassword i s c n h now)
    with step obtain b where "change_password P i s c n h now rd db = Inr (b, db')" by (auto simp: prod_bind_Inr)
    then obtain u where f: "find_account i rd = Some u"
      and c: "if \<not> ip_verify P c (us_password_hash u) then \<not> b \<and> db' = db
          else b \<and> assert_acceptable (ip_unicode P) (ip_common P) n ''newPassword'' = Inr ()
            \<and> \<not> ip_verify P n (us_password_hash u)
            \<and> (\<exists>u' db1. user_change_password h now u = Inr u' \<and> save_account u' db = Inr db1
                \<and> db' = with_tokens (revoke_all_of (us_id u) now (Some s)) db1)"
      by (auto simp only: change_password_Inr)
    show ?thesis
    proof (cases "ip_verify P c (us_password_hash u)")
      case False
      with c show ?thesis by simp
    next
      case True
      with c obtain u' db1 where b: b "assert_acceptable (ip_unicode P) (ip_common P) n ''newPassword'' = Inr ()"
        "\<not> ip_verify P n (us_password_hash u)" and u': "user_change_password h now u = Inr u'"
        and s: "save_account u' db = Inr db1" and db': "db' = with_tokens (revoke_all_of (us_id u) now (Some s)) db1"
        by auto
      from read_now [OF old wa f _ s, of "ChangePassword h now"] u' obtain x where "find_account i db = Some (logged_in x u)"
        "user_change_password h now (logged_in x u) = Inr (logged_in x u')" by auto
      with b s db' True have "change_password P i s c n h now db db = Inr (b, db')"
        unfolding change_password_Inr by (intro exI [of _ "logged_in x u"]) simp
      with ChangeOwnPassword show ?thesis by (auto simp: prod_bind_Inr)
    qed
  next
    case (ChangeOwnEmail i e c k t now)
    with step obtain b where "change_email P i e c k t now rd db = Inr (b, db')" by (auto simp: prod_bind_Inr)
    then obtain u where f: "find_account i rd = Some u" "us_type u = CUSTOMER"
      and c: "if \<not> ip_verify P c (us_password_hash u) then \<not> b \<and> db' = db
          else b \<and> (\<exists>u' db1 db2. user_change_email e u = Inr u' \<and> save_account u' db = Inr db1
                \<and> issue_verification P k t (us_id u) (address_of u') now db1 = Inr db2
                \<and> db' = invalidate_resets_of (us_id u) now db2)"
      by (auto simp only: change_email_Inr)
    show ?thesis
    proof (cases "ip_verify P c (us_password_hash u)")
      case False
      with c show ?thesis by simp
    next
      case True
      with c obtain u' db1 db2 where b: b and u': "user_change_email e u = Inr u'"
        and s: "save_account u' db = Inr db1" and v: "issue_verification P k t (us_id u) (address_of u') now db1 = Inr db2"
        and db': "db' = invalidate_resets_of (us_id u) now db2" by auto
      from read_now [OF old wa f(1) _ s, of "ChangeEmail e"] u' obtain x where "find_account i db = Some (logged_in x u)"
        "user_change_email e (logged_in x u) = Inr (logged_in x u')" by auto
      with b f s v db' True have "change_email P i e c k t now db db = Inr (b, db')"
        unfolding change_email_Inr by (intro exI [of _ "logged_in x u"]) (simp add: address_of_def)
      with ChangeOwnEmail show ?thesis by (auto simp: prod_bind_Inr)
    qed
  next
    case (ResetForgottenPassword t n h now)
    with step have "reset_password P t n h now rd db = Inr db'" by simp
    from this [unfolded reset_password_Inr] obtain l :: link and u u' db1
      where l: "find_link (ip_digest P t) (id_resets db) = Some l" "link_usable l now"
      and f: "find_account (lk_user l) rd = Some u" "can_sign_in u"
      and a: "assert_acceptable (ip_unicode P) (ip_common P) n ''newPassword'' = Inr ()"
      and u': "user_reset_password h now u = Inr u'" and s: "save_account u' (mark_reset_used (lk_id l) now db) = Inr db1"
      and db': "db' = with_tokens (revoke_all_of (us_id u) now None) db1" by blast
    have w: "wf_accounts (mark_reset_used (lk_id l) now db)" using marked_wf(1) [OF wf] by (simp add: wf_identity_def)
    from read_now [OF older_same [OF marked_accounts(1) old] w f(1) _ s, of "ResetPassword h now"] u' obtain x where
      "find_account (lk_user l) (mark_reset_used (lk_id l) now db) = Some (logged_in x u)"
      "user_reset_password h now (logged_in x u) = Inr (logged_in x u')" by auto
    then have "reset_password P t n h now db db = Inr db'"
      unfolding reset_password_Inr using l f(2) a s db'
      by (intro exI [of _ l] exI [of _ "logged_in x u"] exI [of _ "logged_in x u'"] exI [of _ db1])
        (simp add: can_sign_in_def mark_reset_used_def)
    with ResetForgottenPassword show ?thesis by simp
  next
    case (ConfirmEmail t now)
    with step have "confirm_email P t now rd db = Inr db'" by simp
    from this [unfolded confirm_email_Inr] obtain l :: verification and u u'
      where l: "find_link (ip_digest P t) (id_verifications db) = Some l" "link_usable l now"
      and f: "find_account (lk_user l) rd = Some u"
      and u': "user_verify_email (vf_email l) now u = Some u'"
      and s: "save_account u' (mark_verification_used (lk_id l) now db) = Inr db'" by blast
    have w: "wf_accounts (mark_verification_used (lk_id l) now db)" using marked_wf(2) [OF wf] by (simp add: wf_identity_def)
    from read_now [OF older_same [OF marked_accounts(2) old] w f _ s, of "VerifyEmail (vf_email l) now"] u' obtain x where
      "find_account (lk_user l) (mark_verification_used (lk_id l) now db) = Some (logged_in x u)"
      "user_verify_email (vf_email l) now (logged_in x u) = Some (logged_in x u')" by (auto split: option.splits)
    then have "confirm_email P t now db db = Inr db'"
      unfolding confirm_email_Inr using l s
      by (intro exI [of _ l] exI [of _ "logged_in x u"] exI [of _ "logged_in x u'"])
        (simp add: mark_verification_used_def)
    with ConfirmEmail show ?thesis by simp
  qed (use ev in simp_all)
qed

end
