(* ===== verification/Privileges.thy ===== *)
theory Privileges
  imports IdentitySound
begin

text \<open>
  Nobody gives what they do not hold: what an account may do after an operation is what it could do before, or what the
  member of the staff that asked for it could.
\<close>

text \<open>What an account may do: the permissions of its roles, and to be a superadmin.\<close>

datatype power = Superadmin | Permission string

definition role_powers :: "role \<Rightarrow> power list" where
  "role_powers r = (if ro_superadmin r then [Superadmin] else []) @ map Permission (effective_permissions r)"

definition account_powers :: "user \<Rightarrow> identity \<Rightarrow> power list" where
  "account_powers u db =
     (if us_type u = STAFF \<and> us_status u = ACTIVE then concat (map role_powers (find_roles (us_roles u) db)) else [])"

definition powers :: "id \<Rightarrow> identity \<Rightarrow> power list" where
  "powers i db = (case find_account i db of None \<Rightarrow> [] | Some u \<Rightarrow> account_powers u db)"

text \<open>They are what the code computes: what it grants from, and what a request may do.\<close>

lemma powers_holdings:
  "Superadmin \<in> set (powers i db) \<longleftrightarrow> fst (holdings_of i db)"
  "Permission c \<in> set (powers i db) \<longleftrightarrow> c \<in> set (snd (holdings_of i db))"
  by (auto simp: powers_def account_powers_def holdings_of_def role_powers_def list_ex_iff split: option.splits if_splits)

lemma set_account_powers:
  "us_type u = STAFF \<Longrightarrow> us_status u = ACTIVE \<Longrightarrow>
     set (account_powers u db) = (\<Union>r \<in> {r \<in> set (id_roles db). ro_id r \<in> set (us_roles u)}. set (role_powers r))"
  by (auto simp: account_powers_def find_roles_def)

lemma account_powers_nil [simp]:
  "us_type u = CUSTOMER \<Longrightarrow> account_powers u db = []" "us_status u \<noteq> ACTIVE \<Longrightarrow> account_powers u db = []"
  by (simp_all add: account_powers_def)

lemma account_powers_cong:
  "us_type u = us_type v \<Longrightarrow> us_status u = us_status v \<Longrightarrow> set (us_roles u) = set (us_roles v) \<Longrightarrow>
     id_roles db = id_roles db' \<Longrightarrow> account_powers u db = account_powers v db'"
  by (simp add: account_powers_def find_roles_def)

lemma account_powers_roles: "id_roles d = id_roles db \<Longrightarrow> account_powers u d = account_powers u db"
  by (rule account_powers_cong) simp_all

lemma powers_eqI: "find_account i d = find_account i db \<Longrightarrow> id_roles d = id_roles db \<Longrightarrow> powers i d = powers i db"
  using account_powers_roles [of d db] by (simp add: powers_def cong: option.case_cong)

lemma powers_frame:
  "id_accounts d = id_accounts db \<Longrightarrow> id_roles d = id_roles db \<Longrightarrow> powers i d = powers i db"
  by (rule powers_eqI) (simp_all add: find_account_def)

section \<open>Granting\<close>

lemma superadmin_holds_all:
  assumes "wf_roles db" and "Superadmin \<in> set (powers a db)" and "r \<in> set (id_roles db)" "ro_superadmin r"
  shows "set (role_powers r) \<subseteq> set (powers a db)"
proof -
  from assms(2) obtain u where u: "find_account a db = Some u" "Superadmin \<in> set (account_powers u db)"
    unfolding powers_def by (cases "find_account a db") simp_all
  from u(2) have st: "us_type u = STAFF" "us_status u = ACTIVE" by (auto simp: account_powers_def split: if_splits)
  from u(2) obtain q where q: "q \<in> set (id_roles db)" "ro_id q \<in> set (us_roles u)" "Superadmin \<in> set (role_powers q)"
    unfolding set_account_powers [OF st] by blast
  then have "ro_superadmin q" by (auto simp: role_powers_def split: if_splits)
  with one_superadmin_role [OF assms(1) q(1) _ assms(3,4)] have "q = r" by blast
  with q set_account_powers [OF st, of db] u(1) show ?thesis by (auto simp: powers_def)
qed

lemma granted_roles:
  assumes g: "assert_can_grant_roles a rs db = Inr ()" and wf: "wf_roles db" and r: "r \<in> set rs" "r \<in> set (id_roles db)"
  shows "set (role_powers r) \<subseteq> set (powers a db)"
proof -
  from g r(1) have h: "if ro_superadmin r then fst (holdings_of a db)
      else holds_all (holdings_of a db) (effective_permissions r)"
    by (auto simp: assert_can_grant_roles_def list_all_iff split: if_splits)
  show ?thesis
  proof (cases "ro_superadmin r")
    case True
    with h have "Superadmin \<in> set (powers a db)" by (simp add: powers_holdings)
    from superadmin_holds_all [OF wf this r(2) True] show ?thesis .
  next
    case False
    with h show ?thesis by (auto simp: role_powers_def holds_all_def list_all_iff powers_holdings)
  qed
qed

lemma granted_permissions:
  "assert_can_grant_permissions a codes db = Inr () \<Longrightarrow> c \<in> set codes \<Longrightarrow> Permission c \<in> set (powers a db)"
  by (auto simp: assert_can_grant_permissions_def holds_all_def list_all_iff powers_holdings split: if_splits)

section \<open>What the statements leave an account\<close>

lemma find_saved:
  assumes s: "save_account u' db = Inr db'" and wf: "wf_accounts db"
  shows "find_account i db' = (if i = us_id u' then map_option (\<lambda>a. user.truncate (saved_account u' a))
      (find (\<lambda>a. us_id a = i) (id_accounts db)) else find_account i db)"
proof -
  have "find (\<lambda>a. us_id a = i) (map (saved_account u') as) = map_option (saved_account u') (find (\<lambda>a. us_id a = i) as)" for as
    by (induction as) simp_all
  then have f: "find_account i db' = map_option (\<lambda>a. user.truncate (saved_account u' a))
      (find (\<lambda>a. us_id a = i) (id_accounts db))"
    by (simp add: find_account_def save_accountD(1) [OF s] option.map_comp comp_def)
  show ?thesis
  proof (cases "i = us_id u'")
    case False
    have "map_option (\<lambda>a. user.truncate (saved_account u' a)) (find (\<lambda>a. us_id a = i) (id_accounts db))
        = map_option user.truncate (find (\<lambda>a. us_id a = i) (id_accounts db))"
    proof (cases "find (\<lambda>a. us_id a = i) (id_accounts db)")
      case (Some a)
      with False find_SomeD [OF Some] show ?thesis by simp
    qed simp
    with f False show ?thesis by (simp add: find_account_def)
  qed (use f in simp)
qed

lemma saved_powers:
  assumes f: "find_account j db = Some u" and op: "user_step u ev = Inr u'" and s: "save_account u' db = Inr db'"
    and wf: "wf_accounts db"
  shows "powers i db' = (if i = j then account_powers u' db else powers i db)"
proof -
  note k = user_step_keeps [OF op] and fid = find_account_id [OF f]
  have roles: "id_roles db' = id_roles db" by (rule save_account_frame(1) [OF s])
  show ?thesis
  proof (cases "i = j")
    case False
    then have "find_account i db' = find_account i db" using find_saved [OF s wf, of i] k fid by simp
    then show ?thesis using False powers_eqI [OF _ roles] by simp
  next
    case True
    from f obtain a where a: "find (\<lambda>a. us_id a = j) (id_accounts db) = Some a" and u: "u = user.truncate a"
      by (auto simp: find_account_def)
    have aid: "us_id a = us_id u'" using find_SomeD [OF a] k fid by simp
    have "find_account i db' = Some (user.truncate (saved_account u' a))"
      using find_saved [OF s wf, of i] a True k fid by simp
    moreover have "account_powers (user.truncate (saved_account u' a)) db' = account_powers u' db"
      by (rule account_powers_cong) (use aid k u roles in simp_all)
    ultimately show ?thesis using True by (simp add: powers_def)
  qed
qed

lemma added_powers:
  assumes a: "add_account u db = Inr db'"
  shows "powers i db' = (if i = us_id u then account_powers u db else powers i db)"
proof -
  note d = add_accountD [OF a]
  have "find (\<lambda>a. us_id a = i) (as @ [b]) = (case find (\<lambda>a. us_id a = i) as of
      None \<Rightarrow> if us_id b = i then Some b else None | Some a \<Rightarrow> Some a)" for as and b :: account
    by (induction as) simp_all
  then have f: "find (\<lambda>a. us_id a = i) (id_accounts db') = (case find (\<lambda>a. us_id a = i) (id_accounts db) of
      None \<Rightarrow> if us_id u = i then Some (new_account u) else None | Some a \<Rightarrow> Some a)"
    by (simp add: d(1))
  have "account_powers (user.truncate (new_account u)) db' = account_powers u db"
    by (rule account_powers_cong) (simp_all add: d(1))
  moreover have "find (\<lambda>a. us_id a = us_id u) (id_accounts db) = None"
    using d(2) unfolding find_None_iff by (metis imageI)
  moreover have "account_powers v db' = account_powers v db" for v by (simp add: account_powers_def find_roles_def d(1))
  ultimately show ?thesis using f
    by (auto simp: powers_def find_account_def split: option.splits)
qed

lemma touched_powers:
  assumes "\<And>a. us_id (f a) = us_id a" "\<And>a. us_type (f a) = us_type a" "\<And>a. us_status (f a) = us_status a"
    "\<And>a. us_roles (f a) = us_roles a"
  shows "powers i (db\<lparr>id_accounts := map f (id_accounts db)\<rparr>) = powers i db"
proof -
  have "find (\<lambda>a. us_id a = i) (map f as) = map_option f (find (\<lambda>a. us_id a = i) as)" for as
    by (induction as) (simp_all add: assms)
  moreover have "account_powers (user.truncate (f a)) (db\<lparr>id_accounts := as\<rparr>) = account_powers (user.truncate a) db" for a as
    by (rule account_powers_cong) (simp_all add: assms)
  ultimately show ?thesis by (simp add: powers_def find_account_def split: option.splits)
qed

text \<open>A change of an account that neither makes it active nor gives it a role; and any of a customer's.\<close>

lemma mild_save_powers:
  assumes f: "find_account j db = Some u" and op: "user_step u ev = Inr u'" and s: "save_account u' db = Inr db'"
    and wf: "wf_accounts db" and m: "us_status u' = ACTIVE \<Longrightarrow> us_status u = ACTIVE" "us_roles u' = us_roles u"
  shows "set (powers i db') \<subseteq> set (powers i db)"
proof (cases "i = j \<and> us_status u' = ACTIVE")
  case True
  then have "account_powers u' db = account_powers u db"
    using m user_step_keeps [OF op] by (intro account_powers_cong) simp_all
  with True f show ?thesis using saved_powers [OF f op s wf, of i] by (simp add: powers_def)
qed (use saved_powers [OF f op s wf, of i] in auto)

lemma customer_save_powers:
  assumes f: "find_account j db = Some u" "us_type u = CUSTOMER" and op: "user_step u ev = Inr u'"
    and s: "save_account u' db = Inr db'" and wf: "wf_accounts db"
  shows "set (powers i db') \<subseteq> set (powers i db)"
proof -
  have "us_type u' = CUSTOMER" using user_step_keeps [OF op] f(2) by simp
  then show ?thesis using saved_powers [OF f(1) op s wf, of i] by auto
qed

text \<open>Roles that change: what the roles held came to hold.\<close>

lemma role_change_powers:
  assumes acc: "id_accounts db' = id_accounts db"
    and r: "\<And>q. q \<in> set (id_roles db') \<Longrightarrow> (\<exists>a \<in> set (id_accounts db). ro_id q \<in> set (us_roles a)) \<Longrightarrow>
      \<exists>p \<in> set (id_roles db). ro_id p = ro_id q \<and> set (role_powers q) \<subseteq> set (role_powers p) \<union> X"
  shows "set (powers i db') \<subseteq> set (powers i db) \<union> X"
proof
  fix w
  assume w: "w \<in> set (powers i db')"
  have f: "find_account i db' = find_account i db" by (simp add: find_account_def acc)
  with w obtain u where u: "find_account i db = Some u" "w \<in> set (account_powers u db')"
    by (cases "find_account i db") (simp_all add: powers_def)
  from u(2) have st: "us_type u = STAFF" "us_status u = ACTIVE" by (auto simp: account_powers_def split: if_splits)
  from u(2) obtain q where q: "q \<in> set (id_roles db')" "ro_id q \<in> set (us_roles u)" "w \<in> set (role_powers q)"
    unfolding set_account_powers [OF st] by blast
  from find_accountD [OF u(1)] obtain a where "a \<in> set (id_accounts db)" "u = user.truncate a" by blast
  with q(2) have "\<exists>a \<in> set (id_accounts db). ro_id q \<in> set (us_roles a)" by auto
  from r [OF q(1) this] obtain p where "p \<in> set (id_roles db)" "ro_id p = ro_id q"
    "set (role_powers q) \<subseteq> set (role_powers p) \<union> X" by blast
  with q have "w \<in> set (account_powers u db) \<union> X" unfolding set_account_powers [OF st] by auto
  with u(1) show "w \<in> set (powers i db) \<union> X" by (simp add: powers_def)
qed

lemma update_role_powers:
  assumes u: "update_role actor j name description permissions v db db = Inr db'" and wf: "wf_roles db"
  shows "set (powers i db') \<subseteq> set (powers i db) \<union> set (powers actor db)"
proof -
  from update_roleD [OF u wf] obtain r r' where r: "find_role j db = Inr r" and s: "save_role r' db = Inr db'"
    and k: "ro_id r' = ro_id r" "ro_superadmin r' = ro_superadmin r"
    and g: "permissions = None \<and> ro_permissions r' = ro_permissions r
       \<or> permissions \<noteq> None \<and> \<not> ro_superadmin r
         \<and> assert_can_grant_permissions actor
              (filter (\<lambda>code. code \<notin> set (effective_permissions r)) (effective_permissions r')) db = Inr ()"
    by blast
  note rin = find_roleD [OF r]
  have new: "c \<in> set (ro_permissions r) \<or> Permission c \<in> set (powers actor db)"
    if c: "c \<in> set (ro_permissions r')" "\<not> ro_superadmin r" for c
    using g
  proof (elim disjE conjE)
    assume a: "assert_can_grant_permissions actor
              (filter (\<lambda>code. code \<notin> set (effective_permissions r)) (effective_permissions r')) db = Inr ()"
    show ?thesis
    proof (cases "c \<in> set (ro_permissions r)")
      case False
      then have "c \<in> set (filter (\<lambda>code. code \<notin> set (effective_permissions r)) (effective_permissions r'))"
        using c k by (simp add: effective_permissions_def)
      with granted_permissions [OF a] show ?thesis by simp
    qed simp
  qed (use c in simp)
  have ps: "set (role_powers (saved_role r' q)) \<subseteq> set (role_powers q) \<union> set (powers actor db)"
    if q: "q \<in> set (id_roles db)" for q
  proof (cases "ro_id q = ro_id r'")
    case True
    then have "q = r" using role_by_id [OF wf q, of r] rin k by simp
    with True new show ?thesis by (auto simp: role_powers_def effective_permissions_def)
  qed simp
  show ?thesis
    using save_role_cases(2) [OF s]
  proof (elim disjE exE conjE)
    fix t
    assume db': "db' = db\<lparr>id_roles := map (saved_role r') (id_roles db)\<rparr>"
    show ?thesis
    proof (rule role_change_powers)
      fix q
      assume "q \<in> set (id_roles db')"
      then have "q \<in> saved_role r' ` set (id_roles db)" by (simp add: db')
      then obtain p where "p \<in> set (id_roles db)" "q = saved_role r' p" by (rule imageE) (rule that)
      with ps show "\<exists>p \<in> set (id_roles db). ro_id p = ro_id q
          \<and> set (role_powers q) \<subseteq> set (role_powers p) \<union> set (powers actor db)" by auto
    qed (simp add: db')
  next
    assume "ro_id r' \<notin> ro_id ` set (id_roles db)"
    with rin k(1) show ?thesis by (metis imageI)
  qed
qed

lemma create_role_powers:
  assumes c: "create_role actor j name description permissions db = Inr db'" and wf: "wf_accounts db"
    and new: "j \<notin> ro_id ` set (id_roles db)"
  shows "set (powers i db') \<subseteq> set (powers i db)"
proof -
  from c obtain r where r: "role_create j name description permissions = Inr r" and s: "save_role r db = Inr db'"
    by (auto simp: create_role_def res_bind_eq_Inr)
  have "ro_id r = j" using role_create_wf [OF r] by simp
  with save_role_cases(2) [OF s] new have db': "db' = db\<lparr>id_roles := id_roles db @ [r\<lparr>ro_version := 1\<rparr>]\<rparr>"
    by (metis imageI)
  have "j \<notin> set (us_roles a)" if "a \<in> set (id_accounts db)" for a
    using wf that new by (auto simp: wf_accounts_def list_all_iff roles_exist_def)
  then have "set (powers i db') \<subseteq> set (powers i db) \<union> {}"
    by (intro role_change_powers) (use \<open>ro_id r = j\<close> in \<open>auto simp: db'\<close>)
  then show ?thesis by simp
qed

lemma delete_role_powers:
  assumes d: "delete_role j db db = Inr db'"
  shows "set (powers i db') \<subseteq> set (powers i db)"
proof -
  from d obtain r :: role where s: "delete_role_row (ro_id r) db = Inr db'"
    by (auto simp: delete_role_def res_bind_eq_Inr if_Inl_eq_Inr)
  have "set (powers i db') \<subseteq> set (powers i db) \<union> {}"
    by (intro role_change_powers) (auto simp: delete_role_rowD [OF s])
  then show ?thesis by simp
qed

section \<open>Every operation\<close>

text \<open>Who of the staff asked for it.\<close>

fun actor_of :: "identity_event \<Rightarrow> id option" where
  "actor_of (CreateStaff a i e f l rs h d now) = Some a"
| "actor_of (ReplaceStaffRoles a i rs v) = Some a"
| "actor_of (SuspendStaff a i v now) = Some a"
| "actor_of (ReactivateStaffMember a i v h d now) = Some a"
| "actor_of (CreateRole a i n d ps) = Some a"
| "actor_of (UpdateRole a i n d ps v) = Some a"
| "actor_of _ = None"

text \<open>The operator's command that creates the first superadmin is the one that gives what nobody holds.\<close>

fun is_bootstrap :: "identity_event \<Rightarrow> bool" where
  "is_bootstrap (CreateFirstSuperadmin i e f l h d now) = True"
| "is_bootstrap _ = False"

lemma create_staff_powers:
  assumes c: "create_staff P (Some a) j e f l rs h d now db = Inr (pw, db')" and wf: "wf_roles db"
  shows "set (powers i db') \<subseteq> set (powers i db) \<union> set (powers a db)"
proof -
  from create_staff_Inr [OF c] obtain u where g: "assert_can_grant_roles a (find_roles (new_set rs) db) db = Inr ()"
    and u: "user_create_staff j e f l (new_set rs) h now = Inr u" and add: "add_account u db = Inr db'" by auto
  note w = user_create_staff_wf [OF u]
  have "set (account_powers u db) \<subseteq> set (powers a db)"
  proof
    fix x
    assume "x \<in> set (account_powers u db)"
    then obtain r where r: "r \<in> set (id_roles db)" "ro_id r \<in> set (us_roles u)" "x \<in> set (role_powers r)"
      using set_account_powers [of u db] w by auto
    then have "r \<in> set (find_roles (new_set rs) db)" using w by (simp add: find_roles_def)
    from granted_roles [OF g wf this r(1)] r(3) show "x \<in> set (powers a db)" by blast
  qed
  then show ?thesis using added_powers [OF add, of i] by auto
qed

lemma replace_roles_powers:
  assumes c: "replace_staff_roles a j rs v db db = Inr db'" and wf: "wf_identity db"
  shows "set (powers i db') \<subseteq> set (powers i db) \<union> set (powers a db)"
proof -
  have wr: "wf_roles db" and wa: "wf_accounts db" using wf by (simp_all add: wf_identity_def)
  from c obtain u u' where f: "find_account j db = Some u" "us_type u = STAFF"
    and g: "assert_can_grant_roles a (filter (\<lambda>r. ro_id r \<notin> set (us_roles u)) (find_roles (new_set rs) db)) db = Inr ()"
    and u': "user_replace_roles (new_set rs) u = Inr u'" and s: "save_account u' db = Inr db'"
    by (auto simp: replace_staff_roles_Inr)
  note w = user_replace_rolesD [OF u']
  have "set (account_powers u' db) \<subseteq> set (account_powers u db) \<union> set (powers a db)"
  proof (cases "us_status u = ACTIVE")
    case True
    show ?thesis
    proof
      fix x
      assume "x \<in> set (account_powers u' db)"
      then obtain r where r: "r \<in> set (id_roles db)" "ro_id r \<in> set (new_set rs)" "x \<in> set (role_powers r)"
        using set_account_powers [of u' db] w True by auto
      show "x \<in> set (account_powers u db) \<union> set (powers a db)"
      proof (cases "ro_id r \<in> set (us_roles u)")
        case True
        with r \<open>us_status u = ACTIVE\<close> f(2) show ?thesis using set_account_powers [of u db] by auto
      next
        case False
        with r have "r \<in> set (filter (\<lambda>r. ro_id r \<notin> set (us_roles u)) (find_roles (new_set rs) db))"
          by (simp add: find_roles_def)
        from granted_roles [OF g wr this r(1)] r(3) show ?thesis by blast
      qed
    qed
  qed (use w in simp)
  then show ?thesis using saved_powers [OF f(1) _ s wa, of "ReplaceRoles (new_set rs)" i] u' f(1)
    by (auto simp: powers_def)
qed

lemma reactivate_staff_powers:
  assumes c: "reactivate_staff P a j v h d now db db = Inr (pw, db')" and wf: "wf_identity db"
  shows "set (powers i db') \<subseteq> set (powers i db) \<union> set (powers a db)"
proof -
  have wr: "wf_roles db" and wa: "wf_accounts db" using wf by (simp_all add: wf_identity_def)
  from c obtain u u' where f: "find_account j db = Some u"
    and g: "assert_can_grant_roles a (find_roles (us_roles u) db) db = Inr ()"
    and u': "user_reactivate_staff h now u = Inr u'" and s: "save_account u' db = Inr db'"
    by (auto simp: reactivate_staff_Inr)
  have k: "us_type u' = STAFF" "us_status u' = ACTIVE" "us_roles u' = us_roles u"
    using u' by (auto simp: user_reactivate_staff_def split: if_splits)
  have "set (account_powers u' db) \<subseteq> set (powers a db)"
  proof
    fix x
    assume "x \<in> set (account_powers u' db)"
    then obtain r where r: "r \<in> set (id_roles db)" "ro_id r \<in> set (us_roles u)" "x \<in> set (role_powers r)"
      unfolding set_account_powers [OF k(1,2)] k(3) by blast
    then have "r \<in> set (find_roles (us_roles u) db)" by (simp add: find_roles_def)
    from granted_roles [OF g wr this r(1)] r(3) show "x \<in> set (powers a db)" by blast
  qed
  then show ?thesis using saved_powers [OF f _ s wa, of "ReactivateStaff h now" i] u' by auto
qed

definition asked_by :: "identity_event \<Rightarrow> identity \<Rightarrow> power list" where
  "asked_by ev db = (case actor_of ev of None \<Rightarrow> [] | Some a \<Rightarrow> powers a db)"

lemma sessions_powers:
  "sign_in P e pw j s t now rd db = Inr (r, db') \<Longrightarrow> powers i db' = powers i db"
  "refresh_session P k j n now rd db = Inr (q, db') \<Longrightarrow> powers i db' = powers i db"
  "powers i (sign_out P u k now db) = powers i db"
  "powers i (clean_tokens P now db) = powers i db"
proof -
  have touch: "powers i (d\<lparr>id_accounts := map (signed_in_at u at) (id_accounts d)\<rparr>) = powers i d"
    "powers i (record_activity u at d) = powers i d" for u at d
    unfolding record_activity_def by (rule touched_powers; simp)+
  show "powers i db' = powers i db" if "sign_in P e pw j s t now rd db = Inr (r, db')"
    using sign_in_Inr [OF that]
  proof (elim disjE exE conjE)
    fix u ts
    assume "record_sign_in (us_id u) now (db\<lparr>id_tokens := ts\<rparr>) = Inr db'"
    then have "powers i db' = powers i (db\<lparr>id_tokens := ts\<rparr>)" using touch(1) [where d = "db\<lparr>id_tokens := ts\<rparr>"]
      by (auto simp: record_sign_in_def split: if_splits)
    then show ?thesis using powers_frame [of "db\<lparr>id_tokens := ts\<rparr>" db] by simp
  qed simp
  show "powers i db' = powers i db" if "refresh_session P k j n now rd db = Inr (q, db')"
    using refresh_session_Inr [OF that]
  proof (elim disjE exE conjE)
    fix t
    assume "db' = with_tokens (\<lambda>ts. snd (revoke_session (rt_session t) now ts)) db"
    then show ?thesis using powers_frame [of db' db] by (simp add: with_tokens_def)
  next
    fix t u ts
    assume "db' = (record_activity (us_id u) now db)\<lparr>id_tokens := ts\<rparr>"
    then show ?thesis using powers_frame [of db' "record_activity (us_id u) now db"] touch(2) by simp
  qed simp
  show "powers i (sign_out P u k now db) = powers i db"
    using powers_frame [of "sign_out P u k now db" db] by (simp add: sign_out_def with_tokens_def split: option.splits)
  show "powers i (clean_tokens P now db) = powers i db"
    using powers_frame [of "clean_tokens P now db" db] by (simp add: clean_tokens_def Let_def)
qed

lemma tokens_powers [simp]:
  "powers i (with_tokens f db) = powers i db" "powers i (delete_traces_of j db) = powers i db"
  "powers i (mark_reset_used k at db) = powers i db" "powers i (mark_verification_used k at db) = powers i db"
  "powers i (invalidate_resets_of j at db) = powers i db"
  by (rule powers_frame; simp add: with_tokens_def delete_traces_of_def)+

lemma issued_powers:
  "issue_verification P k t j e now db = Inr db' \<Longrightarrow> powers i db' = powers i db"
  "issue_reset P k t j now db = Inr db' \<Longrightarrow> powers i db' = powers i db"
  by (rule powers_frame; auto simp: issue_verification_def add_verification_def invalidate_verifications_of_def
      issue_reset_def add_reset_def invalidate_resets_of_def res_bind_eq_Inr)+

theorem step_powers:
  assumes step: "identity_step P db db ev = Inr db'" and wf: "wf_identity db" and fresh: "fresh_ids ev db"
    and boot: "\<not> is_bootstrap ev"
  shows "set (powers i db') \<subseteq> set (powers i db) \<union> set (asked_by ev db)"
proof -
  have wr: "wf_roles db" and wa: "wf_accounts db" using wf by (simp_all add: wf_identity_def)
  note mild = mild_save_powers [OF _ _ _ wa]
  note customer = customer_save_powers [OF _ _ _ _ wa]
  show ?thesis
  proof (cases ev)
    case (RegisterCustomer j e pw f l n h k t now)
    let ?u = "user_register_customer j e f l h n now"
    from RegisterCustomer step obtain db1 where a: "add_account ?u db = Inr db1"
      and v: "issue_verification P k t j (address_of ?u) now db1 = Inr db'"
      by (auto simp: register_customer_def res_bind_eq_Inr Let_def address_of_def user_register_customer_def)
    have "account_powers ?u db = []" by (simp add: user_register_customer_def)
    then show ?thesis using added_powers [OF a, of i] issued_powers(1) [OF v] by auto
  next
    case (CreateStaff a j e f l rs h d now)
    with step obtain w where "create_staff P (Some a) j e f l rs h d now db = Inr (w, db')" by (auto simp: prod_bind_Inr)
    from create_staff_powers [OF this wr] CreateStaff show ?thesis by (simp add: asked_by_def)
  next
    case (ReplaceStaffRoles a j rs v)
    with step show ?thesis using replace_roles_powers [OF _ wf] by (simp add: asked_by_def)
  next
    case (SuspendStaff a j v now)
    with step obtain u u' db1 where f: "find_account j db = Some u" and u': "user_suspend now u = Inr u'"
      and s: "save_account u' db = Inr db1" and db': "db' = with_tokens (revoke_all_of (us_id u) now None) db1"
      by (auto simp: suspend_staff_Inr)
    have "set (powers i db1) \<subseteq> set (powers i db)" by (rule mild [OF f _ s, of "Suspend now"])
      (use u' in \<open>auto simp: user_suspend_def split: if_splits\<close>)
    then show ?thesis by (auto simp: db')
  next
    case (ReactivateStaffMember a j v h d now)
    with step obtain w where "reactivate_staff P a j v h d now db db = Inr (w, db')" by (auto simp: prod_bind_Inr)
    from reactivate_staff_powers [OF this wf] ReactivateStaffMember show ?thesis by (simp add: asked_by_def)
  next
    case (CreateRole a j n d ps)
    with step fresh have "set (powers i db') \<subseteq> set (powers i db)"
      by (intro create_role_powers [of a j n d ps db db', OF _ wa]) (auto simp: list_ex_iff)
    then show ?thesis by blast
  next
    case (UpdateRole a j n d ps v)
    with step show ?thesis using update_role_powers [OF _ wr] by (simp add: asked_by_def)
  next
    case (DeleteRole j)
    with step have "set (powers i db') \<subseteq> set (powers i db)" using delete_role_powers [of j db db' i] by simp
    then show ?thesis by blast
  next
    case (SuspendCustomer j v now)
    with step obtain u u' db1 where f: "find_account j db = Some u" "us_type u = CUSTOMER" and u': "user_suspend now u = Inr u'"
      and s: "save_account u' db = Inr db1" and db': "db' = with_tokens (revoke_all_of (us_id u) now None) db1"
      by (auto simp: suspend_customer_Inr)
    have "set (powers i db1) \<subseteq> set (powers i db)" by (rule customer [OF f _ s, of "Suspend now"]) (use u' in simp)
    then show ?thesis by (auto simp: db')
  next
    case (ReactivateCustomerAccount j v)
    with step obtain u u' where f: "find_account j db = Some u" "us_type u = CUSTOMER"
      and u': "user_reactivate_customer u = Inr u'" and s: "save_account u' db = Inr db'"
      by (auto simp: reactivate_customer_Inr)
    have "set (powers i db') \<subseteq> set (powers i db)" by (rule customer [OF f _ s, of ReactivateCustomer]) (use u' in simp)
    then show ?thesis by blast
  next
    case (RectifyCustomer j f l)
    with step obtain u u' where g: "find_account j db = Some u" "us_type u = CUSTOMER" and u': "user_rectify f l u = Inr u'"
      and s: "db' = db \<or> save_account u' db = Inr db'" by (auto simp: rectify_customer_Inr split: if_splits)
    from s show ?thesis
    proof
      assume "save_account u' db = Inr db'"
      then have "set (powers i db') \<subseteq> set (powers i db)" by (rule customer [OF g, of "Rectify f l" u', rotated]) (use u' in simp)
      then show ?thesis by blast
    qed simp
  next
    case (AnonymizeCustomer j v at)
    with step obtain u u' db1 where f: "find_account j db = Some u" "us_type u = CUSTOMER" and u': "user_anonymize at u = Inr u'"
      and s: "save_account u' db = Inr db1" and db': "db' = delete_traces_of (us_id u) db1"
      by (auto simp: anonymize_customer_Inr)
    have "set (powers i db1) \<subseteq> set (powers i db)" by (rule customer [OF f _ s, of "Anonymize at"]) (use u' in simp)
    then show ?thesis by (auto simp: db')
  next
    case (AnonymizeInactiveCustomer j since at)
    show ?thesis
    proof (cases "lock_inactive_customer j since db")
      case None
      with AnonymizeInactiveCustomer step show ?thesis by (auto simp: anonymize_inactive_customer_def)
    next
      case (Some u)
      with AnonymizeInactiveCustomer step obtain u' db1 where u': "user_anonymize at u = Inr u'"
        and s: "save_account u' db = Inr db1" and db': "db' = delete_traces_of (us_id u) db1"
        by (auto simp: anonymize_inactive_customer_def res_bind_eq_Inr)
      from Some obtain a where "find (\<lambda>a. us_id a = j \<and> inactive_customer since a) (id_accounts db) = Some a"
        and u: "u = user.truncate a" by (auto simp: lock_inactive_customer_def)
      from find_SomeD [OF this(1)] have a: "a \<in> set (id_accounts db)" "us_id a = j" "us_type u = CUSTOMER"
        using u by (simp_all add: inactive_customer_def)
      then have "find_account j db = Some u" using find_account_in [of db a] wa u by (simp add: wf_accounts_def)
      from customer [OF this a(3) _ s, of "Anonymize at"] u' have "set (powers i db1) \<subseteq> set (powers i db)" by simp
      then show ?thesis by (auto simp: db')
    qed
  next
    case (ChangeOwnPassword j s c n h now)
    with step obtain b where "change_password P j s c n h now db db = Inr (b, db')" by (auto simp: prod_bind_Inr)
    then obtain u where f: "find_account j db = Some u" and "db' = db \<or> (\<exists>u' db1. user_change_password h now u = Inr u'
        \<and> save_account u' db = Inr db1 \<and> db' = with_tokens (revoke_all_of (us_id u) now (Some s)) db1)"
      by (auto simp: change_password_Inr split: if_splits)
    then show ?thesis
    proof (elim disjE exE conjE)
      fix u' db1
      assume u': "user_change_password h now u = Inr u'" and s: "save_account u' db = Inr db1"
        and db': "db' = with_tokens (revoke_all_of (us_id u) now (Some s)) db1"
      have "set (powers i db1) \<subseteq> set (powers i db)" by (rule mild [OF f _ s, of "ChangePassword h now"])
        (use u' in \<open>auto simp: user_change_password_def split: if_splits\<close>)
      then show ?thesis by (auto simp: db')
    qed simp
  next
    case (ChangeOwnEmail j e c k t now)
    with step obtain b where "change_email P j e c k t now db db = Inr (b, db')" by (auto simp: prod_bind_Inr)
    then obtain u where f: "find_account j db = Some u" "us_type u = CUSTOMER"
      and "db' = db \<or> (\<exists>u' db1 db2. user_change_email e u = Inr u'
        \<and> save_account u' db = Inr db1 \<and> issue_verification P k t (us_id u) (address_of u') now db1 = Inr db2
        \<and> db' = invalidate_resets_of (us_id u) now db2)"
      by (auto simp: change_email_Inr split: if_splits)
    from this(3) show ?thesis
    proof (elim disjE exE conjE)
      fix u' db1 db2
      assume u': "user_change_email e u = Inr u'" and s: "save_account u' db = Inr db1"
        and v: "issue_verification P k t (us_id u) (address_of u') now db1 = Inr db2"
        and db': "db' = invalidate_resets_of (us_id u) now db2"
      have "set (powers i db1) \<subseteq> set (powers i db)" by (rule customer [OF f _ s, of "ChangeEmail e"]) (use u' in simp)
      then show ?thesis using issued_powers(1) [OF v] by (auto simp: db')
    qed simp
  next
    case (RequestPasswordReset e k t now)
    with step have "db' = db \<or> (\<exists>j. issue_reset P k t j now db = Inr db')"
      by (auto simp: request_password_reset_def res_bind_eq_Inr split: option.splits if_splits)
    then show ?thesis using issued_powers(2) by auto
  next
    case (ResetForgottenPassword t n h now)
    with step have "reset_password P t n h now db db = Inr db'" by simp
    from this [unfolded reset_password_Inr] obtain l :: link and u u' db1 where f: "find_account (lk_user l) db = Some u"
      and u': "user_reset_password h now u = Inr u'" and s: "save_account u' (mark_reset_used (lk_id l) now db) = Inr db1"
      and db': "db' = with_tokens (revoke_all_of (us_id u) now None) db1" by blast
    have w: "wf_accounts (mark_reset_used (lk_id l) now db)" using marked_wf(1) [OF wf] by (simp add: wf_identity_def)
    have "set (powers i db1) \<subseteq> set (powers i (mark_reset_used (lk_id l) now db))"
      by (rule mild_save_powers [OF _ _ s w, of "lk_user l" u "ResetPassword h now"])
        (use u' f in \<open>auto simp: user_reset_password_def mark_reset_used_def split: if_splits\<close>)
    then show ?thesis by (auto simp: db')
  next
    case (ResendEmailVerification e k t now)
    with step have "db' = db \<or> (\<exists>j a. issue_verification P k t j a now db = Inr db')"
      by (auto simp: resend_email_verification_def res_bind_eq_Inr split: option.splits if_splits)
    then show ?thesis using issued_powers(1) by auto
  next
    case (ConfirmEmail t now)
    with step have "confirm_email P t now db db = Inr db'" by simp
    from this [unfolded confirm_email_Inr] obtain l :: verification and u u' where f: "find_account (lk_user l) db = Some u"
      and u': "user_verify_email (vf_email l) now u = Some u'"
      and s: "save_account u' (mark_verification_used (lk_id l) now db) = Inr db'" by blast
    have w: "wf_accounts (mark_verification_used (lk_id l) now db)" using marked_wf(2) [OF wf] by (simp add: wf_identity_def)
    have "set (powers i db') \<subseteq> set (powers i (mark_verification_used (lk_id l) now db))"
      by (rule mild_save_powers [OF _ _ s w, of "lk_user l" u "VerifyEmail (vf_email l) now"])
        (use u' f in \<open>auto simp: user_verify_email_def mark_verification_used_def split: if_splits\<close>)
    then show ?thesis by auto
  next
    case (SignIn e pw j s t now)
    with step show ?thesis using sessions_powers(1) by (auto simp: prod_bind_Inr)
  next
    case (RefreshSession t j n now)
    with step show ?thesis using sessions_powers(2) by (auto simp: prod_bind_Inr)
  next
    case (SignOut j t now)
    with step show ?thesis using sessions_powers(3) by auto
  next
    case (CleanTokens now)
    with step show ?thesis using sessions_powers(4) by auto
  qed (use boot in simp)
qed

section \<open>A group of the staff\<close>

text \<open>Operations one after the other, from some tables to others; one that throws leaves no trace.\<close>

inductive identity_run :: "identity_ports \<Rightarrow> identity \<Rightarrow> identity_event list \<Rightarrow> identity \<Rightarrow> bool" for P where
  nothing: "identity_run P db [] db"
| one_more: "identity_run P db evs db' \<Longrightarrow> fresh_ids ev db' \<Longrightarrow> identity_step P db' db' ev = Inr db'' \<Longrightarrow>
    identity_run P db (evs @ [ev]) db''"

lemma identity_run_wf: "identity_run P db evs db' \<Longrightarrow> wf_identity db \<Longrightarrow> wf_identity db'"
proof (induction rule: identity_run.induct)
  case (one_more db evs db' ev db'')
  then have "wf_identity db'" by simp
  with identity_step_sound [OF one_more.hyps(3) older_refl _ this one_more.hyps(2)] show ?case
    by (simp add: wf_identity_def)
qed simp

text \<open>What the members of a group hold together.\<close>

definition group_powers :: "id list \<Rightarrow> identity \<Rightarrow> power list" where
  "group_powers members db = concat (map (\<lambda>a. powers a db) members)"

definition asked_in :: "id list \<Rightarrow> identity_event \<Rightarrow> bool" where
  "asked_in members ev = (\<not> is_bootstrap ev \<and> (case actor_of ev of None \<Rightarrow> True | Some a \<Rightarrow> a \<in> set members))"

lemma run_group_powers:
  "identity_run P db evs db' \<Longrightarrow> wf_identity db \<Longrightarrow> list_all (asked_in members) evs \<Longrightarrow>
     set (powers i db') \<subseteq> set (powers i db) \<union> set (group_powers members db)"
proof (induction arbitrary: i rule: identity_run.induct)
  case (one_more db evs db' ev db'')
  then have wf: "wf_identity db'" and ih: "\<And>i. set (powers i db') \<subseteq> set (powers i db) \<union> set (group_powers members db)"
    and ev: "asked_in members ev" using identity_run_wf by simp_all
  have "set (asked_by ev db') \<subseteq> set (group_powers members db)"
  proof (cases "actor_of ev")
    case (Some a)
    with ev have "a \<in> set members" by (simp add: asked_in_def)
    then have "set (powers a db) \<subseteq> set (group_powers members db)" by (auto simp: group_powers_def)
    with ih [of a] Some show ?thesis by (auto simp: asked_by_def)
  qed (simp add: asked_by_def)
  moreover have "\<not> is_bootstrap ev" using ev by (simp add: asked_in_def)
  ultimately show ?case
    using step_powers [OF one_more.hyps(3) wf one_more.hyps(2), of i] ih [of i] by blast
qed simp

end
