(* ===== verification/SessionsEnd.thy ===== *)
theory SessionsEnd
  imports Superadmins
begin

text \<open>
  What is over stays over: a session whose tokens are all revoked, and the links of a token that was used or replaced,
  whatever happens next, unless the same identifier or the same token is drawn again.
\<close>

section \<open>Sessions\<close>

lemma saved_tokens:
  "save_account u db = Inr db' \<Longrightarrow> id_tokens db' = id_tokens db \<and> id_resets db' = id_resets db \<and>
     id_verifications db' = id_verifications db"
  "add_account u db = Inr db' \<Longrightarrow> id_tokens db' = id_tokens db \<and> id_resets db' = id_resets db \<and>
     id_verifications db' = id_verifications db"
  "save_role r db = Inr db' \<Longrightarrow> id_tokens db' = id_tokens db \<and> id_resets db' = id_resets db \<and>
     id_verifications db' = id_verifications db"
  "delete_role_row i db = Inr db' \<Longrightarrow> id_tokens db' = id_tokens db \<and> id_resets db' = id_resets db \<and>
     id_verifications db' = id_verifications db"
  "record_sign_in i at db = Inr db' \<Longrightarrow> id_tokens db' = id_tokens db \<and> id_resets db' = id_resets db \<and>
     id_verifications db' = id_verifications db"
  by (auto simp: save_account_def add_account_def save_role_def delete_role_row_def record_sign_in_def
      split: option.splits if_splits)

lemma issued_tokens:
  "issue_verification P k t i e now db = Inr db' \<Longrightarrow> id_tokens db' = id_tokens db \<and> id_resets db' = id_resets db"
  "issue_reset P k t i now db = Inr db' \<Longrightarrow>
     id_tokens db' = id_tokens db \<and> id_verifications db' = id_verifications db"
  by (auto simp: issue_verification_def add_verification_def invalidate_verifications_of_def issue_reset_def
      add_reset_def invalidate_resets_of_def res_bind_eq_Inr)

lemma token_frames [simp]:
  "id_tokens (with_tokens f db) = f (id_tokens db)" "id_resets (with_tokens f db) = id_resets db"
  "id_verifications (with_tokens f db) = id_verifications db"
  "id_tokens (mark_reset_used k at db) = id_tokens db" "id_tokens (mark_verification_used k at db) = id_tokens db"
  "id_tokens (invalidate_resets_of j at db) = id_tokens db"
  "id_tokens (record_activity i at db) = id_tokens db" "id_resets (record_activity i at db) = id_resets db"
  "id_verifications (record_activity i at db) = id_verifications db"
  "id_tokens (delete_traces_of i db) = delete_refresh_tokens_of i (id_tokens db)"
  "id_resets (delete_traces_of i db) = delete_links_of i (id_resets db)"
  "id_verifications (delete_traces_of i db) = delete_links_of i (id_verifications db)"
  by (simp_all add: with_tokens_def mark_reset_used_def mark_verification_used_def invalidate_resets_of_def
      record_activity_def delete_traces_of_def)

lemma deleting_keeps_over: "session_over s ts \<Longrightarrow> session_over s (delete_refresh_tokens_of u ts)"
  by (simp add: delete_refresh_tokens_of_def filter_over)

lemma cleaning_keeps_over:
  assumes "session_over s (id_tokens db)"
  shows "session_over s (id_tokens (clean_tokens P now db))"
proof -
  have "session_over s (snd (delete_in_batches (delete_refresh_tokens b) n m k (id_tokens db)))" for b n m k
    using batches_keep [of "session_over s" "delete_refresh_tokens b", OF _ assms]
    by (metis delete_refresh_tokens_filter filter_over)
  then show ?thesis by (simp add: clean_tokens_def Let_def)
qed

text \<open>The operation that starts a session.\<close>

fun starts_session :: "id \<Rightarrow> identity_event \<Rightarrow> bool" where
  "starts_session s (SignIn e pw i r t now) = (r = s)"
| "starts_session s _ = False"

theorem step_keeps_over:
  assumes step: "identity_step P rd db ev = Inr db'" and over: "session_over s (id_tokens db)"
    and new: "\<not> starts_session s ev"
  shows "session_over s (id_tokens db')"
proof (cases ev)
  case (RegisterCustomer i e pw f l n h k t now)
  with step show ?thesis using over
    by (auto simp: register_customer_def res_bind_eq_Inr Let_def dest!: saved_tokens(2) issued_tokens(1))
next
  case (CreateStaff a i e f l rs h d now)
  with step over show ?thesis by (auto simp: prod_bind_Inr dest!: create_staff_Inr saved_tokens(2))
next
  case (CreateFirstSuperadmin i e f l h d now)
  with step over show ?thesis
    by (auto simp: prod_bind_Inr create_first_superadmin_def res_bind_eq_Inr if_Inl_eq_Inr
        dest!: create_staff_Inr saved_tokens(2))
next
  case (ReplaceStaffRoles a i rs v)
  with step over show ?thesis by (auto simp: replace_staff_roles_Inr dest!: saved_tokens(1))
next
  case (SuspendStaff a i v now)
  with step over show ?thesis by (auto simp: suspend_staff_Inr revoke_all_keeps_over dest!: saved_tokens(1))
next
  case (ReactivateStaffMember a i v h d now)
  with step over show ?thesis by (auto simp: prod_bind_Inr reactivate_staff_Inr dest!: saved_tokens(1))
next
  case (CreateRole a i n d ps)
  with step over show ?thesis by (auto simp: create_role_def res_bind_eq_Inr dest!: saved_tokens(3))
next
  case (UpdateRole a i n d ps v)
  with step over show ?thesis by (auto simp: update_role_def res_bind_eq_Inr Let_def dest!: saved_tokens(3))
next
  case (DeleteRole i)
  with step over show ?thesis by (auto simp: delete_role_def res_bind_eq_Inr if_Inl_eq_Inr dest!: saved_tokens(4))
next
  case (SuspendCustomer i v now)
  with step over show ?thesis by (auto simp: suspend_customer_Inr revoke_all_keeps_over dest!: saved_tokens(1))
next
  case (ReactivateCustomerAccount i v)
  with step over show ?thesis by (auto simp: reactivate_customer_Inr dest!: saved_tokens(1))
next
  case (RectifyCustomer i f l)
  with step over show ?thesis by (auto simp: rectify_customer_Inr dest!: saved_tokens(1) split: if_splits)
next
  case (AnonymizeCustomer i v at)
  with step over show ?thesis by (auto simp: anonymize_customer_Inr deleting_keeps_over dest!: saved_tokens(1))
next
  case (AnonymizeInactiveCustomer i since at)
  with step over show ?thesis
    by (auto simp: anonymize_inactive_customer_def res_bind_eq_Inr deleting_keeps_over dest!: saved_tokens(1)
        split: option.splits)
next
  case (ChangeOwnPassword i r c n h now)
  with step over show ?thesis
    by (auto simp: prod_bind_Inr change_password_Inr revoke_all_keeps_over dest!: saved_tokens(1) split: if_splits)
next
  case (ChangeOwnEmail i e c k t now)
  with step over show ?thesis
    by (auto simp: prod_bind_Inr change_email_Inr dest!: saved_tokens(1) issued_tokens(1) split: if_splits)
next
  case (RequestPasswordReset e k t now)
  with step over show ?thesis
    by (auto simp: request_password_reset_def res_bind_eq_Inr dest!: issued_tokens(2) split: option.splits if_splits)
next
  case (ResetForgottenPassword t n h now)
  with step over show ?thesis by (auto simp: reset_password_Inr revoke_all_keeps_over dest!: saved_tokens(1))
next
  case (ResendEmailVerification e k t now)
  with step over show ?thesis
    by (auto simp: resend_email_verification_def res_bind_eq_Inr dest!: issued_tokens(1) split: option.splits if_splits)
next
  case (ConfirmEmail t now)
  with step over show ?thesis by (auto simp: confirm_email_Inr dest!: saved_tokens(1))
next
  case (SignIn e pw i r t now)
  with step obtain q where "sign_in P e pw i r t now rd db = Inr (q, db')" by (auto simp: prod_bind_Inr)
  from sign_in_Inr [OF this] show ?thesis
  proof (elim disjE exE conjE)
    fix u ts
    assume a: "add_refresh_token (new_refresh_token P i t (us_id u) r now) (id_tokens db) = Inr ts"
      and "record_sign_in (us_id u) now (db\<lparr>id_tokens := ts\<rparr>) = Inr db'"
    then have "id_tokens db' = ts" by (auto dest: saved_tokens(5))
    with first_token_over [OF a _ over] new SignIn show ?thesis by (simp add: new_refresh_token_def)
  qed (use over in simp)
next
  case (RefreshSession t i n now)
  with step obtain q where "refresh_session P t i n now rd db = Inr (q, db')" by (auto simp: prod_bind_Inr)
  from refresh_session_Inr [OF this] show ?thesis
  proof (elim disjE exE conjE)
    fix k
    assume "db' = with_tokens (\<lambda>ts. snd (revoke_session (rt_session k) now ts)) db"
    then show ?thesis using over by (simp add: revoke_session_keeps_over)
  next
    fix k u ts
    assume f: "find_refresh_token (ip_digest P t) (id_tokens db) = Some k" and st: "refresh_token_state k now = Usable"
      and rot: "rotate_token k (new_refresh_token P i n (us_id u) (rt_session k) now) now (id_tokens db) = Inr ts"
      and db': "db' = (record_activity (us_id u) now db)\<lparr>id_tokens := ts\<rparr>"
    have "k \<in> set (id_tokens db)" using f find_SomeD unfolding find_refresh_token_def by fast
    moreover have "unrevoked k" using st by (simp add: refresh_token_state_def split: if_splits)
    ultimately have "session_over s ts" by (intro rotate_over [OF rot over]) (simp_all add: new_refresh_token_def)
    then show ?thesis by (simp add: db')
  qed (use over in simp)
next
  case (SignOut i t now)
  with step over show ?thesis by (auto simp: sign_out_def revoke_session_keeps_over split: option.splits)
next
  case (CleanTokens now)
  with step over show ?thesis using cleaning_keeps_over [of s db] by auto
qed

section \<open>The links of a recovery\<close>

lemma marked_over:
  "link_over h (id_resets db) \<Longrightarrow> link_over h (id_resets (mark_reset_used k at db))"
  "link_over h (id_resets db) \<Longrightarrow> link_over h (id_resets (invalidate_resets_of u at db))"
  "link_over h (id_resets db) \<Longrightarrow> link_over h (delete_links_of u (id_resets db))"
  "id_resets (mark_verification_used k at db) = id_resets db"
  by (simp_all add: mark_reset_used_def invalidate_resets_of_def mark_verification_used_def delete_links_of_def
      over_mark over_invalidate over_filter)

lemma issued_over:
  assumes "issue_reset P k t i now db = Inr db'" and "ip_digest P t \<noteq> h" and "link_over h (id_resets db)"
  shows "link_over h (id_resets db')"
proof -
  from assms(1) obtain ls where "add_link \<lparr>lk_id = k, lk_user = i, lk_hash = ip_digest P t,
      lk_expires_at = now + ip_reset_ttl P * 1000, lk_used_at = None, lk_invalidated_at = None\<rparr>
      (invalidate_links_of i now (id_resets db)) = Inr ls" and "id_resets db' = ls"
    by (auto simp: issue_reset_def add_reset_def invalidate_resets_of_def res_bind_eq_Inr)
  from over_add [OF this(1) _ over_invalidate [OF assms(3)]] this(2) assms(2) show ?thesis by simp
qed

lemma cleaning_links_over:
  assumes "link_over h (id_resets db)"
  shows "link_over h (id_resets (clean_tokens P now db))"
proof -
  have keep: "link_over h (snd (delete_spent_links now ls limit))" if "link_over h ls" for ls :: "link list" and limit
    using that by (simp add: delete_spent_links_def Let_def over_filter)
  have "link_over h (snd (delete_in_batches (delete_spent_links now) n m k (id_resets db)))" for n m k
    using batches_keep [of "link_over h" "delete_spent_links now", OF _ assms] keep by blast
  then show ?thesis by (simp add: clean_tokens_def Let_def)
qed

text \<open>The operation that draws a token for a recovery.\<close>

fun draws_reset :: "identity_ports \<Rightarrow> string \<Rightarrow> identity_event \<Rightarrow> bool" where
  "draws_reset P h (RequestPasswordReset e k t now) = (ip_digest P t = h)"
| "draws_reset P h _ = False"

theorem step_keeps_link_over:
  assumes step: "identity_step P rd db ev = Inr db'" and over: "link_over h (id_resets db)"
    and new: "\<not> draws_reset P h ev"
  shows "link_over h (id_resets db')"
proof (cases ev)
  case (RegisterCustomer i e pw f l n h k t now)
  with step over show ?thesis
    by (auto simp: register_customer_def res_bind_eq_Inr Let_def dest!: saved_tokens(2) issued_tokens(1))
next
  case (CreateStaff a i e f l rs h d now)
  with step over show ?thesis by (auto simp: prod_bind_Inr dest!: create_staff_Inr saved_tokens(2))
next
  case (CreateFirstSuperadmin i e f l h d now)
  with step over show ?thesis
    by (auto simp: prod_bind_Inr create_first_superadmin_def res_bind_eq_Inr if_Inl_eq_Inr
        dest!: create_staff_Inr saved_tokens(2))
next
  case (ReplaceStaffRoles a i rs v)
  with step over show ?thesis by (auto simp: replace_staff_roles_Inr dest!: saved_tokens(1))
next
  case (SuspendStaff a i v now)
  with step over show ?thesis by (auto simp: suspend_staff_Inr dest!: saved_tokens(1))
next
  case (ReactivateStaffMember a i v h d now)
  with step over show ?thesis by (auto simp: prod_bind_Inr reactivate_staff_Inr dest!: saved_tokens(1))
next
  case (CreateRole a i n d ps)
  with step over show ?thesis by (auto simp: create_role_def res_bind_eq_Inr dest!: saved_tokens(3))
next
  case (UpdateRole a i n d ps v)
  with step over show ?thesis by (auto simp: update_role_def res_bind_eq_Inr Let_def dest!: saved_tokens(3))
next
  case (DeleteRole i)
  with step over show ?thesis by (auto simp: delete_role_def res_bind_eq_Inr if_Inl_eq_Inr dest!: saved_tokens(4))
next
  case (SuspendCustomer i v now)
  with step over show ?thesis by (auto simp: suspend_customer_Inr dest!: saved_tokens(1))
next
  case (ReactivateCustomerAccount i v)
  with step over show ?thesis by (auto simp: reactivate_customer_Inr dest!: saved_tokens(1))
next
  case (RectifyCustomer i f l)
  with step over show ?thesis by (auto simp: rectify_customer_Inr dest!: saved_tokens(1) split: if_splits)
next
  case (AnonymizeCustomer i v at)
  with step over show ?thesis by (auto simp: anonymize_customer_Inr marked_over dest!: saved_tokens(1))
next
  case (AnonymizeInactiveCustomer i since at)
  with step over show ?thesis
    by (auto simp: anonymize_inactive_customer_def res_bind_eq_Inr marked_over dest!: saved_tokens(1)
        split: option.splits)
next
  case (ChangeOwnPassword i r c n h now)
  with step over show ?thesis
    by (auto simp: prod_bind_Inr change_password_Inr dest!: saved_tokens(1) split: if_splits)
next
  case (ChangeOwnEmail i e c k t now)
  with step over show ?thesis
    by (auto simp: prod_bind_Inr change_email_Inr marked_over dest!: saved_tokens(1) issued_tokens(1) split: if_splits)
next
  case (RequestPasswordReset e k t now)
  with step have "db' = db \<or> (\<exists>i. issue_reset P k t i now db = Inr db')"
    by (auto simp: request_password_reset_def res_bind_eq_Inr split: option.splits if_splits)
  with RequestPasswordReset new over show ?thesis using issued_over by auto
next
  case (ResetForgottenPassword t n g now)
  with step have "reset_password P t n g now rd db = Inr db'" by simp
  from this [unfolded reset_password_Inr] obtain l :: link and u :: user and u' db1
    where s: "save_account u' (mark_reset_used (lk_id l) now db) = Inr db1"
      and db': "db' = with_tokens (revoke_all_of (us_id u) now None) db1" by blast
  from saved_tokens(1) [OF s] marked_over(1) [OF over] db' show ?thesis by simp
next
  case (ResendEmailVerification e k t now)
  with step over show ?thesis
    by (auto simp: resend_email_verification_def res_bind_eq_Inr dest!: issued_tokens(1) split: option.splits if_splits)
next
  case (ConfirmEmail t now)
  with step obtain l :: verification and u' where s: "save_account u' (mark_verification_used (lk_id l) now db) = Inr db'"
    by (auto simp: confirm_email_Inr)
  from saved_tokens(1) [OF s] over show ?thesis by (simp add: marked_over(4))
next
  case (SignIn e pw i r t now)
  with step obtain q where "sign_in P e pw i r t now rd db = Inr (q, db')" by (auto simp: prod_bind_Inr)
  from sign_in_Inr [OF this] over show ?thesis by (auto dest!: saved_tokens(5))
next
  case (RefreshSession t i n now)
  with step obtain q where "refresh_session P t i n now rd db = Inr (q, db')" by (auto simp: prod_bind_Inr)
  from refresh_session_Inr [OF this] over show ?thesis by auto
next
  case (SignOut i t now)
  with step over show ?thesis by (auto simp: sign_out_def split: option.splits)
next
  case (CleanTokens now)
  with step over show ?thesis using cleaning_links_over [of h db] by auto
qed

section \<open>What goes on\<close>

text \<open>Operations that return after a history; each may have read its account or its role at any moment of it.\<close>

inductive identity_goes_on :: "identity_ports \<Rightarrow> identity list \<Rightarrow> identity_event list \<Rightarrow> identity list \<Rightarrow> bool"
  for P h where
  still: "identity_goes_on P h [] h"
| on: "identity_goes_on P h evs (db # past) \<Longrightarrow> rd \<in> set (db # past) \<Longrightarrow> (edits_role ev \<longrightarrow> rd = db) \<Longrightarrow>
    fresh_ids ev db \<Longrightarrow> identity_step P rd db ev = Inr db' \<Longrightarrow> identity_goes_on P h (evs @ [ev]) (db' # db # past)"

lemma goes_on_history:
  "identity_goes_on P h evs h' \<Longrightarrow> identity_history P h \<Longrightarrow> identity_history P h'"
  by (induction rule: identity_goes_on.induct) (simp, blast intro: identity_history.later)

lemma goes_on_nonempty: "identity_goes_on P h evs h' \<Longrightarrow> h \<noteq> [] \<Longrightarrow> h' \<noteq> []"
  by (induction rule: identity_goes_on.induct) simp_all

lemma goes_on_over:
  "identity_goes_on P h evs h' \<Longrightarrow> session_over s (id_tokens (hd h)) \<Longrightarrow> list_all (\<lambda>ev. \<not> starts_session s ev) evs \<Longrightarrow>
     session_over s (id_tokens (hd h'))"
  by (induction rule: identity_goes_on.induct) (auto intro: step_keeps_over)

lemma goes_on_link_over:
  "identity_goes_on P h evs h' \<Longrightarrow> link_over k (id_resets (hd h)) \<Longrightarrow> list_all (\<lambda>ev. \<not> draws_reset P k ev) evs \<Longrightarrow>
     link_over k (id_resets (hd h'))"
  by (induction rule: identity_goes_on.induct) (auto intro: step_keeps_link_over)

text \<open>Nobody is signed in to a session that is over.\<close>

lemma over_not_signed_in: "session_over s (id_tokens db) \<Longrightarrow> resolve_signed_in_account u s now db = None"
  using over_not_active [of s "id_tokens db" u now] by (simp add: resolve_signed_in_account_def split: option.split)

lemma signed_inD: "resolve_signed_in_account u s now db = Some who \<Longrightarrow> session_is_active s u now (id_tokens db)"
  by (auto simp: resolve_signed_in_account_def split: option.splits if_splits)

section \<open>What ends sessions\<close>

text \<open>The account whose sessions an operation that returned ended.\<close>

fun ends_sessions_of :: "identity_ports \<Rightarrow> identity_event \<Rightarrow> identity \<Rightarrow> id option" where
  "ends_sessions_of P (SuspendStaff a i v now) db = Some i"
| "ends_sessions_of P (SuspendCustomer i v now) db = Some i"
| "ends_sessions_of P (AnonymizeCustomer i v at) db = Some i"
| "ends_sessions_of P (AnonymizeInactiveCustomer i since at) db =
     (if lock_inactive_customer i since db = None then None else Some i)"
| "ends_sessions_of P (ResetForgottenPassword t n h now) db =
     map_option lk_user (find_link (ip_digest P t) (id_resets db))"
| "ends_sessions_of P _ db = None"

lemma of_session:
  assumes wf: "wf_sessions ts" and "session_is_active s i now ts" and "t \<in> set ts" and "rt_session t = s"
  shows "rt_user t = i"
proof -
  from assms(2) obtain k where "k \<in> set ts" "rt_session k = s" "rt_user k = i"
    by (auto simp: session_is_active_def list_ex_iff)
  with wf_sessionsD(5) [OF wf assms(3), of k] assms(4) show ?thesis by simp
qed

lemma deleted_session_over:
  assumes "wf_sessions ts" and "session_is_active s i now ts"
  shows "session_over s (delete_refresh_tokens_of i ts)"
  by (rule session_overI) (use of_session [OF assms] in \<open>auto simp: delete_refresh_tokens_of_def\<close>)

lemma ending_step:
  assumes step: "identity_step P rd db ev = Inr db'" and wf: "wf_sessions (id_tokens db)"
    and ends: "ends_sessions_of P ev db = Some i" and act: "session_is_active s i now (id_tokens db)"
  shows "session_over s (id_tokens db')"
proof -
  have rev: "session_over s (revoke_all_of i at None (id_tokens db))" for at
    by (rule revoke_all_over) (use of_session [OF wf act] in simp_all)
  note del = deleted_session_over [OF wf act]
  show ?thesis
  proof (cases ev)
    case (SuspendStaff a j v at)
    with step ends rev show ?thesis by (auto simp: suspend_staff_Inr dest!: saved_tokens(1) find_account_id)
  next
    case (SuspendCustomer j v at)
    with step ends rev show ?thesis by (auto simp: suspend_customer_Inr dest!: saved_tokens(1) find_account_id)
  next
    case (AnonymizeCustomer j v at)
    with step ends del show ?thesis by (auto simp: anonymize_customer_Inr dest!: saved_tokens(1) find_account_id)
  next
    case (AnonymizeInactiveCustomer j since at)
    with step ends obtain u u' db1 where u: "lock_inactive_customer j since db = Some u" and "save_account u' db = Inr db1"
      and "db' = delete_traces_of (us_id u) db1" and "j = i"
      by (auto simp: anonymize_inactive_customer_def res_bind_eq_Inr split: if_splits)
    moreover have "us_id u = j" using u unfolding lock_inactive_customer_def
      by (auto dest!: find_SomeD simp: user.truncate_def)
    ultimately show ?thesis using del by (auto dest: saved_tokens(1))
  next
    case (ResetForgottenPassword t n h at)
    with step have "reset_password P t n h at rd db = Inr db'" by simp
    from this [unfolded reset_password_Inr] obtain l :: link and u :: user and u' db1
      where l: "find_link (ip_digest P t) (id_resets db) = Some l"
        and f: "find_account (lk_user l) rd = Some u" and s: "save_account u' (mark_reset_used (lk_id l) at db) = Inr db1"
        and db': "db' = with_tokens (revoke_all_of (us_id u) at None) db1" by blast
    from l ends ResetForgottenPassword have "lk_user l = i" by simp
    with saved_tokens(1) [OF s] find_account_id [OF f] rev show ?thesis by (simp add: db')
  qed (use ends in simp_all)
qed

text \<open>A token that was already rotated ends its session when it is presented again.\<close>

lemma reuse_step:
  assumes "refresh_session P t i n now rd db = Inr (r, db')" and "find_refresh_token (ip_digest P t) (id_tokens db) = Some k"
    and "rt_replaced_by k \<noteq> None"
  shows "session_over (rt_session k) (id_tokens db')" and "r = RefreshInvalid"
  using assms revoke_session_over by (auto simp: refresh_session_def refresh_token_state_def)

text \<open>The link of a recovery that returned does not work again.\<close>

lemma recovery_step:
  assumes r: "reset_password P t n h now rd db = Inr db'" and wf: "wf_links (id_resets db)"
  shows "link_over (ip_digest P t) (id_resets db')"
proof -
  from r [unfolded reset_password_Inr] obtain l :: link and u :: user and u' db1
    where l: "find_link (ip_digest P t) (id_resets db) = Some l"
      and s: "save_account u' (mark_reset_used (lk_id l) now db) = Inr db1"
      and db': "db' = with_tokens (revoke_all_of (us_id u) now None) db1" by blast
  from find_linkD [OF l] used_link_over [OF wf, of l now] have "link_over (ip_digest P t) (mark_link_used (lk_id l) now (id_resets db))"
    by simp
  with saved_tokens(1) [OF s] db' show ?thesis by (simp add: mark_reset_used_def)
qed

lemma over_link_refused:
  assumes "link_over (ip_digest P t) (id_resets db)"
  shows "reset_password P t n h now rd db = Inl InvalidOrExpiredTokenError"
  using over_not_usable [OF assms] by (simp add: reset_password_def split: option.split)

end
