(* ===== verification/AddressBook.thy ===== *)
theory AddressBook
  imports Accounts
begin

text \<open>
  The saved addresses of the customers (\<open>identity-access/domain/address-book.ts\<close>,
  \<open>infrastructure/prisma-address-book.repository.ts\<close> and the use cases that add, update and remove one). A book is
  read whole with the row of its customer locked, changed, and what changed is written back one statement at a time. One
  default for each customer is a unique index that every statement checks.
\<close>

section \<open>An address book\<close>

record address_fields =
  af_recipient :: string
  af_phone :: string
  af_street :: string
  af_exterior :: string
  af_interior :: "string option"
  af_neighborhood :: string
  af_postal_code :: string
  af_state :: string
  af_municipality :: string
  af_city :: "string option"
  af_references :: "string option"

record address = address_fields +
  ad_id :: id
  ad_default :: bool
  ad_created_at :: time

text \<open>The fields that an update gives; those that may be empty can be emptied.\<close>

record address_changes =
  ch_recipient :: "string option"
  ch_phone :: "string option"
  ch_street :: "string option"
  ch_exterior :: "string option"
  ch_interior :: "string option option"
  ch_neighborhood :: "string option"
  ch_postal_code :: "string option"
  ch_state :: "string option"
  ch_municipality :: "string option"
  ch_city :: "string option option"
  ch_references :: "string option option"

text \<open>The two sets are the identifiers changed and removed since it was loaded.\<close>

record address_book =
  bk_customer :: id
  bk_items :: "address list"
  bk_limit :: nat
  bk_changed :: "id list"
  bk_removed :: "id list"

definition restore_book :: "id \<Rightarrow> address list \<Rightarrow> nat \<Rightarrow> address_book" where
  "restore_book customer addresses limit =
     \<lparr>bk_customer = customer, bk_items = addresses, bk_limit = limit, bk_changed = [], bk_removed = []\<rparr>"

definition all_digits :: "nat \<Rightarrow> string \<Rightarrow> bool" where
  "all_digits n s = (length s = n \<and> list_all (\<lambda>c. 48 \<le> (of_char c :: nat) \<and> (of_char c :: nat) \<le> 57) s)"

fun given_fits :: "('a \<Rightarrow> bool) \<Rightarrow> 'a option \<Rightarrow> bool" where
  "given_fits fits None = True"
| "given_fits fits (Some x) = fits x"

definition check_formats :: "string option \<Rightarrow> string option \<Rightarrow> unit result" where
  "check_formats phone postal_code =
     (if given_fits (all_digits 10) phone
      then if given_fits (all_digits 5) postal_code then Inr ()
           else Inl (InvalidValueError ''A postal code has 5 digits'')
      else Inl (InvalidValueError ''A phone has exactly 10 digits''))"

definition book_find :: "id \<Rightarrow> address_book \<Rightarrow> address result" where
  "book_find i b =
     (case find (\<lambda>a. ad_id a = i) (bk_items b) of None \<Rightarrow> Inl (NotFoundError ''Address'' i) | Some a \<Rightarrow> Inr a)"

definition unmarked :: "address \<Rightarrow> address" where
  "unmarked a = (if \<not> ad_default a then a else a\<lparr>ad_default := False\<rparr>)"

definition unmark_default :: "address_book \<Rightarrow> address_book" where
  "unmark_default b =
     b\<lparr>bk_items := map unmarked (bk_items b),
       bk_changed := bk_changed b @ map ad_id (filter ad_default (bk_items b))\<rparr>"

definition new_address :: "id \<Rightarrow> address_fields \<Rightarrow> bool \<Rightarrow> time \<Rightarrow> address" where
  "new_address i f is_default now =
     \<lparr>af_recipient = af_recipient f, af_phone = af_phone f, af_street = af_street f, af_exterior = af_exterior f,
      af_interior = af_interior f, af_neighborhood = af_neighborhood f, af_postal_code = af_postal_code f,
      af_state = af_state f, af_municipality = af_municipality f, af_city = af_city f,
      af_references = af_references f, ad_id = i, ad_default = is_default, ad_created_at = now\<rparr>"

definition book_add :: "id \<Rightarrow> address_fields \<Rightarrow> bool \<Rightarrow> time \<Rightarrow> address_book \<Rightarrow> address_book result" where
  "book_add i f make_default now b =
     (if length (bk_items b) \<ge> bk_limit b then Inl (IdentityError (AddressLimitReachedError (int (bk_limit b))))
      else res_bind (check_formats (Some (af_phone f)) (Some (af_postal_code f))) (\<lambda>_.
        let is_default = (bk_items b = [] \<or> make_default);
            b' = (if is_default then unmark_default b else b)
        in Inr (b'\<lparr>bk_items := bk_items b' @ [new_address i f is_default now],
                  bk_changed := bk_changed b' @ [i]\<rparr>)))"

definition or_else :: "'a option \<Rightarrow> 'a \<Rightarrow> 'a" where
  "or_else given kept = (case given of None \<Rightarrow> kept | Some x \<Rightarrow> x)"

definition changed_address :: "address_changes \<Rightarrow> bool option \<Rightarrow> address \<Rightarrow> address" where
  "changed_address c make_default a =
     a\<lparr>af_recipient := or_else (ch_recipient c) (af_recipient a), af_phone := or_else (ch_phone c) (af_phone a),
       af_street := or_else (ch_street c) (af_street a), af_exterior := or_else (ch_exterior c) (af_exterior a),
       af_interior := or_else (ch_interior c) (af_interior a),
       af_neighborhood := or_else (ch_neighborhood c) (af_neighborhood a),
       af_postal_code := or_else (ch_postal_code c) (af_postal_code a), af_state := or_else (ch_state c) (af_state a),
       af_municipality := or_else (ch_municipality c) (af_municipality a),
       af_city := or_else (ch_city c) (af_city a), af_references := or_else (ch_references c) (af_references a),
       ad_default := or_else make_default (ad_default a)\<rparr>"

definition replaced_address :: "address \<Rightarrow> address \<Rightarrow> address" where
  "replaced_address new a = (if ad_id a = ad_id new then new else a)"

definition book_update :: "id \<Rightarrow> address_changes \<Rightarrow> bool option \<Rightarrow> address_book \<Rightarrow> address_book result" where
  "book_update i c make_default b =
     res_bind (book_find i b) (\<lambda>current.
       res_bind (check_formats (ch_phone c) (ch_postal_code c)) (\<lambda>_.
         let b' = (if make_default = Some True \<and> \<not> ad_default current then unmark_default b else b)
         in Inr (b'\<lparr>bk_items := map (replaced_address (changed_address c make_default current)) (bk_items b'),
                   bk_changed := bk_changed b' @ [i]\<rparr>)))"

definition book_remove :: "id \<Rightarrow> address_book \<Rightarrow> address_book result" where
  "book_remove i b =
     res_bind (book_find i b) (\<lambda>_.
       Inr (b\<lparr>bk_items := filter (\<lambda>a. ad_id a \<noteq> i) (bk_items b), bk_changed := filter (\<lambda>j. j \<noteq> i) (bk_changed b),
              bk_removed := bk_removed b @ [i]\<rparr>))"

section \<open>The table\<close>

text \<open>Each row is of a customer.\<close>

type_synonym addresses = "(id \<times> address) list"

definition addresses_of :: "id \<Rightarrow> addresses \<Rightarrow> address list" where
  "addresses_of customer rows = map snd (filter (\<lambda>r. fst r = customer) rows)"

text \<open>What the database checks of what a statement writes.\<close>

definition one_default :: "addresses \<Rightarrow> bool" where
  "one_default rows = distinct (map fst (filter (\<lambda>r. ad_default (snd r)) rows))"

definition checked_rows :: "address \<Rightarrow> addresses \<Rightarrow> addresses result" where
  "checked_rows written rows =
     (if \<not> (all_digits 10 (af_phone written) \<and> all_digits 5 (af_postal_code written))
      then Inl (PlainError ''customer_addresses_check'')
      else if \<not> one_default rows then Inl (PlainError ''customer_addresses_one_default_per_user'')
      else Inr rows)"

definition create_row :: "id \<Rightarrow> address \<Rightarrow> addresses \<Rightarrow> addresses result" where
  "create_row customer a rows =
     (if ad_id a \<in> ad_id ` snd ` set rows then Inl (PlainError ''customer_addresses_pkey'')
      else checked_rows a (rows @ [(customer, a)]))"

text \<open>The identifier and the creation are left as they are.\<close>

definition written_row :: "address \<Rightarrow> id \<times> address \<Rightarrow> id \<times> address" where
  "written_row a r = (fst r, if ad_id (snd r) = ad_id a then a\<lparr>ad_created_at := ad_created_at (snd r)\<rparr> else snd r)"

definition update_row :: "address \<Rightarrow> addresses \<Rightarrow> addresses result" where
  "update_row a rows =
     (if ad_id a \<notin> ad_id ` snd ` set rows then Inl (PlainError ''Record to update not found'')
      else checked_rows a (map (written_row a) rows))"

definition load_book :: "id \<Rightarrow> nat \<Rightarrow> identity \<Rightarrow> addresses \<Rightarrow> address_book result" where
  "load_book customer limit db rows =
     (if \<not> list_ex (\<lambda>a. us_id a = customer \<and> us_type a = CUSTOMER) (id_accounts db)
      then Inl (NotFoundError ''Customer'' customer)
      else Inr (restore_book customer (addresses_of customer rows) limit))"

definition write_item :: "id \<Rightarrow> id list \<Rightarrow> addresses \<Rightarrow> address \<Rightarrow> addresses result" where
  "write_item customer stored rows a = (if ad_id a \<in> set stored then update_row a rows else create_row customer a rows)"

text \<open>Those that stop being the default are written before the one that becomes it.\<close>

definition save_book :: "address_book \<Rightarrow> addresses \<Rightarrow> addresses result" where
  "save_book b rows =
     (let rows1 = (if bk_removed b = [] then rows
                   else filter (\<lambda>r. \<not> (fst r = bk_customer b \<and> ad_id (snd r) \<in> set (bk_removed b))) rows);
          stored = map ad_id (addresses_of (bk_customer b) rows1);
          changed = sort_key (\<lambda>a. if ad_default a then 1 else 0 :: nat)
                      (filter (\<lambda>a. ad_id a \<in> set (bk_changed b)) (bk_items b))
      in res_fold (write_item (bk_customer b) stored) rows1 changed)"

definition delete_addresses_of :: "id \<Rightarrow> addresses \<Rightarrow> addresses" where
  "delete_addresses_of customer rows = filter (\<lambda>r. fst r \<noteq> customer) rows"

section \<open>Use cases\<close>

text \<open>
  Where a municipality is, as the geographic catalog answers: whether it has a state, and the state of a municipality
  and whether it is active (\<open>infrastructure/geo-address-locations.ts\<close>).
\<close>

record geo_answers =
  ge_has_state :: "string \<Rightarrow> bool"
  ge_municipality :: "string \<Rightarrow> (string \<times> bool) option"

definition check_location :: "geo_answers \<Rightarrow> string \<Rightarrow> string \<Rightarrow> location_problem option" where
  "check_location geo state municipality =
     (if \<not> ge_has_state geo state then Some UnknownState
      else (case ge_municipality geo municipality of
              None \<Rightarrow> Some MunicipalityNotInState
            | Some (its_state, active) \<Rightarrow>
                if its_state \<noteq> state then Some MunicipalityNotInState
                else if active then None else Some InactiveMunicipality))"

definition assert_location :: "geo_answers \<Rightarrow> string \<Rightarrow> string \<Rightarrow> unit result" where
  "assert_location geo state municipality =
     (case check_location geo state municipality of
        Some p \<Rightarrow> Inl (IdentityError (InvalidAddressLocationError p)) | None \<Rightarrow> Inr ())"

definition add_address ::
  "geo_answers \<Rightarrow> nat \<Rightarrow> id \<Rightarrow> id \<Rightarrow> address_fields \<Rightarrow> bool \<Rightarrow> time \<Rightarrow> identity \<Rightarrow> addresses \<Rightarrow> addresses result" where
  "add_address geo limit customer fresh f make_default now db rows =
     res_bind (assert_location geo (af_state f) (af_municipality f)) (\<lambda>_.
       res_bind (load_book customer limit db rows) (\<lambda>b.
         res_bind (book_add fresh f make_default now b) (\<lambda>b'. save_book b' rows)))"

text \<open>An address that keeps its municipality may keep one that is no longer active.\<close>

definition update_address ::
  "geo_answers \<Rightarrow> nat \<Rightarrow> id \<Rightarrow> id \<Rightarrow> address_changes \<Rightarrow> bool option \<Rightarrow> identity \<Rightarrow> addresses \<Rightarrow> addresses result" where
  "update_address geo limit customer i c make_default db rows =
     res_bind (load_book customer limit db rows) (\<lambda>b.
       res_bind (book_find i b) (\<lambda>current.
         let state = or_else (ch_state c) (af_state current);
             municipality = or_else (ch_municipality c) (af_municipality current)
         in res_bind (if state \<noteq> af_state current \<or> municipality \<noteq> af_municipality current
                      then assert_location geo state municipality else Inr ()) (\<lambda>_.
              res_bind (book_update i c make_default b) (\<lambda>b'. save_book b' rows))))"

definition remove_address :: "nat \<Rightarrow> id \<Rightarrow> id \<Rightarrow> identity \<Rightarrow> addresses \<Rightarrow> addresses result" where
  "remove_address limit customer i db rows =
     res_bind (load_book customer limit db rows) (\<lambda>b. res_bind (book_remove i b) (\<lambda>b'. save_book b' rows))"

end
