(* ===== verification/AddressesOk.thy ===== *)
theory AddressesOk
  imports AddressBook
begin

text \<open>
  Saving an address book stores it: whatever was done to the book since it was read, no statement meets the unique index
  of the defaults, and the rows of its customer end up being the addresses of the book.
\<close>

section \<open>The table\<close>

abbreviation row_id :: "id \<times> address \<Rightarrow> id" where
  "row_id r \<equiv> ad_id (snd r)"

definition address_format :: "address \<Rightarrow> bool" where
  "address_format a = (all_digits 10 (af_phone a) \<and> all_digits 5 (af_postal_code a))"

definition wf_addresses :: "nat \<Rightarrow> addresses \<Rightarrow> bool" where
  "wf_addresses limit rows \<longleftrightarrow>
     distinct (map row_id rows) \<and> one_default rows \<and> list_all (\<lambda>r. address_format (snd r)) rows
     \<and> (\<forall>c. length (addresses_of c rows) \<le> limit)"

text \<open>With identifiers of their own, the index says that a customer has no two different defaults.\<close>

lemma one_default_iff:
  assumes "distinct (map row_id rows)"
  shows "one_default rows \<longleftrightarrow> (\<forall>r \<in> set rows. \<forall>s \<in> set rows.
    ad_default (snd r) \<and> ad_default (snd s) \<and> fst r = fst s \<longrightarrow> r = s)"
proof -
  have "distinct rows" using assms by (simp add: distinct_map)
  then show ?thesis unfolding one_default_def distinct_map inj_on_def by (simp del: split_paired_All) blast
qed

lemma set_addresses_of: "a \<in> set (addresses_of c rows) \<longleftrightarrow> (c, a) \<in> set rows"
  by (force simp: addresses_of_def)

lemma addresses_of_distinct: "distinct (map row_id rows) \<Longrightarrow> distinct (map ad_id (addresses_of c rows))"
  unfolding addresses_of_def by (induction rows) auto

section \<open>Writing\<close>

lemma written_row_eq:
  assumes "row_id r = ad_id a \<Longrightarrow> fst r = c \<and> ad_created_at (snd r) = ad_created_at a"
  shows "written_row a r = (if row_id r = ad_id a then (c, a) else r)"
  using assms by (cases r) (auto simp: written_row_def)

lemma write_one:
  assumes ids: "distinct (map row_id rows)" and one: "one_default rows"
    and stored: "ad_id a \<in> set stored \<longleftrightarrow> ad_id a \<in> row_id ` set rows"
    and own: "\<And>r. r \<in> set rows \<Longrightarrow> row_id r = ad_id a \<Longrightarrow> fst r = c \<and> ad_created_at (snd r) = ad_created_at a"
    and format: "address_format a"
    and alone: "\<And>r. ad_default a \<Longrightarrow> r \<in> set rows \<Longrightarrow> fst r = c \<Longrightarrow> ad_default (snd r) \<Longrightarrow> row_id r = ad_id a"
  shows "\<exists>rows'. write_item c stored rows a = Inr rows' \<and> distinct (map row_id rows') \<and> one_default rows'
    \<and> set rows' = {r \<in> set rows. row_id r \<noteq> ad_id a} \<union> {(c, a)}
    \<and> filter (\<lambda>r. fst r \<noteq> c) rows' = filter (\<lambda>r. fst r \<noteq> c) rows"
proof -
  define rows' where "rows' = (if ad_id a \<in> set stored then map (written_row a) rows else rows @ [(c, a)])"
  have w: "map (written_row a) rows = map (\<lambda>r. if row_id r = ad_id a then (c, a) else r) rows"
    by (rule map_cong [OF refl], rule written_row_eq) (use own in blast)
  have s: "set rows' = {r \<in> set rows. row_id r \<noteq> ad_id a} \<union> {(c, a)}"
  proof (cases "ad_id a \<in> set stored")
    case True
    then show ?thesis using stored unfolding rows'_def w by (auto simp: image_iff)
  next
    case False
    have "row_id r \<noteq> ad_id a" if "r \<in> set rows" for r
    proof
      assume "row_id r = ad_id a"
      with that have "ad_id a \<in> row_id ` set rows" by (metis imageI)
      with False stored show False by simp
    qed
    with False show ?thesis by (auto simp: rows'_def)
  qed
  have "map row_id rows' = map row_id rows @ (if ad_id a \<in> set stored then [] else [ad_id a])"
    by (auto simp: rows'_def w)
  then have d: "distinct (map row_id rows')" using ids stored by (auto simp: image_comp)
  have o: "one_default rows'"
    unfolding one_default_iff [OF d] s using one [unfolded one_default_iff [OF ids]] alone by auto
  have f: "filter (\<lambda>r. fst r \<noteq> c) rows' = filter (\<lambda>r. fst r \<noteq> c) rows"
  proof (cases "ad_id a \<in> set stored")
    case True
    have "filter (\<lambda>r. fst r \<noteq> c) (map (\<lambda>r. if row_id r = ad_id a then (c, a) else r) rs) = filter (\<lambda>r. fst r \<noteq> c) rs"
      if "\<And>r. r \<in> set rs \<Longrightarrow> row_id r = ad_id a \<Longrightarrow> fst r = c" for rs using that by (induction rs) auto
    with True own show ?thesis by (simp add: rows'_def w)
  qed (simp add: rows'_def)
  have "write_item c stored rows a = Inr rows'"
    using stored format o by (auto simp: write_item_def update_row_def create_row_def checked_rows_def rows'_def
        address_format_def image_image split: if_splits)
  with d o s f show ?thesis by blast
qed

lemma write_all:
  assumes "distinct (map row_id rows)" and "one_default rows" and "distinct (map ad_id ws)"
    and "\<And>a. a \<in> set ws \<Longrightarrow> ad_id a \<in> set stored \<longleftrightarrow> ad_id a \<in> row_id ` set rows"
    and "\<And>a r. a \<in> set ws \<Longrightarrow> r \<in> set rows \<Longrightarrow> row_id r = ad_id a \<Longrightarrow>
      fst r = c \<and> ad_created_at (snd r) = ad_created_at a"
    and "\<And>a. a \<in> set ws \<Longrightarrow> address_format a"
    and "sorted_wrt (\<lambda>a b. \<not> ad_default a) ws"
    and "\<And>a r. a \<in> set ws \<Longrightarrow> ad_default a \<Longrightarrow> r \<in> set rows \<Longrightarrow> fst r = c \<Longrightarrow> ad_default (snd r) \<Longrightarrow>
      row_id r \<in> ad_id ` set ws"
  shows "\<exists>rows'. res_fold (write_item c stored) rows ws = Inr rows' \<and> distinct (map row_id rows') \<and> one_default rows'
    \<and> set rows' = {r \<in> set rows. row_id r \<notin> ad_id ` set ws} \<union> Pair c ` set ws
    \<and> filter (\<lambda>r. fst r \<noteq> c) rows' = filter (\<lambda>r. fst r \<noteq> c) rows"
  using assms
proof (induction ws arbitrary: rows)
  case Nil
  then show ?case by simp
next
  case (Cons a ws)
  have last_default: "ws = []" if "ad_default a" using Cons.prems(7) that by (cases ws) auto
  have "\<exists>rows1. write_item c stored rows a = Inr rows1 \<and> distinct (map row_id rows1) \<and> one_default rows1
    \<and> set rows1 = {r \<in> set rows. row_id r \<noteq> ad_id a} \<union> {(c, a)}
    \<and> filter (\<lambda>r. fst r \<noteq> c) rows1 = filter (\<lambda>r. fst r \<noteq> c) rows"
  proof (rule write_one [OF Cons.prems(1,2)])
    show "ad_id a \<in> set stored \<longleftrightarrow> ad_id a \<in> row_id ` set rows" by (rule Cons.prems(4)) simp
    show "address_format a" by (rule Cons.prems(6)) simp
    show "fst r = c \<and> ad_created_at (snd r) = ad_created_at a" if "r \<in> set rows" "row_id r = ad_id a" for r
      by (rule Cons.prems(5) [OF _ that]) simp
    show "row_id r = ad_id a" if "ad_default a" "r \<in> set rows" "fst r = c" "ad_default (snd r)" for r
      using Cons.prems(8) [OF _ that] last_default [OF that(1)] by simp
  qed
  then obtain rows1 where w: "write_item c stored rows a = Inr rows1" and d: "distinct (map row_id rows1)"
    and o: "one_default rows1" and s: "set rows1 = {r \<in> set rows. row_id r \<noteq> ad_id a} \<union> {(c, a)}"
    and f: "filter (\<lambda>r. fst r \<noteq> c) rows1 = filter (\<lambda>r. fst r \<noteq> c) rows" by blast
  have neq: "ad_id b \<noteq> ad_id a" if "b \<in> set ws" for b
  proof -
    have "ad_id a \<notin> ad_id ` set ws" using Cons.prems(3) by simp
    with that show ?thesis by (metis imageI)
  qed
  have "\<exists>rows'. res_fold (write_item c stored) rows1 ws = Inr rows' \<and> distinct (map row_id rows') \<and> one_default rows'
    \<and> set rows' = {r \<in> set rows1. row_id r \<notin> ad_id ` set ws} \<union> Pair c ` set ws
    \<and> filter (\<lambda>r. fst r \<noteq> c) rows' = filter (\<lambda>r. fst r \<noteq> c) rows1"
  proof (rule Cons.IH [OF d o])
    show "distinct (map ad_id ws)" "sorted_wrt (\<lambda>a b. \<not> ad_default a) ws" using Cons.prems(3,7) by simp_all
    show "address_format b" if "b \<in> set ws" for b using Cons.prems(6) [of b] that by simp
    show "ad_id b \<in> set stored \<longleftrightarrow> ad_id b \<in> row_id ` set rows1" if "b \<in> set ws" for b
      using Cons.prems(4) [of b] that neq [OF that] by (auto simp: s)
    show "fst r = c \<and> ad_created_at (snd r) = ad_created_at b"
      if "b \<in> set ws" "r \<in> set rows1" "row_id r = ad_id b" for b r
      using Cons.prems(5) [of b r] that neq [OF that(1)] by (auto simp: s)
    show "row_id r \<in> ad_id ` set ws"
      if "b \<in> set ws" "ad_default b" "r \<in> set rows1" "fst r = c" "ad_default (snd r)" for b r
    proof -
      have "\<not> ad_default a" using last_default that(1) by auto
      with that(3,5) have "r \<in> set rows" "row_id r \<noteq> ad_id a" by (auto simp: s)
      with that Cons.prems(8) [of b r] show ?thesis by simp
    qed
  qed
  then obtain rows' where r: "res_fold (write_item c stored) rows1 ws = Inr rows'" and d': "distinct (map row_id rows')"
    and o': "one_default rows'" and s': "set rows' = {r \<in> set rows1. row_id r \<notin> ad_id ` set ws} \<union> Pair c ` set ws"
    and f': "filter (\<lambda>r. fst r \<noteq> c) rows' = filter (\<lambda>r. fst r \<noteq> c) rows1" by blast
  have "set rows' = {r \<in> set rows. row_id r \<notin> ad_id ` set (a # ws)} \<union> Pair c ` set (a # ws)"
    unfolding s' s using neq by fastforce
  with r w d' o' f' f show ?case by simp
qed

section \<open>What a book knows of what was read\<close>

definition tracks :: "address list \<Rightarrow> address_book \<Rightarrow> bool" where
  "tracks orig b \<longleftrightarrow>
     distinct (map ad_id (bk_items b))
     \<and> (\<forall>a \<in> set (bk_items b). \<forall>c \<in> set (bk_items b). ad_default a \<and> ad_default c \<longrightarrow> a = c)
     \<and> (\<forall>a \<in> set (bk_items b). address_format a \<and> ad_id a \<notin> set (bk_removed b)
          \<and> (ad_id a \<notin> set (bk_changed b) \<longrightarrow> a \<in> set orig)
          \<and> (\<forall>o1 \<in> set orig. ad_id o1 = ad_id a \<longrightarrow> ad_created_at o1 = ad_created_at a))
     \<and> (\<forall>o1 \<in> set orig. ad_id o1 \<notin> set (bk_removed b) \<longrightarrow> ad_id o1 \<in> ad_id ` set (bk_items b))"

lemma tracksD:
  assumes "tracks orig b"
  shows "distinct (map ad_id (bk_items b))"
    and "a \<in> set (bk_items b) \<Longrightarrow> c \<in> set (bk_items b) \<Longrightarrow> ad_default a \<Longrightarrow> ad_default c \<Longrightarrow> a = c"
    and "a \<in> set (bk_items b) \<Longrightarrow> address_format a \<and> ad_id a \<notin> set (bk_removed b)"
    and "a \<in> set (bk_items b) \<Longrightarrow> ad_id a \<notin> set (bk_changed b) \<Longrightarrow> a \<in> set orig"
    and "a \<in> set (bk_items b) \<Longrightarrow> x \<in> set orig \<Longrightarrow> ad_id x = ad_id a \<Longrightarrow> ad_created_at x = ad_created_at a"
    and "x \<in> set orig \<Longrightarrow> ad_id x \<notin> set (bk_removed b) \<Longrightarrow> ad_id x \<in> ad_id ` set (bk_items b)"
  using assms unfolding tracks_def by blast+

lemma tracksI:
  assumes "distinct (map ad_id (bk_items b))"
    and "\<And>a c. a \<in> set (bk_items b) \<Longrightarrow> c \<in> set (bk_items b) \<Longrightarrow> ad_default a \<Longrightarrow> ad_default c \<Longrightarrow> a = c"
    and "\<And>a. a \<in> set (bk_items b) \<Longrightarrow> address_format a \<and> ad_id a \<notin> set (bk_removed b)"
    and "\<And>a. a \<in> set (bk_items b) \<Longrightarrow> ad_id a \<notin> set (bk_changed b) \<Longrightarrow> a \<in> set orig"
    and "\<And>a x. a \<in> set (bk_items b) \<Longrightarrow> x \<in> set orig \<Longrightarrow> ad_id x = ad_id a \<Longrightarrow> ad_created_at x = ad_created_at a"
    and "\<And>x. x \<in> set orig \<Longrightarrow> ad_id x \<notin> set (bk_removed b) \<Longrightarrow> ad_id x \<in> ad_id ` set (bk_items b)"
  shows "tracks orig b"
  using assms unfolding tracks_def by blast

lemma unmarked_simps [simp]:
  "ad_id (unmarked a) = ad_id a" "\<not> ad_default (unmarked a)" "ad_created_at (unmarked a) = ad_created_at a"
  "address_format (unmarked a) = address_format a" "\<not> ad_default a \<Longrightarrow> unmarked a = a"
  by (simp_all add: unmarked_def address_format_def)

lemma unmark_default_simps [simp]:
  "bk_items (unmark_default b) = map unmarked (bk_items b)" "bk_removed (unmark_default b) = bk_removed b"
  "bk_customer (unmark_default b) = bk_customer b" "bk_limit (unmark_default b) = bk_limit b"
  "set (bk_changed (unmark_default b)) = set (bk_changed b) \<union> ad_id ` {a \<in> set (bk_items b). ad_default a}"
  by (auto simp: unmark_default_def)

lemma unmarked_in:
  assumes "a \<in> set (map unmarked xs)"
  obtains x where "x \<in> set xs" "a = unmarked x"
  using assms unfolding set_map by (elim imageE) (rule that)

lemma unmark_tracks:
  assumes t: "tracks orig b"
  shows "tracks orig (unmark_default b)"
proof (rule tracksI)
  note d = tracksD [OF t]
  show "distinct (map ad_id (bk_items (unmark_default b)))" using d(1) by (simp add: comp_def)
  show "a = c" if "a \<in> set (bk_items (unmark_default b))" "ad_default a" for a c
    using that by (auto elim!: unmarked_in)
  show "address_format a \<and> ad_id a \<notin> set (bk_removed (unmark_default b))"
    if "a \<in> set (bk_items (unmark_default b))" for a
    using that d(3) unfolding unmark_default_simps by (elim unmarked_in) simp
  show "a \<in> set orig" if a: "a \<in> set (bk_items (unmark_default b))" "ad_id a \<notin> set (bk_changed (unmark_default b))" for a
  proof -
    from a(1) obtain x where x: "x \<in> set (bk_items b)" "a = unmarked x" unfolding unmark_default_simps by (rule unmarked_in)
    with a(2) have "\<not> ad_default x" "ad_id x \<notin> set (bk_changed b)" by auto
    with x d(4) show ?thesis by simp
  qed
  show "ad_created_at x = ad_created_at a"
    if "a \<in> set (bk_items (unmark_default b))" "x \<in> set orig" "ad_id x = ad_id a" for a x
    using that d(5) unfolding unmark_default_simps by (elim unmarked_in) simp
  show "ad_id x \<in> ad_id ` set (bk_items (unmark_default b))"
    if "x \<in> set orig" "ad_id x \<notin> set (bk_removed (unmark_default b))" for x
    using that d(6) [of x] by (simp add: image_image)
qed

lemma check_formats_Inr [simp]:
  "check_formats phone code = Inr u \<longleftrightarrow> given_fits (all_digits 10) phone \<and> given_fits (all_digits 5) code"
  by (simp add: check_formats_def)

lemma new_address_simps [simp]:
  "ad_id (new_address i f d now) = i" "ad_default (new_address i f d now) = d"
  "af_phone (new_address i f d now) = af_phone f" "af_postal_code (new_address i f d now) = af_postal_code f"
  by (simp_all add: new_address_def)

lemma book_addD:
  assumes "book_add i f make_default now b = Inr b'"
  shows "length (bk_items b) < bk_limit b" "all_digits 10 (af_phone f)" "all_digits 5 (af_postal_code f)"
    and "\<exists>d b1. b1 = (if d then unmark_default b else b) \<and> (\<not> d \<longrightarrow> \<not> make_default \<and> bk_items b \<noteq> [])
      \<and> b' = b1\<lparr>bk_items := bk_items b1 @ [new_address i f d now], bk_changed := bk_changed b1 @ [i]\<rparr>"
  using assms by (auto simp: book_add_def res_bind_eq_Inr Let_def split: if_splits)

lemma book_add_tracks:
  assumes add: "book_add i f make_default now b = Inr b'" and t: "tracks orig b"
    and new: "i \<notin> ad_id ` set (bk_items b)" "i \<notin> ad_id ` set orig" "i \<notin> set (bk_removed b)"
  shows "tracks orig b'"
proof -
  from book_addD(4) [OF add] obtain d b1 where b1: "b1 = (if d then unmark_default b else b)"
    and b': "b' = b1\<lparr>bk_items := bk_items b1 @ [new_address i f d now], bk_changed := bk_changed b1 @ [i]\<rparr>" by blast
  have t1: "tracks orig b1" using t unmark_tracks by (simp add: b1)
  note e = tracksD [OF t1]
  have items: "ad_id ` set (bk_items b1) = ad_id ` set (bk_items b)" by (simp add: b1 image_image)
  have rm: "bk_removed b1 = bk_removed b" by (simp add: b1)
  have none: "\<not> ad_default a" if "d" "a \<in> set (bk_items b1)" for a
    using that by (auto simp: b1 elim!: unmarked_in)
  show ?thesis
  proof (rule tracksI)
    show "distinct (map ad_id (bk_items b'))" using e(1) new(1) items by (simp add: b')
    show "a = c" if "a \<in> set (bk_items b')" "c \<in> set (bk_items b')" "ad_default a" "ad_default c" for a c
      using that e(2) [of a c] none by (auto simp: b')
    show "address_format a \<and> ad_id a \<notin> set (bk_removed b')" if "a \<in> set (bk_items b')" for a
      using that e(3) [of a] book_addD(2,3) [OF add] new(3) rm by (auto simp: b' address_format_def)
    show "a \<in> set orig" if "a \<in> set (bk_items b')" "ad_id a \<notin> set (bk_changed b')" for a
      using that e(4) [of a] by (auto simp: b')
    show "ad_created_at x = ad_created_at a" if "a \<in> set (bk_items b')" "x \<in> set orig" "ad_id x = ad_id a" for a x
      using that e(5) [of a x] new(2) by (auto simp: b')
    show "ad_id x \<in> ad_id ` set (bk_items b')" if "x \<in> set orig" "ad_id x \<notin> set (bk_removed b')" for x
      using that e(6) [of x] by (simp add: b')
  qed
qed

lemma changed_address_simps [simp]:
  "ad_id (changed_address c md a) = ad_id a" "ad_created_at (changed_address c md a) = ad_created_at a"
  "ad_default (changed_address c md a) = or_else md (ad_default a)"
  "af_phone (changed_address c md a) = or_else (ch_phone c) (af_phone a)"
  "af_postal_code (changed_address c md a) = or_else (ch_postal_code c) (af_postal_code a)"
  by (simp_all add: changed_address_def)

lemma or_else_pred: "given_fits P given \<Longrightarrow> P kept \<Longrightarrow> P (or_else given kept)"
  by (cases given) (simp_all add: or_else_def)

lemma book_findD: "book_find i b = Inr a \<Longrightarrow> a \<in> set (bk_items b) \<and> ad_id a = i"
  by (auto simp: book_find_def dest: find_SomeD split: option.splits)

lemma replaced_address_simps [simp]:
  "ad_id (replaced_address new a) = ad_id a" "ad_id a \<noteq> ad_id new \<Longrightarrow> replaced_address new a = a"
  "ad_id a = ad_id new \<Longrightarrow> replaced_address new a = new"
  by (simp_all add: replaced_address_def)

lemma book_updateD:
  assumes "book_update i c md b = Inr b'"
  shows "\<exists>cur b1. book_find i b = Inr cur \<and> given_fits (all_digits 10) (ch_phone c)
    \<and> given_fits (all_digits 5) (ch_postal_code c)
    \<and> b1 = (if md = Some True \<and> \<not> ad_default cur then unmark_default b else b)
    \<and> b' = b1\<lparr>bk_items := map (replaced_address (changed_address c md cur)) (bk_items b1), bk_changed := bk_changed b1 @ [i]\<rparr>"
  using assms by (auto simp: book_update_def res_bind_eq_Inr Let_def)

lemma book_update_tracks:
  assumes up: "book_update i c md b = Inr b'" and t: "tracks orig b"
  shows "tracks orig b'"
proof -
  from book_updateD [OF up] obtain cur b1 where cur: "book_find i b = Inr cur"
    and fmt: "given_fits (all_digits 10) (ch_phone c)" "given_fits (all_digits 5) (ch_postal_code c)"
    and b1: "b1 = (if md = Some True \<and> \<not> ad_default cur then unmark_default b else b)"
    and b': "b' = b1\<lparr>bk_items := map (replaced_address (changed_address c md cur)) (bk_items b1),
      bk_changed := bk_changed b1 @ [i]\<rparr>" by blast
  let ?new = "changed_address c md cur"
  note d = tracksD [OF t] and cur' = book_findD [OF cur]
  have t1: "tracks orig b1" using t unmark_tracks by (simp add: b1)
  note e = tracksD [OF t1]
  have rm: "bk_removed b1 = bk_removed b" by (simp add: b1)
  have in1: "\<exists>x. x \<in> set (bk_items b1) \<and> a = replaced_address ?new x" if "a \<in> set (bk_items b')" for a
    using that unfolding b' by auto
  have alone: "\<not> ad_default x" if "ad_default ?new" "x \<in> set (bk_items b1)" "ad_id x \<noteq> i" for x
  proof (cases "md = Some True \<and> \<not> ad_default cur")
    case True
    with that(2) show ?thesis by (auto simp: b1 elim!: unmarked_in)
  next
    case False
    then have "b1 = b" "ad_default cur" using that(1) by (auto simp: b1 or_else_def split: option.splits if_splits)
    with d(2) [of x cur] that cur' show ?thesis by auto
  qed
  show ?thesis
  proof (rule tracksI)
    show "distinct (map ad_id (bk_items b'))" using e(1) by (simp add: b' comp_def)
    show "a = y" if "a \<in> set (bk_items b')" "y \<in> set (bk_items b')" and def: "ad_default a" "ad_default y" for a y
    proof -
      from in1 [OF that(1)] obtain x where x: "x \<in> set (bk_items b1)" "a = replaced_address ?new x" by blast
      from in1 [OF that(2)] obtain z where z: "z \<in> set (bk_items b1)" "y = replaced_address ?new z" by blast
      show ?thesis
      proof (cases "ad_id x = i"; cases "ad_id z = i")
        assume "ad_id x \<noteq> i" "ad_id z \<noteq> i"
        then show ?thesis using x z def cur' e(2) [of x z] by simp
      next
        assume "ad_id x = i" "ad_id z \<noteq> i"
        then show ?thesis using x z def cur' alone [of z] by simp
      next
        assume "ad_id x \<noteq> i" "ad_id z = i"
        then show ?thesis using x z def cur' alone [of x] by simp
      qed (use x z cur' in simp)
    qed
    show "address_format a \<and> ad_id a \<notin> set (bk_removed b')" if a: "a \<in> set (bk_items b')" for a
    proof -
      from in1 [OF a] obtain x where x: "x \<in> set (bk_items b1)" "a = replaced_address ?new x" by blast
      have "address_format ?new" using fmt d(3) [of cur] cur' by (simp add: address_format_def or_else_pred)
      with x e(3) [OF x(1)] show ?thesis by (cases "ad_id x = i") (simp_all add: b' cur')
    qed
    show "a \<in> set orig" if a: "a \<in> set (bk_items b')" "ad_id a \<notin> set (bk_changed b')" for a
    proof -
      from in1 [OF a(1)] obtain x where x: "x \<in> set (bk_items b1)" "a = replaced_address ?new x" by blast
      with a(2) have "ad_id x \<noteq> i" "ad_id x \<notin> set (bk_changed b1)" by (simp_all add: b')
      with x e(4) cur' show ?thesis by simp
    qed
    show "ad_created_at y = ad_created_at a" if a: "a \<in> set (bk_items b')" and y: "y \<in> set orig" "ad_id y = ad_id a" for a y
    proof -
      from in1 [OF a] obtain x where x: "x \<in> set (bk_items b1)" "a = replaced_address ?new x" by blast
      show ?thesis
      proof (cases "ad_id x = i")
        case True
        with x cur' y d(5) [of cur y] show ?thesis by simp
      next
        case False
        with x cur' y e(5) [of x y] show ?thesis by simp
      qed
    qed
    show "ad_id x \<in> ad_id ` set (bk_items b')" if "x \<in> set orig" "ad_id x \<notin> set (bk_removed b')" for x
      using that e(6) [of x] by (simp add: b' image_image)
  qed
qed

lemma book_remove_tracks:
  assumes r: "book_remove i b = Inr b'" and t: "tracks orig b"
  shows "tracks orig b'"
proof -
  from r have b': "b' = b\<lparr>bk_items := filter (\<lambda>a. ad_id a \<noteq> i) (bk_items b), bk_changed := filter (\<lambda>j. j \<noteq> i) (bk_changed b),
      bk_removed := bk_removed b @ [i]\<rparr>" by (auto simp: book_remove_def res_bind_eq_Inr)
  note d = tracksD [OF t]
  show ?thesis
  proof (rule tracksI)
    show "ad_id x \<in> ad_id ` set (bk_items b')" if "x \<in> set orig" "ad_id x \<notin> set (bk_removed b')" for x
      using that d(6) [of x] by (auto simp: b')
  qed (use d in \<open>auto simp: b' distinct_map_filter\<close>)
qed

section \<open>Saving a book\<close>

lemma default_last:
  assumes "sorted (map key ws)" and "\<And>a. key a = (if ad_default a then 1 else 0 :: nat)"
    and "distinct ws" and "\<And>a c. a \<in> set ws \<Longrightarrow> c \<in> set ws \<Longrightarrow> ad_default a \<Longrightarrow> ad_default c \<Longrightarrow> a = c"
  shows "sorted_wrt (\<lambda>a b. \<not> ad_default a) ws"
  using assms(1,3,4)
proof (induction ws)
  case (Cons a ws)
  have "\<not> ad_default a" if "c \<in> set ws" for c
  proof
    assume a: "ad_default a"
    with Cons.prems(1) that assms(2) [of a] have "1 \<le> key c" by auto
    then have "ad_default c" using assms(2) [of c] by (auto split: if_splits)
    with Cons.prems(3) [of a c] a that have "a = c" by simp
    with that Cons.prems(2) show False by simp
  qed
  moreover have "sorted_wrt (\<lambda>a b. \<not> ad_default a) ws" using Cons.IH Cons.prems by simp
  ultimately show ?case by simp
qed simp

text \<open>The rows that saving deletes first.\<close>

definition kept_rows :: "address_book \<Rightarrow> addresses \<Rightarrow> addresses" where
  "kept_rows b rows = filter (\<lambda>r. \<not> (fst r = bk_customer b \<and> row_id r \<in> set (bk_removed b))) rows"

lemma save_book_eq:
  "save_book b rows = res_fold (write_item (bk_customer b) (map ad_id (addresses_of (bk_customer b) (kept_rows b rows))))
     (kept_rows b rows) (sort_key (\<lambda>a. if ad_default a then 1 else 0 :: nat)
       (filter (\<lambda>a. ad_id a \<in> set (bk_changed b)) (bk_items b)))"
  by (cases "bk_removed b = []") (simp_all add: save_book_def kept_rows_def Let_def)

theorem save_book_stores:
  assumes ids: "distinct (map row_id rows)" and one: "one_default rows"
    and t: "tracks (addresses_of (bk_customer b) rows) b"
    and fresh: "\<And>a r. a \<in> set (bk_items b) \<Longrightarrow> r \<in> set rows \<Longrightarrow> row_id r = ad_id a \<Longrightarrow> fst r = bk_customer b"
  shows "\<exists>rows'. save_book b rows = Inr rows' \<and> distinct (map row_id rows') \<and> one_default rows'
    \<and> set (addresses_of (bk_customer b) rows') = set (bk_items b)
    \<and> filter (\<lambda>r. fst r \<noteq> bk_customer b) rows' = filter (\<lambda>r. fst r \<noteq> bk_customer b) rows"
proof -
  let ?c = "bk_customer b" and ?kept = "kept_rows b rows"
  let ?ws = "sort_key (\<lambda>a. if ad_default a then 1 else 0 :: nat) (filter (\<lambda>a. ad_id a \<in> set (bk_changed b)) (bk_items b))"
  let ?stored = "map ad_id (addresses_of ?c ?kept)"
  note d = tracksD [OF t]
  have ws: "a \<in> set ?ws \<longleftrightarrow> a \<in> set (bk_items b) \<and> ad_id a \<in> set (bk_changed b)" for a by auto
  have kept: "r \<in> set ?kept \<longleftrightarrow> r \<in> set rows \<and> \<not> (fst r = ?c \<and> row_id r \<in> set (bk_removed b))" for r
    by (auto simp: kept_rows_def)
  have ids': "distinct (map row_id ?kept)" using ids by (simp add: kept_rows_def distinct_map_filter)
  have one': "one_default ?kept"
    using one by (simp add: one_default_iff ids ids') (auto simp: kept_rows_def)
  have orig: "snd r \<in> set (addresses_of ?c rows)" if "r \<in> set rows" "fst r = ?c" for r
    using that by (auto simp: addresses_of_def)
  have item: "\<exists>a \<in> set (bk_items b). ad_id a = row_id r" if "r \<in> set ?kept" "fst r = ?c" for r
  proof -
    have "row_id r \<in> ad_id ` set (bk_items b)" using d(6) [OF orig] that kept by simp
    then show ?thesis by (elim imageE) auto
  qed
  have same: "snd r = a" if "r \<in> set ?kept" "fst r = ?c" "a \<in> set (bk_items b)" "ad_id a = row_id r"
    "ad_id a \<notin> set (bk_changed b)" for r a
  proof -
    have "a \<in> set (addresses_of ?c rows)" by (rule d(4) [OF that(3,5)])
    with same_key [OF addresses_of_distinct [OF ids] orig [of r]] that kept show ?thesis by metis
  qed
  have "\<exists>rows'. res_fold (write_item ?c ?stored) ?kept ?ws = Inr rows' \<and> distinct (map row_id rows') \<and> one_default rows'
    \<and> set rows' = {r \<in> set ?kept. row_id r \<notin> ad_id ` set ?ws} \<union> Pair ?c ` set ?ws
    \<and> filter (\<lambda>r. fst r \<noteq> ?c) rows' = filter (\<lambda>r. fst r \<noteq> ?c) ?kept"
  proof (rule write_all [OF ids' one'])
    have items: "distinct (map ad_id (filter (\<lambda>a. ad_id a \<in> set (bk_changed b)) (bk_items b)))"
      using d(1) by (simp add: distinct_map_filter)
    then have "distinct ?ws" by (simp add: distinct_map)
    from items show "distinct (map ad_id ?ws)" by (simp add: distinct_map)
    show "sorted_wrt (\<lambda>a b. \<not> ad_default a) ?ws"
      by (rule default_last [where key = "\<lambda>a. if ad_default a then 1 else 0"])
        (use \<open>distinct ?ws\<close> d(2) in \<open>simp_all add: ws\<close>)
    show "address_format a" if "a \<in> set ?ws" for a using that d(3) by (simp add: ws)
    show own: "fst r = ?c \<and> ad_created_at (snd r) = ad_created_at a"
      if "a \<in> set ?ws" "r \<in> set ?kept" "row_id r = ad_id a" for a r
      using that fresh [of a r] d(5) [of a "snd r"] orig [of r] by (simp add: ws kept)
    show "ad_id a \<in> set ?stored \<longleftrightarrow> ad_id a \<in> row_id ` set ?kept" if "a \<in> set ?ws" for a
    proof
      assume "ad_id a \<in> set ?stored"
      then show "ad_id a \<in> row_id ` set ?kept" by (force simp: addresses_of_def)
    next
      assume "ad_id a \<in> row_id ` set ?kept"
      then obtain r where r: "r \<in> set ?kept" "row_id r = ad_id a" by (elim imageE) auto
      with own [OF that r] have "snd r \<in> set (addresses_of ?c ?kept)" by (auto simp: addresses_of_def)
      then have "row_id r \<in> set ?stored" by simp
      with r(2) show "ad_id a \<in> set ?stored" by simp
    qed
    show "row_id r \<in> ad_id ` set ?ws"
      if "a \<in> set ?ws" "ad_default a" "r \<in> set ?kept" "fst r = ?c" "ad_default (snd r)" for a r
    proof -
      from item [OF that(3,4)] obtain x where x: "x \<in> set (bk_items b)" "ad_id x = row_id r" by blast
      have "ad_id x \<in> set (bk_changed b)"
      proof (rule ccontr)
        assume "ad_id x \<notin> set (bk_changed b)"
        with same [OF that(3,4) x] that(5) have "ad_default x" by simp
        with d(2) [of x a] x that(1,2) have "x = a" by (simp add: ws)
        with \<open>ad_id x \<notin> set (bk_changed b)\<close> that(1) show False by (simp add: ws)
      qed
      with x have "x \<in> set ?ws" by (simp add: ws)
      with x(2) show ?thesis by (metis imageI)
    qed
  qed
  then obtain rows' where s: "save_book b rows = Inr rows'" and d': "distinct (map row_id rows')" and o': "one_default rows'"
    and set': "set rows' = {r \<in> set ?kept. row_id r \<notin> ad_id ` set ?ws} \<union> Pair ?c ` set ?ws"
    and f': "filter (\<lambda>r. fst r \<noteq> ?c) rows' = filter (\<lambda>r. fst r \<noteq> ?c) ?kept"
    unfolding save_book_eq by blast
  have "(?c, a) \<in> set rows' \<longleftrightarrow> a \<in> set (bk_items b)" for a
  proof
    assume "(?c, a) \<in> set rows'"
    then consider "a \<in> set ?ws" | "(?c, a) \<in> set ?kept" "ad_id a \<notin> ad_id ` set ?ws" unfolding set' by auto
    then show "a \<in> set (bk_items b)"
    proof cases
      case 2
      from item [OF 2(1)] obtain x where x: "x \<in> set (bk_items b)" "ad_id x = ad_id a" by auto
      have "ad_id x \<notin> set (bk_changed b)" using 2(2) x ws [of x] by (metis imageI)
      with same [OF 2(1) _ x(1)] x show ?thesis by simp
    qed (simp add: ws)
  next
    assume a: "a \<in> set (bk_items b)"
    show "(?c, a) \<in> set rows'"
    proof (cases "ad_id a \<in> set (bk_changed b)")
      case True
      with a have "a \<in> set ?ws" by (simp add: ws)
      then show ?thesis unfolding set' by (intro UnI2 imageI)
    next
      case False
      with d(4) [OF a] have "(?c, a) \<in> set rows" by (simp add: set_addresses_of)
      then have "(?c, a) \<in> set ?kept" using d(3) [OF a] by (simp add: kept)
      moreover have "ad_id a \<notin> ad_id ` set ?ws"
      proof
        assume "ad_id a \<in> ad_id ` set ?ws"
        then obtain x where "x \<in> set ?ws" "ad_id x = ad_id a" by (elim imageE) metis
        with False show False by (simp add: ws)
      qed
      ultimately show ?thesis unfolding set' by simp
    qed
  qed
  then have a: "set (addresses_of ?c rows') = set (bk_items b)" by (intro set_eqI) (simp only: set_addresses_of)
  have "filter (\<lambda>r. fst r \<noteq> ?c) ?kept = filter (\<lambda>r. fst r \<noteq> ?c) rows"
    unfolding kept_rows_def filter_filter by (rule filter_cong) auto
  then have f: "filter (\<lambda>r. fst r \<noteq> ?c) rows' = filter (\<lambda>r. fst r \<noteq> ?c) rows" by (rule trans [OF f'])
  show ?thesis by (rule exI [of _ rows']) (intro conjI s d' o' a f)
qed

section \<open>What is done to a book\<close>

datatype book_event =
    AddEntry id address_fields bool time
  | UpdateEntry id address_changes "bool option"
  | RemoveEntry id

fun book_step :: "address_book \<Rightarrow> book_event \<Rightarrow> address_book result" where
  "book_step b (AddEntry i f d now) = book_add i f d now b"
| "book_step b (UpdateEntry i c d) = book_update i c d b"
| "book_step b (RemoveEntry i) = book_remove i b"

fun added_ids :: "book_event list \<Rightarrow> id list" where
  "added_ids [] = []"
| "added_ids (AddEntry i f d now # evs) = i # added_ids evs"
| "added_ids (_ # evs) = added_ids evs"

lemma book_step_keeps:
  assumes "book_step b ev = Inr b'"
  shows "bk_customer b' = bk_customer b" "bk_limit b' = bk_limit b"
    and "ad_id ` set (bk_items b') \<subseteq> ad_id ` set (bk_items b) \<union> set (added_ids [ev])"
    and "set (bk_removed b') \<subseteq> set (bk_removed b) \<union> ad_id ` set (bk_items b)"
    and "length (bk_items b) \<le> bk_limit b \<Longrightarrow> length (bk_items b') \<le> bk_limit b"
proof -
  show "bk_customer b' = bk_customer b" "bk_limit b' = bk_limit b"
    using assms by (cases ev; auto simp: book_add_def book_update_def book_remove_def res_bind_eq_Inr Let_def split: if_splits)+
  show "ad_id ` set (bk_items b') \<subseteq> ad_id ` set (bk_items b) \<union> set (added_ids [ev])"
  proof (cases ev)
    case (AddEntry i f d now)
    with assms have "book_add i f d now b = Inr b'" by simp
    from book_addD(4) [OF this] obtain m b1 where "b1 = (if m then unmark_default b else b)"
      and b': "b' = b1\<lparr>bk_items := bk_items b1 @ [new_address i f m now], bk_changed := bk_changed b1 @ [i]\<rparr>" by blast
    then have "ad_id ` set (bk_items b1) = ad_id ` set (bk_items b)" by (simp add: image_image)
    with AddEntry show ?thesis by (auto simp: b')
  next
    case (UpdateEntry i c d)
    with assms have "book_update i c d b = Inr b'" by simp
    from book_updateD [OF this] obtain cur b1 where "b1 = (if d = Some True \<and> \<not> ad_default cur then unmark_default b else b)"
      and b': "b' = b1\<lparr>bk_items := map (replaced_address (changed_address c d cur)) (bk_items b1), bk_changed := bk_changed b1 @ [i]\<rparr>"
      by blast
    then have "ad_id ` set (bk_items b1) = ad_id ` set (bk_items b)" by (simp add: image_image)
    with UpdateEntry show ?thesis by (simp add: b' image_image)
  next
    case (RemoveEntry i)
    with assms show ?thesis by (auto simp: book_remove_def res_bind_eq_Inr)
  qed
  show "set (bk_removed b') \<subseteq> set (bk_removed b) \<union> ad_id ` set (bk_items b)"
  proof (cases ev)
    case (RemoveEntry i)
    with assms obtain a where "book_find i b = Inr a" "bk_removed b' = bk_removed b @ [i]"
      by (auto simp: book_remove_def res_bind_eq_Inr)
    with book_findD [of i b a] show ?thesis by auto
  qed (use assms in \<open>auto simp: book_add_def book_update_def res_bind_eq_Inr Let_def split: if_splits\<close>)
  show "length (bk_items b') \<le> bk_limit b" if len: "length (bk_items b) \<le> bk_limit b"
  proof (cases ev)
    case (AddEntry i f d now)
    with assms have a: "book_add i f d now b = Inr b'" by simp
    from book_addD(4) [OF this] obtain m b1 where "b1 = (if m then unmark_default b else b)"
      and b': "b' = b1\<lparr>bk_items := bk_items b1 @ [new_address i f m now], bk_changed := bk_changed b1 @ [i]\<rparr>" by blast
    then have "length (bk_items b1) = length (bk_items b)" by simp
    with book_addD(1) [OF a] show ?thesis by (simp add: b')
  next
    case (UpdateEntry i c d)
    with assms have "book_update i c d b = Inr b'" by simp
    from book_updateD [OF this] obtain cur b1 where "b1 = (if d = Some True \<and> \<not> ad_default cur then unmark_default b else b)"
      and b': "b' = b1\<lparr>bk_items := map (replaced_address (changed_address c d cur)) (bk_items b1), bk_changed := bk_changed b1 @ [i]\<rparr>"
      by blast
    then have "length (bk_items b1) = length (bk_items b)" by simp
    with len show ?thesis by (simp add: b')
  next
    case (RemoveEntry i)
    with assms len show ?thesis by (auto simp: book_remove_def res_bind_eq_Inr intro: order_trans [OF length_filter_le])
  qed
qed

lemma book_run_tracks:
  assumes "res_fold book_step b evs = Inr b'" and "tracks orig b" and "distinct (added_ids evs)"
    and "set (added_ids evs) \<inter> (ad_id ` set orig \<union> ad_id ` set (bk_items b) \<union> set (bk_removed b)) = {}"
  shows "tracks orig b' \<and> bk_customer b' = bk_customer b \<and> bk_limit b' = bk_limit b
    \<and> ad_id ` set (bk_items b') \<subseteq> ad_id ` set (bk_items b) \<union> set (added_ids evs)
    \<and> (length (bk_items b) \<le> bk_limit b \<longrightarrow> length (bk_items b') \<le> bk_limit b)"
  using assms
proof (induction evs arbitrary: b)
  case (Cons ev evs)
  then obtain b1 where s: "book_step b ev = Inr b1" and r: "res_fold book_step b1 evs = Inr b'"
    by (auto simp: res_bind_eq_Inr)
  note k = book_step_keeps [OF s]
  have added: "set (added_ids (ev # evs)) = set (added_ids [ev]) \<union> set (added_ids evs)" by (cases ev) auto
  have t: "tracks orig b1"
  proof (cases ev)
    case (AddEntry i f d now)
    with s have "book_add i f d now b = Inr b1" by simp
    then show ?thesis by (rule book_add_tracks [OF _ Cons.prems(2)]) (use Cons.prems(4) AddEntry in simp_all)
  next
    case (UpdateEntry i c d)
    with s have "book_update i c d b = Inr b1" by simp
    then show ?thesis by (rule book_update_tracks [OF _ Cons.prems(2)])
  next
    case (RemoveEntry i)
    with s have "book_remove i b = Inr b1" by simp
    then show ?thesis by (rule book_remove_tracks [OF _ Cons.prems(2)])
  qed
  have new: "distinct (added_ids evs)" "set (added_ids [ev]) \<inter> set (added_ids evs) = {}"
    using Cons.prems(3) by (cases ev; auto)+
  have apart: "A \<inter> (Or \<union> I' \<union> R') = {}"
    if "(E \<union> A) \<inter> (Or \<union> I \<union> R) = {}" "I' \<subseteq> I \<union> E" "R' \<subseteq> R \<union> I" "E \<inter> A = {}" for A E I I' R R' Or :: "id set"
    using that by blast
  have "set (added_ids evs) \<inter> (ad_id ` set orig \<union> ad_id ` set (bk_items b1) \<union> set (bk_removed b1)) = {}"
    by (rule apart [OF Cons.prems(4) [unfolded added] k(3,4) new(2)])
  with new(1) have "tracks orig b' \<and> bk_customer b' = bk_customer b1 \<and> bk_limit b' = bk_limit b1
    \<and> ad_id ` set (bk_items b') \<subseteq> ad_id ` set (bk_items b1) \<union> set (added_ids evs)
    \<and> (length (bk_items b1) \<le> bk_limit b1 \<longrightarrow> length (bk_items b') \<le> bk_limit b1)"
    using Cons.IH [OF r t] by blast
  then have ih: "tracks orig b'" "bk_customer b' = bk_customer b1" "bk_limit b' = bk_limit b1"
    "ad_id ` set (bk_items b') \<subseteq> ad_id ` set (bk_items b1) \<union> set (added_ids evs)"
    "length (bk_items b1) \<le> bk_limit b1 \<Longrightarrow> length (bk_items b') \<le> bk_limit b1" by blast+
  show ?case
  proof (intro conjI impI)
    show "ad_id ` set (bk_items b') \<subseteq> ad_id ` set (bk_items b) \<union> set (added_ids (ev # evs))"
      using ih(4) k(3) unfolding added by blast
    show "length (bk_items b') \<le> bk_limit b" if "length (bk_items b) \<le> bk_limit b" using ih(5) k(2) k(5) [OF that] by simp
  qed (use ih k(1,2) in simp_all)
qed simp

section \<open>From the table and back\<close>

lemma loaded_tracks:
  assumes "wf_addresses limit rows" and "load_book c limit db rows = Inr b"
  shows "tracks (addresses_of c rows) b" "bk_customer b = c" "bk_limit b = limit" "bk_removed b = []"
    "bk_items b = addresses_of c rows"
proof -
  from assms(2) have b: "b = restore_book c (addresses_of c rows) limit" by (auto simp: load_book_def split: if_splits)
  then show "bk_customer b = c" "bk_limit b = limit" "bk_removed b = []" and i: "bk_items b = addresses_of c rows"
    by (simp_all add: restore_book_def)
  from assms(1) have ids: "distinct (map row_id rows)" and one: "one_default rows"
    and fmt: "\<And>r. r \<in> set rows \<Longrightarrow> address_format (snd r)"
    by (simp_all add: wf_addresses_def list_all_iff)
  note d = addresses_of_distinct [OF ids, of c]
  show "tracks (addresses_of c rows) b"
  proof (rule tracksI)
    show "a = x" if "a \<in> set (bk_items b)" "x \<in> set (bk_items b)" "ad_default a" "ad_default x" for a x
      using one [unfolded one_default_iff [OF ids], rule_format, of "(c, a)" "(c, x)"] that by (simp add: i set_addresses_of)
    show "address_format a \<and> ad_id a \<notin> set (bk_removed b)" if "a \<in> set (bk_items b)" for a
      using that fmt [of "(c, a)"] by (simp add: i set_addresses_of b restore_book_def)
    show "ad_created_at x = ad_created_at a"
      if "a \<in> set (bk_items b)" "x \<in> set (addresses_of c rows)" "ad_id x = ad_id a" for a x
      using same_key [OF d, of x a] that by (simp add: i)
  qed (simp_all add: i d)
qed

lemma other_addresses:
  assumes "filter (\<lambda>r. fst r \<noteq> c) rows' = filter (\<lambda>r. fst r \<noteq> c) rows" and "d \<noteq> c"
  shows "addresses_of d rows' = addresses_of d rows"
proof -
  have "addresses_of d rs = addresses_of d (filter (\<lambda>r. fst r \<noteq> c) rs)" for rs
    using assms(2) by (simp add: addresses_of_def) (metis (mono_tags, lifting))
  then show ?thesis using assms(1) by metis
qed

lemma disjoint_sub: "A \<inter> B = {} \<Longrightarrow> C \<subseteq> B \<Longrightarrow> A \<inter> C = {}"
  by blast

lemma book_is_stored:
  assumes wf: "wf_addresses limit rows" and load: "load_book c limit db rows = Inr b"
    and run: "res_fold book_step b evs = Inr b'"
    and new: "distinct (added_ids evs)" "set (added_ids evs) \<inter> row_id ` set rows = {}"
  shows "\<exists>rows'. save_book b' rows = Inr rows' \<and> wf_addresses limit rows' \<and> set (addresses_of c rows') = set (bk_items b')
    \<and> (\<forall>d. d \<noteq> c \<longrightarrow> addresses_of d rows' = addresses_of d rows)"
proof -
  note l = loaded_tracks [OF wf load]
  from wf have ids: "distinct (map row_id rows)" and one: "one_default rows"
    and fmt: "\<And>r. r \<in> set rows \<Longrightarrow> address_format (snd r)" and len: "\<And>d. length (addresses_of d rows) \<le> limit"
    by (simp_all add: wf_addresses_def list_all_iff)
  have mine: "ad_id ` set (addresses_of c rows) \<subseteq> row_id ` set rows" by (auto simp: addresses_of_def)
  have apart: "set (added_ids evs) \<inter> (ad_id ` set (addresses_of c rows) \<union> ad_id ` set (bk_items b) \<union> set (bk_removed b)) = {}"
    unfolding l(4,5) using disjoint_sub [OF new(2) mine] by simp
  from book_run_tracks [OF run l(1) new(1) apart] l have t: "tracks (addresses_of c rows) b'" and c: "bk_customer b' = c"
    and items: "ad_id ` set (bk_items b') \<subseteq> ad_id ` set (addresses_of c rows) \<union> set (added_ids evs)"
    and lim: "length (bk_items b') \<le> limit" using len [of c] by simp_all
  have "fst r = bk_customer b'" if "a \<in> set (bk_items b')" "r \<in> set rows" "row_id r = ad_id a" for a r
  proof -
    have "ad_id a \<notin> set (added_ids evs)" using new(2) that(2,3) by (metis IntI empty_iff imageI)
    with items that(1) have "ad_id a \<in> ad_id ` set (addresses_of c rows)" by blast
    then obtain x where x: "x \<in> set (addresses_of c rows)" "ad_id a = ad_id x" by (elim imageE)
    then have "(c, x) \<in> set rows" by (simp add: set_addresses_of)
    with same_key [OF ids that(2), of "(c, x)"] that(3) x(2) show ?thesis by (simp add: c)
  qed
  with save_book_stores [OF ids one t [folded c]] obtain rows' where s: "save_book b' rows = Inr rows'"
    and d: "distinct (map row_id rows')" and o: "one_default rows'"
    and mine': "set (addresses_of c rows') = set (bk_items b')"
    and f: "filter (\<lambda>r. fst r \<noteq> c) rows' = filter (\<lambda>r. fst r \<noteq> c) rows" unfolding c by blast
  have "address_format (snd r)" if "r \<in> set rows'" for r
  proof (cases "fst r = c")
    case True
    then have "snd r \<in> set (addresses_of c rows')" using that by (auto simp: addresses_of_def)
    then have "snd r \<in> set (bk_items b')" by (simp add: mine')
    then show ?thesis using tracksD(3) [OF t] by blast
  next
    case False
    with that have "r \<in> set (filter (\<lambda>r. fst r \<noteq> c) rows')" by simp
    then show ?thesis unfolding f using fmt by simp
  qed
  moreover have "length (addresses_of x rows') \<le> limit" for x
  proof (cases "x = c")
    case True
    have "length (addresses_of c rows') = card (set (addresses_of c rows'))"
      using addresses_of_distinct [OF d, of c] by (simp add: distinct_map distinct_card)
    also have "\<dots> \<le> length (bk_items b')" unfolding mine' by (rule card_length)
    finally show ?thesis using lim True by simp
  qed (use other_addresses [OF f] len in simp)
  ultimately have "wf_addresses limit rows'" using d o by (simp add: wf_addresses_def list_all_iff)
  then show ?thesis using s mine' other_addresses [OF f] by blast
qed

text \<open>Each use case saves a book to which one thing was done.\<close>

lemma use_cases_save:
  "add_address geo limit c i f d now db rows = Inr rows' \<Longrightarrow>
     \<exists>b b'. load_book c limit db rows = Inr b \<and> res_fold book_step b [AddEntry i f d now] = Inr b' \<and> save_book b' rows = Inr rows'"
  "update_address geo limit c i ch md db rows = Inr rows' \<Longrightarrow>
     \<exists>b b'. load_book c limit db rows = Inr b \<and> res_fold book_step b [UpdateEntry i ch md] = Inr b' \<and> save_book b' rows = Inr rows'"
  "remove_address limit c i db rows = Inr rows' \<Longrightarrow>
     \<exists>b b'. load_book c limit db rows = Inr b \<and> res_fold book_step b [RemoveEntry i] = Inr b' \<and> save_book b' rows = Inr rows'"
  by (auto simp: add_address_def update_address_def remove_address_def res_bind_eq_Inr Let_def)

lemma use_cases_keep:
  assumes wf: "wf_addresses limit rows"
  shows "add_address geo limit c i f d now db rows = Inr rows' \<Longrightarrow> i \<notin> row_id ` set rows \<Longrightarrow> wf_addresses limit rows'"
    and "update_address geo limit c i ch md db rows = Inr rows' \<Longrightarrow> wf_addresses limit rows'"
    and "remove_address limit c i db rows = Inr rows' \<Longrightarrow> wf_addresses limit rows'"
proof -
  have saved: "wf_addresses limit rows'"
    if "\<exists>b b'. load_book c limit db rows = Inr b \<and> res_fold book_step b [ev] = Inr b' \<and> save_book b' rows = Inr rows'"
      and new: "set (added_ids [ev]) \<inter> row_id ` set rows = {}" for ev
  proof -
    from that(1) obtain b b' where l: "load_book c limit db rows = Inr b" and r: "res_fold book_step b [ev] = Inr b'"
      and s: "save_book b' rows = Inr rows'" by blast
    have "distinct (added_ids [ev])" by (cases ev) simp_all
    from book_is_stored [OF wf l r this new] s show ?thesis by auto
  qed
  show "wf_addresses limit rows'" if "add_address geo limit c i f d now db rows = Inr rows'" "i \<notin> row_id ` set rows"
    by (rule saved [OF use_cases_save(1) [OF that(1)]]) (use that(2) in simp)
  show "wf_addresses limit rows'" if "update_address geo limit c i ch md db rows = Inr rows'"
    by (rule saved [OF use_cases_save(2) [OF that]]) simp
  show "wf_addresses limit rows'" if "remove_address limit c i db rows = Inr rows'"
    by (rule saved [OF use_cases_save(3) [OF that]]) simp
qed

lemma forgetting_keeps: "wf_addresses limit rows \<Longrightarrow> wf_addresses limit (delete_addresses_of c rows)"
proof -
  assume wf: "wf_addresses limit rows"
  then have ids: "distinct (map row_id rows)" by (simp add: wf_addresses_def)
  then have ids': "distinct (map row_id (delete_addresses_of c rows))" by (simp add: delete_addresses_of_def distinct_map_filter)
  have "length (addresses_of d (delete_addresses_of c rows)) \<le> length (addresses_of d rows)" for d
    unfolding addresses_of_def delete_addresses_of_def by (induction rows) auto
  moreover have "one_default (delete_addresses_of c rows)"
    using wf by (simp add: one_default_iff [OF ids'] one_default_iff [OF ids] wf_addresses_def)
      (auto simp: delete_addresses_of_def)
  ultimately show ?thesis using wf ids' unfolding wf_addresses_def
    by (auto simp: delete_addresses_of_def list_all_iff intro: order_trans)
qed

end
