(* ===== verification/IdentityGuarantees.thy ===== *)
theory IdentityGuarantees
  imports SavedAsRead Privileges SessionsEnd AddressesOk
begin

text \<open>
  What can be relied on of identity and access: its tables stay well formed and a superadmin remains, however operations
  overlap; an account is never saved over a change it did not see; nobody gains what the members of the staff that asked
  for it did not hold; what ended a session or used a link ended it for good; an address book is stored whole; and what
  an overlap can leave behind.
\<close>

section \<open>A small staff\<close>

definition small_ports :: identity_ports where
  "small_ports = \<lparr>ip_unicode = \<lparr>un_nfkc = map of_char, un_printable = (\<lambda>c. 32 < c \<and> c < 127), un_lower = (\<lambda>cs. cs)\<rparr>,
     ip_common = (\<lambda>key. False), ip_verify = (\<lambda>password hash. hash = Some password), ip_digest = (\<lambda>token. token),
     ip_refresh_ttl = 3600, ip_verification_ttl = 3600, ip_reset_ttl = 3600, ip_token_days = 30\<rparr>"

definition small_user :: "id \<Rightarrow> user_type \<Rightarrow> string \<Rightarrow> id list \<Rightarrow> user" where
  "small_user i ty email rs =
     \<lparr>us_id = i, us_type = ty, us_status = ACTIVE, us_email = Some email, us_first_names = Some ''Ana'',
      us_last_names = Some ''Paz'', us_email_verified_at = None, us_password_hash = Some ''old password of ana'',
      us_password_changed_at = None, us_must_change_password = False, us_last_login_at = None, us_suspended_at = None,
      us_anonymized_at = None, us_privacy_notice = None, us_created_at = 0, us_roles = rs, us_version = 1\<rparr>"

definition small_role :: "id \<Rightarrow> string \<Rightarrow> bool \<Rightarrow> string list \<Rightarrow> role" where
  "small_role i name superadmin codes =
     \<lparr>ro_id = i, ro_name = name, ro_description = None, ro_superadmin = superadmin, ro_permissions = codes,
      ro_version = 1\<rparr>"

definition small_staff :: identity where
  "small_staff = \<lparr>id_accounts = map new_account
       [small_user 10 STAFF ''root@x.mx'' [3], small_user 11 STAFF ''boss@x.mx'' [8],
        small_user 12 STAFF ''sale@x.mx'' [7], small_user 13 STAFF ''nina@x.mx'' [3], small_user 20 CUSTOMER ''ana@x.mx'' []],
     id_roles = [small_role 3 ''Superadmin'' True [], small_role 7 ''Sales'' False [''orders.read''],
       small_role 8 ''Staff'' False [''staff.manage'', ''catalog.read'']],
     id_tokens = [], id_verifications = [], id_resets = []\<rparr>"

lemma small_user_wf:
  "email_form email \<Longrightarrow> (ty = STAFF \<longleftrightarrow> rs \<noteq> []) \<Longrightarrow> distinct rs \<Longrightarrow> wf_user (new_account (small_user i ty email rs))"
  by (simp add: wf_user_def new_account_def small_user_def)

lemma small_emails:
  "email_form ''root@x.mx''" "email_form ''boss@x.mx''" "email_form ''sale@x.mx''" "email_form ''nina@x.mx''"
  "email_form ''ana@x.mx''"
  by code_simp+

lemma small_staff_wf: "wf_identity small_staff"
proof -
  have "list_all wf_user (id_accounts small_staff)" by (simp add: small_staff_def small_user_wf small_emails)
  moreover have "distinct (map us_id (id_accounts small_staff))" by code_simp
  moreover have "distinct (map us_email (filter (\<lambda>a. us_email a \<noteq> None) (id_accounts small_staff)))" by code_simp
  moreover have "list_all (\<lambda>a. roles_exist (us_roles a) small_staff) (id_accounts small_staff)" by code_simp
  moreover have "wf_roles small_staff" by code_simp
  moreover have "wf_sessions (id_tokens small_staff) \<and> wf_links (id_verifications small_staff) \<and> wf_links (id_resets small_staff)"
    by code_simp
  ultimately show ?thesis by (simp add: wf_identity_def wf_accounts_def)
qed

text \<open>Operations one after the other, each with how many of those before it its reading missed.\<close>

fun play :: "identity_ports \<Rightarrow> identity list \<Rightarrow> (nat \<times> identity_event) list \<Rightarrow> identity list result" where
  "play P h [] = Inr h"
| "play P h ((k, ev) # evs) =
     (if k < length h \<and> (edits_role ev \<longrightarrow> k = 0) \<and> fresh_ids ev (hd h)
      then res_bind (identity_step P (h ! k) (hd h) ev) (\<lambda>db'. play P (db' # h) evs)
      else Inl (PlainError []))"

lemma play_goes_on_after:
  "play P h' evs = Inr h'' \<Longrightarrow> identity_goes_on P h done' h' \<Longrightarrow> identity_goes_on P h (done' @ map snd evs) h''"
proof (induction P h' evs arbitrary: done' rule: play.induct)
  case (2 P h' k ev evs)
  then obtain db' where k: "k < length h'" "edits_role ev \<longrightarrow> k = 0" "fresh_ids ev (hd h')"
    and s: "identity_step P (h' ! k) (hd h') ev = Inr db'" and p: "play P (db' # h') evs = Inr h''"
    by (auto simp: res_bind_eq_Inr split: if_splits)
  then obtain db past where h': "h' = db # past" by (cases h') auto
  with k s 2(3) have "identity_goes_on P h (done' @ [ev]) (db' # h')"
    using identity_goes_on.on [of P h done' db past "h' ! k" ev db'] nth_mem [OF k(1)] by (auto simp: nth_Cons')
  from 2(1) [OF _ p this] k show ?case by simp
qed simp

lemma play_goes_on: "play P h evs = Inr h' \<Longrightarrow> identity_goes_on P h (map snd evs) h'"
  using play_goes_on_after [OF _ identity_goes_on.still] by simp

lemma small_history: "play small_ports [small_staff] evs = Inr h \<Longrightarrow> identity_history small_ports h"
  by (rule goes_on_history [OF play_goes_on identity_history.first [OF small_staff_wf]])

text \<open>A run from the small staff, with what is to be seen at its end.\<close>

lemma small_run:
  assumes "returned (\<lambda>h. case h of db # past \<Rightarrow> p db past | [] \<Rightarrow> False) (play small_ports [small_staff] evs)"
  shows "\<exists>db past. play small_ports [small_staff] evs = Inr (db # past) \<and> p db past"
proof -
  from returnedD [OF assms] obtain h where "play small_ports [small_staff] evs = Inr h"
    and "case h of db # past \<Rightarrow> p db past | [] \<Rightarrow> False" by blast
  then show ?thesis by (cases h) auto
qed

section \<open>The tables\<close>



text \<open>
  C10. A superadmin remains: once an active member of the staff holds the superadmin role, one does after every
  operation, even when two of them that overlap each take the role or the account of a superadmin away.
\<close>

theorem a_superadmin_remains:
  assumes "identity_history P h" and "has_active_superadmin (last h)"
  shows "has_active_superadmin (hd h)"
  by (rule superadmin_stays [OF assms])

text \<open>Two superadmins suspend each other, each having read before the other did: only the first one is.\<close>

theorem a_superadmin_remains_witness:
  "\<exists>db. identity_history small_ports [db, small_staff] \<and> has_active_superadmin db
     \<and> identity_step small_ports small_staff db (SuspendStaff 13 10 1 100) = Inl (IdentityError LastSuperadminError)"
proof -
  let ?evs = "[(0, SuspendStaff 10 13 1 100)]"
  have "returned (\<lambda>h. case h of db # past \<Rightarrow> identity_step small_ports small_staff db (SuspendStaff 13 10 1 100)
      = Inl (IdentityError LastSuperadminError) | [] \<Rightarrow> False) (play small_ports [small_staff] ?evs)" by code_simp
  from small_run [OF this] obtain db past where p: "play small_ports [small_staff] ?evs = Inr (db # past)"
    and l: "identity_step small_ports small_staff db (SuspendStaff 13 10 1 100) = Inl (IdentityError LastSuperadminError)"
    by blast
  from p have past: "past = [small_staff]" by (auto simp: res_bind_eq_Inr split: if_splits)
  have "has_active_superadmin small_staff" by code_simp
  with a_superadmin_remains [OF small_history [OF p]] have "has_active_superadmin db" by (simp add: past)
  with small_history [OF p] l show ?thesis by (auto simp: past)
qed

text \<open>
  C17. An account is never saved over a change it did not see: an operation that saves the account it read at some
  moment of the history, and returns, either changed nothing or left the tables that it would have left had it read
  them at the end.
\<close>

theorem saved_as_if_read_now:
  assumes "identity_history P (db # past)" and "rd \<in> set (db # past)" and "saves_account ev"
    and "identity_step P rd db ev = Inr db'"
  shows "db' = db \<or> identity_step P db db ev = Inr db'"
  using step_as_read_now [OF assms(4,3)] history_sound [OF assms(1)] assms(2) by auto

text \<open>A suspension that read the account before it signed in; one that read it before its names changed is refused.\<close>

theorem saved_as_if_read_now_witness:
  "\<exists>db db'. identity_history small_ports [db, small_staff] \<and> db \<noteq> small_staff
     \<and> identity_step small_ports small_staff db (SuspendCustomer 20 1 200) = Inr db'
     \<and> (db' = db \<or> identity_step small_ports db db (SuspendCustomer 20 1 200) = Inr db')"
proof -
  let ?evs = "[(0, SignIn ''ana@x.mx'' ''old password of ana'' 30 40 ''t'' 100)]"
  have "returned (\<lambda>h. case h of db # past \<Rightarrow> id_tokens db \<noteq> []
      \<and> returns (identity_step small_ports small_staff db (SuspendCustomer 20 1 200)) | [] \<Rightarrow> False)
      (play small_ports [small_staff] ?evs)" by code_simp
  from small_run [OF this] obtain db past where p: "play small_ports [small_staff] ?evs = Inr (db # past)"
    and l: "id_tokens db \<noteq> []" and "returns (identity_step small_ports small_staff db (SuspendCustomer 20 1 200))"
    by blast
  then obtain db' where s: "identity_step small_ports small_staff db (SuspendCustomer 20 1 200) = Inr db'"
    by (auto simp: returns_iff)
  from p have past: "past = [small_staff]" by (auto simp: res_bind_eq_Inr split: if_splits)
  have h: "identity_history small_ports [db, small_staff]" using small_history [OF p] by (simp add: past)
  have "db \<noteq> small_staff" using l by (auto simp: small_staff_def)
  with h s saved_as_if_read_now [OF h _ _ s] show ?thesis by auto
qed

section \<open>What the staff gives\<close>

text \<open>
  C11. Nobody gains what nobody had to give: after any operations asked for by the members of a group of the staff, or
  by nobody of the staff, what an account may do is what it could do before or what a member of that group could.
\<close>

theorem nobody_gains_beyond_the_group:
  assumes "identity_run P db evs db'" and "wf_identity db" and "list_all (asked_in members) evs"
  shows "set (powers i db') \<subseteq> set (powers i db) \<union> set (group_powers members db)"
  by (rule run_group_powers [OF assms])

text \<open>A role that may read the catalog, made and given by who may; giving themselves the role of sales is refused.\<close>

theorem nobody_gains_beyond_the_group_witness:
  "\<exists>db'. identity_run small_ports small_staff
       [CreateRole 11 9 ''Readers'' None [''catalog.read''], ReplaceStaffRoles 11 12 [7, 9] 1] db'
     \<and> set (powers 12 db') \<subseteq> set (powers 12 small_staff) \<union> set (group_powers [11] small_staff)
     \<and> Permission ''catalog.read'' \<in> set (powers 12 db') - set (powers 12 small_staff)"
proof -
  let ?make = "CreateRole 11 9 ''Readers'' None [''catalog.read'']" and ?give = "ReplaceStaffRoles 11 12 [7, 9] 1"
  have "returned (\<lambda>db. returned (\<lambda>db'. list_ex (\<lambda>p. p = Permission ''catalog.read'') (powers 12 db'))
      (identity_step small_ports db db ?give)) (identity_step small_ports small_staff small_staff ?make)" by code_simp
  from returnedD [OF this] obtain db where m: "identity_step small_ports small_staff small_staff ?make = Inr db"
    and "returned (\<lambda>db'. list_ex (\<lambda>p. p = Permission ''catalog.read'') (powers 12 db')) (identity_step small_ports db db ?give)"
    by blast
  from returnedD [OF this(2)] obtain db' where g: "identity_step small_ports db db ?give = Inr db'"
    and has: "Permission ''catalog.read'' \<in> set (powers 12 db')" by (auto simp: list_ex_iff)
  have "fresh_ids ?make small_staff" by code_simp
  from identity_run.one_more [OF identity_run.nothing this m] have "identity_run small_ports small_staff [?make] db" by simp
  from identity_run.one_more [OF this _ g] have r: "identity_run small_ports small_staff [?make, ?give] db'" by simp
  have "\<not> list_ex (\<lambda>p. p = Permission ''catalog.read'') (powers 12 small_staff)" by code_simp
  moreover have "list_all (asked_in [11]) [?make, ?give]" by (simp add: asked_in_def)
  ultimately show ?thesis using r has nobody_gains_beyond_the_group [OF r small_staff_wf, of "[11]" 12]
    by (auto simp: list_ex_iff)
qed

section \<open>Sessions and links\<close>

text \<open>
  C19. Presenting a token that was already rotated ends its session for good, for who stole it and for who lost it:
  nobody is signed in to the session again, whatever happens and at any later time, unless a new one gets its
  identifier.
\<close>

theorem reused_token_ends_its_session:
  assumes "find_refresh_token (ip_digest P t) (id_tokens db) = Some k" and "rt_replaced_by k \<noteq> None"
    and "refresh_session P t i n now rd db = Inr (r, db1)" and "identity_goes_on P (db1 # db # past) evs (db2 # past2)"
    and "list_all (\<lambda>ev. \<not> starts_session (rt_session k) ev) evs"
  shows "resolve_signed_in_account u (rt_session k) later db2 = None"
  using goes_on_over [OF assms(4) _ assms(5)] reuse_step(1) [OF assms(3,1,2)] over_not_signed_in by simp

text \<open>The session 40 is renewed with \<open>a\<close> and then with \<open>a\<close> again; the token \<open>b\<close> of the first renewal is no good after that.\<close>

theorem reused_token_ends_its_session_witness:
  "\<exists>db db1 db2. resolve_signed_in_account 20 40 250 db \<noteq> None
     \<and> refresh_session small_ports ''a'' 32 ''c'' 300 db db = Inr (RefreshInvalid, db1)
     \<and> identity_step small_ports db1 db1 (RefreshSession ''b'' 33 ''d'' 400) = Inr db2
     \<and> resolve_signed_in_account 20 40 500 db2 = None"
proof -
  let ?evs = "[(0, SignIn ''ana@x.mx'' ''old password of ana'' 30 40 ''a'' 100), (0, RefreshSession ''a'' 31 ''b'' 200)]"
  have "returned (\<lambda>h. case h of db # past \<Rightarrow> resolve_signed_in_account 20 40 250 db \<noteq> None
      \<and> (case find_refresh_token ''a'' (id_tokens db) of Some k \<Rightarrow> rt_replaced_by k \<noteq> None \<and> rt_session k = 40 | None \<Rightarrow> False)
      \<and> returned (\<lambda>(r, db1). r = RefreshInvalid \<and> returns (identity_step small_ports db1 db1 (RefreshSession ''b'' 33 ''d'' 400)))
          (refresh_session small_ports ''a'' 32 ''c'' 300 db db) | [] \<Rightarrow> False)
      (play small_ports [small_staff] ?evs)" by code_simp
  from small_run [OF this] obtain db where a: "resolve_signed_in_account 20 40 250 db \<noteq> None"
    and c: "case find_refresh_token ''a'' (id_tokens db) of Some k \<Rightarrow> rt_replaced_by k \<noteq> None \<and> rt_session k = 40 | None \<Rightarrow> False"
    and again: "returned (\<lambda>(r, db1). r = RefreshInvalid \<and> returns (identity_step small_ports db1 db1 (RefreshSession ''b'' 33 ''d'' 400)))
      (refresh_session small_ports ''a'' 32 ''c'' 300 db db)" by blast
  from c obtain k where k: "find_refresh_token ''a'' (id_tokens db) = Some k" "rt_replaced_by k \<noteq> None" "rt_session k = 40"
    by (cases "find_refresh_token ''a'' (id_tokens db)") auto
  from returnedD [OF again] obtain db1 db2 where r: "refresh_session small_ports ''a'' 32 ''c'' 300 db db = Inr (RefreshInvalid, db1)"
    and s: "identity_step small_ports db1 db1 (RefreshSession ''b'' 33 ''d'' 400) = Inr db2" by (auto simp: returns_iff)
  have k': "find_refresh_token (ip_digest small_ports ''a'') (id_tokens db) = Some k" using k(1) by (simp add: small_ports_def)
  from identity_goes_on.on [OF identity_goes_on.still, of db1 db1 "[db]" _ small_ports db2] s
  have "identity_goes_on small_ports [db1, db] [RefreshSession ''b'' 33 ''d'' 400] [db2, db1, db]" by simp
  from reused_token_ends_its_session [OF k' k(2) r this, of 20 500] k(3)
  have "resolve_signed_in_account 20 40 500 db2 = None" by simp
  with a r s show ?thesis by blast
qed

text \<open>
  C18. Suspending, anonymizing or recovering an account ends every session it has, for good: who was signed in to it
  through a session never is again through that session, whatever happens and at any later time, even once the account
  is reactivated.
\<close>

theorem ended_sessions_stay_ended:
  assumes "identity_history P (db # past)" and "resolve_signed_in_account u s now db \<noteq> None"
    and "identity_step P rd db ev = Inr db1" and "ends_sessions_of P ev db = Some u"
    and "identity_goes_on P (db1 # db # past) evs (db2 # past2)" and "list_all (\<lambda>e. \<not> starts_session s e) evs"
  shows "resolve_signed_in_account u s later db2 = None"
proof -
  from history_sound [OF assms(1)] have "wf_sessions (id_tokens db)" by (simp add: wf_identity_def)
  moreover from assms(2) signed_inD have "session_is_active s u now (id_tokens db)" by fastforce
  ultimately have "session_over s (id_tokens db1)" using ending_step [OF assms(3) _ assms(4)] by blast
  then show ?thesis using goes_on_over [OF assms(5) _ assms(6)] over_not_signed_in by simp
qed

theorem ended_sessions_stay_ended_witness:
  "\<exists>db db1 db2. resolve_signed_in_account 20 40 150 db \<noteq> None
     \<and> identity_step small_ports db db (SuspendCustomer 20 1 200) = Inr db1
     \<and> identity_step small_ports db1 db1 (ReactivateCustomerAccount 20 2) = Inr db2
     \<and> resolve_signed_in_account 20 40 300 db2 = None"
proof -
  let ?evs = "[(0, SignIn ''ana@x.mx'' ''old password of ana'' 30 40 ''a'' 100)]"
  have "returned (\<lambda>h. case h of db # past \<Rightarrow> resolve_signed_in_account 20 40 150 db \<noteq> None
      \<and> returned (\<lambda>db1. returns (identity_step small_ports db1 db1 (ReactivateCustomerAccount 20 2)))
          (identity_step small_ports db db (SuspendCustomer 20 1 200)) | [] \<Rightarrow> False)
      (play small_ports [small_staff] ?evs)" by code_simp
  from small_run [OF this] obtain db past where p: "play small_ports [small_staff] ?evs = Inr (db # past)"
    and a: "resolve_signed_in_account 20 40 150 db \<noteq> None"
    and "returned (\<lambda>db1. returns (identity_step small_ports db1 db1 (ReactivateCustomerAccount 20 2)))
          (identity_step small_ports db db (SuspendCustomer 20 1 200))" by blast
  from returnedD [OF this(3)] obtain db1 db2 where s: "identity_step small_ports db db (SuspendCustomer 20 1 200) = Inr db1"
    and r: "identity_step small_ports db1 db1 (ReactivateCustomerAccount 20 2) = Inr db2" by (auto simp: returns_iff)
  from identity_goes_on.on [OF identity_goes_on.still, of db1 db1 "db # past" _ small_ports db2] r
  have "identity_goes_on small_ports (db1 # db # past) [ReactivateCustomerAccount 20 2] (db2 # db1 # db # past)" by simp
  from ended_sessions_stay_ended [OF small_history [OF p] a s _ this, of 300]
  have "resolve_signed_in_account 20 40 300 db2 = None" by simp
  with a s r show ?thesis by blast
qed

text \<open>
  C40. The link of a recovery works once: after it set a password it is refused, whatever happens and at any later time,
  unless its token is drawn again.
\<close>

theorem recovery_link_works_once:
  assumes "identity_history P (db # past)" and "reset_password P t n h now rd db = Inr db1"
    and "identity_goes_on P (db1 # db # past) evs (db2 # past2)" and "list_all (\<lambda>e. \<not> draws_reset P (ip_digest P t) e) evs"
  shows "reset_password P t n2 h2 later rd2 db2 = Inl InvalidOrExpiredTokenError"
proof -
  from history_sound [OF assms(1)] have "wf_links (id_resets db)" by (simp add: wf_identity_def)
  with recovery_step [OF assms(2)] have "link_over (ip_digest P t) (id_resets db1)" by blast
  with goes_on_link_over [OF assms(3) _ assms(4)] have "link_over (ip_digest P t) (id_resets db2)" by simp
  then show ?thesis by (rule over_link_refused)
qed

theorem recovery_link_works_once_witness:
  "\<exists>db db1. reset_password small_ports ''r'' ''a new long password'' ''hash'' 200 db db = Inr db1
     \<and> reset_password small_ports ''r'' ''a newer long password'' ''hash2'' 300 db1 db1 = Inl InvalidOrExpiredTokenError"
proof -
  let ?evs = "[(0, RequestPasswordReset ''ana@x.mx'' 50 ''r'' 100)]"
  have "returned (\<lambda>h. case h of db # past \<Rightarrow>
      returns (reset_password small_ports ''r'' ''a new long password'' ''hash'' 200 db db) | [] \<Rightarrow> False)
      (play small_ports [small_staff] ?evs)" by code_simp
  from small_run [OF this] obtain db past where p: "play small_ports [small_staff] ?evs = Inr (db # past)"
    and "returns (reset_password small_ports ''r'' ''a new long password'' ''hash'' 200 db db)" by blast
  then obtain db1 where s: "reset_password small_ports ''r'' ''a new long password'' ''hash'' 200 db db = Inr db1"
    by (auto simp: returns_iff)
  from recovery_link_works_once [OF small_history [OF p] s identity_goes_on.still]
  have "reset_password small_ports ''r'' ''a newer long password'' ''hash2'' 300 db1 db1 = Inl InvalidOrExpiredTokenError"
    by simp
  with s show ?thesis by blast
qed

section \<open>Passwords\<close>

text \<open>
  A temporary password is accepted by the rules of the passwords that people choose, whatever is drawn, unless the
  list of common passwords has it; so making a member of the staff never fails by its drawing alone.
\<close>

lemma temporary_passwords_are_accepted:
  assumes "ascii_stays U" and "\<And>g i. draw g i < 32"
  shows "issue_temporary_password U common hash draw =
    (if common (common_password_key U (new_temporary_password draw))
     then Inl (IdentityError (PasswordPolicyViolationError CommonPassword ''temporaryPassword''))
     else Inr (new_temporary_password draw, hash (new_temporary_password draw)))"
  using temporary_shape [OF assms(1), of draw] assms(2)
  by (simp add: issue_temporary_password_def assert_acceptable_def Let_def)

lemma small_unicode: "ascii_stays (ip_unicode small_ports)"
  by (simp add: ascii_stays_def small_ports_def ascii_printable_def)

lemma a_temporary_password:
  "issue_temporary_password (ip_unicode small_ports) (\<lambda>key. False) (\<lambda>p. p) (\<lambda>g i. (7 * g + i) mod 32) =
     Inr (''abcd-hijk-qrst-xyz2-6789'', ''abcd-hijk-qrst-xyz2-6789'')"
proof -
  have "new_temporary_password (\<lambda>g i. (7 * g + i) mod 32) = ''abcd-hijk-qrst-xyz2-6789''" by code_simp
  then show ?thesis
    using temporary_passwords_are_accepted [OF small_unicode, of "\<lambda>g i. (7 * g + i) mod 32" "\<lambda>key. False" "\<lambda>p. p"] by simp
qed

section \<open>Saved addresses\<close>

definition small_fields :: address_fields where
  "small_fields = \<lparr>af_recipient = ''Ana'', af_phone = ''5512345678'', af_street = ''Sur'', af_exterior = ''4'',
     af_interior = None, af_neighborhood = ''Centro'', af_postal_code = ''06000'', af_state = ''09'',
     af_municipality = ''09015'', af_city = None, af_references = None\<rparr>"

definition small_rows :: addresses where
  "small_rows = [(20, new_address 3 small_fields True 0), (20, new_address 4 small_fields False 0)]"

definition nothing_else :: address_changes where
  "nothing_else = \<lparr>ch_recipient = None, ch_phone = None, ch_street = None, ch_exterior = None, ch_interior = None,
     ch_neighborhood = None, ch_postal_code = None, ch_state = None, ch_municipality = None, ch_city = None,
     ch_references = None\<rparr>"

text \<open>
  C36. Saving an address book always works and stores it whole: whatever was added to it, changed and removed since it
  was read, no statement meets the index that allows one default for each customer, the rows of the customer end up
  being the addresses of the book, and those of the other customers stay as they were.
\<close>

theorem address_book_is_stored_whole:
  assumes "wf_addresses limit rows" and "load_book c limit db rows = Inr b" and "res_fold book_step b evs = Inr b'"
    and "distinct (added_ids evs)" and "set (added_ids evs) \<inter> row_id ` set rows = {}"
  shows "\<exists>rows'. save_book b' rows = Inr rows' \<and> wf_addresses limit rows' \<and> set (addresses_of c rows') = set (bk_items b')
    \<and> (\<forall>d. d \<noteq> c \<longrightarrow> addresses_of d rows' = addresses_of d rows)"
  by (rule book_is_stored [OF assms])

text \<open>The other address becomes the default: the first one is written before it.\<close>

theorem address_book_is_stored_whole_witness:
  "\<exists>b b' rows'. load_book 20 5 small_staff small_rows = Inr b
     \<and> book_update 4 nothing_else (Some True) b = Inr b' \<and> save_book b' small_rows = Inr rows'
     \<and> set (addresses_of 20 rows') = set (bk_items b') \<and> map ad_default (bk_items b') = [False, True]"
proof -
  have "returned (\<lambda>b. returned (\<lambda>b'. map ad_default (bk_items b') = [False, True]) (book_update 4 nothing_else (Some True) b))
    (load_book 20 5 small_staff small_rows)" by code_simp
  from returnedD [OF this] obtain b where l: "load_book 20 5 small_staff small_rows = Inr b"
    and "returned (\<lambda>b'. map ad_default (bk_items b') = [False, True]) (book_update 4 nothing_else (Some True) b)"
    by (elim exE conjE) (rule that)
  from returnedD [OF this(2)] obtain b' where u: "book_update 4 nothing_else (Some True) b = Inr b'"
    and d: "map ad_default (bk_items b') = [False, True]" by (elim exE conjE) (rule that)
  have "distinct (map row_id small_rows) \<and> one_default small_rows \<and> list_all (\<lambda>r. address_format (snd r)) small_rows"
    by code_simp
  moreover have "length (addresses_of c small_rows) \<le> 5" for c by (simp add: addresses_of_def small_rows_def)
  ultimately have wf: "wf_addresses 5 small_rows" by (simp add: wf_addresses_def)
  from u have r: "res_fold book_step b [UpdateEntry 4 nothing_else (Some True)] = Inr b'" by simp
  from address_book_is_stored_whole [OF wf l r] obtain rows' where s: "save_book b' small_rows = Inr rows'"
    and i: "set (addresses_of 20 rows') = set (bk_items b')" by auto
  show ?thesis by (rule exI [of _ b], rule exI [of _ b'], rule exI [of _ rows']) (intro conjI l u s i d)
qed

section \<open>What an overlap leaves\<close>

text \<open>
  A sign-in looks at the password before its transaction. One that did so before the password was recovered starts its
  session after the recovery ended those of the account: who knew the old password stays signed in.
\<close>

lemma late_sign_in:
  assumes f: "find_account_by_email (normalize_email e) rd = Some u" "ip_verify P pw (us_password_hash u)" "can_sign_in u"
    and new: "i \<notin> rt_id ` set (id_tokens db)" "ip_digest P t \<notin> rt_hash ` set (id_tokens db)"
    and old: "us_id u \<in> us_id ` set (id_accounts db)" and ttl: "0 < ip_refresh_ttl P"
  shows "\<exists>db'. sign_in P e pw i s t now rd db = Inr (Authenticated (us_id u) (us_must_change_password u), db')
    \<and> session_is_active s (us_id u) now (id_tokens db')"
proof -
  let ?t = "new_refresh_token P i t (us_id u) s now"
  have a: "add_refresh_token ?t (id_tokens db) = Inr (id_tokens db @ [?t])"
    using new by (auto simp: add_refresh_token_def new_refresh_token_def list_ex_iff image_iff)
  show ?thesis using f old ttl
    by (simp add: sign_in_def a record_sign_in_def session_is_active_def) (simp add: new_refresh_token_def)
qed

text \<open>The same for a role: one read before it was deleted and written after it is there again.\<close>

lemma deleted_role_comes_back:
  "returned (\<lambda>db. returned (\<lambda>db'. list_ex (\<lambda>r. ro_id r = 9) (id_roles db) \<and> \<not> list_ex (\<lambda>r. ro_id r = 9) (id_roles db')
      \<and> returned (\<lambda>db''. list_ex (\<lambda>r. ro_id r = 9) (id_roles db''))
          (update_role 10 9 (Some ''Reader'') None None 1 db db')) (delete_role 9 db db))
    (create_role 11 9 ''Readers'' None [''catalog.read''] small_staff)"
  by code_simp

end
