(* ===== verification/WorkOrder.thy ===== *)
theory WorkOrder
  imports Money
begin

text \<open>
  The service note of an equipment left in the store (\<open>work-orders/domain/work-order.ts\<close>). It moves forward from
  its reception, skipping steps or not, until it is delivered, or cancelled with a note; then it takes no more changes
  but the ones that hide and take away the data of its customer.
\<close>

section \<open>Data\<close>

datatype work_order_status = WO_RECEIVED | WO_DIAGNOSED | WO_IN_REPAIR | WO_READY | WO_DELIVERED | WO_CANCELLED

fun work_order_status_name :: "work_order_status \<Rightarrow> string" where
  "work_order_status_name WO_RECEIVED = ''RECEIVED''"
| "work_order_status_name WO_DIAGNOSED = ''DIAGNOSED''"
| "work_order_status_name WO_IN_REPAIR = ''IN_REPAIR''"
| "work_order_status_name WO_READY = ''READY''"
| "work_order_status_name WO_DELIVERED = ''DELIVERED''"
| "work_order_status_name WO_CANCELLED = ''CANCELLED''"

text \<open>The place of a status on the way forward; \<open>indexOf\<close> answers \<open>-1\<close> for one that is not on it.\<close>

fun forward_index :: "work_order_status \<Rightarrow> int" where
  "forward_index WO_RECEIVED = 0"
| "forward_index WO_DIAGNOSED = 1"
| "forward_index WO_IN_REPAIR = 2"
| "forward_index WO_READY = 3"
| "forward_index WO_DELIVERED = 4"
| "forward_index WO_CANCELLED = -1"

definition is_closed :: "work_order_status \<Rightarrow> bool" where
  "is_closed s = (s \<in> {WO_DELIVERED, WO_CANCELLED})"

record work_details =
  wd_customer :: "id option"
  wd_name :: string
  wd_phone :: string
  wd_email :: "string option"
  wd_type :: string
  wd_brand :: "string option"
  wd_model :: "string option"
  wd_serial :: "string option"
  wd_accessories :: "string option"
  wd_condition :: "string option"
  wd_fault :: string
  wd_diagnosis :: "string option"
  wd_work :: "string option"
  wd_estimate :: "money option"
  wd_technician :: "id option"

text \<open>A field that is given, in the outer option, replaces the one it had.\<close>

record work_changes =
  wc_customer :: "id option option"
  wc_name :: "string option"
  wc_phone :: "string option"
  wc_email :: "string option option"
  wc_type :: "string option"
  wc_brand :: "string option option"
  wc_model :: "string option option"
  wc_serial :: "string option option"
  wc_accessories :: "string option option"
  wc_condition :: "string option option"
  wc_fault :: "string option"
  wc_diagnosis :: "string option option"
  wc_work :: "string option option"
  wc_estimate :: "money option option"
  wc_technician :: "id option option"

record linked_sale =
  ls_order :: id
  ls_linked_by :: id
  ls_linked_at :: time

record work_order =
  wo_id :: id
  wo_customer :: "id option"
  wo_name :: "string option"
  wo_phone :: "string option"
  wo_email :: "string option"
  wo_type :: string
  wo_brand :: "string option"
  wo_model :: "string option"
  wo_serial :: "string option"
  wo_accessories :: "string option"
  wo_condition :: "string option"
  wo_fault :: "string option"
  wo_diagnosis :: "string option"
  wo_work :: "string option"
  wo_estimate :: "money option"
  wo_technician :: "id option"
  wo_status :: work_order_status
  wo_warehouse :: id
  wo_received_by :: id
  wo_received_at :: time
  wo_closed_at :: "time option"
  wo_sales :: "linked_sale list"
  wo_blocked_at :: "time option"
  wo_anonymized_at :: "time option"
  wo_version :: int

record work_status_change =
  wsc_from :: "work_order_status option"
  wsc_to :: work_order_status
  wsc_actor :: id
  wsc_note :: "string option"
  wsc_at :: time

text \<open>An instance of the class: its state, and what changed since it was received or read.\<close>

record work_order_entity =
  we_state :: work_order
  we_changes :: "work_status_change list"
  we_linked :: "linked_sale list"
  we_unlinked :: "id list"

definition restore_work_order :: "work_order \<Rightarrow> work_order_entity" where
  "restore_work_order w = \<lparr>we_state = w, we_changes = [], we_linked = [], we_unlinked = []\<rparr>"

section \<open>Rules of the data\<close>

definition required_text :: "string \<Rightarrow> nat \<Rightarrow> string \<Rightarrow> string result" where
  "required_text text max_length problem =
     (let trimmed = js_trim text
      in if length trimmed = 0 \<or> length trimmed > max_length then Inl (InvalidValueError problem) else Inr trimmed)"

definition optional_text :: "string option \<Rightarrow> nat \<Rightarrow> string \<Rightarrow> string option result" where
  "optional_text text max_length problem =
     (let trimmed = (case text of None \<Rightarrow> [] | Some t \<Rightarrow> js_trim t)
      in if length trimmed > max_length then Inl (InvalidValueError problem)
         else Inr (if trimmed = [] then None else Some trimmed))"

definition ten_digits :: "string \<Rightarrow> bool" where
  "ten_digits s = (length s = 10 \<and> list_all (\<lambda>c. 48 \<le> (of_char c :: nat) \<and> (of_char c :: nat) \<le> 57) s)"

definition valid_phone :: "string \<Rightarrow> string result" where
  "valid_phone phone =
     (if \<not> ten_digits phone then Inl (InvalidValueError ''A phone has exactly 10 digits'') else Inr phone)"

definition valid_details :: "work_details \<Rightarrow> work_details result" where
  "valid_details d =
     res_bind (required_text (wd_name d) 120 ''A customer name has 1 to 120 characters'') (\<lambda>name.
     res_bind (valid_phone (wd_phone d)) (\<lambda>phone.
     res_bind (optional_text (wd_email d) 254 ''An email has at most 254 characters'') (\<lambda>email.
     res_bind (required_text (wd_type d) 60 ''An equipment type has 1 to 60 characters'') (\<lambda>type.
     res_bind (optional_text (wd_brand d) 60 ''A brand has at most 60 characters'') (\<lambda>brand.
     res_bind (optional_text (wd_model d) 60 ''A model has at most 60 characters'') (\<lambda>model.
     res_bind (optional_text (wd_serial d) 60 ''A serial number has at most 60 characters'') (\<lambda>serial.
     res_bind (optional_text (wd_accessories d) 500 ''A list of accessories has at most 500 characters'') (\<lambda>accessories.
     res_bind (optional_text (wd_condition d) 1000 ''The condition has at most 1000 characters'') (\<lambda>condition.
     res_bind (required_text (wd_fault d) 2000 ''A reported fault has 1 to 2000 characters'') (\<lambda>fault.
     res_bind (optional_text (wd_diagnosis d) 4000 ''A diagnosis has at most 4000 characters'') (\<lambda>diagnosis.
     res_bind (optional_text (wd_work d) 4000 ''The work performed has at most 4000 characters'') (\<lambda>work.
       Inr \<lparr>wd_customer = wd_customer d, wd_name = name, wd_phone = phone, wd_email = map_option js_lower email,
         wd_type = type, wd_brand = brand, wd_model = model, wd_serial = serial, wd_accessories = accessories,
         wd_condition = condition, wd_fault = fault, wd_diagnosis = diagnosis, wd_work = work,
         wd_estimate = wd_estimate d, wd_technician = wd_technician d\<rparr>))))))))))))"

definition with_details :: "work_details \<Rightarrow> work_order \<Rightarrow> work_order" where
  "with_details d w =
     w\<lparr>wo_customer := wd_customer d, wo_name := Some (wd_name d), wo_phone := Some (wd_phone d), wo_email := wd_email d,
       wo_type := wd_type d, wo_brand := wd_brand d, wo_model := wd_model d, wo_serial := wd_serial d,
       wo_accessories := wd_accessories d, wo_condition := wd_condition d, wo_fault := Some (wd_fault d),
       wo_diagnosis := wd_diagnosis d, wo_work := wd_work d, wo_estimate := wd_estimate d,
       wo_technician := wd_technician d\<rparr>"

text \<open>The data it has, for an edit; one without a name, a phone or a fault has none.\<close>

definition details_of :: "work_order \<Rightarrow> work_details option" where
  "details_of w =
     (case (wo_name w, wo_phone w, wo_fault w) of
        (Some name, Some phone, Some fault) \<Rightarrow>
          Some \<lparr>wd_customer = wo_customer w, wd_name = name, wd_phone = phone, wd_email = wo_email w, wd_type = wo_type w,
            wd_brand = wo_brand w, wd_model = wo_model w, wd_serial = wo_serial w, wd_accessories = wo_accessories w,
            wd_condition = wo_condition w, wd_fault = fault, wd_diagnosis = wo_diagnosis w, wd_work = wo_work w,
            wd_estimate = wo_estimate w, wd_technician = wo_technician w\<rparr>
      | _ \<Rightarrow> None)"

definition given :: "'a option \<Rightarrow> 'a \<Rightarrow> 'a" where
  "given change kept = (case change of None \<Rightarrow> kept | Some x \<Rightarrow> x)"

definition changed_details :: "work_changes \<Rightarrow> work_details \<Rightarrow> work_details" where
  "changed_details c d =
     \<lparr>wd_customer = given (wc_customer c) (wd_customer d), wd_name = given (wc_name c) (wd_name d),
      wd_phone = given (wc_phone c) (wd_phone d), wd_email = given (wc_email c) (wd_email d),
      wd_type = given (wc_type c) (wd_type d), wd_brand = given (wc_brand c) (wd_brand d),
      wd_model = given (wc_model c) (wd_model d), wd_serial = given (wc_serial c) (wd_serial d),
      wd_accessories = given (wc_accessories c) (wd_accessories d), wd_condition = given (wc_condition c) (wd_condition d),
      wd_fault = given (wc_fault c) (wd_fault d), wd_diagnosis = given (wc_diagnosis c) (wd_diagnosis d),
      wd_work = given (wc_work c) (wd_work d), wd_estimate = given (wc_estimate c) (wd_estimate d),
      wd_technician = given (wc_technician c) (wd_technician d)\<rparr>"

section \<open>Operations\<close>

text \<open>The diagnosis and the work are none when it is received.\<close>

definition receive_work_order :: "id \<Rightarrow> work_details \<Rightarrow> id \<Rightarrow> id \<Rightarrow> time \<Rightarrow> work_order_entity result" where
  "receive_work_order i details warehouse staff at =
     res_bind (valid_details (details\<lparr>wd_diagnosis := None, wd_work := None\<rparr>)) (\<lambda>d.
       Inr \<lparr>we_state =
              \<lparr>wo_id = i, wo_customer = wd_customer d, wo_name = Some (wd_name d), wo_phone = Some (wd_phone d),
               wo_email = wd_email d, wo_type = wd_type d, wo_brand = wd_brand d, wo_model = wd_model d,
               wo_serial = wd_serial d, wo_accessories = wd_accessories d, wo_condition = wd_condition d,
               wo_fault = Some (wd_fault d), wo_diagnosis = wd_diagnosis d, wo_work = wd_work d,
               wo_estimate = wd_estimate d, wo_technician = wd_technician d, wo_status = WO_RECEIVED,
               wo_warehouse = warehouse, wo_received_by = staff, wo_received_at = at, wo_closed_at = None,
               wo_sales = [], wo_blocked_at = None, wo_anonymized_at = None, wo_version = 1\<rparr>,
            we_changes = [\<lparr>wsc_from = None, wsc_to = WO_RECEIVED, wsc_actor = staff, wsc_note = None, wsc_at = at\<rparr>],
            we_linked = [], we_unlinked = []\<rparr>)"

definition with_state :: "work_order \<Rightarrow> work_order_entity \<Rightarrow> work_order_entity" where
  "with_state w e = e\<lparr>we_state := w\<rparr>"

definition assert_open :: "string \<Rightarrow> work_order_entity \<Rightarrow> unit result" where
  "assert_open action e =
     (if is_closed (wo_status (we_state e))
      then Inl (InvalidStateTransitionError (work_order_status_name (wo_status (we_state e))) action) else Inr ())"

definition work_order_blocked :: "work_order_entity \<Rightarrow> bool" where
  "work_order_blocked e = (wo_blocked_at (we_state e) \<noteq> None)"

definition work_order_anonymized :: "work_order_entity \<Rightarrow> bool" where
  "work_order_anonymized e = (wo_anonymized_at (we_state e) \<noteq> None)"

definition closed_by :: "time \<Rightarrow> work_order_entity \<Rightarrow> bool" where
  "closed_by cutoff e = (case wo_closed_at (we_state e) of None \<Rightarrow> False | Some at \<Rightarrow> at \<le> cutoff)"

text \<open>Whether it blocked it.\<close>

definition block_work_order_if_due :: "time \<Rightarrow> time \<Rightarrow> work_order_entity \<Rightarrow> bool \<times> work_order_entity" where
  "block_work_order_if_due cutoff at e =
     (if \<not> closed_by cutoff e \<or> work_order_blocked e \<or> work_order_anonymized e then (False, e)
      else (True, with_state ((we_state e)\<lparr>wo_blocked_at := Some at\<rparr>) e))"

definition without_customer :: "time \<Rightarrow> work_order \<Rightarrow> work_order" where
  "without_customer at w =
     w\<lparr>wo_name := None, wo_phone := None, wo_email := None, wo_serial := None, wo_accessories := None,
       wo_condition := None, wo_fault := None, wo_diagnosis := None, wo_work := None, wo_anonymized_at := Some at\<rparr>"

definition anonymize_work_order :: "time \<Rightarrow> work_order_entity \<Rightarrow> work_order_entity result" where
  "anonymize_work_order at e =
     (if \<not> is_closed (wo_status (we_state e)) \<or> work_order_anonymized e
      then Inl (InvalidStateTransitionError (work_order_status_name (wo_status (we_state e))) ''anonymize'')
      else Inr (with_state (without_customer at (we_state e)) e))"

definition has_sale :: "id \<Rightarrow> work_order_entity \<Rightarrow> bool" where
  "has_sale order e = list_ex (\<lambda>s. ls_order s = order) (wo_sales (we_state e))"

definition link_sale :: "id \<Rightarrow> id \<Rightarrow> time \<Rightarrow> work_order_entity \<Rightarrow> work_order_entity result" where
  "link_sale order staff at e =
     res_bind (assert_open ''link a sale'' e) (\<lambda>_.
       if has_sale order e then Inl (DuplicateValueError ''orderId'')
       else let sale = \<lparr>ls_order = order, ls_linked_by = staff, ls_linked_at = at\<rparr>
            in Inr (e\<lparr>we_state := (we_state e)\<lparr>wo_sales := wo_sales (we_state e) @ [sale]\<rparr>,
                      we_linked := we_linked e @ [sale]\<rparr>))"

definition unlink_sale :: "id \<Rightarrow> work_order_entity \<Rightarrow> work_order_entity result" where
  "unlink_sale order e =
     res_bind (assert_open ''unlink a sale'' e) (\<lambda>_.
       if \<not> has_sale order e then Inl (NotFoundError ''Sale'' order)
       else Inr (e\<lparr>we_state := (we_state e)\<lparr>wo_sales := filter (\<lambda>s. ls_order s \<noteq> order) (wo_sales (we_state e))\<rparr>,
                   we_unlinked := we_unlinked e @ [order]\<rparr>))"

text \<open>An open work order was never anonymized, so it has its data.\<close>

definition edit_work_order :: "work_changes \<Rightarrow> work_order_entity \<Rightarrow> work_order_entity result" where
  "edit_work_order c e =
     res_bind (assert_open ''edit'' e) (\<lambda>_.
       case details_of (we_state e) of
         None \<Rightarrow> Inl (PlainError ''TypeError'')
       | Some d \<Rightarrow>
           res_bind (valid_details (changed_details c d)) (\<lambda>d'. Inr (with_state (with_details d' (we_state e)) e)))"

definition move_work_order ::
  "work_order_status \<Rightarrow> id \<Rightarrow> string option \<Rightarrow> time \<Rightarrow> work_order_entity \<Rightarrow> work_order_entity result" where
  "move_work_order to actor note at e =
     (let w = we_state e; action = ''move to '' @ work_order_status_name to
      in res_bind (assert_open action e) (\<lambda>_.
           if to \<noteq> WO_CANCELLED \<and> forward_index to \<le> forward_index (wo_status w)
           then Inl (InvalidStateTransitionError (work_order_status_name (wo_status w)) action)
           else res_bind (optional_text note 500 ''A note has at most 500 characters'') (\<lambda>reason.
             if to = WO_CANCELLED \<and> reason = None then Inl (InvalidValueError ''A cancelled work order needs a note'')
             else Inr (e\<lparr>we_state := w\<lparr>wo_status := to, wo_closed_at := (if is_closed to then Some at else None)\<rparr>,
                         we_changes := we_changes e @
                           [\<lparr>wsc_from = Some (wo_status w), wsc_to = to, wsc_actor = actor, wsc_note = reason, wsc_at = at\<rparr>]\<rparr>))))"

section \<open>Its folio\<close>

text \<open>Its number as people see it (\<open>work-orders/domain/folio.ts\<close>).\<close>

definition FOLIO_PREFIX :: string where
  "FOLIO_PREFIX = ''OT-''"

definition FOLIO_MIN_DIGITS :: nat where
  "FOLIO_MIN_DIGITS = 6"

definition is_digit :: "char \<Rightarrow> bool" where
  "is_digit c = (48 \<le> (of_char c :: nat) \<and> (of_char c :: nat) \<le> 57)"

text \<open>\<open>String\<close> and \<open>Number\<close> of a whole number.\<close>

fun decimal :: "nat \<Rightarrow> string" where
  "decimal n = (if n < 10 then [char_of (48 + n)] else decimal (n div 10) @ [char_of (48 + n mod 10)])"

declare decimal.simps [simp del]

definition number_of_decimal :: "string \<Rightarrow> nat" where
  "number_of_decimal = foldl (\<lambda>n c. 10 * n + (of_char c - 48)) 0"

definition format_folio :: "nat \<Rightarrow> string" where
  "format_folio n =
     (let digits = decimal n in FOLIO_PREFIX @ replicate (FOLIO_MIN_DIGITS - length digits) (CHR ''0'') @ digits)"

text \<open>The prefix, in any case, with its dash or without it, is optional.\<close>

definition without_prefix :: "string \<Rightarrow> string" where
  "without_prefix s =
     (if js_upper (take 3 s) = ''OT-'' then drop 3 s else if js_upper (take 2 s) = ''OT'' then drop 2 s else s)"

definition parse_folio :: "string \<Rightarrow> nat option" where
  "parse_folio text =
     (let digits = without_prefix (js_trim text)
      in if 1 \<le> length digits \<and> length digits \<le> 15 \<and> list_all is_digit digits then Some (number_of_decimal digits)
         else None)"

subsection \<open>What is printed is read back\<close>

lemma digit_char [simp]: "d < 10 \<Longrightarrow> of_char (char_of (48 + d) :: char) = (48 + d :: nat)"
  by (simp add: of_char_of)

lemma is_digit_char [simp]: "d < (10 :: nat) \<Longrightarrow> is_digit (char_of (48 + d))"
  by (simp add: is_digit_def)

lemma is_digit_zero [simp]: "is_digit (CHR ''0'')"
  by (simp add: is_digit_def)

lemma decimal_digits: "list_all is_digit (decimal n)"
proof (induction n rule: decimal.induct)
  case (1 n)
  then show ?case by (subst decimal.simps) simp
qed

lemma number_of_decimal_snoc: "number_of_decimal (s @ [c]) = 10 * number_of_decimal s + (of_char c - 48)"
  by (simp add: number_of_decimal_def)

lemma number_of_decimal_decimal: "number_of_decimal (decimal n) = n"
proof (induction n rule: decimal.induct)
  case (1 n)
  show ?case
  proof (cases "n < 10")
    case True
    then show ?thesis by (subst decimal.simps) (simp add: number_of_decimal_def)
  next
    case False
    with 1 have "number_of_decimal (decimal n) = 10 * (n div 10) + n mod 10"
      by (subst decimal.simps) (simp add: number_of_decimal_snoc)
    then show ?thesis by simp
  qed
qed

lemma number_of_zeros: "number_of_decimal (replicate k (CHR ''0'') @ s) = number_of_decimal s"
proof (induction k)
  case (Suc k)
  then show ?case by (simp add: number_of_decimal_def)
qed simp

lemma decimal_length: "n < 10 ^ k \<Longrightarrow> 0 < k \<Longrightarrow> length (decimal n) \<le> k"
proof (induction k arbitrary: n)
  case (Suc k)
  show ?case
  proof (cases "n < 10")
    case True
    then show ?thesis by (subst decimal.simps) simp
  next
    case False
    then have "k \<noteq> 0" using Suc.prems(1) by (cases k) auto
    moreover from Suc.prems(1) have "n div 10 < 10 ^ k" by (simp add: less_mult_imp_div_less mult.commute)
    ultimately have "length (decimal (n div 10)) \<le> k" by (intro Suc.IH) auto
    with False show ?thesis by (subst decimal.simps) simp
  qed
qed simp

lemma decimal_Nil [simp]: "decimal n \<noteq> []"
  by (subst decimal.simps) simp

lemma digit_not_space: "is_digit c \<Longrightarrow> \<not> is_js_space c"
  by (auto simp: is_digit_def is_js_space_def)

lemma format_folio_trim: "js_trim (format_folio n) = format_folio n"
proof (rule js_trim_id, rule disjI2)
  have "last (format_folio n) = last (decimal n)" by (simp add: format_folio_def Let_def)
  moreover have "is_digit (last (decimal n))"
    using decimal_digits [of n] last_in_set [OF decimal_Nil] by (simp add: list_all_iff)
  ultimately have "\<not> is_js_space (last (format_folio n))" by (simp add: digit_not_space)
  moreover have "\<not> is_js_space (hd (format_folio n))"
    by (simp add: format_folio_def FOLIO_PREFIX_def Let_def is_js_space_def)
  ultimately show "\<not> is_js_space (hd (format_folio n)) \<and> \<not> is_js_space (last (format_folio n))" by simp
qed

lemma without_prefix_OT: "without_prefix (FOLIO_PREFIX @ s) = s"
  by (simp add: without_prefix_def FOLIO_PREFIX_def js_upper_def js_upper_char_def)

lemma folio_round_trip:
  assumes "n < 10 ^ 15"
  shows "parse_folio (format_folio n) = Some n"
proof -
  let ?z = "replicate (FOLIO_MIN_DIGITS - length (decimal n)) (CHR ''0'')"
  have len: "length (decimal n) \<le> 15" using decimal_length [OF assms] by simp
  have "without_prefix (js_trim (format_folio n)) = ?z @ decimal n"
    unfolding format_folio_trim by (simp add: format_folio_def Let_def without_prefix_OT)
  moreover have "length (?z @ decimal n) \<le> 15" using len by (simp add: FOLIO_MIN_DIGITS_def)
  moreover have "1 \<le> length (?z @ decimal n)" by (simp add: Suc_le_eq)
  moreover have "list_all is_digit (?z @ decimal n)"
    using decimal_digits [of n] by (auto simp: list_all_iff)
  ultimately show ?thesis
    by (simp add: parse_folio_def Let_def number_of_zeros number_of_decimal_decimal)
qed

end
