(* ===== verification/WorkOrders.thy ===== *)
theory WorkOrders
  imports WorkOrder Identity Inventory Retention
begin

text \<open>
  The tables of the work orders and what is done to them (\<open>work-orders/infrastructure/prisma-work-order.repository.ts\<close>,
  \<open>work-orders/application/\<close>). A use case with a version reads its work order without a lock, in tables \<open>rd\<close>
  that may be older than those it changes, \<open>db\<close>; those without one lock what they change. The other modules are
  asked in the same transaction, and their tables are an argument.
\<close>

section \<open>The tables\<close>

text \<open>
  The sales are kept with the row they pay for, and the entries of the history and the numbers of the folios with
  the identifier of theirs.
\<close>

record work_orders_db =
  wk_rows :: "work_order list"
  wk_history :: "(id \<times> work_status_change) list"
  wk_numbers :: "(id \<times> nat) list"

text \<open>A row as it is read, with its sales in the order they were linked.\<close>

definition work_order_as_read :: "work_order \<Rightarrow> work_order" where
  "work_order_as_read w = w\<lparr>wo_sales := sort_key ls_linked_at (sort_key ls_order (wo_sales w))\<rparr>"

definition find_work_order :: "id \<Rightarrow> work_orders_db \<Rightarrow> work_order_entity option" where
  "find_work_order i db =
     map_option (\<lambda>w. restore_work_order (work_order_as_read w)) (find (\<lambda>w. wo_id w = i) (wk_rows db))"

definition lock_work_orders_of :: "id \<Rightarrow> work_orders_db \<Rightarrow> work_order_entity list" where
  "lock_work_orders_of customer db =
     map (\<lambda>w. restore_work_order (work_order_as_read w))
       (sort_key wo_id (filter (\<lambda>w. wo_customer w = Some customer \<and> wo_anonymized_at w = None) (wk_rows db)))"

definition closed_at_or_before :: "time \<Rightarrow> work_order \<Rightarrow> bool" where
  "closed_at_or_before cutoff w = (case wo_closed_at w of None \<Rightarrow> False | Some at \<Rightarrow> at \<le> cutoff)"

definition oldest_closed :: "nat \<Rightarrow> work_order list \<Rightarrow> id list" where
  "oldest_closed limit ws =
     take limit (map wo_id (sort_key (\<lambda>w. case wo_closed_at w of None \<Rightarrow> 0 | Some at \<Rightarrow> at) (sort_key wo_id ws)))"

definition work_orders_to_block :: "time \<Rightarrow> nat \<Rightarrow> work_orders_db \<Rightarrow> id list" where
  "work_orders_to_block cutoff limit db =
     oldest_closed limit (filter (\<lambda>w. closed_at_or_before cutoff w \<and> wo_blocked_at w = None \<and> wo_anonymized_at w = None)
       (wk_rows db))"

definition work_orders_to_anonymize :: "time \<Rightarrow> nat \<Rightarrow> work_orders_db \<Rightarrow> id list" where
  "work_orders_to_anonymize cutoff limit db =
     oldest_closed limit (filter (\<lambda>w. closed_at_or_before cutoff w \<and> wo_anonymized_at w = None) (wk_rows db))"

text \<open>The checks of the migrations.\<close>

definition work_order_checks :: "work_order \<Rightarrow> bool" where
  "work_order_checks w =
     ((case wo_phone w of None \<Rightarrow> True | Some p \<Rightarrow> ten_digits p)
      \<and> (case wo_estimate w of None \<Rightarrow> True | Some m \<Rightarrow> amount m \<ge> 0)
      \<and> (wo_anonymized_at w \<noteq> None \<or> wo_name w \<noteq> None \<and> wo_phone w \<noteq> None \<and> wo_fault w \<noteq> None)
      \<and> (wo_blocked_at w = None \<or> wo_closed_at w \<noteq> None) \<and> (wo_anonymized_at w = None \<or> wo_closed_at w \<noteq> None))"

text \<open>The number is the next one of its sequence.\<close>

definition insert_work_order :: "work_order_entity \<Rightarrow> nat \<Rightarrow> work_orders_db \<Rightarrow> work_orders_db result" where
  "insert_work_order e number db =
     (let w = we_state e
      in if list_ex (\<lambda>x. wo_id x = wo_id w) (wk_rows db) then Inl (PlainError ''work_orders_pkey'')
         else if list_ex (\<lambda>n. snd n = number) (wk_numbers db) then Inl (PlainError ''work_orders_number_key'')
         else if \<not> work_order_checks w then Inl (PlainError ''work_orders_check'')
         else Inr (db\<lparr>wk_rows := wk_rows db @ [w\<lparr>wo_sales := [], wo_blocked_at := None, wo_anonymized_at := None\<rparr>],
                      wk_history := wk_history db @ map (Pair (wo_id w)) (we_changes e),
                      wk_numbers := wk_numbers db @ [(wo_id w, number)]\<rparr>))"

text \<open>What saving writes of a row; its sales are another table's.\<close>

definition written_work_order :: "work_order \<Rightarrow> work_order \<Rightarrow> work_order" where
  "written_work_order w row =
     (if wo_id row \<noteq> wo_id w then row
      else w\<lparr>wo_warehouse := wo_warehouse row, wo_received_by := wo_received_by row, wo_received_at := wo_received_at row,
             wo_sales := wo_sales row, wo_version := wo_version row + 1\<rparr>)"

definition without_sales :: "id \<Rightarrow> id list \<Rightarrow> work_order \<Rightarrow> work_order" where
  "without_sales i orders row =
     (if wo_id row = i then row\<lparr>wo_sales := filter (\<lambda>s. ls_order s \<notin> set orders) (wo_sales row)\<rparr> else row)"

definition with_sales :: "id \<Rightarrow> linked_sale list \<Rightarrow> work_order \<Rightarrow> work_order" where
  "with_sales i sales row = (if wo_id row = i then row\<lparr>wo_sales := wo_sales row @ sales\<rparr> else row)"

text \<open>The orders of the sales of all work orders.\<close>

definition sale_orders :: "work_order list \<Rightarrow> id list" where
  "sale_orders ws = concat (map (\<lambda>w. map ls_order (wo_sales w)) ws)"

definition save_work_order :: "work_order_entity \<Rightarrow> work_orders_db \<Rightarrow> work_orders_db result" where
  "save_work_order e db =
     (let w = we_state e
      in case find (\<lambda>x. wo_id x = wo_id w) (wk_rows db) of
           None \<Rightarrow> Inl (PlainError ''No record was found'')
         | Some row \<Rightarrow>
             if wo_version row \<noteq> wo_version w then Inl (VersionConflictError (wo_version row))
             else if \<not> work_order_checks w then Inl (PlainError ''work_orders_check'')
             else
               let rows = map (without_sales (wo_id w) (we_unlinked e)) (map (written_work_order w) (wk_rows db))
               in if \<not> distinct (sale_orders rows @ map ls_order (we_linked e)) then Inl (DuplicateValueError ''orderId'')
                  else Inr (db\<lparr>wk_rows := map (with_sales (wo_id w) (we_linked e)) rows,
                               wk_history := wk_history db @ map (Pair (wo_id w)) (we_changes e)\<rparr>))"

section \<open>Views\<close>

record work_order_summary =
  wv_id :: id
  wv_folio :: string
  wv_status :: work_order_status
  wv_name :: "string option"
  wv_phone :: "string option"
  wv_type :: string
  wv_brand :: "string option"
  wv_model :: "string option"
  wv_serial :: "string option"
  wv_warehouse :: id
  wv_technician :: "id option"
  wv_received_at :: time
  wv_closed_at :: "time option"

record work_order_view = work_order_summary +
  wv_customer :: "id option"
  wv_email :: "string option"
  wv_accessories :: "string option"
  wv_condition :: "string option"
  wv_fault :: "string option"
  wv_diagnosis :: "string option"
  wv_work :: "string option"
  wv_estimate :: "money option"
  wv_received_by :: id
  wv_blocked_at :: "time option"
  wv_anonymized_at :: "time option"
  wv_version :: int
  wv_history :: "work_status_change list"
  wv_sales :: "linked_sale list"

text \<open>Blocked, a work order shows only what an anonymized one keeps.\<close>

definition shown :: "work_order \<Rightarrow> 'a option \<Rightarrow> 'a option" where
  "shown w value = (if wo_blocked_at w = None then value else None)"

definition number_of :: "id \<Rightarrow> work_orders_db \<Rightarrow> nat" where
  "number_of i db = (case map_of (wk_numbers db) i of None \<Rightarrow> 0 | Some n \<Rightarrow> n)"

definition to_work_order_summary :: "nat \<Rightarrow> work_order \<Rightarrow> work_order_summary" where
  "to_work_order_summary n w =
     \<lparr>wv_id = wo_id w, wv_folio = format_folio n, wv_status = wo_status w, wv_name = shown w (wo_name w),
      wv_phone = shown w (wo_phone w), wv_type = wo_type w, wv_brand = wo_brand w, wv_model = wo_model w,
      wv_serial = shown w (wo_serial w), wv_warehouse = wo_warehouse w, wv_technician = wo_technician w,
      wv_received_at = wo_received_at w, wv_closed_at = wo_closed_at w\<rparr>"

definition to_work_order_view :: "nat \<Rightarrow> work_status_change list \<Rightarrow> work_order \<Rightarrow> work_order_view" where
  "to_work_order_view n history w =
     \<lparr>wv_id = wo_id w, wv_folio = format_folio n, wv_status = wo_status w, wv_name = shown w (wo_name w),
      wv_phone = shown w (wo_phone w), wv_type = wo_type w, wv_brand = wo_brand w, wv_model = wo_model w,
      wv_serial = shown w (wo_serial w), wv_warehouse = wo_warehouse w, wv_technician = wo_technician w,
      wv_received_at = wo_received_at w, wv_closed_at = wo_closed_at w, wv_customer = wo_customer w,
      wv_email = shown w (wo_email w), wv_accessories = shown w (wo_accessories w),
      wv_condition = shown w (wo_condition w), wv_fault = shown w (wo_fault w),
      wv_diagnosis = shown w (wo_diagnosis w), wv_work = shown w (wo_work w), wv_estimate = wo_estimate w,
      wv_received_by = wo_received_by w, wv_blocked_at = wo_blocked_at w, wv_anonymized_at = wo_anonymized_at w,
      wv_version = wo_version w, wv_history = history, wv_sales = wo_sales w\<rparr>"

definition work_history_of :: "id \<Rightarrow> work_orders_db \<Rightarrow> work_status_change list" where
  "work_history_of i db = map snd (filter (\<lambda>h. fst h = i) (wk_history db))"

text \<open>
  The history by its dates; changes of one date stay in the order they were saved in, which is that of their
  identifiers.
\<close>

definition view_work_order :: "id \<Rightarrow> work_orders_db \<Rightarrow> work_order_view option" where
  "view_work_order i db =
     map_option (\<lambda>w. to_work_order_view (number_of i db) (sort_key wsc_at (work_history_of i db)) (work_order_as_read w))
       (find (\<lambda>w. wo_id w = i) (wk_rows db))"

record work_order_filter =
  wq_q :: "string option"
  wq_status :: "work_order_status list option"
  wq_warehouse :: "id option"
  wq_technician :: "id option"
  wq_customer :: "id option"
  wq_from :: "time option"
  wq_to :: "time option"

text \<open>Whether the database finds a text in another, whatever their case, is the argument \<open>like\<close>.\<close>

definition only_digits :: "string \<Rightarrow> string" where
  "only_digits text = filter (\<lambda>c. \<not> (is_js_space c \<or> c \<in> set ''()-'')) text"

definition matches_search :: "(string \<Rightarrow> string \<Rightarrow> bool) \<Rightarrow> string \<Rightarrow> nat \<Rightarrow> work_order \<Rightarrow> bool" where
  "matches_search like q n w =
     (let text = js_trim q; digits = only_digits text;
          found = (\<lambda>part column. case column of None \<Rightarrow> False | Some s \<Rightarrow> like part s)
      in parse_folio text = Some n
         \<or> (1 \<le> length digits \<and> length digits \<le> 10 \<and> list_all is_digit digits
             \<and> found digits (wo_phone w) \<and> wo_blocked_at w = None)
         \<or> found text (wo_name w) \<and> wo_blocked_at w = None
         \<or> found text (wo_serial w) \<and> wo_blocked_at w = None)"

definition asks :: "'a option \<Rightarrow> ('a \<Rightarrow> bool) \<Rightarrow> bool" where
  "asks wanted p = (case wanted of None \<Rightarrow> True | Some x \<Rightarrow> p x)"

definition listed :: "(string \<Rightarrow> string \<Rightarrow> bool) \<Rightarrow> work_order_filter \<Rightarrow> nat \<Rightarrow> work_order \<Rightarrow> bool" where
  "listed like f n w =
     (asks (wq_q f) (\<lambda>q. matches_search like q n w) \<and> asks (wq_status f) (\<lambda>ss. wo_status w \<in> set ss)
      \<and> asks (wq_warehouse f) (\<lambda>x. wo_warehouse w = x) \<and> asks (wq_technician f) (\<lambda>x. wo_technician w = Some x)
      \<and> asks (wq_customer f) (\<lambda>x. wo_customer w = Some x) \<and> asks (wq_from f) (\<lambda>at. at \<le> wo_received_at w)
      \<and> asks (wq_to f) (\<lambda>at. wo_received_at w \<le> at))"

datatype work_order_sort_field = SortReceivedAt | SortFolio

text \<open>A column of the sort, and whether it is descending; ties go to the next column, and last to the identifier.\<close>

definition sort_value :: "work_orders_db \<Rightarrow> work_order_sort_field \<times> bool \<Rightarrow> work_order \<Rightarrow> int" where
  "sort_value db column w =
     (let v = (case fst column of SortReceivedAt \<Rightarrow> wo_received_at w | SortFolio \<Rightarrow> int (number_of (wo_id w) db))
      in if snd column then - v else v)"

definition page_offset :: "nat \<Rightarrow> nat \<Rightarrow> nat" where
  "page_offset page page_size = (page - 1) * page_size"

definition list_work_orders ::
  "(string \<Rightarrow> string \<Rightarrow> bool) \<Rightarrow> work_order_filter \<Rightarrow> (work_order_sort_field \<times> bool) list \<Rightarrow> nat \<Rightarrow> nat \<Rightarrow> work_orders_db \<Rightarrow>
     work_order_summary list \<times> nat" where
  "list_work_orders like f sorts page page_size db =
     (let found = filter (\<lambda>w. listed like f (number_of (wo_id w) db) w) (wk_rows db);
          sorted = foldr (\<lambda>column. sort_key (sort_value db column)) sorts (sort_key wo_id found)
      in (map (\<lambda>w. to_work_order_summary (number_of (wo_id w) db) w)
            (take page_size (drop (page_offset page page_size) sorted)), length found))"

section \<open>The other modules\<close>

record work_context =
  wx_identity :: identity
  wx_store :: store

definition assert_accounts :: "work_context \<Rightarrow> id option \<Rightarrow> id option \<Rightarrow> unit result" where
  "assert_accounts X customer technician =
     (case customer of
        Some c \<Rightarrow>
          if customer_contact c (wx_identity X) = None then Inl (NotFoundError ''Customer'' c)
          else (case technician of
                  Some t \<Rightarrow> if \<not> is_active_staff t (wx_identity X) then Inl (NotFoundError ''Staff'' t) else Inr ()
                | None \<Rightarrow> Inr ())
      | None \<Rightarrow>
          (case technician of
             Some t \<Rightarrow> if \<not> is_active_staff t (wx_identity X) then Inl (NotFoundError ''Staff'' t) else Inr ()
           | None \<Rightarrow> Inr ()))"

section \<open>What its sales pay\<close>

record work_order_detail =
  wt_view :: work_order_view
  wt_sales :: "(linked_sale \<times> (order \<times> store_sale_payment) option) list"
  wt_paid :: money
  wt_unpaid :: money

definition total_of :: "store_sale_payment \<Rightarrow> (linked_sale \<times> (order \<times> store_sale_payment) option) list \<Rightarrow> money result" where
  "total_of payment sales =
     res_fold (\<lambda>t s. money_add t (tot_grand (o_totals s))) (money_zero MXN)
       (map fst (filter (\<lambda>s. snd s = payment) (List.map_filter snd sales)))"

text \<open>The work order with its sales as Ordering shows them now.\<close>

definition read_work_order_detail :: "work_context \<Rightarrow> id \<Rightarrow> work_orders_db \<Rightarrow> work_order_detail option result" where
  "read_work_order_detail X i db =
     (case view_work_order i db of
        None \<Rightarrow> Inr None
      | Some v \<Rightarrow>
          let found = store_sales (map ls_order (wv_sales v)) (wx_store X);
              sales = map (\<lambda>l. (l, find (\<lambda>s. o_id (fst s) = ls_order l) found)) (wv_sales v)
          in res_bind (total_of SalePaid sales) (\<lambda>paid.
             res_bind (total_of SalePending sales) (\<lambda>unpaid.
               Inr (Some \<lparr>wt_view = v, wt_sales = sales, wt_paid = paid, wt_unpaid = unpaid\<rparr>))))"

section \<open>Use cases\<close>

definition found_work_order :: "id \<Rightarrow> work_orders_db \<Rightarrow> work_order_entity result" where
  "found_work_order i db =
     (case find_work_order i db of None \<Rightarrow> Inl (NotFoundError ''WorkOrder'' i) | Some e \<Rightarrow> Inr e)"

definition receive_equipment ::
  "work_context \<Rightarrow> id \<Rightarrow> nat \<Rightarrow> work_details \<Rightarrow> id \<Rightarrow> id \<Rightarrow> time \<Rightarrow> work_orders_db \<Rightarrow>
     work_orders_db result" where
  "receive_equipment X fresh number details warehouse staff now db =
     res_bind (receive_work_order fresh details warehouse staff now) (\<lambda>e.
       if \<not> is_active_warehouse warehouse (st_stock (wx_store X)) then Inl (NotFoundError ''Warehouse'' warehouse)
       else res_bind (assert_accounts X (wd_customer details) (wd_technician details)) (\<lambda>_. insert_work_order e number db))"

text \<open>Without changes nothing is saved.\<close>

definition update_work_order ::
  "work_context \<Rightarrow> id \<Rightarrow> work_changes \<Rightarrow> int \<Rightarrow> work_orders_db \<Rightarrow> work_orders_db \<Rightarrow> work_orders_db result" where
  "update_work_order X i c version rd db =
     res_bind (found_work_order i rd) (\<lambda>e.
     res_bind (assert_version (wo_version (we_state e)) version) (\<lambda>_.
     res_bind (edit_work_order c e) (\<lambda>e'.
     res_bind (assert_accounts X
         (if wo_customer (we_state e') = wo_customer (we_state e) then None else wo_customer (we_state e'))
         (if wo_technician (we_state e') = wo_technician (we_state e) then None else wo_technician (we_state e'))) (\<lambda>_.
       if we_state e' = we_state e then Inr db else save_work_order e' db))))"

definition move_work_order_to ::
  "id \<Rightarrow> work_order_status \<Rightarrow> string option \<Rightarrow> id \<Rightarrow> int \<Rightarrow> time \<Rightarrow> work_orders_db \<Rightarrow> work_orders_db \<Rightarrow>
     work_orders_db result" where
  "move_work_order_to i status note staff version now rd db =
     res_bind (found_work_order i rd) (\<lambda>e.
     res_bind (assert_version (wo_version (we_state e)) version) (\<lambda>_.
     res_bind (move_work_order status staff note now e) (\<lambda>e'. save_work_order e' db)))"

definition link_work_order_sale ::
  "work_context \<Rightarrow> id \<Rightarrow> id \<Rightarrow> id \<Rightarrow> int \<Rightarrow> time \<Rightarrow> work_orders_db \<Rightarrow> work_orders_db \<Rightarrow> work_orders_db result" where
  "link_work_order_sale X i order staff version now rd db =
     res_bind (found_work_order i rd) (\<lambda>e.
     res_bind (assert_version (wo_version (we_state e)) version) (\<lambda>_.
       case store_sales [order] (wx_store X) of
         [] \<Rightarrow> Inl (NotFoundError ''Store sale'' order)
       | (sale, payment) # _ \<Rightarrow>
           if payment = SaleNone then Inl (WorkOrderError (SaleNotLinkableError (order_status_name (o_status sale))))
           else res_bind (link_sale order staff now e) (\<lambda>e'. save_work_order e' db)))"

definition unlink_work_order_sale :: "id \<Rightarrow> id \<Rightarrow> int \<Rightarrow> work_orders_db \<Rightarrow> work_orders_db \<Rightarrow> work_orders_db result" where
  "unlink_work_order_sale i order version rd db =
     res_bind (found_work_order i rd) (\<lambda>e.
     res_bind (assert_version (wo_version (we_state e)) version) (\<lambda>_.
     res_bind (unlink_sale order e) (\<lambda>e'. save_work_order e' db)))"

section \<open>The data of the customers\<close>

definition anonymize_and_save :: "time \<Rightarrow> work_order_entity \<Rightarrow> work_orders_db \<Rightarrow> work_orders_db result" where
  "anonymize_and_save at e db = res_bind (anonymize_work_order at e) (\<lambda>e'. save_work_order e' db)"

definition anonymize_one_work_order :: "id \<Rightarrow> time \<Rightarrow> work_orders_db \<Rightarrow> work_orders_db result" where
  "anonymize_one_work_order i now db = res_bind (found_work_order i db) (\<lambda>e. anonymize_and_save now e db)"

text \<open>All or none, and how many.\<close>

definition anonymize_work_orders_of :: "id \<Rightarrow> time \<Rightarrow> work_orders_db \<Rightarrow> (nat \<times> work_orders_db) result" where
  "anonymize_work_orders_of customer at db =
     (let es = lock_work_orders_of customer db
      in if list_ex (\<lambda>e. wo_closed_at (we_state e) = None) es then Inl (WorkOrderError OpenWorkOrdersError)
         else res_bind (res_fold (\<lambda>d e. anonymize_and_save at e d) db es) (\<lambda>db'. Inr (length es, db')))"

record blocked_work_order_data =
  bw_name :: "string option"
  bw_phone :: "string option"
  bw_email :: "string option"
  bw_serial :: "string option"
  bw_accessories :: "string option"
  bw_condition :: "string option"
  bw_fault :: "string option"
  bw_diagnosis :: "string option"
  bw_work :: "string option"

definition personal_data_of :: "work_order_entity \<Rightarrow> blocked_work_order_data" where
  "personal_data_of e =
     (let w = we_state e
      in \<lparr>bw_name = wo_name w, bw_phone = wo_phone w, bw_email = wo_email w, bw_serial = wo_serial w,
          bw_accessories = wo_accessories w, bw_condition = wo_condition w, bw_fault = wo_fault w,
          bw_diagnosis = wo_diagnosis w, bw_work = wo_work w\<rparr>)"

definition read_blocked_work_order :: "id \<Rightarrow> work_orders_db \<Rightarrow> blocked_work_order_data result" where
  "read_blocked_work_order i db =
     res_bind (found_work_order i db) (\<lambda>e.
       if \<not> work_order_blocked e \<or> work_order_anonymized e
       then Inl (InvalidStateTransitionError (work_order_status_name (wo_status (we_state e))) ''read blocked data'')
       else Inr (personal_data_of e))"

section \<open>The retention\<close>

definition WORK_ORDER_BATCH_SIZE :: nat where
  "WORK_ORDER_BATCH_SIZE = 1000"

record work_order_retention =
  wr_enabled :: bool
  wr_operational_months :: int
  wr_blocked_months :: int

record work_order_run =
  wn_blocked :: nat
  wn_anonymized :: nat
  wn_failed :: nat

definition block_due_work_order :: "time \<Rightarrow> time \<Rightarrow> id \<Rightarrow> work_orders_db \<Rightarrow> (bool \<times> work_orders_db) result" where
  "block_due_work_order cutoff now i db =
     (case find_work_order i db of
        None \<Rightarrow> Inr (False, db)
      | Some e \<Rightarrow>
          let (blocked, e') = block_work_order_if_due cutoff now e
          in if \<not> blocked then Inr (False, db) else res_bind (save_work_order e' db) (\<lambda>db'. Inr (True, db')))"

definition anonymize_due_work_order :: "time \<Rightarrow> time \<Rightarrow> id \<Rightarrow> work_orders_db \<Rightarrow> (bool \<times> work_orders_db) result" where
  "anonymize_due_work_order cutoff now i db =
     (case find_work_order i db of
        None \<Rightarrow> Inr (False, db)
      | Some e \<Rightarrow>
          if work_order_anonymized e \<or> \<not> closed_by cutoff e then Inr (False, db)
          else res_bind (anonymize_and_save now e db) (\<lambda>db'. Inr (True, db')))"

text \<open>Each in its own transaction; one that fails is counted, and the others go on.\<close>

definition retain_next ::
  "(work_order_run \<Rightarrow> work_order_run) \<Rightarrow> (id \<Rightarrow> work_orders_db \<Rightarrow> (bool \<times> work_orders_db) result) \<Rightarrow> id \<Rightarrow>
     work_order_run \<times> work_orders_db \<Rightarrow> work_order_run \<times> work_orders_db" where
  "retain_next tally work i st =
     (case work i (snd st) of
        Inl e \<Rightarrow> ((fst st)\<lparr>wn_failed := wn_failed (fst st) + 1\<rparr>, snd st)
      | Inr (acted, db) \<Rightarrow> (if acted then tally (fst st) else fst st, db))"

definition retain_work_orders :: "work_order_retention \<Rightarrow> time \<Rightarrow> work_orders_db \<Rightarrow> work_order_run \<times> work_orders_db" where
  "retain_work_orders policy now db =
     (let none = \<lparr>wn_blocked = 0, wn_anonymized = 0, wn_failed = 0\<rparr>
      in if \<not> wr_enabled policy then (none, db)
         else
           let block_by = months_before now (wr_operational_months policy);
               anonymize_by = months_before now (wr_operational_months policy + wr_blocked_months policy);
               st = fold (retain_next (\<lambda>r. r\<lparr>wn_blocked := wn_blocked r + 1\<rparr>) (block_due_work_order block_by now))
                      (work_orders_to_block block_by WORK_ORDER_BATCH_SIZE db) (none, db)
           in fold (retain_next (\<lambda>r. r\<lparr>wn_anonymized := wn_anonymized r + 1\<rparr>) (anonymize_due_work_order anonymize_by now))
                (work_orders_to_anonymize anonymize_by WORK_ORDER_BATCH_SIZE (snd st)) st)"

section \<open>Everything that happens\<close>

text \<open>Each transaction; the retention is one for each work order it takes.\<close>

datatype work_order_event =
    ReceiveEquipment id nat work_details id id time
  | UpdateWorkOrder id work_changes int
  | MoveWorkOrder id work_order_status "string option" id int time
  | LinkWorkOrderSale id id id int time
  | UnlinkWorkOrderSale id id int
  | AnonymizeWorkOrder id time
  | AnonymizeWorkOrdersOf id time
  | BlockDueWorkOrder time time id
  | AnonymizeDueWorkOrder time time id

fun work_step ::
  "work_context \<Rightarrow> work_orders_db \<Rightarrow> work_orders_db \<Rightarrow> work_order_event \<Rightarrow> work_orders_db result" where
  "work_step X rd db (ReceiveEquipment i n d w s now) = receive_equipment X i n d w s now db"
| "work_step X rd db (UpdateWorkOrder i c v) = update_work_order X i c v rd db"
| "work_step X rd db (MoveWorkOrder i st n s v now) = move_work_order_to i st n s v now rd db"
| "work_step X rd db (LinkWorkOrderSale i k s v now) = link_work_order_sale X i k s v now rd db"
| "work_step X rd db (UnlinkWorkOrderSale i k v) = unlink_work_order_sale i k v rd db"
| "work_step X rd db (AnonymizeWorkOrder i now) = anonymize_one_work_order i now db"
| "work_step X rd db (AnonymizeWorkOrdersOf c at) =
     res_bind (anonymize_work_orders_of c at db) (\<lambda>(_, db'). Inr db')"
| "work_step X rd db (BlockDueWorkOrder cutoff now i) =
     res_bind (block_due_work_order cutoff now i db) (\<lambda>(_, db'). Inr db')"
| "work_step X rd db (AnonymizeDueWorkOrder cutoff now i) =
     res_bind (anonymize_due_work_order cutoff now i db) (\<lambda>(_, db'). Inr db')"

end
