(* ===== verification/Privacy.thy ===== *)
theory Privacy
  imports WorkOrders AddressBook Shopping
begin

text \<open>
  The anonymizations of customers and guests (\<open>privacy/application/\<close>): each calls the facades of the modules that
  own the data, in one transaction.
\<close>

section \<open>All the tables\<close>

record everything =
  ev_identity :: identity
  ev_addresses :: addresses
  ev_store :: store
  ev_work :: work_orders_db

section \<open>What the modules are asked\<close>

text \<open>The account, with its traces; the version is that of the account that was read.\<close>

definition anonymize_account :: "id \<Rightarrow> int \<Rightarrow> time \<Rightarrow> identity \<Rightarrow> everything \<Rightarrow> everything result" where
  "anonymize_account user version at rd e =
     res_bind (anonymize_customer user version at rd (ev_identity e)) (\<lambda>i.
       Inr (e\<lparr>ev_identity := i, ev_addresses := delete_addresses_of user (ev_addresses e)\<rparr>))"

definition anonymize_account_if_inactive :: "id \<Rightarrow> time \<Rightarrow> time \<Rightarrow> everything \<Rightarrow> (bool \<times> everything) result" where
  "anonymize_account_if_inactive user inactive_since at e =
     res_bind (anonymize_inactive_customer user inactive_since at (ev_identity e)) (\<lambda>(anonymized, i).
       if \<not> anonymized then Inr (False, e)
       else Inr (True, e\<lparr>ev_identity := i, ev_addresses := delete_addresses_of user (ev_addresses e)\<rparr>))"

definition anonymize_orders_of :: "anonymized_buyer \<Rightarrow> time \<Rightarrow> everything \<Rightarrow> (nat \<times> everything) result" where
  "anonymize_orders_of buyer at e =
     res_bind (anonymize_buyer buyer at (ev_store e)) (\<lambda>(n, g). Inr (n, e\<lparr>ev_store := g\<rparr>))"

definition anonymize_customer_work_orders :: "id \<Rightarrow> time \<Rightarrow> everything \<Rightarrow> (nat \<times> everything) result" where
  "anonymize_customer_work_orders customer at e =
     res_bind (anonymize_work_orders_of customer at (ev_work e)) (\<lambda>(n, w). Inr (n, e\<lparr>ev_work := w\<rparr>))"

definition delete_customer_carts :: "id \<Rightarrow> everything \<Rightarrow> everything" where
  "delete_customer_carts customer e =
     e\<lparr>ev_store := (ev_store e)\<lparr>st_carts := delete_of customer (st_carts (ev_store e))\<rparr>\<rparr>"

section \<open>A customer or a guest who asks for it\<close>

record customer_anonymization =
  ca_user :: id
  ca_at :: time
  ca_orders :: nat
  ca_work_orders :: nat

definition anonymize_customer_everywhere ::
  "id \<Rightarrow> int \<Rightarrow> time \<Rightarrow> identity \<Rightarrow> everything \<Rightarrow> (customer_anonymization \<times> everything) result" where
  "anonymize_customer_everywhere user version at rd e =
     res_bind (anonymize_account user version at rd e) (\<lambda>e1.
     res_bind (anonymize_orders_of (AnonymizedCustomer user) at e1) (\<lambda>(orders, e2).
     res_bind (anonymize_customer_work_orders user at e2) (\<lambda>(work_orders, e3).
       Inr (\<lparr>ca_user = user, ca_at = at, ca_orders = orders, ca_work_orders = work_orders\<rparr>,
            delete_customer_carts user e3))))"

definition anonymize_guest :: "string \<Rightarrow> string \<Rightarrow> time \<Rightarrow> everything \<Rightarrow> (nat \<times> everything) result" where
  "anonymize_guest email code at e = anonymize_orders_of (AnonymizedGuest email code) at e"

section \<open>Customers without activity\<close>

definition INACTIVE_BATCH_SIZE :: nat where
  "INACTIVE_BATCH_SIZE = 1000"

record inactivity_run =
  ir_anonymized :: nat
  ir_skipped :: nat
  ir_failed :: nat

text \<open>One with an order that has not concluded is skipped, and its transaction undone.\<close>

definition open_orders_error :: thrown where
  "open_orders_error = PlainError ''OpenOrdersError''"

definition anonymize_if_inactive :: "id \<Rightarrow> time \<Rightarrow> time \<Rightarrow> everything \<Rightarrow> (bool \<times> everything) result" where
  "anonymize_if_inactive customer before now e =
     res_bind (anonymize_account_if_inactive customer before now e) (\<lambda>(anonymized, e1).
       if \<not> anonymized then Inr (False, e1)
       else if has_open_orders customer (ev_store e1) then Inl open_orders_error
       else Inr (True, delete_customer_carts customer e1))"

definition inactivity_next :: "time \<Rightarrow> time \<Rightarrow> id \<Rightarrow> inactivity_run \<times> everything \<Rightarrow> inactivity_run \<times> everything" where
  "inactivity_next before now customer st =
     (case anonymize_if_inactive customer before now (snd st) of
        Inr (anonymized, e) \<Rightarrow>
          (if anonymized then (fst st)\<lparr>ir_anonymized := ir_anonymized (fst st) + 1\<rparr> else fst st, e)
      | Inl x \<Rightarrow>
          (if x = open_orders_error then (fst st)\<lparr>ir_skipped := ir_skipped (fst st) + 1\<rparr>
           else (fst st)\<lparr>ir_failed := ir_failed (fst st) + 1\<rparr>, snd st))"

definition anonymize_inactive_customers :: "int option \<Rightarrow> time \<Rightarrow> everything \<Rightarrow> inactivity_run \<times> everything" where
  "anonymize_inactive_customers months now e =
     (let none = \<lparr>ir_anonymized = 0, ir_skipped = 0, ir_failed = 0\<rparr>
      in case months of
           None \<Rightarrow> (none, e)
         | Some m \<Rightarrow>
             let before = months_before now m
             in fold (inactivity_next before now) (inactive_customers before INACTIVE_BATCH_SIZE (ev_identity e)) (none, e))"

end
