(* ===== verification/WorkOrdersOk.thy ===== *)
theory WorkOrdersOk
  imports WorkOrders
begin

text \<open>
  What the tables of the work orders keep, whatever is done to them and in whatever order it was read: every work
  order is in a status its history leads to, no sale pays for two, and one that was delivered or cancelled only has the
  data of its customer hidden and taken away.
\<close>

section \<open>Sound tables\<close>

definition no_customer_data :: "work_order \<Rightarrow> bool" where
  "no_customer_data w =
     (wo_name w = None \<and> wo_phone w = None \<and> wo_email w = None \<and> wo_serial w = None \<and> wo_accessories w = None
      \<and> wo_condition w = None \<and> wo_fault w = None \<and> wo_diagnosis w = None \<and> wo_work w = None)"

definition sound_work_order :: "work_order \<Rightarrow> bool" where
  "sound_work_order w =
     ((wo_closed_at w \<noteq> None) = is_closed (wo_status w) \<and> work_order_checks w
      \<and> (wo_anonymized_at w \<noteq> None \<longrightarrow> no_customer_data w))"

fun legal_change :: "work_order_status option \<Rightarrow> work_status_change \<Rightarrow> bool" where
  "legal_change None c = (wsc_to c = WO_RECEIVED)"
| "legal_change (Some s) c =
     (\<not> is_closed s
      \<and> (if wsc_to c = WO_CANCELLED then wsc_note c \<noteq> None else forward_index s < forward_index (wsc_to c)))"

text \<open>The changes lead from a status, none before the reception, to another.\<close>

fun legal_path :: "work_order_status option \<Rightarrow> work_status_change list \<Rightarrow> work_order_status \<Rightarrow> bool" where
  "legal_path s [] t = (s = Some t)"
| "legal_path s (c # cs) t = (wsc_from c = s \<and> legal_change s c \<and> legal_path (Some (wsc_to c)) cs t)"

definition wf_work_orders :: "work_orders_db \<Rightarrow> bool" where
  "wf_work_orders db =
     (distinct (map wo_id (wk_rows db)) \<and> list_all sound_work_order (wk_rows db)
      \<and> distinct (sale_orders (wk_rows db))
      \<and> list_all (\<lambda>w. legal_path None (work_history_of (wo_id w) db) (wo_status w)) (wk_rows db)
      \<and> list_all (\<lambda>h. fst h \<in> set (map wo_id (wk_rows db))) (wk_history db)
      \<and> map fst (wk_numbers db) = map wo_id (wk_rows db) \<and> distinct (map snd (wk_numbers db)))"

lemma legal_path_append: "legal_path s xs u \<Longrightarrow> legal_path (Some u) ys t \<Longrightarrow> legal_path s (xs @ ys) t"
  by (induction xs arbitrary: s) auto

section \<open>What is read\<close>

lemma as_read_fields [simp]:
  "wo_id (work_order_as_read w) = wo_id w" "wo_customer (work_order_as_read w) = wo_customer w"
  "wo_name (work_order_as_read w) = wo_name w" "wo_phone (work_order_as_read w) = wo_phone w"
  "wo_email (work_order_as_read w) = wo_email w" "wo_type (work_order_as_read w) = wo_type w"
  "wo_brand (work_order_as_read w) = wo_brand w" "wo_model (work_order_as_read w) = wo_model w"
  "wo_serial (work_order_as_read w) = wo_serial w" "wo_accessories (work_order_as_read w) = wo_accessories w"
  "wo_condition (work_order_as_read w) = wo_condition w" "wo_fault (work_order_as_read w) = wo_fault w"
  "wo_diagnosis (work_order_as_read w) = wo_diagnosis w" "wo_work (work_order_as_read w) = wo_work w"
  "wo_estimate (work_order_as_read w) = wo_estimate w" "wo_technician (work_order_as_read w) = wo_technician w"
  "wo_status (work_order_as_read w) = wo_status w" "wo_warehouse (work_order_as_read w) = wo_warehouse w"
  "wo_received_by (work_order_as_read w) = wo_received_by w" "wo_received_at (work_order_as_read w) = wo_received_at w"
  "wo_closed_at (work_order_as_read w) = wo_closed_at w" "wo_blocked_at (work_order_as_read w) = wo_blocked_at w"
  "wo_anonymized_at (work_order_as_read w) = wo_anonymized_at w" "wo_version (work_order_as_read w) = wo_version w"
  "set (wo_sales (work_order_as_read w)) = set (wo_sales w)"
  by (simp_all add: work_order_as_read_def)

lemma restored_fields [simp]:
  "we_state (restore_work_order w) = w" "we_changes (restore_work_order w) = []"
  "we_linked (restore_work_order w) = []" "we_unlinked (restore_work_order w) = []"
  by (simp_all add: restore_work_order_def)

lemma with_state_fields [simp]:
  "we_state (with_state w e) = w" "we_changes (with_state w e) = we_changes e"
  "we_linked (with_state w e) = we_linked e" "we_unlinked (with_state w e) = we_unlinked e"
  by (simp_all add: with_state_def)

lemma sound_as_read [simp]: "sound_work_order (work_order_as_read w) = sound_work_order w"
  by (simp add: sound_work_order_def work_order_checks_def no_customer_data_def)

lemma find_work_orderE:
  assumes "find_work_order i db = Some e"
  obtains r where "r \<in> set (wk_rows db)" "wo_id r = i" "e = restore_work_order (work_order_as_read r)"
  using assms by (auto simp: find_work_order_def find_Some_iff in_set_conv_nth)

lemma find_work_orderI:
  "distinct (map wo_id (wk_rows db)) \<Longrightarrow> r \<in> set (wk_rows db) \<Longrightarrow>
     find_work_order (wo_id r) db = Some (restore_work_order (work_order_as_read r))"
  by (simp add: find_work_order_def find_key)

section \<open>Saving\<close>

text \<open>The row of a work order once it is saved.\<close>

definition saved_work_order :: "work_order_entity \<Rightarrow> work_order \<Rightarrow> work_order" where
  "saved_work_order e r =
     (we_state e)\<lparr>wo_warehouse := wo_warehouse r, wo_received_by := wo_received_by r,
       wo_received_at := wo_received_at r,
       wo_sales := filter (\<lambda>s. ls_order s \<notin> set (we_unlinked e)) (wo_sales r) @ we_linked e,
       wo_version := wo_version r + 1\<rparr>"

lemma sale_orders_Cons [simp]: "sale_orders (w # ws) = map ls_order (wo_sales w) @ sale_orders ws"
  by (simp add: sale_orders_def)

lemma sale_orders_Nil [simp]: "sale_orders [] = []"
  by (simp add: sale_orders_def)

lemma sale_orders_append [simp]: "sale_orders (ws @ xs) = sale_orders ws @ sale_orders xs"
  by (simp add: sale_orders_def)

lemma sale_orders_cong: "(\<And>w. wo_sales (f w) = wo_sales w) \<Longrightarrow> sale_orders (map f ws) = sale_orders ws"
  by (induction ws) simp_all

lemma with_sales_other: "i \<notin> wo_id ` set ws \<Longrightarrow> map (with_sales i ls) ws = ws"
  by (induction ws) (auto simp: with_sales_def)

lemma mset_sale_orders_with:
  "distinct (map wo_id ws) \<Longrightarrow> i \<in> wo_id ` set ws \<Longrightarrow>
     mset (sale_orders (map (with_sales i ls) ws)) = mset (sale_orders ws) + mset (map ls_order ls)"
proof (induction ws)
  case (Cons w ws)
  show ?case
  proof (cases "wo_id w = i")
    case True
    with Cons.prems have "i \<notin> wo_id ` set ws" by auto
    then have "map (with_sales i ls) ws = ws" by (rule with_sales_other)
    moreover have "with_sales i ls w = w\<lparr>wo_sales := wo_sales w @ ls\<rparr>" using True by (simp add: with_sales_def)
    ultimately show ?thesis by simp
  next
    case False
    with Cons show ?thesis by (simp add: with_sales_def)
  qed
qed simp

lemma saved_work_orders:
  "map (with_sales i (we_linked e)) (map (without_sales i (we_unlinked e)) (map (written_work_order (we_state e)) ws))
     = map (\<lambda>r. if wo_id r = i then saved_work_order e r else r) ws"
  if "i = wo_id (we_state e)"
  using that by (auto simp: with_sales_def without_sales_def written_work_order_def saved_work_order_def)

lemma save_work_orderE:
  assumes s: "save_work_order e db = Inr db'" and d: "distinct (map wo_id (wk_rows db))"
  obtains r where "r \<in> set (wk_rows db)" "wo_id r = wo_id (we_state e)" "wo_version r = wo_version (we_state e)"
    and "work_order_checks (we_state e)"
    and "wk_rows db' = map (\<lambda>x. if wo_id x = wo_id r then saved_work_order e x else x) (wk_rows db)"
    and "distinct (sale_orders (wk_rows db'))"
    and "wk_history db' = wk_history db @ map (Pair (wo_id r)) (we_changes e)"
    and "wk_numbers db' = wk_numbers db"
proof -
  let ?i = "wo_id (we_state e)"
  define rows where
    "rows = map (without_sales ?i (we_unlinked e)) (map (written_work_order (we_state e)) (wk_rows db))"
  from s obtain r where f: "find (\<lambda>x. wo_id x = ?i) (wk_rows db) = Some r"
    by (auto simp: save_work_order_def Let_def split: option.splits)
  with s have v: "wo_version r = wo_version (we_state e)" and c: "work_order_checks (we_state e)"
    and u: "distinct (sale_orders rows @ map ls_order (we_linked e))"
    and db': "db' = db\<lparr>wk_rows := map (with_sales ?i (we_linked e)) rows,
                 wk_history := wk_history db @ map (Pair ?i) (we_changes e)\<rparr>"
    by (auto simp: save_work_order_def Let_def rows_def split: if_splits)
  from f have r: "r \<in> set (wk_rows db)" "wo_id r = ?i" by (auto dest: find_SomeD)
  have ids: "map wo_id rows = map wo_id (wk_rows db)"
    by (simp add: rows_def without_sales_def written_work_order_def)
  then have "mset (sale_orders (map (with_sales ?i (we_linked e)) rows))
      = mset (sale_orders rows @ map ls_order (we_linked e))"
    using d r mset_sale_orders_with [of rows ?i "we_linked e"] by (metis image_eqI mset_append set_map)
  then have "distinct (sale_orders (wk_rows db'))"
    using u mset_eq_imp_distinct_iff [of "sale_orders (wk_rows db')" "sale_orders rows @ map ls_order (we_linked e)"]
    by (simp add: db')
  with r v c show thesis
    using saved_work_orders [of ?i e "wk_rows db"] by (intro that [of r]) (simp_all add: db' rows_def comp_def)
qed

lemma save_work_order_goes:
  assumes r: "r \<in> set (wk_rows db)" "wo_id r = wo_id (we_state e)" "wo_version r = wo_version (we_state e)"
    and d: "distinct (map wo_id (wk_rows db))" "distinct (sale_orders (wk_rows db))"
    and c: "work_order_checks (we_state e)" "we_linked e = []" "we_unlinked e = []"
  shows "\<exists>db'. save_work_order e db = Inr db'"
proof -
  let ?i = "wo_id (we_state e)"
  have f: "find (\<lambda>x. wo_id x = ?i) (wk_rows db) = Some r"
    using find_key [OF d(1) r(1)] r(2) by simp
  have "sale_orders (map (without_sales ?i [] \<circ> written_work_order (we_state e)) (wk_rows db))
      = sale_orders (wk_rows db)"
    by (rule sale_orders_cong) (simp add: without_sales_def written_work_order_def)
  then show ?thesis using f r c d by (simp add: save_work_order_def Let_def)
qed

section \<open>What is done to one\<close>

text \<open>One that is over only has the data of its customer hidden, and later taken away.\<close>

definition outline :: "work_order \<Rightarrow> work_order" where
  "outline w = (without_customer 0 w)\<lparr>wo_blocked_at := None, wo_version := 0\<rparr>"

definition customer_data :: "work_order \<Rightarrow> blocked_work_order_data" where
  "customer_data w = personal_data_of (restore_work_order w)"

definition only_hidden :: "work_order \<Rightarrow> work_order \<Rightarrow> bool" where
  "only_hidden r r' =
     (outline r' = outline r \<and> (wo_blocked_at r \<noteq> None \<longrightarrow> wo_blocked_at r' = wo_blocked_at r)
      \<and> (wo_anonymized_at r \<noteq> None \<longrightarrow> r' = r) \<and> (wo_anonymized_at r' = None \<longrightarrow> customer_data r' = customer_data r))"

lemma only_hidden_refl: "only_hidden r r"
  by (simp add: only_hidden_def)

lemma only_hidden_trans: "only_hidden r s \<Longrightarrow> only_hidden s t \<Longrightarrow> only_hidden r t"
  unfolding only_hidden_def by (cases "wo_anonymized_at s") auto

lemma outline_fields [simp]:
  "wo_id (outline w) = wo_id w" "wo_status (outline w) = wo_status w" "wo_customer (outline w) = wo_customer w"
  "wo_warehouse (outline w) = wo_warehouse w" "wo_closed_at (outline w) = wo_closed_at w"
  by (simp_all add: outline_def without_customer_def)

lemma outline_status: "outline r' = outline r \<Longrightarrow> wo_status r' = wo_status r"
  by (metis outline_fields(2))

lemma only_hidden_status: "only_hidden r r' \<Longrightarrow> wo_status r' = wo_status r"
  by (rule outline_status) (simp add: only_hidden_def)

text \<open>The work order was read from a row, and can be saved over it.\<close>

definition works_on :: "work_order \<Rightarrow> work_order_entity \<Rightarrow> bool" where
  "works_on r e =
     (wo_id (we_state e) = wo_id r \<and> wo_version (we_state e) = wo_version r
      \<and> (work_order_checks (we_state e) \<longrightarrow> sound_work_order (we_state e))
      \<and> legal_path (Some (wo_status r)) (we_changes e) (wo_status (we_state e))
      \<and> (is_closed (wo_status r) \<longrightarrow> we_changes e = [] \<and> only_hidden r (saved_work_order e r)))"

lemma works_onI:
  assumes "wo_id (we_state e) = wo_id r" "wo_version (we_state e) = wo_version r"
    and "work_order_checks (we_state e) \<Longrightarrow> sound_work_order (we_state e)"
    and "legal_path (Some (wo_status r)) (we_changes e) (wo_status (we_state e))"
    and "is_closed (wo_status r) \<Longrightarrow> we_changes e = [] \<and> only_hidden r (saved_work_order e r)"
  shows "works_on r e"
  using assms by (simp add: works_on_def)

lemma assert_open_Inr: "assert_open a e = Inr u \<longleftrightarrow> \<not> is_closed (wo_status (we_state e))"
  by (simp add: assert_open_def)

lemma is_closed_simps [simp]:
  "\<not> is_closed WO_RECEIVED" "\<not> is_closed WO_DIAGNOSED" "\<not> is_closed WO_IN_REPAIR" "\<not> is_closed WO_READY"
  "is_closed WO_DELIVERED" "is_closed WO_CANCELLED"
  by (simp_all add: is_closed_def)

lemma move_work_orderE:
  assumes "move_work_order to actor note at e = Inr e'"
  obtains reason where "\<not> is_closed (wo_status (we_state e))"
    and "to = WO_CANCELLED \<or> forward_index (wo_status (we_state e)) < forward_index to"
    and "to = WO_CANCELLED \<longrightarrow> reason \<noteq> None"
    and "e' = e\<lparr>we_state := (we_state e)\<lparr>wo_status := to, wo_closed_at := (if is_closed to then Some at else None)\<rparr>,
           we_changes := we_changes e @
             [\<lparr>wsc_from = Some (wo_status (we_state e)), wsc_to = to, wsc_actor = actor, wsc_note = reason,
               wsc_at = at\<rparr>]\<rparr>"
proof -
  from assms obtain u where o: "assert_open (''move to '' @ work_order_status_name to) e = Inr u"
    by (auto simp: move_work_order_def Let_def res_simps)
  with assms have f: "to = WO_CANCELLED \<or> forward_index (wo_status (we_state e)) < forward_index to"
    by (auto simp: move_work_order_def Let_def res_simps split: if_splits)
  with o assms obtain reason where t: "optional_text note 500 ''A note has at most 500 characters'' = Inr reason"
    by (auto simp: move_work_order_def Let_def res_simps split: if_splits)
  have n: "\<not> (to \<noteq> WO_CANCELLED \<and> forward_index to \<le> forward_index (wo_status (we_state e)))" using f by auto
  from assms show thesis
    unfolding move_work_order_def Let_def o res_bind_Inr if_not_P [OF n] t
    by (cases "to = WO_CANCELLED \<and> reason = None")
      (use o f in \<open>auto intro: that simp: assert_open_Inr\<close>)
qed

lemma link_saleD:
  assumes "link_sale order staff at e = Inr e'"
  defines "l \<equiv> \<lparr>ls_order = order, ls_linked_by = staff, ls_linked_at = at\<rparr>"
  shows "\<not> is_closed (wo_status (we_state e))"
    and "e' = e\<lparr>we_state := (we_state e)\<lparr>wo_sales := wo_sales (we_state e) @ [l]\<rparr>, we_linked := we_linked e @ [l]\<rparr>"
  using assms by (simp_all add: link_sale_def Let_def res_simps assert_open_Inr split: if_splits)

lemma unlink_saleD:
  assumes "unlink_sale order e = Inr e'"
  shows "\<not> is_closed (wo_status (we_state e))"
    and "e' = e\<lparr>we_state := (we_state e)\<lparr>wo_sales := filter (\<lambda>s. ls_order s \<noteq> order) (wo_sales (we_state e))\<rparr>,
           we_unlinked := we_unlinked e @ [order]\<rparr>"
  using assms by (simp_all add: unlink_sale_def res_simps assert_open_Inr split: if_splits)

lemma edit_work_orderE:
  assumes "edit_work_order c e = Inr e'"
  obtains d where "\<not> is_closed (wo_status (we_state e))" "e' = with_state (with_details d (we_state e)) e"
  using assms by (auto simp: edit_work_order_def res_simps assert_open_Inr split: option.splits)

lemma sound_with_sales [simp]: "sound_work_order (w\<lparr>wo_sales := ls\<rparr>) = sound_work_order w"
  by (simp add: sound_work_order_def work_order_checks_def no_customer_data_def)

lemma edit_works:
  assumes e: "edit_work_order c (restore_work_order (work_order_as_read r)) = Inr e'" and r: "sound_work_order r"
  shows "works_on r e'"
proof -
  from e obtain d where o: "\<not> is_closed (wo_status (work_order_as_read r))"
    and e': "e' = with_state (with_details d (work_order_as_read r)) (restore_work_order (work_order_as_read r))"
    by (rule edit_work_orderE) simp
  from o r have "wo_closed_at r = None" "wo_anonymized_at r = None" "wo_blocked_at r = None"
    by (auto simp: sound_work_order_def work_order_checks_def)
  with o show ?thesis by (intro works_onI) (simp_all add: e' with_details_def sound_work_order_def)
qed

lemma move_works:
  assumes e: "move_work_order to actor note at (restore_work_order (work_order_as_read r)) = Inr e'"
    and r: "sound_work_order r"
  shows "works_on r e'"
proof -
  let ?w = "work_order_as_read r"
  from e obtain reason where o: "\<not> is_closed (wo_status r)"
    and f: "to = WO_CANCELLED \<or> forward_index (wo_status r) < forward_index to"
    and n: "to = WO_CANCELLED \<longrightarrow> reason \<noteq> None"
    and e'': "e' = (restore_work_order ?w)\<lparr>
      we_state := ?w\<lparr>wo_status := to, wo_closed_at := (if is_closed to then Some at else None)\<rparr>,
      we_changes := [\<lparr>wsc_from = Some (wo_status r), wsc_to = to, wsc_actor = actor, wsc_note = reason, wsc_at = at\<rparr>]\<rparr>"
    by (rule move_work_orderE) (simp_all add: restore_work_order_def)
  then have e': "we_state e' = ?w\<lparr>wo_status := to, wo_closed_at := (if is_closed to then Some at else None)\<rparr>"
    and c: "we_changes e' =
      [\<lparr>wsc_from = Some (wo_status r), wsc_to = to, wsc_actor = actor, wsc_note = reason, wsc_at = at\<rparr>]"
    by simp_all
  from o r have "wo_closed_at r = None" "wo_anonymized_at r = None"
    by (auto simp: sound_work_order_def work_order_checks_def)
  with o f n c show ?thesis by (intro works_onI) (auto simp: e' sound_work_order_def)
qed

lemma link_works:
  assumes e: "link_sale order staff at (restore_work_order (work_order_as_read r)) = Inr e'" and r: "sound_work_order r"
  shows "works_on r e'"
proof -
  from link_saleD [OF e] r show ?thesis by (intro works_onI) simp_all
qed

lemma unlink_works:
  assumes e: "unlink_sale order (restore_work_order (work_order_as_read r)) = Inr e'" and r: "sound_work_order r"
  shows "works_on r e'"
proof -
  from unlink_saleD [OF e] r show ?thesis by (intro works_onI) simp_all
qed

lemma block_works:
  assumes e: "block_work_order_if_due cutoff at (restore_work_order (work_order_as_read r)) = (True, e')"
    and r: "sound_work_order r"
  shows "works_on r e' \<and> wo_blocked_at r = None \<and> we_linked e' = [] \<and> we_unlinked e' = []"
proof -
  let ?e = "restore_work_order (work_order_as_read r)"
  have g: "\<not> (\<not> closed_by cutoff ?e \<or> work_order_blocked ?e \<or> work_order_anonymized ?e)"
    using e by (simp add: block_work_order_if_due_def split: if_splits)
  then have n: "wo_blocked_at r = None" "wo_anonymized_at r = None" "wo_closed_at r \<noteq> None"
    by (auto simp: work_order_blocked_def work_order_anonymized_def closed_by_def split: option.splits)
  have e': "e' = with_state ((work_order_as_read r)\<lparr>wo_blocked_at := Some at\<rparr>) ?e"
    using e unfolding block_work_order_if_due_def if_not_P [OF g] by simp
  have s: "saved_work_order e' r = r\<lparr>wo_blocked_at := Some at, wo_version := wo_version r + 1\<rparr>"
    by (simp add: saved_work_order_def e' work_order_as_read_def)
  have "only_hidden r (saved_work_order e' r)"
    using n by (simp add: only_hidden_def s outline_def without_customer_def customer_data_def personal_data_of_def Let_def)
  with n r show ?thesis
    by (intro conjI works_onI) (auto simp: e' sound_work_order_def work_order_checks_def)
qed

lemma anonymize_works:
  assumes e: "anonymize_work_order at (restore_work_order (work_order_as_read r)) = Inr e'" and r: "sound_work_order r"
  shows "works_on r e'" "saved_work_order e' r = (without_customer at r)\<lparr>wo_version := wo_version r + 1\<rparr>"
    and "we_linked e' = []" "we_unlinked e' = []" "we_changes e' = []" "work_order_checks (we_state e')"
proof -
  from e have n: "is_closed (wo_status r)" "wo_anonymized_at r = None"
    and e': "e' = with_state (without_customer at (work_order_as_read r)) (restore_work_order (work_order_as_read r))"
    by (auto simp: anonymize_work_order_def work_order_anonymized_def split: if_splits)
  show s: "saved_work_order e' r = (without_customer at r)\<lparr>wo_version := wo_version r + 1\<rparr>"
    by (simp add: saved_work_order_def e' work_order_as_read_def without_customer_def)
  show "we_linked e' = []" "we_unlinked e' = []" "we_changes e' = []" by (simp_all add: e')
  show "work_order_checks (we_state e')"
    using n r by (simp add: e' without_customer_def sound_work_order_def work_order_checks_def)
  have "only_hidden r (saved_work_order e' r)"
    using n by (simp add: only_hidden_def s outline_def without_customer_def)
  with n r show "works_on r e'"
    by (intro works_onI) (auto simp: e' without_customer_def sound_work_order_def no_customer_data_def)
qed

section \<open>What goes on in the tables\<close>

definition later_row :: "work_order \<Rightarrow> work_order \<Rightarrow> bool" where
  "later_row r s =
     (wo_id s = wo_id r \<and> wo_warehouse s = wo_warehouse r \<and> wo_received_by s = wo_received_by r
      \<and> wo_received_at s = wo_received_at r \<and> wo_version r \<le> wo_version s \<and> (wo_version s = wo_version r \<longrightarrow> s = r)
      \<and> (is_closed (wo_status r) \<longrightarrow> only_hidden r s))"

definition kept_on :: "work_orders_db \<Rightarrow> work_orders_db \<Rightarrow> work_order \<Rightarrow> bool" where
  "kept_on rd db r =
     ((\<exists>s. s \<in> set (wk_rows db) \<and> later_row r s)
      \<and> (\<exists>zs. work_history_of (wo_id r) db = work_history_of (wo_id r) rd @ zs
           \<and> (is_closed (wo_status r) \<longrightarrow> zs = [])))"

definition work_goes_on :: "work_orders_db \<Rightarrow> work_orders_db \<Rightarrow> bool" where
  "work_goes_on rd db = (\<forall>r \<in> set (wk_rows rd). kept_on rd db r)"

lemma later_row_refl: "later_row r r"
  by (simp add: later_row_def only_hidden_refl)

lemma later_row_trans: "later_row r s \<Longrightarrow> later_row s t \<Longrightarrow> later_row r t"
proof -
  assume rs: "later_row r s" and st: "later_row s t"
  have "is_closed (wo_status r) \<Longrightarrow> only_hidden r t"
    using rs st only_hidden_status [of r s] only_hidden_trans [of r s t] by (simp add: later_row_def)
  moreover have "wo_version t = wo_version r \<Longrightarrow> t = r"
    using rs st by (simp add: later_row_def)
  ultimately show ?thesis using rs st by (simp add: later_row_def)
qed

lemma later_row_closed: "later_row r s \<Longrightarrow> is_closed (wo_status r) \<Longrightarrow> is_closed (wo_status s)"
  by (metis later_row_def only_hidden_status)

lemma work_goes_on_refl: "work_goes_on db db"
  by (auto simp: work_goes_on_def kept_on_def intro: later_row_refl)

lemma work_goes_on_trans: "work_goes_on a b \<Longrightarrow> work_goes_on b c \<Longrightarrow> work_goes_on a c"
  unfolding work_goes_on_def
proof (rule ballI)
  fix r
  assume ab: "\<forall>r \<in> set (wk_rows a). kept_on a b r" and bc: "\<forall>r \<in> set (wk_rows b). kept_on b c r"
    and r: "r \<in> set (wk_rows a)"
  from ab r obtain s xs where s: "s \<in> set (wk_rows b)" "later_row r s"
    and xs: "work_history_of (wo_id r) b = work_history_of (wo_id r) a @ xs" "is_closed (wo_status r) \<longrightarrow> xs = []"
    unfolding kept_on_def by blast
  from bc s(1) obtain t ys where t: "t \<in> set (wk_rows c)" "later_row s t"
    and ys: "work_history_of (wo_id s) c = work_history_of (wo_id s) b @ ys" "is_closed (wo_status s) \<longrightarrow> ys = []"
    unfolding kept_on_def by blast
  have i: "wo_id s = wo_id r" using s(2) by (simp add: later_row_def)
  have "work_history_of (wo_id r) c = work_history_of (wo_id r) a @ (xs @ ys)" using xs(1) ys(1) by (simp add: i)
  moreover have "is_closed (wo_status r) \<longrightarrow> xs @ ys = []"
    using xs(2) ys(2) later_row_closed [OF s(2)] by simp
  ultimately show "kept_on a c r"
    unfolding kept_on_def using t(1) later_row_trans [OF s(2) t(2)] by blast
qed

lemma saved_fields [simp]:
  "wo_id (saved_work_order e r) = wo_id (we_state e)" "wo_status (saved_work_order e r) = wo_status (we_state e)"
  "wo_version (saved_work_order e r) = wo_version r + 1" "wo_warehouse (saved_work_order e r) = wo_warehouse r"
  "wo_received_by (saved_work_order e r) = wo_received_by r"
  "wo_received_at (saved_work_order e r) = wo_received_at r"
  "sound_work_order (saved_work_order e r) = sound_work_order (we_state e)"
  by (simp_all add: saved_work_order_def sound_work_order_def work_order_checks_def no_customer_data_def)

lemma history_appended:
  "wk_history db' = wk_history db @ map (Pair i) cs \<Longrightarrow>
     work_history_of j db' = work_history_of j db @ (if j = i then cs else [])"
  by (induction cs arbitrary: db db') (auto simp: work_history_of_def comp_def filter_map)

lemma save_sound:
  assumes s: "save_work_order e db = Inr db'" and wf: "wf_work_orders db" and r: "r \<in> set (wk_rows db)"
    and w: "works_on r e"
  shows "wf_work_orders db'" "work_goes_on db db'"
    and "wk_rows db' = map (\<lambda>x. if wo_id x = wo_id r then saved_work_order e x else x) (wk_rows db)"
proof -
  have d: "distinct (map wo_id (wk_rows db))" using wf by (simp add: wf_work_orders_def)
  from s d obtain q where q: "q \<in> set (wk_rows db)" "wo_id q = wo_id (we_state e)" "work_order_checks (we_state e)"
    and rows: "wk_rows db' = map (\<lambda>x. if wo_id x = wo_id q then saved_work_order e x else x) (wk_rows db)"
    and sales: "distinct (sale_orders (wk_rows db'))"
    and h: "wk_history db' = wk_history db @ map (Pair (wo_id q)) (we_changes e)"
    and n: "wk_numbers db' = wk_numbers db"
    by (rule save_work_orderE)
  from q(1,2) r w d have qr: "q = r" by (metis works_on_def distinct_map inj_onD)
  show rows': "wk_rows db' = map (\<lambda>x. if wo_id x = wo_id r then saved_work_order e x else x) (wk_rows db)"
    using rows by (simp add: qr)
  have i: "wo_id (we_state e) = wo_id r" using w by (simp add: works_on_def)
  have ids: "map wo_id (wk_rows db') = map wo_id (wk_rows db)" by (simp add: rows' i)
  have sound: "sound_work_order (we_state e)" using w q(3) by (simp add: works_on_def)
  have hist: "work_history_of j db' = work_history_of j db @ (if j = wo_id r then we_changes e else [])" for j
    using history_appended [OF h] by (simp add: qr)
  have only: "x = r" if "x \<in> set (wk_rows db)" "wo_id x = wo_id r" for x
    using that r d by (metis distinct_map inj_onD)
  have cases: "x' \<in> set (wk_rows db) \<and> wo_id x' \<noteq> wo_id r \<or> x' = saved_work_order e r"
    if "x' \<in> set (wk_rows db')" for x'
    using that only by (auto simp: rows')
  have "list_all sound_work_order (wk_rows db')"
    using wf cases sound unfolding list_all_iff wf_work_orders_def by (metis saved_fields(7))
  moreover have "list_all (\<lambda>w. legal_path None (work_history_of (wo_id w) db') (wo_status w)) (wk_rows db')"
  proof (unfold list_all_iff, rule ballI)
    fix x' assume "x' \<in> set (wk_rows db')"
    then consider "x' \<in> set (wk_rows db)" "wo_id x' \<noteq> wo_id r" | "x' = saved_work_order e r" using cases by blast
    then show "legal_path None (work_history_of (wo_id x') db') (wo_status x')"
    proof cases
      case 1
      with wf show ?thesis by (simp add: hist wf_work_orders_def list_all_iff)
    next
      case 2
      have "legal_path None (work_history_of (wo_id r) db) (wo_status r)"
        using wf r by (simp add: wf_work_orders_def list_all_iff)
      then show ?thesis using w by (simp add: 2 hist i works_on_def legal_path_append)
    qed
  qed
  moreover have "list_all (\<lambda>h. fst h \<in> set (map wo_id (wk_rows db'))) (wk_history db')"
    using wf q(1) by (auto simp: ids h wf_work_orders_def list_all_iff qr simp del: set_map)
      (use r in auto)
  ultimately show "wf_work_orders db'"
    using wf sales by (simp add: wf_work_orders_def ids n del: set_map)
  show "work_goes_on db db'"
    unfolding work_goes_on_def
  proof (rule ballI)
    fix x assume x: "x \<in> set (wk_rows db)"
    show "kept_on db db' x"
    proof (cases "wo_id x = wo_id r")
      case True
      then have xr: "x = r" using only x by blast
      have "saved_work_order e r \<in> set (wk_rows db')" using r by (auto simp: rows')
      moreover have "later_row r (saved_work_order e r)" using w by (simp add: later_row_def works_on_def)
      ultimately show ?thesis unfolding kept_on_def using w by (auto simp: xr hist works_on_def)
    next
      case False
      then have "x \<in> set (wk_rows db')" using x by (force simp: rows')
      then show ?thesis unfolding kept_on_def using False later_row_refl by (auto simp: hist)
    qed
  qed
qed

lemma insert_sound:
  assumes s: "insert_work_order e n db = Inr db'" and wf: "wf_work_orders db"
    and e: "receive_work_order i d w staff at = Inr e"
  shows "wf_work_orders db'" "work_goes_on db db'"
proof -
  let ?w = "we_state e"
  let ?row = "?w\<lparr>wo_sales := [], wo_blocked_at := None, wo_anonymized_at := None\<rparr>"
  from e have w: "wo_status ?w = WO_RECEIVED" "wo_closed_at ?w = None"
    and c: "we_changes e = [\<lparr>wsc_from = None, wsc_to = WO_RECEIVED, wsc_actor = staff, wsc_note = None, wsc_at = at\<rparr>]"
    and a: "wo_anonymized_at ?w = None" "wo_blocked_at ?w = None"
    by (auto simp: receive_work_order_def res_simps)
  from s have new: "wo_id ?w \<notin> set (map wo_id (wk_rows db))" "n \<notin> set (map snd (wk_numbers db))"
    and ch: "work_order_checks ?w"
    and rows: "wk_rows db' = wk_rows db @ [?row]" and h: "wk_history db' = wk_history db @ map (Pair (wo_id ?w)) (we_changes e)"
    and num: "wk_numbers db' = wk_numbers db @ [(wo_id ?w, n)]"
    by (auto simp: insert_work_order_def Let_def list_ex_iff split: if_splits)
  have hist: "work_history_of j db' = work_history_of j db @ (if j = wo_id ?w then we_changes e else [])" for j
    by (rule history_appended [OF h])
  have none: "work_history_of (wo_id ?w) db = []"
    using wf new(1) by (auto simp: work_history_of_def wf_work_orders_def list_all_iff filter_empty_conv)
  have "sound_work_order ?row"
    using w ch a by (simp add: sound_work_order_def work_order_checks_def)
  moreover have "legal_path None (work_history_of (wo_id ?row) db') (wo_status ?row)"
    by (simp add: hist none c w)
  moreover have "list_all (\<lambda>x. legal_path None (work_history_of (wo_id x) db') (wo_status x)) (wk_rows db)"
  proof (unfold list_all_iff, rule ballI)
    fix x assume x: "x \<in> set (wk_rows db)"
    then have "wo_id x \<noteq> wo_id ?w" using new(1) by (metis image_eqI set_map)
    with wf x show "legal_path None (work_history_of (wo_id x) db') (wo_status x)"
      by (simp add: hist wf_work_orders_def list_all_iff)
  qed
  moreover have "list_all (\<lambda>h. fst h \<in> set (map wo_id (wk_rows db'))) (wk_history db')"
    using wf by (auto simp: rows h wf_work_orders_def list_all_iff)
  ultimately show "wf_work_orders db'"
    using wf new by (simp add: wf_work_orders_def rows num)
  show "work_goes_on db db'"
    unfolding work_goes_on_def kept_on_def
  proof (intro ballI conjI)
    fix r assume r: "r \<in> set (wk_rows db)"
    then show "\<exists>s. s \<in> set (wk_rows db') \<and> later_row r s" using later_row_refl by (auto simp: rows)
    from r have "wo_id r \<noteq> wo_id ?w" using new(1) by (metis image_eqI set_map)
    then show "\<exists>zs. work_history_of (wo_id r) db' = work_history_of (wo_id r) db @ zs
        \<and> (is_closed (wo_status r) \<longrightarrow> zs = [])"
      by (simp add: hist)
  qed
qed

section \<open>One transaction\<close>

text \<open>
  Everything that happens to the work orders, read from tables that may be older than those it changes: a save finds
  the version it read, so what was read is what is there.
\<close>

lemma save_needs:
  assumes s: "save_work_order e' db = Inr db'" and f: "find_work_order i rd = Some e"
    and same: "wo_id (we_state e') = wo_id (we_state e)" "wo_version (we_state e') = wo_version (we_state e)"
    and older: "work_goes_on rd db" and wf: "wf_work_orders db"
  shows "find_work_order i db = Some e"
proof -
  have d: "distinct (map wo_id (wk_rows db))" using wf by (simp add: wf_work_orders_def)
  from f obtain r where r: "r \<in> set (wk_rows rd)" "wo_id r = i" "e = restore_work_order (work_order_as_read r)"
    by (rule find_work_orderE)
  from s d obtain q where q: "q \<in> set (wk_rows db)" "wo_id q = wo_id (we_state e')"
    "wo_version q = wo_version (we_state e')"
    by (rule save_work_orderE)
  from older r(1) obtain t where t: "t \<in> set (wk_rows db)" "later_row r t"
    unfolding work_goes_on_def kept_on_def by blast
  have "wo_id q = wo_id t" using q(2) t(2) r same by (simp add: later_row_def)
  then have "q = t" using q(1) t(1) d by (metis distinct_map inj_onD)
  then have "t = r" using q(3) t(2) r same by (simp add: later_row_def)
  then show ?thesis using find_work_orderI [OF d t(1)] r by simp
qed

lemma edit_same:
  "edit_work_order c e = Inr e' \<Longrightarrow> wo_id (we_state e') = wo_id (we_state e) \<and> wo_version (we_state e') = wo_version (we_state e)"
  by (erule edit_work_orderE) (simp add: with_details_def)

lemma move_same:
  "move_work_order to a n at e = Inr e' \<Longrightarrow>
     wo_id (we_state e') = wo_id (we_state e) \<and> wo_version (we_state e') = wo_version (we_state e)"
  by (erule move_work_orderE) simp

lemma link_same:
  "link_sale k a at e = Inr e' \<Longrightarrow> wo_id (we_state e') = wo_id (we_state e) \<and> wo_version (we_state e') = wo_version (we_state e)"
  using link_saleD(2) by fastforce

lemma unlink_same:
  "unlink_sale k e = Inr e' \<Longrightarrow> wo_id (we_state e') = wo_id (we_state e) \<and> wo_version (we_state e') = wo_version (we_state e)"
  using unlink_saleD(2) by fastforce

lemma found_work_order_Inr: "found_work_order i db = Inr e \<longleftrightarrow> find_work_order i db = Some e"
  by (simp add: found_work_order_def split: option.splits)

text \<open>What a transaction does is nothing, an insertion, or a save of what it read from the tables it changes.\<close>

lemma saved_sound:
  assumes s: "save_work_order e' db = Inr db'" and wf: "wf_work_orders db" and f: "find_work_order i db = Some e"
    and w: "\<And>r. e = restore_work_order (work_order_as_read r) \<Longrightarrow> sound_work_order r \<Longrightarrow> works_on r e'"
  shows "wf_work_orders db' \<and> work_goes_on db db'"
proof -
  from f obtain r where r: "r \<in> set (wk_rows db)" "e = restore_work_order (work_order_as_read r)"
    by (rule find_work_orderE)
  have "sound_work_order r" using wf r(1) by (simp add: wf_work_orders_def list_all_iff)
  from save_sound [OF s wf r(1) w [OF r(2) this]] show ?thesis by simp
qed

lemma nothing_sound: "wf_work_orders db \<Longrightarrow> wf_work_orders db \<and> work_goes_on db db"
  by (simp add: work_goes_on_refl)

lemma receive_sound:
  "receive_equipment X i n d w s now db = Inr db' \<Longrightarrow> wf_work_orders db \<Longrightarrow>
     wf_work_orders db' \<and> work_goes_on db db'"
  using insert_sound by (auto simp: receive_equipment_def res_simps split: if_splits)

lemma update_sound:
  assumes older: "work_goes_on rd db" and wf: "wf_work_orders db"
    and step: "update_work_order X i c v rd db = Inr db'"
  shows "wf_work_orders db' \<and> work_goes_on db db'"
proof -
  from step obtain e e' where f: "find_work_order i rd = Some e" and e: "edit_work_order c e = Inr e'"
    and s: "db' = db \<or> save_work_order e' db = Inr db'"
    by (auto simp: update_work_order_def res_simps found_work_order_Inr split: if_splits)
  from s show ?thesis
  proof
    assume s: "save_work_order e' db = Inr db'"
    from edit_same [OF e] have fd: "find_work_order i db = Some e" by (intro save_needs [OF s f _ _ older wf]) auto
    show ?thesis by (rule saved_sound [OF s wf fd]) (use e edit_works in blast)
  qed (simp add: nothing_sound [OF wf])
qed

lemma move_sound:
  assumes older: "work_goes_on rd db" and wf: "wf_work_orders db"
    and step: "move_work_order_to i st n a v now rd db = Inr db'"
  shows "wf_work_orders db' \<and> work_goes_on db db'"
proof -
  from step obtain e e' where f: "find_work_order i rd = Some e" and e: "move_work_order st a n now e = Inr e'"
    and s: "save_work_order e' db = Inr db'"
    by (auto simp: move_work_order_to_def res_simps found_work_order_Inr)
  from move_same [OF e] have fd: "find_work_order i db = Some e" by (intro save_needs [OF s f _ _ older wf]) auto
  show ?thesis by (rule saved_sound [OF s wf fd]) (use e move_works in blast)
qed

lemma link_sound:
  assumes older: "work_goes_on rd db" and wf: "wf_work_orders db"
    and step: "link_work_order_sale X i k a v now rd db = Inr db'"
  shows "wf_work_orders db' \<and> work_goes_on db db'"
proof -
  from step obtain e e' where f: "find_work_order i rd = Some e" and e: "link_sale k a now e = Inr e'"
    and s: "save_work_order e' db = Inr db'"
    by (cases "store_sales [k] (wx_store X)")
      (auto simp: link_work_order_sale_def res_simps found_work_order_Inr split: prod.splits if_splits)
  from link_same [OF e] have fd: "find_work_order i db = Some e" by (intro save_needs [OF s f _ _ older wf]) auto
  show ?thesis by (rule saved_sound [OF s wf fd]) (use e link_works in blast)
qed

lemma unlink_sound:
  assumes older: "work_goes_on rd db" and wf: "wf_work_orders db"
    and step: "unlink_work_order_sale i k v rd db = Inr db'"
  shows "wf_work_orders db' \<and> work_goes_on db db'"
proof -
  from step obtain e e' where f: "find_work_order i rd = Some e" and e: "unlink_sale k e = Inr e'"
    and s: "save_work_order e' db = Inr db'"
    by (auto simp: unlink_work_order_sale_def res_simps found_work_order_Inr)
  from unlink_same [OF e] have fd: "find_work_order i db = Some e" by (intro save_needs [OF s f _ _ older wf]) auto
  show ?thesis by (rule saved_sound [OF s wf fd]) (use e unlink_works in blast)
qed

lemma anonymize_one_sound:
  assumes s: "anonymize_and_save at e db = Inr db'" and f: "find_work_order i db = Some e" and wf: "wf_work_orders db"
  shows "wf_work_orders db' \<and> work_goes_on db db'"
proof -
  from s obtain e' where e: "anonymize_work_order at e = Inr e'" and s': "save_work_order e' db = Inr db'"
    by (auto simp: anonymize_and_save_def res_simps)
  show ?thesis by (rule saved_sound [OF s' wf f]) (use e in \<open>auto dest: anonymize_works(1)\<close>)
qed

lemma block_due_sound:
  assumes s: "block_due_work_order cutoff now i db = Inr (b, db')" and wf: "wf_work_orders db"
  shows "wf_work_orders db' \<and> work_goes_on db db'"
proof (cases "find_work_order i db")
  case None
  with s nothing_sound [OF wf] show ?thesis by (simp add: block_due_work_order_def)
next
  case (Some e)
  obtain c e' where e: "block_work_order_if_due cutoff now e = (c, e')" by fastforce
  show ?thesis
  proof (cases c)
    case True
    with s Some e have s': "save_work_order e' db = Inr db'" by (auto simp: block_due_work_order_def res_simps)
    show ?thesis by (rule saved_sound [OF s' wf Some]) (use e True in \<open>auto dest: block_works\<close>)
  next
    case False
    with s Some e nothing_sound [OF wf] show ?thesis by (simp add: block_due_work_order_def)
  qed
qed

lemma anonymize_due_sound:
  assumes s: "anonymize_due_work_order cutoff now i db = Inr (b, db')" and wf: "wf_work_orders db"
  shows "wf_work_orders db' \<and> work_goes_on db db'"
proof (cases "find_work_order i db")
  case None
  with s nothing_sound [OF wf] show ?thesis by (simp add: anonymize_due_work_order_def)
next
  case (Some e)
  then show ?thesis
    using s nothing_sound [OF wf] anonymize_one_sound [OF _ Some wf, of now db']
    by (auto simp: anonymize_due_work_order_def res_simps split: if_splits)
qed

section \<open>Anonymizing those of a customer\<close>

definition is_of_customer :: "id \<Rightarrow> work_order \<Rightarrow> bool" where
  "is_of_customer c w = (wo_customer w = Some c \<and> wo_anonymized_at w = None)"

text \<open>Going through rows that are there, over, and still have their data, takes it away from each.\<close>

lemma anonymize_each:
  assumes "wf_work_orders db" and "distinct (map wo_id rs)" and "set rs \<subseteq> set (wk_rows db)"
    and "\<And>r. r \<in> set rs \<Longrightarrow> wo_closed_at r \<noteq> None \<and> wo_anonymized_at r = None"
  shows "\<exists>db'. res_fold (\<lambda>d e. anonymize_and_save at e d) db (map (\<lambda>r. restore_work_order (work_order_as_read r)) rs) = Inr db'
    \<and> wf_work_orders db' \<and> work_goes_on db db'
    \<and> wk_rows db' = map (\<lambda>r. if wo_id r \<in> wo_id ` set rs
          then (without_customer at r)\<lparr>wo_version := wo_version r + 1\<rparr> else r) (wk_rows db)"
  using assms
proof (induction rs arbitrary: db)
  case Nil
  then show ?case by (simp add: work_goes_on_refl)
next
  case (Cons r rs)
  let ?e = "restore_work_order (work_order_as_read r)"
  let ?f = "\<lambda>x. (without_customer at x)\<lparr>wo_version := wo_version x + 1\<rparr>"
  have d: "distinct (map wo_id (wk_rows db))" "distinct (sale_orders (wk_rows db))"
    using Cons.prems(1) by (simp_all add: wf_work_orders_def)
  have r: "r \<in> set (wk_rows db)" "wo_closed_at r \<noteq> None" "wo_anonymized_at r = None"
    using Cons.prems(3,4) by simp_all
  have so: "sound_work_order r" using Cons.prems(1) r(1) by (simp add: wf_work_orders_def list_all_iff)
  then have "is_closed (wo_status r)" using r(2) by (simp add: sound_work_order_def)
  then obtain e' where e: "anonymize_work_order at ?e = Inr e'"
    using r(3) by (simp add: anonymize_work_order_def work_order_anonymized_def)
  note w = anonymize_works [OF e so]
  have i: "wo_id r = wo_id (we_state e')" "wo_version r = wo_version (we_state e')"
    using w(1) by (simp_all add: works_on_def)
  from save_work_order_goes [OF r(1) i d w(6) w(3) w(4)] obtain db1 where s: "save_work_order e' db = Inr db1" by blast
  note sv = save_sound [OF s Cons.prems(1) r(1) w(1)]
  have only: "x = r" if "x \<in> set (wk_rows db)" "wo_id x = wo_id r" for x
    using that r(1) d(1) by (metis distinct_map inj_onD)
  have rows1: "wk_rows db1 = map (\<lambda>x. if wo_id x = wo_id r then ?f x else x) (wk_rows db)"
    unfolding sv(3) using only w(2) by (intro map_cong) auto
  have ids: "wo_id r \<notin> wo_id ` set rs" using Cons.prems(2) by simp
  have sub: "set rs \<subseteq> set (wk_rows db1)"
  proof
    fix x assume x: "x \<in> set rs"
    then have "wo_id x \<noteq> wo_id r" using ids by (metis imageI)
    moreover have "x \<in> set (wk_rows db)" using x Cons.prems(3) by auto
    ultimately show "x \<in> set (wk_rows db1)" unfolding rows1 by force
  qed
  have "distinct (map wo_id rs)" using Cons.prems(2) by simp
  from Cons.IH [OF sv(1) this sub] Cons.prems(4) obtain db2 where
    f2: "res_fold (\<lambda>d e. anonymize_and_save at e d) db1 (map (\<lambda>r. restore_work_order (work_order_as_read r)) rs) = Inr db2"
    and wf2: "wf_work_orders db2" and g2: "work_goes_on db1 db2"
    and rows2: "wk_rows db2 = map (\<lambda>r. if wo_id r \<in> wo_id ` set rs then ?f r else r) (wk_rows db1)"
    by auto
  have "anonymize_and_save at ?e db = Inr db1" by (simp add: anonymize_and_save_def e s)
  then have "res_fold (\<lambda>d e. anonymize_and_save at e d) db
      (map (\<lambda>r. restore_work_order (work_order_as_read r)) (r # rs)) = Inr db2"
    using f2 by simp
  moreover have "wk_rows db2 = map (\<lambda>x. if wo_id x \<in> wo_id ` set (r # rs) then ?f x else x) (wk_rows db)"
    unfolding rows2 rows1 using ids by (auto simp: without_customer_def)
  ultimately show ?case using wf2 work_goes_on_trans [OF sv(2) g2] by blast
qed

lemma anonymize_those_of:
  assumes wf: "wf_work_orders db"
  shows "list_ex (\<lambda>w. is_of_customer c w \<and> wo_closed_at w = None) (wk_rows db) \<Longrightarrow>
      anonymize_work_orders_of c at db = Inl (WorkOrderError OpenWorkOrdersError)"
    and "\<not> list_ex (\<lambda>w. is_of_customer c w \<and> wo_closed_at w = None) (wk_rows db) \<Longrightarrow>
      \<exists>db'. anonymize_work_orders_of c at db = Inr (length (filter (is_of_customer c) (wk_rows db)), db')
        \<and> wf_work_orders db' \<and> work_goes_on db db'
        \<and> wk_rows db' = map (\<lambda>r. if is_of_customer c r then (without_customer at r)\<lparr>wo_version := wo_version r + 1\<rparr>
            else r) (wk_rows db)"
proof -
  let ?rs = "sort_key wo_id (filter (is_of_customer c) (wk_rows db))"
  have l: "lock_work_orders_of c db = map (\<lambda>r. restore_work_order (work_order_as_read r)) ?rs"
    by (simp add: lock_work_orders_of_def is_of_customer_def [abs_def])
  have op: "list_ex (\<lambda>e. wo_closed_at (we_state e) = None) (lock_work_orders_of c db)
      \<longleftrightarrow> list_ex (\<lambda>w. is_of_customer c w \<and> wo_closed_at w = None) (wk_rows db)"
    by (auto simp: l list_ex_iff)
  show "list_ex (\<lambda>w. is_of_customer c w \<and> wo_closed_at w = None) (wk_rows db) \<Longrightarrow>
      anonymize_work_orders_of c at db = Inl (WorkOrderError OpenWorkOrdersError)"
    by (simp add: anonymize_work_orders_of_def Let_def op)
  assume n: "\<not> list_ex (\<lambda>w. is_of_customer c w \<and> wo_closed_at w = None) (wk_rows db)"
  have d: "distinct (map wo_id (wk_rows db))" using wf by (simp add: wf_work_orders_def)
  have 1: "distinct (map wo_id ?rs)" using d by (auto simp: distinct_map intro: inj_on_subset)
  have 2: "set ?rs \<subseteq> set (wk_rows db)" by auto
  have 3: "wo_closed_at r \<noteq> None \<and> wo_anonymized_at r = None" if "r \<in> set ?rs" for r
    using that n by (auto simp: list_ex_iff is_of_customer_def)
  have m: "wo_id x \<in> wo_id ` set ?rs \<longleftrightarrow> is_of_customer c x" if "x \<in> set (wk_rows db)" for x
    using that d by (auto simp: distinct_map dest: inj_onD)
  from anonymize_each [OF wf 1 2 3, of at] obtain db' where
    f: "res_fold (\<lambda>d e. anonymize_and_save at e d) db (lock_work_orders_of c db) = Inr db'"
    and w: "wf_work_orders db'" "work_goes_on db db'"
    and rows: "wk_rows db' = map (\<lambda>r. if wo_id r \<in> wo_id ` set ?rs
          then (without_customer at r)\<lparr>wo_version := wo_version r + 1\<rparr> else r) (wk_rows db)"
    unfolding l by blast
  have "wk_rows db' = map (\<lambda>r. if is_of_customer c r then (without_customer at r)\<lparr>wo_version := wo_version r + 1\<rparr>
            else r) (wk_rows db)"
    unfolding rows using m by (intro map_cong) auto
  moreover have "anonymize_work_orders_of c at db = Inr (length (filter (is_of_customer c) (wk_rows db)), db')"
    using n op f by (simp add: anonymize_work_orders_of_def Let_def) (simp add: l)
  ultimately show "\<exists>db'. anonymize_work_orders_of c at db = Inr (length (filter (is_of_customer c) (wk_rows db)), db')
        \<and> wf_work_orders db' \<and> work_goes_on db db'
        \<and> wk_rows db' = map (\<lambda>r. if is_of_customer c r then (without_customer at r)\<lparr>wo_version := wo_version r + 1\<rparr>
            else r) (wk_rows db)"
    using w by blast
qed

section \<open>Any order of transactions\<close>

lemma work_step_sound:
  assumes s: "work_step X rd db ev = Inr db'" and wf: "wf_work_orders db" and older: "work_goes_on rd db"
  shows "wf_work_orders db' \<and> work_goes_on db db'"
proof (cases ev)
  case (ReceiveEquipment i n d w a now)
  with s wf show ?thesis by (auto dest: receive_sound)
next
  case (UpdateWorkOrder i c v)
  with s show ?thesis by (auto dest: update_sound [OF older wf])
next
  case (MoveWorkOrder i st n a v now)
  with s show ?thesis by (auto dest: move_sound [OF older wf])
next
  case (LinkWorkOrderSale i k a v now)
  with s show ?thesis by (auto dest: link_sound [OF older wf])
next
  case (UnlinkWorkOrderSale i k v)
  with s show ?thesis by (auto dest: unlink_sound [OF older wf])
next
  case (AnonymizeWorkOrder i now)
  with s obtain e where "find_work_order i db = Some e" "anonymize_and_save now e db = Inr db'"
    by (auto simp: anonymize_one_work_order_def res_simps found_work_order_Inr)
  with wf show ?thesis by (auto dest: anonymize_one_sound)
next
  case (AnonymizeWorkOrdersOf c at)
  with s obtain n where a: "anonymize_work_orders_of c at db = Inr (n, db')" by (auto simp: res_simps)
  then have "\<not> list_ex (\<lambda>w. is_of_customer c w \<and> wo_closed_at w = None) (wk_rows db)"
    using anonymize_those_of(1) [OF wf, of c at] by auto
  with a anonymize_those_of(2) [OF wf this, of at] show ?thesis by auto
next
  case (BlockDueWorkOrder cutoff now i)
  with s wf show ?thesis by (auto simp: res_simps dest: block_due_sound)
next
  case (AnonymizeDueWorkOrder cutoff now i)
  with s wf show ?thesis by (auto simp: res_simps dest: anonymize_due_sound)
qed

text \<open>The tables there have been, the newest first; the other modules are any at each step.\<close>

inductive work_order_history :: "work_orders_db list \<Rightarrow> bool" where
  start: "wf_work_orders db \<Longrightarrow> work_order_history [db]"
| step: "work_order_history (db # past) \<Longrightarrow> rd \<in> set (db # past) \<Longrightarrow> work_step X rd db ev = Inr db' \<Longrightarrow>
    work_order_history (db' # db # past)"

lemma work_history_sound:
  "work_order_history h \<Longrightarrow> h \<noteq> [] \<and> wf_work_orders (hd h) \<and> (\<forall>p \<in> set h. work_goes_on p (hd h))"
proof (induction rule: work_order_history.induct)
  case (start db)
  then show ?case by (simp add: work_goes_on_refl)
next
  case (step db past rd X ev db')
  then have "wf_work_orders db" "work_goes_on rd db" by auto
  from work_step_sound [OF step.hyps(3) this]
  have "wf_work_orders db'" "work_goes_on db db'" by auto
  with step.IH show ?case by (auto intro: work_goes_on_refl work_goes_on_trans)
qed

section \<open>The retention\<close>

lemma retain_each:
  assumes go: "\<And>d r. wf_work_orders d \<Longrightarrow> r \<in> set (wk_rows d) \<Longrightarrow> P r \<Longrightarrow> \<exists>d'. work (wo_id r) d = Inr (True, d')
      \<and> wf_work_orders d' \<and> wk_rows d' = map (\<lambda>x. if wo_id x = wo_id r then change x else x) (wk_rows d)"
    and same: "\<And>r. wo_id (change r) = wo_id r" and tally: "\<And>t. wn_failed (tally t) = wn_failed t"
  shows "wf_work_orders db \<Longrightarrow> distinct (map wo_id rs) \<Longrightarrow> set rs \<subseteq> set (wk_rows db) \<Longrightarrow> list_all P rs \<Longrightarrow>
    \<exists>t db'. fold (retain_next tally work) (map wo_id rs) (t0, db) = (t, db') \<and> wn_failed t = wn_failed t0
      \<and> wf_work_orders db'
      \<and> wk_rows db' = map (\<lambda>r. if wo_id r \<in> wo_id ` set rs then change r else r) (wk_rows db)"
proof (induction rs arbitrary: t0 db)
  case Nil
  then show ?case by simp
next
  case (Cons r rs)
  from go [OF Cons.prems(1), of r] Cons.prems(3,4) obtain d1 where w: "work (wo_id r) db = Inr (True, d1)"
    and wf1: "wf_work_orders d1"
    and rows1: "wk_rows d1 = map (\<lambda>x. if wo_id x = wo_id r then change x else x) (wk_rows db)"
    by auto
  have ids: "wo_id r \<notin> wo_id ` set rs" "distinct (map wo_id rs)" using Cons.prems(2) by simp_all
  have sub: "set rs \<subseteq> set (wk_rows d1)"
  proof
    fix x assume x: "x \<in> set rs"
    then have "wo_id x \<noteq> wo_id r" using ids by (metis imageI)
    moreover have "x \<in> set (wk_rows db)" using x Cons.prems(3) by auto
    ultimately show "x \<in> set (wk_rows d1)" unfolding rows1 by force
  qed
  have "list_all P rs" using Cons.prems(4) by simp
  from Cons.IH [OF wf1 ids(2) sub this, of "tally t0"] obtain t db' where
    f: "fold (retain_next tally work) (map wo_id rs) (tally t0, d1) = (t, db')" "wn_failed t = wn_failed (tally t0)"
    and wf': "wf_work_orders db'"
    and rows2: "wk_rows db' = map (\<lambda>r. if wo_id r \<in> wo_id ` set rs then change r else r) (wk_rows d1)"
    by blast
  have "retain_next tally work (wo_id r) (t0, db) = (tally t0, d1)" by (simp add: retain_next_def w)
  with f have "fold (retain_next tally work) (map wo_id (r # rs)) (t0, db) = (t, db')" "wn_failed t = wn_failed t0"
    by (simp_all add: tally)
  moreover have "wk_rows db' = map (\<lambda>x. if wo_id x \<in> wo_id ` set (r # rs) then change x else x) (wk_rows db)"
    unfolding rows2 rows1 using ids by (auto simp: same)
  ultimately show ?case using wf' by blast
qed

definition blocked_row :: "time \<Rightarrow> work_order \<Rightarrow> work_order" where
  "blocked_row at w = w\<lparr>wo_blocked_at := Some at, wo_version := wo_version w + 1\<rparr>"

definition forgotten_row :: "time \<Rightarrow> work_order \<Rightarrow> work_order" where
  "forgotten_row at w = (without_customer at w)\<lparr>wo_version := wo_version w + 1\<rparr>"

definition due_to_block :: "time \<Rightarrow> work_order \<Rightarrow> bool" where
  "due_to_block cutoff w = (closed_at_or_before cutoff w \<and> wo_blocked_at w = None \<and> wo_anonymized_at w = None)"

definition due_to_forget :: "time \<Rightarrow> work_order \<Rightarrow> bool" where
  "due_to_forget cutoff w = (closed_at_or_before cutoff w \<and> wo_anonymized_at w = None)"

lemma row_changed:
  "saved_work_order e r = f r \<Longrightarrow> distinct (map wo_id ws) \<Longrightarrow> r \<in> set ws \<Longrightarrow>
     map (\<lambda>x. if wo_id x = wo_id r then saved_work_order e x else x) ws = map (\<lambda>x. if wo_id x = wo_id r then f x else x) ws"
  by (intro map_cong refl if_cong) (metis distinct_map inj_onD)

lemma block_due_goes:
  assumes wf: "wf_work_orders d" and r: "r \<in> set (wk_rows d)" and due: "due_to_block cutoff r"
  shows "\<exists>d'. block_due_work_order cutoff now (wo_id r) d = Inr (True, d') \<and> wf_work_orders d'
    \<and> wk_rows d' = map (\<lambda>x. if wo_id x = wo_id r then blocked_row now x else x) (wk_rows d)"
proof -
  let ?e = "restore_work_order (work_order_as_read r)"
  let ?e' = "with_state ((work_order_as_read r)\<lparr>wo_blocked_at := Some now\<rparr>) ?e"
  have d: "distinct (map wo_id (wk_rows d))" "distinct (sale_orders (wk_rows d))" and so: "sound_work_order r"
    using wf r by (simp_all add: wf_work_orders_def list_all_iff)
  have b: "block_work_order_if_due cutoff now ?e = (True, ?e')"
    using due by (simp add: block_work_order_if_due_def due_to_block_def closed_by_def closed_at_or_before_def
        work_order_blocked_def work_order_anonymized_def)
  note w = block_works [OF b so]
  have "wo_closed_at r \<noteq> None" using due by (auto simp: due_to_block_def closed_at_or_before_def split: option.splits)
  then have ch: "work_order_checks (we_state ?e')" using so by (simp add: sound_work_order_def work_order_checks_def)
  from save_work_order_goes [OF r _ _ d ch] obtain d' where s: "save_work_order ?e' d = Inr d'" by auto
  have sv: "saved_work_order ?e' r = blocked_row now r"
    by (simp add: saved_work_order_def blocked_row_def work_order_as_read_def)
  have "block_due_work_order cutoff now (wo_id r) d = Inr (True, d')"
    by (simp add: block_due_work_order_def find_work_orderI [OF d(1) r] b s)
  then show ?thesis
    using save_sound [OF s wf r conjunct1 [OF w]] row_changed [where f = "blocked_row now", OF sv d(1) r] by simp
qed

lemma forget_due_goes:
  assumes wf: "wf_work_orders d" and r: "r \<in> set (wk_rows d)" and due: "due_to_forget cutoff r"
  shows "\<exists>d'. anonymize_due_work_order cutoff now (wo_id r) d = Inr (True, d') \<and> wf_work_orders d'
    \<and> wk_rows d' = map (\<lambda>x. if wo_id x = wo_id r then forgotten_row now x else x) (wk_rows d)"
proof -
  let ?e = "restore_work_order (work_order_as_read r)"
  have d: "distinct (map wo_id (wk_rows d))" "distinct (sale_orders (wk_rows d))" and so: "sound_work_order r"
    using wf r by (simp_all add: wf_work_orders_def list_all_iff)
  have c: "wo_closed_at r \<noteq> None" "wo_anonymized_at r = None" "closed_by cutoff ?e"
    using due by (auto simp: due_to_forget_def closed_at_or_before_def closed_by_def split: option.splits)
  then have "is_closed (wo_status r)" using so by (simp add: sound_work_order_def)
  with c(2) obtain e' where e: "anonymize_work_order now ?e = Inr e'"
    by (simp add: anonymize_work_order_def work_order_anonymized_def)
  note w = anonymize_works [OF e so]
  have i: "wo_id r = wo_id (we_state e')" "wo_version r = wo_version (we_state e')"
    using w(1) by (simp_all add: works_on_def)
  from save_work_order_goes [OF r i d w(6) w(3) w(4)] obtain d' where s: "save_work_order e' d = Inr d'" by auto
  have sv: "saved_work_order e' r = forgotten_row now r" by (simp add: w(2) forgotten_row_def)
  have "anonymize_due_work_order cutoff now (wo_id r) d = Inr (True, d')"
    using c by (simp add: anonymize_due_work_order_def find_work_orderI [OF d(1) r] work_order_anonymized_def
        anonymize_and_save_def e s)
  then show ?thesis
    using save_sound [OF s wf r w(1)] row_changed [where f = "forgotten_row now", OF sv d(1) r] by simp
qed

end
