(* ===== verification/WorkOrderGuarantees.thy ===== *)
theory WorkOrderGuarantees
  imports WorkOrdersOk StoreSteps
begin

text \<open>
  What can be relied on of the work orders: their tables stay consistent however the transactions overlap, one that is
  over only has the data of its customer hidden and then taken away, the retention reaches every one that is due, and
  what is hidden is seen nowhere.
\<close>

section \<open>A small workshop\<close>

definition small_shop :: work_context where
  "small_shop =
     \<lparr>wx_identity = \<lparr>id_accounts = [], id_roles = [], id_tokens = [], id_verifications = [], id_resets = []\<rparr>,
      wx_store = new_store
        [\<lparr>wh_id = 1, wh_code = ''GDL'', wh_name = ''Guadalajara'', wh_address = None, wh_status = ActiveWarehouse,
          wh_priority = 1\<rparr>] True None\<rparr>"

definition small_details :: work_details where
  "small_details =
     \<lparr>wd_customer = None, wd_name = '' Ana Paz '', wd_phone = ''3312345678'', wd_email = Some ''ANA@mail.mx'',
      wd_type = ''Laptop'', wd_brand = Some ''Acme'', wd_model = None, wd_serial = Some ''S-1'', wd_accessories = None,
      wd_condition = None, wd_fault = ''Does not start'', wd_diagnosis = None, wd_work = None, wd_estimate = None,
      wd_technician = None\<rparr>"

definition no_work_orders :: work_orders_db where
  "no_work_orders = \<lparr>wk_rows = [], wk_history = [], wk_numbers = []\<rparr>"

lemma no_work_orders_wf: "wf_work_orders no_work_orders"
  by code_simp

text \<open>Transactions one after the other, each with how many of those before it its reading missed.\<close>

fun work_on :: "work_orders_db list \<Rightarrow> (nat \<times> work_order_event) list \<Rightarrow> work_orders_db list result" where
  "work_on h [] = Inr h"
| "work_on h ((k, ev) # evs) =
     (if k < length h then res_bind (work_step small_shop (h ! k) (hd h) ev) (\<lambda>db'. work_on (db' # h) evs)
      else Inl (PlainError []))"

lemma work_on_history: "work_on h evs = Inr h' \<Longrightarrow> work_order_history h \<Longrightarrow> work_order_history h'"
proof (induction h evs rule: work_on.induct)
  case (2 h k ev evs)
  then obtain db' where k: "k < length h" and s: "work_step small_shop (h ! k) (hd h) ev = Inr db'"
    and p: "work_on (db' # h) evs = Inr h'"
    by (auto simp: res_bind_eq_Inr split: if_splits)
  from k obtain db past where h: "h = db # past" by (cases h) auto
  have "work_order_history (db' # h)"
    unfolding h by (rule work_order_history.step) (use k s h 2(3) nth_mem [OF k] in auto)
  from 2(1) [OF k p this] show ?case .
qed simp

lemma workshop_run:
  assumes "returned (\<lambda>h. case h of db # past \<Rightarrow> p db past | [] \<Rightarrow> False) (work_on [no_work_orders] evs)"
  shows "\<exists>db past. work_order_history (db # past) \<and> p db past"
proof -
  from returnedD [OF assms] obtain h where h: "work_on [no_work_orders] evs = Inr h"
    and c: "case h of db # past \<Rightarrow> p db past | [] \<Rightarrow> False" by blast
  have "work_order_history h"
    by (rule work_on_history [OF h work_order_history.start [OF no_work_orders_wf]])
  with c show ?thesis by (cases h) auto
qed

definition repaired :: "(nat \<times> work_order_event) list" where
  "repaired =
     [(0, ReceiveEquipment 50 1 small_details 1 9 100), (0, MoveWorkOrder 50 WO_READY None 9 1 200),
      (0, MoveWorkOrder 50 WO_DELIVERED None 9 2 300)]"

section \<open>However they overlap\<close>

text \<open>
  C21. However the transactions on the work orders overlap, each work order is in the status its history leads to,
  forward and cancelled only with a note; it is closed exactly when delivered or cancelled; an anonymized one has none of the
  data of its customer; no sale pays for two; and no two share a folio.
\<close>

theorem work_orders_stay_consistent:
  assumes "work_order_history (db # past)"
  shows "wf_work_orders db"
  using work_history_sound [OF assms] by simp

theorem work_orders_stay_consistent_witness:
  "\<exists>db. wf_work_orders db \<and> map wo_status (wk_rows db) = [WO_DELIVERED]"
proof -
  have "returned (\<lambda>h. case h of db # past \<Rightarrow> map wo_status (wk_rows db) = [WO_DELIVERED] | [] \<Rightarrow> False)
    (work_on [no_work_orders] repaired)"
    by code_simp
  from workshop_run [OF this] obtain db :: work_orders_db and past where
    h: "work_order_history (db # past)" and s: "map wo_status (wk_rows db) = [WO_DELIVERED]"
    by (elim exE conjE) (rule that)
  show ?thesis by (rule exI [of _ db], rule conjI [OF work_orders_stay_consistent [OF h] s])
qed

text \<open>
  C20. A work order that was delivered or cancelled stays as it was, with its history, whatever is done later and by
  whoever read it before: only the data of its customer is hidden, and then taken away for good.
\<close>

theorem closed_work_orders_only_hidden:
  assumes "work_order_history (db # past)" and "p \<in> set past" and "r \<in> set (wk_rows p)" and "is_closed (wo_status r)"
  shows "\<exists>s. s \<in> set (wk_rows db) \<and> wo_id s = wo_id r \<and> only_hidden r s
    \<and> work_history_of (wo_id r) db = work_history_of (wo_id r) p"
proof -
  have "work_goes_on p db" using work_history_sound [OF assms(1)] assms(2) by simp
  then have k: "kept_on p db r" using assms(3) by (simp add: work_goes_on_def)
  then obtain s where "s \<in> set (wk_rows db)" "later_row r s" unfolding kept_on_def by blast
  then show ?thesis using k assms(4) unfolding kept_on_def later_row_def by auto
qed

theorem closed_work_orders_only_hidden_witness:
  "\<exists>db p r s. r \<in> set (wk_rows p) \<and> is_closed (wo_status r) \<and> wo_name r = Some ''Ana Paz'' \<and> s \<in> set (wk_rows db)
    \<and> only_hidden r s \<and> work_history_of (wo_id r) db = work_history_of (wo_id r) p
    \<and> list_all (\<lambda>w. wo_name w = None) (wk_rows db)"
proof -
  have "returned (\<lambda>h. case h of db # past \<Rightarrow>
      (case past of _ # p # _ \<Rightarrow>
         (case wk_rows p of [r] \<Rightarrow> is_closed (wo_status r) \<and> wo_name r = Some ''Ana Paz'' \<and> list_all (\<lambda>w. wo_name w = None) (wk_rows db)
          | _ \<Rightarrow> False)
       | _ \<Rightarrow> False) | [] \<Rightarrow> False)
    (work_on [no_work_orders] (repaired @ [(0, BlockDueWorkOrder 400 500 50), (0, AnonymizeDueWorkOrder 400 600 50)]))"
    by code_simp
  from workshop_run [OF this] obtain db :: work_orders_db and past where
    h: "work_order_history (db # past)" and c: "case past of _ # p # _ \<Rightarrow>
         (case wk_rows p of [r] \<Rightarrow> is_closed (wo_status r) \<and> wo_name r = Some ''Ana Paz'' \<and> list_all (\<lambda>w. wo_name w = None) (wk_rows db)
          | _ \<Rightarrow> False)
       | _ \<Rightarrow> False" by blast
  from c obtain q p qs r where past: "past = q # p # qs" and r: "wk_rows p = [r]" "is_closed (wo_status r)"
      "wo_name r = Some ''Ana Paz''" "list_all (\<lambda>w. wo_name w = None) (wk_rows db)"
    by (auto split: list.splits)
  have "p \<in> set past" "r \<in> set (wk_rows p)" by (simp_all add: past r)
  from closed_work_orders_only_hidden [OF h this r(2)] r show ?thesis by (metis list.set_intros(1))
qed

section \<open>The retention reaches what is due\<close>

lemma oldest_closed_taken:
  obtains ss where "oldest_closed limit ws = map wo_id (take limit ss)" "mset ss = mset ws"
  using that [of "sort_key (\<lambda>w. case wo_closed_at w of None \<Rightarrow> 0 | Some at \<Rightarrow> at) (sort_key wo_id ws)"]
  by (simp add: oldest_closed_def take_map)

lemma due_rows:
  assumes wf: "wf_work_orders db" and l: "ids = oldest_closed limit (filter P (wk_rows db))"
  obtains rs where "ids = map wo_id rs" "distinct (map wo_id rs)" "set rs \<subseteq> set (wk_rows db)" "list_all P rs"
    and "length rs = min limit (length (filter P (wk_rows db)))"
proof -
  obtain ss where ss: "oldest_closed limit (filter P (wk_rows db)) = map wo_id (take limit ss)"
    "mset ss = mset (filter P (wk_rows db))"
    by (rule oldest_closed_taken)
  have s: "set ss = set (filter P (wk_rows db))" using ss(2) by (metis set_mset_mset)
  have d: "distinct (map wo_id (wk_rows db))" using wf by (simp add: wf_work_orders_def)
  have "distinct (map wo_id (filter P (wk_rows db)))" using d by (auto simp: distinct_map intro: inj_on_subset)
  then have "distinct (map wo_id ss)"
    using ss(2) by (metis (no_types, lifting) mset_eq_imp_distinct_iff mset_map)
  then have "distinct (map wo_id (take limit ss))" by (simp flip: take_map)
  moreover have "length ss = length (filter P (wk_rows db))" using ss(2) by (metis size_mset)
  moreover have "set (take limit ss) \<subseteq> set (filter P (wk_rows db))" using s set_take_subset by fastforce
  ultimately have "set (take limit ss) \<subseteq> set (wk_rows db)" "list_all P (take limit ss)"
    "length (take limit ss) = min limit (length (filter P (wk_rows db)))"
    by (auto simp: list_all_iff)
  with \<open>distinct (map wo_id (take limit ss))\<close> show thesis using that ss(1) l by metis
qed

text \<open>A pass over a batch leaves as many due rows as there were beyond it.\<close>

lemma due_left:
  assumes d: "distinct (map wo_id ws)" and rs: "distinct (map wo_id rs)" "set rs \<subseteq> set ws" "list_all P rs"
    and n: "length rs = min limit (length (filter P ws))" and ch: "\<And>r. P r \<Longrightarrow> \<not> P (change r)"
  shows "length (filter P (map (\<lambda>r. if wo_id r \<in> wo_id ` set rs then change r else r) ws)) = length (filter P ws) - limit"
proof -
  have "inj_on wo_id (set ws)" using d by (simp add: distinct_map)
  then have same: "map (\<lambda>r. if wo_id r \<in> wo_id ` set rs then change r else r) ws = map (\<lambda>r. if r \<in> set rs then change r else r) ws"
    by (intro map_cong refl) (simp add: inj_on_image_mem_iff [OF _ _ rs(2)])
  have "distinct ws" "distinct rs" using d rs(1) by (simp_all add: distinct_map)
  from length_filter_changed [OF this rs(2,3), of change] ch
  have "length (filter P (map (\<lambda>r. if wo_id r \<in> wo_id ` set rs then change r else r) ws)) = length (filter P ws) - length rs"
    unfolding same by blast
  then show ?thesis unfolding n by (simp add: min_def)
qed

text \<open>How many work orders are still to be hidden, and how many still to be forgotten.\<close>

definition still_to_block :: "time \<Rightarrow> work_orders_db \<Rightarrow> nat" where
  "still_to_block cutoff db =
     length (filter (\<lambda>w. closed_at_or_before cutoff w \<and> wo_blocked_at w = None \<and> wo_anonymized_at w = None) (wk_rows db))"

definition still_to_forget :: "time \<Rightarrow> work_orders_db \<Rightarrow> nat" where
  "still_to_forget cutoff db =
     length (filter (\<lambda>w. closed_at_or_before cutoff w \<and> wo_anonymized_at w = None) (wk_rows db))"

lemma still_due:
  "still_to_block c db = length (filter (due_to_block c) (wk_rows db))"
  "still_to_forget c db = length (filter (due_to_forget c) (wk_rows db))"
  by (simp_all add: still_to_block_def still_to_forget_def due_to_block_def [abs_def] due_to_forget_def [abs_def])

lemma block_all:
  assumes wf: "wf_work_orders db" and tally: "\<And>t. wn_failed (tally t) = wn_failed t"
  shows "\<exists>t db' ids. fold (retain_next tally (block_due_work_order cutoff now))
      (work_orders_to_block cutoff WORK_ORDER_BATCH_SIZE db) (t0, db) = (t, db') \<and> wn_failed t = wn_failed t0
    \<and> wf_work_orders db' \<and> wk_rows db' = map (\<lambda>r. if wo_id r \<in> ids then blocked_row now r else r) (wk_rows db)
    \<and> still_to_block cutoff db' = still_to_block cutoff db - WORK_ORDER_BATCH_SIZE"
proof -
  have l: "work_orders_to_block cutoff WORK_ORDER_BATCH_SIZE db
      = oldest_closed WORK_ORDER_BATCH_SIZE (filter (due_to_block cutoff) (wk_rows db))"
    by (simp add: work_orders_to_block_def due_to_block_def [abs_def])
  from due_rows [OF wf l] obtain rs where rs: "work_orders_to_block cutoff WORK_ORDER_BATCH_SIZE db = map wo_id rs"
    "distinct (map wo_id rs)" "set rs \<subseteq> set (wk_rows db)" "list_all (due_to_block cutoff) rs"
    and n: "length rs = min WORK_ORDER_BATCH_SIZE (length (filter (due_to_block cutoff) (wk_rows db)))"
    by blast
  have "wo_id (blocked_row now r) = wo_id r" for r by (simp add: blocked_row_def)
  from retain_each [of "due_to_block cutoff" "block_due_work_order cutoff now" "blocked_row now" tally,
      OF block_due_goes this tally wf rs(2-4), of t0]
  obtain t db' where f: "fold (retain_next tally (block_due_work_order cutoff now)) (map wo_id rs) (t0, db) = (t, db')"
    "wn_failed t = wn_failed t0" "wf_work_orders db'"
    and rows: "wk_rows db' = map (\<lambda>r. if wo_id r \<in> wo_id ` set rs then blocked_row now r else r) (wk_rows db)"
    by blast
  have "distinct (map wo_id (wk_rows db))" using wf by (simp add: wf_work_orders_def)
  moreover have "\<not> due_to_block cutoff (blocked_row now r)" for r
    by (simp add: due_to_block_def blocked_row_def without_customer_def)
  ultimately have "still_to_block cutoff db' = still_to_block cutoff db - WORK_ORDER_BATCH_SIZE"
    unfolding still_due rows by (rule due_left [OF _ rs(2-4) n])
  then show ?thesis using f rows unfolding rs(1) by blast
qed

lemma forget_all:
  assumes wf: "wf_work_orders db" and tally: "\<And>t. wn_failed (tally t) = wn_failed t"
  shows "\<exists>t db' ids. fold (retain_next tally (anonymize_due_work_order cutoff now))
      (work_orders_to_anonymize cutoff WORK_ORDER_BATCH_SIZE db) (t0, db) = (t, db') \<and> wn_failed t = wn_failed t0
    \<and> wf_work_orders db' \<and> wk_rows db' = map (\<lambda>r. if wo_id r \<in> ids then forgotten_row now r else r) (wk_rows db)
    \<and> still_to_forget cutoff db' = still_to_forget cutoff db - WORK_ORDER_BATCH_SIZE"
proof -
  have l: "work_orders_to_anonymize cutoff WORK_ORDER_BATCH_SIZE db
      = oldest_closed WORK_ORDER_BATCH_SIZE (filter (due_to_forget cutoff) (wk_rows db))"
    by (simp add: work_orders_to_anonymize_def due_to_forget_def [abs_def])
  from due_rows [OF wf l] obtain rs where rs: "work_orders_to_anonymize cutoff WORK_ORDER_BATCH_SIZE db = map wo_id rs"
    "distinct (map wo_id rs)" "set rs \<subseteq> set (wk_rows db)" "list_all (due_to_forget cutoff) rs"
    and n: "length rs = min WORK_ORDER_BATCH_SIZE (length (filter (due_to_forget cutoff) (wk_rows db)))"
    by blast
  have "wo_id (forgotten_row now r) = wo_id r" for r by (simp add: forgotten_row_def without_customer_def)
  from retain_each [of "due_to_forget cutoff" "anonymize_due_work_order cutoff now" "forgotten_row now" tally,
      OF forget_due_goes this tally wf rs(2-4), of t0]
  obtain t db' where f: "fold (retain_next tally (anonymize_due_work_order cutoff now)) (map wo_id rs) (t0, db) = (t, db')"
    "wn_failed t = wn_failed t0" "wf_work_orders db'"
    and rows: "wk_rows db' = map (\<lambda>r. if wo_id r \<in> wo_id ` set rs then forgotten_row now r else r) (wk_rows db)"
    by blast
  have "distinct (map wo_id (wk_rows db))" using wf by (simp add: wf_work_orders_def)
  moreover have "\<not> due_to_forget cutoff (forgotten_row now r)" for r
    by (simp add: due_to_forget_def forgotten_row_def without_customer_def)
  ultimately have "still_to_forget cutoff db' = still_to_forget cutoff db - WORK_ORDER_BATCH_SIZE"
    unfolding still_due rows by (rule due_left [OF _ rs(2-4) n])
  then show ?thesis using f rows unfolding rs(1) by blast
qed

lemma length_filter_same: "(\<And>x. p (g x) = p x) \<Longrightarrow> length (filter p (map g xs)) = length (filter p xs)"
  by (induction xs) simp_all

lemma changed_rows [simp]:
  "closed_at_or_before c (blocked_row now r) = closed_at_or_before c r"
  "closed_at_or_before c (forgotten_row now r) = closed_at_or_before c r"
  "wo_anonymized_at (blocked_row now r) = wo_anonymized_at r" "wo_blocked_at (blocked_row now r) = Some now"
  "wo_anonymized_at (forgotten_row now r) = Some now" "wo_blocked_at (forgotten_row now r) = wo_blocked_at r"
  by (simp_all add: blocked_row_def forgotten_row_def without_customer_def closed_at_or_before_def)

text \<open>What is asked of a row once the retention ran.\<close>

definition retained :: "time \<Rightarrow> time \<Rightarrow> work_order \<Rightarrow> bool" where
  "retained block_by forget_by w =
     ((closed_at_or_before block_by w \<longrightarrow> wo_blocked_at w \<noteq> None \<or> wo_anonymized_at w \<noteq> None)
      \<and> (closed_at_or_before forget_by w \<longrightarrow> wo_anonymized_at w \<noteq> None \<and> no_customer_data w))"

lemma length_filter_less: "(\<And>x. q (g x) \<Longrightarrow> p x) \<Longrightarrow> length (filter q (map g xs)) \<le> length (filter p xs)"
  by (induction xs) (auto simp: le_SucI)

text \<open>The whole run, when the policy is on.\<close>

lemma retain_run:
  fixes p now db
  defines "bb \<equiv> months_before now (wr_operational_months p)"
    and "ff \<equiv> months_before now (wr_operational_months p + wr_blocked_months p)"
  assumes wf: "wf_work_orders db" and en: "wr_enabled p"
  shows "\<exists>t d. retain_work_orders p now db = (t, d) \<and> wn_failed t = 0 \<and> wf_work_orders d
    \<and> still_to_block bb d \<le> still_to_block bb db - WORK_ORDER_BATCH_SIZE
    \<and> still_to_forget ff d = still_to_forget ff db - WORK_ORDER_BATCH_SIZE"
proof -
  let ?t = "\<lparr>wn_blocked = 0, wn_anonymized = 0, wn_failed = 0\<rparr>"
  have tallies: "wn_failed (t\<lparr>wn_blocked := wn_blocked t + 1\<rparr>) = wn_failed t"
    "wn_failed (t\<lparr>wn_anonymized := wn_anonymized t + 1\<rparr>) = wn_failed t" for t by simp_all
  from block_all [OF wf tallies(1), of bb now ?t]
  obtain t1 d1 ids1 where 1: "fold (retain_next (\<lambda>r. r\<lparr>wn_blocked := wn_blocked r + 1\<rparr>) (block_due_work_order bb now))
      (work_orders_to_block bb WORK_ORDER_BATCH_SIZE db) (?t, db) = (t1, d1)" "wn_failed t1 = 0"
    and wf1: "wf_work_orders d1"
    and rows1: "wk_rows d1 = map (\<lambda>r. if wo_id r \<in> ids1 then blocked_row now r else r) (wk_rows db)"
    and left1: "still_to_block bb d1 = still_to_block bb db - WORK_ORDER_BATCH_SIZE"
    by (elim exE conjE) (rule that, simp_all only: work_order_run.simps)
  from forget_all [OF wf1 tallies(2), of ff now t1]
  obtain t2 d2 ids2 where 2: "fold (retain_next (\<lambda>r. r\<lparr>wn_anonymized := wn_anonymized r + 1\<rparr>) (anonymize_due_work_order ff now))
      (work_orders_to_anonymize ff WORK_ORDER_BATCH_SIZE d1) (t1, d1) = (t2, d2)" "wn_failed t2 = wn_failed t1"
    and wf2: "wf_work_orders d2"
    and rows2: "wk_rows d2 = map (\<lambda>r. if wo_id r \<in> ids2 then forgotten_row now r else r) (wk_rows d1)"
    and left2: "still_to_forget ff d2 = still_to_forget ff d1 - WORK_ORDER_BATCH_SIZE"
    by (elim exE conjE) (rule that)
  have "still_to_forget ff d1 = still_to_forget ff db"
    unfolding still_due rows1 by (rule length_filter_same) (simp add: due_to_forget_def)
  moreover have "still_to_block bb d2 \<le> still_to_block bb d1"
    unfolding still_due rows2 by (rule length_filter_less) (auto simp: due_to_block_def split: if_splits)
  moreover have "retain_work_orders p now db = (t2, d2)"
    using 1(1) 2(1) en by (simp add: retain_work_orders_def Let_def bb_def ff_def)
  ultimately show ?thesis using 1(2) 2(2) wf2 left1 left2 by auto
qed

lemma nothing_due_retained:
  assumes wf: "wf_work_orders db" and b: "still_to_block block_by db = 0" and f: "still_to_forget forget_by db = 0"
  shows "list_all (retained block_by forget_by) (wk_rows db)"
proof -
  have "no_customer_data w" if "w \<in> set (wk_rows db)" "wo_anonymized_at w \<noteq> None" for w
    using that wf by (simp add: wf_work_orders_def list_all_iff sound_work_order_def)
  with b f show ?thesis
    by (auto simp: still_to_block_def still_to_forget_def list_all_iff retained_def filter_empty_conv)
qed

text \<open>
  C23. The retention never fails, whatever there is to do. A run takes a whole batch off what is still to be hidden and off
  what is still to be forgotten, so that any backlog goes down; and when no more were due than one batch, every work order
  closed long enough ago ends with the data of its customer hidden, and without it once the time it stays hidden is over
  too. A policy that is off changes nothing.
\<close>

theorem retention_reaches_what_is_due:
  assumes wf: "wf_work_orders db"
    and "b = months_before now (wr_operational_months p)"
    and "f = months_before now (wr_operational_months p + wr_blocked_months p)"
    and ran: "retain_work_orders p now db = (ran_as, db')"
  shows "wn_failed ran_as = 0
    \<and> (if wr_enabled p
       then still_to_block b db' \<le> still_to_block b db - WORK_ORDER_BATCH_SIZE
         \<and> still_to_forget f db' = still_to_forget f db - WORK_ORDER_BATCH_SIZE
         \<and> (still_to_block b db \<le> WORK_ORDER_BATCH_SIZE \<and> still_to_forget f db \<le> WORK_ORDER_BATCH_SIZE \<longrightarrow>
              list_all (retained b f) (wk_rows db'))
       else db' = db)"
proof (cases "wr_enabled p")
  case False
  then show ?thesis using ran by (auto simp: retain_work_orders_def Let_def)
next
  case True
  from retain_run [OF wf True, of now] ran assms(2,3) have r: "wn_failed ran_as = 0" "wf_work_orders db'"
    "still_to_block b db' \<le> still_to_block b db - WORK_ORDER_BATCH_SIZE"
    "still_to_forget f db' = still_to_forget f db - WORK_ORDER_BATCH_SIZE" by auto
  have "list_all (retained b f) (wk_rows db')"
    if "still_to_block b db \<le> WORK_ORDER_BATCH_SIZE" "still_to_forget f db \<le> WORK_ORDER_BATCH_SIZE"
    by (rule nothing_due_retained [OF r(2)]) (use that r(3,4) in simp_all)
  with r True show ?thesis by simp
qed

definition closed_bench :: work_orders_db where
  "closed_bench =
     (case work_on [no_work_orders] repaired of Inr (db # past) \<Rightarrow> db | _ \<Rightarrow> no_work_orders)"

theorem retention_reaches_what_is_due_witness:
  "\<exists>p now db'. list_all (retained (months_before now 1) (months_before now 2)) (wk_rows db')
    \<and> still_to_forget (months_before now 2) closed_bench = 1 \<and> still_to_forget (months_before now 2) db' = 0
    \<and> retain_work_orders p now closed_bench = (\<lparr>wn_blocked = 1, wn_anonymized = 1, wn_failed = 0\<rparr>, db')"
proof -
  let ?p = "\<lparr>wr_enabled = True, wr_operational_months = 1, wr_blocked_months = 1\<rparr>"
  let ?now = "31536000000 :: int"
  let ?b = "months_before ?now (wr_operational_months ?p)"
  let ?f = "months_before ?now (wr_operational_months ?p + wr_blocked_months ?p)"
  obtain ran_as db' where r: "retain_work_orders ?p ?now closed_bench = (ran_as, db')" by (cases "retain_work_orders ?p ?now closed_bench")
  have "fst (retain_work_orders ?p ?now closed_bench) = \<lparr>wn_blocked = 1, wn_anonymized = 1, wn_failed = 0\<rparr>" by code_simp
  with r have ran_as: "ran_as = \<lparr>wn_blocked = 1, wn_anonymized = 1, wn_failed = 0\<rparr>" by simp
  have wf: "wf_work_orders closed_bench" by code_simp
  have few: "still_to_block ?b closed_bench \<le> WORK_ORDER_BATCH_SIZE" "still_to_forget ?f closed_bench \<le> WORK_ORDER_BATCH_SIZE"
    "still_to_forget ?f closed_bench = 1" by code_simp+
  from retention_reaches_what_is_due [OF wf refl refl r] few
  have "list_all (retained ?b ?f) (wk_rows db')" "still_to_forget ?f db' = 0"
    by (simp_all add: WORK_ORDER_BATCH_SIZE_def)
  then show ?thesis using few(3) r ran_as by (intro exI [of _ ?p] exI [of _ ?now] exI [of _ db']) simp
qed

section \<open>What is hidden is seen nowhere\<close>

definition seen_row :: "work_order \<Rightarrow> work_order" where
  "seen_row w =
     (if wo_blocked_at w = None then w else (without_customer 0 w)\<lparr>wo_anonymized_at := wo_anonymized_at w\<rparr>)"

definition without_hidden :: "work_orders_db \<Rightarrow> work_orders_db" where
  "without_hidden db = db\<lparr>wk_rows := map seen_row (wk_rows db)\<rparr>"

lemma seen_fields [simp]:
  "wo_id (seen_row w) = wo_id w" "wo_received_at (seen_row w) = wo_received_at w"
  "wo_blocked_at (seen_row w) = wo_blocked_at w"
  by (simp_all add: seen_row_def without_customer_def)

lemma seen_view: "to_work_order_view n h (work_order_as_read (seen_row w)) = to_work_order_view n h (work_order_as_read w)"
  by (simp add: to_work_order_view_def seen_row_def without_customer_def shown_def work_order_as_read_def)

lemma seen_summary: "to_work_order_summary n (seen_row w) = to_work_order_summary n w"
  by (simp add: to_work_order_summary_def seen_row_def without_customer_def shown_def)

lemma seen_listed: "listed like f n (seen_row w) = listed like f n w"
proof (cases "wo_blocked_at w")
  case None
  then show ?thesis by (simp add: seen_row_def)
next
  case (Some at)
  then have "matches_search like q n (seen_row w) = matches_search like q n w" for q
    by (simp add: matches_search_def Let_def)
  moreover have "wo_status (seen_row w) = wo_status w" "wo_warehouse (seen_row w) = wo_warehouse w"
    "wo_technician (seen_row w) = wo_technician w" "wo_customer (seen_row w) = wo_customer w"
    by (simp_all add: seen_row_def without_customer_def)
  ultimately show ?thesis by (simp add: listed_def)
qed

lemma sort_key_seen: "(\<And>x. k (g x) = k x) \<Longrightarrow> sort_key k (map g xs) = map g (sort_key k xs)"
proof (induction xs)
  case (Cons x xs)
  have "insort_key k (g x) (map g ys) = map g (insort_key k x ys)" for ys
    by (induction ys) (simp_all add: Cons.prems)
  with Cons show ?case by simp
qed simp

lemma sorts_seen:
  "(\<And>c x. k c (g x) = k c x) \<Longrightarrow> foldr (\<lambda>c. sort_key (k c)) cs (map g xs) = map g (foldr (\<lambda>c. sort_key (k c)) cs xs)"
  by (induction cs) (simp_all add: sort_key_seen)

lemma number_seen [simp]: "number_of i (without_hidden db) = number_of i db"
  by (simp add: number_of_def without_hidden_def)

lemma history_seen [simp]: "work_history_of i (without_hidden db) = work_history_of i db"
  by (simp add: work_history_of_def without_hidden_def)

lemma view_seen: "view_work_order i (without_hidden db) = view_work_order i db"
proof -
  have "find (\<lambda>w. wo_id w = i) (map seen_row ws) = map_option seen_row (find (\<lambda>w. wo_id w = i) ws)" for ws
    by (induction ws) simp_all
  then show ?thesis
    unfolding view_work_order_def number_seen history_seen
    by (cases "find (\<lambda>w. wo_id w = i) (wk_rows db)") (simp_all add: without_hidden_def seen_view)
qed

lemma list_seen: "list_work_orders like f sorts page n (without_hidden db) = list_work_orders like f sorts page n db"
proof -
  have s: "sort_value (without_hidden db) c = sort_value db c" for c by (rule ext) (simp only: sort_value_def number_seen)
  have v: "sort_value db c (seen_row w) = sort_value db c w" for c w by (simp only: sort_value_def seen_fields)
  have "filter (\<lambda>w. listed like f (number_of (wo_id w) db) w) (map seen_row ws)
      = map seen_row (filter (\<lambda>w. listed like f (number_of (wo_id w) db) w) ws)" for ws
    by (induction ws) (simp_all add: seen_listed)
  then show ?thesis
    unfolding list_work_orders_def number_seen s
    by (simp add: without_hidden_def Let_def sort_key_seen sorts_seen [where g = seen_row and k = "sort_value db", OF v] drop_map take_map seen_summary)
qed

text \<open>
  C22. What is seen of the work orders, one by one, with its sales, or listed by any filter, does not depend on the data
  that is hidden: it is the same as if that data had been taken away.
\<close>

theorem hidden_data_is_seen_nowhere:
  "view_work_order i (without_hidden db) = view_work_order i db
   \<and> read_work_order_detail X i (without_hidden db) = read_work_order_detail X i db
   \<and> list_work_orders like f sorts page n (without_hidden db) = list_work_orders like f sorts page n db"
  by (simp add: view_seen list_seen read_work_order_detail_def)

end
