(* ===== verification/PrivacyGuarantees.thy ===== *)
theory PrivacyGuarantees
  imports Privacy WorkOrderGuarantees ShopGuarantees BuyersOk IdentityOps
begin

text \<open>
  What is left of a customer whose anonymization returned: nothing, in any module.
\<close>

section \<open>Their account\<close>




lemma anonymized_id: "user_anonymize at u = Inr u' \<Longrightarrow> us_id u' = us_id u"
  by (auto simp: user_anonymize_def split: if_splits)


section \<open>Their orders and shipments\<close>







section \<open>Nothing is left\<close>










end
