(* ===== verification/Spec2Isabelle.thy ===== *)
theory Spec2Isabelle
  imports ShopGuarantees StoreGuarantees PricingGuarantees EventGuarantees IdentityGuarantees PrivacyGuarantees
begin

text \<open>
  The API of base-shop, a shop that sells online and over the counter: what its modules do to the tables of the
  database, operation by operation, and what can be relied on as a consequence. Paths are under \<open>src/src\<close>,
  those of a module under \<open>modules\<close>.

  \<^bold>\<open>The program.\<close> Each module keeps its own tables and offers the others a facade. Shopping keeps the carts;
  Ordering turns one into an order and sees it through, asking Inventory to reserve, commit, release and restock
  its units, Payments to collect and refund its money, Shipping to send it, Promotions for its discount and its coupon,
  Pricing for the price of each variant and Shopping for its cart. What a module does to its tables happens in the
  transaction of the operation that asked for it. Payments and Shipping answer later, with domain events stored in the
  same transaction as what they tell, and delivered to Ordering afterwards, at least once each.

  \<^bold>\<open>The layers.\<close> \<open>Prelude\<close> has the result of what may throw, loops that stop at the first error, the
  numbers and texts of the language, and the interfaces of an entity with a life of its own: \<open>lifecycle\<close> (each
  operation keeps an invariant), \<open>guarded_lifecycle\<close> (it does for the calls that satisfy a condition) and
  \<open>status_machine\<close> (each operation moves a status along a relation). \<open>Errors\<close> has one constructor per error
  class of the program (\<open>shared-kernel/domain-error.ts\<close> and the error files of the modules), \<open>Money\<close> the
  amounts (\<open>shared-kernel/money.ts\<close>), \<open>Calendar\<close> and \<open>Cleanup\<close> the dates and batches of the
  periodic deletions (\<open>shared-kernel/cleanup.ts\<close>), with the interface \<open>batch_deletion\<close> of what is deleted
  so. A class of the domain is a record and its methods are functions that return it changed or an error; the tables of
  a module are a record of lists, its statements and use cases are functions on it.

  \<^item> \<^bold>\<open>Inventory\<close> (\<open>inventory\<close>): \<open>Allocation\<close> (\<open>domain/reservation.ts\<close>,
    \<open>domain/allocation.ts\<close>; interface \<open>allocation_policy\<close>), \<open>Stock\<close> (\<open>domain/stock.ts\<close>,
    \<open>warehouse.ts\<close>, \<open>restock-destinations.ts\<close>), \<open>StockLedger\<close> (the statements of the repositories,
    with the constraints of the migration), \<open>StockInvariant\<close> and \<open>Inventory\<close> (the facade and what the staff
    does).
  \<^item> \<^bold>\<open>Shopping\<close> (\<open>shopping\<close>): \<open>Cart\<close> (\<open>domain/cart.ts\<close>), \<open>Shopping\<close> (use cases,
    facade and repositories), \<open>ShopInvariant\<close>, \<open>ShopGuarantees\<close>.
  \<^item> \<^bold>\<open>Payments\<close> (\<open>payments\<close>): \<open>Payment\<close> (\<open>domain/payment.ts\<close>), \<open>Payments\<close>
    (facade, settings and repositories).
  \<^item> \<^bold>\<open>Shipping\<close> (\<open>shipping\<close>): \<open>Shipment\<close> (\<open>domain\<close>), \<open>Shipping\<close> (use cases, facade
    and repositories).
  \<^item> \<^bold>\<open>Promotions\<close> (\<open>promotions\<close>): \<open>Promotion\<close> (\<open>domain/promotion.ts\<close>),
    \<open>Discounts\<close> (\<open>domain/promotion-discounts.ts\<close>), \<open>Promotions\<close> (use cases, facade and
    repositories).
  \<^item> \<^bold>\<open>Pricing\<close> (\<open>pricing\<close>): \<open>VariantPrice\<close> (\<open>domain/variant-price.ts\<close>),
    \<open>Prices\<close> (use cases, facade and repositories), \<open>PricesSaved\<close>, \<open>PricesOk\<close>,
    \<open>PricingGuarantees\<close>.
  \<^item> \<^bold>\<open>Ordering\<close> (\<open>ordering\<close>): \<open>Order\<close> (\<open>domain/order.ts\<close>), \<open>PublicCode\<close>,
    \<open>Orders\<close> (the repository), \<open>AccessLinks\<close>, and over the tables of every module \<open>Store\<close> (the adapters
    Ordering calls them with), \<open>Placement\<close> (quoting and placing), \<open>Lifecycle\<close> (what happens to an order
    then) and \<open>Retention\<close> (the data of its buyer).
  \<^item> \<^bold>\<open>The whole store\<close>: \<open>StoreSteps\<close> has every operation of a buyer, the staff, a job or an event
    handler as one step over all the tables, with the events published so far; \<open>Evolution\<close>, \<open>Trails\<close>,
    \<open>ShippingTrail\<close>, \<open>CouponTrail\<close> and \<open>Modules\<close> what the tables of a module go on keeping while only
    its own operations change them (interface \<open>evolution\<close>); \<open>StoreInvariant\<close> what holds of the tables
    together; \<open>PlacementOk\<close>, \<open>PaymentOk\<close>, \<open>EventsOk\<close>, \<open>LifecycleOk\<close>, \<open>BuyersOk\<close> and
    \<open>StoreOk\<close> that each operation keeps it; \<open>Redelivery\<close> that an event delivered again finds its work done;
    \<open>StoreGuarantees\<close> what follows for every store that can be reached.
  \<^item> \<^bold>\<open>Domain events\<close> (\<open>platform/events\<close>, \<open>platform/persistence\<close>): \<open>Outbox\<close> (stored events
    and their deliveries), \<open>EventBus\<close> (publishing in a transaction with steps that may be undone, and
    dispatching), \<open>Deliveries\<close> (any number of instances delivering at once, as a step relation),
    \<open>Timely\<close> (runs where no attempt outlives its lease), \<open>EventRuns\<close> (the dispatcher as such runs),
    \<open>EventGuarantees\<close>.
  \<^item> \<^bold>\<open>Identity and access\<close> (\<open>identity-access\<close>): \<open>Roles\<close> (\<open>shared-kernel/permissions.ts\<close>,
    \<open>domain/role.ts\<close>), \<open>Users\<close> (\<open>domain/user.ts\<close>), \<open>Sessions\<close> (\<open>domain/session.ts\<close>
    and its repository), \<open>AccountLinks\<close> (the links to verify an email and to recover a password), \<open>Passwords\<close>
    (\<open>domain/password.ts\<close>, \<open>temporary-password.ts\<close>), \<open>Accounts\<close> (the repositories of accounts and
    roles), \<open>Identity\<close> (the use cases and the facade), \<open>AccountsOk\<close>, \<open>IdentityOk\<close>,
    \<open>IdentityOps\<close> and \<open>IdentitySound\<close> (each operation keeps the tables well formed), \<open>Superadmins\<close>,
    \<open>SavedAsRead\<close>, \<open>Privileges\<close>, \<open>SessionsEnd\<close>; \<open>AddressBook\<close> and \<open>AddressesOk\<close>
    (\<open>domain/address-book.ts\<close>, its repository and use cases: the saved addresses of a customer, stored as the book
    they were changed in); \<open>IdentityGuarantees\<close>.
  \<^item> \<^bold>\<open>Work orders\<close> (\<open>work-orders\<close>): \<open>WorkOrder\<close> (\<open>domain/work-order.ts\<close>, and
    \<open>domain/folio.ts\<close>: what is printed is read back), \<open>WorkOrders\<close> (repository, views, use cases and
    retention), \<open>WorkOrdersOk\<close> (each transaction keeps what a row and the tables keep, read when it may),
    \<open>WorkOrderGuarantees\<close>.
  \<^item> \<^bold>\<open>Privacy\<close> (\<open>privacy\<close>): \<open>Privacy\<close> (the anonymizations of customers and guests over the tables of
    all the modules they call), \<open>PrivacyGuarantees\<close>.

  \<^bold>\<open>Transactions and time.\<close> A use case is one transaction that locks what it reads to change, so the operations
  on one order, payment, cart or stock item follow each other and each is one step; an error leaves every table as
  it was. Where the code reads without a lock, what it read is a parameter: a reservation of stock is safe whatever it
  saw before its statements ran. The use cases of identity and access read the account they change without a lock, so each
  is a function of two tables, those that reading saw and those it changes, and a history (\<open>identity_history\<close>) lets
  the first be those of any moment before: the version of the account is what keeps them apart. The rest of such a use
  case is one step. A role is read where it is changed; what an overlap of two changes of one role, or of a sign-in with
  a recovery, would leave is shown in \<open>IdentityGuarantees\<close>. The staff changes a work order in the same way, with
  its version, and \<open>work_order_history\<close> is their history; blocking and anonymizing lock it. The statements of the
  outbox are steps of their own, since the instances that deliver hold no transaction between them. The clock is read
  once per operation and is an argument; what random generators draw is one too.

  \<^bold>\<open>What is shown.\<close> Of each aggregate: that every operation keeps what its constructor and the checks of its
  migration ask, how its status moves, which operations can still be done, and the functional behaviour of its rules
  (discounts fit their lines and the best one is chosen, totals add up, a warehouse plan takes what was asked from what
  there is). Of each module: that its tables keep their invariant whatever is called in whatever order, and what it
  promises its callers (stock is never oversold, a reservation is all or nothing and succeeds exactly when the stock is
  there, a coupon never goes over its limit, a customer has one active cart, the price in force never changes in the
  past). Of the store: goods leave only for paid orders, a paid order is collected, the uses of a coupon are the live
  orders that hold it, an order is placed at the total the buyer accepted, and a redelivered event changes nothing. Of
  identity and access: the tables stay well formed and a superadmin remains however operations overlap, an account is
  never saved over a change it did not see, nobody gains more than what those who asked for it held together, and a
  session or a link that is over is over for good; an address book is stored whole, with one default at most. Of the
  work orders: each is in the status its history leads to and no sale pays for two, one that is over only has the data
  of its customer hidden and then taken away, the retention reaches every one that is due when one run
  has room for them, and what is hidden is seen nowhere. Of privacy: an anonymized customer leaves nothing in any module.
  Of the events: a transaction stores those of what it did not undo, a delivery ends delivered only after its handler
  returned, and in a timely run it has one holder at a time and is never left behind.

  \<^bold>\<open>Bounds and fuel.\<close> Loops of the code are recursion on the list they go through, but for these. Deleting in
  batches counts the batches the code allows itself. Placing an order draws at most five public codes, as the
  code does. The cascade of the foreign key of merged carts runs once per cart of the table, which is as deep as it
  can get. An event is tried at most eight times, the code's bound. Amounts of money are integers with the code's
  range as a check, as \<open>Money\<close> explains; quotients the code floors from doubles are integer divisions, for the
  operands stay below \<open>2 ^ 53\<close>.

  \<^bold>\<open>Hypotheses.\<close> Identifiers drawn for new rows are new where a theorem says so, as random UUIDs are. A clock that
  does not go back is a hypothesis of what is said of past prices and of timely deliveries. What the catalog, the
  geographic catalog and the configuration answer are parameters, without hypotheses; so are the accounts for the other
  modules, the verification of passwords, the digest of tokens and how the database finds a text in another. That a token or the identifier of a session is not
  drawn again is a hypothesis where a theorem needs it, and that Unicode leaves ASCII as it is (\<open>ascii_stays\<close>) is
  one of what is said of temporary passwords.

  \<^bold>\<open>Not modelled.\<close> Controllers, requests and responses, and the listings and views of modules other than the work
  orders: they read and copy what the modelled tables hold. The localized texts, the emails, the files and the audit
  trail. The tables of the catalog, the geographic catalog and the notifications, of which the modelled modules see
  answers only. The responses kept for a repeated request, which an anonymization also forgets. The import of prices
  from a file. How an event is written as JSON: its content is a parameter. What the database itself does: its locks and
  isolation are the atomicity of a step. In identity and access, Argon2id, the signed access tokens and the limits of
  failed attempts.
\<close>

end
